(* ===== verification/Prelude.thy ===== *)
theory Prelude
  imports Main "HOL-Library.Word" "HOL-Library.AList" "HOL-Library.Product_Lexorder"
begin

text \<open>
  Shared vocabulary of the development: machine integers, Rust results, the two
  standard-library containers every component uses (a \<^verbatim>\<open>HashMap\<close> as an association list
  with distinct keys, iterator helpers such as \<^verbatim>\<open>min_by_key\<close>), and the two generic
  contracts the components interpret: an invariant of a transition system and a
  codec.
\<close>

unbundle bit_operations_syntax

type_synonym u8 = "8 word"
type_synonym u16 = "16 word"
type_synonym u32 = "32 word"
type_synonym u64 = "64 word"

named_theorems result_simps \<open>evaluation of Rust results\<close>
named_theorems limiter_simps \<open>what each limiter operation does to a reader\<close>

section \<open>Results\<close>

text \<open>
  \<^verbatim>\<open>Result<T, E>\<close> is \<open>'e + 'a\<close> with the error on the left; \<open>res_bind\<close> is the question mark
  operator, \<open>res_map\<close> is \<^verbatim>\<open>map\<close> and \<open>res_collect\<close> is \<^verbatim>\<open>collect::<Result<Vec<_>, _>>()\<close>,
  which stops at the first error.
\<close>

definition res_bind :: "'e + 'a \<Rightarrow> ('a \<Rightarrow> 'e + 'b) \<Rightarrow> 'e + 'b" where
  "res_bind r f = (case r of Inl e \<Rightarrow> Inl e | Inr a \<Rightarrow> f a)"

definition res_map :: "('a \<Rightarrow> 'b) \<Rightarrow> 'e + 'a \<Rightarrow> 'e + 'b" where
  "res_map f r = (case r of Inl e \<Rightarrow> Inl e | Inr a \<Rightarrow> Inr (f a))"

definition res_map_err :: "('e \<Rightarrow> 'f) \<Rightarrow> 'e + 'a \<Rightarrow> 'f + 'a" where
  "res_map_err f r = (case r of Inl e \<Rightarrow> Inl (f e) | Inr a \<Rightarrow> Inr a)"

definition ok_or :: "'e \<Rightarrow> 'a option \<Rightarrow> 'e + 'a" where
  "ok_or e x = (case x of None \<Rightarrow> Inl e | Some a \<Rightarrow> Inr a)"

fun res_collect :: "('a \<Rightarrow> 'e + 'b) \<Rightarrow> 'a list \<Rightarrow> 'e + 'b list" where
  "res_collect f [] = Inr []"
| "res_collect f (x # xs) =
     res_bind (f x) (\<lambda>y. res_bind (res_collect f xs) (\<lambda>ys. Inr (y # ys)))"

lemma res_bind_simps [simp, result_simps]:
  "res_bind (Inl e) f = Inl e" "res_bind (Inr a) f = f a"
  by (simp_all add: res_bind_def)

lemma res_map_simps [simp, result_simps]:
  "res_map f (Inl e) = Inl e" "res_map f (Inr a) = Inr (f a)"
  by (simp_all add: res_map_def)

lemma res_map_err_simps [simp, result_simps]:
  "res_map_err g (Inl e) = Inl (g e)" "res_map_err g (Inr a) = Inr a"
  by (simp_all add: res_map_err_def)

lemma ok_or_simps [simp, result_simps]:
  "ok_or e None = Inl e" "ok_or e (Some a) = Inr a"
  by (simp_all add: ok_or_def)

lemma res_bind_Inr_iff: "res_bind r f = Inr b \<longleftrightarrow> (\<exists>a. r = Inr a \<and> f a = Inr b)"
  by (cases r) auto

lemma res_map_Inr_iff: "res_map f r = Inr b \<longleftrightarrow> (\<exists>a. r = Inr a \<and> b = f a)"
  by (cases r) auto

lemma res_map_err_Inr_iff: "res_map_err f r = Inr b \<longleftrightarrow> r = Inr b"
  by (cases r) auto

lemma ok_or_Inr_iff: "ok_or e x = Inr a \<longleftrightarrow> x = Some a"
  by (cases x) auto

lemmas res_Inr_iffs = res_bind_Inr_iff res_map_Inr_iff res_map_err_Inr_iff ok_or_Inr_iff

lemma res_collect_Inr_iff:
  "res_collect f xs = Inr ys \<longleftrightarrow> list_all2 (\<lambda>x y. f x = Inr y) xs ys"
proof (induction xs arbitrary: ys)
  case Nil
  then show ?case by auto
next
  case (Cons x xs)
  then show ?case by (cases ys) (auto simp: res_bind_Inr_iff)
qed

lemma res_collect_length: "res_collect f xs = Inr ys \<Longrightarrow> length ys = length xs"
  by (auto simp: res_collect_Inr_iff dest: list_all2_lengthD)

section \<open>Iterators\<close>

text \<open>\<^verbatim>\<open>Iterator::min_by_key\<close>: the first element with the least key.\<close>

fun min_by_key :: "('a \<Rightarrow> 'k::linorder) \<Rightarrow> 'a list \<Rightarrow> 'a option" where
  "min_by_key k [] = None"
| "min_by_key k (x # xs) =
     (case min_by_key k xs of None \<Rightarrow> Some x
      | Some y \<Rightarrow> if k x \<le> k y then Some x else Some y)"

lemma min_by_key_None [simp]: "min_by_key k xs = None \<longleftrightarrow> xs = []"
  by (cases xs) (auto split: option.splits)

lemma min_by_key_Some:
  "min_by_key k xs = Some x \<Longrightarrow> x \<in> set xs \<and> (\<forall>y \<in> set xs. k x \<le> k y)"
proof (induction xs arbitrary: x)
  case Nil
  then show ?case by simp
next
  case (Cons a xs)
  show ?case
  proof (cases "min_by_key k xs")
    case None
    with Cons.prems show ?thesis by auto
  next
    case (Some y)
    with Cons.IH have "y \<in> set xs" "\<forall>z \<in> set xs. k y \<le> k z" by auto
    with Some Cons.prems show ?thesis by (auto split: if_splits)
  qed
qed

lemma min_by_key_inj_unique:
  assumes "inj_on k (set xs)" "set xs = set ys"
  shows "min_by_key k xs = min_by_key k ys"
proof (cases "min_by_key k xs")
  case None
  with assms(2) show ?thesis by (metis min_by_key_None set_empty)
next
  case (Some x)
  with assms(2) obtain y where y: "min_by_key k ys = Some y"
    by (metis min_by_key_None not_None_eq set_empty2)
  from min_by_key_Some [OF Some] min_by_key_Some [OF y] assms(2)
  have "k x = k y" "x \<in> set xs" "y \<in> set xs" by (auto intro: antisym)
  with assms(1) have "x = y" by (auto dest: inj_onD)
  with Some y show ?thesis by simp
qed

section \<open>Transition systems\<close>

text \<open>\<^verbatim>\<open>vec![0; n]\<close>: asking for more than \<^verbatim>\<open>isize::MAX\<close> bytes panics.\<close>

definition zeroed_vec :: "nat \<Rightarrow> nat \<Rightarrow> 'a::zero list option" where
  "zeroed_vec elem_bytes n = (if n * elem_bytes < 2 ^ 63 then Some (replicate n 0) else None)"

text \<open>
  States reachable from an initial state. A component gives its initial states and its
  step relation; what it promises in every reachable state is an invariant.
\<close>

inductive reachable :: "('s \<Rightarrow> bool) \<Rightarrow> ('s \<Rightarrow> 's \<Rightarrow> bool) \<Rightarrow> 's \<Rightarrow> bool"
  for init :: "'s \<Rightarrow> bool" and step :: "'s \<Rightarrow> 's \<Rightarrow> bool" where
  reach_init: "init s \<Longrightarrow> reachable init step s"
| reach_step: "reachable init step s \<Longrightarrow> step s t \<Longrightarrow> reachable init step t"

locale invariant_system =
  fixes init :: "'s \<Rightarrow> bool"
    and step :: "'s \<Rightarrow> 's \<Rightarrow> bool"
    and inv :: "'s \<Rightarrow> bool"
  assumes inv_init: "init s \<Longrightarrow> inv s"
    and inv_step: "inv s \<Longrightarrow> step s t \<Longrightarrow> inv t"
begin

lemma reachable_inv: "reachable init step s \<Longrightarrow> inv s"
  by (induction rule: reachable.induct) (auto intro: inv_init inv_step)

lemma reachable_consequence: "reachable init step s \<Longrightarrow> (\<And>t. inv t \<Longrightarrow> P t) \<Longrightarrow> P s"
  using reachable_inv by blast

end

section \<open>Codecs\<close>

text \<open>
  What an encoder and its decoder promise each other on the values that are \<open>valid\<close>.
\<close>

locale codec =
  fixes valid :: "'v \<Rightarrow> bool"
    and enc :: "'v \<Rightarrow> 'w"
    and dec :: "'w \<Rightarrow> 'e + 'v"
  assumes round_trip: "valid v \<Longrightarrow> dec (enc v) = Inr v"
begin

lemma enc_inj: "valid v \<Longrightarrow> valid w \<Longrightarrow> enc v = enc w \<Longrightarrow> v = w"
  using round_trip by (metis sum.inject(2))

text \<open>What the encoder wrote is a fixed point of decoding and encoding again.\<close>

lemma canonical: "valid v \<Longrightarrow> w = enc v \<Longrightarrow> dec w = Inr u \<Longrightarrow> enc u = w"
  using round_trip by simp

end

end
