(* ===== verification/Limiter.thy ===== *)
theory Limiter
  imports Prelude "HOL-Library.Multiset"
begin

text \<open>
  The fair-share admission of backend source reads, \<^verbatim>\<open>lucida-store/src/source_limiter.rs\<close>.

  \<^verbatim>\<open>State\<close> is the record \<open>lim_state\<close>; the \<^verbatim>\<open>HashMap\<close> of readers is an association list
  with distinct keys. A queued \<^verbatim>\<open>oneshot::Sender\<close> is the ticket number of its channel, and
  whether its receiver is still there when the sender fires is the argument \<open>alive\<close> (a
  cancelled \<^verbatim>\<open>acquire\<close> future has dropped its receiver). A Rust panic (\<^verbatim>\<open>expect\<close>, or an
  unsigned counter taken below zero) is the value \<open>None\<close>.

  \<open>lim_sys\<close> adds what the code outside the lock holds: the multiset of readers that own
  a live \<^verbatim>\<open>SourcePermit\<close> and the tickets whose receivers are gone; \<open>lim_step\<close> has one rule
  per thing a task can do.
\<close>

type_synonym reader_id = u64
type_synonym ticket = nat

definition UNATTRIBUTED :: reader_id where
  "UNATTRIBUTED = - 1"

record reader_state =
  in_flight :: nat
  waiters :: "ticket list"
  last_granted :: nat

record lim_state =
  available :: nat
  readers :: "(reader_id \<times> reader_state) list"
  granted :: nat

definition lim_new :: "nat \<Rightarrow> lim_state" where
  "lim_new total_permits = \<lparr>available = total_permits, readers = [], granted = 0\<rparr>"

definition tracked_readers :: "lim_state \<Rightarrow> nat" where
  "tracked_readers st = length (readers st)"

definition queued_reads :: "lim_state \<Rightarrow> nat" where
  "queued_reads st = sum_list (map (\<lambda>(_, entry). length (waiters entry)) (readers st))"

text \<open>
  \<^verbatim>\<open>reader_mut\<close> hands out the reader's entry, made as if just served when it is new; the
  caller's writes to it are the function \<open>f\<close>.
\<close>

definition reader_entry :: "lim_state \<Rightarrow> reader_id \<Rightarrow> reader_state" where
  "reader_entry st reader =
     (case map_of (readers st) reader of
        Some entry \<Rightarrow> entry
      | None \<Rightarrow> \<lparr>in_flight = 0, waiters = [], last_granted = granted st\<rparr>)"

definition reader_mut :: "reader_id \<Rightarrow> (reader_state \<Rightarrow> reader_state) \<Rightarrow> lim_state \<Rightarrow> lim_state" where
  "reader_mut reader f st =
     st\<lparr>readers := AList.update reader (f (reader_entry st reader)) (readers st)\<rparr>"

definition admit :: "reader_id \<Rightarrow> lim_state \<Rightarrow> lim_state" where
  "admit reader st =
     (let g = granted st + 1;
          st1 = st\<lparr>available := available st - 1, granted := g\<rparr>
      in reader_mut reader
           (\<lambda>entry. entry\<lparr>in_flight := in_flight entry + 1, last_granted := g\<rparr>) st1)"

definition need_key :: "reader_id \<times> reader_state \<Rightarrow> nat \<times> nat \<times> u64" where
  "need_key = (\<lambda>(id, entry). (in_flight entry, last_granted entry, id))"

definition neediest_waiting_reader :: "lim_state \<Rightarrow> reader_id option" where
  "neediest_waiting_reader st =
     map_option fst
       (min_by_key need_key (filter (\<lambda>(_, entry). waiters entry \<noteq> []) (readers st)))"

definition prune :: "reader_id \<Rightarrow> lim_state \<Rightarrow> lim_state" where
  "prune reader st =
     (case map_of (readers st) reader of
        Some entry \<Rightarrow>
          if in_flight entry = 0 \<and> waiters entry = []
          then st\<lparr>readers := AList.delete reader (readers st)\<rparr> else st
      | None \<Rightarrow> st)"

text \<open>
  One pass of the \<^verbatim>\<open>acquire\<close> loop under the lock: either a permit is charged at once, or
  a fresh channel (\<open>ticket\<close>) is queued and the caller parks on it.
\<close>

datatype acquire_outcome = Admitted | Parked ticket

definition acquire :: "reader_id \<Rightarrow> ticket \<Rightarrow> lim_state \<Rightarrow> lim_state \<times> acquire_outcome" where
  "acquire reader t st =
     (if available st > 0 then (admit reader st, Admitted)
      else (reader_mut reader (\<lambda>entry. entry\<lparr>waiters := waiters entry @ [t]\<rparr>) st, Parked t))"

text \<open>The counters the lock protects, as functions of the reader.\<close>

definition flight :: "lim_state \<Rightarrow> reader_id \<Rightarrow> nat" where
  "flight st r = (case map_of (readers st) r of None \<Rightarrow> 0 | Some e \<Rightarrow> in_flight e)"

definition queue_of :: "lim_state \<Rightarrow> reader_id \<Rightarrow> ticket list" where
  "queue_of st r = (case map_of (readers st) r of None \<Rightarrow> [] | Some e \<Rightarrow> waiters e)"

text \<open>Undo a transfer to a waiter that has gone away: the error arm of the hand-off.\<close>

definition return_permit :: "reader_id \<Rightarrow> lim_state \<Rightarrow> lim_state" where
  "return_permit reader st =
     prune reader
       (reader_mut reader (\<lambda>entry. entry\<lparr>in_flight := in_flight entry - 1\<rparr>)
          (st\<lparr>available := available st + 1\<rparr>))"

definition pop_waiter :: "reader_id \<Rightarrow> lim_state \<Rightarrow> lim_state" where
  "pop_waiter reader = reader_mut reader (\<lambda>entry. entry\<lparr>waiters := tl (waiters entry)\<rparr>)"

section \<open>What each operation does to each reader\<close>

lemma map_of_reader_mut [limiter_simps]:
  "map_of (readers (reader_mut r f st)) = (map_of (readers st))(r \<mapsto> f (reader_entry st r))"
  by (simp add: reader_mut_def update_conv')

lemma reader_mut_frame [simp]:
  "available (reader_mut r f st) = available st"
  "granted (reader_mut r f st) = granted st"
  by (simp_all add: reader_mut_def)

lemma prune_frame [simp]:
  "available (prune r st) = available st" "granted (prune r st) = granted st"
  by (auto simp: prune_def split: option.splits)

lemma reader_entry_known: "map_of (readers st) r = Some e \<Longrightarrow> reader_entry st r = e"
  by (simp add: reader_entry_def)

lemma entry_flight [simp]: "in_flight (reader_entry st r) = flight st r"
  by (simp add: reader_entry_def flight_def split: option.splits)

lemma entry_queue [simp]: "waiters (reader_entry st r) = queue_of st r"
  by (simp add: reader_entry_def queue_of_def split: option.splits)

lemma flight_reader_mut [limiter_simps]:
  "flight (reader_mut r f st) r' =
     (if r' = r then in_flight (f (reader_entry st r)) else flight st r')"
  by (simp add: flight_def map_of_reader_mut)

lemma queue_reader_mut [limiter_simps]:
  "queue_of (reader_mut r f st) r' =
     (if r' = r then waiters (f (reader_entry st r)) else queue_of st r')"
  by (simp add: queue_of_def map_of_reader_mut)

lemma reader_entry_update_frame [simp]:
  "flight (st\<lparr>available := a\<rparr>) = flight st" "queue_of (st\<lparr>available := a\<rparr>) = queue_of st"
  "flight (st\<lparr>granted := g\<rparr>) = flight st" "queue_of (st\<lparr>granted := g\<rparr>) = queue_of st"
  by (simp_all add: fun_eq_iff flight_def queue_of_def)

lemma map_of_prune:
  "map_of (readers (prune r st)) =
     (if flight st r = 0 \<and> queue_of st r = [] then (map_of (readers st))(r := None)
      else map_of (readers st))"
  by (auto simp: prune_def flight_def queue_of_def delete_conv' fun_eq_iff split: option.splits)

lemma flight_prune [limiter_simps]: "flight (prune r st) = flight st"
  by (auto simp: fun_eq_iff flight_def map_of_prune queue_of_def split: option.splits)

lemma queue_prune [limiter_simps]: "queue_of (prune r st) = queue_of st"
  by (auto simp: fun_eq_iff flight_def map_of_prune queue_of_def split: option.splits)

lemma flight_admit [limiter_simps]:
  "flight (admit r st) r' = flight st r' + (if r' = r then 1 else 0)"
  by (simp add: admit_def Let_def flight_reader_mut)

lemma queue_admit [limiter_simps]: "queue_of (admit r st) = queue_of st"
  by (simp add: fun_eq_iff admit_def Let_def queue_reader_mut)

lemma admit_counters [limiter_simps]:
  "available (admit r st) = available st - 1" "granted (admit r st) = granted st + 1"
  by (simp_all add: admit_def Let_def)

lemma pop_waiter_effect [limiter_simps]:
  "flight (pop_waiter r st) = flight st"
  "queue_of (pop_waiter r st) r' = (if r' = r then tl (queue_of st r) else queue_of st r')"
  "available (pop_waiter r st) = available st" "granted (pop_waiter r st) = granted st"
  by (auto simp: pop_waiter_def fun_eq_iff flight_reader_mut queue_reader_mut)

lemma return_permit_effect [limiter_simps]:
  "flight (return_permit r st) r' = flight st r' - (if r' = r then 1 else 0)"
  "queue_of (return_permit r st) = queue_of st"
  "available (return_permit r st) = available st + 1"
  "granted (return_permit r st) = granted st"
  by (auto simp: return_permit_def fun_eq_iff flight_prune queue_prune flight_reader_mut
        queue_reader_mut)

section \<open>The choice of the next reader\<close>

definition keyed :: "lim_state \<Rightarrow> bool" where
  "keyed st \<longleftrightarrow> distinct (map fst (readers st))"

lemma keyed_reader_mut: "keyed st \<Longrightarrow> keyed (reader_mut r f st)"
  by (simp add: keyed_def reader_mut_def distinct_update)

lemma keyed_prune: "keyed st \<Longrightarrow> keyed (prune r st)"
  by (auto simp: keyed_def prune_def distinct_delete split: option.splits)

lemma keyed_counters: "keyed st \<Longrightarrow> keyed (st\<lparr>available := a\<rparr>)" "keyed st \<Longrightarrow> keyed (st\<lparr>granted := g\<rparr>)"
  by (simp_all add: keyed_def)

lemmas keyed_intros = keyed_reader_mut keyed_prune keyed_counters

lemma keyed_ops:
  "keyed st \<Longrightarrow> keyed (admit r st)" "keyed st \<Longrightarrow> keyed (pop_waiter r st)"
  "keyed st \<Longrightarrow> keyed (return_permit r st)"
  by (simp_all add: admit_def Let_def pop_waiter_def return_permit_def keyed_intros)

lemma waiting_entries:
  assumes "keyed st"
  shows "(r, e) \<in> set (filter (\<lambda>(_, entry). waiters entry \<noteq> []) (readers st)) \<longleftrightarrow>
         map_of (readers st) r = Some e \<and> waiters e \<noteq> []"
  using assms by (auto simp: keyed_def)

lemma neediest_None:
  assumes "keyed st"
  shows "neediest_waiting_reader st = None \<longleftrightarrow> (\<forall>r. queue_of st r = [])"
proof -
  have "neediest_waiting_reader st = None \<longleftrightarrow>
        set (filter (\<lambda>(_, entry). waiters entry \<noteq> []) (readers st)) = {}"
    by (simp only: neediest_waiting_reader_def option.map_disc_iff min_by_key_None set_empty)
  also have "\<dots> \<longleftrightarrow> (\<forall>r e. \<not> (map_of (readers st) r = Some e \<and> waiters e \<noteq> []))"
    using waiting_entries [OF assms] by (metis equals0D equals0I surj_pair)
  also have "\<dots> \<longleftrightarrow> (\<forall>r. queue_of st r = [])"
    by (auto simp: queue_of_def split: option.splits)
  finally show ?thesis .
qed

text \<open>The least recently served position of a tracked reader.\<close>

definition served_at :: "lim_state \<Rightarrow> reader_id \<Rightarrow> nat" where
  "served_at st r = last_granted (reader_entry st r)"

lemma neediest_Some:
  assumes "keyed st" "neediest_waiting_reader st = Some r"
  shows "queue_of st r \<noteq> []"
    and "queue_of st r' \<noteq> [] \<Longrightarrow>
           (flight st r, served_at st r, r) \<le> (flight st r', served_at st r', r')"
proof -
  let ?ws = "filter (\<lambda>(_, entry). waiters entry \<noteq> []) (readers st)"
  from assms(2) obtain e where m: "min_by_key need_key ?ws = Some (r, e)"
    by (auto simp: neediest_waiting_reader_def)
  note least = min_by_key_Some [OF m]
  from least waiting_entries [OF assms(1)]
  have e: "map_of (readers st) r = Some e" "waiters e \<noteq> []" by blast+
  from e show "queue_of st r \<noteq> []" by (simp add: queue_of_def)
  show "(flight st r, served_at st r, r) \<le> (flight st r', served_at st r', r')"
    if q: "queue_of st r' \<noteq> []"
  proof -
    from q obtain e' where e': "map_of (readers st) r' = Some e'" "waiters e' \<noteq> []"
      by (auto simp: queue_of_def split: option.splits)
    with waiting_entries [OF assms(1)] have "(r', e') \<in> set ?ws" by blast
    with least have "need_key (r, e) \<le> need_key (r', e')" by blast
    with e e' show ?thesis
      by (simp add: need_key_def flight_def served_at_def reader_entry_def)
  qed
qed

section \<open>The hand-off loop\<close>

lemma sum_alist_update:
  fixes g :: "'k \<times> 'v \<Rightarrow> nat"
  shows "sum_list (map g (AList.update k v al)) + (case map_of al k of None \<Rightarrow> 0 | Some w \<Rightarrow> g (k, w))
         = sum_list (map g al) + g (k, v)"
  by (induction al) (auto split: option.splits)

lemma queued_reader_mut:
  "queued_reads (reader_mut r f st) + length (queue_of st r) =
     queued_reads st + length (waiters (f (reader_entry st r)))"
  using sum_alist_update [of "\<lambda>(_, e). length (waiters e)" r "f (reader_entry st r)" "readers st"]
  by (auto simp: queued_reads_def reader_mut_def queue_of_def split: option.splits)

lemma queued_prune: "queued_reads (prune r st) \<le> queued_reads st"
proof -
  have "sum_list (map g (AList.delete k al)) \<le> sum_list (map g al)"
    for g :: "reader_id \<times> reader_state \<Rightarrow> nat" and k al
    by (induction al) auto
  then show ?thesis by (auto simp: queued_reads_def prune_def split: option.splits)
qed

lemma queued_admit: "queued_reads (admit r st) = queued_reads st"
proof -
  let ?st = "st\<lparr>available := available st - 1, granted := granted st + 1\<rparr>"
  have "queued_reads ?st = queued_reads st" by (simp add: queued_reads_def)
  then show ?thesis
    using queued_reader_mut [of r "\<lambda>e. e\<lparr>in_flight := in_flight e + 1, last_granted := granted st + 1\<rparr>" ?st]
    by (simp add: admit_def Let_def)
qed

lemma queued_return: "queued_reads (return_permit r st) \<le> queued_reads st"
proof -
  let ?st = "st\<lparr>available := available st + 1\<rparr>"
  have "queued_reads ?st = queued_reads st" by (simp add: queued_reads_def)
  then show ?thesis
    using queued_reader_mut [of r "\<lambda>e. e\<lparr>in_flight := in_flight e - 1\<rparr>" ?st]
    by (simp add: return_permit_def order_trans [OF queued_prune])
qed

lemma queued_pop: "queue_of st r = t # ts \<Longrightarrow> queued_reads (pop_waiter r st) < queued_reads st"
  using queued_reader_mut [of r "\<lambda>e. e\<lparr>waiters := tl (waiters e)\<rparr>" st]
  by (simp add: pop_waiter_def)

text \<open>
  The \<^verbatim>\<open>while\<close> loop of \<^verbatim>\<open>release\<close>: offer the freed permit to the neediest waiting reader,
  skipping waiters that have gone away. \<open>Some (st, got)\<close> names who received it; \<open>None\<close>
  is the panic of the \<^verbatim>\<open>expect\<close> on an empty queue. Each pass removes a waiter, so it ends.
\<close>

function handoff ::
  "(ticket \<Rightarrow> bool) \<Rightarrow> lim_state \<Rightarrow> (lim_state \<times> (reader_id \<times> ticket) option) option" where
  "handoff alive st =
     (if available st > 0 then
        (case neediest_waiting_reader st of
           None \<Rightarrow> Some (st, None)
         | Some nx \<Rightarrow>
             (case queue_of st nx of
                [] \<Rightarrow> None
              | t # _ \<Rightarrow>
                  (let st2 = admit nx (pop_waiter nx st)
                   in if alive t then Some (st2, Some (nx, t))
                      else handoff alive (return_permit nx st2))))
      else Some (st, None))"
  by pat_completeness auto
termination
proof (relation "measure (\<lambda>(alive, st). queued_reads st)", goal_cases)
  case 1
  show ?case by simp
next
  case (2 alive st nx t ts st2)
  then have "queued_reads st2 < queued_reads st"
    by (simp add: queued_admit queued_pop)
  then show ?case
    using le_less_trans [OF queued_return] by simp
qed

declare handoff.simps [simp del]

definition release ::
  "(ticket \<Rightarrow> bool) \<Rightarrow> reader_id \<Rightarrow> lim_state \<Rightarrow> (lim_state \<times> (reader_id \<times> ticket) option) option" where
  "release alive reader st =
     (case map_of (readers st) reader of
        None \<Rightarrow> None
      | Some entry \<Rightarrow>
          if in_flight entry = 0 then None
          else handoff alive (return_permit reader st))"

section \<open>The invariant of the lock\<close>

text \<open>
  \<open>held\<close> is the multiset of readers that own a live permit: every permit is either
  available or charged to exactly one of them, and a reader is tracked only while it
  holds or wants something.
\<close>

definition tracked :: "lim_state \<Rightarrow> reader_id \<Rightarrow> bool" where
  "tracked st r \<longleftrightarrow> map_of (readers st) r \<noteq> None"

definition lim_core :: "nat \<Rightarrow> reader_id multiset \<Rightarrow> lim_state \<Rightarrow> bool" where
  "lim_core cap held st \<longleftrightarrow>
     keyed st \<and> available st + size held = cap
     \<and> (\<forall>r. count held r = flight st r)
     \<and> (\<forall>r. tracked st r \<longrightarrow> 0 < flight st r \<or> queue_of st r \<noteq> [])
     \<and> (\<forall>r. served_at st r \<le> granted st)"

lemma served_reader_mut:
  "served_at (reader_mut r f st) r' =
     (if r' = r then last_granted (f (reader_entry st r)) else served_at st r')"
  by (auto simp: served_at_def reader_entry_def map_of_reader_mut split: option.splits)

lemma served_counters:
  "served_at (st\<lparr>available := a\<rparr>) = served_at st"
  "granted st \<le> g \<Longrightarrow> served_at st r \<le> granted st \<Longrightarrow> served_at (st\<lparr>granted := g\<rparr>) r \<le> g"
  by (auto simp: fun_eq_iff served_at_def reader_entry_def split: option.splits)

lemma served_prune:
  "served_at st r' \<le> granted st \<Longrightarrow> served_at (prune r st) r' \<le> granted st"
  by (auto simp: served_at_def reader_entry_def map_of_prune split: option.splits if_splits)

lemma served_admit:
  assumes "\<forall>r. served_at st r \<le> granted st"
  shows "served_at (admit r st) r' \<le> granted (admit r st)"
  using assms served_counters(2) [of "st\<lparr>available := available st - 1\<rparr>" "granted st + 1" r']
  by (auto simp: admit_def Let_def served_reader_mut served_counters(1))

lemma served_pop: "served_at (pop_waiter r st) = served_at st"
  by (rule ext) (simp add: pop_waiter_def served_reader_mut, simp add: served_at_def)

lemma served_return:
  assumes "\<forall>r. served_at st r \<le> granted st"
  shows "served_at (return_permit r st) r' \<le> granted st"
proof -
  let ?st = "reader_mut r (\<lambda>e. e\<lparr>in_flight := in_flight e - 1\<rparr>) (st\<lparr>available := available st + 1\<rparr>)"
  have "reader_entry (st\<lparr>available := available st + 1\<rparr>) r = reader_entry st r"
    by (simp add: reader_entry_def split: option.splits)
  then have "served_at ?st r' \<le> granted ?st"
    using assms by (auto simp: served_reader_mut served_counters(1) simp flip: served_at_def)
  from served_prune [OF this, of r] show ?thesis by (simp add: return_permit_def)
qed

lemma tracked_effect [limiter_simps]:
  "tracked (reader_mut r f st) r' \<longleftrightarrow> r' = r \<or> tracked st r'"
  "tracked (admit r st) r' \<longleftrightarrow> r' = r \<or> tracked st r'"
  "tracked (pop_waiter r st) r' \<longleftrightarrow> r' = r \<or> tracked st r'"
  "tracked (st\<lparr>available := a\<rparr>) r' \<longleftrightarrow> tracked st r'"
  "tracked (prune r st) r' \<longleftrightarrow>
     tracked st r' \<and> (r' = r \<longrightarrow> 0 < flight st r \<or> queue_of st r \<noteq> [])"
  by (auto simp: tracked_def admit_def Let_def pop_waiter_def map_of_reader_mut map_of_prune)

lemma core_new: "lim_core n {#} (lim_new n)"
  by (simp add: lim_core_def lim_new_def keyed_def flight_def served_at_def reader_entry_def
        tracked_def)

lemma core_take:
  assumes "lim_core cap held st" "0 < available st" "queue_of st r \<noteq> []"
  shows "lim_core cap (add_mset r held) (admit r (pop_waiter r st))"
  unfolding lim_core_def
proof (intro conjI allI impI)
  note c = assms(1) [unfolded lim_core_def]
  from c show "keyed (admit r (pop_waiter r st))" by (simp add: keyed_ops)
  from c assms(2) show "available (admit r (pop_waiter r st)) + size (add_mset r held) = cap"
    by (simp add: limiter_simps)
  fix r'
  from c show "count (add_mset r held) r' = flight (admit r (pop_waiter r st)) r'"
    by (simp add: limiter_simps)
  from c show "served_at (admit r (pop_waiter r st)) r' \<le> granted (admit r (pop_waiter r st))"
    by (intro served_admit) (simp add: served_pop limiter_simps)
  assume "tracked (admit r (pop_waiter r st)) r'"
  with c show "0 < flight (admit r (pop_waiter r st)) r' \<or>
               queue_of (admit r (pop_waiter r st)) r' \<noteq> []"
    by (auto simp: limiter_simps)
qed

lemma core_admit:
  assumes "lim_core cap held st" "0 < available st"
  shows "lim_core cap (add_mset r held) (admit r st)"
  using assms served_admit [of st r]
  by (auto simp: lim_core_def limiter_simps keyed_ops)

lemma core_park:
  assumes "lim_core cap held st"
  shows "lim_core cap held (reader_mut r (\<lambda>e. e\<lparr>waiters := waiters e @ [t]\<rparr>) st)"
  using assms
  by (auto simp: lim_core_def limiter_simps keyed_reader_mut served_reader_mut simp flip: served_at_def)

lemma core_return:
  assumes "lim_core cap held st" "r \<in># held"
  shows "lim_core cap (held - {#r#}) (return_permit r st)"
  unfolding lim_core_def
proof (intro conjI allI impI)
  note c = assms(1) [unfolded lim_core_def]
  from c show "keyed (return_permit r st)" by (simp add: keyed_ops)
  have "0 < size held" using assms(2) by (auto simp: size_eq_0_iff_empty intro: gr0I)
  with c assms(2) show "available (return_permit r st) + size (held - {#r#}) = cap"
    by (simp add: limiter_simps size_Diff_singleton)
  fix r'
  from c show "count (held - {#r#}) r' = flight (return_permit r st) r'"
    by (simp add: limiter_simps)
  from c show "served_at (return_permit r st) r' \<le> granted (return_permit r st)"
    by (simp add: served_return limiter_simps)
  assume "tracked (return_permit r st) r'"
  then have "tracked (prune r (reader_mut r (\<lambda>e. e\<lparr>in_flight := in_flight e - 1\<rparr>)
               (st\<lparr>available := available st + 1\<rparr>))) r'"
    by (simp only: return_permit_def)
  with c show "0 < flight (return_permit r st) r' \<or> queue_of (return_permit r st) r' \<noteq> []"
    by (auto simp: limiter_simps split: if_splits)
qed

section \<open>What a hand-off guarantees\<close>

definition receiver_of :: "(reader_id \<times> ticket) option \<Rightarrow> reader_id multiset" where
  "receiver_of got = (case got of None \<Rightarrow> {#} | Some (r, _) \<Rightarrow> {#r#})"

definition no_queue :: "lim_state \<Rightarrow> bool" where
  "no_queue st \<longleftrightarrow> (\<forall>r. queue_of st r = [])"

text \<open>The three ways one pass of the loop goes, given the invariant.\<close>

lemma handoff_stop:
  "available st = 0 \<or> keyed st \<and> no_queue st \<Longrightarrow> handoff alive st = Some (st, None)"
  using neediest_None [of st] by (auto simp: handoff.simps no_queue_def)

lemma handoff_pass:
  assumes "keyed st" "0 < available st" "\<not> no_queue st"
  obtains r t ts where "neediest_waiting_reader st = Some r" "queue_of st r = t # ts"
    "handoff alive st =
       (let st2 = admit r (pop_waiter r st)
        in if alive t then Some (st2, Some (r, t)) else handoff alive (return_permit r st2))"
proof -
  from assms(1,3) obtain r where r: "neediest_waiting_reader st = Some r"
    using neediest_None [of st] by (auto simp: no_queue_def)
  from neediest_Some(1) [OF assms(1) r] obtain t ts where q: "queue_of st r = t # ts"
    by (cases "queue_of st r") auto
  from r q assms(2) show thesis
    by (intro that [OF r q]) (simp add: handoff.simps [of alive st])
qed

lemma core_skip:
  assumes "lim_core cap held st" "0 < available st" "queue_of st r \<noteq> []"
  shows "lim_core cap held (return_permit r (admit r (pop_waiter r st)))"
  using core_return [OF core_take [OF assms], of r] by simp

lemma skip_effect:
  assumes "0 < available st"
  shows "available (return_permit r (admit r (pop_waiter r st))) = available st"
    and "flight (return_permit r (admit r (pop_waiter r st))) = flight st"
    and "queue_of (return_permit r (admit r (pop_waiter r st))) r' =
           (if r' = r then tl (queue_of st r) else queue_of st r')"
  using assms by (auto simp: limiter_simps fun_eq_iff)

lemma handoff_correct:
  assumes "lim_core cap held st" "1 < available st \<longrightarrow> no_queue st"
  shows "\<exists>st' got. handoff alive st = Some (st', got) \<and> lim_core cap (held + receiver_of got) st'
           \<and> (0 < available st' \<longrightarrow> no_queue st')"
  using assms
proof (induction "queued_reads st" arbitrary: st rule: less_induct)
  case less
  from less.prems(1) have keyed: "keyed st" by (simp add: lim_core_def)
  show ?case
  proof (cases "available st = 0 \<or> no_queue st")
    case True
    with keyed have "handoff alive st = Some (st, None)" by (auto intro: handoff_stop)
    with True less.prems(1) show ?thesis by (auto simp: receiver_of_def)
  next
    case False
    then have av: "0 < available st" and q: "\<not> no_queue st" by auto
    with less.prems(2) have one: "available st = 1" by auto
    from handoff_pass [OF keyed av q] obtain r t ts where
      r: "queue_of st r = t # ts" and
      eq: "handoff alive st =
             (let st2 = admit r (pop_waiter r st)
              in if alive t then Some (st2, Some (r, t)) else handoff alive (return_permit r st2))"
      by metis
    from r have ne: "queue_of st r \<noteq> []" by simp
    show ?thesis
    proof (cases "alive t")
      case True
      then have "handoff alive st = Some (admit r (pop_waiter r st), Some (r, t))"
        by (simp add: eq)
      moreover have "lim_core cap (held + receiver_of (Some (r, t))) (admit r (pop_waiter r st))"
        using core_take [OF less.prems(1) av ne] by (simp add: receiver_of_def)
      moreover have "available (admit r (pop_waiter r st)) = 0"
        using one by (simp add: limiter_simps)
      ultimately show ?thesis by simp
    next
      case False
      let ?st = "return_permit r (admit r (pop_waiter r st))"
      have "queued_reads ?st < queued_reads st"
        using queued_return [of r "admit r (pop_waiter r st)"] queued_pop [OF r]
        by (simp add: queued_admit)
      moreover have "lim_core cap held ?st" by (rule core_skip [OF less.prems(1) av ne])
      moreover have "\<not> 1 < available ?st" using one av by (simp add: skip_effect)
      ultimately show ?thesis using less.hyps [of ?st] False by (simp add: eq)
    qed
  qed
qed

text \<open>
  Whom the permit reaches: a waiter that is still there, the first such of its reader,
  and no reader with a live waiter has fewer reads in flight.
\<close>

lemma handoff_receiver:
  assumes "lim_core cap held st" "handoff alive st = Some (st', Some (r, t))"
  shows "alive t \<and> (\<exists>dead rest. queue_of st r = dead @ t # rest \<and> (\<forall>d \<in> set dead. \<not> alive d))
         \<and> (\<forall>r'. (\<exists>t' \<in> set (queue_of st r'). alive t') \<longrightarrow> flight st r \<le> flight st r')"
  using assms
proof (induction "queued_reads st" arbitrary: st rule: less_induct)
  case less
  from less.prems(1) have keyed: "keyed st" by (simp add: lim_core_def)
  from less.prems(2) keyed have "\<not> (available st = 0 \<or> no_queue st)"
    using handoff_stop [of st alive] by fastforce
  then have av: "0 < available st" and q: "\<not> no_queue st" by auto
  from handoff_pass [OF keyed av q] obtain n u us where
    n: "neediest_waiting_reader st = Some n" and u: "queue_of st n = u # us" and
    eq: "handoff alive st =
           (let st2 = admit n (pop_waiter n st)
            in if alive u then Some (st2, Some (n, u)) else handoff alive (return_permit n st2))"
    by metis
  from u have ne: "queue_of st n \<noteq> []" by simp
  show ?case
  proof (cases "alive u")
    case True
    with eq less.prems(2) have [simp]: "r = n" "t = u" by auto
    have "flight st n \<le> flight st r'" if "t' \<in> set (queue_of st r')" for r' t'
      using neediest_Some(2) [OF keyed n, of r'] that by (cases "queue_of st r'") (auto simp: less_eq_prod_def)
    then show ?thesis using True u by (auto intro: exI [of _ "[]"])
  next
    case False
    let ?st = "return_permit n (admit n (pop_waiter n st))"
    have "queued_reads ?st < queued_reads st"
      using queued_return [of n "admit n (pop_waiter n st)"] queued_pop [OF u]
      by (simp add: queued_admit)
    moreover have "lim_core cap held ?st" by (rule core_skip [OF less.prems(1) av ne])
    moreover have "handoff alive ?st = Some (st', Some (r, t))"
      using eq less.prems(2) False by simp
    ultimately have IH: "alive t" "\<exists>dead rest. queue_of ?st r = dead @ t # rest \<and> (\<forall>d \<in> set dead. \<not> alive d)"
      "\<forall>r'. (\<exists>t' \<in> set (queue_of ?st r'). alive t') \<longrightarrow> flight ?st r \<le> flight ?st r'"
      using less.hyps [of ?st] by blast+
    have queues: "queue_of ?st r' = (if r' = n then us else queue_of st r')" for r'
      using av u by (simp add: skip_effect)
    from IH(2) obtain dead rest where "queue_of ?st r = dead @ t # rest" "\<forall>d \<in> set dead. \<not> alive d"
      by blast
    with False u have "queue_of st r = (if r = n then u # dead else dead) @ t # rest"
      "\<forall>d \<in> set (if r = n then u # dead else dead). \<not> alive d"
      by (auto simp: queues split: if_splits)
    then have "\<exists>dead rest. queue_of st r = dead @ t # rest \<and> (\<forall>d \<in> set dead. \<not> alive d)"
      by blast
    moreover have "(\<exists>t' \<in> set (queue_of ?st r'). alive t') \<longleftrightarrow> (\<exists>t' \<in> set (queue_of st r'). alive t')" for r'
      using False u by (auto simp: queues)
    ultimately show ?thesis using IH(1,3) skip_effect(2) [OF av] by simp
  qed
qed

lemma release_correct:
  assumes "lim_core cap held st" "0 < available st \<longrightarrow> no_queue st" "r \<in># held"
  shows "\<exists>st' got. release alive r st = Some (st', got)
           \<and> lim_core cap (held - {#r#} + receiver_of got) st' \<and> (0 < available st' \<longrightarrow> no_queue st')"
proof -
  from assms(1,3) have fl: "0 < flight st r" by (auto simp: lim_core_def simp flip: count_greater_zero_iff)
  then obtain e where e: "map_of (readers st) r = Some e" "in_flight e \<noteq> 0"
    by (auto simp: flight_def split: option.splits)
  have "release alive r st = handoff alive (return_permit r st)"
    using e by (simp add: release_def)
  moreover have "1 < available (return_permit r st) \<longrightarrow> no_queue (return_permit r st)"
    using assms(2) by (simp add: limiter_simps no_queue_def)
  ultimately show ?thesis
    using handoff_correct [OF core_return [OF assms(1,3)], of alive] by simp
qed

section \<open>The limiter and its users\<close>

record lim_sys =
  lim :: lim_state
  held :: "reader_id multiset"
  gone :: "ticket list"
  next_ticket :: ticket

definition lim_sys_new :: "nat \<Rightarrow> lim_sys" where
  "lim_sys_new n = \<lparr>lim = lim_new n, held = {#}, gone = [], next_ticket = 0\<rparr>"

text \<open>
  A task asks for a permit and gets one or parks; a task that parked may be cancelled at
  any time; a permit is dropped, whether its holder finished or was cancelled, or its
  receiver went away after the permit was sent.
\<close>

inductive lim_step :: "lim_sys \<Rightarrow> lim_sys \<Rightarrow> bool" where
  ask_admitted:
    "acquire r (next_ticket s) (lim s) = (st, Admitted) \<Longrightarrow>
     lim_step s (s\<lparr>lim := st, held := add_mset r (held s)\<rparr>)"
| ask_parked:
    "acquire r (next_ticket s) (lim s) = (st, Parked t) \<Longrightarrow>
     lim_step s (s\<lparr>lim := st, next_ticket := Suc (next_ticket s)\<rparr>)"
| cancelled: "lim_step s (s\<lparr>gone := t # gone s\<rparr>)"
| permit_dropped:
    "r \<in># held s \<Longrightarrow> release (\<lambda>t. t \<notin> set (gone s)) r (lim s) = Some (st, got) \<Longrightarrow>
     lim_step s (s\<lparr>lim := st, held := held s - {#r#} + receiver_of got\<rparr>)"

definition lim_inv :: "nat \<Rightarrow> lim_sys \<Rightarrow> bool" where
  "lim_inv n s \<longleftrightarrow> lim_core n (held s) (lim s) \<and> (0 < available (lim s) \<longrightarrow> no_queue (lim s))"

lemma lim_inv_new: "lim_inv n (lim_sys_new n)"
  using core_new [of n]
  by (simp add: lim_inv_def lim_sys_new_def no_queue_def queue_of_def lim_new_def)

lemma no_queue_admit: "no_queue (admit r st) \<longleftrightarrow> no_queue st"
  by (simp add: no_queue_def limiter_simps)

lemma lim_inv_step: "lim_step s t \<Longrightarrow> lim_inv n s \<Longrightarrow> lim_inv n t"
proof (induction rule: lim_step.induct)
  case (ask_admitted r s st)
  then have "0 < available (lim s)" "st = admit r (lim s)"
    by (auto simp: acquire_def split: if_splits)
  with ask_admitted.prems show ?case
    by (auto simp: lim_inv_def core_admit no_queue_admit)
next
  case (ask_parked r s st t)
  then have "available (lim s) = 0"
    "st = reader_mut r (\<lambda>e. e\<lparr>waiters := waiters e @ [t]\<rparr>) (lim s)"
    by (auto simp: acquire_def split: if_splits)
  with ask_parked.prems show ?case by (auto simp: lim_inv_def core_park)
next
  case (cancelled s t)
  then show ?case by (simp add: lim_inv_def)
next
  case (permit_dropped r s st got)
  then show ?case
    using release_correct [of n "held s" "lim s" r "\<lambda>t. t \<notin> set (gone s)"]
    by (auto simp: lim_inv_def)
qed

interpretation limiter: invariant_system "\<lambda>s. s = lim_sys_new n" lim_step "lim_inv n" for n
  by unfold_locales (auto simp: lim_inv_new intro: lim_inv_step)

section \<open>Properties\<close>

lemma no_queue_queued: "keyed st \<Longrightarrow> no_queue st \<longleftrightarrow> queued_reads st = 0"
  by (force simp: no_queue_def queue_of_def queued_reads_def keyed_def split: option.splits)

lemma tracked_bound:
  assumes "lim_core cap hs st"
  shows "tracked_readers st \<le> size hs + queued_reads st"
proof -
  have entry: "1 \<le> in_flight e + length (waiters e)" if "(r, e) \<in> set (readers st)" for r e
  proof -
    from assms that have "map_of (readers st) r = Some e" by (simp add: lim_core_def keyed_def)
    with assms have "0 < in_flight e \<or> waiters e \<noteq> []"
      by (force simp: lim_core_def tracked_def flight_def queue_of_def)
    then show ?thesis by (cases "waiters e") auto
  qed
  have "tracked_readers st = (\<Sum>x\<leftarrow>readers st. 1)"
    by (simp add: tracked_readers_def sum_list_triv)
  also have "\<dots> \<le> (\<Sum>(r, e)\<leftarrow>readers st. in_flight e + length (waiters e))"
    using entry by (intro sum_list_mono) auto
  also have "\<dots> = (\<Sum>(r, e)\<leftarrow>readers st. in_flight e) + queued_reads st"
    by (simp add: queued_reads_def split_def sum_list_addf)
  also have "(\<Sum>(r, e)\<leftarrow>readers st. in_flight e) = sum (count hs) (fst ` set (readers st))"
  proof -
    have "(\<Sum>(r, e)\<leftarrow>readers st. in_flight e) = (\<Sum>x\<leftarrow>readers st. count hs (fst x))"
      using assms by (intro arg_cong [of _ _ sum_list] map_cong)
        (auto simp: lim_core_def flight_def keyed_def)
    also have "\<dots> = sum (\<lambda>x. count hs (fst x)) (set (readers st))"
      using assms by (intro sum_list_distinct_conv_sum_set) (simp add: lim_core_def keyed_def distinct_map)
    also have "\<dots> = sum (count hs) (fst ` set (readers st))"
      using assms by (subst sum.reindex) (auto simp: lim_core_def keyed_def distinct_map)
    finally show ?thesis .
  qed
  also have "\<dots> = sum (count hs) (fst ` set (readers st) \<inter> set_mset hs)"
    by (rule sum.mono_neutral_right) (auto simp: not_in_iff)
  also have "\<dots> \<le> size hs"
    unfolding size_multiset_overloaded_eq by (rule sum_mono2) auto
  finally show ?thesis by simp
qed

text \<open>
  A small run used to show that the hypotheses below can hold together: a cap of one,
  reader 5 admitted, readers 7 and 9 parked (tickets 0 and 1), and the first of these
  cancelled.
\<close>

definition demo_sys :: lim_sys where
  "demo_sys =
     \<lparr>lim = \<lparr>available = 0,
        readers = [(5, \<lparr>in_flight = 1, waiters = [], last_granted = 1\<rparr>),
                   (7, \<lparr>in_flight = 0, waiters = [0], last_granted = 1\<rparr>),
                   (9, \<lparr>in_flight = 0, waiters = [1], last_granted = 1\<rparr>)], granted = 1\<rparr>,
      held = {#5#}, gone = [0], next_ticket = Suc 1\<rparr>"

lemma demo_reachable: "reachable (\<lambda>s. s = lim_sys_new 1) lim_step demo_sys"
proof -
  note eval = acquire_def admit_def reader_mut_def reader_entry_def lim_new_def Let_def
    lim_sys_new_def demo_sys_def
  define s1 where "s1 = demo_sys\<lparr>lim := (lim demo_sys)\<lparr>readers := take 1 (readers (lim demo_sys))\<rparr>,
    gone := [], next_ticket := 0\<rparr>"
  define s2 where "s2 = demo_sys\<lparr>lim := (lim demo_sys)\<lparr>readers := take 2 (readers (lim demo_sys))\<rparr>,
    gone := [], next_ticket := 1\<rparr>"
  define s3 where "s3 = demo_sys\<lparr>gone := []\<rparr>"
  have "reachable (\<lambda>s. s = lim_sys_new 1) lim_step (lim_sys_new 1)" by (rule reach_init) simp
  moreover have "lim_step (lim_sys_new 1) s1"
    using ask_admitted [of 5 "lim_sys_new 1" "lim s1"] by (simp add: s1_def eval)
  moreover have "lim_step s1 s2"
    using ask_parked [of 7 s1 "lim s2" 0] by (simp add: s1_def s2_def eval)
  moreover have "lim_step s2 s3"
    using ask_parked [of 9 s2 "lim s3" 1] by (simp add: s2_def s3_def eval)
  moreover have "lim_step s3 demo_sys"
    using cancelled [of s3 0] by (simp add: s3_def demo_sys_def)
  ultimately show ?thesis by (blast intro: reach_step)
qed

text \<open>
  C2: the cap holds. In every reachable state of a limiter made with \<open>n\<close> permits, the
  permits available and the permits held add up to exactly \<open>n\<close>, and each reader is
  charged for exactly the permits it holds, whatever was cancelled or dropped when.
\<close>

theorem limiter_cap:
  assumes "reachable (\<lambda>s. s = lim_sys_new n) lim_step s"
  shows "available (lim s) + size (held s) = n \<and> (\<forall>r. flight (lim s) r = count (held s) r)"
  using limiter.reachable_inv [OF assms] by (simp add: lim_inv_def lim_core_def)

theorem limiter_cap_witness:
  "available (lim demo_sys) + size (held demo_sys) = 1 \<and> flight (lim demo_sys) 5 = 1"
  using limiter_cap [OF demo_reachable] by (simp add: demo_sys_def)

text \<open>
  returning a permit never panics. Both \<^verbatim>\<open>expect\<close>s of \<^verbatim>\<open>release\<close> (a held permit keeps
  its reader tracked; the neediest reader has a waiter) hold, and no counter goes below
  zero: whoever drops a permit, \<^verbatim>\<open>release\<close> returns.
\<close>

theorem limiter_release_total:
  assumes "reachable (\<lambda>s. s = lim_sys_new n) lim_step s" "r \<in># held s"
  shows "\<exists>st got. release (\<lambda>t. t \<notin> set (gone s)) r (lim s) = Some (st, got)"
  using limiter.reachable_inv [OF assms(1)] assms(2)
    release_correct [of n "held s" "lim s" r "\<lambda>t. t \<notin> set (gone s)"]
  by (auto simp: lim_inv_def)

theorem limiter_release_total_witness:
  "\<exists>st got. release (\<lambda>t. t \<notin> set (gone demo_sys)) 5 (lim demo_sys) = Some (st, got)"
  by (rule limiter_release_total [OF demo_reachable]) (simp add: demo_sys_def)

text \<open>
  The limiter is work-conserving. While a permit is free no read is queued, so a
  cancelled waiter never swallows a permit another reader is waiting for.
\<close>

theorem limiter_work_conserving:
  assumes "reachable (\<lambda>s. s = lim_sys_new n) lim_step s" "0 < available (lim s)"
  shows "queued_reads (lim s) = 0"
proof -
  have "lim_inv n s" using limiter.reachable_inv [OF assms(1)] .
  with assms(2) have "keyed (lim s)" "no_queue (lim s)" by (auto simp: lim_inv_def lim_core_def)
  then show ?thesis by (simp add: no_queue_queued)
qed

theorem limiter_work_conserving_witness:
  "0 < available (lim (lim_sys_new 3)) \<and> queued_reads (lim (lim_sys_new 3)) = 0"
proof -
  have "reachable (\<lambda>s. s = lim_sys_new 3) lim_step (lim_sys_new 3)" by (rule reach_init) simp
  moreover have "0 < available (lim (lim_sys_new 3))" by (simp add: lim_sys_new_def lim_new_def)
  ultimately show ?thesis using limiter_work_conserving by blast
qed

text \<open>
  C8: fair share. When a returned permit is passed on, it reaches a waiter that is
  still there, the first such in its reader's queue, and no reader with a live waiter
  has fewer reads in flight (counted after the return).
\<close>

theorem limiter_fair:
  assumes "reachable (\<lambda>s. s = lim_sys_new n) lim_step s" "r \<in># held s"
    and "release (\<lambda>t. t \<notin> set (gone s)) r (lim s) = Some (st, Some (w, t))"
  shows "t \<notin> set (gone s)
    \<and> (\<exists>dead rest. queue_of (lim s) w = dead @ t # rest \<and> set dead \<subseteq> set (gone s))
    \<and> (\<forall>w'. \<not> set (queue_of (lim s) w') \<subseteq> set (gone s) \<longrightarrow>
          flight (lim s) w - (if w = r then 1 else 0) \<le> flight (lim s) w' - (if w' = r then 1 else 0))"
proof -
  let ?alive = "\<lambda>t. t \<notin> set (gone s)"
  from limiter.reachable_inv [OF assms(1)] assms(2)
  have core: "lim_core n (held s - {#r#}) (return_permit r (lim s))"
    by (auto simp: lim_inv_def core_return)
  from assms(3) have "handoff ?alive (return_permit r (lim s)) = Some (st, Some (w, t))"
    by (auto simp: release_def split: option.splits if_splits)
  from handoff_receiver [OF core this] show ?thesis
    by (simp add: limiter_simps subset_iff split del: if_split) blast
qed

theorem limiter_fair_witness:
  "\<exists>st. release (\<lambda>t. t \<notin> set (gone demo_sys)) 5 (lim demo_sys) = Some (st, Some (9, 1))
     \<and> (1::ticket) \<notin> set (gone demo_sys)"
proof -
  note eval = demo_sys_def release_def return_permit_def prune_def admit_def reader_mut_def
    reader_entry_def pop_waiter_def queue_of_def neediest_waiting_reader_def need_key_def
  have "\<exists>st. release (\<lambda>t. t \<notin> set (gone demo_sys)) 5 (lim demo_sys) = Some (st, Some (9, 1))"
    by (simp add: eval handoff.simps)
  then obtain st where
    st: "release (\<lambda>t. t \<notin> set (gone demo_sys)) 5 (lim demo_sys) = Some (st, Some (9, 1))" ..
  have "5 \<in># held demo_sys" by (simp add: demo_sys_def)
  from limiter_fair [OF demo_reachable this st] st show ?thesis by blast
qed

text \<open>
  Bookkeeping follows demand. A reader is tracked exactly while it holds a permit or
  has a read queued, and there are never more tracked readers than permits held plus
  reads queued.
\<close>

theorem limiter_tracks_demand:
  assumes "reachable (\<lambda>s. s = lim_sys_new n) lim_step s"
  shows "(map_of (readers (lim s)) r \<noteq> None \<longleftrightarrow> r \<in># held s \<or> queue_of (lim s) r \<noteq> [])
    \<and> tracked_readers (lim s) \<le> size (held s) + queued_reads (lim s)"
proof -
  have core: "lim_core n (held s) (lim s)"
    using limiter.reachable_inv [OF assms] by (simp add: lim_inv_def)
  have "map_of (readers (lim s)) r = None \<Longrightarrow> r \<notin># held s \<and> queue_of (lim s) r = []"
    using core by (simp add: lim_core_def flight_def queue_of_def count_eq_zero_iff)
      (metis count_eq_zero_iff option.simps(4))
  moreover have "map_of (readers (lim s)) r \<noteq> None \<Longrightarrow> r \<in># held s \<or> queue_of (lim s) r \<noteq> []"
    using core by (auto simp: lim_core_def tracked_def simp flip: count_greater_zero_iff)
  ultimately show ?thesis using tracked_bound [OF core] by blast
qed

theorem limiter_tracks_demand_witness:
  "map_of (readers (lim demo_sys)) 9 \<noteq> None \<and> tracked_readers (lim demo_sys) \<le> 3"
  using limiter_tracks_demand [OF demo_reachable, of 9]
  by (simp add: demo_sys_def queued_reads_def)

text \<open>
  The next reader does not depend on the hash map's iteration order: two tables with
  the same entries choose the same neediest reader.
\<close>

theorem neediest_order_independent:
  assumes "distinct (map fst (readers st))" "mset (readers st') = mset (readers st)"
  shows "neediest_waiting_reader st' = neediest_waiting_reader st"
proof -
  let ?ws = "\<lambda>s. filter (\<lambda>(_, entry). waiters entry \<noteq> []) (readers s)"
  have "inj_on need_key (set (?ws st))"
    by (auto simp: inj_on_def need_key_def dest: eq_key_imp_eq_value [OF assms(1)])
  moreover have "set (?ws st) = set (?ws st')"
    using mset_eq_setD [OF assms(2)] by auto
  ultimately have "min_by_key need_key (?ws st) = min_by_key need_key (?ws st')"
    by (rule min_by_key_inj_unique)
  then show ?thesis by (simp add: neediest_waiting_reader_def)
qed

theorem neediest_order_independent_witness:
  "neediest_waiting_reader ((lim demo_sys)\<lparr>readers := rev (readers (lim demo_sys))\<rparr>) = Some 7"
proof -
  have "neediest_waiting_reader ((lim demo_sys)\<lparr>readers := rev (readers (lim demo_sys))\<rparr>) =
        neediest_waiting_reader (lim demo_sys)"
    by (rule neediest_order_independent) (simp_all add: demo_sys_def)
  then show ?thesis
    by (simp add: demo_sys_def neediest_waiting_reader_def need_key_def)
qed

end
