(* ===== verification/Flights.thy ===== *)
theory Flights
  imports Prelude
begin

text \<open>
  The single flight and the range merge of the cached store: \<^verbatim>\<open>ReadKey\<close>, \<^verbatim>\<open>Flights\<close> and
  \<^verbatim>\<open>LeaderGuard\<close> of \<^verbatim>\<open>lucida-store/src/cache.rs\<close>.

  Both hash maps are partial maps (the code never iterates over them). A broadcast
  channel is a number, and what is sent on it is collected as a list of deliveries, so
  that an operation of the table is a pure function of the table and the guard. A Rust
  panic is \<open>None\<close>. \<open>flights_sys\<close> adds the guards that are alive on some task's stack and
  the channels on which something has been sent.
\<close>

type_synonym label = nat
type_synonym flight_id = nat
type_synonym channel = nat

datatype byte_range = Bounded nat nat | Suffix nat

record read_key =
  rk_path :: string
  rk_range :: "byte_range option"

definition rk_new :: "string \<Rightarrow> byte_range option \<Rightarrow> read_key" where
  "rk_new p rng = \<lparr>rk_path = p, rk_range = rng\<rparr>"

definition bounded :: "read_key \<Rightarrow> (nat \<times> nat) option" where
  "bounded key = (case rk_range key of Some (Bounded s e) \<Rightarrow> Some (s, e) | _ \<Rightarrow> None)"

record in_flight_read =
  tx :: channel
  leader :: label
  owner :: flight_id

record queued_range =
  q_key :: read_key
  q_owner :: flight_id

record flights =
  reads :: "read_key \<rightharpoonup> in_flight_read"
  queued_ranges :: "string \<rightharpoonup> queued_range list"
  next_flight :: nat

record leader_guard =
  g_flight :: flight_id
  g_label :: label
  g_keys :: "read_key list"
  g_queued_at :: "string option"
  g_completed :: bool

datatype ('b, 'e) delivery = Done "'e + 'b" label | Abandoned label

datatype placement = Lead leader_guard channel | Follow channel label

definition flights_default :: flights where
  "flights_default = \<lparr>reads = Map.empty, queued_ranges = Map.empty, next_flight = 0\<rparr>"

definition place :: "read_key \<Rightarrow> label \<Rightarrow> bool \<Rightarrow> flights \<Rightarrow> flights \<times> placement" where
  "place key lbl mergeable fl =
     (case reads fl key of
        Some existing \<Rightarrow> (fl, Follow (tx existing) (leader existing))
      | None \<Rightarrow>
          let flight = next_flight fl + 1;
              ch = flight;
              fl1 = fl\<lparr>next_flight := flight,
                       reads := (reads fl)(key \<mapsto> \<lparr>tx = ch, leader = lbl, owner = flight\<rparr>)\<rparr>;
              queued = bounded key \<noteq> None \<and> mergeable;
              old = (case queued_ranges fl1 (rk_path key) of None \<Rightarrow> [] | Some q \<Rightarrow> q);
              fl2 = (if queued
                     then fl1\<lparr>queued_ranges := (queued_ranges fl1)
                            (rk_path key \<mapsto> old @ [\<lparr>q_key = key, q_owner = flight\<rparr>])\<rparr>
                     else fl1)
          in (fl2, Lead \<lparr>g_flight = flight, g_label = lbl, g_keys = [key],
                         g_queued_at = (if queued then Some (rk_path key) else None),
                         g_completed = False\<rparr> ch))"

text \<open>
  The three loops of \<^verbatim>\<open>claim_group\<close> over the queue sorted by start: walk from the front to
  the leader's own range, restarting at every gap, then on while the next range touches.
\<close>

fun scan_left :: "nat \<Rightarrow> nat \<Rightarrow> nat \<Rightarrow> (nat \<times> nat) list \<Rightarrow> nat \<times> nat" where
  "scan_left rank first e [] = (first, e)"
| "scan_left rank first e (r # rs) =
     (if fst r \<le> e then scan_left (Suc rank) first (max e (snd r)) rs
      else scan_left (Suc rank) rank (snd r) rs)"

fun extend_right :: "nat \<Rightarrow> (nat \<times> nat) list \<Rightarrow> nat" where
  "extend_right e [] = 0"
| "extend_right e (r # rs) = (if fst r \<le> e then Suc (extend_right (max e (snd r)) rs) else 0)"

definition group_span :: "(nat \<times> nat) list \<Rightarrow> nat \<Rightarrow> nat \<times> nat" where
  "group_span rs own =
     (let (first, e) = scan_left 1 0 (snd (hd rs)) (take own (tl rs))
      in (first, own + extend_right e (drop (Suc own) rs)))"

text \<open>\<^verbatim>\<open>Iterator::position\<close>.\<close>

fun position_from :: "nat \<Rightarrow> ('a \<Rightarrow> bool) \<Rightarrow> 'a list \<Rightarrow> nat option" where
  "position_from i p [] = None"
| "position_from i p (x # xs) = (if p x then Some i else position_from (Suc i) p xs)"

definition range_of :: "queued_range \<Rightarrow> nat \<times> nat" where
  "range_of x = the (bounded (q_key x))"

text \<open>Take over the members of a group that are not the leader's own.\<close>

fun take_over :: "flight_id \<Rightarrow> label \<Rightarrow> queued_range list \<Rightarrow> (read_key \<rightharpoonup> in_flight_read) \<Rightarrow> read_key list \<Rightarrow>
    ((read_key \<rightharpoonup> in_flight_read) \<times> read_key list) option" where
  "take_over f lbl [] rds ks = Some (rds, ks)"
| "take_over f lbl (x # xs) rds ks =
     (if q_owner x \<noteq> f then
        (case rds (q_key x) of
           None \<Rightarrow> None
         | Some r \<Rightarrow> take_over f lbl xs (rds(q_key x \<mapsto> r\<lparr>owner := f, leader := lbl\<rparr>)) (ks @ [q_key x]))
      else take_over f lbl xs rds ks)"

definition set_queue :: "string \<Rightarrow> queued_range list \<Rightarrow> flights \<Rightarrow> flights" where
  "set_queue p q fl = fl\<lparr>queued_ranges := (queued_ranges fl)(p := (if q = [] then None else Some q))\<rparr>"

definition claim_group :: "leader_guard \<Rightarrow> flights \<Rightarrow> (flights \<times> leader_guard \<times> read_key list option) option" where
  "claim_group g fl =
     (case g_queued_at g of
        None \<Rightarrow> Some (fl, g, None)
      | Some p \<Rightarrow>
          let g1 = g\<lparr>g_queued_at := None\<rparr> in
          (case queued_ranges fl p of
             None \<Rightarrow> Some (fl, g1, None)
           | Some queue \<Rightarrow>
               if \<exists>x \<in> set queue. bounded (q_key x) = None then None
               else
                 let q = sort_key (\<lambda>x. fst (range_of x)) queue;
                     fl1 = fl\<lparr>queued_ranges := (queued_ranges fl)(p \<mapsto> q)\<rparr>
                 in (case position_from 0 (\<lambda>x. q_owner x = g_flight g) q of
                       None \<Rightarrow> Some (fl1, g1, None)
                     | Some own \<Rightarrow>
                         let (first, lst) = group_span (map range_of q) own;
                             members = take (lst + 1 - first) (drop first q)
                         in (case take_over (g_flight g) (g_label g) members (reads fl1) (g_keys g1) of
                               None \<Rightarrow> None
                             | Some (rds, ks) \<Rightarrow>
                                 let q' = take first q
                                          @ map (\<lambda>x. x\<lparr>q_owner := g_flight g\<rparr>) members
                                          @ drop (lst + 1) q;
                                     kept = filter (\<lambda>x. q_owner x \<noteq> g_flight g) q'
                                 in Some (set_queue p kept (fl1\<lparr>reads := rds\<rparr>),
                                          g1\<lparr>g_keys := ks\<rparr>, Some (map q_key members))))))"

definition take_owned :: "read_key \<Rightarrow> flight_id \<Rightarrow> flights \<Rightarrow> flights \<times> in_flight_read option" where
  "take_owned key f fl =
     (case reads fl key of
        None \<Rightarrow> (fl, None)
      | Some r \<Rightarrow> if owner r \<noteq> f then (fl, None)
                  else (fl\<lparr>reads := (reads fl)(key := None)\<rparr>, Some r))"

definition dequeue :: "string \<Rightarrow> flight_id \<Rightarrow> flights \<Rightarrow> flights" where
  "dequeue p f fl =
     (case queued_ranges fl p of
        None \<Rightarrow> fl
      | Some queue \<Rightarrow> set_queue p (filter (\<lambda>x. q_owner x \<noteq> f) queue) fl)"

text \<open>\<^verbatim>\<open>LeaderGuard::complete\<close>, \<^verbatim>\<open>disarm\<close> and \<^verbatim>\<open>drop\<close>, with what they send.\<close>

fun publish :: "flight_id \<Rightarrow> (read_key \<times> ('b, 'e) delivery) list \<Rightarrow> flights \<Rightarrow>
    flights \<times> (channel \<times> ('b, 'e) delivery) list" where
  "publish f [] fl = (fl, [])"
| "publish f ((key, d) # rest) fl =
     (let (fl1, taken) = take_owned key f fl;
          (fl2, sent) = publish f rest fl1
      in (fl2, (case taken of None \<Rightarrow> sent | Some r \<Rightarrow> (tx r, d) # sent)))"

definition complete :: "leader_guard \<Rightarrow> (read_key \<times> ('e + 'b)) list \<Rightarrow> flights \<Rightarrow>
    flights \<times> leader_guard \<times> (channel \<times> ('b, 'e) delivery) list" where
  "complete g outcomes fl =
     (let (fl1, sent) = publish (g_flight g) (map (\<lambda>(k, r). (k, Done r (g_label g))) outcomes) fl
      in (fl1, g\<lparr>g_completed := True\<rparr>, sent))"

definition disarm :: "leader_guard \<Rightarrow> leader_guard" where
  "disarm g = g\<lparr>g_completed := True\<rparr>"

definition drop_guard :: "leader_guard \<Rightarrow> flights \<Rightarrow> flights \<times> (channel \<times> ('b, 'e) delivery) list" where
  "drop_guard g fl =
     (if g_completed g then (fl, [])
      else
        let (fl1, sent) = publish (g_flight g) (map (\<lambda>k. (k, Abandoned (g_label g))) (g_keys g)) fl
        in ((case g_queued_at g of None \<Rightarrow> fl1 | Some p \<Rightarrow> dequeue p (g_flight g) fl1), sent))"

section \<open>The merged group\<close>

text \<open>
  \<open>chained e rs\<close>: walking \<open>rs\<close> from the offset \<open>e\<close> never crosses a gap. \<open>reach e rs\<close> is
  how far the walk gets.
\<close>

fun chained :: "nat \<Rightarrow> (nat \<times> nat) list \<Rightarrow> bool" where
  "chained e [] = True"
| "chained e (r # rs) = (fst r \<le> e \<and> chained (max e (snd r)) rs)"

definition reach :: "nat \<Rightarrow> (nat \<times> nat) list \<Rightarrow> nat" where
  "reach e rs = fold (\<lambda>r e. max e (snd r)) rs e"

lemma reach_simps [simp]:
  "reach e [] = e" "reach e (r # rs) = reach (max e (snd r)) rs"
  "reach e (rs @ ss) = reach (reach e rs) ss"
  by (simp_all add: reach_def)

lemma chained_append: "chained e (rs @ ss) \<longleftrightarrow> chained e rs \<and> chained (reach e rs) ss"
  by (induction rs arbitrary: e) auto

lemma reach_ge: "e \<le> reach e rs"
proof (induction rs arbitrary: e)
  case (Cons r rs)
  have "e \<le> max e (snd r)" by simp
  also have "\<dots> \<le> reach (max e (snd r)) rs" by (rule Cons.IH)
  finally show ?case by simp
qed simp

lemma reach_ge_snd: "r \<in> set rs \<Longrightarrow> snd r \<le> reach e rs"
proof (induction rs arbitrary: e)
  case (Cons a rs)
  then show ?case using reach_ge [of "max e (snd a)" rs] by auto
qed simp

lemma scan_left_group:
  assumes "sorted (map fst (a @ (b # bs) @ rs))" "chained (snd b) bs"
    and "\<forall>x \<in> set a. snd x < fst b"
    and "rank = length a + 1 + length bs" "first = length a" "e = reach (snd b) bs"
  shows "\<exists>a' b' bs'. a @ (b # bs) @ rs = a' @ b' # bs' \<and> chained (snd b') bs'
           \<and> (\<forall>x \<in> set a'. snd x < fst b')
           \<and> scan_left rank first e rs = (length a', reach (snd b') bs')"
  using assms
proof (induction rs arbitrary: a b bs rank first e)
  case Nil
  then show ?case by (intro exI [of _ a] exI [of _ b] exI [of _ bs]) simp
next
  case (Cons r rs)
  show ?case
  proof (cases "fst r \<le> e")
    case True
    from Cons.IH [of a b "bs @ [r]" "Suc rank" first "max e (snd r)"] Cons.prems True
    show ?thesis by (simp add: chained_append)
  next
    case False
    have "\<forall>x \<in> set (a @ b # bs). snd x < fst r"
    proof -
      from False Cons.prems(6) have "snd b < fst r"
        using reach_ge [of "snd b" bs] by simp
      moreover have "snd x < fst r" if "x \<in> set bs" for x
        using reach_ge_snd [OF that, of "snd b"] False Cons.prems(6) by simp
      moreover have "fst b \<le> fst r" using Cons.prems(1) by (auto simp: sorted_append)
      ultimately show ?thesis using Cons.prems(3) by force
    qed
    with Cons.IH [of "a @ b # bs" r "[]" "Suc rank" rank "snd r"] Cons.prems False
    show ?thesis by simp
  qed
qed

lemma extend_right_group:
  "chained e (take (extend_right e rs) rs) \<and> extend_right e rs \<le> length rs
   \<and> (\<forall>x xs. drop (extend_right e rs) rs = x # xs \<longrightarrow> reach e (take (extend_right e rs) rs) < fst x)"
  by (induction e rs rule: extend_right.induct) auto

text \<open>
  The group found for the range at position \<open>own\<close> of a sorted queue: it holds that
  range, it is chained, and every range left out lies strictly before its start or
  strictly after its reach.
\<close>

lemma group_span_correct:
  assumes "sorted (map fst rs)" "own < length rs" "group_span rs own = (first, lst)"
  shows "\<exists>a b bs c. rs = a @ (b # bs) @ c \<and> length a = first \<and> first \<le> own \<and> own \<le> lst
           \<and> length (b # bs) = lst + 1 - first \<and> lst < length rs \<and> chained (snd b) bs
           \<and> (\<forall>x \<in> set a. snd x < fst b) \<and> (\<forall>x \<in> set c. reach (snd b) bs < fst x)"
proof -
  from assms(2) obtain r rs' where rs: "rs = r # rs'" by (cases rs) auto
  let ?pre = "take own rs'"
  have len: "length ?pre = own" using assms(2) rs by simp
  have "sorted (map fst ([] @ (r # []) @ ?pre))"
    using sorted_wrt_take [OF assms(1), of "Suc own"] rs by (simp add: take_map)
  from scan_left_group [OF this, of 1 0 "snd r"]
  obtain a b bs where g: "r # ?pre = a @ b # bs" "chained (snd b) bs" "\<forall>x \<in> set a. snd x < fst b"
    "scan_left 1 0 (snd r) ?pre = (length a, reach (snd b) bs)" by auto
  let ?e = "reach (snd b) bs" and ?post = "drop own rs'"
  let ?n = "extend_right ?e ?post"
  from g(4) assms(3) rs have span: "first = length a" "lst = own + ?n"
    by (auto simp: group_span_def)
  from g(1) len have size: "own = length a + length bs"
    by (metis Suc_length_conv add_Suc_right diff_Suc_1 length_Cons length_append)
  note ext = extend_right_group [of ?e ?post]
  have full: "rs = a @ (b # (bs @ take ?n ?post)) @ drop ?n ?post"
  proof -
    have "rs = (r # ?pre) @ ?post" by (simp add: rs)
    then show ?thesis by (simp add: g(1) del: drop_drop)
  qed
  have "reach ?e (take ?n ?post) < fst x" if "x \<in> set (drop ?n ?post)" for x
  proof -
    from that obtain y ys where d: "drop ?n ?post = y # ys" by (cases "drop ?n ?post") auto
    from assms(1) have "sorted (map fst (drop ?n ?post))"
      by (subst (asm) full) (simp add: sorted_append)
    with d that have "fst y \<le> fst x" by auto
    with ext d show ?thesis by fastforce
  qed
  moreover have "?n \<le> length ?post" using ext by blast
  then have "lst < length rs" using assms(2) span rs by simp
  ultimately show ?thesis
    using full g(2,3) ext span size
    by (intro exI [of _ a] exI [of _ b] exI [of _ "bs @ take ?n ?post"] exI [of _ "drop ?n ?post"])
      (auto simp: chained_append)
qed


section \<open>What taking over and publishing do\<close>

lemma take_over_spec:
  assumes "\<forall>x \<in> set xs. rds (q_key x) \<noteq> None" "distinct (map q_key xs)"
  shows "take_over f lbl xs rds ks =
    Some (\<lambda>k. if k \<in> q_key ` {x \<in> set xs. q_owner x \<noteq> f}
               then map_option (\<lambda>r. r\<lparr>owner := f, leader := lbl\<rparr>) (rds k) else rds k,
          ks @ map q_key (filter (\<lambda>x. q_owner x \<noteq> f) xs))"
  using assms
proof (induction xs arbitrary: rds ks)
  case Nil
  then show ?case by simp
next
  case (Cons x xs)
  show ?case
  proof (cases "q_owner x = f")
    case True
    have "{y \<in> set (x # xs). q_owner y \<noteq> f} = {y \<in> set xs. q_owner y \<noteq> f}" using True by auto
    with True Cons show ?thesis by simp
  next
    case False
    from Cons.prems obtain r where r: "rds (q_key x) = Some r" by auto
    let ?rds = "rds(q_key x \<mapsto> r\<lparr>owner := f, leader := lbl\<rparr>)"
    have "\<forall>y \<in> set xs. ?rds (q_key y) \<noteq> None" using Cons.prems by auto
    from Cons.IH [OF this, of "ks @ [q_key x]"] Cons.prems(2) False r
    have "take_over f lbl (x # xs) rds ks =
      Some (\<lambda>k. if k \<in> q_key ` {y \<in> set xs. q_owner y \<noteq> f}
                 then map_option (\<lambda>r. r\<lparr>owner := f, leader := lbl\<rparr>) (?rds k) else ?rds k,
            ks @ map q_key (filter (\<lambda>x. q_owner x \<noteq> f) (x # xs)))"
      by (simp del: fun_upd_apply)
    also have "(\<lambda>k. if k \<in> q_key ` {y \<in> set xs. q_owner y \<noteq> f}
                 then map_option (\<lambda>r. r\<lparr>owner := f, leader := lbl\<rparr>) (?rds k) else ?rds k) =
          (\<lambda>k. if k \<in> q_key ` {y \<in> set (x # xs). q_owner y \<noteq> f}
                 then map_option (\<lambda>r. r\<lparr>owner := f, leader := lbl\<rparr>) (rds k) else rds k)"
      using Cons.prems(2) False r by (intro ext) auto
    finally show ?thesis .
  qed
qed

lemma take_owned_effect:
  "reads (fst (take_owned key f fl)) =
     (case reads fl key of Some r \<Rightarrow> if owner r = f then (reads fl)(key := None) else reads fl
      | None \<Rightarrow> reads fl)"
  "snd (take_owned key f fl) =
     (case reads fl key of Some r \<Rightarrow> if owner r = f then Some r else None | None \<Rightarrow> None)"
  "queued_ranges (fst (take_owned key f fl)) = queued_ranges fl"
  "next_flight (fst (take_owned key f fl)) = next_flight fl"
  by (auto simp: take_owned_def split: option.splits)

text \<open>Publishing removes exactly the named entries the flight still owns, and sends on each of them.\<close>

definition owned_by :: "flight_id \<Rightarrow> read_key set \<Rightarrow> flights \<Rightarrow> read_key set" where
  "owned_by f ks fl = {k \<in> ks. \<exists>r. reads fl k = Some r \<and> owner r = f}"

definition channels :: "flights \<Rightarrow> read_key set \<Rightarrow> channel set" where
  "channels fl ks = (\<lambda>k. tx (the (reads fl k))) ` ks"

lemma publish_frame:
  "queued_ranges (fst (publish f kds fl)) = queued_ranges fl"
  "next_flight (fst (publish f kds fl)) = next_flight fl"
  by (induction kds arbitrary: fl) (auto simp: split_def Let_def take_owned_effect)

lemma publish_effect:
  "reads (fst (publish f kds fl)) = (\<lambda>k. if k \<in> owned_by f (fst ` set kds) fl then None else reads fl k)
   \<and> fst ` set (snd (publish f kds fl)) = channels fl (owned_by f (fst ` set kds) fl)"
proof (induction kds arbitrary: fl)
  case Nil
  then show ?case by (simp add: owned_by_def channels_def)
next
  case (Cons kd kds)
  obtain key d where kd: "kd = (key, d)" by (cases kd)
  let ?fl = "fst (take_owned key f fl)" and ?ks = "fst ` set kds"
  have pub: "publish f (kd # kds) fl =
      (fst (publish f kds ?fl),
       (case snd (take_owned key f fl) of None \<Rightarrow> snd (publish f kds ?fl)
        | Some r \<Rightarrow> (tx r, d) # snd (publish f kds ?fl)))"
    by (simp add: kd split_def Let_def)
  note IH = Cons.IH [of ?fl]
  show ?case
  proof (cases "\<exists>r. reads fl key = Some r \<and> owner r = f")
    case True
    then obtain r where r: "reads fl key = Some r" "owner r = f" by blast
    then have rd: "reads ?fl = (reads fl)(key := None)" by (simp add: take_owned_effect)
    then have own: "owned_by f (fst ` set (kd # kds)) fl = insert key (owned_by f ?ks ?fl)"
      using r by (auto simp: owned_by_def kd)
    have "channels ?fl (owned_by f ?ks ?fl) = channels fl (owned_by f ?ks ?fl)"
      unfolding channels_def by (rule image_cong) (auto simp: owned_by_def rd)
    with IH r rd show ?thesis
      unfolding pub own by (auto simp: take_owned_effect channels_def fun_eq_iff)
  next
    case False
    then have "?fl = fl" "snd (take_owned key f fl) = None"
      by (auto simp: take_owned_def split: option.splits)
    moreover have "owned_by f (fst ` set (kd # kds)) fl = owned_by f ?ks fl"
      using False by (auto simp: owned_by_def kd)
    ultimately show ?thesis using Cons.IH [of fl] by (simp add: pub)
  qed
qed


section \<open>The table and the tasks that use it\<close>

record ('b, 'e) flights_sys =
  fl :: flights
  guards :: "leader_guard list"
  log :: "(channel \<times> ('b, 'e) delivery) list"

definition flights_sys_new :: "('b, 'e) flights_sys" where
  "flights_sys_new = \<lparr>fl = flights_default, guards = [], log = []\<rparr>"

text \<open>
  What can happen between two acquisitions of the lock: a caller registers and leads, or
  follows; an admitted leader claims its group, or finds that a neighbour carried its
  range; a queued leader is delivered by its carrier; a leader that has stopped queueing
  completes with an outcome for each key it answers for; a leader is dropped.
\<close>

inductive fl_step :: "('b, 'e) flights_sys \<Rightarrow> ('b, 'e) flights_sys \<Rightarrow> bool" where
  led: "place key lbl mergeable (fl s) = (fl', Lead g ch) \<Longrightarrow>
     fl_step s (s\<lparr>fl := fl', guards := g # guards s\<rparr>)"
| followed: "place key lbl mergeable (fl s) = (fl', Follow ch lbl') \<Longrightarrow> fl_step s (s\<lparr>fl := fl'\<rparr>)"
| claimed: "g \<in> set (guards s) \<Longrightarrow> g_queued_at g \<noteq> None \<Longrightarrow>
     claim_group g (fl s) = Some (fl', g', Some ks) \<Longrightarrow>
     fl_step s (s\<lparr>fl := fl', guards := g' # remove1 g (guards s)\<rparr>)"
| found_carried: "g \<in> set (guards s) \<Longrightarrow> g_queued_at g \<noteq> None \<Longrightarrow>
     claim_group g (fl s) = Some (fl', g', None) \<Longrightarrow>
     fl_step s (s\<lparr>fl := fl', guards := remove1 g (guards s)\<rparr>)"
| carried: "g \<in> set (guards s) \<Longrightarrow> g_queued_at g \<noteq> None \<Longrightarrow> g_flight g \<in> fst ` set (log s) \<Longrightarrow>
     fl_step s (s\<lparr>guards := remove1 g (guards s)\<rparr>)"
| completed: "g \<in> set (guards s) \<Longrightarrow> g_queued_at g = None \<Longrightarrow> fst ` set outcomes = set (g_keys g) \<Longrightarrow>
     complete g outcomes (fl s) = (fl', g', sent) \<Longrightarrow>
     fl_step s (s\<lparr>fl := fl', guards := remove1 g (guards s), log := log s @ sent\<rparr>)"
| dropped: "g \<in> set (guards s) \<Longrightarrow> drop_guard g (fl s) = (fl', sent) \<Longrightarrow>
     fl_step s (s\<lparr>fl := fl', guards := remove1 g (guards s), log := log s @ sent\<rparr>)"

text \<open>
  The invariant. Every registered read is answered for by a live guard that lists its
  key; a queued range is registered, still owned by the guard that queued it, and that
  guard owns nothing else; a queued guard whose range has left the queue owns nothing;
  every channel ever made is either registered once or has been sent on.
\<close>

definition queued_ok :: "flights \<Rightarrow> leader_guard list \<Rightarrow> string \<Rightarrow> queued_range \<Rightarrow> bool" where
  "queued_ok t gs p x \<longleftrightarrow>
     rk_path (q_key x) = p \<and> bounded (q_key x) \<noteq> None
     \<and> (\<exists>r. reads t (q_key x) = Some r \<and> owner r = q_owner x)
     \<and> (\<forall>k r. reads t k = Some r \<and> owner r = q_owner x \<longrightarrow> k = q_key x \<and> tx r = q_owner x)
     \<and> (\<exists>g \<in> set gs. g_flight g = q_owner x \<and> g_queued_at g = Some p)"

lemma queued_okI:
  assumes "rk_path (q_key x) = p" "bounded (q_key x) \<noteq> None"
    and "reads t (q_key x) = Some r" "owner r = q_owner x"
    and "\<And>k r. reads t k = Some r \<Longrightarrow> owner r = q_owner x \<Longrightarrow> k = q_key x \<and> tx r = q_owner x"
    and "g \<in> set gs" "g_flight g = q_owner x" "g_queued_at g = Some p"
  shows "queued_ok t gs p x"
  using assms unfolding queued_ok_def by blast

lemma queued_okE:
  assumes "queued_ok t gs p x"
  obtains r g where "rk_path (q_key x) = p" "bounded (q_key x) \<noteq> None"
    and "reads t (q_key x) = Some r" "owner r = q_owner x"
    and "\<forall>k r. reads t k = Some r \<longrightarrow> owner r = q_owner x \<longrightarrow> k = q_key x \<and> tx r = q_owner x"
    and "g \<in> set gs" "g_flight g = q_owner x" "g_queued_at g = Some p"
  using assms unfolding queued_ok_def by blast

definition guards_ok :: "flights \<Rightarrow> leader_guard list \<Rightarrow> bool" where
  "guards_ok t gs \<longleftrightarrow>
     distinct (map g_flight gs)
     \<and> (\<forall>g \<in> set gs. 0 < g_flight g \<and> g_flight g \<le> next_flight t \<and> \<not> g_completed g)
     \<and> (\<forall>k r. reads t k = Some r \<longrightarrow> (\<exists>g \<in> set gs. g_flight g = owner r \<and> k \<in> set (g_keys g)))
     \<and> (\<forall>g \<in> set gs. \<forall>p. g_queued_at g = Some p \<longrightarrow>
          (\<exists>q. queued_ranges t p = Some q \<and> g_flight g \<in> q_owner ` set q)
          \<or> (\<forall>k r. reads t k = Some r \<longrightarrow> owner r \<noteq> g_flight g))"

definition queues_ok :: "flights \<Rightarrow> leader_guard list \<Rightarrow> bool" where
  "queues_ok t gs \<longleftrightarrow>
     (\<forall>p q. queued_ranges t p = Some q \<longrightarrow>
        q \<noteq> [] \<and> distinct (map q_owner q) \<and> (\<forall>x \<in> set q. queued_ok t gs p x))"

definition channels_ok :: "flights \<Rightarrow> channel set \<Rightarrow> bool" where
  "channels_ok t sent \<longleftrightarrow>
     (\<forall>k r. reads t k = Some r \<longrightarrow> tx r \<notin> sent)
     \<and> inj_on (\<lambda>k. tx (the (reads t k))) (dom (reads t))
     \<and> sent \<union> channels t (dom (reads t)) = {1..next_flight t}"

definition flights_inv :: "('b, 'e) flights_sys \<Rightarrow> bool" where
  "flights_inv s \<longleftrightarrow> guards_ok (fl s) (guards s) \<and> queues_ok (fl s) (guards s)
     \<and> channels_ok (fl s) (fst ` set (log s)) \<and> distinct (map fst (log s))"

lemma flights_inv_new: "flights_inv flights_sys_new"
  by (simp add: flights_inv_def flights_sys_new_def flights_default_def guards_ok_def queues_ok_def
        channels_ok_def channels_def)

subsection \<open>Registering\<close>

lemma place_Follow: "place key lbl m t = (t', Follow ch l) \<Longrightarrow> t' = t"
  by (auto simp: place_def Let_def split: option.splits)

lemma place_Lead:
  assumes "place key lbl m t = (t', Lead g ch)"
  shows "reads t key = None" "ch = next_flight t + 1" "next_flight t' = next_flight t + 1"
    "reads t' = (reads t)(key \<mapsto> \<lparr>tx = ch, leader = lbl, owner = ch\<rparr>)"
    "g = \<lparr>g_flight = ch, g_label = lbl, g_keys = [key],
          g_queued_at = (if bounded key \<noteq> None \<and> m then Some (rk_path key) else None), g_completed = False\<rparr>"
    "queued_ranges t' =
       (if bounded key \<noteq> None \<and> m
        then (queued_ranges t)(rk_path key \<mapsto>
               (case queued_ranges t (rk_path key) of None \<Rightarrow> [] | Some q \<Rightarrow> q) @ [\<lparr>q_key = key, q_owner = ch\<rparr>])
        else queued_ranges t)"
  using assms by (auto simp: place_def Let_def split: option.splits if_splits)

lemma owners_old:
  assumes "guards_ok t gs" "reads t k = Some r"
  shows "owner r \<le> next_flight t" "0 < owner r"
  using assms by (fastforce simp: guards_ok_def)+

lemma place_channels:
  assumes "channels_ok t sent" "place key lbl m t = (t', Lead g ch)"
  shows "channels_ok t' sent"
proof -
  note p = place_Lead [OF assms(2)]
  have old: "channels t (dom (reads t)) \<subseteq> {1..next_flight t}" "sent \<subseteq> {1..next_flight t}"
    using assms(1) by (auto simp: channels_ok_def)
  have dom: "dom (reads t') = insert key (dom (reads t))" using p(4) by auto
  have same: "tx (the (reads t' k)) = tx (the (reads t k))" if "k \<in> dom (reads t)" for k
    using that p(1,4) by auto
  have img: "channels t' (dom (reads t)) = channels t (dom (reads t))"
    unfolding channels_def by (rule image_cong) (simp_all add: same)
  have new: "tx (the (reads t' key)) = Suc (next_flight t)" using p(2,4) by simp
  have "channels t' (dom (reads t')) = insert (Suc (next_flight t)) (channels t (dom (reads t)))"
    using img new by (simp add: dom channels_def)
  then have "sent \<union> channels t' (dom (reads t')) = {1..next_flight t'}"
    using assms(1) p(3) by (auto simp: channels_ok_def)
  moreover have "inj_on (\<lambda>k. tx (the (reads t' k))) (dom (reads t'))"
  proof -
    have "inj_on (\<lambda>k. tx (the (reads t' k))) (dom (reads t))"
      using assms(1) same by (auto simp: channels_ok_def inj_on_def)
    moreover have "Suc (next_flight t) \<notin> channels t' (dom (reads t))"
      unfolding img using old(1) by auto
    then have "tx (the (reads t' key)) \<notin> (\<lambda>k. tx (the (reads t' k))) ` (dom (reads t) - {key})"
      using new by (auto simp: channels_def)
    ultimately show ?thesis by (simp add: dom)
  qed
  moreover have "\<forall>k r. reads t' k = Some r \<longrightarrow> tx r \<notin> sent"
    using assms(1) old(2) p(2,4) by (auto simp: channels_ok_def)
  ultimately show ?thesis by (simp add: channels_ok_def)
qed


lemma place_guards:
  assumes "guards_ok t gs" "place key lbl m t = (t', Lead g ch)"
  shows "guards_ok t' (g # gs)"
proof -
  note p = place_Lead [OF assms(2)]
  note old = assms(1) [unfolded guards_ok_def]
  have q: "\<exists>q'. queued_ranges t' pa = Some q' \<and> h \<in> q_owner ` set q'"
    if "queued_ranges t pa = Some q" "h \<in> q_owner ` set q" for pa q h
    using that p(6) by (auto simp: image_iff)
  have own: "queued_ranges t' (rk_path key) = Some q' \<Longrightarrow> ch \<in> q_owner ` set q'"
    "queued_ranges t' (rk_path key) \<noteq> None" if "g_queued_at g = Some pa" for pa q'
    using that p(5,6) by (auto split: if_splits option.splits)
  have fresh: "ch \<noteq> g_flight h" if "h \<in> set gs" for h using old that p(2) by force
  show ?thesis
    unfolding guards_ok_def
  proof (intro conjI ballI allI impI)
    show "distinct (map g_flight (g # gs))" using old fresh p(5) by auto
  next
    fix h assume h: "h \<in> set (g # gs)"
    show "0 < g_flight h" "g_flight h \<le> next_flight t'" "\<not> g_completed h"
      using h old p(2,3,5) by force+
    fix pa assume at: "g_queued_at h = Some pa"
    show "(\<exists>q. queued_ranges t' pa = Some q \<and> g_flight h \<in> q_owner ` set q)
          \<or> (\<forall>k r. reads t' k = Some r \<longrightarrow> owner r \<noteq> g_flight h)"
    proof (cases "h = g")
      case True
      with at p(5) have "pa = rk_path key" "g_flight h = ch" by (auto split: if_splits)
      with own at True show ?thesis by blast
    next
      case False
      with h have hs: "h \<in> set gs" by simp
      with old at consider "\<exists>q. queued_ranges t pa = Some q \<and> g_flight h \<in> q_owner ` set q"
        | "\<forall>k r. reads t k = Some r \<longrightarrow> owner r \<noteq> g_flight h" by blast
      then show ?thesis using q fresh [OF hs] p(4) by cases auto
    qed
  next
    fix k r assume "reads t' k = Some r"
    then show "\<exists>h \<in> set (g # gs). g_flight h = owner r \<and> k \<in> set (g_keys h)"
      using old p(4,5) by (auto split: if_splits)
  qed
qed

lemma place_queues:
  assumes "guards_ok t gs" "queues_ok t gs" "place key lbl m t = (t', Lead g ch)"
  shows "queues_ok t' (g # gs)"
proof -
  note p = place_Lead [OF assms(3)]
  have fresh: "owner r \<noteq> ch" if "reads t k = Some r" for k r
    using owners_old [OF assms(1) that] p(2) by simp
  have keep: "queued_ok t' (g # gs) pa x" if "queued_ok t gs pa x" for pa x
  proof -
    from that obtain r h where x: "rk_path (q_key x) = pa" "bounded (q_key x) \<noteq> None"
      "reads t (q_key x) = Some r" "owner r = q_owner x"
      "\<forall>k r. reads t k = Some r \<longrightarrow> owner r = q_owner x \<longrightarrow> k = q_key x \<and> tx r = q_owner x"
      "h \<in> set gs" "g_flight h = q_owner x" "g_queued_at h = Some pa"
      by (rule queued_okE)
    have ne: "q_key x \<noteq> key" "q_owner x \<noteq> ch" using x(3,4) p(1) fresh [OF x(3)] by auto
    show ?thesis
    proof (rule queued_okI [OF x(1,2) _ x(4) _ _ x(7,8)])
      show "reads t' (q_key x) = Some r" using x(3) ne(1) p(4) by simp
      show "k = q_key x \<and> tx r' = q_owner x" if "reads t' k = Some r'" "owner r' = q_owner x" for k r'
        using that ne(2) p(4) x(5) by (auto split: if_splits)
      show "h \<in> set (g # gs)" using x(6) by simp
    qed
  qed
  have new: "queued_ok t' (g # gs) (rk_path key) \<lparr>q_key = key, q_owner = ch\<rparr>"
    if "bounded key \<noteq> None \<and> m"
  proof (rule queued_okI [where g = g and r = "\<lparr>tx = ch, leader = lbl, owner = ch\<rparr>"])
    show "k = q_key \<lparr>q_key = key, q_owner = ch\<rparr> \<and> tx r = q_owner \<lparr>q_key = key, q_owner = ch\<rparr>"
      if "reads t' k = Some r" "owner r = q_owner \<lparr>q_key = key, q_owner = ch\<rparr>" for k r
      using that p(4) fresh [of k r] by (cases "k = key") auto
  qed (use that p(4,5) in simp_all)
  have notin: "ch \<notin> q_owner ` set q" if "queued_ranges t pa = Some q" for pa q
  proof
    assume "ch \<in> q_owner ` set q"
    with assms(2) that obtain x where x: "q_owner x = ch" "queued_ok t gs pa x"
      by (auto simp: queues_ok_def)
    from x(2) obtain r where "reads t (q_key x) = Some r" "owner r = q_owner x" by (rule queued_okE)
    with fresh x(1) show False by auto
  qed
  show ?thesis
    unfolding queues_ok_def
  proof (intro allI impI)
    fix pa q assume q: "queued_ranges t' pa = Some q"
    show "q \<noteq> [] \<and> distinct (map q_owner q) \<and> (\<forall>x \<in> set q. queued_ok t' (g # gs) pa x)"
    proof (cases "bounded key \<noteq> None \<and> m \<and> pa = rk_path key")
      case False
      with q p(6) have "queued_ranges t pa = Some q" by (auto split: if_splits)
      with assms(2) keep show ?thesis by (auto simp: queues_ok_def)
    next
      case True
      let ?old = "case queued_ranges t pa of None \<Rightarrow> [] | Some q \<Rightarrow> q"
      from True q p(6) have "q = ?old @ [\<lparr>q_key = key, q_owner = ch\<rparr>]" by auto
      moreover have "distinct (map q_owner ?old) \<and> (\<forall>x \<in> set ?old. queued_ok t gs pa x)"
        using assms(2) by (auto simp: queues_ok_def split: option.splits)
      moreover have "ch \<notin> q_owner ` set ?old"
        by (cases "queued_ranges t pa") (simp_all add: notin)
      ultimately show ?thesis using keep new True by auto
    qed
  qed
qed

subsection \<open>A guard goes away\<close>

text \<open>
  Completing, dropping and disarming all end a guard \<open>g\<close>: what it owns leaves the table
  and what it queued leaves the queue.
\<close>

definition ended :: "flight_id \<Rightarrow> flights \<Rightarrow> flights \<Rightarrow> bool" where
  "ended f t t' \<longleftrightarrow>
     reads t' = (\<lambda>k. case reads t k of None \<Rightarrow> None | Some r \<Rightarrow> if owner r = f then None else Some r)
     \<and> next_flight t' = next_flight t
     \<and> (\<forall>p q'. queued_ranges t' p = Some q' \<longrightarrow> q' \<noteq> []
          \<and> (\<exists>q. queued_ranges t p = Some q \<and> distinct (map q_owner q') = distinct (map q_owner (filter (\<lambda>x. q_owner x \<noteq> f) q))
                \<and> set q' = {x \<in> set q. q_owner x \<noteq> f}))
     \<and> (\<forall>p q. queued_ranges t p = Some q \<longrightarrow> (\<exists>x \<in> set q. q_owner x \<noteq> f) \<longrightarrow> queued_ranges t' p \<noteq> None)"

lemma ended_reads: "ended f t t' \<Longrightarrow> reads t' k = Some r \<longleftrightarrow> reads t k = Some r \<and> owner r \<noteq> f"
  by (auto simp: ended_def split: option.splits)

lemma flight_unique:
  "guards_ok t gs \<Longrightarrow> g \<in> set gs \<Longrightarrow> h \<in> set gs \<Longrightarrow> g_flight g = g_flight h \<Longrightarrow> g = h"
  by (auto simp: guards_ok_def distinct_map dest: inj_onD)

lemma remaining_guards:
  assumes "guards_ok t gs" "g \<in> set gs"
  shows "set (remove1 g gs) = {h \<in> set gs. g_flight h \<noteq> g_flight g}"
  using assms flight_unique [OF assms(1)] by (auto simp: guards_ok_def distinct_map)

lemma ended_guards:
  assumes "guards_ok t gs" "g \<in> set gs" "ended (g_flight g) t t'"
  shows "guards_ok t' (remove1 g gs)"
proof -
  note old = assms(1) [unfolded guards_ok_def]
  note rest = remaining_guards [OF assms(1,2)]
  have at: "(\<exists>q. queued_ranges t' p = Some q \<and> g_flight h \<in> q_owner ` set q)
      \<or> (\<forall>k r. reads t' k = Some r \<longrightarrow> owner r \<noteq> g_flight h)"
    if h: "h \<in> set gs" "g_flight h \<noteq> g_flight g" "g_queued_at h = Some p" for h p
  proof -
    from old h consider q where "queued_ranges t p = Some q" "g_flight h \<in> q_owner ` set q"
      | "\<forall>k r. reads t k = Some r \<longrightarrow> owner r \<noteq> g_flight h" by blast
    then show ?thesis
    proof cases
      case (1 q)
      then obtain x where x: "x \<in> set q" "q_owner x = g_flight h" by auto
      with 1(1) h(2) assms(3) obtain q' where "queued_ranges t' p = Some q'"
        by (fastforce simp: ended_def)
      moreover with assms(3) 1(1) have "set q' = {x \<in> set q. q_owner x \<noteq> g_flight g}"
        by (fastforce simp: ended_def)
      ultimately show ?thesis using x h(2) by force
    next
      case 2
      then show ?thesis using ended_reads [OF assms(3)] by blast
    qed
  qed
  have "distinct (map g_flight (remove1 g gs))"
    using old by (simp add: distinct_map distinct_remove1 inj_on_def)
  moreover have "next_flight t' = next_flight t" using assms(3) by (simp add: ended_def)
  moreover have "\<exists>h \<in> set (remove1 g gs). g_flight h = owner r \<and> k \<in> set (g_keys h)"
    if "reads t' k = Some r" for k r
  proof -
    from that have r: "reads t k = Some r" "owner r \<noteq> g_flight g"
      by (simp_all add: ended_reads [OF assms(3)])
    with old obtain h where "h \<in> set gs" "g_flight h = owner r" "k \<in> set (g_keys h)" by blast
    with r(2) show ?thesis unfolding rest by auto
  qed
  ultimately show ?thesis
    using old at unfolding guards_ok_def rest by auto
qed

lemma ended_queues:
  assumes "guards_ok t gs" "queues_ok t gs" "g \<in> set gs" "ended (g_flight g) t t'"
  shows "queues_ok t' (remove1 g gs)"
  unfolding queues_ok_def
proof (intro allI impI)
  note rest = remaining_guards [OF assms(1,3)]
  fix p q' assume q': "queued_ranges t' p = Some q'"
  with assms(4) obtain q where q: "queued_ranges t p = Some q" "set q' = {x \<in> set q. q_owner x \<noteq> g_flight g}"
    "distinct (map q_owner q') = distinct (map q_owner (filter (\<lambda>x. q_owner x \<noteq> g_flight g) q))" "q' \<noteq> []"
    unfolding ended_def by blast
  from assms(2) q(1) have old: "distinct (map q_owner q)" "\<forall>x \<in> set q. queued_ok t gs p x"
    by (auto simp: queues_ok_def)
  have "queued_ok t' (remove1 g gs) p x" if "x \<in> set q'" for x
  proof -
    from that q(2) old(2) have "queued_ok t gs p x" and ne: "q_owner x \<noteq> g_flight g" by auto
    from this(1) obtain r h where x: "rk_path (q_key x) = p" "bounded (q_key x) \<noteq> None"
      "reads t (q_key x) = Some r" "owner r = q_owner x"
      "\<forall>k r. reads t k = Some r \<longrightarrow> owner r = q_owner x \<longrightarrow> k = q_key x \<and> tx r = q_owner x"
      "h \<in> set gs" "g_flight h = q_owner x" "g_queued_at h = Some p"
      by (rule queued_okE)
    show ?thesis
    proof (rule queued_okI [OF x(1,2) _ x(4) _ _ x(7,8)])
      show "reads t' (q_key x) = Some r" using x(3,4) ne by (simp add: ended_reads [OF assms(4)])
      show "k = q_key x \<and> tx r' = q_owner x" if "reads t' k = Some r'" "owner r' = q_owner x" for k r'
        using that x(5) unfolding ended_reads [OF assms(4)] by blast
      show "h \<in> set (remove1 g gs)" using x(6,7) ne by (simp add: rest)
    qed
  qed
  with q old(1) show "q' \<noteq> [] \<and> distinct (map q_owner q') \<and> (\<forall>x \<in> set q'. queued_ok t' (remove1 g gs) p x)"
    by (simp add: distinct_map_filter)
qed


lemma ended_channels:
  assumes "channels_ok t sent" "ended f t t'"
    and "sent' = channels t (owned_by f (dom (reads t)) t)"
  shows "channels_ok t' (sent \<union> sent')" "sent \<inter> sent' = {}"
proof -
  note old = assms(1) [unfolded channels_ok_def]
  have rd: "reads t' k = Some r \<longleftrightarrow> reads t k = Some r \<and> owner r \<noteq> f" for k r
    by (rule ended_reads [OF assms(2)])
  have dom: "dom (reads t') = dom (reads t) - owned_by f (dom (reads t)) t"
    using rd by (auto simp: owned_by_def dom_def)
  have "tx (the (reads t' k)) = tx (the (reads t k))" if "k \<in> dom (reads t')" for k
    using that rd by (metis domD option.sel)
  then have chan: "channels t' (dom (reads t')) = channels t (dom (reads t'))"
    and inj: "inj_on (\<lambda>k. tx (the (reads t' k))) (dom (reads t'))"
    using old unfolding dom by (auto simp: channels_def inj_on_def)
  have own: "owned_by f (dom (reads t)) t \<subseteq> dom (reads t)" by (auto simp: owned_by_def)
  have "sent' \<union> channels t (dom (reads t')) = channels t (dom (reads t))"
    using own unfolding assms(3) dom channels_def by blast
  moreover have "next_flight t' = next_flight t" using assms(2) by (simp add: ended_def)
  ultimately have cover: "(sent \<union> sent') \<union> channels t' (dom (reads t')) = {1..next_flight t'}"
    using old chan by (metis Un_assoc)
  have apart: "tx r \<notin> sent'" if "reads t' k = Some r" for k r
  proof
    assume "tx r \<in> sent'"
    then obtain k' where k': "k' \<in> owned_by f (dom (reads t)) t" "tx r = tx (the (reads t k'))"
      by (auto simp: assms(3) channels_def)
    from that rd have r: "reads t k = Some r" "owner r \<noteq> f" by auto
    with k' own old have "k = k'"
      by (intro inj_onD [of "\<lambda>k. tx (the (reads t k))" "dom (reads t)"]) auto
    with k'(1) r show False by (auto simp: owned_by_def)
  qed
  from old rd apart inj cover show "channels_ok t' (sent \<union> sent')"
    unfolding channels_ok_def by blast
  show "sent \<inter> sent' = {}"
    using old own by (auto simp: assms(3) channels_def)
qed

lemma publish_distinct:
  assumes "inj_on (\<lambda>k. tx (the (reads t k))) (dom (reads t))"
  shows "distinct (map fst (snd (publish f kds t)))"
  using assms
proof (induction kds arbitrary: t)
  case Nil
  then show ?case by simp
next
  case (Cons kd kds)
  obtain key d where kd: "kd = (key, d)" by (cases kd)
  show ?case
  proof (cases "\<exists>r. reads t key = Some r \<and> owner r = f")
    case True
    then obtain r where r: "reads t key = Some r" "owner r = f" by blast
    let ?t = "t\<lparr>reads := (reads t)(key := None)\<rparr>"
    have pub: "snd (publish f (kd # kds) t) = (tx r, d) # snd (publish f kds ?t)"
      using r by (simp add: kd take_owned_def split_def Let_def)
    have inj: "inj_on (\<lambda>k. tx (the (reads ?t k))) (dom (reads ?t))"
      using Cons.prems by (auto simp: inj_on_def dom_def split: if_splits)
    have "tx r \<notin> channels ?t (dom (reads ?t))"
    proof
      assume "tx r \<in> channels ?t (dom (reads ?t))"
      then obtain k where "k \<in> dom (reads ?t)" "tx r = tx (the (reads ?t k))"
        unfolding channels_def by blast
      then have k: "k \<noteq> key" "k \<in> dom (reads t)" "tx (the (reads t k)) = tx (the (reads t key))"
        using r(1) by (auto split: if_splits)
      from inj_onD [OF Cons.prems k(3,2)] k(1) r(1) show False by auto
    qed
    moreover have "fst ` set (snd (publish f kds ?t)) \<subseteq> channels ?t (dom (reads ?t))"
      using publish_effect [of f kds ?t] by (auto simp: channels_def owned_by_def)
    ultimately show ?thesis using Cons.IH [OF inj] by (auto simp: pub)
  next
    case False
    then have "take_owned key f t = (t, None)"
      by (auto simp: take_owned_def split: option.splits)
    with Cons show ?thesis by (simp add: kd split_def Let_def)
  qed
qed


subsection \<open>Claiming a group\<close>

lemma position_from_Some:
  "position_from i P xs = Some n \<Longrightarrow> i \<le> n \<and> n - i < length xs \<and> P (xs ! (n - i))"
proof (induction i P xs rule: position_from.induct)
  case (2 i P x xs)
  show ?case
  proof (cases "P x")
    case False
    with 2 have "Suc i \<le> n \<and> n - Suc i < length xs \<and> P (xs ! (n - Suc i))" by simp
    then show ?thesis by (auto simp: nth_Cons' Suc_diff_le)
  qed (use 2 in auto)
qed simp

lemma position_from_None: "position_from i P xs = None \<longleftrightarrow> (\<forall>x \<in> set xs. \<not> P x)"
  by (induction i P xs rule: position_from.induct) auto

text \<open>
  What a claim returns, under the invariant: either the guard's range is no longer
  queued, or the queue splits into the ranges before the group, the group, and the
  ranges after it, and the group is the guard's from then on.
\<close>

definition claim_result :: "leader_guard \<Rightarrow> string \<Rightarrow> flights \<Rightarrow> queued_range list \<Rightarrow> queued_range list \<Rightarrow>
    queued_range list \<Rightarrow> flights \<times> leader_guard \<times> read_key list option" where
  "claim_result g p t a mid c =
     (set_queue p (a @ c)
        (t\<lparr>reads := (\<lambda>k. if k \<in> q_key ` {x \<in> set mid. q_owner x \<noteq> g_flight g}
              then map_option (\<lambda>r. r\<lparr>owner := g_flight g, leader := g_label g\<rparr>) (reads t k) else reads t k)\<rparr>),
      g\<lparr>g_queued_at := None, g_keys := g_keys g @ map q_key (filter (\<lambda>x. q_owner x \<noteq> g_flight g) mid)\<rparr>,
      Some (map q_key mid))"

lemma queue_keys_distinct:
  assumes "\<forall>x \<in> set q. queued_ok t gs p x" "distinct (map q_owner q)"
  shows "distinct (map q_key q)"
proof -
  have own: "\<exists>r. reads t (q_key x) = Some r \<and> owner r = q_owner x" if "x \<in> set q" for x
    using assms(1) that by (auto simp: queued_ok_def)
  have "q_owner x = q_owner y" if "x \<in> set q" "y \<in> set q" "q_key x = q_key y" for x y
    using own [OF that(1)] own [OF that(2)] that(3) by auto
  with assms(2) show ?thesis unfolding distinct_map inj_on_def by blast
qed

definition claim_scan :: "flight_id \<Rightarrow> queued_range list \<Rightarrow> queued_range list \<Rightarrow> queued_range list \<Rightarrow>
    queued_range list \<Rightarrow> bool" where
  "claim_scan f q a mid c \<longleftrightarrow>
     sort_key (\<lambda>x. fst (range_of x)) q = a @ mid @ c
     \<and> f \<in> q_owner ` set mid \<and> f \<notin> q_owner ` set (a @ c)
     \<and> chained (snd (range_of (hd mid))) (map range_of (tl mid))
     \<and> (\<forall>x \<in> set a. snd (range_of x) < fst (range_of (hd mid)))
     \<and> (\<forall>x \<in> set c. reach (snd (range_of (hd mid))) (map range_of (tl mid)) < fst (range_of x))"

lemma claim_scan_others: "claim_scan f q a mid c \<Longrightarrow> x \<in> set (a @ c) \<Longrightarrow> q_owner x \<noteq> f"
  unfolding claim_scan_def by (metis image_eqI)

lemma group_split:
  assumes q: "q' = sort_key (\<lambda>x. fst (range_of x)) q" and dist: "distinct (map q_owner q)"
    and pos: "position_from 0 (\<lambda>x. q_owner x = f) q' = Some own"
    and span: "group_span (map range_of q') own = (first, lst)"
  shows "claim_scan f q (take first q') (take (lst + 1 - first) (drop first q')) (drop (lst + 1) q')"
    and "take first q' @ take (lst + 1 - first) (drop first q') @ drop (lst + 1) q' = q'"
proof -
  let ?mid = "take (lst + 1 - first) (drop first q')"
  from position_from_Some [OF pos] have own: "own < length q'" "q_owner (q' ! own) = f" by auto
  have srt: "sorted (map fst (map range_of q'))"
    unfolding q using sorted_sort_key [of "\<lambda>x. fst (range_of x)" q] by (simp add: comp_def)
  from group_span_correct [OF srt _ span] own(1) obtain a b bs c where
    g: "map range_of q' = a @ (b # bs) @ c" "length a = first" "first \<le> own" "own \<le> lst"
    "length (b # bs) = lst + 1 - first" "lst < length q'" "chained (snd b) bs"
    "\<forall>x \<in> set a. snd x < fst b" "\<forall>x \<in> set c. reach (snd b) bs < fst x" by auto
  have parts: "map range_of (take first q') = a" "map range_of ?mid = b # bs"
    "map range_of (drop (lst + 1) q') = c"
  proof -
    show "map range_of (take first q') = a" using g(1,2) by (simp add: take_map [symmetric])
    have "drop first (map range_of q') = (b # bs) @ c" using g(1,2) by simp
    moreover have "take (lst + 1 - first) ((b # bs) @ c) = b # bs"
      using g(5) by (metis append_eq_conv_conj)
    ultimately show "map range_of ?mid = b # bs" by (simp add: take_map [symmetric] drop_map [symmetric])
    have "drop (lst + 1) (map range_of q') = drop (lst + 1 - first) (drop first (map range_of q'))"
      using g(3,4) by simp
    also have "\<dots> = c"
      using \<open>drop first (map range_of q') = (b # bs) @ c\<close> g(5) by (metis append_eq_conv_conj)
    finally show "map range_of (drop (lst + 1) q') = c" by (simp add: drop_map [symmetric])
  qed
  show whole: "take first q' @ ?mid @ drop (lst + 1) q' = q'"
  proof -
    have "?mid @ drop (lst + 1) q' = drop first q'"
      using append_take_drop_id [of "lst + 1 - first" "drop first q'"] g(3,4) by simp
    then show ?thesis by simp
  qed
  have mem: "q' ! own \<in> set ?mid"
  proof -
    have "?mid ! (own - first) = q' ! own" using g(3,4,6) by simp
    moreover have "own - first < length ?mid" using g(3,4,6) by simp
    ultimately show ?thesis by (metis nth_mem)
  qed
  have "distinct (map q_owner q')"
    using dist unfolding q by (simp add: distinct_map)
  then have "distinct (map q_owner (take first q' @ ?mid @ drop (lst + 1) q'))" by (simp only: whole)
  then have out: "f \<notin> q_owner ` set (take first q' @ drop (lst + 1) q')"
    using mem own(2) unfolding map_append distinct_append set_append set_map by blast
  obtain m ms where mid: "?mid = m # ms" using parts(2) by (cases ?mid) auto
  then have ends: "range_of (hd ?mid) = b" "map range_of (tl ?mid) = bs" using parts(2) by auto
  have "\<forall>x \<in> set (take first q'). snd (range_of x) < fst b" using g(8) by (simp flip: parts(1))
  moreover have "\<forall>x \<in> set (drop (lst + 1) q'). reach (snd b) bs < fst (range_of x)"
    using g(9) by (simp flip: parts(3))
  ultimately show "claim_scan f q (take first q') ?mid (drop (lst + 1) q')"
    unfolding claim_scan_def ends using whole mem own(2) out g(7) q by auto
qed

lemma claim_group_cases:
  assumes "queues_ok t gs" "g_queued_at g = Some p"
  obtains (absent) t' where
      "claim_group g t = Some (t', g\<lparr>g_queued_at := None\<rparr>, None)"
      "\<forall>q. queued_ranges t p = Some q \<longrightarrow> g_flight g \<notin> q_owner ` set q"
      "t' = t \<or> (\<exists>q. queued_ranges t p = Some q
          \<and> t' = t\<lparr>queued_ranges := (queued_ranges t)(p \<mapsto> sort_key (\<lambda>x. fst (range_of x)) q)\<rparr>)"
  | (group) q a mid c where
      "queued_ranges t p = Some q" "claim_scan (g_flight g) q a mid c"
      "claim_group g t = Some (claim_result g p t a mid c)"
proof (cases "queued_ranges t p")
  case None
  show ?thesis by (rule absent) (use None assms(2) in \<open>simp_all add: claim_group_def\<close>)
next
  case (Some q)
  define q' where "q' = sort_key (\<lambda>x. fst (range_of x)) q"
  from assms(1) Some have q: "distinct (map q_owner q)" "\<forall>x \<in> set q. queued_ok t gs p x"
    by (auto simp: queues_ok_def)
  have bnd: "\<not> (\<exists>x \<in> set q. bounded (q_key x) = None)"
    using q(2) by (auto simp: queued_ok_def)
  show ?thesis
  proof (cases "position_from 0 (\<lambda>x. q_owner x = g_flight g) q'")
    case None
    show ?thesis
    proof (rule absent)
      show "claim_group g t = Some (t\<lparr>queued_ranges := (queued_ranges t)(p \<mapsto> q')\<rparr>,
          g\<lparr>g_queued_at := None\<rparr>, None)"
        using assms(2) Some bnd None by (simp add: claim_group_def Let_def q'_def)
    qed (use Some None in \<open>auto simp: q'_def position_from_None\<close>)
  next
    case (Some own)
    obtain first lst where span: "group_span (map range_of q') own = (first, lst)" by (cases "group_span (map range_of q') own")
    define a where "a = take first q'"
    define mid where "mid = take (lst + 1 - first) (drop first q')"
    define c where "c = drop (lst + 1) q'"
    note split = group_split [OF q'_def q(1) Some span, folded a_def mid_def c_def]
    have keys: "\<forall>x \<in> set mid. reads t (q_key x) \<noteq> None"
    proof
      fix x assume "x \<in> set mid"
      then have "x \<in> set q'" by (metis Un_iff set_append split(2))
      then have "queued_ok t gs p x" using q(2) by (simp add: q'_def)
      then show "reads t (q_key x) \<noteq> None" by (auto simp: queued_ok_def)
    qed
    have "distinct (map q_key q')"
      using queue_keys_distinct [OF q(2,1)] by (simp add: q'_def distinct_map)
    then have dist: "distinct (map q_key mid)"
      by (simp add: split(2) [symmetric])
    have kept: "filter (\<lambda>x. q_owner x \<noteq> g_flight g)
        (a @ map (\<lambda>x. x\<lparr>q_owner := g_flight g\<rparr>) mid @ c) = a @ c"
    proof -
      from split(1) have "\<forall>x \<in> set (a @ c). q_owner x \<noteq> g_flight g"
        using claim_scan_others by blast
      then have "filter (\<lambda>x. q_owner x \<noteq> g_flight g) a = a" "filter (\<lambda>x. q_owner x \<noteq> g_flight g) c = c"
        by (auto simp: filter_id_conv)
      moreover have "filter (\<lambda>x. q_owner x \<noteq> g_flight g) (map (\<lambda>x. x\<lparr>q_owner := g_flight g\<rparr>) mid) = []"
        by (simp add: filter_empty_conv)
      ultimately show ?thesis by (simp only: filter_append append_Nil)
    qed
    have parts: "take first q' = a" "take (Suc lst - first) (drop first q') = mid" "drop (Suc lst) q' = c"
      by (simp_all add: a_def mid_def c_def)
    have "claim_group g t = Some (claim_result g p t a mid c)"
      using assms(2) \<open>queued_ranges t p = Some q\<close> bnd Some span
        take_over_spec [OF keys dist, of "g_flight g" "g_label g" "g_keys g"]
      by (simp add: claim_group_def Let_def kept claim_result_def set_queue_def parts
            del: filter_append flip: q'_def)
    with group [OF \<open>queued_ranges t p = Some q\<close> split(1)] show ?thesis .
  qed
qed

text \<open>A claimed group: the table after it, and the guard that now answers for its keys.\<close>

definition claimed_group :: "flights \<Rightarrow> leader_guard list \<Rightarrow> leader_guard \<Rightarrow> flights \<Rightarrow> leader_guard \<Rightarrow>
    string \<Rightarrow> queued_range list \<Rightarrow> queued_range list \<Rightarrow> queued_range list \<Rightarrow> queued_range list \<Rightarrow>
    read_key list \<Rightarrow> bool" where
  "claimed_group t gs g t' g' p q a mid c ks \<longleftrightarrow>
     guards_ok t gs \<and> queues_ok t gs \<and> g \<in> set gs \<and> g_queued_at g = Some p
     \<and> queued_ranges t p = Some q \<and> claim_scan (g_flight g) q a mid c
     \<and> (t', g', Some ks) = claim_result g p t a mid c"

lemma claimed_groupD:
  assumes "claimed_group t gs g t' g' p q a mid c ks"
  shows "guards_ok t gs" "queues_ok t gs" "g \<in> set gs" "g_queued_at g = Some p"
    "queued_ranges t p = Some q" "claim_scan (g_flight g) q a mid c"
    "(t', g', Some ks) = claim_result g p t a mid c"
  using assms by (simp_all add: claimed_group_def)

definition taken :: "leader_guard \<Rightarrow> queued_range list \<Rightarrow> read_key set" where
  "taken g mid = q_key ` {x \<in> set mid. q_owner x \<noteq> g_flight g}"

lemma claim_effect:
  assumes "claimed_group t gs g t' g' p q a mid c ks"
  shows "reads t' = (\<lambda>k. if k \<in> taken g mid
      then map_option (\<lambda>r. r\<lparr>owner := g_flight g, leader := g_label g\<rparr>) (reads t k) else reads t k)"
    "queued_ranges t' = (queued_ranges t)(p := (if a @ c = [] then None else Some (a @ c)))"
    "next_flight t' = next_flight t"
    "g_flight g' = g_flight g" "g_queued_at g' = None" "g_completed g' = g_completed g"
    "set (g_keys g') = set (g_keys g) \<union> taken g mid"
    "ks = map q_key mid"
  using claimed_groupD(7) [OF assms] by (auto simp: claim_result_def set_queue_def taken_def)

lemma claim_queue_set:
  assumes "claim_scan f q a mid c"
  shows "set q = set a \<union> set mid \<union> set c"
proof -
  have "set q = set (sort_key (\<lambda>x. fst (range_of x)) q)" by simp
  with assms show ?thesis unfolding claim_scan_def by (simp only: set_append Un_assoc)
qed

lemma claim_members:
  assumes "claimed_group t gs g t' g' p q a mid c ks"
  shows "\<forall>x \<in> set q. queued_ok t gs p x" "distinct (map q_owner (a @ mid @ c))"
    "distinct (map q_key (a @ mid @ c))" "\<forall>x \<in> set (a @ c). q_owner x \<noteq> g_flight g"
proof -
  note C = claimed_groupD [OF assms]
  show ok: "\<forall>x \<in> set q. queued_ok t gs p x" using C(2,5) by (auto simp: queues_ok_def)
  show "\<forall>x \<in> set (a @ c). q_owner x \<noteq> g_flight g" using claim_scan_others [OF C(6)] by blast
  have d: "distinct (map q_owner q)" using C(2,5) by (auto simp: queues_ok_def)
  have "sort_key (\<lambda>x. fst (range_of x)) q = a @ mid @ c" using C(6) by (simp add: claim_scan_def)
  with d queue_keys_distinct [OF ok d]
  show "distinct (map q_owner (a @ mid @ c))" "distinct (map q_key (a @ mid @ c))"
    by (metis distinct_map distinct_sort set_sort)+
qed

lemma claim_reads:
  assumes "claimed_group t gs g t' g' p q a mid c ks" "reads t' k = Some r"
  obtains (moved) s where "k \<in> taken g mid" "reads t k = Some s" "tx s = tx r" "owner r = g_flight g"
  | (kept) "k \<notin> taken g mid" "reads t k = Some r"
  using assms(2) unfolding claim_effect(1) [OF assms(1)] by (cases "k \<in> taken g mid") auto

lemma claim_still_queued:
  assumes A: "claimed_group t gs g t' g' p q a mid c ks"
    and "queued_ok t gs pa x" "q_owner x \<noteq> g_flight g" "q_key x \<notin> taken g mid"
  shows "queued_ok t' (g' # remove1 g gs) pa x"
proof -
  note others = remaining_guards [OF claimed_groupD(1,3) [OF A]]
  from assms(2) obtain r h where x: "rk_path (q_key x) = pa" "bounded (q_key x) \<noteq> None"
    "reads t (q_key x) = Some r" "owner r = q_owner x"
    "\<forall>k r. reads t k = Some r \<longrightarrow> owner r = q_owner x \<longrightarrow> k = q_key x \<and> tx r = q_owner x"
    "h \<in> set gs" "g_flight h = q_owner x" "g_queued_at h = Some pa"
    by (rule queued_okE)
  show ?thesis
  proof (rule queued_okI [OF x(1,2) _ x(4) _ _ x(7,8)])
    show "reads t' (q_key x) = Some r" using x(3) assms(4) by (simp add: claim_effect(1) [OF A])
    show "h \<in> set (g' # remove1 g gs)" using x(6,7) assms(3) others by simp
    show "k = q_key x \<and> tx r' = q_owner x" if "reads t' k = Some r'" "owner r' = q_owner x" for k r'
      using A that(1) by (cases rule: claim_reads) (use that(2) assms(3) x(5) in auto)
  qed
qed

lemma claim_queues:
  assumes A: "claimed_group t gs g t' g' p q a mid c ks"
  shows "queues_ok t' (g' # remove1 g gs)"
  unfolding queues_ok_def
proof (intro allI impI)
  note C = claimed_groupD [OF A] and M = claim_members [OF A]
  fix pa qa assume qa: "queued_ranges t' pa = Some qa"
  show "qa \<noteq> [] \<and> distinct (map q_owner qa) \<and> (\<forall>x \<in> set qa. queued_ok t' (g' # remove1 g gs) pa x)"
  proof (cases "pa = p")
    case True
    with qa have eq: "qa = a @ c" "qa \<noteq> []" by (auto simp: claim_effect(2) [OF A] split: if_splits)
    have "queued_ok t' (g' # remove1 g gs) pa x" if x: "x \<in> set (a @ c)" for x
    proof (rule claim_still_queued [OF A])
      show "queued_ok t gs pa x" using x M(1) claim_queue_set [OF C(6)] True by auto
      show "q_owner x \<noteq> g_flight g" using x M(4) by blast
      show "q_key x \<notin> taken g mid" using M(3) x by (auto simp: taken_def)
    qed
    then show ?thesis using eq M(2) by auto
  next
    case False
    with qa have old: "queued_ranges t pa = Some qa" by (simp add: claim_effect(2) [OF A])
    with C(2) have q: "qa \<noteq> []" "distinct (map q_owner qa)" "\<forall>x \<in> set qa. queued_ok t gs pa x"
      by (auto simp: queues_ok_def)
    have "queued_ok t' (g' # remove1 g gs) pa x" if x: "x \<in> set qa" for x
    proof (rule claim_still_queued [OF A])
      show ok: "queued_ok t gs pa x" using x q(3) by blast
      then obtain h where h: "h \<in> set gs" "g_flight h = q_owner x" "g_queued_at h = Some pa"
        and path: "rk_path (q_key x) = pa" by (rule queued_okE)
      then show "q_owner x \<noteq> g_flight g" using flight_unique [OF C(1) h(1) C(3)] C(4) False by auto
      have "rk_path k = p" if "k \<in> taken g mid" for k
        using that M(1) claim_queue_set [OF C(6)] unfolding taken_def queued_ok_def by blast
      with path False show "q_key x \<notin> taken g mid" by blast
    qed
    with q(1,2) show ?thesis by blast
  qed
qed

lemma claim_idle:
  assumes A: "claimed_group t gs g t' g' p q a mid c ks"
    and h: "h \<in> set gs" "g_flight h \<noteq> g_flight g" "g_queued_at h = Some pa"
  shows "(\<exists>qa. queued_ranges t' pa = Some qa \<and> g_flight h \<in> q_owner ` set qa)
      \<or> (\<forall>k r. reads t' k = Some r \<longrightarrow> owner r \<noteq> g_flight h)"
proof -
  note C = claimed_groupD [OF A]
  from C(1) h consider qa where "queued_ranges t pa = Some qa" "g_flight h \<in> q_owner ` set qa"
    | "\<forall>k r. reads t k = Some r \<longrightarrow> owner r \<noteq> g_flight h" unfolding guards_ok_def by blast
  then show ?thesis
  proof cases
    case (1 qa)
    then obtain x where x: "x \<in> set qa" "q_owner x = g_flight h" by auto
    show ?thesis
    proof (cases "pa = p \<and> x \<in> set mid")
      case True
      then have tk: "q_key x \<in> taken g mid" using x(2) h(2) by (auto simp: taken_def)
      have "queued_ok t gs p x" using True claim_members(1) [OF A] claim_queue_set [OF C(6)] by auto
      then have only: "\<forall>k r. reads t k = Some r \<longrightarrow> owner r = q_owner x \<longrightarrow> k = q_key x \<and> tx r = q_owner x"
        by (rule queued_okE)
      have "owner r \<noteq> g_flight h" if "reads t' k = Some r" for k r
        using A that by (cases rule: claim_reads) (use h(2) x(2) tk only in auto)
      then show ?thesis by blast
    next
      case False
      obtain qb where "queued_ranges t' pa = Some qb" "x \<in> set qb"
      proof (cases "pa = p")
        case True
        with 1(1) C(5) x(1) False claim_queue_set [OF C(6)] have "x \<in> set (a @ c)" by auto
        moreover from this have "a @ c \<noteq> []" by (cases "a @ c") auto
        ultimately show ?thesis using that claim_effect(2) [OF A] True by simp
      next
        case False
        with that 1(1) x(1) claim_effect(2) [OF A] show ?thesis by simp
      qed
      then show ?thesis using x(2) by (intro disjI1) force
    qed
  next
    case 2
    have "owner r \<noteq> g_flight h" if "reads t' k = Some r" for k r
      using A that by (cases rule: claim_reads) (use h(2) 2 in auto)
    then show ?thesis by blast
  qed
qed

lemma claim_guards:
  assumes A: "claimed_group t gs g t' g' p q a mid c ks"
  shows "guards_ok t' (g' # remove1 g gs)"
proof -
  note C = claimed_groupD [OF A] and E = claim_effect [OF A]
  note old = C(1) [unfolded guards_ok_def] and others = remaining_guards [OF C(1,3)]
  have ans: "\<exists>h \<in> set (g' # remove1 g gs). g_flight h = owner r \<and> k \<in> set (g_keys h)"
    if "reads t' k = Some r" for k r
    using A that
  proof (cases rule: claim_reads)
    case (moved s)
    then show ?thesis using E(4,7) by auto
  next
    case kept
    with old obtain h where h: "h \<in> set gs" "g_flight h = owner r" "k \<in> set (g_keys h)" by blast
    show ?thesis
    proof (cases "g_flight h = g_flight g")
      case True
      then have "h = g" by (rule flight_unique [OF C(1) h(1) C(3)])
      with h E(4,7) show ?thesis by auto
    next
      case False
      with h others show ?thesis by auto
    qed
  qed
  have dist: "distinct (map g_flight (g' # remove1 g gs))"
    using old others E(4) by (auto simp: distinct_map distinct_remove1 inj_on_def)
  have fine: "0 < g_flight h \<and> g_flight h \<le> next_flight t' \<and> \<not> g_completed h"
    if "h \<in> set (g' # remove1 g gs)" for h
    using that old C(3) E(3,4,6) others by auto
  have idle: "(\<exists>qa. queued_ranges t' pa = Some qa \<and> g_flight h \<in> q_owner ` set qa)
      \<or> (\<forall>k r. reads t' k = Some r \<longrightarrow> owner r \<noteq> g_flight h)"
    if "h \<in> set (g' # remove1 g gs)" "g_queued_at h = Some pa" for h pa
  proof (rule claim_idle [OF A _ _ that(2)])
    have "h \<noteq> g'" using that(2) E(5) by auto
    with that(1) others show "h \<in> set gs" "g_flight h \<noteq> g_flight g" by auto
  qed
  show ?thesis unfolding guards_ok_def using dist fine ans idle by blast
qed

lemma claim_channels:
  assumes A: "claimed_group t gs g t' g' p q a mid c ks" and ok: "channels_ok t sent"
  shows "channels_ok t' sent"
proof -
  note E = claim_effect [OF A]
  have dom: "dom (reads t') = dom (reads t)" by (auto simp: E(1) split: if_splits)
  have same: "tx (the (reads t' k)) = tx (the (reads t k))" if "k \<in> dom (reads t)" for k
    using that by (auto simp: E(1))
  have img: "channels t' (dom (reads t)) = channels t (dom (reads t))"
    unfolding channels_def by (rule image_cong) (simp_all add: same)
  have "inj_on (\<lambda>k. tx (the (reads t' k))) (dom (reads t))"
    using ok same by (auto simp: channels_ok_def inj_on_def)
  moreover have "tx r \<notin> sent" if "reads t' k = Some r" for k r
    using A that
  proof (cases rule: claim_reads)
    case (moved s)
    then show ?thesis using ok unfolding channels_ok_def by metis
  next
    case kept
    then show ?thesis using ok unfolding channels_ok_def by metis
  qed
  ultimately show ?thesis
    using ok img by (auto simp: channels_ok_def dom E(3))
qed
subsection \<open>Every step keeps the invariant\<close>

text \<open>A guard that is in no queue ends when its entries leave and the queues only change order.\<close>

lemma ended_off_queue:
  assumes "queues_ok t gs" "\<forall>p q. queued_ranges t p = Some q \<longrightarrow> f \<notin> q_owner ` set q"
    and "reads t' = (\<lambda>k. if k \<in> owned_by f (dom (reads t)) t then None else reads t k)"
    and "next_flight t' = next_flight t"
    and "queued_ranges t' = queued_ranges t \<or>
      (\<exists>p q. queued_ranges t p = Some q \<and>
         queued_ranges t' = (queued_ranges t)(p \<mapsto> sort_key (\<lambda>x. fst (range_of x)) q))"
  shows "ended f t t'"
proof -
  have rd: "reads t' = (\<lambda>k. case reads t k of None \<Rightarrow> None | Some r \<Rightarrow> if owner r = f then None else Some r)"
    by (rule ext) (auto simp: assms(3) owned_by_def split: option.splits)
  have out: "q_owner x \<noteq> f" if "queued_ranges t p = Some q" "x \<in> set q" for p q x
    using assms(2) that by blast
  have keep: "filter (\<lambda>x. q_owner x \<noteq> f) q = q" "{x \<in> set q. q_owner x \<noteq> f} = set q"
    if "queued_ranges t p = Some q" for p q
    using out [OF that] by (auto simp: filter_id_conv)
  have ne: "q \<noteq> []" if "queued_ranges t p = Some q" for p q
    using assms(1) that by (auto simp: queues_ok_def)
  have new: "q' \<noteq> [] \<and> (\<exists>q. queued_ranges t p = Some q
      \<and> distinct (map q_owner q') = distinct (map q_owner (filter (\<lambda>x. q_owner x \<noteq> f) q))
      \<and> set q' = {x \<in> set q. q_owner x \<noteq> f})" if "queued_ranges t' p = Some q'" for p q'
  proof -
    from assms(5) that obtain q where q: "queued_ranges t p = Some q" "set q' = set q"
      "distinct (map q_owner q') = distinct (map q_owner q)"
      by (auto simp: distinct_map split: if_splits)
    moreover have "q' \<noteq> []" using ne [OF q(1)] q(2) by auto
    ultimately show ?thesis by (auto simp: keep)
  qed
  have still: "queued_ranges t' p \<noteq> None" if "queued_ranges t p = Some q" for p q
    using assms(5) that by auto
  show ?thesis unfolding ended_def using rd assms(4) new still by blast
qed

text \<open>What a live guard owns is among its keys, so publishing them empties it.\<close>

lemma guard_owns:
  assumes "guards_ok t gs" "g \<in> set gs"
  shows "owned_by (g_flight g) (set (g_keys g)) t = owned_by (g_flight g) (dom (reads t)) t"
proof
  show "owned_by (g_flight g) (dom (reads t)) t \<subseteq> owned_by (g_flight g) (set (g_keys g)) t"
  proof
    fix k assume "k \<in> owned_by (g_flight g) (dom (reads t)) t"
    then obtain r where r: "reads t k = Some r" "owner r = g_flight g" by (auto simp: owned_by_def)
    with assms(1) obtain h where h: "h \<in> set gs" "g_flight h = owner r" "k \<in> set (g_keys h)"
      unfolding guards_ok_def by blast
    with r(2) have "h = g" using flight_unique [OF assms(1) h(1) assms(2)] by simp
    with r h(3) show "k \<in> owned_by (g_flight g) (set (g_keys g)) t" by (auto simp: owned_by_def)
  qed
qed (auto simp: owned_by_def)

lemma guard_queue_path:
  assumes "guards_ok t gs" "queues_ok t gs" "g \<in> set gs"
    and "queued_ranges t p = Some q" "g_flight g \<in> q_owner ` set q"
  shows "g_queued_at g = Some p"
proof -
  from assms(5) obtain x where x: "x \<in> set q" "q_owner x = g_flight g" by auto
  with assms(2,4) have "queued_ok t gs p x" by (auto simp: queues_ok_def)
  then obtain h where h: "h \<in> set gs" "g_flight h = q_owner x" "g_queued_at h = Some p"
    by (rule queued_okE)
  with x(2) flight_unique [OF assms(1) h(1) assms(3)] show ?thesis by simp
qed

lemma owned_none:
  assumes "\<forall>k r. reads t k = Some r \<longrightarrow> owner r \<noteq> f"
  shows "owned_by f (dom (reads t)) t = {}"
  using assms by (auto simp: owned_by_def)

lemma idle_ended:
  assumes "guards_ok t gs" "queues_ok t gs" "g \<in> set gs" "g_queued_at g = Some p"
    and "\<forall>q. queued_ranges t p = Some q \<longrightarrow> g_flight g \<notin> q_owner ` set q"
    and "t' = t \<or> (\<exists>q. queued_ranges t p = Some q
          \<and> t' = t\<lparr>queued_ranges := (queued_ranges t)(p \<mapsto> sort_key (\<lambda>x. fst (range_of x)) q)\<rparr>)"
  shows "ended (g_flight g) t t'" "owned_by (g_flight g) (dom (reads t)) t = {}"
proof -
  have "\<forall>k r. reads t k = Some r \<longrightarrow> owner r \<noteq> g_flight g"
    using assms(1,3,4,5) unfolding guards_ok_def by blast
  then show none: "owned_by (g_flight g) (dom (reads t)) t = {}" by (rule owned_none)
  show "ended (g_flight g) t t'"
  proof (rule ended_off_queue [OF assms(2)])
    show "\<forall>p q. queued_ranges t p = Some q \<longrightarrow> g_flight g \<notin> q_owner ` set q"
      using guard_queue_path [OF assms(1,2,3)] assms(4,5) by fastforce
    show "queued_ranges t' = queued_ranges t \<or>
      (\<exists>p q. queued_ranges t p = Some q \<and>
         queued_ranges t' = (queued_ranges t)(p \<mapsto> sort_key (\<lambda>x. fst (range_of x)) q))"
      using assms(6) by (elim disjE exE conjE) (simp, rule disjI2, rule exI [of _ p], simp)
  qed (use assms(6) none in auto)
qed

lemma complete_ended:
  assumes "guards_ok t gs" "queues_ok t gs" "g \<in> set gs" "g_queued_at g = None"
    and "fst ` set outcomes = set (g_keys g)" "complete g outcomes t = (t', g', sent)"
  shows "ended (g_flight g) t t'"
    "fst ` set sent = channels t (owned_by (g_flight g) (dom (reads t)) t)"
    "snd (publish (g_flight g) (map (\<lambda>(k, r). (k, Done r (g_label g))) outcomes) t) = sent"
proof -
  let ?kds = "map (\<lambda>(k, r). (k, Done r (g_label g))) outcomes"
  have t': "t' = fst (publish (g_flight g) ?kds t)" and sent: "sent = snd (publish (g_flight g) ?kds t)"
    using assms(6) by (auto simp: complete_def split_def Let_def)
  have ks: "fst ` set ?kds = set (g_keys g)"
    by (simp flip: assms(5) add: image_image split_def)
  note pub = publish_effect [of "g_flight g" ?kds t, unfolded ks guard_owns [OF assms(1,3)]]
  from pub sent show "fst ` set sent = channels t (owned_by (g_flight g) (dom (reads t)) t)" by simp
  show "ended (g_flight g) t t'"
  proof (rule ended_off_queue [OF assms(2)])
    show "\<forall>p q. queued_ranges t p = Some q \<longrightarrow> g_flight g \<notin> q_owner ` set q"
      using guard_queue_path [OF assms(1,2,3)] assms(4) by fastforce
  qed (use pub t' publish_frame [of "g_flight g" ?kds t] in auto)
  show "snd (publish (g_flight g) ?kds t) = sent" by (simp add: sent)
qed

lemma dequeue_ended:
  assumes "queues_ok t gs" "\<forall>pa q. pa \<noteq> p \<longrightarrow> queued_ranges t pa = Some q \<longrightarrow> f \<notin> q_owner ` set q"
    and "reads t1 = (\<lambda>k. if k \<in> owned_by f (dom (reads t)) t then None else reads t k)"
    and "queued_ranges t1 = queued_ranges t" "next_flight t1 = next_flight t"
  shows "ended f t (dequeue p f t1)"
proof (cases "queued_ranges t p")
  case None
  then have "dequeue p f t1 = t1" by (simp add: dequeue_def assms(4))
  moreover have off: "\<forall>pa q. queued_ranges t pa = Some q \<longrightarrow> f \<notin> q_owner ` set q"
    using assms(2) None by (metis option.distinct(1))
  have "ended f t t1" by (rule ended_off_queue [OF assms(1) off assms(3)]) (simp_all add: assms(4,5))
  ultimately show ?thesis by simp
next
  case (Some q)
  let ?q = "filter (\<lambda>x. q_owner x \<noteq> f) q"
  let ?t = "dequeue p f t1"
  have t: "reads ?t = reads t1" "next_flight ?t = next_flight t"
    "queued_ranges ?t = (queued_ranges t)(p := (if ?q = [] then None else Some ?q))"
    using Some by (simp_all add: dequeue_def set_queue_def assms(4,5))
  have "reads ?t = (\<lambda>k. case reads t k of None \<Rightarrow> None | Some r \<Rightarrow> if owner r = f then None else Some r)"
    by (rule ext) (auto simp: t(1) assms(3) owned_by_def split: option.splits)
  moreover have "q' \<noteq> [] \<and> (\<exists>q. queued_ranges t pa = Some q
      \<and> distinct (map q_owner q') = distinct (map q_owner (filter (\<lambda>x. q_owner x \<noteq> f) q))
      \<and> set q' = {x \<in> set q. q_owner x \<noteq> f})" if q': "queued_ranges ?t pa = Some q'" for pa q'
  proof (cases "pa = p")
    case True
    then show ?thesis using q' Some by (auto simp: t(3) split: if_splits)
  next
    case False
    with q' have old: "queued_ranges t pa = Some q'" by (simp add: t(3))
    with assms(2) False have "filter (\<lambda>x. q_owner x \<noteq> f) q' = q'" by (auto simp: filter_id_conv)
    moreover from this have "{x \<in> set q'. q_owner x \<noteq> f} = set q'" by (metis set_filter)
    moreover have "q' \<noteq> []" using assms(1) old by (auto simp: queues_ok_def)
    ultimately show ?thesis using old by auto
  qed
  moreover have "queued_ranges ?t pa \<noteq> None"
    if "queued_ranges t pa = Some q'" "\<exists>x \<in> set q'. q_owner x \<noteq> f" for pa q'
    using that Some by (auto simp: t(3) filter_empty_conv)
  ultimately show ?thesis unfolding ended_def using t(2) by blast
qed

lemma drop_ended:
  fixes sent :: "(channel \<times> ('b, 'e) delivery) list"
  assumes "guards_ok t gs" "queues_ok t gs" "g \<in> set gs" "drop_guard g t = (t', sent)"
  shows "ended (g_flight g) t t'"
    "fst ` set sent = channels t (owned_by (g_flight g) (dom (reads t)) t)"
    "snd (publish (g_flight g) (map (\<lambda>k. (k, Abandoned (g_label g))) (g_keys g)) t) = sent"
proof -
  let ?kds = "map (\<lambda>k. (k, Abandoned (g_label g) :: ('b, 'e) delivery)) (g_keys g)"
  define t1 where "t1 = fst (publish (g_flight g) ?kds t)"
  have live: "\<not> g_completed g" using assms(1,3) by (auto simp: guards_ok_def)
  then have t': "t' = (case g_queued_at g of None \<Rightarrow> t1 | Some p \<Rightarrow> dequeue p (g_flight g) t1)"
    and sent: "sent = snd (publish (g_flight g) ?kds t)"
    using assms(4) by (auto simp: drop_guard_def split_def Let_def t1_def split: option.splits)
  have ks: "fst ` set ?kds = set (g_keys g)" by (simp add: image_image)
  note pub = publish_effect [of "g_flight g" ?kds t, unfolded ks guard_owns [OF assms(1,3)]]
  from pub sent show "fst ` set sent = channels t (owned_by (g_flight g) (dom (reads t)) t)" by simp
  show "snd (publish (g_flight g) ?kds t) = sent" by (simp add: sent)
  have r1: "reads t1 = (\<lambda>k. if k \<in> owned_by (g_flight g) (dom (reads t)) t then None else reads t k)"
    using pub by (simp add: t1_def)
  have q1: "queued_ranges t1 = queued_ranges t" "next_flight t1 = next_flight t"
    by (simp_all add: t1_def publish_frame)
  note path = guard_queue_path [OF assms(1,2,3)]
  show "ended (g_flight g) t t'"
  proof (cases "g_queued_at g")
    case None
    then have off: "\<forall>p q. queued_ranges t p = Some q \<longrightarrow> g_flight g \<notin> q_owner ` set q"
      using path by fastforce
    have "ended (g_flight g) t t1" by (rule ended_off_queue [OF assms(2) off r1]) (simp_all add: q1)
    with t' None show ?thesis by simp
  next
    case (Some p)
    then have off: "\<forall>pa q. pa \<noteq> p \<longrightarrow> queued_ranges t pa = Some q \<longrightarrow> g_flight g \<notin> q_owner ` set q"
      using path by fastforce
    from dequeue_ended [OF assms(2) off r1 q1] t' Some show ?thesis by simp
  qed
qed

text \<open>One lemma for every step that ends a guard.\<close>

lemma ended_inv:
  assumes "flights_inv s" "g \<in> set (guards s)" "ended (g_flight g) (fl s) t'"
    and "fst ` set sent = channels (fl s) (owned_by (g_flight g) (dom (reads (fl s))) (fl s))"
    and "distinct (map fst sent)"
  shows "flights_inv (s\<lparr>fl := t', guards := remove1 g (guards s), log := log s @ sent\<rparr>)"
proof -
  note inv = assms(1) [unfolded flights_inv_def]
  have g: "guards_ok (fl s) (guards s)" and q: "queues_ok (fl s) (guards s)"
    and c: "channels_ok (fl s) (fst ` set (log s))" and d: "distinct (map fst (log s))" using inv by auto
  note ch = ended_channels [OF c assms(3) assms(4)]
  have "guards_ok t' (remove1 g (guards s))" by (rule ended_guards [OF g assms(2,3)])
  moreover have "queues_ok t' (remove1 g (guards s))" by (rule ended_queues [OF g q assms(2,3)])
  moreover have "channels_ok t' (fst ` set (log s @ sent))" using ch(1) by (simp add: image_Un)
  moreover have "distinct (map fst (log s @ sent))" using d assms(5) ch(2) by simp
  ultimately show ?thesis by (simp add: flights_inv_def)
qed

lemma claimed_inv:
  assumes "flights_inv s" "g \<in> set (guards s)" "claim_group g (fl s) = Some (t', g', Some ks)"
    and "g_queued_at g \<noteq> None"
  shows "flights_inv (s\<lparr>fl := t', guards := g' # remove1 g (guards s)\<rparr>)"
proof -
  have g: "guards_ok (fl s) (guards s)" and q: "queues_ok (fl s) (guards s)"
    and c: "channels_ok (fl s) (fst ` set (log s))" and d: "distinct (map fst (log s))"
    using assms(1) by (auto simp: flights_inv_def)
  from assms(4) obtain p where p: "g_queued_at g = Some p" by blast
  from q p show ?thesis
  proof (cases rule: claim_group_cases)
    case (absent t'')
    with assms(3) show ?thesis by simp
  next
    case (group qq a mid cc)
    have A: "claimed_group (fl s) (guards s) g t' g' p qq a mid cc ks"
      unfolding claimed_group_def using g q assms(2,3) p group by simp
    from claim_guards [OF A] claim_queues [OF A] claim_channels [OF A c] d
    show ?thesis by (simp add: flights_inv_def)
  qed
qed

lemma found_carried_ended:
  assumes "flights_inv s" "g \<in> set (guards s)" "g_queued_at g \<noteq> None"
    and "claim_group g (fl s) = Some (t', g', None)"
  shows "ended (g_flight g) (fl s) t' \<and> owned_by (g_flight g) (dom (reads (fl s))) (fl s) = {}"
proof -
  have g: "guards_ok (fl s) (guards s)" and q: "queues_ok (fl s) (guards s)"
    using assms(1) by (auto simp: flights_inv_def)
  from assms(3) obtain p where p: "g_queued_at g = Some p" by blast
  from q p show ?thesis
  proof (cases rule: claim_group_cases)
    case (absent t'')
    with assms(4) have eq: "t'' = t'" by simp
    from idle_ended [OF g q assms(2) p absent(2,3), unfolded eq] show ?thesis by blast
  next
    case (group qq a mid cc)
    with assms(4) show ?thesis by (simp add: claim_result_def)
  qed
qed

lemma carried_ended:
  assumes "flights_inv s" "g \<in> set (guards s)" "g_queued_at g \<noteq> None" "g_flight g \<in> fst ` set (log s)"
  shows "ended (g_flight g) (fl s) (fl s) \<and> owned_by (g_flight g) (dom (reads (fl s))) (fl s) = {}"
proof -
  have g: "guards_ok (fl s) (guards s)" and q: "queues_ok (fl s) (guards s)"
    and c: "channels_ok (fl s) (fst ` set (log s))"
    using assms(1) by (auto simp: flights_inv_def)
  from assms(3) obtain p where p: "g_queued_at g = Some p" by blast
  have off: "\<forall>qq. queued_ranges (fl s) p = Some qq \<longrightarrow> g_flight g \<notin> q_owner ` set qq"
  proof (intro allI impI notI)
    fix qq assume "queued_ranges (fl s) p = Some qq" "g_flight g \<in> q_owner ` set qq"
    then obtain x where "x \<in> set qq" "q_owner x = g_flight g" by auto
    moreover from this have "queued_ok (fl s) (guards s) p x"
      using q \<open>queued_ranges (fl s) p = Some qq\<close> by (simp add: queues_ok_def)
    ultimately obtain r where "reads (fl s) (q_key x) = Some r" "tx r = g_flight g"
      unfolding queued_ok_def by auto
    moreover from c have "\<forall>k r. reads (fl s) k = Some r \<longrightarrow> tx r \<notin> fst ` set (log s)"
      by (simp add: channels_ok_def)
    ultimately show False using assms(4) by metis
  qed
  from idle_ended [OF g q assms(2) p off, of "fl s", simplified] show ?thesis by blast
qed

lemma publish_sends_once:
  "flights_inv s \<Longrightarrow> distinct (map fst (snd (publish f kds (fl s))))"
  by (rule publish_distinct) (simp add: flights_inv_def channels_ok_def)

lemma fl_step_inv:
  assumes "fl_step s s'" "flights_inv s"
  shows "flights_inv s'"
  using assms
proof (cases rule: fl_step.cases)
  case (led key lbl m fl' g ch)
  with assms(2) place_guards [OF _ led(2)] place_queues [OF _ _ led(2)] place_channels [OF _ led(2)]
  show ?thesis by (simp add: flights_inv_def)
next
  case (followed key lbl m fl' ch lbl')
  with assms(2) place_Follow [OF followed(2)] show ?thesis by (simp add: flights_inv_def)
next
  case (claimed g fl' g' ks)
  with claimed_inv [OF assms(2)] show ?thesis by blast
next
  case (found_carried g fl' g')
  with found_carried_ended [OF assms(2)] ended_inv [OF assms(2), of g fl' "[]"] show ?thesis by (simp add: channels_def)
next
  case (carried g)
  with carried_ended [OF assms(2)] ended_inv [OF assms(2), of g "fl s" "[]"] show ?thesis by (simp add: channels_def)
next
  case (completed g outcomes fl' g' sent)
  have "guards_ok (fl s) (guards s)" "queues_ok (fl s) (guards s)"
    using assms(2) by (auto simp: flights_inv_def)
  note e = complete_ended [OF this completed(2,3,4,5)]
  from publish_sends_once [OF assms(2)] have "distinct (map fst sent)" by (simp flip: e(3))
  from ended_inv [OF assms(2) completed(2) e(1,2) this] completed(1) show ?thesis by simp
next
  case (dropped g fl' sent)
  have "guards_ok (fl s) (guards s)" "queues_ok (fl s) (guards s)"
    using assms(2) by (auto simp: flights_inv_def)
  note e = drop_ended [OF this dropped(2,3)]
  from publish_sends_once [OF assms(2)] have "distinct (map fst sent)" by (simp flip: e(3))
  from ended_inv [OF assms(2) dropped(2) e(1,2) this] dropped(1) show ?thesis by simp
qed

definition flights_init :: "('b, 'e) flights_sys \<Rightarrow> bool" where
  "flights_init s \<longleftrightarrow> s = flights_sys_new"

interpretation flights: invariant_system flights_init fl_step flights_inv
  by unfold_locales (auto simp: flights_init_def flights_inv_new intro: fl_step_inv)

section \<open>What the single flight and the merge promise\<close>

abbreviation flights_reachable :: "('b, 'e) flights_sys \<Rightarrow> bool" where
  "flights_reachable \<equiv> reachable flights_init fl_step"

lemma place_lead_queued_single:
  "place key lbl m t = (t', Lead g ch) \<Longrightarrow> length (g_keys g) = 1"
  by (drule place_Lead(5)) simp

lemma queued_guard_single:
  assumes "flights_reachable s" "g \<in> set (guards s)" "g_queued_at g \<noteq> None"
  shows "length (g_keys g) = 1"
  using assms
proof (induction arbitrary: g rule: reachable.induct)
  case (reach_init s)
  then show ?case by (simp add: flights_init_def flights_sys_new_def)
next
  case (reach_step s s')
  from reach_step.hyps(2) show ?case
  proof (cases rule: fl_step.cases)
    case (led key lbl m fl' h ch)
    with reach_step place_lead_queued_single [OF led(2)] show ?thesis by auto
  next
    case (claimed h fl' h' ks)
    have "g_queued_at h' = None"
      using claimed(4) by (auto simp: claim_group_def Let_def split: option.splits if_splits prod.splits)
    with reach_step claimed show ?thesis by (auto dest: notin_set_remove1)
  next
    case (completed h outcomes fl' h' sent)
    then have "g \<in> set (guards s)" using reach_step.prems(1) set_remove1_subset [of h "guards s"] by auto
    with reach_step.IH reach_step.prems(2) show ?thesis by blast
  qed (use reach_step in \<open>auto dest: notin_set_remove1\<close>)
qed

text \<open>A chained walk covers every offset up to its reach.\<close>

lemma chained_covers:
  "chained e rs \<Longrightarrow> e \<le> b \<Longrightarrow> b < reach e rs \<Longrightarrow> \<exists>r \<in> set rs. fst r \<le> b \<and> b < snd r"
proof (induction rs arbitrary: e)
  case (Cons r rs)
  show ?case
  proof (cases "b < max e (snd r)")
    case True
    with Cons.prems show ?thesis by auto
  next
    case False
    then have "max e (snd r) \<le> b" by (simp only: not_less)
    with Cons.IH [of "max e (snd r)"] Cons.prems show ?thesis by auto
  qed
qed simp

definition key_range :: "read_key \<Rightarrow> nat \<times> nat" where
  "key_range k = the (bounded k)"

lemma range_of_key: "range_of = key_range \<circ> q_key"
  by (simp add: fun_eq_iff range_of_def key_range_def)

lemma publish_delivers:
  "(ch, d) \<in> set (snd (publish f kds t)) \<Longrightarrow>
     \<exists>k r. (k, d) \<in> set kds \<and> reads t k = Some r \<and> owner r = f \<and> tx r = ch"
proof (induction kds arbitrary: t)
  case (Cons kd kds)
  obtain key e where kd: "kd = (key, e)" by (cases kd)
  let ?t = "fst (take_owned key f t)"
  from Cons.prems consider "(ch, d) \<in> set (snd (publish f kds ?t))"
    | r where "reads t key = Some r" "owner r = f" "ch = tx r" "d = e"
    by (auto simp: kd split_def Let_def take_owned_effect(2) split: option.splits if_splits)
  then show ?case
  proof cases
    case 1
    from Cons.IH [OF this] obtain k r where "(k, d) \<in> set kds" "reads ?t k = Some r" "owner r = f" "tx r = ch"
      by blast
    moreover from this have "reads t k = Some r"
      by (auto simp: take_owned_effect(1) split: option.splits if_splits)
    ultimately show ?thesis by auto
  next
    case 2
    then show ?thesis by (auto simp: kd)
  qed
qed simp

lemma claimed_group_of:
  assumes "flights_reachable s" "g \<in> set (guards s)" "claim_group g (fl s) = Some (t', g', Some ks)"
  obtains p q a mid c where "claimed_group (fl s) (guards s) g t' g' p q a mid c ks"
proof -
  have G: "guards_ok (fl s) (guards s)" and Q: "queues_ok (fl s) (guards s)"
    using flights.reachable_inv [OF assms(1)] by (auto simp: flights_inv_def)
  from assms(3) obtain p where p: "g_queued_at g = Some p"
    by (cases "g_queued_at g") (auto simp: claim_group_def)
  from Q p show thesis
  proof (cases rule: claim_group_cases)
    case (absent t'')
    with assms(3) show ?thesis by simp
  next
    case (group q a mid c)
    with G Q assms(2,3) p have "claimed_group (fl s) (guards s) g t' g' p q a mid c ks"
      by (simp add: claimed_group_def)
    then show ?thesis by (rule that)
  qed
qed

lemma claimed_keys:
  assumes "flights_reachable s" "g \<in> set (guards s)" "claim_group g (fl s) = Some (t', g', Some ks)"
  shows "set ks = set (g_keys g')" "distinct ks"
proof -
  obtain p q a mid c where A: "claimed_group (fl s) (guards s) g t' g' p q a mid c ks"
    using claimed_group_of [OF assms] .
  note C = claimed_groupD [OF A] and E = claim_effect [OF A] and M = claim_members [OF A]
  show "distinct ks" using M(3) by (simp add: E(8))
  from C(6) have "g_flight g \<in> q_owner ` set mid" by (simp add: claim_scan_def)
  then obtain own where own: "own \<in> set mid" "q_owner own = g_flight g" by (metis imageE)
  have "queued_ok (fl s) (guards s) p own" using own(1) M(1) claim_queue_set [OF C(6)] by blast
  then obtain r where r: "reads (fl s) (q_key own) = Some r" "owner r = g_flight g"
    using own(2) by (auto simp: queued_ok_def)
  then have "q_key own \<in> set (g_keys g)"
    using guard_owns [OF C(1,3)] by (auto simp: owned_by_def)
  moreover have "length (g_keys g) = 1" using queued_guard_single [OF assms(1,2)] C(4) by simp
  ultimately have "set (g_keys g) = {q_key own}" by (cases "g_keys g") auto
  moreover have "q_key x \<in> taken g mid \<or> x = own" if "x \<in> set mid" for x
  proof (cases "q_owner x = g_flight g")
    case True
    have "inj_on q_owner (set mid)" using M(2) by (simp add: distinct_map)
    with True own that have "x = own" by (simp add: inj_on_def)
    then show ?thesis ..
  qed (use that in \<open>auto simp: taken_def\<close>)
  ultimately show "set ks = set (g_keys g')" unfolding E(7,8) using own(1) by (auto simp: taken_def)
qed

text \<open>C3: Nobody is left waiting. In every reachable state each registered read is answered for by a
  live guard that lists its key, and every channel ever handed out is either registered once
  or has had exactly one delivery sent on it.\<close>
theorem flights_no_wedge:
  assumes "flights_reachable s"
  shows "(\<forall>k r. reads (fl s) k = Some r \<longrightarrow>
            (\<exists>g \<in> set (guards s). g_flight g = owner r \<and> k \<in> set (g_keys g) \<and> \<not> g_completed g))
    \<and> distinct (map fst (log s))
    \<and> (\<forall>ch. ch \<in> {1..next_flight (fl s)} \<longleftrightarrow>
          ch \<in> fst ` set (log s) \<or> (\<exists>k r. reads (fl s) k = Some r \<and> tx r = ch))
    \<and> (\<forall>k r. reads (fl s) k = Some r \<longrightarrow> tx r \<notin> fst ` set (log s))"
proof -
  from flights.reachable_inv [OF assms] have inv: "guards_ok (fl s) (guards s)"
    "channels_ok (fl s) (fst ` set (log s))" "distinct (map fst (log s))"
    by (auto simp: flights_inv_def)
  have "ch \<in> channels (fl s) (dom (reads (fl s))) \<longleftrightarrow> (\<exists>k r. reads (fl s) k = Some r \<and> tx r = ch)" for ch
    by (auto simp: channels_def image_iff dom_def) force
  with inv(2) have "\<forall>ch. ch \<in> {1..next_flight (fl s)} \<longleftrightarrow>
          ch \<in> fst ` set (log s) \<or> (\<exists>k r. reads (fl s) k = Some r \<and> tx r = ch)"
    unfolding channels_ok_def by blast
  moreover have "\<forall>k r. reads (fl s) k = Some r \<longrightarrow>
      (\<exists>g \<in> set (guards s). g_flight g = owner r \<and> k \<in> set (g_keys g) \<and> \<not> g_completed g)"
    using inv(1) unfolding guards_ok_def by blast
  ultimately show ?thesis using inv(2,3) unfolding channels_ok_def by blast
qed

text \<open>When the last guard is gone, whether it completed, was dropped or was carried, the table and
  every queue are empty and every caller that ever registered has been sent its delivery.\<close>
theorem flights_drained:
  assumes "flights_reachable s" "guards s = []"
  shows "reads (fl s) = Map.empty \<and> queued_ranges (fl s) = Map.empty
    \<and> fst ` set (log s) = {1..next_flight (fl s)}"
proof -
  from flights.reachable_inv [OF assms(1)] have inv: "guards_ok (fl s) []" "queues_ok (fl s) []"
    "channels_ok (fl s) (fst ` set (log s))" by (auto simp: flights_inv_def assms(2))
  have reads: "reads (fl s) = Map.empty"
  proof (rule ext)
    fix k show "reads (fl s) k = None" using inv(1) by (cases "reads (fl s) k") (auto simp: guards_ok_def)
  qed
  have "queued_ranges (fl s) p = None" for p
  proof (cases "queued_ranges (fl s) p")
    case (Some q)
    with inv(2) obtain x where "x \<in> set q" "queued_ok (fl s) [] p x" by (cases q) (auto simp: queues_ok_def)
    then show ?thesis by (simp add: queued_ok_def)
  qed
  with reads inv(3) show ?thesis by (auto simp: channels_ok_def channels_def fun_eq_iff)
qed

text \<open>A claim never panics: neither the \<^verbatim>\<open>expect\<close> on a bounded range nor the one on a registered
  read can fail.\<close>

lemma claim_total:
  assumes "flights_reachable s" "g \<in> set (guards s)"
  shows "\<exists>t' g' ks. claim_group g (fl s) = Some (t', g', ks)"
proof (cases "g_queued_at g")
  case None
  then show ?thesis by (simp add: claim_group_def)
next
  case (Some p)
  have "queues_ok (fl s) (guards s)" using flights.reachable_inv [OF assms(1)] by (simp add: flights_inv_def)
  from this Some show ?thesis by (cases rule: claim_group_cases) (auto simp: claim_result_def)
qed

text \<open>C7: The group a leader carries in its one request: exactly the keys its guard answers for
  afterwards, all of one object, in the order of their offsets, with no gap (every byte
  between the first offset and the furthest end is in some member), and maximal (a range
  still queued on that object ends before the group starts or starts after it ends).\<close>
theorem claim_group_merges:
  assumes "flights_reachable s" "g \<in> set (guards s)"
    and "claim_group g (fl s) = Some (t', g', Some ks)"
  shows "ks \<noteq> [] \<and> set ks = set (g_keys g') \<and> distinct ks
    \<and> (\<forall>k \<in> set ks. Some (rk_path k) = g_queued_at g \<and> bounded k = Some (key_range k))
    \<and> sorted (map (fst \<circ> key_range) ks)
    \<and> (\<forall>b. fst (key_range (hd ks)) \<le> b \<and> b < reach 0 (map key_range ks) \<longrightarrow>
          (\<exists>k \<in> set ks. fst (key_range k) \<le> b \<and> b < snd (key_range k)))
    \<and> (\<forall>p q x. g_queued_at g = Some p \<longrightarrow> queued_ranges t' p = Some q \<longrightarrow> x \<in> set q \<longrightarrow>
          snd (key_range (q_key x)) < fst (key_range (hd ks))
          \<or> reach 0 (map key_range ks) < fst (key_range (q_key x)))"
proof -
  obtain p q a mid c where A: "claimed_group (fl s) (guards s) g t' g' p q a mid c ks"
    using claimed_group_of [OF assms] .
  note C = claimed_groupD [OF A] and E = claim_effect [OF A] and M = claim_members [OF A]
  from C(6) have scan: "sort_key (\<lambda>x. fst (range_of x)) q = a @ mid @ c"
    "chained (snd (range_of (hd mid))) (map range_of (tl mid))"
    "\<forall>x \<in> set a. snd (range_of x) < fst (range_of (hd mid))"
    "\<forall>x \<in> set c. reach (snd (range_of (hd mid))) (map range_of (tl mid)) < fst (range_of x)"
    by (simp_all add: claim_scan_def)
  from C(6) have "g_flight g \<in> q_owner ` set mid" and p: "g_queued_at g = Some p"
    using C(4) by (simp_all add: claim_scan_def)
  then obtain m ms where mid: "mid = m # ms" by (cases mid) auto
  have ok: "queued_ok (fl s) (guards s) p x" if "x \<in> set mid" for x
    using that M(1) claim_queue_set [OF C(6)] by blast
  have ks: "ks = map q_key mid" "key_range (hd ks) = range_of m"
    using E(8) mid by (simp_all add: range_of_key)
  have rs: "map key_range ks = map range_of mid" by (simp add: ks range_of_key)
  have rch: "reach 0 (map key_range ks) = reach (snd (range_of m)) (map range_of ms)"
    unfolding rs mid by simp
  have "set ks = set (g_keys g')" by (rule claimed_keys [OF assms])
  moreover have "distinct ks" using M(3) by (simp add: ks(1))
  moreover have "\<forall>k \<in> set ks. Some (rk_path k) = g_queued_at g \<and> bounded k = Some (key_range k)"
    using ok p by (auto simp: ks(1) queued_ok_def key_range_def)
  moreover have "sorted (map (fst \<circ> key_range) ks)"
    using sorted_sort_key [of "\<lambda>x. fst (range_of x)" q] unfolding scan(1) ks(1)
    by (simp add: sorted_append range_of_key comp_def)
  moreover have "\<exists>k \<in> set ks. fst (key_range k) \<le> b \<and> b < snd (key_range k)"
    if "fst (key_range (hd ks)) \<le> b \<and> b < reach 0 (map key_range ks)" for b
  proof -
    have "\<exists>r \<in> set (map range_of mid). fst r \<le> b \<and> b < snd r"
    proof (cases "b < snd (range_of m)")
      case True
      then show ?thesis using that ks(2) mid by auto
    next
      case False
      with that chained_covers [OF scan(2), of b] show ?thesis by (auto simp: rch mid)
    qed
    then show ?thesis by (auto simp: ks(1) range_of_key)
  qed
  moreover have "snd (key_range (q_key x)) < fst (key_range (hd ks))
      \<or> reach 0 (map key_range ks) < fst (key_range (q_key x))"
    if "queued_ranges t' p = Some qq" "x \<in> set qq" for qq x
  proof -
    from that have "x \<in> set a \<or> x \<in> set c" by (auto simp: E(2) split: if_splits)
    with scan(3,4) show ?thesis unfolding ks(2) rch using mid by (auto simp: range_of_key)
  qed
  moreover have "ks \<noteq> []" by (simp add: ks(1) mid)
  ultimately show ?thesis using p by auto
qed

text \<open>Deliveries go to the right waiters: whatever a completing leader sends on a channel is its
  own outcome for the key registered on that channel, and it sends on the channel of every
  key it still owns.\<close>
theorem complete_delivers:
  assumes "complete g outcomes t = (t', g', sent)"
  shows "(\<forall>ch d. (ch, d) \<in> set sent \<longrightarrow>
            (\<exists>k r res. (k, res) \<in> set outcomes \<and> reads t k = Some r \<and> owner r = g_flight g
               \<and> tx r = ch \<and> d = Done res (g_label g)))
    \<and> (\<forall>k r. k \<in> fst ` set outcomes \<longrightarrow> reads t k = Some r \<longrightarrow> owner r = g_flight g \<longrightarrow>
          tx r \<in> fst ` set sent \<and> reads t' k = None)"
proof -
  let ?kds = "map (\<lambda>(k, r). (k, Done r (g_label g))) outcomes"
  have sent: "sent = snd (publish (g_flight g) ?kds t)" and t': "t' = fst (publish (g_flight g) ?kds t)"
    using assms by (auto simp: complete_def split_def Let_def)
  have ks: "fst ` set ?kds = fst ` set outcomes" by (simp add: image_image split_def)
  note pub = publish_effect [of "g_flight g" ?kds t, unfolded ks]
  have "\<exists>k r res. (k, res) \<in> set outcomes \<and> reads t k = Some r \<and> owner r = g_flight g
       \<and> tx r = ch \<and> d = Done res (g_label g)" if "(ch, d) \<in> set sent" for ch d
  proof -
    from publish_delivers [OF that [unfolded sent]] obtain k r where
      "(k, d) \<in> set ?kds" "reads t k = Some r" "owner r = g_flight g" "tx r = ch" by blast
    moreover from this(1) obtain res where "(k, res) \<in> set outcomes" "d = Done res (g_label g)" by auto
    ultimately show ?thesis by blast
  qed
  moreover have "tx r \<in> fst ` set sent \<and> reads t' k = None"
    if "k \<in> fst ` set outcomes" "reads t k = Some r" "owner r = g_flight g" for k r
  proof -
    have own: "k \<in> owned_by (g_flight g) (fst ` set outcomes) t" using that by (auto simp: owned_by_def)
    then have "tx (the (reads t k)) \<in> fst ` set sent" unfolding sent conjunct2 [OF pub] channels_def by blast
    with own that(2) show ?thesis by (simp add: t' conjunct1 [OF pub])
  qed
  ultimately show ?thesis by blast
qed

section \<open>A pan over one shard\<close>

text \<open>
  Two adjoining ranges and a distant one register; the first leader is admitted, carries
  the second in its request and completes; the second finds itself delivered.
\<close>

definition demo_key :: "nat \<Rightarrow> nat \<Rightarrow> read_key" where
  "demo_key a b = rk_new ''s'' (Some (Bounded a b))"

definition demo_flight :: "nat \<Rightarrow> read_key \<Rightarrow> leader_guard" where
  "demo_flight f k = \<lparr>g_flight = f, g_label = f, g_keys = [k], g_queued_at = Some ''s'', g_completed = False\<rparr>"

definition demo_led :: "(nat, nat) flights_sys" where
  "demo_led = \<lparr>fl = \<lparr>reads = [demo_key 0 4 \<mapsto> \<lparr>tx = Suc 0, leader = Suc 0, owner = Suc 0\<rparr>,
                             demo_key 4 8 \<mapsto> \<lparr>tx = Suc 1, leader = Suc 1, owner = Suc 1\<rparr>],
                    queued_ranges = [''s'' \<mapsto> [\<lparr>q_key = demo_key 0 4, q_owner = Suc 0\<rparr>,
                                               \<lparr>q_key = demo_key 4 8, q_owner = Suc 1\<rparr>]],
                    next_flight = Suc 1\<rparr>,
              guards = [demo_flight (Suc 1) (demo_key 4 8), demo_flight (Suc 0) (demo_key 0 4)],
              log = []\<rparr>"

lemmas demo_simps = demo_led_def demo_key_def demo_flight_def rk_new_def flights_sys_new_def flights_default_def

lemma demo_led_reachable: "flights_reachable demo_led"
proof -
  let ?s1 = "\<lparr>fl = \<lparr>reads = [demo_key 0 4 \<mapsto> \<lparr>tx = Suc 0, leader = Suc 0, owner = Suc 0\<rparr>],
                    queued_ranges = [''s'' \<mapsto> [\<lparr>q_key = demo_key 0 4, q_owner = Suc 0\<rparr>]],
                    next_flight = Suc 0\<rparr>, guards = [demo_flight (Suc 0) (demo_key 0 4)], log = []\<rparr>"
  have "flights_reachable flights_sys_new" by (rule reach_init) (simp add: flights_init_def)
  moreover have "fl_step flights_sys_new ?s1"
    using fl_step.led [of "demo_key 0 4" "Suc 0" True flights_sys_new "fl ?s1" "demo_flight (Suc 0) (demo_key 0 4)" "Suc 0"]
    by (simp add: demo_simps place_def Let_def bounded_def)
  moreover have "fl_step ?s1 demo_led"
    using fl_step.led [of "demo_key 4 8" "Suc 1" True ?s1 "fl demo_led" "demo_flight (Suc 1) (demo_key 4 8)" "Suc 1"]
    by (simp add: demo_simps place_def Let_def bounded_def)
  ultimately show ?thesis by (blast intro: reach_step)
qed

definition demo_guard :: leader_guard where
  "demo_guard = (demo_flight (Suc 0) (demo_key 0 4))\<lparr>g_queued_at := None, g_keys := [demo_key 0 4, demo_key 4 8]\<rparr>"

definition demo_claimed :: "(nat, nat) flights_sys" where
  "demo_claimed = demo_led\<lparr>fl := \<lparr>reads = [demo_key 0 4 \<mapsto> \<lparr>tx = Suc 0, leader = Suc 0, owner = Suc 0\<rparr>,
                                        demo_key 4 8 \<mapsto> \<lparr>tx = Suc 1, leader = Suc 0, owner = Suc 0\<rparr>],
                                   queued_ranges = Map.empty, next_flight = Suc 1\<rparr>,
                          guards := [demo_guard, demo_flight (Suc 1) (demo_key 4 8)]\<rparr>"

lemma demo_claim:
  "claim_group (demo_flight (Suc 0) (demo_key 0 4)) (fl demo_led) =
     Some (fl demo_claimed, demo_guard, Some [demo_key 0 4, demo_key 4 8])"
  by (auto simp: demo_simps demo_claimed_def demo_guard_def claim_group_def Let_def bounded_def range_of_def
        group_span_def set_queue_def fun_eq_iff)

lemma demo_claimed_reachable: "flights_reachable demo_claimed"
proof (rule reach_step [OF demo_led_reachable])
  show "fl_step demo_led demo_claimed"
    using fl_step.claimed [OF _ _ demo_claim]
    by (simp add: demo_simps demo_claimed_def demo_guard_def)
qed

definition demo_outcomes :: "(read_key \<times> (nat + nat)) list" where
  "demo_outcomes = [(demo_key 0 4, Inr 7), (demo_key 4 8, Inr 9)]"

definition demo_done :: "(nat, nat) flights_sys" where
  "demo_done = \<lparr>fl = \<lparr>reads = Map.empty, queued_ranges = Map.empty, next_flight = Suc 1\<rparr>,
                guards = [],
                log = [(Suc 0, Done (Inr 7) (Suc 0)), (Suc 1, Done (Inr 9) (Suc 0))]\<rparr>"

lemma demo_complete:
  "complete demo_guard demo_outcomes (fl demo_claimed) =
     (fl demo_done, demo_guard\<lparr>g_completed := True\<rparr>, log demo_done)"
  by (auto simp: demo_simps demo_claimed_def demo_guard_def demo_done_def demo_outcomes_def complete_def
        take_owned_def fun_eq_iff)

lemma demo_done_reachable: "flights_reachable demo_done"
proof -
  let ?s = "demo_done\<lparr>guards := [demo_flight (Suc 1) (demo_key 4 8)]\<rparr>"
  have "fl_step demo_claimed ?s"
    using fl_step.completed [OF _ _ _ demo_complete]
    by (simp add: demo_simps demo_claimed_def demo_guard_def demo_done_def demo_outcomes_def)
  moreover have "fl_step ?s demo_done"
    using fl_step.carried [of "demo_flight (Suc 1) (demo_key 4 8)" ?s]
    by (simp add: demo_simps demo_done_def)
  ultimately show ?thesis using demo_claimed_reachable by (blast intro: reach_step)
qed

theorem flights_no_wedge_witness:
  "flights_reachable demo_claimed
   \<and> (\<exists>g \<in> set (guards demo_claimed). g_flight g = Suc 0 \<and> demo_key 4 8 \<in> set (g_keys g) \<and> \<not> g_completed g)"
proof -
  have "reads (fl demo_claimed) (demo_key 4 8) = Some \<lparr>tx = Suc 1, leader = Suc 0, owner = Suc 0\<rparr>"
    by (simp add: demo_claimed_def demo_led_def)
  with flights_no_wedge [OF demo_claimed_reachable, THEN conjunct1] demo_claimed_reachable
  show ?thesis by fastforce
qed

theorem flights_drained_witness:
  "flights_reachable demo_done \<and> guards demo_done = [] \<and> reads (fl demo_done) = Map.empty
   \<and> fst ` set (log demo_done) = {1..Suc 1}"
  using flights_drained [OF demo_done_reachable] demo_done_reachable by (simp add: demo_done_def)

theorem claim_group_merges_witness:
  "set [demo_key 0 4, demo_key 4 8] = set (g_keys demo_guard)
   \<and> sorted (map (fst \<circ> key_range) [demo_key 0 4, demo_key 4 8])"
proof -
  have "demo_flight (Suc 0) (demo_key 0 4) \<in> set (guards demo_led)" by (simp add: demo_led_def)
  from claim_group_merges [OF demo_led_reachable this demo_claim]
  show ?thesis by (elim conjE, intro conjI)
qed

theorem complete_delivers_witness:
  "Suc 1 \<in> fst ` set (log demo_done) \<and> reads (fl demo_done) (demo_key 4 8) = None"
proof -
  have r: "reads (fl demo_claimed) (demo_key 4 8) = Some \<lparr>tx = Suc 1, leader = Suc 0, owner = Suc 0\<rparr>"
    and k: "demo_key 4 8 \<in> fst ` set demo_outcomes" and g: "g_flight demo_guard = Suc 0"
    by (simp_all add: demo_claimed_def demo_led_def demo_outcomes_def demo_guard_def demo_flight_def)
  from complete_delivers [OF demo_complete, THEN conjunct2, rule_format, OF k r] g show ?thesis by simp
qed

end
