(* ===== verification/Bytes.thy ===== *)
theory Bytes
  imports Prelude
begin

text \<open>
  Byte buffers as the decoders use them: checked indexing and slicing, little-endian
  integers, and counted loops. A slice, an index or a subtraction that Rust would panic
  on is \<open>None\<close>; the decoders are proved never to reach one.
\<close>

type_synonym bytes = "u8 list"

section \<open>Indexing\<close>

definition index_at :: "'a list \<Rightarrow> nat \<Rightarrow> 'a option" where
  "index_at xs i = (if i < length xs then Some (xs ! i) else None)"

text \<open>\<^verbatim>\<open>&xs[a..b]\<close>\<close>

definition slice_of :: "'a list \<Rightarrow> nat \<Rightarrow> nat \<Rightarrow> 'a list option" where
  "slice_of xs a b = (if a \<le> b \<and> b \<le> length xs then Some (take (b - a) (drop a xs)) else None)"

text \<open>\<^verbatim>\<open>xs[i] = v\<close>\<close>

definition store_at :: "nat \<Rightarrow> 'a \<Rightarrow> 'a list \<Rightarrow> 'a list option" where
  "store_at i v xs = (if i < length xs then Some (xs[i := v]) else None)"

definition checked_sub :: "nat \<Rightarrow> nat \<Rightarrow> nat option" where
  "checked_sub a b = (if b \<le> a then Some (a - b) else None)"

lemma slice_of_append:
  "length xs = a \<Longrightarrow> b = a + length ys \<Longrightarrow> slice_of (xs @ ys @ zs) a b = Some ys"
  by (simp add: slice_of_def)

section \<open>Loops\<close>

text \<open>\<^verbatim>\<open>for x in xs\<close> over a body that may panic.\<close>

fun for_each :: "('x \<Rightarrow> 's \<Rightarrow> 's option) \<Rightarrow> 'x list \<Rightarrow> 's \<Rightarrow> 's option" where
  "for_each f [] s = Some s"
| "for_each f (x # xs) s = Option.bind (f x s) (for_each f xs)"

lemma for_each_append: "for_each f (xs @ ys) s = Option.bind (for_each f xs s) (for_each f ys)"
  by (induction xs arbitrary: s) (auto split: bind_splits)

lemma for_each_fold:
  assumes "\<And>x s. x \<in> set xs \<Longrightarrow> I s \<Longrightarrow> f x s = Some (g x s)" "\<And>x s. x \<in> set xs \<Longrightarrow> I s \<Longrightarrow> I (g x s)" "I s"
  shows "for_each f xs s = Some (fold g xs s) \<and> I (fold g xs s)"
  using assms by (induction xs arbitrary: s) auto

text \<open>Two nested counted loops are one loop over the pairs.\<close>

lemma for_each_nested:
  "for_each (\<lambda>x. for_each (\<lambda>y. f (x, y)) ys) xs s = for_each f (List.product xs ys) s"
proof (induction xs arbitrary: s)
  case (Cons x xs)
  have "for_each f (map (Pair x) zs) s = for_each (\<lambda>y. f (x, y)) zs s" for zs s
    by (induction zs arbitrary: s) (auto cong: bind_option_cong)
  with Cons show ?case by (auto simp: for_each_append intro!: bind_option_cong)
qed simp

text \<open>A loop whose iterations store at different places.\<close>

lemma scatter_length [simp]: "length (fold (\<lambda>x out. out[p x := v x]) xs out) = length out"
  by (induction xs arbitrary: out) auto

lemma scatter_other: "k \<notin> p ` set xs \<Longrightarrow> fold (\<lambda>x out. out[p x := v x]) xs out ! k = out ! k"
  by (induction xs arbitrary: out) auto

lemma scatter_at:
  "distinct xs \<Longrightarrow> inj_on p (set xs) \<Longrightarrow> x \<in> set xs \<Longrightarrow> p x < length out \<Longrightarrow>
     fold (\<lambda>x out. out[p x := v x]) xs out ! p x = v x"
proof (induction xs arbitrary: out)
  case (Cons y ys)
  show ?case
  proof (cases "x = y")
    case True
    with Cons.prems have "p x \<notin> p ` set ys" by (auto simp: inj_on_def)
    with True Cons.prems show ?thesis by (simp add: scatter_other)
  qed (use Cons in \<open>auto simp: inj_on_def\<close>)
qed simp

lemma for_each_scatter:
  assumes "\<And>x. x \<in> set xs \<Longrightarrow> p x < length out"
  shows "for_each (\<lambda>x out. store_at (p x) (v x) out) xs out = Some (fold (\<lambda>x out. out[p x := v x]) xs out)"
  using assms
  by (intro for_each_fold [where I = "\<lambda>ys. length ys = length out", THEN conjunct1]) (auto simp: store_at_def)

section \<open>Mixed radix\<close>

lemma mixed_radix:
  fixes i j :: nat
  assumes "j < b"
  shows "(i * b + j) div b = i" "(i * b + j) mod b = j"
  using assms by simp_all

lemma mixed_radix_less:
  fixes i j :: nat
  assumes "i < a" "j < b"
  shows "i * b + j < a * b"
proof -
  have "i * b + j < Suc i * b" using assms(2) by simp
  also have "\<dots> \<le> a * b" using assms(1) by (intro mult_le_mono1) simp
  finally show ?thesis .
qed

lemma mixed_radix_inj: "j < b \<Longrightarrow> j' < b \<Longrightarrow> i * b + j = i' * b + j' \<Longrightarrow> i = i' \<and> j = (j'::nat)"
  by (metis mixed_radix)

section \<open>Little-endian integers\<close>

fun le_nat :: "bytes \<Rightarrow> nat" where
  "le_nat [] = 0"
| "le_nat (b # bs) = unat b + 256 * le_nat bs"

fun le_bytes :: "nat \<Rightarrow> nat \<Rightarrow> bytes" where
  "le_bytes 0 n = []"
| "le_bytes (Suc k) n = of_nat (n mod 256) # le_bytes k (n div 256)"

lemma le_bytes_length [simp]: "length (le_bytes k n) = k"
  by (induction k arbitrary: n) auto

lemma le_nat_bytes: "n < 256 ^ k \<Longrightarrow> le_nat (le_bytes k n) = n"
proof (induction k arbitrary: n)
  case (Suc k)
  have "n div 256 < 256 ^ k" using Suc.prems by (simp add: less_mult_imp_div_less mult.commute)
  with Suc.IH show ?case by (simp add: unat_of_nat)
qed simp

lemma le_nat_bound: "le_nat bs < 256 ^ length bs"
proof (induction bs)
  case (Cons b bs)
  have "unat b < 256" using unsigned_less [of b, where ?'a = nat] by simp
  with Cons show ?case by (simp add: algebra_simps)
qed simp

lemma le_bytes_nat: "le_bytes (length bs) (le_nat bs) = bs"
proof (induction bs)
  case (Cons b bs)
  have "unat b < 256" using unsigned_less [of b, where ?'a = nat] by simp
  with Cons show ?case by simp
qed simp

lemma le_nat_inj: "length as = length bs \<Longrightarrow> le_nat as = le_nat bs \<longleftrightarrow> as = bs"
  by (metis le_bytes_nat)

text \<open>The \<open>u32\<close> read of four bytes at an offset.\<close>

definition u32_at :: "bytes \<Rightarrow> nat \<Rightarrow> nat option" where
  "u32_at bs i = map_option le_nat (slice_of bs i (i + 4))"

lemma u32_at_Some: "i + 4 \<le> length bs \<Longrightarrow> \<exists>n. u32_at bs i = Some n \<and> n < 2 ^ 32"
  using le_nat_bound [of "take 4 (drop i bs)"] by (auto simp: u32_at_def slice_of_def)

lemma u32_at_append:
  "length xs = i \<Longrightarrow> n < 2 ^ 32 \<Longrightarrow> u32_at (xs @ le_bytes 4 n @ zs) i = Some n"
  by (simp add: u32_at_def slice_of_append le_nat_bytes)

end
