(* ===== verification/ReadCache.thy ===== *)
theory ReadCache
  imports Flights Bytes
begin

text \<open>
  The cached store (\<^verbatim>\<open>lucida-store/src/cache.rs\<close>): the byte-budgeted LRU, the memo of absent
  objects, and the calls that read through them, over the in-flight table of \<open>Flights\<close>.
  \<open>LruCache\<close> is a library type: its operations are a parameter, and \<open>lru_laws\<close> states what
  its documentation says of them. The backend is a parameter too: what an object holds and
  whether it exists. Every call is a task. A step of \<open>store_step\<close> is what one task does
  between two points where it waits (for the table, a permit, a delivery or the backend), so
  every interleaving of calls at those points is a run. Clocks and the rows of timings are left
  out, and so is a channel closed without a delivery, which \<open>Flights\<close> shows cannot happen.
\<close>

section \<open>Errors\<close>

datatype 'e backend_error =
    NotFoundError string string
  | PermissionDeniedError string string
  | UnauthenticatedError string string
  | GenericError string string
  | OtherError 'e

datatype shared_error_kind = KindNotFound | KindPermissionDenied | KindOther

definition classify :: "'e backend_error \<Rightarrow> shared_error_kind" where
  "classify err =
     (case err of
        NotFoundError _ _ \<Rightarrow> KindNotFound
      | PermissionDeniedError _ _ \<Rightarrow> KindPermissionDenied
      | UnauthenticatedError _ _ \<Rightarrow> KindPermissionDenied
      | _ \<Rightarrow> KindOther)"

record shared_error =
  se_kind :: shared_error_kind
  se_message :: string

definition capture :: "('e backend_error \<Rightarrow> string) \<Rightarrow> 'e backend_error \<Rightarrow> shared_error" where
  "capture display err = \<lparr>se_kind = classify err, se_message = display err\<rparr>"

definition into_object_store_error :: "shared_error \<Rightarrow> 'e backend_error" where
  "into_object_store_error e =
     (case se_kind e of
        KindNotFound \<Rightarrow> NotFoundError [] (se_message e)
      | KindPermissionDenied \<Rightarrow> PermissionDeniedError [] (se_message e)
      | KindOther \<Rightarrow> GenericError ''source'' (se_message e))"

definition share :: "('e backend_error \<Rightarrow> string) \<Rightarrow> 'e backend_error + bytes \<Rightarrow> shared_error + bytes" where
  "share display r = res_map_err (capture display) r"

definition is_absent :: "'e backend_error \<Rightarrow> bool" where
  "is_absent e \<longleftrightarrow> (case e of NotFoundError _ _ \<Rightarrow> True | _ \<Rightarrow> False)"

datatype read_class = ChunkClass | MetadataRead | OptionalMetadata

definition is_metadata :: "read_class \<Rightarrow> bool" where
  "is_metadata c \<longleftrightarrow> c = MetadataRead \<or> c = OptionalMetadata"

section \<open>The least-recently-used cache\<close>

record ('k, 'v, 'c) lru_api =
  la_entries :: "'c \<Rightarrow> ('k \<times> 'v) list"
  la_new :: 'c
  la_get :: "'k \<Rightarrow> 'c \<Rightarrow> 'c \<times> 'v option"
  la_put :: "'k \<Rightarrow> 'v \<Rightarrow> 'c \<Rightarrow> 'c"
  la_pop :: "'c \<Rightarrow> ('c \<times> 'k \<times> 'v) option"

text \<open>
  An unbounded cache: entries from the most to the least recently used, a lookup makes its
  entry the most recent, \<^verbatim>\<open>pop_lru\<close> takes the last one.
\<close>

definition touch :: "'k \<Rightarrow> ('k \<times> 'v) list \<Rightarrow> ('k \<times> 'v) list" where
  "touch k es = (case map_of es k of None \<Rightarrow> es | Some v \<Rightarrow> (k, v) # AList.delete k es)"

definition lru_laws :: "('k, 'v, 'c) lru_api \<Rightarrow> bool" where
  "lru_laws api \<longleftrightarrow>
     la_entries api (la_new api) = []
     \<and> (\<forall>c. distinct (map fst (la_entries api c)))
     \<and> (\<forall>k c. snd (la_get api k c) = map_of (la_entries api c) k
          \<and> la_entries api (fst (la_get api k c)) = touch k (la_entries api c))
     \<and> (\<forall>k v c. la_entries api (la_put api k v c) = (k, v) # AList.delete k (la_entries api c))
     \<and> (\<forall>c. la_pop api c = None \<longleftrightarrow> la_entries api c = [])
     \<and> (\<forall>c c' k v. la_pop api c = Some (c', k, v) \<longrightarrow> la_entries api c = la_entries api c' @ [(k, v)])"

text \<open>A cache of bounded size may forget, but it holds nothing that was not put there.\<close>

definition memo_laws :: "('k, 'v, 'c) lru_api \<Rightarrow> bool" where
  "memo_laws api \<longleftrightarrow>
     la_entries api (la_new api) = []
     \<and> (\<forall>k c. (snd (la_get api k c) \<noteq> None \<longrightarrow> k \<in> fst ` set (la_entries api c))
          \<and> fst ` set (la_entries api (fst (la_get api k c))) \<subseteq> fst ` set (la_entries api c))
     \<and> (\<forall>k v c. fst ` set (la_entries api (la_put api k v c)) \<subseteq> insert k (fst ` set (la_entries api c)))"

record 'c lru_state =
  ls_lru :: 'c
  ls_current_bytes :: nat
  ls_max_bytes :: nat
  ls_hits :: nat
  ls_misses :: nat
  ls_evictions :: nat
  ls_backend_errors :: nat
  ls_coalesced :: nat
  ls_source_reads :: nat

type_synonym 'c byte_lru = "(read_key, bytes, 'c) lru_api"

definition lru_state_new :: "'c byte_lru \<Rightarrow> nat \<Rightarrow> 'c lru_state" where
  "lru_state_new api max_bytes =
     \<lparr>ls_lru = la_new api, ls_current_bytes = 0, ls_max_bytes = max_bytes, ls_hits = 0, ls_misses = 0,
      ls_evictions = 0, ls_backend_errors = 0, ls_coalesced = 0, ls_source_reads = 0\<rparr>"

record cache_stats =
  cst_max_bytes :: nat
  cst_current_bytes :: nat
  cst_entry_count :: nat
  cst_hits :: nat
  cst_misses :: nat
  cst_evictions :: nat
  cst_backend_errors :: nat
  cst_coalesced :: nat
  cst_source_reads :: nat

definition stats :: "'c byte_lru \<Rightarrow> 'c lru_state \<Rightarrow> cache_stats" where
  "stats api st =
     \<lparr>cst_max_bytes = ls_max_bytes st, cst_current_bytes = ls_current_bytes st,
      cst_entry_count = length (la_entries api (ls_lru st)), cst_hits = ls_hits st, cst_misses = ls_misses st,
      cst_evictions = ls_evictions st, cst_backend_errors = ls_backend_errors st, cst_coalesced = ls_coalesced st,
      cst_source_reads = ls_source_reads st\<rparr>"

definition count_round_trip :: "bool \<Rightarrow> 'c lru_state \<Rightarrow> 'c lru_state" where
  "count_round_trip failed st =
     st\<lparr>ls_source_reads := ls_source_reads st + 1,
        ls_backend_errors := ls_backend_errors st + (if failed then 1 else 0)\<rparr>"

text \<open>The eviction loop. It runs as long as the library has something to evict; \<open>None\<close> is a
  counter taken below zero, or no end.\<close>

partial_function (option) evict :: "'c byte_lru \<Rightarrow> nat \<Rightarrow> 'c lru_state \<Rightarrow> 'c lru_state option" where
  "evict api new_size st =
     (if ls_current_bytes st + new_size > ls_max_bytes st then
        (case la_pop api (ls_lru st) of
           None \<Rightarrow> Some st
         | Some (c, _, evicted) \<Rightarrow>
             Option.bind (checked_sub (ls_current_bytes st) (length evicted)) (\<lambda>left.
               evict api new_size
                 (st\<lparr>ls_lru := c, ls_current_bytes := left, ls_evictions := ls_evictions st + 1\<rparr>)))
      else Some st)"

definition lru_insert :: "'c byte_lru \<Rightarrow> read_key \<Rightarrow> bytes \<Rightarrow> 'c lru_state \<Rightarrow> ('c lru_state \<times> bytes) option" where
  "lru_insert api key bytes st =
     (case la_get api key (ls_lru st) of
        (c, Some existing) \<Rightarrow> Some (st\<lparr>ls_lru := c\<rparr>, existing)
      | (c, None) \<Rightarrow>
          map_option (\<lambda>st1. (st1\<lparr>ls_current_bytes := ls_current_bytes st1 + length bytes,
                                ls_lru := la_put api key bytes (ls_lru st1)\<rparr>, bytes))
            (evict api (length bytes) (st\<lparr>ls_lru := c\<rparr>)))"

definition check_cache :: "'c byte_lru \<Rightarrow> read_key \<Rightarrow> bool \<Rightarrow> 'c lru_state \<Rightarrow> 'c lru_state \<times> bytes option" where
  "check_cache api key first_attempt st =
     (case la_get api key (ls_lru st) of
        (c, Some bytes) \<Rightarrow> (st\<lparr>ls_lru := c, ls_hits := ls_hits st + 1\<rparr>, Some bytes)
      | (c, None) \<Rightarrow> (st\<lparr>ls_lru := c, ls_misses := ls_misses st + (if first_attempt then 1 else 0)\<rparr>, None))"

section \<open>After the backend answered\<close>

definition fetched :: "'c byte_lru \<Rightarrow> read_class \<Rightarrow> read_key \<Rightarrow> 'e backend_error + bytes \<Rightarrow> 'c lru_state \<Rightarrow>
    ('c lru_state \<times> ('e backend_error + bytes)) option" where
  "fetched api cls key fetch st =
     (case fetch of
        Inl e \<Rightarrow>
          let absent_as_expected = (cls = OptionalMetadata \<and> is_absent e)
          in Some (count_round_trip (\<not> absent_as_expected) st, Inl e)
      | Inr bytes \<Rightarrow>
          map_option (\<lambda>(st1, b). (st1, Inr b)) (lru_insert api key bytes (count_round_trip False st)))"

fun insert_members :: "'c byte_lru \<Rightarrow> read_key \<Rightarrow> (read_key \<times> bytes) list \<Rightarrow> bytes option \<Rightarrow> 'c lru_state \<Rightarrow>
    ('c lru_state \<times> bytes option \<times> (read_key \<times> (shared_error + bytes)) list) option" where
  "insert_members api key [] own st = Some (st, own, [])"
| "insert_members api key ((member, piece) # rest) own st =
     Option.bind (lru_insert api member piece st) (\<lambda>(st1, bytes).
       map_option (\<lambda>(st2, own2, outcomes). (st2, own2, (member, Inr bytes) # outcomes))
         (insert_members api key rest (if member = key then Some bytes else own) st1))"

definition fetched_group :: "'c byte_lru \<Rightarrow> ('e backend_error \<Rightarrow> string) \<Rightarrow> read_key \<Rightarrow> read_key list \<Rightarrow> 'e backend_error + bytes list \<Rightarrow>
    'c lru_state \<Rightarrow> ('c lru_state \<times> ('e backend_error + bytes) \<times> (read_key \<times> (shared_error + bytes)) list) option" where
  "fetched_group api display key keys fetch st =
     (case fetch of
        Inl e \<Rightarrow> Some (count_round_trip True st, Inl e, map (\<lambda>member. (member, Inl (capture display e))) keys)
      | Inr slices \<Rightarrow>
          Option.bind (insert_members api key (zip keys slices) None (count_round_trip False st)) (\<lambda>(st1, own, outcomes).
            map_option (\<lambda>b. (st1, Inr b, outcomes)) own))"

section \<open>Calls\<close>

text \<open>Where a call of \<^verbatim>\<open>get_bytes_as\<close> is between two acquisitions of a lock.\<close>

datatype 'e task =
    Idle
  | AtTop read_key read_class bool
  | Missed read_key read_class
  | Following read_key read_class channel
  | Reading read_key read_class leader_guard
  | Queued read_key read_class leader_guard
  | Fetching read_key read_class leader_guard "read_key list"
  | Carried read_key read_class channel
  | Finished read_key read_class "'e backend_error + bytes"
  | KnownAbsent read_key
  | Probing string
  | Probed string "'e backend_error + bool"

record ('c, 'm, 'e) store_sys =
  st_flights :: "(bytes, shared_error) flights_sys"
  st_cache :: "'c lru_state"
  st_absent :: 'm
  st_tasks :: "'e task list"

definition mergeable :: "read_key \<Rightarrow> read_class \<Rightarrow> bool" where
  "mergeable key cls \<longleftrightarrow> cls = ChunkClass \<and> bounded key \<noteq> None"

type_synonym 'm absent_memo = "(string, unit, 'm) lru_api"

text \<open>
  The entry of a call: an optional metadata read asks the memo first.
\<close>

definition start_call :: "'m absent_memo \<Rightarrow> read_key \<Rightarrow> read_class \<Rightarrow> 'm \<Rightarrow> 'c lru_state \<Rightarrow> 'm \<times> 'c lru_state \<times> 'e task" where
  "start_call memo key cls absent st =
     (if cls = OptionalMetadata then
        (case la_get memo (rk_path key) absent of
           (m, Some _) \<Rightarrow> (m, st\<lparr>ls_hits := ls_hits st + 1\<rparr>, KnownAbsent key)
         | (m, None) \<Rightarrow> (m, st, AtTop key cls True))
      else (absent, st, AtTop key cls True))"

definition start_probe :: "'c byte_lru \<Rightarrow> 'm absent_memo \<Rightarrow> string \<Rightarrow> 'm \<Rightarrow> 'c lru_state \<Rightarrow> 'm \<times> 'c lru_state \<times> 'e task" where
  "start_probe api memo path absent st =
     (case la_get memo path absent of
        (m, Some _) \<Rightarrow> (m, st\<lparr>ls_hits := ls_hits st + 1\<rparr>, Probed path (Inr False))
      | (m, None) \<Rightarrow>
          (case la_get api (rk_new path None) (ls_lru st) of
             (c, Some _) \<Rightarrow> (m, st\<lparr>ls_lru := c, ls_hits := ls_hits st + 1\<rparr>, Probed path (Inr True))
           | (c, None) \<Rightarrow> (m, st\<lparr>ls_lru := c, ls_misses := ls_misses st + 1\<rparr>, Probing path)))"

definition probe_answered :: "'m absent_memo \<Rightarrow> string \<Rightarrow> 'e backend_error + unit \<Rightarrow> 'm \<Rightarrow> 'c lru_state \<Rightarrow> 'm \<times> 'c lru_state \<times> 'e task" where
  "probe_answered memo path head absent st =
     (case head of
        Inr _ \<Rightarrow> (absent, count_round_trip False st, Probed path (Inr True))
      | Inl e \<Rightarrow>
          if is_absent e then (la_put memo path () absent, count_round_trip False st, Probed path (Inr False))
          else (absent, count_round_trip True st, Probed path (Inl e)))"

definition placed :: "read_key \<Rightarrow> read_class \<Rightarrow> placement \<Rightarrow> 'e task" where
  "placed key cls p =
     (case p of
        Follow ch _ \<Rightarrow> Following key cls ch
      | Lead g _ \<Rightarrow> if mergeable key cls then Queued key cls g else Reading key cls g)"

definition delivered :: "read_key \<Rightarrow> read_class \<Rightarrow> (bytes, shared_error) delivery \<Rightarrow> 'c lru_state \<Rightarrow> 'c lru_state \<times> 'e task" where
  "delivered key cls d st =
     (case d of
        Done result _ \<Rightarrow>
          (st\<lparr>ls_coalesced := ls_coalesced st + 1\<rparr>, Finished key cls (res_map_err into_object_store_error result))
      | Abandoned _ \<Rightarrow> (st, AtTop key cls False))"

text \<open>The end of an optional metadata read: an absent object is the answer, and is remembered.\<close>

definition finish_optional :: "'m absent_memo \<Rightarrow> read_key \<Rightarrow> 'e backend_error \<Rightarrow> 'm \<Rightarrow> 'm \<times> 'e task" where
  "finish_optional memo key e absent =
     (if is_absent e then (la_put memo (rk_path key) () absent, KnownAbsent key)
      else (absent, Finished key MetadataRead (Inl e)))"

text \<open>The guard a dropped call takes with it.\<close>

definition guard_of :: "'e task \<Rightarrow> leader_guard option" where
  "guard_of t =
     (case t of Reading _ _ g \<Rightarrow> Some g | Queued _ _ g \<Rightarrow> Some g | Fetching _ _ g _ \<Rightarrow> Some g | _ \<Rightarrow> None)"

section \<open>Runs\<close>

text \<open>
  The backend of a run: what each key reads as, and which objects exist. It is fixed, so an
  answer is the object's bytes or a failure, and not-found is only said of an object that
  is not there.
\<close>

record backend =
  be_object :: "read_key \<Rightarrow> bytes"
  be_present :: "string \<Rightarrow> bool"

definition honest :: "backend \<Rightarrow> read_key \<Rightarrow> 'e backend_error + bytes \<Rightarrow> bool" where
  "honest be key r \<longleftrightarrow>
     (case r of
        Inr b \<Rightarrow> be_present be (rk_path key) \<and> b = be_object be key
      | Inl e \<Rightarrow> is_absent e \<longrightarrow> \<not> be_present be (rk_path key))"

definition honest_group :: "backend \<Rightarrow> read_key list \<Rightarrow> 'e backend_error + bytes list \<Rightarrow> bool" where
  "honest_group be keys r \<longleftrightarrow>
     (case r of
        Inr slices \<Rightarrow> list_all (\<lambda>k. be_present be (rk_path k)) keys \<and> slices = map (be_object be) keys
      | Inl e \<Rightarrow> is_absent e \<longrightarrow> list_all (\<lambda>k. \<not> be_present be (rk_path k)) keys)"

definition honest_head :: "backend \<Rightarrow> string \<Rightarrow> 'e backend_error + unit \<Rightarrow> bool" where
  "honest_head be path r \<longleftrightarrow>
     (case r of Inr _ \<Rightarrow> be_present be path | Inl e \<Rightarrow> is_absent e \<longrightarrow> \<not> be_present be path)"

definition set_task :: "nat \<Rightarrow> 'e task \<Rightarrow> ('c, 'm, 'e) store_sys \<Rightarrow> ('c, 'm, 'e) store_sys" where
  "set_task i t s = s\<lparr>st_tasks := (st_tasks s)[i := t]\<rparr>"

definition at_task :: "('c, 'm, 'e) store_sys \<Rightarrow> nat \<Rightarrow> 'e task \<Rightarrow> bool" where
  "at_task s i t \<longleftrightarrow> i < length (st_tasks s) \<and> st_tasks s ! i = t"

inductive store_step :: "'c byte_lru \<Rightarrow> 'm absent_memo \<Rightarrow> ('e backend_error \<Rightarrow> string) \<Rightarrow> backend \<Rightarrow>
    ('c, 'm, 'e) store_sys \<Rightarrow> ('c, 'm, 'e) store_sys \<Rightarrow> bool"
  for api :: "'c byte_lru" and memo :: "'m absent_memo" and display :: "'e backend_error \<Rightarrow> string" and be :: backend where
  arrive: "store_step api memo display be s (s\<lparr>st_tasks := st_tasks s @ [Idle]\<rparr>)"
| call: "at_task s i Idle \<Longrightarrow> start_call memo key cls (st_absent s) (st_cache s) = (m, c, t) \<Longrightarrow>
     store_step api memo display be s (set_task i t (s\<lparr>st_absent := m, st_cache := c\<rparr>))"
| probe: "at_task s i Idle \<Longrightarrow> start_probe api memo path (st_absent s) (st_cache s) = (m, c, t) \<Longrightarrow>
     store_step api memo display be s (set_task i t (s\<lparr>st_absent := m, st_cache := c\<rparr>))"
| probe_answer: "at_task s i (Probing path) \<Longrightarrow> honest_head be path r \<Longrightarrow>
     probe_answered memo path r (st_absent s) (st_cache s) = (m, c, t) \<Longrightarrow>
     store_step api memo display be s (set_task i t (s\<lparr>st_absent := m, st_cache := c\<rparr>))"
| hit: "at_task s i (AtTop key cls first) \<Longrightarrow> check_cache api key first (st_cache s) = (c, Some b) \<Longrightarrow>
     store_step api memo display be s (set_task i (Finished key cls (Inr b)) (s\<lparr>st_cache := c\<rparr>))"
| miss: "at_task s i (AtTop key cls first) \<Longrightarrow> check_cache api key first (st_cache s) = (c, None) \<Longrightarrow>
     store_step api memo display be s (set_task i (Missed key cls) (s\<lparr>st_cache := c\<rparr>))"
| follow: "at_task s i (Missed key cls) \<Longrightarrow> place key lbl (mergeable key cls) (fl (st_flights s)) = (f, Follow ch l) \<Longrightarrow>
     store_step api memo display be s
       (set_task i (placed key cls (Follow ch l)) (s\<lparr>st_flights := (st_flights s)\<lparr>fl := f\<rparr>\<rparr>))"
| lead: "at_task s i (Missed key cls) \<Longrightarrow> place key lbl (mergeable key cls) (fl (st_flights s)) = (f, Lead g ch) \<Longrightarrow>
     store_step api memo display be s
       (set_task i (placed key cls (Lead g ch)) (s\<lparr>st_flights := (st_flights s)\<lparr>fl := f, guards := g # guards (st_flights s)\<rparr>\<rparr>))"
| answer: "at_task s i (Reading key cls g) \<Longrightarrow> honest be key r \<Longrightarrow>
     fetched api cls key r (st_cache s) = Some (c, res) \<Longrightarrow>
     complete g [(key, share display res)] (fl (st_flights s)) = (f, g', sent) \<Longrightarrow>
     store_step api memo display be s
       (set_task i (Finished key cls res) (s\<lparr>st_cache := c, st_flights := (st_flights s)\<lparr>fl := f,
          guards := remove1 g (guards (st_flights s)), log := log (st_flights s) @ sent\<rparr>\<rparr>))"
| claim: "at_task s i (Queued key cls g) \<Longrightarrow> claim_group g (fl (st_flights s)) = Some (f, g', Some ks) \<Longrightarrow>
     store_step api memo display be s
       (set_task i (Fetching key cls g' ks) (s\<lparr>st_flights := (st_flights s)\<lparr>fl := f,
          guards := g' # remove1 g (guards (st_flights s))\<rparr>\<rparr>))"
| claimed_away: "at_task s i (Queued key cls g) \<Longrightarrow> claim_group g (fl (st_flights s)) = Some (f, g', None) \<Longrightarrow>
     store_step api memo display be s
       (set_task i (Carried key cls (g_flight g)) (s\<lparr>st_flights := (st_flights s)\<lparr>fl := f,
          guards := remove1 g (guards (st_flights s))\<rparr>\<rparr>))"
| carried: "at_task s i (Queued key cls g) \<Longrightarrow> (g_flight g, d) \<in> set (log (st_flights s)) \<Longrightarrow>
     delivered key cls d (st_cache s) = (c, t) \<Longrightarrow>
     store_step api memo display be s
       (set_task i t (s\<lparr>st_cache := c, st_flights := (st_flights s)\<lparr>guards := remove1 g (guards (st_flights s))\<rparr>\<rparr>))"
| group_answer: "at_task s i (Fetching key cls g ks) \<Longrightarrow> honest_group be ks r \<Longrightarrow>
     fetched_group api display key ks r (st_cache s) = Some (c, res, outcomes) \<Longrightarrow>
     complete g outcomes (fl (st_flights s)) = (f, g', sent) \<Longrightarrow>
     store_step api memo display be s
       (set_task i (Finished key cls res) (s\<lparr>st_cache := c, st_flights := (st_flights s)\<lparr>fl := f,
          guards := remove1 g (guards (st_flights s)), log := log (st_flights s) @ sent\<rparr>\<rparr>))"
| deliver: "at_task s i t0 \<Longrightarrow> t0 = Following key cls ch \<or> t0 = Carried key cls ch \<Longrightarrow>
     (ch, d) \<in> set (log (st_flights s)) \<Longrightarrow> delivered key cls d (st_cache s) = (c, t) \<Longrightarrow>
     store_step api memo display be s (set_task i t (s\<lparr>st_cache := c\<rparr>))"
| optional: "at_task s i (Finished key OptionalMetadata (Inl e)) \<Longrightarrow>
     finish_optional memo key e (st_absent s) = (m, t) \<Longrightarrow>
     store_step api memo display be s (set_task i t (s\<lparr>st_absent := m\<rparr>))"
| cancel: "at_task s i t \<Longrightarrow> guard_of t = None \<Longrightarrow> store_step api memo display be s (set_task i Idle s)"
| cancel_lead: "at_task s i t \<Longrightarrow> guard_of t = Some g \<Longrightarrow> drop_guard g (fl (st_flights s)) = (f, sent) \<Longrightarrow>
     store_step api memo display be s
       (set_task i Idle (s\<lparr>st_flights := (st_flights s)\<lparr>fl := f, guards := remove1 g (guards (st_flights s)),
          log := log (st_flights s) @ sent\<rparr>\<rparr>))"

definition store_new :: "'c byte_lru \<Rightarrow> 'm absent_memo \<Rightarrow> nat \<Rightarrow> ('c, 'm, 'e) store_sys" where
  "store_new api memo max_bytes =
     \<lparr>st_flights = flights_sys_new, st_cache = lru_state_new api max_bytes, st_absent = la_new memo, st_tasks = []\<rparr>"

section \<open>The byte budget\<close>

definition entries_bytes :: "(read_key \<times> bytes) list \<Rightarrow> nat" where
  "entries_bytes es = sum_list (map (length \<circ> snd) es)"

abbreviation resident :: "'c byte_lru \<Rightarrow> 'c lru_state \<Rightarrow> (read_key \<times> bytes) list" where
  "resident api st \<equiv> la_entries api (ls_lru st)"

text \<open>
  The counter is what is resident, and it exceeds the budget only for a single entry that
  is larger than the budget by itself.
\<close>

definition budget_ok :: "'c byte_lru \<Rightarrow> 'c lru_state \<Rightarrow> bool" where
  "budget_ok api st \<longleftrightarrow>
     ls_current_bytes st = entries_bytes (resident api st)
     \<and> (ls_current_bytes st \<le> ls_max_bytes st \<or> length (resident api st) \<le> 1)"

lemma delete_absent: "map_of es k = None \<Longrightarrow> AList.delete k es = es"
  by (induction es) (auto split: if_splits)

lemma entries_bytes_delete:
  "distinct (map fst es) \<Longrightarrow> map_of es k = Some v \<Longrightarrow> entries_bytes es = length v + entries_bytes (AList.delete k es)"
proof (induction es)
  case (Cons e es)
  obtain a b where e: "e = (a, b)" by (cases e)
  show ?case
  proof (cases "a = k")
    case True
    with Cons.prems e have "map_of es k = None" by (auto simp: map_of_eq_None_iff)
    with True Cons.prems e show ?thesis by (simp add: entries_bytes_def delete_absent)
  next
    case False
    with Cons e show ?thesis by (simp add: entries_bytes_def)
  qed
qed simp

lemma length_delete:
  "distinct (map fst es) \<Longrightarrow> map_of es k = Some v \<Longrightarrow> length es = Suc (length (AList.delete k es))"
proof (induction es)
  case (Cons e es)
  obtain a b where e: "e = (a, b)" by (cases e)
  show ?case
  proof (cases "a = k")
    case True
    with Cons.prems e have "map_of es k = None" by (auto simp: map_of_eq_None_iff)
    with True Cons.prems e show ?thesis by (simp add: delete_absent)
  qed (use Cons e in simp)
qed simp

lemma delete_members: "set (AList.delete k es) = {e \<in> set es. fst e \<noteq> k}"
  by (induction es) auto

lemma touch_members:
  assumes "distinct (map fst es)"
  shows "set (touch k es) = set es"
proof (cases "map_of es k")
  case (Some v)
  have "e = (k, v)" if "e \<in> set es" "fst e = k" for e
    using that Some map_of_is_SomeI [OF assms, of "fst e" "snd e"] by (cases e rule: prod.exhaust) simp
  moreover have "touch k es = (k, v) # AList.delete k es" using Some by (simp add: touch_def)
  ultimately show ?thesis using map_of_SomeD [OF Some] delete_members [of k es] by (simp only: set_simps) blast
qed (simp add: touch_def)

lemma touch_same:
  assumes "distinct (map fst es)"
  shows "entries_bytes (touch k es) = entries_bytes es" "length (touch k es) = length es" "set (touch k es) = set es"
proof -
  show "entries_bytes (touch k es) = entries_bytes es"
    using entries_bytes_delete [OF assms] by (auto simp: touch_def entries_bytes_def split: option.splits)
  show "length (touch k es) = length es" using length_delete [OF assms] by (auto simp: touch_def split: option.splits)
qed (rule touch_members [OF assms])

lemma lru_lawsD:
  assumes "lru_laws api"
  shows "la_entries api (la_new api) = []" "distinct (map fst (la_entries api c))"
    "snd (la_get api k c) = map_of (la_entries api c) k"
    "la_entries api (fst (la_get api k c)) = touch k (la_entries api c)"
    "la_entries api (la_put api k v c) = (k, v) # AList.delete k (la_entries api c)"
    "la_pop api c = None \<longleftrightarrow> la_entries api c = []"
    "la_pop api c = Some (c', k, v) \<Longrightarrow> la_entries api c = la_entries api c' @ [(k, v)]"
  using assms unfolding lru_laws_def by blast+

text \<open>The eviction loop ends, evicts from the least recent end, and no more than it has to.\<close>

lemma evict_returns:
  assumes "lru_laws api" "ls_current_bytes st = entries_bytes (resident api st)"
  shows "\<exists>st'. evict api n st = Some st'
    \<and> ls_current_bytes st' = entries_bytes (resident api st') \<and> ls_max_bytes st' = ls_max_bytes st
    \<and> (ls_current_bytes st' + n \<le> ls_max_bytes st' \<or> resident api st' = [])
    \<and> (\<exists>out. resident api st = resident api st' @ out
         \<and> (out = [] \<or> ls_max_bytes st < entries_bytes (resident api st') + length (snd (hd out)) + n))"
  using assms(2)
proof (induction "length (resident api st)" arbitrary: st)
  case 0
  then show ?case
    using lru_lawsD(6) [OF assms(1), of "ls_lru st"] by (subst evict.simps) (auto simp: entries_bytes_def)
next
  case (Suc m)
  show ?case
  proof (cases "ls_current_bytes st + n > ls_max_bytes st")
    case False
    then show ?thesis using Suc.prems by (subst evict.simps) simp
  next
    case True
    obtain c k v where pop: "la_pop api (ls_lru st) = Some (c, k, v)"
      using lru_lawsD(6) [OF assms(1), of "ls_lru st"] Suc.hyps(2) by (cases "la_pop api (ls_lru st)") auto
    note es = lru_lawsD(7) [OF assms(1) pop]
    let ?st = "st\<lparr>ls_lru := c, ls_current_bytes := ls_current_bytes st - length v, ls_evictions := ls_evictions st + 1\<rparr>"
    have bytes: "ls_current_bytes st = entries_bytes (la_entries api c) + length v"
      using Suc.prems es by (simp add: entries_bytes_def)
    have step: "evict api n st = evict api n ?st"
      using True pop bytes by (subst evict.simps) (simp add: checked_sub_def)
    have "m = length (resident api ?st)" "ls_current_bytes ?st = entries_bytes (resident api ?st)"
      using Suc.hyps(2) es bytes by simp_all
    from Suc.hyps(1) [OF this] obtain st' out where st': "evict api n ?st = Some st'"
      "ls_current_bytes st' = entries_bytes (resident api st')" "ls_max_bytes st' = ls_max_bytes ?st"
      "ls_current_bytes st' + n \<le> ls_max_bytes st' \<or> resident api st' = []"
      "resident api ?st = resident api st' @ out"
      "out = [] \<or> ls_max_bytes ?st < entries_bytes (resident api st') + length (snd (hd out)) + n"
      by blast
    have "resident api st = resident api st' @ (out @ [(k, v)])" using es st'(5) by simp
    moreover have "ls_max_bytes st < entries_bytes (resident api st') + length (snd (hd (out @ [(k, v)]))) + n"
    proof (cases "out = []")
      case True
      with st'(5) bytes \<open>ls_current_bytes st + n > ls_max_bytes st\<close> show ?thesis by simp
    qed (use st'(6) in simp)
    ultimately show ?thesis using step st'(1-4) by auto
  qed
qed

lemma lru_insert_returns:
  assumes "lru_laws api" "budget_ok api st"
  shows "\<exists>st' b. lru_insert api k bytes st = Some (st', b) \<and> budget_ok api st' \<and> ls_max_bytes st' = ls_max_bytes st
    \<and> set (resident api st') \<subseteq> insert (k, bytes) (set (resident api st))
    \<and> (b = bytes \<or> (k, b) \<in> set (resident api st)) \<and> (k, b) \<in> set (resident api st')"
proof (cases "la_get api k (ls_lru st)")
  case (Pair c found)
  note get = lru_lawsD(3,4) [OF assms(1), of k "ls_lru st", unfolded Pair prod.sel]
  note same = touch_same [OF lru_lawsD(2) [OF assms(1), of "ls_lru st"], of k]
  show ?thesis
  proof (cases found)
    case (Some v)
    then have "lru_insert api k bytes st = Some (st\<lparr>ls_lru := c\<rparr>, v)" using Pair by (simp add: lru_insert_def)
    moreover have "(k, v) \<in> set (resident api st)" using get Some by (simp add: map_of_SomeD)
    ultimately show ?thesis using get same assms(2) by (intro exI conjI) (assumption | auto simp: budget_ok_def)+
  next
    case None
    let ?st = "st\<lparr>ls_lru := c\<rparr>"
    have es: "la_entries api c = resident api st" using get None by (simp add: touch_def)
    have "ls_current_bytes ?st = entries_bytes (resident api ?st)" using assms(2) es by (simp add: budget_ok_def)
    from evict_returns [OF assms(1) this, of "length bytes"] obtain st1 out where st1: "evict api (length bytes) ?st = Some st1"
      "ls_current_bytes st1 = entries_bytes (resident api st1)" "ls_max_bytes st1 = ls_max_bytes st"
      "ls_current_bytes st1 + length bytes \<le> ls_max_bytes st1 \<or> resident api st1 = []"
      "resident api st = resident api st1 @ out" using es by auto
    have "map_of (resident api st1) k = None" using get None st1(5) by (simp add: map_add_def split: option.splits)
    then have put: "la_entries api (la_put api k bytes (ls_lru st1)) = (k, bytes) # resident api st1"
      using lru_lawsD(5) [OF assms(1)] by (simp add: delete_absent)
    show ?thesis
      using Pair None st1 put by (auto simp: lru_insert_def budget_ok_def entries_bytes_def)
  qed
qed

end
