(* ===== verification/StoreRuns.thy ===== *)
theory StoreRuns
  imports ReadCache "HOL-Library.Multiset"
begin

text \<open>
  What the cached store promises in every run. The invariant ties the tasks to the table (a
  live guard belongs to exactly one task, a channel carries deliveries for one key) and the
  table, the cache and the memo to the source; every step keeps it, so reads through the
  cache answer as the source would, within the byte budget, and nobody waits for nothing.
\<close>

section \<open>The invariant of a run\<close>

definition opt_mset :: "'a option \<Rightarrow> 'a multiset" where
  "opt_mset x = (case x of None \<Rightarrow> {#} | Some a \<Rightarrow> {#a#})"

lemma opt_mset_simps [simp]: "opt_mset None = {#}" "opt_mset (Some a) = {#a#}"
  by (simp_all add: opt_mset_def)

definition held :: "'e task list \<Rightarrow> leader_guard multiset" where
  "held ts = sum_list (map (opt_mset \<circ> guard_of) ts)"

lemma held_update: "i < length ts \<Longrightarrow> held (ts[i := t]) + opt_mset (guard_of (ts ! i)) = held ts + opt_mset (guard_of t)"
proof (induction ts arbitrary: i)
  case (Cons a ts)
  then show ?case by (cases i) (auto simp: held_def ac_simps)
qed simp

lemma held_member: "i < length ts \<Longrightarrow> guard_of (ts ! i) = Some g \<Longrightarrow> g \<in># held ts"
  using held_update [of i ts Idle] by (simp add: guard_of_def) (metis add_mset_remove_trivial multi_member_split union_single_eq_member)

definition resident_ok :: "backend \<Rightarrow> read_key \<times> bytes \<Rightarrow> bool" where
  "resident_ok be = (\<lambda>(k, b). be_present be (rk_path k) \<and> b = be_object be k)"

definition cache_ok :: "'c byte_lru \<Rightarrow> backend \<Rightarrow> 'c lru_state \<Rightarrow> bool" where
  "cache_ok api be c \<longleftrightarrow> budget_ok api c \<and> (\<forall>e \<in> set (resident api c). resident_ok be e)"

definition memo_ok :: "'m absent_memo \<Rightarrow> backend \<Rightarrow> 'm \<Rightarrow> bool" where
  "memo_ok memo be m \<longleftrightarrow> (\<forall>p \<in> fst ` set (la_entries memo m). \<not> be_present be p)"

definition shared_ok :: "backend \<Rightarrow> read_key \<Rightarrow> shared_error + bytes \<Rightarrow> bool" where
  "shared_ok be k r \<longleftrightarrow>
     (case r of
        Inr b \<Rightarrow> resident_ok be (k, b)
      | Inl e \<Rightarrow> se_kind e = KindNotFound \<longrightarrow> \<not> be_present be (rk_path k))"

definition delivery_ok :: "backend \<Rightarrow> read_key \<Rightarrow> (bytes, shared_error) delivery \<Rightarrow> bool" where
  "delivery_ok be k d \<longleftrightarrow> (case d of Done r _ \<Rightarrow> shared_ok be k r | Abandoned _ \<Rightarrow> True)"

definition task_ok :: "backend \<Rightarrow> (channel \<Rightarrow> read_key) \<Rightarrow> nat \<Rightarrow> 'e task \<Rightarrow> bool" where
  "task_ok be K n t \<longleftrightarrow>
     (case t of
        Following key _ ch \<Rightarrow> K ch = key \<and> 1 \<le> ch \<and> ch \<le> n
      | Carried key _ ch \<Rightarrow> K ch = key \<and> 1 \<le> ch \<and> ch \<le> n
      | Reading key _ g \<Rightarrow> g_keys g = [key] \<and> g_queued_at g = None
      | Queued key _ g \<Rightarrow> g_keys g = [key] \<and> g_queued_at g \<noteq> None \<and> K (g_flight g) = key \<and> 1 \<le> g_flight g \<and> g_flight g \<le> n
      | Fetching key _ g ks \<Rightarrow> set ks = set (g_keys g) \<and> key \<in> set ks \<and> distinct ks \<and> g_queued_at g = None
      | Finished key _ r \<Rightarrow> honest be key r
      | KnownAbsent key \<Rightarrow> \<not> be_present be (rk_path key)
      | Probed path (Inr found) \<Rightarrow> found = be_present be path
      | _ \<Rightarrow> True)"

definition table_ok :: "backend \<Rightarrow> (channel \<Rightarrow> read_key) \<Rightarrow> (bytes, shared_error) flights_sys \<Rightarrow> bool" where
  "table_ok be K F \<longleftrightarrow> flights_reachable F
     \<and> (\<forall>k r. reads (fl F) k = Some r \<longrightarrow> K (tx r) = k)
     \<and> (\<forall>(ch, d) \<in> set (log F). delivery_ok be (K ch) d)"

definition run_ok :: "'c byte_lru \<Rightarrow> 'm absent_memo \<Rightarrow> backend \<Rightarrow> (channel \<Rightarrow> read_key) \<Rightarrow>
    (bytes, shared_error) flights_sys \<Rightarrow> 'c lru_state \<Rightarrow> 'm \<Rightarrow> 'e task list \<Rightarrow> bool" where
  "run_ok api memo be K F c m ts \<longleftrightarrow>
     table_ok be K F \<and> mset (guards F) = held ts \<and> cache_ok api be c \<and> memo_ok memo be m
     \<and> (\<forall>t \<in> set ts. task_ok be K (next_flight (fl F)) t)"

lemmas run_ok_parts = run_ok_def table_ok_def cache_ok_def memo_ok_def

lemma run_ok_quiet:
  assumes "run_ok api memo be K F c m ts" "i < length ts" "guard_of (ts ! i) = None" "guard_of t = None"
    "task_ok be K (next_flight (fl F)) t" "cache_ok api be c'" "memo_ok memo be m'"
  shows "run_ok api memo be K F c' m' (ts[i := t])"
proof -
  have "held (ts[i := t]) = held ts" using held_update [OF assms(2), of t] assms(3,4) by simp
  then show ?thesis using assms by (auto simp: run_ok_def dest: set_update_subset_insert [THEN subsetD])
qed

text \<open>
  A call moves the table on: its guard changes or goes, a new channel gets its key, and what
  is sent is for the keys registered on the channels.
\<close>

lemma logged_channel:
  assumes "flights_reachable F" "(ch, d) \<in> set (log F)"
  shows "1 \<le> ch \<and> ch \<le> next_flight (fl F)"
proof -
  have "fst ` set (log F) \<union> channels (fl F) (dom (reads (fl F))) = {1..next_flight (fl F)}"
    using flights.reachable_inv [OF assms(1)] by (simp add: flights_inv_def channels_ok_def)
  moreover have "ch \<in> fst ` set (log F)" using assms(2) by force
  ultimately have "ch \<in> {1..next_flight (fl F)}" by blast
  then show ?thesis by simp
qed

lemma task_ok_channels:
  "task_ok be K n t \<Longrightarrow> n \<le> n' \<Longrightarrow> \<forall>ch \<le> n. K' ch = K ch \<Longrightarrow> task_ok be K' n' t"
  by (auto simp: task_ok_def split: task.splits)

lemma run_ok_moved:
  assumes "run_ok api memo be K F c m ts" "i < length ts" "fl_step F F'"
    "mset (guards F') + opt_mset (guard_of (ts ! i)) = mset (guards F) + opt_mset (guard_of t)"
    "next_flight (fl F) \<le> next_flight (fl F')" "\<forall>ch \<le> next_flight (fl F). K' ch = K ch"
    "task_ok be K' (next_flight (fl F')) t" "cache_ok api be c'"
    "\<And>k r. reads (fl F') k = Some r \<Longrightarrow> K' (tx r) = k"
    "log F' = log F @ sent" "\<And>ch d. (ch, d) \<in> set sent \<Longrightarrow> delivery_ok be (K' ch) d"
  shows "run_ok api memo be K' F' c' m (ts[i := t])"
proof -
  have "mset (guards F) = held ts" using assms(1) by (simp add: run_ok_def)
  with assms(4) held_update [OF assms(2), of t] have "mset (guards F') = held (ts[i := t])"
    by (metis add_right_cancel)
  moreover have F: "flights_reachable F" and old: "\<forall>(ch, d) \<in> set (log F). delivery_ok be (K ch) d"
    using assms(1) by (simp_all add: run_ok_parts)
  then have "flights_reachable F'" using assms(3) by (auto intro: reach_step)
  moreover have "delivery_ok be (K' ch) d" if "(ch, d) \<in> set (log F')" for ch d
  proof (cases "(ch, d) \<in> set sent")
    case False
    with that have "(ch, d) \<in> set (log F)" by (simp add: assms(10))
    with old logged_channel [OF F] assms(6) show ?thesis by fastforce
  qed (rule assms(11))
  moreover have "\<forall>t \<in> set (ts[i := t]). task_ok be K' (next_flight (fl F')) t"
  proof
    fix u assume "u \<in> set (ts[i := t])"
    then have "u = t \<or> u \<in> set ts" using set_update_subset_insert [of ts i t] by blast
    then show "task_ok be K' (next_flight (fl F')) u"
      using assms(1,7) task_ok_channels [OF _ assms(5,6)] by (auto simp: run_ok_def)
  qed
  ultimately show ?thesis using assms(1,8,9) unfolding run_ok_def table_ok_def by blast
qed

lemma run_ok_ended:
  assumes "run_ok api memo be K F c m ts" "i < length ts" "guard_of (ts ! i) = Some g" "guard_of t = None"
    "task_ok be K (next_flight (fl F)) t" "cache_ok api be c'"
    "fl_step F F'" "guards F' = remove1 g (guards F)" "ended (g_flight g) (fl F) (fl F')"
    "log F' = log F @ sent" "\<And>ch d. (ch, d) \<in> set sent \<Longrightarrow> delivery_ok be (K ch) d"
  shows "run_ok api memo be K F' c' m (ts[i := t])"
proof (rule run_ok_moved [OF assms(1,2,7)])
  have "g \<in># mset (guards F)" using assms(1) held_member [OF assms(2,3)] by (simp add: run_ok_def)
  then show "mset (guards F') + opt_mset (guard_of (ts ! i)) = mset (guards F) + opt_mset (guard_of t)"
    by (simp add: assms(3,4,8))
  have n: "next_flight (fl F') = next_flight (fl F)" using assms(9) by (simp add: ended_def)
  then show "next_flight (fl F) \<le> next_flight (fl F')" "task_ok be K (next_flight (fl F')) t"
    using assms(5) by simp_all
  show "K (tx r) = k" if "reads (fl F') k = Some r" for k r
    using that assms(1) ended_reads [OF assms(9)] by (auto simp: run_ok_parts)
qed (use assms in simp_all)

subsection \<open>One step\<close>

lemma insert_ok:
  assumes "lru_laws api" "cache_ok api be c" "resident_ok be (k, bytes)"
  shows "\<exists>c' b. lru_insert api k bytes c = Some (c', b) \<and> cache_ok api be c' \<and> resident_ok be (k, b)"
proof -
  have "budget_ok api c" using assms(2) by (simp add: cache_ok_def)
  from lru_insert_returns [OF assms(1) this] obtain c' b where
    "lru_insert api k bytes c = Some (c', b)" "budget_ok api c'"
    "set (resident api c') \<subseteq> insert (k, bytes) (set (resident api c))" "b = bytes \<or> (k, b) \<in> set (resident api c)" by blast
  with assms(2,3) show ?thesis unfolding cache_ok_def by blast
qed

lemma count_round_trip_ok: "cache_ok api be c \<Longrightarrow> cache_ok api be (count_round_trip failed c)"
  by (auto simp: cache_ok_def budget_ok_def count_round_trip_def)

lemma fetched_ok:
  assumes "lru_laws api" "cache_ok api be c" "honest be key r"
  shows "\<exists>c' res. fetched api cls key r c = Some (c', res) \<and> cache_ok api be c' \<and> honest be key res"
proof (cases r)
  case (Inl e)
  with assms show ?thesis by (simp add: fetched_def count_round_trip_ok Let_def)
next
  case (Inr b)
  then have "resident_ok be (key, b)" using assms(3) by (simp add: honest_def resident_ok_def)
  from insert_ok [OF assms(1) count_round_trip_ok [OF assms(2)] this] Inr show ?thesis
    by (fastforce simp: fetched_def honest_def resident_ok_def)
qed

lemma share_ok: "honest be key r \<Longrightarrow> shared_ok be key (share display r)"
  by (cases r) (auto simp: honest_def shared_ok_def share_def resident_ok_def capture_def classify_def is_absent_def
      split: backend_error.splits)

lemma insert_members_ok:
  assumes "lru_laws api" "cache_ok api be c" "\<forall>e \<in> set kbs. resident_ok be e"
  shows "\<exists>c' own' outs. insert_members api key kbs own c = Some (c', own', outs) \<and> cache_ok api be c'
    \<and> map fst outs = map fst kbs \<and> (\<forall>(k, r) \<in> set outs. shared_ok be k r)
    \<and> (case own' of None \<Rightarrow> own = None \<and> key \<notin> fst ` set kbs | Some b \<Rightarrow> own = Some b \<or> resident_ok be (key, b))"
  using assms(2,3)
proof (induction kbs arbitrary: own c)
  case Nil
  then show ?case by (cases own) simp_all
next
  case (Cons e kbs)
  obtain m piece where e: "e = (m, piece)" by (cases e)
  with Cons.prems insert_ok [OF assms(1) Cons.prems(1), of m piece] obtain c1 b where
    b: "lru_insert api m piece c = Some (c1, b)" "cache_ok api be c1" "resident_ok be (m, b)" by auto
  from Cons.IH [OF b(2), of "if m = key then Some b else own"] Cons.prems(2) obtain c' own' outs where
    IH: "insert_members api key kbs (if m = key then Some b else own) c1 = Some (c', own', outs)" "cache_ok api be c'"
      "map fst outs = map fst kbs" "\<forall>(k, r) \<in> set outs. shared_ok be k r"
      "case own' of None \<Rightarrow> (if m = key then Some b else own) = None \<and> key \<notin> fst ` set kbs
       | Some b' \<Rightarrow> (if m = key then Some b else own) = Some b' \<or> resident_ok be (key, b')" by auto
  have "shared_ok be m (Inr b)" using b(3) by (simp add: shared_ok_def)
  then show ?case using e b IH by (auto split: option.splits if_splits)
qed

lemma fetched_group_ok:
  assumes "lru_laws api" "cache_ok api be c" "honest_group be ks r" "key \<in> set ks"
  shows "\<exists>c' res outs. fetched_group api display key ks r c = Some (c', res, outs) \<and> cache_ok api be c'
    \<and> honest be key res \<and> map fst outs = ks \<and> (\<forall>(k, o') \<in> set outs. shared_ok be k o')"
proof (cases r)
  case (Inl e)
  have "shared_ok be k (Inl (capture display e))" if "k \<in> set ks" for k
    using assms(3) Inl that share_ok [of be k "Inl e" display] by (auto simp: honest_group_def honest_def share_def list_all_iff)
  with Inl assms show ?thesis
    by (auto simp: fetched_group_def count_round_trip_ok honest_def honest_group_def list_all_iff comp_def)
next
  case (Inr slices)
  then have sl: "slices = map (be_object be) ks" "\<forall>k \<in> set ks. be_present be (rk_path k)"
    using assms(3) by (simp_all add: honest_group_def list_all_iff)
  then have "\<forall>e \<in> set (zip ks slices). resident_ok be e" by (auto simp: resident_ok_def set_zip)
  from insert_members_ok [OF assms(1) count_round_trip_ok [OF assms(2), of False] this, of key None]
  obtain c' own outs where ins: "insert_members api key (zip ks slices) None (count_round_trip False c) = Some (c', own, outs)"
    "cache_ok api be c'" "map fst outs = map fst (zip ks slices)" "\<forall>(k, r) \<in> set outs. shared_ok be k r"
    "case own of None \<Rightarrow> key \<notin> fst ` set (zip ks slices) | Some b \<Rightarrow> resident_ok be (key, b)"
    by (auto split: option.splits)
  have keys: "map fst (zip ks slices) = ks" by (simp add: sl)
  then have "fst ` set (zip ks slices) = set ks" by (metis list.set_map)
  with ins(5) assms(4) obtain b where "own = Some b" "resident_ok be (key, b)" by (auto split: option.splits)
  with ins keys Inr show ?thesis by (auto simp: fetched_group_def honest_def resident_ok_def)
qed

lemma touched_ok:
  assumes "lru_laws api" "cache_ok api be c" "la_get api key (ls_lru c) = (l, v)"
  shows "cache_ok api be (c\<lparr>ls_lru := l\<rparr>)" "v = Some b \<Longrightarrow> resident_ok be (key, b)"
proof -
  note laws = lru_lawsD(3,4) [OF assms(1), of key "ls_lru c", unfolded assms(3) prod.sel]
    and same = touch_same [OF lru_lawsD(2) [OF assms(1), of "ls_lru c"], of key]
  show "cache_ok api be (c\<lparr>ls_lru := l\<rparr>)" using assms(2) laws same by (auto simp: cache_ok_def budget_ok_def)
  show "resident_ok be (key, b)" if "v = Some b" using that laws(1) assms(2) by (auto simp: cache_ok_def dest: map_of_SomeD)
qed

lemma cache_ok_counters [simp]:
  "cache_ok api be (c\<lparr>ls_hits := h\<rparr>) = cache_ok api be c"
  "cache_ok api be (c\<lparr>ls_misses := h\<rparr>) = cache_ok api be c"
  "cache_ok api be (c\<lparr>ls_lru := l, ls_hits := h\<rparr>) = cache_ok api be (c\<lparr>ls_lru := l\<rparr>)"
  "cache_ok api be (c\<lparr>ls_lru := l, ls_misses := h\<rparr>) = cache_ok api be (c\<lparr>ls_lru := l\<rparr>)"
  by (simp_all add: cache_ok_def budget_ok_def)

lemma check_cache_ok:
  assumes "lru_laws api" "cache_ok api be c" "check_cache api key first c = (c', found)"
  shows "cache_ok api be c' \<and> (case found of None \<Rightarrow> True | Some b \<Rightarrow> resident_ok be (key, b))"
proof -
  obtain l v where get: "la_get api key (ls_lru c) = (l, v)" by (cases "la_get api key (ls_lru c)")
  from touched_ok [OF assms(1,2) get] assms(3) get show ?thesis
    by (auto simp: check_cache_def split: option.splits)
qed

lemma delivered_ok:
  assumes "delivery_ok be key d" "delivered key cls d c = (c', t)" "cache_ok api be c"
  shows "cache_ok api be c' \<and> guard_of t = None \<and> task_ok be K n t"
  using assms
  by (cases d) (auto simp: delivered_def delivery_ok_def shared_ok_def task_ok_def guard_of_def honest_def resident_ok_def
      into_object_store_error_def is_absent_def cache_ok_def budget_ok_def split: sum.splits shared_error_kind.splits)

lemma memo_lawsD:
  assumes "memo_laws memo"
  shows "la_entries memo (la_new memo) = []"
    "snd (la_get memo k c) \<noteq> None \<Longrightarrow> k \<in> fst ` set (la_entries memo c)"
    "fst ` set (la_entries memo (fst (la_get memo k c))) \<subseteq> fst ` set (la_entries memo c)"
    "fst ` set (la_entries memo (la_put memo k v c)) \<subseteq> insert k (fst ` set (la_entries memo c))"
  using assms unfolding memo_laws_def by blast+

lemma memo_get_ok:
  assumes "memo_laws memo" "memo_ok memo be m" "la_get memo p m = (m', found)"
  shows "memo_ok memo be m'" "found \<noteq> None \<Longrightarrow> \<not> be_present be p"
proof -
  show "memo_ok memo be m'" using assms(2) memo_lawsD(3) [OF assms(1), of p m, unfolded assms(3) fst_conv] unfolding memo_ok_def by blast
  show "\<not> be_present be p" if "found \<noteq> None"
    using assms(2) memo_lawsD(2) [OF assms(1), of p m] assms(3) that unfolding memo_ok_def by auto
qed

lemma memo_put_ok:
  assumes "memo_laws memo" "memo_ok memo be m" "\<not> be_present be p"
  shows "memo_ok memo be (la_put memo p () m)"
  using assms(2,3) memo_lawsD(4) [OF assms(1), of p "()" m] unfolding memo_ok_def by blast

lemma start_call_ok:
  assumes "memo_laws memo" "memo_ok memo be m" "cache_ok api be c" "start_call memo key cls m c = (m', c', t)"
  shows "memo_ok memo be m' \<and> cache_ok api be c' \<and> guard_of t = None \<and> task_ok be K n t"
proof (cases "cls = OptionalMetadata")
  case True
  obtain m1 found where get: "la_get memo (rk_path key) m = (m1, found)" by (cases "la_get memo (rk_path key) m")
  from memo_get_ok [OF assms(1,2) get] assms(3,4) True get show ?thesis
    by (cases found) (auto simp: start_call_def guard_of_def task_ok_def cache_ok_def budget_ok_def)
next
  case False
  with assms show ?thesis by (auto simp: start_call_def guard_of_def task_ok_def)
qed

lemma start_probe_ok:
  assumes "lru_laws api" "memo_laws memo" "memo_ok memo be m" "cache_ok api be c"
    "start_probe api memo path m c = (m', c', t)"
  shows "memo_ok memo be m' \<and> cache_ok api be c' \<and> guard_of t = None \<and> task_ok be K n t"
proof -
  obtain m1 found where get: "la_get memo path m = (m1, found)" by (cases "la_get memo path m")
  obtain l v where lru: "la_get api (rk_new path None) (ls_lru c) = (l, v)" by (cases "la_get api (rk_new path None) (ls_lru c)")
  note touched = touched_ok [OF assms(1,4) lru]
  have "be_present be path" if "v = Some b" for b using touched(2) [OF that] by (simp add: resident_ok_def rk_new_def)
  with memo_get_ok [OF assms(2,3) get] touched(1) assms(4,5) get lru show ?thesis
    by (auto simp: start_probe_def guard_of_def task_ok_def split: option.splits)
qed

lemma probe_answered_ok:
  assumes "memo_laws memo" "memo_ok memo be m" "cache_ok api be c" "honest_head be path r"
    "probe_answered memo path r m c = (m', c', t)"
  shows "memo_ok memo be m' \<and> cache_ok api be c' \<and> guard_of t = None \<and> task_ok be K n t"
  using assms memo_put_ok [OF assms(1,2), of path]
  by (cases r) (auto simp: probe_answered_def honest_head_def guard_of_def task_ok_def count_round_trip_ok split: if_splits)

lemma finish_optional_ok:
  assumes "memo_laws memo" "memo_ok memo be m" "honest be key (Inl e)" "finish_optional memo key e m = (m', t)"
  shows "memo_ok memo be m' \<and> guard_of t = None \<and> task_ok be K n t"
  using assms memo_put_ok [OF assms(1,2), of "rk_path key"]
  by (auto simp: finish_optional_def honest_def guard_of_def task_ok_def split: if_splits)

text \<open>The steps that touch the table, by what they do to the guard.\<close>

lemma run_table:
  assumes "run_ok api memo be K F c m ts"
  shows "flights_reachable F" "flights_inv F" "cache_ok api be c" "memo_ok memo be m"
    "\<And>k r. reads (fl F) k = Some r \<Longrightarrow> K (tx r) = k" "\<And>ch d. (ch, d) \<in> set (log F) \<Longrightarrow> delivery_ok be (K ch) d"
    "mset (guards F) = held ts"
  using assms flights.reachable_inv by (auto simp: run_ok_parts)

lemma run_task:
  assumes "run_ok api memo be K F c m ts" "i < length ts"
  shows "task_ok be K (next_flight (fl F)) (ts ! i)" "guard_of (ts ! i) = Some g \<Longrightarrow> g \<in> set (guards F)"
proof -
  show "task_ok be K (next_flight (fl F)) (ts ! i)" using assms by (simp add: run_ok_def)
  show "g \<in> set (guards F)" if "guard_of (ts ! i) = Some g"
    using held_member [OF assms(2) that] run_table(7) [OF assms(1)] by (metis set_mset_mset)
qed

lemma run_ok_follow:
  assumes "run_ok api memo be K F c m ts" "i < length ts" "guard_of (ts ! i) = None"
    "place key lbl mg (fl F) = (f, Follow ch l)"
  shows "run_ok api memo be K (F\<lparr>fl := f\<rparr>) c m (ts[i := Following key cls ch])"
proof -
  have "f = fl F" by (rule place_Follow [OF assms(4)])
  moreover from assms(4) obtain r where "reads (fl F) key = Some r" "tx r = ch"
    by (auto simp: place_def Let_def split: option.splits)
  moreover from this have "K ch = key" using run_table(5) [OF assms(1)] by blast
  moreover have "ch \<in> {1..next_flight (fl F)}"
  proof -
    have "ch \<in> channels (fl F) (dom (reads (fl F)))" using calculation(2,3) by (force simp: channels_def)
    then show ?thesis using run_table(2) [OF assms(1)] by (auto simp: flights_inv_def channels_ok_def)
  qed
  ultimately show ?thesis
    using run_ok_quiet [OF assms(1,2,3) _ _ run_table(3,4) [OF assms(1)], of "Following key cls ch"]
    by (simp add: guard_of_def task_ok_def)
qed

lemma run_ok_lead:
  assumes "run_ok api memo be K F c m ts" "i < length ts" "guard_of (ts ! i) = None"
    "place key lbl (mergeable key cls) (fl F) = (f, Lead g ch)"
  shows "run_ok api memo be (K(ch := key)) (F\<lparr>fl := f, guards := g # guards F\<rparr>) c m (ts[i := placed key cls (Lead g ch)])"
proof (rule run_ok_moved [OF assms(1,2)])
  note P = place_Lead [OF assms(4)]
  show "fl_step F (F\<lparr>fl := f, guards := g # guards F\<rparr>)" by (rule fl_step.led [OF assms(4)])
  show "cache_ok api be c" by (rule run_table(3) [OF assms(1)])
  show "(K(ch := key)) (tx r) = k" if "reads (fl (F\<lparr>fl := f, guards := g # guards F\<rparr>)) k = Some r" for k r
  proof (cases "k = key")
    case True
    with that P(4) show ?thesis by auto
  next
    case False
    with that P(4) have old: "reads (fl F) k = Some r" by simp
    then have "tx r \<in> channels (fl F) (dom (reads (fl F)))" by (force simp: channels_def)
    then have "tx r \<in> {1..next_flight (fl F)}"
      using run_table(2) [OF assms(1)] by (auto simp: flights_inv_def channels_ok_def)
    with P(2) run_table(5) [OF assms(1) old] show ?thesis by simp
  qed
  show "task_ok be (K(ch := key)) (next_flight (fl (F\<lparr>fl := f, guards := g # guards F\<rparr>))) (placed key cls (Lead g ch))"
    using P(2,3,5) by (auto simp: placed_def task_ok_def mergeable_def)
qed (use assms place_Lead(2,3) [OF assms(4)] in \<open>auto simp: placed_def guard_of_def\<close>)

lemma run_ok_claim:
  assumes "run_ok api memo be K F c m ts" "i < length ts" "ts ! i = Queued key cls g"
    "claim_group g (fl F) = Some (f, g', Some ks)"
  shows "run_ok api memo be K (F\<lparr>fl := f, guards := g' # remove1 g (guards F)\<rparr>) c m (ts[i := Fetching key cls g' ks])"
proof (rule run_ok_moved [OF assms(1,2)])
  have g: "g \<in> set (guards F)" using run_task(2) [OF assms(1,2)] assms(3) by (simp add: guard_of_def)
  have q: "g_keys g = [key]" "g_queued_at g \<noteq> None" using run_task(1) [OF assms(1,2)] assms(3) by (simp_all add: task_ok_def)
  obtain p qq a mid d where A: "claimed_group (fl F) (guards F) g f g' p qq a mid d ks"
    using claimed_group_of [OF run_table(1) [OF assms(1)] g assms(4)] .
  note E = claim_effect [OF A] and ks = claimed_keys [OF run_table(1) [OF assms(1)] g assms(4)]
  show "fl_step F (F\<lparr>fl := f, guards := g' # remove1 g (guards F)\<rparr>)" by (rule fl_step.claimed [OF g q(2) assms(4)])
  show "mset (guards (F\<lparr>fl := f, guards := g' # remove1 g (guards F)\<rparr>)) + opt_mset (guard_of (ts ! i)) =
      mset (guards F) + opt_mset (guard_of (Fetching key cls g' ks))"
    using g assms(3) by (simp add: guard_of_def)
  show "task_ok be K (next_flight (fl (F\<lparr>fl := f, guards := g' # remove1 g (guards F)\<rparr>))) (Fetching key cls g' ks)"
    using ks E(5,7) q(1) by (simp add: task_ok_def)
  show "K (tx r) = k" if "reads (fl (F\<lparr>fl := f, guards := g' # remove1 g (guards F)\<rparr>)) k = Some r" for k r
  proof -
    from that have "reads f k = Some r" by simp
    with A show ?thesis
    proof (cases rule: claim_reads)
      case (moved s)
      then show ?thesis using run_table(5) [OF assms(1), of k s] by simp
    next
      case kept
      then show ?thesis using run_table(5) [OF assms(1)] by blast
    qed
  qed
  show "next_flight (fl F) \<le> next_flight (fl (F\<lparr>fl := f, guards := g' # remove1 g (guards F)\<rparr>))" using E(3) by simp
  show "cache_ok api be c" by (rule run_table(3) [OF assms(1)])
  show "log (F\<lparr>fl := f, guards := g' # remove1 g (guards F)\<rparr>) = log F @ []" by simp
qed simp_all

lemma run_ok_claimed_away:
  assumes "run_ok api memo be K F c m ts" "i < length ts" "ts ! i = Queued key cls g"
    "claim_group g (fl F) = Some (f, g', None)"
  shows "run_ok api memo be K (F\<lparr>fl := f, guards := remove1 g (guards F)\<rparr>) c m (ts[i := Carried key cls (g_flight g)])"
proof (rule run_ok_ended [OF assms(1,2)])
  have g: "g \<in> set (guards F)" using run_task(2) [OF assms(1,2)] assms(3) by (simp add: guard_of_def)
  note t = run_task(1) [OF assms(1,2), unfolded assms(3)]
  from t have q: "g_queued_at g \<noteq> None" by (simp add: task_ok_def)
  show "fl_step F (F\<lparr>fl := f, guards := remove1 g (guards F)\<rparr>)" by (rule fl_step.found_carried [OF g q assms(4)])
  show "ended (g_flight g) (fl F) (fl (F\<lparr>fl := f, guards := remove1 g (guards F)\<rparr>))"
    using found_carried_ended [OF run_table(2) [OF assms(1)] g q assms(4)] by simp
  show "task_ok be K (next_flight (fl F)) (Carried key cls (g_flight g))" using t by (simp add: task_ok_def)
  show "cache_ok api be c" by (rule run_table(3) [OF assms(1)])
  show "log (F\<lparr>fl := f, guards := remove1 g (guards F)\<rparr>) = log F @ []" by simp
qed (use assms(3) in \<open>simp_all add: guard_of_def\<close>)

lemma run_ok_carried:
  assumes "run_ok api memo be K F c m ts" "i < length ts" "ts ! i = Queued key cls g"
    "(g_flight g, d) \<in> set (log F)" "delivered key cls d c = (c', t)"
  shows "run_ok api memo be K (F\<lparr>guards := remove1 g (guards F)\<rparr>) c' m (ts[i := t])"
proof (rule run_ok_ended [OF assms(1,2)])
  have g: "g \<in> set (guards F)" using run_task(2) [OF assms(1,2)] assms(3) by (simp add: guard_of_def)
  from run_task(1) [OF assms(1,2), unfolded assms(3)] have q: "g_queued_at g \<noteq> None" "K (g_flight g) = key"
    by (simp_all add: task_ok_def)
  have sent: "g_flight g \<in> fst ` set (log F)" using assms(4) by force
  show "fl_step F (F\<lparr>guards := remove1 g (guards F)\<rparr>)" by (rule fl_step.carried [OF g q(1) sent])
  show "ended (g_flight g) (fl F) (fl (F\<lparr>guards := remove1 g (guards F)\<rparr>))"
    using carried_ended [OF run_table(2) [OF assms(1)] g q(1) sent] by simp
  have "delivery_ok be key d" using run_table(6) [OF assms(1,4)] q(2) by simp
  note ok = delivered_ok [OF this assms(5) run_table(3) [OF assms(1)]]
  show "task_ok be K (next_flight (fl F)) t" "guard_of t = None" "cache_ok api be c'" using ok by blast+
  show "log (F\<lparr>guards := remove1 g (guards F)\<rparr>) = log F @ []" by simp
qed (use assms(3) in \<open>simp_all add: guard_of_def\<close>)

text \<open>An answer: what is sent is the outcome for the key registered on the channel.\<close>

lemma run_ok_completed:
  assumes "run_ok api memo be K F c m ts" "i < length ts" "guard_of (ts ! i) = Some g" "guard_of t = None"
    "g_queued_at g = None" "fst ` set outcomes = set (g_keys g)" "\<forall>(k, o') \<in> set outcomes. shared_ok be k o'"
    "complete g outcomes (fl F) = (f, g', sent)" "cache_ok api be c'" "task_ok be K (next_flight (fl F)) t"
  shows "run_ok api memo be K (F\<lparr>fl := f, guards := remove1 g (guards F), log := log F @ sent\<rparr>) c' m (ts[i := t])"
proof (rule run_ok_ended [OF assms(1,2,3,4,10,9)])
  have g: "g \<in> set (guards F)" by (rule run_task(2) [OF assms(1,2,3)])
  show "fl_step F (F\<lparr>fl := f, guards := remove1 g (guards F), log := log F @ sent\<rparr>)"
    by (rule fl_step.completed [OF g assms(5,6,8)])
  have "guards_ok (fl F) (guards F)" "queues_ok (fl F) (guards F)"
    using run_table(2) [OF assms(1)] by (simp_all add: flights_inv_def)
  note e = complete_ended [OF this g assms(5,6,8)]
  show "ended (g_flight g) (fl F) (fl (F\<lparr>fl := f, guards := remove1 g (guards F), log := log F @ sent\<rparr>))" using e(1) by simp
  show "delivery_ok be (K ch) d" if "(ch, d) \<in> set sent" for ch d
  proof -
    from publish_delivers [OF that [folded e(3)]] obtain k r where
      "(k, d) \<in> set (map (\<lambda>(k, r). (k, Done r (g_label g))) outcomes)" "reads (fl F) k = Some r" "tx r = ch" by blast
    with assms(7) run_table(5) [OF assms(1)] show ?thesis by (auto simp: delivery_ok_def)
  qed
qed simp_all

lemma run_ok_cancelled:
  assumes "run_ok api memo be K F c m ts" "i < length ts" "guard_of (ts ! i) = Some g" "drop_guard g (fl F) = (f, sent)"
  shows "run_ok api memo be K (F\<lparr>fl := f, guards := remove1 g (guards F), log := log F @ sent\<rparr>) c m (ts[i := Idle])"
proof (rule run_ok_ended [OF assms(1,2,3)])
  have g: "g \<in> set (guards F)" by (rule run_task(2) [OF assms(1,2,3)])
  show "fl_step F (F\<lparr>fl := f, guards := remove1 g (guards F), log := log F @ sent\<rparr>)"
    by (rule fl_step.dropped [OF g assms(4)])
  have "guards_ok (fl F) (guards F)" "queues_ok (fl F) (guards F)"
    using run_table(2) [OF assms(1)] by (simp_all add: flights_inv_def)
  note e = drop_ended [OF this g assms(4)]
  show "ended (g_flight g) (fl F) (fl (F\<lparr>fl := f, guards := remove1 g (guards F), log := log F @ sent\<rparr>))" using e(1) by simp
  show "delivery_ok be (K ch) d" if "(ch, d) \<in> set sent" for ch d
    using publish_delivers [OF that [folded e(3)]] by (auto simp: delivery_ok_def)
  show "cache_ok api be c" by (rule run_table(3) [OF assms(1)])
qed (simp_all add: guard_of_def task_ok_def)

lemma run_ok_answer:
  assumes "run_ok api memo be K F c0 m ts" "i < length ts" "ts ! i = Reading key cls g" "lru_laws api"
    "honest be key r" "fetched api cls key r c0 = Some (c, res)" "complete g [(key, share display res)] (fl F) = (f, g', sent)"
  shows "run_ok api memo be K (F\<lparr>fl := f, guards := remove1 g (guards F), log := log F @ sent\<rparr>) c m (ts[i := Finished key cls res])"
proof (rule run_ok_completed [OF assms(1,2) _ _ _ _ _ assms(7)])
  have "cache_ok api be c \<and> honest be key res"
    using fetched_ok [OF assms(4) run_table(3) [OF assms(1)] assms(5), of cls] assms(6) by auto
  then show "cache_ok api be c" "task_ok be K (next_flight (fl F)) (Finished key cls res)"
    and "\<forall>(k, o') \<in> set [(key, share display res)]. shared_ok be k o'" using share_ok by (auto simp: task_ok_def)
  from run_task(1) [OF assms(1,2)] assms(3)
  show "g_queued_at g = None" "fst ` set [(key, share display res)] = set (g_keys g)" by (simp_all add: task_ok_def)
qed (use assms(3) in \<open>simp_all add: guard_of_def\<close>)

lemma run_ok_group_answer:
  assumes "run_ok api memo be K F c0 m ts" "i < length ts" "ts ! i = Fetching key cls g ks" "lru_laws api"
    "honest_group be ks r" "fetched_group api display key ks r c0 = Some (c, res, outcomes)"
    "complete g outcomes (fl F) = (f, g', sent)"
  shows "run_ok api memo be K (F\<lparr>fl := f, guards := remove1 g (guards F), log := log F @ sent\<rparr>) c m (ts[i := Finished key cls res])"
proof (rule run_ok_completed [OF assms(1,2) _ _ _ _ _ assms(7)])
  from run_task(1) [OF assms(1,2)] assms(3) have t: "set ks = set (g_keys g)" "key \<in> set ks" "g_queued_at g = None"
    by (auto simp: task_ok_def)
  from fetched_group_ok [OF assms(4) run_table(3) [OF assms(1)] assms(5) t(2), of display] assms(6)
  have ok: "cache_ok api be c" "honest be key res" "map fst outcomes = ks" "\<forall>(k, o') \<in> set outcomes. shared_ok be k o'" by auto
  show "fst ` set outcomes = set (g_keys g)" using ok(3) t(1) by (metis list.set_map)
  show "g_queued_at g = None" "cache_ok api be c" "\<forall>(k, o') \<in> set outcomes. shared_ok be k o'"
    "task_ok be K (next_flight (fl F)) (Finished key cls res)" using ok t(3) by (auto simp: task_ok_def)
qed (use assms(3) in \<open>simp_all add: guard_of_def\<close>)

definition store_ok :: "'c byte_lru \<Rightarrow> 'm absent_memo \<Rightarrow> backend \<Rightarrow> ('c, 'm, 'e) store_sys \<Rightarrow> bool" where
  "store_ok api memo be s \<longleftrightarrow>
     (\<exists>K. run_ok api memo be K (st_flights s) (st_cache s) (st_absent s) (st_tasks s))"

lemma store_okI:
  "run_ok api memo be K F c m ts \<Longrightarrow> store_ok api memo be \<lparr>st_flights = F, st_cache = c, st_absent = m, st_tasks = ts\<rparr>"
  by (auto simp: store_ok_def)

lemma set_task_parts:
  "st_flights (set_task i t s) = st_flights s" "st_cache (set_task i t s) = st_cache s"
  "st_absent (set_task i t s) = st_absent s" "st_tasks (set_task i t s) = (st_tasks s)[i := t]"
  by (simp_all add: set_task_def)

lemma store_ok_step:
  assumes "store_step api memo display be s s'" "lru_laws api" "memo_laws memo" "store_ok api memo be s"
  shows "store_ok api memo be s'"
proof -
  obtain K where run: "run_ok api memo be K (st_flights s) (st_cache s) (st_absent s) (st_tasks s)"
    using assms(4) by (auto simp: store_ok_def)
  note cache = run_table(3) [OF run] and absent = run_table(4) [OF run]
  have quiet: "store_ok api memo be (set_task i t (s\<lparr>st_absent := m, st_cache := c\<rparr>))"
    if "at_task s i t0" "guard_of t0 = None"
      "memo_ok memo be m \<and> cache_ok api be c \<and> guard_of t = None \<and> task_ok be K (next_flight (fl (st_flights s))) t" for i t0 t m c
    using run_ok_quiet [OF run, of i t c m] that by (auto simp: store_ok_def set_task_parts at_task_def)
  from assms(1) show ?thesis
  proof (cases rule: store_step.cases)
    case arrive
    have "held (st_tasks s @ [Idle]) = held (st_tasks s)" by (simp add: held_def guard_of_def)
    with run arrive show ?thesis by (auto simp: store_ok_def run_ok_def task_ok_def)
  next
    case (call i key cls m c t)
    with quiet [OF call(2) _ start_call_ok [OF assms(3) absent cache call(3)]] show ?thesis by (simp add: guard_of_def)
  next
    case (probe i path m c t)
    with quiet [OF probe(2) _ start_probe_ok [OF assms(2,3) absent cache probe(3)]] show ?thesis by (simp add: guard_of_def)
  next
    case (probe_answer i path r m c t)
    with quiet [OF probe_answer(2) _ probe_answered_ok [OF assms(3) absent cache probe_answer(3,4)]]
    show ?thesis by (simp add: guard_of_def)
  next
    case (hit i key cls first c b)
    with check_cache_ok [OF assms(2) cache hit(3)] quiet [OF hit(2), of "st_absent s" c "Finished key cls (Inr b)"] absent
    show ?thesis by (simp add: guard_of_def task_ok_def honest_def resident_ok_def)
  next
    case (miss i key cls first c)
    with check_cache_ok [OF assms(2) cache miss(3)] quiet [OF miss(2), of "st_absent s" c "Missed key cls"] absent
    show ?thesis by (simp add: guard_of_def task_ok_def)
  next
    case (follow i key cls lbl f ch l)
    then have "run_ok api memo be K ((st_flights s)\<lparr>fl := f\<rparr>) (st_cache s) (st_absent s) ((st_tasks s)[i := Following key cls ch])"
      by (intro run_ok_follow [OF run]) (auto simp: at_task_def guard_of_def)
    with follow(1) show ?thesis by (auto simp: store_ok_def set_task_parts placed_def)
  next
    case (lead i key cls lbl f g ch)
    from lead(2) have "run_ok api memo be (K(ch := key)) ((st_flights s)\<lparr>fl := f, guards := g # guards (st_flights s)\<rparr>)
        (st_cache s) (st_absent s) ((st_tasks s)[i := placed key cls (Lead g ch)])"
      by (intro run_ok_lead [OF run _ _ lead(3)]) (auto simp: at_task_def guard_of_def)
    with lead(1) show ?thesis by (auto simp: store_ok_def set_task_parts)
  next
    case (answer i key cls g r c res f g' sent)
    from answer(2) have "run_ok api memo be K ((st_flights s)\<lparr>fl := f, guards := remove1 g (guards (st_flights s)),
        log := log (st_flights s) @ sent\<rparr>) c (st_absent s) ((st_tasks s)[i := Finished key cls res])"
      by (intro run_ok_answer [OF run _ _ assms(2) answer(3,4,5)]) (auto simp: at_task_def)
    with answer(1) show ?thesis by (auto simp: store_ok_def set_task_parts)
  next
    case (claim i key cls g f g' ks)
    then have "run_ok api memo be K ((st_flights s)\<lparr>fl := f, guards := g' # remove1 g (guards (st_flights s))\<rparr>)
        (st_cache s) (st_absent s) ((st_tasks s)[i := Fetching key cls g' ks])"
      by (intro run_ok_claim [OF run]) (auto simp: at_task_def)
    with claim(1) show ?thesis by (auto simp: store_ok_def set_task_parts)
  next
    case (claimed_away i key cls g f g')
    then have "run_ok api memo be K ((st_flights s)\<lparr>fl := f, guards := remove1 g (guards (st_flights s))\<rparr>)
        (st_cache s) (st_absent s) ((st_tasks s)[i := Carried key cls (g_flight g)])"
      by (intro run_ok_claimed_away [OF run]) (auto simp: at_task_def)
    with claimed_away(1) show ?thesis by (auto simp: store_ok_def set_task_parts)
  next
    case (carried i key cls g d c t)
    then have "run_ok api memo be K ((st_flights s)\<lparr>guards := remove1 g (guards (st_flights s))\<rparr>)
        c (st_absent s) ((st_tasks s)[i := t])"
      by (intro run_ok_carried [OF run]) (auto simp: at_task_def)
    with carried(1) show ?thesis by (auto simp: store_ok_def set_task_parts)
  next
    case (group_answer i key cls g ks r c res outcomes f g' sent)
    from group_answer(2) have "run_ok api memo be K ((st_flights s)\<lparr>fl := f, guards := remove1 g (guards (st_flights s)),
        log := log (st_flights s) @ sent\<rparr>) c (st_absent s) ((st_tasks s)[i := Finished key cls res])"
      by (intro run_ok_group_answer [OF run _ _ assms(2) group_answer(3,4,5)]) (auto simp: at_task_def)
    with group_answer(1) show ?thesis by (auto simp: store_ok_def set_task_parts)
  next
    case (deliver i t0 key cls ch d c t)
    have "K ch = key" "guard_of t0 = None"
      using run_task(1) [OF run, of i] deliver(2,3) by (auto simp: at_task_def task_ok_def guard_of_def)
    with delivered_ok [OF _ deliver(5) cache] run_table(6) [OF run deliver(4)]
      quiet [OF deliver(2), of "st_absent s" c t] absent deliver(1)
    show ?thesis by simp
  next
    case (optional i key e m t)
    have "honest be key (Inl e)" using run_task(1) [OF run, of i] optional(2) by (auto simp: at_task_def task_ok_def)
    from finish_optional_ok [OF assms(3) absent this optional(3)] quiet [OF optional(2), of m "st_cache s" t] cache optional(1)
    show ?thesis by (simp add: guard_of_def)
  next
    case (cancel i t)
    with quiet [OF cancel(2,3), of "st_absent s" "st_cache s" Idle] absent cache
    show ?thesis by (simp add: guard_of_def task_ok_def)
  next
    case (cancel_lead i t g f sent)
    then have "run_ok api memo be K ((st_flights s)\<lparr>fl := f, guards := remove1 g (guards (st_flights s)),
        log := log (st_flights s) @ sent\<rparr>) (st_cache s) (st_absent s) ((st_tasks s)[i := Idle])"
      by (intro run_ok_cancelled [OF run]) (auto simp: at_task_def)
    with cancel_lead(1) show ?thesis by (auto simp: store_ok_def set_task_parts)
  qed
qed

abbreviation store_reachable :: "'c byte_lru \<Rightarrow> 'm absent_memo \<Rightarrow> ('e backend_error \<Rightarrow> string) \<Rightarrow> backend \<Rightarrow> nat \<Rightarrow>
    ('c, 'm, 'e) store_sys \<Rightarrow> bool" where
  "store_reachable api memo display be max_bytes \<equiv>
     reachable (\<lambda>s. s = store_new api memo max_bytes) (store_step api memo display be)"

lemma store_ok_new: "lru_laws api \<Longrightarrow> memo_laws memo \<Longrightarrow> store_ok api memo be (store_new api memo max_bytes)"
  using lru_lawsD(1) [of api] memo_lawsD(1) [of memo]
  by (auto simp: store_ok_def store_new_def run_ok_parts held_def flights_sys_new_def flights_init_def flights_default_def
      lru_state_new_def budget_ok_def entries_bytes_def intro: reach_init)

interpretation store: invariant_system "\<lambda>s. s = store_new api memo max_bytes" "store_step api memo display be"
  "\<lambda>s. lru_laws api \<longrightarrow> memo_laws memo \<longrightarrow> store_ok api memo be s"
  for api memo display be max_bytes
  by unfold_locales (auto simp: store_ok_new intro: store_ok_step)

lemma store_run:
  assumes "lru_laws api" "memo_laws memo" "store_reachable api memo display be max_bytes s"
  obtains K where "run_ok api memo be K (st_flights s) (st_cache s) (st_absent s) (st_tasks s)"
  using store.reachable_inv [OF assms(3)] assms(1,2) by (auto simp: store_ok_def)

subsection \<open>The budget is fixed\<close>

lemma evict_max: "evict api n st = Some st' \<Longrightarrow> ls_max_bytes st' = ls_max_bytes st"
proof (rule evict.raw_induct [where P = "\<lambda>_ _ st st'. ls_max_bytes st' = ls_max_bytes st"])
  fix rec :: "'a byte_lru \<Rightarrow> nat \<Rightarrow> 'a lru_state \<Rightarrow> 'a lru_state option" and api n st st'
  assume IH: "\<And>api n st st'. rec api n st = Some st' \<Longrightarrow> ls_max_bytes st' = ls_max_bytes st"
    and "(if ls_max_bytes st < ls_current_bytes st + n then
        (case la_pop api (ls_lru st) of None \<Rightarrow> Some st
         | Some (c, _, evicted) \<Rightarrow> Option.bind (checked_sub (ls_current_bytes st) (length evicted)) (\<lambda>left.
             rec api n (st\<lparr>ls_lru := c, ls_current_bytes := left, ls_evictions := ls_evictions st + 1\<rparr>)))
      else Some st) = Some st'"
  then show "ls_max_bytes st' = ls_max_bytes st"
    by (auto split: if_splits option.splits prod.splits simp: Option.bind_eq_Some_conv dest!: IH)
qed

lemma lru_insert_max: "lru_insert api k b st = Some (st', b') \<Longrightarrow> ls_max_bytes st' = ls_max_bytes st"
  by (auto simp: lru_insert_def split: prod.splits option.splits dest: evict_max)

lemma insert_members_max:
  "insert_members api key kbs own st = Some (st', own', outs) \<Longrightarrow> ls_max_bytes st' = ls_max_bytes st"
proof (induction api key kbs own st arbitrary: st' own' outs rule: insert_members.induct)
  case (2 api key member piece rest own st)
  then show ?case by (fastforce simp: Option.bind_eq_Some_conv dest: lru_insert_max)
qed simp

lemma count_round_trip_max [simp]: "ls_max_bytes (count_round_trip b st) = ls_max_bytes st"
  by (simp add: count_round_trip_def)

lemma fetched_max: "fetched api cls key r st = Some (st', res) \<Longrightarrow> ls_max_bytes st' = ls_max_bytes st"
  by (auto simp: fetched_def split: sum.splits dest: lru_insert_max)

lemma fetched_group_max: "fetched_group api display key ks r st = Some (st', res, outs) \<Longrightarrow> ls_max_bytes st' = ls_max_bytes st"
  by (auto simp: fetched_group_def Option.bind_eq_Some_conv split: sum.splits dest: insert_members_max)

lemma store_step_max: "store_step api memo display be s s' \<Longrightarrow> ls_max_bytes (st_cache s') = ls_max_bytes (st_cache s)"
  by (cases rule: store_step.cases)
    (auto simp: set_task_parts start_call_def start_probe_def probe_answered_def check_cache_def delivered_def
      dest: fetched_max fetched_group_max split: if_splits prod.splits option.splits sum.splits delivery.splits)

interpretation budget: invariant_system "\<lambda>s. s = store_new api memo max_bytes" "store_step api memo display be"
  "\<lambda>s. ls_max_bytes (st_cache s) = max_bytes"
  for api memo display be max_bytes
  by unfold_locales (simp_all add: store_new_def lru_state_new_def store_step_max)

section \<open>What the cached store promises\<close>

lemma held_task: "g \<in># held ts \<Longrightarrow> \<exists>j < length ts. guard_of (ts ! j) = Some g"
proof (induction ts)
  case (Cons t ts)
  show ?case
  proof (cases "guard_of t = Some g")
    case False
    with Cons have "g \<in># held ts" by (cases "guard_of t") (auto simp: held_def)
    with Cons.IH show ?thesis by (metis Suc_less_eq length_Cons nth_Cons_Suc)
  qed (use nth_Cons_0 in fastforce)
qed (simp add: held_def)

text \<open>C1: Reading through the cache is reading the source: whatever interleaving of calls, hits,
  evictions, shared and merged reads, cancellations and abandoned leaders came before, a call
  that returns bytes returns the object's bytes for its key, and an object is reported absent,
  or a probe answered, only as the source has it.\<close>
theorem cached_reads_transparent:
  assumes "lru_laws api" "memo_laws memo" "store_reachable api memo display be max_bytes s"
    "t \<in> set (st_tasks s)"
  shows "case t of
      Finished key _ (Inr b) \<Rightarrow> be_present be (rk_path key) \<and> b = be_object be key
    | Finished key _ (Inl e) \<Rightarrow> is_absent e \<longrightarrow> \<not> be_present be (rk_path key)
    | KnownAbsent key \<Rightarrow> \<not> be_present be (rk_path key)
    | Probed path (Inr found) \<Rightarrow> found = be_present be path
    | _ \<Rightarrow> True"
proof -
  obtain K where "run_ok api memo be K (st_flights s) (st_cache s) (st_absent s) (st_tasks s)"
    using store_run [OF assms(1-3)] .
  then have "task_ok be K (next_flight (fl (st_flights s))) t" using assms(4) by (simp add: run_ok_def)
  then show ?thesis by (auto simp: task_ok_def honest_def split: task.splits sum.splits)
qed

text \<open>C6: The byte budget: the counter is the size of what is resident, and it stays within the
  configured budget unless a single object larger than the budget is all there is.\<close>
theorem cache_budget:
  assumes "lru_laws api" "memo_laws memo" "store_reachable api memo display be max_bytes s"
  shows "let st = stats api (st_cache s) in
    cst_max_bytes st = max_bytes \<and> cst_current_bytes st = entries_bytes (la_entries api (ls_lru (st_cache s)))
    \<and> (cst_current_bytes st \<le> max_bytes \<or> cst_entry_count st = 1)"
proof -
  obtain K where "run_ok api memo be K (st_flights s) (st_cache s) (st_absent s) (st_tasks s)"
    using store_run [OF assms] .
  then have "budget_ok api (st_cache s)" by (simp add: run_ok_parts)
  moreover have "ls_max_bytes (st_cache s) = max_bytes" by (rule budget.reachable_inv [OF assms(3)])
  moreover have "length (resident api (st_cache s)) = 1 \<or> entries_bytes (resident api (st_cache s)) = 0"
    if "length (resident api (st_cache s)) \<le> 1"
    using that by (cases "resident api (st_cache s)") (simp_all add: entries_bytes_def)
  ultimately show ?thesis by (auto simp: budget_ok_def stats_def)
qed

text \<open>C4: Nobody waits for nothing: a call waiting on a channel either has its delivery already, or
  some live call leads a request that answers for its key and will send on that channel.\<close>
theorem waiter_has_leader:
  assumes "lru_laws api" "memo_laws memo" "store_reachable api memo display be max_bytes s"
    "t \<in> set (st_tasks s)" "t = Following key cls ch \<or> t = Carried key cls ch"
  shows "ch \<in> fst ` set (log (st_flights s))
    \<or> (\<exists>r j g. reads (fl (st_flights s)) key = Some r \<and> tx r = ch \<and> j < length (st_tasks s)
         \<and> guard_of (st_tasks s ! j) = Some g \<and> owner r = g_flight g \<and> key \<in> set (g_keys g))"
proof -
  obtain K where run: "run_ok api memo be K (st_flights s) (st_cache s) (st_absent s) (st_tasks s)"
    using store_run [OF assms(1-3)] .
  note inv = run_table(2) [OF run, unfolded flights_inv_def]
  have "task_ok be K (next_flight (fl (st_flights s))) t" using run assms(4) by (simp add: run_ok_def)
  then have ch: "K ch = key" "ch \<in> {1..next_flight (fl (st_flights s))}" using assms(5) by (auto simp: task_ok_def)
  show ?thesis
  proof (cases "ch \<in> fst ` set (log (st_flights s))")
    case False
    with inv ch(2) have "ch \<in> channels (fl (st_flights s)) (dom (reads (fl (st_flights s))))"
      unfolding channels_ok_def by blast
    then obtain k r where r: "reads (fl (st_flights s)) k = Some r" "tx r = ch" by (auto simp: channels_def)
    then have k: "k = key" using run_table(5) [OF run] ch(1) by blast
    from inv r(1) obtain g where g: "g \<in> set (guards (st_flights s))" "g_flight g = owner r" "k \<in> set (g_keys g)"
      unfolding guards_ok_def by blast
    then have "g \<in># held (st_tasks s)" using run_table(7) [OF run] by (metis set_mset_mset)
    from held_task [OF this] r g k show ?thesis by metis
  qed simp
qed

text \<open>C5: A leading call always gets to its answer: it takes one step to its request whatever its
  neighbours have claimed meanwhile, and for every answer of the backend it finishes without a
  panic, the eviction loop included.\<close>
theorem leader_finishes:
  fixes display :: "'e backend_error \<Rightarrow> string" and s :: "('c, 'm, 'e) store_sys"
  assumes "lru_laws api" "memo_laws memo" "store_reachable api memo display be max_bytes s"
    "i < length (st_tasks s)"
  shows "case st_tasks s ! i of
      Reading key cls g \<Rightarrow> (\<forall>r :: 'e backend_error + bytes. honest be key r \<longrightarrow>
        (\<exists>s' res. store_step api memo display be s s' \<and> fetched api cls key r (st_cache s) = Some (st_cache s', res)
          \<and> st_tasks s' = (st_tasks s)[i := Finished key cls res]))
    | Queued key cls g \<Rightarrow>
        (\<exists>s' t. store_step api memo display be s s' \<and> st_tasks s' = (st_tasks s)[i := t]
          \<and> (t = Carried key cls (g_flight g) \<or> (\<exists>g' ks. t = Fetching key cls g' ks)))
    | Fetching key cls g ks \<Rightarrow> (\<forall>r :: 'e backend_error + bytes list. honest_group be ks r \<longrightarrow>
        (\<exists>s' res outs. store_step api memo display be s s' \<and> fetched_group api display key ks r (st_cache s) = Some (st_cache s', res, outs)
          \<and> st_tasks s' = (st_tasks s)[i := Finished key cls res]))
    | _ \<Rightarrow> True"
proof -
  obtain K where run: "run_ok api memo be K (st_flights s) (st_cache s) (st_absent s) (st_tasks s)"
    using store_run [OF assms(1-3)] .
  note task = run_task(1) [OF run assms(4)]
  have at: "at_task s i t" if "st_tasks s ! i = t" for t using that assms(4) by (simp add: at_task_def)
  show ?thesis
  proof (cases "st_tasks s ! i")
    case (Reading key cls g)
    have "\<exists>s' res. store_step api memo display be s s' \<and> fetched api cls key r (st_cache s) = Some (st_cache s', res)
          \<and> st_tasks s' = (st_tasks s)[i := Finished key cls res]"
      if r: "honest be key r" for r :: "'e backend_error + bytes"
    proof -
      from fetched_ok [OF assms(1) run_table(3) [OF run] r] obtain c res
        where fetch: "fetched api cls key r (st_cache s) = Some (c, res)" by blast
      obtain f g' sent where "complete g [(key, share display res)] (fl (st_flights s)) = (f, g', sent)"
        by (cases "complete g [(key, share display res)] (fl (st_flights s))")
      from store_step.answer [OF at [OF Reading] r fetch this] show ?thesis
        by (intro exI conjI) (assumption, simp_all add: set_task_parts fetch)
    qed
    with Reading show ?thesis by auto
  next
    case (Queued key cls g)
    then have "g \<in> set (guards (st_flights s))" by (intro run_task(2) [OF run assms(4)]) (simp add: guard_of_def)
    from claim_total [OF run_table(1) [OF run] this] obtain f g' ks where
      claim: "claim_group g (fl (st_flights s)) = Some (f, g', ks)" by blast
    have "\<exists>s' t. store_step api memo display be s s' \<and> st_tasks s' = (st_tasks s)[i := t]
          \<and> (t = Carried key cls (g_flight g) \<or> (\<exists>g' ks. t = Fetching key cls g' ks))"
    proof (cases ks)
      case None
      show ?thesis
        by (intro exI conjI, rule store_step.claimed_away [OF at [OF Queued] claim [unfolded None]]) (auto simp: set_task_parts)
    next
      case (Some ms)
      show ?thesis
        by (intro exI conjI, rule store_step.claim [OF at [OF Queued] claim [unfolded Some]]) (auto simp: set_task_parts)
    qed
    with Queued show ?thesis by simp
  next
    case (Fetching key cls g ks)
    with task have key: "key \<in> set ks" by (auto simp: task_ok_def)
    have "\<exists>s' res outs. store_step api memo display be s s' \<and> fetched_group api display key ks r (st_cache s) = Some (st_cache s', res, outs)
          \<and> st_tasks s' = (st_tasks s)[i := Finished key cls res]"
      if r: "honest_group be ks r" for r :: "'e backend_error + bytes list"
    proof -
      from fetched_group_ok [OF assms(1) run_table(3) [OF run] r key, of display] obtain c res outs
        where fetch: "fetched_group api display key ks r (st_cache s) = Some (c, res, outs)" by blast
      obtain f g' sent where "complete g outs (fl (st_flights s)) = (f, g', sent)"
        by (cases "complete g outs (fl (st_flights s))")
      from store_step.group_answer [OF at [OF Fetching] r fetch this] show ?thesis
        by (intro exI conjI) (assumption, simp_all add: set_task_parts fetch)
    qed
    with Fetching show ?thesis by auto
  qed simp_all
qed

text \<open>Making room: a new object evicts from the least recently used end, and only as far as it
  must. What stays is the longest run of most recent entries that fits beside the object, and
  the loop that finds it ends with its counter exact.\<close>
theorem insert_evicts_least_recent:
  assumes "lru_laws api" "budget_ok api st" "map_of (la_entries api (ls_lru st)) key = None"
  shows "\<exists>st' n. lru_insert api key bytes st = Some (st', bytes)
    \<and> la_entries api (ls_lru st') = (key, bytes) # take n (la_entries api (ls_lru st))
    \<and> ls_current_bytes st' = entries_bytes (la_entries api (ls_lru st'))
    \<and> (n = 0 \<or> ls_current_bytes st' \<le> ls_max_bytes st)
    \<and> (n \<ge> length (la_entries api (ls_lru st))
       \<or> ls_max_bytes st < entries_bytes (take (Suc n) (la_entries api (ls_lru st))) + length bytes)"
proof (cases "la_get api key (ls_lru st)")
  case (Pair c found)
  note get = lru_lawsD(3,4) [OF assms(1), of key "ls_lru st", unfolded Pair prod.sel assms(3)]
  let ?st = "st\<lparr>ls_lru := c\<rparr>" and ?es = "resident api st"
  have es: "la_entries api c = ?es" using get assms(3) by (simp add: touch_def)
  have "ls_current_bytes ?st = entries_bytes (resident api ?st)" using assms(2) es by (simp add: budget_ok_def)
  from evict_returns [OF assms(1) this, of "length bytes"] obtain st1 out where st1: "evict api (length bytes) ?st = Some st1"
    "ls_current_bytes st1 = entries_bytes (resident api st1)" "ls_max_bytes st1 = ls_max_bytes st"
    "ls_current_bytes st1 + length bytes \<le> ls_max_bytes st1 \<or> resident api st1 = []" "?es = resident api st1 @ out"
    "out = [] \<or> ls_max_bytes st < entries_bytes (resident api st1) + length (snd (hd out)) + length bytes" using es by auto
  let ?n = "length (resident api st1)"
  have "map_of (resident api st1) key = None" using assms(3) st1(5) by (simp add: map_add_def split: option.splits)
  then have put: "la_entries api (la_put api key bytes (ls_lru st1)) = (key, bytes) # take ?n ?es"
    using lru_lawsD(5) [OF assms(1)] st1(5) by (simp add: delete_absent)
  have "entries_bytes (take (Suc ?n) ?es) = entries_bytes (resident api st1) + length (snd (hd out))" if "out \<noteq> []"
    using that st1(5) by (cases out) (simp_all add: entries_bytes_def)
  then have room: "?n \<ge> length ?es \<or> ls_max_bytes st < entries_bytes (take (Suc ?n) ?es) + length bytes"
    using st1(5,6) by (cases "out = []") auto
  let ?new = "st1\<lparr>ls_current_bytes := ls_current_bytes st1 + length bytes, ls_lru := la_put api key bytes (ls_lru st1)\<rparr>"
  have "lru_insert api key bytes st = Some (?new, bytes)" using Pair get st1(1) by (simp add: lru_insert_def)
  moreover have "ls_current_bytes ?new = entries_bytes (resident api ?new)" using put st1(2,5) by (simp add: entries_bytes_def)
  ultimately show ?thesis using put room st1(3,4) by (intro exI [of _ ?new] exI [of _ ?n]) auto
qed

section \<open>Two viewers, one object\<close>

text \<open>A recency list has the documented behaviour of the library's cache.\<close>

definition recency_list :: "('k, 'v, ('k \<times> 'v) list) lru_api" where
  "recency_list =
     \<lparr>la_entries = AList.clearjunk, la_new = [],
      la_get = (\<lambda>k c. (touch k (AList.clearjunk c), map_of (AList.clearjunk c) k)),
      la_put = (\<lambda>k v c. (k, v) # AList.delete k (AList.clearjunk c)),
      la_pop = (\<lambda>c. case rev (AList.clearjunk c) of [] \<Rightarrow> None | (k, v) # es \<Rightarrow> Some (rev es, k, v))\<rparr>"

lemma clearjunk_id: "distinct (map fst es) \<Longrightarrow> AList.clearjunk es = es"
  by (induction es rule: AList.clearjunk.induct) (auto simp: delete_absent map_of_eq_None_iff)

lemma distinct_delete: "distinct (map fst es) \<Longrightarrow> distinct (map fst (AList.delete k es)) \<and> k \<notin> fst ` set (AList.delete k es)"
  by (induction es) (auto simp: delete_members)

lemma distinct_touch: "distinct (map fst es) \<Longrightarrow> distinct (map fst (touch k es))"
  using distinct_delete [of es k] by (auto simp: touch_def split: option.splits)

lemma recency_list_lru: "lru_laws recency_list"
proof -
  have d: "distinct (map fst (AList.clearjunk es))" for es :: "('a \<times> 'b) list" by (rule distinct_clearjunk)
  have pop: "rev (AList.clearjunk c) = (k, v) # es \<Longrightarrow> AList.clearjunk c = AList.clearjunk (rev es) @ [(k, v)]" for c :: "('a \<times> 'b) list" and k v es
    using d [of c] clearjunk_id [of "rev es"] by (auto simp: rev_swap)
  show ?thesis
    unfolding lru_laws_def recency_list_def
    using d distinct_delete clearjunk_id distinct_touch pop
    by (auto simp: clearjunk_id distinct_touch delete_idem clearjunk_delete split: list.splits prod.splits)
qed

text \<open>The unbounded cache is a memo that forgets nothing.\<close>

lemma lru_is_memo:
  assumes "lru_laws api"
  shows "memo_laws api"
  unfolding memo_laws_def
proof (intro conjI allI impI)
  note L = lru_lawsD [OF assms]
  show "la_entries api (la_new api) = []" by (rule L(1))
  fix k c
  show "k \<in> fst ` set (la_entries api c)" if "snd (la_get api k c) \<noteq> None" using that by (simp add: L(3) map_of_eq_None_iff)
  show "fst ` set (la_entries api (fst (la_get api k c))) \<subseteq> fst ` set (la_entries api c)"
    by (simp add: L(4) touch_members [OF L(2)])
  show "fst ` set (la_entries api (la_put api k v c)) \<subseteq> insert k (fst ` set (la_entries api c))" for v
    by (auto simp: L(5) delete_members)
qed

definition pair_key :: read_key where
  "pair_key = rk_new ''a'' None"

definition pair_source :: backend where
  "pair_source = \<lparr>be_object = (\<lambda>_. [1, 2]), be_present = (\<lambda>_. True)\<rparr>"

type_synonym pair_sys = "((read_key \<times> bytes) list, (string \<times> unit) list, unit) store_sys"

abbreviation pair_reachable :: "pair_sys \<Rightarrow> bool" where
  "pair_reachable \<equiv> store_reachable recency_list recency_list (\<lambda>_. '''') pair_source 4"

abbreviation pair_step :: "pair_sys \<Rightarrow> pair_sys \<Rightarrow> bool" where
  "pair_step \<equiv> store_step recency_list recency_list (\<lambda>_. '''') pair_source"

definition pair_cache :: "nat \<Rightarrow> (read_key \<times> bytes) list lru_state" where
  "pair_cache n = (lru_state_new recency_list 4)\<lparr>ls_misses := n\<rparr>"

definition pair_start :: "nat \<Rightarrow> unit task list \<Rightarrow> pair_sys" where
  "pair_start n ts = \<lparr>st_flights = flights_sys_new, st_cache = pair_cache n, st_absent = [], st_tasks = ts\<rparr>"

definition pair_guard :: leader_guard where
  "pair_guard = \<lparr>g_flight = 1, g_label = 7, g_keys = [pair_key], g_queued_at = None, g_completed = False\<rparr>"

definition pair_led :: "unit task \<Rightarrow> pair_sys" where
  "pair_led t = \<lparr>st_flights = \<lparr>fl = \<lparr>reads = [pair_key \<mapsto> \<lparr>tx = 1, leader = 7, owner = 1\<rparr>], queued_ranges = Map.empty,
                                   next_flight = 1\<rparr>, guards = [pair_guard], log = []\<rparr>,
               st_cache = pair_cache 2, st_absent = [], st_tasks = [Reading pair_key MetadataRead pair_guard, t]\<rparr>"

definition pair_done :: pair_sys where
  "pair_done = \<lparr>st_flights = \<lparr>fl = \<lparr>reads = Map.empty, queued_ranges = Map.empty, next_flight = 1\<rparr>, guards = [],
                             log = [(1, Done (Inr [1, 2]) 7)]\<rparr>,
              st_cache = (pair_cache 2)\<lparr>ls_lru := [(pair_key, [1, 2])], ls_current_bytes := 2, ls_source_reads := 1\<rparr>,
              st_absent = [], st_tasks = [Finished pair_key MetadataRead (Inr [1, 2]), Following pair_key MetadataRead 1]\<rparr>"

lemmas pair_simps = pair_start_def pair_led_def pair_done_def pair_cache_def pair_guard_def pair_key_def pair_source_def
  rk_new_def recency_list_def lru_state_new_def store_new_def flights_sys_new_def flights_default_def set_task_def
  at_task_def touch_def count_round_trip_def

lemma pair_led_reachable: "pair_reachable (pair_led (Following pair_key MetadataRead 1))"
proof -
  let ?top = "AtTop pair_key MetadataRead True" and ?missed = "Missed pair_key MetadataRead"
  have "pair_reachable (pair_start 0 [])" by (rule reach_init) (simp add: pair_simps)
  then have "pair_reachable (pair_start 0 [Idle])"
    by (rule reach_step) (use store_step.arrive [where s = "pair_start 0 []"] in \<open>simp add: pair_simps\<close>)
  then have "pair_reachable (pair_start 0 [Idle, Idle])"
    by (rule reach_step) (use store_step.arrive [where s = "pair_start 0 [Idle]"] in \<open>simp add: pair_simps\<close>)
  then have "pair_reachable (pair_start 0 [?top, Idle])"
    by (rule reach_step) (use store_step.call [where s = "pair_start 0 [Idle, Idle]" and i = 0 and key = pair_key and cls = MetadataRead] in \<open>simp add: pair_simps start_call_def\<close>)
  then have "pair_reachable (pair_start 0 [?top, ?top])"
    by (rule reach_step) (use store_step.call [where s = "pair_start 0 [?top, Idle]" and i = 1 and key = pair_key and cls = MetadataRead] in \<open>simp add: pair_simps start_call_def\<close>)
  then have "pair_reachable (pair_start 1 [?missed, ?top])"
    by (rule reach_step) (use store_step.miss [where s = "pair_start 0 [?top, ?top]" and i = 0] in \<open>simp add: pair_simps check_cache_def\<close>)
  then have "pair_reachable (pair_start 2 [?missed, ?missed])"
    by (rule reach_step) (use store_step.miss [where s = "pair_start 1 [?missed, ?top]" and i = 1] in \<open>simp add: pair_simps check_cache_def\<close>)
  then have "pair_reachable (pair_led ?missed)"
    by (rule reach_step) (use store_step.lead [where s = "pair_start 2 [?missed, ?missed]" and i = 0 and lbl = 7] in \<open>simp add: pair_simps place_def placed_def mergeable_def bounded_def\<close>)
  then have "pair_reachable (pair_led (Following pair_key MetadataRead 1))"
    by (rule reach_step) (use store_step.follow [where s = "pair_led ?missed" and i = 1 and lbl = 8] in \<open>simp add: pair_simps place_def placed_def\<close>)
  then show ?thesis .
qed

lemma evict_fits: "ls_current_bytes st + n \<le> ls_max_bytes st \<Longrightarrow> evict api n st = Some st"
  by (subst evict.simps) simp

lemma pair_done_reachable: "pair_reachable pair_done"
proof (rule reach_step [OF pair_led_reachable])
  show "pair_step (pair_led (Following pair_key MetadataRead 1)) pair_done"
    using store_step.answer [where s = "pair_led (Following pair_key MetadataRead 1)" and i = 0 and r = "Inr [1, 2]"
      and api = recency_list and be = pair_source and display = "\<lambda>_. ''''"]
    by (simp add: pair_simps honest_def fetched_def lru_insert_def evict_fits complete_def take_owned_def share_def)
qed

theorem cached_reads_transparent_witness:
  "Finished pair_key MetadataRead (Inr [1, 2]) \<in> set (st_tasks pair_done)
   \<and> be_present pair_source ''a'' \<and> [1, 2] = be_object pair_source pair_key"
  using cached_reads_transparent [OF recency_list_lru lru_is_memo [OF recency_list_lru] pair_done_reachable,
      of "Finished pair_key MetadataRead (Inr [1, 2])"]
  by (simp add: pair_done_def pair_key_def rk_new_def)

theorem cache_budget_witness:
  "pair_reachable pair_done \<and> cst_current_bytes (stats recency_list (st_cache pair_done)) = 2
   \<and> cst_max_bytes (stats recency_list (st_cache pair_done)) = 4"
  using cache_budget [OF recency_list_lru lru_is_memo [OF recency_list_lru] pair_done_reachable] pair_done_reachable
  by (simp add: Let_def stats_def pair_done_def)

theorem waiter_has_leader_witness:
  "\<exists>r j g. reads (fl (st_flights (pair_led (Following pair_key MetadataRead 1)))) pair_key = Some r \<and> tx r = 1
     \<and> guard_of (st_tasks (pair_led (Following pair_key MetadataRead 1)) ! j) = Some g \<and> pair_key \<in> set (g_keys g)"
  using waiter_has_leader [OF recency_list_lru lru_is_memo [OF recency_list_lru] pair_led_reachable,
      of "Following pair_key MetadataRead 1" pair_key MetadataRead 1]
  by (simp add: pair_led_def) blast

theorem leader_finishes_witness:
  "\<exists>s' res. pair_step (pair_led (Following pair_key MetadataRead 1)) s'
     \<and> st_tasks s' = (st_tasks (pair_led (Following pair_key MetadataRead 1)))[0 := Finished pair_key MetadataRead res]"
proof -
  have "honest pair_source pair_key (Inr [1, 2] :: unit backend_error + bytes)"
    by (simp add: honest_def pair_source_def)
  moreover have at: "st_tasks (pair_led (Following pair_key MetadataRead 1)) ! 0 = Reading pair_key MetadataRead pair_guard"
    and "0 < length (st_tasks (pair_led (Following pair_key MetadataRead 1)))" by (simp_all add: pair_led_def)
  note leader_finishes [OF recency_list_lru lru_is_memo [OF recency_list_lru] pair_led_reachable this(2), unfolded at task.case]
  ultimately show ?thesis by blast
qed

theorem insert_evicts_least_recent_witness:
  "\<exists>st' n. lru_insert recency_list (rk_new ''b'' None) [3, 4, 5] (st_cache pair_done) = Some (st', [3, 4, 5])
     \<and> la_entries recency_list (ls_lru st') = (rk_new ''b'' None, [3, 4, 5]) # take n [(pair_key, [1, 2])]
     \<and> (n = 0 \<or> ls_current_bytes st' \<le> 4)"
proof -
  have "budget_ok recency_list (st_cache pair_done)"
    by (simp add: budget_ok_def pair_simps entries_bytes_def)
  moreover have "map_of (la_entries recency_list (ls_lru (st_cache pair_done))) (rk_new ''b'' None) = None"
    by (simp add: pair_simps)
  moreover have "la_entries recency_list (ls_lru (st_cache pair_done)) = [(pair_key, [1, 2])]"
    "ls_max_bytes (st_cache pair_done) = 4" by (simp_all add: pair_simps)
  ultimately show ?thesis
    using insert_evicts_least_recent [OF recency_list_lru, of "st_cache pair_done" "rk_new ''b'' None" "[3, 4, 5]"] by metis
qed

end
