(* ===== verification/F64.thy ===== *)
theory F64
  imports Prelude "HOL-Library.Log_Nat"
begin

text \<open>
  Rust's \<^verbatim>\<open>f64\<close> and \<^verbatim>\<open>f32\<close>: IEEE 754 binary numbers with round-to-nearest-even. A finite value
  is a sign and a rational magnitude, so two finite values are the same bit pattern exactly
  when they are the same term, and \<open>-0.0\<close> is \<open>Fin True 0\<close>. The payload of a NaN is not kept.
  The transcendental functions, whose precision Rust leaves open, are fields of \<open>libm\<close>.
\<close>

datatype f64 = NaN | Inf bool | Fin bool rat

type_synonym f32 = f64

section \<open>Rounding\<close>

definition ilog2 :: "rat \<Rightarrow> int" where
  "ilog2 r = (let (p, q) = quotient_of r; k = bitlen p - bitlen q
              in if (2::rat) powi k \<le> r then k else k - 1)"

definition round_half_even :: "rat \<Rightarrow> int" where
  "round_half_even x = (let n = \<lfloor>x\<rfloor>; d = x - of_int n
     in if d < 1/2 then n else if 1/2 < d then n + 1 else if even n then n else n + 1)"

text \<open>Round a magnitude to \<open>prec\<close> significant bits, with exponents from \<open>emin\<close> up.\<close>

definition round_mag :: "int \<Rightarrow> int \<Rightarrow> rat \<Rightarrow> rat" where
  "round_mag prec emin r =
     (if r = 0 then 0
      else let e = max (ilog2 r - (prec - 1)) emin
           in of_int (round_half_even (r / 2 powi e)) * 2 powi e)"

definition fround :: "bool \<Rightarrow> rat \<Rightarrow> f64" where
  "fround s r = (let q = round_mag 53 (- 1074) \<bar>r\<bar> in if 2 ^ 1024 \<le> q then Inf s else Fin s q)"

definition fround32 :: "bool \<Rightarrow> rat \<Rightarrow> f32" where
  "fround32 s r = (let q = round_mag 24 (- 149) \<bar>r\<bar> in if 2 ^ 128 \<le> q then Inf s else Fin s q)"

text \<open>A decimal literal, and an integer converted with \<^verbatim>\<open>as f64\<close>.\<close>

definition flit :: "rat \<Rightarrow> f64" where
  "flit r = fround (r < 0) r"

section \<open>Arithmetic and comparison\<close>

fun fval :: "f64 \<Rightarrow> rat" where
  "fval (Fin s r) = (if s then - r else r)"
| "fval _ = 0"

fun is_finite :: "f64 \<Rightarrow> bool" where
  "is_finite (Fin s r) = True"
| "is_finite _ = False"

fun is_nan :: "f64 \<Rightarrow> bool" where
  "is_nan NaN = True"
| "is_nan _ = False"

definition round_val :: "(bool \<Rightarrow> rat \<Rightarrow> f64) \<Rightarrow> bool \<Rightarrow> rat \<Rightarrow> f64" where
  "round_val rnd zs v = (if v = 0 then Fin zs 0 else rnd (v < 0) v)"

fun add_with :: "(bool \<Rightarrow> rat \<Rightarrow> f64) \<Rightarrow> f64 \<Rightarrow> f64 \<Rightarrow> f64" where
  "add_with rnd NaN _ = NaN"
| "add_with rnd _ NaN = NaN"
| "add_with rnd (Inf s) (Inf t) = (if s = t then Inf s else NaN)"
| "add_with rnd (Inf s) (Fin _ _) = Inf s"
| "add_with rnd (Fin _ _) (Inf t) = Inf t"
| "add_with rnd (Fin s a) (Fin t b) = round_val rnd (s \<and> t) (fval (Fin s a) + fval (Fin t b))"

fun fneg :: "f64 \<Rightarrow> f64" where
  "fneg NaN = NaN"
| "fneg (Inf s) = Inf (\<not> s)"
| "fneg (Fin s r) = Fin (\<not> s) r"

fun mul_with :: "(bool \<Rightarrow> rat \<Rightarrow> f64) \<Rightarrow> f64 \<Rightarrow> f64 \<Rightarrow> f64" where
  "mul_with rnd NaN _ = NaN"
| "mul_with rnd _ NaN = NaN"
| "mul_with rnd (Inf s) (Inf t) = Inf (s \<noteq> t)"
| "mul_with rnd (Inf s) (Fin t b) = (if b = 0 then NaN else Inf (s \<noteq> t))"
| "mul_with rnd (Fin s a) (Inf t) = (if a = 0 then NaN else Inf (s \<noteq> t))"
| "mul_with rnd (Fin s a) (Fin t b) = rnd (s \<noteq> t) (a * b)"

fun div_with :: "(bool \<Rightarrow> rat \<Rightarrow> f64) \<Rightarrow> f64 \<Rightarrow> f64 \<Rightarrow> f64" where
  "div_with rnd NaN _ = NaN"
| "div_with rnd _ NaN = NaN"
| "div_with rnd (Inf s) (Inf t) = NaN"
| "div_with rnd (Inf s) (Fin t b) = Inf (s \<noteq> t)"
| "div_with rnd (Fin s a) (Inf t) = Fin (s \<noteq> t) 0"
| "div_with rnd (Fin s a) (Fin t b) =
     (if b = 0 then if a = 0 then NaN else Inf (s \<noteq> t) else rnd (s \<noteq> t) (a / b))"

text \<open>\<^verbatim>\<open>%\<close>: the remainder of the truncated quotient, with the sign of the dividend.\<close>

fun frem :: "f64 \<Rightarrow> f64 \<Rightarrow> f64" where
  "frem (Fin s a) (Fin t b) = (if b = 0 then NaN else Fin s (a - of_int \<lfloor>a / b\<rfloor> * b))"
| "frem (Fin s a) (Inf t) = Fin s a"
| "frem _ _ = NaN"

function isqrt :: "int \<Rightarrow> int" where
  "isqrt n = (if n \<le> 0 then 0
     else let s = 2 * isqrt (n div 4) in if (s + 1) * (s + 1) \<le> n then s + 1 else s)"
  by pat_completeness auto
termination by (relation "measure nat") auto

declare isqrt.simps [simp del]

text \<open>The scale \<open>4 ^ 1200\<close> makes every double a whole number, with bits to spare below the last place.\<close>

fun fsqrt :: "f64 \<Rightarrow> f64" where
  "fsqrt NaN = NaN"
| "fsqrt (Inf s) = (if s then NaN else Inf False)"
| "fsqrt (Fin s r) =
     (if r = 0 then Fin s 0 else if s then NaN
      else let x = \<lfloor>r * 4 ^ 1200\<rfloor>; q = isqrt x
           in fround False (of_int (2 * q + (if q * q = x then 0 else 1)) / (2 * 2 ^ 1200)))"

fun fabs :: "f64 \<Rightarrow> f64" where
  "fabs NaN = NaN"
| "fabs (Inf s) = Inf False"
| "fabs (Fin s r) = Fin False r"

fun flt :: "f64 \<Rightarrow> f64 \<Rightarrow> bool" where
  "flt NaN _ = False"
| "flt _ NaN = False"
| "flt (Inf s) (Inf t) = (s \<and> \<not> t)"
| "flt (Inf s) (Fin _ _) = s"
| "flt (Fin _ _) (Inf t) = (\<not> t)"
| "flt (Fin s a) (Fin t b) = (fval (Fin s a) < fval (Fin t b))"

text \<open>\<^verbatim>\<open>==\<close> on floats: NaN is unequal to itself, the two zeros are equal.\<close>

fun feq :: "f64 \<Rightarrow> f64 \<Rightarrow> bool" where
  "feq (Inf s) (Inf t) = (s = t)"
| "feq (Fin s a) (Fin t b) = (fval (Fin s a) = fval (Fin t b))"
| "feq _ _ = False"

instantiation f64 :: "{zero, one, plus, minus, uminus, times, divide, inverse, ord}"
begin

definition zero_f64 :: f64 where "zero_f64 = Fin False 0"
definition one_f64 :: f64 where "one_f64 = Fin False 1"
definition plus_f64 :: "f64 \<Rightarrow> f64 \<Rightarrow> f64" where "plus_f64 = add_with fround"
definition uminus_f64 :: "f64 \<Rightarrow> f64" where "uminus_f64 = fneg"
definition minus_f64 :: "f64 \<Rightarrow> f64 \<Rightarrow> f64" where "minus_f64 a b = add_with fround a (fneg b)"
definition times_f64 :: "f64 \<Rightarrow> f64 \<Rightarrow> f64" where "times_f64 = mul_with fround"
definition divide_f64 :: "f64 \<Rightarrow> f64 \<Rightarrow> f64" where "divide_f64 = div_with fround"
definition inverse_f64 :: "f64 \<Rightarrow> f64" where "inverse_f64 a = div_with fround (Fin False 1) a"
definition less_f64 :: "f64 \<Rightarrow> f64 \<Rightarrow> bool" where "less_f64 = flt"
definition less_eq_f64 :: "f64 \<Rightarrow> f64 \<Rightarrow> bool" where "less_eq_f64 a b = (flt a b \<or> feq a b)"

instance ..

end

definition fadd32 :: "f32 \<Rightarrow> f32 \<Rightarrow> f32" where "fadd32 = add_with fround32"
definition fsub32 :: "f32 \<Rightarrow> f32 \<Rightarrow> f32" where "fsub32 a b = add_with fround32 a (fneg b)"
definition fmul32 :: "f32 \<Rightarrow> f32 \<Rightarrow> f32" where "fmul32 = mul_with fround32"
definition fdiv32 :: "f32 \<Rightarrow> f32 \<Rightarrow> f32" where "fdiv32 = div_with fround32"

text \<open>\<^verbatim>\<open>as f32\<close>; an \<^verbatim>\<open>f32\<close> is an \<^verbatim>\<open>f64\<close> already.\<close>

fun to_f32 :: "f64 \<Rightarrow> f32" where
  "to_f32 (Fin s r) = (if r = 0 then Fin s 0 else fround32 s r)"
| "to_f32 x = x"

definition u32_f64 :: "nat \<Rightarrow> f64" where
  "u32_f64 n = Fin False (of_nat n)"

text \<open>\<^verbatim>\<open>max\<close>, \<^verbatim>\<open>min\<close> (which prefer a number to a NaN) and \<^verbatim>\<open>clamp\<close> (which keeps a NaN).\<close>

definition fmax :: "f64 \<Rightarrow> f64 \<Rightarrow> f64" where
  "fmax a b = (if is_nan a then b else if is_nan b then a else if a < b then b else a)"

definition fmin :: "f64 \<Rightarrow> f64 \<Rightarrow> f64" where
  "fmin a b = (if is_nan a then b else if is_nan b then a else if b < a then b else a)"

definition fclamp :: "f64 \<Rightarrow> f64 \<Rightarrow> f64 \<Rightarrow> f64" where
  "fclamp lo hi x = (if x < lo then lo else if hi < x then hi else x)"

text \<open>The transcendental functions of the platform.\<close>

record libm =
  fm_sin :: "f64 \<Rightarrow> f64"
  fm_cos :: "f64 \<Rightarrow> f64"
  fm_acos :: "f64 \<Rightarrow> f64"
  fm_atan2 :: "f64 \<Rightarrow> f64 \<Rightarrow> f64"

section \<open>Doubles\<close>

text \<open>The values that are doubles: a NaN, an infinity, or a magnitude with 53 bits.\<close>

definition mag64 :: "rat \<Rightarrow> bool" where
  "mag64 r \<longleftrightarrow> round_mag 53 (- 1074) r = r \<and> 0 \<le> r \<and> r < 2 ^ 1024"

fun is_f64 :: "f64 \<Rightarrow> bool" where
  "is_f64 (Fin s r) = mag64 r"
| "is_f64 _ = True"

lemma bitlen_ge: "0 < p \<Longrightarrow> (2::rat) powi (bitlen p - 1) \<le> of_int p"
  and bitlen_lt: "0 < p \<Longrightarrow> of_int p < (2::rat) powi bitlen p"
proof -
  assume p: "0 < p"
  then have b: "0 \<le> bitlen p - 1" "0 \<le> bitlen p" and bd: "2 ^ nat (bitlen p - 1) \<le> p" "p < 2 ^ nat (bitlen p)"
    using bitlen_bounds [OF p] bitlen_ge_iff_power [of 1 p] by auto
  have "of_int (2 ^ nat (bitlen p - 1)) \<le> (of_int p :: rat)" using bd(1) by (simp only: of_int_le_iff)
  then show "(2::rat) powi (bitlen p - 1) \<le> of_int p" using b by (simp add: power_int_def)
  have "(of_int p :: rat) < of_int (2 ^ nat (bitlen p))" using bd(2) by (simp only: of_int_less_iff)
  then show "of_int p < (2::rat) powi bitlen p" using b by (simp add: power_int_def)
qed

lemma ilog2_le:
  assumes "0 < r"
  shows "(2::rat) powi (ilog2 r) \<le> r"
proof -
  obtain p q where pq: "quotient_of r = (p, q)" by (cases "quotient_of r")
  then have q: "0 < q" and r: "r = of_int p / of_int q"
    using quotient_of_denom_pos quotient_of_div by blast+
  from assms r q have p: "0 < p" by (simp add: zero_less_divide_iff)
  let ?k = "bitlen p - bitlen q"
  have "(2::rat) powi (?k - 1) \<le> r"
  proof -
    have "(2::rat) powi (?k - 1) = 2 powi (bitlen p - 1) / 2 powi bitlen q"
      by (simp add: power_int_diff [symmetric] algebra_simps)
    also have "\<dots> \<le> of_int p / of_int q"
      using bitlen_ge [OF p] bitlen_lt [OF q] q p by (intro frac_le) auto
    finally show ?thesis by (simp add: r)
  qed
  then show ?thesis by (simp add: ilog2_def pq Let_def)
qed

lemma round_half_even_int [simp]: "round_half_even (of_int n) = n"
  by (simp add: round_half_even_def)

lemma round_half_even_near: "\<bar>of_int (round_half_even x) - x\<bar> \<le> 1/2"
  unfolding round_half_even_def Let_def by (auto simp: abs_if) linarith+

lemma round_mag_near:
  assumes "0 < r"
  shows "\<bar>round_mag prec emin r - r\<bar> \<le> 2 powi (max (ilog2 r - (prec - 1)) emin) / 2"
proof -
  let ?u = "(2::rat) powi (max (ilog2 r - (prec - 1)) emin)"
  have u: "0 < ?u" by simp
  have "round_mag prec emin r - r = (of_int (round_half_even (r / ?u)) - r / ?u) * ?u"
    using assms u by (simp add: round_mag_def Let_def left_diff_distrib del: zero_less_power_int)
  then have "\<bar>round_mag prec emin r - r\<bar> = \<bar>of_int (round_half_even (r / ?u)) - r / ?u\<bar> * ?u"
    using u by (simp add: abs_mult)
  also have "\<dots> \<le> 1/2 * ?u" using round_half_even_near u by (intro mult_right_mono) auto
  finally show ?thesis by simp
qed

lemma round_mag_bounds:
  assumes "(2::rat) powi (- 1074) \<le> r"
  shows "r / 2 \<le> round_mag 53 (- 1074) r" "round_mag 53 (- 1074) r \<le> 2 * r"
proof -
  have "0 < (2::rat) powi (- 1074)" by simp
  with assms have r: "0 < r" by linarith
  have "(2::rat) powi (ilog2 r - 52) \<le> 2 powi (ilog2 r)" by (rule power_int_increasing) auto
  with ilog2_le [OF r] have "(2::rat) powi (ilog2 r - 52) \<le> r" by linarith
  with assms have "(2::rat) powi (max (ilog2 r - (53 - 1)) (- 1074)) \<le> r" by (auto simp: max_def)
  with round_mag_near [OF r, of 53 "- 1074"]
  show "r / 2 \<le> round_mag 53 (- 1074) r" "round_mag 53 (- 1074) r \<le> 2 * r" by linarith+
qed

lemma fround_bounds:
  assumes "(2::rat) powi (- 1074) \<le> r" "r < 2 ^ 1023"
  obtains q where "fround s r = Fin s q" "r / 2 \<le> q" "q \<le> 2 * r"
proof -
  have "0 < (2::rat) powi (- 1074)" by simp
  with assms(1) have "\<bar>r\<bar> = r" by linarith
  note b = round_mag_bounds [OF assms(1)]
  have "2 * r < 2 * 2 ^ 1023" using assms(2) by (rule mult_strict_left_mono) simp
  also have "2 * (2::rat) ^ 1023 = 2 ^ 1024" by (simp only: power_Suc [symmetric]) simp
  finally have "\<not> 2 ^ 1024 \<le> round_mag 53 (- 1074) r" using b(2) by linarith
  then have "fround s r = Fin s (round_mag 53 (- 1074) r)"
    unfolding fround_def \<open>\<bar>r\<bar> = r\<close> Let_def by (rule if_not_P)
  with b that show ?thesis by blast
qed

text \<open>Magnitudes with at most 53 bits are doubles.\<close>

lemma mag64_dyadic:
  assumes "r = of_int m * 2 powi e" "0 \<le> m" "m < 2 ^ 53" "- 1074 \<le> e" "r < 2 ^ 1024"
  shows "mag64 r"
proof (cases "r = 0")
  case True
  then show ?thesis by (simp add: mag64_def round_mag_def)
next
  case False
  have pos: "0 < (2::rat) powi e" by simp
  have "0 \<le> r" using assms(1,2) pos by simp
  with False have r: "0 < r" by linarith
  let ?f = "max (ilog2 r - 52) (- 1074)"
  have "r < 2 ^ 53 * 2 powi e"
  proof -
    have "(of_int m :: rat) < of_int (2 ^ 53)" using assms(3) by (simp only: of_int_less_iff)
    then have "(of_int m :: rat) < 2 ^ 53" by simp
    with pos show ?thesis unfolding assms(1) by (rule mult_strict_right_mono [rotated]) 
  qed
  also have "(2::rat) ^ 53 * 2 powi e = 2 powi (e + 53)" by (simp add: power_int_add)
  finally have "(2::rat) powi ilog2 r < 2 powi (e + 53)" using ilog2_le [OF r] by linarith
  moreover have "(2::rat) powi (e + 53) \<le> 2 powi ilog2 r" if "e + 53 \<le> ilog2 r"
    using that by (rule power_int_increasing) simp
  ultimately have "ilog2 r < e + 53" by (meson not_less)
  with assms(4) have f: "?f \<le> e" by simp
  have "r / 2 powi ?f = of_int m * 2 powi (e - ?f)"
    by (simp add: assms(1) power_int_diff)
  also have "\<dots> = of_int (m * 2 ^ nat (e - ?f))" using f by (simp add: power_int_def)
  finally have whole: "r / 2 powi ?f = of_int (m * 2 ^ nat (e - ?f))" .
  have "of_int (round_half_even (r / 2 powi ?f)) = r / 2 powi ?f"
    unfolding whole by (simp only: round_half_even_int)
  then have "round_mag 53 (- 1074) r = r / 2 powi ?f * 2 powi ?f"
    using r by (simp add: round_mag_def Let_def)
  also have "\<dots> = r" by simp
  finally have "round_mag 53 (- 1074) r = r" .
  with assms(5) r show ?thesis by (simp add: mag64_def)
qed

lemma mag64_int:
  assumes "n < 2 ^ 53"
  shows "mag64 (of_nat n)"
proof (rule mag64_dyadic [of _ "int n" 0])
  have "(of_nat n :: rat) < of_nat (2 ^ 53)" using assms by (simp only: of_nat_less_iff)
  also have "\<dots> \<le> (2::rat) ^ 1024" by simp
  finally show "(of_nat n :: rat) < 2 ^ 1024" .
qed (use assms in simp_all)

lemma fround_mag64: "mag64 r \<Longrightarrow> fround s r = Fin s r" "mag64 r \<Longrightarrow> fround s (- r) = Fin s r"
  by (auto simp: fround_def mag64_def Let_def)

lemma finite_cases: "is_finite x \<longleftrightarrow> (\<exists>s r. x = Fin s r)"
  by (cases x) auto

lemma sub_self: "is_finite x \<Longrightarrow> x - x = 0"
  by (cases x) (auto simp: minus_f64_def zero_f64_def round_val_def)

text \<open>Adding a zero changes at most the sign of a zero.\<close>

lemma add_zero:
  assumes "is_finite x" "is_f64 x"
  shows "x + 0 = (if fval x = 0 then Fin False 0 else x)"
proof -
  from assms(1) obtain s r where x: "x = Fin s r" by (auto simp: finite_cases)
  with assms(2) have "mag64 r" by simp
  then have "0 \<le> r" by (simp add: mag64_def)
  with x \<open>mag64 r\<close> show ?thesis
    by (auto simp: plus_f64_def zero_f64_def round_val_def fround_mag64)
qed

lemma feq_refl: "feq x x \<longleftrightarrow> \<not> is_nan x"
  by (cases x) auto

lemma feq_sym: "feq x y \<Longrightarrow> feq y x"
  by (cases x; cases y) auto

lemma feq_trans: "feq x y \<Longrightarrow> feq y z \<Longrightarrow> feq x z"
  by (cases x; cases y; cases z) auto

lemma feq_add_zero: "is_finite x \<Longrightarrow> is_f64 x \<Longrightarrow> feq (x + 0) x"
  by (cases x) (auto simp: add_zero)

text \<open>The order on everything but NaN.\<close>

lemma fle_trans: "(x::f64) \<le> y \<Longrightarrow> y \<le> z \<Longrightarrow> x \<le> z"
  by (cases x; cases y; cases z) (auto simp: less_eq_f64_def split: if_splits)

lemma fle_lt_trans: "(x::f64) \<le> y \<Longrightarrow> y < z \<Longrightarrow> x < z"
  by (cases x; cases y; cases z) (auto simp: less_eq_f64_def less_f64_def split: if_splits)

lemma flt_le_trans: "(x::f64) < y \<Longrightarrow> y \<le> z \<Longrightarrow> x < z"
  by (cases x; cases y; cases z) (auto simp: less_eq_f64_def less_f64_def split: if_splits)

lemma fle_not_nan: "(x::f64) \<le> y \<Longrightarrow> \<not> is_nan x \<and> \<not> is_nan y"
  by (cases x; cases y) (auto simp: less_eq_f64_def)

lemma not_flt: "\<not> is_nan x \<Longrightarrow> \<not> is_nan y \<Longrightarrow> \<not> x < y \<longleftrightarrow> y \<le> (x::f64)"
  by (cases x; cases y) (auto simp: less_eq_f64_def less_f64_def)

lemma flt_le: "(x::f64) < y \<Longrightarrow> x \<le> y"
  by (simp add: less_eq_f64_def less_f64_def)

lemma fle_refl: "\<not> is_nan x \<Longrightarrow> x \<le> (x::f64)"
  by (simp add: less_eq_f64_def feq_refl)

lemma between_finite: "is_finite lo \<Longrightarrow> is_finite hi \<Longrightarrow> lo \<le> x \<Longrightarrow> x \<le> hi \<Longrightarrow> is_finite x"
  by (cases x; cases lo; cases hi) (auto simp: less_eq_f64_def)

lemma fclamp_range:
  assumes "lo \<le> hi" "\<not> is_nan x"
  shows "lo \<le> fclamp lo hi x" "fclamp lo hi x \<le> hi"
  using assms fle_not_nan [OF assms(1)]
  by (auto simp: fclamp_def not_flt fle_refl)

lemma fclamp_id: "lo \<le> x \<Longrightarrow> x \<le> hi \<Longrightarrow> fclamp lo hi x = x"
  using fle_not_nan [of lo x] fle_not_nan [of x hi] not_flt [of lo x] not_flt
  by (auto simp: fclamp_def)

lemma fclamp_finite:
  "is_finite lo \<Longrightarrow> is_finite hi \<Longrightarrow> lo \<le> hi \<Longrightarrow> \<not> is_nan x \<Longrightarrow> is_finite (fclamp lo hi x)"
  using fclamp_range between_finite by blast

lemma mul_not_nan: "is_finite x \<Longrightarrow> is_finite y \<Longrightarrow> \<not> is_nan (x * y)"
  by (cases x; cases y) (auto simp: times_f64_def fround_def Let_def)

lemma add_not_nan: "is_finite x \<Longrightarrow> \<not> is_nan y \<Longrightarrow> \<not> is_nan (x + y)"
  by (cases x; cases y) (auto simp: plus_f64_def round_val_def fround_def Let_def)

lemma div_not_nan: "is_finite x \<Longrightarrow> is_finite y \<Longrightarrow> 0 < y \<Longrightarrow> \<not> is_nan (x / y)"
  by (cases x; cases y) (auto simp: divide_f64_def zero_f64_def less_f64_def fround_def Let_def split: if_splits)

section \<open>Literals\<close>

text \<open>Whole numbers are literals as they are; a decimal lies within a factor of two of its value.\<close>

lemma fround_zero: "fround s 0 = Fin s 0"
  by (simp add: fround_def round_mag_def)

lemma flit_int: "n < 2 ^ 53 \<Longrightarrow> flit (of_nat n) = Fin False (of_nat n)"
  using fround_mag64(1) [OF mag64_int] by (simp add: flit_def)

lemma flit_numeral [simp]:
  "(numeral w :: nat) < 2 ^ 53 \<Longrightarrow> flit (numeral w) = Fin False (numeral w)"
  using flit_int [of "numeral w"] by simp

lemma fround_tight:
  assumes "(2::rat) powi (- 1022) \<le> r" "r < 2 ^ 1023"
  obtains q where "fround s r = Fin s q" "\<bar>q - r\<bar> \<le> r / 2 ^ 53"
proof -
  have pos: "0 < (2::rat) powi (- 1022)" by simp
  with assms(1) have r: "0 < r" by linarith
  have "(2::rat) powi (- 1074) \<le> 2 powi (- 1022)" by (rule power_int_increasing) auto
  with assms(1) have low: "(2::rat) powi (- 1074) \<le> r" by linarith
  have "(2::rat) powi (ilog2 r - 52) = 2 powi (ilog2 r) / 2 ^ 52" by (simp add: power_int_diff)
  also have "\<dots> \<le> r / 2 ^ 52" using ilog2_le [OF r] by (rule divide_right_mono) simp
  finally have "(2::rat) powi (ilog2 r - 52) \<le> r / 2 ^ 52" .
  moreover have "(2::rat) powi (- 1074) = 2 powi (- 1022) / 2 ^ 52"
    using power_int_diff [of "2::rat" "- 1022" 52] by simp
  with assms(1) have "(2::rat) powi (- 1074) \<le> r / 2 ^ 52" by (simp add: divide_right_mono)
  ultimately have "(2::rat) powi (max (ilog2 r - (53 - 1)) (- 1074)) \<le> r / 2 ^ 52" by (auto simp: max_def)
  with round_mag_near [OF r, of 53 "- 1074"] have "\<bar>round_mag 53 (- 1074) r - r\<bar> \<le> r / 2 ^ 53" by simp
  moreover obtain q where q: "fround s r = Fin s q" by (rule fround_bounds [OF low assms(2)])
  then have "q = round_mag 53 (- 1074) r" using r by (simp add: fround_def Let_def split: if_splits)
  ultimately show ?thesis using q that by blast
qed

lemma flit_decimal:
  assumes "1 / 10 ^ 30 \<le> r" "r < 10 ^ 30"
  obtains q where "flit r = Fin False q" "\<bar>q - r\<bar> \<le> r / 2 ^ 53"
proof -
  have lo: "(2::rat) powi (- 1022) \<le> 1 / 10 ^ 30" by (simp add: power_int_def divide_simps)
  have hi: "(10::rat) ^ 30 < 2 ^ 1023" by simp
  have "(0::rat) < 1 / 10 ^ 30" by simp
  with assms(1) have "\<not> r < 0" by linarith
  have "(2::rat) powi (- 1022) \<le> r" using lo assms(1) by (rule order_trans)
  moreover have "r < 2 ^ 1023" using assms(2) hi by (rule order_less_trans)
  ultimately obtain q where "fround False r = Fin False q" "\<bar>q - r\<bar> \<le> r / 2 ^ 53"
    by (rule fround_tight)
  with \<open>\<not> r < 0\<close> that show ?thesis by (simp add: flit_def)
qed

text \<open>A positive double is at least the smallest subnormal.\<close>

lemma mag64_least:
  assumes "mag64 r" "0 < r"
  shows "(2::rat) powi (- 1074) \<le> r"
proof -
  let ?e = "max (ilog2 r - 52) (- 1074)"
  from assms have r: "r = of_int (round_half_even (r / 2 powi ?e)) * 2 powi ?e"
    by (simp add: mag64_def round_mag_def Let_def)
  have pos: "0 < (2::rat) powi ?e" by simp
  with r assms(2) have "0 < round_half_even (r / 2 powi ?e)"
    by (metis of_int_0_less_iff zero_less_mult_pos2)
  then have "(1::rat) \<le> of_int (round_half_even (r / 2 powi ?e))" by (metis of_int_1_le_iff int_one_le_iff_zero_less)
  with pos have "1 * (2::rat) powi ?e \<le> of_int (round_half_even (r / 2 powi ?e)) * 2 powi ?e"
    by (intro mult_right_mono) auto
  then have "2 powi ?e \<le> r" using r by linarith
  moreover have "(2::rat) powi (- 1074) \<le> 2 powi ?e" by (rule power_int_increasing) auto
  ultimately show ?thesis by linarith
qed

section \<open>Every result is a double\<close>

lemma ilog2_gt:
  assumes "0 < r"
  shows "r < (2::rat) powi (ilog2 r + 1)"
proof -
  obtain p q where pq: "quotient_of r = (p, q)" by (cases "quotient_of r")
  then have q: "0 < q" and r: "r = of_int p / of_int q"
    using quotient_of_denom_pos quotient_of_div by blast+
  from assms r q have p: "0 < p" by (simp add: zero_less_divide_iff)
  let ?k = "bitlen p - bitlen q"
  have "of_int p / of_int q < 2 powi bitlen p / (2::rat) powi (bitlen q - 1)"
    using bitlen_lt [OF p] bitlen_ge [OF q] p by (intro frac_less) auto
  also have "\<dots> = 2 powi (?k + 1)"
    by (simp add: power_int_diff [symmetric] algebra_simps)
  finally have "r < 2 powi (?k + 1)" by (simp add: r)
  then show ?thesis by (auto simp: ilog2_def pq Let_def not_le)
qed

lemma round_half_even_le: "x \<le> of_int n \<Longrightarrow> round_half_even x \<le> n"
  unfolding round_half_even_def Let_def by (auto; linarith)

lemma round_half_even_ge: "of_int n \<le> x \<Longrightarrow> n \<le> round_half_even x"
  unfolding round_half_even_def Let_def by (auto; linarith)

lemma round_half_even_nonneg: "0 \<le> x \<Longrightarrow> 0 \<le> round_half_even x"
  unfolding round_half_even_def Let_def by (auto; linarith)

lemma fround_f64: "is_f64 (fround s r)"
proof (cases "r = 0")
  case True
  then show ?thesis by (simp add: fround_zero mag64_def round_mag_def)
next
  case False
  define a where "a = \<bar>r\<bar>"
  define e where "e = max (ilog2 a - 52) (- 1074)"
  define n where "n = round_half_even (a / 2 powi e)"
  have a: "0 < a" using False by (simp add: a_def)
  have pos: "0 < (2::rat) powi e" by simp
  have "(2::rat) powi (ilog2 a + 1) \<le> 2 powi (e + 53)"
    by (rule power_int_increasing) (auto simp: e_def)
  also have "(2::rat) powi (e + 53) = 2 ^ 53 * 2 powi e" by (simp add: power_int_add)
  finally have "a < 2 ^ 53 * 2 powi e" using ilog2_gt [OF a] by linarith
  then have "a / 2 powi e < of_int (2 ^ 53)" using pos by (simp add: divide_simps)
  then have n: "n \<le> 2 ^ 53" unfolding n_def by (intro round_half_even_le less_imp_le)
  have n0: "0 \<le> n" unfolding n_def using a pos by (intro round_half_even_nonneg) simp
  have q: "round_mag 53 (- 1074) a = of_int n * 2 powi e"
    using a by (simp add: round_mag_def Let_def e_def n_def)
  have e: "- 1074 \<le> e" by (simp add: e_def)
  have "mag64 (of_int n * 2 powi e)" if "of_int n * 2 powi e < (2::rat) ^ 1024"
  proof (cases "n = 2 ^ 53")
    case True
    have "of_int n * 2 powi e = of_int 1 * (2::rat) powi (e + 53)" using True by (simp add: power_int_add)
    then show ?thesis using that e by (intro mag64_dyadic [of _ 1 "e + 53"]) auto
  next
    case False
    with n n0 e that show ?thesis by (intro mag64_dyadic [of _ n e]) auto
  qed
  then show ?thesis by (simp add: fround_def a_def [symmetric] q Let_def not_le)
qed

lemma flit_f64: "is_f64 (flit r)"
  by (simp add: flit_def fround_f64)

section \<open>Overflow\<close>

text \<open>The largest double, and the values that still round to a finite one.\<close>

lemma ilog2_eq:
  assumes "0 < r" "(2::rat) powi k \<le> r" "r < 2 powi (k + 1)"
  shows "ilog2 r = k"
proof -
  have "(2::rat) powi k < 2 powi (ilog2 r + 1)" using assms(2) ilog2_gt [OF assms(1)] by linarith
  moreover have "(2::rat) powi (ilog2 r) < 2 powi (k + 1)" using assms(3) ilog2_le [OF assms(1)] by linarith
  moreover have mono: "a < b" if "(2::rat) powi a < 2 powi b" for a b :: int
    using that power_int_increasing [of b a "2::rat"] by (meson not_less order.trans one_le_numeral)
  ultimately show ?thesis using mono [of k "ilog2 r + 1"] mono [of "ilog2 r" "k + 1"] by linarith
qed

lemma mag64_max:
  assumes "mag64 r"
  shows "r \<le> 2 ^ 1024 - 2 ^ 971"
proof (cases "r < 2 ^ 1023")
  case True
  moreover have "(2::rat) ^ 1023 \<le> 2 ^ 1024 - 2 ^ 971" by simp
  ultimately show ?thesis by linarith
next
  case False
  with assms have r: "0 < r" "(2::rat) powi 1023 \<le> r" "r < 2 powi (1023 + 1)"
    by (auto simp: mag64_def power_int_def)
  have il: "ilog2 r = 1023" by (rule ilog2_eq [OF r])
  define n where "n = round_half_even (r / 2 powi 971)"
  have rn: "r = of_int n * 2 ^ 971"
    using assms r(1) unfolding mag64_def round_mag_def Let_def il n_def
    by (auto simp: power_int_def)
  have "of_int n * 2 ^ 971 < of_int (2 ^ 53) * (2::rat) ^ 971" using rn r(3) by (simp add: power_int_def)
  then have "(of_int n :: rat) < of_int (2 ^ 53)" by (rule mult_right_less_imp_less) simp
  then have "n \<le> 2 ^ 53 - 1" by (simp only: of_int_less_iff)
  then have "(of_int n :: rat) \<le> of_int (2 ^ 53 - 1)" by (simp only: of_int_le_iff)
  then have "of_int n * 2 ^ 971 \<le> (of_int (2 ^ 53 - 1) :: rat) * 2 ^ 971" by (rule mult_right_mono) simp
  also have "\<dots> = 2 ^ 1024 - 2 ^ 971" by simp
  finally show ?thesis by (simp add: rn)
qed

lemma fround_no_overflow:
  assumes "\<bar>r\<bar> < 2 ^ 1024 - 2 ^ 970"
  shows "is_finite (fround s r)"
proof (cases "\<bar>r\<bar> < 2 ^ 1023")
  case True
  show ?thesis
  proof (cases "(2::rat) powi (- 1074) \<le> \<bar>r\<bar>")
    case big: True
    obtain q where "fround s \<bar>r\<bar> = Fin s q" by (rule fround_bounds [OF big True])
    then show ?thesis by (simp add: fround_def Let_def split: if_splits)
  next
    case False
    show ?thesis
    proof (cases "r = 0")
      case True
      then show ?thesis by (simp add: fround_zero)
    next
      case nz: False
      then have pos: "0 < \<bar>r\<bar>" by simp
      have "(2::rat) powi ilog2 \<bar>r\<bar> < 2 powi (- 1074)" using ilog2_le [OF pos] False by linarith
      then have "ilog2 \<bar>r\<bar> < - 1074"
        using power_int_increasing [of "- 1074" "ilog2 \<bar>r\<bar>" "2::rat"] by (meson not_less one_le_numeral)
      then have "max (ilog2 \<bar>r\<bar> - (53 - 1)) (- 1074) = - 1074" by simp
      with round_mag_near [OF pos, of 53 "- 1074"]
      have "round_mag 53 (- 1074) \<bar>r\<bar> \<le> \<bar>r\<bar> + 2 powi (- 1074) / 2" by (simp only:)
      moreover have "(2::rat) powi (- 1074) \<le> 1" by (simp add: power_int_le_one)
      moreover have "(2::rat) < 2 ^ 1024" by simp
      ultimately have "\<not> 2 ^ 1024 \<le> round_mag 53 (- 1074) \<bar>r\<bar>" using False by linarith
      then show ?thesis unfolding fround_def Let_def by (simp only: if_False is_finite.simps)
    qed
  qed
next
  case False
  then have pos: "0 < \<bar>r\<bar>" "(2::rat) powi 1023 \<le> \<bar>r\<bar>" by (auto simp: power_int_def)
  have "(2::rat) ^ 1024 - 2 ^ 970 \<le> 2 powi (1023 + 1)" by (simp add: power_int_def)
  with assms have il: "ilog2 \<bar>r\<bar> = 1023" by (intro ilog2_eq [OF pos]) linarith
  let ?x = "\<bar>r\<bar> / 2 ^ 971"
  have "?x < (2 ^ 1024 - 2 ^ 970) / 2 ^ 971" using assms by (intro divide_strict_right_mono) auto
  also have "(2 ^ 1024 - 2 ^ 970) / (2::rat) ^ 971 = of_int (2 ^ 53) - 1/2" by simp
  finally have x: "?x < of_int (2 ^ 53) - 1/2" .
  have "round_half_even ?x \<le> 2 ^ 53 - 1"
  proof -
    have "(of_int (round_half_even ?x) :: rat) < of_int (2 ^ 53)"
      using x round_half_even_near [of ?x] by linarith
    then show ?thesis by (simp only: of_int_less_iff)
  qed
  then have "(of_int (round_half_even ?x) :: rat) \<le> of_int (2 ^ 53 - 1)" by (simp only: of_int_le_iff)
  then have "of_int (round_half_even ?x) * 2 ^ 971 \<le> of_int (2 ^ 53 - 1) * (2::rat) ^ 971"
    by (rule mult_right_mono) simp
  also have "\<dots> < 2 ^ 1024" by simp
  finally have "round_mag 53 (- 1074) \<bar>r\<bar> < 2 ^ 1024"
    using pos(1) unfolding round_mag_def il by (simp add: power_int_def)
  then show ?thesis unfolding fround_def Let_def by (simp add: not_le)
qed

end
