(* ===== verification/Content.thy ===== *)
theory Content
  imports F64
begin

text \<open>
  The content model of \<^verbatim>\<open>lucida-content\<close> and \<^verbatim>\<open>lucida-protocol\<close>: entities, layouts, images and
  their pyramids, labels, the dataset manifest and the asset catalog. The id newtypes are
  strings. Fixed-size arrays are tuples, except the 4x4 matrices, which are lists of
  length 16; \<open>arr5\<close> is a \<open>[T, C, Z, Y, X]\<close> array. Counts and indices are naturals and a cast
  to \<^verbatim>\<open>u32\<close> truncates.
\<close>

type_synonym dataset_id = string
type_synonym entity_id = string
type_synonym image_id = string
type_synonym layout_id = string

type_synonym vec2 = "f64 \<times> f64"
type_synonym vec3 = "f64 \<times> f64 \<times> f64"
type_synonym mat4 = "f64 list"

datatype 'a arr5 = Arr5 (at_t: 'a) (at_c: 'a) (at_z: 'a) (at_y: 'a) (at_x: 'a)

definition as_u32 :: "nat \<Rightarrow> nat" where
  "as_u32 n = n mod 2 ^ 32"

section \<open>Entities, layouts and transforms\<close>

datatype entity_kind = EImage | EGroup | ETile

record entity_labels =
  el_name :: "string option"
  el_group_row :: "string option"
  el_group_column :: "string option"
  el_row_index :: "nat option"
  el_column_index :: "nat option"
  el_tile_index :: "nat option"

record entity =
  ent_id :: entity_id
  ent_kind :: entity_kind
  ent_parent :: "entity_id option"
  ent_labels :: entity_labels

datatype positioning_mode = Explicit | Derived

datatype dataset_kind =
    Single
  | Collection (dk_rows: "string list") (dk_columns: "string list") positioning_mode
      (dk_explicit: bool)

record entity_placement =
  pl_entity :: entity_id
  pl_position :: vec2

record layout_spec =
  lay_id :: layout_id
  lay_name :: string
  lay_placements :: "entity_placement list"

record transform_edge =
  te_from :: entity_id
  te_to :: entity_id
  te_matrix :: mat4

definition matrix_identity :: mat4 where
  "matrix_identity = [1, 0, 0, 0, 0, 1, 0, 0, 0, 0, 1, 0, 0, 0, 0, 1]"

definition translation_2d :: "f64 \<Rightarrow> f64 \<Rightarrow> mat4" where
  "translation_2d tx ty = [1, 0, 0, 0, 0, 1, 0, 0, 0, 0, 1, 0, tx, ty, 0, 1]"

definition as_voxel_translation_2d :: "mat4 \<Rightarrow> vec2 option" where
  "as_voxel_translation_2d m =
     (if list_all2 feq m (translation_2d (m ! 12) (m ! 13)) then Some (m ! 12, m ! 13) else None)"

section \<open>Images\<close>

datatype axis_kind = ATime | AChannel | ASpace

record axis =
  ax_name :: string
  ax_kind :: axis_kind

record pinned_axis =
  pa_name :: string
  pa_size :: nat
  pa_pinned_index :: nat

datatype data_type = Uint8 | Uint16 | Uint32 | Float32 | Float64

record level_geometry =
  lv_index :: nat
  lv_shape :: "nat arr5"
  lv_chunk_shape :: "nat arr5"
  lv_grid_shape :: "nat arr5"
  lv_scale :: "f64 arr5"

record generated_level_info =
  gl_level_index :: nat
  gl_generator :: string
  gl_config_id :: string
  gl_source_content_id :: "string option"

record channel_info =
  ci_label :: string
  ci_color :: "string option"

record multiscale_info =
  ms_axes :: "axis list"
  ms_levels :: "level_geometry list"
  ms_coarse_level_index :: "nat option"
  ms_generated_levels :: "generated_level_info list"
  ms_data_type :: data_type
  ms_pinned_axes :: "pinned_axis list"
  ms_channel_infos :: "channel_info list"
  ms_downsampling_method :: "string option"

record image_spec =
  im_id :: image_id
  im_owner :: entity_id
  im_multiscale :: multiscale_info

definition is_generated_level :: "multiscale_info \<Rightarrow> nat \<Rightarrow> bool" where
  "is_generated_level m i \<longleftrightarrow> list_ex (\<lambda>g. gl_level_index g = i) (ms_generated_levels m)"

definition selectable_detail_levels :: "multiscale_info \<Rightarrow> nat list" where
  "selectable_detail_levels m = filter (\<lambda>i. \<not> is_generated_level m i) (map lv_index (ms_levels m))"

text \<open>\<^verbatim>\<open>Iterator::max\<close> and \<^verbatim>\<open>first\<close>.\<close>

definition list_max :: "nat list \<Rightarrow> nat option" where
  "list_max xs = (if xs = [] then None else Some (Max (set xs)))"

definition first_of :: "'a list \<Rightarrow> 'a option" where
  "first_of xs = (case xs of [] \<Rightarrow> None | x # _ \<Rightarrow> Some x)"

definition clamp_to_source_levels :: "multiscale_info \<Rightarrow> nat \<Rightarrow> nat option" where
  "clamp_to_source_levels m requested =
     (let levels = selectable_detail_levels m
      in if requested \<in> set levels then Some requested
         else case list_max (filter (\<lambda>l. l \<le> requested) levels) of
                Some l \<Rightarrow> Some l
              | None \<Rightarrow> first_of levels)"

section \<open>Labels\<close>

record label_color =
  lc_value :: int
  lc_rgba :: "u8 \<times> u8 \<times> u8 \<times> u8"

record label_spec =
  ls_name :: string
  ls_source_image_id :: image_id
  ls_image :: image_spec
  ls_colors :: "label_color list"
  ls_source_declared :: bool

record label_attachment =
  la_name :: string
  la_source_image_id :: image_id
  la_source_entity_id :: entity_id
  la_label_image_id :: image_id
  la_data_type :: data_type
  la_axis_names :: "string list"
  la_level0_scale :: "f64 arr5"
  la_colors :: "label_color list"
  la_source_declared :: bool

definition label_from_spec :: "label_spec \<Rightarrow> label_attachment" where
  "label_from_spec spec =
     \<lparr>la_name = ls_name spec, la_source_image_id = ls_source_image_id spec,
      la_source_entity_id = im_owner (ls_image spec), la_label_image_id = im_id (ls_image spec),
      la_data_type = ms_data_type (im_multiscale (ls_image spec)),
      la_axis_names = map ax_name (ms_axes (im_multiscale (ls_image spec))),
      la_level0_scale = (case first_of (ms_levels (im_multiscale (ls_image spec))) of
                           Some l \<Rightarrow> lv_scale l | None \<Rightarrow> Arr5 1 1 1 1 1),
      la_colors = ls_colors spec, la_source_declared = ls_source_declared spec\<rparr>"

section \<open>The manifest\<close>

record dataset_manifest =
  mf_dataset_id :: dataset_id
  mf_name :: string
  mf_kind :: dataset_kind
  mf_entities :: "entity list"
  mf_transforms :: "transform_edge list"
  mf_images :: "image_spec list"
  mf_source_layouts :: "layout_spec list"
  mf_default_layout_id :: "layout_id option"
  mf_labels :: "label_spec list"

definition manifest_new :: "dataset_id \<Rightarrow> string \<Rightarrow> dataset_kind \<Rightarrow> entity list \<Rightarrow> transform_edge list \<Rightarrow>
    image_spec list \<Rightarrow> layout_spec list \<Rightarrow> layout_id option \<Rightarrow> dataset_manifest" where
  "manifest_new i n k es ts ims ls d =
     \<lparr>mf_dataset_id = i, mf_name = n, mf_kind = k, mf_entities = es, mf_transforms = ts,
      mf_images = ims, mf_source_layouts = ls, mf_default_layout_id = d, mf_labels = []\<rparr>"

definition manifest_labels :: "dataset_manifest \<Rightarrow> label_attachment list" where
  "manifest_labels m = map label_from_spec (mf_labels m)"

section \<open>The asset catalog\<close>

datatype proxy_kind = GroupProxy3D | TileProxy3D

record proxy_footprint =
  pf_kind :: proxy_kind
  pf_dims :: "nat \<times> nat \<times> nat"
  pf_bytes :: nat

record proxy_availability =
  av_entity_id :: entity_id
  av_kinds :: "proxy_kind list"
  av_footprints :: "proxy_footprint list"

type_synonym asset_catalog = "proxy_availability list"
type_synonym asset_catalog_delta = "proxy_availability list"

text \<open>\<^verbatim>\<open>ProxyFootprint::u16\<close>: two bytes a voxel, saturating at the largest \<^verbatim>\<open>u64\<close>.\<close>

definition saturating_mul64 :: "nat \<Rightarrow> nat \<Rightarrow> nat" where
  "saturating_mul64 a b = min (a * b) (2 ^ 64 - 1)"

definition footprint_u16 :: "proxy_kind \<Rightarrow> nat \<times> nat \<times> nat \<Rightarrow> proxy_footprint" where
  "footprint_u16 k dims =
     \<lparr>pf_kind = k, pf_dims = dims,
      pf_bytes = (case dims of (z, y, x) \<Rightarrow>
        saturating_mul64 (saturating_mul64 (saturating_mul64 2 z) y) x)\<rparr>"

section \<open>Finding positions\<close>

text \<open>\<^verbatim>\<open>iter().find(..)\<close> is \<open>find\<close> of the library.\<close>

definition find_placement :: "layout_spec \<Rightarrow> entity_id \<Rightarrow> vec2 option" where
  "find_placement l e = map_option pl_position (find (\<lambda>p. pl_entity p = e) (lay_placements l))"

definition edge_offset :: "transform_edge \<Rightarrow> vec2" where
  "edge_offset t = (te_matrix t ! 12, te_matrix t ! 13)"

definition vadd2 :: "vec2 \<Rightarrow> vec2 \<Rightarrow> vec2" where
  "vadd2 a b = (fst a + fst b, snd a + snd b)"

definition vsub2 :: "vec2 \<Rightarrow> vec2 \<Rightarrow> vec2" where
  "vsub2 a b = (fst a - fst b, snd a - snd b)"

definition resolve_entity_position :: "entity_id \<Rightarrow> layout_spec \<Rightarrow> entity list \<Rightarrow> transform_edge list \<Rightarrow>
    vec2 option" where
  "resolve_entity_position e l entities transforms =
     (case find_placement l e of
        Some p \<Rightarrow> Some p
      | None \<Rightarrow>
          (case find (\<lambda>x. ent_id x = e) entities of
             None \<Rightarrow> None
           | Some ent \<Rightarrow>
               (case ent_parent ent of
                  None \<Rightarrow> None
                | Some parent \<Rightarrow>
                    (case find_placement l parent of
                       None \<Rightarrow> None
                     | Some pos \<Rightarrow>
                         let off = (case find (\<lambda>t. te_from t = e \<and> te_to t = parent) transforms of
                                      Some t \<Rightarrow> edge_offset t | None \<Rightarrow> (0, 0))
                         in Some (vadd2 pos off)))))"

text \<open>
  \<^verbatim>\<open>LayoutPositionIndex\<close>: the same lookup through hash maps, each filled with
  \<^verbatim>\<open>entry(..).or_insert(..)\<close> so that the first entry of a key wins.
\<close>

record position_index =
  placement_by_entity :: "entity_id \<rightharpoonup> vec2"
  parent_by_entity :: "entity_id \<rightharpoonup> entity_id option"
  offset_by_edge :: "entity_id \<rightharpoonup> (entity_id \<rightharpoonup> vec2)"

definition or_insert :: "'k \<Rightarrow> 'v \<Rightarrow> ('k \<rightharpoonup> 'v) \<Rightarrow> ('k \<rightharpoonup> 'v)" where
  "or_insert k v m = (case m k of None \<Rightarrow> m(k \<mapsto> v) | Some _ \<Rightarrow> m)"

definition insert_edge :: "transform_edge \<Rightarrow> (entity_id \<rightharpoonup> (entity_id \<rightharpoonup> vec2)) \<Rightarrow>
    (entity_id \<rightharpoonup> (entity_id \<rightharpoonup> vec2))" where
  "insert_edge t m =
     (let row = (case m (te_from t) of None \<Rightarrow> Map.empty | Some r \<Rightarrow> r)
      in m(te_from t \<mapsto> or_insert (te_to t) (edge_offset t) row))"

definition position_index_new :: "layout_spec \<Rightarrow> entity list \<Rightarrow> transform_edge list \<Rightarrow> position_index" where
  "position_index_new l entities transforms =
     \<lparr>placement_by_entity = fold (\<lambda>p. or_insert (pl_entity p) (pl_position p)) (lay_placements l) Map.empty,
      parent_by_entity = fold (\<lambda>e. or_insert (ent_id e) (ent_parent e)) entities Map.empty,
      offset_by_edge = fold insert_edge transforms Map.empty\<rparr>"

definition index_resolve :: "position_index \<Rightarrow> entity_id \<Rightarrow> vec2 option" where
  "index_resolve ix e =
     (case placement_by_entity ix e of
        Some p \<Rightarrow> Some p
      | None \<Rightarrow>
          (case parent_by_entity ix e of
             None \<Rightarrow> None
           | Some None \<Rightarrow> None
           | Some (Some parent) \<Rightarrow>
               (case placement_by_entity ix parent of
                  None \<Rightarrow> None
                | Some pos \<Rightarrow>
                    let off = (case offset_by_edge ix e of
                                 None \<Rightarrow> (0, 0)
                               | Some row \<Rightarrow> (case row parent of None \<Rightarrow> (0, 0) | Some o1 \<Rightarrow> o1))
                    in Some (vadd2 pos off))))"

section \<open>Layouts\<close>

definition empty_layout :: layout_spec where
  "empty_layout = \<lparr>lay_id = ''default'', lay_name = ''Default'', lay_placements = []\<rparr>"

definition find_layout :: "layout_id \<Rightarrow> layout_spec list \<Rightarrow> layout_spec option" where
  "find_layout i ls = find (\<lambda>l. lay_id l = i) ls"

definition default_layout :: "dataset_manifest \<Rightarrow> layout_spec" where
  "default_layout m =
     (case Option.bind (mf_default_layout_id m) (\<lambda>i. find_layout i (mf_source_layouts m)) of
        Some l \<Rightarrow> l
      | None \<Rightarrow> (case first_of (mf_source_layouts m) of Some l \<Rightarrow> l | None \<Rightarrow> empty_layout))"

definition resolve_layout :: "dataset_manifest \<Rightarrow> layout_spec list option \<Rightarrow> layout_id option \<Rightarrow> layout_spec" where
  "resolve_layout m registered active =
     (case active of
        None \<Rightarrow> default_layout m
      | Some i \<Rightarrow>
          (case find_layout i (mf_source_layouts m) of
             Some l \<Rightarrow> l
           | None \<Rightarrow>
               (case Option.bind registered (find_layout i) of
                  Some l \<Rightarrow> l
                | None \<Rightarrow> default_layout m)))"

section \<open>The index agrees with the scan\<close>

lemma fold_or_insert:
  "fold (\<lambda>x. or_insert (k x) (v x)) xs m a =
     (case m a of Some y \<Rightarrow> Some y | None \<Rightarrow> map_option v (find (\<lambda>x. k x = a) xs))"
  by (induction xs arbitrary: m) (auto simp: or_insert_def split: option.splits)

lemma fold_insert_edge:
  "Option.bind (fold insert_edge ts m a) (\<lambda>row. row b) =
     (case Option.bind (m a) (\<lambda>row. row b) of Some y \<Rightarrow> Some y
      | None \<Rightarrow> map_option edge_offset (find (\<lambda>t. te_from t = a \<and> te_to t = b) ts))"
proof (induction ts arbitrary: m)
  case Nil
  then show ?case by (simp split: option.splits)
next
  case (Cons t ts)
  have "Option.bind (insert_edge t m a) (\<lambda>row. row b) =
      (case Option.bind (m a) (\<lambda>row. row b) of Some y \<Rightarrow> Some y
       | None \<Rightarrow> if te_from t = a \<and> te_to t = b then Some (edge_offset t) else None)"
    by (auto simp: insert_edge_def or_insert_def Let_def split: option.splits)
  then show ?case using Cons.IH [of "insert_edge t m"] by (auto split: option.splits if_splits)
qed

text \<open>The hash-indexed bulk resolver places every entity exactly where the single-lookup scan
  does, first match for first match, including \<^verbatim>\<open>None\<close> for what cannot be placed.\<close>
theorem index_resolve_eq_scan:
  "index_resolve (position_index_new l entities transforms) e =
     resolve_entity_position e l entities transforms"
proof -
  let ?ix = "position_index_new l entities transforms"
  have pl: "placement_by_entity ?ix a = find_placement l a" for a
    by (simp add: position_index_new_def fold_or_insert find_placement_def)
  have par: "parent_by_entity ?ix a = map_option ent_parent (find (\<lambda>x. ent_id x = a) entities)" for a
    by (simp add: position_index_new_def fold_or_insert)
  have off: "(case offset_by_edge ?ix a of None \<Rightarrow> (0, 0)
        | Some row \<Rightarrow> (case row b of None \<Rightarrow> (0, 0) | Some o1 \<Rightarrow> o1)) =
      (case find (\<lambda>t. te_from t = a \<and> te_to t = b) transforms of
        Some t \<Rightarrow> edge_offset t | None \<Rightarrow> (0, 0))" for a b
    using fold_insert_edge [of transforms Map.empty a b]
    by (auto simp: position_index_new_def split: option.splits)
  show ?thesis
    unfolding index_resolve_def resolve_entity_position_def pl par off
    by (auto split: option.splits)
qed

section \<open>The level clamp\<close>

lemma list_max_Some: "list_max xs = Some m \<longleftrightarrow> m \<in> set xs \<and> (\<forall>x \<in> set xs. x \<le> m)"
  unfolding list_max_def by (auto intro: Max_in Max_ge Max_eqI)

text \<open>The clamp of a level request: it fails only when nothing is selectable, it never returns a
  generated level, it is the identity on a selectable level, and otherwise it is the
  coarsest selectable level below the request or, if there is none, the first one.\<close>
theorem clamp_to_source_levels_spec:
  "(clamp_to_source_levels m r = None \<longleftrightarrow> selectable_detail_levels m = [])
   \<and> (\<forall>l. clamp_to_source_levels m r = Some l \<longrightarrow>
        l \<in> set (map lv_index (ms_levels m)) \<and> \<not> is_generated_level m l
        \<and> (r \<in> set (selectable_detail_levels m) \<longrightarrow> l = r)
        \<and> (\<forall>k \<in> set (selectable_detail_levels m). k \<le> r \<longrightarrow> k \<le> l \<and> l \<le> r)
        \<and> clamp_to_source_levels m l = Some l)"
proof -
  let ?ls = "selectable_detail_levels m"
  have mem: "l \<in> set ?ls \<Longrightarrow> l \<in> set (map lv_index (ms_levels m)) \<and> \<not> is_generated_level m l" for l
    by (auto simp: selectable_detail_levels_def)
  have fixed: "l \<in> set ?ls \<Longrightarrow> clamp_to_source_levels m l = Some l" for l
    by (simp add: clamp_to_source_levels_def)
  have none: "clamp_to_source_levels m r = None \<longleftrightarrow> ?ls = []"
    by (auto simp: clamp_to_source_levels_def Let_def list_max_def first_of_def split: option.splits list.splits if_splits)
  have some: "l \<in> set ?ls \<and> (r \<in> set ?ls \<longrightarrow> l = r) \<and> (\<forall>k \<in> set ?ls. k \<le> r \<longrightarrow> k \<le> l \<and> l \<le> r)"
    if l: "clamp_to_source_levels m r = Some l" for l
  proof (cases "r \<in> set ?ls")
    case True
    with l show ?thesis by (simp add: clamp_to_source_levels_def)
  next
    case False
    show ?thesis
    proof (cases "list_max (filter (\<lambda>l. l \<le> r) ?ls)")
      case None
      then have "\<forall>k \<in> set ?ls. \<not> k \<le> r"
        by (auto simp: list_max_def filter_empty_conv split: if_splits)
      moreover from False None l have "first_of ?ls = Some l" by (simp add: clamp_to_source_levels_def)
      then have "l \<in> set ?ls" by (auto simp: first_of_def split: list.splits)
      ultimately show ?thesis using False by blast
    next
      case (Some k)
      with False l have "k = l" by (simp add: clamp_to_source_levels_def)
      with Some show ?thesis using False by (auto simp: list_max_Some)
    qed
  qed
  show ?thesis using none some mem fixed by blast
qed

definition sample_level :: "nat \<Rightarrow> level_geometry" where
  "sample_level i = \<lparr>lv_index = i, lv_shape = Arr5 1 1 1 8 8, lv_chunk_shape = Arr5 1 1 1 8 8,
     lv_grid_shape = Arr5 1 1 1 1 1, lv_scale = Arr5 1 1 1 1 1\<rparr>"

definition sample_pyramid :: multiscale_info where
  "sample_pyramid = \<lparr>ms_axes = [], ms_levels = map sample_level [0, 1, 2], ms_coarse_level_index = Some 2,
     ms_generated_levels = [\<lparr>gl_level_index = 2, gl_generator = ''box'', gl_config_id = ''c'',
       gl_source_content_id = None\<rparr>],
     ms_data_type = Uint16, ms_pinned_axes = [], ms_channel_infos = [], ms_downsampling_method = None\<rparr>"

theorem clamp_to_source_levels_spec_witness:
  "clamp_to_source_levels sample_pyramid 2 = Some 1 \<and> \<not> is_generated_level sample_pyramid 1"
proof -
  have c: "clamp_to_source_levels sample_pyramid 2 = Some 1"
    by (simp add: clamp_to_source_levels_def selectable_detail_levels_def is_generated_level_def list_max_def
        sample_pyramid_def sample_level_def)
  with clamp_to_source_levels_spec [of sample_pyramid 2] show ?thesis by blast
qed

end
