(* ===== verification/Camera.thy ===== *)
theory Camera
  imports Content
begin

text \<open>
  The camera of \<^verbatim>\<open>lucida-core/src/camera.rs\<close>: the three modes, their mutators, the conversions
  between the volume modes, and the repair of an imported camera (\<^verbatim>\<open>sanitize\<close>). Vector and
  quaternion helpers of \<^verbatim>\<open>mat4.rs\<close> come first. Framing, projection and frustum code is not here.
\<close>

section \<open>Vectors and quaternions\<close>

type_synonym quat = "f64 \<times> f64 \<times> f64 \<times> f64"

definition map3 :: "(f64 \<Rightarrow> f64) \<Rightarrow> vec3 \<Rightarrow> vec3" where
  "map3 f v = (case v of (x, y, z) \<Rightarrow> (f x, f y, f z))"

definition vsub3 :: "vec3 \<Rightarrow> vec3 \<Rightarrow> vec3" where
  "vsub3 a b = (case (a, b) of ((ax, ay, az), (bx, by, bz)) \<Rightarrow> (ax - bx, ay - by, az - bz))"

definition normalize3 :: "vec3 \<Rightarrow> vec3" where
  "normalize3 v = (case v of (x, y, z) \<Rightarrow>
     let len = fsqrt (x * x + y * y + z * z)
     in if \<not> is_finite len \<or> len < flit (1 / 10 ^ 12) then (0, 0, 0) else (x / len, y / len, z / len))"

definition cross3 :: "vec3 \<Rightarrow> vec3 \<Rightarrow> vec3" where
  "cross3 a b = (case (a, b) of ((ax, ay, az), (bx, by, bz)) \<Rightarrow>
     (ay * bz - az * by, az * bx - ax * bz, ax * by - ay * bx))"

definition quat_multiply :: "quat \<Rightarrow> quat \<Rightarrow> quat" where
  "quat_multiply a b = (case (a, b) of ((ax, ay, az, aw), (bx, by, bz, bw)) \<Rightarrow>
     (aw * bx + ax * bw + ay * bz - az * by,
      aw * by - ax * bz + ay * bw + az * bx,
      aw * bz + ax * by - ay * bx + az * bw,
      aw * bw - ax * bx - ay * by - az * bz))"

definition quat_from_axis_angle :: "libm \<Rightarrow> vec3 \<Rightarrow> f64 \<Rightarrow> quat" where
  "quat_from_axis_angle lm axis angle = (case axis of (x, y, z) \<Rightarrow>
     let half = angle / flit 2; s = fm_sin lm half in (x * s, y * s, z * s, fm_cos lm half))"

definition quat_normalize :: "quat \<Rightarrow> quat" where
  "quat_normalize q = (case q of (x, y, z, w) \<Rightarrow>
     let len = fsqrt (x * x + y * y + z * z + w * w)
     in if \<not> is_finite len \<or> len < flit (1 / 10 ^ 12) then (0, 0, 0, 1)
        else (x / len, y / len, z / len, w / len))"

definition quat_rotate_vector :: "quat \<Rightarrow> vec3 \<Rightarrow> vec3" where
  "quat_rotate_vector q v = (case (q, v) of ((qx, qy, qz, qw), (vx, vy, vz)) \<Rightarrow>
     let cx = qy * vz - qz * vy; cy = qz * vx - qx * vz; cz = qx * vy - qy * vx
     in (vx + flit 2 * (qw * cx + qy * cz - qz * cy),
         vy + flit 2 * (qw * cy + qz * cx - qx * cz),
         vz + flit 2 * (qw * cz + qx * cy - qy * cx)))"

definition rotation_matrix_to_quat :: "vec3 \<Rightarrow> vec3 \<Rightarrow> vec3 \<Rightarrow> quat" where
  "rotation_matrix_to_quat r0 r1 r2 =
     (case (r0, r1, r2) of ((m00, m01, m02), (m10, m11, m12), (m20, m21, m22)) \<Rightarrow>
        if 0 < m00 + m11 + m22 then
          let s = flit (1/2) / fsqrt (m00 + m11 + m22 + 1)
          in ((m21 - m12) * s, (m02 - m20) * s, (m10 - m01) * s, flit (1/4) / s)
        else if m11 < m00 \<and> m22 < m00 then
          let s = flit 2 * fsqrt (1 + m00 - m11 - m22)
          in (flit (1/4) * s, (m01 + m10) / s, (m02 + m20) / s, (m21 - m12) / s)
        else if m22 < m11 then
          let s = flit 2 * fsqrt (1 + m11 - m00 - m22)
          in ((m01 + m10) / s, flit (1/4) * s, (m12 + m21) / s, (m02 - m20) / s)
        else
          let s = flit 2 * fsqrt (1 + m22 - m00 - m11)
          in ((m02 + m20) / s, (m12 + m21) / s, flit (1/4) * s, (m10 - m01) / s))"

section \<open>The three cameras\<close>

datatype clip_mode = Plane | Sphere

record slice =
  sl_center :: vec2
  sl_zoom :: f64
  sl_viewport :: "nat \<times> nat"

record arcball =
  ab_target :: vec3
  ab_theta :: f64
  ab_phi :: f64
  ab_distance :: f64
  ab_fov :: f64
  ab_viewport :: "nat \<times> nat"
  ab_near :: f64
  ab_far :: f64
  ab_clip_distance :: f64
  ab_clip_mode :: clip_mode

record fly =
  fy_position :: vec3
  fy_orientation :: quat
  fy_fov :: f64
  fy_viewport :: "nat \<times> nat"
  fy_near :: f64
  fy_far :: f64
  fy_speed_multiplier :: f64
  fy_base_speed :: f64
  fy_clip_distance :: f64
  fy_clip_mode :: clip_mode

datatype camera = Slice slice | Arcball arcball | Fly fly

definition SLICE_ZOOM_MIN :: f64 where "SLICE_ZOOM_MIN = flit (1 / 10 ^ 9)"
definition SLICE_ZOOM_MAX :: f64 where "SLICE_ZOOM_MAX = flit (10 ^ 9)"
definition ARCBALL_DISTANCE_MAX :: f64 where "ARCBALL_DISTANCE_MAX = flit (10 ^ 9)"
definition NEAR_PER_FAR :: f64 where "NEAR_PER_FAR = flit (1 / 10 ^ 4)"
definition CAMERA_POSITION_MAX :: f64 where "CAMERA_POSITION_MAX = flit (10 ^ 12)"
definition CLIP_DISTANCE_MAX :: f64 where "CLIP_DISTANCE_MAX = flit (10 ^ 9)"
definition FLY_BASE_SPEED_MIN :: f64 where "FLY_BASE_SPEED_MIN = flit (1 / 10 ^ 9)"
definition FLY_BASE_SPEED_MAX :: f64 where "FLY_BASE_SPEED_MAX = flit (10 ^ 9)"
definition FLY_SPEED_MULTIPLIER_MIN :: f64 where "FLY_SPEED_MULTIPLIER_MIN = flit (1 / 100)"
definition FLY_SPEED_MULTIPLIER_MAX :: f64 where "FLY_SPEED_MULTIPLIER_MAX = flit 100"
definition ANGLE_WRAP_LIMIT :: f64 where "ANGLE_WRAP_LIMIT = flit (10 ^ 6)"

text \<open>\<^verbatim>\<open>std::f64::consts\<close>.\<close>

definition PI :: f64 where "PI = flit (314159265358979323846264338327950288 / 10 ^ 35)"
definition TAU :: f64 where "TAU = flit (628318530717958647692528676655900577 / 10 ^ 35)"
definition FRAC_PI_4 :: f64 where "FRAC_PI_4 = flit (785398163397448309615660845819875721 / 10 ^ 36)"

definition slice_new :: "nat \<times> nat \<Rightarrow> slice" where
  "slice_new vp = \<lparr>sl_center = (0, 0), sl_zoom = 1, sl_viewport = vp\<rparr>"

definition arcball_new :: "nat \<times> nat \<Rightarrow> arcball" where
  "arcball_new vp = \<lparr>ab_target = (flit (1/2), flit (1/2), flit (1/2)), ab_theta = flit (1/2),
     ab_phi = flit (8/10), ab_distance = flit (18/10), ab_fov = FRAC_PI_4, ab_viewport = vp,
     ab_near = flit (1/100), ab_far = flit 100, ab_clip_distance = 0, ab_clip_mode = Plane\<rparr>"

definition fly_new :: "nat \<times> nat \<Rightarrow> fly" where
  "fly_new vp = \<lparr>fy_position = (flit (1/2), flit (1/2), flit (1/2)), fy_orientation = (0, 0, 0, 1),
     fy_fov = FRAC_PI_4, fy_viewport = vp, fy_near = flit (1/100), fy_far = flit 100,
     fy_speed_multiplier = 1, fy_base_speed = 1, fy_clip_distance = 0, fy_clip_mode = Plane\<rparr>"

fun camera_viewport :: "camera \<Rightarrow> nat \<times> nat" where
  "camera_viewport (Slice v) = sl_viewport v"
| "camera_viewport (Arcball v) = ab_viewport v"
| "camera_viewport (Fly v) = fy_viewport v"

fun camera_set_viewport :: "nat \<times> nat \<Rightarrow> camera \<Rightarrow> camera" where
  "camera_set_viewport vp (Slice v) = Slice (v\<lparr>sl_viewport := vp\<rparr>)"
| "camera_set_viewport vp (Arcball v) = Arcball (v\<lparr>ab_viewport := vp\<rparr>)"
| "camera_set_viewport vp (Fly v) = Fly (v\<lparr>fy_viewport := vp\<rparr>)"

section \<open>Mutators\<close>

definition wrap_angle :: "f64 \<Rightarrow> f64" where
  "wrap_angle v = (if fabs v \<le> ANGLE_WRAP_LIMIT then v else frem v TAU)"

definition step_position :: "f64 \<Rightarrow> f64 \<Rightarrow> f64" where
  "step_position current step =
     (let next = current + step
      in if is_finite next then fclamp (- CAMERA_POSITION_MAX) CAMERA_POSITION_MAX next
         else if feq next (Inf False) then CAMERA_POSITION_MAX
         else if feq next (Inf True) then - CAMERA_POSITION_MAX
         else current)"

definition clamp_position :: "f64 \<Rightarrow> f64" where
  "clamp_position = fclamp (- CAMERA_POSITION_MAX) CAMERA_POSITION_MAX"

definition slice_pan :: "f64 \<Rightarrow> f64 \<Rightarrow> slice \<Rightarrow> slice" where
  "slice_pan dx dy v = v\<lparr>sl_center := (step_position (fst (sl_center v)) (dx / sl_zoom v),
                                       step_position (snd (sl_center v)) (dy / sl_zoom v))\<rparr>"

definition slice_zoom_by :: "f64 \<Rightarrow> slice \<Rightarrow> slice" where
  "slice_zoom_by factor v = v\<lparr>sl_zoom := fclamp SLICE_ZOOM_MIN SLICE_ZOOM_MAX (sl_zoom v * factor)\<rparr>"

definition slice_set_zoom :: "f64 \<Rightarrow> slice \<Rightarrow> slice" where
  "slice_set_zoom x v = v\<lparr>sl_zoom := fclamp SLICE_ZOOM_MIN SLICE_ZOOM_MAX x\<rparr>"

definition slice_set_center :: "f64 \<Rightarrow> f64 \<Rightarrow> slice \<Rightarrow> slice" where
  "slice_set_center x y v = v\<lparr>sl_center := (clamp_position x, clamp_position y)\<rparr>"

definition slice_world_bounds :: "slice \<Rightarrow> f64 \<times> f64 \<times> f64 \<times> f64" where
  "slice_world_bounds v =
     (let half_w = u32_f64 (fst (sl_viewport v)) / (flit 2 * sl_zoom v);
          half_h = u32_f64 (snd (sl_viewport v)) / (flit 2 * sl_zoom v)
      in (fst (sl_center v) - half_w, snd (sl_center v) - half_h,
          fst (sl_center v) + half_w, snd (sl_center v) + half_h))"

definition arcball_rotate :: "f64 \<Rightarrow> f64 \<Rightarrow> arcball \<Rightarrow> arcball" where
  "arcball_rotate d_theta d_phi v =
     v\<lparr>ab_theta := wrap_angle (ab_theta v + d_theta), ab_phi := wrap_angle (ab_phi v + d_phi)\<rparr>"

definition arcball_zoom :: "f64 \<Rightarrow> arcball \<Rightarrow> arcball" where
  "arcball_zoom delta v =
     (let next = ab_distance v * (1 + delta);
          near' = (if next < ab_distance v
                   then fmax (ab_near v - (ab_distance v - next)) (fmin (ab_far v * NEAR_PER_FAR) (ab_near v))
                   else ab_near v)
      in v\<lparr>ab_near := near', ab_distance := fmin (fmax next near') ARCBALL_DISTANCE_MAX\<rparr>)"

definition arcball_eye_position :: "libm \<Rightarrow> arcball \<Rightarrow> vec3" where
  "arcball_eye_position lm v = (case ab_target v of (tx, ty, tz) \<Rightarrow>
     let sin_phi = fm_sin lm (ab_phi v)
     in (tx + ab_distance v * sin_phi * fm_sin lm (ab_theta v),
         ty + ab_distance v * fm_cos lm (ab_phi v),
         tz + ab_distance v * sin_phi * fm_cos lm (ab_theta v)))"

definition arcball_up_vector :: "libm \<Rightarrow> arcball \<Rightarrow> vec3" where
  "arcball_up_vector lm v =
     (- fm_cos lm (ab_phi v) * fm_sin lm (ab_theta v), fm_sin lm (ab_phi v),
      - fm_cos lm (ab_phi v) * fm_cos lm (ab_theta v))"

definition arcball_pan :: "libm \<Rightarrow> f64 \<Rightarrow> f64 \<Rightarrow> arcball \<Rightarrow> arcball" where
  "arcball_pan lm dx dy v =
     (let eye = arcball_eye_position lm v;
          forward = normalize3 (vsub3 (ab_target v) eye);
          right = normalize3 (cross3 forward (arcball_up_vector lm v));
          up = cross3 right forward;
          scale = ab_distance v * flit (2 / 1000);
          step = (\<lambda>t r u. step_position t ((r * (- dx) + u * dy) * scale))
      in case (ab_target v, right, up) of ((t0, t1, t2), (r0, r1, r2), (u0, u1, u2)) \<Rightarrow>
           v\<lparr>ab_target := (step t0 r0 u0, step t1 r1 u1, step t2 r2 u2)\<rparr>)"

definition fly_forward_vector :: "fly \<Rightarrow> vec3" where
  "fly_forward_vector v = quat_rotate_vector (fy_orientation v) (0, 0, - 1)"

definition fly_tick :: "libm \<Rightarrow> f64 \<Rightarrow> f64 \<Rightarrow> f64 \<Rightarrow> f64 \<Rightarrow> f64 \<Rightarrow> f64 \<Rightarrow> f64 \<Rightarrow> fly \<Rightarrow> fly" where
  "fly_tick lm dt0 forward0 right0 up0 yaw pitch roll v =
     (let dt = fclamp 0 (flit (1/10)) dt0;
          tiny = flit (1 / 10 ^ 12);
          v1 = (if tiny < fabs yaw \<or> tiny < fabs pitch \<or> tiny < fabs roll
                then let q_yaw = quat_from_axis_angle lm (0, 1, 0) (yaw * dt);
                         q_pitch = quat_from_axis_angle lm (1, 0, 0) (pitch * dt);
                         q_roll = quat_from_axis_angle lm (0, 0, - 1) (roll * dt);
                         local_rot = quat_multiply (quat_multiply q_yaw q_pitch) q_roll
                     in v\<lparr>fy_orientation := quat_normalize (quat_multiply (fy_orientation v) local_rot)\<rparr>
                else v);
          forward = fclamp (- 1) 1 forward0; right = fclamp (- 1) 1 right0; up = fclamp (- 1) 1 up0
      in if tiny < fabs forward \<or> tiny < fabs right \<or> tiny < fabs up
         then let speed = fy_base_speed v1 * fy_speed_multiplier v1 * dt;
                  step = (\<lambda>p f r u. step_position p ((f * forward + r * right + u * up) * speed))
              in case (fy_position v1, quat_rotate_vector (fy_orientation v1) (0, 0, - 1),
                       quat_rotate_vector (fy_orientation v1) (1, 0, 0),
                       quat_rotate_vector (fy_orientation v1) (0, 1, 0)) of
                   ((p0, p1, p2), (f0, f1, f2), (r0, r1, r2), (u0, u1, u2)) \<Rightarrow>
                     v1\<lparr>fy_position := (step p0 f0 r0 u0, step p1 f1 r1 u1, step p2 f2 r2 u2)\<rparr>
         else v1)"

definition to_arcball :: "libm \<Rightarrow> fly \<Rightarrow> arcball" where
  "to_arcball lm v =
     (case (fly_forward_vector v, fy_position v) of ((f0, f1, f2), (p0, p1, p2)) \<Rightarrow>
        let half = flit (1/2);
            dot_forward = (half - p0) * f0 + (half - p1) * f1 + (half - p2) * f2;
            (t0, t1, t2) = (if flit (1/10) < dot_forward then (half, half, half)
                            else (p0 + f0 * flit (18/10), p1 + f1 * flit (18/10), p2 + f2 * flit (18/10)));
            dx = p0 - t0; dy = p1 - t1; dz = p2 - t2;
            distance = fsqrt (dx * dx + dy * dy + dz * dz)
        in \<lparr>ab_target = (t0, t1, t2), ab_theta = fm_atan2 lm dx dz,
            ab_phi = (if flit (1 / 10 ^ 10) < distance then fm_acos lm (fclamp (- 1) 1 (dy / distance))
                      else flit (8/10)),
            ab_distance = fmax distance (fy_near v), ab_fov = fy_fov v, ab_viewport = fy_viewport v,
            ab_near = fy_near v, ab_far = fy_far v, ab_clip_distance = fy_clip_distance v,
            ab_clip_mode = fy_clip_mode v\<rparr>)"

definition to_fly :: "libm \<Rightarrow> arcball \<Rightarrow> fly" where
  "to_fly lm v =
     (let eye = arcball_eye_position lm v;
          view_dir = normalize3 (vsub3 (ab_target v) eye);
          right0 = normalize3 (cross3 view_dir (0, 1, 0));
          tiny = flit (1 / 10 ^ 6);
          right = (case right0 of (x, y, z) \<Rightarrow>
            if fabs x < tiny \<and> fabs y < tiny \<and> fabs z < tiny
            then normalize3 (cross3 view_dir (0, 0, 1)) else right0);
          up = normalize3 (cross3 right view_dir)
      in case (right, up, view_dir) of ((r0, r1, r2), (u0, u1, u2), (d0, d1, d2)) \<Rightarrow>
           \<lparr>fy_position = eye,
            fy_orientation = rotation_matrix_to_quat (r0, u0, - d0) (r1, u1, - d1) (r2, u2, - d2),
            fy_fov = ab_fov v, fy_viewport = ab_viewport v, fy_near = ab_near v, fy_far = ab_far v,
            fy_speed_multiplier = 1, fy_base_speed = 1, fy_clip_distance = ab_clip_distance v,
            fy_clip_mode = ab_clip_mode v\<rparr>)"

section \<open>Repairing an imported camera\<close>

definition finite_or :: "f64 \<Rightarrow> f64 \<Rightarrow> f64" where
  "finite_or fallback v = (if is_finite v then v else fallback)"

definition position_or :: "f64 \<Rightarrow> f64 \<Rightarrow> f64" where
  "position_or fallback v = (if is_finite v then clamp_position v else fallback)"

definition clamp_or :: "f64 \<Rightarrow> f64 \<Rightarrow> f64 \<Rightarrow> f64 \<Rightarrow> f64" where
  "clamp_or lo hi fallback v = (if is_finite v then fclamp lo hi v else fallback)"

definition sane_fov :: "f64 \<Rightarrow> f64" where
  "sane_fov fov = (if \<not> is_finite fov \<or> fov \<le> flit (1 / 10 ^ 3) \<or> PI - flit (1 / 10 ^ 3) \<le> fov
                   then FRAC_PI_4 else fov)"

definition sane_near :: "f64 \<Rightarrow> f64" where
  "sane_near near = (if \<not> is_finite near \<or> near \<le> 0 \<or> ARCBALL_DISTANCE_MAX < near
                     then flit (1 / 100) else near)"

definition sane_far :: "f64 \<Rightarrow> f64 \<Rightarrow> f64" where
  "sane_far near far = (if \<not> is_finite far \<or> far \<le> near then near * flit (10 ^ 4) else far)"

definition sanitize_projection :: "f64 \<times> f64 \<times> f64 \<Rightarrow> f64 \<times> f64 \<times> f64" where
  "sanitize_projection p = (case p of (fov, near, far) \<Rightarrow>
     (sane_fov fov, sane_near near, sane_far (sane_near near) far))"

definition sanitize_slice :: "slice \<Rightarrow> slice" where
  "sanitize_slice v = v\<lparr>sl_center := (position_or 0 (fst (sl_center v)), position_or 0 (snd (sl_center v))),
                        sl_zoom := clamp_or SLICE_ZOOM_MIN SLICE_ZOOM_MAX 1 (sl_zoom v)\<rparr>"

definition sanitize_arcball :: "arcball \<Rightarrow> arcball" where
  "sanitize_arcball v =
     (case sanitize_projection (ab_fov v, ab_near v, ab_far v) of (fov, near, far) \<Rightarrow>
        v\<lparr>ab_target := map3 (position_or (flit (1/2))) (ab_target v),
          ab_theta := wrap_angle (finite_or (flit (1/2)) (ab_theta v)),
          ab_phi := wrap_angle (finite_or (flit (8/10)) (ab_phi v)),
          ab_fov := fov, ab_near := near, ab_far := far,
          ab_distance := fmin (fmax (finite_or (flit (18/10)) (ab_distance v)) near) ARCBALL_DISTANCE_MAX,
          ab_clip_distance := clamp_or 0 CLIP_DISTANCE_MAX 0 (ab_clip_distance v)\<rparr>)"

definition norm_sq :: "quat \<Rightarrow> f64" where
  "norm_sq q = (case q of (x, y, z, w) \<Rightarrow> 0 + x * x + y * y + z * z + w * w)"

definition sane_orientation :: "quat \<Rightarrow> quat" where
  "sane_orientation q =
     (if \<not> is_finite (norm_sq q) \<or> norm_sq q < flit (1 / 10 ^ 12) then (0, 0, 0, 1) else q)"

definition sanitize_fly :: "fly \<Rightarrow> fly" where
  "sanitize_fly v =
     (case sanitize_projection (fy_fov v, fy_near v, fy_far v) of (fov, near, far) \<Rightarrow>
        v\<lparr>fy_position := map3 (position_or (flit (1/2))) (fy_position v),
          fy_orientation := sane_orientation (fy_orientation v),
          fy_fov := fov, fy_near := near, fy_far := far,
          fy_speed_multiplier := clamp_or FLY_SPEED_MULTIPLIER_MIN FLY_SPEED_MULTIPLIER_MAX 1 (fy_speed_multiplier v),
          fy_base_speed := clamp_or FLY_BASE_SPEED_MIN FLY_BASE_SPEED_MAX 1 (fy_base_speed v),
          fy_clip_distance := clamp_or 0 CLIP_DISTANCE_MAX 0 (fy_clip_distance v)\<rparr>)"

fun camera_sanitize :: "camera \<Rightarrow> camera" where
  "camera_sanitize (Slice v) = Slice (sanitize_slice v)"
| "camera_sanitize (Arcball v) = Arcball (sanitize_arcball v)"
| "camera_sanitize (Fly v) = Fly (sanitize_fly v)"

text \<open>The derived \<^verbatim>\<open>PartialEq\<close>: field by field, floats with IEEE equality.\<close>

definition eq2 :: "vec2 \<Rightarrow> vec2 \<Rightarrow> bool" where
  "eq2 a b \<longleftrightarrow> feq (fst a) (fst b) \<and> feq (snd a) (snd b)"

definition eq3 :: "vec3 \<Rightarrow> vec3 \<Rightarrow> bool" where
  "eq3 a b \<longleftrightarrow> feq (fst a) (fst b) \<and> eq2 (snd a) (snd b)"

definition eq4 :: "quat \<Rightarrow> quat \<Rightarrow> bool" where
  "eq4 a b \<longleftrightarrow> feq (fst a) (fst b) \<and> eq3 (snd a) (snd b)"

fun camera_eq :: "camera \<Rightarrow> camera \<Rightarrow> bool" where
  "camera_eq (Slice a) (Slice b) =
     (eq2 (sl_center a) (sl_center b) \<and> feq (sl_zoom a) (sl_zoom b) \<and> sl_viewport a = sl_viewport b)"
| "camera_eq (Arcball a) (Arcball b) =
     (eq3 (ab_target a) (ab_target b) \<and> feq (ab_theta a) (ab_theta b) \<and> feq (ab_phi a) (ab_phi b)
      \<and> feq (ab_distance a) (ab_distance b) \<and> feq (ab_fov a) (ab_fov b) \<and> ab_viewport a = ab_viewport b
      \<and> feq (ab_near a) (ab_near b) \<and> feq (ab_far a) (ab_far b)
      \<and> feq (ab_clip_distance a) (ab_clip_distance b) \<and> ab_clip_mode a = ab_clip_mode b)"
| "camera_eq (Fly a) (Fly b) =
     (eq3 (fy_position a) (fy_position b) \<and> eq4 (fy_orientation a) (fy_orientation b)
      \<and> feq (fy_fov a) (fy_fov b) \<and> fy_viewport a = fy_viewport b \<and> feq (fy_near a) (fy_near b)
      \<and> feq (fy_far a) (fy_far b) \<and> feq (fy_speed_multiplier a) (fy_speed_multiplier b)
      \<and> feq (fy_base_speed a) (fy_base_speed b) \<and> feq (fy_clip_distance a) (fy_clip_distance b)
      \<and> fy_clip_mode a = fy_clip_mode b)"
| "camera_eq _ _ = False"

section \<open>The ranges every camera is kept in\<close>

definition in_range :: "f64 \<Rightarrow> f64 \<Rightarrow> f64 \<Rightarrow> bool" where
  "in_range lo hi v \<longleftrightarrow> lo \<le> v \<and> v \<le> hi"

abbreviation position_sane :: "f64 \<Rightarrow> bool" where
  "position_sane \<equiv> in_range (- CAMERA_POSITION_MAX) CAMERA_POSITION_MAX"

definition all3 :: "(f64 \<Rightarrow> bool) \<Rightarrow> vec3 \<Rightarrow> bool" where
  "all3 P v = (case v of (x, y, z) \<Rightarrow> P x \<and> P y \<and> P z)"

definition angle_sane :: "f64 \<Rightarrow> bool" where
  "angle_sane a \<longleftrightarrow> is_finite a \<and> fabs a \<le> ANGLE_WRAP_LIMIT"

definition projection_sane :: "f64 \<Rightarrow> f64 \<Rightarrow> f64 \<Rightarrow> bool" where
  "projection_sane fov near far \<longleftrightarrow>
     is_finite fov \<and> flit (1 / 10 ^ 3) < fov \<and> fov < PI - flit (1 / 10 ^ 3)
     \<and> is_finite near \<and> 0 < near \<and> near \<le> ARCBALL_DISTANCE_MAX \<and> is_finite far \<and> near < far"

definition slice_sane :: "slice \<Rightarrow> bool" where
  "slice_sane v \<longleftrightarrow> position_sane (fst (sl_center v)) \<and> position_sane (snd (sl_center v))
     \<and> in_range SLICE_ZOOM_MIN SLICE_ZOOM_MAX (sl_zoom v)"

definition arcball_sane :: "arcball \<Rightarrow> bool" where
  "arcball_sane v \<longleftrightarrow> all3 position_sane (ab_target v) \<and> angle_sane (ab_theta v) \<and> angle_sane (ab_phi v)
     \<and> projection_sane (ab_fov v) (ab_near v) (ab_far v)
     \<and> in_range (ab_near v) ARCBALL_DISTANCE_MAX (ab_distance v)
     \<and> in_range 0 CLIP_DISTANCE_MAX (ab_clip_distance v)"

definition fly_sane :: "fly \<Rightarrow> bool" where
  "fly_sane v \<longleftrightarrow> all3 position_sane (fy_position v)
     \<and> is_finite (norm_sq (fy_orientation v)) \<and> \<not> norm_sq (fy_orientation v) < flit (1 / 10 ^ 12)
     \<and> projection_sane (fy_fov v) (fy_near v) (fy_far v)
     \<and> in_range FLY_SPEED_MULTIPLIER_MIN FLY_SPEED_MULTIPLIER_MAX (fy_speed_multiplier v)
     \<and> in_range FLY_BASE_SPEED_MIN FLY_BASE_SPEED_MAX (fy_base_speed v)
     \<and> in_range 0 CLIP_DISTANCE_MAX (fy_clip_distance v)"

fun camera_sane :: "camera \<Rightarrow> bool" where
  "camera_sane (Slice v) = slice_sane v"
| "camera_sane (Arcball v) = arcball_sane v"
| "camera_sane (Fly v) = fly_sane v"

text \<open>The near plane is a double.\<close>

fun camera_near_f64 :: "camera \<Rightarrow> bool" where
  "camera_near_f64 (Slice v) = True"
| "camera_near_f64 (Arcball v) = is_f64 (ab_near v)"
| "camera_near_f64 (Fly v) = is_f64 (fy_near v)"

lemma max_values:
  "CAMERA_POSITION_MAX = Fin False (10 ^ 12)" "SLICE_ZOOM_MAX = Fin False (10 ^ 9)"
  "ARCBALL_DISTANCE_MAX = Fin False (10 ^ 9)" "CLIP_DISTANCE_MAX = Fin False (10 ^ 9)"
  "FLY_BASE_SPEED_MAX = Fin False (10 ^ 9)" "FLY_SPEED_MULTIPLIER_MAX = Fin False 100"
  "ANGLE_WRAP_LIMIT = Fin False (10 ^ 6)"
  by (simp_all add: CAMERA_POSITION_MAX_def SLICE_ZOOM_MAX_def ARCBALL_DISTANCE_MAX_def CLIP_DISTANCE_MAX_def
        FLY_BASE_SPEED_MAX_def FLY_SPEED_MULTIPLIER_MAX_def ANGLE_WRAP_LIMIT_def)

lemma flit_between:
  assumes "1 / 10 ^ 30 \<le> r" "r < 10 ^ 30" "lo < r - r / 2 ^ 53" "r + r / 2 ^ 53 < hi"
  shows "\<exists>q. flit r = Fin False q \<and> lo < q \<and> q < hi"
proof -
  from flit_decimal [OF assms(1,2)] obtain q where q: "flit r = Fin False q" "\<bar>q - r\<bar> \<le> r / 2 ^ 53" .
  from q(2) have "r - r / 2 ^ 53 \<le> q" "q \<le> r + r / 2 ^ 53" by linarith+
  with assms(3,4) q(1) show ?thesis by (intro exI [of _ q]) linarith
qed

lemma literal_ranges:
  "\<exists>q. SLICE_ZOOM_MIN = Fin False q \<and> 0 < q \<and> q < 1"
  "\<exists>q. FLY_BASE_SPEED_MIN = Fin False q \<and> 0 < q \<and> q < 1"
  "\<exists>q. FLY_SPEED_MULTIPLIER_MIN = Fin False q \<and> 0 < q \<and> q < 1"
  "\<exists>q. flit (1 / 100) = Fin False q \<and> 0 < q \<and> q < 1"
  "\<exists>q. flit (1 / 2) = Fin False q \<and> 0 < q \<and> q < 1"
  "\<exists>q. flit (8 / 10) = Fin False q \<and> 0 < q \<and> q < 1"
  "\<exists>q. flit (18 / 10) = Fin False q \<and> 1 < q \<and> q < 2"
  "\<exists>q. flit (1 / 10 ^ 3) = Fin False q \<and> 0 < q \<and> q < 2 / 10 ^ 3"
  "\<exists>q. flit (1 / 10 ^ 12) = Fin False q \<and> 0 < q \<and> q < 1"
  "\<exists>q. PI = Fin False q \<and> 3 < q \<and> q < 4"
  "\<exists>q. TAU = Fin False q \<and> 6 < q \<and> q < 7"
  "\<exists>q. FRAC_PI_4 = Fin False q \<and> 7 / 10 < q \<and> q < 8 / 10"
  unfolding SLICE_ZOOM_MIN_def FLY_BASE_SPEED_MIN_def FLY_SPEED_MULTIPLIER_MIN_def PI_def TAU_def FRAC_PI_4_def
  by (rule flit_between; simp)+

lemma in_range_finite: "is_finite lo \<Longrightarrow> is_finite hi \<Longrightarrow> in_range lo hi v \<Longrightarrow> is_finite v"
  unfolding in_range_def using between_finite by blast

text \<open>A clamp with a fallback inside the range lands in the range and leaves the range alone.\<close>

lemma clamp_or_range:
  assumes "is_finite lo" "is_finite hi" "lo \<le> hi" "in_range lo hi fb"
  shows "in_range lo hi (clamp_or lo hi fb v)" "in_range lo hi v \<Longrightarrow> clamp_or lo hi fb v = v"
proof -
  show "in_range lo hi (clamp_or lo hi fb v)"
    using assms fclamp_range [OF assms(3), of v] by (cases v) (auto simp: clamp_or_def in_range_def)
  show "clamp_or lo hi fb v = v" if "in_range lo hi v"
    using that in_range_finite [OF assms(1,2) that] by (simp add: clamp_or_def in_range_def fclamp_id)
qed

lemma position_or_clamp: "position_or fb v = clamp_or (- CAMERA_POSITION_MAX) CAMERA_POSITION_MAX fb v"
  by (simp add: position_or_def clamp_or_def clamp_position_def)

lemma range_order:
  "- CAMERA_POSITION_MAX \<le> CAMERA_POSITION_MAX" "is_finite (- CAMERA_POSITION_MAX)" "is_finite CAMERA_POSITION_MAX"
  "SLICE_ZOOM_MIN \<le> SLICE_ZOOM_MAX" "is_finite SLICE_ZOOM_MIN" "is_finite SLICE_ZOOM_MAX" "0 < SLICE_ZOOM_MIN"
  "0 \<le> CLIP_DISTANCE_MAX" "is_finite CLIP_DISTANCE_MAX" "is_finite (0::f64)"
  "FLY_BASE_SPEED_MIN \<le> FLY_BASE_SPEED_MAX" "is_finite FLY_BASE_SPEED_MIN" "is_finite FLY_BASE_SPEED_MAX"
  "FLY_SPEED_MULTIPLIER_MIN \<le> FLY_SPEED_MULTIPLIER_MAX" "is_finite FLY_SPEED_MULTIPLIER_MIN"
  "is_finite FLY_SPEED_MULTIPLIER_MAX"
proof -
  from literal_ranges(1-3) obtain a b c where q: "SLICE_ZOOM_MIN = Fin False a" "0 < a" "a < 1"
    "FLY_BASE_SPEED_MIN = Fin False b" "0 < b" "b < 1" "FLY_SPEED_MULTIPLIER_MIN = Fin False c" "0 < c" "c < 1"
    by blast
  show "- CAMERA_POSITION_MAX \<le> CAMERA_POSITION_MAX" "is_finite (- CAMERA_POSITION_MAX)" "is_finite CAMERA_POSITION_MAX"
    "SLICE_ZOOM_MIN \<le> SLICE_ZOOM_MAX" "is_finite SLICE_ZOOM_MIN" "is_finite SLICE_ZOOM_MAX" "0 < SLICE_ZOOM_MIN"
    "0 \<le> CLIP_DISTANCE_MAX" "is_finite CLIP_DISTANCE_MAX" "is_finite (0::f64)"
    "FLY_BASE_SPEED_MIN \<le> FLY_BASE_SPEED_MAX" "is_finite FLY_BASE_SPEED_MIN" "is_finite FLY_BASE_SPEED_MAX"
    "FLY_SPEED_MULTIPLIER_MIN \<le> FLY_SPEED_MULTIPLIER_MAX" "is_finite FLY_SPEED_MULTIPLIER_MIN"
    "is_finite FLY_SPEED_MULTIPLIER_MAX"
    using q(2,3,5,6,8,9)
    by (simp_all add: q(1,4,7) max_values less_eq_f64_def less_f64_def uminus_f64_def zero_f64_def)
qed

lemma fallback_ranges:
  "position_sane 0" "position_sane (flit (1/2))" "in_range SLICE_ZOOM_MIN SLICE_ZOOM_MAX 1"
  "in_range 0 CLIP_DISTANCE_MAX 0" "in_range FLY_BASE_SPEED_MIN FLY_BASE_SPEED_MAX 1"
  "in_range FLY_SPEED_MULTIPLIER_MIN FLY_SPEED_MULTIPLIER_MAX 1"
proof -
  from literal_ranges(1-3,5) obtain a b c d where q: "SLICE_ZOOM_MIN = Fin False a" "0 < a" "a < 1"
    "FLY_BASE_SPEED_MIN = Fin False b" "0 < b" "b < 1" "FLY_SPEED_MULTIPLIER_MIN = Fin False c" "0 < c" "c < 1"
    "flit (1 / 2) = Fin False d" "0 < d" "d < 1" by blast
  show "position_sane 0" "position_sane (flit (1/2))" "in_range SLICE_ZOOM_MIN SLICE_ZOOM_MAX 1"
    "in_range 0 CLIP_DISTANCE_MAX 0" "in_range FLY_BASE_SPEED_MIN FLY_BASE_SPEED_MAX 1"
    "in_range FLY_SPEED_MULTIPLIER_MIN FLY_SPEED_MULTIPLIER_MAX 1"
    using q(2,3,5,6,8,9,11,12)
    by (simp_all add: q(1,4,7,10) in_range_def max_values less_eq_f64_def less_f64_def uminus_f64_def
          zero_f64_def one_f64_def)
qed

lemmas position_or_range = clamp_or_range [OF range_order(2,3,1), folded position_or_clamp]
lemmas zoom_clamp_range = clamp_or_range [OF range_order(5,6,4) fallback_ranges(3)]
lemmas clip_clamp_range = clamp_or_range [OF range_order(10,9,8) fallback_ranges(4)]
lemmas base_speed_clamp_range = clamp_or_range [OF range_order(12,13,11) fallback_ranges(5)]
lemmas multiplier_clamp_range = clamp_or_range [OF range_order(15,16,14) fallback_ranges(6)]

lemma map3_position_or:
  "all3 position_sane (map3 (position_or (flit (1/2))) v)"
  "all3 position_sane v \<Longrightarrow> map3 (position_or (flit (1/2))) v = v"
  using position_or_range [OF fallback_ranges(2)]
  by (cases v; simp add: all3_def map3_def)+

lemma wrap_angle_sane:
  assumes "is_finite a"
  shows "angle_sane (wrap_angle a)"
proof (cases "fabs a \<le> ANGLE_WRAP_LIMIT")
  case True
  with assms show ?thesis by (simp add: wrap_angle_def angle_sane_def)
next
  case False
  from assms obtain s r where a: "a = Fin s r" by (auto simp: finite_cases)
  from literal_ranges(11) obtain t where t: "TAU = Fin False t" "6 < t" "t < 7" by blast
  let ?x = "r - of_int \<lfloor>r / t\<rfloor> * t"
  have "of_int \<lfloor>r / t\<rfloor> \<le> r / t" "r / t < of_int \<lfloor>r / t\<rfloor> + 1" by linarith+
  with t(2) have x: "?x < t" by (simp add: field_simps)
  have "wrap_angle a = Fin s ?x" using False t(2) by (simp add: a wrap_angle_def t(1))
  moreover have "fabs (Fin s ?x) \<le> ANGLE_WRAP_LIMIT"
    using x t(3) by (simp add: max_values less_eq_f64_def)
  ultimately show ?thesis by (simp add: angle_sane_def)
qed

lemma wrap_angle_id: "angle_sane a \<Longrightarrow> wrap_angle a = a"
  by (simp add: angle_sane_def wrap_angle_def)

lemma finite_or_finite: "is_finite fb \<Longrightarrow> is_finite (finite_or fb v)" "is_finite v \<Longrightarrow> finite_or fb v = v"
  by (auto simp: finite_or_def)

text \<open>The perspective triple.\<close>

lemma sane_fov_range:
  "is_finite (sane_fov fov) \<and> flit (1 / 10 ^ 3) < sane_fov fov \<and> sane_fov fov < PI - flit (1 / 10 ^ 3)"
proof -
  from literal_ranges(8,10,12) obtain m p q where
    v: "flit (1 / 10 ^ 3) = Fin False m" "0 < m" "m < 2 / 10 ^ 3" "PI = Fin False p" "3 < p" "p < 4"
      "FRAC_PI_4 = Fin False q" "7 / 10 < q" "q < 8 / 10" by blast
  have d: "2 < p - m" "p - m < 4" using v by simp_all
  have "(2::rat) powi (- 1022) \<le> 1" by (simp add: power_int_le_one)
  with d have "(2::rat) powi (- 1022) \<le> p - m" by linarith
  moreover have "(4::rat) < 2 ^ 1023" by simp
  with d have "p - m < 2 ^ 1023" by linarith
  ultimately obtain w where w: "fround False (p - m) = Fin False w" "\<bar>w - (p - m)\<bar> \<le> (p - m) / 2 ^ 53"
    by (rule fround_tight)
  have "(p - m) / 2 ^ 53 \<le> 4 / 2 ^ 53" using d(2) by (intro divide_right_mono) auto
  also have "(4::rat) / 2 ^ 53 < 1" by simp
  finally have "1 < w" using w(2) d(1) by linarith
  moreover have pw: "PI - flit (1 / 10 ^ 3) = Fin False w"
    unfolding v(1,4) using w(1) d(1) by (simp add: minus_f64_def round_val_def)
  ultimately show ?thesis
    unfolding sane_fov_def pw unfolding v(1,7)
    using v(2,3,8,9) by (cases fov) (auto simp: less_f64_def less_eq_f64_def)
qed

lemma sane_near_range:
  "is_finite (sane_near near) \<and> 0 < sane_near near \<and> sane_near near \<le> ARCBALL_DISTANCE_MAX"
proof -
  from literal_ranges(4) obtain c where c: "flit (1 / 100) = Fin False c" "0 < c" "c < 1" by blast
  then show ?thesis
    by (cases near) (auto simp: sane_near_def c(1) max_values less_f64_def less_eq_f64_def zero_f64_def)
qed

lemma far_of_near:
  assumes "is_f64 near" "is_finite near" "0 < near" "near \<le> ARCBALL_DISTANCE_MAX"
  shows "is_finite (near * flit (10 ^ 4)) \<and> near < near * flit (10 ^ 4)"
proof -
  from assms(1-3) obtain a where a: "near = Fin False a" "mag64 a" "0 < a"
    by (cases near) (auto simp: less_f64_def zero_f64_def mag64_def split: if_splits)
  from assms(4) a(1) have "a \<le> 10 ^ 9" by (auto simp: max_values less_eq_f64_def)
  have ten: "flit (10 ^ 4) = Fin False 10000" by simp
  have "(2::rat) powi (- 1074) \<le> a * 10000" using mag64_least [OF a(2,3)] a(3) by linarith
  moreover have "(10 ^ 13 :: rat) < 2 ^ 1023" by simp
  with \<open>a \<le> 10 ^ 9\<close> have "a * 10000 < 2 ^ 1023" by simp
  ultimately obtain q where "fround False (a * 10000) = Fin False q" "a * 10000 / 2 \<le> q"
    by (rule fround_bounds)
  with a(3) show ?thesis by (simp add: a(1) ten times_f64_def less_f64_def)
qed

lemma sane_far_range:
  assumes "is_f64 near" "is_finite near" "0 < near" "near \<le> ARCBALL_DISTANCE_MAX"
  shows "is_finite (sane_far near far) \<and> near < sane_far near far"
proof (cases "is_finite far \<and> \<not> far \<le> near")
  case True
  then have "\<not> is_nan far" "\<not> is_nan near" using assms(2) by (auto simp: finite_cases)
  with True not_flt [of near far] show ?thesis by (auto simp: sane_far_def)
next
  case False
  with far_of_near [OF assms] show ?thesis by (auto simp: sane_far_def)
qed

lemma sane_near_f64: "is_f64 near \<Longrightarrow> is_f64 (sane_near near)"
proof -
  assume "is_f64 near"
  moreover have "is_f64 (flit (1 / 100))" by (rule flit_f64)
  ultimately show ?thesis by (simp add: sane_near_def)
qed

lemma sanitize_projection_sane:
  assumes "is_f64 near" "sanitize_projection (fov, near, far) = (fov', near', far')"
  shows "projection_sane fov' near' far'"
proof -
  from assms(2) have eq: "fov' = sane_fov fov" "near' = sane_near near" "far' = sane_far near' far"
    by (auto simp: sanitize_projection_def)
  note n = sane_near_range [of near, folded eq(2)]
  have "is_f64 near'" unfolding eq(2) by (rule sane_near_f64 [OF assms(1)])
  with n sane_far_range [of near' far] have "is_finite far' \<and> near' < far'" by (simp add: eq(3))
  with n sane_fov_range [of fov] show ?thesis by (simp add: projection_sane_def eq(1))
qed

lemma flt_not_le: "(x::f64) < y \<Longrightarrow> \<not> y \<le> x"
  using fle_lt_trans [of y x y] by (cases y) (auto simp: less_f64_def)

lemma sanitize_projection_id:
  "projection_sane fov near far \<Longrightarrow> sanitize_projection (fov, near, far) = (fov, near, far)"
  using flt_not_le flt_le_trans [of ARCBALL_DISTANCE_MAX near ARCBALL_DISTANCE_MAX]
  by (auto simp: projection_sane_def sanitize_projection_def sane_fov_def sane_near_def sane_far_def
        max_values less_f64_def)

lemma distance_range:
  assumes "is_finite d" "is_finite near" "near \<le> ARCBALL_DISTANCE_MAX"
  shows "in_range near ARCBALL_DISTANCE_MAX (fmin (fmax d near) ARCBALL_DISTANCE_MAX)"
  using assms by (cases d; cases near)
    (auto simp: in_range_def fmin_def fmax_def max_values less_eq_f64_def less_f64_def split: if_splits)

lemma distance_id:
  assumes "in_range near ARCBALL_DISTANCE_MAX d" "is_finite near"
  shows "fmin (fmax d near) ARCBALL_DISTANCE_MAX = d \<and> is_finite d"
  using assms by (cases d; cases near)
    (auto simp: in_range_def fmin_def fmax_def max_values less_eq_f64_def less_f64_def split: if_splits)

lemma sane_orientation_ok:
  "is_finite (norm_sq (sane_orientation q)) \<and> \<not> norm_sq (sane_orientation q) < flit (1 / 10 ^ 12)"
proof -
  from literal_ranges(9) obtain c where c: "flit (1 / 10 ^ 12) = Fin False c" "0 < c" "c < 1" by blast
  have one: "fround False 1 = Fin False 1" using fround_mag64(1) [OF mag64_int [of 1]] by simp
  have "norm_sq (0, 0, 0, 1) = Fin False 1"
    by (simp add: norm_sq_def plus_f64_def times_f64_def zero_f64_def one_f64_def round_val_def fround_zero one)
  with c(2,3) show ?thesis unfolding sane_orientation_def unfolding c(1)
    by (auto simp: less_f64_def)
qed

lemma camera_sanitize_in_range:
  assumes "camera_near_f64 c"
  shows "camera_sane (camera_sanitize c)"
proof (cases c)
  case (Slice v)
  then show ?thesis
    using position_or_range(1) [OF fallback_ranges(1)] zoom_clamp_range(1)
    by (simp add: sanitize_slice_def slice_sane_def)
next
  case (Arcball v)
  obtain fov near far where p: "sanitize_projection (ab_fov v, ab_near v, ab_far v) = (fov, near, far)"
    by (metis prod_cases3)
  have ps: "projection_sane fov near far"
    using sanitize_projection_sane [OF _ p] assms Arcball by simp
  have lits: "is_finite (flit (1/2))" "is_finite (flit (8/10))" "is_finite (flit (18/10))"
    using literal_ranges(5-7) by (auto simp: finite_cases)
  have "in_range near ARCBALL_DISTANCE_MAX
      (fmin (fmax (finite_or (flit (18/10)) (ab_distance v)) near) ARCBALL_DISTANCE_MAX)"
    using ps finite_or_finite(1) [OF lits(3)] by (intro distance_range) (auto simp: projection_sane_def)
  with ps show ?thesis
    using map3_position_or(1) wrap_angle_sane finite_or_finite(1) lits clip_clamp_range(1)
    by (simp add: Arcball sanitize_arcball_def p arcball_sane_def)
next
  case (Fly v)
  obtain fov near far where p: "sanitize_projection (fy_fov v, fy_near v, fy_far v) = (fov, near, far)"
    by (metis prod_cases3)
  have "projection_sane fov near far"
    using sanitize_projection_sane [OF _ p] assms Fly by simp
  then show ?thesis
    using map3_position_or(1) sane_orientation_ok clip_clamp_range(1) base_speed_clamp_range(1)
      multiplier_clamp_range(1)
    by (simp add: Fly sanitize_fly_def p fly_sane_def)
qed

lemma camera_sanitize_fixed:
  assumes "camera_sane c"
  shows "camera_sanitize c = c"
proof (cases c)
  case (Slice v)
  with assms show ?thesis
    using position_or_range(2) [OF fallback_ranges(1)] zoom_clamp_range(2)
    by (simp add: sanitize_slice_def slice_sane_def)
next
  case (Arcball v)
  with assms have v: "arcball_sane v" by simp
  then have p: "sanitize_projection (ab_fov v, ab_near v, ab_far v) = (ab_fov v, ab_near v, ab_far v)"
    by (auto simp: arcball_sane_def intro: sanitize_projection_id)
  have "fmin (fmax (ab_distance v) (ab_near v)) ARCBALL_DISTANCE_MAX = ab_distance v \<and> is_finite (ab_distance v)"
    using v by (intro distance_id) (auto simp: arcball_sane_def projection_sane_def)
  with v show ?thesis
    using map3_position_or(2) wrap_angle_id clip_clamp_range(2) finite_or_finite(2)
    by (simp add: Arcball sanitize_arcball_def p arcball_sane_def angle_sane_def)
next
  case (Fly v)
  with assms have v: "fly_sane v" by simp
  then have p: "sanitize_projection (fy_fov v, fy_near v, fy_far v) = (fy_fov v, fy_near v, fy_far v)"
    by (auto simp: fly_sane_def intro: sanitize_projection_id)
  from v show ?thesis
    using map3_position_or(2) clip_clamp_range(2) base_speed_clamp_range(2) multiplier_clamp_range(2)
    by (simp add: Fly sanitize_fly_def p fly_sane_def sane_orientation_def)
qed

text \<open>C40: Sanitizing an imported camera puts every field in the range the interactive mutators keep, and
  leaves a camera that is already in range bit for bit as it is, so it is idempotent.\<close>
theorem camera_sanitize_sane:
  assumes "camera_near_f64 c"
  shows "camera_sane (camera_sanitize c) \<and> (camera_sane c \<longrightarrow> camera_sanitize c = c)
    \<and> camera_sanitize (camera_sanitize c) = camera_sanitize c"
  using camera_sanitize_in_range [OF assms] camera_sanitize_fixed by blast

definition broken_arcball :: arcball where
  "broken_arcball = (arcball_new (Suc 0, Suc 0))\<lparr>ab_theta := NaN, ab_near := Inf True, ab_distance := 0\<rparr>"

theorem camera_sanitize_sane_witness:
  "camera_near_f64 (Arcball broken_arcball) \<and> camera_sane (camera_sanitize (Arcball broken_arcball))"
  using camera_sanitize_sane [of "Arcball broken_arcball"] by (simp add: broken_arcball_def)

section \<open>The mutators stay in range\<close>

lemma clamp_position_sane: "\<not> is_nan x \<Longrightarrow> position_sane (clamp_position x)"
  using fclamp_range [OF range_order(1)] by (simp add: clamp_position_def in_range_def)

lemma position_sane_finite: "position_sane x \<Longrightarrow> is_finite x"
  by (rule in_range_finite [OF range_order(2,3)])

lemma step_position_sane:
  assumes "position_sane x" "\<not> is_nan d"
  shows "position_sane (step_position x d)"
proof -
  have nn: "\<not> is_nan (x + d)" by (rule add_not_nan [OF position_sane_finite [OF assms(1)] assms(2)])
  show ?thesis
  proof (cases "x + d")
    case NaN
    with nn show ?thesis by simp
  next
    case (Inf s)
    then show ?thesis using range_order(1) fle_refl
      by (cases s) (auto simp: step_position_def in_range_def max_values uminus_f64_def less_eq_f64_def)
  next
    case (Fin s r)
    with clamp_position_sane [OF nn] show ?thesis by (simp add: step_position_def clamp_position_def)
  qed
qed

lemma zoom_clamp_sane: "\<not> is_nan x \<Longrightarrow> in_range SLICE_ZOOM_MIN SLICE_ZOOM_MAX (fclamp SLICE_ZOOM_MIN SLICE_ZOOM_MAX x)"
  using fclamp_range [OF range_order(4)] by (simp add: in_range_def)

text \<open>The slice camera can only ever hold finite state: whatever finite numbers a pan, a zoom step, an
  absolute zoom or an absolute center carries, the center stays inside the position bound
  and the zoom stays a positive divisor inside its range.\<close>
theorem slice_mutators_sane:
  assumes "slice_sane v" "is_finite x" "is_finite y"
  shows "slice_sane (slice_pan x y v) \<and> slice_sane (slice_zoom_by x v) \<and> slice_sane (slice_set_zoom x v)
    \<and> slice_sane (slice_set_center x y v)"
proof -
  have z: "is_finite (sl_zoom v)" "0 < sl_zoom v"
    using assms(1) in_range_finite [OF range_order(5,6)] flt_le_trans [OF range_order(7)]
    by (auto simp: slice_sane_def in_range_def)
  have "\<not> is_nan (x / sl_zoom v)" "\<not> is_nan (y / sl_zoom v)"
    using div_not_nan [OF _ z] assms(2,3) by blast+
  moreover have "\<not> is_nan (sl_zoom v * x)" by (rule mul_not_nan [OF z(1) assms(2)])
  moreover have "\<not> is_nan x" "\<not> is_nan y" using assms(2,3) by (auto simp: finite_cases)
  ultimately show ?thesis
    using assms(1) step_position_sane zoom_clamp_sane clamp_position_sane
    by (auto simp: slice_sane_def slice_pan_def slice_zoom_by_def slice_set_zoom_def slice_set_center_def)
qed

theorem slice_mutators_sane_witness:
  "slice_sane (slice_new (Suc 0, Suc 0)) \<and> slice_sane (slice_pan 1 0 (slice_new (Suc 0, Suc 0)))"
proof -
  have "slice_sane (slice_new (Suc 0, Suc 0))"
    using fallback_ranges by (simp add: slice_new_def slice_sane_def)
  with slice_mutators_sane [OF this, of 1 0] show ?thesis by (simp add: one_f64_def zero_f64_def)
qed

lemma angle_sum_finite:
  assumes "angle_sane a" "is_f64 a" "is_finite d" "is_f64 d"
  shows "is_finite (a + d)"
proof -
  from assms(1,2) obtain s r where a: "a = Fin s r" "r \<le> 10 ^ 6" "0 \<le> r"
    by (cases a) (auto simp: angle_sane_def max_values less_eq_f64_def mag64_def)
  from assms(3,4) obtain t q where d: "d = Fin t q" "mag64 q" by (auto simp: finite_cases)
  have q: "0 \<le> q" "q \<le> 2 ^ 1024 - 2 ^ 971" using d(2) mag64_max by (auto simp: mag64_def)
  have "(10 ^ 6 :: rat) < 2 ^ 970" by simp
  moreover have "(2::rat) ^ 971 = 2 ^ 970 + 2 ^ 970" by simp
  ultimately have "\<bar>fval a + fval d\<bar> < 2 ^ 1024 - 2 ^ 970"
    using a(2,3) q by (simp only: a(1) d(1) fval.simps) (cases s; cases t; simp only: if_True if_False; linarith)
  then have "is_finite (fround (fval a + fval d < 0) (fval a + fval d))" by (rule fround_no_overflow)
  then show ?thesis by (simp add: a(1) d(1) plus_f64_def round_val_def)
qed

text \<open>The orbit angles never leave their guard: whatever finite amount a rotation carries, the angle
  stays finite and inside the wrap limit, so no later sine or cosine sees an infinity.\<close>
theorem arcball_rotate_sane:
  assumes "angle_sane (ab_theta v)" "angle_sane (ab_phi v)" "is_f64 (ab_theta v)" "is_f64 (ab_phi v)"
    and "is_finite dt" "is_finite dp" "is_f64 dt" "is_f64 dp"
  shows "angle_sane (ab_theta (arcball_rotate dt dp v)) \<and> angle_sane (ab_phi (arcball_rotate dt dp v))"
  using assms wrap_angle_sane angle_sum_finite by (simp add: arcball_rotate_def)

theorem arcball_rotate_sane_witness:
  "angle_sane (ab_theta (arcball_rotate (flit (10 ^ 6)) (flit (10 ^ 6)) (arcball_new (Suc 0, Suc 0))))"
proof -
  from literal_ranges(5,6) obtain a b where q: "flit (1 / 2) = Fin False a" "0 < a" "a < 1"
    "flit (8 / 10) = Fin False b" "0 < b" "b < 1" by blast
  let ?v = "arcball_new (Suc 0, Suc 0)"
  have "angle_sane (ab_theta ?v)" "angle_sane (ab_phi ?v)"
    using q(2,3,5,6) unfolding arcball_new_def q(1,4)
    by (simp_all add: angle_sane_def max_values less_eq_f64_def)
  moreover have "is_f64 (ab_theta ?v)" "is_f64 (ab_phi ?v)" by (simp_all add: arcball_new_def flit_f64)
  moreover have "is_finite (flit (10 ^ 6))" by simp
  ultimately show ?thesis
    using arcball_rotate_sane [of ?v "flit (10 ^ 6)" "flit (10 ^ 6)"] flit_f64 by blast
qed

end
