(* ===== verification/Fetch.thy ===== *)
theory Fetch
  imports Content
begin

text \<open>
  The fetch descriptors of \<^verbatim>\<open>lucida-protocol/src/fetch.rs\<close> and the compact wire form of the
  proxied one: a format shared by two or more images is sent once, in a table, and the
  sharing images carry an index into it. The wire value is the structure serde reads and
  writes, an absent field being its default.
\<close>

datatype wire_format = Raw data_type | Lz4 data_type | Zstd data_type

record proxied_image =
  pi_image_id :: image_id
  pi_wire_format :: wire_format

type_synonym proxied_descriptor = "proxied_image list"

record level_address =
  ad_level_index :: nat
  ad_path :: string

record direct_image =
  di_image_id :: image_id
  di_wire_format :: wire_format
  di_levels :: "level_address list"
  di_store_prefix :: "string option"

datatype fetch_source = Proxied proxied_descriptor | Direct "direct_image list" | Local "direct_image list"

record wire_image =
  wi_image_id :: image_id
  wi_wire_format :: "wire_format option"
  wi_wire_format_ref :: "nat option"

record wire_descriptor =
  wd_format_version :: "nat option"
  wd_images :: "wire_image list"
  wd_wire_formats :: "wire_format list"

section \<open>Encoding\<close>

record scan_state =
  sc_distinct :: "(wire_format \<times> nat) list"
  sc_by_format :: "wire_format \<rightharpoonup> nat"
  sc_membership :: "nat list"

definition scan_image :: "proxied_image \<Rightarrow> scan_state \<Rightarrow> scan_state" where
  "scan_image img st =
     (case sc_by_format st (pi_wire_format img) of
        Some i \<Rightarrow>
          st\<lparr>sc_distinct := (sc_distinct st)[i := (fst (sc_distinct st ! i), snd (sc_distinct st ! i) + 1)],
             sc_membership := sc_membership st @ [i]\<rparr>
      | None \<Rightarrow>
          st\<lparr>sc_by_format := (sc_by_format st)(pi_wire_format img \<mapsto> length (sc_distinct st)),
             sc_distinct := sc_distinct st @ [(pi_wire_format img, 1)],
             sc_membership := sc_membership st @ [length (sc_distinct st)]\<rparr>)"

definition scan_images :: "proxied_descriptor \<Rightarrow> scan_state" where
  "scan_images images =
     fold scan_image images \<lparr>sc_distinct = [], sc_by_format = Map.empty, sc_membership = []\<rparr>"

definition table_step :: "'a \<times> nat \<Rightarrow> 'a list \<times> nat option list \<Rightarrow> 'a list \<times> nat option list" where
  "table_step fc acc =
     (case (fc, acc) of ((f, n), (table, idx)) \<Rightarrow>
        if 2 \<le> n then (table @ [f], idx @ [Some (as_u32 (length (table @ [f]) - 1))])
        else (table, idx @ [None]))"

definition build_table :: "('a \<times> nat) list \<Rightarrow> 'a list \<times> nat option list" where
  "build_table ds = fold table_step ds ([], [])"

definition image_wire :: "proxied_image \<Rightarrow> nat option \<Rightarrow> wire_image" where
  "image_wire img r =
     (case r of
        Some i \<Rightarrow> \<lparr>wi_image_id = pi_image_id img, wi_wire_format = None, wi_wire_format_ref = Some i\<rparr>
      | None \<Rightarrow> \<lparr>wi_image_id = pi_image_id img, wi_wire_format = Some (pi_wire_format img),
                 wi_wire_format_ref = None\<rparr>)"

definition descriptor_encode :: "proxied_descriptor \<Rightarrow> wire_descriptor" where
  "descriptor_encode images =
     (let st = scan_images images;
          (table, idx) = build_table (sc_distinct st);
          refs = map (\<lambda>i. idx ! i) (sc_membership st)
      in \<lparr>wd_format_version = (if table = [] then None else Some 2),
          wd_images = map2 image_wire images refs,
          wd_wire_formats = table\<rparr>)"

section \<open>Decoding\<close>

datatype fetch_error = BadRef image_id nat nat | BothForms image_id | NeitherForm image_id

definition decode_image :: "wire_format list \<Rightarrow> wire_image \<Rightarrow> fetch_error + proxied_image" where
  "decode_image formats w =
     (case (wi_wire_format w, wi_wire_format_ref w) of
        (Some f, None) \<Rightarrow> Inr \<lparr>pi_image_id = wi_image_id w, pi_wire_format = f\<rparr>
      | (None, Some i) \<Rightarrow>
          if i < length formats then Inr \<lparr>pi_image_id = wi_image_id w, pi_wire_format = formats ! i\<rparr>
          else Inl (BadRef (wi_image_id w) i (length formats))
      | (Some _, Some _) \<Rightarrow> Inl (BothForms (wi_image_id w))
      | (None, None) \<Rightarrow> Inl (NeitherForm (wi_image_id w)))"

definition descriptor_decode :: "wire_descriptor \<Rightarrow> fetch_error + proxied_descriptor" where
  "descriptor_decode wd = res_collect (decode_image (wd_wire_formats wd)) (wd_images wd)"

section \<open>The scan\<close>

definition format_count :: "proxied_descriptor \<Rightarrow> wire_format \<Rightarrow> nat" where
  "format_count images f = length (filter (\<lambda>x. pi_wire_format x = f) images)"

definition scan_ok :: "proxied_descriptor \<Rightarrow> scan_state \<Rightarrow> bool" where
  "scan_ok images st \<longleftrightarrow>
     distinct (map fst (sc_distinct st))
     \<and> (\<forall>f i. sc_by_format st f = Some i \<longleftrightarrow> i < length (sc_distinct st) \<and> fst (sc_distinct st ! i) = f)
     \<and> (\<forall>(f, n) \<in> set (sc_distinct st). n = format_count images f)
     \<and> length (sc_membership st) = length images
     \<and> (\<forall>k < length images. sc_membership st ! k < length (sc_distinct st)
          \<and> fst (sc_distinct st ! (sc_membership st ! k)) = pi_wire_format (images ! k))"

lemma format_count_snoc:
  "format_count (xs @ [x]) f = format_count xs f + (if pi_wire_format x = f then 1 else 0)"
  by (simp add: format_count_def)

lemma scan_ok_new:
  assumes "scan_ok xs st" "sc_by_format st (pi_wire_format x) = None"
  shows "format_count xs (pi_wire_format x) = 0"
proof -
  have "pi_wire_format y \<noteq> pi_wire_format x" if "y \<in> set xs" for y
  proof
    assume eq: "pi_wire_format y = pi_wire_format x"
    from that obtain k where k: "k < length xs" "xs ! k = y" by (auto simp: in_set_conv_nth)
    with assms(1) have "sc_membership st ! k < length (sc_distinct st)"
      "fst (sc_distinct st ! (sc_membership st ! k)) = pi_wire_format x"
      by (auto simp: scan_ok_def eq)
    with assms(1) have "sc_by_format st (pi_wire_format x) = Some (sc_membership st ! k)"
      by (simp add: scan_ok_def)
    with assms(2) show False by simp
  qed
  then show ?thesis by (auto simp: format_count_def filter_empty_conv)
qed

lemma scan_image_ok:
  assumes "scan_ok xs st"
  shows "scan_ok (xs @ [x]) (scan_image x st)"
proof (cases "sc_by_format st (pi_wire_format x)")
  case None
  note A = assms [unfolded scan_ok_def]
  have fresh: "pi_wire_format x \<notin> fst ` set (sc_distinct st)"
  proof
    assume "pi_wire_format x \<in> fst ` set (sc_distinct st)"
    then obtain i where "i < length (sc_distinct st)" "fst (sc_distinct st ! i) = pi_wire_format x"
      by (auto simp: in_set_conv_nth)
    with A have "sc_by_format st (pi_wire_format x) = Some i" by blast
    with None show False by simp
  qed
  then have fresh_nth: "fst (sc_distinct st ! i) \<noteq> pi_wire_format x" if "i < length (sc_distinct st)" for i
    using that by (metis image_eqI nth_mem)
  have counts: "n = format_count (xs @ [x]) f" if "(f, n) \<in> set (sc_distinct st @ [(pi_wire_format x, 1)])" for f n
    using that A fresh scan_ok_new [OF assms None] by (force simp: format_count_snoc)
  let ?d = "sc_distinct st @ [(pi_wire_format x, 1)]"
  have idx: "((sc_by_format st)(pi_wire_format x \<mapsto> length (sc_distinct st))) f = Some i
      \<longleftrightarrow> i < length ?d \<and> fst (?d ! i) = f" for f i
    using A fresh_nth by (auto simp: nth_append less_Suc_eq)
  have mem: "(sc_membership st @ [length (sc_distinct st)]) ! k < length ?d
      \<and> fst (?d ! ((sc_membership st @ [length (sc_distinct st)]) ! k)) = pi_wire_format ((xs @ [x]) ! k)"
    if "k < length (xs @ [x])" for k
    using that A by (auto simp: nth_append less_Suc_eq)
  have "distinct (map fst ?d)" using A fresh by simp
  then show ?thesis
    unfolding scan_ok_def using A idx counts mem None by (auto simp: scan_image_def)
next
  case (Some i)
  note A = assms [unfolded scan_ok_def]
  from A Some have i: "i < length (sc_distinct st)" "fst (sc_distinct st ! i) = pi_wire_format x" by auto
  let ?d = "(sc_distinct st)[i := (fst (sc_distinct st ! i), snd (sc_distinct st ! i) + 1)]"
  have fsts: "map fst ?d = map fst (sc_distinct st)"
    by (rule nth_equalityI) (use i in \<open>auto simp: nth_list_update\<close>)
  have fst_nth: "fst (?d ! j) = fst (sc_distinct st ! j)" if "j < length (sc_distinct st)" for j
    using that i by (cases "j = i") simp_all
  have counts: "n = format_count (xs @ [x]) f" if "(f, n) \<in> set ?d" for f n
  proof -
    from that obtain j where j: "j < length (sc_distinct st)" "(f, n) = ?d ! j" by (auto simp: in_set_conv_nth)
    from A have "\<forall>fn \<in> set (sc_distinct st). case fn of (f, n) \<Rightarrow> n = format_count xs f" by blast
    from bspec [OF this nth_mem [OF j(1)]]
    have old: "snd (sc_distinct st ! j) = format_count xs (fst (sc_distinct st ! j))"
      by (simp add: case_prod_beta)
    show ?thesis
    proof (cases "j = i")
      case True
      with j i old show ?thesis by (auto simp: format_count_snoc nth_list_update)
    next
      case False
      with j have f: "f = fst (sc_distinct st ! j)" "n = snd (sc_distinct st ! j)"
        by (auto simp: nth_list_update prod_eq_iff)
      have "f \<noteq> pi_wire_format x"
      proof
        assume "f = pi_wire_format x"
        with f(1) i have "map fst (sc_distinct st) ! j = map fst (sc_distinct st) ! i" using j(1) by simp
        moreover from A have "distinct (map fst (sc_distinct st))" by blast
        ultimately show False using j(1) i(1) False by (simp only: nth_eq_iff_index_eq length_map)
      qed
      with f old show ?thesis by (simp add: format_count_snoc)
    qed
  qed
  have mem: "(sc_membership st @ [i]) ! k < length ?d
      \<and> fst (?d ! ((sc_membership st @ [i]) ! k)) = pi_wire_format ((xs @ [x]) ! k)"
    if "k < length (xs @ [x])" for k
    using that A i fst_nth by (auto simp: nth_append less_Suc_eq)
  have idx: "sc_by_format st f = Some j \<longleftrightarrow> j < length ?d \<and> fst (?d ! j) = f" for f j
    using A fst_nth by auto
  have "scan_image x st = st\<lparr>sc_distinct := ?d, sc_membership := sc_membership st @ [i]\<rparr>"
    by (simp add: scan_image_def Some)
  moreover have "distinct (map fst ?d)" using A fsts by presburger
  moreover have "length (sc_membership st @ [i]) = length (xs @ [x])" using A by simp
  ultimately show ?thesis
    unfolding scan_ok_def using idx counts mem by (simp del: length_list_update) blast
qed

lemma scan_images_ok: "scan_ok images (scan_images images)"
proof (induction images rule: rev_induct)
  case Nil
  then show ?case by (simp add: scan_images_def scan_ok_def)
next
  case (snoc x xs)
  then show ?case using scan_image_ok [of xs "scan_images xs" x] by (simp add: scan_images_def)
qed

section \<open>The table\<close>

lemma build_table_eq:
  "build_table ds = (map fst (filter (\<lambda>fn. 2 \<le> snd fn) ds),
     map (\<lambda>j. if 2 \<le> snd (ds ! j) then Some (as_u32 (length (filter (\<lambda>fn. 2 \<le> snd fn) (take j ds)))) else None)
       [0..<length ds])"
proof (induction ds rule: rev_induct)
  case Nil
  then show ?case by (simp add: build_table_def)
next
  case (snoc x ds)
  have idx: "map (\<lambda>j. if 2 \<le> snd ((ds @ [x]) ! j)
        then Some (as_u32 (length (filter (\<lambda>fn. 2 \<le> snd fn) (take j (ds @ [x]))))) else None) [0..<length ds]
      = map (\<lambda>j. if 2 \<le> snd (ds ! j)
        then Some (as_u32 (length (filter (\<lambda>fn. 2 \<le> snd fn) (take j ds)))) else None) [0..<length ds]"
    by (rule map_cong) (auto simp: nth_append)
  have "build_table (ds @ [x]) = table_step x (build_table ds)" by (simp add: build_table_def)
  also have "\<dots> = table_step x (map fst (filter (\<lambda>fn. 2 \<le> snd fn) ds), map (\<lambda>j. if 2 \<le> snd (ds ! j)
        then Some (as_u32 (length (filter (\<lambda>fn. 2 \<le> snd fn) (take j ds)))) else None) [0..<length ds])"
    by (simp only: snoc.IH)
  finally show ?case
    using idx by (cases x) (simp add: table_step_def)
qed

lemma nth_filter_take:
  "j < length xs \<Longrightarrow> P (xs ! j) \<Longrightarrow>
     length (filter P (take j xs)) < length (filter P xs) \<and> filter P xs ! length (filter P (take j xs)) = xs ! j"
  by (induction xs arbitrary: j) (auto simp: nth_Cons' take_Cons' split: if_splits)

lemma distinct_formats_bound:
  assumes "distinct (fs :: wire_format list)"
  shows "length fs \<le> 15"
proof -
  let ?U = "set [Raw Uint8, Raw Uint16, Raw Uint32, Raw Float32, Raw Float64,
    Lz4 Uint8, Lz4 Uint16, Lz4 Uint32, Lz4 Float32, Lz4 Float64,
    Zstd Uint8, Zstd Uint16, Zstd Uint32, Zstd Float32, Zstd Float64]"
  have "f \<in> ?U" for f
  proof (cases f)
    case (Raw t) then show ?thesis by (cases t) simp_all
  next
    case (Lz4 t) then show ?thesis by (cases t) simp_all
  next
    case (Zstd t) then show ?thesis by (cases t) simp_all
  qed
  then have "set fs \<subseteq> ?U" by blast
  then have "card (set fs) \<le> card ?U" by (rule card_mono [rotated]) simp
  also have "\<dots> \<le> 15" by (rule order_trans [OF card_length]) simp
  finally show ?thesis using assms by (simp add: distinct_card)
qed

lemma as_u32_small: "n \<le> 15 \<Longrightarrow> as_u32 n = n"
  by (simp add: as_u32_def)

text \<open>What the reference computed for the \<open>k\<close>-th image says of that image.\<close>

lemma encode_ref:
  assumes "scan_ok images st" "build_table (sc_distinct st) = (table, idx)" "k < length images"
  shows "case idx ! (sc_membership st ! k) of
           None \<Rightarrow> format_count images (pi_wire_format (images ! k)) < 2
         | Some i \<Rightarrow> i < length table \<and> table ! i = pi_wire_format (images ! k)"
proof -
  let ?ds = "sc_distinct st" and ?P = "\<lambda>fn :: wire_format \<times> nat. 2 \<le> snd fn"
  let ?j = "sc_membership st ! k"
  note A = assms(1) [unfolded scan_ok_def]
  from A assms(3) have j: "?j < length ?ds" "fst (?ds ! ?j) = pi_wire_format (images ! k)" by auto
  from A have "\<forall>fn \<in> set ?ds. case fn of (f, n) \<Rightarrow> n = format_count images f" by blast
  from bspec [OF this nth_mem [OF j(1)]] j(2)
  have cnt: "snd (?ds ! ?j) = format_count images (pi_wire_format (images ! k))"
    by (simp add: case_prod_beta)
  have table: "table = map fst (filter ?P ?ds)"
    and idx: "idx ! ?j = (if ?P (?ds ! ?j) then Some (as_u32 (length (filter ?P (take ?j ?ds)))) else None)"
    using assms(2) j(1) by (auto simp: build_table_eq)
  have "length (filter ?P (take ?j ?ds)) \<le> length (take ?j ?ds)" by (rule length_filter_le)
  also have "\<dots> \<le> 15"
    using distinct_formats_bound [of "map fst ?ds"] A by simp
  finally have "as_u32 (length (filter ?P (take ?j ?ds))) = length (filter ?P (take ?j ?ds))"
    by (rule as_u32_small)
  with idx table nth_filter_take [OF j(1), of ?P] j(2) cnt show ?thesis by auto
qed

lemma decode_image_wire:
  assumes "case r of None \<Rightarrow> True | Some i \<Rightarrow> i < length table \<and> table ! i = pi_wire_format img"
  shows "decode_image table (image_wire img r) = Inr img"
  using assms by (cases r) (auto simp: decode_image_def image_wire_def)

lemma descriptor_round_trip: "descriptor_decode (descriptor_encode images) = Inr images"
proof -
  let ?st = "scan_images images"
  obtain table idx where bt: "build_table (sc_distinct ?st) = (table, idx)" by (cases "build_table (sc_distinct ?st)")
  let ?refs = "map (\<lambda>i. idx ! i) (sc_membership ?st)"
  have len: "length ?refs = length images" using scan_images_ok [of images] by (simp add: scan_ok_def)
  have "list_all2 (\<lambda>w img. decode_image table w = Inr img) (map2 image_wire images ?refs) images"
  proof (rule list_all2_all_nthI)
    fix k assume "k < length (map2 image_wire images ?refs)"
    with len have k: "k < length images" "k < length (sc_membership ?st)" by auto
    from encode_ref [OF scan_images_ok bt k(1)]
    have "decode_image table (image_wire (images ! k) (idx ! (sc_membership ?st ! k))) = Inr (images ! k)"
      by (intro decode_image_wire) (auto split: option.splits)
    with k len show "decode_image table (map2 image_wire images ?refs ! k) = Inr (images ! k)" by simp
  qed (use len in simp)
  then show ?thesis by (simp add: descriptor_decode_def descriptor_encode_def bt res_collect_Inr_iff)
qed

interpretation proxied: codec "\<lambda>_. True" descriptor_encode descriptor_decode
  by unfold_locales (rule descriptor_round_trip)

lemma encode_table:
  "set (wd_wire_formats (descriptor_encode images)) = {f. 2 \<le> format_count images f}
   \<and> distinct (wd_wire_formats (descriptor_encode images))"
proof -
  let ?ds = "sc_distinct (scan_images images)"
  note A = scan_images_ok [of images, unfolded scan_ok_def]
  have table: "wd_wire_formats (descriptor_encode images) = map fst (filter (\<lambda>fn. 2 \<le> snd fn) ?ds)"
    by (simp add: descriptor_encode_def build_table_eq Let_def)
  have cnt: "n = format_count images f" if "(f, n) \<in> set ?ds" for f n using A that by blast
  have "f \<in> fst ` set ?ds" if "2 \<le> format_count images f" for f
  proof -
    from that have "filter (\<lambda>x. pi_wire_format x = f) images \<noteq> []" by (auto simp: format_count_def)
    then obtain x where "x \<in> set images" "pi_wire_format x = f" by (auto simp: filter_empty_conv)
    then obtain k where k: "k < length images" "pi_wire_format (images ! k) = f" by (auto simp: in_set_conv_nth)
    with A have "sc_membership (scan_images images) ! k < length ?ds"
      "fst (?ds ! (sc_membership (scan_images images) ! k)) = f" by auto
    then show ?thesis by (metis image_eqI nth_mem)
  qed
  moreover have "distinct (map fst (filter (\<lambda>fn. 2 \<le> snd fn) ?ds))"
    using A by (simp add: distinct_map_filter)
  ultimately show ?thesis
    unfolding table using cnt by force
qed

lemma encode_images:
  assumes "k < length images"
  shows "wd_images (descriptor_encode images) ! k = image_wire (images ! k)
           (snd (build_table (sc_distinct (scan_images images))) ! (sc_membership (scan_images images) ! k))"
  using assms scan_images_ok [of images]
  by (simp add: descriptor_encode_def scan_ok_def case_prod_beta Let_def)

section \<open>Properties\<close>

text \<open>
  C37: decoding what the encoder wrote gives back every image with its format, for every
  descriptor: a reference always resolves to the format it stands for, and the narrowing
  of a table position to 32 bits loses nothing.
\<close>
theorem fetch_round_trip: "descriptor_decode (descriptor_encode images) = Inr images"
  by (rule proxied.round_trip) simp

text \<open>
  the shape of the wire form. The table holds exactly the formats that two or more
  images share, each once; the version marker is there exactly when the table is; an
  image is written inline exactly when its format is its own, so a descriptor with
  nothing shared is the fully inline form.
\<close>
theorem fetch_wire_shape:
  assumes "k < length images"
  shows "set (wd_wire_formats (descriptor_encode images)) = {f. 2 \<le> format_count images f}
    \<and> distinct (wd_wire_formats (descriptor_encode images))
    \<and> (wd_format_version (descriptor_encode images) = Some 2 \<longleftrightarrow> wd_wire_formats (descriptor_encode images) \<noteq> [])
    \<and> length (wd_images (descriptor_encode images)) = length images
    \<and> (wi_wire_format (wd_images (descriptor_encode images) ! k) = Some (pi_wire_format (images ! k))
         \<and> wi_wire_format_ref (wd_images (descriptor_encode images) ! k) = None
       \<longleftrightarrow> format_count images (pi_wire_format (images ! k)) = 1)"
proof -
  let ?f = "pi_wire_format (images ! k)"
  obtain table idx where bt: "build_table (sc_distinct (scan_images images)) = (table, idx)"
    by (cases "build_table (sc_distinct (scan_images images))")
  have pos: "format_count images ?f \<noteq> 0"
    using assms by (auto simp: format_count_def filter_empty_conv)
  have tab: "wd_wire_formats (descriptor_encode images) = table" by (simp add: descriptor_encode_def bt)
  have "wi_wire_format_ref (wd_images (descriptor_encode images) ! k) = None
      \<longleftrightarrow> format_count images ?f = 1"
  proof (cases "idx ! (sc_membership (scan_images images) ! k)")
    case None
    with encode_ref [OF scan_images_ok bt assms] pos show ?thesis
      by (simp add: encode_images [OF assms] bt image_wire_def)
  next
    case (Some i)
    with encode_ref [OF scan_images_ok bt assms] have "i < length table" "table ! i = ?f" by auto
    then have "?f \<in> set table" using nth_mem by force
    with encode_table [of images] tab have "2 \<le> format_count images ?f" by blast
    with Some show ?thesis by (simp add: encode_images [OF assms] bt image_wire_def)
  qed
  moreover have "wi_wire_format_ref (wd_images (descriptor_encode images) ! k) = None
      \<Longrightarrow> wi_wire_format (wd_images (descriptor_encode images) ! k) = Some ?f"
    by (auto simp: encode_images [OF assms] image_wire_def split: option.splits)
  moreover have "length (wd_images (descriptor_encode images)) = length images"
    using scan_images_ok [of images] by (simp add: descriptor_encode_def scan_ok_def case_prod_beta Let_def)
  ultimately show ?thesis
    using encode_table [of images] by (auto simp: tab descriptor_encode_def bt)
qed

theorem fetch_wire_shape_witness:
  "let images = [\<lparr>pi_image_id = ''a'', pi_wire_format = Raw Uint16\<rparr>, \<lparr>pi_image_id = ''b'', pi_wire_format = Zstd Uint8\<rparr>,
                 \<lparr>pi_image_id = ''c'', pi_wire_format = Raw Uint16\<rparr>]
   in wi_wire_format_ref (wd_images (descriptor_encode images) ! 1) = None
      \<and> set (wd_wire_formats (descriptor_encode images)) = {f. 2 \<le> format_count images f}"
proof -
  let ?im = "[\<lparr>pi_image_id = ''a'', pi_wire_format = Raw Uint16\<rparr>, \<lparr>pi_image_id = ''b'', pi_wire_format = Zstd Uint8\<rparr>,
    \<lparr>pi_image_id = ''c'', pi_wire_format = Raw Uint16\<rparr>]"
  have k: "1 < length ?im" by simp
  have "format_count ?im (pi_wire_format (?im ! 1)) = 1" by (simp add: format_count_def)
  with fetch_wire_shape [OF k] show ?thesis unfolding Let_def by blast
qed

end
