(* ===== verification/Document.thy ===== *)
theory Document
  imports Camera Fetch
begin

text \<open>
  The shared document of \<^verbatim>\<open>lucida-core/src/scene/types.rs\<close>: display settings, annotations with
  their comment threads, saved views, \<^verbatim>\<open>DocumentState\<close> and the document commands every peer and
  the server apply. \<^verbatim>\<open>IndexMap\<close> and \<^verbatim>\<open>HashMap\<close> are association lists with distinct keys in
  iteration order: \<open>AList.update\<close> is \<^verbatim>\<open>insert\<close> (a known key keeps its place) and
  \<open>AList.delete\<close> is \<^verbatim>\<open>shift_remove\<close>.
\<close>

section \<open>View and display settings\<close>

record view_state =
  vs_z_range :: "u32 \<times> u32"
  vs_t :: u32
  vs_c :: u32
  vs_multi_channel :: bool

definition view_new :: view_state where
  "view_new = \<lparr>vs_z_range = (0, 1), vs_t = 0, vs_c = 0, vs_multi_channel = False\<rparr>"

definition set_z :: "u32 \<Rightarrow> view_state \<Rightarrow> view_state" where
  "set_z i v = v\<lparr>vs_z_range := (i, i + 1)\<rparr>"

definition set_z_range :: "u32 \<times> u32 \<Rightarrow> view_state \<Rightarrow> view_state" where
  "set_z_range r v = v\<lparr>vs_z_range := r\<rparr>"

definition set_slice :: "string \<Rightarrow> u32 \<Rightarrow> view_state \<Rightarrow> string + view_state" where
  "set_slice axis i v =
     (if axis = ''z'' then Inr (set_z i v)
      else if axis = ''t'' then Inr (v\<lparr>vs_t := i\<rparr>)
      else if axis = ''c'' then Inr (v\<lparr>vs_c := i\<rparr>)
      else Inl (''unknown axis: '' @ axis))"

datatype blend_mode = Alpha | Additive | MaxBlend

datatype render_mode = Translucent | MaxIntensity

datatype colormap = Gray | Magenta | Green | Cyan | Red | Blue | Yellow | Viridis | Inferno | Plasma
  | Magma | Turbo | Hot | Cool | Jet

definition default_for_channel :: "nat \<Rightarrow> colormap" where
  "default_for_channel i = [Magenta, Green, Cyan] ! (i mod 3)"

record channel_settings =
  ch_visible :: bool
  ch_colormap :: colormap
  ch_contrast_min :: f64
  ch_contrast_max :: f64
  ch_gamma :: f64
  ch_name :: "string option"

definition channel_default :: channel_settings where
  "channel_default = \<lparr>ch_visible = True, ch_colormap = Gray, ch_contrast_min = 0,
     ch_contrast_max = flit 65535, ch_gamma = 1, ch_name = None\<rparr>"

record label_settings =
  lb_visible :: bool
  lb_opacity :: f32

definition label_default :: label_settings where
  "label_default = \<lparr>lb_visible = False, lb_opacity = flit (1/2)\<rparr>"

record display_settings =
  dd_visible :: bool
  dd_opacity :: f32
  dd_contrast_min :: f64
  dd_contrast_max :: f64
  dd_gamma :: f64
  dd_blend_mode :: blend_mode
  dd_render_mode :: render_mode
  dd_channels :: "channel_settings list"
  dd_labels :: "label_settings list"
  dd_channel_blend_mode :: blend_mode
  dd_detail_level_override :: "nat option"
  dd_label_names :: "string list"

definition dds_default :: display_settings where
  "dds_default = \<lparr>dd_visible = True, dd_opacity = 1, dd_contrast_min = 0, dd_contrast_max = flit 65535,
     dd_gamma = 1, dd_blend_mode = Alpha, dd_render_mode = Translucent, dd_channels = [], dd_labels = [],
     dd_channel_blend_mode = Additive, dd_detail_level_override = None, dd_label_names = []\<rparr>"

definition seeded_channel :: "nat \<Rightarrow> channel_settings" where
  "seeded_channel i = channel_default\<lparr>ch_colormap := default_for_channel i\<rparr>"

text \<open>The growing loops of \<^verbatim>\<open>ensure_channel\<close> and \<^verbatim>\<open>ensure_label\<close>.\<close>

function grow_channels :: "nat \<Rightarrow> channel_settings list \<Rightarrow> channel_settings list" where
  "grow_channels i cs = (if length cs \<le> i then grow_channels i (cs @ [seeded_channel (length cs)]) else cs)"
  by pat_completeness auto
termination by (relation "measure (\<lambda>(i, cs). Suc i - length cs)") auto

function grow_labels :: "nat \<Rightarrow> label_settings list \<Rightarrow> label_settings list" where
  "grow_labels i ls = (if length ls \<le> i then grow_labels i (ls @ [label_default]) else ls)"
  by pat_completeness auto
termination by (relation "measure (\<lambda>(i, ls). Suc i - length ls)") auto

declare grow_channels.simps [simp del] grow_labels.simps [simp del]

definition ensure_channel :: "nat \<Rightarrow> (channel_settings \<Rightarrow> channel_settings) \<Rightarrow> display_settings \<Rightarrow> display_settings" where
  "ensure_channel i f s = (let cs = grow_channels i (dd_channels s) in s\<lparr>dd_channels := cs[i := f (cs ! i)]\<rparr>)"

definition ensure_label :: "nat \<Rightarrow> (label_settings \<Rightarrow> label_settings) \<Rightarrow> display_settings \<Rightarrow> display_settings" where
  "ensure_label i f s = (let ls = grow_labels i (dd_labels s) in s\<lparr>dd_labels := ls[i := f (ls ! i)]\<rparr>)"

definition channel_count :: "dataset_manifest \<Rightarrow> nat" where
  "channel_count m = (case Option.bind (first_of (mf_images m)) (\<lambda>img. first_of (ms_levels (im_multiscale img))) of
                        Some l \<Rightarrow> at_c (lv_shape l) | None \<Rightarrow> 1)"

definition label_names :: "dataset_manifest \<Rightarrow> string list" where
  "label_names m = map ls_name (mf_labels m)"

definition seeded_for :: "dataset_manifest \<Rightarrow> display_settings" where
  "seeded_for m = dds_default\<lparr>dd_channels := map seeded_channel [0..<channel_count m],
     dd_labels := map (\<lambda>_. \<lparr>lb_visible = False, lb_opacity = flit (1/2)\<rparr>) (mf_labels m),
     dd_label_names := label_names m\<rparr>"

definition get_or_default :: "label_settings list \<Rightarrow> nat \<Rightarrow> label_settings" where
  "get_or_default saved i = (if i < length saved then saved ! i else label_default)"

text \<open>The inner loop of \<^verbatim>\<open>reconcile_label_settings\<close>: the \<open>want\<close>-th author entry with this name.\<close>

fun find_occurrence :: "string \<Rightarrow> nat \<Rightarrow> nat \<Rightarrow> nat \<Rightarrow> string list \<Rightarrow> nat option" where
  "find_occurrence name want matched i [] = None"
| "find_occurrence name want matched i (a # as) =
     (if a = name
      then if matched = want then Some i else find_occurrence name want (Suc matched) (Suc i) as
      else find_occurrence name want matched (Suc i) as)"

fun reconcile_loop :: "label_settings list \<Rightarrow> string list \<Rightarrow> (string \<rightharpoonup> nat) \<Rightarrow> string list \<Rightarrow> label_settings list" where
  "reconcile_loop saved author seen [] = []"
| "reconcile_loop saved author seen (name # rest) =
     (let want = (case seen name of None \<Rightarrow> 0 | Some n \<Rightarrow> n)
      in (case find_occurrence name want 0 0 author of
            Some i \<Rightarrow> get_or_default saved i | None \<Rightarrow> label_default)
         # reconcile_loop saved author (seen(name \<mapsto> Suc want)) rest)"

definition reconcile_label_settings :: "label_settings list \<Rightarrow> string list \<Rightarrow> string list \<Rightarrow> label_settings list" where
  "reconcile_label_settings saved author current =
     (if author = [] then map (get_or_default saved) [0..<length current]
      else reconcile_loop saved author Map.empty current)"

record display_state =
  ds_contrast_min :: f64
  ds_contrast_max :: f64
  ds_gamma :: f64

definition display_default :: display_state where
  "display_default = \<lparr>ds_contrast_min = 0, ds_contrast_max = flit 65535, ds_gamma = 1\<rparr>"

section \<open>Saved views\<close>

record saved_view =
  sv_v :: nat
  sv_datasets :: "string list"
  sv_active_layouts :: "(dataset_id \<times> layout_id) list"
  sv_camera :: camera
  sv_view :: view_state
  sv_display :: display_state
  sv_dataset_order :: "dataset_id list"
  sv_dataset_settings :: "(dataset_id \<times> display_settings) list"
  sv_auto_contrast :: "(dataset_id \<times> bool) list"

definition saved_view_empty :: "nat \<times> nat \<Rightarrow> saved_view" where
  "saved_view_empty vp = \<lparr>sv_v = 1, sv_datasets = [], sv_active_layouts = [], sv_camera = Slice (slice_new vp),
     sv_view = view_new, sv_display = display_default, sv_dataset_order = [], sv_dataset_settings = [],
     sv_auto_contrast = []\<rparr>"

definition clear_source_urls :: "saved_view \<Rightarrow> saved_view" where
  "clear_source_urls v = v\<lparr>sv_datasets := []\<rparr>"

text \<open>\<^verbatim>\<open>collect\<close> into a map: each pair inserted in turn.\<close>

definition collect_map :: "('k \<times> 'v) list \<Rightarrow> ('k \<times> 'v) list" where
  "collect_map kvs = fold (\<lambda>(k, v). AList.update k v) kvs []"

definition mapped :: "(dataset_id \<rightharpoonup> dataset_id) \<Rightarrow> dataset_id \<Rightarrow> dataset_id" where
  "mapped remap i = (case remap i of Some j \<Rightarrow> j | None \<Rightarrow> i)"

definition view_remap :: "(dataset_id \<rightharpoonup> dataset_id) \<Rightarrow> saved_view \<Rightarrow> saved_view" where
  "view_remap remap v =
     v\<lparr>sv_active_layouts := collect_map (map (\<lambda>(i, x). (mapped remap i, x)) (sv_active_layouts v)),
       sv_dataset_order := map (mapped remap) (sv_dataset_order v),
       sv_dataset_settings := collect_map (map (\<lambda>(i, x). (mapped remap i, x)) (sv_dataset_settings v)),
       sv_auto_contrast := collect_map (map (\<lambda>(i, x). (mapped remap i, x)) (sv_auto_contrast v))\<rparr>"

section \<open>Annotations\<close>

datatype annotation_kind = Point | Line | Box

record comment =
  cm_id :: string
  cm_author :: string
  cm_text :: string

record annotation =
  an_id :: string
  an_position :: vec2
  an_z :: f64
  an_t :: int
  an_c :: int
  an_author :: string
  an_kind :: annotation_kind
  an_end :: "vec2 option"
  an_comments :: "comment list"
  an_anchor :: "entity_id option"
  an_view :: "saved_view option"

definition vertices :: "annotation \<Rightarrow> vec2 list" where
  "vertices a = (case (an_kind a, an_end a) of
       (Line, Some e) \<Rightarrow> [an_position a, e]
     | (Box, Some e) \<Rightarrow> (case (an_position a, e) of ((x0, y0), (x1, y1)) \<Rightarrow>
         [(x0, y0), (x1, y0), (x1, y1), (x0, y1)])
     | _ \<Rightarrow> [an_position a])"

definition is_closed_shape :: "annotation \<Rightarrow> bool" where
  "is_closed_shape a \<longleftrightarrow> an_kind a = Box \<and> an_end a \<noteq> None"

text \<open>\<^verbatim>\<open>iter_mut().find(..)\<close> followed by an update of what was found.\<close>

fun update_first :: "('a \<Rightarrow> bool) \<Rightarrow> ('a \<Rightarrow> 'a) \<Rightarrow> 'a list \<Rightarrow> 'a list" where
  "update_first P f [] = []"
| "update_first P f (x # xs) = (if P x then f x # xs else x # update_first P f xs)"

definition upsert :: "('a \<Rightarrow> bool) \<Rightarrow> ('a \<Rightarrow> 'a) \<Rightarrow> 'a \<Rightarrow> 'a list \<Rightarrow> 'a list" where
  "upsert P f new xs = (if list_ex P xs then update_first P f xs else xs @ [new])"

definition ann_add_comment :: "comment \<Rightarrow> annotation \<Rightarrow> annotation" where
  "ann_add_comment c a = a\<lparr>an_comments := upsert (\<lambda>x. cm_id x = cm_id c) (\<lambda>_. c) c (an_comments a)\<rparr>"

definition ann_remove_comment :: "string \<Rightarrow> annotation \<Rightarrow> annotation \<times> bool" where
  "ann_remove_comment i a =
     (let kept = filter (\<lambda>c. cm_id c \<noteq> i) (an_comments a)
      in (a\<lparr>an_comments := kept\<rparr>, length kept \<noteq> length (an_comments a)))"

definition set_position :: "vec2 \<Rightarrow> f64 \<Rightarrow> annotation \<Rightarrow> annotation" where
  "set_position p z a =
     (let d = vsub2 p (an_position a)
      in a\<lparr>an_position := p, an_z := z, an_end := map_option (\<lambda>e. vadd2 e d) (an_end a)\<rparr>)"

definition set_vertices :: "vec2 \<Rightarrow> vec2 \<Rightarrow> f64 \<Rightarrow> annotation \<Rightarrow> annotation" where
  "set_vertices p e z a = a\<lparr>an_position := p, an_z := z, an_end := map_option (\<lambda>_. e) (an_end a)\<rparr>"

definition ann_edit_comment :: "string \<Rightarrow> string \<Rightarrow> annotation \<Rightarrow> annotation \<times> bool" where
  "ann_edit_comment i txt a =
     (if list_ex (\<lambda>c. cm_id c = i) (an_comments a)
      then (a\<lparr>an_comments := update_first (\<lambda>c. cm_id c = i) (\<lambda>c. c\<lparr>cm_text := txt\<rparr>) (an_comments a)\<rparr>, True)
      else (a, False))"

section \<open>The document\<close>

record document =
  doc_manifests :: "(dataset_id \<times> dataset_manifest) list"
  doc_registered_layouts :: "(dataset_id \<times> layout_spec list) list"
  doc_active_layout_ids :: "(dataset_id \<times> layout_id) list"
  doc_asset_catalogs :: "(dataset_id \<times> asset_catalog) list"
  doc_annotations :: "(dataset_id \<times> annotation list) list"

definition doc_default :: document where
  "doc_default = \<lparr>doc_manifests = [], doc_registered_layouts = [], doc_active_layout_ids = [],
     doc_asset_catalogs = [], doc_annotations = []\<rparr>"

definition register_dataset :: "dataset_manifest \<Rightarrow> document \<Rightarrow> document" where
  "register_dataset m d = d\<lparr>doc_manifests := AList.update (mf_dataset_id m) m (doc_manifests d)\<rparr>"

definition rekey :: "(dataset_id \<Rightarrow> dataset_id option) \<Rightarrow> (dataset_id \<Rightarrow> 'v \<Rightarrow> 'v) \<Rightarrow>
    (dataset_id \<times> 'v) list \<Rightarrow> (dataset_id \<times> 'v) list" where
  "rekey fate on_kept m =
     collect_map (List.map_filter (\<lambda>(i, v). map_option (\<lambda>j. (j, on_kept j v)) (fate i)) m)"

definition rekey_dataset_ids :: "(dataset_id \<Rightarrow> dataset_id option) \<Rightarrow> (dataset_id \<Rightarrow> annotation list \<Rightarrow> annotation list) \<Rightarrow>
    document \<Rightarrow> document" where
  "rekey_dataset_ids fate on_anns d =
     \<lparr>doc_manifests = rekey fate (\<lambda>j m. m\<lparr>mf_dataset_id := j\<rparr>) (doc_manifests d),
      doc_registered_layouts = rekey fate (\<lambda>_ v. v) (doc_registered_layouts d),
      doc_active_layout_ids = rekey fate (\<lambda>_ v. v) (doc_active_layout_ids d),
      doc_asset_catalogs = rekey fate (\<lambda>_ v. v) (doc_asset_catalogs d),
      doc_annotations = rekey fate on_anns (doc_annotations d)\<rparr>"

definition remap_annotation :: "(dataset_id \<rightharpoonup> dataset_id) \<Rightarrow> annotation \<Rightarrow> annotation" where
  "remap_annotation remap a = a\<lparr>an_view := map_option (\<lambda>v. clear_source_urls (view_remap remap v)) (an_view a)\<rparr>"

definition remap_dataset_ids :: "(dataset_id \<rightharpoonup> dataset_id) \<Rightarrow> document \<Rightarrow> document" where
  "remap_dataset_ids remap =
     rekey_dataset_ids (\<lambda>i. Some (mapped remap i)) (\<lambda>_ anns. map (remap_annotation remap) anns)"

definition remove_dataset :: "dataset_id \<Rightarrow> document \<Rightarrow> document" where
  "remove_dataset i = rekey_dataset_ids (\<lambda>c. if c = i then None else Some c) (\<lambda>_ anns. anns)"

text \<open>\<^verbatim>\<open>get_mut\<close> and an update of the entry, when there is one.\<close>

definition modify :: "'k \<Rightarrow> ('v \<Rightarrow> 'v) \<Rightarrow> ('k \<times> 'v) list \<Rightarrow> ('k \<times> 'v) list" where
  "modify k f m = (case map_of m k of None \<Rightarrow> m | Some v \<Rightarrow> AList.update k (f v) m)"

definition rename_dataset :: "dataset_id \<Rightarrow> string \<Rightarrow> document \<Rightarrow> document" where
  "rename_dataset i name d = d\<lparr>doc_manifests := modify i (\<lambda>m. m\<lparr>mf_name := name\<rparr>) (doc_manifests d)\<rparr>"

definition entry_or_default :: "'k \<Rightarrow> ('k \<times> 'v list) list \<Rightarrow> 'v list" where
  "entry_or_default k m = (case map_of m k of None \<Rightarrow> [] | Some v \<Rightarrow> v)"

definition add_annotation :: "dataset_id \<Rightarrow> annotation \<Rightarrow> document \<Rightarrow> document" where
  "add_annotation i a d =
     d\<lparr>doc_annotations := AList.update i
        (upsert (\<lambda>x. an_id x = an_id a) (\<lambda>x. a\<lparr>an_comments := an_comments x\<rparr>) a
           (entry_or_default i (doc_annotations d))) (doc_annotations d)\<rparr>"

definition remove_annotation :: "dataset_id \<Rightarrow> string \<Rightarrow> document \<Rightarrow> document" where
  "remove_annotation i aid d =
     (case map_of (doc_annotations d) i of
        None \<Rightarrow> d
      | Some l \<Rightarrow>
          let kept = filter (\<lambda>a. an_id a \<noteq> aid) l
          in d\<lparr>doc_annotations := (if kept = [] then AList.delete i (doc_annotations d)
                                   else AList.update i kept (doc_annotations d))\<rparr>)"

definition with_annotation :: "dataset_id \<Rightarrow> string \<Rightarrow> (annotation \<Rightarrow> annotation) \<Rightarrow> document \<Rightarrow> document" where
  "with_annotation i aid f d =
     d\<lparr>doc_annotations := modify i (update_first (\<lambda>a. an_id a = aid) f) (doc_annotations d)\<rparr>"

definition move_annotation :: "dataset_id \<Rightarrow> string \<Rightarrow> vec2 \<Rightarrow> vec2 option \<Rightarrow> f64 \<Rightarrow> document \<Rightarrow> document" where
  "move_annotation i aid p e z =
     with_annotation i aid (case e of Some e \<Rightarrow> set_vertices p e z | None \<Rightarrow> set_position p z)"

definition add_comment :: "dataset_id \<Rightarrow> string \<Rightarrow> comment \<Rightarrow> document \<Rightarrow> document" where
  "add_comment i aid c = with_annotation i aid (ann_add_comment c)"

definition remove_comment :: "dataset_id \<Rightarrow> string \<Rightarrow> string \<Rightarrow> document \<Rightarrow> document" where
  "remove_comment i aid cid = with_annotation i aid (\<lambda>a. fst (ann_remove_comment cid a))"

definition edit_comment :: "dataset_id \<Rightarrow> string \<Rightarrow> string \<Rightarrow> string \<Rightarrow> document \<Rightarrow> document" where
  "edit_comment i aid cid txt = with_annotation i aid (\<lambda>a. fst (ann_edit_comment cid txt a))"

text \<open>The catalog merge: union of the kinds, footprints replaced per kind.\<close>

definition push_new :: "'a \<Rightarrow> 'a list \<Rightarrow> 'a list" where
  "push_new x xs = (if x \<in> set xs then xs else xs @ [x])"

definition incoming_kinds :: "proxy_availability \<Rightarrow> proxy_kind list" where
  "incoming_kinds a = fold (\<lambda>f. push_new (pf_kind f)) (av_footprints a) (av_kinds a)"

definition merge_footprint :: "proxy_footprint \<Rightarrow> proxy_availability \<Rightarrow> proxy_availability" where
  "merge_footprint f e =
     e\<lparr>av_kinds := push_new (pf_kind f) (av_kinds e),
       av_footprints := upsert (\<lambda>x. pf_kind x = pf_kind f) (\<lambda>_. f) f (av_footprints e)\<rparr>"

definition merge_availability :: "proxy_availability \<Rightarrow> proxy_availability \<Rightarrow> proxy_availability" where
  "merge_availability inc e =
     fold merge_footprint (av_footprints inc) (e\<lparr>av_kinds := fold push_new (av_kinds inc) (av_kinds e)\<rparr>)"

definition apply_added :: "proxy_availability \<Rightarrow> asset_catalog \<Rightarrow> asset_catalog" where
  "apply_added a0 catalog =
     (let a = a0\<lparr>av_kinds := incoming_kinds a0\<rparr>
      in upsert (\<lambda>e. av_entity_id e = av_entity_id a) (merge_availability a) a catalog)"

definition apply_asset_catalog_delta :: "dataset_id \<Rightarrow> asset_catalog_delta \<Rightarrow> document \<Rightarrow> document" where
  "apply_asset_catalog_delta i delta d =
     d\<lparr>doc_asset_catalogs := AList.update i (fold apply_added delta (entry_or_default i (doc_asset_catalogs d)))
        (doc_asset_catalogs d)\<rparr>"

section \<open>Anchoring pins to entities\<close>

definition doc_layout :: "dataset_id \<Rightarrow> dataset_manifest \<Rightarrow> layout_id option \<Rightarrow> document \<Rightarrow> layout_spec" where
  "doc_layout i m active d = resolve_layout m (map_of (doc_registered_layouts d) i) active"

definition closer :: "layout_spec \<Rightarrow> dataset_manifest \<Rightarrow> vec2 \<Rightarrow> entity \<Rightarrow> (entity_id \<times> f64) option \<Rightarrow>
    (entity_id \<times> f64) option" where
  "closer l m p ent best =
     (case resolve_entity_position (ent_id ent) l (mf_entities m) (mf_transforms m) of
        None \<Rightarrow> best
      | Some pos \<Rightarrow>
          let d = vsub2 pos p; dist2 = fst d * fst d + snd d * snd d
          in (case best of
                None \<Rightarrow> Some (ent_id ent, dist2)
              | Some (_, b) \<Rightarrow> if dist2 < b then Some (ent_id ent, dist2) else best))"

definition nearest_anchor :: "dataset_id \<Rightarrow> vec2 \<Rightarrow> document \<Rightarrow> entity_id option" where
  "nearest_anchor i p d =
     (case map_of (doc_manifests d) i of
        None \<Rightarrow> None
      | Some m \<Rightarrow>
          (case mf_kind m of
             Single \<Rightarrow> None
           | Collection _ _ _ _ \<Rightarrow>
               let l = doc_layout i m (map_of (doc_active_layout_ids d) i) d
               in map_option fst (fold (closer l m p) (mf_entities m) None)))"

definition shift_annotation :: "vec2 \<Rightarrow> annotation \<Rightarrow> annotation" where
  "shift_annotation d a = a\<lparr>an_position := vadd2 (an_position a) d, an_end := map_option (\<lambda>e. vadd2 e d) (an_end a)\<rparr>"

definition reanchor_pin :: "dataset_manifest \<Rightarrow> layout_spec \<Rightarrow> layout_spec \<Rightarrow> annotation \<Rightarrow> annotation" where
  "reanchor_pin m from_layout to_layout a =
     (case an_anchor a of
        None \<Rightarrow> a
      | Some e \<Rightarrow>
          (case (resolve_entity_position e from_layout (mf_entities m) (mf_transforms m),
                 resolve_entity_position e to_layout (mf_entities m) (mf_transforms m)) of
             (Some f, Some t) \<Rightarrow> shift_annotation (vsub2 t f) a
           | _ \<Rightarrow> a))"

definition reanchor_for_layout :: "dataset_id \<Rightarrow> layout_id option \<Rightarrow> layout_id \<Rightarrow> document \<Rightarrow> document" where
  "reanchor_for_layout i from_id to_id d =
     (case map_of (doc_manifests d) i of
        None \<Rightarrow> d
      | Some m \<Rightarrow>
          if from_id = Some to_id then d
          else
            (case map_of (doc_annotations d) i of
               None \<Rightarrow> d
             | Some pins \<Rightarrow>
                 if list_all (\<lambda>p. an_anchor p = None) pins then d
                 else d\<lparr>doc_annotations := AList.update i
                          (map (reanchor_pin m (doc_layout i m from_id d) (doc_layout i m (Some to_id) d)) pins)
                          (doc_annotations d)\<rparr>))"

section \<open>Document commands\<close>

record dataset_opened =
  op_manifest :: dataset_manifest
  op_fetch :: fetch_source
  op_catalog :: asset_catalog
  op_opener :: "nat option"

datatype document_command =
    DatasetOpened dataset_opened
  | RemoveDataset dataset_id
  | RenameDataset dataset_id string
  | RegisterLayout dataset_id layout_spec
  | SetActiveLayout dataset_id layout_id
  | ApplyAssetCatalogDelta dataset_id asset_catalog_delta
  | AddAnnotation dataset_id string vec2 "vec2 option" f64 int int string annotation_kind "saved_view option"
  | RemoveAnnotation dataset_id string
  | AddComment dataset_id string string string string
  | RemoveComment dataset_id string string
  | MoveAnnotation dataset_id string vec2 "vec2 option" f64
  | EditComment dataset_id string string string

definition register_layout :: "dataset_id \<Rightarrow> layout_spec \<Rightarrow> document \<Rightarrow> document" where
  "register_layout i l d =
     (let ls = entry_or_default i (doc_registered_layouts d)
      in d\<lparr>doc_registered_layouts := AList.update i
            (if list_ex (\<lambda>x. lay_id x = lay_id l) ls then ls else ls @ [l]) (doc_registered_layouts d)\<rparr>)"

definition set_active_layout :: "dataset_id \<Rightarrow> layout_id \<Rightarrow> document \<Rightarrow> document" where
  "set_active_layout i l d =
     (let from_id = map_of (doc_active_layout_ids d) i;
          d1 = reanchor_for_layout i from_id l d
      in d1\<lparr>doc_active_layout_ids := AList.update i l (doc_active_layout_ids d1)\<rparr>)"

fun doc_apply :: "document_command \<Rightarrow> document \<Rightarrow> document" where
  "doc_apply (DatasetOpened ev) d =
     (let d1 = register_dataset (op_manifest ev) d
      in d1\<lparr>doc_asset_catalogs := AList.update (mf_dataset_id (op_manifest ev)) (op_catalog ev)
              (doc_asset_catalogs d1)\<rparr>)"
| "doc_apply (RemoveDataset i) d = remove_dataset i d"
| "doc_apply (RenameDataset i n) d = rename_dataset i n d"
| "doc_apply (RegisterLayout i l) d = register_layout i l d"
| "doc_apply (SetActiveLayout i l) d = set_active_layout i l d"
| "doc_apply (ApplyAssetCatalogDelta i delta) d = apply_asset_catalog_delta i delta d"
| "doc_apply (AddAnnotation i aid p e z t c author kind view) d =
     add_annotation i
       \<lparr>an_id = aid, an_position = p, an_z = z, an_t = t, an_c = c, an_author = author, an_kind = kind,
        an_end = e, an_comments = [], an_anchor = nearest_anchor i p d,
        an_view = map_option clear_source_urls view\<rparr> d"
| "doc_apply (RemoveAnnotation i aid) d = remove_annotation i aid d"
| "doc_apply (AddComment i aid cid author txt) d =
     add_comment i aid \<lparr>cm_id = cid, cm_author = author, cm_text = txt\<rparr> d"
| "doc_apply (RemoveComment i aid cid) d = remove_comment i aid cid d"
| "doc_apply (MoveAnnotation i aid p e z) d = move_annotation i aid p e z d"
| "doc_apply (EditComment i aid cid txt) d = edit_comment i aid cid txt d"

section \<open>Maps of the document\<close>

definition alist_all :: "('k \<Rightarrow> 'v \<Rightarrow> bool) \<Rightarrow> ('k \<times> 'v) list \<Rightarrow> bool" where
  "alist_all P m \<longleftrightarrow> distinct (map fst m) \<and> (\<forall>k v. (k, v) \<in> set m \<longrightarrow> P k v)"

lemma set_update: "(k', v') \<in> set (AList.update k v m) \<Longrightarrow> (k', v') = (k, v) \<or> (k', v') \<in> set m"
  by (induction m) (auto split: if_splits)

lemma alist_all_update: "alist_all P m \<Longrightarrow> P k v \<Longrightarrow> alist_all P (AList.update k v m)"
  using set_update by (fastforce simp: alist_all_def distinct_update)

lemma set_delete_subset: "set (AList.delete k m) \<subseteq> set m"
  by (induction m) auto

lemma alist_all_delete: "alist_all P m \<Longrightarrow> alist_all P (AList.delete k m)"
  unfolding alist_all_def using set_delete_subset distinct_delete by fastforce

lemma alist_all_lookup: "alist_all P m \<Longrightarrow> map_of m k = Some v \<Longrightarrow> P k v"
  by (auto simp: alist_all_def dest: map_of_SomeD)

lemma alist_all_modify:
  "alist_all P m \<Longrightarrow> (\<And>v. P k v \<Longrightarrow> P k (f v)) \<Longrightarrow> alist_all P (modify k f m)"
  by (auto simp: modify_def split: option.splits intro!: alist_all_update dest: alist_all_lookup)

lemma alist_all_entry:
  "alist_all (\<lambda>k v. P v) m \<Longrightarrow> P [] \<Longrightarrow> P (entry_or_default k m)"
  by (auto simp: entry_or_default_def split: option.splits dest: alist_all_lookup)

lemma alist_all_fold_update:
  "(\<And>k v. (k, v) \<in> set kvs \<Longrightarrow> P k v) \<Longrightarrow> alist_all P m \<Longrightarrow>
     alist_all P (fold (\<lambda>(k, v). AList.update k v) kvs m)"
  by (induction kvs arbitrary: m) (auto intro: alist_all_update)

lemma alist_all_collect:
  "(\<And>k v. (k, v) \<in> set kvs \<Longrightarrow> P k v) \<Longrightarrow> alist_all P (collect_map kvs)"
  unfolding collect_map_def by (rule alist_all_fold_update) (auto simp: alist_all_def)

lemma set_map_filter: "set (List.map_filter f xs) = {y. \<exists>x \<in> set xs. f x = Some y}"
  by (induction xs) (auto split: option.splits)

lemma alist_all_rekey:
  assumes "alist_all P m" "\<And>i v j. P i v \<Longrightarrow> fate i = Some j \<Longrightarrow> Q j (g j v)"
  shows "alist_all Q (rekey fate g m)"
  unfolding rekey_def
proof (rule alist_all_collect)
  fix j w assume "(j, w) \<in> set (List.map_filter (\<lambda>(i, v). map_option (\<lambda>j. (j, g j v)) (fate i)) m)"
  then obtain i v where iv: "(i, v) \<in> set m" "fate i = Some j" "w = g j v" by (auto simp: set_map_filter)
  with assms(1) have "P i v" by (simp add: alist_all_def)
  with iv assms(2) show "Q j w" by blast
qed

text \<open>With an injective fate nothing collides: the map is rekeyed entry by entry.\<close>

lemma update_new: "k \<notin> fst ` set m \<Longrightarrow> AList.update k v m = m @ [(k, v)]"
  by (induction m) auto

lemma collect_distinct: "distinct (map fst kvs) \<Longrightarrow> collect_map kvs = kvs"
proof -
  have "fold (\<lambda>(k, v). AList.update k v) kvs m = m @ kvs" if "distinct (map fst (m @ kvs))" for m
    using that
  proof (induction kvs arbitrary: m)
    case (Cons kv kvs)
    obtain k v where kv: "kv = (k, v)" by (cases kv)
    with Cons.prems have "k \<notin> fst ` set m" by auto
    with Cons.IH [of "m @ [(k, v)]"] Cons.prems kv show ?case by (simp add: update_new)
  qed simp
  then show "collect_map kvs = kvs" if "distinct (map fst kvs)" using that by (simp add: collect_map_def)
qed

definition inj_fate :: "(dataset_id \<Rightarrow> dataset_id option) \<Rightarrow> dataset_id set \<Rightarrow> bool" where
  "inj_fate fate A \<longleftrightarrow> (\<forall>i \<in> A. \<forall>j \<in> A. fate i \<noteq> None \<longrightarrow> fate i = fate j \<longrightarrow> i = j)"

lemma rekey_inj:
  assumes "distinct (map fst m)" "inj_fate fate (fst ` set m)"
  shows "rekey fate g m = List.map_filter (\<lambda>(i, v). map_option (\<lambda>j. (j, g j v)) (fate i)) m"
proof -
  let ?f = "\<lambda>(i, v). map_option (\<lambda>j. (j, g j v)) (fate i)"
  have "distinct (map fst (List.map_filter ?f m))"
    using assms
  proof (induction m)
    case (Cons iv m)
    obtain i v where iv: "iv = (i, v)" by (cases iv)
    from Cons have IH: "distinct (map fst (List.map_filter ?f m))" by (auto simp: inj_fate_def)
    show ?case
    proof (cases "fate i")
      case None
      with IH iv show ?thesis by simp
    next
      case (Some j)
      have "j \<notin> fst ` set (List.map_filter ?f m)"
      proof
        assume "j \<in> fst ` set (List.map_filter ?f m)"
        then obtain i' v' where "(i', v') \<in> set m" "fate i' = Some j" by (auto simp: set_map_filter)
        with Cons.prems iv Some have "i = i'" by (force simp: inj_fate_def)
        with \<open>(i', v') \<in> set m\<close> Cons.prems(1) iv show False by force
      qed
      with IH iv Some show ?thesis by simp
    qed
  qed simp
  then show ?thesis by (simp add: rekey_def collect_distinct)
qed

lemma map_of_rekey:
  assumes "distinct (map fst m)" "inj_fate fate A" "fst ` set m \<subseteq> A" "fate i = Some j" "i \<in> A"
  shows "map_of (rekey fate g m) j = map_option (g j) (map_of m i)"
proof -
  have "inj_fate fate (fst ` set m)" using assms(2,3) by (auto simp: inj_fate_def)
  note rekey_inj [OF assms(1) this]
  moreover have "map_of (List.map_filter (\<lambda>(i, v). map_option (\<lambda>j. (j, g j v)) (fate i)) m) j
      = map_option (g j) (map_of m i)"
    using assms(3)
  proof (induction m)
    case (Cons iv m)
    obtain i' v where iv: "iv = (i', v)" by (cases iv)
    have "fate i' \<noteq> Some j" if "i' \<noteq> i"
      using that assms(2,4,5) Cons.prems iv by (force simp: inj_fate_def)
    with Cons iv assms(4) show ?case by (cases "i' = i"; cases "fate i'") auto
  qed simp
  ultimately show ?thesis by simp
qed

section \<open>What every document looks like\<close>

definition annotation_wf :: "annotation \<Rightarrow> bool" where
  "annotation_wf a \<longleftrightarrow> distinct (map cm_id (an_comments a))
     \<and> (case an_view a of None \<Rightarrow> True | Some v \<Rightarrow> sv_datasets v = [])"

definition pins_wf :: "annotation list \<Rightarrow> bool" where
  "pins_wf pins \<longleftrightarrow> distinct (map an_id pins) \<and> (\<forall>a \<in> set pins. annotation_wf a)"

definition doc_wf :: "document \<Rightarrow> bool" where
  "doc_wf d \<longleftrightarrow>
     alist_all (\<lambda>i m. mf_dataset_id m = i) (doc_manifests d)
     \<and> alist_all (\<lambda>i ls. distinct (map lay_id ls)) (doc_registered_layouts d)
     \<and> alist_all (\<lambda>i l. True) (doc_active_layout_ids d)
     \<and> alist_all (\<lambda>i c. True) (doc_asset_catalogs d)
     \<and> alist_all (\<lambda>i pins. pins \<noteq> [] \<and> pins_wf pins) (doc_annotations d)"

lemma doc_wf_default: "doc_wf doc_default"
  by (simp add: doc_wf_def doc_default_def alist_all_def)

lemma length_update_first [simp]: "length (update_first P f xs) = length xs"
  by (induction xs) auto

lemma update_first_nil [simp]: "update_first P f xs = [] \<longleftrightarrow> xs = []"
  by (cases xs) auto

lemma map_update_first: "(\<And>x. P x \<Longrightarrow> g (f x) = g x) \<Longrightarrow> map g (update_first P f xs) = map g xs"
  by (induction xs) auto

lemma set_update_first: "y \<in> set (update_first P f xs) \<Longrightarrow> y \<in> set xs \<or> (\<exists>x \<in> set xs. P x \<and> y = f x)"
  by (induction xs) (auto split: if_splits)

lemma pins_wf_update_first:
  assumes "pins_wf pins" "\<And>a. P a \<Longrightarrow> an_id (f a) = an_id a" "\<And>a. P a \<Longrightarrow> annotation_wf a \<Longrightarrow> annotation_wf (f a)"
  shows "pins_wf (update_first P f pins)"
proof -
  have "annotation_wf x" if "x \<in> set (update_first P f pins)" for x
    using set_update_first [OF that] assms(1,3) by (auto simp: pins_wf_def)
  with assms(1,2) show ?thesis by (simp add: pins_wf_def map_update_first)
qed

lemma upsert_comments:
  assumes "distinct (map cm_id cs)"
  shows "distinct (map cm_id (upsert (\<lambda>x. cm_id x = cm_id c) (\<lambda>_. c) c cs))"
proof -
  have "map cm_id (update_first (\<lambda>x. cm_id x = cm_id c) (\<lambda>_. c) cs) = map cm_id cs"
    by (rule map_update_first) simp
  with assms show ?thesis by (auto simp: upsert_def list_ex_iff)
qed

lemma pins_wf_upsert:
  assumes "pins_wf pins" "annotation_wf a" "an_comments a = []"
  shows "pins_wf (upsert (\<lambda>x. an_id x = an_id a) (\<lambda>x. a\<lparr>an_comments := an_comments x\<rparr>) a pins)"
proof (cases "list_ex (\<lambda>x. an_id x = an_id a) pins")
  case True
  have "pins_wf (update_first (\<lambda>x. an_id x = an_id a) (\<lambda>x. a\<lparr>an_comments := an_comments x\<rparr>) pins)"
    by (rule pins_wf_update_first [OF assms(1)]) (use assms(2) in \<open>auto simp: annotation_wf_def split: option.splits\<close>)
  with True show ?thesis by (simp add: upsert_def)
next
  case False
  with assms show ?thesis by (auto simp: upsert_def pins_wf_def list_ex_iff)
qed

lemma upsert_nonempty [simp]: "upsert P f a xs \<noteq> []"
  by (auto simp: upsert_def)

lemma add_annotation_wf:
  assumes "doc_wf d" "annotation_wf a" "an_comments a = []"
  shows "doc_wf (add_annotation i a d)"
proof -
  have "pins_wf (entry_or_default i (doc_annotations d))"
    using assms(1) by (auto simp: doc_wf_def entry_or_default_def pins_wf_def split: option.splits dest: alist_all_lookup)
  from pins_wf_upsert [OF this assms(2,3)] assms(1) show ?thesis
    by (simp add: doc_wf_def add_annotation_def alist_all_update)
qed

lemma with_annotation_wf:
  assumes "doc_wf d" "\<And>a. an_id (f a) = an_id a" "\<And>a. annotation_wf a \<Longrightarrow> annotation_wf (f a)"
  shows "doc_wf (with_annotation i aid f d)"
  using assms unfolding doc_wf_def with_annotation_def
  by (auto intro!: alist_all_modify pins_wf_update_first)

lemma add_comment_id: "an_id (ann_add_comment c a) = an_id a"
  by (simp add: ann_add_comment_def)

lemma add_comment_annotation_wf: "annotation_wf a \<Longrightarrow> annotation_wf (ann_add_comment c a)"
  by (simp add: ann_add_comment_def annotation_wf_def upsert_comments)

lemma rekey_wf:
  assumes "doc_wf d" "\<And>j pins. pins_wf pins \<Longrightarrow> pins \<noteq> [] \<Longrightarrow> pins_wf (g j pins) \<and> g j pins \<noteq> []"
  shows "doc_wf (rekey_dataset_ids fate g d)"
  using assms unfolding doc_wf_def rekey_dataset_ids_def
  by (auto intro!: alist_all_rekey)

lemma reanchor_pin_keeps:
  "an_id (reanchor_pin m f t a) = an_id a" "annotation_wf (reanchor_pin m f t a) = annotation_wf a"
  "an_comments (reanchor_pin m f t a) = an_comments a" "an_view (reanchor_pin m f t a) = an_view a"
  "an_anchor (reanchor_pin m f t a) = an_anchor a"
  by (auto simp: reanchor_pin_def shift_annotation_def annotation_wf_def split: option.splits)

lemma pins_wf_reanchor: "pins_wf (map (reanchor_pin m f t) pins) = pins_wf pins"
  by (simp add: pins_wf_def reanchor_pin_keeps comp_def)

lemma doc_apply_wf:
  assumes "doc_wf d"
  shows "doc_wf (doc_apply c d)"
proof (cases c)
  case (DatasetOpened ev)
  with assms show ?thesis
    by (auto simp: doc_wf_def register_dataset_def Let_def intro!: alist_all_update)
next
  case (RemoveDataset i)
  with assms show ?thesis by (auto simp: remove_dataset_def intro!: rekey_wf)
next
  case (RenameDataset i n)
  with assms show ?thesis by (auto simp: doc_wf_def rename_dataset_def intro!: alist_all_modify)
next
  case (RegisterLayout i l)
  have "distinct (map lay_id (entry_or_default i (doc_registered_layouts d)))"
    using assms by (auto simp: doc_wf_def intro: alist_all_entry)
  then have "distinct (map lay_id (if list_ex (\<lambda>x. lay_id x = lay_id l) ls then ls else ls @ [l]))"
    if "ls = entry_or_default i (doc_registered_layouts d)" for ls
    using that by (auto simp: list_ex_iff)
  with assms RegisterLayout show ?thesis
    by (simp add: doc_wf_def register_layout_def Let_def alist_all_update)
next
  case (SetActiveLayout i l)
  have "doc_wf (reanchor_for_layout i f l d)" for f
    using assms by (auto simp: doc_wf_def reanchor_for_layout_def pins_wf_reanchor split: option.splits
        intro!: alist_all_update dest: alist_all_lookup)
  then have "doc_wf (reanchor_for_layout i (map_of (doc_active_layout_ids d) i) l d)" .
  then show ?thesis
    by (auto simp: SetActiveLayout doc_wf_def set_active_layout_def Let_def intro!: alist_all_update)
next
  case (ApplyAssetCatalogDelta i delta)
  with assms show ?thesis
    by (auto simp: doc_wf_def apply_asset_catalog_delta_def intro!: alist_all_update)
next
  case (AddAnnotation i aid p e z t ch author kind view)
  show ?thesis
    unfolding AddAnnotation doc_apply.simps
    by (rule add_annotation_wf [OF assms])
      (auto simp: annotation_wf_def clear_source_urls_def split: option.splits)
next
  case (RemoveAnnotation i aid)
  have "pins_wf (filter (\<lambda>a. an_id a \<noteq> aid) l)" if "map_of (doc_annotations d) i = Some l" for l
    using assms that by (auto simp: doc_wf_def pins_wf_def distinct_map_filter dest: alist_all_lookup)
  with assms RemoveAnnotation show ?thesis
    by (auto simp: doc_wf_def remove_annotation_def Let_def split: option.splits
        intro!: alist_all_update alist_all_delete)
next
  case (AddComment i aid cid author body)
  show ?thesis
    unfolding AddComment doc_apply.simps add_comment_def
    by (rule with_annotation_wf [OF assms add_comment_id add_comment_annotation_wf])
next
  case (RemoveComment i aid cid)
  show ?thesis
    unfolding RemoveComment doc_apply.simps remove_comment_def
    by (rule with_annotation_wf [OF assms])
      (auto simp: ann_remove_comment_def annotation_wf_def Let_def distinct_map_filter)
next
  case (MoveAnnotation i aid p e z)
  show ?thesis
    unfolding MoveAnnotation doc_apply.simps move_annotation_def
    by (rule with_annotation_wf [OF assms])
      (auto simp: set_vertices_def set_position_def annotation_wf_def Let_def split: option.splits)
next
  case (EditComment i aid cid body)
  show ?thesis
    unfolding EditComment doc_apply.simps edit_comment_def
    by (rule with_annotation_wf [OF assms])
      (auto simp: ann_edit_comment_def annotation_wf_def map_update_first)
qed

definition doc_init :: "document \<Rightarrow> bool" where
  "doc_init d \<longleftrightarrow> d = doc_default"

text \<open>One step of the shared document: a command, or the remapping of a duplicated workspace.\<close>

inductive doc_step :: "document \<Rightarrow> document \<Rightarrow> bool" where
  command: "doc_step d (doc_apply c d)"
| duplicate: "doc_step d (remap_dataset_ids remap d)"

lemma remap_pins_wf:
  "pins_wf pins \<Longrightarrow> pins_wf (map (remap_annotation remap) pins)"
  by (auto simp: pins_wf_def remap_annotation_def annotation_wf_def clear_source_urls_def comp_def
        split: option.splits)

lemma remap_wf: "doc_wf d \<Longrightarrow> doc_wf (remap_dataset_ids remap d)"
  unfolding remap_dataset_ids_def by (rule rekey_wf) (auto intro: remap_pins_wf)

interpretation documents: invariant_system doc_init doc_step doc_wf
  by unfold_locales (auto simp: doc_init_def doc_wf_default elim!: doc_step.cases intro: doc_apply_wf remap_wf)

end
