(* ===== verification/Replay.thy ===== *)
theory Replay
  imports Document
begin

text \<open>
  What the shared document promises its peers: commands that reach a peer twice change
  nothing the second time, a dataset goes without a trace and without touching the
  others, and a duplicated workspace is the original under new ids. The definitions are
  those of \<open>Document\<close>.
\<close>

section \<open>Repeated updates\<close>

lemma update_update: "AList.update k v (AList.update k w m) = AList.update k v m"
  by (induction m) auto

lemma map_of_update: "map_of (AList.update k v m) k = Some v"
  by (simp add: update_conv')

lemma modify_modify: "modify k f (modify k g m) = modify k (\<lambda>v. f (g v)) m"
  by (cases "map_of m k") (auto simp: modify_def update_update map_of_update)

lemma modify_idem: "(\<And>v. f (f v) = f v) \<Longrightarrow> modify k f (modify k f m) = modify k f m"
  by (simp add: modify_modify)

lemma entry_update [simp]: "entry_or_default k (AList.update k v m) = v"
  by (simp add: entry_or_default_def map_of_update)

lemma update_first_idem:
  "(\<And>x. P x \<Longrightarrow> P (f x)) \<Longrightarrow> (\<And>x. P x \<Longrightarrow> f (f x) = f x) \<Longrightarrow>
     update_first P f (update_first P f xs) = update_first P f xs"
  by (induction xs) auto

lemma update_first_ex: "(\<And>x. P x \<Longrightarrow> P (f x)) \<Longrightarrow> list_ex P (update_first P f xs) = list_ex P xs"
  by (induction xs) auto

lemma update_first_append: "\<not> list_ex P xs \<Longrightarrow> update_first P f (xs @ ys) = xs @ update_first P f ys"
  by (induction xs) auto

lemma upsert_idem:
  assumes "\<And>x. P x \<Longrightarrow> P (f x)" "\<And>x. P x \<Longrightarrow> f (f x) = f x" "P a" "f a = a"
  shows "upsert P f a (upsert P f a xs) = upsert P f a xs"
  using assms by (auto simp: upsert_def update_first_ex update_first_idem update_first_append)

lemma with_annotation_idem:
  assumes "\<And>a. an_id (f a) = an_id a" "\<And>a. f (f a) = f a"
  shows "with_annotation i aid f (with_annotation i aid f d) = with_annotation i aid f d"
proof -
  have "update_first (\<lambda>a. an_id a = aid) f (update_first (\<lambda>a. an_id a = aid) f v)
      = update_first (\<lambda>a. an_id a = aid) f v" for v
    by (rule update_first_idem) (simp_all add: assms)
  then show ?thesis by (simp add: with_annotation_def modify_idem)
qed

section \<open>Catalog merges\<close>

definition delta_canonical :: "asset_catalog_delta \<Rightarrow> bool" where
  "delta_canonical delta \<longleftrightarrow> distinct (map av_entity_id delta)
     \<and> (\<forall>a \<in> set delta. distinct (map pf_kind (av_footprints a)))"

lemma find_upsert_other:
  assumes "\<And>x. P x \<Longrightarrow> \<not> Q x" "\<And>x. P x \<Longrightarrow> \<not> Q (f x)" "P new" "find Q xs = Some y"
  shows "find Q (upsert P f new xs) = Some y"
proof -
  have "find Q (update_first P f xs) = find Q xs" using assms(1,2) by (induction xs) auto
  moreover have "find Q (xs @ [new]) = find Q xs" using assms(4) by (induction xs) auto
  ultimately show ?thesis using assms(4) by (simp add: upsert_def)
qed

lemma list_ex_find: "list_ex P xs \<longleftrightarrow> find P xs \<noteq> None"
  by (induction xs) auto

lemma find_upsert_same:
  assumes "\<And>x. P x \<Longrightarrow> P (f x)" "P new"
  shows "find P (upsert P f new xs) = Some (case find P xs of None \<Rightarrow> new | Some y \<Rightarrow> f y)"
proof -
  have "find P (update_first P f xs) = map_option f (find P xs)" using assms(1) by (induction xs) auto
  moreover have "find P xs = None \<Longrightarrow> find P (xs @ [new]) = Some new" using assms(2) by (induction xs) auto
  ultimately show ?thesis by (cases "find P xs") (auto simp: upsert_def list_ex_find)
qed

lemma upsert_absorbed: "find P xs = Some y \<Longrightarrow> f y = y \<Longrightarrow> upsert P f new xs = xs"
proof -
  assume y: "find P xs = Some y" "f y = y"
  then have "list_ex P xs" by (induction xs) (auto split: if_splits)
  moreover from y have "update_first P f xs = xs" by (induction xs) (auto split: if_splits)
  ultimately show ?thesis by (simp add: upsert_def)
qed

text \<open>
  A fold of steps that are each absorbed once taken, and stay absorbed under the others,
  is absorbed as a whole.
\<close>

lemma fold_absorbed:
  assumes same: "\<And>a c. a \<in> set as \<Longrightarrow> step a (step a c) = step a c"
    and other: "\<And>a b c. a \<in> set as \<Longrightarrow> b \<in> set as \<Longrightarrow> key a \<noteq> key b \<Longrightarrow> step a c = c \<Longrightarrow> step a (step b c) = step b c"
    and dist: "distinct (map key as)"
  shows "\<forall>a \<in> set as. step a (fold step as c) = fold step as c"
  using assms
proof (induction as rule: rev_induct)
  case Nil
  then show ?case by simp
next
  case (snoc b as)
  have IH: "\<forall>a \<in> set as. step a (fold step as c) = fold step as c"
    by (rule snoc.IH) (use snoc.prems in auto)
  have "step a (step b (fold step as c)) = step b (fold step as c)" if "a \<in> set (as @ [b])" for a
  proof (cases "a \<in> set as")
    case True
    then have "key a \<in> key ` set as" by (rule imageI)
    with snoc.prems(3) have "key a \<noteq> key b" by auto
    with True IH show ?thesis by (intro snoc.prems(2)) auto
  next
    case False
    with that have "a = b" by simp
    then show ?thesis using snoc.prems(1) [of b] by simp
  qed
  then show ?case by simp
qed

lemma fold_id: "\<forall>a \<in> set as. step a c = c \<Longrightarrow> fold step as c = c"
  by (induction as) auto

lemma push_new_set [simp]: "set (push_new x xs) = insert x (set xs)"
  by (auto simp: push_new_def)

lemma push_all_set [simp]: "set (fold push_new ks xs) = set ks \<union> set xs"
  by (induction ks arbitrary: xs) auto

lemma push_all_absorbed: "set ks \<subseteq> set xs \<Longrightarrow> fold push_new ks xs = xs"
  by (induction ks) (auto simp: push_new_def)

abbreviation put_footprint :: "proxy_footprint \<Rightarrow> proxy_footprint list \<Rightarrow> proxy_footprint list" where
  "put_footprint f \<equiv> upsert (\<lambda>x. pf_kind x = pf_kind f) (\<lambda>_. f) f"

lemma merge_availability_eq:
  "merge_availability inc e =
     e\<lparr>av_kinds := fold push_new (av_kinds inc @ map pf_kind (av_footprints inc)) (av_kinds e),
       av_footprints := fold put_footprint (av_footprints inc) (av_footprints e)\<rparr>"
proof -
  have "fold merge_footprint fs e = e\<lparr>av_kinds := fold push_new (map pf_kind fs) (av_kinds e),
      av_footprints := fold put_footprint fs (av_footprints e)\<rparr>" for fs and e
    by (induction fs arbitrary: e) (simp_all add: merge_footprint_def)
  then show ?thesis by (simp add: merge_availability_def)
qed

lemma put_footprint_same: "put_footprint f (put_footprint f l) = put_footprint f l"
  by (rule upsert_idem) simp_all

lemma find_put:
  "put_footprint f l = l \<longleftrightarrow> find (\<lambda>x. pf_kind x = pf_kind f) l = Some f"
proof
  assume "put_footprint f l = l"
  then have "find (\<lambda>x. pf_kind x = pf_kind f) l = find (\<lambda>x. pf_kind x = pf_kind f) (put_footprint f l)" by simp
  also have "\<dots> = Some f" by (subst find_upsert_same) (auto split: option.splits)
  finally show "find (\<lambda>x. pf_kind x = pf_kind f) l = Some f" .
qed (rule upsert_absorbed, simp_all)

lemma put_footprint_other:
  "pf_kind f \<noteq> pf_kind g \<Longrightarrow> put_footprint f l = l \<Longrightarrow> put_footprint f (put_footprint g l) = put_footprint g l"
  unfolding find_put by (rule find_upsert_other) auto

lemma put_all_absorbed:
  "distinct (map pf_kind fs) \<Longrightarrow> fold put_footprint fs (fold put_footprint fs l) = fold put_footprint fs l"
  by (rule fold_id) (rule fold_absorbed [where key = pf_kind], simp_all add: put_footprint_same put_footprint_other)

lemma put_all_self: "distinct (map pf_kind fs) \<Longrightarrow> fold put_footprint fs fs = fs"
proof (rule fold_id, rule ballI)
  fix f assume "distinct (map pf_kind fs)" "f \<in> set fs"
  then have "find (\<lambda>x. pf_kind x = pf_kind f) fs = Some f"
  proof (induction fs)
    case (Cons g fs)
    show ?case
    proof (cases "f = g")
      case False
      with Cons.prems(2) have f: "f \<in> set fs" by simp
      with Cons.prems(1) imageI [OF f, of pf_kind] have "pf_kind g \<noteq> pf_kind f" by auto
      with Cons.IH Cons.prems(1) f show ?thesis by simp
    qed simp
  qed simp
  then show "put_footprint f fs = fs" by (simp add: find_put)
qed

lemma merge_absorbed:
  assumes "distinct (map pf_kind (av_footprints a))" "set (map pf_kind (av_footprints a)) \<subseteq> set (av_kinds a)"
  shows "merge_availability a (merge_availability a e) = merge_availability a e" "merge_availability a a = a"
proof -
  let ?ks = "av_kinds a @ map pf_kind (av_footprints a)"
  have push: "fold push_new ?ks (fold push_new ?ks ks) = fold push_new ?ks ks" for ks
    by (rule push_all_absorbed) (simp only: push_all_set Un_upper1)
  have sel: "av_kinds (merge_availability a e) = fold push_new ?ks (av_kinds e)"
    "av_footprints (merge_availability a e) = fold put_footprint (av_footprints a) (av_footprints e)"
    "av_entity_id (merge_availability a e) = av_entity_id e" for e
    unfolding merge_availability_eq by simp_all
  show "merge_availability a (merge_availability a e) = merge_availability a e"
    by (rule proxy_availability.equality) (simp_all only: sel push put_all_absorbed [OF assms(1)], simp)
  have "fold push_new ?ks (av_kinds a) = av_kinds a" by (rule push_all_absorbed) (use assms(2) in simp)
  then show "merge_availability a a = a"
    by (simp only: merge_availability_eq put_all_self [OF assms(1)]) simp
qed

lemma incoming_kinds_cover: "set (map pf_kind (av_footprints a)) \<subseteq> set (incoming_kinds a)"
proof -
  have "set (fold (\<lambda>f. push_new (pf_kind f)) fs ks) = pf_kind ` set fs \<union> set ks" for fs ks
    by (induction fs arbitrary: ks) auto
  then show ?thesis by (auto simp: incoming_kinds_def)
qed

lemma merge_entity [simp]: "av_entity_id (merge_availability a e) = av_entity_id e"
  by (simp add: merge_availability_eq)

lemma apply_added_same:
  assumes "distinct (map pf_kind (av_footprints a))"
  shows "apply_added a (apply_added a c) = apply_added a c"
  unfolding apply_added_def Let_def
  by (rule upsert_idem) (use assms incoming_kinds_cover [of a] merge_absorbed [of "a\<lparr>av_kinds := incoming_kinds a\<rparr>"] in auto)

lemma apply_added_fixed:
  assumes "apply_added a c = c"
  shows "\<exists>e. find (\<lambda>e. av_entity_id e = av_entity_id a) c = Some e
           \<and> merge_availability (a\<lparr>av_kinds := incoming_kinds a\<rparr>) e = e"
proof -
  let ?a = "a\<lparr>av_kinds := incoming_kinds a\<rparr>"
  let ?P = "\<lambda>e. av_entity_id e = av_entity_id a"
  have up: "upsert ?P (merge_availability ?a) ?a c = c" using assms by (simp add: apply_added_def Let_def)
  have ex: "list_ex ?P c"
  proof (rule ccontr)
    assume "\<not> list_ex ?P c"
    with up have "c @ [?a] = c" by (simp add: upsert_def)
    then show False by simp
  qed
  then obtain e where e: "find ?P c = Some e" by (auto simp: list_ex_find)
  from up ex have "update_first ?P (merge_availability ?a) c = c" by (simp add: upsert_def)
  with e have "merge_availability ?a e = e" by (induction c) (auto split: if_splits)
  with e show ?thesis by blast
qed

lemma apply_added_other:
  assumes "av_entity_id a \<noteq> av_entity_id b" "apply_added a c = c"
  shows "apply_added a (apply_added b c) = apply_added b c"
proof -
  obtain e where e: "find (\<lambda>e. av_entity_id e = av_entity_id a) c = Some e"
    "merge_availability (a\<lparr>av_kinds := incoming_kinds a\<rparr>) e = e" using apply_added_fixed [OF assms(2)] by blast
  have "find (\<lambda>e. av_entity_id e = av_entity_id a) (apply_added b c) = Some e"
    unfolding apply_added_def Let_def by (rule find_upsert_other) (use assms(1) e(1) in auto)
  from upsert_absorbed [OF this, where f = "merge_availability (a\<lparr>av_kinds := incoming_kinds a\<rparr>)"] e(2)
  show ?thesis by (simp add: apply_added_def [of a] Let_def)
qed

lemma delta_absorbed:
  assumes "delta_canonical delta"
  shows "fold apply_added delta (fold apply_added delta c) = fold apply_added delta c"
proof (rule fold_id, rule fold_absorbed [where key = av_entity_id])
  show "apply_added a (apply_added a c) = apply_added a c" if "a \<in> set delta" for a c
    using that assms by (auto simp: delta_canonical_def intro: apply_added_same)
  show "distinct (map av_entity_id delta)" using assms by (simp add: delta_canonical_def)
qed (rule apply_added_other)

text \<open>
  The merge is not idempotent without that: a new entity's footprints are stored as they
  come, so a delta that lists one kind twice is stored with both and rewritten on replay.
\<close>

definition repeated_kind_delta :: asset_catalog_delta where
  "repeated_kind_delta = [\<lparr>av_entity_id = ''e'', av_kinds = [],
     av_footprints = [footprint_u16 TileProxy3D (1, 1, 1), footprint_u16 TileProxy3D (2, 2, 2)]\<rparr>]"

lemma catalog_delta_repeated_kind:
  "fold apply_added repeated_kind_delta (fold apply_added repeated_kind_delta [])
     \<noteq> fold apply_added repeated_kind_delta []"
  by (simp add: repeated_kind_delta_def apply_added_def incoming_kinds_def push_new_def upsert_def
      merge_availability_eq footprint_u16_def)

subsection \<open>Any delta settles\<close>

text \<open>
  Once a catalog lists everything a delta names, applying the delta only overwrites footprints in
  place. Overwriting the same places in the same order twice is overwriting them once.
\<close>

lemma fold_overwritten:
  assumes same: "\<And>x y s. loc x = loc y \<Longrightarrow> step x (step y s) = step x s"
    and other: "\<And>x y s. loc x \<noteq> loc y \<Longrightarrow> step x (step y s) = step y (step x s)"
    and "loc x \<in> loc ` set xs"
  shows "fold step xs (step x s) = fold step xs s"
  using assms(3)
proof (induction xs arbitrary: s)
  case (Cons y ys)
  show ?case
  proof (cases "loc y = loc x")
    case False
    then have "loc x \<in> loc ` set ys" using Cons.prems by auto
    then show ?thesis using Cons.IH [of "step y s"] other [OF False, of s] by simp
  qed (simp add: same)
qed simp

lemma fold_overwrites:
  assumes "\<And>x y s. loc x = loc y \<Longrightarrow> step x (step y s) = step x s"
    and "\<And>x y s. loc x \<noteq> loc y \<Longrightarrow> step x (step y s) = step y (step x s)"
  shows "fold step xs (fold step xs s) = fold step xs s"
proof -
  have "fold step xs (fold step ys s) = fold step xs s" if "set ys \<subseteq> set xs" for ys
    using that
  proof (induction ys rule: rev_induct)
    case (snoc y ys)
    have "fold step xs (step y (fold step ys s)) = fold step xs (fold step ys s)"
      by (rule fold_overwritten [of loc, OF assms]) (use snoc.prems in auto)
    with snoc show ?case by simp
  qed simp
  then show ?thesis by simp
qed

lemma update_first_comp: "(\<And>x. P x \<Longrightarrow> P (f x)) \<Longrightarrow> update_first P g (update_first P f xs) = update_first P (\<lambda>x. g (f x)) xs"
  by (induction xs) auto

lemma update_first_cong: "find P xs = Some x \<Longrightarrow> f x = g x \<Longrightarrow> update_first P f xs = update_first P g xs"
  by (induction xs) (auto split: if_splits)

lemma update_first_commute:
  assumes "\<And>x. P x \<Longrightarrow> P (f x)" "\<And>x. Q x \<Longrightarrow> Q (g x)" "\<And>x. P x \<Longrightarrow> \<not> Q x"
  shows "update_first P f (update_first Q g xs) = update_first Q g (update_first P f xs)"
  using assms by (induction xs) auto

abbreviation set_footprint :: "proxy_footprint \<Rightarrow> proxy_footprint list \<Rightarrow> proxy_footprint list" where
  "set_footprint f \<equiv> update_first (\<lambda>x. pf_kind x = pf_kind f) (\<lambda>_. f)"

definition assign_footprint :: "entity_id \<times> proxy_footprint \<Rightarrow> asset_catalog \<Rightarrow> asset_catalog" where
  "assign_footprint = (\<lambda>(e, f). update_first (\<lambda>x. av_entity_id x = e) (\<lambda>x. x\<lparr>av_footprints := set_footprint f (av_footprints x)\<rparr>))"

lemma assign_same:
  assumes "fst p = fst q" "pf_kind (snd p) = pf_kind (snd q)"
  shows "assign_footprint p (assign_footprint q c) = assign_footprint p c"
  using assms unfolding assign_footprint_def
  by (cases p; cases q) (simp add: update_first_comp)

lemma assign_other:
  assumes "(fst p, pf_kind (snd p)) \<noteq> (fst q, pf_kind (snd q))"
  shows "assign_footprint p (assign_footprint q c) = assign_footprint q (assign_footprint p c)"
proof -
  obtain e f e' g where pq: "p = (e, f)" "q = (e', g)" by (cases p; cases q) auto
  show ?thesis
  proof (cases "e = e'")
    case True
    with assms have "pf_kind f \<noteq> pf_kind g" by (simp add: pq)
    then have "set_footprint f (set_footprint g l) = set_footprint g (set_footprint f l)" for l
      by (intro update_first_commute) auto
    with True show ?thesis by (simp add: pq assign_footprint_def update_first_comp)
  next
    case False
    then show ?thesis unfolding pq assign_footprint_def prod.case by (intro update_first_commute) auto
  qed
qed

definition delta_places :: "asset_catalog_delta \<Rightarrow> (entity_id \<times> proxy_footprint) list" where
  "delta_places delta = concat (map (\<lambda>a. map (Pair (av_entity_id a)) (av_footprints a)) delta)"

definition listed :: "proxy_availability \<Rightarrow> asset_catalog \<Rightarrow> bool" where
  "listed a c \<longleftrightarrow> (\<exists>x. find (\<lambda>x. av_entity_id x = av_entity_id a) c = Some x
     \<and> set (incoming_kinds a) \<subseteq> set (av_kinds x) \<and> pf_kind ` set (av_footprints a) \<subseteq> pf_kind ` set (av_footprints x))"

lemma put_all_kinds: "pf_kind ` set (fold put_footprint fs l) = pf_kind ` set fs \<union> pf_kind ` set l"
proof -
  have "pf_kind ` set (put_footprint f l) = insert (pf_kind f) (pf_kind ` set l)" for f l
  proof (cases "list_ex (\<lambda>x. pf_kind x = pf_kind f) l")
    case True
    then obtain x where "x \<in> set l" "pf_kind x = pf_kind f" unfolding list_ex_iff by blast
    then have "pf_kind f \<in> pf_kind ` set l" using rev_image_eqI [of x "set l" "pf_kind f" pf_kind] by simp
    moreover have "map pf_kind (set_footprint f l) = map pf_kind l" by (rule map_update_first) simp
    then have "pf_kind ` set (set_footprint f l) = pf_kind ` set l" by (metis set_map)
    ultimately show ?thesis using True by (simp add: upsert_def insert_absorb)
  qed (auto simp: upsert_def)
  then show ?thesis by (induction fs arbitrary: l) auto
qed

lemma merge_grows:
  "set (av_kinds (merge_availability b x)) = set (av_kinds b) \<union> pf_kind ` set (av_footprints b) \<union> set (av_kinds x)"
  "pf_kind ` set (av_footprints (merge_availability b x)) = pf_kind ` set (av_footprints b) \<union> pf_kind ` set (av_footprints x)"
  by (auto simp: merge_availability_eq put_all_kinds)

lemma listed_added: "listed a (apply_added a c)"
proof -
  let ?a = "a\<lparr>av_kinds := incoming_kinds a\<rparr>" and ?P = "\<lambda>x. av_entity_id x = av_entity_id a"
  have "find ?P (apply_added a c) = Some (case find ?P c of None \<Rightarrow> ?a | Some y \<Rightarrow> merge_availability ?a y)"
    using find_upsert_same [of ?P "merge_availability ?a" ?a c] by (simp add: apply_added_def Let_def)
  then show ?thesis by (auto simp: listed_def merge_grows split: option.splits)
qed

lemma listed_kept:
  assumes "listed a c"
  shows "listed a (apply_added b c)"
proof -
  let ?b = "b\<lparr>av_kinds := incoming_kinds b\<rparr>"
  obtain x where x: "find (\<lambda>x. av_entity_id x = av_entity_id a) c = Some x"
    "set (incoming_kinds a) \<subseteq> set (av_kinds x)" "pf_kind ` set (av_footprints a) \<subseteq> pf_kind ` set (av_footprints x)"
    using assms unfolding listed_def by blast
  show ?thesis
  proof (cases "av_entity_id b = av_entity_id a")
    case True
    have "find (\<lambda>x. av_entity_id x = av_entity_id a) (apply_added b c) = Some (merge_availability ?b x)"
      using find_upsert_same [of "\<lambda>x. av_entity_id x = av_entity_id b" "merge_availability ?b" ?b c] True x(1)
      by (simp add: apply_added_def Let_def)
    with x show ?thesis by (auto simp: listed_def merge_grows)
  next
    case False
    have "find (\<lambda>x. av_entity_id x = av_entity_id a) (apply_added b c) = Some x"
      unfolding apply_added_def Let_def by (rule find_upsert_other) (use False x(1) in auto)
    with x show ?thesis by (auto simp: listed_def)
  qed
qed

lemma all_listed: "\<forall>a \<in> set delta. listed a (fold apply_added delta c)"
  by (induction delta rule: rev_induct) (auto simp: listed_added listed_kept)

lemma put_all_listed: "pf_kind ` set fs \<subseteq> pf_kind ` set l \<Longrightarrow> fold put_footprint fs l = fold set_footprint fs l"
proof (induction fs arbitrary: l)
  case (Cons f fs)
  from Cons.prems have "list_ex (\<lambda>x. pf_kind x = pf_kind f) l" by (force simp: list_ex_iff)
  then have "put_footprint f l = set_footprint f l" by (simp add: upsert_def)
  moreover have "map pf_kind (set_footprint f l) = map pf_kind l" by (rule map_update_first) simp
  then have "pf_kind ` set (set_footprint f l) = pf_kind ` set l" by (metis set_map)
  ultimately show ?case using Cons by simp
qed simp

lemma fold_assign:
  "fold assign_footprint (map (Pair e) fs) c =
     update_first (\<lambda>x. av_entity_id x = e) (\<lambda>x. x\<lparr>av_footprints := fold set_footprint fs (av_footprints x)\<rparr>) c"
proof (induction fs rule: rev_induct)
  case Nil
  have "update_first P (\<lambda>x. x) xs = xs" for P and xs :: asset_catalog by (induction xs) auto
  then show ?case by simp
next
  case (snoc f fs)
  then show ?case by (simp add: assign_footprint_def update_first_comp)
qed

lemma added_listed:
  assumes "listed a c"
  shows "apply_added a c = fold assign_footprint (map (Pair (av_entity_id a)) (av_footprints a)) c"
proof -
  let ?a = "a\<lparr>av_kinds := incoming_kinds a\<rparr>" and ?P = "\<lambda>x. av_entity_id x = av_entity_id a"
  obtain x where x: "find ?P c = Some x" "set (incoming_kinds a) \<subseteq> set (av_kinds x)"
    "pf_kind ` set (av_footprints a) \<subseteq> pf_kind ` set (av_footprints x)"
    using assms unfolding listed_def by blast
  have "fold push_new (incoming_kinds a @ map pf_kind (av_footprints a)) (av_kinds x) = av_kinds x"
    by (rule push_all_absorbed) (use x(2) incoming_kinds_cover [of a] in auto)
  then have "merge_availability ?a x = x\<lparr>av_footprints := fold set_footprint (av_footprints a) (av_footprints x)\<rparr>"
    using put_all_listed [OF x(3)] by (simp add: merge_availability_eq)
  then have "update_first ?P (merge_availability ?a) c
      = update_first ?P (\<lambda>x. x\<lparr>av_footprints := fold set_footprint (av_footprints a) (av_footprints x)\<rparr>) c"
    by (rule update_first_cong [OF x(1)])
  moreover have "list_ex ?P c" using x(1) by (simp add: list_ex_find)
  ultimately show ?thesis by (simp add: apply_added_def Let_def upsert_def fold_assign)
qed

lemma delta_listed:
  "\<forall>a \<in> set delta. listed a c \<Longrightarrow> fold apply_added delta c = fold assign_footprint (delta_places delta) c"
  by (induction delta arbitrary: c) (simp_all add: delta_places_def listed_kept flip: added_listed)

lemma delta_settles:
  "fold apply_added delta (fold apply_added delta (fold apply_added delta c)) = fold apply_added delta (fold apply_added delta c)"
proof -
  have "fold assign_footprint (delta_places delta) (fold assign_footprint (delta_places delta) x)
      = fold assign_footprint (delta_places delta) x" for x
    by (rule fold_overwrites [of "\<lambda>p. (fst p, pf_kind (snd p))"]) (simp add: assign_same, rule assign_other, simp)
  then show ?thesis by (metis delta_listed [OF all_listed])
qed

section \<open>Removal\<close>

lemma rekey_remove:
  assumes "distinct (map fst m)" "\<And>j v. (j, v) \<in> set m \<Longrightarrow> g j v = v"
  shows "rekey (\<lambda>c. if c = i then None else Some c) g m = filter (\<lambda>kv. fst kv \<noteq> i) m"
proof -
  let ?f = "\<lambda>(j, v). map_option (\<lambda>j. (j, g j v)) (if j = i then None else Some j)"
  have "List.map_filter ?f m = filter (\<lambda>kv. fst kv \<noteq> i) m"
    using assms(2) by (induction m) (auto simp: List.map_filter_simps)
  moreover have "inj_fate (\<lambda>c. if c = i then None else Some c) (fst ` set m)"
    by (auto simp: inj_fate_def split: if_splits)
  ultimately show ?thesis using rekey_inj [OF assms(1)] by simp
qed

lemma remove_dataset_eq:
  assumes "doc_wf d"
  shows "remove_dataset i d =
    \<lparr>doc_manifests = filter (\<lambda>kv. fst kv \<noteq> i) (doc_manifests d),
     doc_registered_layouts = filter (\<lambda>kv. fst kv \<noteq> i) (doc_registered_layouts d),
     doc_active_layout_ids = filter (\<lambda>kv. fst kv \<noteq> i) (doc_active_layout_ids d),
     doc_asset_catalogs = filter (\<lambda>kv. fst kv \<noteq> i) (doc_asset_catalogs d),
     doc_annotations = filter (\<lambda>kv. fst kv \<noteq> i) (doc_annotations d)\<rparr>"
  unfolding remove_dataset_def rekey_dataset_ids_def
  using assms by (auto simp: doc_wf_def alist_all_def intro!: rekey_remove)

lemma map_of_filter_key: "map_of (filter (\<lambda>kv. fst kv \<noteq> i) m) j = (if j = i then None else map_of m j)"
  by (induction m) auto

section \<open>Replays\<close>

text \<open>
  Commands whose second delivery is harmless to the bit: everything but a move of a whole
  shape, whose replay adds a zero displacement, and a catalog delta that names an entity
  or a footprint kind twice. Both are covered too, from the second delivery on.
\<close>

fun replay_safe :: "document_command \<Rightarrow> bool" where
  "replay_safe (MoveAnnotation i aid p e z) = (e \<noteq> None)"
| "replay_safe (ApplyAssetCatalogDelta i delta) = delta_canonical delta"
| "replay_safe c = True"

lemma nearest_anchor_annotations [simp]: "nearest_anchor i p (d\<lparr>doc_annotations := x\<rparr>) = nearest_anchor i p d"
  by (simp add: nearest_anchor_def doc_layout_def split: option.splits dataset_kind.splits)

lemma add_annotation_idem:
  assumes "an_comments a = []"
  shows "add_annotation i a (add_annotation i a d) = add_annotation i a d"
proof -
  have "upsert (\<lambda>x. an_id x = an_id a) (\<lambda>x. a\<lparr>an_comments := an_comments x\<rparr>) a
      (upsert (\<lambda>x. an_id x = an_id a) (\<lambda>x. a\<lparr>an_comments := an_comments x\<rparr>) a xs)
    = upsert (\<lambda>x. an_id x = an_id a) (\<lambda>x. a\<lparr>an_comments := an_comments x\<rparr>) a xs" for xs
    by (rule upsert_idem) (simp_all flip: assms)
  then show ?thesis by (simp add: add_annotation_def update_update)
qed

lemma set_active_layout_idem:
  "set_active_layout i l (set_active_layout i l d) = set_active_layout i l d"
proof -
  have "reanchor_for_layout i (Some l) l d' = d'" for d'
    by (simp add: reanchor_for_layout_def split: option.splits)
  then show ?thesis by (simp add: set_active_layout_def Let_def update_update map_of_update)
qed

lemma remove_annotation_idem:
  assumes "doc_wf d"
  shows "remove_annotation i aid (remove_annotation i aid d) = remove_annotation i aid d"
proof (cases "map_of (doc_annotations d) i")
  case None
  then show ?thesis by (simp add: remove_annotation_def)
next
  case (Some l)
  have "distinct (map fst (doc_annotations d))" using assms by (simp add: doc_wf_def alist_all_def)
  then have "map_of (AList.delete i (doc_annotations d)) i = None" by (simp add: delete_conv')
  with Some show ?thesis
    by (simp add: remove_annotation_def Let_def map_of_update update_update)
qed

lemma register_layout_idem: "register_layout i l (register_layout i l d) = register_layout i l d"
  by (simp add: register_layout_def Let_def update_update)

lemma doc_apply_idem:
  assumes "doc_wf d" "replay_safe c"
  shows "doc_apply c (doc_apply c d) = doc_apply c d"
proof (cases c)
  case (DatasetOpened ev)
  then show ?thesis by (simp add: register_dataset_def Let_def update_update)
next
  case (RemoveDataset i)
  with doc_apply_wf [OF assms(1), of c] show ?thesis
    by (simp add: remove_dataset_eq assms(1))
next
  case (RenameDataset i n)
  then show ?thesis by (simp add: rename_dataset_def modify_idem)
next
  case (RegisterLayout i l)
  then show ?thesis by (simp add: register_layout_idem)
next
  case (SetActiveLayout i l)
  then show ?thesis by (simp add: set_active_layout_idem)
next
  case (ApplyAssetCatalogDelta i delta)
  with assms(2) show ?thesis by (simp add: apply_asset_catalog_delta_def update_update delta_absorbed)
next
  case (AddAnnotation i aid p e z t ch author kind view)
  have "nearest_anchor i p (add_annotation i a d) = nearest_anchor i p d" for a
    by (simp add: add_annotation_def)
  then show ?thesis by (simp add: AddAnnotation add_annotation_idem)
next
  case (RemoveAnnotation i aid)
  with assms(1) show ?thesis by (simp add: remove_annotation_idem)
next
  case (AddComment i aid cid author body)
  show ?thesis
    unfolding AddComment doc_apply.simps add_comment_def
    by (rule with_annotation_idem) (simp_all add: ann_add_comment_def upsert_idem)
next
  case (RemoveComment i aid cid)
  show ?thesis
    unfolding RemoveComment doc_apply.simps remove_comment_def
    by (rule with_annotation_idem) (simp_all add: ann_remove_comment_def Let_def)
next
  case (MoveAnnotation i aid p e z)
  with assms(2) obtain e' where "e = Some e'" by auto
  then show ?thesis
    by (simp add: MoveAnnotation move_annotation_def with_annotation_idem set_vertices_def option.map_comp comp_def)
next
  case (EditComment i aid cid body)
  show ?thesis
    unfolding EditComment doc_apply.simps edit_comment_def
    by (rule with_annotation_idem) (auto simp: ann_edit_comment_def update_first_ex update_first_idem)
qed

section \<open>Whole-shape moves\<close>

definition finite2 :: "vec2 \<Rightarrow> bool" where
  "finite2 p \<longleftrightarrow> is_finite (fst p) \<and> is_finite (snd p)"

definition f64_2 :: "vec2 \<Rightarrow> bool" where
  "f64_2 p \<longleftrightarrow> is_f64 (fst p) \<and> is_f64 (snd p)"

lemma vsub_self: "finite2 p \<Longrightarrow> vsub2 p p = (0, 0)"
  by (simp add: finite2_def vsub2_def sub_self)

lemma vadd_zero_feq: "finite2 e \<Longrightarrow> f64_2 e \<Longrightarrow> eq2 (vadd2 e (0, 0)) e"
  by (simp add: finite2_def f64_2_def eq2_def vadd2_def feq_add_zero)

lemma plus_is_f64: "is_f64 (x + y)"
  by (cases x; cases y) (auto simp: plus_f64_def round_val_def fround_f64 mag64_int [of 0, simplified])

lemma add_zero_twice:
  assumes "is_f64 x"
  shows "x + 0 + 0 = x + (0::f64)"
proof (cases "is_finite x")
  case True
  have zero: "Fin False 0 + (0::f64) = Fin False 0" by (simp add: plus_f64_def zero_f64_def round_val_def)
  show ?thesis unfolding add_zero [OF True assms] using True assms by (simp add: zero add_zero)
next
  case False
  then show ?thesis by (cases x) (auto simp: plus_f64_def zero_f64_def)
qed

lemma vadd_zero_twice: "vadd2 (vadd2 (vadd2 e d) (0, 0)) (0, 0) = vadd2 (vadd2 e d) (0, 0)"
  by (simp add: vadd2_def add_zero_twice plus_is_f64)

lemma set_position_twice:
  assumes "finite2 p"
  shows "set_position p z (set_position p z a) =
    (set_position p z a)\<lparr>an_end := map_option (\<lambda>e. vadd2 e (0, 0)) (an_end (set_position p z a))\<rparr>"
  using assms by (simp add: set_position_def Let_def vsub_self)

lemma sub_self_twice:
  assumes "is_f64 x"
  shows "x + (q - q) + (q - q) = x + (q - (q::f64))"
proof (cases "is_finite q")
  case True
  then show ?thesis by (simp add: sub_self add_zero_twice [OF assms])
next
  case False
  then have "q - q = NaN" by (cases q) (auto simp: minus_f64_def)
  then show ?thesis by (cases x) (simp_all add: plus_f64_def)
qed

lemma set_position_thrice: "set_position p z (set_position p z (set_position p z a)) = set_position p z (set_position p z a)"
  by (simp add: set_position_def Let_def option.map_comp comp_def vadd2_def vsub2_def sub_self_twice plus_is_f64)

lemma with_annotation_comp:
  assumes "\<And>a. an_id (f a) = an_id a"
  shows "with_annotation i aid g (with_annotation i aid f d) = with_annotation i aid (\<lambda>a. g (f a)) d"
  by (simp add: with_annotation_def modify_modify update_first_comp assms)

lemma set_position_id [simp]: "an_id (set_position p z a) = an_id a"
  by (simp add: set_position_def Let_def)

lemma doc_apply_settles:
  assumes "doc_wf d"
  shows "doc_apply c (doc_apply c (doc_apply c d)) = doc_apply c (doc_apply c d)"
proof (cases "replay_safe c")
  case True
  then show ?thesis using doc_apply_idem [OF assms] by simp
next
  case False
  then show ?thesis
  proof (cases c)
    case (ApplyAssetCatalogDelta i delta)
    then show ?thesis by (simp add: apply_asset_catalog_delta_def update_update delta_settles)
  next
    case (MoveAnnotation i aid p e z)
    with False have "e = None" by (cases e) simp_all
    then show ?thesis by (simp add: MoveAnnotation move_annotation_def with_annotation_comp set_position_thrice)
  qed simp_all
qed

text \<open>The far vertex of a pin moved by nothing: a zero may lose its sign.\<close>

definition nudge_end :: "annotation \<Rightarrow> annotation" where
  "nudge_end a = a\<lparr>an_end := map_option (\<lambda>e. vadd2 e (0, 0)) (an_end a)\<rparr>"

lemma move_twice:
  assumes "finite2 p"
  shows "doc_apply (MoveAnnotation i aid p None z) (doc_apply (MoveAnnotation i aid p None z) d)
    = with_annotation i aid nudge_end (doc_apply (MoveAnnotation i aid p None z) d)"
  by (simp add: move_annotation_def with_annotation_comp set_position_twice [OF assms] nudge_end_def)

lemma reachable_run: "reachable doc_init doc_step (fold doc_apply cs doc_default)"
proof (induction cs rule: rev_induct)
  case Nil
  show ?case by (rule reachable.intros(1)) (simp add: doc_init_def)
next
  case (snoc c cs)
  show ?case by (rule reachable.intros(2) [OF snoc]) (simp add: doc_step.command)
qed

definition sample_line :: annotation where
  "sample_line = \<lparr>an_id = ''p'', an_position = (0, 0), an_z = 0, an_t = 0, an_c = 0, an_author = ''me'',
     an_kind = Line, an_end = Some (0, 0), an_comments = [], an_anchor = None, an_view = None\<rparr>"

section \<open>Properties of the document\<close>

text \<open>
  C24: a command delivered again does not make peers drift. In every document that
  commands and workspace duplications can produce, and for every command: a third delivery never changes anything, and
  neither does a second one, with two exceptions. A move of a whole shape to a finite position, delivered twice, adds a zero to its far
  vertex and does nothing else. A catalog delta that repeats an entity or a footprint kind may be stored differently
  until it has been applied twice.
\<close>
theorem document_replay:
  assumes "reachable doc_init doc_step d"
  shows "doc_apply c (doc_apply c (doc_apply c d)) = doc_apply c (doc_apply c d)
    \<and> (replay_safe c \<longrightarrow> doc_apply c (doc_apply c d) = doc_apply c d)
    \<and> (\<forall>i aid p z. c = MoveAnnotation i aid p None z \<and> finite2 p \<longrightarrow>
         doc_apply c (doc_apply c d) = with_annotation i aid nudge_end (doc_apply c d))"
  using doc_apply_settles doc_apply_idem move_twice documents.reachable_inv [OF assms] by blast

theorem document_replay_witness:
  "let d = fold doc_apply [AddAnnotation ''a'' ''p'' (0, 0) None 0 0 0 ''me'' Point None, RenameDataset ''a'' ''n''] doc_default;
       c = AddComment ''a'' ''p'' ''c1'' ''me'' ''hello''; m = MoveAnnotation ''a'' ''p'' (1, 0) None 0
   in replay_safe c \<and> doc_apply c (doc_apply c d) = doc_apply c d
     \<and> doc_apply m (doc_apply m d) = with_annotation ''a'' ''p'' nudge_end (doc_apply m d)"
proof -
  let ?d = "fold doc_apply [AddAnnotation ''a'' ''p'' (0, 0) None 0 0 0 ''me'' Point None, RenameDataset ''a'' ''n''] doc_default"
  have "replay_safe (AddComment ''a'' ''p'' ''c1'' ''me'' ''hello'')" "finite2 (1, 0)" by (simp_all add: finite2_def one_f64_def zero_f64_def)
  then show ?thesis
    using document_replay [OF reachable_run, of "AddComment ''a'' ''p'' ''c1'' ''me'' ''hello''"]
      document_replay [OF reachable_run, of "MoveAnnotation ''a'' ''p'' (1, 0) None 0"] unfolding Let_def by blast
qed

text \<open>
  a whole-shape move to a finite position that is delivered again leaves every field
  as it was except the far vertex, which keeps its value (a zero may lose its sign), and
  a third delivery changes nothing at all.
\<close>
theorem move_replay:
  assumes "finite2 p" "an_end (set_position p z a) = Some e" "finite2 e"
  shows "set_position p z (set_position p z a) = (set_position p z a)\<lparr>an_end := Some (vadd2 e (0, 0))\<rparr>
    \<and> eq2 (vadd2 e (0, 0)) e
    \<and> set_position p z (set_position p z (set_position p z a)) = set_position p z (set_position p z a)"
proof -
  from assms(2) have "f64_2 e"
    by (auto simp: set_position_def Let_def f64_2_def vadd2_def plus_is_f64)
  with set_position_twice [OF assms(1), of z a] set_position_thrice [of p z a] assms(2)
    vadd_zero_feq [OF assms(3)]
  show ?thesis by simp
qed

theorem move_replay_witness:
  "eq2 (vadd2 (0, 0) (0, 0)) (0, 0)
   \<and> set_position (0, 0) 1 (set_position (0, 0) 1 (sample_line)) =
       (set_position (0, 0) 1 sample_line)\<lparr>an_end := Some (vadd2 (0, 0) (0, 0))\<rparr>"
proof -
  have "an_end (set_position (0, 0) 1 sample_line) = Some (0, 0)" "finite2 (0, 0)"
    by (simp_all add: sample_line_def set_position_def vadd2_def vsub2_def finite2_def add_zero sub_self zero_f64_def
        is_finite.simps Let_def plus_f64_def minus_f64_def round_val_def)
  from move_replay [OF this(2) this(1) this(2)] show ?thesis by blast
qed

text \<open>
  removing a dataset leaves no manifest, layout, catalog or pin under its id, and
  leaves every other dataset's entries as they were and in the same order.
\<close>
theorem remove_dataset_exact:
  assumes "reachable doc_init doc_step d"
  shows "doc_apply (RemoveDataset i) d =
    \<lparr>doc_manifests = filter (\<lambda>kv. fst kv \<noteq> i) (doc_manifests d),
     doc_registered_layouts = filter (\<lambda>kv. fst kv \<noteq> i) (doc_registered_layouts d),
     doc_active_layout_ids = filter (\<lambda>kv. fst kv \<noteq> i) (doc_active_layout_ids d),
     doc_asset_catalogs = filter (\<lambda>kv. fst kv \<noteq> i) (doc_asset_catalogs d),
     doc_annotations = filter (\<lambda>kv. fst kv \<noteq> i) (doc_annotations d)\<rparr>"
  using remove_dataset_eq [OF documents.reachable_inv [OF assms]] by simp

theorem remove_dataset_exact_witness:
  "let d = fold doc_apply [AddAnnotation ''a'' ''p'' (0, 0) None 0 0 0 ''me'' Point None, SetActiveLayout ''b'' ''l'']
     doc_default
   in doc_annotations (doc_apply (RemoveDataset ''a'') d) = filter (\<lambda>kv. fst kv \<noteq> ''a'') (doc_annotations d)
      \<and> doc_active_layout_ids (doc_apply (RemoveDataset ''a'') d) = filter (\<lambda>kv. fst kv \<noteq> ''a'') (doc_active_layout_ids d)"
  unfolding Let_def remove_dataset_exact [OF reachable_run] by simp

text \<open>
  C35: what every reachable document looks like: each map has each id once, a manifest is
  filed under its own dataset id, a dataset's layouts, pins and each pin's comments have
  distinct ids, no dataset keeps an empty pin list, and no pinned view carries source URLs.
\<close>
theorem document_invariant:
  assumes "reachable doc_init doc_step d"
  shows "doc_wf d"
  by (rule documents.reachable_inv [OF assms])

theorem document_invariant_witness:
  "doc_wf (fold doc_apply [AddAnnotation ''a'' ''p'' (0, 0) None 0 0 0 ''me'' Point None,
     AddComment ''a'' ''p'' ''c1'' ''me'' ''hello''] doc_default)"
  by (rule document_invariant [OF reachable_run])

end
