(* ===== verification/Pins.thy ===== *)
theory Pins
  imports Replay
begin

text \<open>
  Three more promises of the document: saved label settings follow the label they were
  made for, a dropped pin is anchored to the nearest placed entity, and a duplicated
  workspace answers every lookup as the original did under the old id.
\<close>

section \<open>Label settings\<close>

text \<open>Where \<open>name\<close> occurs in the author's list.\<close>

definition occurrences :: "string \<Rightarrow> string list \<Rightarrow> nat list" where
  "occurrences name author = filter (\<lambda>i. author ! i = name) [0..<length author]"

definition occ_from :: "string \<Rightarrow> nat \<Rightarrow> string list \<Rightarrow> nat list" where
  "occ_from name i as = map (\<lambda>j. i + j) (filter (\<lambda>j. as ! j = name) [0..<length as])"

lemma occ_from_Cons:
  "occ_from name i (a # as) = (if a = name then i # occ_from name (Suc i) as else occ_from name (Suc i) as)"
proof -
  have "filter (\<lambda>j. (a # as) ! j = name) [Suc 0..<Suc (length as)]
      = map Suc (filter (\<lambda>j. as ! j = name) [0..<length as])"
    unfolding map_Suc_upt [symmetric] filter_map by (simp add: comp_def)
  then show ?thesis by (cases "a = name") (simp_all add: occ_from_def upt_conv_Cons comp_def del: upt_Suc)
qed

lemma find_occurrence_eq:
  "m \<le> want \<Longrightarrow> find_occurrence name want m i as =
     (let os = occ_from name i as in if want - m < length os then Some (os ! (want - m)) else None)"
proof (induction as arbitrary: m i)
  case Nil
  then show ?case by (simp add: occ_from_def)
next
  case (Cons a as)
  show ?case
  proof (cases "a = name")
    case False
    with Cons.IH [OF Cons.prems] show ?thesis by (simp add: occ_from_Cons)
  next
    case True
    show ?thesis
    proof (cases "m = want")
      case True
      with \<open>a = name\<close> show ?thesis by (simp add: occ_from_Cons)
    next
      case False
      with Cons.prems have "Suc m \<le> want" "want - m = Suc (want - Suc m)" by auto
      with Cons.IH [OF this(1), of "Suc i"] True False show ?thesis by (simp add: occ_from_Cons Let_def)
    qed
  qed
qed

text \<open>What the \<open>k\<close>-th current label of a name receives.\<close>

definition carried :: "label_settings list \<Rightarrow> string list \<Rightarrow> string \<Rightarrow> nat \<Rightarrow> label_settings" where
  "carried saved author name k =
     (let os = occurrences name author
      in if k < length os then get_or_default saved (os ! k) else label_default)"

lemma find_occurrence_carried:
  "(case find_occurrence name want 0 0 author of Some i \<Rightarrow> get_or_default saved i | None \<Rightarrow> label_default)
     = carried saved author name want"
  by (simp add: find_occurrence_eq carried_def occurrences_def occ_from_def Let_def)

lemma reconcile_loop_nth:
  assumes "i < length current"
  shows "reconcile_loop saved author seen current ! i =
    carried saved author (current ! i)
      ((case seen (current ! i) of None \<Rightarrow> 0 | Some n \<Rightarrow> n) + count_list (take i current) (current ! i))"
  using assms
proof (induction current arbitrary: i seen)
  case (Cons c cs)
  show ?case
  proof (cases i)
    case 0
    then show ?thesis by (simp add: find_occurrence_carried Let_def)
  next
    case (Suc j)
    with Cons.prems have "j < length cs" by simp
    from Cons.IH [OF this] Suc show ?thesis by (auto simp: Let_def split: option.splits)
  qed
qed simp

lemma length_reconcile_loop [simp]: "length (reconcile_loop saved author seen current) = length current"
  by (induction current arbitrary: seen) (auto simp: Let_def)

lemma length_reconcile [simp]: "length (reconcile_label_settings saved author current) = length current"
  by (simp add: reconcile_label_settings_def)

text \<open>
  label settings follow their label. The result has one entry per current label; the
  k-th current label of a name takes the settings the author saved for the k-th label of
  that name, and the defaults when the author had none; without author names the match is
  by position.
\<close>
theorem reconcile_by_name:
  assumes "i < length current"
  shows "length (reconcile_label_settings saved author current) = length current
    \<and> reconcile_label_settings saved author current ! i =
       (if author = [] then get_or_default saved i
        else carried saved author (current ! i) (count_list (take i current) (current ! i)))"
  using assms by (simp add: reconcile_label_settings_def reconcile_loop_nth)

theorem reconcile_by_name_witness:
  "reconcile_label_settings [label_default\<lparr>lb_visible := True\<rparr>, label_default] [''nuclei'', ''cells'']
     [''cells'', ''nuclei''] ! 1 = label_default\<lparr>lb_visible := True\<rparr>"
  using reconcile_by_name [of 1 "[''cells'', ''nuclei'']" "[label_default\<lparr>lb_visible := True\<rparr>, label_default]"
      "[''nuclei'', ''cells'']"]
  by (simp add: carried_def occurrences_def get_or_default_def upt_rec)

text \<open>An unchanged label list keeps every setting, repeated names included.\<close>

lemma occurrences_nth:
  "i < length author \<Longrightarrow>
     count_list (take i author) (author ! i) < length (occurrences (author ! i) author)
     \<and> occurrences (author ! i) author ! count_list (take i author) (author ! i) = i"
proof -
  assume i: "i < length author"
  let ?P = "\<lambda>j. author ! j = author ! i"
  have "length (filter ?P [0..<i]) = count_list (take i author) (author ! i)"
  proof -
    have "take i author = map ((!) author) [0..<i]" 
      by (rule nth_equalityI) (use i in auto)
    then show ?thesis by (simp add: count_list_eq_length_filter filter_map comp_def eq_commute [of "author ! i"])
  qed
  with nth_filter_take [of i "[0..<length author]" ?P] i show ?thesis by (simp add: occurrences_def take_upt)
qed

text \<open>
  Reopening with the same labels in the same order loses nothing: the settings come
  back as they were saved.
\<close>
theorem reconcile_unchanged:
  assumes "length saved = length author"
  shows "reconcile_label_settings saved author author = saved"
proof (rule nth_equalityI)
  fix i assume "i < length (reconcile_label_settings saved author author)"
  then have i: "i < length author" by simp
  with assms occurrences_nth [OF i] show "reconcile_label_settings saved author author ! i = saved ! i"
    by (auto simp: reconcile_label_settings_def reconcile_loop_nth carried_def get_or_default_def Let_def)
qed (use assms in simp)

theorem reconcile_unchanged_witness:
  "reconcile_label_settings [label_default, label_default\<lparr>lb_visible := True\<rparr>] [''a'', ''a''] [''a'', ''a'']
     = [label_default, label_default\<lparr>lb_visible := True\<rparr>]"
  by (rule reconcile_unchanged) simp

section \<open>Anchors\<close>

definition anchor_dist :: "layout_spec \<Rightarrow> dataset_manifest \<Rightarrow> vec2 \<Rightarrow> entity_id \<Rightarrow> f64 option" where
  "anchor_dist l m p e =
     map_option (\<lambda>pos. let d = vsub2 pos p in fst d * fst d + snd d * snd d)
       (resolve_entity_position e l (mf_entities m) (mf_transforms m))"

lemma closer_eq:
  "closer l m p ent best =
     (case anchor_dist l m p (ent_id ent) of None \<Rightarrow> best
      | Some x \<Rightarrow> (case best of None \<Rightarrow> Some (ent_id ent, x)
                  | Some (e, b) \<Rightarrow> if x < b then Some (ent_id ent, x) else Some (e, b)))"
  by (simp add: closer_def anchor_dist_def Let_def split: option.splits)

lemma flt_trans: "(x::f64) < y \<Longrightarrow> y < z \<Longrightarrow> x < z"
  using flt_le fle_lt_trans by blast

definition best_of :: "layout_spec \<Rightarrow> dataset_manifest \<Rightarrow> vec2 \<Rightarrow> entity list \<Rightarrow> (entity_id \<times> f64) option \<Rightarrow> bool" where
  "best_of l m p ents best \<longleftrightarrow>
     (case best of
        None \<Rightarrow> \<forall>x \<in> set ents. anchor_dist l m p (ent_id x) = None
      | Some (e, b) \<Rightarrow> e \<in> ent_id ` set ents \<and> anchor_dist l m p e = Some b
          \<and> (\<forall>x \<in> set ents. \<forall>y. anchor_dist l m p (ent_id x) = Some y \<longrightarrow> \<not> y < b))"

lemma closer_best:
  assumes "best_of l m p ents best"
  shows "best_of l m p (ents @ [x]) (closer l m p x best)"
proof (cases "anchor_dist l m p (ent_id x)")
  case None
  with assms show ?thesis by (auto simp: closer_eq best_of_def split: option.splits)
next
  case (Some y)
  have "\<not> y < y" by (cases y) (auto simp: less_f64_def)
  with Some assms show ?thesis
    by (auto simp: closer_eq best_of_def split: option.splits dest: flt_trans)
qed

lemma fold_closer_best: "best_of l m p ents (fold (closer l m p) ents None)"
  by (induction ents rule: rev_induct) (simp add: best_of_def, simp add: closer_best)

text \<open>
  The anchor of a dropped pin. It is an entity of the collection that the active
  layout places, and no placed entity is strictly closer to the drop point; a collection
  with a placed entity always yields an anchor.
\<close>
theorem nearest_anchor_nearest:
  assumes "map_of (doc_manifests d) i = Some m" "mf_kind m = Collection rows cols mode ex"
  defines "l \<equiv> doc_layout i m (map_of (doc_active_layout_ids d) i) d"
  shows "case nearest_anchor i p d of
      None \<Rightarrow> list_all (\<lambda>x. resolve_entity_position (ent_id x) l (mf_entities m) (mf_transforms m) = None) (mf_entities m)
    | Some e \<Rightarrow> list_ex (\<lambda>x. ent_id x = e) (mf_entities m)
        \<and> (\<exists>b. anchor_dist l m p e = Some b
             \<and> list_all (\<lambda>x. case anchor_dist l m p (ent_id x) of None \<Rightarrow> True | Some y \<Rightarrow> \<not> y < b) (mf_entities m))"
proof -
  let ?best = "fold (closer l m p) (mf_entities m) None"
  have "nearest_anchor i p d = map_option fst ?best"
    using assms by (simp add: nearest_anchor_def)
  with fold_closer_best [of l m p "mf_entities m"] show ?thesis
    by (auto simp: best_of_def list_all_iff list_ex_iff anchor_dist_def split: option.splits)
qed

definition sample_collection :: dataset_manifest where
  "sample_collection = manifest_new ''a'' ''plate'' (Collection [''A''] [''1''] Explicit True)
     [\<lparr>ent_id = ''g'', ent_kind = EGroup, ent_parent = None, ent_labels = \<lparr>el_name = None, el_group_row = None,
        el_group_column = None, el_row_index = None, el_column_index = None, el_tile_index = None\<rparr>\<rparr>] [] []
     [\<lparr>lay_id = ''l'', lay_name = ''L'', lay_placements = [\<lparr>pl_entity = ''g'', pl_position = (0, 1)\<rparr>]\<rparr>] None"

definition sample_opened :: dataset_opened where
  "sample_opened = \<lparr>op_manifest = sample_collection, op_fetch = Proxied [], op_catalog = [], op_opener = None\<rparr>"

theorem nearest_anchor_nearest_witness:
  "nearest_anchor ''a'' (0, 0) (doc_apply (DatasetOpened sample_opened) doc_default) = Some ''g''
   \<and> (\<exists>b. anchor_dist (hd (mf_source_layouts sample_collection)) sample_collection (0, 0) ''g'' = Some b
        \<and> list_all (\<lambda>x. case anchor_dist (hd (mf_source_layouts sample_collection)) sample_collection (0, 0) (ent_id x)
                          of None \<Rightarrow> True | Some y \<Rightarrow> \<not> y < b) (mf_entities sample_collection))"
proof -
  let ?d = "doc_apply (DatasetOpened sample_opened) doc_default"
  have m: "map_of (doc_manifests ?d) ''a'' = Some sample_collection"
    by (simp add: sample_opened_def sample_collection_def manifest_new_def register_dataset_def doc_default_def)
  have k: "mf_kind sample_collection = Collection [''A''] [''1''] Explicit True"
    by (simp add: sample_collection_def manifest_new_def)
  have l: "doc_layout ''a'' sample_collection (map_of (doc_active_layout_ids ?d) ''a'') ?d
      = hd (mf_source_layouts sample_collection)"
    by (simp add: doc_layout_def resolve_layout_def default_layout_def first_of_def sample_collection_def
        manifest_new_def register_dataset_def doc_default_def Let_def)
  have a: "nearest_anchor ''a'' (0, 0) ?d = Some ''g''"
    unfolding nearest_anchor_def m option.case k dataset_kind.case l Let_def
    by (simp add: closer_eq anchor_dist_def resolve_entity_position_def find_placement_def
        sample_collection_def manifest_new_def)
  from nearest_anchor_nearest [OF m k, of "(0, 0)"] show ?thesis unfolding a l by simp
qed

section \<open>Duplicated workspaces\<close>

definition doc_ids :: "document \<Rightarrow> dataset_id set" where
  "doc_ids d = fst ` set (doc_manifests d) \<union> fst ` set (doc_registered_layouts d) \<union> fst ` set (doc_active_layout_ids d)
     \<union> fst ` set (doc_asset_catalogs d) \<union> fst ` set (doc_annotations d)"

text \<open>
  What moving to new ids means, said without the code that does it. An id that the duplication
  names becomes the id it names, another stays. A map of a pinned view holds the old entries
  under their new ids, and nothing else.
\<close>

definition new_id :: "(dataset_id \<rightharpoonup> dataset_id) \<Rightarrow> dataset_id \<Rightarrow> dataset_id" where
  "new_id remap i = (if i \<in> dom remap then the (remap i) else i)"

definition keys_moved :: "(dataset_id \<rightharpoonup> dataset_id) \<Rightarrow> (dataset_id \<times> 'v) list \<Rightarrow> (dataset_id \<times> 'v) list \<Rightarrow> bool" where
  "keys_moved remap m m' \<longleftrightarrow> distinct (map fst m') \<and> fst ` set m' = new_id remap ` fst ` set m
     \<and> (\<forall>(k, v) \<in> set m'. \<exists>j. (j, v) \<in> set m \<and> k = new_id remap j)
     \<and> (distinct (map fst m) \<and> inj_on (new_id remap) (fst ` set m) \<longrightarrow>
          (\<forall>j \<in> fst ` set m. map_of m' (new_id remap j) = map_of m j))"

definition view_moved :: "(dataset_id \<rightharpoonup> dataset_id) \<Rightarrow> saved_view \<Rightarrow> saved_view \<Rightarrow> bool" where
  "view_moved remap v w \<longleftrightarrow> sv_datasets w = []
     \<and> sv_v w = sv_v v \<and> sv_camera w = sv_camera v \<and> sv_view w = sv_view v \<and> sv_display w = sv_display v
     \<and> length (sv_dataset_order w) = length (sv_dataset_order v)
     \<and> (\<forall>k < length (sv_dataset_order v). sv_dataset_order w ! k = new_id remap (sv_dataset_order v ! k))
     \<and> keys_moved remap (sv_active_layouts v) (sv_active_layouts w)
     \<and> keys_moved remap (sv_dataset_settings v) (sv_dataset_settings w)
     \<and> keys_moved remap (sv_auto_contrast v) (sv_auto_contrast w)"

definition pin_moved :: "(dataset_id \<rightharpoonup> dataset_id) \<Rightarrow> annotation \<Rightarrow> annotation \<Rightarrow> bool" where
  "pin_moved remap a b \<longleftrightarrow> b\<lparr>an_view := an_view a\<rparr> = a \<and> rel_option (view_moved remap) (an_view a) (an_view b)"

lemma mapped_new_id: "mapped remap = new_id remap"
  by (auto simp: fun_eq_iff mapped_def new_id_def split: option.splits)

lemma new_id_inj_fate: "inj_on (new_id remap) A \<Longrightarrow> inj_fate (\<lambda>i. Some (mapped remap i)) A"
  by (auto simp: inj_fate_def mapped_new_id dest: inj_onD)

lemma rekey_total: "rekey (\<lambda>i. Some (f i)) (\<lambda>_ v. v) m = collect_map (map (\<lambda>(i, x). (f i, x)) m)"
proof -
  have "List.map_filter (\<lambda>(i, v). map_option (\<lambda>j. (j, v)) (Some (f i))) m = map (\<lambda>(i, x). (f i, x)) m"
    by (induction m) auto
  then show ?thesis by (simp add: rekey_def)
qed

lemma collect_map_keys: "fst ` set (collect_map kvs) = fst ` set kvs"
  unfolding collect_map_def by (induction kvs rule: rev_induct) (simp_all add: case_prod_unfold dom_update)

lemma collect_moved: "keys_moved remap m (collect_map (map (\<lambda>(i, x). (mapped remap i, x)) m))" (is "keys_moved remap m ?m")
proof -
  have "alist_all (\<lambda>k v. \<exists>j. (j, v) \<in> set m \<and> k = new_id remap j) ?m"
    by (rule alist_all_collect) (auto simp: mapped_new_id)
  moreover have "fst ` set ?m = new_id remap ` fst ` set m"
    by (simp add: collect_map_keys mapped_new_id image_image case_prod_unfold)
  moreover have "map_of ?m (new_id remap j) = map_of m j"
    if "distinct (map fst m)" "inj_on (new_id remap) (fst ` set m)" "j \<in> fst ` set m" for j
    using map_of_rekey [OF that(1) new_id_inj_fate [OF that(2)] subset_refl _ that(3), of "new_id remap j" "\<lambda>_ v. v"]
    by (simp add: rekey_total mapped_new_id option.map_id [unfolded id_def])
  ultimately show ?thesis by (auto simp: keys_moved_def alist_all_def)
qed

lemma remap_moves: "pin_moved remap a (remap_annotation remap a)"
proof -
  have "view_moved remap v (clear_source_urls (view_remap remap v))" for v
    by (simp add: view_moved_def clear_source_urls_def view_remap_def collect_moved mapped_new_id [symmetric])
  then show ?thesis by (simp add: pin_moved_def remap_annotation_def option.rel_map option.rel_refl)
qed

text \<open>
  C36: a duplicated workspace is the original under its new ids. When no two of its
  datasets are mapped to one id, every lookup under the new id gives what the old id gave:
  the manifest with its id rewritten, the layouts and catalog unchanged, and the pins in
  their order, each as it was but for the view it carries, which has no source URLs and
  holds its dataset order, layouts, settings and contrast flags under the new ids.
\<close>
theorem remap_transports:
  assumes "reachable doc_init doc_step d" "inj_on (new_id remap) (doc_ids d)" "i \<in> doc_ids d"
  shows "map_of (doc_manifests (remap_dataset_ids remap d)) (new_id remap i)
           = map_option (\<lambda>m. m\<lparr>mf_dataset_id := new_id remap i\<rparr>) (map_of (doc_manifests d) i)
    \<and> map_of (doc_registered_layouts (remap_dataset_ids remap d)) (new_id remap i) = map_of (doc_registered_layouts d) i
    \<and> map_of (doc_active_layout_ids (remap_dataset_ids remap d)) (new_id remap i) = map_of (doc_active_layout_ids d) i
    \<and> map_of (doc_asset_catalogs (remap_dataset_ids remap d)) (new_id remap i) = map_of (doc_asset_catalogs d) i
    \<and> rel_option (list_all2 (pin_moved remap)) (map_of (doc_annotations d) i)
        (map_of (doc_annotations (remap_dataset_ids remap d)) (new_id remap i))"
proof -
  have wf: "doc_wf d" by (rule documents.reachable_inv [OF assms(1)])
  have T: "map_of (rekey (\<lambda>i. Some (mapped remap i)) g m) (new_id remap i) = map_option (g (new_id remap i)) (map_of m i)"
    if "distinct (map fst m)" "fst ` set m \<subseteq> doc_ids d" for g :: "dataset_id \<Rightarrow> 'v \<Rightarrow> 'v" and m
    by (rule map_of_rekey [OF that(1) new_id_inj_fate [OF assms(2)] that(2) _ assms(3)]) (simp add: mapped_new_id)
  have K: "fst ` set (doc_manifests d) \<subseteq> doc_ids d" "fst ` set (doc_registered_layouts d) \<subseteq> doc_ids d"
    "fst ` set (doc_active_layout_ids d) \<subseteq> doc_ids d" "fst ` set (doc_asset_catalogs d) \<subseteq> doc_ids d"
    "fst ` set (doc_annotations d) \<subseteq> doc_ids d" by (auto simp: doc_ids_def)
  have P: "list_all2 (pin_moved remap) l (map (remap_annotation remap) l)" for l
    by (simp add: list.rel_map list.rel_refl remap_moves)
  show ?thesis
    using wf K
    by (simp add: remap_dataset_ids_def rekey_dataset_ids_def doc_wf_def alist_all_def T option.map_id [unfolded id_def]
        option.rel_map option.rel_refl P)
qed

theorem remap_transports_witness:
  "map_of (doc_manifests (remap_dataset_ids [''a'' \<mapsto> ''b''] (doc_apply (DatasetOpened sample_opened) doc_default))) ''b''
     = Some (sample_collection\<lparr>mf_dataset_id := ''b''\<rparr>)"
proof -
  let ?d = "doc_apply (DatasetOpened sample_opened) doc_default"
  have m: "map_of (doc_manifests ?d) ''a'' = Some sample_collection" and ids: "doc_ids ?d = {''a''}"
    by (simp_all add: sample_opened_def sample_collection_def manifest_new_def register_dataset_def doc_default_def
        doc_ids_def Let_def)
  have r: "reachable doc_init doc_step ?d" using reachable_run [of "[DatasetOpened sample_opened]"] by simp
  have b: "new_id [''a'' \<mapsto> ''b''] ''a'' = ''b''" by (simp add: new_id_def)
  have "inj_on (new_id [''a'' \<mapsto> ''b'']) (doc_ids ?d)" "''a'' \<in> doc_ids ?d" unfolding ids by simp_all
  from remap_transports [OF r this, THEN conjunct1] show ?thesis
    unfolding b m by (simp del: doc_apply.simps)
qed

end
