(* ===== verification/Scene.thy ===== *)
theory Scene
  imports Pins
begin

text \<open>
  The viewer state of \<^verbatim>\<open>lucida-core\<close>: \<^verbatim>\<open>Scene\<close> with its derived per-dataset state
  (\<^verbatim>\<open>scene/mod.rs\<close>, \<^verbatim>\<open>transform.rs\<close>, \<^verbatim>\<open>ray.rs\<close>), the viewport commands and the command
  dispatch of \<^verbatim>\<open>command.rs\<close>, the imports of follow mode, and the delta form of the view
  query. Epochs are 64-bit words. \<^verbatim>\<open>HashMap\<close>s are association lists whose order carries no
  meaning: their equality is by lookup.
\<close>

section \<open>Volume transforms\<close>

type_synonym mat4_f32 = "f32 list"

record volume_transform =
  vt_model :: mat4_f32
  vt_inv_model :: mat4_f32
  vt_max_physical_extent :: f64

definition vt_identity :: volume_transform where
  "vt_identity = \<lparr>vt_model = [1, 0, 0, 0, 0, 1, 0, 0, 0, 0, 1, 0, 0, 0, 0, 1],
     vt_inv_model = [1, 0, 0, 0, 0, 1, 0, 0, 0, 0, 1, 0, 0, 0, 0, 1], vt_max_physical_extent = 1\<rparr>"

text \<open>The guarded reciprocal: \<open>1e-12\<close> and \<open>1.0\<close> are \<^verbatim>\<open>f32\<close> literals there.\<close>

definition recip_or_zero :: "f32 \<Rightarrow> f32" where
  "recip_or_zero s = (if fround32 False (1 / 10 ^ 12) < fabs s then fdiv32 1 s else 0)"

definition positive_or_one :: "f64 \<Rightarrow> f64" where
  "positive_or_one x = (if 0 < x then x else 1)"

definition compute_volume_transform :: "nat \<times> nat \<times> nat \<Rightarrow> f64 \<times> f64 \<times> f64 \<Rightarrow> volume_transform" where
  "compute_volume_transform shape scale =
     (case (shape, scale) of ((nz, ny, nx), (cz, cy, cx)) \<Rightarrow>
        let pz = cz * u32_f64 nz; py = cy * u32_f64 ny; px = cx * u32_f64 nx;
            max_phys = fmax (fmax pz py) px;
            norm = positive_or_one max_phys;
            sx = to_f32 (px / norm); sy = to_f32 (py / norm); sz = to_f32 (pz / norm)
        in \<lparr>vt_model = [sx, 0, 0, 0, 0, sy, 0, 0, 0, 0, sz, 0, 0, 0, 0, 1],
            vt_inv_model = [recip_or_zero sx, 0, 0, 0, 0, recip_or_zero sy, 0, 0, 0, 0, recip_or_zero sz, 0, 0, 0, 0, 1],
            vt_max_physical_extent = max_phys\<rparr>)"

definition compute_member_transform :: "nat \<times> nat \<times> nat \<Rightarrow> f64 \<times> f64 \<times> f64 \<Rightarrow> vec2 \<Rightarrow> f64 \<Rightarrow>
    volume_transform" where
  "compute_member_transform shape scale offset max_phys =
     (case (shape, scale) of ((nz, ny, nx), (cz, cy, cx)) \<Rightarrow>
        let pz = cz * u32_f64 nz; py = cy * u32_f64 ny; px = cx * u32_f64 nx;
            norm = positive_or_one max_phys;
            sx = to_f32 (px / norm); sy = to_f32 (py / norm); sz = to_f32 (pz / norm);
            tx = to_f32 (fst offset * cx / norm); ty = to_f32 (snd offset * cy / norm);
            isx = recip_or_zero sx; isy = recip_or_zero sy; isz = recip_or_zero sz
        in \<lparr>vt_model = [sx, 0, 0, 0, 0, sy, 0, 0, 0, 0, sz, 0, tx, ty, 0, 1],
            vt_inv_model = [isx, 0, 0, 0, 0, isy, 0, 0, 0, 0, isz, 0, fmul32 (- tx) isx, fmul32 (- ty) isy, 0, 1],
            vt_max_physical_extent = fmax (fmax pz py) px\<rparr>)"

definition transform_point :: "vec3 \<Rightarrow> mat4_f32 \<Rightarrow> vec3" where
  "transform_point p m =
     (case p of (x, y, z) \<Rightarrow>
        (m ! 0 * x + m ! 4 * y + m ! 8 * z + m ! 12,
         m ! 1 * x + m ! 5 * y + m ! 9 * z + m ! 13,
         m ! 2 * x + m ! 6 * y + m ! 10 * z + m ! 14))"

section \<open>Derived state\<close>

record member_state =
  mb_entity_id :: entity_id
  mb_image_id :: image_id
  mb_position :: vec2
  mb_volume_transform :: volume_transform
  mb_levels :: "level_geometry list"
  mb_data_type :: data_type

record derived_state =
  dv_volume_transforms :: "(image_id \<times> volume_transform) list"
  dv_active_layout :: layout_spec
  dv_members :: "member_state list"
  dv_member_index :: "string \<rightharpoonup> nat"
  dv_max_physical_extent :: f64
  dv_max_physical_y :: f64

definition member_by_id :: "string \<Rightarrow> derived_state \<Rightarrow> member_state option" where
  "member_by_id i d = map_option (\<lambda>k. dv_members d ! k) (dv_member_index d i)"

definition shape_3d :: "level_geometry \<Rightarrow> nat \<times> nat \<times> nat" where
  "shape_3d l = (as_u32 (at_z (lv_shape l)), as_u32 (at_y (lv_shape l)), as_u32 (at_x (lv_shape l)))"

definition scale_3d :: "level_geometry \<Rightarrow> f64 \<times> f64 \<times> f64" where
  "scale_3d l = (at_z (lv_scale l), at_y (lv_scale l), at_x (lv_scale l))"

definition build_member :: "position_index \<Rightarrow> image_spec \<Rightarrow> member_state" where
  "build_member ix img =
     \<lparr>mb_entity_id = im_owner img, mb_image_id = im_id img,
      mb_position = (case index_resolve ix (im_owner img) of Some p \<Rightarrow> p | None \<Rightarrow> (0, 0)),
      mb_volume_transform = (case first_of (ms_levels (im_multiscale img)) of
          Some l \<Rightarrow> compute_volume_transform (shape_3d l) (scale_3d l) | None \<Rightarrow> vt_identity),
      mb_levels = ms_levels (im_multiscale img),
      mb_data_type = ms_data_type (im_multiscale img)\<rparr>"

text \<open>The indexing loop over the members: both id namespaces, first occurrence wins.\<close>

definition index_member :: "nat \<times> member_state \<Rightarrow> (string \<rightharpoonup> nat) \<Rightarrow> (string \<rightharpoonup> nat)" where
  "index_member im ix = or_insert (mb_entity_id (snd im)) (fst im) (or_insert (mb_image_id (snd im)) (fst im) ix)"

definition member_extent :: "member_state \<Rightarrow> f64" where
  "member_extent m = positive_or_one (vt_max_physical_extent (mb_volume_transform m))"

definition build_derived_state :: "dataset_manifest \<Rightarrow> layout_spec \<Rightarrow> derived_state" where
  "build_derived_state m layout =
     (let ix = position_index_new layout (mf_entities m) (mf_transforms m);
          members = map (build_member ix) (mf_images m)
      in \<lparr>dv_volume_transforms = collect_map (map (\<lambda>mb. (mb_image_id mb, mb_volume_transform mb)) members),
          dv_active_layout = layout,
          dv_members = members,
          dv_member_index = fold index_member (enumerate 0 members) Map.empty,
          dv_max_physical_extent = fold (\<lambda>mb acc. fmax acc (member_extent mb)) members 0,
          dv_max_physical_y = fold (\<lambda>mb acc. fmax acc (vt_model (mb_volume_transform mb) ! 5 * member_extent mb))
            members 0\<rparr>)"

section \<open>The scene\<close>

record epochs =
  ep_content :: u64
  ep_layout :: u64
  ep_view :: u64
  ep_selection :: u64
  ep_asset :: u64
  ep_annotation :: u64

definition epochs_default :: epochs where
  "epochs_default = \<lparr>ep_content = 0, ep_layout = 0, ep_view = 0, ep_selection = 0, ep_asset = 0, ep_annotation = 0\<rparr>"

datatype camera_mode = SliceMode | ArcballMode | FlyMode

fun camera_mode_of :: "camera \<Rightarrow> camera_mode" where
  "camera_mode_of (Slice _) = SliceMode"
| "camera_mode_of (Arcball _) = ArcballMode"
| "camera_mode_of (Fly _) = FlyMode"

record quantized =
  qe_visible :: bool
  qe_target_level :: nat
  qe_level_pinned :: bool
  qe_kind :: entity_kind

record view_cursor =
  vc_content :: u64
  vc_layout :: u64
  vc_asset :: u64
  vc_mode :: camera_mode
  vc_entries :: "(image_id \<times> quantized) list"

definition cursor_matches :: "epochs \<Rightarrow> camera_mode \<Rightarrow> view_cursor \<Rightarrow> bool" where
  "cursor_matches e mode c \<longleftrightarrow>
     vc_content c = ep_content e \<and> vc_layout c = ep_layout e \<and> vc_asset c = ep_asset e \<and> vc_mode c = mode"

record scene =
  sn_camera :: camera
  sn_view :: view_state
  sn_document :: document
  sn_display :: display_state
  sn_dataset_order :: "dataset_id list"
  sn_dataset_settings :: "(dataset_id \<times> display_settings) list"
  sn_derived :: "(dataset_id \<times> derived_state) list"
  sn_epochs :: epochs
  sn_view_query_cursors :: "(dataset_id \<times> view_cursor) list"

definition scene_new :: "nat \<times> nat \<Rightarrow> scene" where
  "scene_new vp = \<lparr>sn_camera = Slice (slice_new vp), sn_view = view_new, sn_document = doc_default,
     sn_display = display_default, sn_dataset_order = [], sn_dataset_settings = [], sn_derived = [],
     sn_epochs = epochs_default, sn_view_query_cursors = []\<rparr>"

definition set_mode_2d :: "camera \<Rightarrow> camera" where
  "set_mode_2d c = (case c of Slice _ \<Rightarrow> c | _ \<Rightarrow> Slice (slice_new (camera_viewport c)))"

definition set_mode_3d :: "libm \<Rightarrow> camera \<Rightarrow> camera" where
  "set_mode_3d fm c = (case c of Arcball _ \<Rightarrow> c | Fly v \<Rightarrow> Arcball (to_arcball fm v)
                       | Slice _ \<Rightarrow> Arcball (arcball_new (camera_viewport c)))"

definition set_mode_fly :: "libm \<Rightarrow> camera \<Rightarrow> camera" where
  "set_mode_fly fm c = (case c of Fly _ \<Rightarrow> c | Arcball v \<Rightarrow> Fly (to_fly fm v)
                        | Slice _ \<Rightarrow> Fly (fly_new (camera_viewport c)))"

definition scene_remove_dataset :: "dataset_id \<Rightarrow> scene \<Rightarrow> scene" where
  "scene_remove_dataset i s =
     s\<lparr>sn_document := remove_dataset i (sn_document s),
       sn_dataset_order := filter (\<lambda>x. x \<noteq> i) (sn_dataset_order s),
       sn_dataset_settings := AList.delete i (sn_dataset_settings s),
       sn_derived := AList.delete i (sn_derived s),
       sn_view_query_cursors := AList.delete i (sn_view_query_cursors s)\<rparr>"

definition global_max_physical_extent :: "scene \<Rightarrow> f64" where
  "global_max_physical_extent s =
     positive_or_one (fold (\<lambda>d acc. fmax acc (dv_max_physical_extent (snd d))) (sn_derived s) 0)"

definition global_max_physical_y :: "scene \<Rightarrow> f64" where
  "global_max_physical_y s =
     positive_or_one (fold (\<lambda>d acc. fmax acc (dv_max_physical_y (snd d))) (sn_derived s) 0)"

section \<open>Placement\<close>

record placement_correction =
  pc_correction :: f64
  pc_inv_correction :: f64
  pc_top_align :: f64

definition correction_apply :: "placement_correction \<Rightarrow> mat4_f32 \<times> mat4_f32 \<Rightarrow> mat4_f32 \<times> mat4_f32" where
  "correction_apply pc ms =
     (case ms of (m, im) \<Rightarrow>
        let c = to_f32 (pc_correction pc); ic = to_f32 (pc_inv_correction pc); ta = to_f32 (pc_top_align pc);
            m1 = m[0 := fmul32 (m ! 0) c, 5 := fmul32 (m ! 5) c, 10 := fmul32 (m ! 10) c,
                   12 := fmul32 (m ! 12) c, 13 := fadd32 (fmul32 (m ! 13) c) ta];
            im1 = im[0 := fmul32 (im ! 0) ic, 5 := fmul32 (im ! 5) ic, 10 := fmul32 (im ! 10) ic]
        in (m1, im1[13 := fsub32 (im1 ! 13) (fmul32 ta (im1 ! 5))]))"

definition placement_correction_of :: "scene \<Rightarrow> volume_transform \<Rightarrow> placement_correction" where
  "placement_correction_of s t =
     (let max_phys = positive_or_one (vt_max_physical_extent t);
          global_max = global_max_physical_extent s;
          phys_y = vt_model t ! 5 * max_phys
      in \<lparr>pc_correction = max_phys / global_max, pc_inv_correction = global_max / max_phys,
          pc_top_align = (global_max_physical_y s - phys_y) / global_max\<rparr>)"

definition rendering_transform :: "scene \<Rightarrow> member_state \<Rightarrow> volume_transform \<times> volume_transform" where
  "rendering_transform s mb =
     (case first_of (mb_levels mb) of
        None \<Rightarrow> (vt_identity, vt_identity)
      | Some level0 \<Rightarrow>
          (case shape_3d level0 of (nz, ny, nx) \<Rightarrow>
             let t = mb_volume_transform mb;
                 max_phys = positive_or_one (vt_max_physical_extent t);
                 scale_x = (if 0 < nx then vt_model t ! 0 * max_phys / u32_f64 nx else 1);
                 scale_y = (if 0 < ny then vt_model t ! 5 * max_phys / u32_f64 ny else 1);
                 scale_z = (if 0 < nz then vt_model t ! 10 * max_phys / u32_f64 nz else 1);
                 flipped = (fst (mb_position mb), u32_f64 ny - snd (mb_position mb) - u32_f64 ny);
                 mt = compute_member_transform (nz, ny, nx) (scale_z, scale_y, scale_x) flipped max_phys;
                 (model, inv_model) = correction_apply (placement_correction_of s t) (vt_model mt, vt_inv_model mt)
             in (\<lparr>vt_model = model, vt_inv_model = replicate 16 0, vt_max_physical_extent = max_phys\<rparr>,
                 \<lparr>vt_model = replicate 16 0, vt_inv_model = inv_model, vt_max_physical_extent = max_phys\<rparr>)))"

definition annotation_member :: "scene \<Rightarrow> dataset_id \<Rightarrow> (member_state \<times> vec3) option" where
  "annotation_member s i =
     Option.bind (map_of (sn_derived s) i) (\<lambda>d.
       Option.bind (first_of (dv_members d)) (\<lambda>mb.
         map_option (\<lambda>l. (mb, flit (of_nat (at_x (lv_shape l))), flit (of_nat (at_y (lv_shape l))),
                              flit (of_nat (at_z (lv_shape l))))) (first_of (mb_levels mb))))"

definition annotation_world_point :: "scene \<Rightarrow> member_state \<Rightarrow> vec3 \<Rightarrow> vec3 \<Rightarrow> vec3" where
  "annotation_world_point s mb shape point =
     (case (shape, point) of ((sx, sy, sz), (px, py, pz)) \<Rightarrow>
        let ux = (if 0 < sx then px / sx else 0);
            uy = (if 0 < sy then 1 - py / sy else 0);
            uz = (if 0 < sz then pz / sz else 0)
        in transform_point (ux, uy, uz) (vt_model (fst (rendering_transform s mb))))"

definition annotation_world_point_for :: "scene \<Rightarrow> dataset_id \<Rightarrow> vec3 \<Rightarrow> vec3 option" where
  "annotation_world_point_for s i point =
     map_option (\<lambda>(mb, shape). annotation_world_point s mb shape point) (annotation_member s i)"

section \<open>Equality of the state slices\<close>

definition display_eq :: "display_state \<Rightarrow> display_state \<Rightarrow> bool" where
  "display_eq a b \<longleftrightarrow> feq (ds_contrast_min a) (ds_contrast_min b) \<and> feq (ds_contrast_max a) (ds_contrast_max b)
     \<and> feq (ds_gamma a) (ds_gamma b)"

definition channel_eq :: "channel_settings \<Rightarrow> channel_settings \<Rightarrow> bool" where
  "channel_eq a b \<longleftrightarrow> ch_visible a = ch_visible b \<and> ch_colormap a = ch_colormap b
     \<and> feq (ch_contrast_min a) (ch_contrast_min b) \<and> feq (ch_contrast_max a) (ch_contrast_max b)
     \<and> feq (ch_gamma a) (ch_gamma b) \<and> ch_name a = ch_name b"

definition label_eq :: "label_settings \<Rightarrow> label_settings \<Rightarrow> bool" where
  "label_eq a b \<longleftrightarrow> lb_visible a = lb_visible b \<and> feq (lb_opacity a) (lb_opacity b)"

definition dds_eq :: "display_settings \<Rightarrow> display_settings \<Rightarrow> bool" where
  "dds_eq a b \<longleftrightarrow> dd_visible a = dd_visible b \<and> feq (dd_opacity a) (dd_opacity b)
     \<and> feq (dd_contrast_min a) (dd_contrast_min b) \<and> feq (dd_contrast_max a) (dd_contrast_max b)
     \<and> feq (dd_gamma a) (dd_gamma b) \<and> dd_blend_mode a = dd_blend_mode b \<and> dd_render_mode a = dd_render_mode b
     \<and> list_all2 channel_eq (dd_channels a) (dd_channels b) \<and> list_all2 label_eq (dd_labels a) (dd_labels b)
     \<and> dd_channel_blend_mode a = dd_channel_blend_mode b
     \<and> dd_detail_level_override a = dd_detail_level_override b \<and> dd_label_names a = dd_label_names b"

text \<open>\<^verbatim>\<open>HashMap\<close> equality: as many entries, and each found equal in the other map.\<close>

definition hashmap_eq :: "('v \<Rightarrow> 'v \<Rightarrow> bool) \<Rightarrow> ('k \<times> 'v) list \<Rightarrow> ('k \<times> 'v) list \<Rightarrow> bool" where
  "hashmap_eq eq m n \<longleftrightarrow> length m = length n
     \<and> list_all (\<lambda>(k, v). case map_of n k of None \<Rightarrow> False | Some w \<Rightarrow> eq v w) m"

section \<open>Viewport commands\<close>

datatype viewport_command =
    SetMode2D
  | SetMode3D
  | SetModeFly
  | SetViewport nat nat
  | Pan f64 f64
  | ZoomBy f64
  | SetCenter f64 f64
  | SetZoom f64
  | Rotate3D f64 f64
  | Zoom3D f64
  | Pan3D f64 f64
  | CenterOnVoxel3D dataset_id f64 f64 f64
  | FlyTick f64 f64 f64 f64 f64 f64 f64
  | FlySetBaseSpeed f64
  | FlyAdjustSpeed f64
  | AdjustClipDistance f64
  | SetZ u32
  | SetZRange u32 u32
  | SetT u32
  | SetC u32
  | SetContrast f64 f64
  | SetGamma f64
  | SetDatasetOrder "string list"
  | SetDatasetVisible dataset_id bool
  | SetDatasetOpacity dataset_id f32
  | SetDatasetContrast dataset_id f64 f64
  | SetDatasetGamma dataset_id f64
  | SetDatasetBlendMode dataset_id blend_mode
  | SetDatasetRenderMode dataset_id render_mode
  | SetDatasetDetailLevelOverride dataset_id "nat option"
  | SetMultiChannel bool
  | SetChannelVisible dataset_id nat bool
  | SetChannelColormap dataset_id nat colormap
  | SetChannelName dataset_id nat "string option"
  | SetChannelContrast dataset_id nat f64 f64
  | SetChannelGamma dataset_id nat f64
  | SetChannelBlendMode dataset_id blend_mode
  | SetLabelVisible dataset_id nat bool
  | SetLabelOpacity dataset_id nat f32

datatype command = DocumentCmd document_command | ViewportCmd viewport_command

datatype viewport_scope = CameraScope | ViewSelectors | DisplayScope | DatasetDisplay

fun scope :: "viewport_command \<Rightarrow> viewport_scope" where
  "scope SetMode2D = CameraScope"
| "scope SetMode3D = CameraScope"
| "scope SetModeFly = CameraScope"
| "scope (SetViewport _ _) = CameraScope"
| "scope (Pan _ _) = CameraScope"
| "scope (ZoomBy _) = CameraScope"
| "scope (SetCenter _ _) = CameraScope"
| "scope (SetZoom _) = CameraScope"
| "scope (Rotate3D _ _) = CameraScope"
| "scope (Zoom3D _) = CameraScope"
| "scope (Pan3D _ _) = CameraScope"
| "scope (CenterOnVoxel3D _ _ _ _) = CameraScope"
| "scope (FlyTick _ _ _ _ _ _ _) = CameraScope"
| "scope (FlySetBaseSpeed _) = CameraScope"
| "scope (FlyAdjustSpeed _) = CameraScope"
| "scope (AdjustClipDistance _) = CameraScope"
| "scope (SetZ _) = ViewSelectors"
| "scope (SetZRange _ _) = ViewSelectors"
| "scope (SetT _) = ViewSelectors"
| "scope (SetC _) = ViewSelectors"
| "scope (SetMultiChannel _) = ViewSelectors"
| "scope (SetContrast _ _) = DisplayScope"
| "scope (SetGamma _) = DisplayScope"
| "scope (SetDatasetOrder _) = DatasetDisplay"
| "scope (SetDatasetVisible _ _) = DatasetDisplay"
| "scope (SetDatasetOpacity _ _) = DatasetDisplay"
| "scope (SetDatasetContrast _ _ _) = DatasetDisplay"
| "scope (SetDatasetGamma _ _) = DatasetDisplay"
| "scope (SetDatasetBlendMode _ _) = DatasetDisplay"
| "scope (SetDatasetRenderMode _ _) = DatasetDisplay"
| "scope (SetDatasetDetailLevelOverride _ _) = DatasetDisplay"
| "scope (SetChannelVisible _ _ _) = DatasetDisplay"
| "scope (SetChannelColormap _ _ _) = DatasetDisplay"
| "scope (SetChannelName _ _ _) = DatasetDisplay"
| "scope (SetChannelContrast _ _ _ _) = DatasetDisplay"
| "scope (SetChannelGamma _ _ _) = DatasetDisplay"
| "scope (SetChannelBlendMode _ _) = DatasetDisplay"
| "scope (SetLabelVisible _ _ _) = DatasetDisplay"
| "scope (SetLabelOpacity _ _ _) = DatasetDisplay"

fun inputs_finite :: "viewport_command \<Rightarrow> bool" where
  "inputs_finite (Pan dx dy) = (is_finite dx \<and> is_finite dy)"
| "inputs_finite (Pan3D dx dy) = (is_finite dx \<and> is_finite dy)"
| "inputs_finite (ZoomBy f) = is_finite f"
| "inputs_finite (FlyAdjustSpeed f) = is_finite f"
| "inputs_finite (SetCenter x y) = (is_finite x \<and> is_finite y)"
| "inputs_finite (SetZoom v) = is_finite v"
| "inputs_finite (Rotate3D dt dp) = (is_finite dt \<and> is_finite dp)"
| "inputs_finite (Zoom3D d) = is_finite d"
| "inputs_finite (AdjustClipDistance d) = is_finite d"
| "inputs_finite (CenterOnVoxel3D _ x y z) = (is_finite x \<and> is_finite y \<and> is_finite z)"
| "inputs_finite (FlyTick dt fwd right up yaw pitch roll) =
     (is_finite dt \<and> is_finite fwd \<and> is_finite right \<and> is_finite up \<and> is_finite yaw \<and> is_finite pitch
      \<and> is_finite roll)"
| "inputs_finite (FlySetBaseSpeed v) = is_finite v"
| "inputs_finite (SetContrast lo hi) = (is_finite lo \<and> is_finite hi)"
| "inputs_finite (SetDatasetContrast _ lo hi) = (is_finite lo \<and> is_finite hi)"
| "inputs_finite (SetChannelContrast _ _ lo hi) = (is_finite lo \<and> is_finite hi)"
| "inputs_finite (SetGamma g) = is_finite g"
| "inputs_finite (SetDatasetGamma _ g) = is_finite g"
| "inputs_finite (SetChannelGamma _ _ g) = is_finite g"
| "inputs_finite (SetDatasetOpacity _ v) = is_finite v"
| "inputs_finite _ = True"

end
