(* ===== verification/Commands.thy ===== *)
theory Commands
  imports Scene
begin

text \<open>
  How the scene takes a command (\<^verbatim>\<open>lucida-core/src/command.rs\<close>): the mutation arms of the
  viewport commands, the diff that decides the epoch bump, the scene's share of every
  document command, loading a document and importing a peer's presence
  (\<^verbatim>\<open>scene/mod.rs\<close>).
\<close>

section \<open>Mutation arms\<close>

definition label_index_in_range :: "scene \<Rightarrow> dataset_id \<Rightarrow> nat \<Rightarrow> bool" where
  "label_index_in_range s i label =
     (case map_of (doc_manifests (sn_document s)) i of None \<Rightarrow> False | Some m \<Rightarrow> label < length (mf_labels m))"

definition clamp_detail_level_override :: "scene \<Rightarrow> dataset_id \<Rightarrow> nat \<Rightarrow> nat option" where
  "clamp_detail_level_override s i requested =
     Option.bind (map_of (doc_manifests (sn_document s)) i) (\<lambda>m.
       Option.bind (first_of (mf_images m)) (\<lambda>img. clamp_to_source_levels (im_multiscale img) requested))"

definition on_slice :: "(slice \<Rightarrow> slice) \<Rightarrow> scene \<Rightarrow> scene" where
  "on_slice f s = (case sn_camera s of Slice v \<Rightarrow> s\<lparr>sn_camera := Slice (f v)\<rparr> | _ \<Rightarrow> s)"

definition on_arcball :: "(arcball \<Rightarrow> arcball) \<Rightarrow> scene \<Rightarrow> scene" where
  "on_arcball f s = (case sn_camera s of Arcball v \<Rightarrow> s\<lparr>sn_camera := Arcball (f v)\<rparr> | _ \<Rightarrow> s)"

definition on_fly :: "(fly \<Rightarrow> fly) \<Rightarrow> scene \<Rightarrow> scene" where
  "on_fly f s = (case sn_camera s of Fly v \<Rightarrow> s\<lparr>sn_camera := Fly (f v)\<rparr> | _ \<Rightarrow> s)"

definition center_on_voxel :: "dataset_id \<Rightarrow> vec3 \<Rightarrow> scene \<Rightarrow> scene" where
  "center_on_voxel i p s =
     (case annotation_world_point_for s i p of
        None \<Rightarrow> s
      | Some (x, y, z) \<Rightarrow>
          if is_finite x \<and> is_finite y \<and> is_finite z
          then on_arcball (\<lambda>v. v\<lparr>ab_target := (clamp_position x, clamp_position y, clamp_position z)\<rparr>) s
          else s)"

definition adjust_clip :: "f64 \<Rightarrow> camera \<Rightarrow> camera" where
  "adjust_clip delta c =
     (case c of
        Arcball v \<Rightarrow> Arcball (v\<lparr>ab_clip_distance := fclamp 0 CLIP_DISTANCE_MAX (ab_clip_distance v + delta)\<rparr>)
      | Fly v \<Rightarrow> Fly (v\<lparr>fy_clip_distance := fclamp 0 CLIP_DISTANCE_MAX (fy_clip_distance v + delta)\<rparr>)
      | Slice v \<Rightarrow> Slice v)"

text \<open>
  \<^verbatim>\<open>mutate_viewport\<close> is one match; its arms are given in four groups, each of which leaves the
  commands of the others alone.
\<close>

fun mutate_camera :: "libm \<Rightarrow> viewport_command \<Rightarrow> scene \<Rightarrow> scene" where
  "mutate_camera fm SetMode2D s = s\<lparr>sn_camera := set_mode_2d (sn_camera s)\<rparr>"
| "mutate_camera fm SetMode3D s = s\<lparr>sn_camera := set_mode_3d fm (sn_camera s)\<rparr>"
| "mutate_camera fm SetModeFly s = s\<lparr>sn_camera := set_mode_fly fm (sn_camera s)\<rparr>"
| "mutate_camera fm (SetViewport w h) s = s\<lparr>sn_camera := camera_set_viewport (w, h) (sn_camera s)\<rparr>"
| "mutate_camera fm (Pan dx dy) s = on_slice (slice_pan dx dy) s"
| "mutate_camera fm (ZoomBy f) s = on_slice (slice_zoom_by f) s"
| "mutate_camera fm (SetCenter x y) s = on_slice (slice_set_center x y) s"
| "mutate_camera fm (SetZoom v) s = on_slice (slice_set_zoom v) s"
| "mutate_camera fm (Rotate3D dt dp) s = on_arcball (arcball_rotate dt dp) s"
| "mutate_camera fm (Zoom3D d) s = on_arcball (arcball_zoom d) s"
| "mutate_camera fm (Pan3D dx dy) s = on_arcball (arcball_pan fm dx dy) s"
| "mutate_camera fm (CenterOnVoxel3D i x y z) s = center_on_voxel i (x, y, z) s"
| "mutate_camera fm (FlyTick dt fwd right up yaw pitch roll) s = on_fly (fly_tick fm dt fwd right up yaw pitch roll) s"
| "mutate_camera fm (FlySetBaseSpeed v) s =
     on_fly (\<lambda>c. c\<lparr>fy_base_speed := fclamp FLY_BASE_SPEED_MIN FLY_BASE_SPEED_MAX v\<rparr>) s"
| "mutate_camera fm (FlyAdjustSpeed f) s =
     on_fly (\<lambda>c. c\<lparr>fy_speed_multiplier :=
       fclamp FLY_SPEED_MULTIPLIER_MIN FLY_SPEED_MULTIPLIER_MAX (fy_speed_multiplier c * f)\<rparr>) s"
| "mutate_camera fm (AdjustClipDistance d) s = s\<lparr>sn_camera := adjust_clip d (sn_camera s)\<rparr>"
| "mutate_camera fm _ s = s"

fun mutate_view :: "viewport_command \<Rightarrow> scene \<Rightarrow> scene" where
  "mutate_view (SetZ z) s = s\<lparr>sn_view := set_z z (sn_view s)\<rparr>"
| "mutate_view (SetZRange a b) s = s\<lparr>sn_view := set_z_range (a, b) (sn_view s)\<rparr>"
| "mutate_view (SetT t) s = s\<lparr>sn_view := (sn_view s)\<lparr>vs_t := t\<rparr>\<rparr>"
| "mutate_view (SetC c) s = s\<lparr>sn_view := (sn_view s)\<lparr>vs_c := c\<rparr>\<rparr>"
| "mutate_view (SetMultiChannel b) s = s\<lparr>sn_view := (sn_view s)\<lparr>vs_multi_channel := b\<rparr>\<rparr>"
| "mutate_view (SetContrast lo hi) s = s\<lparr>sn_display := (sn_display s)\<lparr>ds_contrast_min := lo, ds_contrast_max := hi\<rparr>\<rparr>"
| "mutate_view (SetGamma g) s = s\<lparr>sn_display := (sn_display s)\<lparr>ds_gamma := g\<rparr>\<rparr>"
| "mutate_view _ s = s"

definition on_settings :: "dataset_id \<Rightarrow> (display_settings \<Rightarrow> display_settings) \<Rightarrow> scene \<Rightarrow> scene" where
  "on_settings i f s = s\<lparr>sn_dataset_settings := modify i f (sn_dataset_settings s)\<rparr>"

fun mutate_dataset :: "viewport_command \<Rightarrow> scene \<Rightarrow> scene" where
  "mutate_dataset (SetDatasetOrder order) s = s\<lparr>sn_dataset_order := order\<rparr>"
| "mutate_dataset (SetDatasetVisible i b) s = on_settings i (\<lambda>d. d\<lparr>dd_visible := b\<rparr>) s"
| "mutate_dataset (SetDatasetOpacity i v) s = on_settings i (\<lambda>d. d\<lparr>dd_opacity := v\<rparr>) s"
| "mutate_dataset (SetDatasetContrast i lo hi) s =
     on_settings i (\<lambda>d. d\<lparr>dd_contrast_min := lo, dd_contrast_max := hi\<rparr>) s"
| "mutate_dataset (SetDatasetGamma i g) s = on_settings i (\<lambda>d. d\<lparr>dd_gamma := g\<rparr>) s"
| "mutate_dataset (SetDatasetBlendMode i m) s = on_settings i (\<lambda>d. d\<lparr>dd_blend_mode := m\<rparr>) s"
| "mutate_dataset (SetDatasetRenderMode i m) s = on_settings i (\<lambda>d. d\<lparr>dd_render_mode := m\<rparr>) s"
| "mutate_dataset (SetDatasetDetailLevelOverride i l) s =
     on_settings i (\<lambda>d. d\<lparr>dd_detail_level_override := Option.bind l (clamp_detail_level_override s i)\<rparr>) s"
| "mutate_dataset (SetChannelVisible i n b) s = on_settings i (ensure_channel n (\<lambda>c. c\<lparr>ch_visible := b\<rparr>)) s"
| "mutate_dataset (SetChannelColormap i n m) s = on_settings i (ensure_channel n (\<lambda>c. c\<lparr>ch_colormap := m\<rparr>)) s"
| "mutate_dataset (SetChannelName i n v) s = on_settings i (ensure_channel n (\<lambda>c. c\<lparr>ch_name := v\<rparr>)) s"
| "mutate_dataset (SetChannelContrast i n lo hi) s =
     on_settings i (ensure_channel n (\<lambda>c. c\<lparr>ch_contrast_min := lo, ch_contrast_max := hi\<rparr>)) s"
| "mutate_dataset (SetChannelGamma i n g) s = on_settings i (ensure_channel n (\<lambda>c. c\<lparr>ch_gamma := g\<rparr>)) s"
| "mutate_dataset (SetChannelBlendMode i m) s = on_settings i (\<lambda>d. d\<lparr>dd_channel_blend_mode := m\<rparr>) s"
| "mutate_dataset (SetLabelVisible i n b) s =
     (if label_index_in_range s i n then on_settings i (ensure_label n (\<lambda>l. l\<lparr>lb_visible := b\<rparr>)) s else s)"
| "mutate_dataset (SetLabelOpacity i n v) s =
     (let v1 = (if is_finite v then fclamp 0 1 v else flit (1/2))
      in if label_index_in_range s i n then on_settings i (ensure_label n (\<lambda>l. l\<lparr>lb_opacity := v1\<rparr>)) s else s)"
| "mutate_dataset _ s = s"

definition mutate_viewport :: "libm \<Rightarrow> viewport_command \<Rightarrow> scene \<Rightarrow> scene" where
  "mutate_viewport fm c s = mutate_dataset c (mutate_view c (mutate_camera fm c s))"

section \<open>Applying a viewport command\<close>

definition bump_view :: "scene \<Rightarrow> scene" where
  "bump_view s = s\<lparr>sn_epochs := (sn_epochs s)\<lparr>ep_view := ep_view (sn_epochs s) + 1\<rparr>\<rparr>"

definition bump_selection :: "scene \<Rightarrow> scene" where
  "bump_selection s = s\<lparr>sn_epochs := (sn_epochs s)\<lparr>ep_selection := ep_selection (sn_epochs s) + 1\<rparr>\<rparr>"

definition apply_viewport :: "libm \<Rightarrow> viewport_command \<Rightarrow> scene \<Rightarrow> scene" where
  "apply_viewport fm c s =
     (if \<not> inputs_finite c then s
      else let t = mutate_viewport fm c s
           in (case scope c of
                 CameraScope \<Rightarrow> if camera_eq (sn_camera t) (sn_camera s) then t else bump_view t
               | ViewSelectors \<Rightarrow> if sn_view t = sn_view s then t else bump_selection t
               | DisplayScope \<Rightarrow> if display_eq (sn_display t) (sn_display s) then t else bump_selection t
               | DatasetDisplay \<Rightarrow>
                   if sn_dataset_order t = sn_dataset_order s
                      \<and> hashmap_eq dds_eq (sn_dataset_settings t) (sn_dataset_settings s)
                   then t else bump_selection t))"

section \<open>Applying a document command\<close>

definition bump_content :: "scene \<Rightarrow> scene" where
  "bump_content s = s\<lparr>sn_epochs := (sn_epochs s)\<lparr>ep_content := ep_content (sn_epochs s) + 1\<rparr>\<rparr>"

definition bump_layout :: "scene \<Rightarrow> scene" where
  "bump_layout s = s\<lparr>sn_epochs := (sn_epochs s)\<lparr>ep_layout := ep_layout (sn_epochs s) + 1\<rparr>\<rparr>"

definition bump_asset :: "scene \<Rightarrow> scene" where
  "bump_asset s = s\<lparr>sn_epochs := (sn_epochs s)\<lparr>ep_asset := ep_asset (sn_epochs s) + 1\<rparr>\<rparr>"

definition bump_annotation :: "scene \<Rightarrow> scene" where
  "bump_annotation s = s\<lparr>sn_epochs := (sn_epochs s)\<lparr>ep_annotation := ep_annotation (sn_epochs s) + 1\<rparr>\<rparr>"

definition derive :: "document \<Rightarrow> dataset_id \<Rightarrow> dataset_manifest \<Rightarrow> derived_state" where
  "derive d i m = build_derived_state m (doc_layout i m (map_of (doc_active_layout_ids d) i) d)"

definition realign_labels :: "string list \<Rightarrow> display_settings \<Rightarrow> display_settings" where
  "realign_labels current st =
     (if dd_label_names st = [] \<or> dd_label_names st = current then st
      else st\<lparr>dd_labels := reconcile_label_settings (dd_labels st) (dd_label_names st) current,
             dd_label_names := current\<rparr>)"

definition open_dataset :: "dataset_opened \<Rightarrow> scene \<Rightarrow> scene" where
  "open_dataset ev s =
     (let m = op_manifest ev; i = mf_dataset_id m
      in bump_layout (bump_content (s\<lparr>
           sn_dataset_order := (if i \<in> set (sn_dataset_order s) then sn_dataset_order s else sn_dataset_order s @ [i]),
           sn_dataset_settings := AList.update i
             (case map_of (sn_dataset_settings s) i of
                None \<Rightarrow> seeded_for m
              | Some st \<Rightarrow> realign_labels (label_names m) st) (sn_dataset_settings s),
           sn_derived := AList.update i (derive (sn_document s) i m) (sn_derived s)\<rparr>)))"

definition forget_dataset :: "dataset_id \<Rightarrow> scene \<Rightarrow> scene" where
  "forget_dataset i s =
     bump_layout (bump_content (s\<lparr>
       sn_dataset_order := filter (\<lambda>x. x \<noteq> i) (sn_dataset_order s),
       sn_dataset_settings := AList.delete i (sn_dataset_settings s),
       sn_derived := AList.delete i (sn_derived s),
       sn_view_query_cursors := AList.delete i (sn_view_query_cursors s)\<rparr>))"

definition on_document :: "document_command \<Rightarrow> scene \<Rightarrow> scene" where
  "on_document c s = s\<lparr>sn_document := doc_apply c (sn_document s)\<rparr>"

definition activate_layout :: "dataset_id \<Rightarrow> layout_id \<Rightarrow> scene \<Rightarrow> scene" where
  "activate_layout i l s =
     (let s1 = on_document (SetActiveLayout i l) s;
          s2 = (case map_of (doc_manifests (sn_document s1)) i of
                  None \<Rightarrow> s1
                | Some m \<Rightarrow> s1\<lparr>sn_derived := AList.update i (derive (sn_document s1) i m) (sn_derived s1)\<rparr>)
      in bump_layout s2)"

fun scene_side_effect :: "document_command \<Rightarrow> scene \<Rightarrow> scene" where
  "scene_side_effect (DatasetOpened ev) s = open_dataset ev s"
| "scene_side_effect (RemoveDataset i) s = forget_dataset i s"
| "scene_side_effect (RenameDataset i n) s = bump_content s"
| "scene_side_effect (RegisterLayout i l) s = bump_layout s"
| "scene_side_effect (ApplyAssetCatalogDelta i d) s = bump_asset s"
| "scene_side_effect (SetActiveLayout i l) s = s"
| "scene_side_effect _ s = bump_annotation s"

definition apply_document :: "document_command \<Rightarrow> scene \<Rightarrow> scene" where
  "apply_document c s =
     (case c of SetActiveLayout i l \<Rightarrow> activate_layout i l s
      | _ \<Rightarrow> on_document c (scene_side_effect c s))"

fun scene_apply :: "libm \<Rightarrow> command \<Rightarrow> scene \<Rightarrow> scene" where
  "scene_apply fm (DocumentCmd c) s = apply_document c s"
| "scene_apply fm (ViewportCmd c) s = apply_viewport fm c s"

section \<open>Loading and importing\<close>

definition rebuild_derived :: "scene \<Rightarrow> scene" where
  "rebuild_derived s =
     s\<lparr>sn_derived := fold (\<lambda>(i, m). AList.update i (derive (sn_document s) i m)) (doc_manifests (sn_document s)) []\<rparr>"

definition adopt_dataset :: "document \<Rightarrow> dataset_id \<Rightarrow>
    dataset_id list \<times> (dataset_id \<times> display_settings) list \<Rightarrow>
    dataset_id list \<times> (dataset_id \<times> display_settings) list" where
  "adopt_dataset d i os =
     (case os of (order, settings) \<Rightarrow>
        (if i \<in> set order then order else order @ [i],
         case map_of settings i of
           Some _ \<Rightarrow> settings
         | None \<Rightarrow> AList.update i
             (case map_of (doc_manifests d) i of Some m \<Rightarrow> seeded_for m | None \<Rightarrow> dds_default) settings))"

definition realign_settings :: "document \<Rightarrow> dataset_id \<times> display_settings \<Rightarrow> dataset_id \<times> display_settings" where
  "realign_settings d = (\<lambda>(i, st).
     (i, case map_of (doc_manifests d) i of None \<Rightarrow> st | Some m \<Rightarrow> realign_labels (label_names m) st))"

definition load_document :: "document \<Rightarrow> scene \<Rightarrow> scene" where
  "load_document d s =
     (let s1 = rebuild_derived (s\<lparr>sn_document := d\<rparr>);
          ids = map fst (doc_manifests d);
          (order, settings) = fold (adopt_dataset d) ids (sn_dataset_order s1, sn_dataset_settings s1);
          s2 = s1\<lparr>sn_dataset_order := filter (\<lambda>i. i \<in> set ids) order,
                  sn_dataset_settings := map (realign_settings d) (filter (\<lambda>kv. fst kv \<in> set ids) settings),
                  sn_view_query_cursors := filter (\<lambda>kv. fst kv \<in> set ids) (sn_view_query_cursors s1)\<rparr>
      in bump_selection (bump_annotation (bump_asset (bump_layout (bump_content s2)))))"

definition import_presence :: "camera \<Rightarrow> view_state \<Rightarrow> display_state \<Rightarrow> scene \<Rightarrow> scene" where
  "import_presence cam v disp s =
     (let cam1 = camera_sanitize (camera_set_viewport (camera_viewport (sn_camera s)) cam);
          s1 = (if camera_eq (sn_camera s) cam1 then s else bump_view (s\<lparr>sn_camera := cam1\<rparr>))
      in if sn_view s1 = v \<and> display_eq (sn_display s1) disp then s1
         else bump_selection (s1\<lparr>sn_view := v, sn_display := disp\<rparr>))"

definition remap_imported :: "document \<Rightarrow> dataset_id \<times> display_settings \<Rightarrow> dataset_id \<times> display_settings" where
  "remap_imported d = (\<lambda>(i, st).
     (i, if dd_label_names st = [] then st
         else case map_of (doc_manifests d) i of
                None \<Rightarrow> st
              | Some m \<Rightarrow> st\<lparr>dd_labels := reconcile_label_settings (dd_labels st) (dd_label_names st) (label_names m),
                            dd_label_names := label_names m\<rparr>))"

definition import_dataset_presence :: "dataset_id list \<Rightarrow> (dataset_id \<times> display_settings) list \<Rightarrow> scene \<Rightarrow> scene" where
  "import_dataset_presence order settings s =
     (let incoming = map (remap_imported (sn_document s)) settings
      in if sn_dataset_order s = order \<and> hashmap_eq dds_eq (sn_dataset_settings s) incoming then s
         else bump_selection (s\<lparr>sn_dataset_order := order, sn_dataset_settings := incoming\<rparr>))"

end
