(* ===== verification/SceneProps.thy ===== *)
theory SceneProps
  imports Commands
begin

text \<open>
  What the scene promises: a viewport command stays inside its slice and moves exactly the
  epoch of that slice, the scene's document is the document the server computes, and the
  derived state follows the document but for layouts registered after their activation.
\<close>

section \<open>Frames\<close>

lemma on_camera_frames [simp]:
  "on_slice f s = s\<lparr>sn_camera := sn_camera (on_slice f s)\<rparr>"
  "on_arcball g s = s\<lparr>sn_camera := sn_camera (on_arcball g s)\<rparr>"
  "on_fly h s = s\<lparr>sn_camera := sn_camera (on_fly h s)\<rparr>"
  by (simp_all add: on_slice_def on_arcball_def on_fly_def split: camera.splits)

declare on_camera_frames [simp del]

lemma camera_frame:
  "mutate_camera fm c s = s\<lparr>sn_camera := sn_camera (mutate_camera fm c s)\<rparr>"
proof -
  have "center_on_voxel i p s = s\<lparr>sn_camera := sn_camera (center_on_voxel i p s)\<rparr>" for i p
    using on_camera_frames(2) by (auto simp: center_on_voxel_def split: option.splits)
  then show ?thesis
    by (cases c) (simp_all add: on_slice_def on_arcball_def on_fly_def split: camera.splits)
qed

lemma view_frame:
  "mutate_view c s = s\<lparr>sn_view := sn_view (mutate_view c s), sn_display := sn_display (mutate_view c s)\<rparr>"
  by (cases c) simp_all

lemma on_settings_frame: "on_settings i f s = s\<lparr>sn_dataset_settings := sn_dataset_settings (on_settings i f s)\<rparr>"
  by (simp add: on_settings_def)

lemma dataset_frame:
  "mutate_dataset c s = s\<lparr>sn_dataset_order := sn_dataset_order (mutate_dataset c s),
     sn_dataset_settings := sn_dataset_settings (mutate_dataset c s)\<rparr>"
  by (cases c) (simp_all add: on_settings_def Let_def)

lemma camera_scope: "scope c \<noteq> CameraScope \<Longrightarrow> mutate_camera fm c s = s"
  by (cases c) simp_all

lemma view_scope: "scope c = CameraScope \<or> scope c = DatasetDisplay \<Longrightarrow> mutate_view c s = s"
  by (cases c) simp_all

lemma selector_scope: "scope c = ViewSelectors \<Longrightarrow> sn_display (mutate_view c s) = sn_display s"
  by (cases c) simp_all

lemma display_scope: "scope c = DisplayScope \<Longrightarrow> sn_view (mutate_view c s) = sn_view s"
  by (cases c) simp_all

lemma dataset_scope: "scope c \<noteq> DatasetDisplay \<Longrightarrow> mutate_dataset c s = s"
  by (cases c) simp_all

text \<open>One arm per scope: what \<^verbatim>\<open>mutate_viewport\<close> may touch.\<close>

lemma mutate_viewport_scope:
  "mutate_viewport fm c s =
     (case scope c of
        CameraScope \<Rightarrow> s\<lparr>sn_camera := sn_camera (mutate_camera fm c s)\<rparr>
      | ViewSelectors \<Rightarrow> s\<lparr>sn_view := sn_view (mutate_view c s)\<rparr>
      | DisplayScope \<Rightarrow> s\<lparr>sn_display := sn_display (mutate_view c s)\<rparr>
      | DatasetDisplay \<Rightarrow> s\<lparr>sn_dataset_order := sn_dataset_order (mutate_dataset c s),
                           sn_dataset_settings := sn_dataset_settings (mutate_dataset c s)\<rparr>)"
proof (cases "scope c")
  case CameraScope
  then show ?thesis using camera_frame [of fm c s] by (simp add: mutate_viewport_def view_scope dataset_scope)
next
  case ViewSelectors
  then show ?thesis using view_frame [of c s] selector_scope [of c s]
    by (simp add: mutate_viewport_def camera_scope dataset_scope)
next
  case DisplayScope
  then show ?thesis using view_frame [of c s] display_scope [of c s]
    by (simp add: mutate_viewport_def camera_scope dataset_scope)
next
  case DatasetDisplay
  then show ?thesis using dataset_frame [of c s] by (simp add: mutate_viewport_def camera_scope view_scope)
qed

lemmas bump_defs = bump_view_def bump_selection_def bump_content_def bump_layout_def bump_asset_def bump_annotation_def

section \<open>Viewport commands\<close>

text \<open>The parts of the scene a viewport command of each scope must leave alone.\<close>

definition untouched :: "viewport_scope \<Rightarrow> scene \<Rightarrow> scene \<Rightarrow> bool" where
  "untouched sc s t \<longleftrightarrow>
     sn_document t = sn_document s \<and> sn_derived t = sn_derived s
     \<and> sn_view_query_cursors t = sn_view_query_cursors s
     \<and> (sc = CameraScope \<or> sn_camera t = sn_camera s)
     \<and> (sc = ViewSelectors \<or> sn_view t = sn_view s)
     \<and> (sc = DisplayScope \<or> sn_display t = sn_display s)
     \<and> (sc = DatasetDisplay \<or> sn_dataset_order t = sn_dataset_order s \<and> sn_dataset_settings t = sn_dataset_settings s)"

definition slice_changed :: "viewport_scope \<Rightarrow> scene \<Rightarrow> scene \<Rightarrow> bool" where
  "slice_changed sc s t \<longleftrightarrow>
     (case sc of
        CameraScope \<Rightarrow> \<not> camera_eq (sn_camera t) (sn_camera s)
      | ViewSelectors \<Rightarrow> sn_view t \<noteq> sn_view s
      | DisplayScope \<Rightarrow> \<not> display_eq (sn_display t) (sn_display s)
      | DatasetDisplay \<Rightarrow> \<not> (sn_dataset_order t = sn_dataset_order s
          \<and> hashmap_eq dds_eq (sn_dataset_settings t) (sn_dataset_settings s)))"

text \<open>
  C22: a viewport command stays inside its declared slice and moves exactly one epoch, by
  one, exactly when that slice changed: the view epoch for the camera, the selection epoch
  for everything else. The document, the derived state and the other epochs never move.
\<close>
theorem viewport_epochs:
  assumes "inputs_finite c"
  shows "untouched (scope c) s (apply_viewport fm c s)
    \<and> sn_epochs (apply_viewport fm c s) =
        (if slice_changed (scope c) s (apply_viewport fm c s)
         then if scope c = CameraScope then (sn_epochs s)\<lparr>ep_view := ep_view (sn_epochs s) + 1\<rparr>
              else (sn_epochs s)\<lparr>ep_selection := ep_selection (sn_epochs s) + 1\<rparr>
         else sn_epochs s)"
  using assms
  by (cases "scope c")
    (simp_all add: apply_viewport_def Let_def mutate_viewport_scope untouched_def slice_changed_def bump_defs)

definition flat_libm :: libm where
  "flat_libm = \<lparr>fm_sin = (\<lambda>_. 0), fm_cos = (\<lambda>_. 1), fm_acos = (\<lambda>_. 0), fm_atan2 = (\<lambda>_ _. 0)\<rparr>"

theorem viewport_epochs_witness:
  "sn_epochs (apply_viewport flat_libm (SetT 3) (scene_new (8, 8))) = epochs_default\<lparr>ep_selection := 1\<rparr>
   \<and> untouched ViewSelectors (scene_new (8, 8)) (apply_viewport flat_libm (SetT 3) (scene_new (8, 8)))"
proof -
  have ch: "slice_changed ViewSelectors (scene_new (8, 8)) (apply_viewport flat_libm (SetT 3) (scene_new (8, 8)))"
    by (simp add: slice_changed_def apply_viewport_def mutate_viewport_def scene_new_def view_new_def bump_defs)
  have e: "sn_epochs (scene_new (8, 8)) = epochs_default" "ep_selection epochs_default = 0"
    by (simp_all add: scene_new_def epochs_default_def)
  have "inputs_finite (SetT 3)" "scope (SetT 3) = ViewSelectors" by simp_all
  with viewport_epochs [of "SetT 3" "scene_new (8, 8)" flat_libm] ch show ?thesis by (simp add: e)
qed

text \<open>
  a viewport command that carries a NaN or an infinity is dropped whole; the one
  exception, a label's opacity, is stored finite and between zero and one.
\<close>
theorem non_finite_dropped:
  "(\<not> inputs_finite c \<longrightarrow> apply_viewport fm c s = s)
   \<and> (\<forall>i n v. label_index_in_range s i n \<longrightarrow>
        (\<exists>w. is_finite w \<and> 0 \<le> w \<and> w \<le> 1
           \<and> mutate_viewport fm (SetLabelOpacity i n v) s = on_settings i (ensure_label n (\<lambda>l. l\<lparr>lb_opacity := w\<rparr>)) s))"
proof -
  have half: "is_finite (flit (1 / 2)) \<and> 0 \<le> flit (1 / 2) \<and> flit (1 / 2) \<le> 1"
    using literal_ranges(5) by (auto simp: zero_f64_def one_f64_def less_eq_f64_def)
  have cl: "is_finite (fclamp 0 1 v) \<and> 0 \<le> fclamp 0 1 v \<and> fclamp 0 1 v \<le> 1" if "is_finite v" for v
    using that by (cases v) (auto simp: fclamp_def zero_f64_def one_f64_def less_eq_f64_def less_f64_def not_less)
  show ?thesis
    using half cl by (auto simp: apply_viewport_def mutate_viewport_def)
qed

theorem non_finite_dropped_witness:
  "apply_viewport flat_libm (SetGamma NaN) (scene_new (8, 8)) = scene_new (8, 8)"
proof -
  have "\<not> inputs_finite (SetGamma NaN)" by simp
  with non_finite_dropped [of "SetGamma NaN" flat_libm "scene_new (8, 8)"] show ?thesis by blast
qed

section \<open>The document of the scene\<close>

lemma document_bumps [simp]:
  "sn_document (bump_view s) = sn_document s" "sn_document (bump_selection s) = sn_document s"
  "sn_document (bump_content s) = sn_document s" "sn_document (bump_layout s) = sn_document s"
  "sn_document (bump_asset s) = sn_document s" "sn_document (bump_annotation s) = sn_document s"
  "sn_derived (bump_view s) = sn_derived s" "sn_derived (bump_selection s) = sn_derived s"
  "sn_derived (bump_content s) = sn_derived s" "sn_derived (bump_layout s) = sn_derived s"
  "sn_derived (bump_asset s) = sn_derived s" "sn_derived (bump_annotation s) = sn_derived s"
  by (simp_all add: bump_defs)

lemma apply_viewport_keeps [simp]:
  "sn_document (apply_viewport fm c s) = sn_document s" "sn_derived (apply_viewport fm c s) = sn_derived s"
  by (cases "scope c"; simp add: apply_viewport_def Let_def mutate_viewport_scope)+

lemma side_effect_document [simp]: "sn_document (scene_side_effect c s) = sn_document s"
  by (cases c) (simp_all add: open_dataset_def forget_dataset_def Let_def)

lemma apply_document_document: "sn_document (apply_document c s) = doc_apply c (sn_document s)"
  by (cases c) (simp_all add: apply_document_def activate_layout_def on_document_def Let_def
      del: doc_apply.simps scene_side_effect.simps split: option.splits)

fun document_part :: "command list \<Rightarrow> document_command list" where
  "document_part [] = []"
| "document_part (DocumentCmd c # cs) = c # document_part cs"
| "document_part (ViewportCmd c # cs) = document_part cs"

text \<open>
  C21: every client's scene carries the server's document. Whatever local viewport commands
  are interleaved, a scene that applies a sequence of commands has exactly the document
  the server gets by applying the document commands of that sequence to its copy.
\<close>
theorem scene_refines_document:
  "sn_document (fold (scene_apply fm) cs s) = fold doc_apply (document_part cs) (sn_document s)"
proof (induction cs arbitrary: s rule: document_part.induct)
  case (2 c cs)
  then show ?case by (simp add: apply_document_document)
qed simp_all

section \<open>How fresh the derived state is\<close>

text \<open>
  What is cached for a dataset is \<open>current\<close> when it is what the document's manifest and active
  layout give when recomputed. It is \<open>behind\<close> when the active layout is a registered one that
  the manifest does not list, and the cache still places the dataset by the manifest's default.
\<close>

definition current :: "scene \<Rightarrow> dataset_id \<Rightarrow> bool" where
  "current s i \<longleftrightarrow> map_of (sn_derived s) i =
     (case map_of (doc_manifests (sn_document s)) i of
        None \<Rightarrow> None
      | Some m \<Rightarrow> Some (build_derived_state m
          (doc_layout i m (map_of (doc_active_layout_ids (sn_document s)) i) (sn_document s))))"

definition behind :: "scene \<Rightarrow> dataset_id \<Rightarrow> bool" where
  "behind s i \<longleftrightarrow>
     (case (map_of (doc_manifests (sn_document s)) i, map_of (doc_active_layout_ids (sn_document s)) i) of
        (Some m, Some a) \<Rightarrow> find_layout a (mf_source_layouts m) = None
          \<and> find_layout a (entry_or_default i (doc_registered_layouts (sn_document s))) \<noteq> None
          \<and> map_of (sn_derived s) i = Some (build_derived_state m (default_layout m))
      | _ \<Rightarrow> False)"

text \<open>
  A late registration: the id of the layout is already the active one, and nothing of that
  id is registered or listed by the manifest.
\<close>

definition late_registration :: "dataset_id \<Rightarrow> layout_spec \<Rightarrow> document \<Rightarrow> bool" where
  "late_registration i l d \<longleftrightarrow>
     map_of (doc_active_layout_ids d) i = Some (lay_id l)
     \<and> find_layout (lay_id l) (entry_or_default i (doc_registered_layouts d)) = None
     \<and> (\<exists>m. map_of (doc_manifests d) i = Some m \<and> find_layout (lay_id l) (mf_source_layouts m) = None)"

definition scene_wf :: "scene \<Rightarrow> bool" where
  "scene_wf s \<longleftrightarrow> doc_wf (sn_document s) \<and> (\<forall>i. current s i \<or> behind s i)"

lemma current_derive:
  "current s i \<longleftrightarrow> map_of (sn_derived s) i = map_option (derive (sn_document s) i) (map_of (doc_manifests (sn_document s)) i)"
  by (auto simp: current_def derive_def split: option.splits)

text \<open>Freshness of a dataset reads nothing of the others.\<close>

definition same_entries :: "dataset_id \<Rightarrow> scene \<Rightarrow> scene \<Rightarrow> bool" where
  "same_entries i s t \<longleftrightarrow>
     map_of (doc_manifests (sn_document t)) i = map_of (doc_manifests (sn_document s)) i
     \<and> map_of (doc_registered_layouts (sn_document t)) i = map_of (doc_registered_layouts (sn_document s)) i
     \<and> map_of (doc_active_layout_ids (sn_document t)) i = map_of (doc_active_layout_ids (sn_document s)) i
     \<and> map_of (sn_derived t) i = map_of (sn_derived s) i"

lemma same_entries_fresh: "same_entries i s t \<Longrightarrow> (current t i \<longleftrightarrow> current s i) \<and> (behind t i \<longleftrightarrow> behind s i)"
  by (auto simp: same_entries_def current_def behind_def doc_layout_def entry_or_default_def split: option.splits)

lemma map_of_AList [simp]:
  "map_of (AList.update k v m) = (map_of m)(k \<mapsto> v)" "map_of (AList.delete k m) = (map_of m)(k := None)"
  by (simp_all add: update_conv' delete_conv')

lemma reanchor_keeps [simp]:
  "doc_manifests (reanchor_for_layout i f t d) = doc_manifests d"
  "doc_registered_layouts (reanchor_for_layout i f t d) = doc_registered_layouts d"
  "doc_active_layout_ids (reanchor_for_layout i f t d) = doc_active_layout_ids d"
  by (simp_all add: reanchor_for_layout_def split: option.splits)

text \<open>The dataset whose manifest or layouts a document command changes.\<close>

fun subject_of :: "document_command \<Rightarrow> dataset_id option" where
  "subject_of (DatasetOpened ev) = Some (mf_dataset_id (op_manifest ev))"
| "subject_of (RemoveDataset i) = Some i"
| "subject_of (RenameDataset i _) = Some i"
| "subject_of (RegisterLayout i _) = Some i"
| "subject_of (SetActiveLayout i _) = Some i"
| "subject_of _ = None"

lemmas document_defs = apply_document_def on_document_def activate_layout_def open_dataset_def forget_dataset_def
  register_dataset_def rename_dataset_def register_layout_def set_active_layout_def modify_def Let_def

lemmas pin_defs = apply_asset_catalog_delta_def add_annotation_def remove_annotation_def move_annotation_def
  add_comment_def remove_comment_def edit_comment_def with_annotation_def

lemma document_others:
  assumes "doc_wf (sn_document s)" "subject_of c \<noteq> Some i"
  shows "same_entries i s (apply_document c s)"
proof (cases c)
  case (RemoveDataset j)
  with assms show ?thesis by (simp add: same_entries_def document_defs remove_dataset_eq map_of_filter_key)
qed (use assms(2) in \<open>simp_all add: same_entries_def document_defs pin_defs split: option.splits\<close>)

subsection \<open>The commands on their own dataset\<close>

lemma opened_current: "current (apply_document (DatasetOpened ev) s) (mf_dataset_id (op_manifest ev))"
  unfolding current_derive by (simp add: document_defs derive_def doc_layout_def)

lemma removed_current: "doc_wf (sn_document s) \<Longrightarrow> current (apply_document (RemoveDataset i) s) i"
  by (simp add: current_def document_defs remove_dataset_eq map_of_filter_key)

lemma activated_current: "map_of (sn_derived s) i \<noteq> None \<longrightarrow> map_of (doc_manifests (sn_document s)) i \<noteq> None \<Longrightarrow>
  current (apply_document (SetActiveLayout i l) s) i"
  unfolding current_derive by (auto simp: document_defs derive_def doc_layout_def split: option.splits)

lemma renamed_fresh:
  "(current (apply_document (RenameDataset i n) s) i \<longleftrightarrow> current s i)
   \<and> (behind (apply_document (RenameDataset i n) s) i \<longleftrightarrow> behind s i)"
proof -
  have "build_derived_state (m\<lparr>mf_name := n\<rparr>) l = build_derived_state m l" for m l
    by (simp add: build_derived_state_def)
  moreover have "default_layout (m\<lparr>mf_name := n\<rparr>) = default_layout m" for m
    by (simp add: default_layout_def split: option.splits)
  moreover have "resolve_layout (m\<lparr>mf_name := n\<rparr>) r a = resolve_layout m r a" for m r a
    by (simp add: resolve_layout_def default_layout_def split: option.splits)
  ultimately show ?thesis
    by (auto simp: current_def behind_def doc_layout_def document_defs split: option.splits)
qed

lemma find_layout_append:
  "find_layout a (ls @ [l]) = (case find_layout a ls of Some x \<Rightarrow> Some x | None \<Rightarrow> if lay_id l = a then Some l else None)"
  by (induction ls) (auto simp: find_layout_def)

lemma resolve_layout_entry:
  "resolve_layout m (map_of rs i) active = resolve_layout m (Some (entry_or_default i rs)) active"
  by (auto simp: resolve_layout_def find_layout_def entry_or_default_def split: option.splits)

lemma entry_registered:
  "entry_or_default i (doc_registered_layouts (register_layout i l d)) =
     (let ls = entry_or_default i (doc_registered_layouts d) in if find_layout (lay_id l) ls = None then ls @ [l] else ls)"
proof -
  have "list_ex (\<lambda>x. lay_id x = lay_id l) ls \<longleftrightarrow> find_layout (lay_id l) ls \<noteq> None" for ls
    by (simp add: find_layout_def list_ex_find)
  then show ?thesis by (simp add: register_layout_def Let_def entry_or_default_def)
qed

lemma registered_scene:
  "sn_document (apply_document (RegisterLayout i l) s) = register_layout i l (sn_document s)"
  "sn_derived (apply_document (RegisterLayout i l) s) = sn_derived s"
  "doc_manifests (register_layout i l d) = doc_manifests d"
  "doc_active_layout_ids (register_layout i l d) = doc_active_layout_ids d"
  by (simp_all add: document_defs)

lemma registered_current:
  assumes "current s i" "\<not> late_registration i l (sn_document s)"
  shows "current (apply_document (RegisterLayout i l) s) i"
proof -
  have "doc_layout i m (map_of (doc_active_layout_ids (sn_document s)) i) (register_layout i l (sn_document s))
      = doc_layout i m (map_of (doc_active_layout_ids (sn_document s)) i) (sn_document s)"
    if "map_of (doc_manifests (sn_document s)) i = Some m" for m
    using assms(2) that unfolding doc_layout_def resolve_layout_entry late_registration_def entry_registered Let_def
    by (auto simp: resolve_layout_def find_layout_append split: option.splits)
  with assms(1) show ?thesis by (auto simp: current_def registered_scene split: option.splits)
qed

lemma registered_late:
  assumes "current s i" "late_registration i l (sn_document s)"
  shows "behind (apply_document (RegisterLayout i l) s) i"
proof -
  from assms(2) obtain m where m: "map_of (doc_manifests (sn_document s)) i = Some m"
    "find_layout (lay_id l) (mf_source_layouts m) = None"
    and r: "map_of (doc_active_layout_ids (sn_document s)) i = Some (lay_id l)"
    "find_layout (lay_id l) (entry_or_default i (doc_registered_layouts (sn_document s))) = None"
    unfolding late_registration_def by blast
  have "doc_layout i m (Some (lay_id l)) (sn_document s) = default_layout m"
    using m r unfolding doc_layout_def resolve_layout_entry by (simp add: resolve_layout_def)
  with m r assms(1) show ?thesis
    by (simp add: behind_def current_def registered_scene entry_registered Let_def find_layout_append)
qed

lemma registered_behind: "behind s i \<Longrightarrow> behind (apply_document (RegisterLayout i l) s) i"
  by (auto simp: behind_def registered_scene entry_registered Let_def find_layout_append split: option.splits)

lemma document_current:
  assumes "scene_wf s" "current s i"
  shows "current (apply_document c s) i \<or> (\<exists>l. c = RegisterLayout i l \<and> late_registration i l (sn_document s))"
proof (cases "subject_of c = Some i")
  case True
  have "map_of (sn_derived s) i \<noteq> None \<longrightarrow> map_of (doc_manifests (sn_document s)) i \<noteq> None"
    using assms(2) by (auto simp: current_def split: option.splits)
  with True assms show ?thesis
    using opened_current removed_current activated_current renamed_fresh registered_current
    by (cases c) (auto simp: scene_wf_def)
next
  case False
  with assms same_entries_fresh [OF document_others] show ?thesis by (auto simp: scene_wf_def)
qed

lemma document_behind:
  assumes "scene_wf s" "behind s i"
  shows "current (apply_document c s) i \<or> behind (apply_document c s) i"
proof (cases "subject_of c = Some i")
  case True
  have "map_of (doc_manifests (sn_document s)) i \<noteq> None" using assms(2) by (auto simp: behind_def split: option.splits)
  with True assms show ?thesis
    using opened_current removed_current activated_current renamed_fresh registered_behind
    by (cases c) (auto simp: scene_wf_def)
next
  case False
  with assms same_entries_fresh [OF document_others] show ?thesis by (auto simp: scene_wf_def)
qed

subsection \<open>Snapshots, imports and removals\<close>

text \<open>Loading a snapshot rebuilds every dataset's derived state.\<close>

lemma map_of_fold_update:
  "distinct (map fst ms) \<Longrightarrow>
     map_of (fold (\<lambda>(i, m). AList.update i (f i m)) ms acc) =
       (\<lambda>i. case map_of ms i of None \<Rightarrow> map_of acc i | Some m \<Rightarrow> Some (f i m))"
proof (induction ms arbitrary: acc)
  case (Cons im ms)
  obtain i m where "im = (i, m)" by (cases im)
  with Cons show ?case by (auto simp: fun_eq_iff map_of_eq_None_iff [THEN iffD2] split: option.splits)
qed simp

lemma load_document_keeps:
  "sn_document (load_document d s) = d"
  "sn_derived (load_document d s) = sn_derived (rebuild_derived (s\<lparr>sn_document := d\<rparr>))"
  by (simp_all add: load_document_def Let_def rebuild_derived_def split: prod.splits)

lemma load_current:
  assumes "doc_wf d"
  shows "current (load_document d s) i"
proof -
  have "distinct (map fst (doc_manifests d))" using assms by (simp add: doc_wf_def alist_all_def)
  then show ?thesis
    by (auto simp: current_derive load_document_keeps rebuild_derived_def map_of_fold_update split: option.splits)
qed

lemma import_keeps [simp]:
  "sn_document (import_presence c v disp s) = sn_document s" "sn_derived (import_presence c v disp s) = sn_derived s"
  "sn_document (import_dataset_presence ord st s) = sn_document s"
  "sn_derived (import_dataset_presence ord st s) = sn_derived s"
  by (simp_all add: import_presence_def import_dataset_presence_def Let_def)

lemma removal_fresh:
  assumes "doc_wf (sn_document s)"
  shows "current (scene_remove_dataset i s) i" "j \<noteq> i \<Longrightarrow> same_entries j s (scene_remove_dataset i s)"
  using assms by (simp_all add: current_def same_entries_def scene_remove_dataset_def remove_dataset_eq map_of_filter_key)

text \<open>
  Everything that happens to a client's scene: commands of the server, local viewport
  commands, a snapshot, the presence of a followed user, and a local removal.
\<close>

inductive scene_step :: "scene \<Rightarrow> scene \<Rightarrow> bool" where
  document_step: "scene_step s (scene_apply fm (DocumentCmd c) s)"
| viewport_step: "scene_step s (scene_apply fm (ViewportCmd v) s)"
| snapshot_step: "doc_wf d \<Longrightarrow> scene_step s (load_document d s)"
| presence_step: "scene_step s (import_presence cam v disp s)"
| settings_step: "scene_step s (import_dataset_presence ord st s)"
| removal_step: "scene_step s (scene_remove_dataset i s)"

definition scene_init :: "scene \<Rightarrow> bool" where
  "scene_init s \<longleftrightarrow> (\<exists>vp. s = scene_new vp)"

lemma same_entries_keep: "sn_document t = sn_document s \<Longrightarrow> sn_derived t = sn_derived s \<Longrightarrow> same_entries i s t"
  by (simp add: same_entries_def)

text \<open>One step of a scene, seen by one dataset.\<close>

lemma step_fresh:
  assumes "scene_wf s" "scene_step s t"
  shows "(current t i \<or> behind t i)
    \<and> (current s i \<longrightarrow> current t i \<or> (\<exists>fm l. t = scene_apply fm (DocumentCmd (RegisterLayout i l)) s
         \<and> late_registration i l (sn_document s)))"
  using assms(2)
proof cases
  case (document_step fm c)
  have "current s i \<or> behind s i" using assms(1) by (simp add: scene_wf_def)
  then show ?thesis
    using document_current [OF assms(1), of i c] document_behind [OF assms(1), of i c] registered_late document_step
    by (metis scene_apply.simps(1))
next
  case (snapshot_step d)
  then show ?thesis by (simp add: load_current)
next
  case (removal_step j)
  have "doc_wf (sn_document s)" "current s i \<or> behind s i" using assms(1) by (simp_all add: scene_wf_def)
  then show ?thesis
    using removal_fresh [of s j] same_entries_fresh [OF removal_fresh(2), of s i j] removal_step by blast
qed (use assms(1) same_entries_fresh [OF same_entries_keep, of t s i] in \<open>simp_all add: scene_wf_def\<close>)

lemma step_doc_wf: "scene_step s t \<Longrightarrow> doc_wf (sn_document s) \<Longrightarrow> doc_wf (sn_document t)"
proof (induction rule: scene_step.induct)
  case (removal_step s i)
  with doc_apply_wf [of "sn_document s" "RemoveDataset i"] show ?case by (simp add: scene_remove_dataset_def)
qed (auto simp: apply_document_document doc_apply_wf load_document_keeps simp del: doc_apply.simps)

interpretation scenes: invariant_system scene_init scene_step scene_wf
proof unfold_locales
  show "scene_wf s" if "scene_init s" for s
    using that doc_wf_default by (auto simp: scene_init_def scene_new_def scene_wf_def current_def doc_default_def)
qed (use step_fresh step_doc_wf in \<open>auto simp: scene_wf_def\<close>)

text \<open>
  C23: how fresh the derived state of a scene is, after any sequence of commands, snapshots
  of well-formed documents, imports and removals. What is cached for a dataset is what the
  document's manifest and its active layout give when recomputed, and nothing is cached
  for a dataset the document does not have. The one exception is a layout that was registered
  after its id had been made active: there the cache holds what the manifest's default layout
  gives. Only such a registration makes a current dataset fall behind, and opening the dataset,
  activating a layout or loading a snapshot makes it current.
\<close>
theorem derived_follows_document:
  assumes "reachable scene_init scene_step s"
  shows "doc_wf (sn_document s)
    \<and> (\<forall>i. current s i \<or> behind s i)
    \<and> (\<forall>t i. scene_step s t \<and> current s i \<and> \<not> current t i \<longrightarrow>
         (\<exists>fm l. t = scene_apply fm (DocumentCmd (RegisterLayout i l)) s \<and> late_registration i l (sn_document s)))
    \<and> (\<forall>fm i l. current (scene_apply fm (DocumentCmd (SetActiveLayout i l)) s) i)
    \<and> (\<forall>fm ev. current (scene_apply fm (DocumentCmd (DatasetOpened ev)) s) (mf_dataset_id (op_manifest ev)))
    \<and> (\<forall>d i. doc_wf d \<longrightarrow> current (load_document d s) i)"
proof -
  have wf: "scene_wf s" by (rule scenes.reachable_inv [OF assms])
  have "map_of (sn_derived s) i \<noteq> None \<longrightarrow> map_of (doc_manifests (sn_document s)) i \<noteq> None" for i
  proof -
    have "current s i \<or> behind s i" using wf by (simp add: scene_wf_def)
    then show ?thesis by (auto simp: current_def behind_def split: option.splits)
  qed
  then have "current (scene_apply fm (DocumentCmd (SetActiveLayout i l)) s) i" for fm i l
    by (simp add: activated_current)
  moreover have "current (scene_apply fm (DocumentCmd (DatasetOpened ev)) s) (mf_dataset_id (op_manifest ev))" for fm ev
    by (simp add: opened_current)
  ultimately show ?thesis
    using wf [unfolded scene_wf_def] step_fresh [OF wf] load_current by blast
qed

theorem derived_follows_document_witness:
  "map_of (sn_derived (scene_apply flat_libm (DocumentCmd (DatasetOpened sample_opened)) (scene_new (8, 8)))) ''a''
     = Some (build_derived_state sample_collection (hd (mf_source_layouts sample_collection)))"
proof -
  let ?s = "scene_apply flat_libm (DocumentCmd (DatasetOpened sample_opened)) (scene_new (8, 8))"
  have "reachable scene_init scene_step (scene_new (8, 8))"
    by (rule reach_init) (auto simp: scene_init_def)
  from derived_follows_document [OF this]
  have "current ?s (mf_dataset_id (op_manifest sample_opened))" by blast
  moreover have "mf_dataset_id (op_manifest sample_opened) = ''a''"
    by (simp add: sample_opened_def sample_collection_def manifest_new_def)
  ultimately have *: "current ?s ''a''" by (simp only:)
  have d: "sn_document ?s = doc_apply (DatasetOpened sample_opened) doc_default"
    by (simp add: apply_document_document scene_new_def del: doc_apply.simps)
  have "map_of (doc_manifests (sn_document ?s)) ''a'' = Some sample_collection"
    "map_of (doc_active_layout_ids (sn_document ?s)) ''a'' = None"
    unfolding d by (simp_all add: sample_opened_def sample_collection_def manifest_new_def register_dataset_def
        doc_default_def)
  moreover have "default_layout sample_collection = hd (mf_source_layouts sample_collection)"
    by (simp add: sample_collection_def manifest_new_def default_layout_def find_layout_def first_of_def)
  ultimately show ?thesis using * by (simp add: current_def doc_layout_def resolve_layout_def)
qed

lemma activate_layout_active:
  assumes "map_of (doc_manifests (sn_document s)) i = Some m"
  shows "map_option dv_active_layout (map_of (sn_derived (activate_layout i l s)) i)
    = Some (doc_layout i m (Some l) (set_active_layout i l (sn_document s)))"
  using assms
  by (simp add: activate_layout_def on_document_def Let_def derive_def build_derived_state_def set_active_layout_def)

lemma activate_layout_document: "sn_document (activate_layout i l s) = set_active_layout i l (sn_document s)"
  using apply_document_document [of "SetActiveLayout i l" s] by (simp add: apply_document_def)

text \<open>A dataset that has fallen behind.\<close>

definition late_layout :: layout_spec where
  "late_layout = \<lparr>lay_id = ''grid'', lay_name = ''Grid'', lay_placements = []\<rparr>"

definition late_scene :: "libm \<Rightarrow> scene" where
  "late_scene fm = fold (scene_apply fm) [DocumentCmd (DatasetOpened sample_opened),
     DocumentCmd (SetActiveLayout ''a'' ''grid''), DocumentCmd (RegisterLayout ''a'' late_layout)] (scene_new (8, 8))"

text \<open>
  a layout registered under the id that was already made active, before anything of
  that id existed, is at once what the document resolves to, while the scene goes on
  placing the dataset by its default layout until the layout is activated a second time.
\<close>
theorem late_registration_is_stale:
  "doc_layout ''a'' sample_collection (map_of (doc_active_layout_ids (sn_document (late_scene fm))) ''a'')
      (sn_document (late_scene fm)) = late_layout
   \<and> map_option dv_active_layout (map_of (sn_derived (late_scene fm)) ''a'') = Some (default_layout sample_collection)
   \<and> default_layout sample_collection \<noteq> late_layout
   \<and> map_option dv_active_layout (map_of (sn_derived
        (scene_apply fm (DocumentCmd (SetActiveLayout ''a'' ''grid'')) (late_scene fm))) ''a'') = Some late_layout"
proof -
  define s1 where "s1 = scene_apply fm (DocumentCmd (DatasetOpened sample_opened)) (scene_new (8, 8))"
  define s2 where "s2 = activate_layout ''a'' ''grid'' s1"
  have l3: "late_scene fm = on_document (RegisterLayout ''a'' late_layout) (bump_layout s2)"
    by (simp add: late_scene_def s1_def s2_def apply_document_def)
  have d1: "sn_document s1 = doc_default\<lparr>doc_manifests := [(''a'', sample_collection)],
      doc_asset_catalogs := [(''a'', [])]\<rparr>"
    by (simp add: s1_def apply_document_document scene_new_def sample_opened_def sample_collection_def manifest_new_def
        register_dataset_def doc_default_def)
  have d2: "sn_document s2 = (sn_document s1)\<lparr>doc_active_layout_ids := [(''a'', ''grid'')]\<rparr>"
    by (simp add: s2_def activate_layout_document set_active_layout_def reanchor_for_layout_def d1 doc_default_def)
  have grid: "find_layout ''grid'' (mf_source_layouts sample_collection) = None"
    by (simp add: sample_collection_def manifest_new_def find_layout_def)
  have "doc_layout ''a'' sample_collection (Some ''grid'') (sn_document s2) = default_layout sample_collection"
    by (simp add: d2 d1 doc_layout_def resolve_layout_def grid doc_default_def)
  then have old: "map_option dv_active_layout (map_of (sn_derived s2) ''a'') = Some (default_layout sample_collection)"
    using activate_layout_active [of s1 "''a''" sample_collection "''grid''"] d1
    by (simp add: s2_def activate_layout_document)
  have d3: "sn_document (late_scene fm) = (sn_document s2)\<lparr>doc_registered_layouts := [(''a'', [late_layout])]\<rparr>"
    by (simp add: l3 on_document_def register_layout_def d2 d1 doc_default_def entry_or_default_def)
  have new: "doc_layout ''a'' sample_collection (Some ''grid'') (sn_document (late_scene fm)) = late_layout"
    using grid by (simp add: d3 doc_layout_def resolve_layout_def find_layout_def late_layout_def)
  have again: "set_active_layout ''a'' ''grid'' (sn_document (late_scene fm)) = sn_document (late_scene fm)"
    by (simp add: set_active_layout_def reanchor_for_layout_def d3 d2 d1)
  have "default_layout sample_collection \<noteq> late_layout"
    by (simp add: default_layout_def sample_collection_def manifest_new_def first_of_def late_layout_def)
  moreover have "map_of (doc_manifests (sn_document (late_scene fm))) ''a'' = Some sample_collection"
    "map_of (doc_active_layout_ids (sn_document (late_scene fm))) ''a'' = Some ''grid''"
    by (simp_all add: d3 d2 d1)
  moreover have "sn_derived (late_scene fm) = sn_derived s2"
    unfolding l3 by (simp add: on_document_def)
  ultimately show ?thesis
    using old new again activate_layout_active [of "late_scene fm" "''a''" sample_collection "''grid''"]
    by (simp add: apply_document_def)
qed

end
