(* ===== verification/ViewQuery.thy ===== *)
theory ViewQuery
  imports Scene "HOL-Library.Multiset" "HOL-Library.List_Lexorder" "HOL-Library.Char_ord"
begin

text \<open>
  The delta form of the view query (\<^verbatim>\<open>lucida-core/src/query.rs\<close> and \<^verbatim>\<open>scene/mod.rs\<close>): the
  cursor each dataset keeps of its last query, the classification of the current records
  against it, and what a consumer rebuilds from the deltas. The records themselves are the
  result of the projection \<^verbatim>\<open>view_query\<close>, which is a parameter: the theorems hold for
  whatever it reports.
\<close>

section \<open>Queries\<close>

record entity_query =
  er_entity_id :: entity_id
  er_image_id :: image_id
  er_kind :: entity_kind
  er_visible :: bool
  er_projected_diagonal_px :: f64
  er_projected_area_px2 :: f64
  er_centroid_world :: vec3
  er_target_level :: nat
  er_level_pinned :: bool
  er_importance :: f64

record query_result =
  vr_epochs :: epochs
  vr_visible_entities :: "entity_query list"

datatype query_delta =
    FullQuery query_result
  | DeltaQuery (qd_epochs: epochs) (qd_entered: "entity_query list") (qd_left: "image_id list")
      (qd_changed: "entity_query list")

definition quantized_of :: "entity_query \<Rightarrow> quantized" where
  "quantized_of e = \<lparr>qe_visible = er_visible e, qe_target_level = er_target_level e,
     qe_level_pinned = er_level_pinned e, qe_kind = er_kind e\<rparr>"

definition view_query_diff :: "(image_id \<times> quantized) list \<Rightarrow> entity_query list \<Rightarrow> (image_id \<times> quantized) list \<Rightarrow>
    entity_query list \<times> image_id list \<times> entity_query list" where
  "view_query_diff prev current new_entries =
     (let entered = filter (\<lambda>e. map_of prev (er_image_id e) = None) current;
          changed = filter (\<lambda>e. case map_of prev (er_image_id e) of
                              None \<Rightarrow> False | Some before \<Rightarrow> before \<noteq> quantized_of e) current;
          left = filter (\<lambda>i. map_of new_entries i = None) (map fst prev)
      in (sort_key er_image_id entered, sort left, sort_key er_image_id changed))"

definition query_entries :: "query_result \<Rightarrow> (image_id \<times> quantized) list" where
  "query_entries r = collect_map (map (\<lambda>e. (er_image_id e, quantized_of e)) (vr_visible_entities r))"

definition seed_cursor :: "dataset_id \<Rightarrow> (image_id \<times> quantized) list \<Rightarrow> scene \<Rightarrow> scene" where
  "seed_cursor i entries s =
     s\<lparr>sn_view_query_cursors := AList.update i
        \<lparr>vc_content = ep_content (sn_epochs s), vc_layout = ep_layout (sn_epochs s), vc_asset = ep_asset (sn_epochs s),
         vc_mode = camera_mode_of (sn_camera s), vc_entries = entries\<rparr> (sn_view_query_cursors s)\<rparr>"

definition last_query_entries :: "dataset_id \<Rightarrow> scene \<Rightarrow> (image_id \<times> quantized) list option" where
  "last_query_entries i s =
     (case map_of (sn_view_query_cursors s) i of
        None \<Rightarrow> None
      | Some c \<Rightarrow> if cursor_matches (sn_epochs s) (camera_mode_of (sn_camera s)) c then Some (vc_entries c) else None)"

definition view_query_delta :: "(scene \<Rightarrow> dataset_id \<Rightarrow> query_result option) \<Rightarrow> dataset_id \<Rightarrow> scene \<Rightarrow>
    scene \<times> query_delta option" where
  "view_query_delta view_query i s =
     (case view_query s i of
        None \<Rightarrow> (s, None)
      | Some result \<Rightarrow>
          let new_entries = query_entries result
          in (case last_query_entries i s of
                None \<Rightarrow> (seed_cursor i new_entries s, Some (FullQuery result))
              | Some prev \<Rightarrow>
                  (case view_query_diff prev (vr_visible_entities result) new_entries of
                     (entered, left, changed) \<Rightarrow>
                       (seed_cursor i new_entries s,
                        Some (DeltaQuery (vr_epochs result) entered left changed)))))"

section \<open>The level pin\<close>

definition level_pin :: "scene \<Rightarrow> dataset_id \<Rightarrow> nat option" where
  "level_pin s i = Option.bind (map_of (sn_dataset_settings s) i) dd_detail_level_override"

definition pinnable_levels :: "scene \<Rightarrow> dataset_id \<Rightarrow> nat list" where
  "pinnable_levels s i =
     (case Option.bind (map_of (doc_manifests (sn_document s)) i) (\<lambda>m. first_of (mf_images m)) of
        None \<Rightarrow> [] | Some img \<Rightarrow> selectable_detail_levels (im_multiscale img))"

section \<open>The consumer\<close>

text \<open>
  A consumer holds records by image id: a full snapshot replaces them, a delta drops what
  left and inserts or replaces what entered or changed.
\<close>

type_synonym held = "image_id \<rightharpoonup> entity_query"

definition hold :: "entity_query list \<Rightarrow> held \<Rightarrow> held" where
  "hold es h = fold (\<lambda>e h. h(er_image_id e \<mapsto> e)) es h"

fun consume :: "query_delta \<Rightarrow> held \<Rightarrow> held" where
  "consume (FullQuery r) h = hold (vr_visible_entities r) Map.empty"
| "consume (DeltaQuery _ entered left changed) h = hold changed (hold entered (h |` (- set left)))"

definition agrees :: "held \<Rightarrow> (image_id \<times> quantized) list \<Rightarrow> bool" where
  "agrees h entries \<longleftrightarrow> (\<forall>i. map_option quantized_of (h i) = map_of entries i)"

lemma hold_other: "i \<notin> er_image_id ` set es \<Longrightarrow> hold es h i = h i"
  unfolding hold_def by (induction es arbitrary: h) auto

lemma hold_mem:
  "distinct (map er_image_id es) \<Longrightarrow> e \<in> set es \<Longrightarrow> hold es h (er_image_id e) = Some e"
proof (induction es arbitrary: h)
  case (Cons x es)
  show ?case
  proof (cases "e = x")
    case True
    with Cons.prems have "er_image_id e \<notin> er_image_id ` set es" by auto
    from hold_other [OF this] True show ?thesis by (simp add: hold_def)
  next
    case False
    with Cons show ?thesis by (simp add: hold_def)
  qed
qed simp

lemma query_entries_eq:
  "distinct (map er_image_id (vr_visible_entities r)) \<Longrightarrow>
     query_entries r = map (\<lambda>e. (er_image_id e, quantized_of e)) (vr_visible_entities r)"
  unfolding query_entries_def by (rule collect_distinct) (simp add: comp_def)

lemma map_of_entries_mem:
  assumes "distinct (map er_image_id es)" "e \<in> set es"
  shows "map_of (map (\<lambda>e. (er_image_id e, quantized_of e)) es) (er_image_id e) = Some (quantized_of e)"
  by (rule map_of_is_SomeI) (use assms in \<open>auto simp: comp_def\<close>)

lemma map_of_entries_None:
  "map_of (map (\<lambda>e. (er_image_id e, quantized_of e)) es) i = None \<longleftrightarrow> i \<notin> er_image_id ` set es"
  by (auto simp: map_of_eq_None_iff image_iff)

text \<open>A consumer that agrees with the records of a query.\<close>

lemma agrees_iff:
  assumes "distinct (map er_image_id es)"
  shows "agrees h (map (\<lambda>e. (er_image_id e, quantized_of e)) es) \<longleftrightarrow>
    (\<forall>e \<in> set es. map_option quantized_of (h (er_image_id e)) = Some (quantized_of e))
    \<and> (\<forall>i. i \<notin> er_image_id ` set es \<longrightarrow> h i = None)"
proof -
  have "map_of (map (\<lambda>e. (er_image_id e, quantized_of e)) es) i = None" if "i \<notin> er_image_id ` set es" for i
    using that by (simp add: map_of_entries_None)
  note out = this and mem = map_of_entries_mem [OF assms]
  show ?thesis (is "?L \<longleftrightarrow> ?R")
  proof
    assume L: ?L
    have "map_option quantized_of (h (er_image_id e)) = Some (quantized_of e)" if "e \<in> set es" for e
      using L mem [OF that] unfolding agrees_def by simp
    moreover have "h i = None" if "i \<notin> er_image_id ` set es" for i
      using L out [OF that] unfolding agrees_def by (metis option.map_disc_iff)
    ultimately show ?R by blast
  next
    assume R: ?R
    show ?L unfolding agrees_def
    proof
      fix i
      show "map_option quantized_of (h i) = map_of (map (\<lambda>e. (er_image_id e, quantized_of e)) es) i"
      proof (cases "i \<in> er_image_id ` set es")
        case True
        then obtain e where "e \<in> set es" "i = er_image_id e" by blast
        with R mem show ?thesis by simp
      next
        case False
        with R out show ?thesis by simp
      qed
    qed
  qed
qed

lemma consume_full:
  assumes "distinct (map er_image_id (vr_visible_entities r))"
  shows "agrees (consume (FullQuery r) h) (query_entries r)"
  unfolding query_entries_eq [OF assms] agrees_iff [OF assms]
  using hold_mem [OF assms] hold_other by simp

lemma diff_sets:
  assumes "view_query_diff prev es new_entries = (entered, left, changed)"
  shows "set entered = {e \<in> set es. map_of prev (er_image_id e) = None}"
    "set changed = {e \<in> set es. \<exists>b. map_of prev (er_image_id e) = Some b \<and> b \<noteq> quantized_of e}"
    "set left = {i. map_of prev i \<noteq> None \<and> map_of new_entries i = None}"
proof -
  show "set entered = {e \<in> set es. map_of prev (er_image_id e) = None}"
    "set changed = {e \<in> set es. \<exists>b. map_of prev (er_image_id e) = Some b \<and> b \<noteq> quantized_of e}"
    using assms by (auto simp: view_query_diff_def Let_def split: option.splits)
  show "set left = {i. map_of prev i \<noteq> None \<and> map_of new_entries i = None}"
    using assms by (force simp: view_query_diff_def Let_def map_of_eq_None_iff [of prev])
qed

lemma diff_distinct:
  assumes "view_query_diff prev es new_entries = (entered, left, changed)" "distinct (map er_image_id es)"
  shows "distinct (map er_image_id entered)" "distinct (map er_image_id changed)"
proof -
  have d: "distinct (map er_image_id (filter P es))" for P using assms(2) by (rule distinct_map_filter)
  have "mset (map er_image_id (sort_key er_image_id xs)) = mset (map er_image_id xs)" for xs :: "entity_query list"
    by (simp add: mset_map mset_sort)
  then have "distinct (map er_image_id (sort_key er_image_id xs)) \<longleftrightarrow> distinct (map er_image_id xs)" for xs :: "entity_query list"
    by (metis mset_eq_imp_distinct_iff)
  with d assms(1) show "distinct (map er_image_id entered)" "distinct (map er_image_id changed)"
    by (auto simp: view_query_diff_def Let_def)
qed

lemma consume_delta:
  assumes dist: "distinct (map er_image_id es)" and ag: "agrees h prev"
    and diff: "view_query_diff prev es (map (\<lambda>e. (er_image_id e, quantized_of e)) es) = (entered, left, changed)"
  shows "agrees (consume (DeltaQuery ep entered left changed) h) (map (\<lambda>e. (er_image_id e, quantized_of e)) es)"
  unfolding agrees_iff [OF dist]
proof (intro conjI ballI allI impI)
  note S = diff_sets [OF diff] and D = diff_distinct [OF diff dist]
  have inj: "e = e'" if "e \<in> set es" "e' \<in> set es" "er_image_id e = er_image_id e'" for e e'
    using dist that by (auto simp: distinct_map dest: inj_onD)
  let ?h = "consume (DeltaQuery ep entered left changed) h"
  fix e assume e: "e \<in> set es"
  show "map_option quantized_of (?h (er_image_id e)) = Some (quantized_of e)"
  proof (cases "e \<in> set changed")
    case True
    then show ?thesis using hold_mem [OF D(2)] by simp
  next
    case False
    have nc: "er_image_id e \<notin> er_image_id ` set changed"
      using False e inj S(2) by (auto simp: image_iff)
    show ?thesis
    proof (cases "e \<in> set entered")
      case True
      then show ?thesis using hold_mem [OF D(1)] hold_other [OF nc] by simp
    next
      case ne: False
      have "er_image_id e \<notin> er_image_id ` set entered" using ne e inj S(1) by (auto simp: image_iff)
      moreover have "er_image_id e \<notin> set left"
        using e map_of_entries_mem [OF dist e] S(3) by auto
      ultimately have "?h (er_image_id e) = h (er_image_id e)" using hold_other nc by simp
      moreover have "map_of prev (er_image_id e) = Some (quantized_of e)"
        using e ne False S(1,2) by (cases "map_of prev (er_image_id e)") auto
      ultimately show ?thesis using ag by (simp add: agrees_def)
    qed
  qed
next
  note S = diff_sets [OF diff]
  let ?h = "consume (DeltaQuery ep entered left changed) h"
  fix i assume i: "i \<notin> er_image_id ` set es"
  then have "i \<notin> er_image_id ` set entered" "i \<notin> er_image_id ` set changed" using S(1,2) by auto
  then have h: "?h i = (h |` (- set left)) i" using hold_other by simp
  show "?h i = None"
  proof (cases "map_of prev i")
    case None
    then have "h i = None" using ag by (metis agrees_def option.map_disc_iff)
    with h show ?thesis by (simp add: restrict_map_def)
  next
    case (Some q)
    with i S(3) have "i \<in> set left" by (simp add: map_of_entries_None)
    with h show ?thesis by (simp add: restrict_map_def)
  qed
qed

section \<open>Properties\<close>

text \<open>What the cursor of a dataset remembers is what the consumer holds.\<close>

definition consumer_synced :: "dataset_id \<Rightarrow> scene \<Rightarrow> held \<Rightarrow> bool" where
  "consumer_synced i s h \<longleftrightarrow>
     (case map_of (sn_view_query_cursors s) i of None \<Rightarrow> True | Some c \<Rightarrow> agrees h (vc_entries c))"

text \<open>
  C25: deltas rebuild the query. A consumer that holds what the last query of a dataset
  reported, and applies the answer of the next one (a full snapshot, or drop what left and
  upsert what entered and changed), holds exactly the records a fresh query reports, with
  the same quantized state, and is again in step with the cursor. This holds whatever
  happened to the scene in between.
\<close>
theorem deltas_rebuild_query:
  assumes "consumer_synced i s h" "view_query s i = Some r" "distinct (map er_image_id (vr_visible_entities r))"
    and "view_query_delta view_query i s = (s', Some delta)"
  shows "consumer_synced i s' (consume delta h)
    \<and> dom (consume delta h) = er_image_id ` set (vr_visible_entities r)
    \<and> list_all (\<lambda>e. map_option quantized_of (consume delta h (er_image_id e)) = Some (quantized_of e))
        (vr_visible_entities r)"
proof -
  let ?new = "query_entries r"
  have s': "s' = seed_cursor i ?new s"
    using assms(2,4) by (auto simp: view_query_delta_def Let_def split: option.splits prod.splits)
  have ag: "agrees (consume delta h) ?new"
  proof (cases "last_query_entries i s")
    case None
    with assms(2,4) have "delta = FullQuery r" by (simp add: view_query_delta_def)
    then show ?thesis using consume_full [OF assms(3)] by simp
  next
    case (Some prev)
    then have prev: "agrees h prev"
      using assms(1) by (auto simp: last_query_entries_def consumer_synced_def split: option.splits if_splits)
    obtain en lf chg where d: "view_query_diff prev (vr_visible_entities r) ?new = (en, lf, chg)"
      by (cases "view_query_diff prev (vr_visible_entities r) ?new") auto
    with Some assms(2,4) have "delta = DeltaQuery (vr_epochs r) en lf chg" by (simp add: view_query_delta_def)
    then show ?thesis
      using consume_delta [OF assms(3) prev d [unfolded query_entries_eq [OF assms(3)]]]
      by (simp only: query_entries_eq [OF assms(3)])
  qed
  have "consumer_synced i s' (consume delta h)"
    using ag by (simp add: s' seed_cursor_def consumer_synced_def map_of_update)
  moreover have R: "(\<forall>e \<in> set (vr_visible_entities r).
      map_option quantized_of (consume delta h (er_image_id e)) = Some (quantized_of e))
    \<and> (\<forall>j. j \<notin> er_image_id ` set (vr_visible_entities r) \<longrightarrow> consume delta h j = None)"
    using ag unfolding query_entries_eq [OF assms(3)] agrees_iff [OF assms(3)] .
  moreover have "dom (consume delta h) = er_image_id ` set (vr_visible_entities r)"
    using R by fastforce
  ultimately show ?thesis by (simp add: list_all_iff)
qed

definition sample_record :: "image_id \<Rightarrow> nat \<Rightarrow> entity_query" where
  "sample_record i l = \<lparr>er_entity_id = i, er_image_id = i, er_kind = EImage, er_visible = True,
     er_projected_diagonal_px = 1, er_projected_area_px2 = 1, er_centroid_world = (0, 0, 0), er_target_level = l,
     er_level_pinned = False, er_importance = 1\<rparr>"

definition sample_query :: "scene \<Rightarrow> dataset_id \<Rightarrow> query_result option" where
  "sample_query s i = Some \<lparr>vr_epochs = sn_epochs s, vr_visible_entities = [sample_record ''a'' 0, sample_record ''b'' 1]\<rparr>"

theorem deltas_rebuild_query_witness:
  "\<exists>s' delta. view_query_delta sample_query ''d'' (scene_new (8, 8)) = (s', Some delta)
     \<and> dom (consume delta Map.empty) = {''a'', ''b''}"
proof -
  let ?s = "scene_new (8, 8)"
  let ?r = "\<lparr>vr_epochs = sn_epochs ?s, vr_visible_entities = [sample_record ''a'' 0, sample_record ''b'' 1]\<rparr>"
  have none: "last_query_entries ''d'' ?s = None" by (simp add: last_query_entries_def scene_new_def)
  have q: "sample_query ?s ''d'' = Some ?r" by (simp add: sample_query_def)
  have vq: "view_query_delta sample_query ''d'' ?s = (seed_cursor ''d'' (query_entries ?r) ?s, Some (FullQuery ?r))"
    by (simp add: view_query_delta_def q none)
  have "consumer_synced ''d'' ?s Map.empty" by (simp add: consumer_synced_def scene_new_def)
  from deltas_rebuild_query [OF this q _ vq] have "dom (consume (FullQuery ?r) Map.empty) = {''a'', ''b''}"
    by (simp add: sample_record_def)
  with vq show ?thesis by blast
qed

end
