(* ===== verification/SceneSync.thy ===== *)
theory SceneSync
  imports SceneProps ViewQuery
begin

text \<open>
  The scene against the document it was given: what loading a snapshot leaves in the
  per-dataset tables, the member index against a linear search, and the level pins.
\<close>

section \<open>Loading a document\<close>

definition seed_for :: "document \<Rightarrow> dataset_id \<Rightarrow> display_settings" where
  "seed_for d i = (case map_of (doc_manifests d) i of Some m \<Rightarrow> seeded_for m | None \<Rightarrow> dds_default)"

lemma fold_adopt_order:
  "distinct ids \<Longrightarrow> fst (fold (adopt_dataset d) ids (order, settings)) = order @ filter (\<lambda>i. i \<notin> set order) ids"
proof (induction ids arbitrary: order settings)
  case (Cons i ids)
  let ?order = "if i \<in> set order then order else order @ [i]"
  obtain st where "adopt_dataset d i (order, settings) = (?order, st)"
    by (simp add: adopt_dataset_def)
  moreover have "filter (\<lambda>j. j \<notin> set ?order) ids = filter (\<lambda>j. j \<notin> set order) ids"
    using Cons.prems by (auto intro!: filter_cong)
  ultimately show ?case using Cons by simp
qed simp

lemma fold_adopt_settings:
  "map_of (snd (fold (adopt_dataset d) ids (order, settings))) i =
     (case map_of settings i of
        Some st \<Rightarrow> Some st
      | None \<Rightarrow> if i \<in> set ids then Some (seed_for d i) else None)"
proof (induction ids arbitrary: order settings)
  case (Cons j ids)
  show ?case
  proof (cases "map_of settings j")
    case None
    with Cons show ?thesis by (auto simp: adopt_dataset_def seed_for_def [of d j] split: option.splits)
  next
    case (Some st)
    with Cons show ?thesis by (auto simp: adopt_dataset_def split: option.splits)
  qed
qed (simp split: option.splits)

lemma map_of_realign:
  "map_of (map (realign_settings d) kvs) i =
     map_option (\<lambda>st. case map_of (doc_manifests d) i of None \<Rightarrow> st | Some m \<Rightarrow> realign_labels (label_names m) st)
       (map_of kvs i)"
  by (induction kvs) (auto simp: realign_settings_def split: option.splits)

lemma realign_seeded [simp]: "realign_labels (label_names m) (seeded_for m) = seeded_for m"
  by (simp add: realign_labels_def seeded_for_def)

text \<open>The display settings a dataset has after a snapshot was loaded.\<close>

definition settings_after_load :: "document \<Rightarrow> scene \<Rightarrow> dataset_id \<rightharpoonup> display_settings" where
  "settings_after_load d s i =
     (case map_of (doc_manifests d) i of
        None \<Rightarrow> None
      | Some m \<Rightarrow> Some (case map_of (sn_dataset_settings s) i of
                          None \<Rightarrow> seeded_for m
                        | Some st \<Rightarrow> realign_labels (label_names m) st))"

text \<open>
  a scene that loads a document lists and displays exactly that document's datasets.
  The order it had is kept, less the datasets that are gone, with the new ones after it;
  a dataset's display settings are the ones the scene had, with its labels realigned by
  name, or seeded from the manifest; no cursor is left of a dataset that is gone; the
  camera, the selectors and the display stay, and every epoch but the view's moves.
\<close>
theorem load_document_consistent:
  assumes "distinct (map fst (doc_manifests d))"
  shows "sn_dataset_order (load_document d s) =
      filter (\<lambda>i. i \<in> fst ` set (doc_manifests d)) (sn_dataset_order s)
      @ filter (\<lambda>i. i \<notin> set (sn_dataset_order s)) (map fst (doc_manifests d))
    \<and> map_of (sn_dataset_settings (load_document d s)) = settings_after_load d s
    \<and> map_of (sn_view_query_cursors (load_document d s)) =
        map_of (sn_view_query_cursors s) |` (fst ` set (doc_manifests d))
    \<and> sn_camera (load_document d s) = sn_camera s \<and> sn_view (load_document d s) = sn_view s
    \<and> sn_display (load_document d s) = sn_display s
    \<and> sn_epochs (load_document d s) =
        (case sn_epochs s of e \<Rightarrow> \<lparr>ep_content = ep_content e + 1, ep_layout = ep_layout e + 1, ep_view = ep_view e,
           ep_selection = ep_selection e + 1, ep_asset = ep_asset e + 1, ep_annotation = ep_annotation e + 1\<rparr>)"
proof -
  let ?ids = "map fst (doc_manifests d)"
  obtain order settings where f: "fold (adopt_dataset d) ?ids (sn_dataset_order s, sn_dataset_settings s) = (order, settings)"
    by (meson surj_pair)
  have order: "order = sn_dataset_order s @ filter (\<lambda>i. i \<notin> set (sn_dataset_order s)) ?ids"
    using fold_adopt_order [OF assms, of d "sn_dataset_order s" "sn_dataset_settings s"] f by simp
  have settings: "map_of settings i = (case map_of (sn_dataset_settings s) i of Some st \<Rightarrow> Some st
      | None \<Rightarrow> if i \<in> set ?ids then Some (seed_for d i) else None)" for i
    using fold_adopt_settings [of d ?ids "sn_dataset_order s" "sn_dataset_settings s" i] f by simp
  have keep: "map_of (filter (\<lambda>kv. fst kv \<in> A) kvs) = map_of kvs |` A" for A and kvs :: "(dataset_id \<times> 'v) list"
    by (induction kvs) (auto simp: restrict_map_def)
  have st: "map_of (map (realign_settings d) (filter (\<lambda>kv. fst kv \<in> set ?ids) settings)) i = settings_after_load d s i" for i
  proof (cases "map_of (doc_manifests d) i")
    case None
    then have "i \<notin> set ?ids" by (simp add: map_of_eq_None_iff)
    then show ?thesis using None by (simp add: map_of_realign keep settings_after_load_def del: set_map)
  next
    case (Some m)
    then have "i \<in> set ?ids" by (force dest: map_of_SomeD)
    then show ?thesis using Some
      by (simp add: map_of_realign keep settings settings_after_load_def seed_for_def del: set_map split: option.splits)
  qed
  have tail: "filter (\<lambda>i. i \<notin> set (sn_dataset_order s) \<and> i \<in> set ?ids) ?ids
      = filter (\<lambda>i. i \<notin> set (sn_dataset_order s)) ?ids"
    by (rule filter_cong) simp_all
  show ?thesis
    unfolding set_map [symmetric] using f st tail
    by (simp add: load_document_def rebuild_derived_def Let_def bump_defs order keep fun_eq_iff del: set_map)
qed

theorem load_document_consistent_witness:
  "sn_dataset_order (load_document (doc_apply (DatasetOpened sample_opened) doc_default)
     ((scene_new (8, 8))\<lparr>sn_dataset_order := [''gone'']\<rparr>)) = [''a'']"
proof -
  let ?d = "doc_apply (DatasetOpened sample_opened) doc_default"
  have "map fst (doc_manifests ?d) = [''a'']"
    by (simp add: sample_opened_def sample_collection_def manifest_new_def register_dataset_def doc_default_def)
  then have ids: "map fst (doc_manifests ?d) = [''a'']" "fst ` set (doc_manifests ?d) = {''a''}"
    by (simp, metis empty_set list.simps(15) set_map)
  then have "distinct (map fst (doc_manifests ?d))" by simp
  from load_document_consistent [OF this, of "(scene_new (8, 8))\<lparr>sn_dataset_order := [''gone'']\<rparr>"]
  show ?thesis unfolding ids by simp
qed

section \<open>The member index\<close>

lemma fold_index_member:
  "fold index_member (enumerate n ms) ix i =
     (case ix i of
        Some k \<Rightarrow> Some k
      | None \<Rightarrow> if list_ex (\<lambda>m. mb_image_id m = i \<or> mb_entity_id m = i) ms
               then Some (n + length (takeWhile (\<lambda>m. \<not> (mb_image_id m = i \<or> mb_entity_id m = i)) ms)) else None)"
proof (induction ms arbitrary: n ix)
  case (Cons m ms)
  have step: "index_member (n, m) ix i =
      (case ix i of Some k \<Rightarrow> Some k | None \<Rightarrow> if mb_image_id m = i \<or> mb_entity_id m = i then Some n else None)"
    by (auto simp: index_member_def or_insert_def split: option.splits)
  show ?case unfolding enumerate_simps fold_simps Cons.IH step by (auto split: option.splits)
qed (simp split: option.splits)

text \<open>
  a member looked up by entity or image id through the index built with the derived
  state is the one a search over the members in manifest order finds first.
\<close>
theorem member_by_id_eq_search:
  "member_by_id i (build_derived_state m l) =
     find (\<lambda>mb. mb_image_id mb = i \<or> mb_entity_id mb = i) (dv_members (build_derived_state m l))"
proof -
  let ?P = "\<lambda>mb. mb_image_id mb = i \<or> mb_entity_id mb = i"
  have "find ?P ms = (if list_ex ?P ms then Some (ms ! length (takeWhile (\<lambda>m. \<not> ?P m) ms)) else None)" for ms
    by (induction ms) auto
  note find_eq = this
  let ?D = "build_derived_state m l"
  have "dv_member_index ?D = fold index_member (enumerate 0 (dv_members ?D)) Map.empty"
    by (simp add: build_derived_state_def Let_def)
  then show ?thesis unfolding member_by_id_def find_eq by (simp add: fold_index_member)
qed

section \<open>Level pins\<close>

lemma clamp_selectable:
  assumes "clamp_to_source_levels m r = Some l"
  shows "l \<in> set (selectable_detail_levels m)"
proof (cases "r \<in> set (selectable_detail_levels m)")
  case False
  with assms consider k where "list_max (filter (\<lambda>l. l \<le> r) (selectable_detail_levels m)) = Some k" "k = l"
    | "first_of (selectable_detail_levels m) = Some l"
    by (auto simp: clamp_to_source_levels_def Let_def split: option.splits)
  then show ?thesis by cases (auto simp: list_max_Some first_of_def split: list.splits)
qed (use assms in \<open>simp add: clamp_to_source_levels_def\<close>)

text \<open>
  pinning a detail level stores, for that dataset alone, the request clamped to the
  levels its source really has, so a stored pin is always one the level picker offers; a
  level the picker offers is stored as asked, and clearing the pin clears it.
\<close>
theorem level_pin_selectable:
  "(case level_pin (apply_viewport fm (SetDatasetDetailLevelOverride i r) s) i of
      None \<Rightarrow> True | Some l \<Rightarrow> l \<in> set (pinnable_levels s i))
   \<and> (\<forall>l \<in> set (pinnable_levels s i). map_of (sn_dataset_settings s) i \<noteq> None \<longrightarrow>
        level_pin (apply_viewport fm (SetDatasetDetailLevelOverride i (Some l)) s) i = Some l)
   \<and> level_pin (apply_viewport fm (SetDatasetDetailLevelOverride i None) s) i = None
   \<and> (\<forall>j. j \<noteq> i \<longrightarrow> level_pin (apply_viewport fm (SetDatasetDetailLevelOverride i r) s) j = level_pin s j)"
proof -
  have pin: "level_pin (apply_viewport fm (SetDatasetDetailLevelOverride i r) s) j =
      (if j = i then Option.bind (map_of (sn_dataset_settings s) i)
         (\<lambda>_. Option.bind r (clamp_detail_level_override s i)) else level_pin s j)" for r j
    by (simp add: level_pin_def apply_viewport_def mutate_viewport_def Let_def on_settings_def modify_def bump_defs
        split: option.splits)
  have clamp: "l \<in> set (pinnable_levels s i)" if "clamp_detail_level_override s i q = Some l" for q l
    using that clamp_selectable
    by (fastforce simp: clamp_detail_level_override_def pinnable_levels_def bind_eq_Some_conv split: option.splits)
  have exact: "clamp_detail_level_override s i l = Some l" if "l \<in> set (pinnable_levels s i)" for l
    using that by (auto simp: clamp_detail_level_override_def pinnable_levels_def clamp_to_source_levels_def
        split: option.splits bind_splits)
  show ?thesis using clamp exact by (auto simp: pin bind_eq_Some_conv split: option.splits)
qed

definition pyramid_scene :: scene where
  "pyramid_scene = (scene_new (8, 8))\<lparr>sn_document := doc_default\<lparr>doc_manifests := [(''a'',
       manifest_new ''a'' ''n'' Single [] [] [\<lparr>im_id = ''i'', im_owner = ''e'', im_multiscale = sample_pyramid\<rparr>] [] None)]\<rparr>,
     sn_dataset_settings := [(''a'', dds_default)]\<rparr>"

theorem level_pin_selectable_witness:
  "level_pin (apply_viewport flat_libm (SetDatasetDetailLevelOverride ''a'' (Some 1)) pyramid_scene) ''a'' = Some 1"
proof -
  have "1 \<in> set (pinnable_levels pyramid_scene ''a'')"
    by (simp add: pinnable_levels_def pyramid_scene_def manifest_new_def first_of_def selectable_detail_levels_def
        is_generated_level_def sample_pyramid_def sample_level_def)
  moreover have "map_of (sn_dataset_settings pyramid_scene) ''a'' \<noteq> None" by (simp add: pyramid_scene_def)
  ultimately show ?thesis
    using level_pin_selectable [where fm = flat_libm and i = "''a''" and r = None and s = pyramid_scene] by blast
qed

section \<open>Presence\<close>

lemma in_range_number: "in_range lo hi x \<Longrightarrow> feq x x"
  by (cases x) (auto simp: in_range_def less_eq_f64_def)

lemma finite_number: "is_finite x \<Longrightarrow> feq x x"
  by (cases x) auto

lemma nan_sum: "is_nan a \<or> is_nan b \<Longrightarrow> is_nan (a + b)"
  by (cases a; cases b) (auto simp: plus_f64_def)

lemma nan_square: "is_nan a \<Longrightarrow> is_nan (a * a)"
  by (cases a) (simp_all add: times_f64_def)

lemma norm_number:
  assumes "is_finite (norm_sq q)"
  shows "eq4 q q"
proof -
  obtain x y z w where q: "q = (x, y, z, w)" by (cases q)
  have "\<not> is_nan (norm_sq q)" using assms by (cases "norm_sq q") auto
  then have "\<not> (is_nan x \<or> is_nan y \<or> is_nan z \<or> is_nan w)"
    unfolding norm_sq_def q using nan_sum nan_square by (metis (no_types, lifting) case_prod_conv)
  then show ?thesis by (simp add: q eq4_def eq3_def eq2_def feq_refl)
qed

lemma sane_number: "camera_sane c \<Longrightarrow> camera_eq c c"
  by (cases c)
    (auto simp: slice_sane_def arcball_sane_def fly_sane_def all3_def angle_sane_def projection_sane_def eq2_def eq3_def
      in_range_number finite_number norm_number split: prod.splits)

lemma camera_eq_viewport: "camera_eq a b \<Longrightarrow> camera_viewport a = camera_viewport b"
  by (cases a; cases b) simp_all

lemma sanitize_viewport [simp]: "camera_viewport (camera_sanitize c) = camera_viewport c"
  by (cases c) (simp_all add: sanitize_slice_def sanitize_arcball_def sanitize_fly_def split: prod.splits)

lemma set_viewport [simp]:
  "camera_viewport (camera_set_viewport vp c) = vp" "camera_near_f64 (camera_set_viewport vp c) = camera_near_f64 c"
  by (cases c; simp)+

text \<open>
  adopting a followed user's presence lands in a camera within the interactive ranges,
  in the follower's own viewport, and takes over the selectors and the display; receiving
  the same presence again changes nothing, so an unchanged heartbeat moves no epoch.
\<close>
theorem presence_idempotent:
  assumes "camera_near_f64 cam" "\<not> is_nan (ds_contrast_min disp)" "\<not> is_nan (ds_contrast_max disp)"
    "\<not> is_nan (ds_gamma disp)"
  shows "import_presence cam v disp (import_presence cam v disp s) = import_presence cam v disp s
    \<and> camera_eq (sn_camera (import_presence cam v disp s))
        (camera_sanitize (camera_set_viewport (camera_viewport (sn_camera s)) cam))
    \<and> camera_viewport (sn_camera (import_presence cam v disp s)) = camera_viewport (sn_camera s)
    \<and> sn_view (import_presence cam v disp s) = v \<and> display_eq (sn_display (import_presence cam v disp s)) disp"
proof -
  define cam1 where "cam1 = camera_sanitize (camera_set_viewport (camera_viewport (sn_camera s)) cam)"
  define t where "t = import_presence cam v disp s"
  have "camera_eq cam1 cam1"
    unfolding cam1_def by (rule sane_number, rule camera_sanitize_in_range) (simp add: assms)
  moreover have "display_eq disp disp" using assms by (simp add: display_eq_def feq_refl)
  ultimately have t: "camera_eq (sn_camera t) cam1" "sn_view t = v" "display_eq (sn_display t) disp"
    by (simp_all add: t_def import_presence_def Let_def bump_defs cam1_def [symmetric])
  then have vp: "camera_viewport (sn_camera t) = camera_viewport (sn_camera s)"
    using camera_eq_viewport [OF t(1)] by (simp add: cam1_def)
  then have "import_presence cam v disp t = t"
    using t by (simp add: import_presence_def [of cam v disp t] Let_def cam1_def)
  with t vp show ?thesis by (simp add: t_def cam1_def)
qed

theorem presence_idempotent_witness:
  "sn_view (import_presence (Arcball broken_arcball) view_new display_default (scene_new (8, 8))) = view_new
   \<and> camera_viewport (sn_camera (import_presence (Arcball broken_arcball) view_new display_default (scene_new (8, 8)))) = (8, 8)"
proof -
  have "camera_near_f64 (Arcball broken_arcball)" by (simp add: broken_arcball_def)
  moreover have "\<not> is_nan (ds_contrast_min display_default)" "\<not> is_nan (ds_contrast_max display_default)"
    "\<not> is_nan (ds_gamma display_default)" by (simp_all add: display_default_def zero_f64_def one_f64_def)
  ultimately show ?thesis
    using presence_idempotent [of "Arcball broken_arcball" display_default view_new "scene_new (8, 8)"]
    by (simp add: scene_new_def slice_new_def)
qed

end
