(* ===== verification/Anomalies.thy ===== *)
theory Anomalies
  imports Content Text
begin

text \<open>
  The shape report of an opened manifest (\<^verbatim>\<open>lucida-core/src/command.rs\<close>): the counts one
  pass over the entities takes and the anomalies the client logs for them.
\<close>

record manifest_shape =
  ms_n_groups :: nat
  ms_n_tiles :: nat
  ms_n_orphans :: nat
  ms_n_layouts :: nat
  ms_n_tiles_without_image :: nat
  ms_collection_rows :: "nat option"
  ms_collection_columns :: "nat option"
  ms_has_explicit_positions :: "bool option"

definition missing_parent :: "entity_id set \<Rightarrow> entity \<Rightarrow> bool" where
  "missing_parent ids e \<longleftrightarrow> (case ent_parent e of None \<Rightarrow> False | Some p \<Rightarrow> p \<notin> ids)"

definition count_entity :: "entity_id set \<Rightarrow> entity_id set \<Rightarrow> entity \<Rightarrow> manifest_shape \<Rightarrow> manifest_shape" where
  "count_entity ids owners e sh =
     (case ent_kind e of
        EGroup \<Rightarrow> sh\<lparr>ms_n_groups := ms_n_groups sh + 1\<rparr>
      | ETile \<Rightarrow>
          (let sh1 = sh\<lparr>ms_n_tiles := ms_n_tiles sh + 1\<rparr>;
               sh2 = (if missing_parent ids e then sh1\<lparr>ms_n_orphans := ms_n_orphans sh1 + 1\<rparr> else sh1)
           in if ent_id e \<in> owners then sh2 else sh2\<lparr>ms_n_tiles_without_image := ms_n_tiles_without_image sh2 + 1\<rparr>)
      | EImage \<Rightarrow> sh)"

definition analyze_manifest_shape :: "dataset_manifest \<Rightarrow> manifest_shape" where
  "analyze_manifest_shape m =
     (let ids = set (map ent_id (mf_entities m));
          owners = set (map im_owner (mf_images m));
          (rows, columns, explicit) = (case mf_kind m of
              Collection rs cs _ ex \<Rightarrow> (Some (length rs), Some (length cs), Some ex)
            | Single \<Rightarrow> (None, None, None))
      in fold (count_entity ids owners) (mf_entities m)
           \<lparr>ms_n_groups = 0, ms_n_tiles = 0, ms_n_orphans = 0, ms_n_layouts = length (mf_source_layouts m),
            ms_n_tiles_without_image = 0, ms_collection_rows = rows, ms_collection_columns = columns,
            ms_has_explicit_positions = explicit\<rparr>)"

definition push_if :: "bool \<Rightarrow> string \<Rightarrow> string list \<Rightarrow> string list" where
  "push_if b msg issues = (if b then issues @ [msg] else issues)"

definition is_collection :: "dataset_kind \<Rightarrow> bool" where
  "is_collection k = (case k of Collection _ _ _ _ \<Rightarrow> True | Single \<Rightarrow> False)"

definition manifest_anomalies :: "dataset_manifest \<Rightarrow> manifest_shape \<Rightarrow> string list" where
  "manifest_anomalies m sh =
     (let coll = is_collection (mf_kind m);
          i1 = push_if (coll \<and> ms_collection_rows sh = Some 0) ''collection has zero rows'' [];
          i2 = push_if (coll \<and> ms_collection_columns sh = Some 0) ''collection has zero columns'' i1;
          i3 = push_if (coll \<and> ms_n_tiles sh = 0) ''collection has groups but no tiles'' i2;
          i4 = push_if (0 < ms_n_orphans sh)
                 (show_nat (ms_n_orphans sh) @ '' tile(s) reference a parent entity that doesn'' @ quote @ ''t exist'') i3;
          i5 = push_if (0 < ms_n_tiles_without_image sh)
                 (show_nat (ms_n_tiles_without_image sh) @ '' tile(s) have no associated image'') i4
      in (case mf_default_layout_id m of
            None \<Rightarrow> i5
          | Some i \<Rightarrow> push_if (i \<notin> set (map lay_id (mf_source_layouts m)))
              (''default_layout_id '' @ quoted i @ '' is not in source_layouts'') i5))"

definition kind_label :: "dataset_kind \<Rightarrow> string" where
  "kind_label k = (case k of Single \<Rightarrow> ''Single'' | Collection _ _ _ _ \<Rightarrow> ''Collection'')"

section \<open>What the report says\<close>

definition tiles :: "dataset_manifest \<Rightarrow> entity list" where
  "tiles m = filter (\<lambda>e. ent_kind e = ETile) (mf_entities m)"

lemma fold_count:
  "fold (count_entity ids owners) es sh =
     sh\<lparr>ms_n_groups := ms_n_groups sh + length (filter (\<lambda>e. ent_kind e = EGroup) es),
        ms_n_tiles := ms_n_tiles sh + length (filter (\<lambda>e. ent_kind e = ETile) es),
        ms_n_orphans := ms_n_orphans sh + length (filter (\<lambda>e. ent_kind e = ETile \<and> missing_parent ids e) es),
        ms_n_tiles_without_image := ms_n_tiles_without_image sh
          + length (filter (\<lambda>e. ent_kind e = ETile \<and> ent_id e \<notin> owners) es)\<rparr>"
  by (induction es arbitrary: sh) (auto simp: count_entity_def Let_def split: entity_kind.splits)

lemma push_if_nil [simp]: "push_if b x xs = [] \<longleftrightarrow> \<not> b \<and> xs = []"
  by (simp add: push_if_def)

text \<open>
  The counts of the report are the counts of the manifest's entities by kind, and no
  anomaly is logged exactly when a collection has rows, columns and tiles, every tile's
  parent exists, every tile owns an image and the default layout is a source layout.
\<close>
theorem anomalies_exact:
  "ms_n_groups (analyze_manifest_shape m) = length (filter (\<lambda>e. ent_kind e = EGroup) (mf_entities m))
   \<and> ms_n_tiles (analyze_manifest_shape m) = length (tiles m)
   \<and> (manifest_anomalies m (analyze_manifest_shape m) = [] \<longleftrightarrow>
        (case mf_kind m of Single \<Rightarrow> True | Collection rs cs _ _ \<Rightarrow> rs \<noteq> [] \<and> cs \<noteq> [] \<and> tiles m \<noteq> [])
        \<and> list_all (\<lambda>e. case ent_parent e of None \<Rightarrow> True | Some p \<Rightarrow> p \<in> ent_id ` set (mf_entities m)) (tiles m)
        \<and> list_all (\<lambda>e. ent_id e \<in> im_owner ` set (mf_images m)) (tiles m)
        \<and> (case mf_default_layout_id m of None \<Rightarrow> True | Some i \<Rightarrow> i \<in> lay_id ` set (mf_source_layouts m)))"
proof -
  have parent: "list_all (\<lambda>e. case ent_parent e of None \<Rightarrow> True | Some p \<Rightarrow> p \<in> ids) es
      \<longleftrightarrow> list_all (\<lambda>e. \<not> missing_parent ids e) es" for ids es
    by (simp add: missing_parent_def list_all_iff split: option.splits)
  show ?thesis
    by (cases "mf_kind m"; cases "mf_default_layout_id m")
      (auto simp: analyze_manifest_shape_def fold_count manifest_anomalies_def is_collection_def tiles_def parent
        list_all_iff filter_empty_conv)
qed

end
