(* ===== verification/Downsample.thy ===== *)
theory Downsample
  imports Bytes
begin

text \<open>
  Box averaging (\<^verbatim>\<open>lucida-store/src/ingest/pyramid/downsample.rs\<close>). A level is a \<open>u16\<close> array in
  TCZYX order. The code has a bulk path for whole boxes and separate paths for the right
  edge, the bottom edge and the corner of odd sizes, once for one plane and once for a pair
  of planes; \<open>average_plane\<close> is that body over the planes it sums. Products the code takes in
  \<open>u32\<close> wrap. Panics (a slice out of range, an empty chunk size) are \<open>None\<close>.
\<close>

record level_data =
  ld_data :: "u16 list"
  ld_width :: nat
  ld_height :: nat
  ld_depth :: nat
  ld_channels :: nat
  ld_timepoints :: nat

definition u32_mul :: "nat \<Rightarrow> nat \<Rightarrow> nat" where
  "u32_mul a b = a * b mod 2 ^ 32"

definition u32_add :: "nat \<Rightarrow> nat \<Rightarrow> nat" where
  "u32_add a b = (a + b) mod 2 ^ 32"

definition half_up :: "nat \<Rightarrow> nat" where
  "half_up n = (n + 1) div 2"

text \<open>The end of the bulk loop along one axis.\<close>

definition bulk_end :: "nat \<Rightarrow> nat" where
  "bulk_end n = (if even n then half_up n else half_up n - 1)"

text \<open>\<^verbatim>\<open>(sum / n) as u16\<close>, the sum taken in \<open>u32\<close>.\<close>

definition mean :: "u16 list \<Rightarrow> u16" where
  "mean vs = of_nat (sum_list (map unat vs) mod 2 ^ 32 div length vs)"

text \<open>Read the given cells of every plane and store their mean.\<close>

definition put_mean :: "u16 list list \<Rightarrow> nat list \<Rightarrow> nat \<Rightarrow> u16 list \<Rightarrow> u16 list option" where
  "put_mean planes cells i dst =
     Option.bind (those [index_at p c. p \<leftarrow> planes, c \<leftarrow> cells]) (\<lambda>vs. store_at i (mean vs) dst)"

definition average_row :: "u16 list list \<Rightarrow> nat \<Rightarrow> nat \<Rightarrow> nat list \<Rightarrow> u16 list \<Rightarrow> u16 list option" where
  "average_row planes w dy rows dst =
     (let dst_w = half_up w; at = (\<lambda>dx. u32_add (u32_mul dy dst_w) dx)
      in Option.bind
           (for_each (\<lambda>dx. put_mean planes [row + c. row \<leftarrow> rows, c \<leftarrow> [dx * 2, dx * 2 + 1]] (at dx)) [0..<bulk_end w] dst)
           (\<lambda>dst. if bulk_end w < dst_w
              then put_mean planes [row + bulk_end w * 2. row \<leftarrow> rows] (at (bulk_end w)) dst
              else Some dst))"

definition average_plane :: "u16 list list \<Rightarrow> nat \<Rightarrow> nat \<Rightarrow> u16 list option" where
  "average_plane planes w h =
     (let dst_w = half_up w; dst_h = half_up h
      in Option.bind
           (for_each (\<lambda>dy. average_row planes w dy [dy * 2 * w, dy * 2 * w + w]) [0..<bulk_end h]
             (replicate (u32_mul dst_w dst_h) 0))
           (\<lambda>dst. if bulk_end h < dst_h
              then average_row planes w (bulk_end h) [bulk_end h * 2 * w] dst
              else Some dst))"

text \<open>\<^verbatim>\<open>par_chunks_mut\<close> over planes that are computed independently.\<close>

definition par_planes :: "nat \<Rightarrow> nat \<Rightarrow> (nat \<Rightarrow> u16 list option) \<Rightarrow> u16 list option" where
  "par_planes plane n f = (if plane = 0 then None else map_option concat (those (map f [0..<n])))"

definition downsample_xy :: "level_data \<Rightarrow> level_data option" where
  "downsample_xy src =
     (let dst_w = half_up (ld_width src); dst_h = half_up (ld_height src);
          src_plane = u32_mul (ld_width src) (ld_height src);
          num_planes = u32_mul (u32_mul (ld_timepoints src) (ld_channels src)) (ld_depth src)
      in map_option (\<lambda>data. src\<lparr>ld_data := data, ld_width := dst_w, ld_height := dst_h\<rparr>)
           (par_planes (u32_mul dst_w dst_h) num_planes (\<lambda>p.
              Option.bind (slice_of (ld_data src) (p * src_plane) (p * src_plane + src_plane)) (\<lambda>plane.
                average_plane [plane] (ld_width src) (ld_height src)))))"

definition downsample_z_only :: "level_data \<Rightarrow> level_data option" where
  "downsample_z_only src =
     (let dst_d = half_up (ld_depth src);
          plane_size = u32_mul (ld_width src) (ld_height src);
          tc_count = u32_mul (ld_timepoints src) (ld_channels src)
      in map_option (\<lambda>data. src\<lparr>ld_data := data, ld_depth := dst_d\<rparr>)
           (par_planes plane_size (tc_count * dst_d) (\<lambda>idx.
              let tc_base = idx div dst_d * ld_depth src * plane_size;
                  sz0 = idx mod dst_d * 2; sz1 = sz0 + 1
              in Option.bind (slice_of (ld_data src) (tc_base + sz0 * plane_size) (tc_base + sz0 * plane_size + plane_size)) (\<lambda>src0.
                   if sz1 < ld_depth src then
                     map_option (\<lambda>src1. map2 (\<lambda>a b. mean [a, b]) src0 src1)
                       (slice_of (ld_data src) (tc_base + sz1 * plane_size) (tc_base + sz1 * plane_size + plane_size))
                   else Some src0))))"

definition downsample_xyz :: "level_data \<Rightarrow> level_data option" where
  "downsample_xyz src =
     (let dst_w = half_up (ld_width src); dst_h = half_up (ld_height src); dst_d = half_up (ld_depth src);
          src_plane = u32_mul (ld_width src) (ld_height src);
          tc_count = u32_mul (ld_timepoints src) (ld_channels src)
      in map_option (\<lambda>data. src\<lparr>ld_data := data, ld_width := dst_w, ld_height := dst_h, ld_depth := dst_d\<rparr>)
           (par_planes (u32_mul dst_w dst_h) (tc_count * dst_d) (\<lambda>idx.
              let tc_base = idx div dst_d * ld_depth src * src_plane;
                  sz0 = idx mod dst_d * 2; sz1 = sz0 + 1
              in Option.bind (slice_of (ld_data src) (tc_base + sz0 * src_plane) (tc_base + sz0 * src_plane + src_plane)) (\<lambda>plane0.
                   if sz1 < ld_depth src then
                     Option.bind (slice_of (ld_data src) (tc_base + sz1 * src_plane) (tc_base + sz1 * src_plane + src_plane)) (\<lambda>plane1.
                       average_plane [plane0, plane1] (ld_width src) (ld_height src))
                   else average_plane [plane0] (ld_width src) (ld_height src)))))"

definition downsample :: "level_data \<Rightarrow> bool \<Rightarrow> bool \<Rightarrow> level_data option" where
  "downsample src do_xy do_z =
     (case (do_xy, do_z) of
        (True, False) \<Rightarrow> downsample_xy src
      | (False, True) \<Rightarrow> downsample_z_only src
      | (True, True) \<Rightarrow> downsample_xyz src
      | (False, False) \<Rightarrow> None)"

text \<open>The pyramid loop: push halved levels until both planar sizes are small.\<close>

partial_function (option) build_pyramid_from :: "nat \<Rightarrow> level_data \<Rightarrow> level_data list option" where
  "build_pyramid_from min_size prev =
     (if ld_width prev \<le> min_size \<and> ld_height prev \<le> min_size then Some [prev]
      else Option.bind (downsample_xy prev) (\<lambda>next.
        Option.bind (build_pyramid_from min_size next) (\<lambda>rest. Some (prev # rest))))"

definition build_pyramid :: "u16 list \<Rightarrow> nat \<Rightarrow> nat \<Rightarrow> nat \<Rightarrow> nat \<Rightarrow> nat \<Rightarrow> nat \<Rightarrow> level_data list option" where
  "build_pyramid data width height depth channels timepoints min_size =
     build_pyramid_from min_size \<lparr>ld_data = data, ld_width = width, ld_height = height, ld_depth = depth,
       ld_channels = channels, ld_timepoints = timepoints\<rparr>"

section \<open>What a level is\<close>

text \<open>The sample at a coordinate of a level, and the levels whose sizes the code can multiply.\<close>

definition sample :: "level_data \<Rightarrow> nat \<Rightarrow> nat \<Rightarrow> nat \<Rightarrow> nat \<Rightarrow> nat \<Rightarrow> u16" where
  "sample l t c z y x =
     ld_data l ! ((((t * ld_channels l + c) * ld_depth l + z) * ld_height l + y) * ld_width l + x)"

definition level_sized :: "level_data \<Rightarrow> bool" where
  "level_sized l \<longleftrightarrow>
     length (ld_data l) = ld_timepoints l * ld_channels l * ld_depth l * ld_height l * ld_width l
     \<and> 0 < ld_width l \<and> 0 < ld_height l \<and> 0 < ld_depth l \<and> ld_width l * ld_height l < 2 ^ 32
     \<and> ld_timepoints l * ld_channels l * ld_depth l < 2 ^ 32"

text \<open>The source coordinates one output coordinate averages over, clipped to the source.\<close>

definition box :: "bool \<Rightarrow> nat \<Rightarrow> nat \<Rightarrow> nat list" where
  "box halve n i = (if halve then filter (\<lambda>j. j < n) [2 * i, 2 * i + 1] else [i])"

section \<open>One plane\<close>

lemma bulk_end_eq: "bulk_end n = n div 2"
  by (auto simp: bulk_end_def half_up_def elim!: evenE oddE)

lemma upt_half: "[0..<half_up n] = [0..<bulk_end n] @ (if bulk_end n < half_up n then [bulk_end n] else [])"
proof -
  have "half_up n = (if bulk_end n < half_up n then Suc (bulk_end n) else bulk_end n)"
    by (auto simp: bulk_end_eq half_up_def)
  then show ?thesis by (metis append_Nil2 less_Suc_eq_le upt_Suc_append zero_le)
qed

lemma box_bulk: "i < bulk_end n \<Longrightarrow> box True n i = [2 * i, 2 * i + 1]"
  by (auto simp: box_def bulk_end_eq)

lemma box_edge: "bulk_end n < half_up n \<Longrightarrow> box True n (bulk_end n) = [2 * bulk_end n]"
  by (auto simp: box_def bulk_end_eq half_up_def)

lemma box_range: "i < (if halve then half_up n else n) \<Longrightarrow> j \<in> set (box halve n i) \<Longrightarrow> j < n"
  by (auto simp: box_def split: if_splits)

lemma for_each_map: "for_each f (map h xs) = for_each (\<lambda>x. f (h x)) xs"
proof
  show "for_each f (map h xs) s = for_each (\<lambda>x. f (h x)) xs s" for s
    by (induction xs arbitrary: s) (auto split: bind_splits)
qed

lemma for_each_cong:
  assumes "\<And>x s. x \<in> set xs \<Longrightarrow> f x s = g x s"
  shows "for_each f xs s = for_each g xs s"
  using assms by (induction xs arbitrary: s) (auto cong: bind_option_cong)

lemma for_each_split_last:
  "Option.bind (for_each f xs s) (\<lambda>s. if b then f y s else Some s) = for_each f (xs @ (if b then [y] else [])) s"
proof -
  have "for_each f [y] t = f y t" for t by (cases "f y t") simp_all
  then show ?thesis by (cases "for_each f xs s") (simp_all add: for_each_append)
qed

lemma for_each_half:
  "Option.bind (for_each f [0..<bulk_end n] s) (\<lambda>s. if bulk_end n < half_up n then f (bulk_end n) s else Some s)
     = for_each f [0..<half_up n] s"
  unfolding upt_half [of n] by (rule for_each_split_last)

lemma average_row_eq:
  "average_row planes w dy rows dst =
     for_each (\<lambda>dx. put_mean planes [row + c. row \<leftarrow> rows, c \<leftarrow> box True w dx] (u32_add (u32_mul dy (half_up w)) dx))
       [0..<half_up w] dst"
proof -
  let ?f = "\<lambda>dx. put_mean planes [row + c. row \<leftarrow> rows, c \<leftarrow> box True w dx] (u32_add (u32_mul dy (half_up w)) dx)"
  have "for_each (\<lambda>dx. put_mean planes [row + c. row \<leftarrow> rows, c \<leftarrow> [dx * 2, dx * 2 + 1]] (u32_add (u32_mul dy (half_up w)) dx))
      [0..<bulk_end w] dst = for_each ?f [0..<bulk_end w] dst"
    by (rule for_each_cong) (simp add: box_bulk mult.commute)
  moreover have "put_mean planes [row + bulk_end w * 2. row \<leftarrow> rows] (u32_add (u32_mul dy (half_up w)) (bulk_end w)) = ?f (bulk_end w)"
    if "bulk_end w < half_up w" using that by (simp add: box_edge mult.commute)
  ultimately have "average_row planes w dy rows dst =
      Option.bind (for_each ?f [0..<bulk_end w] dst) (\<lambda>dst. if bulk_end w < half_up w then ?f (bulk_end w) dst else Some dst)"
    by (auto simp: average_row_def Let_def intro!: bind_option_cong)
  also have "\<dots> = for_each ?f [0..<half_up w] dst" by (rule for_each_half)
  finally show ?thesis .
qed

lemma average_plane_eq:
  "average_plane planes w h =
     for_each (\<lambda>(dy, dx). put_mean planes [r * w + c. r \<leftarrow> box True h dy, c \<leftarrow> box True w dx] (u32_add (u32_mul dy (half_up w)) dx))
       (List.product [0..<half_up h] [0..<half_up w]) (replicate (u32_mul (half_up w) (half_up h)) 0)"
proof -
  let ?f = "\<lambda>dy. average_row planes w dy [r * w. r \<leftarrow> box True h dy]" and ?s = "replicate (u32_mul (half_up w) (half_up h)) 0"
  have "for_each (\<lambda>dy. average_row planes w dy [dy * 2 * w, dy * 2 * w + w]) [0..<bulk_end h] ?s = for_each ?f [0..<bulk_end h] ?s"
    by (rule for_each_cong) (simp add: box_bulk algebra_simps)
  moreover have "average_row planes w (bulk_end h) [bulk_end h * 2 * w] = ?f (bulk_end h)" if "bulk_end h < half_up h"
    using that by (simp add: box_edge mult.commute)
  ultimately have "average_plane planes w h =
      Option.bind (for_each ?f [0..<bulk_end h] ?s) (\<lambda>dst. if bulk_end h < half_up h then ?f (bulk_end h) dst else Some dst)"
    by (auto simp: average_plane_def Let_def intro!: bind_option_cong)
  also have "\<dots> = for_each ?f [0..<half_up h] ?s" by (rule for_each_half)
  also have "\<dots> = for_each (\<lambda>dy. for_each (\<lambda>dx. put_mean planes [r * w + c. r \<leftarrow> box True h dy, c \<leftarrow> box True w dx]
      (u32_add (u32_mul dy (half_up w)) dx)) [0..<half_up w]) [0..<half_up h] ?s"
    by (rule for_each_cong) (simp add: average_row_eq comp_def)
  finally show ?thesis by (simp add: for_each_nested [symmetric])
qed

lemma those_Some: "those (map Some xs) = Some xs"
  by (induction xs) auto

lemma put_mean_ok:
  assumes "\<forall>p \<in> set planes. \<forall>c \<in> set cells. c < length p"
  shows "put_mean planes cells i dst = store_at i (mean [p ! c. p \<leftarrow> planes, c \<leftarrow> cells]) dst"
proof -
  have "[index_at p c. p \<leftarrow> planes, c \<leftarrow> cells] = map Some [p ! c. p \<leftarrow> planes, c \<leftarrow> cells]"
    using assms by (induction planes) (auto simp: index_at_def)
  then show ?thesis by (simp add: put_mean_def those_Some)
qed

text \<open>Every cell of the averaged plane is the mean of its clipped box.\<close>

lemma average_plane_correct:
  assumes "\<forall>p \<in> set planes. length p = w * h" "w * h < 2 ^ 32"
  shows "\<exists>dst. average_plane planes w h = Some dst \<and> length dst = half_up w * half_up h
    \<and> (\<forall>y < half_up h. \<forall>x < half_up w.
         dst ! (y * half_up w + x) = mean [p ! (r * w + c). p \<leftarrow> planes, r \<leftarrow> box True h y, c \<leftarrow> box True w x])"
proof -
  let ?W = "half_up w" and ?H = "half_up h"
  let ?ixs = "List.product [0..<?H] [0..<?W]"
  let ?p = "\<lambda>(y, x). y * ?W + x"
  let ?v = "\<lambda>(y, x). mean [p ! (r * w + c). p \<leftarrow> planes, r \<leftarrow> box True h y, c \<leftarrow> box True w x]"
  have small: "?W * ?H < 2 ^ 32"
  proof -
    have "?W * ?H \<le> max 1 w * max 1 h" by (rule mult_le_mono) (auto simp: half_up_def)
    moreover have "max 1 w * max 1 h < 2 ^ 32" if "0 < w" "0 < h" using that assms(2) by (simp add: max_def)
    ultimately show ?thesis by (cases "w = 0 \<or> h = 0") (auto simp: half_up_def)
  qed
  have at: "u32_add (u32_mul y ?W) x = ?p (y, x)" if "(y, x) \<in> set ?ixs" for y x
  proof -
    have "y * ?W + x < ?H * ?W" using that by (intro mixed_radix_less) auto
    then have "y * ?W + x < 2 ^ 32" using small by (simp add: mult.commute)
    then show ?thesis by (simp add: u32_add_def u32_mul_def mod_simps)
  qed
  have step: "(\<lambda>(y, x). put_mean planes [r * w + c. r \<leftarrow> box True h y, c \<leftarrow> box True w x] (u32_add (u32_mul y ?W) x)) yx dst
      = store_at (?p yx) (?v yx) dst" if yx: "yx \<in> set ?ixs" for yx dst
  proof -
    obtain y x where e: "yx = (y, x)" by (cases yx)
    have "r * w + c < w * h" if "r \<in> set (box True h y)" "c \<in> set (box True w x)" for r c
      using mixed_radix_less [of r h c w] box_range [of y True h r] box_range [of x True w c] that yx e
      by (simp add: mult.commute)
    with put_mean_ok [of planes "[r * w + c. r \<leftarrow> box True h y, c \<leftarrow> box True w x]"] assms(1) at [of y x] yx e
    show ?thesis by (simp add: map_concat comp_def)
  qed
  let ?dst = "fold (\<lambda>yx out. out[?p yx := ?v yx]) ?ixs (replicate (u32_mul ?W ?H) 0)"
  have range: "?p yx < ?W * ?H" if "yx \<in> set ?ixs" for yx
    using that mixed_radix_less [of "fst yx" ?H "snd yx" ?W] by (auto simp: mult.commute)
  have "average_plane planes w h = for_each (\<lambda>yx. store_at (?p yx) (?v yx)) ?ixs (replicate (u32_mul ?W ?H) 0)"
    unfolding average_plane_eq by (rule for_each_cong) (rule step)
  also have "\<dots> = Some ?dst" using range small by (intro for_each_scatter) (simp add: u32_mul_def)
  finally have "average_plane planes w h = Some ?dst" .
  moreover have "?dst ! ?p (y, x) = ?v (y, x)" if "y < ?H" "x < ?W" for y x
  proof (rule scatter_at)
    show "distinct ?ixs" by (simp add: distinct_product)
    show "inj_on ?p (set ?ixs)" by (auto simp: inj_on_def dest: mixed_radix_inj)
    show "(y, x) \<in> set ?ixs" using that by simp
    then show "?p (y, x) < length (replicate (u32_mul ?W ?H) 0)" using range [of "(y, x)"] small by (simp add: u32_mul_def)
  qed
  ultimately show ?thesis using small by (simp add: u32_mul_def)
qed

section \<open>Whole levels\<close>

lemma those_upt: "\<forall>i < n. f i = Some (g i) \<Longrightarrow> those (map f [0..<n]) = Some (map g [0..<n])"
  by (metis (mono_tags, lifting) atLeastLessThan_iff comp_apply map_eq_conv map_map set_upt those_Some)

lemma length_concat_upt: "\<forall>p < n. length (g p) = k \<Longrightarrow> length (concat (map g [0..<n])) = n * k"
  by (induction n) simp_all

lemma nth_concat_upt:
  assumes "\<forall>p < n. length (g p) = k" "q < n" "i < k"
  shows "concat (map g [0..<n]) ! (q * k + i) = g q ! i"
  using assms
proof (induction n)
  case (Suc n)
  have len: "length (concat (map g [0..<n])) = n * k" using Suc.prems(1) by (intro length_concat_upt) simp
  show ?case
  proof (cases "q < n")
    case True
    then have "q * k + i < n * k" using Suc.prems(3) by (rule mixed_radix_less)
    with True Suc show ?thesis by (simp add: nth_append len)
  next
    case False
    with Suc.prems have "q = n" by simp
    with Suc.prems len show ?thesis by (simp add: nth_append)
  qed
qed simp

lemma par_planes_correct:
  assumes "0 < k" "\<And>p. p < n \<Longrightarrow> \<exists>d. f p = Some d \<and> length d = k \<and> (\<forall>i < k. d ! i = v p i)"
  shows "\<exists>data. par_planes k n f = Some data \<and> length data = n * k \<and> (\<forall>p < n. \<forall>i < k. data ! (p * k + i) = v p i)"
proof -
  define g where "g p = the (f p)" for p
  have g: "f p = Some (g p)" "length (g p) = k" "i < k \<Longrightarrow> g p ! i = v p i" if "p < n" for p i
    using assms(2) [OF that] by (auto simp: g_def)
  have "par_planes k n f = Some (concat (map g [0..<n]))"
    using assms(1) those_upt [of n f g] g(1) by (simp add: par_planes_def)
  moreover have "length (concat (map g [0..<n])) = n * k"
    using g(2) by (intro length_concat_upt) simp
  ultimately show ?thesis using g nth_concat_upt [of n g k] by auto
qed

text \<open>A plane of a level, and the sample in it.\<close>

definition plane_of :: "level_data \<Rightarrow> nat \<Rightarrow> u16 list" where
  "plane_of l p = take (ld_width l * ld_height l) (drop (p * (ld_width l * ld_height l)) (ld_data l))"

lemma plane_of_slice:
  assumes "level_sized l" "p < ld_timepoints l * ld_channels l * ld_depth l"
  shows "slice_of (ld_data l) (p * (ld_width l * ld_height l)) (p * (ld_width l * ld_height l) + ld_width l * ld_height l) = Some (plane_of l p)"
    "length (plane_of l p) = ld_width l * ld_height l"
proof -
  have "(p + 1) * (ld_width l * ld_height l) \<le> ld_timepoints l * ld_channels l * ld_depth l * (ld_width l * ld_height l)"
    using assms(2) by (intro mult_le_mono1) simp
  also have "\<dots> = length (ld_data l)" using assms(1) by (simp add: level_sized_def)
  finally have fits: "p * (ld_width l * ld_height l) + ld_width l * ld_height l \<le> length (ld_data l)" by (simp add: algebra_simps)
  then show "slice_of (ld_data l) (p * (ld_width l * ld_height l)) (p * (ld_width l * ld_height l) + ld_width l * ld_height l) = Some (plane_of l p)"
    by (simp add: slice_of_def plane_of_def)
  show "length (plane_of l p) = ld_width l * ld_height l" using fits by (simp add: plane_of_def)
qed

lemma sample_plane:
  assumes "level_sized l" "t < ld_timepoints l" "c < ld_channels l" "z < ld_depth l" "y < ld_height l" "x < ld_width l"
  shows "sample l t c z y x = plane_of l ((t * ld_channels l + c) * ld_depth l + z) ! (y * ld_width l + x)"
    "(t * ld_channels l + c) * ld_depth l + z < ld_timepoints l * ld_channels l * ld_depth l"
proof -
  let ?p = "(t * ld_channels l + c) * ld_depth l + z" and ?A = "ld_width l * ld_height l"
  have tc: "t * ld_channels l + c < ld_timepoints l * ld_channels l" using assms by (intro mixed_radix_less)
  then show p: "?p < ld_timepoints l * ld_channels l * ld_depth l" using assms by (intro mixed_radix_less)
  have yx: "y * ld_width l + x < ?A" using mixed_radix_less [of y "ld_height l" x "ld_width l"] assms by (simp add: mult.commute)
  have "?p * ?A + (y * ld_width l + x) < ld_timepoints l * ld_channels l * ld_depth l * ?A" using p yx by (rule mixed_radix_less)
  then have "?p * ?A + (y * ld_width l + x) < length (ld_data l)" using assms(1) by (simp add: level_sized_def algebra_simps)
  then show "sample l t c z y x = plane_of l ?p ! (y * ld_width l + x)"
    using yx by (simp add: sample_def plane_of_def algebra_simps)
qed

text \<open>
  All three routines at once: the output plane \<open>q\<close> averages the source planes of its box, and
  in it every cell averages the cells of its box.
\<close>

definition halved :: "bool \<Rightarrow> nat \<Rightarrow> nat" where
  "halved b n = (if b then half_up n else n)"

definition box_samples :: "level_data \<Rightarrow> bool \<Rightarrow> bool \<Rightarrow> nat \<Rightarrow> nat \<Rightarrow> u16 list" where
  "box_samples src do_xy do_z q i =
     (let D' = halved do_z (ld_depth src); W' = halved do_xy (ld_width src)
      in [plane_of src (q div D' * ld_depth src + z) ! (r * ld_width src + c).
           z \<leftarrow> box do_z (ld_depth src) (q mod D'), r \<leftarrow> box do_xy (ld_height src) (i div W'), c \<leftarrow> box do_xy (ld_width src) (i mod W')])"

definition downsampled :: "level_data \<Rightarrow> bool \<Rightarrow> bool \<Rightarrow> level_data \<Rightarrow> bool" where
  "downsampled src do_xy do_z dst \<longleftrightarrow>
     ld_width dst = halved do_xy (ld_width src) \<and> ld_height dst = halved do_xy (ld_height src)
     \<and> ld_depth dst = halved do_z (ld_depth src) \<and> ld_channels dst = ld_channels src \<and> ld_timepoints dst = ld_timepoints src
     \<and> length (ld_data dst) = ld_timepoints dst * ld_channels dst * ld_depth dst * (ld_width dst * ld_height dst)
     \<and> (\<forall>q < ld_timepoints dst * ld_channels dst * ld_depth dst. \<forall>i < ld_width dst * ld_height dst.
          ld_data dst ! (q * (ld_width dst * ld_height dst) + i) = mean (box_samples src do_xy do_z q i))"

lemma average_plane_at:
  assumes "\<forall>p \<in> set planes. length p = w * h" "w * h < 2 ^ 32"
  shows "\<exists>dst. average_plane planes w h = Some dst \<and> length dst = half_up w * half_up h
    \<and> (\<forall>i < half_up w * half_up h.
         dst ! i = mean [p ! (r * w + c). p \<leftarrow> planes, r \<leftarrow> box True h (i div half_up w), c \<leftarrow> box True w (i mod half_up w)])"
proof -
  obtain dst where dst: "average_plane planes w h = Some dst" "length dst = half_up w * half_up h"
    "\<forall>y < half_up h. \<forall>x < half_up w.
       dst ! (y * half_up w + x) = mean [p ! (r * w + c). p \<leftarrow> planes, r \<leftarrow> box True h y, c \<leftarrow> box True w x]"
    using average_plane_correct [OF assms] by blast
  have "i div half_up w < half_up h" "i mod half_up w < half_up w" if "i < half_up w * half_up h" for i
  proof -
    have "0 < half_up w" using that by (cases "half_up w") simp_all
    with that show "i div half_up w < half_up h" "i mod half_up w < half_up w"
      by (simp_all add: less_mult_imp_div_less mult.commute)
  qed
  then have "dst ! i = mean [p ! (r * w + c). p \<leftarrow> planes, r \<leftarrow> box True h (i div half_up w), c \<leftarrow> box True w (i mod half_up w)]"
    if "i < half_up w * half_up h" for i
    using that dst(3) [rule_format, of "i div half_up w" "i mod half_up w"] by simp
  with dst(1,2) show ?thesis by blast
qed

lemma small_level:
  assumes "level_sized src"
  shows "u32_mul (ld_width src) (ld_height src) = ld_width src * ld_height src"
    "u32_mul (half_up (ld_width src)) (half_up (ld_height src)) = half_up (ld_width src) * half_up (ld_height src)"
    "u32_mul (ld_timepoints src) (ld_channels src) = ld_timepoints src * ld_channels src"
    "u32_mul (ld_timepoints src * ld_channels src) (ld_depth src) = ld_timepoints src * ld_channels src * ld_depth src"
    "0 < half_up (ld_width src) * half_up (ld_height src)"
proof -
  note ok = assms [unfolded level_sized_def]
  have "half_up (ld_width src) * half_up (ld_height src) \<le> ld_width src * ld_height src"
    using ok by (intro mult_le_mono) (auto simp: half_up_def)
  then show "u32_mul (half_up (ld_width src)) (half_up (ld_height src)) = half_up (ld_width src) * half_up (ld_height src)"
    using ok by (simp add: u32_mul_def)
  have "ld_timepoints src * ld_channels src * 1 \<le> ld_timepoints src * ld_channels src * ld_depth src"
    using ok by (intro mult_le_mono2) simp
  then have "ld_timepoints src * ld_channels src < 2 ^ 32" using ok by linarith
  then show "u32_mul (ld_timepoints src) (ld_channels src) = ld_timepoints src * ld_channels src"
    "u32_mul (ld_timepoints src * ld_channels src) (ld_depth src) = ld_timepoints src * ld_channels src * ld_depth src"
    using ok by (simp_all add: u32_mul_def)
qed (use assms in \<open>simp_all add: u32_mul_def level_sized_def half_up_def\<close>)

lemma downsample_xy_planes:
  assumes ok: "level_sized src"
  shows "\<exists>dst. downsample_xy src = Some dst \<and> downsampled src True False dst"
proof -
  let ?A = "ld_width src * ld_height src" and ?W = "half_up (ld_width src)" and ?H = "half_up (ld_height src)"
  let ?n = "ld_timepoints src * ld_channels src * ld_depth src"
  have each: "\<exists>d. Option.bind (slice_of (ld_data src) (p * ?A) (p * ?A + ?A)) (\<lambda>plane. average_plane [plane] (ld_width src) (ld_height src)) = Some d
      \<and> length d = ?W * ?H \<and> (\<forall>i < ?W * ?H. d ! i = mean (box_samples src True False p i))" if "p < ?n" for p
  proof -
    have D: "p div ld_depth src * ld_depth src + p mod ld_depth src = p" by simp
    note pl = plane_of_slice [OF ok that]
    obtain d where "average_plane [plane_of src p] (ld_width src) (ld_height src) = Some d" "length d = ?W * ?H"
      "\<forall>i < ?W * ?H. d ! i = mean [q ! (r * ld_width src + c). q \<leftarrow> [plane_of src p], r \<leftarrow> box True (ld_height src) (i div ?W), c \<leftarrow> box True (ld_width src) (i mod ?W)]"
      using average_plane_at [of "[plane_of src p]" "ld_width src" "ld_height src"] pl(2) ok by (auto simp: level_sized_def)
    then show ?thesis using pl(1) by (simp add: box_samples_def halved_def box_def [of False] D Let_def)
  qed
  obtain data where
    "par_planes (?W * ?H) ?n (\<lambda>p. Option.bind (slice_of (ld_data src) (p * ?A) (p * ?A + ?A)) (\<lambda>plane. average_plane [plane] (ld_width src) (ld_height src))) = Some data"
    "length data = ?n * (?W * ?H)" "\<forall>p < ?n. \<forall>i < ?W * ?H. data ! (p * (?W * ?H) + i) = mean (box_samples src True False p i)"
    using par_planes_correct [OF small_level(5) [OF ok], where v = "\<lambda>p i. mean (box_samples src True False p i)", OF each] by blast
  then show ?thesis
    by (simp add: downsample_xy_def downsampled_def halved_def small_level [OF ok] Let_def)
qed

text \<open>The position of an output plane in the two routines that halve the depth.\<close>

lemma depth_planes:
  assumes "level_sized src" "idx < ld_timepoints src * ld_channels src * half_up (ld_depth src)"
  shows "z \<in> set (box True (ld_depth src) (idx mod half_up (ld_depth src))) \<Longrightarrow>
      idx div half_up (ld_depth src) * ld_depth src + z < ld_timepoints src * ld_channels src * ld_depth src"
    "box True (ld_depth src) (idx mod half_up (ld_depth src)) =
      (if idx mod half_up (ld_depth src) * 2 + 1 < ld_depth src
       then [idx mod half_up (ld_depth src) * 2, idx mod half_up (ld_depth src) * 2 + 1] else [idx mod half_up (ld_depth src) * 2])"
proof -
  have pos: "0 < half_up (ld_depth src)" using assms(1) by (simp add: level_sized_def half_up_def)
  then have tc: "idx div half_up (ld_depth src) < ld_timepoints src * ld_channels src" using assms(2) by (simp add: less_mult_imp_div_less)
  have m: "idx mod half_up (ld_depth src) < half_up (ld_depth src)" using pos by simp
  then show "idx div half_up (ld_depth src) * ld_depth src + z < ld_timepoints src * ld_channels src * ld_depth src"
    if "z \<in> set (box True (ld_depth src) (idx mod half_up (ld_depth src)))"
    using that tc box_range [of "idx mod half_up (ld_depth src)" True "ld_depth src" z] by (intro mixed_radix_less) auto
  have "idx mod half_up (ld_depth src) * 2 < ld_depth src" using m by (simp add: half_up_def)
  then show "box True (ld_depth src) (idx mod half_up (ld_depth src)) =
      (if idx mod half_up (ld_depth src) * 2 + 1 < ld_depth src
       then [idx mod half_up (ld_depth src) * 2, idx mod half_up (ld_depth src) * 2 + 1] else [idx mod half_up (ld_depth src) * 2])"
    by (auto simp: box_def)
qed

lemma downsample_xyz_planes:
  assumes ok: "level_sized src"
  shows "\<exists>dst. downsample_xyz src = Some dst \<and> downsampled src True True dst"
proof -
  let ?A = "ld_width src * ld_height src" and ?W = "half_up (ld_width src)" and ?H = "half_up (ld_height src)"
  let ?D = "half_up (ld_depth src)" and ?d = "ld_depth src"
  let ?n = "ld_timepoints src * ld_channels src * ?D"
  let ?at = "\<lambda>idx z. slice_of (ld_data src) (idx div ?D * ?d * ?A + z * ?A) (idx div ?D * ?d * ?A + z * ?A + ?A)"
  let ?f = "\<lambda>idx. Option.bind (?at idx (idx mod ?D * 2)) (\<lambda>plane0.
      if idx mod ?D * 2 + 1 < ?d then Option.bind (?at idx (idx mod ?D * 2 + 1)) (\<lambda>plane1.
        average_plane [plane0, plane1] (ld_width src) (ld_height src))
      else average_plane [plane0] (ld_width src) (ld_height src))"
  have each: "\<exists>d. ?f p = Some d \<and> length d = ?W * ?H \<and> (\<forall>i < ?W * ?H. d ! i = mean (box_samples src True True p i))" if p: "p < ?n" for p
  proof -
    let ?zs = "box True ?d (p mod ?D)" and ?pl = "\<lambda>z. plane_of src (p div ?D * ?d + z)"
    note zs = depth_planes [OF ok p]
    have pl: "?at p z = Some (?pl z)" "length (?pl z) = ?A" if "z \<in> set ?zs" for z
      using plane_of_slice [OF ok zs(1) [OF that]] by (simp_all add: algebra_simps)
    have "?f p = average_plane (map ?pl ?zs) (ld_width src) (ld_height src)"
    proof (cases "p mod ?D * 2 + 1 < ?d")
      case True
      then have "?zs = [p mod ?D * 2, p mod ?D * 2 + 1]" by (simp add: zs(2))
      with True pl(1) [of "p mod ?D * 2"] pl(1) [of "p mod ?D * 2 + 1"] show ?thesis by simp
    next
      case False
      then have "?zs = [p mod ?D * 2]" by (simp add: zs(2))
      with False pl(1) [of "p mod ?D * 2"] show ?thesis by simp
    qed
    moreover obtain d where "average_plane (map ?pl ?zs) (ld_width src) (ld_height src) = Some d" "length d = ?W * ?H"
      "\<forall>i < ?W * ?H. d ! i = mean [q ! (r * ld_width src + c). q \<leftarrow> map ?pl ?zs, r \<leftarrow> box True (ld_height src) (i div ?W), c \<leftarrow> box True (ld_width src) (i mod ?W)]"
      using average_plane_at [of "map ?pl ?zs" "ld_width src" "ld_height src"] pl(2) ok by (auto simp: level_sized_def)
    ultimately show ?thesis by (simp add: box_samples_def halved_def Let_def comp_def)
  qed
  obtain data where "par_planes (?W * ?H) ?n ?f = Some data"
    "length data = ?n * (?W * ?H)" "\<forall>p < ?n. \<forall>i < ?W * ?H. data ! (p * (?W * ?H) + i) = mean (box_samples src True True p i)"
    using par_planes_correct [OF small_level(5) [OF ok], where v = "\<lambda>p i. mean (box_samples src True True p i)", OF each] by blast
  then show ?thesis
    by (simp add: downsample_xyz_def downsampled_def halved_def small_level [OF ok] Let_def del: One_nat_def)
qed

lemma mean_single: "mean [v] = v"
proof -
  have "unat v < 2 ^ 16" using unsigned_less [of v, where ?'a = nat] by simp
  then show ?thesis by (simp add: mean_def)
qed

lemma downsample_z_planes:
  assumes ok: "level_sized src"
  shows "\<exists>dst. downsample_z_only src = Some dst \<and> downsampled src False True dst"
proof -
  let ?A = "ld_width src * ld_height src" and ?D = "half_up (ld_depth src)" and ?d = "ld_depth src"
  let ?n = "ld_timepoints src * ld_channels src * ?D"
  let ?at = "\<lambda>idx z. slice_of (ld_data src) (idx div ?D * ?d * ?A + z * ?A) (idx div ?D * ?d * ?A + z * ?A + ?A)"
  let ?f = "\<lambda>idx. Option.bind (?at idx (idx mod ?D * 2)) (\<lambda>src0.
      if idx mod ?D * 2 + 1 < ?d then map_option (\<lambda>src1. map2 (\<lambda>a b. mean [a, b]) src0 src1) (?at idx (idx mod ?D * 2 + 1))
      else Some src0)"
  have each: "\<exists>d. ?f p = Some d \<and> length d = ?A \<and> (\<forall>i < ?A. d ! i = mean (box_samples src False True p i))" if p: "p < ?n" for p
  proof -
    let ?zs = "box True ?d (p mod ?D)" and ?pl = "\<lambda>z. plane_of src (p div ?D * ?d + z)"
    note zs = depth_planes [OF ok p]
    have pl: "?at p z = Some (?pl z)" "length (?pl z) = ?A" if "z \<in> set ?zs" for z
      using plane_of_slice [OF ok zs(1) [OF that]] by (simp_all add: algebra_simps)
    have cell: "i div ld_width src * ld_width src + i mod ld_width src = i" for i by simp
    show ?thesis
    proof (cases "p mod ?D * 2 + 1 < ?d")
      case True
      then have "?zs = [p mod ?D * 2, p mod ?D * 2 + 1]" by (simp add: zs(2))
      with True pl [of "p mod ?D * 2"] pl [of "p mod ?D * 2 + 1"] show ?thesis
        by (simp add: box_samples_def halved_def box_def [of False] cell Let_def)
    next
      case False
      then have "?zs = [p mod ?D * 2]" by (simp add: zs(2))
      with False pl [of "p mod ?D * 2"] show ?thesis
        by (simp add: box_samples_def halved_def box_def [of False] cell mean_single Let_def)
    qed
  qed
  have "0 < ?A" using ok by (simp add: level_sized_def)
  then obtain data where
    "par_planes ?A ?n ?f = Some data" "length data = ?n * ?A" "\<forall>p < ?n. \<forall>i < ?A. data ! (p * ?A + i) = mean (box_samples src False True p i)"
    using par_planes_correct [where v = "\<lambda>p i. mean (box_samples src False True p i)", OF _ each] by blast
  then show ?thesis
    by (simp add: downsample_z_only_def downsampled_def halved_def small_level [OF ok] Let_def del: One_nat_def)
qed

lemma downsample_planes:
  assumes "level_sized src" "do_xy \<or> do_z"
  shows "\<exists>dst. downsample src do_xy do_z = Some dst \<and> downsampled src do_xy do_z dst"
  using downsample_xy_planes [OF assms(1)] downsample_z_planes [OF assms(1)] downsample_xyz_planes [OF assms(1)] assms(2)
  by (cases do_xy; cases do_z) (simp_all add: downsample_def)

lemma halved_bounds: "0 < n \<Longrightarrow> 0 < halved b n" "halved b n \<le> n"
  by (auto simp: halved_def half_up_def)

lemma downsampled_ok:
  assumes "level_sized src" "downsampled src do_xy do_z dst"
  shows "level_sized dst"
proof -
  note d = assms(2) [unfolded downsampled_def]
  have "ld_width dst * ld_height dst \<le> ld_width src * ld_height src"
    "ld_timepoints dst * ld_channels dst * ld_depth dst \<le> ld_timepoints src * ld_channels src * ld_depth src"
    using d halved_bounds(2) by (auto intro!: mult_le_mono)
  then have "ld_width dst * ld_height dst < 2 ^ 32" "ld_timepoints dst * ld_channels dst * ld_depth dst < 2 ^ 32"
    using assms(1) unfolding level_sized_def by linarith+
  moreover have "0 < ld_width dst" "0 < ld_height dst" "0 < ld_depth dst"
    using d assms(1) halved_bounds(1) by (simp_all add: level_sized_def)
  moreover have "length (ld_data dst) = ld_timepoints dst * ld_channels dst * ld_depth dst * ld_height dst * ld_width dst"
    using d by (simp add: ac_simps)
  ultimately show ?thesis by (simp add: level_sized_def)
qed

text \<open>The mean is exact: at most eight samples do not overflow the sum.\<close>

lemma mean_exact:
  assumes "length vs \<le> 8" "vs \<noteq> []"
  shows "unat (mean vs) = sum_list (map unat vs) div length vs"
proof -
  have bound: "sum_list (map unat vs) \<le> length vs * 65535" for vs :: "u16 list"
  proof (induction vs)
    case (Cons v vs)
    have "unat v < 2 ^ 16" using unsigned_less [of v, where ?'a = nat] by simp
    with Cons show ?case by simp
  qed simp
  have "length vs * 65535 < 2 ^ 32" using assms(1) by simp
  then have "sum_list (map unat vs) < 2 ^ 32" using bound [of vs] by simp
  moreover have "sum_list (map unat vs) div length vs \<le> 65535"
    using div_le_mono [OF bound [of vs], of "length vs"] assms(2) by simp
  ultimately show ?thesis by (simp add: mean_def unat_of_nat)
qed

lemma box_size: "i < halved b n \<Longrightarrow> box b n i \<noteq> [] \<and> length (box b n i) \<le> 2"
  by (auto simp: box_def halved_def half_up_def)

lemma box_below: "i < halved b n \<Longrightarrow> j \<in> set (box b n i) \<Longrightarrow> j < n"
  using box_range [of i b n j] by (simp add: halved_def)

definition source_box :: "level_data \<Rightarrow> bool \<Rightarrow> bool \<Rightarrow> nat \<Rightarrow> nat \<Rightarrow> nat \<Rightarrow> nat \<Rightarrow> nat \<Rightarrow> u16 list" where
  "source_box src do_xy do_z t c z y x =
     [sample src t c z' y' x'. z' \<leftarrow> box do_z (ld_depth src) z, y' \<leftarrow> box do_xy (ld_height src) y, x' \<leftarrow> box do_xy (ld_width src) x]"

lemma downsampled_sample:
  assumes "level_sized src" "downsampled src do_xy do_z dst"
    "t < ld_timepoints dst" "c < ld_channels dst" "z < ld_depth dst" "y < ld_height dst" "x < ld_width dst"
  shows "sample dst t c z y x = mean (source_box src do_xy do_z t c z y x)"
proof -
  note d = assms(2) [unfolded downsampled_def]
  let ?q = "(t * ld_channels dst + c) * ld_depth dst + z" and ?i = "y * ld_width dst + x"
  have "t * ld_channels dst + c < ld_timepoints dst * ld_channels dst" using assms(3,4) by (rule mixed_radix_less)
  then have q: "?q < ld_timepoints dst * ld_channels dst * ld_depth dst" using assms(5) by (rule mixed_radix_less)
  have i: "?i < ld_width dst * ld_height dst" using mixed_radix_less [OF assms(6,7)] by (simp add: mult.commute)
  have "sample dst t c z y x = ld_data dst ! (?q * (ld_width dst * ld_height dst) + ?i)" by (simp add: sample_def algebra_simps)
  also have "\<dots> = mean (box_samples src do_xy do_z ?q ?i)" using d q i by blast
  also have "box_samples src do_xy do_z ?q ?i = source_box src do_xy do_z t c z y x"
  proof -
    have split: "?q div halved do_z (ld_depth src) = t * ld_channels src + c" "?q mod halved do_z (ld_depth src) = z"
      "?i div halved do_xy (ld_width src) = y" "?i mod halved do_xy (ld_width src) = x"
      using assms(5,7) d by (simp_all add: mixed_radix)
    have "plane_of src ((t * ld_channels src + c) * ld_depth src + z') ! (r * ld_width src + k) = sample src t c z' r k"
      if "z' \<in> set (box do_z (ld_depth src) z)" "r \<in> set (box do_xy (ld_height src) y)" "k \<in> set (box do_xy (ld_width src) x)" for z' r k
      using that assms d box_below by (intro sample_plane(1) [symmetric]) auto
    then show ?thesis unfolding box_samples_def source_box_def Let_def split
      by (intro arg_cong [where f = concat] map_cong refl) simp
  qed
  finally show ?thesis .
qed

text \<open>C15: Downsampling is box averaging: for every combination of axes and every odd or even size,
  each sample of the new level is the floor of the mean of the source samples in its box,
  clipped at the far edges, and the sizes are rounded up. No index is out of range.\<close>
theorem downsample_exact:
  assumes "level_sized src" "do_xy \<or> do_z"
  shows "\<exists>dst. downsample src do_xy do_z = Some dst \<and> level_sized dst
    \<and> ld_width dst = halved do_xy (ld_width src) \<and> ld_height dst = halved do_xy (ld_height src)
    \<and> ld_depth dst = halved do_z (ld_depth src) \<and> ld_channels dst = ld_channels src \<and> ld_timepoints dst = ld_timepoints src
    \<and> (\<forall>t < ld_timepoints dst. \<forall>c < ld_channels dst. \<forall>z < ld_depth dst. \<forall>y < ld_height dst. \<forall>x < ld_width dst.
         unat (sample dst t c z y x) =
           sum_list (map unat (source_box src do_xy do_z t c z y x)) div length (source_box src do_xy do_z t c z y x))"
proof -
  obtain dst where dst: "downsample src do_xy do_z = Some dst" "downsampled src do_xy do_z dst"
    using downsample_planes [OF assms] by blast
  note d = dst(2) [unfolded downsampled_def]
  have "unat (sample dst t c z y x) =
      sum_list (map unat (source_box src do_xy do_z t c z y x)) div length (source_box src do_xy do_z t c z y x)"
    if "t < ld_timepoints dst" "c < ld_channels dst" "z < ld_depth dst" "y < ld_height dst" "x < ld_width dst" for t c z y x
  proof -
    let ?vs = "source_box src do_xy do_z t c z y x"
    let ?z = "box do_z (ld_depth src) z" and ?y = "box do_xy (ld_height src) y" and ?x = "box do_xy (ld_width src) x"
    have ne: "?z \<noteq> [] \<and> length ?z \<le> 2" "?y \<noteq> [] \<and> length ?y \<le> 2" "?x \<noteq> [] \<and> length ?x \<le> 2"
      using box_size that d by simp_all
    have len: "length ?vs = length ?z * (length ?y * length ?x)"
      by (simp add: source_box_def length_concat comp_def sum_list_triv)
    also have "\<dots> \<le> 2 * (2 * 2)" using ne by (intro mult_le_mono) auto
    finally have "length ?vs \<le> 8" by simp
    moreover have "?vs \<noteq> []" using ne len by (metis length_0_conv mult_eq_0_iff)
    ultimately show ?thesis by (simp add: downsampled_sample [OF assms(1) dst(2) that] mean_exact)
  qed
  with dst(1) downsampled_ok [OF assms(1) dst(2)] d show ?thesis by (intro exI [of _ dst] conjI) auto
qed

definition odd_level :: level_data where
  "odd_level = \<lparr>ld_data = [1, 2, 3, 4, 5, 6, 7, 8, 9], ld_width = 3, ld_height = 3, ld_depth = 1, ld_channels = 1, ld_timepoints = 1\<rparr>"

theorem downsample_exact_witness:
  "\<exists>dst. downsample odd_level True False = Some dst \<and> ld_width dst = 2 \<and> unat (sample dst 0 0 0 0 0) = 3 \<and> unat (sample dst 0 0 0 1 1) = 9"
proof -
  have "level_sized odd_level" by (simp add: odd_level_def level_sized_def)
  from downsample_exact [OF this, of True False] obtain dst where dst: "downsample odd_level True False = Some dst"
    "ld_width dst = 2" "ld_height dst = 2" "ld_depth dst = 1" "ld_channels dst = 1" "ld_timepoints dst = 1"
    "\<forall>t < ld_timepoints dst. \<forall>c < ld_channels dst. \<forall>z < ld_depth dst. \<forall>y < ld_height dst. \<forall>x < ld_width dst.
       unat (sample dst t c z y x) =
         sum_list (map unat (source_box odd_level True False t c z y x)) div length (source_box odd_level True False t c z y x)"
    by (auto simp: odd_level_def halved_def half_up_def)
  from dst(7) [rule_format, of 0 0 0 0 0] dst(7) [rule_format, of 0 0 0 1 1] dst(1-6) show ?thesis
    by (auto simp: source_box_def box_def sample_def odd_level_def)
qed

text \<open>The planar pyramid always returns: a size above the limit shrinks in every round.\<close>

lemma build_pyramid_returns:
  assumes "level_sized prev" "1 \<le> min_size"
  shows "\<exists>rest. build_pyramid_from min_size prev = Some (prev # rest)
    \<and> ld_width (last (prev # rest)) \<le> min_size \<and> ld_height (last (prev # rest)) \<le> min_size"
  using assms(1)
proof (induction "ld_width prev + ld_height prev" arbitrary: prev rule: less_induct)
  case less
  show ?case
  proof (cases "ld_width prev \<le> min_size \<and> ld_height prev \<le> min_size")
    case True
    then show ?thesis by (subst build_pyramid_from.simps) simp
  next
    case False
    obtain dst where dst: "downsample_xy prev = Some dst" "downsampled prev True False dst"
      using downsample_xy_planes [OF less.prems] by blast
    have sizes: "ld_width dst = half_up (ld_width prev)" "ld_height dst = half_up (ld_height prev)"
      using dst(2) by (simp_all add: downsampled_def halved_def)
    have le: "half_up n \<le> n" "1 < n \<Longrightarrow> half_up n < n" for n by (auto simp: half_up_def)
    have "ld_width dst + ld_height dst < ld_width prev + ld_height prev"
    proof (cases "min_size < ld_width prev")
      case True
      then show ?thesis using le(2) [of "ld_width prev"] le(1) [of "ld_height prev"] assms(2) sizes by simp
    next
      case wide: False
      then show ?thesis using False le(1) [of "ld_width prev"] le(2) [of "ld_height prev"] assms(2) sizes by simp
    qed
    from less.hyps [OF this downsampled_ok [OF less.prems dst(2)]] obtain rest where
      "build_pyramid_from min_size dst = Some (dst # rest)"
      "ld_width (last (dst # rest)) \<le> min_size" "ld_height (last (dst # rest)) \<le> min_size" by blast
    with False dst(1) show ?thesis by (subst build_pyramid_from.simps) auto
  qed
qed

end
