(* ===== verification/Schedule.thy ===== *)
theory Schedule
  imports F64 Downsample
begin

text \<open>
  The anisotropy-aware downsample schedule (\<^verbatim>\<open>lucida-store/src/ingest/pyramid/schedule.rs\<close>): one
  loop that halves the plane, the depth or both, skipping an axis that is alone the coarsest.
\<close>

record voxel_size =
  vx_x :: f64
  vx_y :: f64
  vx_z :: f64

definition voxel_size_default :: voxel_size where
  "voxel_size_default = \<lparr>vx_x = 1, vx_y = 1, vx_z = 1\<rparr>"

record level_spec =
  sp_width :: nat
  sp_height :: nat
  sp_depth :: nat
  sp_scale :: "f64 \<times> f64 \<times> f64"
  sp_downsample_xy :: bool
  sp_downsample_z :: bool

definition f64_two :: f64 where
  "f64_two = flit 2"

text \<open>Which axes a round of the loop halves.\<close>

definition axes_to_halve :: "voxel_size \<Rightarrow> nat \<Rightarrow> level_spec \<Rightarrow> bool \<times> bool" where
  "axes_to_halve voxel min_size prev =
     (let (sx, sy, sz) = sp_scale prev;
          eff_x = vx_x voxel * sx; eff_y = vx_y voxel * sy; eff_z = vx_z voxel * sz;
          max_eff = fmax (fmax eff_x eff_y) eff_z;
          z_uniquely_coarsest = feq eff_z max_eff \<and> eff_x < max_eff \<and> eff_y < max_eff;
          x_uniquely_coarsest = feq eff_x max_eff \<and> eff_y < max_eff \<and> eff_z < max_eff;
          y_uniquely_coarsest = feq eff_y max_eff \<and> eff_x < max_eff \<and> eff_z < max_eff;
          can_xy = sp_width prev > min_size \<or> sp_height prev > min_size;
          can_z = sp_depth prev > min_size;
          skip_z = z_uniquely_coarsest \<and> can_xy;
          skip_xy = (x_uniquely_coarsest \<or> y_uniquely_coarsest) \<and> can_z
      in (\<not> skip_xy \<and> can_xy, \<not> skip_z \<and> can_z))"

definition halve_spec :: "bool \<Rightarrow> bool \<Rightarrow> level_spec \<Rightarrow> level_spec" where
  "halve_spec do_xy do_z prev =
     (case sp_scale prev of (sx, sy, sz) \<Rightarrow>
        \<lparr>sp_width = (if do_xy then half_up (sp_width prev) else sp_width prev),
         sp_height = (if do_xy then half_up (sp_height prev) else sp_height prev),
         sp_depth = (if do_z then half_up (sp_depth prev) else sp_depth prev),
         sp_scale = (if do_xy then sx * f64_two else sx, if do_xy then sy * f64_two else sy, if do_z then sz * f64_two else sz),
         sp_downsample_xy = do_xy, sp_downsample_z = do_z\<rparr>)"

text \<open>One round; \<open>None\<close> leaves the loop.\<close>

definition next_spec :: "voxel_size \<Rightarrow> nat \<Rightarrow> level_spec \<Rightarrow> level_spec option" where
  "next_spec voxel min_size prev =
     (if sp_width prev \<le> min_size \<and> sp_height prev \<le> min_size \<and> sp_depth prev \<le> min_size then None
      else case axes_to_halve voxel min_size prev of (do_xy, do_z) \<Rightarrow>
        if \<not> do_xy \<and> \<not> do_z then None else Some (halve_spec do_xy do_z prev))"

partial_function (option) schedule_from :: "voxel_size \<Rightarrow> nat \<Rightarrow> level_spec \<Rightarrow> level_spec list option" where
  "schedule_from voxel min_size prev =
     (case next_spec voxel min_size prev of
        None \<Rightarrow> Some [prev]
      | Some spec \<Rightarrow> Option.bind (schedule_from voxel min_size spec) (\<lambda>rest. Some (prev # rest)))"

definition compute_downsample_schedule :: "nat \<Rightarrow> nat \<Rightarrow> nat \<Rightarrow> voxel_size \<Rightarrow> nat \<Rightarrow> level_spec list option" where
  "compute_downsample_schedule w h d voxel min_size =
     schedule_from voxel min_size
       \<lparr>sp_width = w, sp_height = h, sp_depth = d, sp_scale = (1, 1, 1), sp_downsample_xy = False, sp_downsample_z = False\<rparr>"

section \<open>Where the loop goes\<close>

text \<open>
  The level after \<open>i\<close> halvings of the plane and \<open>j\<close> of the depth: sizes are the full sizes
  divided by the power of two, rounded up once, and the scales are those powers.
\<close>

definition ceil_div :: "nat \<Rightarrow> nat \<Rightarrow> nat" where
  "ceil_div n k = (n + k - 1) div k"

definition spec_at :: "nat \<Rightarrow> nat \<Rightarrow> nat \<Rightarrow> nat \<Rightarrow> nat \<Rightarrow> bool \<Rightarrow> bool \<Rightarrow> level_spec" where
  "spec_at w h d i j do_xy do_z =
     \<lparr>sp_width = ceil_div w (2 ^ i), sp_height = ceil_div h (2 ^ i), sp_depth = ceil_div d (2 ^ j),
      sp_scale = (Fin False (2 ^ i), Fin False (2 ^ i), Fin False (2 ^ j)), sp_downsample_xy = do_xy, sp_downsample_z = do_z\<rparr>"

fun follows :: "nat \<Rightarrow> nat \<Rightarrow> nat \<Rightarrow> nat \<Rightarrow> nat \<Rightarrow> level_spec list \<Rightarrow> bool" where
  "follows w h d i j [] = True"
| "follows w h d i j (s # ss) =
     (let i' = (if sp_downsample_xy s then Suc i else i); j' = (if sp_downsample_z s then Suc j else j)
      in (sp_downsample_xy s \<or> sp_downsample_z s) \<and> s = spec_at w h d i' j' (sp_downsample_xy s) (sp_downsample_z s)
         \<and> follows w h d i' j' ss)"

definition small_spec :: "nat \<Rightarrow> level_spec \<Rightarrow> bool" where
  "small_spec min_size s \<longleftrightarrow> sp_width s \<le> min_size \<and> sp_height s \<le> min_size \<and> sp_depth s \<le> min_size"

lemma half_up_ceil: "half_up (ceil_div n (2 ^ i)) = ceil_div n (2 ^ Suc i)"
proof -
  have "half_up (ceil_div n (2 ^ i)) = ((n + 2 ^ i - 1) div 2 ^ i + 1) div 2" by (simp add: half_up_def ceil_div_def)
  also have "\<dots> = (n + 2 ^ i - 1 + 2 ^ i) div 2 ^ i div 2" by simp
  also have "\<dots> = (n + 2 ^ i - 1 + 2 ^ i) div (2 ^ i * 2)" by (rule div_mult2_eq [symmetric])
  also have "n + 2 ^ i - 1 + 2 ^ i = n + 2 ^ Suc i - (1 :: nat)" using one_le_power [of "2 :: nat" i] by simp
  finally show ?thesis by (simp add: ceil_div_def mult.commute)
qed

lemma ceil_div_small: "n \<le> 2 ^ k \<Longrightarrow> ceil_div n (2 ^ k) \<le> 1"
proof -
  assume "n \<le> 2 ^ k"
  then have "n + 2 ^ k - 1 < 2 * 2 ^ k" using one_le_power [of "2 :: nat" k] by linarith
  then have "(n + 2 ^ k - 1) div 2 ^ k < 2" by (rule less_mult_imp_div_less)
  then show ?thesis by (simp add: ceil_div_def)
qed

lemma double_exact:
  assumes "i < 52"
  shows "Fin False (2 ^ i) * f64_two = Fin False (2 ^ Suc i)"
proof -
  have "(2 :: nat) ^ Suc i < 2 ^ 53" using assms by (intro power_strict_increasing) simp_all
  from fround_mag64(1) [OF mag64_int [OF this], of False] show ?thesis
    by (simp add: f64_two_def times_f64_def mult.commute)
qed

lemma flt_not_feq: "(x :: f64) < m \<Longrightarrow> \<not> feq x m"
  by (cases x; cases m) (auto simp: less_f64_def)

text \<open>A round of the loop halves something unless everything is small: at most one axis is skipped.\<close>

lemma axes_to_halve_can:
  assumes "axes_to_halve voxel min_size s = (do_xy, do_z)"
  shows "do_xy \<Longrightarrow> sp_width s > min_size \<or> sp_height s > min_size" "do_z \<Longrightarrow> sp_depth s > min_size"
  using assms by (auto simp: axes_to_halve_def Let_def split: prod.splits)

lemma axes_to_halve_some:
  assumes "axes_to_halve voxel min_size s = (do_xy, do_z)" "\<not> small_spec min_size s"
  shows "do_xy \<or> do_z"
proof -
  obtain sx sy sz where sc: "sp_scale s = (sx, sy, sz)" by (cases "sp_scale s")
  define m where "m = fmax (fmax (vx_x voxel * sx) (vx_y voxel * sy)) (vx_z voxel * sz)"
  have "\<not> (feq (vx_z voxel * sz) m \<and> vx_x voxel * sx < m \<and> vx_y voxel * sy < m
      \<and> (feq (vx_x voxel * sx) m \<or> feq (vx_y voxel * sy) m))" using flt_not_feq by blast
  with assms sc show ?thesis
    by (auto simp: axes_to_halve_def small_spec_def Let_def m_def [symmetric])
qed

lemma next_spec_None:
  assumes "next_spec voxel min_size s = None"
  shows "small_spec min_size s"
  using assms axes_to_halve_some [of voxel min_size s]
  by (auto simp: next_spec_def small_spec_def split: if_splits prod.splits)

lemma halve_spec_at:
  assumes "do_xy \<Longrightarrow> i < 52" "do_z \<Longrightarrow> j < 52"
  shows "halve_spec do_xy do_z (spec_at w h d i j fx fz) =
    spec_at w h d (if do_xy then Suc i else i) (if do_z then Suc j else j) do_xy do_z"
  using assms double_exact [of i] double_exact [of j] by (simp add: halve_spec_def spec_at_def half_up_ceil)

lemma ceil_div_reached: "1 \<le> m \<Longrightarrow> n \<le> 2 ^ 32 \<Longrightarrow> i \<le> 32 \<Longrightarrow> m < ceil_div n (2 ^ i) \<Longrightarrow> i < 32"
  using ceil_div_small [of n 32] by (cases "i = 32") auto

lemma next_spec_Some:
  assumes "next_spec voxel min_size (spec_at w h d i j fx fz) = Some s" "1 \<le> min_size" "i \<le> 32" "j \<le> 32"
    "w \<le> 2 ^ 32" "h \<le> 2 ^ 32" "d \<le> 2 ^ 32"
  obtains i' j' where "i' = (if sp_downsample_xy s then Suc i else i)" "j' = (if sp_downsample_z s then Suc j else j)"
    "sp_downsample_xy s \<or> sp_downsample_z s" "s = spec_at w h d i' j' (sp_downsample_xy s) (sp_downsample_z s)" "i' \<le> 32" "j' \<le> 32"
proof -
  let ?s = "spec_at w h d i j fx fz"
  obtain do_xy do_z where axes: "axes_to_halve voxel min_size ?s = (do_xy, do_z)" by (cases "axes_to_halve voxel min_size ?s")
  with assms(1) have s: "do_xy \<or> do_z" "s = halve_spec do_xy do_z ?s" by (auto simp: next_spec_def split: if_splits)
  note can = axes_to_halve_can [OF axes]
  have i: "i < 32" if do_xy using can(1) [OF that] ceil_div_reached assms(2,3,5,6) by (auto simp: spec_at_def)
  have j: "j < 32" if do_z using can(2) [OF that] ceil_div_reached assms(2,4,7) by (auto simp: spec_at_def)
  have eq: "s = spec_at w h d (if do_xy then Suc i else i) (if do_z then Suc j else j) do_xy do_z"
    unfolding s(2) using i j by (intro halve_spec_at) auto
  then have "sp_downsample_xy s = do_xy" "sp_downsample_z s = do_z" by (simp_all add: spec_at_def)
  with eq s(1) i j assms(3,4) show thesis by (intro that [of "if do_xy then Suc i else i" "if do_z then Suc j else j"]) auto
qed

lemma schedule_from_complete:
  assumes "1 \<le> min_size" "w \<le> 2 ^ 32" "h \<le> 2 ^ 32" "d \<le> 2 ^ 32" "i \<le> 32" "j \<le> 32"
  shows "\<exists>rest. schedule_from voxel min_size (spec_at w h d i j fx fz) = Some (spec_at w h d i j fx fz # rest)
    \<and> follows w h d i j rest \<and> small_spec min_size (last (spec_at w h d i j fx fz # rest)) \<and> length rest \<le> 64 - i - j"
  using assms(5,6)
proof (induction "64 - i - j" arbitrary: i j fx fz rule: less_induct)
  case less
  let ?s = "spec_at w h d i j fx fz"
  show ?case
  proof (cases "next_spec voxel min_size ?s")
    case None
    then show ?thesis using next_spec_None [OF None] by (subst schedule_from.simps) simp
  next
    case (Some s)
    from next_spec_Some [OF Some assms(1) less.prems assms(2-4)] obtain i' j' where
      n: "i' = (if sp_downsample_xy s then Suc i else i)" "j' = (if sp_downsample_z s then Suc j else j)"
        "sp_downsample_xy s \<or> sp_downsample_z s" "s = spec_at w h d i' j' (sp_downsample_xy s) (sp_downsample_z s)" "i' \<le> 32" "j' \<le> 32" .
    then have "64 - i' - j' < 64 - i - j" by (auto split: if_splits)
    from less.hyps [OF this n(5,6), of "sp_downsample_xy s" "sp_downsample_z s", folded n(4)] obtain rest where
      r: "schedule_from voxel min_size s = Some (s # rest)" "follows w h d i' j' rest" "small_spec min_size (last (s # rest))"
        "length rest \<le> 64 - i' - j'" by blast
    have "schedule_from voxel min_size ?s = Some (?s # s # rest)" using Some r(1) by (subst schedule_from.simps) simp
    moreover have "follows w h d i j (s # rest)" using n r(2) by (simp add: Let_def)
    moreover have "length (s # rest) \<le> 64 - i - j" using r(4) n by (auto split: if_splits)
    ultimately show ?thesis using r(3) by (intro exI [of _ "s # rest"]) simp
  qed
qed

lemma schedule_levels:
  assumes "1 \<le> min_size" "w \<le> 2 ^ 32" "h \<le> 2 ^ 32" "d \<le> 2 ^ 32"
  shows "\<exists>rest. compute_downsample_schedule w h d voxel min_size = Some (spec_at w h d 0 0 False False # rest)
    \<and> follows w h d 0 0 rest \<and> small_spec min_size (last (spec_at w h d 0 0 False False # rest)) \<and> length rest \<le> 64"
proof -
  have "spec_at w h d 0 0 False False =
      \<lparr>sp_width = w, sp_height = h, sp_depth = d, sp_scale = (1, 1, 1), sp_downsample_xy = False, sp_downsample_z = False\<rparr>"
    by (simp add: spec_at_def ceil_div_def one_f64_def)
  with schedule_from_complete [of min_size w h d 0 0 voxel False False] assms show ?thesis
    by (simp add: compute_downsample_schedule_def)
qed

text \<open>C17: The schedule always ends, after at most 65 levels, whatever the voxel sizes are (NaN and
  infinities included), and its last level is small on every axis: an axis that is skipped
  is never left behind. Every level halves the plane, the depth or both; its sizes are the
  full sizes divided by the power of two of its halvings and rounded up, its scales are
  exactly those powers.\<close>
theorem schedule_complete:
  assumes "1 \<le> min_size" "w \<le> 2 ^ 32" "h \<le> 2 ^ 32" "d \<le> 2 ^ 32"
  shows "\<exists>rest. compute_downsample_schedule w h d voxel min_size = Some (spec_at w h d 0 0 False False # rest)
    \<and> follows w h d 0 0 rest \<and> small_spec min_size (last (spec_at w h d 0 0 False False # rest)) \<and> length rest \<le> 64"
  by (rule schedule_levels [OF assms])

theorem schedule_complete_witness:
  "\<exists>rest. compute_downsample_schedule 64 64 512 \<lparr>vx_x = 1, vx_y = 1, vx_z = NaN\<rparr> 16 = Some (spec_at 64 64 512 0 0 False False # rest)
    \<and> small_spec 16 (last (spec_at 64 64 512 0 0 False False # rest))"
  using schedule_complete [of 16 64 64 512 "\<lparr>vx_x = 1, vx_y = 1, vx_z = NaN\<rparr>"] by (simp del: last.simps) blast

end
