(* ===== verification/Ingest.thy ===== *)
theory Ingest
  imports Schedule Text
begin

text \<open>
  Writing a volume as a multiscale store (\<^verbatim>\<open>lucida-store/src/ingest\<close>): cutting a level into
  chunks (\<^verbatim>\<open>zarr_writer.rs\<close>), the documents beside them (\<^verbatim>\<open>ome_metadata.rs\<close>) and the
  level-by-level pipeline (\<^verbatim>\<open>mod.rs\<close>). File operations are listed in the order of the
  chunk indices; the code runs the chunks of one level in parallel, each to a file of its
  own. Whether an operation fails is a parameter, and so is the lz4 encoder. Offsets the
  code computes in \<open>u32\<close> wrap.
\<close>

section \<open>Cutting a level into chunks\<close>

text \<open>\<^verbatim>\<open>val as u8\<close> and \<^verbatim>\<open>(val >> 8) as u8\<close>\<close>

definition low_byte :: "u16 \<Rightarrow> u8" where
  "low_byte v = of_nat (unat v mod 256)"

definition high_byte :: "u16 \<Rightarrow> u8" where
  "high_byte v = of_nat (unat v div 256)"

definition copy_voxel :: "u16 list \<Rightarrow> nat \<Rightarrow> nat \<Rightarrow> bytes \<Rightarrow> bytes option" where
  "copy_voxel data i d buf =
     Option.bind (index_at data i) (\<lambda>val.
       Option.bind (store_at d (low_byte val) buf) (store_at (d + 1) (high_byte val)))"

definition extract_chunk :: "level_data \<Rightarrow> nat \<Rightarrow> nat \<Rightarrow> nat \<Rightarrow> nat \<Rightarrow> nat \<Rightarrow> nat \<Rightarrow> nat \<Rightarrow> nat \<Rightarrow> bytes option" where
  "extract_chunk level cx cy cz xi yi zi ti ci =
     (let buf = replicate (u32_mul (u32_mul (u32_mul cx cy) cz) 2) 0;
          x_start = u32_mul xi cx; y_start = u32_mul yi cy; z_start = u32_mul zi cz;
          plane_size = u32_mul (ld_width level) (ld_height level);
          tc_offset = u32_add (u32_mul (u32_mul ti (ld_channels level)) (ld_depth level)) (u32_mul ci (ld_depth level)) * plane_size
      in for_each (\<lambda>lz.
           for_each (\<lambda>ly.
             let gz = u32_add z_start lz; gy = u32_add y_start ly;
                 row_len = min cx (ld_width level - x_start);
                 src_offset = tc_offset + u32_add (u32_add (u32_mul (u32_mul gz (ld_width level)) (ld_height level))
                                (u32_mul gy (ld_width level))) x_start;
                 dst_offset = u32_add (u32_mul (u32_mul lz cy) cx) (u32_mul ly cx) * 2
             in for_each (\<lambda>lx. copy_voxel (ld_data level) (src_offset + lx) (dst_offset + lx * 2)) [0..<row_len])
             (takeWhile (\<lambda>ly. u32_add y_start ly < ld_height level) [0..<cy]))
           (takeWhile (\<lambda>lz. u32_add z_start lz < ld_depth level) [0..<cz]) buf)"

type_synonym chunk_index = "nat \<times> nat \<times> nat \<times> nat \<times> nat"

definition grid_size :: "nat \<Rightarrow> nat \<Rightarrow> nat" where
  "grid_size n c = (n + c - 1) div c"

definition chunk_indices :: "level_data \<Rightarrow> nat \<Rightarrow> nat \<Rightarrow> nat \<Rightarrow> chunk_index list" where
  "chunk_indices level cx cy cz =
     [(ti, ci, zi, yi, xi). ti \<leftarrow> [0..<ld_timepoints level], ci \<leftarrow> [0..<ld_channels level],
        zi \<leftarrow> [0..<grid_size (ld_depth level) cz], yi \<leftarrow> [0..<grid_size (ld_height level) cy],
        xi \<leftarrow> [0..<grid_size (ld_width level) cx]]"

section \<open>Documents and files\<close>

text \<open>The values the \<^verbatim>\<open>json!\<close> macro builds here.\<close>

datatype json =
    JNum nat
  | JFloat f64
  | JStr string
  | JArr "json list"
  | JObj "(string \<times> json) list"

datatype fs_op =
    CreateDirs "string list"
  | WriteJson "string list" json
  | WriteBytes "string list" bytes

definition axis_entry :: "string \<Rightarrow> string \<Rightarrow> string option \<Rightarrow> json" where
  "axis_entry name kind unit =
     JObj ([(''name'', JStr name), (''type'', JStr kind)] @ (case unit of Some u \<Rightarrow> [(''unit'', JStr u)] | None \<Rightarrow> []))"

definition dataset_entry :: "(f64 \<times> f64 \<times> f64) list \<Rightarrow> nat \<Rightarrow> json" where
  "dataset_entry level_scales i =
     (case (if i < length level_scales then level_scales ! i else (1, 1, 1)) of (sx, sy, sz) \<Rightarrow>
        JObj [(''path'', JStr (show_nat i)),
              (''coordinateTransformations'', JArr [JObj [(''type'', JStr ''scale''),
                (''scale'', JArr (map JFloat [1, 1, sz, sy, sx]))]])])"

definition build_multiscales_attrs :: "level_data list \<Rightarrow> (f64 \<times> f64 \<times> f64) list \<Rightarrow> json" where
  "build_multiscales_attrs levels level_scales =
     JObj [(''ome'', JObj [(''version'', JStr ''0.5''),
       (''multiscales'', JArr [JObj [(''version'', JStr ''0.5''), (''name'', JStr ''image''),
         (''axes'', JArr [axis_entry ''t'' ''time'' (Some ''second''), axis_entry ''c'' ''channel'' None,
            axis_entry ''z'' ''space'' (Some ''micrometer''), axis_entry ''y'' ''space'' (Some ''micrometer''),
            axis_entry ''x'' ''space'' (Some ''micrometer'')]),
         (''datasets'', JArr (map (dataset_entry level_scales) [0..<length levels])),
         (''type'', JStr ''2x2 box average'')]])])]"

definition codec_entries :: "json list" where
  "codec_entries =
     [JObj [(''name'', JStr ''bytes''), (''configuration'', JObj [(''endian'', JStr ''little'')])],
      JObj [(''name'', JStr ''numcodecs/lz4''), (''configuration'', JObj [(''acceleration'', JNum 1)])]]"

definition build_array_zarr_json :: "level_data \<Rightarrow> nat \<times> nat \<times> nat \<Rightarrow> json" where
  "build_array_zarr_json level chunk_size =
     (case chunk_size of (cz, cy, cx) \<Rightarrow>
        JObj [(''zarr_format'', JNum 3), (''node_type'', JStr ''array''),
          (''shape'', JArr (map JNum [ld_timepoints level, ld_channels level, ld_depth level, ld_height level, ld_width level])),
          (''data_type'', JStr ''uint16''),
          (''chunk_grid'', JObj [(''name'', JStr ''regular''),
             (''configuration'', JObj [(''chunk_shape'', JArr (map JNum [1, 1, cz, cy, cx]))])]),
          (''chunk_key_encoding'', JObj [(''name'', JStr ''default''), (''configuration'', JObj [(''separator'', JStr ''/'')])]),
          (''fill_value'', JNum 0), (''codecs'', JArr codec_entries),
          (''dimension_names'', JArr (map JStr [''t'', ''c'', ''z'', ''y'', ''x''])), (''attributes'', JObj [])])"

text \<open>
  A panic is \<open>None\<close>, a failed operation stops with its message; the operations tried are
  collected. Whether an operation of the file system fails is the parameter \<open>io\<close>. A path is
  the list of its components.
\<close>

type_synonym 'a writing = "fs_op list \<times> (string + 'a) option"

type_synonym file_system = "fs_op \<Rightarrow> string option"

definition attempt :: "file_system \<Rightarrow> string \<Rightarrow> fs_op \<Rightarrow> unit writing" where
  "attempt io context f = ([f], Some (case io f of None \<Rightarrow> Inr () | Some e \<Rightarrow> Inl (context @ '': '' @ e)))"

definition write_bind :: "'a writing \<Rightarrow> ('a \<Rightarrow> 'b writing) \<Rightarrow> 'b writing" where
  "write_bind m k =
     (case m of
        (fs, Some (Inr a)) \<Rightarrow> (case k a of (gs, r) \<Rightarrow> (fs @ gs, r))
      | (fs, Some (Inl e)) \<Rightarrow> (fs, Some (Inl e))
      | (fs, None) \<Rightarrow> (fs, None))"

definition lift_panic :: "'a option \<Rightarrow> 'a writing" where
  "lift_panic r = ([], map_option Inr r)"

fun write_each :: "('x \<Rightarrow> unit writing) \<Rightarrow> 'x list \<Rightarrow> unit writing" where
  "write_each f [] = ([], Some (Inr ()))"
| "write_each f (x # xs) = write_bind (f x) (\<lambda>_. write_each f xs)"

definition write_json :: "file_system \<Rightarrow> string list \<Rightarrow> string \<Rightarrow> json \<Rightarrow> unit writing" where
  "write_json io dir name content =
     (let path = dir @ [name] in attempt io (''failed to write '' @ join_with ''/'' path) (WriteJson path content))"

section \<open>Writing levels\<close>

definition chunk_dir :: "string list \<Rightarrow> chunk_index \<Rightarrow> string list" where
  "chunk_dir level_dir = (\<lambda>(ti, ci, zi, yi, xi). level_dir @ [''c'', show_nat ti, show_nat ci, show_nat zi, show_nat yi])"

definition chunk_path :: "string list \<Rightarrow> chunk_index \<Rightarrow> string list" where
  "chunk_path level_dir = (\<lambda>(ti, ci, zi, yi, xi).
     level_dir @ [''c'', show_nat ti, show_nat ci, show_nat zi, show_nat yi, show_nat xi])"

definition write_chunk :: "(bytes \<Rightarrow> bytes) \<Rightarrow> file_system \<Rightarrow> string list \<Rightarrow> level_data \<Rightarrow> nat \<times> nat \<times> nat \<Rightarrow> chunk_index \<Rightarrow> unit writing" where
  "write_chunk lz4 io level_dir level = (\<lambda>(cz, cy, cx) (ti, ci, zi, yi, xi).
     write_bind (lift_panic (extract_chunk level cx cy cz xi yi zi ti ci)) (\<lambda>raw.
       attempt io ''failed to write chunk'' (WriteBytes (chunk_path level_dir (ti, ci, zi, yi, xi)) (lz4 raw))))"

definition write_chunks :: "(bytes \<Rightarrow> bytes) \<Rightarrow> file_system \<Rightarrow> string list \<Rightarrow> level_data \<Rightarrow> nat \<times> nat \<times> nat \<Rightarrow> unit writing" where
  "write_chunks lz4 io level_dir level chunk_size =
     (case chunk_size of (cz, cy, cx) \<Rightarrow>
        if cz = 0 \<or> cy = 0 \<or> cx = 0 then ([], None)
        else
          let indices = chunk_indices level cx cy cz
          in write_bind (write_each (\<lambda>dir. attempt io ''failed to create chunk dir'' (CreateDirs dir))
               (remdups (map (chunk_dir level_dir) indices))) (\<lambda>_.
             write_each (write_chunk lz4 io level_dir level chunk_size) indices))"

definition write_zarr_level :: "(bytes \<Rightarrow> bytes) \<Rightarrow> file_system \<Rightarrow> string list \<Rightarrow> nat \<Rightarrow> level_data \<Rightarrow> nat \<times> nat \<times> nat \<Rightarrow> unit writing" where
  "write_zarr_level lz4 io output level_index level chunk_size =
     (let level_dir = output @ [show_nat level_index]
      in write_bind (attempt io ''failed to create level dir'' (CreateDirs level_dir)) (\<lambda>_.
         write_bind (write_json io level_dir ''zarr.json'' (build_array_zarr_json level chunk_size)) (\<lambda>_.
           write_chunks lz4 io level_dir level chunk_size)))"

definition write_root_metadata :: "file_system \<Rightarrow> string list \<Rightarrow> level_data list \<Rightarrow> (f64 \<times> f64 \<times> f64) list \<Rightarrow> unit writing" where
  "write_root_metadata io output levels level_scales =
     write_bind (attempt io ''failed to create output dir'' (CreateDirs output)) (\<lambda>_.
       write_json io output ''zarr.json''
         (JObj [(''zarr_format'', JNum 3), (''node_type'', JStr ''group''), (''attributes'', build_multiscales_attrs levels level_scales)]))"

text \<open>\<^verbatim>\<open>write_zarr\<close>: levels given at once, assumed halved in the plane only; the shift wraps at 32.\<close>

definition write_zarr :: "(bytes \<Rightarrow> bytes) \<Rightarrow> file_system \<Rightarrow> string list \<Rightarrow> level_data list \<Rightarrow> nat \<times> nat \<times> nat \<Rightarrow> unit writing" where
  "write_zarr lz4 io output levels chunk_size =
     (let scales = map (\<lambda>i. let f = flit (2 ^ (i mod 32)) in (f, f, 1)) [0..<length levels]
      in write_bind (write_root_metadata io output levels scales) (\<lambda>_.
           write_each (\<lambda>(i, level). write_zarr_level lz4 io output i level chunk_size) (enumerate 0 levels)))"

section \<open>The pipeline\<close>

record volume =
  vol_data :: "u16 list"
  vol_width :: nat
  vol_height :: nat
  vol_depth :: nat
  vol_channels :: nat
  vol_timepoints :: nat
  vol_voxel_size :: voxel_size

definition min_level_size :: nat where
  "min_level_size = 256"

definition join_writer :: "nat \<Rightarrow> unit writing \<Rightarrow> unit writing" where
  "join_writer i m =
     (case m of
        (fs, None) \<Rightarrow> (fs, Some (Inl (''write thread for level '' @ show_nat i @ '' panicked'')))
      | (fs, Some r) \<Rightarrow> (fs, Some r))"

text \<open>
  A level is written by a thread while the next one is computed from it, then the thread
  is waited for: its panic is an error, a panic of the computation ends the conversion.
\<close>

fun write_levels :: "(bytes \<Rightarrow> bytes) \<Rightarrow> file_system \<Rightarrow> string list \<Rightarrow> nat \<times> nat \<times> nat \<Rightarrow> nat \<Rightarrow> level_data \<Rightarrow> level_spec list \<Rightarrow>
    unit writing" where
  "write_levels lz4 io output chunk_size i current [] = write_zarr_level lz4 io output i current chunk_size"
| "write_levels lz4 io output chunk_size i current (spec # rest) =
     (let written = write_zarr_level lz4 io output i current chunk_size
      in case downsample current (sp_downsample_xy spec) (sp_downsample_z spec) of
           None \<Rightarrow> (fst written, None)
         | Some level \<Rightarrow> write_bind (join_writer i written) (\<lambda>_. write_levels lz4 io output chunk_size (Suc i) level rest))"

definition level_of_volume :: "volume \<Rightarrow> level_data" where
  "level_of_volume v =
     \<lparr>ld_data = vol_data v, ld_width = vol_width v, ld_height = vol_height v, ld_depth = vol_depth v,
      ld_channels = vol_channels v, ld_timepoints = vol_timepoints v\<rparr>"

definition meta_level :: "volume \<Rightarrow> level_spec \<Rightarrow> level_data" where
  "meta_level v spec =
     \<lparr>ld_data = [], ld_width = sp_width spec, ld_height = sp_height spec, ld_depth = sp_depth spec,
      ld_channels = vol_channels v, ld_timepoints = vol_timepoints v\<rparr>"

definition write_volume_pyramid :: "(bytes \<Rightarrow> bytes) \<Rightarrow> file_system \<Rightarrow> string list \<Rightarrow> volume \<Rightarrow> nat \<times> nat \<times> nat \<Rightarrow> unit writing" where
  "write_volume_pyramid lz4 io output v chunk_size =
     write_bind (lift_panic (compute_downsample_schedule (vol_width v) (vol_height v) (vol_depth v) (vol_voxel_size v) min_level_size)) (\<lambda>schedule.
     write_bind (write_root_metadata io output (map (meta_level v) schedule) (map sp_scale schedule)) (\<lambda>_.
       write_levels lz4 io output chunk_size 0 (level_of_volume v) (tl schedule)))"

section \<open>A chunk holds its samples\<close>

lemma for_each_product: "for_each (\<lambda>x. for_each (f x) ys) xs = for_each (\<lambda>(x, y). f x y) (List.product xs ys)"
  using for_each_nested [of "\<lambda>(x, y). f x y" ys xs] by (intro ext) simp

lemma takeWhile_upt:
  assumes "s < 2 ^ 32" "n < 2 ^ 32"
  shows "takeWhile (\<lambda>l. u32_add s l < n) [0..<c] = [0..<min c (n - s)]"
proof (induction c)
  case (Suc c)
  have in_range: "u32_add s l < n" if "l < n - s" for l using that assms by (simp add: u32_add_def)
  show ?case
  proof (cases "c \<le> n - s")
    case True
    then have "takeWhile (\<lambda>l. u32_add s l < n) ([0..<c] @ [c]) = [0..<c] @ takeWhile (\<lambda>l. u32_add s l < n) [c]"
      using in_range by (intro takeWhile_append2) simp
    moreover have "u32_add s c < n \<longleftrightarrow> c < n - s" using True assms by (auto simp: u32_add_def)
    ultimately show ?thesis using True by (auto simp: min_def)
  next
    case False
    have "\<not> u32_add s (n - s) < n" using assms by (auto simp: u32_add_def)
    moreover have "n - s \<in> set [0..<c]" using False by simp
    ultimately have "takeWhile (\<lambda>l. u32_add s l < n) ([0..<c] @ [c]) = takeWhile (\<lambda>l. u32_add s l < n) [0..<c]"
      by (intro takeWhile_append1) auto
    with Suc False show ?thesis by simp
  qed
qed simp

definition voxel_byte :: "nat \<Rightarrow> u16 \<Rightarrow> u8" where
  "voxel_byte b v = (if b = 0 then low_byte v else high_byte v)"

lemma voxel_bytes: "le_nat [voxel_byte 0 v, voxel_byte 1 v] = unat v"
proof -
  have "unat v < 2 ^ 16" using unsigned_less [of v, where ?'a = nat] by simp
  then show ?thesis by (simp add: voxel_byte_def low_byte_def high_byte_def unat_of_nat)
qed

lemma copy_voxel_ok:
  assumes "i < length data"
  shows "copy_voxel data i d = for_each (\<lambda>b. store_at (d + b) (voxel_byte b (data ! i))) [0, 1]"
  using assms by (intro ext) (auto simp: copy_voxel_def index_at_def voxel_byte_def store_at_def split: bind_splits)

text \<open>The chunks the writer asks for whose planes lie among the first \<open>2 ^ 32\<close> samples of their volume.\<close>

definition chunk_ok :: "level_data \<Rightarrow> nat \<Rightarrow> nat \<Rightarrow> nat \<Rightarrow> nat \<Rightarrow> nat \<Rightarrow> nat \<Rightarrow> nat \<Rightarrow> nat \<Rightarrow> bool" where
  "chunk_ok level cx cy cz xi yi zi ti ci \<longleftrightarrow>
     level_sized level \<and> ld_width level * ld_height level * min (ld_depth level) (zi * cz + cz) \<le> 2 ^ 32 \<and> cx * cy * cz * 2 < 2 ^ 32
     \<and> ti < ld_timepoints level \<and> ci < ld_channels level
     \<and> zi * cz < ld_depth level \<and> yi * cy < ld_height level \<and> xi * cx < ld_width level"

lemma u32_small: "a * b < 2 ^ 32 \<Longrightarrow> u32_mul a b = a * b" "a + b < 2 ^ 32 \<Longrightarrow> u32_add a b = a + b"
  by (simp_all add: u32_mul_def u32_add_def)

lemma source_offset:
  assumes "level_sized level" "ld_width level * ld_height level * n \<le> 2 ^ 32"
    "gz < n" "gy < ld_height level" "x < ld_width level"
  shows "u32_add (u32_add (u32_mul (u32_mul gz (ld_width level)) (ld_height level)) (u32_mul gy (ld_width level))) x =
    (gz * ld_height level + gy) * ld_width level + x"
proof -
  let ?w = "ld_width level" and ?h = "ld_height level"
  have row: "gy * ?w + x < ?h * ?w" using assms(4,5) by (rule mixed_radix_less)
  have "gz * (?h * ?w) + (gy * ?w + x) < n * (?h * ?w)" using assms(3) row by (rule mixed_radix_less)
  then have all: "gz * ?w * ?h + gy * ?w + x < 2 ^ 32" using assms(2) by (simp add: ac_simps)
  have "gz * ?w \<le> gz * ?w * ?h" using assms(1) by (simp add: level_sized_def)
  then have "gz * ?w < 2 ^ 32" "gz * ?w * ?h < 2 ^ 32" "gy * ?w < 2 ^ 32" using all by linarith+
  then have "u32_mul gz ?w = gz * ?w" "u32_mul (gz * ?w) ?h = gz * ?w * ?h" "u32_mul gy ?w = gy * ?w" by (simp_all add: u32_small)
  with all show ?thesis by (simp add: u32_small algebra_simps)
qed

lemma target_offset:
  assumes "cx * cy * cz * 2 < 2 ^ 32" "lz < cz" "ly < cy" "lx < cx"
  shows "u32_add (u32_mul (u32_mul lz cy) cx) (u32_mul ly cx) * 2 + lx * 2 = ((lz * cy + ly) * cx + lx) * 2"
    "((lz * cy + ly) * cx + lx) * 2 + 1 < cx * cy * cz * 2"
proof -
  have "lz * cy + ly < cz * cy" using assms(2,3) by (rule mixed_radix_less)
  then have less: "(lz * cy + ly) * cx + lx < cz * cy * cx" using assms(4) by (rule mixed_radix_less)
  have double: "a * 2 + 1 < b * 2" if "a < b" for a b :: nat using that by simp
  have "cz * cy * cx = cx * cy * cz" by simp
  with double [OF less] show "((lz * cy + ly) * cx + lx) * 2 + 1 < cx * cy * cz * 2" by (simp only:)
  have all: "lz * cy * cx + ly * cx + lx < 2 ^ 32" using less assms(1) by (simp add: algebra_simps)
  have "lz * cy \<le> lz * cy * cx" using assms(4) by simp
  then have "lz * cy < 2 ^ 32" "lz * cy * cx < 2 ^ 32" "ly * cx < 2 ^ 32" using all by linarith+
  then have "u32_mul lz cy = lz * cy" "u32_mul (lz * cy) cx = lz * cy * cx" "u32_mul ly cx = ly * cx" by (simp_all add: u32_small)
  with all show "u32_add (u32_mul (u32_mul lz cy) cx) (u32_mul ly cx) * 2 + lx * 2 = ((lz * cy + ly) * cx + lx) * 2"
    by (simp add: u32_small algebra_simps)
qed

lemma chunk_ok_sizes:
  assumes "chunk_ok level cx cy cz xi yi zi ti ci"
  shows "ld_width level < 2 ^ 32" "ld_height level < 2 ^ 32" "ld_depth level < 2 ^ 32"
proof -
  let ?w = "ld_width level" and ?h = "ld_height level" and ?d = "ld_depth level" and ?C = "ld_channels level" and ?T = "ld_timepoints level"
  have ok: "0 < ?w" "0 < ?h" "?w * ?h < 2 ^ 32" "?T * ?C * ?d < 2 ^ 32" "0 < ?T" "0 < ?C"
    using assms by (auto simp: chunk_ok_def level_sized_def)
  then have "?w \<le> ?w * ?h" "?h \<le> ?w * ?h" "?d \<le> ?T * ?C * ?d" by simp_all
  with ok(3,4) show "?w < 2 ^ 32" "?h < 2 ^ 32" "?d < 2 ^ 32" by linarith+
qed

lemma chunk_okD:
  assumes "chunk_ok level cx cy cz xi yi zi ti ci"
  shows "level_sized level" "ld_width level * ld_height level * min (ld_depth level) (zi * cz + cz) \<le> 2 ^ 32" "cx * cy * cz * 2 < 2 ^ 32"
    "ti < ld_timepoints level" "ci < ld_channels level"
    "zi * cz < ld_depth level" "yi * cy < ld_height level" "xi * cx < ld_width level"
    "u32_mul xi cx = xi * cx" "u32_mul yi cy = yi * cy" "u32_mul zi cz = zi * cz"
    "u32_mul (ld_width level) (ld_height level) = ld_width level * ld_height level"
    "u32_add (u32_mul (u32_mul ti (ld_channels level)) (ld_depth level)) (u32_mul ci (ld_depth level)) = (ti * ld_channels level + ci) * ld_depth level"
proof -
  let ?w = "ld_width level" and ?h = "ld_height level" and ?d = "ld_depth level" and ?C = "ld_channels level"
  show ok: "level_sized level" "?w * ?h * min ?d (zi * cz + cz) \<le> 2 ^ 32" "cx * cy * cz * 2 < 2 ^ 32" "ti < ld_timepoints level" "ci < ?C"
    "zi * cz < ?d" "yi * cy < ?h" "xi * cx < ?w" using assms by (simp_all add: chunk_ok_def)
  have pos: "0 < ?w" "0 < ?h" "0 < ?d" "?w * ?h < 2 ^ 32" using ok(1) by (simp_all add: level_sized_def)
  have "xi * cx < 2 ^ 32" "yi * cy < 2 ^ 32" "zi * cz < 2 ^ 32" using ok(6-8) chunk_ok_sizes [OF assms] by linarith+
  then show "u32_mul xi cx = xi * cx" "u32_mul yi cy = yi * cy" "u32_mul zi cz = zi * cz" by (simp_all add: u32_small)
  show "u32_mul ?w ?h = ?w * ?h" using pos(4) by (simp add: u32_small)
  have "ti * ?C + ci < ld_timepoints level * ?C" using ok(4,5) by (rule mixed_radix_less)
  then have "(ti * ?C + ci) * ?d \<le> ld_timepoints level * ?C * ?d" by (intro mult_le_mono1) simp
  moreover have "ld_timepoints level * ?C * ?d < 2 ^ 32" using ok(1) by (simp add: level_sized_def)
  ultimately have all: "(ti * ?C + ci) * ?d < 2 ^ 32" by (rule le_less_trans)
  then have sum: "ti * ?C * ?d + ci * ?d < 2 ^ 32" by (simp add: algebra_simps)
  have "ti * ?C \<le> ti * ?C * ?d" using pos(3) by simp
  then have "ti * ?C < 2 ^ 32" "ti * ?C * ?d < 2 ^ 32" "ci * ?d < 2 ^ 32" using sum by linarith+
  with sum show "u32_add (u32_mul (u32_mul ti ?C) ?d) (u32_mul ci ?d) = (ti * ?C + ci) * ?d"
    by (simp add: u32_small algebra_simps)
qed

text \<open>Where a sample of the level lies in its array.\<close>

lemma sample_index:
  assumes "level_sized level" "t < ld_timepoints level" "c < ld_channels level" "z < ld_depth level" "y < ld_height level" "x < ld_width level"
  shows "(t * ld_channels level + c) * ld_depth level * (ld_width level * ld_height level) + ((z * ld_height level + y) * ld_width level + x)
      < length (ld_data level)"
    "ld_data level ! ((t * ld_channels level + c) * ld_depth level * (ld_width level * ld_height level) + ((z * ld_height level + y) * ld_width level + x))
      = sample level t c z y x"
proof -
  let ?w = "ld_width level" and ?h = "ld_height level" and ?d = "ld_depth level" and ?C = "ld_channels level"
  have "t * ?C + c < ld_timepoints level * ?C" using assms(2,3) by (rule mixed_radix_less)
  then have "(t * ?C + c) * ?d + z < ld_timepoints level * ?C * ?d" using assms(4) by (rule mixed_radix_less)
  then have "((t * ?C + c) * ?d + z) * ?h + y < ld_timepoints level * ?C * ?d * ?h" using assms(5) by (rule mixed_radix_less)
  then have "(((t * ?C + c) * ?d + z) * ?h + y) * ?w + x < ld_timepoints level * ?C * ?d * ?h * ?w" using assms(6) by (rule mixed_radix_less)
  then show "(t * ?C + c) * ?d * (?w * ?h) + ((z * ?h + y) * ?w + x) < length (ld_data level)"
    using assms(1) by (simp add: level_sized_def algebra_simps)
  show "ld_data level ! ((t * ?C + c) * ?d * (?w * ?h) + ((z * ?h + y) * ?w + x)) = sample level t c z y x"
    by (simp add: sample_def algebra_simps)
qed

definition chunk_pos :: "nat \<Rightarrow> nat \<Rightarrow> nat \<times> nat \<times> nat \<times> nat \<Rightarrow> nat" where
  "chunk_pos cx cy = (\<lambda>(lz, ly, lx, b). ((lz * cy + ly) * cx + lx) * 2 + b)"

definition chunk_cells :: "level_data \<Rightarrow> nat \<Rightarrow> nat \<Rightarrow> nat \<Rightarrow> nat \<Rightarrow> nat \<Rightarrow> nat \<Rightarrow> (nat \<times> nat \<times> nat \<times> nat) list" where
  "chunk_cells level cx cy cz xi yi zi =
     List.product [0..<min cz (ld_depth level - zi * cz)] (List.product [0..<min cy (ld_height level - yi * cy)]
       (List.product [0..<min cx (ld_width level - xi * cx)] [0, 1]))"

definition chunk_value :: "level_data \<Rightarrow> nat \<Rightarrow> nat \<Rightarrow> nat \<Rightarrow> nat \<Rightarrow> nat \<Rightarrow> nat \<Rightarrow> nat \<Rightarrow> nat \<Rightarrow> nat \<times> nat \<times> nat \<times> nat \<Rightarrow> u8" where
  "chunk_value level cx cy cz xi yi zi ti ci =
     (\<lambda>(lz, ly, lx, b). voxel_byte b (sample level ti ci (zi * cz + lz) (yi * cy + ly) (xi * cx + lx)))"

lemma chunk_cells_iff:
  "(lz, ly, lx, b) \<in> set (chunk_cells level cx cy cz xi yi zi) \<longleftrightarrow>
     lz < cz \<and> ly < cy \<and> lx < cx \<and> b < 2 \<and> zi * cz + lz < ld_depth level \<and> yi * cy + ly < ld_height level \<and> xi * cx + lx < ld_width level"
  by (auto simp: chunk_cells_def)

lemma chunk_pos_inj: "inj_on (chunk_pos cx cy) (set (chunk_cells level cx cy cz xi yi zi))"
proof (rule inj_onI)
  fix p q assume p: "p \<in> set (chunk_cells level cx cy cz xi yi zi)" and q: "q \<in> set (chunk_cells level cx cy cz xi yi zi)"
    and eq: "chunk_pos cx cy p = chunk_pos cx cy q"
  obtain lz ly lx b where pe: "p = (lz, ly, lx, b)" by (cases p)
  obtain lz' ly' lx' b' where qe: "q = (lz', ly', lx', b')" by (cases q)
  have r: "lz < cz" "ly < cy" "lx < cx" "b < 2" "lz' < cz" "ly' < cy" "lx' < cx" "b' < 2"
    using p q by (simp_all add: pe qe chunk_cells_iff)
  from eq have "((lz * cy + ly) * cx + lx) * 2 + b = ((lz' * cy + ly') * cx + lx') * 2 + b'"
    by (simp only: chunk_pos_def pe qe prod.case)
  then have "(lz * cy + ly) * cx + lx = (lz' * cy + ly') * cx + lx' \<and> b = b'" by (rule mixed_radix_inj [OF r(4,8)])
  then have "lz * cy + ly = lz' * cy + ly' \<and> lx = lx'" "b = b'" using mixed_radix_inj [OF r(3,7)] by blast+
  moreover from this(1) have "lz = lz' \<and> ly = ly'" using mixed_radix_inj [OF r(2,6)] by blast
  ultimately show "p = q" by (simp add: pe qe)
qed

lemma extract_chunk_fold:
  assumes "chunk_ok level cx cy cz xi yi zi ti ci"
  shows "extract_chunk level cx cy cz xi yi zi ti ci = for_each (\<lambda>p. store_at (chunk_pos cx cy p) (chunk_value level cx cy cz xi yi zi ti ci p))
    (chunk_cells level cx cy cz xi yi zi) (replicate (cx * cy * cz * 2) 0)"
proof -
  note D = chunk_okD [OF assms]
  let ?w = "ld_width level" and ?h = "ld_height level" and ?d = "ld_depth level"
  let ?tc = "(ti * ld_channels level + ci) * ?d * (?w * ?h)"
  let ?src = "\<lambda>lz ly. ?tc + u32_add (u32_add (u32_mul (u32_mul (zi * cz + lz) ?w) ?h) (u32_mul (yi * cy + ly) ?w)) (xi * cx)"
  let ?dst = "\<lambda>lz ly. u32_add (u32_mul (u32_mul lz cy) cx) (u32_mul ly cx) * 2"
  let ?Z = "[0..<min cz (?d - zi * cz)]" and ?Y = "[0..<min cy (?h - yi * cy)]" and ?X = "[0..<min cx (?w - xi * cx)]"
  have voxel: "copy_voxel (ld_data level) (?src lz ly + lx) (?dst lz ly + lx * 2) =
      for_each (\<lambda>b. store_at (chunk_pos cx cy (lz, ly, lx, b)) (chunk_value level cx cy cz xi yi zi ti ci (lz, ly, lx, b))) [0, 1]"
    if "lz \<in> set ?Z" "ly \<in> set ?Y" "lx \<in> set ?X" for lz ly lx
  proof -
    have r: "lz < cz" "ly < cy" "lx < cx" "zi * cz + lz < ?d" "yi * cy + ly < ?h" "xi * cx + lx < ?w" "xi * cx < ?w" using that by auto
    have src: "?src lz ly + lx = ?tc + (((zi * cz + lz) * ?h + (yi * cy + ly)) * ?w + (xi * cx + lx))"
      using source_offset [OF D(1,2) _ r(5,7), of "zi * cz + lz"] r(1,4) by simp
    note ix = sample_index [OF D(1,4,5) r(4,5,6)]
    have dst: "?dst lz ly + lx * 2 = ((lz * cy + ly) * cx + lx) * 2" by (rule target_offset(1) [OF D(3) r(1-3)])
    show ?thesis unfolding src dst copy_voxel_ok [OF ix(1)] by (simp add: chunk_pos_def chunk_value_def ix(2))
  qed
  have "u32_mul (u32_mul (u32_mul cx cy) cz) 2 = cx * cy * cz * 2 mod 2 ^ 32" by (simp only: u32_mul_def mod_mult_left_eq)
  also have "\<dots> = cx * cy * cz * 2" using D(3) by (rule mod_less)
  finally have buf: "u32_mul (u32_mul (u32_mul cx cy) cz) 2 = cx * cy * cz * 2" .
  note sz = chunk_ok_sizes [OF assms]
  have starts: "zi * cz < 2 ^ 32" "yi * cy < 2 ^ 32" using D(6,7) sz by linarith+
  have gz: "u32_add (zi * cz) lz = zi * cz + lz" if "lz \<in> set ?Z" for lz using that sz by (auto simp: u32_add_def)
  have gy: "u32_add (yi * cy) ly = yi * cy + ly" if "ly \<in> set ?Y" for ly using that sz by (auto simp: u32_add_def)
  have "extract_chunk level cx cy cz xi yi zi ti ci = for_each (\<lambda>lz. for_each (\<lambda>ly. for_each (\<lambda>lx.
      copy_voxel (ld_data level) (?tc + u32_add (u32_add (u32_mul (u32_mul (u32_add (zi * cz) lz) ?w) ?h)
        (u32_mul (u32_add (yi * cy) ly) ?w)) (xi * cx) + lx) (?dst lz ly + lx * 2)) ?X) ?Y) ?Z (replicate (cx * cy * cz * 2) 0)"
    unfolding extract_chunk_def Let_def D(9-13) takeWhile_upt [OF starts(1) sz(3)] takeWhile_upt [OF starts(2) sz(2)] buf ..
  also have "\<dots> = for_each (\<lambda>lz. for_each (\<lambda>ly. for_each (\<lambda>lx. for_each (\<lambda>b.
      store_at (chunk_pos cx cy (lz, ly, lx, b)) (chunk_value level cx cy cz xi yi zi ti ci (lz, ly, lx, b))) [0, 1]) ?X) ?Y) ?Z (replicate (cx * cy * cz * 2) 0)"
    by (intro for_each_cong) (simp only: voxel gz gy)
  also have "\<dots> = for_each (\<lambda>(lz, ly, lx, b). store_at (chunk_pos cx cy (lz, ly, lx, b)) (chunk_value level cx cy cz xi yi zi ti ci (lz, ly, lx, b)))
      (chunk_cells level cx cy cz xi yi zi) (replicate (cx * cy * cz * 2) 0)"
    unfolding chunk_cells_def for_each_product ..
  finally show ?thesis by (simp add: case_prod_eta split_def)
qed

lemma chunk_pos_less:
  assumes "cx * cy * cz * 2 < 2 ^ 32" "lz < cz" "ly < cy" "lx < cx" "b < 2"
  shows "chunk_pos cx cy (lz, ly, lx, b) < cx * cy * cz * 2"
  using target_offset(2) [OF assms(1-4)] assms(5) by (auto simp: chunk_pos_def simp del: mult_Suc_right)

lemma extract_chunk_some:
  assumes "chunk_ok level cx cy cz xi yi zi ti ci"
  shows "extract_chunk level cx cy cz xi yi zi ti ci =
    Some (fold (\<lambda>p out. out[chunk_pos cx cy p := chunk_value level cx cy cz xi yi zi ti ci p]) (chunk_cells level cx cy cz xi yi zi)
      (replicate (cx * cy * cz * 2) 0))"
  unfolding extract_chunk_fold [OF assms] using chunk_pos_less [OF chunk_okD(3) [OF assms]]
  by (intro for_each_scatter) (auto simp: chunk_cells_iff)

text \<open>The bytes of a chunk: little-endian samples, zero past the far edges.\<close>

definition chunk_holds :: "level_data \<Rightarrow> nat \<Rightarrow> nat \<Rightarrow> nat \<Rightarrow> nat \<Rightarrow> nat \<Rightarrow> nat \<Rightarrow> nat \<Rightarrow> nat \<Rightarrow> bytes \<Rightarrow> bool" where
  "chunk_holds level cx cy cz xi yi zi ti ci buf \<longleftrightarrow>
     length buf = cx * cy * cz * 2
     \<and> (\<forall>lz < cz. \<forall>ly < cy. \<forall>lx < cx.
          let p = ((lz * cy + ly) * cx + lx) * 2
          in le_nat [buf ! p, buf ! (p + 1)] =
               (if zi * cz + lz < ld_depth level \<and> yi * cy + ly < ld_height level \<and> xi * cx + lx < ld_width level
                then unat (sample level ti ci (zi * cz + lz) (yi * cy + ly) (xi * cx + lx)) else 0))"

lemma extract_chunk_samples:
  assumes "chunk_ok level cx cy cz xi yi zi ti ci"
  shows "\<exists>buf. extract_chunk level cx cy cz xi yi zi ti ci = Some buf \<and> chunk_holds level cx cy cz xi yi zi ti ci buf"
proof -
  note D = chunk_okD [OF assms]
  let ?cells = "chunk_cells level cx cy cz xi yi zi" and ?v = "chunk_value level cx cy cz xi yi zi ti ci"
  let ?buf = "fold (\<lambda>p out. out[chunk_pos cx cy p := ?v p]) ?cells (replicate (cx * cy * cz * 2) 0)"
  note pos = chunk_pos_less [OF D(3)]
  have "extract_chunk level cx cy cz xi yi zi ti ci = Some ?buf" by (rule extract_chunk_some [OF assms])
  moreover have "le_nat [?buf ! (((lz * cy + ly) * cx + lx) * 2), ?buf ! (((lz * cy + ly) * cx + lx) * 2 + 1)] =
      (if zi * cz + lz < ld_depth level \<and> yi * cy + ly < ld_height level \<and> xi * cx + lx < ld_width level
       then unat (sample level ti ci (zi * cz + lz) (yi * cy + ly) (xi * cx + lx)) else 0)"
    if r: "lz < cz" "ly < cy" "lx < cx" for lz ly lx
  proof -
    have byte: "?buf ! chunk_pos cx cy (lz, ly, lx, b) =
        (if (lz, ly, lx, b) \<in> set ?cells then ?v (lz, ly, lx, b) else 0)" if b: "b < 2" for b
    proof (cases "(lz, ly, lx, b) \<in> set ?cells")
      case True
      have "distinct ?cells" by (simp add: chunk_cells_def distinct_product)
      with True show ?thesis using pos [OF r b] by (simp add: scatter_at [OF _ chunk_pos_inj])
    next
      case False
      have "chunk_pos cx cy (lz, ly, lx, b) \<notin> chunk_pos cx cy ` set ?cells"
      proof
        assume "chunk_pos cx cy (lz, ly, lx, b) \<in> chunk_pos cx cy ` set ?cells"
        then obtain lz' ly' lx' b' where q: "(lz', ly', lx', b') \<in> set ?cells"
          "chunk_pos cx cy (lz, ly, lx, b) = chunk_pos cx cy (lz', ly', lx', b')" by auto
        from q(1) have r': "ly' < cy" "lx' < cx" "b' < 2" by (simp_all add: chunk_cells_iff)
        from q(2) have "((lz * cy + ly) * cx + lx) * 2 + b = ((lz' * cy + ly') * cx + lx') * 2 + b'"
          by (simp only: chunk_pos_def prod.case)
        from mixed_radix_inj [OF b r'(3) this] have "(lz * cy + ly) * cx + lx = (lz' * cy + ly') * cx + lx'" "b = b'" by blast+
        with mixed_radix_inj [OF r(3) r'(2)] mixed_radix_inj [OF r(2) r'(1)] q(1) False show False by blast
      qed
      with False pos [OF r b] show ?thesis by (simp add: scatter_other)
    qed
    have "chunk_pos cx cy (lz, ly, lx, 0) = ((lz * cy + ly) * cx + lx) * 2" "chunk_pos cx cy (lz, ly, lx, 1) = ((lz * cy + ly) * cx + lx) * 2 + 1"
      by (simp_all add: chunk_pos_def)
    with byte [of 0] byte [of 1] r voxel_bytes show ?thesis by (simp add: chunk_cells_iff chunk_value_def del: le_nat.simps split: if_splits) (simp add: le_nat.simps)
  qed
  ultimately show ?thesis by (intro exI [of _ ?buf]) (simp add: chunk_holds_def Let_def)
qed

section \<open>Planes past the first four billion samples\<close>

lemma for_each_nil: "for_each f [] = Some"
  by (rule ext) simp

text \<open>The offset of a plane wraps at \<open>2 ^ 32\<close> samples: in a level of 2048 by 2048 samples, the
  chunk written for plane 1024 holds the samples of plane 0.\<close>
theorem plane_offset_wraps:
  assumes "level_sized level" "ld_width level = 2048" "ld_height level = 2048" "1024 < ld_depth level"
    "ti < ld_timepoints level" "ci < ld_channels level" "cx * cy * 2 < 2 ^ 32" "xi * cx < 2048" "yi * cy < 2048"
  shows "\<exists>buf. extract_chunk level cx cy 1 xi yi 1024 ti ci = Some buf \<and> chunk_holds level cx cy 1 xi yi 0 ti ci buf"
proof -
  have "chunk_ok level cx cy 1 xi yi 0 ti ci" using assms by (simp add: chunk_ok_def)
  from extract_chunk_samples [OF this] obtain buf where
    buf: "extract_chunk level cx cy 1 xi yi 0 ti ci = Some buf" "chunk_holds level cx cy 1 xi yi 0 ti ci buf" by blast
  have "extract_chunk level cx cy 1 xi yi 1024 ti ci = extract_chunk level cx cy 1 xi yi 0 ti ci"
  proof -
    have "u32_mul 1024 1 = 1024" "u32_mul 0 1 = 0" "u32_add 1024 0 = 1024" "u32_add 0 0 = 0"
      "u32_mul (u32_mul 1024 2048) 2048 = 0" "u32_mul (u32_mul 0 2048) 2048 = 0"
      by (simp_all add: u32_mul_def u32_add_def)
    with assms(2-4) show ?thesis by (simp add: extract_chunk_def Let_def for_each_nil)
  qed
  with buf show ?thesis by simp
qed

definition deep_level :: level_data where
  "deep_level = \<lparr>ld_data = replicate (1024 * (2048 * 2048)) 7 @ replicate (2048 * 2048) 9, ld_width = 2048, ld_height = 2048,
     ld_depth = 1025, ld_channels = 1, ld_timepoints = 1\<rparr>"

theorem plane_offset_wraps_witness:
  "\<exists>buf. extract_chunk deep_level 1 1 1 0 0 1024 0 0 = Some buf \<and> le_nat [buf ! 0, buf ! 1] = 7 \<and> sample deep_level 0 0 1024 0 0 = 9"
proof -
  have "level_sized deep_level" by (simp add: level_sized_def deep_level_def)
  then obtain buf where buf: "extract_chunk deep_level 1 1 1 0 0 1024 0 0 = Some buf" "chunk_holds deep_level 1 1 1 0 0 0 0 0 buf"
    using plane_offset_wraps [of deep_level 0 0 1 1 0 0] by (auto simp: deep_level_def)
  have "le_nat [buf ! 0, buf ! 1] = unat (sample deep_level 0 0 0 0 0)"
    using buf(2) [unfolded chunk_holds_def Let_def] by (simp add: deep_level_def)
  moreover have "sample deep_level 0 0 0 0 0 = 7" "sample deep_level 0 0 1024 0 0 = 9"
    by (simp_all add: sample_def deep_level_def nth_append)
  ultimately show ?thesis using buf(1) by auto
qed

end
