(* ===== verification/Codec.thy ===== *)
theory Codec
  imports Text Bytes
begin

text \<open>
  Storage codecs (\<^verbatim>\<open>lucida-store/src/codec.rs\<close>, \<^verbatim>\<open>backend.rs\<close>): the compression of a level
  and the validation of a Zarr codec chain. JSON values are a parameter: a record of the
  accessors the code calls on \<^verbatim>\<open>serde_json::Value\<close>.
\<close>

record 'j json_api =
  js_get :: "'j \<Rightarrow> string \<Rightarrow> 'j option"
  js_str :: "'j \<Rightarrow> string option"
  js_array :: "'j \<Rightarrow> 'j list option"
  js_u64 :: "'j \<Rightarrow> nat option"
  js_show :: "'j \<Rightarrow> string"
  fmt_debug :: "string list \<Rightarrow> string"

section \<open>Errors\<close>

datatype 'e store_error =
    UnsupportedScheme string
  | ObjectStore 'e
  | Metadata string

definition in_context :: "string \<Rightarrow> 'e store_error \<Rightarrow> 'e store_error" where
  "in_context context e = (case e of Metadata message \<Rightarrow> Metadata (context @ '': '' @ message) | other \<Rightarrow> other)"

section \<open>Compression\<close>

datatype blosc_compressor = ZstdCompressor

datatype blosc_shuffle = NoShuffle | ByteShuffle | BitShuffle

record blosc_config =
  bc_typesize :: u8
  bc_cname :: blosc_compressor
  bc_shuffle :: blosc_shuffle

datatype storage_compression = Uncompressed | Lz4 | Zstd | Blosc blosc_config

text \<open>\<^verbatim>\<open>v.get(key).and_then(|x| x.as_str())\<close>\<close>

definition str_field :: "'j json_api \<Rightarrow> 'j \<Rightarrow> string \<Rightarrow> string option" where
  "str_field J v key = Option.bind (js_get J v key) (js_str J)"

definition parse_cname :: "string \<Rightarrow> 'e store_error + blosc_compressor" where
  "parse_cname cname =
     (if cname = ''zstd'' then Inr ZstdCompressor
      else Inl (Metadata (''blosc cname '' @ quoted cname @ '' not supported (only '' @ quoted ''zstd'' @ '')'')))"

definition parse_shuffle :: "string \<Rightarrow> 'e store_error + blosc_shuffle" where
  "parse_shuffle s =
     (if s = ''noshuffle'' then Inr NoShuffle
      else if s = ''shuffle'' then Inr ByteShuffle
      else if s = ''bitshuffle'' then Inr BitShuffle
      else Inl (Metadata (''blosc shuffle '' @ quoted s @ '' not supported (use noshuffle, shuffle, or bitshuffle)'')))"

definition parse_typesize :: "nat \<Rightarrow> 'e store_error + u8" where
  "parse_typesize n =
     (if n = 1 \<or> n = 2 \<or> n = 4 then Inr (of_nat n)
      else Inl (Metadata (''blosc typesize '' @ show_nat n @ '' not supported (only 1, 2, or 4)'')))"

definition parse_blosc_config :: "'j json_api \<Rightarrow> 'j \<Rightarrow> 'e store_error + blosc_config" where
  "parse_blosc_config J cfg =
     res_bind (ok_or (Metadata (''blosc configuration missing '' @ quoted ''cname'' @ '' field'')) (str_field J cfg ''cname'')) (\<lambda>cname.
     res_bind (ok_or (Metadata (''blosc configuration missing '' @ quoted ''shuffle'' @ '' field'')) (str_field J cfg ''shuffle'')) (\<lambda>shuffle_str.
     res_bind (ok_or (Metadata (''blosc configuration missing '' @ quoted ''typesize'' @ '' field''))
                 (Option.bind (js_get J cfg ''typesize'') (js_u64 J))) (\<lambda>typesize_raw.
     res_bind (parse_cname cname) (\<lambda>cn.
     res_bind (parse_shuffle shuffle_str) (\<lambda>sh.
     res_bind (parse_typesize typesize_raw) (\<lambda>ts.
       Inr \<lparr>bc_typesize = ts, bc_cname = cn, bc_shuffle = sh\<rparr>))))))"

definition parse_bytes_codec :: "'j json_api \<Rightarrow> 'j \<Rightarrow> 'e store_error + unit" where
  "parse_bytes_codec J first =
     res_bind (ok_or (Metadata (''first storage codec missing '' @ quoted ''name'' @ '' field (expected '' @ quoted ''bytes'' @ '')'')) (str_field J first ''name''))
       (\<lambda>first_name.
     if first_name \<noteq> ''bytes'' then Inl (Metadata (''first storage codec must be '' @ quoted ''bytes'' @ '', got '' @ quoted first_name))
     else
     res_bind (ok_or (Metadata (''bytes codec missing '' @ quoted ''configuration'' @ '' object (need endian: little)''))
                 (js_get J first ''configuration'')) (\<lambda>first_config.
     res_bind (ok_or (Metadata (''bytes codec missing '' @ quoted ''endian'' @ '' configuration'')) (str_field J first_config ''endian''))
       (\<lambda>endian.
     if endian \<noteq> ''little'' then Inl (Metadata (''bytes codec endian must be '' @ quoted ''little'' @ '', got '' @ quoted endian)) else Inr ())))"

definition parse_compressor :: "'j json_api \<Rightarrow> 'j \<Rightarrow> 'e store_error + storage_compression" where
  "parse_compressor J second =
     res_bind (ok_or (Metadata (''second storage codec missing '' @ quoted ''name'' @ '' field (expected lz4/zstd/blosc)''))
                 (str_field J second ''name'')) (\<lambda>second_name.
     if second_name = ''lz4'' \<or> second_name = ''numcodecs/lz4'' then Inr Lz4
     else if second_name = ''zstd'' \<or> second_name = ''numcodecs/zstd'' then Inr Zstd
     else if second_name = ''blosc'' then
       res_bind (ok_or (Metadata (''blosc codec missing '' @ quoted ''configuration'' @ '' object (need cname/shuffle/typesize)''))
                   (js_get J second ''configuration'')) (\<lambda>cfg.
       res_map Blosc (parse_blosc_config J cfg))
     else Inl (Metadata (''unsupported codec '' @ quoted second_name @ '' in storage chain (supported: lz4, zstd, blosc)'')))"

definition parse_codec_chain :: "'j json_api \<Rightarrow> 'j list \<Rightarrow> 'e store_error + storage_compression" where
  "parse_codec_chain J codecs =
     (case codecs of
        [] \<Rightarrow> Inl (Metadata ''storage codec chain is empty (expected [bytes] or [bytes, compressor])'')
      | first # rest \<Rightarrow>
          if length codecs > 2 then
            Inl (Metadata (''storage codec chain too long: got '' @ show_nat (length codecs)
                           @ '' codecs (expected 1 or 2)''))
          else res_bind (parse_bytes_codec J first) (\<lambda>_.
            case rest of
              [] \<Rightarrow> Inr Uncompressed
            | second # _ \<Rightarrow> parse_compressor J second))"

text \<open>What an accepted chain promises the decoder.\<close>

definition compression_ok :: "storage_compression \<Rightarrow> bool" where
  "compression_ok c = (case c of Blosc cfg \<Rightarrow> unat (bc_typesize cfg) \<in> {1, 2, 4} | _ \<Rightarrow> True)"

lemma parse_typesize_ok: "parse_typesize n = Inr ts \<Longrightarrow> unat ts = n \<and> n \<in> {1, 2, 4}"
  by (auto simp: parse_typesize_def split: if_splits)

lemma res_bind_Inr: "res_bind r f = Inr b \<longleftrightarrow> (\<exists>a. r = Inr a \<and> f a = Inr b)"
  by (cases r) auto

lemma res_map_Inr: "res_map f r = Inr b \<longleftrightarrow> (\<exists>a. r = Inr a \<and> f a = b)"
  by (cases r) auto

lemma parse_blosc_config_ok: "parse_blosc_config J cfg = Inr c \<Longrightarrow> unat (bc_typesize c) \<in> {1, 2, 4}"
  by (auto simp: parse_blosc_config_def res_bind_Inr dest: parse_typesize_ok)

lemma parse_codec_chain_ok:
  assumes "parse_codec_chain J codecs = (Inr c :: 'b store_error + _)"
  shows "compression_ok c"
proof -
  have "c \<in> {Lz4, Zstd} \<or> (\<exists>cfg b. c = Blosc b \<and> parse_blosc_config J cfg = (Inr b :: 'b store_error + _))"
    if "parse_compressor J second = (Inr c :: 'b store_error + _)" for second
    using that by (auto simp: parse_compressor_def res_bind_Inr res_map_Inr split: if_splits)
  then have "compression_ok c" if "parse_compressor J second = (Inr c :: 'b store_error + _)" for second
    using that parse_blosc_config_ok by (fastforce simp: compression_ok_def)
  with assms show ?thesis
    by (auto simp: parse_codec_chain_def res_bind_Inr compression_ok_def split: list.splits if_splits)
qed

end
