(* ===== verification/Blosc.thy ===== *)
theory Blosc
  imports Codec
begin

text \<open>
  The Blosc1 decoder (\<^verbatim>\<open>lucida-server/src/decode/blosc.rs\<close>): the header checks, the block
  loop and the two unshuffle filters. The zstd decompressor is a parameter that returns
  the bytes or its error message. \<open>None\<close> is a panic, which is proved not to happen; on a
  64-bit target every sum below stays far under the word size, since each summand is a
  \<^verbatim>\<open>u32\<close>.
\<close>

datatype blosc_error =
    HeaderTruncated nat
  | UnsupportedVersion u8
  | TypesizeMismatch u8 u8
  | ShuffleMismatch u8 blosc_shuffle
  | UnsupportedCompressor u8
  | InputTruncated string nat nat
  | ZstdDecode nat string
  | BlockSizeMismatch nat nat nat
  | NotElementAligned nat nat

definition FLAG_BYTE_SHUFFLE :: u8 where "FLAG_BYTE_SHUFFLE = 0x01"
definition FLAG_MEMCPYED :: u8 where "FLAG_MEMCPYED = 0x02"
definition FLAG_BIT_SHUFFLE :: u8 where "FLAG_BIT_SHUFFLE = 0x04"
definition COMPRESSOR_CODE_ZSTD :: u8 where "COMPRESSOR_CODE_ZSTD = 4"

section \<open>Filters\<close>

definition byte_unshuffle :: "bytes \<Rightarrow> nat \<Rightarrow> bytes option" where
  "byte_unshuffle input typesize =
     (if typesize \<le> 1 then Some input
      else let n = length input div typesize
           in Option.bind
                (for_each (\<lambda>j. for_each (\<lambda>i out.
                   Option.bind (index_at input (j * n + i)) (\<lambda>v. store_at (i * typesize + j) v out)) [0..<n])
                   [0..<typesize] (replicate (length input) 0))
                (\<lambda>out. Some (take (n * typesize) out @ drop (n * typesize) input)))"

text \<open>The inner loop: gather the eight bits of one output byte.\<close>

definition gather_bits :: "bytes \<Rightarrow> nat \<Rightarrow> nat \<Rightarrow> nat \<Rightarrow> u8 option" where
  "gather_bits input plane_offset row_bytes i =
     for_each (\<lambda>b val. Option.bind (index_at input (plane_offset + b * row_bytes + i div 8)) (\<lambda>src.
       Some (val OR push_bit b (drop_bit (i mod 8) src AND 1)))) [0..<8] 0"

definition bit_unshuffle :: "bytes \<Rightarrow> nat \<Rightarrow> bytes option" where
  "bit_unshuffle input typesize =
     (if typesize = 0 \<or> input = [] then Some input
      else let n_elements = length input div typesize;
               aligned = n_elements div 8 * 8;
               row_bytes = aligned div 8
           in Option.bind
                (for_each (\<lambda>w. for_each (\<lambda>i out.
                   Option.bind (gather_bits input (w * aligned) row_bytes i) (\<lambda>v. store_at (i * typesize + w) v out))
                   [0..<aligned]) [0..<typesize] (replicate (length input) 0))
                (\<lambda>out. Some (take (typesize * aligned) out @ drop (typesize * aligned) input)))"

definition unshuffle_block :: "blosc_shuffle \<Rightarrow> bytes \<Rightarrow> nat \<Rightarrow> bytes option" where
  "unshuffle_block shuffle block typesize =
     (if typesize = 0 \<or> shuffle = NoShuffle then Some block
      else let byte_aligned = length block mod typesize = 0
           in case shuffle of
                ByteShuffle \<Rightarrow>
                  if typesize = 1 then Some block
                  else if byte_aligned then byte_unshuffle block typesize else Some block
              | BitShuffle \<Rightarrow>
                  if byte_aligned \<and> length block div typesize mod 8 = 0 then bit_unshuffle block typesize
                  else Some block
              | NoShuffle \<Rightarrow> Some block)"

section \<open>The decoder\<close>

record blosc_header =
  bh_flags :: u8
  bh_typesize :: u8
  bh_nbytes :: nat
  bh_blocksize :: nat

text \<open>The header fields and the cross-checks against the configuration.\<close>

definition header_shuffle :: "u8 \<Rightarrow> blosc_shuffle option" where
  "header_shuffle flags =
     (let bits = flags AND (FLAG_BYTE_SHUFFLE OR FLAG_BIT_SHUFFLE)
      in if bits = 0 then Some NoShuffle
         else if bits = FLAG_BYTE_SHUFFLE then Some ByteShuffle
         else if bits = FLAG_BIT_SHUFFLE then Some BitShuffle
         else None)"

definition check_header :: "bytes \<Rightarrow> blosc_config \<Rightarrow> blosc_error + blosc_header" where
  "check_header input config =
     (if length input < 16 then Inl (HeaderTruncated (length input))
      else if input ! 0 \<noteq> 2 then Inl (UnsupportedVersion (input ! 0))
      else
        let flags = input ! 2; typesize = input ! 3;
            nbytes = le_nat [input ! 4, input ! 5, input ! 6, input ! 7];
            blocksize = le_nat [input ! 8, input ! 9, input ! 10, input ! 11]
        in if typesize \<noteq> bc_typesize config then Inl (TypesizeMismatch typesize (bc_typesize config))
           else if header_shuffle flags \<noteq> Some (bc_shuffle config) then Inl (ShuffleMismatch flags (bc_shuffle config))
           else if drop_bit 5 (flags AND 0xE0) \<noteq> COMPRESSOR_CODE_ZSTD
           then Inl (UnsupportedCompressor (drop_bit 5 (flags AND 0xE0)))
           else Inr \<lparr>bh_flags = flags, bh_typesize = typesize, bh_nbytes = nbytes, bh_blocksize = blocksize\<rparr>)"

type_synonym zstd = "bytes \<Rightarrow> string + bytes"

definition decode_block :: "zstd \<Rightarrow> bytes \<Rightarrow> blosc_shuffle \<Rightarrow> blosc_header \<Rightarrow> nat \<Rightarrow> nat \<Rightarrow> (blosc_error + bytes) option" where
  "decode_block zstd input shuffle h b done_len =
     Option.bind (u32_at input (16 + b * 4)) (\<lambda>block_offset.
     if length input < block_offset + 4
     then Some (Inl (InputTruncated ''block compressed-length'' (block_offset + 4) (length input)))
     else Option.bind (u32_at input block_offset) (\<lambda>compressed_len.
       let payload_start = block_offset + 4; payload_end = payload_start + compressed_len
       in if length input < payload_end
          then Some (Inl (InputTruncated ''block payload'' payload_end (length input)))
          else Option.bind (checked_sub (bh_nbytes h) done_len) (\<lambda>remaining.
            let size = min (bh_blocksize h) remaining
            in Option.bind (slice_of input payload_start payload_end) (\<lambda>payload.
                 case (if compressed_len = size then Inr payload else res_map_err (ZstdDecode b) (zstd payload)) of
                   Inl e \<Rightarrow> Some (Inl e)
                 | Inr block_bytes \<Rightarrow>
                     if length block_bytes \<noteq> size
                     then Some (Inl (BlockSizeMismatch b (length block_bytes) size))
                     else map_option Inr (unshuffle_block shuffle block_bytes (unat (bh_typesize h)))))))"

fun decode_blocks :: "zstd \<Rightarrow> bytes \<Rightarrow> blosc_shuffle \<Rightarrow> blosc_header \<Rightarrow> nat list \<Rightarrow> bytes \<Rightarrow> (blosc_error + bytes) option" where
  "decode_blocks zstd input shuffle h [] acc = Some (Inr acc)"
| "decode_blocks zstd input shuffle h (b # bs) acc =
     Option.bind (decode_block zstd input shuffle h b (length acc)) (\<lambda>r.
       case r of Inl e \<Rightarrow> Some (Inl e) | Inr block \<Rightarrow> decode_blocks zstd input shuffle h bs (acc @ block))"

definition div_ceil :: "nat \<Rightarrow> nat \<Rightarrow> nat" where
  "div_ceil a b = (a + (b - 1)) div b"

definition decode_blosc :: "zstd \<Rightarrow> bytes \<Rightarrow> blosc_config \<Rightarrow> (blosc_error + bytes) option" where
  "decode_blosc zstd input config =
     (case check_header input config of
        Inl e \<Rightarrow> Some (Inl e)
      | Inr h \<Rightarrow>
          let nbytes = bh_nbytes h; blocksize = bh_blocksize h; typesize = unat (bh_typesize h)
          in if bh_flags h AND FLAG_MEMCPYED \<noteq> 0 then
               (let need = 16 + nbytes
                in if length input < need then Some (Inl (InputTruncated ''memcpy payload'' need (length input)))
                   else map_option Inr (slice_of input 16 need))
             else if blocksize = 0 then Some (Inl (InputTruncated ''blocksize'' 1 0))
             else
               let nblocks = div_ceil nbytes blocksize; offsets_end = 16 + nblocks * 4
               in if length input < offsets_end
                  then Some (Inl (InputTruncated ''offsets table'' offsets_end (length input)))
                  else if typesize \<noteq> 0 \<and> nbytes mod typesize \<noteq> 0 then Some (Inl (NotElementAligned nbytes typesize))
                  else decode_blocks zstd input (bc_shuffle config) h [0..<nblocks] [])"

section \<open>The filters undo the shuffles\<close>

lemma scatter_loop:
  assumes "\<And>x y. x < a \<Longrightarrow> y < b \<Longrightarrow> g x y = Some (v x y) \<and> p x y < length out"
    and inj: "\<And>x y x' y'. x < a \<Longrightarrow> y < b \<Longrightarrow> x' < a \<Longrightarrow> y' < b \<Longrightarrow> p x y = p x' y' \<Longrightarrow> x = x' \<and> y = y'"
  shows "\<exists>res. for_each (\<lambda>x. for_each (\<lambda>y out. Option.bind (g x y) (\<lambda>w. store_at (p x y) w out)) [0..<b]) [0..<a] out = Some res
    \<and> length res = length out \<and> (\<forall>x < a. \<forall>y < b. res ! p x y = v x y)"
proof -
  let ?xs = "List.product [0..<a] [0..<b]"
  let ?p = "\<lambda>q. p (fst q) (snd q)" and ?v = "\<lambda>q. v (fst q) (snd q)"
  let ?res = "fold (\<lambda>q out. out[?p q := ?v q]) ?xs out"
  have "for_each (\<lambda>x. for_each (\<lambda>y out. Option.bind (g x y) (\<lambda>w. store_at (p x y) w out)) [0..<b]) [0..<a] out
      = for_each (\<lambda>q out. Option.bind (g (fst q) (snd q)) (\<lambda>w. store_at (?p q) w out)) ?xs out"
    using for_each_nested [of "\<lambda>q out. Option.bind (g (fst q) (snd q)) (\<lambda>w. store_at (?p q) w out)"] by simp
  also have "\<dots> = Some ?res"
    using assms(1) by (intro for_each_fold [where I = "\<lambda>ys. length ys = length out", THEN conjunct1]) (auto simp: store_at_def)
  finally have run: "for_each (\<lambda>x. for_each (\<lambda>y out. Option.bind (g x y) (\<lambda>w. store_at (p x y) w out)) [0..<b]) [0..<a] out
      = Some ?res" .
  have "?res ! p x y = v x y" if "x < a" "y < b" for x y
    using scatter_at [of ?xs ?p "(x, y)" out ?v] that assms inj
    by (auto simp: distinct_product inj_on_def)
  with run show ?thesis by auto
qed

lemma byte_unshuffle_spec:
  fixes input :: bytes
  assumes "1 < ts"
  defines "n \<equiv> length input div ts"
  shows "byte_unshuffle input ts =
    Some (map (\<lambda>k. input ! (k mod ts * n + k div ts)) [0..<n * ts] @ drop (n * ts) input)"
proof -
  have le: "n * ts \<le> length input" by (simp add: n_def div_times_less_eq_dividend)
  have idx: "j * n + i < length input" "i * ts + j < length input" if "j < ts" "i < n" for i j
    using mixed_radix_less [of j ts i n] mixed_radix_less [of i n j ts] that le by (auto simp: mult.commute)
  have inj: "j = j' \<and> i = i'" if "j < ts" "i < n" "j' < ts" "i' < n" "i * ts + j = i' * ts + j'" for j i j' i'
    using mixed_radix_inj [OF that(1,3,5)] by simp
  let ?loop = "for_each (\<lambda>j. for_each (\<lambda>i out.
      Option.bind (index_at input (j * n + i)) (\<lambda>v. store_at (i * ts + j) v out)) [0..<n])
      [0..<ts] (replicate (length input) 0)"
  have "\<exists>res. ?loop = Some res \<and> length res = length (replicate (length input) (0 :: u8))
      \<and> (\<forall>j < ts. \<forall>i < n. res ! (i * ts + j) = input ! (j * n + i))"
    by (rule scatter_loop) (use idx inj in \<open>simp_all add: index_at_def\<close>)
  then obtain res where res: "?loop = Some res" "length res = length input"
      "\<forall>j < ts. \<forall>i < n. res ! (i * ts + j) = input ! (j * n + i)"
    by auto
  have "take (n * ts) res = map (\<lambda>k. input ! (k mod ts * n + k div ts)) [0..<n * ts]"
  proof (rule nth_equalityI)
    fix k assume "k < length (take (n * ts) res)"
    then have k: "k < n * ts" by simp
    then have "k mod ts < ts" "k div ts < n" using assms(1) by (auto simp: less_mult_imp_div_less)
    with res(3) have "res ! (k div ts * ts + k mod ts) = input ! (k mod ts * n + k div ts)" by blast
    with k show "take (n * ts) res ! k = map (\<lambda>k. input ! (k mod ts * n + k div ts)) [0..<n * ts] ! k" by simp
  qed (use res(2) le in simp)
  with res(1) assms(1) show ?thesis by (simp add: byte_unshuffle_def Let_def n_def [symmetric])
qed

text \<open>The shuffle filter of the format: group \<open>j\<close> holds byte \<open>j\<close> of every element.\<close>

definition byte_shuffle :: "bytes \<Rightarrow> nat \<Rightarrow> bytes" where
  "byte_shuffle data ts =
     (let n = length data div ts
      in map (\<lambda>k. data ! (k mod n * ts + k div n)) [0..<ts * n] @ drop (n * ts) data)"

lemma byte_shuffle_length [simp]: "length (byte_shuffle data ts) = length data"
proof -
  have "length data div ts * ts \<le> length data" by (rule div_times_less_eq_dividend)
  then show ?thesis by (simp add: byte_shuffle_def Let_def mult.commute)
qed

lemma byte_unshuffle_shuffle:
  assumes "1 < ts"
  shows "byte_unshuffle (byte_shuffle data ts) ts = Some data"
proof -
  define n where "n = length data div ts"
  have le: "n * ts \<le> length data" by (simp add: n_def div_times_less_eq_dividend)
  let ?s = "byte_shuffle data ts"
  have s: "?s = map (\<lambda>k. data ! (k mod n * ts + k div n)) [0..<ts * n] @ drop (n * ts) data"
    by (simp add: byte_shuffle_def Let_def n_def)
  have "?s ! (k mod ts * n + k div ts) = data ! k" if "k < n * ts" for k
  proof -
    have kd: "k mod ts < ts" "k div ts < n" using that assms by (auto simp: less_mult_imp_div_less)
    note less = mixed_radix_less [OF kd]
    show ?thesis unfolding s using less mixed_radix [OF kd(2), of "k mod ts"] by (simp add: nth_append)
  qed
  then have "map (\<lambda>k. ?s ! (k mod ts * n + k div ts)) [0..<n * ts] = take (n * ts) data"
    using le by (intro nth_equalityI) auto
  moreover have "drop (n * ts) ?s = drop (n * ts) data" unfolding s by (simp add: mult.commute)
  ultimately show ?thesis
    using byte_unshuffle_spec [OF assms, of ?s] by (simp add: n_def [symmetric])
qed

lemma gather_bits_step:
  fixes val src :: u8
  assumes "b < 8" "\<And>k. bit val k \<longleftrightarrow> k < b \<and> P k"
  shows "bit (val OR push_bit b (drop_bit q src AND 1)) k \<longleftrightarrow> k < b \<and> P k \<or> k = b \<and> bit src q"
proof -
  have "bit (push_bit b (drop_bit q src AND 1)) k \<longleftrightarrow> k = b \<and> bit src q"
    using assms(1) by (auto simp: bit_push_bit_iff bit_and_iff bit_drop_bit_eq bit_1_iff bit_exp_iff dest: bit_imp_le_length)
  with assms(2) show ?thesis by (auto simp: bit_or_iff)
qed

lemma gather_bits_spec:
  assumes "\<And>b. b < 8 \<Longrightarrow> plane_offset + b * row_bytes + i div 8 < length input"
  shows "\<exists>val. gather_bits input plane_offset row_bytes i = Some val
    \<and> (\<forall>k. bit val k \<longleftrightarrow> k < 8 \<and> bit (input ! (plane_offset + k * row_bytes + i div 8)) (i mod 8))"
proof -
  let ?P = "\<lambda>k. bit (input ! (plane_offset + k * row_bytes + i div 8)) (i mod 8)"
  have "\<exists>val. for_each (\<lambda>b val. Option.bind (index_at input (plane_offset + b * row_bytes + i div 8)) (\<lambda>src.
       Some (val OR push_bit b (drop_bit (i mod 8) src AND 1)))) [0..<m] 0 = Some val
     \<and> (\<forall>k. bit val k \<longleftrightarrow> k < m \<and> ?P k)" if "m \<le> 8" for m
    using that
  proof (induction m)
    case (Suc m)
    then obtain val where val: "for_each (\<lambda>b val. Option.bind (index_at input (plane_offset + b * row_bytes + i div 8)) (\<lambda>src.
       Some (val OR push_bit b (drop_bit (i mod 8) src AND 1)))) [0..<m] 0 = Some val" "\<And>k. bit val k \<longleftrightarrow> k < m \<and> ?P k"
      by auto
    have "index_at input (plane_offset + m * row_bytes + i div 8) = Some (input ! (plane_offset + m * row_bytes + i div 8))"
      using assms [of m] Suc.prems by (simp add: index_at_def)
    moreover have "bit (val OR push_bit m (drop_bit (i mod 8) (input ! (plane_offset + m * row_bytes + i div 8)) AND 1)) k
        \<longleftrightarrow> k < Suc m \<and> ?P k" for k
      using gather_bits_step [of m val ?P] Suc.prems val(2) by (auto simp: less_Suc_eq)
    ultimately show ?case using val(1) by (simp add: for_each_append)
  qed simp
  from this [of 8] show ?thesis by (simp add: gather_bits_def)
qed

text \<open>The bit-shuffle filter of the format, on the elements that come in eights.\<close>

definition byte_of :: "(nat \<Rightarrow> bool) \<Rightarrow> u8" where
  "byte_of P = horner_sum of_bool 2 (map P [0..<8])"

lemma bit_byte_of [simp]: "bit (byte_of P) k \<longleftrightarrow> k < 8 \<and> P k"
  by (auto simp: byte_of_def bit_horner_sum_bit_word_iff)

definition bit_shuffle :: "bytes \<Rightarrow> nat \<Rightarrow> bytes" where
  "bit_shuffle data ts =
     (let aligned = length data div ts div 8 * 8; row = aligned div 8
      in map (\<lambda>k. byte_of (\<lambda>q. bit (data ! ((k mod aligned mod row * 8 + q) * ts + k div aligned)) (k mod aligned div row)))
           [0..<ts * aligned] @ drop (ts * aligned) data)"

lemma aligned_le: "ts * (len div ts div 8 * 8) \<le> (len :: nat)"
proof -
  have "ts * (len div ts div 8 * 8) \<le> ts * (len div ts)" by (intro mult_le_mono2 div_times_less_eq_dividend)
  also have "\<dots> \<le> len" by (rule times_div_less_eq_dividend)
  finally show ?thesis .
qed

lemma bit_shuffle_length [simp]: "length (bit_shuffle data ts) = length data"
  using aligned_le [of ts "length data"] by (simp add: bit_shuffle_def Let_def)

lemma plane_index:
  fixes A row :: nat
  assumes "A = 8 * row" "b < 8" "i < A" "w < ts"
  shows "w * A + b * row + i div 8 < ts * A" "(w * A + b * row + i div 8) div A = w"
    "(w * A + b * row + i div 8) mod A mod row = i div 8" "(w * A + b * row + i div 8) mod A div row = b"
proof -
  have r: "i div 8 < row" using assms by simp
  then have in_plane: "b * row + i div 8 < A" using mixed_radix_less [OF assms(2) r] assms(1) by simp
  show "w * A + b * row + i div 8 < ts * A" using mixed_radix_less [OF assms(4) in_plane] by (simp add: add.assoc)
  have "(w * A + (b * row + i div 8)) div A = w" "(w * A + (b * row + i div 8)) mod A = b * row + i div 8"
    using mixed_radix [OF in_plane] by blast+
  then show "(w * A + b * row + i div 8) div A = w"
    "(w * A + b * row + i div 8) mod A mod row = i div 8" "(w * A + b * row + i div 8) mod A div row = b"
    using mixed_radix [OF r] by (simp_all add: add.assoc)
qed

lemma bit_unshuffle_loop:
  fixes input :: bytes
  assumes "0 < ts" and A: "A = length input div ts div 8 * 8"
    and gather: "\<And>w i. w < ts \<Longrightarrow> i < A \<Longrightarrow> gather_bits input (w * A) (A div 8) i = Some (v w i)"
  shows "\<exists>res. bit_unshuffle input ts = Some res \<and> length res = length input
    \<and> (\<forall>w < ts. \<forall>i < A. res ! (i * ts + w) = v w i) \<and> drop (ts * A) res = drop (ts * A) input"
proof (cases "input = []")
  case True
  with A show ?thesis by (simp add: bit_unshuffle_def)
next
  case False
  have le: "ts * A \<le> length input" unfolding A by (rule aligned_le)
  have less: "i * ts + w < ts * A" if "w < ts" "i < A" for w i
    using mixed_radix_less [OF that(2,1)] by (simp add: mult.commute)
  let ?loop = "for_each (\<lambda>w. for_each (\<lambda>i out. Option.bind (gather_bits input (w * A) (A div 8) i)
      (\<lambda>v. store_at (i * ts + w) v out)) [0..<A]) [0..<ts] (replicate (length input) 0)"
  obtain res where res: "?loop = Some res" "length res = length input" "\<forall>w < ts. \<forall>i < A. res ! (i * ts + w) = v w i"
    using scatter_loop [of ts A "\<lambda>w i. gather_bits input (w * A) (A div 8) i" v "\<lambda>w i. i * ts + w"
        "replicate (length input) 0"] gather less le
    by (fastforce dest: mixed_radix_inj)
  have "bit_unshuffle input ts = Some (take (ts * A) res @ drop (ts * A) input)"
    unfolding bit_unshuffle_def Let_def A [symmetric] using False assms(1) res(1) by simp
  moreover have "(take (ts * A) res @ drop (ts * A) input) ! (i * ts + w) = v w i" if "w < ts" "i < A" for w i
    using less [OF that] le res(2,3) that by (simp add: nth_append)
  ultimately show ?thesis using le res(2) by simp
qed

lemma bit_unshuffle_total:
  assumes "0 < ts"
  shows "\<exists>res. bit_unshuffle input ts = Some res \<and> length res = length input"
proof -
  define A where "A = length input div ts div 8 * 8"
  have "ts * A \<le> length input" unfolding A_def by (rule aligned_le)
  moreover have "A = 8 * (A div 8)" by (simp add: A_def)
  ultimately have "w * A + b * (A div 8) + i div 8 < length input" if "b < 8" "w < ts" "i < A" for w b i
    using plane_index(1) [of A "A div 8" b i w ts] that by simp
  then have "\<exists>val. gather_bits input (w * A) (A div 8) i = Some val" if "w < ts" "i < A" for w i
    using gather_bits_spec [of "w * A" "A div 8" i input] that by blast
  then have "gather_bits input (w * A) (A div 8) i = Some (the (gather_bits input (w * A) (A div 8) i))"
    if "w < ts" "i < A" for w i using that by fastforce
  from bit_unshuffle_loop [OF assms A_def this] show ?thesis by blast
qed

lemma bit_unshuffle_shuffle:
  assumes "0 < ts"
  shows "bit_unshuffle (bit_shuffle data ts) ts = Some data"
proof -
  define A where "A = length data div ts div 8 * 8"
  let ?row = "A div 8" and ?s = "bit_shuffle data ts"
  have A8: "A = 8 * ?row" by (simp add: A_def)
  have le: "ts * A \<le> length data" unfolding A_def by (rule aligned_le)
  have s: "?s = map (\<lambda>k. byte_of (\<lambda>q. bit (data ! ((k mod A mod ?row * 8 + q) * ts + k div A)) (k mod A div ?row)))
      [0..<ts * A] @ drop (ts * A) data"
    by (simp add: bit_shuffle_def Let_def A_def)
  have plane: "bit (?s ! (w * A + b * ?row + i div 8)) (i mod 8) \<longleftrightarrow> bit (data ! (i * ts + w)) b"
    if "b < 8" "w < ts" "i < A" for b w i
  proof -
    note ix = plane_index [OF A8 that(1,3,2)]
    have "?s ! (w * A + b * ?row + i div 8) = byte_of (\<lambda>q. bit (data ! ((i div 8 * 8 + q) * ts + w)) b)"
      unfolding s using ix by (simp add: nth_append)
    then show ?thesis by simp
  qed
  have "gather_bits ?s (w * A) ?row i = Some (data ! (i * ts + w))" if "w < ts" "i < A" for w i
  proof -
    have "w * A + b * ?row + i div 8 < length ?s" if "b < 8" for b
      using plane_index(1) [OF A8 that \<open>i < A\<close> \<open>w < ts\<close>] le by simp
    then obtain val where val: "gather_bits ?s (w * A) ?row i = Some val"
        "\<And>k. bit val k \<longleftrightarrow> k < 8 \<and> bit (?s ! (w * A + k * ?row + i div 8)) (i mod 8)"
      using gather_bits_spec [of "w * A" ?row i ?s] by blast
    have "val = data ! (i * ts + w)"
      by (rule bit_eqI) (use val(2) plane that in \<open>auto dest: bit_imp_le_length\<close>)
    with val(1) show ?thesis by simp
  qed
  from bit_unshuffle_loop [OF assms _ this] obtain res where res: "bit_unshuffle ?s ts = Some res" "length res = length data"
      "\<forall>w < ts. \<forall>i < A. res ! (i * ts + w) = data ! (i * ts + w)" "drop (ts * A) res = drop (ts * A) ?s"
    by (auto simp: A_def)
  have "take (ts * A) res = take (ts * A) data"
  proof (rule nth_equalityI)
    fix k assume "k < length (take (ts * A) res)"
    then have k: "k < ts * A" by simp
    then have "k mod ts < ts" "k div ts < A" using assms by (auto simp: less_mult_imp_div_less mult.commute)
    with res(3) have "res ! (k div ts * ts + k mod ts) = data ! (k div ts * ts + k mod ts)" by blast
    with k show "take (ts * A) res ! k = take (ts * A) data ! k" by simp
  qed (use res(2) in simp)
  moreover have "drop (ts * A) ?s = drop (ts * A) data" unfolding s by simp
  ultimately have "res = data" using res(4) by (metis append_take_drop_id)
  with res(1) show ?thesis by simp
qed

section \<open>The decoder never panics\<close>

lemma unshuffle_block_total: "\<exists>res. unshuffle_block shuffle block ts = Some res \<and> length res = length block"
proof -
  have "\<exists>res. byte_unshuffle block ts = Some res \<and> length res = length block"
    using byte_unshuffle_spec [of ts block] div_times_less_eq_dividend [of "length block" ts]
    by (cases "1 < ts") (auto simp: byte_unshuffle_def)
  with bit_unshuffle_total [of ts block] show ?thesis
    by (cases shuffle) (auto simp: unshuffle_block_def Let_def)
qed

lemma decode_block_total:
  assumes "16 + b * 4 + 4 \<le> length input" "done_len \<le> bh_nbytes h"
  shows "\<exists>r. decode_block zstd input shuffle h b done_len = Some r
    \<and> (\<forall>block. r = Inr block \<longrightarrow> length block = min (bh_blocksize h) (bh_nbytes h - done_len))"
proof -
  obtain off where off: "u32_at input (16 + b * 4) = Some off" using u32_at_Some assms(1) by blast
  show ?thesis
  proof (cases "length input < off + 4")
    case True
    with off show ?thesis by (simp add: decode_block_def)
  next
    case False
    then obtain clen where clen: "u32_at input off = Some clen" using u32_at_Some [of off input] by auto
    show ?thesis
    proof (cases "length input < off + 4 + clen")
      case True
      with off clen False show ?thesis by (simp add: decode_block_def Let_def)
    next
      case fits: False
      let ?size = "min (bh_blocksize h) (bh_nbytes h - done_len)"
      define payload where "payload = take clen (drop (off + 4) input)"
      define bytes where "bytes = (if clen = ?size then Inr payload else res_map_err (ZstdDecode b) (zstd payload))"
      have eq: "decode_block zstd input shuffle h b done_len =
          (case bytes of Inl e \<Rightarrow> Some (Inl e)
           | Inr bb \<Rightarrow> if length bb \<noteq> ?size then Some (Inl (BlockSizeMismatch b (length bb) ?size))
                      else map_option Inr (unshuffle_block shuffle bb (unat (bh_typesize h))))"
        using off clen False fits assms(2)
        by (simp add: decode_block_def Let_def slice_of_def checked_sub_def payload_def bytes_def)
      show ?thesis
      proof (cases bytes)
        case (Inr bb)
        with unshuffle_block_total [of shuffle bb "unat (bh_typesize h)"] show ?thesis unfolding eq by auto
      qed (simp add: eq)
    qed
  qed
qed

lemma div_ceil_bounds:
  assumes "0 < b"
  shows "a \<le> div_ceil a b * b" "k < div_ceil a b \<Longrightarrow> k * b < a"
proof -
  have "a + (b - 1) < (div_ceil a b + 1) * b"
    using assms dividend_less_times_div [of b "a + (b - 1)"] by (simp add: div_ceil_def algebra_simps)
  then show "a \<le> div_ceil a b * b" using assms by (simp add: algebra_simps)
  assume "k < div_ceil a b"
  then have "k + 1 \<le> (a + (b - 1)) div b" by (simp add: div_ceil_def)
  then have "(k + 1) * b \<le> a + (b - 1)" using assms less_eq_div_iff_mult_less_eq by blast
  then show "k * b < a" using assms by (simp add: algebra_simps)
qed

lemma decode_blocks_total:
  assumes "0 < bh_blocksize h" "16 + n * 4 \<le> length input" "n = div_ceil (bh_nbytes h) (bh_blocksize h)"
    "a \<le> n" "length acc = min (bh_nbytes h) (a * bh_blocksize h)"
  shows "\<exists>r. decode_blocks zstd input shuffle h [a..<n] acc = Some r \<and> (\<forall>out. r = Inr out \<longrightarrow> length out = bh_nbytes h)"
  using assms(4,5)
proof (induction "n - a" arbitrary: a acc)
  case 0
  then show ?case using div_ceil_bounds(1) [OF assms(1), of "bh_nbytes h"] assms(3) by simp
next
  case (Suc k)
  then have a: "a < n" by simp
  have pos: "a * bh_blocksize h < bh_nbytes h" using div_ceil_bounds(2) [OF assms(1)] a assms(3) by blast
  then have len: "length acc = a * bh_blocksize h" using Suc.prems by simp
  have "16 + a * 4 + 4 \<le> length input" using a assms(2) by simp
  from decode_block_total [OF this, of "length acc" h zstd shuffle] obtain r where
    r: "decode_block zstd input shuffle h a (length acc) = Some r"
      "\<And>block. r = Inr block \<Longrightarrow> length block = min (bh_blocksize h) (bh_nbytes h - length acc)"
    using Suc.prems by auto
  have upt: "[a..<n] = a # [Suc a..<n]" using a by (simp add: upt_conv_Cons)
  show ?case
  proof (cases r)
    case (Inl e)
    with r(1) show ?thesis unfolding upt by simp
  next
    case (Inr block)
    have "\<exists>r. decode_blocks zstd input shuffle h [Suc a..<n] (acc @ block) = Some r
        \<and> (\<forall>out. r = Inr out \<longrightarrow> length out = bh_nbytes h)"
      using Suc.hyps(2) a r(2) [OF Inr] len pos by (intro Suc.hyps(1)) (auto simp: min_def)
    with r(1) Inr show ?thesis unfolding upt by simp
  qed
qed

lemma decode_blosc_outcome:
  "\<exists>r. decode_blosc zstd input config = Some r
     \<and> (\<forall>out. r = Inr out \<longrightarrow> length out = le_nat [input ! 4, input ! 5, input ! 6, input ! 7])"
proof (cases "check_header input config")
  case (Inl e)
  then show ?thesis by (simp add: decode_blosc_def)
next
  case (Inr h)
  then have n: "bh_nbytes h = le_nat [input ! 4, input ! 5, input ! 6, input ! 7]"
    by (auto simp: check_header_def Let_def split: if_splits)
  show ?thesis
  proof (cases "bh_flags h AND FLAG_MEMCPYED = 0 \<and> bh_blocksize h \<noteq> 0
      \<and> \<not> length input < 16 + div_ceil (bh_nbytes h) (bh_blocksize h) * 4
      \<and> \<not> (unat (bh_typesize h) \<noteq> 0 \<and> bh_nbytes h mod unat (bh_typesize h) \<noteq> 0)")
    case True
    then have "decode_blosc zstd input config = decode_blocks zstd input (bc_shuffle config) h
        [0..<div_ceil (bh_nbytes h) (bh_blocksize h)] []"
      by (auto simp: decode_blosc_def Inr Let_def)
    moreover have "\<exists>r. decode_blocks zstd input (bc_shuffle config) h [0..<div_ceil (bh_nbytes h) (bh_blocksize h)] [] = Some r
        \<and> (\<forall>out. r = Inr out \<longrightarrow> length out = bh_nbytes h)"
      by (rule decode_blocks_total) (use True in auto)
    ultimately show ?thesis using n by metis
  next
    case False
    then show ?thesis using n by (auto simp: decode_blosc_def Inr Let_def slice_of_def)
  qed
qed

text \<open>
  C39: whatever bytes a chunk object holds, and whatever the zstd decompressor answers,
  the Blosc decoder never indexes out of bounds or underflows: it returns an error, or
  exactly as many bytes as the header declares.
\<close>
theorem decode_blosc_safe:
  "\<exists>r. decode_blosc zstd input config = Some r
     \<and> (case r of Inl e \<Rightarrow> True | Inr out \<Rightarrow> length out = le_nat [input ! 4, input ! 5, input ! 6, input ! 7])"
  using decode_blosc_outcome [of zstd input config] by (auto split: sum.splits)

section \<open>Round trip\<close>

text \<open>
  The frames of the Blosc1 format for zstd, written with any block compressor. The flag byte holds
  the compressor's code in its upper three bits, the bit that says blocks are not split, which zstd
  always sets, and the filter. The shuffle filter applies to a filter-aligned block only, a block that does not get
  smaller is stored raw, and the offsets table points at the length of each block, in whatever order the blocks
  were written. Data that does not get smaller as a whole is copied behind a header that says so.
\<close>

definition shuffle_block :: "blosc_shuffle \<Rightarrow> bytes \<Rightarrow> nat \<Rightarrow> bytes" where
  "shuffle_block sh block ts =
     (case sh of
        NoShuffle \<Rightarrow> block
      | ByteShuffle \<Rightarrow> if 1 < ts \<and> length block mod ts = 0 then byte_shuffle block ts else block
      | BitShuffle \<Rightarrow> if length block mod ts = 0 \<and> length block div ts mod 8 = 0 then bit_shuffle block ts else block)"

definition shuffle_flag :: "blosc_shuffle \<Rightarrow> u8" where
  "shuffle_flag sh = (case sh of NoShuffle \<Rightarrow> 0 | ByteShuffle \<Rightarrow> 0x01 | BitShuffle \<Rightarrow> 0x04)"

definition frame_block :: "bytes \<Rightarrow> nat \<Rightarrow> nat \<Rightarrow> bytes" where
  "frame_block data bs b = take bs (drop (b * bs) data)"

definition frame_payload :: "(bytes \<Rightarrow> bytes) \<Rightarrow> blosc_config \<Rightarrow> bytes \<Rightarrow> bytes" where
  "frame_payload compress cfg block =
     (let s = shuffle_block (bc_shuffle cfg) block (unat (bc_typesize cfg)); c = compress s
      in if length c < length s then c else s)"

definition frame_section :: "(bytes \<Rightarrow> bytes) \<Rightarrow> blosc_config \<Rightarrow> bytes \<Rightarrow> bytes" where
  "frame_section compress cfg block =
     le_bytes 4 (length (frame_payload compress cfg block)) @ frame_payload compress cfg block"

definition frame_sections :: "(bytes \<Rightarrow> bytes) \<Rightarrow> blosc_config \<Rightarrow> nat \<Rightarrow> bytes \<Rightarrow> nat \<Rightarrow> bytes" where
  "frame_sections compress cfg bs data b = concat (map (\<lambda>k. frame_section compress cfg (frame_block data bs k)) [0..<b])"

definition frame_flags :: "blosc_config \<Rightarrow> bool \<Rightarrow> u8" where
  "frame_flags cfg copied = 0x90 OR shuffle_flag (bc_shuffle cfg) OR (if copied then 0x02 else 0)"

definition frame_header :: "blosc_config \<Rightarrow> bool \<Rightarrow> nat \<Rightarrow> nat \<Rightarrow> nat \<Rightarrow> bytes" where
  "frame_header cfg copied nbytes bs cbytes =
     [2, 1, frame_flags cfg copied, bc_typesize cfg] @ le_bytes 4 nbytes @ le_bytes 4 bs @ le_bytes 4 cbytes"

definition is_block_frame :: "(bytes \<Rightarrow> bytes) \<Rightarrow> blosc_config \<Rightarrow> nat \<Rightarrow> bytes \<Rightarrow> bytes \<Rightarrow> bool" where
  "is_block_frame compress cfg bs data f \<longleftrightarrow>
     (\<exists>cbytes rest. f = frame_header cfg False (length data) bs cbytes @ rest \<and> 4 * div_ceil (length data) bs \<le> length rest)
     \<and> (\<forall>b < div_ceil (length data) bs. \<exists>T S R Z.
          f = T @ le_bytes 4 (length S) @ R \<and> length T = 16 + b * 4 \<and> length S < 2 ^ 32
          \<and> f = S @ frame_section compress cfg (frame_block data bs b) @ Z)"

definition is_copied_frame :: "blosc_config \<Rightarrow> nat \<Rightarrow> bytes \<Rightarrow> bytes \<Rightarrow> bool" where
  "is_copied_frame cfg bs data f \<longleftrightarrow> (\<exists>cbytes. f = frame_header cfg True (length data) bs cbytes @ data)"

text \<open>The frame with its blocks in order.\<close>

definition blosc_frame :: "(bytes \<Rightarrow> bytes) \<Rightarrow> blosc_config \<Rightarrow> nat \<Rightarrow> bytes \<Rightarrow> bytes" where
  "blosc_frame compress cfg bs data =
     (let n = div_ceil (length data) bs;
          offset = (\<lambda>b. 16 + 4 * n + length (frame_sections compress cfg bs data b))
      in frame_header cfg False (length data) bs (offset n)
         @ concat (map (\<lambda>b. le_bytes 4 (offset b)) [0..<n]) @ frame_sections compress cfg bs data n)"

lemma unshuffle_shuffle:
  assumes "0 < ts"
  shows "unshuffle_block sh (shuffle_block sh block ts) ts = Some block"
  using assms byte_unshuffle_shuffle [of ts block] bit_unshuffle_shuffle [of ts block]
  by (cases sh) (auto simp: unshuffle_block_def shuffle_block_def Let_def)

lemma shuffle_block_length [simp]: "length (shuffle_block sh block ts) = length block"
  by (cases sh) (auto simp: shuffle_block_def)

lemma frame_blocks: "concat (map (frame_block data bs) [0..<b]) = take (b * bs) data"
  by (induction b) (simp_all add: frame_block_def take_add [symmetric] add.commute)

lemma concat_split: "b < n \<Longrightarrow> concat (map f [0..<n]) = concat (map f [0..<b]) @ f b @ concat (map f [Suc b..<n])"
  by (metis (no_types, lifting) concat.simps(2) concat_append le_add_same_cancel1 less_imp_le_nat list.simps(9) map_append
      upt_add_eq_append upt_conv_Cons zero_le add_0 less_imp_add_positive)

lemma list_of_four: "length xs = 4 \<Longrightarrow> [xs ! 0, xs ! 1, xs ! 2, xs ! 3] = xs"
  by (auto simp: numeral_eq_Suc length_Suc_conv)

lemma header_ok:
  assumes "length data < 2 ^ 32" "bs < 2 ^ 32"
  shows "check_header (frame_header cfg copied (length data) bs c @ rest) cfg =
    Inr \<lparr>bh_flags = frame_flags cfg copied, bh_typesize = bc_typesize cfg, bh_nbytes = length data, bh_blocksize = bs\<rparr>"
proof -
  have four: "le_nat [le_bytes 4 n ! 0, le_bytes 4 n ! 1, le_bytes 4 n ! 2, le_bytes 4 n ! 3] = n" if "n < 2 ^ 32" for n
    using le_nat_bytes [of n 4] that list_of_four [of "le_bytes 4 n"] by simp
  have "header_shuffle (frame_flags cfg copied) = Some (bc_shuffle cfg)" "drop_bit 5 (frame_flags cfg copied AND 0xE0) = COMPRESSOR_CODE_ZSTD"
    by (cases "bc_shuffle cfg"; cases copied; simp add: header_shuffle_def frame_flags_def shuffle_flag_def FLAG_BYTE_SHUFFLE_def FLAG_BIT_SHUFFLE_def
        COMPRESSOR_CODE_ZSTD_def Let_def)+
  then show ?thesis
    using four [OF assms(1)] four [OF assms(2)]
    by (simp add: check_header_def frame_header_def Let_def nth_append)
qed

lemma table_length [simp]: "length (concat (map (\<lambda>k. le_bytes 4 (f k)) ks)) = 4 * length ks"
  by (induction ks) simp_all

lemma frame_header_length [simp]: "length (frame_header cfg copied a b c) = 16"
  by (simp add: frame_header_def)

lemma frame_block_length: "length (frame_block data bs b) = min bs (length data - b * bs)"
  by (simp add: frame_block_def)

text \<open>A frame around its \<open>b\<close>-th table entry, and around its \<open>b\<close>-th block.\<close>

lemma frame_around:
  assumes "b < div_ceil (length data) bs"
  defines "block \<equiv> frame_block data bs b"
  shows "\<exists>T S R Z. blosc_frame compress cfg bs data = T @ le_bytes 4 (length S) @ R \<and> length T = 16 + b * 4
    \<and> blosc_frame compress cfg bs data =
        S @ le_bytes 4 (length (frame_payload compress cfg block)) @ frame_payload compress cfg block @ Z"
proof -
  define n where "n = div_ceil (length data) bs"
  define sections where "sections = frame_sections compress cfg bs data"
  define offset where "offset b = 16 + 4 * n + length (sections b)" for b
  define H where "H = frame_header cfg False (length data) bs (offset n)"
  define tab where "tab k = le_bytes 4 (offset k)" for k
  have frame: "blosc_frame compress cfg bs data = H @ concat (map tab [0..<n]) @ sections n"
    by (simp add: blosc_frame_def Let_def n_def sections_def offset_def H_def tab_def [abs_def])
  have b: "b < n" using assms(1) by (simp add: n_def)
  have lenS: "length (H @ concat (map tab [0..<n]) @ sections b) = offset b"
    by (simp add: H_def tab_def [abs_def] offset_def)
  have "sections n = sections b @ frame_section compress cfg block @
      concat (map (\<lambda>k. frame_section compress cfg (frame_block data bs k)) [Suc b..<n])"
    unfolding sections_def frame_sections_def block_def by (rule concat_split [OF b])
  then have two: "blosc_frame compress cfg bs data = (H @ concat (map tab [0..<n]) @ sections b) @
      le_bytes 4 (length (frame_payload compress cfg block)) @ frame_payload compress cfg block @
      concat (map (\<lambda>k. frame_section compress cfg (frame_block data bs k)) [Suc b..<n])"
    by (simp add: frame frame_section_def)
  have one: "blosc_frame compress cfg bs data =
      (H @ concat (map tab [0..<b])) @ le_bytes 4 (offset b) @ concat (map tab [Suc b..<n]) @ sections n"
    unfolding frame concat_split [OF b, of tab] by (simp add: tab_def)
  have "length (H @ concat (map tab [0..<b])) = 16 + b * 4" by (simp add: H_def tab_def [abs_def])
  with one two lenS show ?thesis by metis
qed

lemma frame_payload_length: "length (frame_payload compress cfg block) \<le> length block"
  by (simp add: frame_payload_def Let_def)

lemma blosc_frame_is_frame:
  assumes "length (blosc_frame compress cfg bs data) < 2 ^ 32"
  shows "is_block_frame compress cfg bs data (blosc_frame compress cfg bs data)"
  unfolding is_block_frame_def
proof (intro conjI allI impI)
  show "\<exists>cbytes rest. blosc_frame compress cfg bs data = frame_header cfg False (length data) bs cbytes @ rest
      \<and> 4 * div_ceil (length data) bs \<le> length rest"
    unfolding blosc_frame_def Let_def by (intro exI conjI, rule refl) simp
next
  fix b
  assume "b < div_ceil (length data) bs"
  from frame_around [OF this, of compress cfg] obtain T S R Z where
    "blosc_frame compress cfg bs data = T @ le_bytes 4 (length S) @ R" "length T = 16 + b * 4"
    and S: "blosc_frame compress cfg bs data = S @ frame_section compress cfg (frame_block data bs b) @ Z"
    unfolding frame_section_def append_assoc by blast
  moreover have "length S < 2 ^ 32" using assms unfolding S by simp
  ultimately show "\<exists>T S R Z. blosc_frame compress cfg bs data = T @ le_bytes 4 (length S) @ R \<and> length T = 16 + b * 4 \<and> length S < 2 ^ 32
      \<and> blosc_frame compress cfg bs data = S @ frame_section compress cfg (frame_block data bs b) @ Z" by blast
qed

lemma frame_block_decodes:
  assumes zstd: "\<And>s. zstd (compress s) = Inr s"
    and cfg: "0 < unat (bc_typesize cfg)" and bs: "0 < bs"
    and frame: "is_block_frame compress cfg bs data f" and fits: "length data < 2 ^ 32"
    and h: "bh_nbytes h = length data" "bh_blocksize h = bs" "bh_typesize h = bc_typesize cfg"
    and b: "b < div_ceil (length data) bs"
  shows "decode_block zstd f (bc_shuffle cfg) h b (b * bs) = Some (Inr (frame_block data bs b))"
proof -
  define block where "block = frame_block data bs b"
  let ?p = "frame_payload compress cfg block"
  let ?s = "shuffle_block (bc_shuffle cfg) block (unat (bc_typesize cfg))"
  from frame b obtain T S R Z where
    T: "f = T @ le_bytes 4 (length S) @ R" "length T = 16 + b * 4" "length S < 2 ^ 32" and S: "f = S @ le_bytes 4 (length ?p) @ ?p @ Z"
    unfolding is_block_frame_def block_def frame_section_def append_assoc by blast
  have lens: "length f = length S + 4 + length ?p + length Z" by (simp add: S)
  have "length ?p \<le> length data"
    by (rule order_trans [OF frame_payload_length]) (simp add: block_def frame_block_def)
  then have "length ?p < 2 ^ 32" using fits by simp
  then have reads: "u32_at f (16 + b * 4) = Some (length S)" "u32_at f (length S) = Some (length ?p)"
    using u32_at_append [OF T(2,3)] u32_at_append [of S "length S"] T(1) S by metis+
  have payload: "slice_of f (length S + 4) (length S + 4 + length ?p) = Some ?p"
    using slice_of_append [of "S @ le_bytes 4 (length ?p)" "length S + 4" _ ?p Z] S by simp
  have prior: "b * bs \<le> length data" using div_ceil_bounds(2) [OF bs b] by simp
  have size: "min bs (length data - b * bs) = length block" by (simp add: block_def frame_block_length)
  have decoded: "(if length ?p = length block then Inr ?p else res_map_err (ZstdDecode b) (zstd ?p)) = Inr ?s"
    using zstd by (auto simp: frame_payload_def Let_def)
  show ?thesis
    using reads payload lens prior size decoded unshuffle_shuffle [OF cfg, of "bc_shuffle cfg" block]
    by (simp add: decode_block_def Let_def h checked_sub_def block_def [symmetric])
qed

lemma copied_frame_decodes:
  assumes "is_copied_frame cfg bs data f" "length data < 2 ^ 32" "bs < 2 ^ 32"
  shows "decode_blosc zstd f cfg = Some (Inr data)"
proof -
  from assms(1) obtain c where f: "f = frame_header cfg True (length data) bs c @ data" unfolding is_copied_frame_def by blast
  have "frame_flags cfg True AND FLAG_MEMCPYED \<noteq> 0"
    by (cases "bc_shuffle cfg") (simp_all add: frame_flags_def shuffle_flag_def FLAG_MEMCPYED_def)
  moreover have "slice_of f 16 (16 + length data) = Some data"
    using slice_of_append [of "frame_header cfg True (length data) bs c" 16 _ data "[]"] f by simp
  ultimately show ?thesis
    using header_ok [OF assms(2,3), of cfg True c data] by (simp add: decode_blosc_def f Let_def)
qed

lemma block_frame_decodes:
  assumes zstd: "\<And>s. zstd (compress s) = Inr s"
    and cfg: "0 < unat (bc_typesize cfg)" "length data mod unat (bc_typesize cfg) = 0"
    and sizes: "0 < bs" "bs < 2 ^ 32" "length data < 2 ^ 32" and frame: "is_block_frame compress cfg bs data f"
  shows "decode_blosc zstd f cfg = Some (Inr data)"
proof -
  let ?n = "div_ceil (length data) bs"
  let ?h = "\<lparr>bh_flags = frame_flags cfg False, bh_typesize = bc_typesize cfg, bh_nbytes = length data, bh_blocksize = bs\<rparr>"
  from frame obtain c rest where f: "f = frame_header cfg False (length data) bs c @ rest" "4 * ?n \<le> length rest"
    unfolding is_block_frame_def by blast
  then have head: "check_header f cfg = Inr ?h" and long: "16 + ?n * 4 \<le> length f"
    using header_ok [OF sizes(3,2)] by simp_all
  have plain: "frame_flags cfg False AND FLAG_MEMCPYED = 0"
    by (cases "bc_shuffle cfg") (simp_all add: frame_flags_def shuffle_flag_def FLAG_MEMCPYED_def)
  have loop: "decode_blocks zstd f (bc_shuffle cfg) ?h [b..<?n] (take (b * bs) data) = Some (Inr data)" if "b \<le> ?n" for b
    using that
  proof (induction "?n - b" arbitrary: b)
    case 0
    then show ?case using div_ceil_bounds(1) [OF sizes(1), of "length data"] by simp
  next
    case (Suc k)
    then have b: "b < ?n" by simp
    have "length (take (b * bs) data) = b * bs" using div_ceil_bounds(2) [OF sizes(1) b] by simp
    then have "decode_block zstd f (bc_shuffle cfg) ?h b (length (take (b * bs) data)) = Some (Inr (frame_block data bs b))"
      using frame_block_decodes [OF zstd cfg(1) sizes(1) frame sizes(3) _ _ _ b, of ?h] by simp
    moreover have "take (b * bs) data @ frame_block data bs b = take (Suc b * bs) data"
      by (simp add: frame_block_def take_add [symmetric] add.commute)
    ultimately show ?case using Suc.hyps(1) [of "Suc b"] Suc.hyps(2) b by (simp add: upt_conv_Cons del: mult_Suc)
  qed
  from loop [of 0] show ?thesis
    using long cfg sizes(1) plain by (auto simp: decode_blosc_def head Let_def)
qed

text \<open>
  C28: a Blosc frame decodes to the data it was made of, for every supported shuffle filter
  and element size, with any block size, any order of the blocks and any block compressor whose output the zstd
  decompressor undoes, and also when the data was copied whole. The frames are those zstd writes: not split,
  of less than 4 GB, with data of whole elements.
\<close>
theorem blosc_round_trip:
  assumes zstd: "\<And>s. zstd (compress s) = Inr s"
    and cfg: "0 < unat (bc_typesize cfg)" "length data mod unat (bc_typesize cfg) = 0"
    and sizes: "0 < bs" "bs < 2 ^ 32" "length data < 2 ^ 32"
    and frame: "is_block_frame compress cfg bs data f \<or> is_copied_frame cfg bs data f"
  shows "decode_blosc zstd f cfg = Some (Inr data)"
  using frame
proof
  assume "is_block_frame compress cfg bs data f"
  with zstd cfg sizes show ?thesis by (rule block_frame_decodes)
next
  assume "is_copied_frame cfg bs data f"
  then show ?thesis using sizes(3,2) by (rule copied_frame_decodes)
qed

text \<open>A frame costs at most its header and eight bytes per block more than the data.\<close>

lemma frame_length: "length (blosc_frame compress cfg bs data) \<le> 16 + 8 * div_ceil (length data) bs + length data"
proof -
  note frame_payload_length [of compress cfg]
  then have "length (frame_sections compress cfg bs data b) \<le> 4 * b + length (concat (map (frame_block data bs) [0..<b]))" for b
    by (induction b) (auto simp: frame_sections_def frame_section_def intro: add_mono order_trans)
  then have "length (frame_sections compress cfg bs data b) \<le> 4 * b + length data" for b
    by (rule order_trans) (simp add: frame_blocks)
  from this [of "div_ceil (length data) bs"] show ?thesis by (simp add: blosc_frame_def Let_def)
qed

text \<open>A compressor that shortens one block, and its decompressor.\<close>

definition toy_compress :: "bytes \<Rightarrow> bytes" where
  "toy_compress s = (if s = replicate 8 0 then [] else s @ [0])"

definition toy_zstd :: zstd where
  "toy_zstd p = Inr (if p = [] then replicate 8 0 else butlast p)"

definition toy_config :: blosc_config where
  "toy_config = \<lparr>bc_typesize = 2, bc_cname = ZstdCompressor, bc_shuffle = ByteShuffle\<rparr>"

definition toy_data :: bytes where
  "toy_data = replicate 8 0 @ [1, 2, 3, 4]"

text \<open>The frame of \<^verbatim>\<open>ENC_MEMCPY\<close> in the tests of \<^verbatim>\<open>blosc.rs\<close>, which c-blosc wrote, cut to its first eight bytes of data.\<close>

definition copied_bytes :: bytes where
  "copied_bytes = [2, 1, 0x96, 2, 8, 0, 0, 0, 0x40, 0, 0, 0, 0x18, 0, 0, 0, 0x39, 0x0c, 0x8c, 0x7d, 0x72, 0x47, 0x34, 0x2c]"

theorem blosc_round_trip_witness:
  "decode_blosc toy_zstd (blosc_frame toy_compress toy_config 8 toy_data) toy_config = Some (Inr toy_data)
   \<and> decode_blosc toy_zstd copied_bytes (toy_config\<lparr>bc_shuffle := BitShuffle\<rparr>) = Some (Inr (drop 16 copied_bytes))"
proof
  have z: "toy_zstd (toy_compress s) = Inr s" for s by (simp add: toy_zstd_def toy_compress_def)
  have "length (blosc_frame toy_compress toy_config 8 toy_data) < 2 ^ 32"
    by (rule le_less_trans [OF frame_length]) (simp add: toy_data_def div_ceil_def)
  then show "decode_blosc toy_zstd (blosc_frame toy_compress toy_config 8 toy_data) toy_config = Some (Inr toy_data)"
    by (intro blosc_round_trip [where compress = toy_compress and bs = 8] disjI1 blosc_frame_is_frame z) (simp_all add: toy_config_def toy_data_def)
  have "is_copied_frame (toy_config\<lparr>bc_shuffle := BitShuffle\<rparr>) 64 (drop 16 copied_bytes) copied_bytes"
    unfolding is_copied_frame_def
    by (rule exI [of _ 24]) code_simp
  then show "decode_blosc toy_zstd copied_bytes (toy_config\<lparr>bc_shuffle := BitShuffle\<rparr>) = Some (Inr (drop 16 copied_bytes))"
    by (intro blosc_round_trip [where compress = toy_compress and bs = 64] disjI2 z) (simp_all add: toy_config_def copied_bytes_def)
qed

end
