(* ===== verification/ChunkPath.thy ===== *)
theory ChunkPath
  imports Text
begin

text \<open>
  Chunk keys and store paths (\<^verbatim>\<open>lucida-store/src/lib.rs\<close>, and the key parsers of
  \<^verbatim>\<open>lucida-server/src/binding.rs\<close>). A wire key is \<^verbatim>\<open>level/t/c/z/y/x\<close>; the path of the
  chunk on disk has one grid coordinate per axis of the array.
\<close>

definition ALL_DIMS :: "string list" where
  "ALL_DIMS = [''t'', ''c'', ''z'', ''y'', ''x'']"

text \<open>\<^verbatim>\<open>xs.iter().position(p)\<close>\<close>

fun position_of :: "('a \<Rightarrow> bool) \<Rightarrow> 'a list \<Rightarrow> nat option" where
  "position_of P [] = None"
| "position_of P (x # xs) = (if P x then Some 0 else map_option Suc (position_of P xs))"

text \<open>\<^verbatim>\<open>collect::<Option<Vec<_>>>()\<close>\<close>

fun collect_option :: "'a option list \<Rightarrow> 'a list option" where
  "collect_option [] = Some []"
| "collect_option (x # xs) = Option.bind x (\<lambda>a. map_option ((#) a) (collect_option xs))"

definition axis_coord :: "string list \<Rightarrow> nat list \<Rightarrow> nat \<times> string \<Rightarrow> nat option" where
  "axis_coord parts chunk_shape = (\<lambda>(axis_idx, name).
     case position_of (\<lambda>d. eq_ignore_case d name) ALL_DIMS of
       None \<Rightarrow> Some 0
     | Some canon_idx \<Rightarrow>
         Option.bind (parse_uint 64 (parts ! (canon_idx + 1))) (\<lambda>wire_value.
           let bundled = (canon_idx = 0 \<or> canon_idx = 1) \<and> axis_idx < length chunk_shape \<and> chunk_shape ! axis_idx > 1
           in Some (if bundled then wire_value div chunk_shape ! axis_idx else wire_value)))"

definition chunk_key_grid_coords :: "string \<Rightarrow> string list \<Rightarrow> nat list \<Rightarrow> (string \<times> nat list) option" where
  "chunk_key_grid_coords key axes chunk_shape =
     (let parts = split_n 6 (CHR ''/'') key
      in if length parts \<noteq> 6 then None
         else Option.bind (collect_option (map (axis_coord parts chunk_shape) (enumerate 0 axes)))
                (\<lambda>coords. Some (parts ! 0, coords)))"

definition chunk_grid_store_path :: "string \<Rightarrow> nat list \<Rightarrow> string" where
  "chunk_grid_store_path level coords = level @ ''/c/'' @ join_with ''/'' (map show_nat coords)"

definition chunk_key_to_store_path :: "string \<Rightarrow> string list \<Rightarrow> nat list \<Rightarrow> string" where
  "chunk_key_to_store_path key axes chunk_shape =
     (case chunk_key_grid_coords key axes chunk_shape of
        Some (level, coords) \<Rightarrow> chunk_grid_store_path level coords
      | None \<Rightarrow> key)"

definition chunk_key_to_store_path_5d :: "string \<Rightarrow> string" where
  "chunk_key_to_store_path_5d key = chunk_key_to_store_path key ALL_DIMS [1, 1, 1, 1, 1]"

definition parse_level_from_chunk_key :: "string \<Rightarrow> nat" where
  "parse_level_from_chunk_key key =
     (case split_on (CHR ''/'') key of
        [] \<Rightarrow> 0
      | l # _ \<Rightarrow> (case parse_uint 32 l of Some n \<Rightarrow> n | None \<Rightarrow> 0))"

definition parse_t_c_from_chunk_key :: "string \<Rightarrow> nat \<times> nat" where
  "parse_t_c_from_chunk_key key =
     (let parts = split_on (CHR ''/'') key;
          field = (\<lambda>i. if i < length parts then (case parse_uint 64 (parts ! i) of Some n \<Rightarrow> n | None \<Rightarrow> 0) else 0)
      in (field 1, field 2))"

section \<open>Keys as the client prints them\<close>

definition wire_key :: "nat \<Rightarrow> nat \<Rightarrow> nat \<Rightarrow> nat \<Rightarrow> nat \<Rightarrow> nat \<Rightarrow> string" where
  "wire_key level t c z y x = join_with ''/'' (map show_nat [level, t, c, z, y, x])"

lemma split_show: "ns \<noteq> [] \<Longrightarrow> split_on (CHR ''/'') (join_with ''/'' (map show_nat ns)) = map show_nat ns"
  using show_nat_no_slash by (intro split_join) auto

lemma split_wire_key: "split_on (CHR ''/'') (wire_key l t c z y x) = map show_nat [l, t, c, z, y, x]"
  unfolding wire_key_def by (rule split_show) simp

lemma parse_wire_key:
  assumes "l < 2 ^ 32" "t < 2 ^ 64" "c < 2 ^ 64"
  shows "parse_level_from_chunk_key (wire_key l t c z y x) = l"
    "parse_t_c_from_chunk_key (wire_key l t c z y x) = (t, c)"
  using assms by (simp_all add: parse_level_from_chunk_key_def parse_t_c_from_chunk_key_def split_wire_key Let_def)

lemma store_path_inj:
  assumes "chunk_grid_store_path l as = chunk_grid_store_path l bs" "as \<noteq> []" "bs \<noteq> []"
  shows "as = bs"
proof -
  have "join_with ''/'' (map show_nat as) = join_with ''/'' (map show_nat bs)"
    using assms(1) by (simp add: chunk_grid_store_path_def)
  then have "map show_nat as = map show_nat bs" using split_show assms(2,3) by metis
  then show ?thesis by (metis injI inj_map_eq_map show_nat_inj)
qed

lemma store_path_eq:
  "as \<noteq> [] \<Longrightarrow> bs \<noteq> [] \<Longrightarrow> chunk_grid_store_path l as = chunk_grid_store_path l bs \<longleftrightarrow> as = bs"
  using store_path_inj by auto

lemma grid_coords_wire_key:
  assumes "t < 2 ^ 64" "c < 2 ^ 64" "z < 2 ^ 64" "y < 2 ^ 64" "x < 2 ^ 64"
  shows "chunk_key_grid_coords (wire_key l t c z y x) ALL_DIMS [ct, cc, cz, cy, cx]
    = Some (show_nat l, [t div max 1 ct, c div max 1 cc, z, y, x])"
proof -
  have pos: "position_of (\<lambda>d. eq_ignore_case d (ALL_DIMS ! i)) ALL_DIMS = Some i" if "i < 5" for i
  proof -
    from that have "i \<in> {0, 1, 2, 3, 4}" by auto
    then show ?thesis by (auto simp: ALL_DIMS_def eq_ignore_case_def lowercase_def ascii_lower_def)
  qed
  have "enumerate 0 ALL_DIMS = map (\<lambda>i. (i, ALL_DIMS ! i)) [0, 1, 2, 3, 4]" by (simp add: ALL_DIMS_def)
  moreover have "split_n 6 (CHR ''/'') (wire_key l t c z y x) = map show_nat [l, t, c, z, y, x]"
    by (simp add: split_n_def split_wire_key Let_def)
  ultimately show ?thesis
    using pos [of 0] pos [of 1] pos [of 2] pos [of 3] pos [of 4] assms
    by (auto simp: chunk_key_grid_coords_def axis_coord_def Let_def max_def)
qed

text \<open>
  on a five-axis level two wire keys name the same object exactly when they lie in the
  same chunk of the grid: timepoint and channel are divided by the number of planes a
  stored chunk bundles, the spatial coordinates are grid coordinates already.
\<close>
theorem store_path_exact:
  assumes "t < 2 ^ 64" "c < 2 ^ 64" "z < 2 ^ 64" "y < 2 ^ 64" "x < 2 ^ 64"
    "t' < 2 ^ 64" "c' < 2 ^ 64" "z' < 2 ^ 64" "y' < 2 ^ 64" "x' < 2 ^ 64"
  shows "chunk_key_to_store_path (wire_key l t c z y x) ALL_DIMS [ct, cc, cz, cy, cx]
      = chunk_key_to_store_path (wire_key l t' c' z' y' x') ALL_DIMS [ct, cc, cz, cy, cx]
    \<longleftrightarrow> t div max 1 ct = t' div max 1 ct \<and> c div max 1 cc = c' div max 1 cc \<and> z = z' \<and> y = y' \<and> x = x'"
proof -
  have path: "chunk_key_to_store_path (wire_key l t c z y x) ALL_DIMS [ct, cc, cz, cy, cx]
      = chunk_grid_store_path (show_nat l) [t div max 1 ct, c div max 1 cc, z, y, x]"
    if "t < 2 ^ 64" "c < 2 ^ 64" "z < 2 ^ 64" "y < 2 ^ 64" "x < 2 ^ 64" for t c z y x
    unfolding chunk_key_to_store_path_def grid_coords_wire_key [OF that] by simp
  show ?thesis unfolding path [OF assms(1-5)] path [OF assms(6-10)]
    by (subst store_path_eq) auto
qed

theorem store_path_exact_witness:
  "chunk_key_to_store_path (wire_key 0 0 7 0 0 0) ALL_DIMS [1, 5, 1, 64, 64]
    = chunk_key_to_store_path (wire_key 0 0 9 0 0 0) ALL_DIMS [1, 5, 1, 64, 64]
   \<and> chunk_key_to_store_path (wire_key 0 0 3 0 0 0) ALL_DIMS [1, 5, 1, 64, 64]
    \<noteq> chunk_key_to_store_path (wire_key 0 0 7 0 0 0) ALL_DIMS [1, 5, 1, 64, 64]"
  using store_path_exact [of 0 7 0 0 0 0 9 0 0 0 0 1 5 1 64 64] store_path_exact [of 0 3 0 0 0 0 7 0 0 0 0 1 5 1 64 64] by simp

end
