(* ===== verification/Shard.thy ===== *)
theory Shard
  imports Codec ChunkPath
begin

text \<open>
  Reading one inner chunk out of a Zarr shard (\<^verbatim>\<open>lucida-store/src/shard.rs\<close>): the layout
  the metadata fixes, the location of an inner chunk, the shard's index with its checksum,
  and the cache that remembers an index once read. The crc32c function and the reads of
  the object store are parameters. Counts are \<^verbatim>\<open>u64\<close>: products and sums wrap at \<open>2 ^ 64\<close>.
\<close>

section \<open>Layout\<close>

definition SHARDING_CODEC :: string where "SHARDING_CODEC = ''sharding_indexed''"
definition INDEX_ENTRY_BYTES :: nat where "INDEX_ENTRY_BYTES = 16"
definition CHECKSUM_BYTES :: nat where "CHECKSUM_BYTES = 4"

datatype index_location = IndexStart | IndexEnd

record shard_layout =
  sl_inner_chunk_shape :: "nat list"
  sl_chunks_per_shard :: "nat list"
  sl_inner_compression :: storage_compression
  sl_index_location :: index_location
  sl_index_checksum :: bool

definition u64_mul :: "nat \<Rightarrow> nat \<Rightarrow> nat" where
  "u64_mul a b = a * b mod 2 ^ 64"

definition u64_add :: "nat \<Rightarrow> nat \<Rightarrow> nat" where
  "u64_add a b = (a + b) mod 2 ^ 64"

definition inner_chunks_per_shard :: "shard_layout \<Rightarrow> nat" where
  "inner_chunks_per_shard l = fold (\<lambda>n acc. u64_mul acc n) (sl_chunks_per_shard l) 1"

definition index_byte_len :: "shard_layout \<Rightarrow> nat" where
  "index_byte_len l =
     (let entries = u64_mul (inner_chunks_per_shard l) INDEX_ENTRY_BYTES
      in if sl_index_checksum l then u64_add entries CHECKSUM_BYTES else entries)"

section \<open>Parsing the sharding codec\<close>

definition debug_nats :: "nat list \<Rightarrow> string" where
  "debug_nats ns = ''['' @ join_with '', '' (map show_nat ns) @ '']''"

fun untiled_axis :: "nat \<Rightarrow> nat list \<Rightarrow> nat list \<Rightarrow> nat option" where
  "untiled_axis axis (i # is) (s # ss) = (if i = 0 \<or> s mod i \<noteq> 0 then Some axis else untiled_axis (Suc axis) is ss)"
| "untiled_axis axis _ _ = None"

definition parse_inner_chunk_shape :: "'j json_api \<Rightarrow> 'j \<Rightarrow> nat list \<Rightarrow> 'e store_error + nat list" where
  "parse_inner_chunk_shape J config shard_shape =
     res_bind (ok_or (Metadata (SHARDING_CODEC @ '' configuration missing '' @ quoted ''chunk_shape'' @ '' array''))
                 (Option.bind (js_get J config ''chunk_shape'') (js_array J))) (\<lambda>entries.
     res_bind (res_collect (\<lambda>v. ok_or (Metadata (SHARDING_CODEC @ '' chunk_shape entry '' @ js_show J v
                 @ '' is not a non-negative integer'')) (js_u64 J v)) entries) (\<lambda>inner.
     if length inner \<noteq> length shard_shape then
       Inl (Metadata (SHARDING_CODEC @ '' chunk_shape has '' @ show_nat (length inner)
         @ '' axes but the shard shape '' @ debug_nats shard_shape @ '' has '' @ show_nat (length shard_shape)))
     else case untiled_axis 0 inner shard_shape of
            Some axis \<Rightarrow> Inl (Metadata (SHARDING_CODEC @ '' chunk_shape '' @ debug_nats inner
              @ '' does not tile the shard shape '' @ debug_nats shard_shape @ '' on axis '' @ show_nat axis))
          | None \<Rightarrow> Inr inner))"

definition parse_index_codecs :: "'j json_api \<Rightarrow> 'j list \<Rightarrow> 'e store_error + bool" where
  "parse_index_codecs J codecs =
     (let names = map (\<lambda>c. case str_field J c ''name'' of Some n \<Rightarrow> n | None \<Rightarrow> ''?'') codecs;
          endian = (case codecs of [] \<Rightarrow> None
                    | c # _ \<Rightarrow> Option.bind (js_get J c ''configuration'') (\<lambda>cfg. str_field J cfg ''endian''))
      in if names = [''bytes''] \<and> endian = Some ''little'' then Inr False
         else if names = [''bytes'', ''crc32c''] \<and> endian = Some ''little'' then Inr True
         else Inl (Metadata (''index_codecs '' @ fmt_debug J names
           @ '' not supported (expected bytes little-endian, optionally followed by crc32c)'')))"

definition parse_index_location :: "string option \<Rightarrow> 'e store_error + index_location" where
  "parse_index_location l =
     (case l of
        None \<Rightarrow> Inr IndexEnd
      | Some s \<Rightarrow>
          if s = ''end'' then Inr IndexEnd
          else if s = ''start'' then Inr IndexStart
          else Inl (Metadata (''index_location '' @ quoted s @ '' not supported (use '' @ quoted ''start''
                              @ '' or '' @ quoted ''end'' @ '')'')))"

definition parse_shard_layout :: "'j json_api \<Rightarrow> 'j \<Rightarrow> 'j list \<Rightarrow> nat list \<Rightarrow> 'e store_error + shard_layout" where
  "parse_shard_layout J first codecs shard_shape =
     (if length codecs \<noteq> 1 then
        Inl (Metadata (''the '' @ SHARDING_CODEC @ '' codec must be the only codec in the storage chain, got ''
                       @ show_nat (length codecs) @ '' codecs''))
      else
      res_bind (ok_or (Metadata (SHARDING_CODEC @ '' codec missing '' @ quoted ''configuration'' @ '' object''))
                  (js_get J first ''configuration'')) (\<lambda>config.
      res_bind (parse_inner_chunk_shape J config shard_shape) (\<lambda>inner.
      res_bind (ok_or (Metadata (SHARDING_CODEC @ '' configuration missing '' @ quoted ''codecs''
                    @ '' array for the inner chunks''))
                  (Option.bind (js_get J config ''codecs'') (js_array J))) (\<lambda>inner_codecs.
      if list_ex (\<lambda>c. str_field J c ''name'' = Some SHARDING_CODEC) inner_codecs then
        Inl (Metadata (''nested sharding is not supported: a '' @ SHARDING_CODEC @ '' codec inside another''))
      else
      res_bind (res_map_err (in_context ''inner chunk codecs'') (parse_codec_chain J inner_codecs)) (\<lambda>compression.
      res_bind (ok_or (Metadata (SHARDING_CODEC @ '' configuration missing '' @ quoted ''index_codecs'' @ '' array''))
                  (Option.bind (js_get J config ''index_codecs'') (js_array J))) (\<lambda>index_codecs.
      res_bind (parse_index_codecs J index_codecs) (\<lambda>checksum.
      res_bind (parse_index_location (str_field J config ''index_location'')) (\<lambda>loc.
        Inr \<lparr>sl_inner_chunk_shape = inner, sl_chunks_per_shard = map2 (div) shard_shape inner,
             sl_inner_compression = compression, sl_index_location = loc, sl_index_checksum = checksum\<rparr>))))))))"

definition from_codec_chain :: "'j json_api \<Rightarrow> 'j list \<Rightarrow> nat list \<Rightarrow> 'e store_error + shard_layout option" where
  "from_codec_chain J codecs shard_shape =
     (case codecs of
        [] \<Rightarrow> Inr None
      | first # _ \<Rightarrow>
          if str_field J first ''name'' \<noteq> Some SHARDING_CODEC then Inr None
          else res_map_err (in_context (SHARDING_CODEC @ '' codec''))
                 (res_map Some (parse_shard_layout J first codecs shard_shape)))"

section \<open>Locating an inner chunk\<close>

record shard_location =
  sh_path :: string
  sh_position :: nat

text \<open>
  One axis of the split: the shard coordinate is pushed, the position accumulates in
  row-major order. \<open>None\<close> is the panic of a division by zero.
\<close>

definition split_axis :: "nat \<times> nat \<Rightarrow> nat list \<times> nat \<Rightarrow> (nat list \<times> nat) option" where
  "split_axis = (\<lambda>(coord, per_shard) (shard, position).
     if per_shard = 0 then None
     else Some (shard @ [coord div per_shard], u64_add (u64_mul position per_shard) (coord mod per_shard)))"

definition split_coords :: "nat list \<Rightarrow> nat list \<Rightarrow> (nat list \<times> nat) option" where
  "split_coords per_shard inner = for_each split_axis (zip inner per_shard) ([], 0)"

definition locate_inner_chunk :: "(string \<Rightarrow> string) \<Rightarrow> shard_layout \<Rightarrow> string \<Rightarrow> string list \<Rightarrow> shard_location option option" where
  "locate_inner_chunk path_from l key axes =
     (case chunk_key_grid_coords key axes (sl_inner_chunk_shape l) of
        None \<Rightarrow> Some None
      | Some (level, inner) \<Rightarrow>
          if length inner \<noteq> length (sl_chunks_per_shard l) then Some None
          else map_option (\<lambda>(shard, position).
                 Some \<lparr>sh_path = path_from (chunk_grid_store_path level shard), sh_position = position\<rparr>)
                 (split_coords (sl_chunks_per_shard l) inner))"

section \<open>The index\<close>

datatype 'e object_error =
    NotFound string string
  | Generic string string
  | Backend 'e

definition ABSENT :: nat where "ABSENT = 2 ^ 64 - 1"

datatype shard_index = Missing | Written "nat list"

definition shard_error :: "string \<Rightarrow> 'e object_error" where
  "shard_error message = Generic ''shard'' message"

definition unwritten :: "string \<Rightarrow> nat \<Rightarrow> 'e object_error" where
  "unwritten shard position =
     NotFound shard (''inner chunk '' @ show_nat position @ '' of shard '' @ shard @ '' was not written'')"

text \<open>\<^verbatim>\<open>as_chunks::<k>().0\<close>: the whole chunks of \<open>k\<close> elements.\<close>

definition as_chunks :: "nat \<Rightarrow> 'a list \<Rightarrow> 'a list list" where
  "as_chunks k xs = map (\<lambda>i. take k (drop (i * k) xs)) [0..<length xs div k]"

definition entry_overflows :: "nat \<Rightarrow> nat \<Rightarrow> bool" where
  "entry_overflows offset len \<longleftrightarrow> \<not> (offset = ABSENT \<and> len = ABSENT) \<and> 2 ^ 64 \<le> offset + len"

text \<open>The check over the pairs: the first written entry whose end does not fit.\<close>

definition overflowing_entry :: "nat list \<Rightarrow> nat option" where
  "overflowing_entry words =
     position_of (\<lambda>pair. entry_overflows (pair ! 0) (pair ! 1)) (as_chunks 2 words)"

definition index_parse :: "(bytes \<Rightarrow> nat) \<Rightarrow> bytes \<Rightarrow> shard_layout \<Rightarrow> string \<Rightarrow> ('e object_error + shard_index) option" where
  "index_parse crc32c bytes l shard =
     (let expected = index_byte_len l
      in if length bytes \<noteq> expected then
           Some (Inl (shard_error (''shard index of '' @ shard @ '' is '' @ show_nat (length bytes)
                        @ '' bytes, expected '' @ show_nat expected)))
         else
           let entries_len = u64_mul (inner_chunks_per_shard l) INDEX_ENTRY_BYTES
           in if length bytes < entries_len then None
              else
                let entries = take entries_len bytes; checksum = drop entries_len bytes
                in if sl_index_checksum l \<and> length checksum \<noteq> 4 then None
                   else if sl_index_checksum l \<and> crc32c entries \<noteq> le_nat checksum then
                     Some (Inl (shard_error (''shard index of '' @ shard @ '' does not match its crc32c checksum'')))
                   else
                     let words = map le_nat (as_chunks 8 entries)
                     in case overflowing_entry words of
                          Some position \<Rightarrow>
                            Some (Inl (shard_error (''shard index of '' @ shard @ '' places inner chunk ''
                              @ show_nat position @ '' past the end of any object'')))
                        | None \<Rightarrow> Some (Inr (Written words)))"

definition index_entry :: "shard_index \<Rightarrow> nat \<Rightarrow> 'e object_error + (nat \<times> nat) option" where
  "index_entry index position =
     (case index of
        Missing \<Rightarrow> Inr None
      | Written entries \<Rightarrow>
          (case slice_of entries (position * 2) (position * 2 + 2) of
             None \<Rightarrow> Inl (shard_error (''inner chunk position '' @ show_nat position @ '' is outside a shard of ''
                             @ show_nat (length entries div 2) @ '' inner chunks''))
           | Some entry \<Rightarrow>
               let offset = entry ! 0; len = entry ! 1
               in if offset = ABSENT \<and> len = ABSENT then Inr None
                  else Inr (Some (offset, u64_add offset len))))"

section \<open>Reading through the cache of indexes\<close>

text \<open>
  What the reads of the store answer: a bounded range, or the last bytes of an object.
\<close>

record 'e shard_reads =
  rd_range :: "string \<Rightarrow> nat \<Rightarrow> nat \<Rightarrow> 'e object_error + bytes"
  rd_suffix :: "string \<Rightarrow> nat \<Rightarrow> 'e object_error + bytes"

type_synonym index_cache = "(string \<times> shard_index) list"

definition read_index :: "'e shard_reads \<Rightarrow> shard_layout \<Rightarrow> string \<Rightarrow> 'e object_error + bytes" where
  "read_index rd l shard =
     (let len = index_byte_len l
      in case sl_index_location l of
           IndexStart \<Rightarrow> rd_range rd shard 0 len
         | IndexEnd \<Rightarrow> rd_suffix rd shard len)"

text \<open>The second critical section: the first index to arrive is the one every caller gets.\<close>

definition remember :: "string \<Rightarrow> shard_index \<Rightarrow> index_cache \<Rightarrow> index_cache \<times> shard_index" where
  "remember shard index cache =
     (case map_of cache shard of
        Some known \<Rightarrow> (cache, known)
      | None \<Rightarrow> (AList.update shard index cache, index))"

definition resolve_index :: "(bytes \<Rightarrow> nat) \<Rightarrow> 'e shard_reads \<Rightarrow> shard_layout \<Rightarrow> string \<Rightarrow> index_cache \<Rightarrow>
    (index_cache \<times> ('e object_error + shard_index)) option" where
  "resolve_index crc32c rd l shard cache =
     (case map_of cache shard of
        Some index \<Rightarrow> Some (cache, Inr index)
      | None \<Rightarrow>
          (case read_index rd l shard of
             Inr bytes \<Rightarrow>
               Option.bind (index_parse crc32c bytes l shard) (\<lambda>r.
                 case r of
                   Inl e \<Rightarrow> Some (cache, Inl e)
                 | Inr index \<Rightarrow> Some (map_prod id Inr (remember shard index cache)))
           | Inl (NotFound _ _) \<Rightarrow> Some (map_prod id Inr (remember shard Missing cache))
           | Inl e \<Rightarrow> Some (cache, Inl e)))"

definition read_inner_chunk :: "(bytes \<Rightarrow> nat) \<Rightarrow> 'e shard_reads \<Rightarrow> shard_layout \<Rightarrow> shard_location \<Rightarrow> index_cache \<Rightarrow>
    (index_cache \<times> ('e object_error + bytes)) option" where
  "read_inner_chunk crc32c rd l loc cache =
     Option.bind (resolve_index crc32c rd l (sh_path loc) cache) (\<lambda>(cache1, r).
       case r of
         Inl e \<Rightarrow> Some (cache1, Inl e)
       | Inr index \<Rightarrow>
           (case index_entry index (sh_position loc) of
              Inl e \<Rightarrow> Some (cache1, Inl e)
            | Inr None \<Rightarrow> Some (cache1, Inl (unwritten (sh_path loc) (sh_position loc)))
            | Inr (Some (a, b)) \<Rightarrow> Some (cache1, rd_range rd (sh_path loc) a b)))"

text \<open>
  The probe of \<^verbatim>\<open>unwritten.rs\<close>: the metadata read answers nothing for a missing object.
\<close>

datatype index_range = BoundedRange nat nat | SuffixRange nat

definition inner_chunk_written :: "(bytes \<Rightarrow> nat) \<Rightarrow> (string \<Rightarrow> index_range \<Rightarrow> 'e object_error + bytes option) \<Rightarrow> shard_layout \<Rightarrow> string \<Rightarrow> nat \<Rightarrow>
    ('e object_error + bool) option" where
  "inner_chunk_written crc32c metadata_range l shard position =
     (case metadata_range shard (case sl_index_location l of
              IndexStart \<Rightarrow> BoundedRange 0 (index_byte_len l) | IndexEnd \<Rightarrow> SuffixRange (index_byte_len l)) of
        Inl e \<Rightarrow> Some (Inl e)
      | Inr None \<Rightarrow> Some (Inr False)
      | Inr (Some bytes) \<Rightarrow>
          Option.bind (index_parse crc32c bytes l shard) (\<lambda>r.
            Some (res_bind r (\<lambda>index. res_map (\<lambda>e. e \<noteq> None) (index_entry index position)))))"

section \<open>Every inner chunk has a place of its own\<close>

fun row_major :: "nat \<Rightarrow> (nat \<times> nat) list \<Rightarrow> nat" where
  "row_major p [] = p"
| "row_major p ((c, n) # zs) = row_major (p * n + c mod n) zs"

lemma prod_list_pos: "(\<forall>n \<in> set ns. 0 < n) \<Longrightarrow> 0 < prod_list (ns :: nat list)"
  by (induction ns) auto

lemma row_major_bound: "p < P \<Longrightarrow> (\<forall>z \<in> set zs. 0 < snd z) \<Longrightarrow> row_major p zs < P * prod_list (map snd zs)"
proof (induction p zs arbitrary: P rule: row_major.induct)
  case (2 p c n zs)
  then have "p * n + c mod n < P * n" by (intro mixed_radix_less) auto
  with 2 have "row_major (p * n + c mod n) zs < P * n * prod_list (map snd zs)" by simp
  then show ?case by (simp add: mult.assoc)
qed simp

lemma row_major_inj:
  "length as = length ns \<Longrightarrow> length bs = length ns \<Longrightarrow> (\<forall>n \<in> set ns. 0 < n) \<Longrightarrow>
   row_major p (zip as ns) = row_major q (zip bs ns) \<Longrightarrow> p = q \<and> map2 (mod) as ns = map2 (mod) bs ns"
proof (induction ns arbitrary: as bs p q)
  case (Cons n ns)
  then obtain a as' b bs' where eq: "as = a # as'" "bs = b # bs'" by (metis length_Suc_conv)
  have "row_major (p * n + a mod n) (zip as' ns) = row_major (q * n + b mod n) (zip bs' ns)"
    using Cons.prems(4) by (simp add: eq)
  with Cons.IH [of as' bs'] Cons.prems(1-3) eq
  have IH: "p * n + a mod n = q * n + b mod n \<and> map2 (mod) as' ns = map2 (mod) bs' ns" by auto
  have "a mod n < n" "b mod n < n" using Cons.prems by simp_all
  from mixed_radix_inj [OF this IH [THEN conjunct1]] IH show ?case by (simp add: eq)
qed simp

lemma for_each_split:
  assumes "\<forall>z \<in> set zs. 0 < snd z" "p < P" "P * prod_list (map snd zs) \<le> 2 ^ 64"
  shows "for_each split_axis zs (shard, p) = Some (shard @ map (\<lambda>(c, n). c div n) zs, row_major p zs)"
  using assms
proof (induction zs arbitrary: shard p P)
  case (Cons z zs)
  obtain c n where z: "z = (c, n)" by (cases z)
  have n: "0 < n" and rest: "\<forall>z \<in> set zs. 0 < snd z" using Cons.prems z by simp_all
  have next_pos: "p * n + c mod n < P * n" using Cons.prems n by (intro mixed_radix_less) auto
  have "0 < prod_list (map snd zs)" using rest by (intro prod_list_pos) auto
  then have "P * n \<le> P * n * prod_list (map snd zs)" by simp
  also have fits: "P * n * prod_list (map snd zs) \<le> 2 ^ 64" using Cons.prems(3) by (simp add: z mult.assoc)
  finally have "P * n \<le> 2 ^ 64" .
  with next_pos have "u64_add (u64_mul p n) (c mod n) = p * n + c mod n"
    by (simp add: u64_add_def u64_mul_def)
  then have "for_each split_axis (z # zs) (shard, p) = for_each split_axis zs (shard @ [c div n], p * n + c mod n)"
    using n by (simp add: z split_axis_def)
  also have "\<dots> = Some ((shard @ [c div n]) @ map (\<lambda>(c, n). c div n) zs, row_major (p * n + c mod n) zs)"
    by (rule Cons.IH [OF rest next_pos fits])
  finally show ?case by (simp add: z)
qed simp

lemma chunks_per_shard_exact:
  assumes "\<forall>n \<in> set (sl_chunks_per_shard l). 0 < n" "prod_list (sl_chunks_per_shard l) < 2 ^ 64"
  shows "inner_chunks_per_shard l = prod_list (sl_chunks_per_shard l)"
proof -
  have "fold (\<lambda>n acc. u64_mul acc n) ns a = a * prod_list ns"
    if "\<forall>n \<in> set ns. 0 < n" "a * prod_list ns < 2 ^ 64" for ns a
    using that
  proof (induction ns arbitrary: a)
    case (Cons n ns)
    then have "0 < prod_list ns" by (intro prod_list_pos) auto
    then have "a * n \<le> a * n * prod_list ns" by simp
    also have "\<dots> < 2 ^ 64" using Cons.prems by (simp add: mult.assoc)
    finally have "u64_mul a n = a * n" by (simp add: u64_mul_def)
    with Cons show ?case by (simp add: mult.assoc)
  qed simp
  from this [of "sl_chunks_per_shard l" 1] assms show ?thesis by (simp add: inner_chunks_per_shard_def)
qed

lemma split_coords_exact:
  assumes "\<forall>n \<in> set ns. 0 < n" "prod_list ns < 2 ^ 64" "length cs = length ns"
  shows "split_coords ns cs = Some (map2 (div) cs ns, row_major 0 (zip cs ns)) \<and> row_major 0 (zip cs ns) < prod_list ns"
proof -
  have "\<forall>z \<in> set (zip cs ns). 0 < snd z" using assms(1) by (auto dest: set_zip_rightD)
  with for_each_split [of "zip cs ns" 0 1 "[]"] row_major_bound [of 0 1 "zip cs ns"] assms show ?thesis
    by (simp add: split_coords_def)
qed

text \<open>
  locating inner chunks is exact: on a layout whose shards are not empty, each grid
  coordinate has a shard and a position below the number of entries of its index, and two
  inner chunks share both only when they are the same chunk.
\<close>
theorem shard_location_exact:
  assumes "\<forall>n \<in> set (sl_chunks_per_shard l). 0 < n" "prod_list (sl_chunks_per_shard l) < 2 ^ 64"
    "length as = length (sl_chunks_per_shard l)" "length bs = length (sl_chunks_per_shard l)"
  shows "(\<exists>shard position. split_coords (sl_chunks_per_shard l) as = Some (shard, position)
      \<and> position < inner_chunks_per_shard l \<and> length shard = length as)
    \<and> (split_coords (sl_chunks_per_shard l) as = split_coords (sl_chunks_per_shard l) bs \<longleftrightarrow> as = bs)"
proof -
  let ?ns = "sl_chunks_per_shard l"
  note A = split_coords_exact [OF assms(1,2,3)] and B = split_coords_exact [OF assms(1,2,4)]
  have "as = bs" if "map2 (div) as ?ns = map2 (div) bs ?ns" "map2 (mod) as ?ns = map2 (mod) bs ?ns"
  proof (rule nth_equalityI)
    fix i assume i: "i < length as"
    then have "as ! i div ?ns ! i = bs ! i div ?ns ! i" "as ! i mod ?ns ! i = bs ! i mod ?ns ! i"
      using that [THEN arg_cong [where f = "\<lambda>xs. xs ! i"]] assms by simp_all
    then show "as ! i = bs ! i" by (metis div_mult_mod_eq)
  qed (use assms in simp)
  then have "split_coords ?ns as = split_coords ?ns bs \<longleftrightarrow> as = bs"
    using A B row_major_inj [OF assms(3,4,1)] by auto
  with A assms show ?thesis by (simp add: chunks_per_shard_exact)
qed

definition demo_layout :: shard_layout where
  "demo_layout = \<lparr>sl_inner_chunk_shape = [1, 8], sl_chunks_per_shard = [2, 4], sl_inner_compression = Uncompressed,
     sl_index_location = IndexEnd, sl_index_checksum = True\<rparr>"

theorem shard_location_exact_witness:
  "split_coords (sl_chunks_per_shard demo_layout) [3, 6] \<noteq> split_coords (sl_chunks_per_shard demo_layout) [3, 7]"
  using shard_location_exact [of demo_layout "[3, 6]" "[3, 7]"] by (simp add: demo_layout_def)

section \<open>A shard read back\<close>

text \<open>A shard object as the format lays it out, from its inner chunks in position order.\<close>

definition chunk_bytes :: "bytes option list \<Rightarrow> bytes" where
  "chunk_bytes cs = concat (map (\<lambda>c. case c of None \<Rightarrow> [] | Some b \<Rightarrow> b) cs)"

fun index_words :: "nat \<Rightarrow> bytes option list \<Rightarrow> nat list" where
  "index_words base [] = []"
| "index_words base (None # cs) = ABSENT # ABSENT # index_words base cs"
| "index_words base (Some b # cs) = base # length b # index_words (base + length b) cs"

definition index_bytes :: "(bytes \<Rightarrow> nat) \<Rightarrow> shard_layout \<Rightarrow> nat \<Rightarrow> bytes option list \<Rightarrow> bytes" where
  "index_bytes crc32c l base cs =
     (let entries = concat (map (le_bytes 8) (index_words base cs))
      in entries @ (if sl_index_checksum l then le_bytes 4 (crc32c entries) else []))"

definition shard_object :: "(bytes \<Rightarrow> nat) \<Rightarrow> shard_layout \<Rightarrow> bytes option list \<Rightarrow> bytes" where
  "shard_object crc32c l cs =
     (case sl_index_location l of
        IndexStart \<Rightarrow> index_bytes crc32c l (index_byte_len l) cs @ chunk_bytes cs
      | IndexEnd \<Rightarrow> chunk_bytes cs @ index_bytes crc32c l 0 cs)"

definition data_start :: "shard_layout \<Rightarrow> nat" where
  "data_start l = (case sl_index_location l of IndexStart \<Rightarrow> index_byte_len l | IndexEnd \<Rightarrow> 0)"

lemma index_words_length [simp]: "length (index_words base cs) = 2 * length cs"
  by (induction base cs rule: index_words.induct) auto

lemma index_words_nth:
  "p < length cs \<Longrightarrow>
     index_words base cs ! (2 * p) = (case cs ! p of None \<Rightarrow> ABSENT | Some b \<Rightarrow> base + length (chunk_bytes (take p cs)))
   \<and> index_words base cs ! Suc (2 * p) = (case cs ! p of None \<Rightarrow> ABSENT | Some b \<Rightarrow> length b)"
proof (induction base cs arbitrary: p rule: index_words.induct)
  case (2 base cs)
  then show ?case by (cases p) (auto simp: chunk_bytes_def split: option.splits)
next
  case (3 base b cs)
  then show ?case by (cases p) (auto simp: chunk_bytes_def split: option.splits)
qed simp

lemma chunk_bytes_split:
  assumes "p < length cs" "cs ! p = Some b"
  shows "chunk_bytes cs = chunk_bytes (take p cs) @ b @ chunk_bytes (drop (Suc p) cs)"
proof -
  have "cs = take p cs @ Some b # drop (Suc p) cs" using assms by (metis id_take_nth_drop)
  then have "chunk_bytes cs = chunk_bytes (take p cs @ Some b # drop (Suc p) cs)" by simp
  then show ?thesis by (simp add: chunk_bytes_def)
qed

lemma as_chunks_concat:
  assumes "\<And>x. x \<in> set xs \<Longrightarrow> length (f x) = k" "0 < k"
  shows "as_chunks k (concat (map f xs)) = map f xs"
  using assms(1)
proof (induction xs)
  case (Cons x xs)
  have "as_chunks k (f x @ ys) = f x # as_chunks k ys" for ys
  proof -
    have len: "length (f x @ ys) div k = Suc (length ys div k)" using Cons.prems assms(2) by (simp add: div_add_self1)
    have "take k (drop (Suc i * k) (f x @ ys)) = take k (drop (i * k) ys)" for i
      using Cons.prems [of x] by simp
    then show ?thesis
      unfolding as_chunks_def len map_upt_Suc using Cons.prems [of x] by (simp del: mult_Suc)
  qed
  with Cons show ?case by simp
qed (simp add: as_chunks_def)

lemma position_of_None: "position_of P xs = None \<longleftrightarrow> (\<forall>x \<in> set xs. \<not> P x)"
  by (induction xs) auto

lemma overflowing_None:
  "overflowing_entry words = None \<longleftrightarrow>
     (\<forall>p < length words div 2. \<not> entry_overflows (words ! (2 * p)) (words ! Suc (2 * p)))"
proof -
  have "take 2 (drop (p * 2) words) ! 0 = words ! (2 * p) \<and> take 2 (drop (p * 2) words) ! 1 = words ! Suc (2 * p)"
    if "p < length words div 2" for p
  proof -
    have "Suc (2 * p) < length words" using that by simp
    then show ?thesis by (simp add: mult.commute)
  qed
  then show ?thesis by (auto simp: overflowing_entry_def as_chunks_def position_of_None)
qed

text \<open>A layout whose shards hold something and whose index length fits its word.\<close>

definition layout_ok :: "shard_layout \<Rightarrow> bool" where
  "layout_ok l \<longleftrightarrow> (\<forall>n \<in> set (sl_chunks_per_shard l). 0 < n) \<and> prod_list (sl_chunks_per_shard l) * 16 + 4 < 2 ^ 64"

lemma layout_ok_counts:
  assumes "layout_ok l"
  defines "n \<equiv> prod_list (sl_chunks_per_shard l)"
  shows "inner_chunks_per_shard l = n" "u64_mul (inner_chunks_per_shard l) INDEX_ENTRY_BYTES = n * 16"
    "index_byte_len l = n * 16 + (if sl_index_checksum l then 4 else 0)"
proof -
  have n: "n * 16 + 4 < 2 ^ 64" using assms by (simp add: layout_ok_def)
  show "inner_chunks_per_shard l = n"
    using chunks_per_shard_exact [of l] assms(1) n by (simp add: layout_ok_def n_def)
  then show "u64_mul (inner_chunks_per_shard l) INDEX_ENTRY_BYTES = n * 16"
    using n by (simp add: u64_mul_def INDEX_ENTRY_BYTES_def)
  then show "index_byte_len l = n * 16 + (if sl_index_checksum l then 4 else 0)"
    using n by (simp add: index_byte_len_def u64_add_def CHECKSUM_BYTES_def)
qed

lemma index_words_less:
  "base + length (chunk_bytes cs) < 2 ^ 64 \<Longrightarrow> w \<in> set (index_words base cs) \<Longrightarrow> w < 2 ^ 64"
  by (induction base cs rule: index_words.induct) (auto simp: chunk_bytes_def ABSENT_def)

lemma index_words_fit:
  assumes "base + length (chunk_bytes cs) < 2 ^ 64"
  shows "overflowing_entry (index_words base cs) = None"
proof -
  have "\<not> entry_overflows (index_words base cs ! (2 * p)) (index_words base cs ! Suc (2 * p))" if p: "p < length cs" for p
  proof (cases "cs ! p")
    case None
    then show ?thesis using index_words_nth [OF p, of base] by (simp add: entry_overflows_def)
  next
    case (Some b)
    have "length (chunk_bytes (take p cs)) + length b \<le> length (chunk_bytes cs)"
      using arg_cong [OF chunk_bytes_split [OF p Some], of length] by simp
    then show ?thesis using Some index_words_nth [OF p, of base] assms by (simp add: entry_overflows_def)
  qed
  then show ?thesis by (simp add: overflowing_None)
qed

lemma index_parse_bytes:
  assumes "layout_ok l" "length cs = inner_chunks_per_shard l" "base + length (chunk_bytes cs) < 2 ^ 64"
    "\<And>e. crc32c e < 2 ^ 32"
  shows "index_parse crc32c (index_bytes crc32c l base cs) l shard = Some (Inr (Written (index_words base cs)))"
proof -
  let ?e = "concat (map (le_bytes 8) (index_words base cs))"
  note n = layout_ok_counts [OF assms(1)]
  have e: "length ?e = inner_chunks_per_shard l * 16"
    using assms(2) by (simp add: length_concat comp_def sum_list_triv)
  have "map le_nat (as_chunks 8 ?e) = index_words base cs"
    unfolding as_chunks_concat [where f = "le_bytes 8" and k = 8, simplified]
    using index_words_less [OF assms(3)] by (auto simp: le_nat_bytes intro!: map_idI)
  moreover have "le_nat (le_bytes 4 (crc32c ?e)) = crc32c ?e" using assms(4) by (simp add: le_nat_bytes)
  ultimately show ?thesis
    using e n index_words_fit [OF assms(3)] by (simp add: index_parse_def index_bytes_def Let_def)
qed

lemma index_entry_words:
  assumes "p < length cs" "base + length (chunk_bytes cs) < 2 ^ 64"
  shows "index_entry (Written (index_words base cs)) p =
    Inr (map_option (\<lambda>b. (base + length (chunk_bytes (take p cs)), base + length (chunk_bytes (take p cs)) + length b)) (cs ! p))"
proof -
  let ?ws = "index_words base cs"
  have "slice_of ?ws (p * 2) (p * 2 + 2) = Some [?ws ! (2 * p), ?ws ! Suc (2 * p)]"
    using assms(1) by (simp add: slice_of_def mult.commute take_Suc_conv_app_nth numeral_2_eq_2)
  moreover have "base + length (chunk_bytes (take p cs)) + length b < 2 ^ 64" if "cs ! p = Some b" for b
    using arg_cong [OF chunk_bytes_split [OF assms(1) that], of length] assms(2) by simp
  ultimately show ?thesis
    using index_words_nth [OF assms(1), of base]
    by (cases "cs ! p") (auto simp: index_entry_def Let_def ABSENT_def u64_add_def)
qed

text \<open>What the store answers for an object it holds: any range of it, an empty one included.\<close>

definition serves :: "'e shard_reads \<Rightarrow> string \<Rightarrow> bytes \<Rightarrow> bool" where
  "serves rd path obj \<longleftrightarrow>
     (\<forall>a b. a \<le> b \<and> b \<le> length obj \<longrightarrow> rd_range rd path a b = Inr (take (b - a) (drop a obj)))
     \<and> (\<forall>n. n \<le> length obj \<longrightarrow> rd_suffix rd path n = Inr (drop (length obj - n) obj))"

lemma index_bytes_length:
  assumes "layout_ok l" "length cs = inner_chunks_per_shard l"
  shows "length (index_bytes crc32c l base cs) = index_byte_len l"
  using layout_ok_counts [OF assms(1)] assms(2)
  by (simp add: index_bytes_def Let_def length_concat comp_def sum_list_triv)

lemma read_index_object:
  assumes "layout_ok l" "length cs = inner_chunks_per_shard l" "serves rd path (shard_object crc32c l cs)"
  shows "read_index rd l path = Inr (index_bytes crc32c l (data_start l) cs)"
  using assms index_bytes_length [OF assms(1,2)]
  by (cases "sl_index_location l") (simp_all add: read_index_def shard_object_def serves_def data_start_def Let_def)

lemma shard_object_chunk:
  assumes "layout_ok l" "length cs = inner_chunks_per_shard l" "p < length cs" "cs ! p = Some b"
  defines "a \<equiv> data_start l + length (chunk_bytes (take p cs))"
  shows "a + length b \<le> length (shard_object crc32c l cs)
    \<and> take (length b) (drop a (shard_object crc32c l cs)) = b"
  using chunk_bytes_split [OF assms(3,4)] index_bytes_length [OF assms(1,2)]
  by (cases "sl_index_location l") (simp_all add: shard_object_def a_def data_start_def)

text \<open>
  C27: a shard object that was written from its inner chunks reads back: a cold read
  of a position finds the index where the layout says it is, accepts it, and returns
  exactly the bytes of that chunk, or the not-found error for a chunk left out. The index
  it read is remembered. The store is taken to answer every range of the object, also the
  empty range of a chunk that was packed with no bytes.
\<close>
theorem shard_read_back:
  assumes "layout_ok l" "length cs = inner_chunks_per_shard l" "length (shard_object crc32c l cs) < 2 ^ 64"
    "\<And>e. crc32c e < 2 ^ 32" "serves rd (sh_path loc) (shard_object crc32c l cs)" "sh_position loc < length cs"
    "map_of cache (sh_path loc) = None"
  shows "read_inner_chunk crc32c rd l loc cache =
    Some (AList.update (sh_path loc) (Written (index_words (data_start l) cs)) cache,
      case cs ! sh_position loc of
        None \<Rightarrow> Inl (unwritten (sh_path loc) (sh_position loc))
      | Some b \<Rightarrow> Inr b)"
proof -
  let ?ws = "index_words (data_start l) cs"
  have fits: "data_start l + length (chunk_bytes cs) < 2 ^ 64"
    using assms(3) index_bytes_length [OF assms(1,2)]
    by (cases "sl_index_location l") (simp_all add: shard_object_def data_start_def)
  have resolve: "resolve_index crc32c rd l (sh_path loc) cache = Some (AList.update (sh_path loc) (Written ?ws) cache, Inr (Written ?ws))"
    using read_index_object [OF assms(1,2,5)] assms(7)
    by (simp add: resolve_index_def remember_def index_parse_bytes [OF assms(1,2) fits, of crc32c, OF assms(4)])
  show ?thesis
  proof (cases "cs ! sh_position loc")
    case None
    with resolve show ?thesis by (simp add: read_inner_chunk_def index_entry_words [OF assms(6) fits])
  next
    case (Some b)
    with shard_object_chunk [OF assms(1,2,6) Some, of crc32c] assms(5) resolve
    show ?thesis by (simp add: read_inner_chunk_def serves_def index_entry_words [OF assms(6) fits])
  qed
qed

definition demo_chunks :: "bytes option list" where
  "demo_chunks = [Some [1, 2], None, Some [3], None, None, None, None, Some [4, 5, 6]]"

definition object_reads :: "bytes \<Rightarrow> unit shard_reads" where
  "object_reads obj = \<lparr>rd_range = (\<lambda>_ a b. Inr (take (b - a) (drop a obj))), rd_suffix = (\<lambda>_ n. Inr (drop (length obj - n) obj))\<rparr>"

lemma demo_layout_ok: "layout_ok demo_layout" "length demo_chunks = inner_chunks_per_shard demo_layout"
  by (simp_all add: layout_ok_def demo_layout_def demo_chunks_def inner_chunks_per_shard_def u64_mul_def)

theorem shard_read_back_witness:
  "map_option snd (read_inner_chunk (\<lambda>e. length e mod 2 ^ 32) (object_reads (shard_object (\<lambda>e. length e mod 2 ^ 32) demo_layout demo_chunks))
     demo_layout \<lparr>sh_path = ''0/c/0/0'', sh_position = 2\<rparr> []) = Some (Inr [3])"
proof -
  let ?crc = "\<lambda>e :: bytes. length e mod 2 ^ 32" and ?loc = "\<lparr>sh_path = ''0/c/0/0'', sh_position = 2\<rparr>"
  have "length (shard_object ?crc demo_layout demo_chunks) < 2 ^ 64"
    using index_bytes_length [OF demo_layout_ok] layout_ok_counts(3) [OF demo_layout_ok(1)]
    by (simp add: shard_object_def demo_layout_def demo_chunks_def chunk_bytes_def)
  from shard_read_back [OF demo_layout_ok this, of "object_reads (shard_object ?crc demo_layout demo_chunks)" ?loc "[]"]
  show ?thesis by (simp add: serves_def object_reads_def demo_chunks_def)
qed

section \<open>Indexes are read once\<close>

text \<open>
  a shard's index is read at most once: after a read that resolved it, every later
  read of that shard gets the same index whatever the store would answer by then, a
  read that failed is not remembered, and no other shard's entry changes.
\<close>
theorem index_read_once:
  assumes "resolve_index crc32c rd l shard cache = Some (cache1, r)"
  shows "case r of
      Inl e \<Rightarrow> cache1 = cache
    | Inr index \<Rightarrow> resolve_index crc32c' rd' l' shard cache1 = Some (cache1, Inr index)
        \<and> (\<forall>other. other = shard \<or> map_of cache1 other = map_of cache other)"
proof (cases "map_of cache shard")
  case (Some index)
  with assms show ?thesis by (auto simp: resolve_index_def)
next
  case None
  have rem: "map_prod id Inr (remember shard index cache) = (AList.update shard index cache, Inr index)" for index
    using None by (simp add: remember_def)
  from None assms consider e where "r = Inl e" "cache1 = cache"
    | index where "r = Inr index" "cache1 = AList.update shard index cache"
    unfolding resolve_index_def rem
    by (auto split: sum.splits object_error.splits bind_splits)
  then show ?thesis by cases (auto simp: resolve_index_def update_conv')
qed

definition missing_reads :: "unit shard_reads" where
  "missing_reads = \<lparr>rd_range = (\<lambda>_ _ _. Inl (NotFound [] [])), rd_suffix = (\<lambda>_ _. Inl (NotFound [] []))\<rparr>"

theorem index_read_once_witness:
  "Option.bind (resolve_index (\<lambda>_. 0) missing_reads demo_layout ''s'' [])
     (\<lambda>(cache, _). resolve_index (\<lambda>_. 0) (object_reads [1]) demo_layout ''s'' cache) = Some ([(''s'', Missing)], Inr Missing)"
proof -
  have r: "resolve_index (\<lambda>_. 0) missing_reads demo_layout ''s'' [] = Some ([(''s'', Missing)], Inr Missing)"
    by (simp add: resolve_index_def read_index_def demo_layout_def remember_def missing_reads_def)
  from index_read_once [OF r, of "\<lambda>_. 0" "object_reads [1]" demo_layout] show ?thesis unfolding r by simp
qed

section \<open>Shards with an empty axis\<close>

lemma split_panics: "for_each split_axis zs st = None \<longleftrightarrow> (\<exists>z \<in> set zs. snd z = 0)"
proof (induction zs arbitrary: st)
  case (Cons z zs)
  obtain c n sh p where "z = (c, n)" "st = (sh, p)" by (cases z, cases st)
  with Cons show ?case by (cases "n = 0") (simp_all add: split_axis_def)
qed simp

lemma tiled_axes:
  "untiled_axis k inner shard = None \<Longrightarrow> length inner = length shard \<Longrightarrow>
     (\<exists>n \<in> set (map2 (div) shard inner). n = 0) \<longleftrightarrow> 0 \<in> set shard"
proof (induction k inner shard rule: untiled_axis.induct)
  case (1 axis i "is" s ss)
  then have "s div i = 0 \<longleftrightarrow> s = 0" by (auto simp: div_eq_0_iff split: if_splits)
  with 1 show ?case by (auto split: if_splits)
qed auto

text \<open>
  the check that the inner chunks tile the shard lets a shard shape with a zero axis
  through, and that is exactly when locating any inner chunk of the level divides by zero.
\<close>
theorem empty_shard_axis_panics:
  assumes "untiled_axis 0 inner shard = None" "length inner = length shard" "length coords = length shard"
  shows "split_coords (map2 (div) shard inner) coords = None \<longleftrightarrow> 0 \<in> set shard"
proof -
  have "(\<exists>z \<in> set (zip coords ns). snd z = 0) \<longleftrightarrow> (\<exists>n \<in> set ns. n = 0)" if "length coords = length ns" for ns :: "nat list"
    using that by (induction coords ns rule: list_induct2) auto
  with assms tiled_axes [OF assms(1,2)] show ?thesis by (simp add: split_coords_def split_panics)
qed

theorem empty_shard_axis_panics_witness:
  "untiled_axis 0 [4, 4] [8, 0] = None \<and> split_coords (map2 (div) [8, 0] [4, 4]) [1, 1] = None"
  using empty_shard_axis_panics [of "[4, 4]" "[8, 0]" "[1, 1]"] by simp

end
