(* ===== verification/ByteLayout.thy ===== *)
theory ByteLayout
  imports Codec ChunkPath
begin

text \<open>
  Where one wire chunk lies in a decompressed chunk (\<^verbatim>\<open>lucida-store/src/layout.rs\<close>): the
  byte layout of a level, the slice of a timepoint and channel, and the import-time check
  that the slice is contiguous. Sizes are \<^verbatim>\<open>usize\<close> on a 64-bit target, products run in
  saturating \<^verbatim>\<open>u128\<close>. Axis names are compared in lower case, which for the five canonical
  names is the ASCII one.
\<close>

record byte_layout =
  bl_canonical_byte_size :: nat
  bl_on_disk_byte_size :: nat
  bl_byte_stride_t :: nat
  bl_byte_stride_c :: nat
  bl_chunk_size_t :: nat
  bl_chunk_size_c :: nat

definition usize_mul :: "nat \<Rightarrow> nat \<Rightarrow> nat" where
  "usize_mul a b = min (a * b) (2 ^ 64 - 1)"

definition usize_add :: "nat \<Rightarrow> nat \<Rightarrow> nat" where
  "usize_add a b = min (a + b) (2 ^ 64 - 1)"

definition u128_mul :: "nat \<Rightarrow> nat \<Rightarrow> nat" where
  "u128_mul a b = min (a * b) (2 ^ 128 - 1)"

definition slice_range :: "byte_layout \<Rightarrow> nat \<Rightarrow> nat \<Rightarrow> nat \<times> nat" where
  "slice_range l wire_t wire_c =
     (let intra_t = (if bl_chunk_size_t l > 1 then wire_t mod bl_chunk_size_t l else 0);
          intra_c = (if bl_chunk_size_c l > 1 then wire_c mod bl_chunk_size_c l else 0);
          offset = usize_add (usize_mul intra_t (bl_byte_stride_t l)) (usize_mul intra_c (bl_byte_stride_c l))
      in (offset, bl_canonical_byte_size l))"

definition is_kept_canonical :: "string \<Rightarrow> bool" where
  "is_kept_canonical n \<longleftrightarrow> n = ''z'' \<or> n = ''y'' \<or> n = ''x''"

definition is_canonical_indexed :: "string \<Rightarrow> bool" where
  "is_canonical_indexed n \<longleftrightarrow> n = ''t'' \<or> n = ''c''"

definition to_usize :: "string \<Rightarrow> nat \<Rightarrow> 'e store_error + nat" where
  "to_usize message n = (if n < 2 ^ 64 then Inr n else Inl (Metadata message))"

text \<open>The stride walk, from the last axis to the first.\<close>

fun stride_loop :: "(string \<times> nat) list \<Rightarrow> nat \<times> nat \<times> nat \<Rightarrow> 'e store_error + nat \<times> nat \<times> nat" where
  "stride_loop [] s = Inr s"
| "stride_loop ((name, dim) # zs) (st, sc, cur) =
     (let lower = lowercase name
      in res_bind (if lower = ''t'' then to_usize ''t byte stride exceeds usize'' cur else Inr st) (\<lambda>st1.
         res_bind (if lower = ''c'' then to_usize ''c byte stride exceeds usize'' cur else Inr sc) (\<lambda>sc1.
         stride_loop zs (st1, sc1, u128_mul cur dim))))"

text \<open>The eligibility walk: no outer axis of several indices after an inner one.\<close>

fun misplaced_axis :: "string set \<Rightarrow> bool \<Rightarrow> (string \<times> nat) list \<Rightarrow> (string \<times> nat \<times> bool) option" where
  "misplaced_axis pinned seen [] = None"
| "misplaced_axis pinned seen ((name, dim) # zs) =
     (if dim \<le> 1 then misplaced_axis pinned seen zs
      else if lowercase name \<in> pinned \<or> is_canonical_indexed (lowercase name)
      then if seen then Some (name, dim, lowercase name \<in> pinned) else misplaced_axis pinned seen zs
      else misplaced_axis pinned True zs)"

definition axis_dim :: "string \<Rightarrow> (string \<times> nat) list \<Rightarrow> nat" where
  "axis_dim name zs = (case find (\<lambda>z. eq_ignore_case (fst z) name) zs of Some (_, dim) \<Rightarrow> dim | None \<Rightarrow> 1)"

definition misplaced_message :: "(string list \<Rightarrow> string) \<Rightarrow> string list \<Rightarrow> string \<times> nat \<times> bool \<Rightarrow> string" where
  "misplaced_message debug axes = (\<lambda>(name, dim, is_pinned).
     ''axis '' @ quoted name @ '' (chunk_size '' @ show_nat dim @ '') is ''
     @ (if is_pinned then ''non-canonical (pinned)'' else ''canonical-indexed (t/c)'')
     @ '' and falls in a non-prefix position; contiguous slicing requires all indexed and pinned axes to precede any ''
     @ ''kept canonical axis (z, y, x) with chunk_size > 1 (axes order: '' @ debug axes @ '')'')"

definition compute_chunk_byte_layout :: "(string list \<Rightarrow> string) \<Rightarrow> string list \<Rightarrow> nat list \<Rightarrow> nat \<Rightarrow> string list \<Rightarrow>
    'e store_error + byte_layout" where
  "compute_chunk_byte_layout debug axes chunk_shape dtype_size pinned =
     (if length axes \<noteq> length chunk_shape then
        Inl (Metadata (''axes/chunk_shape length mismatch: axes has '' @ show_nat (length axes)
          @ '' entries, chunk_shape has '' @ show_nat (length chunk_shape)))
      else
      let zs = zip axes chunk_shape;
          pinned_names = set (map lowercase pinned);
          on_disk = fold (\<lambda>(_, dim) acc. u128_mul acc dim) zs dtype_size;
          canonical = fold (\<lambda>(name, dim) acc. if is_kept_canonical (lowercase name) then u128_mul acc dim else acc) zs dtype_size
      in res_bind (to_usize ''chunk byte size exceeds usize'' on_disk) (\<lambda>on_disk_byte_size.
         res_bind (to_usize ''canonical chunk byte size exceeds usize'' canonical) (\<lambda>canonical_byte_size.
         res_bind (stride_loop (rev zs) (0, 0, dtype_size)) (\<lambda>(stride_t, stride_c, _).
         let size_t = axis_dim ''t'' zs; size_c = axis_dim ''c'' zs
         in case misplaced_axis pinned_names False zs of
              Some bad \<Rightarrow> Inl (Metadata (misplaced_message debug axes bad))
            | None \<Rightarrow>
                Inr \<lparr>bl_canonical_byte_size = canonical_byte_size, bl_on_disk_byte_size = on_disk_byte_size,
                     bl_byte_stride_t = (if size_t \<le> 1 then 0 else stride_t),
                     bl_byte_stride_c = (if size_c \<le> 1 then 0 else stride_c),
                     bl_chunk_size_t = size_t, bl_chunk_size_c = size_c\<rparr>))))"

section \<open>Row-major positions\<close>

text \<open>The element at an index, one per axis, of an array in C order.\<close>

fun linear :: "(nat \<times> nat) list \<Rightarrow> nat" where
  "linear [] = 0"
| "linear ((v, d) # r) = v * prod_list (map snd r) + linear r"

lemma linear_less: "\<forall>(v, d) \<in> set r. v < d \<Longrightarrow> linear r < prod_list (map snd r)"
proof (induction r rule: linear.induct)
  case (2 v d r)
  then have "v * prod_list (map snd r) + linear r < d * prod_list (map snd r)" by (intro mixed_radix_less) auto
  then show ?case by simp
qed simp

lemma linear_last: "\<forall>(v, d) \<in> set r. v = d - 1 \<and> 0 < d \<Longrightarrow> Suc (linear r) = prod_list (map snd r)"
proof (induction r rule: linear.induct)
  case (2 v d r)
  then have "Suc (linear r) = prod_list (map snd r)" "v = d - 1" "0 < d" by auto
  then show ?case by (cases d) (simp_all add: algebra_simps)
qed simp

fun stride_of :: "nat \<Rightarrow> string \<Rightarrow> (string \<times> nat) list \<Rightarrow> nat" where
  "stride_of dtype name [] = 0"
| "stride_of dtype name ((n, d) # r) = (if lowercase n = name then dtype * prod_list (map snd r) else stride_of dtype name r)"

definition all_positive :: "(string \<times> nat) list \<Rightarrow> bool" where
  "all_positive zs \<longleftrightarrow> (\<forall>z \<in> set zs. 0 < snd z)"

lemma stride_loop_append:
  "stride_loop (xs @ ys) s = res_bind (stride_loop xs s) (stride_loop ys)"
proof (induction xs s rule: stride_loop.induct)
  case (2 name dim zs st sc cur)
  then show ?case by (auto simp: Let_def to_usize_def)
qed simp

lemma stride_loop_rev:
  assumes "all_positive zs" "dtype * prod_list (map snd zs) < 2 ^ 64"
  shows "stride_loop (rev zs) (0, 0, dtype) =
    (Inr (stride_of dtype ''t'' zs, stride_of dtype ''c'' zs, dtype * prod_list (map snd zs)) :: 'e store_error + _)"
  using assms
proof (induction zs)
  case (Cons z zs)
  obtain n d where z: "z = (n, d)" by (cases z)
  have d: "0 < d" and pos: "all_positive zs" using Cons.prems z by (simp_all add: all_positive_def)
  have le: "dtype * prod_list (map snd zs) \<le> dtype * (d * prod_list (map snd zs))" using d by simp
  have big: "dtype * (d * prod_list (map snd zs)) < 2 ^ 64" using Cons.prems z by simp
  have IH: "stride_loop (rev zs) (0, 0, dtype) =
      (Inr (stride_of dtype ''t'' zs, stride_of dtype ''c'' zs, dtype * prod_list (map snd zs)) :: 'e store_error + _)"
    by (rule Cons.IH [OF pos le_less_trans [OF le big]])
  have "u128_mul (dtype * prod_list (map snd zs)) d = dtype * (d * prod_list (map snd zs))"
    using big by (simp add: u128_mul_def ac_simps)
  with IH le_less_trans [OF le big] show ?case by (simp add: stride_loop_append z to_usize_def Let_def)
qed simp

section \<open>The slice is contiguous\<close>

abbreviation kept :: "(string \<times> nat) list \<Rightarrow> (string \<times> nat) list" where
  "kept zs \<equiv> filter (\<lambda>z. is_kept_canonical (lowercase (fst z))) zs"

text \<open>The index of an element of the wire chunk in the stored chunk, axis by axis.\<close>

definition coord :: "nat \<Rightarrow> nat \<Rightarrow> (string \<Rightarrow> nat) \<Rightarrow> string \<Rightarrow> nat" where
  "coord ti ci inner name =
     (let n = lowercase name
      in if n = ''t'' then ti else if n = ''c'' then ci else if is_kept_canonical n then inner n else 0)"

definition at_index :: "nat \<Rightarrow> nat \<Rightarrow> (string \<Rightarrow> nat) \<Rightarrow> (string \<times> nat) list \<Rightarrow> (nat \<times> nat) list" where
  "at_index ti ci inner zs = map (\<lambda>(n, d). (coord ti ci inner n, d)) zs"

lemma coord_kept: "is_kept_canonical (lowercase n) \<Longrightarrow> coord ti ci inner n = inner (lowercase n)"
  by (auto simp: coord_def is_kept_canonical_def)

text \<open>Every axis is kept, indexed or pinned, and no axis is two of them.\<close>

definition axes_sorted_out :: "string set \<Rightarrow> (string \<times> nat) list \<Rightarrow> bool" where
  "axes_sorted_out pinned zs \<longleftrightarrow> distinct (map (lowercase \<circ> fst) zs) \<and> all_positive zs
     \<and> (\<forall>z \<in> set zs. is_kept_canonical (lowercase (fst z))
          \<noteq> (lowercase (fst z) \<in> pinned \<or> is_canonical_indexed (lowercase (fst z))))"

lemma sorted_out_Cons [simp]:
  "axes_sorted_out pinned ((n, d) # zs) \<longleftrightarrow> lowercase n \<notin> lowercase ` fst ` set zs \<and> 0 < d
     \<and> is_kept_canonical (lowercase n) \<noteq> (lowercase n \<in> pinned \<or> is_canonical_indexed (lowercase n))
     \<and> axes_sorted_out pinned zs"
  by (auto simp: axes_sorted_out_def all_positive_def image_comp)

lemma misplaced_seen: "misplaced_axis pinned True zs = None \<Longrightarrow> misplaced_axis pinned False zs = None"
  by (induction pinned True zs rule: misplaced_axis.induct) (auto split: if_splits)

lemma prod_kept:
  "misplaced_axis pinned True zs = None \<Longrightarrow> axes_sorted_out pinned zs \<Longrightarrow>
     prod_list (map snd zs) = prod_list (map snd (kept zs))"
proof (induction pinned True zs rule: misplaced_axis.induct)
  case (2 pinned name dim zs)
  then have "dim = 1" if "\<not> is_kept_canonical (lowercase name)" using that by (auto split: if_splits)
  with 2 show ?case by (cases "is_kept_canonical (lowercase name)") (auto split: if_splits)
qed simp

lemma stride_absent: "name \<notin> lowercase ` fst ` set zs \<Longrightarrow> stride_of dtype name zs = 0"
  by (induction dtype name zs rule: stride_of.induct) auto

lemma linear_slice:
  assumes "misplaced_axis pinned False zs = None" "axes_sorted_out pinned zs"
    "\<forall>z \<in> set (kept zs). inner (lowercase (fst z)) < snd z"
  shows "dtype * linear (at_index ti ci inner zs) =
    ti * stride_of dtype ''t'' zs + ci * stride_of dtype ''c'' zs + dtype * linear (at_index ti ci inner (kept zs))"
  using assms
proof (induction zs)
  case (Cons z zs)
  obtain n d where z: "z = (n, d)" by (cases z)
  have map_snd [simp]: "map snd (at_index ti ci inner ys) = map snd ys" for ys by (induction ys) (auto simp: at_index_def)
  have step: "at_index ti ci inner ((n, d) # ys) = (coord ti ci inner n, d) # at_index ti ci inner ys" for ys
    by (simp add: at_index_def)
  have so: "axes_sorted_out pinned zs" "lowercase n \<notin> lowercase ` fst ` set zs" using Cons.prems(2) by (simp_all add: z)
  have mis: "misplaced_axis pinned False zs = None"
    using Cons.prems(1) misplaced_seen [of pinned zs] by (auto simp: z split: if_splits)
  have IH: "dtype * linear (at_index ti ci inner zs) =
      ti * stride_of dtype ''t'' zs + ci * stride_of dtype ''c'' zs + dtype * linear (at_index ti ci inner (kept zs))"
    using Cons.IH [OF mis so(1)] Cons.prems(3) by (auto simp: z split: if_splits)
  show ?case
  proof (cases "is_kept_canonical (lowercase n)")
    case True
    then have v: "coord ti ci inner n = inner (lowercase n)" "lowercase n \<noteq> ''t''" "lowercase n \<noteq> ''c''"
      by (auto simp: coord_def is_kept_canonical_def)
    have "inner (lowercase n) * prod_list (map snd zs) = inner (lowercase n) * prod_list (map snd (kept zs))"
    proof (cases "d \<le> 1")
      case True
      then have "inner (lowercase n) = 0" using Cons.prems(3) \<open>is_kept_canonical (lowercase n)\<close> by (simp add: z)
      then show ?thesis by simp
    next
      case False
      then have "misplaced_axis pinned True zs = None"
        using Cons.prems(1,2) True by (simp add: z split: if_splits)
      then show ?thesis using prod_kept so(1) by simp
    qed
    with True v IH show ?thesis by (simp add: z step distrib_left)
  next
    case False
    consider "lowercase n = ''t''" | "lowercase n = ''c''" | "coord ti ci inner n = 0" "lowercase n \<noteq> ''t''" "lowercase n \<noteq> ''c''"
      using False by (auto simp: coord_def)
    then show ?thesis
    proof cases
      case 1
      with so(2) have "stride_of dtype ''t'' zs = 0" by (intro stride_absent) simp
      with 1 False IH show ?thesis by (simp add: z step coord_def distrib_left)
    next
      case 2
      with so(2) have "stride_of dtype ''c'' zs = 0" by (intro stride_absent) simp
      with 2 False IH show ?thesis by (simp add: z step coord_def distrib_left)
    next
      case 3
      with False IH show ?thesis by (simp add: z step)
    qed
  qed
qed (simp add: at_index_def)

section \<open>The computed layout\<close>

lemma axis_dim_eq:
  assumes "distinct (map (lowercase \<circ> fst) zs)" "(n, d) \<in> set zs" "eq_ignore_case n name"
  shows "axis_dim name zs = d"
  using assms
proof (induction zs)
  case (Cons z zs)
  obtain m e where z: "z = (m, e)" by (cases z)
  show ?case
  proof (cases "(n, d) = z")
    case True
    then show ?thesis using Cons.prems(3) by (auto simp: axis_dim_def)
  next
    case False
    then have "(n, d) \<in> set zs" using Cons.prems by simp
    then have "lowercase m \<noteq> lowercase n" using Cons.prems(1) by (force simp: z)
    then have "\<not> eq_ignore_case m name" using Cons.prems(3) by (simp add: eq_ignore_case_def)
    with Cons \<open>(n, d) \<in> set zs\<close> show ?thesis by (simp add: axis_dim_def z)
  qed
qed simp

lemma fold_mul_exact:
  "all_positive zs \<Longrightarrow> fold (\<lambda>(_, dim) acc. u128_mul acc dim) zs a < 2 ^ 64 \<Longrightarrow>
     fold (\<lambda>(_, dim) acc. u128_mul acc dim) zs a = a * prod_list (map snd zs)"
proof (induction zs arbitrary: a)
  case (Cons z zs)
  obtain n d where z: "z = (n, d)" by (cases z)
  have mono: "b \<le> fold (\<lambda>(_, dim) acc. u128_mul acc dim) ys b" if "all_positive ys" "b \<le> 2 ^ 128 - 1" for ys b
    using that
  proof (induction ys arbitrary: b)
    case (Cons y ys)
    have "b \<le> u128_mul b (snd y)" "u128_mul b (snd y) \<le> 2 ^ 128 - 1"
      using Cons.prems by (auto simp: u128_mul_def all_positive_def)
    with Cons show ?case by (force simp: split_beta all_positive_def intro: order_trans)
  qed simp
  have "u128_mul a d \<le> fold (\<lambda>(_, dim) acc. u128_mul acc dim) zs (u128_mul a d)"
    by (rule mono) (use Cons.prems in \<open>auto simp: z all_positive_def u128_mul_def\<close>)
  then have "u128_mul a d < 2 ^ 64" using Cons.prems(2) by (simp add: z)
  then have "u128_mul a d = a * d" by (auto simp: u128_mul_def min_def split: if_splits)
  moreover have "all_positive zs" using Cons.prems(1) by (simp add: all_positive_def)
  ultimately show ?case using Cons.IH [of "a * d"] Cons.prems(2) by (simp add: z mult.assoc)
qed simp

lemma fold_kept:
  "fold (\<lambda>(name, dim) acc. if is_kept_canonical (lowercase name) then u128_mul acc dim else acc) zs a =
     fold (\<lambda>(_, dim) acc. u128_mul acc dim) (kept zs) a"
  by (induction zs arbitrary: a) auto

text \<open>The index of the wire chunk's timepoint or channel along its axis.\<close>

definition intra :: "nat \<Rightarrow> nat \<Rightarrow> nat" where
  "intra n wire = (if n > 1 then wire mod n else 0)"

lemma slice_range_intra:
  "slice_range l t c = (usize_add (usize_mul (intra (bl_chunk_size_t l) t) (bl_byte_stride_t l))
     (usize_mul (intra (bl_chunk_size_c l) c) (bl_byte_stride_c l)), bl_canonical_byte_size l)"
  by (simp add: slice_range_def intra_def)

lemma usize_exact:
  assumes "a * b + c * d < 2 ^ 64"
  shows "usize_add (usize_mul a b) (usize_mul c d) = a * b + c * d"
proof -
  have "usize_mul a b = a * b" "usize_mul c d = c * d" using assms by (simp_all add: usize_mul_def)
  then show ?thesis using assms by (simp add: usize_add_def)
qed

lemma compute_layout_fields:
  assumes "compute_chunk_byte_layout debug axes shape dtype pinned = (Inr l :: 'e store_error + _)"
    "all_positive (zip axes shape)"
  defines "zs \<equiv> zip axes shape"
  shows "dtype * prod_list (map snd zs) < 2 ^ 64" "bl_on_disk_byte_size l = dtype * prod_list (map snd zs)"
    "bl_canonical_byte_size l = dtype * prod_list (map snd (kept zs))"
    "bl_chunk_size_t l = axis_dim ''t'' zs" "bl_chunk_size_c l = axis_dim ''c'' zs"
    "bl_byte_stride_t l = (if axis_dim ''t'' zs \<le> 1 then 0 else stride_of dtype ''t'' zs)"
    "bl_byte_stride_c l = (if axis_dim ''c'' zs \<le> 1 then 0 else stride_of dtype ''c'' zs)"
    "misplaced_axis (set (map lowercase pinned)) False zs = None"
proof -
  have pos: "all_positive zs" "all_positive (kept zs)" using assms(2) by (auto simp: zs_def all_positive_def)
  let ?d = "fold (\<lambda>(_, dim) acc. u128_mul acc dim) zs dtype"
  let ?c = "fold (\<lambda>(_, dim) acc. u128_mul acc dim) (kept zs) dtype"
  have less: "?d < 2 ^ 64" "?c < 2 ^ 64"
    using assms(1) by (auto simp: compute_chunk_byte_layout_def Let_def zs_def [symmetric] fold_kept to_usize_def split: if_splits)
  note exact = fold_mul_exact [OF pos(1) less(1)] fold_mul_exact [OF pos(2) less(2)]
  show lt: "dtype * prod_list (map snd zs) < 2 ^ 64" using exact(1) less(1) by simp
  note strides = stride_loop_rev [OF pos(1) lt]
  show "bl_on_disk_byte_size l = dtype * prod_list (map snd zs)"
    "bl_canonical_byte_size l = dtype * prod_list (map snd (kept zs))"
    "bl_chunk_size_t l = axis_dim ''t'' zs" "bl_chunk_size_c l = axis_dim ''c'' zs"
    "bl_byte_stride_t l = (if axis_dim ''t'' zs \<le> 1 then 0 else stride_of dtype ''t'' zs)"
    "bl_byte_stride_c l = (if axis_dim ''c'' zs \<le> 1 then 0 else stride_of dtype ''c'' zs)"
    "misplaced_axis (set (map lowercase pinned)) False zs = None"
    using assms(1) less
    by (auto simp: compute_chunk_byte_layout_def Let_def zs_def [symmetric] fold_kept to_usize_def exact strides
        split: if_splits option.splits)
qed

lemma at_index_range:
  assumes "axes_sorted_out pinned zs" "\<forall>z \<in> set (kept zs). inner (lowercase (fst z)) < snd z"
  shows "\<forall>(v, d) \<in> set (at_index (intra (axis_dim ''t'' zs) t) (intra (axis_dim ''c'' zs) c) inner zs). v < d"
proof -
  have "coord (intra (axis_dim ''t'' zs) t) (intra (axis_dim ''c'' zs) c) inner n < d" if z: "(n, d) \<in> set zs" for n d
  proof -
    have d: "0 < d" using assms(1) z by (force simp: axes_sorted_out_def all_positive_def)
    have dist: "distinct (map (lowercase \<circ> fst) zs)" using assms(1) by (simp add: axes_sorted_out_def)
    have dim: "axis_dim name zs = d" if "lowercase n = lowercase name" for name
      by (rule axis_dim_eq [OF dist z]) (simp add: eq_ignore_case_def that)
    have low: "lowercase ''t'' = ''t''" "lowercase ''c'' = ''c''" by (simp_all add: lowercase_def ascii_lower_def)
    have "inner (lowercase n) < d" if "is_kept_canonical (lowercase n)" using assms(2) z that by force
    then show ?thesis
      using d dim [of "''t''"] dim [of "''c''"] low by (auto simp: coord_def Let_def intra_def)
  qed
  then show ?thesis by (auto simp: at_index_def)
qed

text \<open>
  C29: the byte range served for a wire chunk is exactly its part of the stored chunk.
  When the layout of a level was accepted, the range lies inside the stored chunk and
  holds as many bytes as the kept axes span, and every element of the wire chunk lies in
  it at its own row-major place: the stored position of the element at the key's
  timepoint and channel, and at zero on the pinned axes, is the start of the range plus
  the element's position in the wire chunk.
\<close>
theorem slice_range_exact:
  assumes "compute_chunk_byte_layout debug axes shape dtype pinned = (Inr l :: 'e store_error + _)"
    "axes_sorted_out (set (map lowercase pinned)) (zip axes shape)"
  defines "zs \<equiv> zip axes shape"
  shows "fst (slice_range l t c) + snd (slice_range l t c) \<le> bl_on_disk_byte_size l
    \<and> snd (slice_range l t c) = dtype * prod_list (map snd (kept zs))
    \<and> (\<forall>inner. (\<forall>z \<in> set (kept zs). inner (lowercase (fst z)) < snd z) \<longrightarrow>
        dtype * linear (at_index (intra (bl_chunk_size_t l) t) (intra (bl_chunk_size_c l) c) inner zs)
        = fst (slice_range l t c) + dtype * linear (at_index 0 0 inner (kept zs)))"
proof -
  have "all_positive (zip axes shape)" using assms(2) by (simp add: axes_sorted_out_def)
  note L = compute_layout_fields [OF assms(1) this, folded zs_def]
  note so = assms(2) [folded zs_def]
  let ?t = "intra (bl_chunk_size_t l) t" and ?c = "intra (bl_chunk_size_c l) c"
  define off where "off = ?t * bl_byte_stride_t l + ?c * bl_byte_stride_c l"
  have kept0: "at_index a b inner (kept zs) = at_index 0 0 inner (kept zs)" for a b inner
    by (auto simp: at_index_def coord_kept)
  have strides: "?t * stride_of dtype ''t'' zs = ?t * bl_byte_stride_t l" "?c * stride_of dtype ''c'' zs = ?c * bl_byte_stride_c l"
    by (simp_all add: L(4-7) intra_def)
  have place: "dtype * linear (at_index ?t ?c inner zs) = off + dtype * linear (at_index 0 0 inner (kept zs))"
    if "\<forall>z \<in> set (kept zs). inner (lowercase (fst z)) < snd z" for inner
    unfolding linear_slice [OF L(8) so that, of dtype ?t ?c] kept0 [of ?t ?c inner] off_def strides by (rule refl)
  define top where "top n = axis_dim n zs - 1" for n
  have top: "axis_dim (lowercase n) zs = d \<and> 0 < d" if "(n, d) \<in> set (kept zs)" for n d
  proof
    have "lowercase (lowercase n) = lowercase n"
      using that by (auto simp: is_kept_canonical_def lowercase_def ascii_lower_def)
    then show "axis_dim (lowercase n) zs = d"
      using so that by (intro axis_dim_eq) (auto simp: axes_sorted_out_def eq_ignore_case_def)
    show "0 < d" using so that by (auto simp: axes_sorted_out_def all_positive_def)
  qed
  then have in_top: "\<forall>z \<in> set (kept zs). top (lowercase (fst z)) < snd z" by (force simp: top_def)
  have "Suc (linear (at_index 0 0 top (kept zs))) = prod_list (map snd (at_index 0 0 top (kept zs)))"
    using top by (intro linear_last) (auto simp: at_index_def coord_kept top_def)
  moreover have "linear (at_index ?t ?c top zs) < prod_list (map snd (at_index ?t ?c top zs))"
    using at_index_range [OF so in_top, of t c] by (intro linear_less) (simp add: L(4,5))
  moreover have snds: "map snd (at_index a b f ys) = map snd ys" for a b f ys by (induction ys) (auto simp: at_index_def)
  ultimately have lins: "Suc (linear (at_index 0 0 top (kept zs))) = prod_list (map snd (kept zs))"
    "Suc (linear (at_index ?t ?c top zs)) \<le> prod_list (map snd zs)" by (simp_all add: Suc_leI)
  have "off + dtype * prod_list (map snd (kept zs)) = dtype * Suc (linear (at_index ?t ?c top zs))"
    using place [OF in_top] unfolding lins(1) [symmetric] by simp
  also have "\<dots> \<le> dtype * prod_list (map snd zs)" using lins(2) by (rule mult_le_mono2)
  finally have inside: "off + dtype * prod_list (map snd (kept zs)) \<le> dtype * prod_list (map snd zs)" .
  then have "off < 2 ^ 64" using L(1) by simp
  then have "slice_range l t c = (off, bl_canonical_byte_size l)"
    using usize_exact unfolding slice_range_intra off_def by simp
  with place inside L(2,3) show ?thesis by auto
qed

text \<open>Five channels bundled in each chunk, and a pinned mosaic axis: channel 3 is the fourth plane.\<close>

definition demo_axes :: "string list" where
  "demo_axes = [''c'', ''m'', ''y'', ''x'']"

lemma demo_axes_out: "axes_sorted_out (set (map lowercase [''m''])) (zip demo_axes [5, 2, 4, 8])"
  by (simp add: demo_axes_def axes_sorted_out_def all_positive_def lowercase_def ascii_lower_def is_kept_canonical_def
      is_canonical_indexed_def)

theorem slice_range_exact_witness:
  "\<exists>l. compute_chunk_byte_layout concat demo_axes [5, 2, 4, 8] 2 [''m''] = (Inr l :: unit store_error + _)
     \<and> fst (slice_range l 0 3) + snd (slice_range l 0 3) \<le> bl_on_disk_byte_size l \<and> slice_range l 0 3 = (384, 64)"
proof -
  let ?l = "\<lparr>bl_canonical_byte_size = 64, bl_on_disk_byte_size = 640, bl_byte_stride_t = 0, bl_byte_stride_c = 128,
      bl_chunk_size_t = 1, bl_chunk_size_c = 5\<rparr>"
  have l: "compute_chunk_byte_layout concat demo_axes [5, 2, 4, 8] 2 [''m''] = (Inr ?l :: unit store_error + _)"
    by (simp add: compute_chunk_byte_layout_def demo_axes_def lowercase_def ascii_lower_def is_kept_canonical_def
        is_canonical_indexed_def u128_mul_def to_usize_def Let_def axis_dim_def eq_ignore_case_def)
  have "slice_range ?l 0 3 = (384, 64)" by (simp add: slice_range_def usize_add_def usize_mul_def)
  with slice_range_exact [OF l demo_axes_out, of 0 3] l show ?thesis by blast
qed

end
