(* ===== verification/ChunkRead.thy ===== *)
theory ChunkRead
  imports Blosc Shard ByteLayout
begin

text \<open>
  The path of a source chunk from its key to the bytes of one wire request
  (\<^verbatim>\<open>lucida-server/src/chunk_read.rs\<close>, \<^verbatim>\<open>binding.rs\<close>, \<^verbatim>\<open>decode.rs\<close>): the resolver, the
  storage decode, the slice of a timepoint and channel, the fill of an absent chunk and
  the assembly of a regridded chunk. The state is the resolver's memory of shard indexes.
  The codec libraries, the reads of the store, the text of an error and \<^verbatim>\<open>Path::from\<close> are
  parameters; timing and tracing are left out.
\<close>

section \<open>Parameters\<close>

record 'e store_reads = "'e shard_reads" +
  rd_bytes :: "string \<Rightarrow> 'e object_error + bytes"

record 'e chunk_env =
  ce_crc32c :: "bytes \<Rightarrow> nat"
  ce_lz4 :: "bytes \<Rightarrow> string + bytes"
  ce_zstd :: "bytes \<Rightarrow> string + bytes"
  ce_path_from :: "string \<Rightarrow> string"
  ce_error_text :: "'e object_error \<Rightarrow> string"

section \<open>Storage decode\<close>

datatype decode_error =
    Lz4Error string
  | ZstdError string
  | BloscError blosc_error
  | WrongSize nat nat

definition decode_storage_bytes :: "'e chunk_env \<Rightarrow> bytes \<Rightarrow> storage_compression \<Rightarrow> (decode_error + bytes) option" where
  "decode_storage_bytes E storage_bytes compression =
     (case compression of
        Uncompressed \<Rightarrow> Some (Inr storage_bytes)
      | Lz4 \<Rightarrow> Some (res_map_err Lz4Error (ce_lz4 E storage_bytes))
      | Zstd \<Rightarrow> Some (res_map_err ZstdError (ce_zstd E storage_bytes))
      | Blosc config \<Rightarrow> map_option (res_map_err BloscError) (decode_blosc (ce_zstd E) storage_bytes config))"

section \<open>The resolver\<close>

record regrid =
  rg_chunk_shape :: "nat list"
  rg_chunk_byte_layout :: byte_layout
  rg_stored_shape :: "nat list"

record level_info =
  li_level_index :: nat
  li_compression :: storage_compression
  li_chunk_shape :: "nat list"
  li_chunk_byte_layout :: byte_layout
  li_shard :: "shard_layout option"
  li_regrid :: "regrid option"

record image_resolver =
  ir_axes_names :: "string list"
  ir_store_prefix :: "string option"
  ir_levels :: "level_info list"

datatype chunk_location = ObjectAt string | InnerChunkAt shard_layout shard_location

definition location_path :: "chunk_location \<Rightarrow> string" where
  "location_path l = (case l of ObjectAt p \<Rightarrow> p | InnerChunkAt _ loc \<Rightarrow> sh_path loc)"

definition prefixed :: "'e chunk_env \<Rightarrow> image_resolver \<Rightarrow> string \<Rightarrow> string" where
  "prefixed E img store_path =
     (case ir_store_prefix img of
        Some prefix \<Rightarrow> ce_path_from E (prefix @ ''/'' @ store_path)
      | None \<Rightarrow> ce_path_from E store_path)"

type_synonym images = "(string \<times> image_resolver) list"

definition axes_names :: "images \<Rightarrow> string \<Rightarrow> string list option" where
  "axes_names images image_id = map_option ir_axes_names (map_of images image_id)"

definition level_info_of :: "images \<Rightarrow> string \<Rightarrow> nat \<Rightarrow> level_info option" where
  "level_info_of images image_id level = Option.bind (map_of images image_id) (\<lambda>img. index_at (ir_levels img) level)"

definition resolve_object :: "'e chunk_env \<Rightarrow> image_resolver \<Rightarrow> level_info option \<Rightarrow> string \<Rightarrow> chunk_location" where
  "resolve_object E img level key =
     (let chunk_shape = (case level of Some l \<Rightarrow> li_chunk_shape l | None \<Rightarrow> replicate (length (ir_axes_names img)) 1)
      in ObjectAt (prefixed E img (chunk_key_to_store_path key (ir_axes_names img) chunk_shape)))"

definition resolve :: "'e chunk_env \<Rightarrow> images \<Rightarrow> string \<Rightarrow> string \<Rightarrow> chunk_location option option" where
  "resolve E images image_id key =
     (case map_of images image_id of
        None \<Rightarrow> Some None
      | Some img \<Rightarrow>
          let level = index_at (ir_levels img) (parse_level_from_chunk_key key)
          in (case Option.bind level li_shard of
                None \<Rightarrow> Some (Some (resolve_object E img level key))
              | Some layout \<Rightarrow>
                  Option.bind (locate_inner_chunk (ce_path_from E) layout key (ir_axes_names img)) (\<lambda>found.
                    case found of
                      Some loc \<Rightarrow>
                        Some (Some (InnerChunkAt layout (loc\<lparr>sh_path := prefixed E img (sh_path loc)\<rparr>)))
                    | None \<Rightarrow> Some (Some (resolve_object E img level key)))))"

section \<open>Reading one location\<close>

definition read_location :: "'e chunk_env \<Rightarrow> 'e store_reads \<Rightarrow> chunk_location \<Rightarrow> index_cache \<Rightarrow>
    (index_cache \<times> ('e object_error + bytes)) option" where
  "read_location E rd loc cache =
     (case loc of
        ObjectAt path \<Rightarrow> Some (cache, rd_bytes rd path)
      | InnerChunkAt layout location \<Rightarrow> read_inner_chunk (ce_crc32c E) (shard_reads.truncate rd) layout location cache)"

fun contains_text :: "string \<Rightarrow> string \<Rightarrow> bool" where
  "contains_text needle [] = (needle = [])"
| "contains_text needle (c # cs) = (take (length needle) (c # cs) = needle \<or> contains_text needle cs)"

definition is_not_found :: "'e chunk_env \<Rightarrow> 'e object_error \<Rightarrow> bool" where
  "is_not_found E e \<longleftrightarrow>
     (case e of NotFound _ _ \<Rightarrow> True | _ \<Rightarrow> False)
     \<or> contains_text ''not found'' (ce_error_text E e)
     \<or> contains_text ''No such file or directory'' (ce_error_text E e)"

section \<open>Serving one chunk\<close>

datatype chunk_read = Present bytes | Absent nat

definition into_bytes :: "chunk_read \<Rightarrow> bytes" where
  "into_bytes r = (case r of Present bs \<Rightarrow> bs | Absent len \<Rightarrow> replicate len 0)"

datatype 'e chunk_read_error =
    UnknownImage string
  | ReadFailed "'e object_error"
  | DecodeFailed decode_error

definition slice_wire_chunk :: "bytes \<Rightarrow> byte_layout \<Rightarrow> nat \<Rightarrow> nat \<Rightarrow> bytes" where
  "slice_wire_chunk raw layout wire_t wire_c =
     (case slice_range layout wire_t wire_c of
        (offset, len) \<Rightarrow>
          if 0 < len \<and> offset + len < 2 ^ 64 \<and> offset + len \<le> length raw
          then drop offset (take (offset + len) raw)
          else raw)"

definition decode_wire_chunk :: "'e chunk_env \<Rightarrow> bytes \<Rightarrow> level_info \<Rightarrow> string \<Rightarrow> ('e chunk_read_error + bytes) option" where
  "decode_wire_chunk E storage_bytes li chunk_key =
     Option.bind (decode_storage_bytes E storage_bytes (li_compression li)) (\<lambda>r.
       case r of
         Inl e \<Rightarrow> Some (Inl (DecodeFailed e))
       | Inr raw \<Rightarrow>
           let expected = bl_on_disk_byte_size (li_chunk_byte_layout li)
           in if 0 < expected \<and> length raw \<noteq> expected
              then Some (Inl (DecodeFailed (WrongSize expected (length raw))))
              else case parse_t_c_from_chunk_key chunk_key of
                     (wire_t, wire_c) \<Rightarrow> Some (Inr (slice_wire_chunk raw (li_chunk_byte_layout li) wire_t wire_c)))"

definition unsliced_level_info :: level_info where
  "unsliced_level_info =
     \<lparr>li_level_index = 0, li_compression = Uncompressed, li_chunk_shape = [],
      li_chunk_byte_layout = \<lparr>bl_canonical_byte_size = 0, bl_on_disk_byte_size = 0, bl_byte_stride_t = 0,
        bl_byte_stride_c = 0, bl_chunk_size_t = 1, bl_chunk_size_c = 1\<rparr>,
      li_shard = None, li_regrid = None\<rparr>"

section \<open>Regridded chunks\<close>

text \<open>
  The arrays over \<^verbatim>\<open>z\<close>, \<^verbatim>\<open>y\<close> and \<^verbatim>\<open>x\<close> of \<^verbatim>\<open>RegridPlan\<close>, axis by axis.
  The end of the clipped chunk wraps at \<open>2 ^ 64\<close> as the code's sum does; the sample offsets
  inside one stored or served chunk are plain numbers, since they stay below its byte size.
\<close>

record axis_plan =
  ax_origin :: nat
  ax_served :: nat
  ax_end :: nat
  ax_stored :: nat

record regrid_plan =
  rp_level :: nat
  rp_t :: nat
  rp_c :: nat
  rp_z :: axis_plan
  rp_y :: axis_plan
  rp_x :: axis_plan
  rp_sample_bytes :: nat

definition along :: "string list \<Rightarrow> nat list \<Rightarrow> string \<Rightarrow> nat" where
  "along axes shape name =
     max 1 (case Option.bind (position_of (\<lambda>axis. eq_ignore_case axis name) axes) (index_at shape) of
              Some n \<Rightarrow> n | None \<Rightarrow> 1)"

text \<open>One axis of \<^verbatim>\<open>RegridPlan::new\<close>: the checked origin, the test against the extent, the clipped end.\<close>

definition plan_axis :: "nat \<Rightarrow> nat \<Rightarrow> nat \<Rightarrow> nat \<Rightarrow> axis_plan option" where
  "plan_axis grid served stored extent =
     (if 2 ^ 64 \<le> grid * served then None
      else if extent \<le> grid * served then None
      else Some \<lparr>ax_origin = grid * served, ax_served = served,
                 ax_end = min (u64_add (grid * served) served) extent, ax_stored = stored\<rparr>)"

definition plan_new :: "string \<Rightarrow> string list \<Rightarrow> level_info \<Rightarrow> regrid \<Rightarrow> regrid_plan option option" where
  "plan_new key axes stored rg =
     (case collect_option (map (parse_uint 64) (split_on (CHR ''/'') key)) of
        Some [level, t, c, z, y, x] \<Rightarrow>
          if t \<ge> along axes (rg_stored_shape rg) ''t'' \<or> c \<ge> along axes (rg_stored_shape rg) ''c'' then Some None
          else
            let axis = (\<lambda>grid name. plan_axis grid (along axes (rg_chunk_shape rg) name)
                          (along axes (li_chunk_shape stored) name) (along axes (rg_stored_shape rg) name))
            in (case (axis z ''z'', axis y ''y'', axis x ''x'') of
                  (Some pz, Some py, Some px) \<Rightarrow>
                    let served_samples = u64_mul (u64_mul (u64_mul 1 (ax_served pz)) (ax_served py)) (ax_served px)
                    in if served_samples = 0 then None
                       else Some (Some \<lparr>rp_level = level, rp_t = t, rp_c = c, rp_z = pz, rp_y = py, rp_x = px,
                              rp_sample_bytes = bl_canonical_byte_size (rg_chunk_byte_layout rg) div served_samples\<rparr>)
                | _ \<Rightarrow> Some None)
      | _ \<Rightarrow> Some None)"

record stored_source =
  ss_key :: string
  ss_z :: nat
  ss_y :: nat
  ss_x :: nat

text \<open>\<^verbatim>\<open>n - 1\<close> in \<^verbatim>\<open>u64\<close>\<close>

definition u64_pred :: "nat \<Rightarrow> nat" where
  "u64_pred n = (if n = 0 then 2 ^ 64 - 1 else n - 1)"

definition axis_range :: "axis_plan \<Rightarrow> nat list" where
  "axis_range a = [ax_origin a div ax_stored a..<Suc (u64_pred (ax_end a) div ax_stored a)]"

definition stored_chunks :: "regrid_plan \<Rightarrow> stored_source list" where
  "stored_chunks p =
     concat (map (\<lambda>gz. concat (map (\<lambda>gy. map (\<lambda>gx.
       \<lparr>ss_key = wire_key (rp_level p) (rp_t p) (rp_c p) gz gy gx, ss_z = gz, ss_y = gy, ss_x = gx\<rparr>)
       (axis_range (rp_x p))) (axis_range (rp_y p)))) (axis_range (rp_z p)))"

definition ax_base :: "axis_plan \<Rightarrow> nat \<Rightarrow> nat" where
  "ax_base a g = g * ax_stored a"

definition ax_lo :: "axis_plan \<Rightarrow> nat \<Rightarrow> nat" where
  "ax_lo a g = max (ax_origin a) (ax_base a g)"

definition ax_hi :: "axis_plan \<Rightarrow> nat \<Rightarrow> nat" where
  "ax_hi a g = min (ax_end a) (ax_base a g + ax_stored a)"

text \<open>One run along \<^verbatim>\<open>x\<close>; a range that does not fit is left as it is.\<close>

definition copy_run :: "bytes \<Rightarrow> nat \<Rightarrow> nat \<Rightarrow> nat \<Rightarrow> bytes \<Rightarrow> bytes" where
  "copy_run wire src dst run out =
     (if src + run \<le> length wire \<and> dst + run \<le> length out
      then take dst out @ take run (drop src wire) @ drop (dst + run) out
      else out)"

definition copy_row :: "regrid_plan \<Rightarrow> stored_source \<Rightarrow> bytes \<Rightarrow> nat \<times> nat \<Rightarrow> bytes \<Rightarrow> bytes" where
  "copy_row p s wire = (\<lambda>(z, y) out.
     let run = (ax_hi (rp_x p) (ss_x s) - ax_lo (rp_x p) (ss_x s)) * rp_sample_bytes p;
         src = ((z - ax_base (rp_z p) (ss_z s)) * ax_stored (rp_y p) + (y - ax_base (rp_y p) (ss_y s))) * ax_stored (rp_x p)
               + (ax_lo (rp_x p) (ss_x s) - ax_base (rp_x p) (ss_x s));
         dst = ((z - ax_origin (rp_z p)) * ax_served (rp_y p) + (y - ax_origin (rp_y p))) * ax_served (rp_x p)
               + (ax_lo (rp_x p) (ss_x s) - ax_origin (rp_x p))
     in copy_run wire (src * rp_sample_bytes p) (dst * rp_sample_bytes p) run out)"

definition copy_source :: "regrid_plan \<Rightarrow> stored_source \<Rightarrow> bytes \<Rightarrow> bytes \<Rightarrow> bytes" where
  "copy_source p s wire out =
     fold (copy_row p s wire)
       (List.product [ax_lo (rp_z p) (ss_z s)..<ax_hi (rp_z p) (ss_z s)] [ax_lo (rp_y p) (ss_y s)..<ax_hi (rp_y p) (ss_y s)]) out"

text \<open>The locations of all stored chunks, then their reads in the same order.\<close>

fun resolve_sources :: "'e chunk_env \<Rightarrow> images \<Rightarrow> string \<Rightarrow> stored_source list \<Rightarrow>
    ('e chunk_read_error + chunk_location list) option" where
  "resolve_sources E images image_id [] = Some (Inr [])"
| "resolve_sources E images image_id (s # ss) =
     Option.bind (resolve E images image_id (ss_key s)) (\<lambda>found.
       case found of
         None \<Rightarrow> Some (Inl (UnknownImage image_id))
       | Some loc \<Rightarrow> map_option (res_map ((#) loc)) (resolve_sources E images image_id ss))"

fun read_locations :: "'e chunk_env \<Rightarrow> 'e store_reads \<Rightarrow> chunk_location list \<Rightarrow> index_cache \<Rightarrow>
    (index_cache \<times> ('e object_error + bytes) list) option" where
  "read_locations E rd [] cache = Some (cache, [])"
| "read_locations E rd (loc # locs) cache =
     Option.bind (read_location E rd loc cache) (\<lambda>(cache1, r).
       map_option (\<lambda>(cache2, rs). (cache2, r # rs)) (read_locations E rd locs cache1))"

fun assemble :: "'e chunk_env \<Rightarrow> regrid_plan \<Rightarrow> level_info \<Rightarrow> (stored_source \<times> ('e object_error + bytes)) list \<Rightarrow> bytes \<Rightarrow> bool \<Rightarrow>
    ('e chunk_read_error + bytes \<times> bool) option" where
  "assemble E p stored [] out any_present = Some (Inr (out, any_present))"
| "assemble E p stored ((s, r) # rest) out any_present =
     (case r of
        Inl e \<Rightarrow> if is_not_found E e then assemble E p stored rest out any_present else Some (Inl (ReadFailed e))
      | Inr storage_bytes \<Rightarrow>
          Option.bind (decode_wire_chunk E storage_bytes stored (ss_key s)) (\<lambda>w.
            case w of
              Inl e \<Rightarrow> Some (Inl e)
            | Inr wire \<Rightarrow> assemble E p stored rest (copy_source p s wire out) True))"

definition read_regridded_chunk :: "'e chunk_env \<Rightarrow> 'e store_reads \<Rightarrow> images \<Rightarrow> string \<Rightarrow> string \<Rightarrow> level_info \<Rightarrow> regrid \<Rightarrow> index_cache \<Rightarrow>
    (index_cache \<times> ('e chunk_read_error + chunk_read)) option" where
  "read_regridded_chunk E rd images image_id key stored rg cache =
     (let served_len = bl_canonical_byte_size (rg_chunk_byte_layout rg)
      in case axes_names images image_id of
           None \<Rightarrow> Some (cache, Inl (UnknownImage image_id))
         | Some axes \<Rightarrow>
             Option.bind (plan_new key axes stored rg) (\<lambda>plan.
               case plan of
                 None \<Rightarrow> Some (cache, Inr (Absent served_len))
               | Some p \<Rightarrow>
                   Option.bind (resolve_sources E images image_id (stored_chunks p)) (\<lambda>locations.
                     case locations of
                       Inl e \<Rightarrow> Some (cache, Inl e)
                     | Inr locs \<Rightarrow>
                         Option.bind (read_locations E rd locs cache) (\<lambda>(cache1, reads).
                           map_option (\<lambda>r. (cache1, res_map (\<lambda>(out, any_present).
                               if any_present then Present out else Absent served_len) r))
                             (assemble E p stored (zip (stored_chunks p) reads) (replicate served_len 0) False)))))"

definition read_chunk :: "'e chunk_env \<Rightarrow> 'e store_reads \<Rightarrow> images \<Rightarrow> string \<Rightarrow> string \<Rightarrow> index_cache \<Rightarrow>
    (index_cache \<times> ('e chunk_read_error + chunk_read)) option" where
  "read_chunk E rd images image_id key cache =
     (let li = (case level_info_of images image_id (parse_level_from_chunk_key key) of
                  Some l \<Rightarrow> l | None \<Rightarrow> unsliced_level_info)
      in case li_regrid li of
           Some rg \<Rightarrow> read_regridded_chunk E rd images image_id key li rg cache
         | None \<Rightarrow>
             Option.bind (resolve E images image_id key) (\<lambda>found.
               case found of
                 None \<Rightarrow> Some (cache, Inl (UnknownImage image_id))
               | Some loc \<Rightarrow>
                   Option.bind (read_location E rd loc cache) (\<lambda>(cache1, r).
                     case r of
                       Inl e \<Rightarrow>
                         if is_not_found E e
                         then Some (cache1, Inr (Absent (bl_canonical_byte_size (li_chunk_byte_layout li))))
                         else Some (cache1, Inl (ReadFailed e))
                     | Inr storage_bytes \<Rightarrow>
                         Option.bind (decode_wire_chunk E storage_bytes li key) (\<lambda>wire.
                           Some (cache1, res_map Present wire)))))"

section \<open>Assembling a regridded chunk\<close>

text \<open>The byte \<open>k\<close> of the sample at \<open>(z, y, x)\<close> in an array of rows of \<open>sx\<close> and planes of \<open>sy\<close> rows.\<close>

definition byte_ix :: "nat \<Rightarrow> nat \<Rightarrow> nat \<Rightarrow> nat \<Rightarrow> nat \<Rightarrow> nat \<Rightarrow> nat \<Rightarrow> nat" where
  "byte_ix sy sx sb z y x k = ((z * sy + y) * sx + x) * sb + k"

lemma byte_ix_less:
  assumes "z < sz" "y < sy" "x < sx" "k < sb"
  shows "byte_ix sy sx sb z y x k < sz * sy * sx * sb"
  unfolding byte_ix_def by (intro mixed_radix_less assms)

lemma row_between:
  assumes "x < sx" "x0 + len \<le> sx"
  shows "r' * sx + x0 \<le> r * sx + x \<and> r * sx + x < r' * sx + x0 + len \<longleftrightarrow> r = r' \<and> x0 \<le> x \<and> x < x0 + (len :: nat)"
proof
  assume a: "r' * sx + x0 \<le> r * sx + x \<and> r * sx + x < r' * sx + x0 + len"
  have "\<not> r < r'"
  proof
    assume "r < r'"
    then have "Suc r * sx \<le> r' * sx" by (intro mult_le_mono1) simp
    with a assms(1) show False by simp
  qed
  moreover have "\<not> r' < r"
  proof
    assume "r' < r"
    then have "Suc r' * sx \<le> r * sx" by (intro mult_le_mono1) simp
    with a assms(2) show False by simp
  qed
  ultimately show "r = r' \<and> x0 \<le> x \<and> x < x0 + len" using a by auto
qed auto

lemma run_covers:
  assumes "y < sy" "y' < sy" "x < sx" "k < sb" "x0 + len \<le> sx"
  shows "byte_ix sy sx sb z' y' x0 0 \<le> byte_ix sy sx sb z y x k
      \<and> byte_ix sy sx sb z y x k < byte_ix sy sx sb z' y' x0 0 + len * sb
    \<longleftrightarrow> z = z' \<and> y = y' \<and> x0 \<le> x \<and> x < x0 + len"
proof -
  let ?a = "(z * sy + y) * sx + x" and ?b = "(z' * sy + y') * sx + x0"
  have lo: "?b * sb \<le> ?a * sb + k \<longleftrightarrow> ?b \<le> ?a"
  proof
    assume le: "?b * sb \<le> ?a * sb + k"
    show "?b \<le> ?a"
    proof (rule ccontr)
      assume "\<not> ?b \<le> ?a"
      then have "Suc ?a * sb \<le> ?b * sb" by (intro mult_le_mono1) simp
      with le assms(4) show False by simp
    qed
  qed (simp add: trans_le_add1)
  have hi: "?a * sb + k < (?b + len) * sb \<longleftrightarrow> ?a < ?b + len"
  proof
    assume "?a < ?b + len"
    then show "?a * sb + k < (?b + len) * sb" by (rule mixed_radix_less) (rule assms(4))
  next
    assume lt: "?a * sb + k < (?b + len) * sb"
    then have "?a * sb < (?b + len) * sb" by (rule add_lessD1)
    then show "?a < ?b + len" using assms(4) mult_less_cancel2 by blast
  qed
  have rows: "z * sy + y = z' * sy + y' \<longleftrightarrow> z = z' \<and> y = y'" using mixed_radix_inj [OF assms(1,2)] by auto
  have "byte_ix sy sx sb z' y' x0 0 + len * sb = (?b + len) * sb" by (simp add: byte_ix_def add_mult_distrib)
  then show ?thesis
    using lo hi row_between [OF assms(3,5), of "z' * sy + y'" "z * sy + y"] rows by (simp add: byte_ix_def)
qed

lemma row_end:
  assumes "r < R" "x0 + len \<le> sx"
  shows "(r * sx + x0) * sb + len * sb \<le> R * sx * (sb :: nat)"
proof -
  have "r * sx + x0 + len \<le> Suc r * sx" using assms(2) by simp
  also have "\<dots> \<le> R * sx" using assms(1) by (intro mult_le_mono1) simp
  finally have "(r * sx + x0 + len) * sb \<le> R * sx * sb" by (rule mult_le_mono1)
  then show ?thesis by (simp add: add_mult_distrib)
qed

lemma copy_run_length [simp]: "length (copy_run wire src dst run out) = length out"
  by (auto simp: copy_run_def min_def)

lemma copy_run_nth:
  assumes "src + run \<le> length wire" "dst + run \<le> length out" "j < length out"
  shows "copy_run wire src dst run out ! j =
    (if dst \<le> j \<and> j < dst + run then wire ! (src + (j - dst)) else out ! j)"
proof -
  have "length (take dst out) = dst" "length (take run (drop src wire)) = run" using assms by simp_all
  then show ?thesis using assms by (auto simp: copy_run_def nth_append)
qed

lemma div_between: "0 < d \<Longrightarrow> v div d = g \<longleftrightarrow> g * d \<le> v \<and> v < g * d + (d :: nat)"
  by (metis div_nat_eqI div_times_less_eq_dividend dividend_less_div_times mult.commute mult_Suc_right add.commute)

text \<open>A plan along one axis, and a stored chunk it overlaps.\<close>

definition axis_ok :: "axis_plan \<Rightarrow> bool" where
  "axis_ok a \<longleftrightarrow> 0 < ax_stored a \<and> ax_origin a < ax_end a \<and> ax_end a \<le> ax_origin a + ax_served a"

definition plan_ok :: "regrid_plan \<Rightarrow> bool" where
  "plan_ok p \<longleftrightarrow> axis_ok (rp_z p) \<and> axis_ok (rp_y p) \<and> axis_ok (rp_x p)"

abbreviation served_bytes :: "regrid_plan \<Rightarrow> nat" where
  "served_bytes p \<equiv> ax_served (rp_z p) * ax_served (rp_y p) * ax_served (rp_x p) * rp_sample_bytes p"

abbreviation stored_bytes :: "regrid_plan \<Rightarrow> nat" where
  "stored_bytes p \<equiv> ax_stored (rp_z p) * ax_stored (rp_y p) * ax_stored (rp_x p) * rp_sample_bytes p"

abbreviation served_ix :: "regrid_plan \<Rightarrow> nat \<Rightarrow> nat \<Rightarrow> nat \<Rightarrow> nat \<Rightarrow> nat" where
  "served_ix p \<equiv> byte_ix (ax_served (rp_y p)) (ax_served (rp_x p)) (rp_sample_bytes p)"

abbreviation stored_ix :: "regrid_plan \<Rightarrow> nat \<Rightarrow> nat \<Rightarrow> nat \<Rightarrow> nat \<Rightarrow> nat" where
  "stored_ix p \<equiv> byte_ix (ax_stored (rp_y p)) (ax_stored (rp_x p)) (rp_sample_bytes p)"

lemma lo_hi:
  assumes "axis_ok a" "ax_lo a g \<le> v" "v < ax_hi a g"
  shows "v - ax_base a g < ax_stored a" "v - ax_origin a < ax_served a" "ax_base a g \<le> v" "ax_origin a \<le> v"
  using assms by (auto simp: axis_ok_def ax_lo_def ax_hi_def)

lemma run_fits:
  assumes "axis_ok a" "ax_lo a g < ax_hi a g"
  shows "ax_lo a g - ax_base a g + (ax_hi a g - ax_lo a g) \<le> ax_stored a"
    "ax_lo a g - ax_origin a + (ax_hi a g - ax_lo a g) \<le> ax_served a"
  using assms by (auto simp: axis_ok_def ax_lo_def ax_hi_def)

text \<open>What a row of the copy does to the byte of any sample.\<close>

lemma copy_row_byte:
  assumes ok: "plan_ok p" and len: "length wire = stored_bytes p" "length out = served_bytes p"
    and zy: "ax_lo (rp_z p) (ss_z s) \<le> z" "z < ax_hi (rp_z p) (ss_z s)" "ax_lo (rp_y p) (ss_y s) \<le> y" "y < ax_hi (rp_y p) (ss_y s)"
    and xr: "ax_lo (rp_x p) (ss_x s) < ax_hi (rp_x p) (ss_x s)"
    and at: "Y < ax_served (rp_y p)" "X < ax_served (rp_x p)" "k < rp_sample_bytes p" "Z < ax_served (rp_z p)"
  shows "copy_row p s wire (z, y) out ! served_ix p Z Y X k =
    (if ax_origin (rp_z p) + Z = z \<and> ax_origin (rp_y p) + Y = y
        \<and> ax_lo (rp_x p) (ss_x s) \<le> ax_origin (rp_x p) + X \<and> ax_origin (rp_x p) + X < ax_hi (rp_x p) (ss_x s)
     then wire ! stored_ix p (z - ax_base (rp_z p) (ss_z s)) (y - ax_base (rp_y p) (ss_y s))
            (ax_origin (rp_x p) + X - ax_base (rp_x p) (ss_x s)) k
     else out ! served_ix p Z Y X k)"
proof -
  have okz: "axis_ok (rp_z p)" and oky: "axis_ok (rp_y p)" and okx: "axis_ok (rp_x p)" using ok by (simp_all add: plan_ok_def)
  note z = lo_hi [OF okz zy(1,2)] and y = lo_hi [OF oky zy(3,4)] and x = run_fits [OF okx xr]
  define sb where "sb = rp_sample_bytes p"
  define lo hi where "lo = ax_lo (rp_x p) (ss_x s)" and "hi = ax_hi (rp_x p) (ss_x s)"
  define zr yr where "zr = z - ax_base (rp_z p) (ss_z s)" and "yr = y - ax_base (rp_y p) (ss_y s)"
  define zd yd where "zd = z - ax_origin (rp_z p)" and "yd = y - ax_origin (rp_y p)"
  let ?xr = "lo - ax_base (rp_x p) (ss_x s)" and ?xd = "lo - ax_origin (rp_x p)" and ?n = "hi - lo"
  let ?src = "stored_ix p zr yr ?xr 0" and ?dst = "served_ix p zd yd ?xd 0"
  have row: "copy_row p s wire (z, y) out = copy_run wire ?src ?dst (?n * sb) out"
    by (simp add: copy_row_def Let_def byte_ix_def sb_def lo_def hi_def zr_def yr_def zd_def yd_def)
  have fits: "?src + ?n * sb \<le> length wire" "?dst + ?n * sb \<le> length out"
    unfolding len byte_ix_def sb_def zr_def yr_def zd_def yd_def lo_def hi_def
    using row_end [OF mixed_radix_less [OF z(1) y(1)] x(1)] row_end [OF mixed_radix_less [OF z(2) y(2)] x(2)] by simp_all
  have in_out: "served_ix p Z Y X k < length out" using byte_ix_less [OF at(4,1,2,3)] by (simp add: len)
  have xd: "?xd + ?n \<le> ax_served (rp_x p)" using x(2) by (simp add: lo_def hi_def)
  have ydl: "yd < ax_served (rp_y p)" using y(2) by (simp add: yd_def)
  note covers = run_covers [OF at(1) ydl at(2) at(3) xd, of zd Z]
  have ge: "ax_origin (rp_x p) \<le> lo" "ax_base (rp_x p) (ss_x s) \<le> lo" by (simp_all add: lo_def ax_lo_def)
  have cond: "Z = zd \<and> Y = yd \<and> ?xd \<le> X \<and> X < ?xd + ?n \<longleftrightarrow> ax_origin (rp_z p) + Z = z \<and> ax_origin (rp_y p) + Y = y
      \<and> lo \<le> ax_origin (rp_x p) + X \<and> ax_origin (rp_x p) + X < hi"
    using z(4) y(4) ge xr by (auto simp: zd_def yd_def lo_def hi_def)
  have "?src + (served_ix p Z Y X k - ?dst) = stored_ix p zr yr (ax_origin (rp_x p) + X - ax_base (rp_x p) (ss_x s)) k"
    if "Z = zd \<and> Y = yd \<and> ?xd \<le> X \<and> X < ?xd + ?n"
  proof -
    define d where "d = X - ?xd"
    then have X: "X = ?xd + d" using that by simp
    have "ax_origin (rp_x p) + X - ax_base (rp_x p) (ss_x s) = ?xr + d" using X ge by simp
    moreover have "served_ix p Z Y X k - ?dst = d * sb + k" using that by (simp add: X byte_ix_def add_mult_distrib sb_def)
    ultimately show ?thesis by (simp add: byte_ix_def add_mult_distrib sb_def)
  qed
  then have "copy_row p s wire (z, y) out ! served_ix p Z Y X k =
      (if Z = zd \<and> Y = yd \<and> ?xd \<le> X \<and> X < ?xd + ?n
       then wire ! stored_ix p zr yr (ax_origin (rp_x p) + X - ax_base (rp_x p) (ss_x s)) k else out ! served_ix p Z Y X k)"
    unfolding row copy_run_nth [OF fits in_out] unfolding sb_def covers by simp
  then show ?thesis unfolding cond by (simp add: lo_def hi_def zr_def yr_def)
qed

lemma copy_row_length [simp]: "length (copy_row p s wire zy out) = length out"
  by (simp add: copy_row_def Let_def split: prod.splits)

lemma copy_source_length [simp]: "length (copy_source p s wire out) = length out"
proof -
  have "length (fold (copy_row p s wire) rows out) = length out" for rows
    by (induction rows arbitrary: out) simp_all
  then show ?thesis by (simp add: copy_source_def)
qed

text \<open>Whether a stored chunk holds the sample at an offset of the declared chunk, along one axis.\<close>

definition holds_sample :: "axis_plan \<Rightarrow> nat \<Rightarrow> nat \<Rightarrow> bool" where
  "holds_sample a g v \<longleftrightarrow> ax_lo a g \<le> ax_origin a + v \<and> ax_origin a + v < ax_hi a g"

lemma holds_sample_iff:
  assumes "axis_ok a"
  shows "holds_sample a g v \<longleftrightarrow> ax_origin a + v < ax_end a \<and> (ax_origin a + v) div ax_stored a = g"
proof -
  have "(ax_origin a + v) div ax_stored a = g \<longleftrightarrow> g * ax_stored a \<le> ax_origin a + v \<and> ax_origin a + v < g * ax_stored a + ax_stored a"
    using assms by (intro div_between) (simp add: axis_ok_def)
  then show ?thesis by (auto simp: holds_sample_def ax_lo_def ax_hi_def ax_base_def)
qed

lemma copy_source_byte:
  assumes ok: "plan_ok p" and len: "length wire = stored_bytes p" "length out = served_bytes p"
    and xr: "ax_lo (rp_x p) (ss_x s) < ax_hi (rp_x p) (ss_x s)"
    and at: "Y < ax_served (rp_y p)" "X < ax_served (rp_x p)" "k < rp_sample_bytes p" "Z < ax_served (rp_z p)"
  shows "copy_source p s wire out ! served_ix p Z Y X k =
    (if holds_sample (rp_z p) (ss_z s) Z \<and> holds_sample (rp_y p) (ss_y s) Y \<and> holds_sample (rp_x p) (ss_x s) X
     then wire ! stored_ix p (ax_origin (rp_z p) + Z - ax_base (rp_z p) (ss_z s))
            (ax_origin (rp_y p) + Y - ax_base (rp_y p) (ss_y s)) (ax_origin (rp_x p) + X - ax_base (rp_x p) (ss_x s)) k
     else out ! served_ix p Z Y X k)"
proof -
  let ?w = "wire ! stored_ix p (ax_origin (rp_z p) + Z - ax_base (rp_z p) (ss_z s))
      (ax_origin (rp_y p) + Y - ax_base (rp_y p) (ss_y s)) (ax_origin (rp_x p) + X - ax_base (rp_x p) (ss_x s)) k"
  have "fold (copy_row p s wire) rows out ! served_ix p Z Y X k =
      (if (ax_origin (rp_z p) + Z, ax_origin (rp_y p) + Y) \<in> set rows \<and> holds_sample (rp_x p) (ss_x s) X
       then ?w else out ! served_ix p Z Y X k)"
    if "\<forall>(z, y) \<in> set rows. ax_lo (rp_z p) (ss_z s) \<le> z \<and> z < ax_hi (rp_z p) (ss_z s)
        \<and> ax_lo (rp_y p) (ss_y s) \<le> y \<and> y < ax_hi (rp_y p) (ss_y s)" for rows
    using that len(2)
  proof (induction rows arbitrary: out)
    case (Cons zy rows)
    obtain z y where zy: "zy = (z, y)" by (cases zy)
    have box: "ax_lo (rp_z p) (ss_z s) \<le> z" "z < ax_hi (rp_z p) (ss_z s)"
        "ax_lo (rp_y p) (ss_y s) \<le> y" "y < ax_hi (rp_y p) (ss_y s)" using Cons.prems(1) by (simp_all add: zy)
    from Cons.IH [of "copy_row p s wire zy out"] Cons.prems copy_row_byte [OF ok len(1) Cons.prems(2) box xr at]
    show ?case by (auto simp: zy holds_sample_def)
  qed simp
  then show ?thesis unfolding copy_source_def by (simp add: holds_sample_def)
qed

text \<open>What one read contributes: its wire chunk, or nothing for a chunk that was not there.\<close>

definition wire_of :: "'e chunk_env \<Rightarrow> level_info \<Rightarrow> stored_source \<times> ('e object_error + bytes) \<Rightarrow> bytes option" where
  "wire_of E stored = (\<lambda>(s, r).
     case r of
       Inl e \<Rightarrow> None
     | Inr bs \<Rightarrow> (case decode_wire_chunk E bs stored (ss_key s) of Some (Inr w) \<Rightarrow> Some w | _ \<Rightarrow> None))"

definition copy_read :: "'e chunk_env \<Rightarrow> regrid_plan \<Rightarrow> level_info \<Rightarrow> stored_source \<times> ('e object_error + bytes) \<Rightarrow> bytes \<Rightarrow> bytes" where
  "copy_read E p stored sr out = (case wire_of E stored sr of None \<Rightarrow> out | Some w \<Rightarrow> copy_source p (fst sr) w out)"

lemma assemble_fold:
  "assemble E p stored srs out any_present = Some (Inr (res, found)) \<Longrightarrow> res = fold (copy_read E p stored) srs out"
proof (induction E p stored srs out any_present rule: assemble.induct)
  case (2 E p stored s r rest out any_present)
  then show ?case by (auto simp: copy_read_def wire_of_def split: sum.splits if_splits bind_splits option.splits)
qed simp

definition cell :: "stored_source \<Rightarrow> nat \<times> nat \<times> nat" where
  "cell s = (ss_z s, ss_y s, ss_x s)"

definition cell_at :: "regrid_plan \<Rightarrow> nat \<Rightarrow> nat \<Rightarrow> nat \<Rightarrow> nat \<times> nat \<times> nat" where
  "cell_at p Z Y X = ((ax_origin (rp_z p) + Z) div ax_stored (rp_z p), (ax_origin (rp_y p) + Y) div ax_stored (rp_y p),
     (ax_origin (rp_x p) + X) div ax_stored (rp_x p))"

definition inside :: "regrid_plan \<Rightarrow> nat \<Rightarrow> nat \<Rightarrow> nat \<Rightarrow> bool" where
  "inside p Z Y X \<longleftrightarrow> ax_origin (rp_z p) + Z < ax_end (rp_z p) \<and> ax_origin (rp_y p) + Y < ax_end (rp_y p)
     \<and> ax_origin (rp_x p) + X < ax_end (rp_x p)"

lemma stored_chunks_cells:
  "map cell (stored_chunks p) = List.product (axis_range (rp_z p)) (List.product (axis_range (rp_y p)) (axis_range (rp_x p)))"
  by (simp add: stored_chunks_def product_concat_map map_concat comp_def cell_def)

lemma axis_range_iff:
  assumes "axis_ok a"
  shows "g \<in> set (axis_range a) \<longleftrightarrow> ax_lo a g < ax_hi a g"
proof -
  have d: "0 < ax_stored a" "ax_origin a < ax_end a" using assms by (simp_all add: axis_ok_def)
  have "ax_origin a div ax_stored a \<le> g \<longleftrightarrow> ax_origin a < g * ax_stored a + ax_stored a"
    using d(1) by (simp add: div_less_iff_less_mult add.commute flip: less_Suc_eq_le)
  moreover have "g \<le> (ax_end a - 1) div ax_stored a \<longleftrightarrow> g * ax_stored a < ax_end a"
    using d by (auto simp: less_eq_div_iff_mult_less_eq)
  ultimately show ?thesis using d by (auto simp: axis_range_def u64_pred_def ax_lo_def ax_hi_def ax_base_def less_Suc_eq_le)
qed

text \<open>One read against the byte of one sample.\<close>

lemma copy_read_byte:
  assumes ok: "plan_ok p" and cell: "cell (fst sr) \<in> set (map cell (stored_chunks p))"
    and wire: "\<And>w. wire_of E stored sr = Some w \<Longrightarrow> length w = stored_bytes p" and out: "length out = served_bytes p"
    and at: "Y < ax_served (rp_y p)" "X < ax_served (rp_x p)" "k < rp_sample_bytes p" "Z < ax_served (rp_z p)"
  shows "copy_read E p stored sr out ! served_ix p Z Y X k =
    (if inside p Z Y X \<and> cell (fst sr) = cell_at p Z Y X
     then (case wire_of E stored sr of
             None \<Rightarrow> out ! served_ix p Z Y X k
           | Some w \<Rightarrow> w ! stored_ix p ((ax_origin (rp_z p) + Z) mod ax_stored (rp_z p))
               ((ax_origin (rp_y p) + Y) mod ax_stored (rp_y p)) ((ax_origin (rp_x p) + X) mod ax_stored (rp_x p)) k)
     else out ! served_ix p Z Y X k)"
proof (cases "wire_of E stored sr")
  case None
  then show ?thesis by (simp add: copy_read_def)
next
  case (Some w)
  have okz: "axis_ok (rp_z p)" and oky: "axis_ok (rp_y p)" and okx: "axis_ok (rp_x p)" using ok by (simp_all add: plan_ok_def)
  have "ss_x (fst sr) \<in> set (axis_range (rp_x p))"
    using cell unfolding stored_chunks_cells by (simp add: cell_def)
  then have xr: "ax_lo (rp_x p) (ss_x (fst sr)) < ax_hi (rp_x p) (ss_x (fst sr))" using axis_range_iff [OF okx] by simp
  have holds: "holds_sample (rp_z p) (ss_z (fst sr)) Z \<and> holds_sample (rp_y p) (ss_y (fst sr)) Y \<and> holds_sample (rp_x p) (ss_x (fst sr)) X
      \<longleftrightarrow> inside p Z Y X \<and> cell (fst sr) = cell_at p Z Y X"
    using holds_sample_iff [OF okz] holds_sample_iff [OF oky] holds_sample_iff [OF okx]
    by (auto simp: inside_def cell_def cell_at_def)
  have base: "v - ax_base a (v div ax_stored a) = v mod ax_stored a" for a v by (simp add: ax_base_def minus_div_mult_eq_mod)
  show ?thesis
    using copy_source_byte [OF ok wire [OF Some] out xr at] Some holds base
    by (auto simp: copy_read_def cell_def cell_at_def)
qed

lemma copy_read_length [simp]: "length (copy_read E p stored sr out) = length out"
  by (simp add: copy_read_def split: option.splits)

lemma fold_copy_length [simp]: "length (fold (copy_read E p stored) srs out) = length out"
  by (induction srs arbitrary: out) simp_all

definition stored_byte :: "regrid_plan \<Rightarrow> nat \<Rightarrow> nat \<Rightarrow> nat \<Rightarrow> nat \<Rightarrow> bytes option \<Rightarrow> u8" where
  "stored_byte p Z Y X k wire =
     (case wire of
        None \<Rightarrow> 0
      | Some w \<Rightarrow> w ! stored_ix p ((ax_origin (rp_z p) + Z) mod ax_stored (rp_z p))
          ((ax_origin (rp_y p) + Y) mod ax_stored (rp_y p)) ((ax_origin (rp_x p) + X) mod ax_stored (rp_x p)) k)"

lemma fold_copy_byte:
  assumes "plan_ok p" "Y < ax_served (rp_y p)" "X < ax_served (rp_x p)" "k < rp_sample_bytes p" "Z < ax_served (rp_z p)"
    "length out = served_bytes p" "set (map (cell \<circ> fst) srs) \<subseteq> set (map cell (stored_chunks p))"
    "distinct (map (cell \<circ> fst) srs)" "\<And>sr w. sr \<in> set srs \<Longrightarrow> wire_of E stored sr = Some w \<Longrightarrow> length w = stored_bytes p"
    "out ! served_ix p Z Y X k = 0"
  shows "(\<forall>sr \<in> set srs. inside p Z Y X \<longrightarrow> cell (fst sr) = cell_at p Z Y X \<longrightarrow>
      fold (copy_read E p stored) srs out ! served_ix p Z Y X k = stored_byte p Z Y X k (wire_of E stored sr))
    \<and> (\<not> (inside p Z Y X \<and> cell_at p Z Y X \<in> set (map (cell \<circ> fst) srs)) \<longrightarrow>
      fold (copy_read E p stored) srs out ! served_ix p Z Y X k = 0)"
  using assms(6-10)
proof (induction srs rule: rev_induct)
  case (snoc sr srs)
  have "cell (fst sr) \<in> set (map cell (stored_chunks p))" using snoc.prems(2) by simp
  note step = copy_read_byte [OF assms(1) this, of E stored "fold (copy_read E p stored) srs out",
      OF snoc.prems(4) [of sr] _ assms(2-5)]
  have IH: "(\<forall>sr \<in> set srs. inside p Z Y X \<longrightarrow> cell (fst sr) = cell_at p Z Y X \<longrightarrow>
      fold (copy_read E p stored) srs out ! served_ix p Z Y X k = stored_byte p Z Y X k (wire_of E stored sr))
    \<and> (\<not> (inside p Z Y X \<and> cell_at p Z Y X \<in> set (map (cell \<circ> fst) srs)) \<longrightarrow>
      fold (copy_read E p stored) srs out ! served_ix p Z Y X k = 0)"
    using snoc.prems by (intro snoc.IH) auto
  have fresh: "cell (fst sr) \<notin> set (map (cell \<circ> fst) srs)" using snoc.prems(3) by simp
  show ?case
  proof (cases "inside p Z Y X \<and> cell (fst sr) = cell_at p Z Y X")
    case True
    then have "fold (copy_read E p stored) srs out ! served_ix p Z Y X k = 0" using IH fresh by simp
    then have "fold (copy_read E p stored) (srs @ [sr]) out ! served_ix p Z Y X k = stored_byte p Z Y X k (wire_of E stored sr)"
      using step snoc.prems(1) True by (simp add: stored_byte_def split: option.splits)
    with True fresh show ?thesis by force
  next
    case False
    then have "fold (copy_read E p stored) (srs @ [sr]) out ! served_ix p Z Y X k = fold (copy_read E p stored) srs out ! served_ix p Z Y X k"
      using step snoc.prems(1) by auto
    with IH False show ?thesis by auto
  qed
qed simp


text \<open>A row of four samples served from two stored chunks of two, the second never written.\<close>

definition demo_plan :: regrid_plan where
  "demo_plan = \<lparr>rp_level = 0, rp_t = 0, rp_c = 0,
     rp_z = \<lparr>ax_origin = 0, ax_served = 1, ax_end = 1, ax_stored = 1\<rparr>,
     rp_y = \<lparr>ax_origin = 0, ax_served = 1, ax_end = 1, ax_stored = 1\<rparr>,
     rp_x = \<lparr>ax_origin = 0, ax_served = 4, ax_end = 3, ax_stored = 2\<rparr>, rp_sample_bytes = 1\<rparr>"

definition demo_stored :: level_info where
  "demo_stored = unsliced_level_info"

definition demo_env :: "unit chunk_env" where
  "demo_env = \<lparr>ce_crc32c = (\<lambda>_. 0), ce_lz4 = Inr, ce_zstd = Inr, ce_path_from = id, ce_error_text = (\<lambda>_. [])\<rparr>"

definition demo_reads :: "(unit object_error + bytes) list" where
  "demo_reads = [Inr [7, 8], Inl (NotFound [] [])]"

lemma demo_sources: "stored_chunks demo_plan =
    [\<lparr>ss_key = wire_key 0 0 0 0 0 0, ss_z = 0, ss_y = 0, ss_x = 0\<rparr>, \<lparr>ss_key = wire_key 0 0 0 0 0 1, ss_z = 0, ss_y = 0, ss_x = 1\<rparr>]"
  by (simp add: stored_chunks_def demo_plan_def axis_range_def u64_pred_def)

lemma demo_wire: "decode_wire_chunk demo_env bs demo_stored key = Some (Inr bs)"
  by (simp add: decode_wire_chunk_def decode_storage_bytes_def demo_stored_def unsliced_level_info_def slice_wire_chunk_def
      slice_range_def split: prod.splits)

lemma demo_assembled:
  "assemble demo_env demo_plan demo_stored (zip (stored_chunks demo_plan) demo_reads) (replicate (served_bytes demo_plan) 0) False
     = Some (Inr ([7, 8, 0, 0], True))"
  unfolding demo_sources demo_reads_def
  by (simp add: demo_wire is_not_found_def copy_source_def copy_row_def copy_run_def demo_plan_def ax_lo_def ax_hi_def ax_base_def
      numeral_eq_Suc)


section \<open>Every served chunk has the declared size\<close>

text \<open>A layout whose slices lie inside the stored chunk, as the import accepts them.\<close>

definition layout_fits :: "byte_layout \<Rightarrow> bool" where
  "layout_fits l \<longleftrightarrow> 0 < bl_canonical_byte_size l \<and> bl_on_disk_byte_size l < 2 ^ 64
     \<and> (\<forall>t c. fst (slice_range l t c) + snd (slice_range l t c) \<le> bl_on_disk_byte_size l)"

lemma slice_range_size: "snd (slice_range l t c) = bl_canonical_byte_size l"
  by (simp add: slice_range_def Let_def)

lemma wire_size:
  assumes "layout_fits (li_chunk_byte_layout li)" "decode_wire_chunk E bs li key = Some (Inr w)"
  shows "length w = bl_canonical_byte_size (li_chunk_byte_layout li)"
proof -
  let ?l = "li_chunk_byte_layout li"
  obtain t c where tc: "parse_t_c_from_chunk_key key = (t, c)" by (meson surj_pair)
  obtain off where sl: "slice_range ?l t c = (off, bl_canonical_byte_size ?l)"
    using slice_range_size [of ?l t c] by (metis prod.collapse)
  then have fits: "off + bl_canonical_byte_size ?l \<le> bl_on_disk_byte_size ?l" "0 < bl_canonical_byte_size ?l"
      "bl_on_disk_byte_size ?l < 2 ^ 64"
    using assms(1) unfolding layout_fits_def by (metis fst_conv snd_conv, simp_all)
  from assms(2) tc fits obtain raw where "length raw = bl_on_disk_byte_size ?l" "w = slice_wire_chunk raw ?l t c"
    by (auto simp: decode_wire_chunk_def Let_def split: bind_splits sum.splits if_splits)
  with fits sl show ?thesis by (simp add: slice_wire_chunk_def)
qed

lemma assemble_length:
  "assemble E p stored srs out any_present = Some (Inr (res, found)) \<Longrightarrow> length res = length out"
  using assemble_fold [of E p stored srs out any_present res found] by simp

lemma regridded_size:
  assumes "read_regridded_chunk E rd images image_id key stored rg cache = Some (cache1, Inr r)"
  shows "length (into_bytes r) = bl_canonical_byte_size (rg_chunk_byte_layout rg)"
proof -
  have len: "length res = n" if "assemble E p stored srs (replicate n 0) False = Some (Inr (res, found))" for p srs n res found
    using assemble_length [OF that] by simp
  from assms consider "r = Absent (bl_canonical_byte_size (rg_chunk_byte_layout rg))"
    | p reads res found where "assemble E p stored (zip (stored_chunks p) reads)
        (replicate (bl_canonical_byte_size (rg_chunk_byte_layout rg)) 0) False = Some (Inr (res, found))" "r = Present res"
    unfolding read_regridded_chunk_def Let_def
    by (auto simp: res_map_Inr split: option.splits bind_splits sum.splits if_splits)
  then show ?thesis by cases (simp_all add: into_bytes_def len)
qed

text \<open>
  a chunk request is answered with exactly one declared chunk's worth of bytes or with
  an error, never with a short or a long buffer: decoded and cut down, assembled, or
  filled with zeros.
\<close>
theorem served_size:
  assumes "read_chunk E rd images image_id key cache = Some (cache1, Inr r)"
    "level_info_of images image_id (parse_level_from_chunk_key key) = Some li"
    "layout_fits (li_chunk_byte_layout li)"
  shows "length (into_bytes r) =
    (case li_regrid li of
       None \<Rightarrow> bl_canonical_byte_size (li_chunk_byte_layout li)
     | Some rg \<Rightarrow> bl_canonical_byte_size (rg_chunk_byte_layout rg))"
proof (cases "li_regrid li")
  case (Some rg)
  with assms(1,2) regridded_size show ?thesis by (simp add: read_chunk_def)
next
  case None
  with assms(1,2) consider "r = Absent (bl_canonical_byte_size (li_chunk_byte_layout li))"
    | bs w where "decode_wire_chunk E bs li key = Some (Inr w)" "r = Present w"
    by (auto simp: read_chunk_def res_map_Inr split: option.splits bind_splits sum.splits if_splits)
  then show ?thesis by cases (simp_all add: None into_bytes_def wire_size [OF assms(3)])
qed

text \<open>An image of one level of two-byte chunks, and a store that holds every object.\<close>

definition demo_level :: level_info where
  "demo_level =
     \<lparr>li_level_index = 0, li_compression = Uncompressed, li_chunk_shape = [1, 1, 1, 1, 2],
      li_chunk_byte_layout = \<lparr>bl_canonical_byte_size = 2, bl_on_disk_byte_size = 2, bl_byte_stride_t = 0,
        bl_byte_stride_c = 0, bl_chunk_size_t = 1, bl_chunk_size_c = 1\<rparr>,
      li_shard = None, li_regrid = None\<rparr>"

definition demo_images :: images where
  "demo_images = [(''image'', \<lparr>ir_axes_names = ALL_DIMS, ir_store_prefix = None, ir_levels = [demo_level]\<rparr>)]"

definition demo_store :: "unit store_reads" where
  "demo_store = \<lparr>rd_range = \<lambda>_ _ _. Inr [], rd_suffix = \<lambda>_ _. Inr [], rd_bytes = \<lambda>_. Inr [7, 8]\<rparr>"

lemma demo_level_info: "level_info_of demo_images ''image'' (parse_level_from_chunk_key (wire_key 0 0 0 0 0 0)) = Some demo_level"
  by (simp add: parse_wire_key level_info_of_def demo_images_def index_at_def)

lemma demo_served:
  "read_chunk demo_env demo_store demo_images ''image'' (wire_key 0 0 0 0 0 0) [] = Some ([], Inr (Present [7, 8]))"
proof -
  have wire: "decode_wire_chunk demo_env [7, 8] demo_level key = Some (Inr [7, 8])" for key
    by (simp add: decode_wire_chunk_def decode_storage_bytes_def demo_level_def Let_def slice_wire_chunk_def slice_range_def split: prod.splits)
  have "resolve demo_env demo_images ''image'' (wire_key 0 0 0 0 0 0)
      = Some (Some (ObjectAt (chunk_key_to_store_path (wire_key 0 0 0 0 0 0) ALL_DIMS [1, 1, 1, 1, 2])))"
    by (simp add: resolve_def parse_wire_key demo_images_def index_at_def resolve_object_def prefixed_def demo_env_def demo_level_def)
  moreover have "read_location demo_env demo_store (ObjectAt path) [] = Some ([], Inr [7, 8])" for path
    by (simp add: read_location_def demo_store_def)
  moreover have "li_regrid demo_level = None" by (simp add: demo_level_def)
  ultimately show ?thesis using wire by (simp add: read_chunk_def demo_level_info)
qed

theorem served_size_witness: "length (into_bytes (Present [7, 8])) = bl_canonical_byte_size (li_chunk_byte_layout demo_level)"
proof -
  have "layout_fits (li_chunk_byte_layout demo_level)"
    by (simp add: layout_fits_def demo_level_def slice_range_def Let_def usize_add_def usize_mul_def)
  then show ?thesis using served_size [OF demo_served demo_level_info] by (simp add: demo_level_def)
qed

section \<open>No chunk request panics\<close>

lemma index_parse_total: "\<exists>r. index_parse crc32c bs l shard = Some r"
proof (cases "length bs = index_byte_len l")
  case True
  let ?e = "u64_mul (inner_chunks_per_shard l) INDEX_ENTRY_BYTES"
  have "16 dvd ?e" unfolding u64_mul_def INDEX_ENTRY_BYTES_def by (rule dvd_mod) simp_all
  moreover have "?e < 2 ^ 64" by (simp add: u64_mul_def)
  ultimately have "u64_add ?e 4 = ?e + 4" by (auto simp: u64_add_def dvd_def)
  with True show ?thesis
    by (auto simp: index_parse_def Let_def index_byte_len_def CHECKSUM_BYTES_def split: option.splits)
qed (simp add: index_parse_def Let_def)

definition level_ok :: "string list \<Rightarrow> level_info \<Rightarrow> bool" where
  "level_ok axes li \<longleftrightarrow>
     (case li_shard li of None \<Rightarrow> True | Some l \<Rightarrow> 0 \<notin> set (sl_chunks_per_shard l))
     \<and> (case li_regrid li of
          None \<Rightarrow> True
        | Some rg \<Rightarrow> along axes (rg_chunk_shape rg) ''z'' * along axes (rg_chunk_shape rg) ''y'' * along axes (rg_chunk_shape rg) ''x'' < 2 ^ 64)"

definition images_ok :: "images \<Rightarrow> bool" where
  "images_ok images \<longleftrightarrow> list_all (\<lambda>(_, img). list_all (level_ok (ir_axes_names img)) (ir_levels img)) images"

lemma images_okD:
  assumes "images_ok images" "map_of images image_id = Some img" "index_at (ir_levels img) level = Some li"
  shows "level_ok (ir_axes_names img) li"
proof -
  have "li \<in> set (ir_levels img)" using assms(3) by (auto simp: index_at_def split: if_splits)
  then show ?thesis using assms(1) map_of_SomeD [OF assms(2)] by (fastforce simp: images_ok_def list_all_iff)
qed

lemma locate_total:
  assumes "0 \<notin> set (sl_chunks_per_shard l)"
  shows "\<exists>r. locate_inner_chunk path_from l key axes = Some r"
proof -
  have "for_each split_axis (zip inner (sl_chunks_per_shard l)) st \<noteq> None" for inner st
    using assms by (metis set_zip_rightD split_panics surj_pair snd_conv)
  then show ?thesis by (auto simp: locate_inner_chunk_def split_coords_def split: option.splits prod.splits)
qed

lemma resolve_total:
  assumes "images_ok images"
  shows "\<exists>r. resolve E images image_id key = Some r"
proof (cases "map_of images image_id")
  case (Some img)
  let ?level = "index_at (ir_levels img) (parse_level_from_chunk_key key)"
  show ?thesis
  proof (cases "Option.bind ?level li_shard")
    case None
    with Some show ?thesis by (simp add: resolve_def Let_def)
  next
    case layout: (Some l)
    then obtain li where "?level = Some li" "li_shard li = Some l" by (auto simp: bind_eq_Some_conv)
    then have "0 \<notin> set (sl_chunks_per_shard l)" using images_okD [OF assms Some] by (fastforce simp: level_ok_def)
    then obtain r where "locate_inner_chunk (ce_path_from E) l key (ir_axes_names img) = Some r" using locate_total by blast
    with Some layout show ?thesis by (simp add: resolve_def Let_def split: option.splits)
  qed
qed (simp add: resolve_def)

lemma read_location_total: "\<exists>c r. read_location (E :: 'a chunk_env) rd loc cache = Some (c, r)"
proof -
  have "\<exists>c r. resolve_index (ce_crc32c E) (shard_reads.truncate rd) l shard cache = Some (c, r)" for l shard
  proof (cases "map_of cache shard")
    case None
    show ?thesis
    proof (cases "read_index (shard_reads.truncate rd) l shard")
      case (Inl e)
      with None show ?thesis by (cases e) (simp_all add: resolve_index_def)
    next
      case (Inr bs)
      obtain f :: "'a object_error + shard_index" where "index_parse (ce_crc32c E) bs l shard = Some f" using index_parse_total by blast
      with None Inr show ?thesis by (cases f) (simp_all add: resolve_index_def)
    qed
  qed (simp add: resolve_index_def)
  note index = this
  show ?thesis
  proof (cases loc)
    case (InnerChunkAt l at)
    obtain c r where cr: "resolve_index (ce_crc32c E) (shard_reads.truncate rd) l (sh_path at) cache = Some (c, r)" using index by blast
    show ?thesis
    proof (cases r)
      case (Inr ix)
      with InnerChunkAt cr show ?thesis
        by (cases "index_entry ix (sh_position at) :: 'a object_error + _") (auto simp: read_location_def read_inner_chunk_def split: option.splits)
    qed (use InnerChunkAt cr in \<open>simp add: read_location_def read_inner_chunk_def\<close>)
  qed (simp add: read_location_def)
qed

lemma decode_wire_total: "\<exists>r. decode_wire_chunk E bs li key = Some r"
proof -
  have "\<exists>r. decode_storage_bytes E bs (li_compression li) = Some r"
    using decode_blosc_outcome [of "ce_zstd E" bs] by (auto simp: decode_storage_bytes_def split: storage_compression.splits)
  then show ?thesis by (auto simp: decode_wire_chunk_def Let_def split: sum.splits prod.splits)
qed

lemma resolve_sources_total:
  assumes "images_ok images"
  shows "\<exists>r. resolve_sources E images image_id ss = Some r"
proof -
  obtain f where "resolve E images image_id key = Some (f key)" for key using resolve_total [OF assms] by metis
  then show ?thesis by (induction ss) (auto split: option.splits)
qed

lemma read_locations_total: "\<exists>c rs. read_locations E rd locs cache = Some (c, rs)"
proof (induction locs arbitrary: cache)
  case (Cons loc locs)
  obtain c r where "read_location E rd loc cache = Some (c, r)" using read_location_total by blast
  moreover obtain c' rs where "read_locations E rd locs c = Some (c', rs)" using Cons by blast
  ultimately show ?case by simp
qed simp

lemma assemble_total: "\<exists>r. assemble E p stored srs out any_present = Some r"
proof (induction E p stored srs out any_present rule: assemble.induct)
  case (2 E p stored s r rest out any_present)
  show ?case
  proof (cases r)
    case (Inr bs)
    obtain w where "decode_wire_chunk E bs stored (ss_key s) = Some w" using decode_wire_total by blast
    with Inr 2(2) show ?thesis by (cases w) simp_all
  qed (use 2(1) in simp)
qed simp

lemma along_pos: "0 < along axes shape name"
  by (simp add: along_def)

lemma plan_new_total:
  assumes "along axes (rg_chunk_shape rg) ''z'' * along axes (rg_chunk_shape rg) ''y'' * along axes (rg_chunk_shape rg) ''x'' < 2 ^ 64"
  shows "\<exists>r. plan_new key axes stored rg = Some r"
proof -
  let ?z = "along axes (rg_chunk_shape rg) ''z''" and ?y = "along axes (rg_chunk_shape rg) ''y''" and ?x = "along axes (rg_chunk_shape rg) ''x''"
  have pos: "0 < ?z" "0 < ?y" "0 < ?x" by (simp_all add: along_pos)
  have "?z * ?y \<le> ?z * ?y * ?x" "?z \<le> ?z * ?y" using pos by simp_all
  then have "?z * ?y < 2 ^ 64" "?z < 2 ^ 64" using assms by linarith+
  then have "u64_mul (u64_mul (u64_mul 1 ?z) ?y) ?x = ?z * ?y * ?x"
    unfolding u64_mul_def by (simp only: mult_1 mod_less assms)
  with pos have "u64_mul (u64_mul (u64_mul 1 ?z) ?y) ?x \<noteq> 0" by simp
  moreover have "ax_served a = s" if "plan_axis g s st e = Some a" for g s st e a
    using that by (auto simp: plan_axis_def split: if_splits)
  ultimately show ?thesis by (auto simp: plan_new_def Let_def split: option.splits list.splits)
qed

text \<open>
  C30: no chunk request panics, whatever the key, the store's answers and the remembered
  shard indexes are, on levels whose shards hold a chunk on every axis and whose served
  chunk has fewer than \<open>2 ^ 64\<close> samples.
\<close>
theorem read_chunk_total:
  assumes "images_ok images"
  shows "\<exists>cache1 r. read_chunk E rd images image_id key cache = Some (cache1, r)"
proof (cases "map_of images image_id")
  case None
  then show ?thesis by (simp add: read_chunk_def level_info_of_def unsliced_level_info_def resolve_def)
next
  case (Some img)
  define li where "li = (case level_info_of images image_id (parse_level_from_chunk_key key) of Some l \<Rightarrow> l | None \<Rightarrow> unsliced_level_info)"
  have ok: "level_ok (ir_axes_names img) li"
  proof (cases "index_at (ir_levels img) (parse_level_from_chunk_key key)")
    case (Some l)
    with images_okD [OF assms \<open>map_of images image_id = Some img\<close>] show ?thesis
      by (simp add: li_def level_info_of_def \<open>map_of images image_id = Some img\<close>)
  qed (simp add: li_def level_info_of_def Some level_ok_def unsliced_level_info_def)
  obtain found where found: "resolve E images image_id key = Some found" using resolve_total [OF assms] by blast
  have read: "\<exists>c r. read_location E rd loc cache = Some (c, r)" for loc by (rule read_location_total)
  show ?thesis
  proof (cases "li_regrid li")
    case None
    show ?thesis
    proof (cases found)
      case (Some loc)
      obtain c r where r: "read_location E rd loc cache = Some (c, r)" using read by blast
      show ?thesis
      proof (cases r)
        case (Inr bs)
        obtain w where "decode_wire_chunk E bs li key = Some w" using decode_wire_total by blast
        with None r Inr found Some show ?thesis by (simp add: read_chunk_def li_def [symmetric])
      qed (use None r found Some in \<open>simp add: read_chunk_def li_def [symmetric]\<close>)
    qed (simp add: read_chunk_def li_def [symmetric] None found)
  next
    case rg: (Some rg)
    obtain plan where plan: "plan_new key (ir_axes_names img) li rg = Some plan"
      using plan_new_total [of "ir_axes_names img" rg key li] ok rg by (auto simp: level_ok_def)
    have "\<exists>c r. read_regridded_chunk E rd images image_id key li rg cache = Some (c, r)"
    proof (cases plan)
      case (Some p)
      obtain l where l: "resolve_sources E images image_id (stored_chunks p) = Some l" using resolve_sources_total [OF assms] by blast
      note unfold = read_regridded_chunk_def axes_names_def Let_def \<open>map_of images image_id = Some img\<close> plan Some l
      show ?thesis
      proof (cases l)
        case (Inr locs)
        obtain c rs where rs: "read_locations E rd locs cache = Some (c, rs)" using read_locations_total by blast
        obtain a where "assemble E p li (zip (stored_chunks p) rs) (replicate (bl_canonical_byte_size (rg_chunk_byte_layout rg)) 0) False = Some a"
          using assemble_total by blast
        with Inr rs show ?thesis by (simp add: unfold)
      qed (simp add: unfold)
    qed (use plan \<open>map_of images image_id = Some img\<close> in \<open>simp add: read_regridded_chunk_def axes_names_def Let_def\<close>)
    with rg show ?thesis by (simp add: read_chunk_def li_def [symmetric])
  qed
qed

theorem read_chunk_total_witness:
  "\<exists>cache1 r. read_chunk demo_env demo_store demo_images ''image'' (wire_key 0 0 0 9 9 9) [] = Some (cache1, r)"
proof -
  have "images_ok demo_images" by (simp add: images_ok_def demo_images_def level_ok_def demo_level_def)
  then show ?thesis by (rule read_chunk_total)
qed

end
