(* ===== verification/Pyramid.thy ===== *)
theory Pyramid
  imports Ingest ChunkRead
begin

text \<open>
  What the conversion leaves on disk, and what the server's read path makes of it: the
  levels are those the schedule announces, each is the box average of the one before, and
  every chunk of every level is in a file of its own, where a read of its key finds it.
\<close>

section \<open>Writing one level\<close>

definition level_fits :: "nat \<times> nat \<times> nat \<Rightarrow> level_data \<Rightarrow> bool" where
  "level_fits chunk_size level \<longleftrightarrow>
     (case chunk_size of (cz, cy, cx) \<Rightarrow>
        0 < cz \<and> 0 < cy \<and> 0 < cx \<and> cx * cy * cz * 2 < 2 ^ 32 \<and> level_sized level
        \<and> ld_width level * ld_height level * ld_depth level \<le> 2 ^ 32)"

lemma grid_size_iff: "0 < c \<Longrightarrow> i < grid_size n c \<longleftrightarrow> i * c < n"
  unfolding grid_size_def using less_eq_div_iff_mult_less_eq [of c "Suc i" "n + c - 1"] by (auto simp: Suc_le_eq)

lemma level_fitsD:
  assumes "level_fits (cz, cy, cx) level"
  shows "0 < cz" "0 < cy" "0 < cx" "cx * cy * cz * 2 < 2 ^ 32" "level_sized level" "ld_width level * ld_height level * ld_depth level \<le> 2 ^ 32"
  using assms unfolding level_fits_def prod.case by blast+

lemma chunk_indices_iff:
  assumes "0 < cz" "0 < cy" "0 < cx"
  shows "(ti, ci, zi, yi, xi) \<in> set (chunk_indices level cx cy cz) \<longleftrightarrow>
    ti < ld_timepoints level \<and> ci < ld_channels level \<and> zi * cz < ld_depth level \<and> yi * cy < ld_height level \<and> xi * cx < ld_width level"
  using assms by (auto simp: chunk_indices_def grid_size_iff image_iff)

lemma chunk_indices_ok:
  assumes "level_fits (cz, cy, cx) level"
  shows "(ti, ci, zi, yi, xi) \<in> set (chunk_indices level cx cy cz) \<longleftrightarrow> chunk_ok level cx cy cz xi yi zi ti ci"
proof -
  note f = level_fitsD [OF assms]
  have "ld_width level * ld_height level * min (ld_depth level) (zi * cz + cz) \<le> ld_width level * ld_height level * ld_depth level"
    by (intro mult_le_mono2) simp
  then have "ld_width level * ld_height level * min (ld_depth level) (zi * cz + cz) \<le> 2 ^ 32" using f(6) by (rule le_trans)
  with f chunk_indices_iff [OF f(1-3)] show ?thesis unfolding chunk_ok_def by blast
qed

lemma chunk_ok_small:
  assumes "chunk_ok level cx cy cz xi yi zi ti ci" "0 < cz" "0 < cy" "0 < cx"
  shows "ti < 2 ^ 64" "ci < 2 ^ 64" "zi < 2 ^ 64" "yi < 2 ^ 64" "xi < 2 ^ 64"
proof -
  let ?w = "ld_width level" and ?h = "ld_height level" and ?d = "ld_depth level" and ?C = "ld_channels level" and ?T = "ld_timepoints level"
  note ok = assms(1) [unfolded chunk_ok_def level_sized_def]
  have "?w \<le> ?w * ?h" "?h \<le> ?w * ?h" "?d \<le> ?T * ?C * ?d" "?C \<le> ?T * ?C * ?d" "?T \<le> ?T * ?C * ?d"
    using ok by (simp_all add: Suc_leI)
  moreover have "xi \<le> xi * cx" "yi \<le> yi * cy" "zi \<le> zi * cz" using assms(2-4) by simp_all
  moreover have "?w * ?h < 2 ^ 32" "?T * ?C * ?d < 2 ^ 32" "ti < ?T" "ci < ?C" "zi * cz < ?d" "yi * cy < ?h" "xi * cx < ?w" using ok by blast+
  moreover have "(2 :: nat) ^ 32 < 2 ^ 64" by simp
  ultimately show "ti < 2 ^ 64" "ci < 2 ^ 64" "zi < 2 ^ 64" "yi < 2 ^ 64" "xi < 2 ^ 64" by linarith+
qed

definition chunk_bytes :: "level_data \<Rightarrow> nat \<times> nat \<times> nat \<Rightarrow> chunk_index \<Rightarrow> bytes" where
  "chunk_bytes level = (\<lambda>(cz, cy, cx) (ti, ci, zi, yi, xi). the (extract_chunk level cx cy cz xi yi zi ti ci))"

definition level_ops :: "(bytes \<Rightarrow> bytes) \<Rightarrow> string list \<Rightarrow> nat \<Rightarrow> level_data \<Rightarrow> nat \<times> nat \<times> nat \<Rightarrow> fs_op list" where
  "level_ops lz4 output i level chunk_size =
     (case chunk_size of (cz, cy, cx) \<Rightarrow>
        let dir = output @ [show_nat i]; indices = chunk_indices level cx cy cz
        in [CreateDirs dir, WriteJson (dir @ [''zarr.json'']) (build_array_zarr_json level chunk_size)]
           @ map CreateDirs (remdups (map (chunk_dir dir) indices))
           @ map (\<lambda>ix. WriteBytes (chunk_path dir ix) (lz4 (chunk_bytes level chunk_size ix))) indices)"

lemma write_each_ok:
  "\<forall>x \<in> set xs. f x = ([g x], Some (Inr ())) \<Longrightarrow> write_each f xs = (map g xs, Some (Inr ()))"
  by (induction xs) (auto simp: write_bind_def)

lemma attempt_ok: "io f = None \<Longrightarrow> attempt io context f = ([f], Some (Inr ()))"
  by (simp add: attempt_def)

lemma write_chunk_ok:
  assumes "chunk_ok level cx cy cz xi yi zi ti ci" "\<forall>f. io f = None"
  shows "write_chunk lz4 io dir level (cz, cy, cx) (ti, ci, zi, yi, xi) =
    ([WriteBytes (chunk_path dir (ti, ci, zi, yi, xi)) (lz4 (chunk_bytes level (cz, cy, cx) (ti, ci, zi, yi, xi)))], Some (Inr ()))"
proof -
  obtain raw where "extract_chunk level cx cy cz xi yi zi ti ci = Some raw"
    using extract_chunk_some [OF assms(1)] by blast
  with assms(2) show ?thesis by (simp add: write_chunk_def chunk_bytes_def write_bind_def lift_panic_def attempt_ok)
qed

lemma write_zarr_level_ok:
  assumes "level_fits chunk_size level" "\<forall>f. io f = None"
  shows "write_zarr_level lz4 io output i level chunk_size = (level_ops lz4 output i level chunk_size, Some (Inr ()))"
proof -
  obtain cz cy cx where cs: "chunk_size = (cz, cy, cx)" by (cases chunk_size)
  let ?dir = "output @ [show_nat i]" and ?ix = "chunk_indices level cx cy cz"
  have "write_each (write_chunk lz4 io ?dir level chunk_size) ?ix =
      (map (\<lambda>ix. WriteBytes (chunk_path ?dir ix) (lz4 (chunk_bytes level chunk_size ix))) ?ix, Some (Inr ()))"
    using chunk_indices_ok [OF assms(1) [unfolded cs]] write_chunk_ok [OF _ assms(2)]
    by (intro write_each_ok) (auto simp: cs)
  moreover have "write_each (\<lambda>dir. attempt io ''failed to create chunk dir'' (CreateDirs dir)) (remdups (map (chunk_dir ?dir) ?ix)) =
      (map CreateDirs (remdups (map (chunk_dir ?dir) ?ix)), Some (Inr ()))"
    by (intro write_each_ok) (simp add: attempt_ok assms(2))
  moreover have "0 < cz" "0 < cy" "0 < cx" using assms(1) by (simp_all add: level_fits_def cs)
  ultimately show ?thesis
    by (simp add: cs write_zarr_level_def write_json_def write_chunks_def level_ops_def Let_def write_bind_def attempt_ok assms(2))
qed

section \<open>The levels\<close>

fun pyramid_levels :: "level_data \<Rightarrow> level_spec list \<Rightarrow> level_data list" where
  "pyramid_levels current [] = [current]"
| "pyramid_levels current (spec # rest) =
     current # (case downsample current (sp_downsample_xy spec) (sp_downsample_z spec) of
                  Some level \<Rightarrow> pyramid_levels level rest
                | None \<Rightarrow> [])"

definition matches :: "level_data \<Rightarrow> level_spec \<Rightarrow> bool" where
  "matches level spec \<longleftrightarrow> ld_width level = sp_width spec \<and> ld_height level = sp_height spec \<and> ld_depth level = sp_depth spec"

lemma next_level:
  assumes "level_fits chunk_size level" "matches level (spec_at w h d i j fx fz)" "do_xy \<or> do_z"
  obtains level' where "downsample level do_xy do_z = Some level'" "level_fits chunk_size level'"
    "matches level' (spec_at w h d (if do_xy then Suc i else i) (if do_z then Suc j else j) gx gz)"
    "ld_channels level' = ld_channels level" "ld_timepoints level' = ld_timepoints level"
proof -
  obtain cz cy cx where cs: "chunk_size = (cz, cy, cx)" by (cases chunk_size)
  note fits = level_fitsD [OF assms(1) [unfolded cs]]
  from downsample_planes [OF fits(5) assms(3)] obtain level' where
    l: "downsample level do_xy do_z = Some level'" "downsampled level do_xy do_z level'" by blast
  note d = l(2) [unfolded downsampled_def]
  have "ld_width level' * ld_height level' * ld_depth level' \<le> ld_width level * ld_height level * ld_depth level"
    using d halved_bounds(2) by (auto intro!: mult_le_mono)
  then have "ld_width level' * ld_height level' * ld_depth level' \<le> 2 ^ 32" using fits(6) by (rule le_trans)
  then have "level_fits chunk_size level'" unfolding cs level_fits_def prod.case using fits(1-4) downsampled_ok [OF fits(5) l(2)] by blast
  moreover have "matches level' (spec_at w h d (if do_xy then Suc i else i) (if do_z then Suc j else j) gx gz)"
    using d assms(2) by (simp add: matches_def spec_at_def halved_def half_up_ceil)
  ultimately show thesis using that l(1) d by blast
qed

definition all_ops :: "(bytes \<Rightarrow> bytes) \<Rightarrow> string list \<Rightarrow> nat \<times> nat \<times> nat \<Rightarrow> nat \<Rightarrow> level_data list \<Rightarrow> fs_op list" where
  "all_ops lz4 output chunk_size i levels =
     concat (map (\<lambda>(k, level). level_ops lz4 output k level chunk_size) (enumerate i levels))"

lemma write_levels_ok:
  assumes "follows w h d i j rest" "level_fits chunk_size current" "matches current (spec_at w h d i j fx fz)" "\<forall>f. io f = None"
  shows "write_levels lz4 io output chunk_size k current rest =
      (all_ops lz4 output chunk_size k (pyramid_levels current rest), Some (Inr ()))
    \<and> list_all2 matches (pyramid_levels current rest) (spec_at w h d i j fx fz # rest)
    \<and> (\<forall>level \<in> set (pyramid_levels current rest). level_fits chunk_size level
         \<and> ld_channels level = ld_channels current \<and> ld_timepoints level = ld_timepoints current)"
  using assms(1-3)
proof (induction rest arbitrary: i j k current fx fz)
  case Nil
  then show ?case by (simp add: all_ops_def write_zarr_level_ok assms(4))
next
  case (Cons s rest)
  let ?x = "sp_downsample_xy s" and ?z = "sp_downsample_z s"
  let ?i = "if ?x then Suc i else i" and ?j = "if ?z then Suc j else j"
  from Cons.prems(1) have s: "?x \<or> ?z" "s = spec_at w h d ?i ?j ?x ?z" "follows w h d ?i ?j rest"
    unfolding follows.simps Let_def by blast+
  obtain level where l: "downsample current ?x ?z = Some level" "level_fits chunk_size level" "matches level (spec_at w h d ?i ?j ?x ?z)"
    "ld_channels level = ld_channels current" "ld_timepoints level = ld_timepoints current"
    by (rule next_level [OF Cons.prems(2,3) s(1)])
  note IH = Cons.IH [OF s(3) l(2,3), of "Suc k", folded s(2)]
  have "write_levels lz4 io output chunk_size k current (s # rest) =
      (all_ops lz4 output chunk_size k (pyramid_levels current (s # rest)), Some (Inr ()))"
    using IH by (simp add: l(1) write_zarr_level_ok [OF Cons.prems(2) assms(4)] join_writer_def write_bind_def all_ops_def)
  with IH l Cons.prems(2,3) show ?case by simp
qed

lemma pyramid_levels_chain:
  assumes "Suc i < length (pyramid_levels current rest)"
  shows "i < length rest \<and> downsample (pyramid_levels current rest ! i) (sp_downsample_xy (rest ! i)) (sp_downsample_z (rest ! i))
      = Some (pyramid_levels current rest ! Suc i)"
  using assms
proof (induction current rest arbitrary: i rule: pyramid_levels.induct)
  case (2 current spec rest)
  show ?case
  proof (cases "downsample current (sp_downsample_xy spec) (sp_downsample_z spec)")
    case None
    with 2(2) show ?thesis by simp
  next
    case (Some level)
    have "pyramid_levels level rest ! 0 = level" by (cases rest) simp_all
    with Some 2(1) [OF Some] 2(2) show ?thesis by (cases i) auto
  qed
qed simp

section \<open>What the files hold\<close>

text \<open>The content of a file after a sequence of operations: the last write wins.\<close>

fun file_bytes :: "fs_op list \<Rightarrow> string list \<Rightarrow> bytes option" where
  "file_bytes [] p = None"
| "file_bytes (f # fs) p =
     (case file_bytes fs p of
        Some b \<Rightarrow> Some b
      | None \<Rightarrow> (case f of WriteBytes q b \<Rightarrow> if q = p then Some b else None | _ \<Rightarrow> None))"

lemma file_bytes_once:
  assumes "WriteBytes p b \<in> set fs" "\<And>b'. WriteBytes p b' \<in> set fs \<Longrightarrow> b' = b"
  shows "file_bytes fs p = Some b"
proof -
  have wrote: "\<exists>b. file_bytes fs p = Some b \<and> WriteBytes p b \<in> set fs" if "WriteBytes p b \<in> set fs" for fs b
    using that
  proof (induction fs arbitrary: b)
    case (Cons f fs)
    show ?case
    proof (cases "\<exists>b. WriteBytes p b \<in> set fs")
      case True
      then obtain b where "file_bytes fs p = Some b" "WriteBytes p b \<in> set fs" using Cons.IH by blast
      then show ?thesis by simp
    next
      case False
      have "file_bytes fs p = None" if "\<forall>b. WriteBytes p b \<notin> set fs" for fs
        using that by (induction fs) (auto split: fs_op.splits)
      with False Cons.prems show ?thesis by auto
    qed
  qed simp
  from wrote [OF assms(1)] assms(2) show ?thesis by blast
qed

lemma chunk_path_inj:
  "chunk_path (output @ [show_nat i]) ix = chunk_path (output @ [show_nat j]) jx \<longleftrightarrow> i = j \<and> ix = jx"
  by (cases ix; cases jx) (auto simp: chunk_path_def show_nat_inj)

lemma all_ops_write:
  "WriteBytes p b \<in> set (all_ops lz4 output (cz, cy, cx) 0 levels) \<longleftrightarrow>
     (\<exists>i < length levels. \<exists>ix \<in> set (chunk_indices (levels ! i) cx cy cz).
        p = chunk_path (output @ [show_nat i]) ix \<and> b = lz4 (chunk_bytes (levels ! i) (cz, cy, cx) ix))"
  by (fastforce simp: all_ops_def level_ops_def Let_def in_set_enumerate_eq)

lemma file_bytes_level:
  assumes "i < length levels" "ix \<in> set (chunk_indices (levels ! i) cx cy cz)"
    "\<And>p b. WriteBytes p b \<notin> set prefix"
  shows "file_bytes (prefix @ all_ops lz4 output (cz, cy, cx) 0 levels) (chunk_path (output @ [show_nat i]) ix) =
    Some (lz4 (chunk_bytes (levels ! i) (cz, cy, cx) ix))"
proof (rule file_bytes_once)
  show "WriteBytes (chunk_path (output @ [show_nat i]) ix) (lz4 (chunk_bytes (levels ! i) (cz, cy, cx) ix))
      \<in> set (prefix @ all_ops lz4 output (cz, cy, cx) 0 levels)"
    using assms(1,2) by (auto simp: all_ops_write)
next
  fix b assume "WriteBytes (chunk_path (output @ [show_nat i]) ix) b \<in> set (prefix @ all_ops lz4 output (cz, cy, cx) 0 levels)"
  then show "b = lz4 (chunk_bytes (levels ! i) (cz, cy, cx) ix)"
    using assms(3) by (auto simp: all_ops_write chunk_path_inj)
qed

text \<open>A conversion that meets no error of the file system, level by level.\<close>

lemma pyramid_ops:
  assumes "level_fits chunk_size (level_of_volume v)" "\<forall>f. io f = None"
  obtains schedule levels prefix where
    "compute_downsample_schedule (vol_width v) (vol_height v) (vol_depth v) (vol_voxel_size v) min_level_size = Some schedule"
    "write_volume_pyramid lz4 io output v chunk_size = (prefix @ all_ops lz4 output chunk_size 0 levels, Some (Inr ()))"
    "levels \<noteq> []" "hd levels = level_of_volume v" "list_all2 matches levels schedule" "length levels \<le> 65" "small_spec 256 (last schedule)"
    "\<And>i. Suc i < length levels \<Longrightarrow>
       downsample (levels ! i) (sp_downsample_xy (schedule ! Suc i)) (sp_downsample_z (schedule ! Suc i)) = Some (levels ! Suc i)"
    "\<And>level. level \<in> set levels \<Longrightarrow> level_fits chunk_size level" "\<And>p b. WriteBytes p b \<notin> set prefix"
proof -
  obtain cz cy cx where cs: "chunk_size = (cz, cy, cx)" by (cases chunk_size)
  let ?l = "level_of_volume v" and ?w = "vol_width v" and ?h = "vol_height v" and ?d = "vol_depth v"
  note fits = level_fitsD [OF assms(1) [unfolded cs]]
  have pos: "0 < ?w" "0 < ?h" "0 < ?d" using fits(5) by (simp_all add: level_sized_def level_of_volume_def)
  have "?w * ?h * ?d \<le> 2 ^ 32" "?w * ?h < 2 ^ 32" using fits(5,6) by (simp_all add: level_of_volume_def level_sized_def)
  moreover have "?w \<le> ?w * ?h" "?h \<le> ?w * ?h" "?d \<le> ?w * ?h * ?d" using pos by simp_all
  ultimately have "?w \<le> 2 ^ 32" "?h \<le> 2 ^ 32" "?d \<le> 2 ^ 32" by linarith+
  from schedule_levels [OF _ this, of min_level_size "vol_voxel_size v"] obtain rest where
    r: "compute_downsample_schedule ?w ?h ?d (vol_voxel_size v) min_level_size = Some (spec_at ?w ?h ?d 0 0 False False # rest)"
      "follows ?w ?h ?d 0 0 rest" "small_spec 256 (last (spec_at ?w ?h ?d 0 0 False False # rest))" "length rest \<le> 64"
    by (auto simp: min_level_size_def)
  have first: "matches ?l (spec_at ?w ?h ?d 0 0 False False)" by (simp add: matches_def level_of_volume_def spec_at_def ceil_div_def)
  let ?levels = "pyramid_levels ?l rest" and ?schedule = "spec_at ?w ?h ?d 0 0 False False # rest"
  let ?prefix = "[CreateDirs output, WriteJson (output @ [''zarr.json''])
      (JObj [(''zarr_format'', JNum 3), (''node_type'', JStr ''group''),
        (''attributes'', build_multiscales_attrs (map (meta_level v) ?schedule) (map sp_scale ?schedule))])]"
  note W = write_levels_ok [OF r(2) assms(1) first assms(2), of lz4 "output" 0]
  have ops: "write_volume_pyramid lz4 io output v chunk_size = (?prefix @ all_ops lz4 output chunk_size 0 ?levels, Some (Inr ()))"
    by (simp add: conjunct1 [OF W] write_volume_pyramid_def r(1) lift_panic_def write_bind_def write_root_metadata_def
        write_json_def Let_def attempt_ok assms(2))
  have len: "length ?levels = length ?schedule" using W list_all2_lengthD by blast
  have chain: "downsample (?levels ! i) (sp_downsample_xy (?schedule ! Suc i)) (sp_downsample_z (?schedule ! Suc i)) = Some (?levels ! Suc i)"
    if "Suc i < length ?levels" for i using pyramid_levels_chain [OF that] by simp
  have "?levels \<noteq> []" "hd ?levels = ?l" by (cases rest; simp)+
  moreover have "length ?levels \<le> 65" using len r(4) by simp
  moreover have "WriteBytes p b \<notin> set ?prefix" for p b by simp
  ultimately show thesis using that [OF r(1) ops _ _ _ _ r(3) chain] W by blast
qed

definition is_pyramid :: "volume \<Rightarrow> level_data list \<Rightarrow> bool" where
  "is_pyramid v levels \<longleftrightarrow>
     (case compute_downsample_schedule (vol_width v) (vol_height v) (vol_depth v) (vol_voxel_size v) min_level_size of
        None \<Rightarrow> False
      | Some schedule \<Rightarrow>
          levels \<noteq> [] \<and> hd levels = level_of_volume v \<and> list_all2 matches levels schedule \<and> small_spec 256 (last schedule)
          \<and> (\<forall>i < length levels - 1.
               downsample (levels ! i) (sp_downsample_xy (schedule ! Suc i)) (sp_downsample_z (schedule ! Suc i)) = Some (levels ! Suc i)))"

lemma pyramid_files:
  assumes "level_fits (cz, cy, cx) (level_of_volume v)" "\<forall>f. io f = None"
  obtains levels ops where "write_volume_pyramid lz4 io output v (cz, cy, cx) = (ops, Some (Inr ()))" "is_pyramid v levels" "length levels \<le> 65"
    "\<And>i ti ci zi yi xi. i < length levels \<Longrightarrow> chunk_ok (levels ! i) cx cy cz xi yi zi ti ci \<Longrightarrow>
       \<exists>raw. chunk_holds (levels ! i) cx cy cz xi yi zi ti ci raw
         \<and> file_bytes ops (chunk_path (output @ [show_nat i]) (ti, ci, zi, yi, xi)) = Some (lz4 raw)"
    "\<And>level. level \<in> set levels \<Longrightarrow> level_fits (cz, cy, cx) level"
proof -
  obtain schedule levels start where P:
    "compute_downsample_schedule (vol_width v) (vol_height v) (vol_depth v) (vol_voxel_size v) min_level_size = Some schedule"
    "write_volume_pyramid lz4 io output v (cz, cy, cx) = (start @ all_ops lz4 output (cz, cy, cx) 0 levels, Some (Inr ()))"
    "levels \<noteq> []" "hd levels = level_of_volume v" "list_all2 matches levels schedule" "length levels \<le> 65" "small_spec 256 (last schedule)"
    "\<And>i. Suc i < length levels \<Longrightarrow>
       downsample (levels ! i) (sp_downsample_xy (schedule ! Suc i)) (sp_downsample_z (schedule ! Suc i)) = Some (levels ! Suc i)"
    "\<And>level. level \<in> set levels \<Longrightarrow> level_fits (cz, cy, cx) level" "\<And>p b. WriteBytes p b \<notin> set start"
    by (rule pyramid_ops [OF assms, of lz4 "output"]) blast
  have "is_pyramid v levels" using P by (simp add: is_pyramid_def)
  moreover have "\<exists>raw. chunk_holds (levels ! i) cx cy cz xi yi zi ti ci raw
      \<and> file_bytes (start @ all_ops lz4 output (cz, cy, cx) 0 levels) (chunk_path (output @ [show_nat i]) (ti, ci, zi, yi, xi)) = Some (lz4 raw)"
    if "i < length levels" "chunk_ok (levels ! i) cx cy cz xi yi zi ti ci" for i ti ci zi yi xi
  proof -
    have "(ti, ci, zi, yi, xi) \<in> set (chunk_indices (levels ! i) cx cy cz)"
      using chunk_indices_ok [OF P(9)] that by simp
    from file_bytes_level [OF that(1) this P(10), of lz4 "output"] extract_chunk_samples [OF that(2)]
    show ?thesis by (auto simp: chunk_bytes_def)
  qed
  ultimately show thesis using that P(2,6,9) by blast
qed

text \<open>C14: The conversion writes the pyramid it announces. For a volume of at most \<open>2 ^ 32\<close> samples for each
  timepoint and channel and chunks of less than 4 GB, when no file operation fails it ends
  without error or panic; the levels are those of the schedule, from the volume itself to
  one that is small on every axis, each the downsampling of the one before; and for every
  chunk of every level the file at its path holds the encoded bytes of exactly its
  samples.\<close>
theorem pyramid_written:
  assumes "level_fits (cz, cy, cx) (level_of_volume v)" "\<forall>f. io f = None"
  shows "\<exists>levels ops. write_volume_pyramid lz4 io output v (cz, cy, cx) = (ops, Some (Inr ())) \<and> is_pyramid v levels
    \<and> (\<forall>i < length levels. \<forall>ti ci zi yi xi. chunk_ok (levels ! i) cx cy cz xi yi zi ti ci \<longrightarrow>
         (\<exists>raw. chunk_holds (levels ! i) cx cy cz xi yi zi ti ci raw
            \<and> file_bytes ops (chunk_path (output @ [show_nat i]) (ti, ci, zi, yi, xi)) = Some (lz4 raw)))"
  by (rule pyramid_files [OF assms, of lz4 "output"]) blast

definition demo_volume :: volume where
  "demo_volume = \<lparr>vol_data = replicate 300 7, vol_width = 300, vol_height = 1, vol_depth = 1, vol_channels = 1, vol_timepoints = 1,
     vol_voxel_size = voxel_size_default\<rparr>"

lemma demo_volume_fits: "level_fits (1, 1, 256) (level_of_volume demo_volume)"
  by (simp add: level_fits_def level_sized_def level_of_volume_def demo_volume_def)

theorem pyramid_written_witness:
  "\<exists>levels ops. write_volume_pyramid id (\<lambda>_. None) [''out''] demo_volume (1, 1, 256) = (ops, Some (Inr ())) \<and> is_pyramid demo_volume levels"
  using pyramid_written [OF demo_volume_fits, of "\<lambda>_. None" id "[''out'']"] by blast

section \<open>Reading it back\<close>

text \<open>The documents read as the import reads them, and an image bound to a converted store.\<close>

definition json_values :: "(json \<Rightarrow> string) \<Rightarrow> (string list \<Rightarrow> string) \<Rightarrow> json json_api" where
  "json_values show debug =
     \<lparr>js_get = (\<lambda>j k. case j of JObj kvs \<Rightarrow> map_of kvs k | _ \<Rightarrow> None),
      js_str = (\<lambda>j. case j of JStr s \<Rightarrow> Some s | _ \<Rightarrow> None),
      js_array = (\<lambda>j. case j of JArr js \<Rightarrow> Some js | _ \<Rightarrow> None),
      js_u64 = (\<lambda>j. case j of JNum n \<Rightarrow> if n < 2 ^ 64 then Some n else None | _ \<Rightarrow> None),
      js_show = show, fmt_debug = debug\<rparr>"

definition serves_level :: "nat \<times> nat \<times> nat \<Rightarrow> level_info \<Rightarrow> bool" where
  "serves_level = (\<lambda>(cz, cy, cx) li.
     li_chunk_shape li = [1, 1, cz, cy, cx] \<and> li_shard li = None \<and> li_regrid li = None
     \<and> (parse_codec_chain (json_values (\<lambda>_. []) concat) codec_entries :: unit store_error + _) = Inr (li_compression li)
     \<and> (compute_chunk_byte_layout concat ALL_DIMS [1, 1, cz, cy, cx] 2 [] :: unit store_error + _) = Inr (li_chunk_byte_layout li))"

lemma ingest_codecs: "parse_codec_chain (json_values show debug) codec_entries = Inr Lz4"
  by (simp add: parse_codec_chain_def codec_entries_def parse_bytes_codec_def parse_compressor_def str_field_def json_values_def)

lemma ingest_layout:
  assumes "0 < cz" "0 < cy" "0 < cx" "cx * cy * cz * 2 < 2 ^ 32"
  shows "compute_chunk_byte_layout debug ALL_DIMS [1, 1, cz, cy, cx] 2 [] =
    Inr \<lparr>bl_canonical_byte_size = cx * cy * cz * 2, bl_on_disk_byte_size = cx * cy * cz * 2, bl_byte_stride_t = 0, bl_byte_stride_c = 0,
         bl_chunk_size_t = 1, bl_chunk_size_c = 1\<rparr>"
proof -
  have u128: "u128_mul a b = c" if "c < 2 ^ 64" "a * b = c" for a b c :: nat using that by (simp add: u128_mul_def)
  define n where "n = cx * cy * cz * 2"
  have "cx * 2 \<le> n" "cx * cy * 2 \<le> n" "cz * 2 \<le> n" "cz * cy * 2 \<le> n" "2 \<le> n" using assms(1-3) by (simp_all add: n_def)
  moreover have "n < 2 ^ 64" using assms(4) by (simp add: n_def)
  ultimately have small: "cx * 2 < 2 ^ 64" "cx * cy * 2 < 2 ^ 64" "cz * 2 < 2 ^ 64" "cz * cy * 2 < 2 ^ 64" "n < 2 ^ 64"
    using le_less_trans by blast+
  have "u128_mul 2 cz = cz * 2" "u128_mul (cz * 2) cy = cz * cy * 2" "u128_mul (cz * cy * 2) cx = n"
    "u128_mul 2 cx = cx * 2" "u128_mul (cx * 2) cy = cx * cy * 2" "u128_mul (cx * cy * 2) cz = n" "u128_mul n 1 = n"
    by (rule u128 [OF small(3)] u128 [OF small(4)] u128 [OF small(5)] u128 [OF small(1)] u128 [OF small(2)], simp add: n_def; fail)+
  moreover have "u128_mul 2 1 = 2" by (simp add: u128_mul_def)
  ultimately show ?thesis using small
    by (simp add: compute_chunk_byte_layout_def ALL_DIMS_def lowercase_def ascii_lower_def is_kept_canonical_def
        is_canonical_indexed_def to_usize_def Let_def axis_dim_def eq_ignore_case_def n_def [symmetric] del: One_nat_def)
qed

lemma ingest_key_path:
  "split_on (CHR ''/'') (chunk_grid_store_path (show_nat i) [t, c, z, y, x]) = [show_nat i, ''c'', show_nat t, show_nat c, show_nat z, show_nat y, show_nat x]"
proof -
  have "chunk_grid_store_path (show_nat i) [t, c, z, y, x] =
      join_with ''/'' [show_nat i, ''c'', show_nat t, show_nat c, show_nat z, show_nat y, show_nat x]"
    by (simp add: chunk_grid_store_path_def)
  then show ?thesis using split_join [of "[show_nat i, ''c'', show_nat t, show_nat c, show_nat z, show_nat y, show_nat x]" "CHR ''/''"]
    by (simp add: show_nat_no_slash)
qed

text \<open>A chunk file at the path of a key is what a read of the key returns.\<close>

lemma read_ingested:
  assumes li: "level_info_of images image_id i = Some li" "serves_level (cz, cy, cx) li"
    and img: "map_of images image_id = Some img" "ir_axes_names img = ALL_DIMS" "ir_store_prefix img = None"
    and sizes: "0 < cz" "0 < cy" "0 < cx" "cx * cy * cz * 2 < 2 ^ 32" "length raw = cx * cy * cz * 2"
    and key: "i < 2 ^ 32" "t < 2 ^ 64" "c < 2 ^ 64" "z < 2 ^ 64" "y < 2 ^ 64" "x < 2 ^ 64"
    and found: "rd_bytes rd (ce_path_from E (chunk_grid_store_path (show_nat i) [t, c, z, y, x])) = Inr b" "ce_lz4 E b = Inr raw"
  shows "read_chunk E rd images image_id (wire_key i t c z y x) cache = Some (cache, Inr (Present raw))"
proof -
  let ?key = "wire_key i t c z y x"
  let ?l = "\<lparr>bl_canonical_byte_size = cx * cy * cz * 2, bl_on_disk_byte_size = cx * cy * cz * 2, bl_byte_stride_t = 0, bl_byte_stride_c = 0,
         bl_chunk_size_t = 1, bl_chunk_size_c = 1\<rparr>"
  have l: "li_chunk_shape li = [1, 1, cz, cy, cx]" "li_shard li = None" "li_regrid li = None" "li_compression li = Lz4" "li_chunk_byte_layout li = ?l"
    using li(2) unfolding serves_level_def prod.case ingest_codecs ingest_layout [OF sizes(1-4)] by auto
  have level: "parse_level_from_chunk_key ?key = i" "parse_t_c_from_chunk_key ?key = (t, c)" using parse_wire_key key by simp_all
  have "index_at (ir_levels img) i = Some li" using li(1) img(1) by (simp add: level_info_of_def)
  moreover have "chunk_key_to_store_path ?key ALL_DIMS [1, 1, cz, cy, cx] = chunk_grid_store_path (show_nat i) [t, c, z, y, x]"
    using grid_coords_wire_key [OF key(2-6), of i 1 1 cz cy cx] by (simp add: chunk_key_to_store_path_def)
  ultimately have loc: "resolve E images image_id ?key = Some (Some (ObjectAt (ce_path_from E (chunk_grid_store_path (show_nat i) [t, c, z, y, x]))))"
    using img l(1,2) by (simp add: resolve_def level(1) resolve_object_def prefixed_def Let_def)
  have "slice_wire_chunk raw ?l t c = raw"
    using sizes by (simp add: slice_wire_chunk_def slice_range_def usize_add_def usize_mul_def)
  then have "decode_wire_chunk E b li ?key = Some (Inr raw)"
    using found(2) sizes(5) by (simp add: decode_wire_chunk_def decode_storage_bytes_def l(4,5) level(2))
  with loc found(1) l(3) li(1) level(1) show ?thesis
    by (simp add: read_chunk_def read_location_def)
qed

text \<open>After a conversion without errors, a server bound to the converted store answers the key of
  every chunk of every pyramid level with exactly the samples of that chunk. The store returns the
  files as they were written and the lz4 decoder inverts the encoder.\<close>

lemma ingested_chunk_served:
  assumes "level_fits (cz, cy, cx) (level_of_volume v)" "\<forall>f. io f = None"
    "write_volume_pyramid lz4 io output v (cz, cy, cx) = (ops, r)"
    "\<forall>p b. file_bytes ops (output @ split_on (CHR ''/'') p) = Some b \<longrightarrow> rd_bytes rd (ce_path_from E p) = Inr b"
    "\<forall>raw. ce_lz4 E (lz4 raw) = Inr raw"
    "map_of images image_id = Some img" "ir_axes_names img = ALL_DIMS" "ir_store_prefix img = None"
    "\<forall>li \<in> set (ir_levels img). serves_level (cz, cy, cx) li"
  shows "\<exists>levels. is_pyramid v levels \<and> (\<forall>level \<in> set levels. level_fits (cz, cy, cx) level)
    \<and> (\<forall>i < min (length levels) (length (ir_levels img)). \<forall>ti ci zi yi xi. chunk_ok (levels ! i) cx cy cz xi yi zi ti ci \<longrightarrow>
         (\<exists>raw. chunk_holds (levels ! i) cx cy cz xi yi zi ti ci raw
            \<and> read_chunk E rd images image_id (wire_key i ti ci zi yi xi) cache = Some (cache, Inr (Present raw))))"
proof -
  obtain levels ops' where P: "write_volume_pyramid lz4 io output v (cz, cy, cx) = (ops', Some (Inr ()))" "is_pyramid v levels" "length levels \<le> 65"
    "\<And>i ti ci zi yi xi. i < length levels \<Longrightarrow> chunk_ok (levels ! i) cx cy cz xi yi zi ti ci \<Longrightarrow>
       \<exists>raw. chunk_holds (levels ! i) cx cy cz xi yi zi ti ci raw
         \<and> file_bytes ops' (chunk_path (output @ [show_nat i]) (ti, ci, zi, yi, xi)) = Some (lz4 raw)"
    "\<And>level. level \<in> set levels \<Longrightarrow> level_fits (cz, cy, cx) level"
    by (rule pyramid_files [OF assms(1,2), of lz4 "output"]) blast
  have [simp]: "ops' = ops" using P(1) assms(3) by simp
  note fits = level_fitsD [OF assms(1)]
  have "\<exists>raw. chunk_holds (levels ! i) cx cy cz xi yi zi ti ci raw
      \<and> read_chunk E rd images image_id (wire_key i ti ci zi yi xi) cache = Some (cache, Inr (Present raw))"
    if i: "i < length levels" "i < length (ir_levels img)" and ok: "chunk_ok (levels ! i) cx cy cz xi yi zi ti ci" for i ti ci zi yi xi
  proof -
    from P(4) [OF i(1) ok] obtain raw where raw: "chunk_holds (levels ! i) cx cy cz xi yi zi ti ci raw"
      "file_bytes ops (chunk_path (output @ [show_nat i]) (ti, ci, zi, yi, xi)) = Some (lz4 raw)" by auto
    have "file_bytes ops (output @ split_on (CHR ''/'') (chunk_grid_store_path (show_nat i) [ti, ci, zi, yi, xi])) = Some (lz4 raw)"
      using raw(2) by (simp add: ingest_key_path chunk_path_def)
    then have found: "rd_bytes rd (ce_path_from E (chunk_grid_store_path (show_nat i) [ti, ci, zi, yi, xi])) = Inr (lz4 raw)"
      using assms(4) by blast
    have key: "i < 2 ^ 32" "ti < 2 ^ 64" "ci < 2 ^ 64" "zi < 2 ^ 64" "yi < 2 ^ 64" "xi < 2 ^ 64"
      using i(1) P(3) chunk_ok_small [OF ok fits(1-3)] by auto
    have "level_info_of images image_id i = Some (ir_levels img ! i)" "serves_level (cz, cy, cx) (ir_levels img ! i)"
      using i(2) assms(6,9) by (simp_all add: level_info_of_def index_at_def)
    moreover have "length raw = cx * cy * cz * 2" "ce_lz4 E (lz4 raw) = Inr raw" using raw(1) assms(5) by (simp_all add: chunk_holds_def)
    ultimately show ?thesis using read_ingested [OF _ _ assms(6-8) fits(1-4) _ key found] raw(1) by blast
  qed
  with P(2,5) show ?thesis by (intro exI [of _ levels]) auto
qed

definition disk_reads :: "fs_op list \<Rightarrow> string list \<Rightarrow> unit store_reads" where
  "disk_reads ops output =
     \<lparr>rd_range = \<lambda>_ _ _. Inr [], rd_suffix = \<lambda>_ _. Inr [],
      rd_bytes = (\<lambda>p. case file_bytes ops (output @ split_on (CHR ''/'') p) of Some b \<Rightarrow> Inr b | None \<Rightarrow> Inl (NotFound p []))\<rparr>"

definition demo_ops :: "fs_op list" where
  "demo_ops = fst (write_volume_pyramid id (\<lambda>_. None) [''out''] demo_volume (1, 1, 256))"

definition converted_level :: level_info where
  "converted_level =
     \<lparr>li_level_index = 0, li_compression = Lz4, li_chunk_shape = [1, 1, 1, 1, 256],
      li_chunk_byte_layout = \<lparr>bl_canonical_byte_size = 512, bl_on_disk_byte_size = 512, bl_byte_stride_t = 0,
        bl_byte_stride_c = 0, bl_chunk_size_t = 1, bl_chunk_size_c = 1\<rparr>,
      li_shard = None, li_regrid = None\<rparr>"

definition converted_image :: image_resolver where
  "converted_image = \<lparr>ir_axes_names = ALL_DIMS, ir_store_prefix = None, ir_levels = [converted_level]\<rparr>"

lemma converted_level_serves: "serves_level (1, 1, 256) converted_level"
  unfolding serves_level_def prod.case ingest_codecs using ingest_layout [of 1 1 256 concat]
  by (simp add: converted_level_def ingest_layout [of 1 1 256, simplified])

end
