(* ===== verification/TiffPages.thy ===== *)
theory TiffPages
  imports Pyramid
begin

text \<open>
  Multi-page TIFFs (\<^verbatim>\<open>lucida-store/src/ingest/tiff_reader.rs\<close>): the order of pages, the
  dimensions announced by OME-XML, and the two ways a file becomes a volume, in parallel
  when the dimensions are known and page by page when they are not. The TIFF decoder is a
  parameter: the operations the code calls on it, each a function of the decoder's
  position in the file, whose opening and mapping is one result. So are the text of the description tag, the parse of a float and
  the number of threads. Log output is left out.
\<close>

section \<open>Page order\<close>

datatype dimension_order = Xyzct | Xyztc | Xyczt | Xyctz | Xytcz | Xytzc

definition ascii_upper :: "char \<Rightarrow> char" where
  "ascii_upper c = (if 97 \<le> (of_char c :: nat) \<and> of_char c \<le> (122 :: nat) then char_of (of_char c - 32 :: nat) else c)"

definition order_parse :: "string \<Rightarrow> string + dimension_order" where
  "order_parse s =
     (let u = map ascii_upper s
      in if u = ''XYZCT'' then Inr Xyzct
         else if u = ''XYZTC'' then Inr Xyztc
         else if u = ''XYCZT'' then Inr Xyczt
         else if u = ''XYCTZ'' then Inr Xyctz
         else if u = ''XYTCZ'' then Inr Xytcz
         else if u = ''XYTZC'' then Inr Xytzc
         else Inl (''unknown dimension order: '' @ s))"

text \<open>\<^verbatim>\<open>a * size_b * size_c + b * size_c + c\<close> in \<open>u32\<close>\<close>

definition rank3 :: "nat \<Rightarrow> nat \<Rightarrow> nat \<Rightarrow> nat \<Rightarrow> nat \<Rightarrow> nat" where
  "rank3 a size_b b size_c c = u32_add (u32_add (u32_mul (u32_mul a size_b) size_c) (u32_mul b size_c)) c"

definition page_index :: "dimension_order \<Rightarrow> nat \<Rightarrow> nat \<Rightarrow> nat \<Rightarrow> nat \<Rightarrow> nat \<Rightarrow> nat \<Rightarrow> nat" where
  "page_index order t c z size_t size_c size_z =
     (case order of
        Xyzct \<Rightarrow> rank3 t size_c c size_z z
      | Xyztc \<Rightarrow> rank3 c size_t t size_z z
      | Xyczt \<Rightarrow> rank3 t size_z z size_c c
      | Xyctz \<Rightarrow> rank3 z size_t t size_c c
      | Xytcz \<Rightarrow> rank3 z size_c c size_t t
      | Xytzc \<Rightarrow> rank3 c size_z z size_t t)"

section \<open>Announced dimensions\<close>

record dimension_hints =
  dh_size_t :: "nat option"
  dh_size_c :: "nat option"
  dh_size_z :: "nat option"
  dh_order :: "dimension_order option"
  dh_voxel_size_x :: "f64 option"
  dh_voxel_size_y :: "f64 option"
  dh_voxel_size_z :: "f64 option"

record ome_info =
  oi_size_t :: nat
  oi_size_c :: nat
  oi_size_z :: nat
  oi_order :: dimension_order
  oi_physical_size_x :: "f64 option"
  oi_physical_size_y :: "f64 option"
  oi_physical_size_z :: "f64 option"

text \<open>\<^verbatim>\<open>s.find(pattern)\<close>, then what follows the match.\<close>

fun after_text :: "string \<Rightarrow> string \<Rightarrow> string option" where
  "after_text pattern [] = (if pattern = [] then Some [] else None)"
| "after_text pattern (x # xs) =
     (if take (length pattern) (x # xs) = pattern then Some (drop (length pattern) (x # xs)) else after_text pattern xs)"

definition quote_char :: char where
  "quote_char = CHR 0x22"

definition extract_attr :: "string \<Rightarrow> string \<Rightarrow> string option" where
  "extract_attr xml name =
     Option.bind (after_text ('' '' @ name @ ''='' @ [quote_char]) xml) (\<lambda>rest.
       if quote_char \<in> set rest then Some (takeWhile (\<lambda>c. c \<noteq> quote_char) rest) else None)"

definition result_ok :: "'e + 'a \<Rightarrow> 'a option" where
  "result_ok r = (case r of Inr a \<Rightarrow> Some a | Inl _ \<Rightarrow> None)"

definition parse_ome_xml :: "(string \<Rightarrow> f64 option) \<Rightarrow> string \<Rightarrow> ome_info option" where
  "parse_ome_xml parse_f64 xml =
     (if \<not> contains_text ''<OME'' xml \<and> \<not> contains_text ''<Pixels'' xml then None
      else
        Option.bind (Option.bind (extract_attr xml ''DimensionOrder'') (\<lambda>s. result_ok (order_parse s))) (\<lambda>order.
        Option.bind (Option.bind (extract_attr xml ''SizeT'') (parse_uint 32)) (\<lambda>size_t.
        Option.bind (Option.bind (extract_attr xml ''SizeC'') (parse_uint 32)) (\<lambda>size_c.
        Option.bind (Option.bind (extract_attr xml ''SizeZ'') (parse_uint 32)) (\<lambda>size_z.
          Some \<lparr>oi_size_t = size_t, oi_size_c = size_c, oi_size_z = size_z, oi_order = order,
                oi_physical_size_x = Option.bind (extract_attr xml ''PhysicalSizeX'') parse_f64,
                oi_physical_size_y = Option.bind (extract_attr xml ''PhysicalSizeY'') parse_f64,
                oi_physical_size_z = Option.bind (extract_attr xml ''PhysicalSizeZ'') parse_f64\<rparr>)))))"

section \<open>Decoding pages\<close>

datatype color_type = Gray nat | OtherColor string

datatype decoding_result = PixelsU8 "u8 list" | PixelsU16 "u16 list" | OtherPixels

record 'd tiff_api =
  ti_file :: "string + unit"
  ti_open :: "string + 'd"
  ti_dimensions :: "'d \<Rightarrow> string + nat \<times> nat"
  ti_colortype :: "'d \<Rightarrow> string + color_type"
  ti_read_image :: "'d \<Rightarrow> string + decoding_result"
  ti_more_images :: "'d \<Rightarrow> bool"
  ti_next_image :: "'d \<Rightarrow> string + 'd"
  ti_description :: "'d \<Rightarrow> string option"
  ti_parse_f64 :: "string \<Rightarrow> f64 option"

definition context_err :: "string \<Rightarrow> string + 'a \<Rightarrow> string + 'a" where
  "context_err context = res_map_err (\<lambda>e. context @ '': '' @ e)"

definition wrong_page_size :: "nat \<Rightarrow> nat \<Rightarrow> nat \<Rightarrow> string" where
  "wrong_page_size page_num got want =
     ''page '' @ show_nat page_num @ '' has '' @ show_nat got @ '' pixels, expected '' @ show_nat want"

definition decode_page :: "'d tiff_api \<Rightarrow> 'd \<Rightarrow> nat \<Rightarrow> nat \<Rightarrow> nat \<Rightarrow> nat \<Rightarrow> string + u16 list" where
  "decode_page A d page_num width height pixels_per_page =
     res_bind (context_err ''bad dimensions'' (ti_dimensions A d)) (\<lambda>(w, h).
     if w \<noteq> width \<or> h \<noteq> height then
       Inl (''page '' @ show_nat page_num @ '' has dimensions '' @ show_nat w @ ''x'' @ show_nat h
            @ '', expected '' @ show_nat width @ ''x'' @ show_nat height)
     else res_bind (context_err ''bad color type'' (ti_colortype A d)) (\<lambda>color.
     if color \<noteq> Gray 8 \<and> color \<noteq> Gray 16 then
       Inl (''unsupported color type: '' @ (case color of Gray n \<Rightarrow> ''Gray('' @ show_nat n @ '')'' | OtherColor s \<Rightarrow> s)
            @ '' (only Gray8/Gray16)'')
     else res_bind (context_err ''failed to read image data'' (ti_read_image A d)) (\<lambda>image_data.
       case image_data of
         PixelsU8 src \<Rightarrow>
           if length src \<noteq> pixels_per_page then Inl (wrong_page_size page_num (length src) pixels_per_page)
           else Inr (map (\<lambda>v. of_nat (unat v)) src)
       | PixelsU16 src \<Rightarrow>
           if length src \<noteq> pixels_per_page then Inl (wrong_page_size page_num (length src) pixels_per_page)
           else Inr src
       | OtherPixels \<Rightarrow> Inl ''unexpected pixel format'')))"

text \<open>
  Copying one page into the volume. The fast path copies through a raw pointer: a copy out of
  range, or of a page of another size, would be undefined behaviour. Both are \<open>None\<close>.
\<close>

definition copy_page :: "nat \<Rightarrow> nat \<Rightarrow> u16 list \<Rightarrow> u16 list \<Rightarrow> u16 list option" where
  "copy_page pixels_per_page dst_idx pixels data =
     (let dst_start = dst_idx * pixels_per_page
      in if length pixels = pixels_per_page \<and> dst_start + pixels_per_page \<le> length data
         then Some (take dst_start data @ pixels @ drop (dst_start + pixels_per_page) data)
         else None)"

section \<open>Known dimensions\<close>

definition tcz_indices :: "nat \<Rightarrow> nat \<Rightarrow> nat \<Rightarrow> (nat \<times> nat \<times> nat) list" where
  "tcz_indices size_t size_c size_z = List.product [0..<size_t] (List.product [0..<size_c] [0..<size_z])"

definition page_to_dst :: "dimension_order \<Rightarrow> nat \<Rightarrow> nat \<Rightarrow> nat \<Rightarrow> nat list option" where
  "page_to_dst order size_t size_c size_z =
     (let num_pages = u32_mul (u32_mul size_t size_c) size_z
      in if order = Xyzct then Some [0..<num_pages]
         else for_each (\<lambda>(t, c, z). store_at (page_index order t c z size_t size_c size_z) (rank3 t size_c c size_z z))
                (tcz_indices size_t size_c size_z) (replicate num_pages 0))"

fun walk_ifds :: "'d tiff_api \<Rightarrow> nat \<Rightarrow> nat \<Rightarrow> 'd \<Rightarrow> string + 'd" where
  "walk_ifds A start 0 d = Inr d"
| "walk_ifds A start (Suc n) d =
     (if \<not> ti_more_images A d then Inl (''TIFF has fewer pages than expected (at page '' @ show_nat start @ '')'')
      else res_bind (context_err (''failed to seek to page '' @ show_nat start) (ti_next_image A d)) (walk_ifds A start n))"

text \<open>The pages one thread decodes, from the page it has walked to.\<close>

fun decode_run :: "'d tiff_api \<Rightarrow> nat \<Rightarrow> nat \<Rightarrow> nat \<Rightarrow> nat \<Rightarrow> nat list \<Rightarrow> 'd \<Rightarrow> string + (nat \<times> u16 list) list" where
  "decode_run A width height ppp num_pages [] d = Inr []"
| "decode_run A width height ppp num_pages (p # ps) d =
     res_bind (decode_page A d p width height ppp) (\<lambda>pixels.
       if ps = [] then Inr [(p, pixels)]
       else if \<not> ti_more_images A d then
         Inl (''TIFF has only '' @ show_nat (p + 1) @ '' pages but expected '' @ show_nat num_pages)
       else res_bind (context_err (''failed to advance to page '' @ show_nat (p + 1)) (ti_next_image A d)) (\<lambda>d'.
         res_map ((#) (p, pixels)) (decode_run A width height ppp num_pages ps d')))"

definition thread_run :: "'d tiff_api \<Rightarrow> nat \<Rightarrow> nat \<Rightarrow> nat \<Rightarrow> nat \<Rightarrow> nat \<times> nat \<Rightarrow> string + (nat \<times> u16 list) list" where
  "thread_run A width height ppp num_pages = (\<lambda>(start, end').
     res_bind (context_err ''failed to create decoder'' (ti_open A)) (\<lambda>d.
     res_bind (walk_ifds A start start d) (\<lambda>d.
       decode_run A width height ppp num_pages [start..<end'] d)))"

definition thread_ranges :: "nat \<Rightarrow> nat \<Rightarrow> (nat \<times> nat) list" where
  "thread_ranges n_threads num_pages =
     (let chunk_size = (num_pages + n_threads - 1) div n_threads
      in filter (\<lambda>(start, end'). start < end')
           (map (\<lambda>i. (i * chunk_size, min (i * chunk_size + chunk_size) num_pages)) [0..<n_threads]))"

fun first_error :: "('e + 'a) list \<Rightarrow> 'e + 'a list" where
  "first_error [] = Inr []"
| "first_error (r # rs) = res_bind r (\<lambda>a. res_map ((#) a) (first_error rs))"

definition tiff_volume :: "nat \<Rightarrow> nat \<Rightarrow> nat \<Rightarrow> nat \<Rightarrow> nat \<Rightarrow> voxel_size \<Rightarrow> u16 list \<Rightarrow> volume" where
  "tiff_volume width height size_t size_c size_z vs data =
     \<lparr>vol_data = data, vol_width = width, vol_height = height, vol_depth = size_z, vol_channels = size_c, vol_timepoints = size_t,
      vol_voxel_size = vs\<rparr>"

definition read_tiff_parallel :: "'d tiff_api \<Rightarrow> nat \<Rightarrow> nat \<Rightarrow> nat \<Rightarrow> nat \<Rightarrow> nat \<Rightarrow> nat \<Rightarrow> nat \<Rightarrow> dimension_order \<Rightarrow> voxel_size \<Rightarrow>
    (string + volume) option" where
  "read_tiff_parallel A n_threads width height ppp size_t size_c size_z order vs =
     (let num_pages = u32_mul (u32_mul size_t size_c) size_z
      in Option.bind (page_to_dst order size_t size_c size_z) (\<lambda>dst.
         if n_threads = 0 then None
         else case first_error (map (thread_run A width height ppp num_pages) (thread_ranges n_threads num_pages)) of
             Inl e \<Rightarrow> Some (Inl e)
           | Inr runs \<Rightarrow>
               map_option (\<lambda>data. Inr (tiff_volume width height size_t size_c size_z vs data))
                 (for_each (\<lambda>(p, pixels) data. Option.bind (index_at dst p) (\<lambda>dst_idx. copy_page ppp dst_idx pixels data))
                    (concat runs) (replicate (num_pages * ppp) 0))))"

section \<open>Unknown dimensions\<close>

partial_function (option) collect_pages :: "'d tiff_api \<Rightarrow> nat \<Rightarrow> nat \<Rightarrow> nat \<Rightarrow> 'd \<Rightarrow> nat \<Rightarrow> (string + u16 list list) option" where
  "collect_pages A width height ppp d page_num =
     (case decode_page A d page_num width height ppp of
        Inl e \<Rightarrow> Some (Inl e)
      | Inr pixels \<Rightarrow>
          if ti_more_images A d then
            (case context_err ''failed to advance to next page'' (ti_next_image A d) of
               Inl e \<Rightarrow> Some (Inl e)
             | Inr d' \<Rightarrow> Option.bind (collect_pages A width height ppp d' (Suc page_num)) (\<lambda>r. Some (res_map ((#) pixels) r)))
          else Some (Inr [pixels]))"

definition or_default :: "'a option \<Rightarrow> 'a \<Rightarrow> 'a" where
  "or_default x d = (case x of Some a \<Rightarrow> a | None \<Rightarrow> d)"

definition reorder_pages :: "dimension_order \<Rightarrow> nat \<Rightarrow> nat \<Rightarrow> nat \<Rightarrow> nat \<Rightarrow> u16 list list \<Rightarrow> u16 list \<Rightarrow> u16 list option" where
  "reorder_pages order size_t size_c size_z ppp pages =
     for_each (\<lambda>(t, c, z) data.
         Option.bind (index_at pages (page_index order t c z size_t size_c size_z)) (\<lambda>pixels.
           copy_page ppp (rank3 t size_c c size_z z) pixels data))
       (tcz_indices size_t size_c size_z)"

definition read_tiff_collect :: "'d tiff_api \<Rightarrow> 'd \<Rightarrow> nat \<Rightarrow> nat \<Rightarrow> nat \<Rightarrow> dimension_hints \<Rightarrow> voxel_size \<Rightarrow> (string + volume) option" where
  "read_tiff_collect A d width height ppp hints vs =
     Option.bind (collect_pages A width height ppp d 0) (\<lambda>r. case r of
         Inl e \<Rightarrow> Some (Inl e)
       | Inr pages \<Rightarrow>
           let num_pages = length pages mod 2 ^ 32;
               size_t = or_default (dh_size_t hints) 1;
               size_c = or_default (dh_size_c hints) 1;
               size_z = or_default (dh_size_z hints) num_pages;
               order = or_default (dh_order hints) Xyzct;
               total = u32_mul (u32_mul size_t size_c) size_z
           in if total \<noteq> num_pages then
                Some (Inl (''dimension mismatch: T='' @ show_nat size_t @ '' * C='' @ show_nat size_c @ '' * Z='' @ show_nat size_z
                  @ '' = '' @ show_nat total @ '' but TIFF has '' @ show_nat num_pages @ '' pages''))
              else map_option (\<lambda>data. Inr (tiff_volume width height size_t size_c size_z vs data))
                     (reorder_pages order size_t size_c size_z ppp pages (replicate (num_pages * ppp) 0)))"

section \<open>Reading and converting a file\<close>

definition resolve_voxel :: "dimension_hints \<Rightarrow> ome_info option \<Rightarrow> voxel_size" where
  "resolve_voxel hints ome =
     (let pick = (\<lambda>hint field. or_default (case hint of Some v \<Rightarrow> Some v | None \<Rightarrow> Option.bind ome field) (1 :: f64))
      in \<lparr>vx_x = pick (dh_voxel_size_x hints) oi_physical_size_x,
          vx_y = pick (dh_voxel_size_y hints) oi_physical_size_y,
          vx_z = pick (dh_voxel_size_z hints) oi_physical_size_z\<rparr>)"

definition read_tiff :: "'d tiff_api \<Rightarrow> nat \<Rightarrow> dimension_hints \<Rightarrow> (string + volume) option" where
  "read_tiff A n_threads hints =
     (case res_bind (ti_file A) (\<lambda>_. context_err ''failed to decode TIFF'' (ti_open A)) of
        Inl e \<Rightarrow> Some (Inl e)
      | Inr d \<Rightarrow>
          let ome = Option.bind (ti_description A d) (parse_ome_xml (ti_parse_f64 A))
          in (case context_err ''bad dimensions'' (ti_dimensions A d) of
                Inl e \<Rightarrow> Some (Inl e)
              | Inr (width, height) \<Rightarrow>
                  let ppp = u32_mul width height; vs = resolve_voxel hints ome
                  in (case ome of
                        Some i \<Rightarrow>
                          read_tiff_parallel A n_threads width height ppp (or_default (dh_size_t hints) (oi_size_t i))
                            (or_default (dh_size_c hints) (oi_size_c i)) (or_default (dh_size_z hints) (oi_size_z i))
                            (or_default (dh_order hints) (oi_order i)) vs
                      | None \<Rightarrow> read_tiff_collect A d width height ppp hints vs)))"

definition convert_tiff_to_zarr :: "'d tiff_api \<Rightarrow> nat \<Rightarrow> (bytes \<Rightarrow> bytes) \<Rightarrow> file_system \<Rightarrow> string list \<Rightarrow> nat \<times> nat \<times> nat \<Rightarrow>
    dimension_hints \<Rightarrow> unit writing" where
  "convert_tiff_to_zarr A n_threads lz4 io output chunk_size hints =
     write_bind ([], read_tiff A n_threads hints) (\<lambda>v. write_volume_pyramid lz4 io output v chunk_size)"

section \<open>Page order is a bijection\<close>

lemma rank3_exact:
  assumes "a < A" "b < B" "c < C" "A * B * C < 2 ^ 32"
  shows "rank3 a B b C c = (a * B + b) * C + c" "rank3 a B b C c < A * B * C"
proof -
  have "a * B + b < A * B" using assms(1,2) by (rule mixed_radix_less)
  then have less: "(a * B + b) * C + c < A * B * C" using assms(3) by (rule mixed_radix_less)
  then have all: "a * B * C + b * C + c < 2 ^ 32" using assms(4) by (simp add: algebra_simps)
  have "a * B \<le> a * B * C" using assms(3) by simp
  then have "a * B < 2 ^ 32" "a * B * C < 2 ^ 32" "b * C < 2 ^ 32" using all by linarith+
  then show eq: "rank3 a B b C c = (a * B + b) * C + c" using all by (simp add: rank3_def u32_small algebra_simps)
  with less show "rank3 a B b C c < A * B * C" by simp
qed

text \<open>The axes of a page order, slowest first.\<close>

fun arrange :: "dimension_order \<Rightarrow> 'a \<times> 'a \<times> 'a \<Rightarrow> 'a \<times> 'a \<times> 'a" where
  "arrange Xyzct (t, c, z) = (t, c, z)"
| "arrange Xyztc (t, c, z) = (c, t, z)"
| "arrange Xyczt (t, c, z) = (t, z, c)"
| "arrange Xyctz (t, c, z) = (z, t, c)"
| "arrange Xytcz (t, c, z) = (z, c, t)"
| "arrange Xytzc (t, c, z) = (c, z, t)"

lemma page_index_arrange:
  assumes "t < T" "c < C" "z < Z" "T * C * Z < 2 ^ 32"
  obtains i j k I J K where "arrange order (t, c, z) = (i, j, k)" "arrange order (T, C, Z) = (I, J, K)"
    "i < I" "j < J" "k < K" "I * J * K = T * C * Z" "page_index order t c z T C Z = (i * J + j) * K + k"
proof -
  have size: "T * C * Z = I * J * K" if "arrange order (T, C, Z) = (I, J, K)" for I J K
    using that by (cases order) auto
  have "page_index order t c z T C Z = (i * J + j) * K + k" "i < I" "j < J" "k < K"
    if "arrange order (t, c, z) = (i, j, k)" "arrange order (T, C, Z) = (I, J, K)" for i j k I J K
  proof -
    show lt: "i < I" "j < J" "k < K" using that assms(1-3) by (cases order; auto)+
    have "page_index order t c z T C Z = rank3 i J j K k" using that by (cases order) (auto simp: page_index_def)
    then show "page_index order t c z T C Z = (i * J + j) * K + k"
      using rank3_exact(1) [OF lt] assms(4) size [OF that(2)] by simp
  qed
  then show thesis using that size by (metis prod_cases3)
qed

lemma page_index_less:
  assumes "t < T" "c < C" "z < Z" "T * C * Z < 2 ^ 32"
  shows "page_index order t c z T C Z < T * C * Z"
  by (rule page_index_arrange [OF assms, of order]) (metis mixed_radix_less)

lemma arrange_inj: "arrange order x = arrange order y \<Longrightarrow> x = y"
  by (cases x; cases y; cases order) auto

lemma page_index_inj:
  assumes "T * C * Z < 2 ^ 32" "t < T" "c < C" "z < Z" "t' < T" "c' < C" "z' < Z"
    "page_index order t c z T C Z = page_index order t' c' z' T C Z"
  shows "(t, c, z) = (t', c', z')"
proof -
  obtain i j k I J K where p: "arrange order (t, c, z) = (i, j, k)" "arrange order (T, C, Z) = (I, J, K)"
    "j < J" "k < K" "page_index order t c z T C Z = (i * J + j) * K + k"
    by (rule page_index_arrange [OF assms(2-4,1), of order])
  obtain i' j' k' I' J' K' where q': "arrange order (t', c', z') = (i', j', k')" "arrange order (T, C, Z) = (I', J', K')"
    "j' < J'" "k' < K'" "page_index order t' c' z' T C Z = (i' * J' + j') * K' + k'"
    by (rule page_index_arrange [OF assms(5-7,1), of order])
  have "J' = J" "K' = K" using p(2) q'(2) by simp_all
  note q = q'(1,3-5) [unfolded this]
  have "(i * J + j) * K + k = (i' * J + j') * K + k'" using assms(8) p(5) q(4) by simp
  from mixed_radix_inj [OF p(4) q(3) this] have "i * J + j = i' * J + j'" "k = k'" by blast+
  moreover from mixed_radix_inj [OF p(3) q(2) this(1)] have "i = i'" "j = j'" by blast+
  ultimately have "arrange order (t, c, z) = arrange order (t', c', z')" using p(1) q(1) by simp
  then show ?thesis by (rule arrange_inj)
qed

definition page_at :: "dimension_order \<Rightarrow> nat \<Rightarrow> nat \<Rightarrow> nat \<Rightarrow> nat \<times> nat \<times> nat \<Rightarrow> nat" where
  "page_at order T C Z = (\<lambda>(t, c, z). page_index order t c z T C Z)"

lemma tcz_iff: "(t, c, z) \<in> set (tcz_indices T C Z) \<longleftrightarrow> t < T \<and> c < C \<and> z < Z"
  by (auto simp: tcz_indices_def)

lemma distinct_tcz: "distinct (tcz_indices T C Z)" "length (tcz_indices T C Z) = T * C * Z"
  by (simp_all add: tcz_indices_def distinct_product)

lemma page_at_bij:
  assumes "T * C * Z < 2 ^ 32"
  shows "bij_betw (page_at order T C Z) (set (tcz_indices T C Z)) {..<T * C * Z}"
proof -
  have inj: "inj_on (page_at order T C Z) (set (tcz_indices T C Z))"
    using page_index_inj [OF assms] by (fastforce simp: inj_on_def page_at_def tcz_iff)
  moreover have "page_at order T C Z ` set (tcz_indices T C Z) \<subseteq> {..<T * C * Z}"
    using page_index_less [OF _ _ _ assms] by (auto simp: page_at_def tcz_iff)
  moreover have "card (page_at order T C Z ` set (tcz_indices T C Z)) = card {..<T * C * Z}"
    using card_image [OF inj] distinct_card [OF distinct_tcz(1)] by (simp add: distinct_tcz(2))
  ultimately show ?thesis by (metis bij_betw_def card_subset_eq finite_lessThan)
qed

lemma num_pages_exact: "T * C * Z < 2 ^ 32 \<Longrightarrow> u32_mul (u32_mul T C) Z = T * C * Z"
  by (simp add: u32_mul_def mod_mult_left_eq)

lemma page_to_dst_ok:
  assumes "T * C * Z < 2 ^ 32"
  obtains dst where "page_to_dst order T C Z = Some dst" "length dst = T * C * Z"
    "\<And>x. x \<in> set (tcz_indices T C Z) \<Longrightarrow> dst ! page_at order T C Z x = page_at Xyzct T C Z x"
proof (cases "order = Xyzct")
  case True
  note n = num_pages_exact [OF assms]
  have "page_at Xyzct T C Z x < T * C * Z" if "x \<in> set (tcz_indices T C Z)" for x
    using bij_betwE [OF page_at_bij [OF assms, of Xyzct]] that by auto
  then show thesis using that [of "[0..<T * C * Z]"] True by (simp add: page_to_dst_def n)
next
  case False
  note n = num_pages_exact [OF assms]
  let ?p = "page_at order T C Z" and ?s = "page_at Xyzct T C Z" and ?ix = "tcz_indices T C Z"
  note bij = page_at_bij [OF assms, of order]
  have less: "?p x < T * C * Z" if "x \<in> set ?ix" for x using bij_betwE [OF bij] that by auto
  have "page_to_dst order T C Z = for_each (\<lambda>x. store_at (?p x) (?s x)) ?ix (replicate (T * C * Z) 0)"
  proof -
    have "(\<lambda>(t, c, z). store_at (page_index order t c z T C Z) (rank3 t C c Z z)) = (\<lambda>x. store_at (?p x) (?s x))"
      by (intro ext) (auto simp: page_at_def page_index_def)
    with False show ?thesis by (simp add: page_to_dst_def n)
  qed
  also have "\<dots> = Some (fold (\<lambda>x out. out[?p x := ?s x]) ?ix (replicate (T * C * Z) 0))"
    using less by (intro for_each_scatter) simp
  finally have "page_to_dst order T C Z = Some (fold (\<lambda>x out. out[?p x := ?s x]) ?ix (replicate (T * C * Z) 0))" .
  moreover have "fold (\<lambda>x out. out[?p x := ?s x]) ?ix (replicate (T * C * Z) 0) ! ?p x = ?s x" if "x \<in> set ?ix" for x
    using that less [OF that] distinct_tcz(1) bij_betw_imp_inj_on [OF bij] by (intro scatter_at) simp_all
  ultimately show thesis using that by simp
qed

section \<open>Pages into slots\<close>

lemma length_blocks: "\<forall>b \<in> set bs. length b = n \<Longrightarrow> length (concat bs) = length bs * n"
  by (induction bs) auto

lemma replicate_blocks: "replicate (k * n) x = concat (replicate k (replicate n x))"
  by (induction k) (simp_all add: replicate_add)

lemma copy_page_block:
  assumes "\<forall>b \<in> set bs. length b = n" "i < length bs" "length px = n"
  shows "copy_page n i px (concat bs) = Some (concat (bs[i := px]))"
proof -
  obtain as b cs where bs: "bs = as @ b # cs" "length as = i" using assms(2) by (metis id_take_nth_drop length_take min.absorb4)
  have "length (concat as) = i * n" using assms(1) bs length_blocks [of as n] by auto
  moreover have "length b = n" using assms(1) bs(1) by simp
  ultimately show ?thesis using assms(3) by (simp add: copy_page_def bs list_update_append)
qed

lemma copy_loop:
  assumes "\<forall>b \<in> set bs. length b = n" "\<forall>x \<in> set xs. q x < length bs \<and> length (px x) = n"
  shows "for_each (\<lambda>x. copy_page n (q x) (px x)) xs (concat bs) = Some (concat (fold (\<lambda>x out. out[q x := px x]) xs bs))"
  using assms
proof (induction xs arbitrary: bs)
  case (Cons x xs)
  have "\<forall>b \<in> set (bs[q x := px x]). length b = n" using Cons.prems set_update_subset_insert by fastforce
  then show ?case using Cons by (simp add: copy_page_block)
qed simp

lemma scatter_lengths:
  "\<forall>b \<in> set bs. length b = n \<Longrightarrow> \<forall>x \<in> set xs. length (px x) = n \<Longrightarrow>
     \<forall>b \<in> set (fold (\<lambda>x out. out[q x := px x]) xs bs). length b = n"
proof (induction xs arbitrary: bs)
  case (Cons x xs)
  have "\<forall>b \<in> set (bs[q x := px x]). length b = n" using Cons.prems set_update_subset_insert by fastforce
  then show ?case using Cons by simp
qed simp

lemma nth_blocks:
  assumes "\<forall>b \<in> set bs. length b = n" "q < length bs" "i < n"
  shows "concat bs ! (q * n + i) = bs ! q ! i"
proof -
  have "concat (map (nth bs) [0..<length bs]) ! (q * n + i) = bs ! q ! i" using assms by (intro nth_concat_upt) auto
  then show ?thesis by (simp only: map_nth)
qed

text \<open>The volume that page order asks for, as a list of pages by slot.\<close>

definition in_order :: "dimension_order \<Rightarrow> nat \<Rightarrow> nat \<Rightarrow> nat \<Rightarrow> u16 list list \<Rightarrow> u16 list list" where
  "in_order order T C Z pages = map (\<lambda>x. pages ! page_at order T C Z x) (tcz_indices T C Z)"

lemma tcz_nth:
  assumes "t < T" "c < C" "z < Z"
  shows "tcz_indices T C Z ! ((t * C + c) * Z + z) = (t, c, z)"
proof -
  have inner: "c * Z + z < C * Z" using assms(2,3) by (rule mixed_radix_less)
  have all: "t * (C * Z) + (c * Z + z) < T * (C * Z)" using assms(1) inner by (rule mixed_radix_less)
  have "(t * C + c) * Z + z = t * (C * Z) + (c * Z + z)" by (simp add: algebra_simps)
  then have "tcz_indices T C Z ! ((t * C + c) * Z + z) = tcz_indices T C Z ! (t * (C * Z) + (c * Z + z))" by (simp only:)
  also have "\<dots> = ([0..<T] ! t, List.product [0..<C] [0..<Z] ! (c * Z + z))"
    using all mixed_radix [OF inner, of t] by (simp add: tcz_indices_def product_nth del: add.assoc)
  also have "List.product [0..<C] [0..<Z] ! (c * Z + z) = ([0..<C] ! c, [0..<Z] ! z)"
    using inner mixed_radix [OF assms(3), of c] by (simp add: product_nth)
  finally show ?thesis using assms by simp
qed

lemma slot_nth:
  assumes "T * C * Z < 2 ^ 32" "x \<in> set (tcz_indices T C Z)"
  shows "tcz_indices T C Z ! page_at Xyzct T C Z x = x" "page_at Xyzct T C Z x < T * C * Z"
proof -
  obtain t c z where x: "x = (t, c, z)" by (cases x)
  then have lt: "t < T" "c < C" "z < Z" using assms(2) by (simp_all add: tcz_iff)
  have "page_at Xyzct T C Z x = (t * C + c) * Z + z" "page_at Xyzct T C Z x < T * C * Z"
    using rank3_exact [OF lt assms(1)] by (simp_all add: x page_at_def page_index_def)
  then show "tcz_indices T C Z ! page_at Xyzct T C Z x = x" "page_at Xyzct T C Z x < T * C * Z" using tcz_nth [OF lt] by (simp_all add: x)
qed

text \<open>Blocks that hold, at the slot of every coordinate, its page are the pages in order.\<close>

lemma blocks_in_order:
  assumes "T * C * Z < 2 ^ 32" "length bs = T * C * Z"
    "\<And>x. x \<in> set (tcz_indices T C Z) \<Longrightarrow> bs ! page_at Xyzct T C Z x = pages ! page_at order T C Z x"
  shows "bs = in_order order T C Z pages"
proof (rule nth_equalityI)
  show "length bs = length (in_order order T C Z pages)" using assms(2) by (simp add: in_order_def distinct_tcz(2))
  fix i assume "i < length bs"
  then have i: "i < T * C * Z" using assms(2) by simp
  then obtain x where x: "x \<in> set (tcz_indices T C Z)" "page_at Xyzct T C Z x = i"
    using page_at_bij [OF assms(1), of Xyzct] by (metis bij_betw_imp_surj_on imageE lessThan_iff)
  then have "tcz_indices T C Z ! i = x" using slot_nth [OF assms(1) x(1)] by simp
  then show "bs ! i = in_order order T C Z pages ! i" using assms(3) [OF x(1)] x(2) i by (simp add: in_order_def distinct_tcz(2))
qed

lemma reorder_pages_ok:
  assumes "T * C * Z < 2 ^ 32" "length pages = T * C * Z" "\<forall>p \<in> set pages. length p = n"
  shows "reorder_pages order T C Z n pages (replicate (T * C * Z * n) 0) = Some (concat (in_order order T C Z pages))"
proof -
  let ?ix = "tcz_indices T C Z" and ?q = "page_at Xyzct T C Z" and ?px = "\<lambda>x. pages ! page_at order T C Z x"
  let ?bs = "replicate (T * C * Z) (replicate n (0 :: u16))"
  have less: "page_at o' T C Z x < T * C * Z" if "x \<in> set ?ix" for o' x
    using bij_betwE [OF page_at_bij [OF assms(1)]] that by auto
  have px: "length (?px x) = n" if "x \<in> set ?ix" for x using less [OF that] assms(2,3) by simp
  have zeros: "replicate (T * C * Z * n) 0 = concat ?bs" by (rule replicate_blocks)
  have "reorder_pages order T C Z n pages (concat ?bs) = for_each (\<lambda>x. copy_page n (?q x) (?px x)) ?ix (concat ?bs)"
    unfolding reorder_pages_def using less assms(2)
    by (intro for_each_cong) (auto simp: index_at_def page_at_def page_index_def)
  also have "\<dots> = Some (concat (fold (\<lambda>x out. out[?q x := ?px x]) ?ix ?bs))"
    using less px by (intro copy_loop) auto
  also have "fold (\<lambda>x out. out[?q x := ?px x]) ?ix ?bs = in_order order T C Z pages"
  proof (rule blocks_in_order [OF assms(1)])
    show "fold (\<lambda>x out. out[?q x := ?px x]) ?ix ?bs ! ?q x = ?px x" if "x \<in> set ?ix" for x
      using bij_betw_imp_inj_on [OF page_at_bij [OF assms(1), of Xyzct]] less [OF that] that
      by (intro scatter_at distinct_tcz(1)) simp_all
  qed simp
  finally show ?thesis by (simp only: zeros)
qed

text \<open>The same for pages written in page order through the destination map.\<close>

lemma mapped_pages_ok:
  assumes "T * C * Z < 2 ^ 32" "length pages = T * C * Z" "\<forall>p \<in> set pages. length p = n" "page_to_dst order T C Z = Some dst"
  shows "for_each (\<lambda>(p, pixels) data. Option.bind (index_at dst p) (\<lambda>dst_idx. copy_page n dst_idx pixels data))
      (map (\<lambda>k. (k, pages ! k)) [0..<T * C * Z]) (replicate (T * C * Z * n) 0) = Some (concat (in_order order T C Z pages))"
proof -
  let ?N = "T * C * Z" and ?ix = "tcz_indices T C Z" and ?p = "page_at order T C Z" and ?s = "page_at Xyzct T C Z"
  let ?bs = "replicate ?N (replicate n (0 :: u16))" and ?ws = "map (\<lambda>k. (k, pages ! k)) [0..<?N]"
  obtain dst' where dst': "page_to_dst order T C Z = Some dst'" "length dst' = ?N" "\<And>x. x \<in> set ?ix \<Longrightarrow> dst' ! ?p x = ?s x"
    using page_to_dst_ok [OF assms(1), of order] by blast
  have [simp]: "dst' = dst" using dst'(1) assms(4) by simp
  note len = dst'(2) [simplified] and at = dst'(3) [simplified]
  note bp = page_at_bij [OF assms(1), of order] and bs = page_at_bij [OF assms(1), of Xyzct]
  have of_page: "\<exists>x \<in> set ?ix. k = ?p x" if "k < ?N" for k
    using bp that by (metis bij_betw_imp_surj_on imageE lessThan_iff)
  have dst_less: "dst ! k < ?N" if k: "k < ?N" for k
  proof -
    from of_page [OF k] obtain x where x: "x \<in> set ?ix" "k = ?p x" by blast
    then show ?thesis using at [OF x(1)] slot_nth(2) [OF assms(1) x(1)] by simp
  qed
  have dst_inj: "inj_on (\<lambda>k. dst ! k) {..<?N}"
  proof (rule inj_onI)
    fix k l assume kl: "k \<in> {..<?N}" "l \<in> {..<?N}" "dst ! k = dst ! l"
    obtain x y where xy: "x \<in> set ?ix" "k = ?p x" "y \<in> set ?ix" "l = ?p y" using of_page [of k] of_page [of l] kl by auto
    then have "?s x = ?s y" using kl(3) at by simp
    then have "x = y" using bij_betw_imp_inj_on [OF bs] xy(1,3) by (meson inj_onD)
    with xy show "k = l" by simp
  qed
  have ws_inj: "inj_on (\<lambda>x. dst ! fst x) (set ?ws)" using inj_onD [OF dst_inj] by (force intro!: inj_onI)
  have "for_each (\<lambda>(p, pixels) data. Option.bind (index_at dst p) (\<lambda>dst_idx. copy_page n dst_idx pixels data)) ?ws (concat ?bs)
      = for_each (\<lambda>x. copy_page n (dst ! fst x) (snd x)) ?ws (concat ?bs)"
    using len by (intro for_each_cong) (auto simp: index_at_def)
  also have "\<dots> = Some (concat (fold (\<lambda>x out. out[dst ! fst x := snd x]) ?ws ?bs))"
    using dst_less assms(2,3) by (intro copy_loop) auto
  also have "fold (\<lambda>x out. out[dst ! fst x := snd x]) ?ws ?bs = in_order order T C Z pages"
  proof (rule blocks_in_order [OF assms(1)])
    fix x assume x: "x \<in> set ?ix"
    have k: "?p x < ?N" using bij_betwE [OF bp] x by auto
    have "fold (\<lambda>x out. out[dst ! fst x := snd x]) ?ws ?bs ! (dst ! fst (?p x, pages ! ?p x)) = snd (?p x, pages ! ?p x)"
      using k dst_less [OF k] by (intro scatter_at ws_inj) (auto simp: distinct_map inj_on_def)
    then show "fold (\<lambda>x out. out[dst ! fst x := snd x]) ?ws ?bs ! ?s x = pages ! ?p x" using at [OF x] by simp
  qed simp
  finally show ?thesis by (simp only: replicate_blocks)
qed

section \<open>A file of pages\<close>

text \<open>The decoder at \<open>d\<close> gives the pages in turn and then has no more.\<close>

fun yields :: "'d tiff_api \<Rightarrow> nat \<Rightarrow> nat \<Rightarrow> nat \<Rightarrow> 'd \<Rightarrow> u16 list list \<Rightarrow> bool" where
  "yields A w h n d [] = False"
| "yields A w h n d [p] = (decode_page A d 0 w h n = Inr p \<and> \<not> ti_more_images A d)"
| "yields A w h n d (p # q # ps) =
     (decode_page A d 0 w h n = Inr p \<and> ti_more_images A d
      \<and> (case ti_next_image A d of Inr d' \<Rightarrow> yields A w h n d' (q # ps) | Inl _ \<Rightarrow> False))"

lemma decode_page_ok:
  assumes "decode_page A d k w h n = Inr p"
  shows "decode_page A d l w h n = Inr p" "length p = n"
proof -
  from assms obtain img where img: "ti_dimensions A d = Inr (w, h)" "ti_colortype A d \<in> {Inr (Gray 8), Inr (Gray 16)}" "ti_read_image A d = Inr img"
    by (auto simp: decode_page_def context_err_def res_map_err_def res_bind_def split: if_split_asm prod.split_asm sum.split_asm)
  with assms show "decode_page A d l w h n = Inr p" "length p = n"
    by (cases img; auto simp: decode_page_def context_err_def res_map_err_def split: if_split_asm)+
qed

lemma yields_lengths: "yields A w h n d ps \<Longrightarrow> \<forall>p \<in> set ps. length p = n"
proof (induction A w h n d ps rule: yields.induct)
  case (3 A w h n d p q ps)
  then show ?case using decode_page_ok(2) by (auto split: sum.splits)
qed (auto dest: decode_page_ok(2))

lemma collect_pages_ok: "yields A w h n d ps \<Longrightarrow> collect_pages A w h n d k = Some (Inr ps)"
proof (induction A w h n d ps arbitrary: k rule: yields.induct)
  case (2 A w h n d p)
  then have "decode_page A d k w h n = Inr p" by (auto dest: decode_page_ok(1))
  with 2 show ?case by (subst collect_pages.simps) simp
next
  case (3 A w h n d p q ps)
  then have "decode_page A d k w h n = Inr p" by (auto dest: decode_page_ok(1))
  moreover from 3(2) obtain d' where d': "ti_next_image A d = Inr d'" "ti_more_images A d" "yields A w h n d' (q # ps)"
    by (auto split: sum.splits)
  moreover have "collect_pages A w h n d' (Suc k) = Some (Inr (q # ps))" using 3(1) d' by simp
  ultimately show ?case by (subst collect_pages.simps) (simp add: context_err_def res_map_err_def res_map_def)
qed simp

lemma walk_ok: "yields A w h n d ps \<Longrightarrow> k < length ps \<Longrightarrow> \<exists>d'. walk_ifds A s k d = Inr d' \<and> yields A w h n d' (drop k ps)"
proof (induction k arbitrary: d ps)
  case (Suc k)
  then obtain p q qs where ps: "ps = p # q # qs" by (metis Suc_length_conv Suc_lessE length_Cons less_Suc_eq_0_disj list.exhaust list.size(3) not_less_zero)
  with Suc.prems(1) obtain d' where d': "ti_next_image A d = Inr d'" "ti_more_images A d" "yields A w h n d' (q # qs)"
    by (auto split: sum.splits)
  with Suc.IH [OF d'(3)] Suc.prems(2) ps show ?case by (auto simp: context_err_def res_map_err_def)
qed simp

lemma decode_run_ok:
  "yields A w h n d ps \<Longrightarrow> m \<le> length ps \<Longrightarrow> 0 < m \<Longrightarrow>
     decode_run A w h n N [k..<k + m] d = Inr (map (\<lambda>i. (k + i, ps ! i)) [0..<m])"
proof (induction m arbitrary: d ps k)
  case (Suc m)
  obtain p qs where ps: "ps = p # qs" using Suc.prems(2) by (cases ps) auto
  have dec: "decode_page A d k w h n = Inr p" using Suc.prems(1) decode_page_ok(1) by (cases qs) (auto simp: ps)
  show ?case
  proof (cases m)
    case 0
    with dec ps show ?thesis by simp
  next
    case (Suc m')
    with Suc.prems(2) ps obtain q rs where qs: "qs = q # rs" by (cases qs) auto
    with Suc.prems(1) ps obtain d' where d': "ti_next_image A d = Inr d'" "ti_more_images A d" "yields A w h n d' qs"
      by (auto split: sum.splits)
    have IH: "decode_run A w h n N [Suc k..<Suc k + m] d' = Inr (map (\<lambda>i. (Suc k + i, qs ! i)) [0..<m])"
      using Suc.IH [OF d'(3), of "Suc k"] Suc.prems(2) ps Suc by simp
    have "[k..<k + Suc m] = k # [Suc k..<Suc k + m]" by (simp add: upt_conv_Cons)
    moreover have "map (\<lambda>i. (k + i, ps ! i)) [0..<Suc m] = (k, p) # map (\<lambda>i. (Suc k + i, qs ! i)) [0..<m]"
      by (simp add: upt_conv_Cons ps map_Suc_upt [symmetric] del: upt_Suc)
    moreover have "[Suc k..<Suc k + m] \<noteq> []" using Suc by simp
    ultimately show ?thesis using dec d' IH by (simp add: context_err_def res_map_err_def res_map_def del: upt_Suc)
  qed
qed simp

lemma thread_run_ok:
  assumes "ti_open A = Inr d" "yields A w h n d pages" "s < e" "e \<le> length pages"
  shows "thread_run A w h n N (s, e) = Inr (map (\<lambda>k. (k, pages ! k)) [s..<e])"
proof -
  obtain d' where d': "walk_ifds A s s d = Inr d'" "yields A w h n d' (drop s pages)"
    using walk_ok [OF assms(2), of s s] assms(3,4) by auto
  have "map (\<lambda>i. (s + i, drop s pages ! i)) [0..<e - s] = map (\<lambda>k. (k, pages ! k)) [s..<e]"
    using assms(3,4) by (intro nth_equalityI) auto
  with decode_run_ok [OF d'(2), of "e - s" N s] assms(3,4) have "decode_run A w h n N [s..<e] d' = Inr (map (\<lambda>k. (k, pages ! k)) [s..<e])" by simp
  with assms(1) d'(1) show ?thesis by (simp add: thread_run_def context_err_def res_map_err_def)
qed

lemma first_error_ok: "\<forall>x \<in> set xs. f x = Inr (g x) \<Longrightarrow> first_error (map f xs) = Inr (map g xs)"
  by (induction xs) (auto simp: res_map_def)

lemma ranges_concat: "concat (map (\<lambda>i. [i * c..<min (i * c + c) N]) [0..<m]) = [0..<min (m * c) N]"
proof (induction m)
  case (Suc m)
  show ?case
  proof (cases "m * c \<le> N")
    case True
    then obtain k where k: "min (m * c + c) N = m * c + k" by (metis le_add1 le_Suc_ex min.bounded_iff)
    have "[0..<m * c] @ [m * c..<m * c + k] = [0..<m * c + k]" by (rule upt_add_eq_append [symmetric]) simp
    with Suc True k show ?thesis by (simp add: add.commute)
  qed (use Suc in simp)
qed simp

lemma ranges_nonempty:
  "concat (map (\<lambda>(s, e). [s..<e]) (filter (\<lambda>(s, e). s < e) rs)) = concat (map (\<lambda>(s, e). [s..<e]) rs)"
  by (induction rs) auto

lemma thread_ranges_cover:
  assumes "0 < n"
  shows "concat (map (\<lambda>(s, e). [s..<e]) (thread_ranges n N)) = [0..<N]" "\<forall>(s, e) \<in> set (thread_ranges n N). s < e \<and> e \<le> N"
proof -
  let ?c = "(N + n - 1) div n"
  have "N + n - 1 < n + ?c * n" using assms by (rule dividend_less_div_times)
  then have "N \<le> n * ?c" using assms by (simp add: mult.commute)
  then have "[0..<min (n * ?c) N] = [0..<N]" by simp
  then show "concat (map (\<lambda>(s, e). [s..<e]) (thread_ranges n N)) = [0..<N]"
    unfolding thread_ranges_def Let_def ranges_nonempty by (simp add: comp_def ranges_concat)
qed (auto simp: thread_ranges_def Let_def)

lemma read_tiff_parallel_ok:
  assumes "ti_open A = Inr d" "yields A w h n d pages" "length pages = T * C * Z" "T * C * Z < 2 ^ 32" "0 < threads"
  shows "read_tiff_parallel A threads w h n T C Z order vs =
    Some (Inr (tiff_volume w h T C Z vs (concat (in_order order T C Z pages))))"
proof -
  let ?N = "T * C * Z" and ?run = "\<lambda>(s, e). map (\<lambda>k. (k, pages ! k)) [s..<e]"
  note num = num_pages_exact [OF assms(4)]
  obtain dst where dst: "page_to_dst order T C Z = Some dst" using page_to_dst_ok [OF assms(4), of order] by blast
  note cover = thread_ranges_cover [OF assms(5), of ?N]
  have "first_error (map (thread_run A w h n ?N) (thread_ranges threads ?N)) = Inr (map ?run (thread_ranges threads ?N))"
    using thread_run_ok [OF assms(1,2)] cover(2) assms(3) by (intro first_error_ok) auto
  moreover have "concat (map ?run rs) = map (\<lambda>k. (k, pages ! k)) (concat (map (\<lambda>(s, e). [s..<e]) rs))" for rs
    by (induction rs) auto
  then have "concat (map ?run (thread_ranges threads ?N)) = map (\<lambda>k. (k, pages ! k)) [0..<?N]" by (simp only: cover(1))
  ultimately show ?thesis
    using mapped_pages_ok [OF assms(4,3) yields_lengths [OF assms(2)] dst] assms(5)
    by (simp add: read_tiff_parallel_def num dst Let_def del: concat_map_singleton)
qed

lemma read_tiff_collect_ok:
  assumes "yields A w h n d pages" "length pages = T * C * Z" "T * C * Z < 2 ^ 32"
    "dh_size_t hints = Some T" "dh_size_c hints = Some C" "dh_size_z hints = Some Z" "dh_order hints = Some order"
  shows "read_tiff_collect A d w h n hints vs = Some (Inr (tiff_volume w h T C Z vs (concat (in_order order T C Z pages))))"
  using reorder_pages_ok [OF assms(3,2) yields_lengths [OF assms(1)]] assms(2,3)
  by (simp add: read_tiff_collect_def collect_pages_ok [OF assms(1)] or_default_def assms(4-7) Let_def num_pages_exact)

lemma in_order_sample:
  assumes "\<forall>p \<in> set pages. length p = n" "length pages = T * C * Z" "T * C * Z < 2 ^ 32" "t < T" "c < C" "z < Z" "i < n"
  shows "concat (in_order order T C Z pages) ! (((t * C + c) * Z + z) * n + i) = pages ! page_index order t c z T C Z ! i"
proof -
  let ?bs = "in_order order T C Z pages" and ?s = "(t * C + c) * Z + z"
  have "t * C + c < T * C" using assms(4,5) by (rule mixed_radix_less)
  then have s: "?s < T * C * Z" using assms(6) by (rule mixed_radix_less)
  have len: "length ?bs = T * C * Z" by (simp add: in_order_def distinct_tcz(2))
  have "\<forall>b \<in> set ?bs. length b = n"
  proof
    fix b assume "b \<in> set ?bs"
    then obtain x where "x \<in> set (tcz_indices T C Z)" "b = pages ! page_at order T C Z x" by (auto simp: in_order_def)
    moreover from this have "page_at order T C Z x < T * C * Z" using bij_betwE [OF page_at_bij [OF assms(3)]] by auto
    ultimately show "length b = n" using assms(1,2) by simp
  qed
  then have "concat ?bs ! (?s * n + i) = ?bs ! ?s ! i" using s len assms(7) by (intro nth_blocks) auto
  then show ?thesis using s tcz_nth [OF assms(4-6)] by (simp add: in_order_def distinct_tcz(2) page_at_def)
qed

text \<open>C16: Reading a TIFF in parallel and page by page give the same volume: when the file has exactly
  the pages its dimensions announce, then for any number of threads and each of the six
  page orders both readers return it without error, every copy stays inside the volume,
  and the plane of each timepoint, channel and depth is the page the order assigns to it.\<close>
theorem tiff_readers_agree:
  assumes "ti_open A = Inr d" "yields A w h n d pages" "length pages = T * C * Z" "T * C * Z < 2 ^ 32" "0 < threads"
    "dh_size_t hints = Some T" "dh_size_c hints = Some C" "dh_size_z hints = Some Z" "dh_order hints = Some order"
  shows "\<exists>v. read_tiff_parallel A threads w h n T C Z order vs = Some (Inr v)
    \<and> read_tiff_collect A d w h n hints vs = Some (Inr v)
    \<and> vol_timepoints v = T \<and> vol_channels v = C \<and> vol_depth v = Z
    \<and> (\<forall>t < T. \<forall>c < C. \<forall>z < Z. \<forall>i < n.
         vol_data v ! (((t * C + c) * Z + z) * n + i) = pages ! page_index order t c z T C Z ! i)"
  using read_tiff_parallel_ok [OF assms(1-5)] read_tiff_collect_ok [OF assms(2-4,6-9)]
    in_order_sample [OF yields_lengths [OF assms(2)] assms(3,4)]
  by (simp add: tiff_volume_def)

text \<open>Four pages of one pixel: two timepoints of two channels, channels fastest.\<close>

definition demo_tiff :: "nat tiff_api" where
  "demo_tiff =
     \<lparr>ti_file = Inr (), ti_open = Inr 0, ti_dimensions = (\<lambda>_. Inr (1, 1)), ti_colortype = (\<lambda>_. Inr (Gray 16)),
      ti_read_image = (\<lambda>d. Inr (PixelsU16 [of_nat d])), ti_more_images = (\<lambda>d. d < 3), ti_next_image = (\<lambda>d. Inr (Suc d)),
      ti_description = (\<lambda>_. None), ti_parse_f64 = (\<lambda>_. None)\<rparr>"

definition demo_hints :: dimension_hints where
  "demo_hints = \<lparr>dh_size_t = Some 1, dh_size_c = Some 2, dh_size_z = Some 2, dh_order = Some Xyczt, dh_voxel_size_x = None,
     dh_voxel_size_y = None, dh_voxel_size_z = None\<rparr>"

theorem tiff_readers_agree_witness:
  "\<exists>v. read_tiff_parallel demo_tiff 3 1 1 1 1 2 2 Xyczt voxel_size_default = Some (Inr v)
     \<and> read_tiff_collect demo_tiff 0 1 1 1 demo_hints voxel_size_default = Some (Inr v) \<and> vol_data v ! 1 = 2 \<and> vol_data v ! 2 = 1"
proof -
  have "yields demo_tiff 1 1 1 0 [[0], [1], [2], [3]]"
    by (simp add: demo_tiff_def decode_page_def context_err_def res_map_err_def)
  from tiff_readers_agree [OF _ this, of 1 2 2 3 demo_hints Xyczt voxel_size_default] obtain v where
    v: "read_tiff_parallel demo_tiff 3 1 1 1 1 2 2 Xyczt voxel_size_default = Some (Inr v)"
      "read_tiff_collect demo_tiff 0 1 1 1 demo_hints voxel_size_default = Some (Inr v)"
      "\<forall>t < 1. \<forall>c < 2. \<forall>z < 2. \<forall>i < 1. vol_data v ! (((t * 2 + c) * 2 + z) * 1 + i) =
         [[0], [1], [2], [3]] ! page_index Xyczt t c z 1 2 2 ! i"
    by (auto simp: demo_tiff_def demo_hints_def)
  from v(3) [rule_format, of 0 0 1 0] v(3) [rule_format, of 0 1 0 0] v(1,2) show ?thesis
    by (auto simp: page_index_def rank3_def u32_add_def u32_mul_def)
qed

end
