(* ===== verification/Collection.thy ===== *)
theory Collection
  imports TiffPages "HOL-Library.AList"
begin

text \<open>
  Tiled TIFF collections (\<^verbatim>\<open>lucida-store/src/ingest\<close>): the directory scan that finds rows,
  columns, tiles and slots (\<^verbatim>\<open>collection_scanner.rs\<close>), the documents of the collection
  (\<^verbatim>\<open>collection_metadata.rs\<close>), the assembly of one tile (\<^verbatim>\<open>collection_reader.rs\<close>) and the
  conversion (\<^verbatim>\<open>convert_collection_to_zarr\<close>). The directory tree, the regular expression and
  the TIFF decoder are parameters. A hash map of files is an association list; nothing
  below depends on its order.
\<close>

section \<open>Scanning\<close>

record parsed_filename =
  pf_row :: nat
  pf_col :: nat
  pf_tile :: nat
  pf_plane :: nat
  pf_channel :: nat
  pf_timepoint :: nat
  pf_path :: string

type_synonym slot = "nat \<times> nat \<times> nat"

record tile_layout =
  tl_index :: nat
  tl_files :: "(slot \<times> string) list"

record group_layout =
  gl_row_name :: string
  gl_col_name :: string
  gl_row_index :: nat
  gl_col_index :: nat
  gl_tiles :: "tile_layout list"

record collection_layout =
  cl_name :: string
  cl_rows :: "string list"
  cl_columns :: "string list"
  cl_groups :: "group_layout list"
  cl_channels :: nat
  cl_timepoints :: nat
  cl_z_planes :: nat
  cl_image_width :: nat
  cl_image_height :: nat
  cl_voxel_size :: voxel_size

definition row_number_to_letter :: "nat \<Rightarrow> string" where
  "row_number_to_letter n = (if n = 0 \<or> n > 26 then ''R'' @ show_nat n else [char_of (65 + (n - 1))])"

text \<open>
  A directory with the error of reading it, or its entries; an entry that cannot be read; a
  plain file with its name and path. The regular expression is a function
  from a name to its six captured groups.
\<close>

datatype dir_tree =
    PlainFile string string
  | Unreadable string
  | Directory string "string option" "dir_tree list"

definition parse_captures :: "string list \<Rightarrow> string \<Rightarrow> parsed_filename option" where
  "parse_captures caps path =
     (case map (parse_uint 32) caps of
        [Some row, Some col, Some tile, Some plane, Some channel, Some timepoint] \<Rightarrow>
          Some \<lparr>pf_row = row, pf_col = col, pf_tile = tile, pf_plane = plane, pf_channel = channel, pf_timepoint = timepoint, pf_path = path\<rparr>
      | _ \<Rightarrow> None)"

fun scan_recursive :: "(string \<Rightarrow> string list option) \<Rightarrow> dir_tree \<Rightarrow> (string + parsed_filename list) option"
  and scan_entries :: "(string \<Rightarrow> string list option) \<Rightarrow> dir_tree list \<Rightarrow> (string + parsed_filename list) option" where
  "scan_recursive re (PlainFile name path) =
     (case re name of
        None \<Rightarrow> Some (Inr [])
      | Some caps \<Rightarrow> map_option (\<lambda>pf. Inr [pf]) (parse_captures caps path))"
| "scan_recursive re (Unreadable e) = Some (Inl (''directory entry error: '' @ e))"
| "scan_recursive re (Directory path err entries) =
     (case err of
        Some e \<Rightarrow> Some (Inl (''failed to read directory '' @ path @ '': '' @ e))
      | None \<Rightarrow> scan_entries re entries)"
| "scan_entries re [] = Some (Inr [])"
| "scan_entries re (t # rest) =
     Option.bind (scan_recursive re t) (\<lambda>r. case r of
         Inl e \<Rightarrow> Some (Inl e)
       | Inr here \<Rightarrow> map_option (res_map (\<lambda>more. here @ more)) (scan_entries re rest))"

text \<open>The keys of a \<^verbatim>\<open>BTreeSet\<close>, and the position of a key in it.\<close>

definition sorted_keys :: "nat list \<Rightarrow> nat list" where
  "sorted_keys xs = sort (remdups xs)"

definition rank_in :: "nat list \<Rightarrow> nat \<Rightarrow> nat option" where
  "rank_in keys k = position_of (\<lambda>x. x = k) keys"

text \<open>The slot of a file; a missing key would panic.\<close>

definition slot_of :: "parsed_filename list \<Rightarrow> parsed_filename \<Rightarrow> slot option" where
  "slot_of files pf =
     Option.bind (rank_in (sorted_keys (map pf_timepoint files)) (pf_timepoint pf)) (\<lambda>t.
     Option.bind (rank_in (sorted_keys (map pf_channel files)) (pf_channel pf)) (\<lambda>c.
     map_option (\<lambda>z. (t, c, z)) (rank_in (sorted_keys (map pf_plane files)) (pf_plane pf))))"

definition build_tile :: "parsed_filename list \<Rightarrow> parsed_filename list \<Rightarrow> nat \<Rightarrow> tile_layout option" where
  "build_tile files members tile =
     map_option (\<lambda>fs. \<lparr>tl_index = (tile + 2 ^ 32 - 1) mod 2 ^ 32, tl_files = fs\<rparr>)
       (for_each (\<lambda>pf fs. map_option (\<lambda>s. AList.update s (pf_path pf) fs) (slot_of files pf))
          (filter (\<lambda>pf. pf_tile pf = tile) members) [])"

definition build_group :: "parsed_filename list \<Rightarrow> nat \<times> nat \<Rightarrow> group_layout option" where
  "build_group files = (\<lambda>(row, col).
     let members = filter (\<lambda>pf. pf_row pf = row \<and> pf_col pf = col) files
     in Option.bind (rank_in (sorted_keys (map pf_row files)) row) (\<lambda>ri.
        Option.bind (rank_in (sorted_keys (map pf_col files)) col) (\<lambda>ci.
        map_option (\<lambda>tiles. \<lparr>gl_row_name = row_number_to_letter row, gl_col_name = show_nat col, gl_row_index = ri, gl_col_index = ci,
            gl_tiles = sort_key tl_index tiles\<rparr>)
          (those (map (build_tile files members) (sorted_keys (map pf_tile members)))))))"

text \<open>The keys of the \<^verbatim>\<open>BTreeMap\<close> of groups in their lexicographic order.\<close>

definition group_keys :: "parsed_filename list \<Rightarrow> (nat \<times> nat) list" where
  "group_keys files =
     [(row, col). row \<leftarrow> sorted_keys (map pf_row files), col \<leftarrow> sorted_keys (map pf_col (filter (\<lambda>pf. pf_row pf = row) files))]"

section \<open>Resolution tags\<close>

record tiff_tags =
  tt_opened :: "string + unit"
  tt_decoded :: "string + unit"
  tt_dimensions :: "string + nat \<times> nat"
  tt_resolution_unit :: "nat option"
  tt_x_resolution :: "nat list option"
  tt_y_resolution :: "nat list option"

definition f64_of_nat :: "nat \<Rightarrow> f64" where
  "f64_of_nat n = flit (of_nat n)"

definition axis_resolution :: "nat \<Rightarrow> nat list option \<Rightarrow> f64" where
  "axis_resolution res_unit tag =
     (case tag of
        Some (num # den # _) \<Rightarrow>
          if den > 0 then
            let px_per_unit = f64_of_nat num / f64_of_nat den
            in if px_per_unit > 0 then
                 (if res_unit = 2 then flit 25400 / px_per_unit else if res_unit = 3 then flit 10000 / px_per_unit else 1)
               else 1
          else 1
      | _ \<Rightarrow> 1)"

definition read_tiff_info :: "string \<Rightarrow> tiff_tags \<Rightarrow> string + nat \<times> nat \<times> voxel_size" where
  "read_tiff_info path tags =
     res_bind (context_err (''failed to open '' @ path) (tt_opened tags)) (\<lambda>_.
     res_bind (context_err (''failed to decode '' @ path) (tt_decoded tags)) (\<lambda>_.
     res_bind (context_err (''failed to read dimensions from '' @ path) (tt_dimensions tags)) (\<lambda>(width, height).
       let res_unit = or_default (tt_resolution_unit tags) 1
       in Inr (width, height,
            if res_unit > 1
            then \<lparr>vx_x = axis_resolution res_unit (tt_x_resolution tags), vx_y = axis_resolution res_unit (tt_y_resolution tags), vx_z = 1\<rparr>
            else voxel_size_default))))"

definition override_axis :: "f64 \<Rightarrow> f64 \<Rightarrow> f64" where
  "override_axis given tiff = (if \<not> feq given 1 then given else tiff)"

definition apply_overrides :: "voxel_size option \<Rightarrow> voxel_size \<Rightarrow> voxel_size" where
  "apply_overrides overrides tiff =
     (case overrides of
        Some v \<Rightarrow> \<lparr>vx_x = override_axis (vx_x v) (vx_x tiff), vx_y = override_axis (vx_y v) (vx_y tiff), vx_z = override_axis (vx_z v) (vx_z tiff)\<rparr>
      | None \<Rightarrow> tiff)"

definition count_u32 :: "nat list \<Rightarrow> nat" where
  "count_u32 xs = length (sorted_keys xs) mod 2 ^ 32"

definition scan_collection_directory :: "(string \<Rightarrow> string list option) \<Rightarrow> (string \<Rightarrow> tiff_tags) \<Rightarrow> string \<Rightarrow> string option \<Rightarrow> dir_tree \<Rightarrow>
    voxel_size option \<Rightarrow> (string + collection_layout) option" where
  "scan_collection_directory re tags display name tree overrides =
     Option.bind (scan_recursive re tree) (\<lambda>r. case r of
         Inl e \<Rightarrow> Some (Inl e)
       | Inr files \<Rightarrow>
           if files = [] then
             Some (Inl (''no tiled TIFF files found in '' @ display @ ''. Expected filenames like r01c01f01p01-ch01t01.tiff''))
           else Option.bind (those (map (build_group files) (group_keys files))) (\<lambda>groups.
             Some (res_map (\<lambda>(width, height, tiff_voxel).
                 \<lparr>cl_name = or_default name ''collection'',
                  cl_rows = map row_number_to_letter (sorted_keys (map pf_row files)),
                  cl_columns = map show_nat (sorted_keys (map pf_col files)),
                  cl_groups = groups,
                  cl_channels = count_u32 (map pf_channel files),
                  cl_timepoints = count_u32 (map pf_timepoint files),
                  cl_z_planes = count_u32 (map pf_plane files),
                  cl_image_width = width, cl_image_height = height, cl_voxel_size = apply_overrides overrides tiff_voxel\<rparr>)
               (read_tiff_info (pf_path (hd files)) (tags (pf_path (hd files)))))))"

section \<open>Documents\<close>

definition write_text :: "file_system \<Rightarrow> string list \<Rightarrow> json \<Rightarrow> unit writing" where
  "write_text io path content = attempt io (''failed to write '' @ join_with ''/'' path) (WriteJson path content)"

definition write_collection_metadata :: "file_system \<Rightarrow> string list \<Rightarrow> collection_layout \<Rightarrow> unit writing" where
  "write_collection_metadata io output layout =
     write_bind (attempt io ''failed to create output dir'' (CreateDirs output)) (\<lambda>_.
       write_text io (output @ [''zarr.json''])
         (JObj [(''zarr_format'', JNum 3), (''node_type'', JStr ''group''),
           (''attributes'', JObj [(''ome'', JObj [(''version'', JStr ''0.5''),
             (''plate'', JObj [(''version'', JStr ''0.5''), (''name'', JStr (cl_name layout)),
               (''rows'', JArr (map (\<lambda>r. JObj [(''name'', JStr r)]) (cl_rows layout))),
               (''columns'', JArr (map (\<lambda>c. JObj [(''name'', JStr c)]) (cl_columns layout))),
               (''wells'', JArr (map (\<lambda>w. JObj [(''path'', JStr (gl_row_name w @ ''/'' @ gl_col_name w)),
                   (''rowIndex'', JNum (gl_row_index w)), (''columnIndex'', JNum (gl_col_index w))]) (cl_groups layout))),
               (''field_count'', JNum (foldr max (map (\<lambda>w. length (gl_tiles w)) (cl_groups layout)) 0))])])])]))"

definition write_group_metadata :: "file_system \<Rightarrow> string list \<Rightarrow> group_layout \<Rightarrow> unit writing" where
  "write_group_metadata io output grp =
     (let row_dir = output @ [gl_row_name grp]; group_dir = row_dir @ [gl_col_name grp]
      in write_bind (attempt io ''failed to create row dir'' (CreateDirs row_dir)) (\<lambda>_.
         write_bind (write_text io (row_dir @ [''zarr.json'']) (JObj [(''zarr_format'', JNum 3), (''node_type'', JStr ''group'')])) (\<lambda>_.
         write_bind (attempt io ''failed to create group dir'' (CreateDirs group_dir)) (\<lambda>_.
           write_text io (group_dir @ [''zarr.json''])
             (JObj [(''zarr_format'', JNum 3), (''node_type'', JStr ''group''),
               (''attributes'', JObj [(''ome'', JObj [(''version'', JStr ''0.5''),
                 (''well'', JObj [(''images'', JArr (map (\<lambda>i. JObj [(''path'', JStr (show_nat i))]) [0..<length (gl_tiles grp)]))])])])])))))"

section \<open>Assembling one tile\<close>

record 'd file_api =
  fa_open :: "string \<Rightarrow> string option"
  fa_tiff :: "string \<Rightarrow> 'd tiff_api"

definition color_text :: "color_type \<Rightarrow> string" where
  "color_text color = (case color of Gray n \<Rightarrow> ''Gray('' @ show_nat n @ '')'' | OtherColor s \<Rightarrow> s)"

definition read_plane :: "'d file_api \<Rightarrow> nat \<Rightarrow> nat \<Rightarrow> string \<Rightarrow> string + u16 list" where
  "read_plane F image_width image_height path =
     (let ppp = image_width * image_height; A = fa_tiff F path;
          wrong = (\<lambda>n. path @ '': got '' @ show_nat n @ '' pixels, expected '' @ show_nat ppp)
      in case fa_open F path of
           Some e \<Rightarrow> Inl (''failed to open '' @ path @ '': '' @ e)
         | None \<Rightarrow>
             res_bind (context_err (''failed to decode '' @ path) (ti_open A)) (\<lambda>d.
             res_bind (context_err (''failed to read dimensions from '' @ path) (ti_dimensions A d)) (\<lambda>(w, h).
             if w \<noteq> image_width \<or> h \<noteq> image_height then
               Inl (path @ '': dimensions '' @ show_nat w @ ''x'' @ show_nat h @ '' do not match expected '' @ show_nat image_width @ ''x'' @ show_nat image_height)
             else res_bind (context_err (''failed to read color type from '' @ path) (ti_colortype A d)) (\<lambda>color.
             if color \<noteq> Gray 8 \<and> color \<noteq> Gray 16 then
               Inl (path @ '': unsupported color type '' @ color_text color @ '' (only Gray8/Gray16)'')
             else res_bind (context_err (''failed to read image data from '' @ path) (ti_read_image A d)) (\<lambda>image_data.
               case image_data of
                 PixelsU16 pixels \<Rightarrow> if length pixels \<noteq> ppp then Inl (wrong (length pixels)) else Inr pixels
               | PixelsU8 pixels \<Rightarrow>
                   if length pixels \<noteq> ppp then Inl (wrong (length pixels)) else Inr (map (\<lambda>s. of_nat (unat s) * 257) pixels)
               | OtherPixels \<Rightarrow> Inl (path @ '': unexpected pixel format''))))))"

text \<open>
  Planes are copied through a raw pointer; a copy out of range is \<open>None\<close>. Sizes and offsets are
  \<^verbatim>\<open>usize\<close> and wrap. A plane that was read is copied even when another file fails.
\<close>

definition copy_at :: "nat \<Rightarrow> u16 list \<Rightarrow> u16 list \<Rightarrow> u16 list option" where
  "copy_at offset pixels data =
     (if offset + length pixels \<le> length data then Some (take offset data @ pixels @ drop (offset + length pixels) data) else None)"

definition read_tile_tiffs :: "'d file_api \<Rightarrow> tile_layout \<Rightarrow> nat \<Rightarrow> nat \<Rightarrow> nat \<Rightarrow> nat \<Rightarrow> nat \<Rightarrow> voxel_size \<Rightarrow> (string + volume) option" where
  "read_tile_tiffs F tile channels timepoints z_planes image_width image_height vs =
     (let ppp = image_width * image_height;
          total = timepoints * channels * z_planes * ppp mod 2 ^ 64;
          results = map (\<lambda>(s, path). res_map (Pair s) (read_plane F image_width image_height path)) (tl_files tile)
      in Option.bind (zeroed_vec 2 total) (\<lambda>data.
         Option.bind (for_each (\<lambda>((t, c, z), pixels).
             copy_at ((t * channels * z_planes * ppp + c * z_planes * ppp + z * ppp) mod 2 ^ 64) pixels)
           (List.map_filter (\<lambda>r. case r of Inr plane \<Rightarrow> Some plane | Inl _ \<Rightarrow> None) results) data) (\<lambda>data.
         case first_error results of
           Inl e \<Rightarrow> Some (Inl e)
         | Inr _ \<Rightarrow> Some (Inr (tiff_volume image_width image_height timepoints channels z_planes vs data)))))"

section \<open>The conversion\<close>

definition convert_tile :: "'d file_api \<Rightarrow> (bytes \<Rightarrow> bytes) \<Rightarrow> file_system \<Rightarrow> string list \<Rightarrow> nat \<times> nat \<times> nat \<Rightarrow> collection_layout \<Rightarrow>
    group_layout \<Rightarrow> nat \<times> tile_layout \<Rightarrow> unit writing" where
  "convert_tile F lz4 io output chunk_size layout grp = (\<lambda>(tile_idx, tile).
     write_bind ([], read_tile_tiffs F tile (cl_channels layout) (cl_timepoints layout) (cl_z_planes layout)
         (cl_image_width layout) (cl_image_height layout) (cl_voxel_size layout)) (\<lambda>v.
       write_volume_pyramid lz4 io (output @ [gl_row_name grp, gl_col_name grp, show_nat tile_idx]) v chunk_size))"

definition convert_group :: "'d file_api \<Rightarrow> (bytes \<Rightarrow> bytes) \<Rightarrow> file_system \<Rightarrow> string list \<Rightarrow> nat \<times> nat \<times> nat \<Rightarrow> collection_layout \<Rightarrow>
    group_layout \<Rightarrow> unit writing" where
  "convert_group F lz4 io output chunk_size layout grp =
     write_bind (write_group_metadata io output grp) (\<lambda>_.
       write_each (convert_tile F lz4 io output chunk_size layout grp) (enumerate 0 (gl_tiles grp)))"

definition convert_collection_to_zarr :: "(string \<Rightarrow> string list option) \<Rightarrow> (string \<Rightarrow> tiff_tags) \<Rightarrow> 'd file_api \<Rightarrow> string \<Rightarrow> string option \<Rightarrow> dir_tree \<Rightarrow>
    (bytes \<Rightarrow> bytes) \<Rightarrow> file_system \<Rightarrow> string list \<Rightarrow> nat \<times> nat \<times> nat \<Rightarrow> voxel_size option \<Rightarrow> unit writing" where
  "convert_collection_to_zarr re tags F display name tree lz4 io output chunk_size overrides =
     write_bind ([], scan_collection_directory re tags display name tree overrides) (\<lambda>layout.
     write_bind (write_collection_metadata io output layout) (\<lambda>_.
       write_each (convert_group F lz4 io output chunk_size layout) (cl_groups layout)))"

section \<open>Ranks and slots\<close>

lemma sorted_keys [simp]: "set (sorted_keys xs) = set xs" "distinct (sorted_keys xs)" "length (sorted_keys xs) \<le> length xs"
  by (simp_all add: sorted_keys_def length_remdups_leq)

lemma rank_in_mem: "k \<in> set keys \<Longrightarrow> \<exists>i < length keys. rank_in keys k = Some i \<and> keys ! i = k"
proof (induction keys)
  case (Cons x keys)
  then show ?case by (cases "x = k") (auto simp: rank_in_def)
qed simp

lemma rank_in_nth: "rank_in keys k = Some i \<Longrightarrow> i < length keys \<and> keys ! i = k"
proof (induction keys arbitrary: i)
  case (Cons x keys)
  then show ?case by (cases "x = k") (auto simp: rank_in_def)
qed (simp add: rank_in_def)

definition same_slot :: "parsed_filename \<Rightarrow> parsed_filename \<Rightarrow> bool" where
  "same_slot p q \<longleftrightarrow> pf_timepoint p = pf_timepoint q \<and> pf_channel p = pf_channel q \<and> pf_plane p = pf_plane q"

lemma slot_of_mem:
  assumes "pf \<in> set files"
  obtains t c z where "slot_of files pf = Some (t, c, z)" "t < length (sorted_keys (map pf_timepoint files))"
    "c < length (sorted_keys (map pf_channel files))" "z < length (sorted_keys (map pf_plane files))"
proof -
  from assms have "pf_timepoint pf \<in> set (sorted_keys (map pf_timepoint files))" "pf_channel pf \<in> set (sorted_keys (map pf_channel files))"
    "pf_plane pf \<in> set (sorted_keys (map pf_plane files))" by auto
  from this [THEN rank_in_mem] show thesis using that by (auto simp: slot_of_def)
qed

lemma slot_of_inj: "slot_of files p = Some s \<Longrightarrow> slot_of files q = Some s \<Longrightarrow> same_slot p q"
  by (auto simp: slot_of_def same_slot_def bind_eq_Some_conv dest!: rank_in_nth)

definition well_slotted :: "nat \<Rightarrow> nat \<Rightarrow> nat \<Rightarrow> tile_layout \<Rightarrow> bool" where
  "well_slotted T C Z tile \<longleftrightarrow>
     distinct (map fst (tl_files tile)) \<and> (\<forall>((t, c, z), path) \<in> set (tl_files tile). t < T \<and> c < C \<and> z < Z)"

lemma fold_update_distinct: "distinct (map fst fs) \<Longrightarrow> distinct (map fst (fold (\<lambda>p. AList.update (f p) (g p)) ms fs))"
  by (induction ms arbitrary: fs) (simp_all add: distinct_update)

lemma fold_update_keys: "fst ` set (fold (\<lambda>p. AList.update (f p) (g p)) ms fs) = f ` set ms \<union> fst ` set fs"
proof (induction ms arbitrary: fs)
  case (Cons m ms)
  then show ?case by (auto simp: dom_update)
qed simp

lemma fold_update_map_of:
  "map_of (fold (\<lambda>p. AList.update (f p) (g p)) ms fs) s = Some v \<Longrightarrow> (\<exists>p \<in> set ms. f p = s \<and> g p = v) \<or> map_of fs s = Some v"
proof (induction ms arbitrary: fs)
  case (Cons m ms)
  then have "map_of (fold (\<lambda>p. AList.update (f p) (g p)) ms (AList.update (f m) (g m) fs)) s = Some v" by simp
  from Cons.IH [OF this] show ?case by (auto simp: update_conv' split: if_splits)
qed simp

lemma build_tile_ok:
  assumes "set members \<subseteq> set files"
  obtains tile where "build_tile files members n = Some tile"
    "well_slotted (length (sorted_keys (map pf_timepoint files))) (length (sorted_keys (map pf_channel files)))
       (length (sorted_keys (map pf_plane files))) tile"
    "\<And>pf. pf \<in> set members \<Longrightarrow> pf_tile pf = n \<Longrightarrow> \<exists>s. slot_of files pf = Some s
       \<and> (\<exists>pf' \<in> set members. pf_tile pf' = n \<and> same_slot pf pf' \<and> map_of (tl_files tile) s = Some (pf_path pf'))"
proof -
  let ?ms = "filter (\<lambda>pf. pf_tile pf = n) members" and ?f = "\<lambda>pf. the (slot_of files pf)"
  let ?r = "fold (\<lambda>pf. AList.update (?f pf) (pf_path pf)) ?ms []"
  have slot: "slot_of files pf = Some (?f pf)" if "pf \<in> set ?ms" for pf
    using that assms slot_of_mem [of pf files] by force
  have "for_each (\<lambda>pf fs. map_option (\<lambda>s. AList.update s (pf_path pf) fs) (slot_of files pf)) ?ms [] = Some ?r"
  proof (intro for_each_fold [where I = "\<lambda>_. True", THEN conjunct1])
    show "map_option (\<lambda>s. AList.update s (pf_path pf) fs) (slot_of files pf) = Some (AList.update (?f pf) (pf_path pf) fs)"
      if "pf \<in> set ?ms" for pf fs by (subst slot [OF that]) simp
  qed simp_all
  then have tile: "build_tile files members n = Some \<lparr>tl_index = (n + 2 ^ 32 - 1) mod 2 ^ 32, tl_files = ?r\<rparr>" by (simp add: build_tile_def)
  note U = fold_update_distinct [of "[]" ?f pf_path ?ms] fold_update_keys [of ?f pf_path ?ms "[]"] fold_update_map_of [of ?f pf_path ?ms "[]"]
  have "well_slotted (length (sorted_keys (map pf_timepoint files))) (length (sorted_keys (map pf_channel files)))
      (length (sorted_keys (map pf_plane files))) \<lparr>tl_index = (n + 2 ^ 32 - 1) mod 2 ^ 32, tl_files = ?r\<rparr>"
  proof -
    have "t < length (sorted_keys (map pf_timepoint files)) \<and> c < length (sorted_keys (map pf_channel files))
        \<and> z < length (sorted_keys (map pf_plane files))" if "((t, c, z), path) \<in> set ?r" for t c z path
    proof -
      from that U(2) have "(t, c, z) \<in> ?f ` set ?ms" by force
      then obtain pf where pf: "pf \<in> set ?ms" "?f pf = (t, c, z)" by auto
      then have "pf \<in> set files" using assms by auto
      with slot [OF pf(1)] pf(2) show ?thesis using slot_of_mem [of pf files] by (metis option.inject prod.inject)
    qed
    with U(1) show ?thesis by (auto simp: well_slotted_def)
  qed
  moreover have "\<exists>s. slot_of files pf = Some s
      \<and> (\<exists>pf' \<in> set members. pf_tile pf' = n \<and> same_slot pf pf' \<and> map_of ?r s = Some (pf_path pf'))" if "pf \<in> set members" "pf_tile pf = n" for pf
  proof -
    from that have pf: "pf \<in> set ?ms" by simp
    then have "?f pf \<in> fst ` set ?r" unfolding U(2) by (intro UnI1 imageI)
    then have "map_of ?r (?f pf) \<noteq> None" unfolding map_of_eq_None_iff by simp
    then obtain v where v: "map_of ?r (?f pf) = Some v" by blast
    from U(3) [OF this] obtain pf' where pf': "pf' \<in> set ?ms" "?f pf' = ?f pf" "pf_path pf' = v" by auto
    have "slot_of files pf' = Some (?f pf)" using slot [OF pf'(1)] unfolding pf'(2) .
    then have "same_slot pf pf'" by (rule slot_of_inj [OF slot [OF pf]])
    then show ?thesis using slot [OF pf] v pf'(1,3) by (intro exI [of _ "?f pf"] conjI bexI [of _ pf']) simp_all
  qed
  ultimately show thesis using that [OF tile] by simp
qed

section \<open>The layout\<close>

lemma row_letter_inj: "row_number_to_letter m = row_number_to_letter n \<longleftrightarrow> m = n"
proof
  assume eq: "row_number_to_letter m = row_number_to_letter n"
  have letter: "of_char (char_of (65 + (k - 1) :: nat)) = 65 + (k - 1)" if "k \<le> 26" for k using that by simp
  show "m = n"
  proof (cases "m = 0 \<or> 26 < m"; cases "n = 0 \<or> 26 < n")
    assume "\<not> (m = 0 \<or> 26 < m)" "\<not> (n = 0 \<or> 26 < n)"
    moreover from this eq have "char_of (65 + (m - 1) :: nat) = char_of (65 + (n - 1) :: nat)" by (simp add: row_number_to_letter_def)
    then have "of_char (char_of (65 + (m - 1) :: nat)) = (of_char (char_of (65 + (n - 1) :: nat)) :: nat)" by (rule arg_cong)
    ultimately show ?thesis using letter [of m] letter [of n] by simp
  qed (use eq show_nat_nonempty [THEN not_sym] in \<open>auto simp: row_number_to_letter_def show_nat_inj\<close>)
qed simp

definition slots_of_layout :: "parsed_filename list \<Rightarrow> tile_layout \<Rightarrow> bool" where
  "slots_of_layout files =
     well_slotted (length (sorted_keys (map pf_timepoint files))) (length (sorted_keys (map pf_channel files))) (length (sorted_keys (map pf_plane files)))"

definition filed_under :: "parsed_filename list \<Rightarrow> parsed_filename \<Rightarrow> group_layout \<Rightarrow> bool" where
  "filed_under files pf g \<longleftrightarrow>
     gl_row_name g = row_number_to_letter (pf_row pf) \<and> gl_col_name g = show_nat (pf_col pf)
     \<and> (\<exists>tile \<in> set (gl_tiles g). \<exists>s. slot_of files pf = Some s
          \<and> (\<exists>pf' \<in> set files. pf_row pf' = pf_row pf \<and> pf_col pf' = pf_col pf \<and> pf_tile pf' = pf_tile pf \<and> same_slot pf pf'
               \<and> map_of (tl_files tile) s = Some (pf_path pf')))"

lemma those_all:
  assumes "\<And>x. x \<in> set xs \<Longrightarrow> \<exists>y. f x = Some y \<and> P x y"
  shows "\<exists>ys. those (map f xs) = Some ys \<and> list_all2 P xs ys"
  using assms
proof (induction xs)
  case (Cons x xs)
  then show ?case by fastforce
qed simp

lemma build_group_ok:
  assumes "row \<in> pf_row ` set files" "col \<in> pf_col ` set files"
  obtains g where "build_group files (row, col) = Some g" "gl_row_name g = row_number_to_letter row" "gl_col_name g = show_nat col"
    "rank_in (sorted_keys (map pf_row files)) row = Some (gl_row_index g)" "rank_in (sorted_keys (map pf_col files)) col = Some (gl_col_index g)"
    "\<forall>tile \<in> set (gl_tiles g). slots_of_layout files tile"
    "\<And>pf. pf \<in> set files \<Longrightarrow> pf_row pf = row \<Longrightarrow> pf_col pf = col \<Longrightarrow> filed_under files pf g"
proof -
  let ?ms = "filter (\<lambda>pf. pf_row pf = row \<and> pf_col pf = col) files"
  let ?P = "\<lambda>n tile. slots_of_layout files tile \<and> (\<forall>pf \<in> set ?ms. pf_tile pf = n \<longrightarrow> (\<exists>s. slot_of files pf = Some s
     \<and> (\<exists>pf' \<in> set ?ms. pf_tile pf' = n \<and> same_slot pf pf' \<and> map_of (tl_files tile) s = Some (pf_path pf'))))"
  have "\<exists>tile. build_tile files ?ms n = Some tile \<and> ?P n tile" for n
    by (rule build_tile_ok [of ?ms files n]) (auto simp: slots_of_layout_def)
  then obtain tiles where tiles: "those (map (build_tile files ?ms) (sorted_keys (map pf_tile ?ms))) = Some tiles"
    "list_all2 ?P (sorted_keys (map pf_tile ?ms)) tiles"
    using those_all [of "sorted_keys (map pf_tile ?ms)" "build_tile files ?ms" ?P] by blast
  obtain ri ci where r: "rank_in (sorted_keys (map pf_row files)) row = Some ri" "rank_in (sorted_keys (map pf_col files)) col = Some ci"
    using rank_in_mem [of row "sorted_keys (map pf_row files)"] rank_in_mem [of col "sorted_keys (map pf_col files)"] assms by auto
  define g where "g = \<lparr>gl_row_name = row_number_to_letter row, gl_col_name = show_nat col, gl_row_index = ri, gl_col_index = ci,
      gl_tiles = sort_key tl_index tiles\<rparr>"
  have "build_group files (row, col) = Some g" using tiles(1) r by (simp add: build_group_def g_def Let_def)
  moreover have "\<forall>tile \<in> set (gl_tiles g). slots_of_layout files tile"
    using tiles(2) by (auto simp: g_def list_all2_conv_all_nth in_set_conv_nth)
  moreover have "filed_under files pf g" if pf: "pf \<in> set files" "pf_row pf = row" "pf_col pf = col" for pf
  proof -
    have ms: "pf \<in> set ?ms" using pf by simp
    then have "pf_tile pf \<in> set (sorted_keys (map pf_tile ?ms))" by simp
    then obtain i where i: "i < length tiles" "sorted_keys (map pf_tile ?ms) ! i = pf_tile pf"
      unfolding in_set_conv_nth list_all2_lengthD [OF tiles(2)] by blast
    then have "?P (pf_tile pf) (tiles ! i)" using list_all2_nthD2 [OF tiles(2) i(1)] by simp
    with ms obtain s pf' where "slot_of files pf = Some s" "pf' \<in> set ?ms" "pf_tile pf' = pf_tile pf" "same_slot pf pf'"
      "map_of (tl_files (tiles ! i)) s = Some (pf_path pf')" by blast
    moreover have "tiles ! i \<in> set (gl_tiles g)" using i(1) by (simp add: g_def)
    ultimately show ?thesis using pf(2,3) unfolding filed_under_def
      by (intro conjI bexI [of _ "tiles ! i"] exI [of _ s] bexI [of _ pf']) (simp_all add: g_def)
  qed
  moreover have "gl_row_name g = row_number_to_letter row" "gl_col_name g = show_nat col" "gl_row_index g = ri" "gl_col_index g = ci"
    by (simp_all add: g_def)
  ultimately show thesis using that [of g] r by simp
qed

definition layout_sound :: "parsed_filename list \<Rightarrow> collection_layout \<Rightarrow> bool" where
  "layout_sound files l \<longleftrightarrow>
     distinct (map (\<lambda>g. (gl_row_name g, gl_col_name g)) (cl_groups l))
     \<and> (\<forall>g \<in> set (cl_groups l).
          gl_row_index g < length (cl_rows l) \<and> cl_rows l ! gl_row_index g = gl_row_name g
          \<and> gl_col_index g < length (cl_columns l) \<and> cl_columns l ! gl_col_index g = gl_col_name g
          \<and> (\<forall>tile \<in> set (gl_tiles g). well_slotted (cl_timepoints l) (cl_channels l) (cl_z_planes l) tile))
     \<and> (\<forall>pf \<in> set files. \<exists>g \<in> set (cl_groups l). filed_under files pf g)"

lemma group_keys_iff: "(row, col) \<in> set (group_keys files) \<longleftrightarrow> (\<exists>pf \<in> set files. pf_row pf = row \<and> pf_col pf = col)"
  by (auto simp: group_keys_def)

lemma distinct_group_keys: "distinct (group_keys files)"
proof -
  have "distinct (concat (map (\<lambda>r. map (Pair r) (f r)) rs))" if "distinct rs" "\<And>r. distinct (f r)" for rs :: "nat list" and f :: "nat \<Rightarrow> nat list"
    using that by (induction rs) (auto simp: distinct_map inj_on_def)
  from this [of "sorted_keys (map pf_row files)" "\<lambda>r. sorted_keys (map pf_col (filter (\<lambda>pf. pf_row pf = r) files))"] show ?thesis
    by (simp add: group_keys_def)
qed

lemma groups_ok:
  obtains groups where "those (map (build_group files) (group_keys files)) = Some groups"
    "list_all2 (\<lambda>(row, col) g. gl_row_name g = row_number_to_letter row \<and> gl_col_name g = show_nat col
       \<and> rank_in (sorted_keys (map pf_row files)) row = Some (gl_row_index g) \<and> rank_in (sorted_keys (map pf_col files)) col = Some (gl_col_index g)
       \<and> (\<forall>tile \<in> set (gl_tiles g). slots_of_layout files tile)
       \<and> (\<forall>pf \<in> set files. pf_row pf = row \<and> pf_col pf = col \<longrightarrow> filed_under files pf g)) (group_keys files) groups"
proof -
  let ?P = "\<lambda>(row, col) g. gl_row_name g = row_number_to_letter row \<and> gl_col_name g = show_nat col
       \<and> rank_in (sorted_keys (map pf_row files)) row = Some (gl_row_index g) \<and> rank_in (sorted_keys (map pf_col files)) col = Some (gl_col_index g)
       \<and> (\<forall>tile \<in> set (gl_tiles g). slots_of_layout files tile)
       \<and> (\<forall>pf \<in> set files. pf_row pf = row \<and> pf_col pf = col \<longrightarrow> filed_under files pf g)"
  have "\<exists>g. build_group files x = Some g \<and> ?P x g" if "x \<in> set (group_keys files)" for x
  proof -
    obtain row col where x: "x = (row, col)" by (cases x)
    with that have "row \<in> pf_row ` set files" "col \<in> pf_col ` set files" by (auto simp: group_keys_iff)
    then show ?thesis unfolding x by (rule build_group_ok) auto
  qed
  then show thesis using that those_all [of "group_keys files" "build_group files" ?P] by blast
qed

lemma count_exact: "length files < 2 ^ 32 \<Longrightarrow> count_u32 (map f files) = length (sorted_keys (map f files))"
  using sorted_keys(3) [of "map f files"] by (simp add: count_u32_def)

text \<open>A scan that finds files with well-formed names always yields a layout, and the layout is
  sound: no two groups share a directory, every group points at its own row and column
  name, the slots of every tile are distinct and lie inside the announced dimensions, and
  every file found is filed under its row, column, tile and slot, where only a file with
  the same numbers can take its place.\<close>
theorem scan_layout_sound:
  assumes "scan_recursive re tree = Some (Inr files)" "files \<noteq> []" "length files < 2 ^ 32"
    "read_tiff_info (pf_path (hd files)) (tags (pf_path (hd files))) = Inr (width, height, voxel)"
  shows "\<exists>layout. scan_collection_directory re tags display name tree overrides = Some (Inr layout) \<and> layout_sound files layout"
proof -
  let ?rows = "sorted_keys (map pf_row files)" and ?cols = "sorted_keys (map pf_col files)"
  obtain groups where g: "those (map (build_group files) (group_keys files)) = Some groups"
    "list_all2 (\<lambda>(row, col) g. gl_row_name g = row_number_to_letter row \<and> gl_col_name g = show_nat col
       \<and> rank_in ?rows row = Some (gl_row_index g) \<and> rank_in ?cols col = Some (gl_col_index g)
       \<and> (\<forall>tile \<in> set (gl_tiles g). slots_of_layout files tile)
       \<and> (\<forall>pf \<in> set files. pf_row pf = row \<and> pf_col pf = col \<longrightarrow> filed_under files pf g)) (group_keys files) groups"
    by (rule groups_ok)
  from assms(1,2,4) g(1) obtain layout where l: "scan_collection_directory re tags display name tree overrides = Some (Inr layout)"
    "cl_groups layout = groups" "cl_rows layout = map row_number_to_letter ?rows" "cl_columns layout = map show_nat ?cols"
    "cl_channels layout = count_u32 (map pf_channel files)" "cl_timepoints layout = count_u32 (map pf_timepoint files)"
    "cl_z_planes layout = count_u32 (map pf_plane files)"
    by (auto simp: scan_collection_directory_def res_map_def)
  have names: "map (\<lambda>g. (gl_row_name g, gl_col_name g)) groups = map (\<lambda>(row, col). (row_number_to_letter row, show_nat col)) (group_keys files)"
    using g(2) by (intro nth_equalityI) (auto simp: list_all2_conv_all_nth split: prod.splits)
  have "inj (\<lambda>(row, col). (row_number_to_letter row, show_nat col))" by (auto simp: inj_def row_letter_inj show_nat_inj)
  then have "distinct (map (\<lambda>g. (gl_row_name g, gl_col_name g)) groups)"
    unfolding names distinct_map using distinct_group_keys inj_on_subset subset_UNIV by blast
  moreover have "gl_row_index g < length (cl_rows layout) \<and> cl_rows layout ! gl_row_index g = gl_row_name g
      \<and> gl_col_index g < length (cl_columns layout) \<and> cl_columns layout ! gl_col_index g = gl_col_name g
      \<and> (\<forall>tile \<in> set (gl_tiles g). well_slotted (cl_timepoints layout) (cl_channels layout) (cl_z_planes layout) tile)"
    if "g \<in> set groups" for g
  proof -
    from that obtain i where i: "i < length groups" "g = groups ! i" by (auto simp: in_set_conv_nth)
    obtain row col where k: "group_keys files ! i = (row, col)" by (cases "group_keys files ! i")
    from list_all2_nthD2 [OF g(2) i(1)] have f: "gl_row_name g = row_number_to_letter row" "gl_col_name g = show_nat col"
      "rank_in ?rows row = Some (gl_row_index g)" "rank_in ?cols col = Some (gl_col_index g)" "\<forall>tile \<in> set (gl_tiles g). slots_of_layout files tile"
      by (simp_all add: k i(2))
    show ?thesis using rank_in_nth [OF f(3)] rank_in_nth [OF f(4)] f(1,2,5)
      by (simp add: l(3-7) slots_of_layout_def count_exact [OF assms(3)])
  qed
  moreover have "\<exists>g \<in> set groups. filed_under files pf g" if "pf \<in> set files" for pf
  proof -
    have "(pf_row pf, pf_col pf) \<in> set (group_keys files)" using that by (auto simp: group_keys_iff)
    then obtain i where i: "i < length groups" "group_keys files ! i = (pf_row pf, pf_col pf)"
      unfolding in_set_conv_nth list_all2_lengthD [OF g(2)] by blast
    with list_all2_nthD2 [OF g(2) i(1)] that have "filed_under files pf (groups ! i)" by simp
    with i(1) show ?thesis by auto
  qed
  ultimately have "layout_sound files layout" unfolding layout_sound_def l(2) by blast
  with l(1) show ?thesis by blast
qed

definition demo_file :: parsed_filename where
  "demo_file = \<lparr>pf_row = 2, pf_col = 3, pf_tile = 1, pf_plane = 1, pf_channel = 1, pf_timepoint = 5, pf_path = ''d/a''\<rparr>"

theorem scan_layout_sound_witness:
  "\<exists>layout. scan_collection_directory (\<lambda>_. Some (map show_nat [2, 3, 1, 1, 1, 5]))
      (\<lambda>_. \<lparr>tt_opened = Inr (), tt_decoded = Inr (), tt_dimensions = Inr (4, 4), tt_resolution_unit = None, tt_x_resolution = None, tt_y_resolution = None\<rparr>)
      ''d'' None (Directory ''d'' None [PlainFile ''a'' ''d/a'']) None = Some (Inr layout) \<and> layout_sound [demo_file] layout"
proof (rule scan_layout_sound)
  show "scan_recursive (\<lambda>_. Some (map show_nat [2, 3, 1, 1, 1, 5])) (Directory ''d'' None [PlainFile ''a'' ''d/a'']) = Some (Inr [demo_file])"
    by (simp add: parse_captures_def demo_file_def res_map_def)
qed (simp_all add: read_tiff_info_def context_err_def res_map_err_def or_default_def)

section \<open>One tile\<close>

lemma slot_rank: "t * C * Z + c * Z + z = (t * C + c) * Z + (z :: nat)"
  by (simp add: algebra_simps)

lemma slot_rank_less: "t < T \<Longrightarrow> c < C \<Longrightarrow> z < Z \<Longrightarrow> (t * C + c) * Z + z < T * C * (Z :: nat)"
  by (intro mixed_radix_less)

definition rank_of :: "nat \<Rightarrow> nat \<Rightarrow> slot \<Rightarrow> nat" where
  "rank_of C Z = (\<lambda>(t, c, z). (t * C + c) * Z + z)"

lemma rank_of_inj:
  assumes "c < C" "z < Z" "c' < C" "z' < Z" "rank_of C Z (t, c, z) = rank_of C Z (t', c', z')"
  shows "(t, c, z) = (t', c', z')"
proof -
  from assms(5) have "(t * C + c) * Z + z = (t' * C + c') * Z + z'" by (simp add: rank_of_def)
  from mixed_radix_inj [OF assms(2,4) this] have eq: "t * C + c = t' * C + c'" "z = z'" by blast+
  from mixed_radix_inj [OF assms(1,3) eq(1)] eq(2) show ?thesis by blast
qed

lemma rank_of_inj_on:
  assumes "\<And>t c z. (t, c, z) \<in> S \<Longrightarrow> c < C \<and> z < Z"
  shows "inj_on (rank_of C Z) S"
proof (rule inj_onI)
  fix x y assume xy: "x \<in> S" "y \<in> S" "rank_of C Z x = rank_of C Z y"
  obtain t c z where x: "x = (t, c, z)" by (cases x)
  obtain t' c' z' where y: "y = (t', c', z')" by (cases y)
  show "x = y" unfolding x y using assms xy unfolding x y by (intro rank_of_inj) auto
qed

lemma read_plane_length: "read_plane F w h path = Inr px \<Longrightarrow> length px = w * h"
  by (auto simp: read_plane_def Let_def res_bind_def split: option.split_asm sum.split_asm if_split_asm prod.split_asm decoding_result.split_asm)

lemma scatter_map_of:
  assumes "distinct (map fst fs)" "inj_on q (insert s (fst ` set fs))" "q s < length out"
  shows "fold (\<lambda>x out. out[q (fst x) := v x]) fs out ! q s = (case map_of fs s of Some p \<Rightarrow> v (s, p) | None \<Rightarrow> out ! q s)"
proof (cases "map_of fs s")
  case None
  then have "s \<notin> fst ` set fs" by (simp add: map_of_eq_None_iff)
  then have "q s \<notin> (\<lambda>x. q (fst x)) ` set fs" using assms(2) by (auto simp: inj_on_def)
  then show ?thesis using None by (simp add: scatter_other)
next
  case (Some p)
  have inj: "inj_on (\<lambda>x. q (fst x)) (set fs)"
  proof (rule inj_onI)
    fix x y assume "x \<in> set fs" "y \<in> set fs" "q (fst x) = q (fst y)"
    moreover from this have "fst x = fst y" using assms(2) by (auto simp: inj_on_def)
    ultimately show "x = y" using assms(1) by (metis eq_key_imp_eq_value prod.collapse)
  qed
  have "(s, p) \<in> set fs" "distinct fs" using Some assms(1) by (auto dest: map_of_SomeD simp: distinct_map)
  with scatter_at [OF _ inj, of "(s, p)" out v] assms(3) Some show ?thesis by simp
qed

definition plane_pixels :: "'d file_api \<Rightarrow> nat \<Rightarrow> nat \<Rightarrow> string \<Rightarrow> u16 list" where
  "plane_pixels F w h path = (case read_plane F w h path of Inr px \<Rightarrow> px | Inl _ \<Rightarrow> [])"

definition tile_blocks :: "'d file_api \<Rightarrow> tile_layout \<Rightarrow> nat \<Rightarrow> nat \<Rightarrow> nat \<Rightarrow> nat \<Rightarrow> nat \<Rightarrow> u16 list list" where
  "tile_blocks F tile T C Z w h =
     fold (\<lambda>x out. out[rank_of C Z (fst x) := plane_pixels F w h (snd x)]) (tl_files tile) (replicate (T * C * Z) (replicate (w * h) 0))"

lemma copy_at_page: "copy_at (i * length px) px = copy_page (length px) i px"
  by (simp add: fun_eq_iff copy_at_def copy_page_def Let_def)

lemma filter_planes:
  assumes "\<forall>x \<in> set xs. f x = Inr (g x)"
  shows "List.map_filter (\<lambda>r. case r of Inr p \<Rightarrow> Some p | Inl _ \<Rightarrow> None) (map f xs) = map g xs"
  using assms by (induction xs) auto

lemma read_tile_blocks:
  assumes "well_slotted T C Z tile" "\<forall>(s, path) \<in> set (tl_files tile). \<exists>px. read_plane F w h path = Inr px"
    "T * C * Z * (w * h) < 2 ^ 62"
  shows "read_tile_tiffs F tile C T Z w h vs = Some (Inr (tiff_volume w h T C Z vs (concat (tile_blocks F tile T C Z w h))))"
proof -
  let ?n = "w * h" and ?N = "T * C * Z" and ?fs = "tl_files tile" and ?px = "\<lambda>x :: slot \<times> string. plane_pixels F w h (snd x)"
  let ?bs = "replicate ?N (replicate ?n (0 :: u16))"
  let ?read = "\<lambda>(s, path). res_map (Pair s) (read_plane F w h path)"
  let ?copy = "\<lambda>((t, c, z), pixels). copy_at ((t * C * Z * ?n + c * Z * ?n + z * ?n) mod 2 ^ 64) pixels"
  have read: "?read x = Inr (fst x, ?px x)" if "x \<in> set ?fs" for x
    using assms(2) that by (fastforce simp: res_map_def plane_pixels_def)
  have errors: "first_error (map ?read ?fs) = Inr (map (\<lambda>x. (fst x, ?px x)) ?fs)"
    using read by (intro first_error_ok) auto
  have planes: "List.map_filter (\<lambda>r. case r of Inr p \<Rightarrow> Some p | Inl _ \<Rightarrow> None) (map ?read ?fs) = map (\<lambda>x. (fst x, ?px x)) ?fs"
    using read by (intro filter_planes) auto
  have slot: "rank_of C Z (fst x) < ?N" "length (?px x) = ?n" "(\<lambda>(t, c, z). t * C * Z * ?n + c * Z * ?n + z * ?n) (fst x) = rank_of C Z (fst x) * ?n"
    if "x \<in> set ?fs" for x
  proof -
    show "rank_of C Z (fst x) < ?N" using assms(1) that slot_rank_less by (fastforce simp: well_slotted_def rank_of_def)
    show "length (?px x) = ?n" using assms(2) that read_plane_length by (fastforce simp: plane_pixels_def)
    show "(\<lambda>(t, c, z). t * C * Z * ?n + c * Z * ?n + z * ?n) (fst x) = rank_of C Z (fst x) * ?n"
      by (simp add: rank_of_def algebra_simps split: prod.splits)
  qed
  have "?copy (fst x, ?px x) = copy_page ?n (rank_of C Z (fst x)) (?px x)" if x: "x \<in> set ?fs" for x
  proof -
    have "rank_of C Z (fst x) * ?n \<le> ?N * ?n" using slot(1) [OF x] by (intro mult_le_mono1) simp
    from le_less_trans [OF this assms(3)] have "rank_of C Z (fst x) * ?n mod 2 ^ 64 = rank_of C Z (fst x) * ?n" by simp
    then show ?thesis using slot(2,3) [OF x] copy_at_page [of "rank_of C Z (fst x)" "?px x"] by (simp split: prod.splits)
  qed
  then have "for_each ?copy (map (\<lambda>x. (fst x, ?px x)) ?fs) (replicate (?N * ?n) 0)
      = for_each (\<lambda>x. copy_page ?n (rank_of C Z (fst x)) (?px x)) ?fs (concat ?bs)"
    unfolding for_each_map replicate_blocks by (intro for_each_cong) auto
  also have "\<dots> = Some (concat (tile_blocks F tile T C Z w h))"
    unfolding tile_blocks_def using slot by (intro copy_loop) auto
  finally have loop: "for_each ?copy (map (\<lambda>x. (fst x, ?px x)) ?fs) (replicate (?N * ?n) 0) = Some (concat (tile_blocks F tile T C Z w h))" .
  have "?N * ?n mod 2 ^ 64 = ?N * ?n" using assms(3) by simp
  moreover have "zeroed_vec 2 (?N * ?n) = Some (replicate (?N * ?n) (0 :: u16))"
    using mult_strict_right_mono [OF assms(3), of 2] by (simp add: zeroed_vec_def)
  ultimately show ?thesis unfolding read_tile_tiffs_def Let_def planes errors using loop by (simp only: bind.simps sum.case)
qed

text \<open>C34: A tile is assembled exactly: when every file of a well-slotted tile can be read and the tile has
  fewer than \<open>2 ^ 62\<close> pixels, so that its size in bytes can be addressed, every plane
  lands inside the volume at its own slot, whatever the order of the files, and the slots
  no file fills are zero.\<close>
theorem tile_volume_exact:
  assumes "well_slotted T C Z tile" "\<forall>(s, path) \<in> set (tl_files tile). \<exists>px. read_plane F w h path = Inr px"
    "T * C * Z * (w * h) < 2 ^ 62"
  shows "\<exists>v. read_tile_tiffs F tile C T Z w h vs = Some (Inr v)
    \<and> (\<forall>t < T. \<forall>c < C. \<forall>z < Z. \<forall>i < w * h.
         vol_data v ! (((t * C + c) * Z + z) * (w * h) + i) =
           (case map_of (tl_files tile) (t, c, z) of Some path \<Rightarrow> plane_pixels F w h path ! i | None \<Rightarrow> 0))"
proof -
  let ?n = "w * h" and ?bs = "tile_blocks F tile T C Z w h"
  have len: "\<forall>b \<in> set ?bs. length b = ?n"
    unfolding tile_blocks_def using assms(2) read_plane_length by (intro scatter_lengths) (fastforce simp: plane_pixels_def)+
  have "concat ?bs ! (((t * C + c) * Z + z) * ?n + i) =
      (case map_of (tl_files tile) (t, c, z) of Some path \<Rightarrow> plane_pixels F w h path ! i | None \<Rightarrow> 0)"
    if r: "t < T" "c < C" "z < Z" "i < ?n" for t c z i
  proof -
    have s: "(t * C + c) * Z + z < T * C * Z" using slot_rank_less r by blast
    have "inj_on (rank_of C Z) (insert (t, c, z) (fst ` set (tl_files tile)))"
      using assms(1) r by (intro rank_of_inj_on) (auto simp: well_slotted_def)
    then have "?bs ! rank_of C Z (t, c, z) =
        (case map_of (tl_files tile) (t, c, z) of Some path \<Rightarrow> plane_pixels F w h path | None \<Rightarrow> replicate ?n 0)"
      unfolding tile_blocks_def using assms(1) s
      by (subst scatter_map_of) (auto simp: well_slotted_def rank_of_def split: option.splits)
    moreover have "concat ?bs ! (((t * C + c) * Z + z) * ?n + i) = ?bs ! rank_of C Z (t, c, z) ! i"
      using nth_blocks [OF len _ r(4)] s by (simp add: tile_blocks_def rank_of_def)
    ultimately show ?thesis using r(4) by (simp split: option.splits)
  qed
  with read_tile_blocks [OF assms] show ?thesis by (simp add: tiff_volume_def)
qed

definition demo_files :: "nat file_api" where
  "demo_files = \<lparr>fa_open = (\<lambda>_. None), fa_tiff = (\<lambda>_. demo_tiff\<lparr>ti_read_image := (\<lambda>_. Inr (PixelsU8 [2]))\<rparr>)\<rparr>"

theorem tile_volume_exact_witness:
  "\<exists>v. read_tile_tiffs demo_files \<lparr>tl_index = 0, tl_files = [((0, 1, 0), ''p'')]\<rparr> 2 1 1 1 1 voxel_size_default = Some (Inr v)
     \<and> vol_data v ! 0 = 0 \<and> vol_data v ! 1 = 514"
proof -
  have px: "read_plane demo_files 1 1 ''p'' = Inr [514]"
    by (simp add: read_plane_def demo_files_def demo_tiff_def Let_def context_err_def res_map_err_def)
  then have "\<exists>v. read_tile_tiffs demo_files \<lparr>tl_index = 0, tl_files = [((0, 1, 0), ''p'')]\<rparr> 2 1 1 1 1 voxel_size_default = Some (Inr v)
    \<and> (\<forall>t < 1. \<forall>c < 2. \<forall>z < 1. \<forall>i < 1 * 1.
         vol_data v ! (((t * 2 + c) * 1 + z) * (1 * 1) + i) =
           (case map_of [((0, 1, 0), ''p'')] (t, c, z) of Some path \<Rightarrow> plane_pixels demo_files 1 1 path ! i | None \<Rightarrow> 0))"
    using tile_volume_exact [of 1 2 1 "\<lparr>tl_index = 0, tl_files = [((0, 1, 0), ''p'')]\<rparr>" demo_files 1 1 voxel_size_default]
    by (simp add: well_slotted_def)
  then obtain v where v: "read_tile_tiffs demo_files \<lparr>tl_index = 0, tl_files = [((0, 1, 0), ''p'')]\<rparr> 2 1 1 1 1 voxel_size_default = Some (Inr v)"
    "\<forall>t < 1. \<forall>c < 2. \<forall>z < 1. \<forall>i < 1 * 1. vol_data v ! (((t * 2 + c) * 1 + z) * (1 * 1) + i) =
       (case map_of [((0, 1, 0), ''p'')] (t, c, z) of Some path \<Rightarrow> plane_pixels demo_files 1 1 path ! i | None \<Rightarrow> 0)" by blast
  from v(2) [rule_format, of 0 0 0 0] v(2) [rule_format, of 0 1 0 0] px v(1) show ?thesis
    by (auto simp: plane_pixels_def)
qed

end
