(* ===== verification/Dedup.thy ===== *)
theory Dedup
  imports Prelude
begin

text \<open>
  Deduplication by hash buckets, as \<^verbatim>\<open>SharedMultiscales::build\<close> does it: a value is looked up
  among the values of its bucket by an equality that need not be reflexive (floats), and
  counted or appended. The contract between the equality and the hash is a locale; under it
  the bucketed scan is the linear one, whatever the hash function is.
\<close>

record ('a, 'h) dedup_state =
  dd_distinct :: "('a \<times> nat) list"
  dd_by_hash :: "'h \<rightharpoonup> nat list"
  dd_membership :: "nat list"

definition count_up :: "nat \<Rightarrow> ('a \<times> nat) list \<Rightarrow> ('a \<times> nat) list" where
  "count_up i ds = ds[i := (fst (ds ! i), snd (ds ! i) + 1)]"

definition dedup_step :: "('a \<Rightarrow> 'a \<Rightarrow> bool) \<Rightarrow> ('a \<Rightarrow> 'h) \<Rightarrow> 'a \<Rightarrow> ('a, 'h) dedup_state \<Rightarrow> ('a, 'h) dedup_state" where
  "dedup_step same hash x st =
     (let bucket = (case dd_by_hash st (hash x) of None \<Rightarrow> [] | Some b \<Rightarrow> b);
          n = length (dd_distinct st)
      in case find (\<lambda>i. same (fst (dd_distinct st ! i)) x) bucket of
           Some i \<Rightarrow>
             st\<lparr>dd_distinct := count_up i (dd_distinct st),
                dd_by_hash := (dd_by_hash st)(hash x \<mapsto> bucket),
                dd_membership := dd_membership st @ [i]\<rparr>
         | None \<Rightarrow>
             st\<lparr>dd_distinct := dd_distinct st @ [(x, 1)],
                dd_by_hash := (dd_by_hash st)(hash x \<mapsto> bucket @ [n]),
                dd_membership := dd_membership st @ [n]\<rparr>)"

definition dedup_scan :: "('a \<Rightarrow> 'a \<Rightarrow> bool) \<Rightarrow> ('a \<Rightarrow> 'h) \<Rightarrow> 'a list \<Rightarrow> ('a, 'h) dedup_state" where
  "dedup_scan same hash xs =
     fold (dedup_step same hash) xs \<lparr>dd_distinct = [], dd_by_hash = Map.empty, dd_membership = []\<rparr>"

section \<open>The linear scan\<close>

definition linear_step :: "('a \<Rightarrow> 'a \<Rightarrow> bool) \<Rightarrow> 'a \<Rightarrow> ('a \<times> nat) list \<times> nat list \<Rightarrow> ('a \<times> nat) list \<times> nat list" where
  "linear_step same x = (\<lambda>(ds, ms).
     case find (\<lambda>i. same (fst (ds ! i)) x) [0..<length ds] of
       Some i \<Rightarrow> (count_up i ds, ms @ [i])
     | None \<Rightarrow> (ds @ [(x, 1)], ms @ [length ds]))"

definition linear_scan :: "('a \<Rightarrow> 'a \<Rightarrow> bool) \<Rightarrow> 'a list \<Rightarrow> ('a \<times> nat) list \<times> nat list" where
  "linear_scan same xs = fold (linear_step same) xs ([], [])"

lemma linear_scan_snoc: "linear_scan same (xs @ [x]) = linear_step same x (linear_scan same xs)"
  by (simp add: linear_scan_def)

lemma length_count_up [simp]: "length (count_up i ds) = length ds"
  by (simp add: count_up_def)

lemma fst_count_up [simp]: "j < length ds \<Longrightarrow> fst (count_up i ds ! j) = fst (ds ! j)"
  by (cases "j = i") (simp_all add: count_up_def)

lemma snd_count_up: "j < length ds \<Longrightarrow> snd (count_up i ds ! j) = snd (ds ! j) + (if j = i then 1 else 0)"
  by (cases "j = i") (simp_all add: count_up_def)

lemma find_upt_Some:
  "find P [0..<n] = Some i \<longleftrightarrow> i < n \<and> P i \<and> (\<forall>j < i. \<not> P j)"
  by (auto simp: find_Some_iff)

lemma find_upt_None: "find P [0..<n] = None \<longleftrightarrow> (\<forall>j < n. \<not> P j)"
  by (auto simp: find_None_iff)

lemma find_filter_weaker: "(\<And>x. P x \<Longrightarrow> Q x) \<Longrightarrow> find P (filter Q xs) = find P xs"
  by (induction xs) auto

text \<open>
  What the scan leaves: every value belongs to an entry it is the same as, the entries are
  pairwise different, each carries its share count and is literally one of its members.
\<close>

definition scan_inv :: "('a \<Rightarrow> 'a \<Rightarrow> bool) \<Rightarrow> 'a list \<Rightarrow> ('a \<times> nat) list \<Rightarrow> nat list \<Rightarrow> bool" where
  "scan_inv same xs ds ms \<longleftrightarrow>
     length ms = length xs
     \<and> (\<forall>k < length xs. ms ! k < length ds \<and> (fst (ds ! (ms ! k)) = xs ! k \<or> same (fst (ds ! (ms ! k))) (xs ! k)))
     \<and> (\<forall>j < length ds. \<forall>i < j. \<not> same (fst (ds ! i)) (fst (ds ! j)))
     \<and> (\<forall>j < length ds. snd (ds ! j) = count_list ms j)
     \<and> (\<forall>j < length ds. \<exists>k < length xs. ms ! k = j \<and> xs ! k = fst (ds ! j))"

lemma scan_inv_found:
  assumes "scan_inv same xs ds ms" "i < length ds" "same (fst (ds ! i)) x"
  shows "scan_inv same (xs @ [x]) (count_up i ds) (ms @ [i])"
proof -
  note A = assms(1) [unfolded scan_inv_def]
  have "snd (count_up i ds ! j) = count_list (ms @ [i]) j" if "j < length ds" for j
    using A that by (simp add: snd_count_up)
  moreover have "(ms @ [i]) ! k < length ds \<and> (fst (ds ! ((ms @ [i]) ! k)) = (xs @ [x]) ! k
      \<or> same (fst (ds ! ((ms @ [i]) ! k))) ((xs @ [x]) ! k))" if "k < Suc (length xs)" for k
    using A that assms(2,3) by (auto simp: nth_append less_Suc_eq)
  moreover have "\<exists>k < Suc (length xs). (ms @ [i]) ! k = j \<and> (xs @ [x]) ! k = fst (ds ! j)" if "j < length ds" for j
  proof -
    have "\<exists>k < length xs. ms ! k = j \<and> xs ! k = fst (ds ! j)" using A that by blast
    then obtain k where "k < length xs" "ms ! k = j" "xs ! k = fst (ds ! j)" by blast
    then show ?thesis using A by (intro exI [of _ k]) (simp add: nth_append)
  qed
  ultimately show ?thesis using A by (simp add: scan_inv_def)
qed

lemma scan_inv_new:
  assumes "scan_inv same xs ds ms" "\<And>j. j < length ds \<Longrightarrow> \<not> same (fst (ds ! j)) x"
  shows "scan_inv same (xs @ [x]) (ds @ [(x, 1)]) (ms @ [length ds])"
proof -
  note A = assms(1) [unfolded scan_inv_def]
  have "length ds \<notin> set ms" using A by (auto simp: in_set_conv_nth)
  then have zero: "count_list ms (length ds) = 0" by (simp add: count_list_0_iff)
  have "snd ((ds @ [(x, 1)]) ! j) = count_list (ms @ [length ds]) j" if "j < Suc (length ds)" for j
    using A that zero by (auto simp: nth_append less_Suc_eq)
  moreover have "(ms @ [length ds]) ! k < Suc (length ds) \<and> (fst ((ds @ [(x, 1)]) ! ((ms @ [length ds]) ! k)) = (xs @ [x]) ! k
      \<or> same (fst ((ds @ [(x, 1)]) ! ((ms @ [length ds]) ! k))) ((xs @ [x]) ! k))" if "k < Suc (length xs)" for k
    using A that by (auto simp: nth_append less_Suc_eq)
  moreover have "\<exists>k < Suc (length xs). (ms @ [length ds]) ! k = j \<and> (xs @ [x]) ! k = fst ((ds @ [(x, 1)]) ! j)"
    if "j < Suc (length ds)" for j
  proof (cases "j = length ds")
    case True
    then show ?thesis using A by (intro exI [of _ "length xs"]) (simp add: nth_append)
  next
    case False
    with that have "\<exists>k < length xs. ms ! k = j \<and> xs ! k = fst (ds ! j)" using A by simp
    then obtain k where "k < length xs" "ms ! k = j" "xs ! k = fst (ds ! j)" by blast
    then show ?thesis using A False that by (intro exI [of _ k]) (simp add: nth_append)
  qed
  moreover have "\<not> same (fst ((ds @ [(x, 1)]) ! i)) (fst ((ds @ [(x, 1)]) ! j))" if "j < Suc (length ds)" "i < j" for i j
    using A that assms(2) by (auto simp: nth_append less_Suc_eq)
  ultimately show ?thesis using A by (simp add: scan_inv_def)
qed

lemma linear_scan_inv: "linear_scan same xs = (ds, ms) \<Longrightarrow> scan_inv same xs ds ms"
proof (induction xs arbitrary: ds ms rule: rev_induct)
  case Nil
  then show ?case by (simp add: linear_scan_def scan_inv_def)
next
  case (snoc x xs)
  obtain ds0 ms0 where p: "linear_scan same xs = (ds0, ms0)" by (cases "linear_scan same xs")
  note step = snoc.prems [unfolded linear_scan_snoc p linear_step_def]
  show ?case
  proof (cases "find (\<lambda>i. same (fst (ds0 ! i)) x) [0..<length ds0]")
    case (Some i)
    with step scan_inv_found [OF snoc.IH [OF p]] show ?thesis by (auto simp: find_upt_Some)
  next
    case None
    with step scan_inv_new [OF snoc.IH [OF p]] show ?thesis by (auto simp: find_upt_None)
  qed
qed

text \<open>An entry that is not shared is literally its only member.\<close>

lemma scan_inv_single:
  assumes "scan_inv same xs ds ms" "k < length xs" "\<not> 2 \<le> snd (ds ! (ms ! k))"
  shows "fst (ds ! (ms ! k)) = xs ! k"
proof -
  note A = assms(1) [unfolded scan_inv_def]
  let ?j = "ms ! k"
  have j: "?j < length ds" using A assms(2) by blast
  obtain k' where k': "k' < length xs" "ms ! k' = ?j" "xs ! k' = fst (ds ! ?j)" using A j by blast
  have "k' = k"
  proof (rule ccontr)
    assume "k' \<noteq> k"
    then have "{k', k} \<subseteq> {i. i < length ms \<and> ms ! i = ?j}" "card {k', k} = 2" using k' A assms(2) by auto
    then have "2 \<le> card {i. i < length ms \<and> ms ! i = ?j}" by (metis (no_types, lifting) card_mono finite_nat_set_iff_bounded mem_Collect_eq)
    then have "2 \<le> count_list ms ?j" by (simp add: count_list_eq_length_filter length_filter_conv_card eq_commute)
    with A j assms(3) show False by simp
  qed
  with k' show ?thesis by simp
qed

section \<open>The contract\<close>

locale hashed_equality =
  fixes same :: "'a \<Rightarrow> 'a \<Rightarrow> bool"
    and hash :: "'a \<Rightarrow> 'h"
  assumes same_sym: "same a b \<Longrightarrow> same b a"
    and same_trans: "same a b \<Longrightarrow> same b c \<Longrightarrow> same a c"
    and same_hash: "same a b \<Longrightarrow> hash a = hash b"
begin

lemma same_refl_of: "same a b \<Longrightarrow> same a a \<and> same b b"
  using same_sym same_trans by blast

text \<open>The buckets hold the positions of the distinct values by hash, in order.\<close>

lemma buckets:
  "(case dd_by_hash (dedup_scan same hash xs) h of None \<Rightarrow> [] | Some b \<Rightarrow> b)
     = filter (\<lambda>i. hash (fst (dd_distinct (dedup_scan same hash xs) ! i)) = h) [0..<length (dd_distinct (dedup_scan same hash xs))]
   \<and> linear_scan same xs = (dd_distinct (dedup_scan same hash xs), dd_membership (dedup_scan same hash xs))"
proof (induction xs arbitrary: h rule: rev_induct)
  case Nil
  then show ?case by (simp add: dedup_scan_def linear_scan_def)
next
  case (snoc x xs)
  define st where "st = dedup_scan same hash xs"
  define bucket where "bucket = (case dd_by_hash st (hash x) of None \<Rightarrow> [] | Some b \<Rightarrow> b)"
  let ?ds = "dd_distinct st"
  let ?P = "\<lambda>i. same (fst (?ds ! i)) x"
  have IH: "(case dd_by_hash st h of None \<Rightarrow> [] | Some b \<Rightarrow> b) = filter (\<lambda>i. hash (fst (?ds ! i)) = h) [0..<length ?ds]" for h
    using snoc by (simp add: st_def)
  have lin: "linear_scan same xs = (?ds, dd_membership st)" using snoc by (simp add: st_def)
  have step: "dedup_scan same hash (xs @ [x]) = dedup_step same hash x st" by (simp add: st_def dedup_scan_def)
  have find: "find ?P bucket = find ?P [0..<length ?ds]"
    unfolding bucket_def IH by (rule find_filter_weaker) (rule same_hash)
  have bucket: "bucket = filter (\<lambda>j. hash (fst (?ds ! j)) = hash x) [0..<length ?ds]" by (simp add: bucket_def IH)
  show ?case
  proof (cases "find ?P bucket")
    case (Some i)
    have new: "dedup_scan same hash (xs @ [x]) = st\<lparr>dd_distinct := count_up i ?ds, dd_by_hash := (dd_by_hash st)(hash x \<mapsto> bucket),
        dd_membership := dd_membership st @ [i]\<rparr>"
      using Some by (simp add: step dedup_step_def Let_def bucket_def [symmetric])
    have "linear_scan same (xs @ [x]) = (count_up i ?ds, dd_membership st @ [i])"
      using Some find by (simp add: linear_scan_snoc linear_step_def lin)
    moreover have "filter (\<lambda>j. hash (fst (count_up i ?ds ! j)) = h) [0..<length ?ds]
        = filter (\<lambda>j. hash (fst (?ds ! j)) = h) [0..<length ?ds]" for h
      by (rule filter_cong) simp_all
    ultimately show ?thesis using IH [of h] bucket by (simp add: new)
  next
    case None
    have new: "dedup_scan same hash (xs @ [x]) = st\<lparr>dd_distinct := ?ds @ [(x, 1)],
        dd_by_hash := (dd_by_hash st)(hash x \<mapsto> bucket @ [length ?ds]), dd_membership := dd_membership st @ [length ?ds]\<rparr>"
      using None by (simp add: step dedup_step_def Let_def bucket_def [symmetric])
    have "linear_scan same (xs @ [x]) = (?ds @ [(x, 1)], dd_membership st @ [length ?ds])"
      using None find by (simp add: linear_scan_snoc linear_step_def lin)
    moreover have "filter (\<lambda>j. hash (fst ((?ds @ [(x, 1)]) ! j)) = h) [0..<length ?ds]
        = filter (\<lambda>j. hash (fst (?ds ! j)) = h) [0..<length ?ds]" for h
      by (rule filter_cong) (simp_all add: nth_append)
    ultimately show ?thesis using IH [of h] bucket by (simp add: new)
  qed
qed

lemma dedup_eq_linear:
  "linear_scan same xs = (dd_distinct (dedup_scan same hash xs), dd_membership (dedup_scan same hash xs))"
  using buckets by blast

text \<open>Scanning the entries in place of their members finds the same entries again.\<close>

lemma scan_again:
  "linear_scan same xs = (ds, ms) \<Longrightarrow> linear_scan same (map (\<lambda>i. fst (ds ! i)) ms) = (ds, ms)"
proof (induction xs arbitrary: ds ms rule: rev_induct)
  case Nil
  then show ?case by (simp add: linear_scan_def)
next
  case (snoc x xs)
  obtain ds0 ms0 where p: "linear_scan same xs = (ds0, ms0)" by (cases "linear_scan same xs")
  have inv: "scan_inv same xs ds0 ms0" by (rule linear_scan_inv [OF p])
  then have less: "\<forall>i \<in> set ms0. i < length ds0" by (auto simp: scan_inv_def in_set_conv_nth)
  note step = snoc.prems [unfolded linear_scan_snoc p linear_step_def]
  show ?case
  proof (cases "find (\<lambda>i. same (fst (ds0 ! i)) x) [0..<length ds0]")
    case (Some i)
    then have i: "i < length ds0" "same (fst (ds0 ! i)) x" by (simp_all add: find_upt_Some)
    have eqs: "ds = count_up i ds0" "ms = ms0 @ [i]" using step Some by simp_all
    have "map (\<lambda>j. fst (ds ! j)) ms = map (\<lambda>j. fst (ds0 ! j)) ms0 @ [fst (ds0 ! i)]"
      using less i by (simp add: eqs)
    moreover have "find (\<lambda>j. same (fst (ds0 ! j)) (fst (ds0 ! i))) [0..<length ds0] = Some i"
      using inv i same_refl_of by (auto simp: find_upt_Some scan_inv_def)
    ultimately have "linear_scan same (map (\<lambda>j. fst (ds ! j)) ms) = (count_up i ds0, ms0 @ [i])"
      using snoc.IH [OF p] by (simp only: linear_scan_snoc) (simp add: linear_step_def)
    then show ?thesis by (simp only: eqs)
  next
    case None
    have eqs: "ds = ds0 @ [(x, 1)]" "ms = ms0 @ [length ds0]" using step None by simp_all
    have "map (\<lambda>j. fst (ds ! j)) ms = map (\<lambda>j. fst (ds0 ! j)) ms0 @ [x]"
      using less by (simp add: eqs nth_append)
    then have "linear_scan same (map (\<lambda>j. fst (ds ! j)) ms) = (ds0 @ [(x, 1)], ms0 @ [length ds0])"
      using snoc.IH [OF p] None by (simp only: linear_scan_snoc) (simp add: linear_step_def)
    then show ?thesis by (simp only: eqs)
  qed
qed

end

end
