(* ===== verification/Manifest.thy ===== *)
theory Manifest
  imports Fetch Dedup Text
begin

text \<open>
  The compact wire form of a dataset manifest (\<^verbatim>\<open>lucida-content/src/graph.rs\<close>): pyramids shared
  by two or more images are sent once, translations are sent as two numbers, and the
  decoder bounds what resolving the references may cost. The wire value is the structure
  serde reads and writes. The standard hasher and the sizes of the Rust types, which the
  compiler chooses, are parameters.
\<close>

section \<open>Equality and hash of a pyramid\<close>

definition level_eq :: "level_geometry \<Rightarrow> level_geometry \<Rightarrow> bool" where
  "level_eq a b \<longleftrightarrow>
     lv_index a = lv_index b \<and> lv_shape a = lv_shape b \<and> lv_chunk_shape a = lv_chunk_shape b
     \<and> lv_grid_shape a = lv_grid_shape b \<and> rel_arr5 feq (lv_scale a) (lv_scale b)"

definition multiscale_eq :: "multiscale_info \<Rightarrow> multiscale_info \<Rightarrow> bool" where
  "multiscale_eq a b \<longleftrightarrow>
     ms_axes a = ms_axes b \<and> list_all2 level_eq (ms_levels a) (ms_levels b)
     \<and> ms_coarse_level_index a = ms_coarse_level_index b \<and> ms_generated_levels a = ms_generated_levels b
     \<and> ms_data_type a = ms_data_type b \<and> ms_pinned_axes a = ms_pinned_axes b
     \<and> ms_channel_infos a = ms_channel_infos b \<and> ms_downsampling_method a = ms_downsampling_method b"

text \<open>
  What the hasher is fed, field by field; the downsampling method is not part of it. The bits
  of a float are its sign and its value, which tells the two zeros apart.
\<close>

type_synonym f64_bits = "bool option + bool \<times> rat"
type_synonym level_key = "nat \<times> nat arr5 \<times> nat arr5 \<times> nat arr5 \<times> f64_bits arr5"
type_synonym dedup_key = "axis list \<times> nat \<times> level_key list \<times> nat option \<times> generated_level_info list \<times> data_type
    \<times> pinned_axis list \<times> channel_info list"

definition to_bits :: "f64 \<Rightarrow> f64_bits" where
  "to_bits v =
     (case v of
        NaN \<Rightarrow> Inl None
      | Inf s \<Rightarrow> Inl (Some s)
      | Fin s a \<Rightarrow> Inr (if fval v = 0 then s else fval v < 0, fval v))"

definition write_f64 :: "f64 \<Rightarrow> f64_bits" where
  "write_f64 v = (let normalized = (if feq v 0 then 0 else v) in to_bits normalized)"

definition multiscale_dedup_hash :: "(dedup_key \<Rightarrow> 'h) \<Rightarrow> multiscale_info \<Rightarrow> 'h" where
  "multiscale_dedup_hash hasher info =
     hasher (ms_axes info, length (ms_levels info),
       map (\<lambda>l. (lv_index l, lv_shape l, lv_chunk_shape l, lv_grid_shape l, map_arr5 write_f64 (lv_scale l))) (ms_levels info),
       ms_coarse_level_index info, ms_generated_levels info, ms_data_type info, ms_pinned_axes info, ms_channel_infos info)"

section \<open>Encoding\<close>

definition shared_multiscales :: "(dedup_key \<Rightarrow> 'h) \<Rightarrow> image_spec list \<Rightarrow> multiscale_info list \<times> nat option list" where
  "shared_multiscales hasher images =
     (let st = dedup_scan multiscale_eq (multiscale_dedup_hash hasher) (map im_multiscale images);
          (table, table_index_by_distinct) = build_table (dd_distinct st)
      in (table, map (\<lambda>i. table_index_by_distinct ! i) (dd_membership st)))"

record edge_wire =
  ew_from :: entity_id
  ew_to :: entity_id
  ew_transform :: "mat4 option"
  ew_translation :: "vec2 option"

record image_spec_wire =
  iw_image_id :: image_id
  iw_owner :: entity_id
  iw_multiscale :: "multiscale_info option"
  iw_multiscale_ref :: "nat option"

record manifest_wire =
  mw_format_version :: "nat option"
  mw_dataset_id :: dataset_id
  mw_name :: string
  mw_kind :: dataset_kind
  mw_entities :: "entity list"
  mw_transforms :: "edge_wire list"
  mw_multiscales :: "multiscale_info list"
  mw_images :: "image_spec_wire list"
  mw_source_layouts :: "layout_spec list"
  mw_default_layout_id :: "layout_id option"
  mw_labels :: "label_spec list"

definition COMPACT_MANIFEST_FORMAT_VERSION :: nat where
  "COMPACT_MANIFEST_FORMAT_VERSION = 2"

definition edge_encode :: "transform_edge \<Rightarrow> edge_wire" where
  "edge_encode e =
     (case as_voxel_translation_2d (te_matrix e) of
        Some t \<Rightarrow> \<lparr>ew_from = te_from e, ew_to = te_to e, ew_transform = None, ew_translation = Some t\<rparr>
      | None \<Rightarrow> \<lparr>ew_from = te_from e, ew_to = te_to e, ew_transform = Some (te_matrix e), ew_translation = None\<rparr>)"

definition image_encode :: "image_spec \<Rightarrow> nat option \<Rightarrow> image_spec_wire" where
  "image_encode img table_ref =
     (case table_ref of
        Some i \<Rightarrow> \<lparr>iw_image_id = im_id img, iw_owner = im_owner img, iw_multiscale = None, iw_multiscale_ref = Some i\<rparr>
      | None \<Rightarrow> \<lparr>iw_image_id = im_id img, iw_owner = im_owner img, iw_multiscale = Some (im_multiscale img),
                 iw_multiscale_ref = None\<rparr>)"

definition manifest_encode :: "(dedup_key \<Rightarrow> 'h) \<Rightarrow> dataset_manifest \<Rightarrow> manifest_wire" where
  "manifest_encode hasher m =
     (let (table, refs) = shared_multiscales hasher (mf_images m);
          compact = (table \<noteq> [] \<or> list_ex (\<lambda>e. as_voxel_translation_2d (te_matrix e) \<noteq> None) (mf_transforms m))
      in \<lparr>mw_format_version = (if compact then Some COMPACT_MANIFEST_FORMAT_VERSION else None),
          mw_dataset_id = mf_dataset_id m, mw_name = mf_name m, mw_kind = mf_kind m, mw_entities = mf_entities m,
          mw_transforms = map edge_encode (mf_transforms m), mw_multiscales = table,
          mw_images = map2 image_encode (mf_images m) refs, mw_source_layouts = mf_source_layouts m,
          mw_default_layout_id = mf_default_layout_id m, mw_labels = mf_labels m\<rparr>)"

section \<open>Decoding\<close>

definition MAX_TABLE_ENTRY_LEVELS :: nat where "MAX_TABLE_ENTRY_LEVELS = 1024"
definition MAX_TABLE_ENTRY_CHANNEL_INFOS :: nat where "MAX_TABLE_ENTRY_CHANNEL_INFOS = 4096"
definition MAX_REF_EXPANSION_BYTES :: nat where "MAX_REF_EXPANSION_BYTES = 256 * 1024 * 1024"

record type_sizes =
  sz_multiscale :: nat
  sz_axis :: nat
  sz_level :: nat
  sz_generated :: nat
  sz_pinned :: nat
  sz_channel :: nat

definition opt_len :: "string option \<Rightarrow> nat" where
  "opt_len s = (case s of None \<Rightarrow> 0 | Some t \<Rightarrow> length t)"

definition multiscale_expansion_bytes :: "type_sizes \<Rightarrow> multiscale_info \<Rightarrow> nat" where
  "multiscale_expansion_bytes sz info =
     sum_list (map (\<lambda>a. length (ax_name a)) (ms_axes info) @ map (\<lambda>a. length (pa_name a)) (ms_pinned_axes info)
       @ map (\<lambda>c. length (ci_label c) + opt_len (ci_color c)) (ms_channel_infos info)
       @ map (\<lambda>g. length (gl_generator g) + length (gl_config_id g) + opt_len (gl_source_content_id g)) (ms_generated_levels info))
     + (sz_multiscale sz + length (ms_axes info) * sz_axis sz + length (ms_levels info) * sz_level sz
        + length (ms_generated_levels info) * sz_generated sz + length (ms_pinned_axes info) * sz_pinned sz
        + length (ms_channel_infos info) * sz_channel sz)"

definition edge_text :: "edge_wire \<Rightarrow> string" where
  "edge_text e = ''transform edge '' @ ew_from e @ '' -> '' @ ew_to e"

definition edge_decode :: "edge_wire \<Rightarrow> string + transform_edge" where
  "edge_decode e =
     res_map (\<lambda>m. \<lparr>te_from = ew_from e, te_to = ew_to e, te_matrix = m\<rparr>)
       (case (ew_transform e, ew_translation e) of
          (Some m, None) \<Rightarrow> Inr m
        | (None, Some (tx, ty)) \<Rightarrow> Inr (translation_2d tx ty)
        | (Some _, Some _) \<Rightarrow> Inl (edge_text e @ '' carries both a transform and a translation'')
        | (None, None) \<Rightarrow> Inl (edge_text e @ '' carries neither a transform nor a translation''))"

fun check_table :: "nat \<Rightarrow> multiscale_info list \<Rightarrow> string + unit" where
  "check_table index [] = Inr ()"
| "check_table index (info # rest) =
     (if length (ms_levels info) > MAX_TABLE_ENTRY_LEVELS then
        Inl (''shared multiscale '' @ show_nat index @ '' declares '' @ show_nat (length (ms_levels info))
          @ '' levels, which exceeds the decode limit of '' @ show_nat MAX_TABLE_ENTRY_LEVELS)
      else if length (ms_channel_infos info) > MAX_TABLE_ENTRY_CHANNEL_INFOS then
        Inl (''shared multiscale '' @ show_nat index @ '' declares '' @ show_nat (length (ms_channel_infos info))
          @ '' channel entries, which exceeds the decode limit of '' @ show_nat MAX_TABLE_ENTRY_CHANNEL_INFOS)
      else check_table (Suc index) rest)"

definition image_decode :: "type_sizes \<Rightarrow> multiscale_info list \<Rightarrow> nat \<Rightarrow> image_spec_wire \<Rightarrow> string + nat \<times> image_spec" where
  "image_decode sz multiscales expanded_bytes w =
     res_map (\<lambda>(expanded, m). (expanded, \<lparr>im_id = iw_image_id w, im_owner = iw_owner w, im_multiscale = m\<rparr>))
       (case (iw_multiscale w, iw_multiscale_ref w) of
          (Some m, None) \<Rightarrow> Inr (expanded_bytes, m)
        | (None, Some i) \<Rightarrow>
            if \<not> i < length multiscales then
              Inl (''image '' @ iw_image_id w @ '' references shared multiscale '' @ show_nat i @ '', but the manifest declares ''
                @ show_nat (length multiscales) @ '' shared multiscale(s)'')
            else
              let expanded = min (2 ^ 64 - 1) (expanded_bytes + multiscale_expansion_bytes sz (multiscales ! i))
              in if expanded > MAX_REF_EXPANSION_BYTES then
                   Inl (''resolving image '' @ iw_image_id w @ [CHR 0x27] @ ''s multiscale_ref would expand the shared multiscale table ''
                     @ ''past the decode limit of '' @ show_nat MAX_REF_EXPANSION_BYTES @ '' bytes'')
                 else Inr (expanded, multiscales ! i)
        | (Some _, Some _) \<Rightarrow> Inl (''image '' @ iw_image_id w @ '' carries both an inline multiscale and a multiscale_ref'')
        | (None, None) \<Rightarrow> Inl (''image '' @ iw_image_id w @ '' carries neither a multiscale nor a multiscale_ref''))"

fun images_decode :: "type_sizes \<Rightarrow> multiscale_info list \<Rightarrow> nat \<Rightarrow> image_spec_wire list \<Rightarrow> string + image_spec list" where
  "images_decode sz multiscales expanded_bytes [] = Inr []"
| "images_decode sz multiscales expanded_bytes (w # ws) =
     res_bind (image_decode sz multiscales expanded_bytes w) (\<lambda>(expanded, img).
       res_map ((#) img) (images_decode sz multiscales expanded ws))"

definition manifest_decode :: "type_sizes \<Rightarrow> manifest_wire \<Rightarrow> string + dataset_manifest" where
  "manifest_decode sz w =
     res_bind (res_collect edge_decode (mw_transforms w)) (\<lambda>transforms.
     res_bind (check_table 0 (mw_multiscales w)) (\<lambda>_.
     res_map (\<lambda>images.
         \<lparr>mf_dataset_id = mw_dataset_id w, mf_name = mw_name w, mf_kind = mw_kind w, mf_entities = mw_entities w,
          mf_transforms = transforms, mf_images = images, mf_source_layouts = mw_source_layouts w,
          mf_default_layout_id = mw_default_layout_id w, mf_labels = mw_labels w\<rparr>)
       (images_decode sz (mw_multiscales w) 0 (mw_images w))))"

section \<open>The equality and the hash agree\<close>

lemma write_f64_eq: "feq a b \<Longrightarrow> write_f64 a = write_f64 b"
proof (cases "feq a 0")
  case True
  assume "feq a b"
  with True have "feq b 0" using feq_sym feq_trans by blast
  with True show ?thesis by (simp add: write_f64_def)
next
  case False
  assume eq: "feq a b"
  with False have "\<not> feq b 0" using feq_trans by blast
  moreover from eq False have "to_bits a = to_bits b" by (cases a; cases b) (auto simp: to_bits_def zero_f64_def)
  ultimately show ?thesis using False by (simp add: write_f64_def)
qed

lemma rel_arr5_feq_sym: "rel_arr5 feq a b \<Longrightarrow> rel_arr5 feq b a"
  by (rule sympD [OF arr5.rel_symp]) (rule sympI, rule feq_sym)

lemma rel_arr5_feq_trans: "rel_arr5 feq a b \<Longrightarrow> rel_arr5 feq b c \<Longrightarrow> rel_arr5 feq a c"
  by (rule transpD [OF arr5.rel_transp]) (rule transpI, rule feq_trans)

lemma level_eq_sym: "level_eq a b \<Longrightarrow> level_eq b a"
  by (simp add: level_eq_def rel_arr5_feq_sym)

lemma level_eq_trans: "level_eq a b \<Longrightarrow> level_eq b c \<Longrightarrow> level_eq a c"
  by (auto simp: level_eq_def intro: rel_arr5_feq_trans)

lemma levels_eq_sym: "list_all2 level_eq xs ys \<Longrightarrow> list_all2 level_eq ys xs"
  by (rule sympD [OF list.rel_symp]) (rule sympI, rule level_eq_sym)

lemma levels_eq_trans: "list_all2 level_eq xs ys \<Longrightarrow> list_all2 level_eq ys zs \<Longrightarrow> list_all2 level_eq xs zs"
  by (rule transpD [OF list.rel_transp]) (rule transpI, rule level_eq_trans)

lemma multiscale_eq_sym: "multiscale_eq a b \<Longrightarrow> multiscale_eq b a"
  by (simp add: multiscale_eq_def levels_eq_sym)

lemma multiscale_eq_trans: "multiscale_eq a b \<Longrightarrow> multiscale_eq b c \<Longrightarrow> multiscale_eq a c"
  unfolding multiscale_eq_def using levels_eq_trans [of "ms_levels a" "ms_levels b" "ms_levels c"] by simp

lemma multiscale_eq_hash:
  assumes "multiscale_eq a b"
  shows "multiscale_dedup_hash hasher a = multiscale_dedup_hash hasher b"
proof -
  let ?k = "\<lambda>l. (lv_index l, lv_shape l, lv_chunk_shape l, lv_grid_shape l, map_arr5 write_f64 (lv_scale l))"
  have "map_arr5 write_f64 x = map_arr5 write_f64 y" if "rel_arr5 feq x y" for x y
    using that by (cases x; cases y) (auto simp: write_f64_eq)
  then have k: "?k x = ?k y" if "level_eq x y" for x y using that by (simp add: level_eq_def)
  have "list_all2 level_eq xs ys \<Longrightarrow> length xs = length ys \<and> map ?k xs = map ?k ys" for xs ys
    by (induction rule: list_all2_induct) (use k in \<open>simp_all\<close>)
  then have "length (ms_levels a) = length (ms_levels b) \<and> map ?k (ms_levels a) = map ?k (ms_levels b)"
    using assms by (simp add: multiscale_eq_def)
  then show ?thesis using assms unfolding multiscale_eq_def multiscale_dedup_hash_def by simp
qed

interpretation multiscales: hashed_equality multiscale_eq "multiscale_dedup_hash hasher" for hasher
  by unfold_locales (rule multiscale_eq_sym multiscale_eq_trans multiscale_eq_hash; assumption)+

section \<open>What the decoder accepts\<close>

lemma list_all2_exists: "(\<And>x. x \<in> set xs \<Longrightarrow> \<exists>y. R x y) \<Longrightarrow> \<exists>ys. list_all2 R xs ys"
proof (induction xs)
  case (Cons x xs)
  then obtain y ys where "R x y" "list_all2 R xs ys" by (metis list.set_intros)
  then have "list_all2 R (x # xs) (y # ys)" by simp
  then show ?case by blast
qed (auto intro: list.rel_intros)

definition resolved :: "multiscale_info list \<Rightarrow> image_spec_wire \<Rightarrow> multiscale_info option" where
  "resolved multiscales w =
     (case (iw_multiscale w, iw_multiscale_ref w) of
        (Some m, None) \<Rightarrow> Some m
      | (None, Some i) \<Rightarrow> if i < length multiscales then Some (multiscales ! i) else None
      | _ \<Rightarrow> None)"

definition ref_cost :: "type_sizes \<Rightarrow> multiscale_info list \<Rightarrow> image_spec_wire \<Rightarrow> nat" where
  "ref_cost sz multiscales w =
     (case iw_multiscale_ref w of None \<Rightarrow> 0 | Some i \<Rightarrow> multiscale_expansion_bytes sz (multiscales ! i))"

definition entry_ok :: "multiscale_info \<Rightarrow> bool" where
  "entry_ok info \<longleftrightarrow> length (ms_levels info) \<le> MAX_TABLE_ENTRY_LEVELS \<and> length (ms_channel_infos info) \<le> MAX_TABLE_ENTRY_CHANNEL_INFOS"

definition within_limits :: "type_sizes \<Rightarrow> manifest_wire \<Rightarrow> bool" where
  "within_limits sz w \<longleftrightarrow> list_all entry_ok (mw_multiscales w)
     \<and> sum_list (map (ref_cost sz (mw_multiscales w)) (mw_images w)) \<le> MAX_REF_EXPANSION_BYTES"

definition edge_matrix :: "edge_wire \<Rightarrow> mat4 option" where
  "edge_matrix e =
     (case (ew_transform e, ew_translation e) of
        (Some m, None) \<Rightarrow> Some m
      | (None, Some (tx, ty)) \<Rightarrow> Some (translation_2d tx ty)
      | _ \<Rightarrow> None)"

lemma edge_decode_iff:
  "edge_decode w = Inr e \<longleftrightarrow> (\<exists>m. edge_matrix w = Some m \<and> e = \<lparr>te_from = ew_from w, te_to = ew_to w, te_matrix = m\<rparr>)"
  by (auto simp: edge_decode_def edge_matrix_def split: option.splits prod.splits)

lemma check_table_iff: "check_table i ms = Inr u \<longleftrightarrow> list_all entry_ok ms"
  by (induction i ms rule: check_table.induct) (auto simp: entry_ok_def)

lemma image_decode_iff:
  assumes "ex \<le> MAX_REF_EXPANSION_BYTES"
  shows "image_decode sz ms ex w = Inr (ex', img) \<longleftrightarrow>
    (\<exists>m. resolved ms w = Some m \<and> img = \<lparr>im_id = iw_image_id w, im_owner = iw_owner w, im_multiscale = m\<rparr>)
    \<and> ex' = ex + ref_cost sz ms w \<and> ex' \<le> MAX_REF_EXPANSION_BYTES"
  using assms
  by (auto simp: image_decode_def resolved_def ref_cost_def Let_def MAX_REF_EXPANSION_BYTES_def min_def split: option.splits)

lemma images_decode_iff:
  assumes "ex \<le> MAX_REF_EXPANSION_BYTES"
  shows "images_decode sz ms ex ws = Inr imgs \<longleftrightarrow>
    list_all2 (\<lambda>w img. \<exists>m. resolved ms w = Some m \<and> img = \<lparr>im_id = iw_image_id w, im_owner = iw_owner w, im_multiscale = m\<rparr>) ws imgs
    \<and> ex + sum_list (map (ref_cost sz ms) ws) \<le> MAX_REF_EXPANSION_BYTES"
  using assms
proof (induction ws arbitrary: ex imgs)
  case (Cons w ws)
  have "images_decode sz ms ex (w # ws) = Inr imgs \<longleftrightarrow>
      (\<exists>ex' img rest. image_decode sz ms ex w = Inr (ex', img) \<and> images_decode sz ms ex' ws = Inr rest \<and> imgs = img # rest)"
    by (auto simp: res_Inr_iffs)
  also have "\<dots> \<longleftrightarrow> (\<exists>img rest. (\<exists>m. resolved ms w = Some m \<and> img = \<lparr>im_id = iw_image_id w, im_owner = iw_owner w, im_multiscale = m\<rparr>)
      \<and> ex + ref_cost sz ms w \<le> MAX_REF_EXPANSION_BYTES \<and> images_decode sz ms (ex + ref_cost sz ms w) ws = Inr rest \<and> imgs = img # rest)"
    unfolding image_decode_iff [OF Cons.prems] by blast
  finally show ?case using Cons.IH [of "ex + ref_cost sz ms w"] by (auto simp: list_all2_Cons1 add.assoc)
qed auto

lemma manifest_decode_iff:
  "manifest_decode sz w = Inr m \<longleftrightarrow>
     (\<exists>ts ims. list_all2 (\<lambda>e t. edge_decode e = Inr t) (mw_transforms w) ts
       \<and> list_all2 (\<lambda>v img. \<exists>m. resolved (mw_multiscales w) v = Some m
            \<and> img = \<lparr>im_id = iw_image_id v, im_owner = iw_owner v, im_multiscale = m\<rparr>) (mw_images w) ims
       \<and> within_limits sz w
       \<and> m = \<lparr>mf_dataset_id = mw_dataset_id w, mf_name = mw_name w, mf_kind = mw_kind w, mf_entities = mw_entities w,
              mf_transforms = ts, mf_images = ims, mf_source_layouts = mw_source_layouts w,
              mf_default_layout_id = mw_default_layout_id w, mf_labels = mw_labels w\<rparr>)"
  by (auto simp: manifest_decode_def res_Inr_iffs res_collect_Inr_iff check_table_iff images_decode_iff within_limits_def)

section \<open>Round trip\<close>

definition edge_canon :: "transform_edge \<Rightarrow> transform_edge" where
  "edge_canon e =
     (case as_voxel_translation_2d (te_matrix e) of
        Some (tx, ty) \<Rightarrow> e\<lparr>te_matrix := translation_2d tx ty\<rparr>
      | None \<Rightarrow> e)"

lemma translation_again:
  assumes "as_voxel_translation_2d m = Some (tx, ty)"
  shows "as_voxel_translation_2d (translation_2d tx ty) = Some (tx, ty) \<and> list_all2 feq m (translation_2d tx ty)"
proof -
  have eq: "list_all2 feq m (translation_2d tx ty)" "tx = m ! 12" "ty = m ! 13"
    using assms by (auto simp: as_voxel_translation_2d_def split: if_splits)
  have "feq (m ! 12) (translation_2d tx ty ! 12)" "feq (m ! 13) (translation_2d tx ty ! 13)"
    by (rule list_all2_nthD2 [OF eq(1)], simp add: translation_2d_def)+
  then have "feq tx tx" "feq ty ty" by (simp_all add: translation_2d_def eq)
  moreover have "feq 0 (0 :: f64)" "feq 1 (1 :: f64)" by (simp_all add: zero_f64_def one_f64_def)
  ultimately show ?thesis using eq by (simp add: as_voxel_translation_2d_def translation_2d_def)
qed

lemma edge_round:
  "edge_decode (edge_encode e) = Inr (edge_canon e) \<and> edge_encode (edge_canon e) = edge_encode e
   \<and> as_voxel_translation_2d (te_matrix (edge_canon e)) = as_voxel_translation_2d (te_matrix e)"
  using translation_again [of "te_matrix e"]
  by (cases "as_voxel_translation_2d (te_matrix e)") (auto simp: edge_decode_def edge_encode_def edge_canon_def)

text \<open>The images with each pyramid replaced by the entry it shares.\<close>

definition images_canon :: "image_spec list \<Rightarrow> image_spec list" where
  "images_canon images =
     (case linear_scan multiscale_eq (map im_multiscale images) of
        (ds, ms) \<Rightarrow> map2 (\<lambda>img i. img\<lparr>im_multiscale := fst (ds ! i)\<rparr>) images ms)"

definition manifest_canon :: "dataset_manifest \<Rightarrow> dataset_manifest" where
  "manifest_canon m = m\<lparr>mf_transforms := map edge_canon (mf_transforms m), mf_images := images_canon (mf_images m)\<rparr>"

lemma shared_multiscales_linear:
  assumes "linear_scan multiscale_eq (map im_multiscale images) = (ds, ms)"
  shows "shared_multiscales hasher images = (fst (build_table ds), map (\<lambda>i. snd (build_table ds) ! i) ms)"
  using multiscales.dedup_eq_linear [of "map im_multiscale images" hasher] assms
  by (simp add: shared_multiscales_def case_prod_beta Let_def)

lemma table_ref:
  assumes "j < length ds" "length ds < 2 ^ 32"
  shows "case snd (build_table ds) ! j of
           None \<Rightarrow> \<not> 2 \<le> snd (ds ! j)
         | Some i \<Rightarrow> i < length (fst (build_table ds)) \<and> fst (build_table ds) ! i = fst (ds ! j)"
proof -
  let ?P = "\<lambda>fn :: 'a \<times> nat. 2 \<le> snd fn"
  have "length (filter ?P (take j ds)) \<le> length ds" using length_filter_le [of ?P "take j ds"] by simp
  then have "as_u32 (length (filter ?P (take j ds))) = length (filter ?P (take j ds))"
    using assms(2) by (simp add: as_u32_def)
  with nth_filter_take [of j ds ?P] assms(1) show ?thesis by (auto simp: build_table_eq)
qed

lemma image_round:
  assumes "case r of None \<Rightarrow> info = im_multiscale img | Some i \<Rightarrow> i < length table \<and> table ! i = info"
  shows "resolved table (image_encode img r) = Some info \<and> iw_image_id (image_encode img r) = im_id img
    \<and> iw_owner (image_encode img r) = im_owner img"
  using assms by (cases r) (simp_all add: image_encode_def resolved_def)

lemma images_round:
  assumes "linear_scan multiscale_eq (map im_multiscale images) = (ds, ms)" "length images < 2 ^ 32"
  shows "list_all2 (\<lambda>w img. \<exists>m. resolved (fst (build_table ds)) w = Some m
      \<and> img = \<lparr>im_id = iw_image_id w, im_owner = iw_owner w, im_multiscale = m\<rparr>)
    (map2 image_encode images (map (\<lambda>i. snd (build_table ds) ! i) ms)) (images_canon images)"
proof -
  have inv: "scan_inv multiscale_eq (map im_multiscale images) ds ms" by (rule linear_scan_inv [OF assms(1)])
  have len: "length ms = length images" using inv by (simp add: scan_inv_def)
  have small: "length ds < 2 ^ 32"
  proof -
    have "{0..<length ds} \<subseteq> set ms" using inv by (force simp: scan_inv_def in_set_conv_nth)
    then have "length ds \<le> card (set ms)" by (metis card_atLeastLessThan card_mono diff_zero finite_set)
    with len assms(2) card_length [of ms] show ?thesis by linarith
  qed
  show ?thesis unfolding images_canon_def assms(1) prod.case
  proof (rule list_all2_all_nthI)
    fix k assume "k < length (map2 image_encode images (map (\<lambda>i. snd (build_table ds) ! i) ms))"
    with len have k: "k < length images" "k < length ms" by auto
    let ?j = "ms ! k"
    have j: "?j < length ds" using inv k by (simp add: scan_inv_def)
    have "case snd (build_table ds) ! ?j of None \<Rightarrow> fst (ds ! ?j) = im_multiscale (images ! k)
        | Some i \<Rightarrow> i < length (fst (build_table ds)) \<and> fst (build_table ds) ! i = fst (ds ! ?j)"
      using table_ref [OF j small] scan_inv_single [OF inv, of k] k by (auto split: option.splits)
    from image_round [OF this] k
    show "\<exists>m. resolved (fst (build_table ds)) (map2 image_encode images (map (\<lambda>i. snd (build_table ds) ! i) ms) ! k) = Some m
        \<and> map2 (\<lambda>img i. img\<lparr>im_multiscale := fst (ds ! i)\<rparr>) images ms ! k
          = \<lparr>im_id = iw_image_id (map2 image_encode images (map (\<lambda>i. snd (build_table ds) ! i) ms) ! k),
             im_owner = iw_owner (map2 image_encode images (map (\<lambda>i. snd (build_table ds) ! i) ms) ! k), im_multiscale = m\<rparr>"
      by simp
  qed (use len in simp)
qed

lemma manifest_decode_encode:
  assumes "length (mf_images m) < 2 ^ 32" "within_limits sz (manifest_encode hasher m)"
  shows "manifest_decode sz (manifest_encode hasher m) = Inr (manifest_canon m)"
proof -
  obtain ds ms where scan: "linear_scan multiscale_eq (map im_multiscale (mf_images m)) = (ds, ms)"
    by (cases "linear_scan multiscale_eq (map im_multiscale (mf_images m))")
  note shared = shared_multiscales_linear [OF scan, of hasher]
  have "list_all2 (\<lambda>e t. edge_decode e = Inr t) (map edge_encode (mf_transforms m)) (map edge_canon (mf_transforms m))"
    using edge_round by (simp add: list_all2_conv_all_nth)
  then show ?thesis
    unfolding manifest_decode_iff using images_round [OF scan assms(1)] assms(2)
    by (intro exI conjI) (auto simp: manifest_encode_def shared manifest_canon_def)
qed

lemma manifest_encode_canon: "manifest_encode hasher (manifest_canon m) = manifest_encode hasher m"
proof -
  obtain ds ms where scan: "linear_scan multiscale_eq (map im_multiscale (mf_images m)) = (ds, ms)"
    by (cases "linear_scan multiscale_eq (map im_multiscale (mf_images m))")
  have inv: "scan_inv multiscale_eq (map im_multiscale (mf_images m)) ds ms" by (rule linear_scan_inv [OF scan])
  then have len: "length ms = length (mf_images m)" by (simp add: scan_inv_def)
  let ?images = "images_canon (mf_images m)"
  have canon: "?images = map2 (\<lambda>img i. img\<lparr>im_multiscale := fst (ds ! i)\<rparr>) (mf_images m) ms" by (simp add: images_canon_def scan)
  have "map im_multiscale ?images = map (\<lambda>i. fst (ds ! i)) ms"
    using len by (auto simp: canon intro: nth_equalityI)
  then have scan': "linear_scan multiscale_eq (map im_multiscale ?images) = (ds, ms)"
    using multiscales.scan_again [OF scan] by simp
  let ?refs = "map (\<lambda>i. snd (build_table ds) ! i) ms"
  have "map2 image_encode ?images ?refs = map2 image_encode (mf_images m) ?refs"
  proof (rule nth_equalityI)
    fix k assume "k < length (map2 image_encode ?images ?refs)"
    then have k: "k < length (mf_images m)" "k < length ms" using len by (simp_all add: canon)
    have j: "ms ! k < length ds" using inv k by (simp add: scan_inv_def)
    have "snd (build_table ds) ! (ms ! k) = None \<Longrightarrow> fst (ds ! (ms ! k)) = im_multiscale (mf_images m ! k)"
      using scan_inv_single [OF inv, of k] k j by (auto simp: build_table_eq split: if_splits)
    then show "map2 image_encode ?images ?refs ! k = map2 image_encode (mf_images m) ?refs ! k"
      using k by (cases "snd (build_table ds) ! (ms ! k)") (simp_all add: canon image_encode_def)
  qed (simp add: canon len)
  moreover have "list_ex (\<lambda>e. as_voxel_translation_2d (te_matrix e) \<noteq> None) (map edge_canon es)
      \<longleftrightarrow> list_ex (\<lambda>e. as_voxel_translation_2d (te_matrix e) \<noteq> None) es" for es
    using edge_round by (induction es) auto
  moreover have "map edge_encode (map edge_canon es) = map edge_encode es" for es
    using edge_round by simp
  ultimately show ?thesis
    unfolding manifest_encode_def
    by (simp add: manifest_canon_def shared_multiscales_linear [OF scan] shared_multiscales_linear [OF scan'] Let_def)
qed

section \<open>Properties\<close>

text \<open>
  C38: a manifest survives its compact wire form. Decoding what the encoder wrote gives the
  manifest back with every id, entity, layout and label untouched, each matrix and each
  pyramid the same or equal to the original by the code's own equality (the two zeros may
  be exchanged), and encoding the result again writes the same wire form, whatever the
  hash function. The manifest has fewer than \<open>2 ^ 32\<close> images and keeps within the decoder's limits: 1024 levels and 4096
  channels for each pyramid, and 256 MB for all pyramids once every image has its own.
\<close>
theorem manifest_round_trip:
  assumes "length (mf_images m) < 2 ^ 32" "within_limits sz (manifest_encode hasher m)"
  shows "\<exists>m'. manifest_decode sz (manifest_encode hasher m) = Inr m'
    \<and> manifest_encode hasher m' = manifest_encode hasher m
    \<and> m'\<lparr>mf_transforms := [], mf_images := []\<rparr> = m\<lparr>mf_transforms := [], mf_images := []\<rparr>
    \<and> list_all2 (\<lambda>e e'. te_from e' = te_from e \<and> te_to e' = te_to e
         \<and> (te_matrix e' = te_matrix e \<or> list_all2 feq (te_matrix e) (te_matrix e'))) (mf_transforms m) (mf_transforms m')
    \<and> list_all2 (\<lambda>i i'. im_id i' = im_id i \<and> im_owner i' = im_owner i
         \<and> (im_multiscale i' = im_multiscale i \<or> multiscale_eq (im_multiscale i') (im_multiscale i))) (mf_images m) (mf_images m')"
proof (intro exI conjI)
  show "manifest_decode sz (manifest_encode hasher m) = Inr (manifest_canon m)" by (rule manifest_decode_encode [OF assms])
  show "manifest_encode hasher (manifest_canon m) = manifest_encode hasher m" by (rule manifest_encode_canon)
  show "(manifest_canon m)\<lparr>mf_transforms := [], mf_images := []\<rparr> = m\<lparr>mf_transforms := [], mf_images := []\<rparr>"
    by (simp add: manifest_canon_def)
  have "te_from (edge_canon e) = te_from e \<and> te_to (edge_canon e) = te_to e
      \<and> (te_matrix (edge_canon e) = te_matrix e \<or> list_all2 feq (te_matrix e) (te_matrix (edge_canon e)))" for e
    using translation_again [of "te_matrix e"] by (auto simp: edge_canon_def split: option.splits)
  then show "list_all2 (\<lambda>e e'. te_from e' = te_from e \<and> te_to e' = te_to e
      \<and> (te_matrix e' = te_matrix e \<or> list_all2 feq (te_matrix e) (te_matrix e'))) (mf_transforms m) (mf_transforms (manifest_canon m))"
    by (simp add: manifest_canon_def list_all2_conv_all_nth)
  obtain ds ms where scan: "linear_scan multiscale_eq (map im_multiscale (mf_images m)) = (ds, ms)"
    by (cases "linear_scan multiscale_eq (map im_multiscale (mf_images m))")
  from linear_scan_inv [OF scan]
  show "list_all2 (\<lambda>i i'. im_id i' = im_id i \<and> im_owner i' = im_owner i
      \<and> (im_multiscale i' = im_multiscale i \<or> multiscale_eq (im_multiscale i') (im_multiscale i))) (mf_images m) (mf_images (manifest_canon m))"
    by (simp add: manifest_canon_def images_canon_def scan list_all2_conv_all_nth scan_inv_def)
qed

text \<open>A manifest of two images that share a pyramid of one level, placed by a translation.\<close>

definition demo_pyramid :: multiscale_info where
  "demo_pyramid = \<lparr>ms_axes = [], ms_levels = [\<lparr>lv_index = 0, lv_shape = Arr5 1 1 1 4 4, lv_chunk_shape = Arr5 1 1 1 4 4,
     lv_grid_shape = Arr5 1 1 1 1 1, lv_scale = Arr5 1 1 1 1 1\<rparr>], ms_coarse_level_index = None, ms_generated_levels = [],
     ms_data_type = Uint16, ms_pinned_axes = [], ms_channel_infos = [], ms_downsampling_method = None\<rparr>"

definition demo_manifest :: dataset_manifest where
  "demo_manifest = \<lparr>mf_dataset_id = ''d'', mf_name = ''demo'', mf_kind = Single, mf_entities = [],
     mf_transforms = [\<lparr>te_from = ''a'', te_to = ''b'', te_matrix = translation_2d 1 0\<rparr>],
     mf_images = [\<lparr>im_id = ''a'', im_owner = ''a'', im_multiscale = demo_pyramid\<rparr>,
       \<lparr>im_id = ''b'', im_owner = ''b'', im_multiscale = demo_pyramid\<rparr>],
     mf_source_layouts = [], mf_default_layout_id = None, mf_labels = []\<rparr>"

definition demo_sizes :: type_sizes where
  "demo_sizes = \<lparr>sz_multiscale = 200, sz_axis = 32, sz_level = 168, sz_generated = 80, sz_pinned = 40, sz_channel = 48\<rparr>"

lemma demo_limits: "within_limits demo_sizes (manifest_encode (\<lambda>_. 0 :: nat) demo_manifest)"
proof -
  have "feq 1 (1 :: f64)" by (simp add: one_f64_def)
  then have "multiscale_eq demo_pyramid demo_pyramid" by (simp add: multiscale_eq_def level_eq_def demo_pyramid_def)
  then have "linear_scan multiscale_eq (map im_multiscale (mf_images demo_manifest)) = ([(demo_pyramid, 2)], [0, 0])"
    by (simp add: linear_scan_def linear_step_def demo_manifest_def count_up_def)
  then have "shared_multiscales (\<lambda>_. 0 :: nat) (mf_images demo_manifest) = ([demo_pyramid], [Some 0, Some 0])"
    using shared_multiscales_linear [of "mf_images demo_manifest" _ _ "\<lambda>_. 0 :: nat"] by (simp add: build_table_def table_step_def as_u32_def)
  then show ?thesis
    by (simp add: within_limits_def manifest_encode_def demo_manifest_def image_encode_def ref_cost_def entry_ok_def
        MAX_TABLE_ENTRY_LEVELS_def MAX_TABLE_ENTRY_CHANNEL_INFOS_def MAX_REF_EXPANSION_BYTES_def
        multiscale_expansion_bytes_def demo_pyramid_def demo_sizes_def)
qed

theorem manifest_round_trip_witness:
  "\<exists>m'. manifest_decode demo_sizes (manifest_encode (\<lambda>_. 0 :: nat) demo_manifest) = Inr m'
    \<and> manifest_encode (\<lambda>_. 0 :: nat) m' = manifest_encode (\<lambda>_. 0 :: nat) demo_manifest"
proof -
  have "length (mf_images demo_manifest) < 2 ^ 32" by (simp add: demo_manifest_def)
  from manifest_round_trip [OF this demo_limits] show ?thesis by blast
qed

text \<open>
  the hash buckets change nothing: for every hash function the shared table and the
  references are those of a linear scan for the first equal pyramid, so the wire form
  depends only on the images and their order.
\<close>
theorem dedup_hash_irrelevant:
  "shared_multiscales hasher images =
     (case linear_scan multiscale_eq (map im_multiscale images) of
        (ds, ms) \<Rightarrow> (fst (build_table ds), map (\<lambda>i. snd (build_table ds) ! i) ms))"
  using shared_multiscales_linear [of images _ _ hasher] by (cases "linear_scan multiscale_eq (map im_multiscale images)") simp

text \<open>
  the decoder accepts exactly the documents whose edges and images each carry one of
  the two forms, whose references lie in the table, whose table entries are within the
  caps and whose references together expand to at most the limit; the accepted images are
  the wire images in order.
\<close>
theorem manifest_decode_bounded:
  "case manifest_decode sz w of
     Inl e \<Rightarrow> \<not> (list_all (\<lambda>e. edge_matrix e \<noteq> None) (mw_transforms w)
       \<and> list_all (\<lambda>v. resolved (mw_multiscales w) v \<noteq> None) (mw_images w) \<and> within_limits sz w)
   | Inr m \<Rightarrow> list_all entry_ok (mw_multiscales w)
       \<and> sum_list (map (ref_cost sz (mw_multiscales w)) (mw_images w)) \<le> MAX_REF_EXPANSION_BYTES
       \<and> map im_id (mf_images m) = map iw_image_id (mw_images w)
       \<and> map (Some \<circ> im_multiscale) (mf_images m) = map (resolved (mw_multiscales w)) (mw_images w)
       \<and> map (Some \<circ> te_matrix) (mf_transforms m) = map edge_matrix (mw_transforms w)"
proof (cases "manifest_decode sz w")
  case (Inl e)
  have "within_limits sz w \<Longrightarrow> list_all (\<lambda>e. edge_matrix e \<noteq> None) (mw_transforms w)
      \<Longrightarrow> list_all (\<lambda>v. resolved (mw_multiscales w) v \<noteq> None) (mw_images w) \<Longrightarrow> \<exists>m. manifest_decode sz w = Inr m"
  proof -
    assume ok: "within_limits sz w" "list_all (\<lambda>e. edge_matrix e \<noteq> None) (mw_transforms w)"
      "list_all (\<lambda>v. resolved (mw_multiscales w) v \<noteq> None) (mw_images w)"
    have "\<exists>ts. list_all2 (\<lambda>e t. edge_decode e = Inr t) (mw_transforms w) ts"
      using ok(2) by (intro list_all2_exists) (auto simp: list_all_iff edge_decode_iff)
    moreover have "\<exists>ims. list_all2 (\<lambda>v img. \<exists>m. resolved (mw_multiscales w) v = Some m
        \<and> img = \<lparr>im_id = iw_image_id v, im_owner = iw_owner v, im_multiscale = m\<rparr>) (mw_images w) ims"
      using ok(3) by (intro list_all2_exists) (auto simp: list_all_iff)
    ultimately show ?thesis unfolding manifest_decode_iff using ok(1) by blast
  qed
  with Inl show ?thesis by auto
next
  case (Inr m)
  then obtain ts ims where a: "list_all2 (\<lambda>e t. edge_decode e = Inr t) (mw_transforms w) ts"
    "list_all2 (\<lambda>v img. \<exists>m. resolved (mw_multiscales w) v = Some m
        \<and> img = \<lparr>im_id = iw_image_id v, im_owner = iw_owner v, im_multiscale = m\<rparr>) (mw_images w) ims"
    "within_limits sz w" "mf_transforms m = ts" "mf_images m = ims"
    unfolding manifest_decode_iff by auto
  from a(1) have "map (Some \<circ> te_matrix) ts = map edge_matrix (mw_transforms w)"
    by (induction rule: list_all2_induct) (auto simp: edge_decode_iff)
  moreover from a(2) have "map im_id ims = map iw_image_id (mw_images w) \<and> map (Some \<circ> im_multiscale) ims = map (resolved (mw_multiscales w)) (mw_images w)"
    by (induction rule: list_all2_induct) auto
  ultimately show ?thesis using Inr a(3-5) by (simp add: within_limits_def)
qed

end
