(* ===== verification/Geometry.thy ===== *)
theory Geometry
  imports ChunkRead
begin

text \<open>
  One declared geometry for every tile of a collection
  (\<^verbatim>\<open>lucida-store/src/collection_geometry.rs\<close>): the levels every tile has, the largest shape and
  the largest chunk on each axis, and the binding of one tile to them.
\<close>

record stored_levels =
  sl_shapes :: "nat list list"
  sl_bindings :: "level_info list"

record declared_levels =
  dl_shapes :: "nat list list"
  dl_chunk_shapes :: "nat list list"
  dl_chunk_byte_layouts :: "byte_layout list"

text \<open>\<^verbatim>\<open>for (d, s) in declared.iter_mut().zip(stored)\<close>\<close>

fun update_zipped :: "('a \<Rightarrow> 'b \<Rightarrow> 'a) \<Rightarrow> 'a list \<Rightarrow> 'b list \<Rightarrow> 'a list" where
  "update_zipped f (d # ds) (s # ss) = f d s # update_zipped f ds ss"
| "update_zipped f ds _ = ds"

definition widen :: "nat list \<Rightarrow> nat list \<Rightarrow> nat list" where
  "widen = update_zipped max"

definition tile_chunks :: "stored_levels \<Rightarrow> nat list list" where
  "tile_chunks tile = map li_chunk_shape (sl_bindings tile)"

text \<open>The loop over the tiles: the first one is copied, every other one widens.\<close>

definition cover_tile :: "stored_levels \<Rightarrow> nat list list \<times> nat list list \<Rightarrow> nat list list \<times> nat list list" where
  "cover_tile tile = (\<lambda>(shapes, chunk_shapes).
     (update_zipped widen (take (length (sl_shapes tile)) shapes) (sl_shapes tile),
      update_zipped widen (take (length (sl_bindings tile)) chunk_shapes) (tile_chunks tile)))"

definition cover_tiles :: "stored_levels list \<Rightarrow> nat list list \<times> nat list list" where
  "cover_tiles tiles =
     (case tiles of [] \<Rightarrow> ([], []) | tile # rest \<Rightarrow> fold cover_tile rest (sl_shapes tile, tile_chunks tile))"

definition covering :: "(string list \<Rightarrow> string) \<Rightarrow> stored_levels list \<Rightarrow> string list \<Rightarrow> nat \<Rightarrow> string list \<Rightarrow> 'e store_error + declared_levels" where
  "covering debug tiles axes dtype_size pinned =
     (case cover_tiles tiles of (shapes, chunk_shapes) \<Rightarrow>
        res_bind (res_collect (\<lambda>(level, chunk_shape).
            res_map_err (in_context (''level '' @ show_nat level)) (compute_chunk_byte_layout debug axes chunk_shape dtype_size pinned))
          (enumerate 0 chunk_shapes)) (\<lambda>layouts.
        Inr \<lparr>dl_shapes = take (length chunk_shapes) shapes, dl_chunk_shapes = chunk_shapes, dl_chunk_byte_layouts = layouts\<rparr>))"

definition bind_level :: "level_info \<Rightarrow> nat list \<Rightarrow> nat list \<Rightarrow> byte_layout \<Rightarrow> level_info" where
  "bind_level stored stored_shape chunk_shape chunk_byte_layout =
     (if li_chunk_shape stored = chunk_shape then stored
      else stored\<lparr>li_regrid := Some \<lparr>rg_chunk_shape = chunk_shape, rg_chunk_byte_layout = chunk_byte_layout, rg_stored_shape = stored_shape\<rparr>\<rparr>)"

definition bind_tile :: "declared_levels \<Rightarrow> stored_levels \<Rightarrow> level_info list" where
  "bind_tile D tile =
     map (\<lambda>((stored, stored_shape), (chunk_shape, layout)). bind_level stored stored_shape chunk_shape layout)
       (zip (zip (sl_bindings tile) (sl_shapes tile)) (zip (dl_chunk_shapes D) (dl_chunk_byte_layouts D)))"

section \<open>Covering\<close>

definition le_list :: "nat list \<Rightarrow> nat list \<Rightarrow> bool" where
  "le_list xs ys \<longleftrightarrow> length xs = length ys \<and> list_all2 (\<le>) xs ys"

lemma le_list_refl [simp]: "le_list xs xs"
  by (simp add: le_list_def list_all2_refl)

lemma le_list_trans: "le_list xs ys \<Longrightarrow> le_list ys zs \<Longrightarrow> le_list xs zs"
  by (auto simp: le_list_def list_all2_conv_all_nth intro: order_trans [of "xs ! i" "ys ! i" for i])

lemma length_update_zipped [simp]: "length (update_zipped f ds ss) = length ds"
  by (induction f ds ss rule: update_zipped.induct) auto

lemma nth_update_zipped:
  "i < length ds \<Longrightarrow> update_zipped f ds ss ! i = (if i < length ss then f (ds ! i) (ss ! i) else ds ! i)"
proof (induction f ds ss arbitrary: i rule: update_zipped.induct)
  case (1 f d ds s ss)
  then show ?case by (cases i) auto
qed auto

lemma widen_covers:
  assumes "length ds = length ss"
  shows "le_list ds (widen ds ss)" "le_list ss (widen ds ss)"
  using assms by (auto simp: le_list_def widen_def list_all2_conv_all_nth nth_update_zipped)

text \<open>All tiles have the rank of the axes list.\<close>

definition ranked :: "nat \<Rightarrow> stored_levels \<Rightarrow> bool" where
  "ranked r tile \<longleftrightarrow> (\<forall>s \<in> set (sl_shapes tile). length s = r) \<and> (\<forall>s \<in> set (tile_chunks tile). length s = r)"

definition covers :: "nat list list \<times> nat list list \<Rightarrow> stored_levels \<Rightarrow> bool" where
  "covers = (\<lambda>(shapes, chunks) tile.
     length shapes \<le> length (sl_shapes tile) \<and> length chunks \<le> length (sl_bindings tile)
     \<and> (\<forall>i < length shapes. le_list (sl_shapes tile ! i) (shapes ! i)) \<and> (\<forall>i < length chunks. le_list (tile_chunks tile ! i) (chunks ! i)))"

definition ranked_state :: "nat \<Rightarrow> nat list list \<times> nat list list \<Rightarrow> bool" where
  "ranked_state r = (\<lambda>(shapes, chunks). (\<forall>s \<in> set shapes. length s = r) \<and> (\<forall>s \<in> set chunks. length s = r))"

lemma update_zipped_covers:
  assumes "\<forall>s \<in> set ds. length s = r" "\<forall>s \<in> set ss. length s = r" "length ds \<le> length ss" "i < length ds"
  shows "le_list (ds ! i) (update_zipped widen ds ss ! i)" "le_list (ss ! i) (update_zipped widen ds ss ! i)"
    "length (update_zipped widen ds ss ! i) = r"
proof -
  have "length (ds ! i) = r" "length (ss ! i) = r" using assms by auto
  with assms widen_covers [of "ds ! i" "ss ! i"] show "le_list (ds ! i) (update_zipped widen ds ss ! i)" "le_list (ss ! i) (update_zipped widen ds ss ! i)"
    "length (update_zipped widen ds ss ! i) = r" by (simp_all add: nth_update_zipped widen_def)
qed

lemma cover_tile_covers:
  assumes "ranked_state r st" "ranked r tile"
  shows "ranked_state r (cover_tile tile st)" "covers (cover_tile tile st) tile" "covers st t \<Longrightarrow> covers (cover_tile tile st) t"
proof -
  obtain shapes chunks where st: "st = (shapes, chunks)" by (cases st)
  let ?ds = "take (length (sl_shapes tile)) shapes" and ?cs = "take (length (sl_bindings tile)) chunks"
  have d: "\<forall>s \<in> set ?ds. length s = r" "\<forall>s \<in> set (sl_shapes tile). length s = r" "length ?ds \<le> length (sl_shapes tile)"
    and c: "\<forall>s \<in> set ?cs. length s = r" "\<forall>s \<in> set (tile_chunks tile). length s = r" "length ?cs \<le> length (tile_chunks tile)"
    using assms by (auto simp: ranked_state_def ranked_def st tile_chunks_def dest: in_set_takeD)
  note D = update_zipped_covers [OF d] and C = update_zipped_covers [OF c]
  show "ranked_state r (cover_tile tile st)"
    using D(3) C(3) unfolding ranked_state_def cover_tile_def st prod.case all_set_conv_all_nth by simp
  show "covers (cover_tile tile st) tile"
    using D(2) C(2) by (auto simp: covers_def cover_tile_def st tile_chunks_def)
  show "covers (cover_tile tile st) t" if "covers st t"
    using that D(1) C(1) unfolding covers_def cover_tile_def st prod.case by (auto intro: le_list_trans)
qed

lemma fold_cover:
  assumes "ranked_state r st" "\<forall>tile \<in> set tiles. ranked r tile"
  shows "ranked_state r (fold cover_tile tiles st)" "\<forall>tile \<in> set tiles. covers (fold cover_tile tiles st) tile"
    "covers st t \<Longrightarrow> covers (fold cover_tile tiles st) t"
proof -
  have "ranked_state r (fold cover_tile tiles st) \<and> (\<forall>tile \<in> set tiles. covers (fold cover_tile tiles st) tile)
      \<and> (\<forall>t. covers st t \<longrightarrow> covers (fold cover_tile tiles st) t)"
    using assms
  proof (induction tiles arbitrary: st)
    case (Cons tile tiles)
    note one = cover_tile_covers [OF Cons.prems(1), of tile]
    from Cons.IH [OF one(1)] Cons.prems(2) one(2,3) show ?case by simp
  qed simp
  then show "ranked_state r (fold cover_tile tiles st)" "\<forall>tile \<in> set tiles. covers (fold cover_tile tiles st) tile"
    "covers st t \<Longrightarrow> covers (fold cover_tile tiles st) t" by blast+
qed

lemma cover_tiles_covers:
  assumes "\<forall>tile \<in> set tiles. ranked r tile" "t \<in> set tiles"
  shows "covers (cover_tiles tiles) t" "ranked_state r (cover_tiles tiles)"
proof -
  obtain first rest where tiles: "tiles = first # rest" using assms(2) by (cases tiles) auto
  have rk: "ranked_state r (sl_shapes first, tile_chunks first)" using assms(1) by (simp add: tiles ranked_def ranked_state_def)
  have "covers (sl_shapes first, tile_chunks first) first" by (simp add: covers_def tile_chunks_def)
  with fold_cover [OF rk] assms show "covers (cover_tiles tiles) t" "ranked_state r (cover_tiles tiles)"
    by (auto simp: cover_tiles_def tiles)
qed

text \<open>What a successful \<^verbatim>\<open>covering\<close> declares.\<close>

lemma covering_fields:
  assumes "covering debug tiles axes dtype_size pinned = (Inr D :: 'e store_error + _)"
  shows "dl_shapes D = take (length (snd (cover_tiles tiles))) (fst (cover_tiles tiles))"
    "dl_chunk_shapes D = snd (cover_tiles tiles)"
    "length (dl_chunk_byte_layouts D) = length (dl_chunk_shapes D)"
    "i < length (dl_chunk_shapes D) \<Longrightarrow>
       compute_chunk_byte_layout debug axes (dl_chunk_shapes D ! i) dtype_size pinned = (Inr (dl_chunk_byte_layouts D ! i) :: 'e store_error + _)"
  using assms
  by (auto simp: covering_def res_bind_Inr_iff res_map_err_Inr_iff res_collect_Inr_iff list_all2_conv_all_nth nth_enumerate_eq
      split: prod.splits)

lemma bind_tile_nth:
  assumes "i < length (bind_tile D tile)"
  shows "bind_tile D tile ! i = bind_level (sl_bindings tile ! i) (sl_shapes tile ! i) (dl_chunk_shapes D ! i) (dl_chunk_byte_layouts D ! i)"
    "i < length (sl_bindings tile)" "i < length (sl_shapes tile)" "i < length (dl_chunk_shapes D)"
  using assms by (auto simp: bind_tile_def)

section \<open>What the server answers for a bound tile\<close>

text \<open>
  C31: the geometry a collection declares covers all of its tiles, and every tile answers with
  it. For tiles of one rank, each declared shape and each declared chunk shape is at least the
  stored one on every axis of every tile; and a request for a chunk of a bound level is answered,
  regridded or not, decoded or filled with zeros, with exactly the bytes of one declared chunk, or
  with an error.
\<close>
theorem declared_chunk_served:
  fixes debug axes dtype_size pinned
  assumes cov: "covering debug tiles axes dtype_size pinned = (Inr D :: 'e store_error + _)"
    and rk: "\<forall>t \<in> set tiles. ranked (length axes) t" and tile: "tile \<in> set tiles"
    and stored: "\<forall>b \<in> set (sl_bindings tile). li_regrid b = None \<and> layout_fits (li_chunk_byte_layout b)
      \<and> compute_chunk_byte_layout debug axes (li_chunk_shape b) dtype_size pinned = (Inr (li_chunk_byte_layout b) :: 'e store_error + _)"
    and img: "map_of images image_id = Some img" "ir_levels img = bind_tile D tile"
    and level: "parse_level_from_chunk_key key = level" "level < length (bind_tile D tile)" "level < length (dl_shapes D)"
    and served: "read_chunk E rd images image_id key cache = Some (cache1, Inr r)"
  shows "le_list (sl_shapes tile ! level) (dl_shapes D ! level)
    \<and> le_list (li_chunk_shape (sl_bindings tile ! level)) (dl_chunk_shapes D ! level)
    \<and> length (into_bytes r) = bl_canonical_byte_size (dl_chunk_byte_layouts D ! level)"
proof -
  note D = covering_fields [OF cov] and B = bind_tile_nth [OF level(2)]
  have "covers (fst (cover_tiles tiles), snd (cover_tiles tiles)) tile" using cover_tiles_covers(1) [OF rk tile] by simp
  with level(3) B have covered: "le_list (sl_shapes tile ! level) (dl_shapes D ! level)"
      "le_list (li_chunk_shape (sl_bindings tile ! level)) (dl_chunk_shapes D ! level)"
    by (auto simp: covers_def D(1,2) tile_chunks_def)
  let ?li = "bind_tile D tile ! level"
  have here: "level_info_of images image_id (parse_level_from_chunk_key key) = Some ?li"
    using img level by (simp add: level_info_of_def index_at_def)
  have st: "li_regrid (sl_bindings tile ! level) = None" "layout_fits (li_chunk_byte_layout (sl_bindings tile ! level))"
      "compute_chunk_byte_layout debug axes (li_chunk_shape (sl_bindings tile ! level)) dtype_size pinned
        = (Inr (li_chunk_byte_layout (sl_bindings tile ! level)) :: 'e store_error + _)"
    using stored B(2) by auto
  then have "layout_fits (li_chunk_byte_layout ?li)" by (simp add: B(1) bind_level_def)
  from served_size [OF served here this] st D(4) [OF B(4)] covered show ?thesis
    by (auto simp: B(1) bind_level_def)
qed

text \<open>Two tiles of one level, one with chunks of two samples and one with chunks of one.\<close>

definition demo_tile :: stored_levels where
  "demo_tile = \<lparr>sl_shapes = [[1, 1, 1, 1, 2]], sl_bindings = [demo_level]\<rparr>"

definition demo_small_tile :: stored_levels where
  "demo_small_tile = \<lparr>sl_shapes = [[1, 1, 1, 1, 1]], sl_bindings = [demo_level\<lparr>li_chunk_shape := [1, 1, 1, 1, 1]\<rparr>]\<rparr>"

definition demo_declared :: declared_levels where
  "demo_declared = \<lparr>dl_shapes = [[1, 1, 1, 1, 2]], dl_chunk_shapes = [[1, 1, 1, 1, 2]], dl_chunk_byte_layouts = [li_chunk_byte_layout demo_level]\<rparr>"

lemma demo_layout:
  "compute_chunk_byte_layout concat ALL_DIMS [1, 1, 1, 1, 2] 1 [] = (Inr (li_chunk_byte_layout demo_level) :: unit store_error + _)"
  by (simp add: compute_chunk_byte_layout_def ALL_DIMS_def lowercase_def ascii_lower_def is_kept_canonical_def
      is_canonical_indexed_def u128_mul_def to_usize_def Let_def axis_dim_def eq_ignore_case_def demo_level_def)

lemma demo_covering: "covering concat [demo_small_tile, demo_tile] ALL_DIMS 1 [] = (Inr demo_declared :: unit store_error + _)"
proof -
  have "cover_tiles [demo_small_tile, demo_tile] = ([[1, 1, 1, 1, 2]], [[1, 1, 1, 1, 2]])"
    by (simp add: cover_tiles_def cover_tile_def demo_small_tile_def demo_tile_def tile_chunks_def widen_def demo_level_def)
  with demo_layout show ?thesis by (simp add: covering_def demo_declared_def)
qed

theorem declared_chunk_served_witness:
  "le_list (sl_shapes demo_tile ! 0) (dl_shapes demo_declared ! 0) \<and> length (into_bytes (Present [7, 8])) = bl_canonical_byte_size (li_chunk_byte_layout demo_level)"
proof -
  have "layout_fits (li_chunk_byte_layout demo_level)"
    by (simp add: layout_fits_def demo_level_def slice_range_def Let_def usize_add_def usize_mul_def)
  then have "\<forall>b \<in> set (sl_bindings demo_tile). li_regrid b = None \<and> layout_fits (li_chunk_byte_layout b)
      \<and> compute_chunk_byte_layout concat ALL_DIMS (li_chunk_shape b) 1 [] = (Inr (li_chunk_byte_layout b) :: unit store_error + _)"
    using demo_layout by (simp add: demo_tile_def demo_level_def)
  moreover have "bind_tile demo_declared demo_tile = [demo_level]"
    by (simp add: bind_tile_def demo_declared_def demo_tile_def bind_level_def demo_level_def)
  ultimately show ?thesis
    using declared_chunk_served [OF demo_covering, of demo_tile demo_images "''image''" _ "wire_key 0 0 0 0 0 0" 0, OF _ _ _ _ _ _ _ _ demo_served]
    by (auto simp: ranked_def demo_small_tile_def demo_tile_def tile_chunks_def demo_level_def ALL_DIMS_def demo_images_def parse_wire_key
        demo_declared_def le_list_def)
qed

end
