(* ===== verification/ChunkPlan.thy ===== *)
theory ChunkPlan
  imports Camera
begin

text \<open>
  Chunk planning (\<^verbatim>\<open>lucida-core/src/chunk.rs\<close>) and the target level
  (\<^verbatim>\<open>lucida-core/src/target_level.rs\<close>): which chunks of a level intersect the visible region, in
  which order they are requested, which border is prefetched, and which level of a pyramid the
  screen calls for. Arithmetic is that of \<^verbatim>\<open>f64\<close>, and \<^verbatim>\<open>u32\<close> sums wrap as in a release build.
\<close>

section \<open>Conversions\<close>

fun ffloor :: "f64 \<Rightarrow> f64" where
  "ffloor (Fin s r) = Fin s (of_int (if s then \<lceil>r\<rceil> else \<lfloor>r\<rfloor>))"
| "ffloor x = x"

fun fceil :: "f64 \<Rightarrow> f64" where
  "fceil (Fin s r) = Fin s (of_int (if s then \<lfloor>r\<rfloor> else \<lceil>r\<rceil>))"
| "fceil x = x"

text \<open>\<^verbatim>\<open>as u32\<close> truncates and saturates; a NaN becomes 0.\<close>

fun f64_as_u32 :: "f64 \<Rightarrow> nat" where
  "f64_as_u32 NaN = 0"
| "f64_as_u32 (Inf s) = (if s then 0 else 2 ^ 32 - 1)"
| "f64_as_u32 (Fin s r) = (if s then 0 else min (2 ^ 32 - 1) (nat \<lfloor>r\<rfloor>))"

definition u64_f64 :: "nat \<Rightarrow> f64" where
  "u64_f64 n = fround False (of_nat n)"

text \<open>
  \<^verbatim>\<open>sort_by\<close> is a stable sort: \<open>le a b\<close> says that the comparison of \<open>a\<close> with \<open>b\<close> is not
  \<^verbatim>\<open>Greater\<close>.
\<close>

fun insert_by :: "('a \<Rightarrow> 'a \<Rightarrow> bool) \<Rightarrow> 'a \<Rightarrow> 'a list \<Rightarrow> 'a list" where
  "insert_by le x [] = [x]"
| "insert_by le x (y # ys) = (if le x y then x # y # ys else y # insert_by le x ys)"

definition sort_by :: "('a \<Rightarrow> 'a \<Rightarrow> bool) \<Rightarrow> 'a list \<Rightarrow> 'a list" where
  "sort_by le xs = foldr (insert_by le) xs []"

section \<open>Chunk planning\<close>

record visible_region =
  vr_xy_bounds :: "f64 \<times> f64 \<times> f64 \<times> f64"
  vr_z_range :: "nat \<times> nat"
  vr_effective_zoom :: f64
  vr_radius_basis_vox :: f64
  vr_sort_center :: "vec3 option"
  vr_frustum_planes :: "(f64 \<times> f64 \<times> f64 \<times> f64) list option"

record chunk_coord =
  cc_level :: nat
  cc_x :: nat
  cc_y :: nat
  cc_z :: nat
  cc_t :: nat
  cc_c :: nat

definition chunk_outside_frustum :: "vec3 \<Rightarrow> vec3 \<Rightarrow> (f64 \<times> f64 \<times> f64 \<times> f64) list \<Rightarrow> bool" where
  "chunk_outside_frustum lo hi planes \<longleftrightarrow>
     (case (lo, hi) of ((min0, min1, min2), (max0, max1, max2)) \<Rightarrow>
        list_ex (\<lambda>(a, b, c, d).
          let px = (if a \<ge> 0 then max0 else min0); py = (if b \<ge> 0 then max1 else min1); pz = (if c \<ge> 0 then max2 else min2)
          in a * px + b * py + c * pz + d < 0) planes)"

definition chunk_world :: "nat \<Rightarrow> nat \<Rightarrow> nat \<Rightarrow> f64" where
  "chunk_world full level chunk = u64_f64 chunk * (u64_f64 full / u64_f64 level)"

definition window_start :: "f64 \<Rightarrow> f64 \<Rightarrow> nat" where
  "window_start lo world = f64_as_u32 (fmax (ffloor (lo / world)) 0)"

definition window_end :: "f64 \<Rightarrow> f64 \<Rightarrow> nat \<Rightarrow> nat" where
  "window_end hi world grid = min (f64_as_u32 (fmax (fceil (hi / world)) 0)) grid"

text \<open>The locals both planners compute first.\<close>

record window =
  w_world :: vec3
  w_grid :: "nat \<times> nat \<times> nat"
  w_cols :: "nat \<times> nat"
  w_rows :: "nat \<times> nat"
  w_zs :: "nat \<times> nat"

definition plan_window :: "visible_region \<Rightarrow> level_geometry \<Rightarrow> level_geometry \<Rightarrow> window" where
  "plan_window region level_geo full_res_geo =
     (case vr_xy_bounds region of (min_x, min_y, max_x, max_y) \<Rightarrow>
      let world_x = chunk_world (at_x (lv_shape full_res_geo)) (at_x (lv_shape level_geo)) (at_x (lv_chunk_shape level_geo));
          world_y = chunk_world (at_y (lv_shape full_res_geo)) (at_y (lv_shape level_geo)) (at_y (lv_chunk_shape level_geo));
          world_z = chunk_world (at_z (lv_shape full_res_geo)) (at_z (lv_shape level_geo)) (at_z (lv_chunk_shape level_geo));
          max_col = as_u32 (at_x (lv_grid_shape level_geo));
          max_row = as_u32 (at_y (lv_grid_shape level_geo));
          max_z = as_u32 (at_z (lv_grid_shape level_geo))
      in \<lparr>w_world = (world_x, world_y, world_z), w_grid = (max_col, max_row, max_z),
          w_cols = (window_start min_x world_x, window_end max_x world_x max_col),
          w_rows = (window_start min_y world_y, window_end max_y world_y max_row),
          w_zs = (f64_as_u32 (ffloor (u32_f64 (fst (vr_z_range region)) / world_z)),
                  window_end (u32_f64 (snd (vr_z_range region))) world_z max_z)\<rparr>)"

definition culled :: "visible_region \<Rightarrow> vec3 \<Rightarrow> nat \<times> nat \<times> nat \<Rightarrow> bool" where
  "culled region world cell =
     (case (world, cell) of ((wx, wy, wz), (z, row, col)) \<Rightarrow>
        (case vr_frustum_planes region of
           None \<Rightarrow> False
         | Some planes \<Rightarrow>
             chunk_outside_frustum (u32_f64 col * wx, u32_f64 row * wy, u32_f64 z * wz)
               (u32_f64 (col + 1) * wx, u32_f64 (row + 1) * wy, u32_f64 (z + 1) * wz) planes))"

text \<open>The three nested loops, outermost \<open>z\<close>.\<close>

definition grid_cells :: "nat list \<Rightarrow> nat list \<Rightarrow> nat list \<Rightarrow> (nat \<times> nat \<times> nat) list" where
  "grid_cells zs rows cols = concat (map (\<lambda>z. concat (map (\<lambda>row. map (\<lambda>col. (z, row, col)) cols) rows)) zs)"

definition coord_of :: "level_geometry \<Rightarrow> nat \<Rightarrow> nat \<Rightarrow> nat \<times> nat \<times> nat \<Rightarrow> chunk_coord" where
  "coord_of level_geo t c = (\<lambda>(z, row, col). \<lparr>cc_level = lv_index level_geo, cc_x = col, cc_y = row, cc_z = z, cc_t = t, cc_c = c\<rparr>)"

definition midpoint :: "nat \<times> nat \<Rightarrow> f64" where
  "midpoint = (\<lambda>(a, b). u32_f64 (as_u32 (a + b)) / flit 2)"

definition plan_center :: "visible_region \<Rightarrow> window \<Rightarrow> vec3" where
  "plan_center region w =
     (case vr_sort_center region of
        Some (cx, cy, cz) \<Rightarrow> (case w_world w of (wx, wy, wz) \<Rightarrow> (cx / wx, cy / wy, cz / wz))
      | None \<Rightarrow> (midpoint (w_cols w), midpoint (w_rows w), midpoint (w_zs w)))"

definition squared_from :: "nat \<Rightarrow> f64 \<Rightarrow> f64" where
  "squared_from i center = (let d = u32_f64 i + flit (1 / 2) - center in d * d)"

definition center_distance :: "vec3 \<Rightarrow> chunk_coord \<Rightarrow> f64" where
  "center_distance center a =
     (case center of (center_col, center_row, center_z) \<Rightarrow>
        squared_from (cc_x a) center_col + squared_from (cc_y a) center_row + squared_from (cc_z a) center_z)"

text \<open>\<^verbatim>\<open>da.partial_cmp(&db).unwrap_or(Equal)\<close> is not \<^verbatim>\<open>Greater\<close>.\<close>

definition nearer :: "vec3 \<Rightarrow> chunk_coord \<Rightarrow> chunk_coord \<Rightarrow> bool" where
  "nearer center a b \<longleftrightarrow> \<not> center_distance center b < center_distance center a"

definition visible_chunks :: "visible_region \<Rightarrow> level_geometry \<Rightarrow> nat \<Rightarrow> nat \<Rightarrow> level_geometry \<Rightarrow> chunk_coord list" where
  "visible_chunks region level_geo t c full_res_geo =
     (let w = plan_window region level_geo full_res_geo;
          cells = grid_cells [fst (w_zs w)..<snd (w_zs w)] [fst (w_rows w)..<snd (w_rows w)] [fst (w_cols w)..<snd (w_cols w)];
          chunks = map (coord_of level_geo t c) (filter (\<lambda>cell. \<not> culled region (w_world w) cell) cells)
      in sort_by (nearer (plan_center region w)) chunks)"

definition expand_end :: "nat \<Rightarrow> nat \<Rightarrow> nat" where
  "expand_end e grid = min (as_u32 (e + 1)) grid"

definition in_visible :: "window \<Rightarrow> nat \<times> nat \<times> nat \<Rightarrow> bool" where
  "in_visible w = (\<lambda>(z, row, col). fst (w_cols w) \<le> col \<and> col < snd (w_cols w) \<and> fst (w_rows w) \<le> row \<and> row < snd (w_rows w))"

definition visible_and_prefetch_chunks :: "visible_region \<Rightarrow> level_geometry \<Rightarrow> nat \<Rightarrow> nat \<Rightarrow> level_geometry \<Rightarrow> chunk_coord list \<times> chunk_coord list" where
  "visible_and_prefetch_chunks region level_geo t c full_res_geo =
     (let w = plan_window region level_geo full_res_geo;
          (max_col, max_row, _) = w_grid w;
          cells = grid_cells [fst (w_zs w)..<snd (w_zs w)]
            [fst (w_rows w) - 1..<expand_end (snd (w_rows w)) max_row] [fst (w_cols w) - 1..<expand_end (snd (w_cols w)) max_col];
          kept = filter (\<lambda>cell. \<not> culled region (w_world w) cell) cells;
          sort_fn = sort_by (nearer (plan_center region w))
      in (sort_fn (map (coord_of level_geo t c) (filter (in_visible w) kept)),
          sort_fn (map (coord_of level_geo t c) (filter (\<lambda>cell. \<not> in_visible w cell) kept))))"

section \<open>The target level\<close>

definition HYSTERESIS_OCTAVES :: f64 where
  "HYSTERESIS_OCTAVES = flit (1 / 4)"

definition rposition :: "('a \<Rightarrow> bool) \<Rightarrow> 'a list \<Rightarrow> nat option" where
  "rposition P xs = (case filter (\<lambda>i. P (xs ! i)) [0..<length xs] of [] \<Rightarrow> None | is \<Rightarrow> Some (last is))"

definition raw_level :: "f64 list \<Rightarrow> f64 \<Rightarrow> nat" where
  "raw_level shape_ratios pixels_per_sample =
     (case rposition (\<lambda>ratio. pixels_per_sample * ratio \<le> 1) shape_ratios of None \<Rightarrow> 0 | Some level \<Rightarrow> as_u32 level)"

text \<open>\<^verbatim>\<open>powf\<close> is the platform's.\<close>

definition target_level :: "(f64 \<Rightarrow> f64 \<Rightarrow> f64) \<Rightarrow> f64 \<Rightarrow> f64 list \<Rightarrow> nat option \<Rightarrow> nat" where
  "target_level powf pixels_per_sample shape_ratios previous =
     (let wanted = raw_level shape_ratios pixels_per_sample
      in case previous of
           None \<Rightarrow> wanted
         | Some previous \<Rightarrow>
             if wanted = previous then previous
             else let band = powf (flit 2) HYSTERESIS_OCTAVES;
                      crossed = (if wanted > previous then raw_level shape_ratios (pixels_per_sample * band) > previous
                                 else raw_level shape_ratios (pixels_per_sample / band) < previous)
                  in if crossed then wanted else previous)"

definition arr5_at :: "'a arr5 \<Rightarrow> nat \<Rightarrow> 'a option" where
  "arr5_at a i = (if i < 5 then Some ([at_t a, at_c a, at_z a, at_y a, at_x a] ! i) else None)"

definition IN_PLANE_AXES :: "nat list" where "IN_PLANE_AXES = [3, 4]"

definition VOLUME_AXES :: "nat list" where "VOLUME_AXES = [2, 3, 4]"

definition axis_ratio :: "nat \<times> nat \<Rightarrow> f64" where
  "axis_ratio = (\<lambda>(here, full). u64_f64 full / fmax (u64_f64 here) 1)"

definition level_ratio :: "nat list list \<Rightarrow> nat list \<Rightarrow> nat \<Rightarrow> f64" where
  "level_ratio resolved level0 index =
     (let level = resolved ! index;
          coarser_than_finer_neighbor = (index = 0 \<or> list_ex (\<lambda>(here, finer). here < finer) (zip level (resolved ! (index - 1))))
      in if \<not> coarser_than_finer_neighbor then Inf False
         else fold (\<lambda>r acc. fmax acc r) (map axis_ratio (zip level level0)) 0)"

definition level_shape_ratios :: "level_geometry list \<Rightarrow> nat list \<Rightarrow> f64 list option" where
  "level_shape_ratios levels axes =
     Option.bind (those (map (\<lambda>level. those (map (arr5_at (lv_shape level)) axes)) levels)) (\<lambda>resolved.
       Some (case resolved of [] \<Rightarrow> [] | level0 # _ \<Rightarrow> map (level_ratio resolved level0) [0..<length resolved]))"

section \<open>Stable sorting\<close>

lemma set_insert_by [simp]: "set (insert_by le x xs) = insert x (set xs)"
  by (induction xs) auto

lemma set_sort_by [simp]: "set (sort_by le xs) = set xs"
  by (induction xs) (auto simp: sort_by_def)

lemma length_insert_by [simp]: "length (insert_by le x xs) = Suc (length xs)"
  by (induction xs) auto

lemma length_sort_by [simp]: "length (sort_by le xs) = length xs"
  by (induction xs) (auto simp: sort_by_def)

lemma distinct_sort_by [simp]: "distinct (sort_by le xs) = distinct xs"
  by (metis card_distinct distinct_card length_sort_by set_sort_by)

definition preorder_on_set :: "'a set \<Rightarrow> ('a \<Rightarrow> 'a \<Rightarrow> bool) \<Rightarrow> bool" where
  "preorder_on_set A le \<longleftrightarrow> (\<forall>a \<in> A. \<forall>b \<in> A. le a b \<or> le b a) \<and> (\<forall>a \<in> A. \<forall>b \<in> A. \<forall>c \<in> A. le a b \<longrightarrow> le b c \<longrightarrow> le a c)"

lemma preorder_subset: "preorder_on_set A le \<Longrightarrow> B \<subseteq> A \<Longrightarrow> preorder_on_set B le"
  unfolding preorder_on_set_def by (meson subsetD)

lemma sorted_insert_by:
  assumes "sorted_wrt le xs" "preorder_on_set (insert x (set xs)) le"
  shows "sorted_wrt le (insert_by le x xs)"
  using assms
proof (induction xs)
  case (Cons y ys)
  show ?case
  proof (cases "le x y")
    case True
    have "le x z" if "z \<in> set ys" for z
    proof -
      from Cons.prems(1) that have "le y z" by simp
      with True that Cons.prems(2) show ?thesis unfolding preorder_on_set_def by (meson insertCI list.set_intros)
    qed
    with True Cons.prems(1) show ?thesis by simp
  next
    case False
    with Cons.prems(2) have "le y x" unfolding preorder_on_set_def by (meson insertCI list.set_intros)
    moreover have "preorder_on_set (insert x (set ys)) le" by (rule preorder_subset [OF Cons.prems(2)]) auto
    ultimately show ?thesis using False Cons.prems(1) Cons.IH by simp
  qed
qed simp

lemma sorted_sort_by:
  assumes "preorder_on_set (set xs) le"
  shows "sorted_wrt le (sort_by le xs)"
  using assms
proof (induction xs)
  case (Cons x xs)
  have "preorder_on_set (set xs) le" by (rule preorder_subset [OF Cons.prems]) auto
  with Cons.IH Cons.prems have "sorted_wrt le (insert_by le x (sort_by le xs))" by (intro sorted_insert_by) simp_all
  then show ?case by (simp add: sort_by_def)
qed (simp add: sort_by_def)

section \<open>The comparison of the planners is a total preorder\<close>

lemma round_mag_nonneg: "0 \<le> r \<Longrightarrow> 0 \<le> round_mag prec emin r"
  by (auto simp: round_mag_def Let_def round_half_even_def)

text \<open>Values that are not below zero, the infinity included.\<close>

fun nonneg :: "f64 \<Rightarrow> bool" where
  "nonneg NaN = False"
| "nonneg (Inf s) = (\<not> s)"
| "nonneg (Fin s r) = (0 \<le> fval (Fin s r))"

lemma nonneg_fround: "nonneg (fround False r)"
  by (simp add: fround_def Let_def round_mag_nonneg)

lemma nonneg_add: "nonneg x \<Longrightarrow> nonneg y \<Longrightarrow> nonneg (x + y)"
proof (cases x; cases y)
  fix s a t b
  assume "nonneg x" "nonneg y" and xy: "x = Fin s a" "y = Fin t b"
  then have "0 \<le> fval x + fval y" by simp
  then show "nonneg (x + y)" using nonneg_fround by (simp add: xy plus_f64_def round_val_def)
qed (auto simp: plus_f64_def)

lemma nonneg_square: "\<not> is_nan x \<Longrightarrow> nonneg (x * x)"
  by (cases x) (auto simp: times_f64_def nonneg_fround)

lemma nan_add [simp]: "is_nan x \<Longrightarrow> x + y = NaN" "is_nan y \<Longrightarrow> x + y = NaN"
  by (cases x; cases y; simp add: plus_f64_def)+

lemma nonneg_not_nan: "nonneg x \<Longrightarrow> \<not> is_nan x"
  by (cases x) auto

lemma finite_minus_nan: "is_finite x \<Longrightarrow> is_nan (x - c) \<longleftrightarrow> is_nan c"
  by (cases x; cases c) (auto simp: minus_f64_def round_val_def fround_def Let_def)

lemma half_mag: "mag64 (1 / 2)"
  by (rule mag64_dyadic [of _ 1 "- 1"]) (simp_all add: power_int_def)

lemma u32_plus_half: "i < 2 ^ 32 \<Longrightarrow> u32_f64 i + flit (1 / 2) = Fin False (of_nat i + 1 / 2)"
proof -
  assume i: "i < 2 ^ 32"
  have "mag64 (of_nat i + 1 / 2)"
  proof (rule mag64_dyadic [of _ "2 * int i + 1" "- 1"])
    have "(of_nat i :: rat) < of_nat (2 ^ 32)" using i by (simp only: of_nat_less_iff)
    then show "of_nat i + 1 / 2 < (2::rat) ^ 1024" by simp
  qed (use i in \<open>simp_all add: power_int_def field_simps\<close>)
  then show ?thesis using half_mag by (simp add: u32_f64_def flit_def plus_f64_def round_val_def fround_mag64)
qed

lemma squared_from_nan: "i < 2 ^ 32 \<Longrightarrow> is_nan (squared_from i c) \<longleftrightarrow> is_nan c"
  and squared_from_nonneg: "i < 2 ^ 32 \<Longrightarrow> \<not> is_nan c \<Longrightarrow> nonneg (squared_from i c)"
proof -
  assume "i < 2 ^ 32"
  then have n: "is_nan (u32_f64 i + flit (1 / 2) - c) \<longleftrightarrow> is_nan c" by (simp add: u32_plus_half finite_minus_nan)
  then show "\<not> is_nan c \<Longrightarrow> nonneg (squared_from i c)" by (simp add: squared_from_def Let_def nonneg_square)
  moreover have "is_nan c \<Longrightarrow> is_nan (squared_from i c)" using n
    by (cases "u32_f64 i + flit (1 / 2) - c") (auto simp: squared_from_def Let_def times_f64_def)
  ultimately show "is_nan (squared_from i c) \<longleftrightarrow> is_nan c" using nonneg_not_nan by blast
qed

definition coord_u32 :: "chunk_coord \<Rightarrow> bool" where
  "coord_u32 a \<longleftrightarrow> cc_x a < 2 ^ 32 \<and> cc_y a < 2 ^ 32 \<and> cc_z a < 2 ^ 32"

text \<open>Either no distance to a center is a NaN or all are, so the comparison is a total preorder.\<close>

lemma center_distance_nan:
  assumes "coord_u32 a"
  shows "is_nan (center_distance (cx, cy, cz) a) \<longleftrightarrow> is_nan cx \<or> is_nan cy \<or> is_nan cz"
proof (cases "is_nan cx \<or> is_nan cy \<or> is_nan cz")
  case True
  with assms show ?thesis
    by (auto simp: center_distance_def coord_u32_def squared_from_nan)
next
  case False
  with assms show ?thesis
    by (auto simp: center_distance_def coord_u32_def intro!: nonneg_not_nan nonneg_add squared_from_nonneg)
qed

lemma nearer_preorder:
  assumes "\<forall>a \<in> A. coord_u32 a"
  shows "preorder_on_set A (nearer center)"
proof -
  obtain cx cy cz where c: "center = (cx, cy, cz)" by (cases center)
  have tot: "nearer center a b \<or> nearer center b a" for a b
    by (cases "center_distance center a"; cases "center_distance center b") (auto simp: nearer_def less_f64_def)
  have "nearer center a b \<Longrightarrow> nearer center b d \<Longrightarrow> nearer center a d" if "a \<in> A" "b \<in> A" "d \<in> A" for a b d
  proof (cases "is_nan cx \<or> is_nan cy \<or> is_nan cz")
    case True
    then have "is_nan (center_distance center a)" using that assms by (simp add: c center_distance_nan)
    then show ?thesis by (cases "center_distance center a"; cases "center_distance center d") (auto simp: nearer_def less_f64_def)
  next
    case False
    then have "\<not> is_nan (center_distance center x)" if "x \<in> {a, b, d}" for x
      using that \<open>a \<in> A\<close> \<open>b \<in> A\<close> \<open>d \<in> A\<close> assms center_distance_nan c by blast
    then show "nearer center a b \<Longrightarrow> nearer center b d \<Longrightarrow> nearer center a d"
      by (auto simp: nearer_def not_flt intro: fle_trans)
  qed
  with tot show ?thesis unfolding preorder_on_set_def by blast
qed

section \<open>The two planners\<close>

lemma set_grid_cells [simp]: "set (grid_cells zs rows cols) = set zs \<times> set rows \<times> set cols"
  by (auto simp: grid_cells_def)

lemma distinct_grid_cells:
  assumes "distinct zs" "distinct rows" "distinct cols"
  shows "distinct (grid_cells zs rows cols)"
proof -
  have rows: "distinct (concat (map (\<lambda>row. map (\<lambda>col. (z, row, col)) cols) rows))" for z
    using assms(2)
  proof (induction rows)
    case (Cons r rs)
    then show ?case using assms(3) by (auto simp: distinct_map inj_on_def)
  qed simp
  show ?thesis unfolding grid_cells_def using assms(1)
  proof (induction zs)
    case (Cons z zs)
    then show ?case using rows by auto
  qed simp
qed

lemma filter_grid_cells:
  "filter (\<lambda>(z, row, col). P col \<and> Q row) (grid_cells zs rows cols) = grid_cells zs (filter Q rows) (filter P cols)"
proof -
  have cols: "filter (\<lambda>(z, row, col). P col \<and> Q row) (map (\<lambda>col. (z, row, col)) cols)
      = (if Q row then map (\<lambda>col. (z, row, col)) (filter P cols) else [])" for z row
    by (induction cols) auto
  have rows: "filter (\<lambda>(z, row, col). P col \<and> Q row) (concat (map (\<lambda>row. map (\<lambda>col. (z, row, col)) cols) rows))
      = concat (map (\<lambda>row. map (\<lambda>col. (z, row, col)) (filter P cols)) (filter Q rows))" for z
    by (induction rows) (auto simp: cols)
  show ?thesis unfolding grid_cells_def by (induction zs) (auto simp: rows)
qed

lemma filter_upt_window:
  assumes "a' \<le> a" "b \<le> b'"
  shows "filter (\<lambda>i. a \<le> i \<and> i < b) [a'..<b'] = [a..<b]"
proof (rule sorted_distinct_set_unique)
  show "sorted (filter (\<lambda>i. a \<le> i \<and> i < b) [a'..<b'])" using sorted_wrt_filter [of "(\<le>)" "[a'..<b']"] by simp
  show "set (filter (\<lambda>i. a \<le> i \<and> i < b) [a'..<b']) = set [a..<b]" using assms by auto
qed simp_all

text \<open>Windows end inside the grid, whose sizes were cast to \<^verbatim>\<open>u32\<close>.\<close>

lemma window_end_le: "window_end hi world grid \<le> grid"
  by (simp add: window_end_def)

lemma plan_window_grid:
  assumes "w = plan_window region level_geo full"
  shows "w_grid w = (as_u32 (at_x (lv_grid_shape level_geo)), as_u32 (at_y (lv_grid_shape level_geo)), as_u32 (at_z (lv_grid_shape level_geo)))"
    "snd (w_cols w) \<le> as_u32 (at_x (lv_grid_shape level_geo))"
    "snd (w_rows w) \<le> as_u32 (at_y (lv_grid_shape level_geo))"
    "snd (w_zs w) \<le> as_u32 (at_z (lv_grid_shape level_geo))"
  using assms by (auto simp: plan_window_def Let_def window_end_le split: prod.splits)

lemma as_u32_lt: "as_u32 n < 2 ^ 32"
  by (simp add: as_u32_def)

lemma as_u32_le: "as_u32 n \<le> n"
  by (simp add: as_u32_def)

lemma below_as_u32: "i < e \<Longrightarrow> e \<le> as_u32 n \<Longrightarrow> i < n \<and> i < 2 ^ 32"
  using as_u32_lt [of n] as_u32_le [of n] by linarith

lemma expand_end_covers:
  assumes "e \<le> grid" "Suc grid < 2 ^ 32"
  shows "e \<le> expand_end e grid" "expand_end e grid \<le> grid" "expand_end e grid \<le> Suc e"
  using assms by (auto simp: expand_end_def as_u32_def)

lemma inj_coord_of: "inj_on (coord_of level_geo t c) A"
  by (auto simp: inj_on_def coord_of_def)

text \<open>The level's grid, as planning sees it.\<close>

definition in_grid :: "level_geometry \<Rightarrow> chunk_coord \<Rightarrow> bool" where
  "in_grid level_geo a \<longleftrightarrow> cc_x a < at_x (lv_grid_shape level_geo) \<and> cc_y a < at_y (lv_grid_shape level_geo) \<and> cc_z a < at_z (lv_grid_shape level_geo)"

definition grid_fits :: "level_geometry \<Rightarrow> bool" where
  "grid_fits level_geo \<longleftrightarrow> at_x (lv_grid_shape level_geo) < 2 ^ 32 - 1 \<and> at_y (lv_grid_shape level_geo) < 2 ^ 32 - 1 \<and> at_z (lv_grid_shape level_geo) < 2 ^ 32 - 1"

text \<open>A cell within one step of the window's columns and rows.\<close>

definition near_window :: "window \<Rightarrow> chunk_coord \<Rightarrow> bool" where
  "near_window w a \<longleftrightarrow> fst (w_cols w) \<le> cc_x a + 1 \<and> cc_x a \<le> snd (w_cols w) \<and> fst (w_rows w) \<le> cc_y a + 1 \<and> cc_y a \<le> snd (w_rows w)
     \<and> fst (w_zs w) \<le> cc_z a \<and> cc_z a < snd (w_zs w)"

text \<open>The frustum's verdict on a chunk that is planned.\<close>

definition seen :: "visible_region \<Rightarrow> window \<Rightarrow> chunk_coord \<Rightarrow> bool" where
  "seen region w a \<longleftrightarrow> \<not> culled region (w_world w) (cc_z a, cc_y a, cc_x a)"

definition in_window :: "window \<Rightarrow> chunk_coord \<Rightarrow> bool" where
  "in_window w a \<longleftrightarrow> fst (w_cols w) \<le> cc_x a \<and> cc_x a < snd (w_cols w) \<and> fst (w_rows w) \<le> cc_y a \<and> cc_y a < snd (w_rows w)
     \<and> fst (w_zs w) \<le> cc_z a \<and> cc_z a < snd (w_zs w)"

lemma visible_chunks_mem:
  fixes region level_geo full
  defines "w \<equiv> plan_window region level_geo full"
  shows "a \<in> set (visible_chunks region level_geo t c full) \<longleftrightarrow>
    cc_level a = lv_index level_geo \<and> cc_t a = t \<and> cc_c a = c \<and> in_window w a \<and> seen region w a"
proof -
  have "a \<in> set (visible_chunks region level_geo t c full) \<longleftrightarrow>
      (\<exists>z row col. a = coord_of level_geo t c (z, row, col) \<and> in_window w a \<and> seen region w a)"
    by (auto simp: visible_chunks_def Let_def w_def [symmetric] coord_of_def in_window_def seen_def image_iff)
  also have "\<dots> \<longleftrightarrow> cc_level a = lv_index level_geo \<and> cc_t a = t \<and> cc_c a = c \<and> in_window w a \<and> seen region w a"
    by (cases a) (auto simp: coord_of_def)
  finally show ?thesis .
qed

lemma visible_chunks_distinct: "distinct (visible_chunks region level_geo t c full)"
  by (simp add: visible_chunks_def Let_def distinct_map inj_coord_of distinct_grid_cells)

lemma in_window_grid:
  assumes "in_window (plan_window region level_geo full) a"
  shows "in_grid level_geo a" "coord_u32 a"
  using assms plan_window_grid(2-4) [OF refl, of region level_geo full]
  unfolding in_window_def in_grid_def coord_u32_def by (meson below_as_u32)+

lemma visible_chunks_sorted:
  "sorted_wrt (nearer (plan_center region (plan_window region level_geo full))) (visible_chunks region level_geo t c full)"
proof -
  let ?w = "plan_window region level_geo full"
  have "\<forall>a \<in> set (visible_chunks region level_geo t c full). coord_u32 a"
    using in_window_grid(2) by (auto simp: visible_chunks_mem)
  then show ?thesis by (auto simp: visible_chunks_def Let_def intro!: sorted_sort_by nearer_preorder)
qed

lemma prefetch_needed:
  assumes "grid_fits level_geo"
  shows "fst (visible_and_prefetch_chunks region level_geo t c full) = visible_chunks region level_geo t c full"
proof -
  define w where "w = plan_window region level_geo full"
  note g = plan_window_grid [OF w_def]
  let ?zs = "[fst (w_zs w)..<snd (w_zs w)]"
  let ?rows = "[fst (w_rows w) - 1..<expand_end (snd (w_rows w)) (as_u32 (at_y (lv_grid_shape level_geo)))]"
  let ?cols = "[fst (w_cols w) - 1..<expand_end (snd (w_cols w)) (as_u32 (at_x (lv_grid_shape level_geo)))]"
  have small: "Suc (as_u32 (at_y (lv_grid_shape level_geo))) < 2 ^ 32" "Suc (as_u32 (at_x (lv_grid_shape level_geo))) < 2 ^ 32"
    using assms as_u32_le [of "at_y (lv_grid_shape level_geo)"] as_u32_le [of "at_x (lv_grid_shape level_geo)"] by (auto simp: grid_fits_def)
  have inv: "in_visible w = (\<lambda>(z, row, col). (fst (w_cols w) \<le> col \<and> col < snd (w_cols w)) \<and> (fst (w_rows w) \<le> row \<and> row < snd (w_rows w)))"
    by (auto simp: in_visible_def fun_eq_iff)
  have "filter (in_visible w) (grid_cells ?zs ?rows ?cols) = grid_cells ?zs [fst (w_rows w)..<snd (w_rows w)] [fst (w_cols w)..<snd (w_cols w)]"
    unfolding inv filter_grid_cells
    by (simp add: filter_upt_window expand_end_covers(1) [OF g(2) small(2)] expand_end_covers(1) [OF g(3) small(1)])
  then have "filter (in_visible w) (filter (\<lambda>cell. \<not> culled region (w_world w) cell) (grid_cells ?zs ?rows ?cols))
      = filter (\<lambda>cell. \<not> culled region (w_world w) cell) (grid_cells ?zs [fst (w_rows w)..<snd (w_rows w)] [fst (w_cols w)..<snd (w_cols w)])"
    by (simp add: filter_filter conj_commute flip: filter_filter [of "\<lambda>cell. \<not> culled region (w_world w) cell" "in_visible w"])
  then show ?thesis
    by (simp add: visible_and_prefetch_chunks_def visible_chunks_def Let_def g(1) flip: w_def)
qed

lemma prefetch_mem:
  fixes region level_geo full
  assumes "grid_fits level_geo"
  defines "w \<equiv> plan_window region level_geo full"
  shows "a \<in> set (snd (visible_and_prefetch_chunks region level_geo t c full)) \<longleftrightarrow>
    cc_level a = lv_index level_geo \<and> cc_t a = t \<and> cc_c a = c \<and> in_grid level_geo a
    \<and> near_window w a \<and> \<not> in_window w a \<and> seen region w a"
proof -
  note g = plan_window_grid [OF w_def [THEN meta_eq_to_obj_eq]]
  have wide: "x \<in> {s - 1..<expand_end e (as_u32 n)} \<longleftrightarrow> s \<le> x + 1 \<and> x \<le> e \<and> x < n" if "e \<le> as_u32 n" "n < 2 ^ 32 - 1" for x s e n
  proof -
    have "as_u32 n = n" using that(2) by (simp add: as_u32_def)
    moreover from that this have "as_u32 (e + 1) = e + 1" by (simp add: as_u32_def)
    ultimately show ?thesis by (auto simp: expand_end_def)
  qed
  have fits: "at_x (lv_grid_shape level_geo) < 2 ^ 32 - 1" "at_y (lv_grid_shape level_geo) < 2 ^ 32 - 1"
    using assms(1) by (simp_all add: grid_fits_def)
  have z: "cc_z a < at_z (lv_grid_shape level_geo)" if "cc_z a < snd (w_zs w)"
    using below_as_u32 [OF that g(4)] by simp
  have cell: "b \<in> set (snd (visible_and_prefetch_chunks region level_geo t c full)) \<longleftrightarrow>
      (\<exists>z row col. b = coord_of level_geo t c (z, row, col)
        \<and> z \<in> {fst (w_zs w)..<snd (w_zs w)}
        \<and> row \<in> {fst (w_rows w) - 1..<expand_end (snd (w_rows w)) (as_u32 (at_y (lv_grid_shape level_geo)))}
        \<and> col \<in> {fst (w_cols w) - 1..<expand_end (snd (w_cols w)) (as_u32 (at_x (lv_grid_shape level_geo)))}
        \<and> \<not> culled region (w_world w) (z, row, col) \<and> \<not> in_visible w (z, row, col))" for b
    unfolding visible_and_prefetch_chunks_def Let_def w_def [symmetric] g(1) prod.case
    by (simp add: image_iff Bex_def) blast
  show ?thesis
    unfolding cell wide [OF g(3) fits(2)] wide [OF g(2) fits(1)]
    using z by (cases a) (auto simp: coord_of_def in_grid_def near_window_def in_window_def seen_def in_visible_def)
qed

section \<open>Rounding against a coarse grid of reals\<close>

definition SLACK :: rat where
  "SLACK = 1 / 2 ^ 20"

text \<open>A quotient below \<open>2 ^ 33\<close> is rounded to a unit that divides \<open>SLACK\<close>.\<close>

lemma round_unit:
  assumes "0 < q" "q < 2 ^ 33"
  obtains u :: rat and N where "0 < u" "round_mag 53 (- 1074) q = of_int (round_half_even (q / u)) * u" "SLACK = of_int N * u"
proof -
  let ?e = "max (ilog2 q - 52) (- 1074)"
  have "(2::rat) powi ilog2 q < 2 powi 33" using ilog2_le [OF assms(1)] assms(2) by (simp add: power_int_def)
  then have "ilog2 q < 33" by (metis not_less one_le_numeral power_int_increasing)
  then have e: "?e \<le> - 20" by simp
  have "SLACK = 2 powi (- 20)" by (simp add: SLACK_def power_int_def field_simps)
  also have "\<dots> = 2 powi (- 20 - ?e) * 2 powi ?e" by (simp flip: power_int_add)
  also have "(2::rat) powi (- 20 - ?e) = of_int (2 ^ nat (- 20 - ?e))" using e by (simp add: power_int_def)
  finally have "SLACK = of_int (2 ^ nat (- 20 - ?e)) * 2 powi ?e" .
  then show ?thesis using assms(1) by (intro that [of "2 powi ?e" "2 ^ nat (- 20 - ?e)"]) (auto simp: round_mag_def Let_def)
qed

lemma round_mag_le_grid:
  assumes "0 \<le> q" "q \<le> of_int m * SLACK" "of_int m * SLACK < 2 ^ 33"
  shows "round_mag 53 (- 1074) q \<le> of_int m * SLACK"
proof (cases "q = 0")
  case False
  with assms have q: "0 < q" "q < 2 ^ 33" by auto
  obtain u :: rat and N where u: "0 < u" "round_mag 53 (- 1074) q = of_int (round_half_even (q / u)) * u" "SLACK = of_int N * u"
    using round_unit [OF q] by metis
  have "q / u \<le> of_int (m * N)" using assms(2) u(1,3) by (simp add: pos_divide_le_eq mult.assoc)
  then have "of_int (round_half_even (q / u)) \<le> (of_int (m * N) :: rat)" using round_half_even_le by (simp only: of_int_le_iff)
  then have "of_int (round_half_even (q / u)) * u \<le> of_int (m * N) * u" using u(1) by (intro mult_right_mono) auto
  then show ?thesis by (simp add: u(2,3) mult.assoc)
qed (use assms in \<open>simp add: round_mag_def\<close>)

lemma round_mag_ge_grid:
  assumes "0 < q" "of_int m * SLACK \<le> q" "q < 2 ^ 33"
  shows "of_int m * SLACK \<le> round_mag 53 (- 1074) q"
proof -
  obtain u :: rat and N where u: "0 < u" "round_mag 53 (- 1074) q = of_int (round_half_even (q / u)) * u" "SLACK = of_int N * u"
    using round_unit [OF assms(1,3)] by metis
  have "of_int (m * N) \<le> q / u" using assms(2) u(1,3) by (simp add: pos_le_divide_eq mult.assoc)
  then have "of_int (m * N) \<le> (of_int (round_half_even (q / u)) :: rat)" using round_half_even_ge by (simp only: of_int_le_iff)
  then have "of_int (m * N) * u \<le> of_int (round_half_even (q / u)) * u" using u(1) by (intro mult_right_mono) auto
  then show ?thesis by (simp add: u(2,3) mult.assoc)
qed

section \<open>Every chunk in view is requested\<close>

lemma quotient_start:
  assumes "0 \<le> r" "r \<le> of_nat k + 1 - SLACK" "k < 2 ^ 32"
  shows "\<exists>q. fround False r = Fin False q \<and> 0 \<le> q \<and> nat \<lfloor>q\<rfloor> \<le> k"
proof -
  have v: "of_int ((int k + 1) * 2 ^ 20 - 1) * SLACK = of_nat k + 1 - SLACK" by (simp add: SLACK_def field_simps)
  have "(of_nat k :: rat) < of_nat (2 ^ 32)" using assms(3) by (simp only: of_nat_less_iff)
  then have k: "of_nat k + 1 - SLACK < (2::rat) ^ 33" by (simp add: SLACK_def)
  have q: "round_mag 53 (- 1074) r \<le> of_nat k + 1 - SLACK"
    using round_mag_le_grid [of r "(int k + 1) * 2 ^ 20 - 1", unfolded v, OF assms(1,2) k] .
  moreover have "0 < SLACK" by (simp add: SLACK_def)
  ultimately have "round_mag 53 (- 1074) r < of_nat k + 1" by linarith
  then have "round_mag 53 (- 1074) r < of_int (int k + 1)" by simp
  then have "\<lfloor>round_mag 53 (- 1074) r\<rfloor> < int k + 1" by (simp only: floor_less_iff)
  moreover have "\<not> 2 ^ 1024 \<le> round_mag 53 (- 1074) r"
  proof -
    have "(2::rat) ^ 33 \<le> 2 ^ 1024" by (rule power_increasing) auto
    with q k show ?thesis by linarith
  qed
  ultimately show ?thesis using assms(1) round_mag_nonneg [of r 53 "- 1074"] unfolding fround_def Let_def by (intro exI [of _ "round_mag 53 (- 1074) r"]) auto
qed

lemma quotient_end:
  assumes "of_nat k + SLACK \<le> r" "k < 2 ^ 32 - 1"
  shows "k < f64_as_u32 (fmax (fceil (fround False r)) 0)"
proof -
  have s: "0 < SLACK" by (simp add: SLACK_def)
  then have r: "0 < r" using assms(1) by (meson add_nonneg_pos le_less_trans not_less of_nat_0_le_iff)
  have v: "of_int (int k * 2 ^ 20 + 1) * SLACK = of_nat k + SLACK" by (simp add: SLACK_def field_simps)
  let ?q = "round_mag 53 (- 1074) r"
  have "of_nat k < ?q"
  proof (cases "r < 2 ^ 33")
    case True
    have "of_nat k + SLACK \<le> ?q" using round_mag_ge_grid [of r "int k * 2 ^ 20 + 1", unfolded v, OF r assms(1) True] .
    with s show ?thesis by linarith
  next
    case False
    have "(2::rat) powi (- 1074) \<le> 1" by (simp add: power_int_def power_le_one)
    moreover have "1 \<le> r" using False by simp
    ultimately have "(2::rat) powi (- 1074) \<le> r" by (rule order_trans)
    then have "r / 2 \<le> ?q" by (rule round_mag_bounds)
    moreover have "(of_nat k :: rat) < of_nat (2 ^ 32)" using assms(2) by (intro of_nat_less_iff [THEN iffD2]) linarith
    ultimately show ?thesis using False by simp
  qed
  then have "int k < \<lceil>?q\<rceil>" by (simp add: less_ceiling_iff)
  then have "k < nat \<lceil>?q\<rceil>" by linarith
  with assms(2) r show ?thesis
    unfolding fround_def Let_def by (auto simp: fmax_def zero_f64_def less_f64_def)
qed

lemma quotient_sign: "mag64 a \<Longrightarrow> 0 < b \<Longrightarrow> Fin s a / Fin False b = fround s (a / b)"
  by (simp add: divide_f64_def)

lemma window_start_le:
  assumes "is_finite lo" "is_f64 lo" "world = Fin False b" "0 < b" "fval lo \<le> (of_nat k + 1 - SLACK) * b" "k < 2 ^ 32"
  shows "window_start lo world \<le> k"
proof -
  obtain s a where lo: "lo = Fin s a" using assms(1) by (auto simp: finite_cases)
  with assms(2) have a: "mag64 a" "0 \<le> a" by (simp_all add: mag64_def)
  show ?thesis
  proof (cases s)
    case True
    then show ?thesis
      by (auto simp: window_start_def lo assms(3) quotient_sign [OF a(1) assms(4)] fround_def Let_def fmax_def zero_f64_def less_f64_def)
  next
    case False
    with assms(4,5) have "a / b \<le> of_nat k + 1 - SLACK" by (simp add: lo pos_divide_le_eq)
    from quotient_start [OF _ this assms(6)] a(2) assms(4) obtain q where
      "fround False (a / b) = Fin False q" "0 \<le> q" "nat \<lfloor>q\<rfloor> \<le> k" by auto
    with False show ?thesis
      by (simp add: window_start_def lo assms(3) quotient_sign [OF a(1) assms(4)] fmax_def zero_f64_def less_f64_def)
  qed
qed

lemma window_end_gt:
  assumes "is_finite hi" "is_f64 hi" "world = Fin False b" "0 < b" "(of_nat k + SLACK) * b \<le> fval hi" "k < grid" "grid < 2 ^ 32"
  shows "k < window_end hi world grid"
proof -
  obtain s a where hi: "hi = Fin s a" using assms(1) by (auto simp: finite_cases)
  with assms(2) have a: "mag64 a" "0 \<le> a" by (simp_all add: mag64_def)
  have "0 < (of_nat k + SLACK) * b" using assms(4) by (intro mult_pos_pos add_nonneg_pos) (auto simp: SLACK_def)
  with assms(5) a(2) have "\<not> s" by (auto simp: hi)
  with assms(4,5) have "of_nat k + SLACK \<le> a / b" by (simp add: hi pos_le_divide_eq)
  moreover have "k < 2 ^ 32 - 1" using assms(6,7) by linarith
  ultimately show ?thesis using quotient_end \<open>\<not> s\<close> assms(6)
    by (simp add: window_end_def hi assms(3) quotient_sign [OF a(1) assms(4)])
qed

definition axis_sized :: "nat \<Rightarrow> bool" where
  "axis_sized n \<longleftrightarrow> 0 < n \<and> n < 2 ^ 53"

lemma axis_rat:
  assumes "axis_sized n"
  shows "u64_f64 n = Fin False (of_nat n)" "1 \<le> (of_nat n :: rat)" "(of_nat n :: rat) < 2 ^ 53"
proof -
  have n: "0 < n" "n < 2 ^ 53" using assms by (simp_all add: axis_sized_def)
  show "u64_f64 n = Fin False (of_nat n)" using mag64_int [OF n(2)] by (simp add: u64_f64_def fround_mag64)
  show "1 \<le> (of_nat n :: rat)" using n(1) by simp
  show "(of_nat n :: rat) < 2 ^ 53" using of_nat_less_iff [of n "2 ^ 53", where ?'a = rat] n(2) by simp
qed

text \<open>A rounded value between \<open>2 ^ -60\<close> and \<open>2 ^ 120\<close> is off by at most one part in \<open>2 ^ 53\<close>.\<close>

lemma fround_near:
  assumes "1 / 2 ^ 60 \<le> r" "r \<le> 2 ^ 120"
  obtains q where "fround False r = Fin False q" "r * (1 - 1 / 2 ^ 53) \<le> q" "q \<le> r * (1 + 1 / 2 ^ 53)"
proof -
  have "(2::rat) powi (- 1022) \<le> 2 powi (- 60)" by (rule power_int_increasing) auto
  then have "(2::rat) powi (- 1022) \<le> 1 / 2 ^ 60" by (simp add: power_int_def field_simps)
  then have lo: "(2::rat) powi (- 1022) \<le> r" using assms(1) by (rule order_trans)
  have "(2::rat) ^ 120 < 2 ^ 1023" by (rule power_strict_increasing) auto
  with assms(2) have hi: "r < 2 ^ 1023" by (rule le_less_trans)
  obtain q where "fround False r = Fin False q" "\<bar>q - r\<bar> \<le> r / 2 ^ 53" by (rule fround_tight [OF lo hi])
  moreover from this(2) have "r - r / 2 ^ 53 \<le> q" "q \<le> r + r / 2 ^ 53" by linarith+
  then have "r * (1 - 1 / 2 ^ 53) \<le> q" "q \<le> r * (1 + 1 / 2 ^ 53)" by (simp_all only: right_diff_distrib distrib_left mult_1_right times_divide_eq_right)
  ultimately show ?thesis using that by blast
qed

text \<open>The extent of a chunk in full-resolution samples, exactly.\<close>

definition chunk_extent :: "nat \<Rightarrow> nat \<Rightarrow> nat \<Rightarrow> rat" where
  "chunk_extent full level chunk = of_nat chunk * of_nat full / of_nat level"

lemma chunk_world_near:
  assumes "axis_sized full" "axis_sized level" "axis_sized chunk"
  obtains b where "chunk_world full level chunk = Fin False b" "0 < b"
    "chunk_extent full level chunk * (1 - 1 / 2 ^ 53)\<^sup>2 \<le> b" "b \<le> chunk_extent full level chunk * (1 + 1 / 2 ^ 53)\<^sup>2"
proof -
  note F = axis_rat [OF assms(1)] and L = axis_rat [OF assms(2)] and C = axis_rat [OF assms(3)]
  let ?r = "of_nat full / of_nat level :: rat" and ?d = "1 - 1 / 2 ^ 53 :: rat" and ?u = "1 + 1 / 2 ^ 53 :: rat"
  have lo: "1 / 2 ^ 53 \<le> ?r" using F L by (intro frac_le) auto
  have hi: "?r \<le> 2 ^ 53" using F L frac_le [of "of_nat full" "of_nat full" 1 "of_nat level :: rat"] by simp
  obtain q where q: "fround False ?r = Fin False q" "?r * ?d \<le> q" "q \<le> ?r * ?u"
  proof (rule fround_near)
    show "1 / 2 ^ 60 \<le> ?r" by (rule order_trans [OF _ lo]) simp
    show "?r \<le> 2 ^ 120" by (rule order_trans [OF hi]) simp
  qed
  have qlo: "1 / 2 ^ 54 \<le> q"
  proof -
    have "1 / 2 ^ 53 * ?d \<le> ?r * ?d" using lo by (rule mult_right_mono) simp
    with q(2) show ?thesis by simp
  qed
  have qhi: "q \<le> 2 ^ 54"
  proof -
    have "?r * ?u \<le> 2 ^ 53 * ?u" using hi by (rule mult_right_mono) simp
    with q(3) show ?thesis by simp
  qed
  let ?p = "of_nat chunk * q"
  have plo: "1 / 2 ^ 54 \<le> ?p" using mult_mono [OF C(2) qlo] by simp
  have phi: "?p \<le> 2 ^ 53 * 2 ^ 54" using C qhi qlo by (intro mult_mono) auto
  obtain b where b: "fround False ?p = Fin False b" "?p * ?d \<le> b" "b \<le> ?p * ?u"
  proof (rule fround_near)
    show "1 / 2 ^ 60 \<le> ?p" by (rule order_trans [OF _ plo]) simp
    show "?p \<le> 2 ^ 120" by (rule order_trans [OF phi]) simp
  qed
  have "0 < ?p" by (rule less_le_trans [OF _ plo]) simp
  then have "0 < ?p * ?d" by (rule mult_pos_pos) simp
  then have pos: "0 < b" using b(2) by (rule less_le_trans)
  have "of_nat chunk * (?r * ?d) \<le> ?p" "?p \<le> of_nat chunk * (?r * ?u)" using q(2,3) C(2) by (intro mult_left_mono; simp)+
  then have "of_nat chunk * (?r * ?d) * ?d \<le> ?p * ?d" "?p * ?u \<le> of_nat chunk * (?r * ?u) * ?u" by (intro mult_right_mono; simp)+
  with b(2,3) have "chunk_extent full level chunk * ?d\<^sup>2 \<le> b" "b \<le> chunk_extent full level chunk * ?u\<^sup>2"
    by (simp_all add: chunk_extent_def power2_eq_square mult.assoc)
  moreover have "chunk_world full level chunk = Fin False b"
    using L(2) b(1) q(1) by (simp add: chunk_world_def F(1) L(1) C(1) divide_f64_def times_f64_def)
  ultimately show ?thesis using pos that by blast
qed

lemma z_start_le:
  assumes "start < 2 ^ 32" "world = Fin False b" "0 < b" "of_nat start \<le> (of_nat k + 1 - SLACK) * b" "k < 2 ^ 32"
  shows "f64_as_u32 (ffloor (u32_f64 start / world)) \<le> k"
proof -
  have "of_nat start / b \<le> of_nat k + 1 - SLACK" using assms(3,4) by (simp add: pos_divide_le_eq)
  from quotient_start [OF _ this assms(5)] assms(3) obtain q where
    "fround False (of_nat start / b) = Fin False q" "0 \<le> q" "nat \<lfloor>q\<rfloor> \<le> k" by auto
  then show ?thesis using assms(3) by (simp add: assms(2) u32_f64_def divide_f64_def)
qed

definition geometry_sized :: "level_geometry \<Rightarrow> bool" where
  "geometry_sized g \<longleftrightarrow> list_all axis_sized [at_x (lv_shape g), at_y (lv_shape g), at_z (lv_shape g), at_x (lv_chunk_shape g), at_y (lv_chunk_shape g), at_z (lv_chunk_shape g)]"

text \<open>
  The chunk at index \<open>k\<close> of an axis overlaps the interval by at least two \<open>SLACK\<close> of its extent.
\<close>

definition overlaps :: "f64 \<Rightarrow> f64 \<Rightarrow> rat \<Rightarrow> nat \<Rightarrow> bool" where
  "overlaps lo hi extent k \<longleftrightarrow> fval lo \<le> (of_nat k + 1 - 2 * SLACK) * extent \<and> (of_nat k + 2 * SLACK) * extent \<le> fval hi"

text \<open>One \<open>SLACK\<close> makes up for the rounding of the extent, for every index of a \<^verbatim>\<open>u32\<close> grid.\<close>

lemma overlaps_world:
  assumes "overlaps lo hi e k" "0 < e" "e * (1 - 1 / 2 ^ 53)\<^sup>2 \<le> b" "b \<le> e * (1 + 1 / 2 ^ 53)\<^sup>2" "k < 2 ^ 32 - 1"
  shows "fval lo \<le> (of_nat k + 1 - SLACK) * b" "(of_nat k + SLACK) * b \<le> fval hi"
proof -
  have "k \<le> 2 ^ 32 - 2" using assms(5) by simp
  then have k: "(of_nat k :: rat) \<le> 2 ^ 32 - 2" using of_nat_le_iff [of k "2 ^ 32 - 2", where ?'a = rat] by simp
  have s: "0 < SLACK" "SLACK < 1" by (simp_all add: SLACK_def)
  let ?d = "(1 - 1 / 2 ^ 53)\<^sup>2 :: rat" and ?u = "(1 + 1 / 2 ^ 53)\<^sup>2 :: rat"
  have "of_nat k + 1 - 2 * SLACK \<le> (of_nat k + 1 - SLACK) * ?d"
    using k by (simp add: SLACK_def power2_eq_square field_simps)
  then have "(of_nat k + 1 - 2 * SLACK) * e \<le> (of_nat k + 1 - SLACK) * ?d * e" using assms(2) by (intro mult_right_mono) auto
  also have "\<dots> = (of_nat k + 1 - SLACK) * (e * ?d)" by simp
  also have "\<dots> \<le> (of_nat k + 1 - SLACK) * b" using assms(3) s by (intro mult_left_mono) auto
  finally show "fval lo \<le> (of_nat k + 1 - SLACK) * b" using assms(1) by (simp add: overlaps_def)
  have "(of_nat k + SLACK) * b \<le> (of_nat k + SLACK) * (e * ?u)" using assms(4) s by (intro mult_left_mono) auto
  also have "\<dots> = (of_nat k + SLACK) * ?u * e" by simp
  also have "\<dots> \<le> (of_nat k + 2 * SLACK) * e"
    using assms(2) k by (intro mult_right_mono) (simp_all add: SLACK_def power2_eq_square field_simps)
  finally show "(of_nat k + SLACK) * b \<le> fval hi" using assms(1) by (simp add: overlaps_def)
qed

lemma axis_world:
  assumes "axis_sized full" "axis_sized level" "axis_sized chunk" "overlaps lo hi (chunk_extent full level chunk) k" "k < grid" "grid < 2 ^ 32"
  obtains b where "chunk_world full level chunk = Fin False b" "0 < b" "fval lo \<le> (of_nat k + 1 - SLACK) * b" "(of_nat k + SLACK) * b \<le> fval hi"
proof -
  obtain b where b: "chunk_world full level chunk = Fin False b" "0 < b"
    "chunk_extent full level chunk * (1 - 1 / 2 ^ 53)\<^sup>2 \<le> b" "b \<le> chunk_extent full level chunk * (1 + 1 / 2 ^ 53)\<^sup>2"
    using assms(1-3) by (rule chunk_world_near)
  have "0 < chunk_extent full level chunk" using assms(1-3) by (simp add: chunk_extent_def axis_sized_def)
  moreover have "k < 2 ^ 32 - 1" using assms(5,6) by linarith
  ultimately show ?thesis using that [OF b(1,2)] overlaps_world [OF assms(4) _ b(3,4)] by blast
qed

text \<open>
  C18: no chunk in view is left out by rounding. For levels with axes of 1 to \<open>2 ^ 53\<close> samples and a
  grid that fits a \<^verbatim>\<open>u32\<close>, and any region with finite bounds, take a chunk of the grid at its exact place:
  chunk \<open>k\<close> of an axis spans \<open>k\<close> to \<open>k + 1\<close> times the chunk size times full over level size. If it
  overlaps the region by two millionths (\<open>2 ^ -19\<close>) of its extent on each axis, and the frustum test does not discard it, it is
  among the requested chunks, whatever the rounding of the divisions and products in between.
\<close>
theorem visible_chunk_requested:
  fixes region level_geo full
  assumes sized: "geometry_sized level_geo" "geometry_sized full" "grid_fits level_geo"
    and bounds: "vr_xy_bounds region = (min_x, min_y, max_x, max_y)" "list_all is_finite [min_x, min_y, max_x, max_y]" "list_all is_f64 [min_x, min_y, max_x, max_y]"
    and zs: "vr_z_range region = (z0, z1)" "z0 < 2 ^ 32" "z1 < 2 ^ 32"
    and chunk: "cc_level a = lv_index level_geo" "cc_t a = t" "cc_c a = c" "in_grid level_geo a"
    and over: "overlaps min_x max_x (chunk_extent (at_x (lv_shape full)) (at_x (lv_shape level_geo)) (at_x (lv_chunk_shape level_geo))) (cc_x a)"
      "overlaps min_y max_y (chunk_extent (at_y (lv_shape full)) (at_y (lv_shape level_geo)) (at_y (lv_chunk_shape level_geo))) (cc_y a)"
      "overlaps (u32_f64 z0) (u32_f64 z1) (chunk_extent (at_z (lv_shape full)) (at_z (lv_shape level_geo)) (at_z (lv_chunk_shape level_geo))) (cc_z a)"
    and kept: "\<not> culled region (w_world (plan_window region level_geo full)) (cc_z a, cc_y a, cc_x a)"
  shows "a \<in> set (visible_chunks region level_geo t c full)"
proof -
  have g: "as_u32 (at_x (lv_grid_shape level_geo)) = at_x (lv_grid_shape level_geo)" "as_u32 (at_y (lv_grid_shape level_geo)) = at_y (lv_grid_shape level_geo)"
      "as_u32 (at_z (lv_grid_shape level_geo)) = at_z (lv_grid_shape level_geo)"
    using sized(3) by (simp_all add: grid_fits_def as_u32_def)
  have k: "cc_x a < 2 ^ 32" "cc_y a < 2 ^ 32" "cc_z a < 2 ^ 32"
      "at_x (lv_grid_shape level_geo) < 2 ^ 32" "at_y (lv_grid_shape level_geo) < 2 ^ 32" "at_z (lv_grid_shape level_geo) < 2 ^ 32"
    using chunk(4) sized(3) by (auto simp: in_grid_def grid_fits_def)
  note c = chunk(4) [unfolded in_grid_def] and S = sized(1,2) [unfolded geometry_sized_def list.pred_inject(2)]
  obtain bx where bx: "chunk_world (at_x (lv_shape full)) (at_x (lv_shape level_geo)) (at_x (lv_chunk_shape level_geo)) = Fin False bx" "0 < bx"
      "fval min_x \<le> (of_nat (cc_x a) + 1 - SLACK) * bx" "(of_nat (cc_x a) + SLACK) * bx \<le> fval max_x"
    by (rule axis_world [OF _ _ _ over(1) _ k(4)]) (use S c in blast)+
  obtain bY where bY: "chunk_world (at_y (lv_shape full)) (at_y (lv_shape level_geo)) (at_y (lv_chunk_shape level_geo)) = Fin False bY" "0 < bY"
      "fval min_y \<le> (of_nat (cc_y a) + 1 - SLACK) * bY" "(of_nat (cc_y a) + SLACK) * bY \<le> fval max_y"
    by (rule axis_world [OF _ _ _ over(2) _ k(5)]) (use S c in blast)+
  obtain bz where bz: "chunk_world (at_z (lv_shape full)) (at_z (lv_shape level_geo)) (at_z (lv_chunk_shape level_geo)) = Fin False bz" "0 < bz"
      "fval (u32_f64 z0) \<le> (of_nat (cc_z a) + 1 - SLACK) * bz" "(of_nat (cc_z a) + SLACK) * bz \<le> fval (u32_f64 z1)"
    by (rule axis_world [OF _ _ _ over(3) _ k(6)]) (use S c in blast)+
  have mz: "is_finite (u32_f64 n)" "fval (u32_f64 n) = of_nat n" for n by (simp_all add: u32_f64_def)
  have z1: "is_f64 (u32_f64 z1)" using zs(3) by (simp add: u32_f64_def mag64_int)
  have "window_start min_x (Fin False bx) \<le> cc_x a"
    using window_start_le [OF _ _ refl bx(2,3) k(1)] bounds(2,3) by simp
  moreover have "window_start min_y (Fin False bY) \<le> cc_y a"
    using window_start_le [OF _ _ refl bY(2,3) k(2)] bounds(2,3) by simp
  moreover have "f64_as_u32 (ffloor (u32_f64 z0 / Fin False bz)) \<le> cc_z a"
    using z_start_le [OF zs(2) refl bz(2) _ k(3)] bz(3) by (simp add: mz)
  moreover have "cc_x a < window_end max_x (Fin False bx) (at_x (lv_grid_shape level_geo))"
    using window_end_gt [OF _ _ refl bx(2,4) _ k(4)] bounds(2,3) c by simp
  moreover have "cc_y a < window_end max_y (Fin False bY) (at_y (lv_grid_shape level_geo))"
    using window_end_gt [OF _ _ refl bY(2,4) _ k(5)] bounds(2,3) c by simp
  moreover have "cc_z a < window_end (u32_f64 z1) (Fin False bz) (at_z (lv_grid_shape level_geo))"
    using window_end_gt [OF mz(1) z1 refl bz(2,4) _ k(6)] c by simp
  ultimately have "in_window (plan_window region level_geo full) a"
    unfolding in_window_def plan_window_def bounds(1) zs(1) Let_def prod.case window.simps fst_conv snd_conv bx(1) bY(1) bz(1) g by blast
  then show ?thesis using chunk kept by (simp add: visible_chunks_mem seen_def)
qed

text \<open>A level of two by two chunks of 256 samples, seen from its corner to the middle of the last chunk.\<close>

definition demo_grid :: level_geometry where
  "demo_grid = \<lparr>lv_index = 0, lv_shape = Arr5 1 1 1 512 512, lv_chunk_shape = Arr5 1 1 1 256 256, lv_grid_shape = Arr5 1 1 1 2 2, lv_scale = Arr5 1 1 1 1 1\<rparr>"

definition demo_region :: visible_region where
  "demo_region = \<lparr>vr_xy_bounds = (0, 0, Fin False 384, Fin False 384), vr_z_range = (0, 1), vr_effective_zoom = 1, vr_radius_basis_vox = 1,
     vr_sort_center = None, vr_frustum_planes = None\<rparr>"

lemma u64_f64_small: "n < 2 ^ 53 \<Longrightarrow> u64_f64 n = Fin False (of_nat n)"
  using mag64_int [of n] by (simp add: u64_f64_def fround_mag64)

lemma chunk_world_full:
  assumes "axis_sized n" "axis_sized chunk"
  shows "chunk_world n n chunk = Fin False (of_nat chunk)"
proof -
  have "mag64 (of_nat chunk)" "mag64 1" using assms mag64_int [of chunk] mag64_int [of 1] by (auto simp: axis_sized_def)
  with assms show ?thesis
    by (simp add: chunk_world_def axis_sized_def u64_f64_small divide_f64_def times_f64_def fround_mag64)
qed

theorem visible_chunk_requested_witness:
  "\<lparr>cc_level = 0, cc_x = 1, cc_y = 1, cc_z = 0, cc_t = 0, cc_c = 2\<rparr> \<in> set (visible_chunks demo_region demo_grid 0 2 demo_grid)"
proof -
  have "mag64 384" "mag64 0" using mag64_int [of 384] mag64_int [of 0] by simp_all
  then show ?thesis
    by (intro visible_chunk_requested [where min_x = 0 and min_y = 0 and max_x = "Fin False 384" and max_y = "Fin False 384" and ?z0.0 = 0 and ?z1.0 = 1])
      (simp_all add: geometry_sized_def axis_sized_def grid_fits_def demo_grid_def demo_region_def in_grid_def overlaps_def chunk_extent_def culled_def
        SLACK_def u32_f64_def zero_f64_def split: prod.splits)
qed



section \<open>The level the screen calls for\<close>

lemma rposition_None: "rposition P xs = None \<longleftrightarrow> (\<forall>i < length xs. \<not> P (xs ! i))"
proof -
  have "rposition P xs = None \<longleftrightarrow> filter (\<lambda>i. P (xs ! i)) [0..<length xs] = []" by (auto simp: rposition_def split: list.splits)
  then show ?thesis by (auto simp: filter_empty_conv)
qed

lemma le_last: "sorted xs \<Longrightarrow> x \<in> set xs \<Longrightarrow> x \<le> last xs"
  by (induction xs) auto

lemma rposition_Some:
  assumes "rposition P xs = Some i"
  shows "i < length xs" "P (xs ! i)" "\<And>j. i < j \<Longrightarrow> j < length xs \<Longrightarrow> \<not> P (xs ! j)"
proof -
  let ?is = "filter (\<lambda>i. P (xs ! i)) [0..<length xs]"
  have idx: "?is \<noteq> []" "i = last ?is" using assms by (auto simp: rposition_def split: list.splits)
  then have "i \<in> set ?is" by (metis last_in_set)
  then show "i < length xs" "P (xs ! i)" by auto
  show "\<not> P (xs ! j)" if "i < j" "j < length xs" for j
  proof
    assume "P (xs ! j)"
    with that have "j \<in> set ?is" by simp
    moreover have "sorted ?is" using sorted_wrt_filter [of "(\<le>)" "[0..<length xs]"] by simp
    ultimately have "j \<le> last ?is" by (metis le_last)
    with that idx show False by simp
  qed
qed

lemma raw_level_spec:
  assumes "ratios \<noteq> []" "length ratios \<le> 2 ^ 32"
  shows "raw_level ratios pps < length ratios"
    "raw_level ratios pps = 0 \<or> pps * ratios ! raw_level ratios pps \<le> 1"
    "raw_level ratios pps < j \<Longrightarrow> j < length ratios \<Longrightarrow> \<not> pps * ratios ! j \<le> 1"
proof -
  consider "rposition (\<lambda>r. pps * r \<le> 1) ratios = None" | i where "rposition (\<lambda>r. pps * r \<le> 1) ratios = Some i" by blast
  then have "raw_level ratios pps < length ratios \<and> (raw_level ratios pps = 0 \<or> pps * ratios ! raw_level ratios pps \<le> 1)
      \<and> (raw_level ratios pps < j \<longrightarrow> j < length ratios \<longrightarrow> \<not> pps * ratios ! j \<le> 1)" for j
  proof cases
    case 1
    then have "raw_level ratios pps = 0" by (simp add: raw_level_def)
    with 1 assms(1) show ?thesis by (simp add: rposition_None)
  next
    case (2 i)
    note R = rposition_Some [OF 2]
    have "as_u32 i = i" using R(1) assms(2) by (simp add: as_u32_def)
    with 2 R show ?thesis by (simp add: raw_level_def)
  qed
  then show "raw_level ratios pps < length ratios" "raw_level ratios pps = 0 \<or> pps * ratios ! raw_level ratios pps \<le> 1"
    "raw_level ratios pps < j \<Longrightarrow> j < length ratios \<Longrightarrow> \<not> pps * ratios ! j \<le> 1" by blast+
qed

text \<open>
  C20: the target level exists in the pyramid for every measure and every history, a NaN and a
  previous level past the pyramid included. Without history it is the coarsest level that still
  places a sample under every pixel, or level 0; with history it is that level or the previous one,
  the previous one only while the measure has not left it by the hysteresis band; and it is stable:
  asked again with its own answer as history it gives the same level.
\<close>
theorem target_level_sound:
  assumes "ratios \<noteq> []" "length ratios \<le> 2 ^ 32"
  shows "target_level powf pps ratios previous < length ratios
    \<and> (let raw = target_level powf pps ratios None in
        (raw = 0 \<or> pps * ratios ! raw \<le> 1) \<and> (\<forall>j. raw < j \<longrightarrow> j < length ratios \<longrightarrow> \<not> pps * ratios ! j \<le> 1)
        \<and> (target_level powf pps ratios previous = raw
           \<or> previous = Some (target_level powf pps ratios previous)
             \<and> (let p = the previous; band = powf (flit 2) HYSTERESIS_OCTAVES in
                  if raw > p then raw_level ratios (pps * band) \<le> p else p \<le> raw_level ratios (pps / band))))
    \<and> target_level powf pps ratios (Some (target_level powf pps ratios previous)) = target_level powf pps ratios previous"
proof -
  note R = raw_level_spec [OF assms]
  have "target_level powf pps ratios previous < length ratios"
  proof (cases previous)
    case (Some p)
    show ?thesis
    proof (cases "p < length ratios")
      case False
      then show ?thesis using R(1) [of pps] R(1) [of "pps / powf (flit 2) HYSTERESIS_OCTAVES"]
        by (simp add: target_level_def Some Let_def)
    qed (use R(1) Some in \<open>auto simp: target_level_def Let_def\<close>)
  qed (use R(1) in \<open>simp add: target_level_def Let_def\<close>)
  moreover have "target_level powf pps ratios None = raw_level ratios pps" by (simp add: target_level_def Let_def)
  moreover have "target_level powf pps ratios (Some (target_level powf pps ratios previous)) = target_level powf pps ratios previous"
    by (cases previous) (auto simp: target_level_def Let_def)
  moreover have "target_level powf pps ratios previous = raw_level ratios pps
      \<or> previous = Some (target_level powf pps ratios previous)
        \<and> (let p = the previous; band = powf (flit 2) HYSTERESIS_OCTAVES in
             if raw_level ratios pps > p then raw_level ratios (pps * band) \<le> p else p \<le> raw_level ratios (pps / band))"
    by (cases previous) (auto simp: target_level_def Let_def)
  ultimately show ?thesis using R(2,3) unfolding Let_def by simp
qed

theorem target_level_sound_witness: "target_level (\<lambda>_ _. 1) NaN [1, Fin False 2] (Some 9) < 2"
  using target_level_sound [of "[1, Fin False 2]" "\<lambda>_ _. 1" NaN "Some 9"] by simp

end
