(* ===== verification/EndToEnd.thy ===== *)
theory EndToEnd
  imports Pyramid ChunkPlan
begin

text \<open>
  From a converted volume to the screen: the chunks a viewer plans for a level of the pyramid are
  the chunks the server can answer, and it answers with the samples that were ingested.
\<close>

text \<open>\<^verbatim>\<open>ChunkCoord::key\<close>\<close>

definition coord_key :: "chunk_coord \<Rightarrow> string" where
  "coord_key a = wire_key (cc_level a) (cc_t a) (cc_c a) (cc_z a) (cc_y a) (cc_x a)"

text \<open>The geometry of a written level: its shape, its chunks and the grid that covers it.\<close>

definition written_geometry :: "nat \<times> nat \<times> nat \<Rightarrow> nat \<Rightarrow> level_data \<Rightarrow> f64 arr5 \<Rightarrow> level_geometry" where
  "written_geometry = (\<lambda>(cz, cy, cx) i level sc.
     \<lparr>lv_index = i, lv_shape = Arr5 (ld_timepoints level) (ld_channels level) (ld_depth level) (ld_height level) (ld_width level),
      lv_chunk_shape = Arr5 1 1 cz cy cx,
      lv_grid_shape = Arr5 (ld_timepoints level) (ld_channels level) (grid_size (ld_depth level) cz) (grid_size (ld_height level) cy) (grid_size (ld_width level) cx),
      lv_scale = sc\<rparr>)"

lemma planned_in_grid:
  assumes "a \<in> set (fst (visible_and_prefetch_chunks region level_geo t c full) @ snd (visible_and_prefetch_chunks region level_geo t c full))"
  shows "in_grid level_geo a \<and> cc_level a = lv_index level_geo \<and> cc_t a = t \<and> cc_c a = c"
proof -
  define w where "w = plan_window region level_geo full"
  note g = plan_window_grid [OF w_def]
  have "expand_end e (as_u32 n) \<le> n" for e n using as_u32_le [of n] by (simp add: expand_end_def)
  moreover have "snd (w_zs w) \<le> at_z (lv_grid_shape level_geo)" using g(4) as_u32_le le_trans by blast
  ultimately show ?thesis using assms
    by (auto simp: visible_and_prefetch_chunks_def Let_def coord_of_def in_grid_def g(1) simp flip: w_def intro: less_le_trans)
qed

text \<open>
  C13: what was ingested is what is shown. After a conversion of a volume without errors, whatever
  the region in view, every chunk the viewer plans for a level of the pyramid, needed or prefetched,
  is answered by the server with exactly the samples of that chunk of that level. The volume has at most \<open>2 ^ 32\<close>
  samples for each timepoint and channel, the limit of the writer's offsets, and a chunk less than 4 GB. The store returns
  the files as they were written and the lz4 decoder inverts the encoder.
\<close>
theorem planned_chunk_served:
  assumes "level_fits (cz, cy, cx) (level_of_volume v)" "\<forall>f. io f = None"
    "write_volume_pyramid lz4 io output v (cz, cy, cx) = (ops, r)"
    "\<forall>p b. file_bytes ops (output @ split_on (CHR ''/'') p) = Some b \<longrightarrow> rd_bytes rd (ce_path_from E p) = Inr b"
    "\<forall>raw. ce_lz4 E (lz4 raw) = Inr raw"
    "map_of images image_id = Some img" "ir_axes_names img = ALL_DIMS" "ir_store_prefix img = None"
    "\<forall>li \<in> set (ir_levels img). serves_level (cz, cy, cx) li"
  shows "\<exists>levels. is_pyramid v levels
    \<and> (\<forall>i < min (length levels) (length (ir_levels img)). \<forall>region sc full. \<forall>t < ld_timepoints (levels ! i). \<forall>c < ld_channels (levels ! i).
        let plan = visible_and_prefetch_chunks region (written_geometry (cz, cy, cx) i (levels ! i) sc) t c full
        in \<forall>a \<in> set (fst plan @ snd plan). \<exists>raw.
             chunk_holds (levels ! i) cx cy cz (cc_x a) (cc_y a) (cc_z a) t c raw
             \<and> read_chunk E rd images image_id (coord_key a) cache = Some (cache, Inr (Present raw)))"
proof -
  obtain levels where L: "is_pyramid v levels" "\<forall>level \<in> set levels. level_fits (cz, cy, cx) level"
    "\<And>i ti ci zi yi xi. i < min (length levels) (length (ir_levels img)) \<Longrightarrow> chunk_ok (levels ! i) cx cy cz xi yi zi ti ci \<Longrightarrow>
       \<exists>raw. chunk_holds (levels ! i) cx cy cz xi yi zi ti ci raw
         \<and> read_chunk E rd images image_id (wire_key i ti ci zi yi xi) cache = Some (cache, Inr (Present raw))"
    using ingested_chunk_served [OF assms, of cache] by metis
  have "\<exists>raw. chunk_holds (levels ! i) cx cy cz (cc_x a) (cc_y a) (cc_z a) t c raw
      \<and> read_chunk E rd images image_id (coord_key a) cache = Some (cache, Inr (Present raw))"
    if i: "i < min (length levels) (length (ir_levels img))" and tc: "t < ld_timepoints (levels ! i)" "c < ld_channels (levels ! i)"
      and a: "in_grid (written_geometry (cz, cy, cx) i (levels ! i) sc) a" "cc_level a = i" "cc_t a = t" "cc_c a = c" for i t c sc a
  proof -
    have fits: "level_fits (cz, cy, cx) (levels ! i)" using L(2) i by simp
    from a(1) have "cc_z a * cz < ld_depth (levels ! i)" "cc_y a * cy < ld_height (levels ! i)" "cc_x a * cx < ld_width (levels ! i)"
      using level_fitsD(1-3) [OF fits] by (simp_all add: in_grid_def written_geometry_def grid_size_iff)
    with tc have "(t, c, cc_z a, cc_y a, cc_x a) \<in> set (chunk_indices (levels ! i) cx cy cz)"
      using level_fitsD(1-3) [OF fits] by (simp add: chunk_indices_iff)
    then have "chunk_ok (levels ! i) cx cy cz (cc_x a) (cc_y a) (cc_z a) t c" using chunk_indices_ok [OF fits] by blast
    from L(3) [OF i this] show ?thesis by (simp add: coord_key_def a(2-4))
  qed
  moreover have "lv_index (written_geometry (cz, cy, cx) i l sc) = i" for i l sc by (simp add: written_geometry_def)
  ultimately show ?thesis using L(1) planned_in_grid unfolding Let_def by (intro exI [of _ levels]) metis
qed

text \<open>A volume of 300 samples in a row, converted with chunks of 256 and looked at from end to end.\<close>

definition row_region :: visible_region where
  "row_region = \<lparr>vr_xy_bounds = (0, 0, Fin False 512, 1), vr_z_range = (0, 1), vr_effective_zoom = 1, vr_radius_basis_vox = 1,
     vr_sort_center = None, vr_frustum_planes = None\<rparr>"

lemma row_planned:
  "\<lparr>cc_level = 0, cc_x = 1, cc_y = 0, cc_z = 0, cc_t = 0, cc_c = 0\<rparr>
     \<in> set (fst (visible_and_prefetch_chunks row_region g 0 0 g))"
  if "g = written_geometry (1, 1, 256) 0 (level_of_volume demo_volume) sc"
proof -
  have m: "fround False 2 = Fin False 2" "fround False 1 = Fin False 1" "fround False 0 = Fin False 0"
    using fround_mag64(1) [OF mag64_int, of 2] fround_mag64(1) [OF mag64_int, of 1] fround_mag64(1) [OF mag64_int, of 0] by simp_all
  have g: "grid_size 300 256 = 2" "grid_size (Suc 0) (Suc 0) = 1" by (simp_all add: grid_size_def)
  have "in_window (plan_window row_region g g) \<lparr>cc_level = 0, cc_x = 1, cc_y = 0, cc_z = 0, cc_t = 0, cc_c = 0\<rparr>"
    by (simp add: that in_window_def plan_window_def Let_def row_region_def written_geometry_def level_of_volume_def demo_volume_def
        chunk_world_full axis_sized_def g window_start_def window_end_def u32_f64_def divide_f64_def zero_f64_def one_f64_def m fmax_def less_f64_def as_u32_def)
  moreover have "grid_fits g" by (simp add: that grid_fits_def written_geometry_def level_of_volume_def demo_volume_def g)
  moreover have "lv_index g = 0" by (simp add: that written_geometry_def)
  ultimately show ?thesis by (simp add: prefetch_needed visible_chunks_mem seen_def culled_def row_region_def split: prod.splits)
qed

theorem planned_chunk_served_witness:
  "\<exists>raw. read_chunk demo_env (disk_reads demo_ops [''out'']) [(''image'', converted_image)] ''image'' (wire_key 0 0 0 0 0 1) []
      = Some ([], Inr (Present raw)) \<and> le_nat [raw ! 0, raw ! 1] = 7 \<and> le_nat [raw ! 100, raw ! 101] = 0"
proof -
  let ?a = "\<lparr>cc_level = 0, cc_x = 1, cc_y = 0, cc_z = 0, cc_t = 0, cc_c = 0\<rparr>"
  obtain ops r where ops: "write_volume_pyramid id (\<lambda>_. None) [''out''] demo_volume (1, 1, 256) = (ops, r)" by (meson surj_pair)
  then have demo: "demo_ops = ops" by (simp add: demo_ops_def)
  have "\<exists>levels. is_pyramid demo_volume levels
    \<and> (\<forall>i < min (length levels) (length (ir_levels converted_image)). \<forall>region sc full. \<forall>t < ld_timepoints (levels ! i). \<forall>c < ld_channels (levels ! i).
        let plan = visible_and_prefetch_chunks region (written_geometry (1, 1, 256) i (levels ! i) sc) t c full
        in \<forall>a \<in> set (fst plan @ snd plan). \<exists>raw.
             chunk_holds (levels ! i) 256 1 1 (cc_x a) (cc_y a) (cc_z a) t c raw
             \<and> read_chunk demo_env (disk_reads ops [''out'']) [(''image'', converted_image)] ''image'' (coord_key a) [] = Some ([], Inr (Present raw)))"
    by (rule planned_chunk_served [OF demo_volume_fits _ ops])
      (simp_all add: disk_reads_def demo_env_def converted_image_def converted_level_serves [simplified])
  then obtain levels where L: "is_pyramid demo_volume levels"
    "\<And>i region sc full t c a. i < length levels \<Longrightarrow> i < length (ir_levels converted_image) \<Longrightarrow> t < ld_timepoints (levels ! i) \<Longrightarrow> c < ld_channels (levels ! i) \<Longrightarrow>
       a \<in> set (fst (visible_and_prefetch_chunks region (written_geometry (1, 1, 256) i (levels ! i) sc) t c full)) \<Longrightarrow>
       \<exists>raw. chunk_holds (levels ! i) 256 1 1 (cc_x a) (cc_y a) (cc_z a) t c raw
         \<and> read_chunk demo_env (disk_reads ops [''out'']) [(''image'', converted_image)] ''image'' (coord_key a) [] = Some ([], Inr (Present raw))"
    unfolding Let_def min_less_iff_conj set_append by blast
  have level: "levels \<noteq> []" "levels ! 0 = level_of_volume demo_volume"
    using L(1) by (auto simp: is_pyramid_def hd_conv_nth split: option.splits)
  have "ld_timepoints (levels ! 0) = 1" "ld_channels (levels ! 0) = 1" unfolding level(2) by (simp_all add: level_of_volume_def demo_volume_def)
  then obtain raw where raw: "chunk_holds (levels ! 0) 256 1 1 1 0 0 0 0 raw"
    "read_chunk demo_env (disk_reads ops [''out'']) [(''image'', converted_image)] ''image'' (coord_key ?a) [] = Some ([], Inr (Present raw))"
    using L(2) [of 0 0 0 ?a row_region "Arr5 1 1 1 1 1" "written_geometry (1, 1, 256) 0 (levels ! 0) (Arr5 1 1 1 1 1)"]
      row_planned [OF refl, of "Arr5 1 1 1 1 1"] level by (auto simp: converted_image_def)
  note at = raw(1) [unfolded chunk_holds_def Let_def level(2), THEN conjunct2, rule_format, of 0 0]
  have "le_nat [raw ! 0, raw ! 1] = 7" "le_nat [raw ! 100, raw ! 101] = 0"
    using at [of 0] at [of 50] by (simp_all add: level_of_volume_def demo_volume_def sample_def del: le_nat.simps)
  with raw(2) show ?thesis unfolding demo by (auto simp: coord_key_def)
qed

end
