(* ===== verification/Proxy.thy ===== *)
theory Proxy
  imports ChunkPlan Downsample "HOL-Library.List_Lexorder" "HOL-Library.Char_ord"
begin

text \<open>
  Proxies (\<^verbatim>\<open>lucida-proxy\<close>): the stored header, the hash that tells when a proxy is stale, the estimate of
  a proxy's size and its generation. The voxel source and the blake3 hash are parameters, and so is
  \<^verbatim>\<open>f64::to_le_bytes\<close>, since the bits of a NaN are not modelled. A panic is \<open>None\<close>.
\<close>

section \<open>Headers (\<^verbatim>\<open>spec.rs\<close>, \<^verbatim>\<open>header.rs\<close>)\<close>

datatype proxy_dtype = ProxyU16

fun dtype_as_u32 :: "proxy_dtype \<Rightarrow> nat" where
  "dtype_as_u32 ProxyU16 = 0"

definition dtype_from_u32 :: "nat \<Rightarrow> proxy_dtype option" where
  "dtype_from_u32 n = (if n = 0 then Some ProxyU16 else None)"

type_synonym dims3 = "nat \<times> nat \<times> nat"

record proxy_spec =
  ps_entity_id :: entity_id
  ps_kind :: proxy_kind
  ps_t :: nat
  ps_c :: nat
  ps_target_long_axis :: nat

record proxy_header =
  ph_algorithm_version :: nat
  ph_source_content_hash :: bytes
  ph_dims :: dims3
  ph_dtype :: proxy_dtype

record proxy_asset =
  pa_header :: proxy_header
  pa_voxels :: "u16 list"

definition ALGORITHM_VERSION :: nat where
  "ALGORITHM_VERSION = 1"

definition str_bytes :: "string \<Rightarrow> bytes" where
  "str_bytes s = map of_char s"

definition MAGIC :: bytes where
  "MAGIC = str_bytes ''LPRX''"

definition HEADER_LEN :: nat where
  "HEADER_LEN = 64"

text \<open>\<^verbatim>\<open>buf[at..at + n].copy_from_slice(..)\<close>, which panics out of range and for another length.\<close>

definition copy_into :: "nat \<Rightarrow> nat \<Rightarrow> bytes \<Rightarrow> bytes \<Rightarrow> bytes option" where
  "copy_into pos n src buf =
     (if pos + n \<le> length buf \<and> length src = n then Some (take pos buf @ src @ drop (pos + n) buf) else None)"

text \<open>The bytes handed to the writer.\<close>

definition write_header :: "proxy_header \<Rightarrow> bytes option" where
  "write_header h =
     (case ph_dims h of (z, y, x) \<Rightarrow>
        Option.bind (copy_into 0 4 MAGIC (replicate HEADER_LEN 0)) (\<lambda>buf.
        Option.bind (copy_into 4 4 (le_bytes 4 (ph_algorithm_version h)) buf) (\<lambda>buf.
        Option.bind (for_each (\<lambda>(i, d) buf. copy_into (8 + i * 4) 4 (le_bytes 4 d) buf) (enumerate 0 [z, y, x]) buf) (\<lambda>buf.
        Option.bind (copy_into 20 4 (le_bytes 4 (dtype_as_u32 (ph_dtype h))) buf) (\<lambda>buf.
        copy_into 24 32 (ph_source_content_hash h) buf)))))"

datatype header_error = UnexpectedEof | BadMagic bytes | VersionMismatch nat | UnknownDtype nat

definition hdr_u32 :: "bytes \<Rightarrow> nat \<Rightarrow> nat" where
  "hdr_u32 buf i = le_nat (take 4 (drop i buf))"

text \<open>The reader's error, or the header and what is left to read.\<close>

definition read_header :: "bytes \<Rightarrow> header_error + proxy_header \<times> bytes" where
  "read_header r =
     (if length r < HEADER_LEN then Inl UnexpectedEof
      else let buf = take HEADER_LEN r; magic = take 4 buf
      in if magic \<noteq> MAGIC then Inl (BadMagic magic)
         else let algorithm_version = hdr_u32 buf 4
         in if algorithm_version \<noteq> ALGORITHM_VERSION then Inl (VersionMismatch algorithm_version)
            else res_bind (ok_or (UnknownDtype (hdr_u32 buf 20)) (dtype_from_u32 (hdr_u32 buf 20))) (\<lambda>dtype.
              Inr (\<lparr>ph_algorithm_version = algorithm_version, ph_source_content_hash = take 32 (drop 24 buf),
                    ph_dims = (hdr_u32 buf 8, hdr_u32 buf 12, hdr_u32 buf 16), ph_dtype = dtype\<rparr>, drop HEADER_LEN r)))"

section \<open>The hash of a proxy's source\<close>

definition le_str :: "string \<Rightarrow> string \<Rightarrow> bool" where
  "le_str a b \<longleftrightarrow> a \<le> b"

fun kind_tag :: "entity_kind option \<Rightarrow> u8" where
  "kind_tag (Some EImage) = 0"
| "kind_tag (Some EGroup) = 1"
| "kind_tag (Some ETile) = 2"
| "kind_tag None = 255"

fun debug_data_type :: "data_type \<Rightarrow> string" where
  "debug_data_type Uint8 = ''Uint8''"
| "debug_data_type Uint16 = ''Uint16''"
| "debug_data_type Uint32 = ''Uint32''"
| "debug_data_type Float32 = ''Float32''"
| "debug_data_type Float64 = ''Float64''"

fun debug_axis_kind :: "axis_kind \<Rightarrow> string" where
  "debug_axis_kind ATime = ''Time''"
| "debug_axis_kind AChannel = ''Channel''"
| "debug_axis_kind ASpace = ''Space''"

definition newline :: char where
  "newline = CHR 0x0A"

definition arr5_bytes :: "('a \<Rightarrow> bytes) \<Rightarrow> 'a arr5 \<Rightarrow> bytes" where
  "arr5_bytes f a = f (at_t a) @ f (at_c a) @ f (at_z a) @ f (at_y a) @ f (at_x a)"

definition edge_bytes :: "(f64 \<Rightarrow> bytes) \<Rightarrow> transform_edge \<Rightarrow> bytes" where
  "edge_bytes f64_le e =
     str_bytes (newline # ''edge:'') @ str_bytes (te_from e) @ str_bytes ''->'' @ str_bytes (te_to e) @ concat (map f64_le (te_matrix e))"

definition level_bytes :: "(f64 \<Rightarrow> bytes) \<Rightarrow> level_geometry \<Rightarrow> bytes" where
  "level_bytes f64_le l =
     str_bytes (newline # ''level:'') @ le_bytes 4 (lv_index l) @ arr5_bytes (le_bytes 8) (lv_shape l)
     @ arr5_bytes (le_bytes 8) (lv_chunk_shape l) @ arr5_bytes (le_bytes 8) (lv_grid_shape l) @ arr5_bytes f64_le (lv_scale l)"

definition axis_bytes :: "axis \<Rightarrow> bytes" where
  "axis_bytes a = str_bytes (newline # ''axis:'') @ str_bytes (ax_name a) @ str_bytes '':'' @ str_bytes (debug_axis_kind (ax_kind a))"

definition image_bytes :: "(f64 \<Rightarrow> bytes) \<Rightarrow> image_spec \<Rightarrow> bytes" where
  "image_bytes f64_le im =
     str_bytes (newline # ''image:'') @ str_bytes (im_id im) @ str_bytes (newline # ''dtype:'')
     @ str_bytes (debug_data_type (ms_data_type (im_multiscale im)))
     @ concat (map axis_bytes (ms_axes (im_multiscale im))) @ concat (map (level_bytes f64_le) (ms_levels (im_multiscale im)))"

definition contributor_bytes :: "(f64 \<Rightarrow> bytes) \<Rightarrow> dataset_manifest \<Rightarrow> entity_id \<Rightarrow> bytes" where
  "contributor_bytes f64_le content cid =
     (let edges = sort_by (\<lambda>a b. te_from a < te_from b \<or> te_from a = te_from b \<and> te_to a \<le> te_to b)
            (filter (\<lambda>e. te_from e = cid \<or> te_to e = cid) (mf_transforms content));
          owned_images = sort_by (\<lambda>a b. le_str (im_id a) (im_id b)) (filter (\<lambda>im. im_owner im = cid) (mf_images content))
      in str_bytes (newline # ''entity:'') @ str_bytes cid @ concat (map (edge_bytes f64_le) edges) @ concat (map (image_bytes f64_le) owned_images))"

definition contributors :: "dataset_manifest \<Rightarrow> entity_id \<Rightarrow> entity_id list" where
  "contributors content entity_id =
     (case find (\<lambda>e. ent_id e = entity_id) (mf_entities content) of
        Some e \<Rightarrow>
          if ent_kind e = EGroup then
            sort_by le_str (map ent_id (filter (\<lambda>c. ent_parent c = Some entity_id \<and> ent_kind c = ETile) (mf_entities content))) @ [entity_id]
          else [entity_id]
      | None \<Rightarrow> [entity_id])"

definition source_content_hash :: "(bytes \<Rightarrow> bytes) \<Rightarrow> (f64 \<Rightarrow> bytes) \<Rightarrow> dataset_manifest \<Rightarrow> entity_id \<Rightarrow> nat \<Rightarrow> nat \<Rightarrow> bytes" where
  "source_content_hash blake3 f64_le content entity_id t c =
     blake3 (str_bytes ''lucida-proxy/source-content/v1'' @ le_bytes 4 t @ le_bytes 4 c @ str_bytes entity_id @ [0]
       @ [kind_tag (map_option ent_kind (find (\<lambda>e. ent_id e = entity_id) (mf_entities content)))]
       @ concat (map (contributor_bytes f64_le content) (contributors content entity_id)))"

section \<open>Sizes (\<^verbatim>\<open>generate.rs\<close>)\<close>

text \<open>\<^verbatim>\<open>f64::round\<close>: halves go away from zero.\<close>

fun f_round :: "f64 \<Rightarrow> f64" where
  "f_round (Fin s r) = Fin s (of_int \<lfloor>r + 1 / 2\<rfloor>)"
| "f_round x = x"

text \<open>\<^verbatim>\<open>u32::clamp\<close> panics when the bounds are crossed.\<close>

definition u32_clamp :: "nat \<Rightarrow> nat \<Rightarrow> nat \<Rightarrow> nat option" where
  "u32_clamp lo hi x = (if lo \<le> hi then Some (max lo (min hi x)) else None)"

definition target_axis :: "f64 \<Rightarrow> nat \<Rightarrow> nat option" where
  "target_axis scale n = u32_clamp 1 n (f64_as_u32 (f_round (u32_f64 n * scale)))"

definition target_dims_for_long_axis :: "dims3 \<Rightarrow> nat \<Rightarrow> dims3 option" where
  "target_dims_for_long_axis dims target_long_axis =
     (case dims of (in_z, in_y, in_x) \<Rightarrow>
        let max_in = max (max in_z in_y) in_x;
            target = max (min target_long_axis max_in) 1;
            scale = u32_f64 target / u32_f64 max_in
        in Option.bind (target_axis scale in_z) (\<lambda>z. Option.bind (target_axis scale in_y) (\<lambda>y.
           map_option (\<lambda>x. (z, y, x)) (target_axis scale in_x))))"

definition group_axis :: "f64 \<Rightarrow> f64 \<Rightarrow> nat" where
  "group_axis len scale = max (f64_as_u32 (f_round (len * scale))) 1"

definition group_dims_from_bounds :: "vec3 \<Rightarrow> vec3 \<Rightarrow> nat \<Rightarrow> dims3" where
  "group_dims_from_bounds lo hi target_long_axis =
     (case (lo, hi) of ((min0, min1, min2), (max0, max1, max2)) \<Rightarrow>
        let span0 = max0 - min0; span1 = max1 - min1; span2 = max2 - min2;
            max_span = fmax (fmax span0 span1) span2;
            max_span = (if \<not> is_finite max_span \<or> max_span \<le> 0 then 1 else max_span);
            scale = u32_f64 (max target_long_axis 1) / max_span
        in (group_axis span2 scale, group_axis span1 scale, group_axis span0 scale))"

text \<open>Both error types of \<^verbatim>\<open>generate.rs\<close>.\<close>

datatype 'e proxy_error =
    SourceFailed 'e
  | MissingEntity entity_id
  | MissingImage entity_id
  | EmptyMultiscale entity_id
  | NoTiles entity_id
  | InvalidTarget
  | TooLarge entity_id

definition min_spatial :: "level_geometry \<Rightarrow> nat" where
  "min_spatial level = min (min (at_z (lv_shape level)) (at_y (lv_shape level))) (at_x (lv_shape level))"

text \<open>\<^verbatim>\<open>levels[0]\<close> and \<^verbatim>\<open>levels.len() - 1\<close>: the callers have checked that there is a level.\<close>

definition pick_level :: "level_geometry list \<Rightarrow> nat \<Rightarrow> nat" where
  "pick_level levels target_long_axis =
     (let threshold = saturating_mul64 target_long_axis 2;
          chosen = fold (\<lambda>(i, level) chosen. if threshold \<le> min_spatial level then i else chosen) (enumerate 0 levels) 0
      in if chosen = 0 \<and> min_spatial (levels ! 0) < threshold then length levels - 1 else chosen)"

definition u32_try :: "entity_id \<Rightarrow> nat \<Rightarrow> 'e proxy_error + nat" where
  "u32_try entity_id n = (if n < 2 ^ 32 then Inr n else Inl (TooLarge entity_id))"

definition level_spatial_dims :: "level_geometry \<Rightarrow> entity_id \<Rightarrow> 'e proxy_error + dims3" where
  "level_spatial_dims level entity_id =
     res_bind (u32_try entity_id (at_z (lv_shape level))) (\<lambda>z.
     res_bind (u32_try entity_id (at_y (lv_shape level))) (\<lambda>y.
     res_bind (u32_try entity_id (at_x (lv_shape level))) (\<lambda>x. Inr (z, y, x))))"

definition find_image :: "dataset_manifest \<Rightarrow> entity_id \<Rightarrow> 'e proxy_error + image_spec" where
  "find_image content owner = ok_or (MissingImage owner) (find (\<lambda>im. im_owner im = owner) (mf_images content))"

definition pick_image_level :: "dataset_manifest \<Rightarrow> entity_id \<Rightarrow> nat \<Rightarrow> 'e proxy_error + image_spec \<times> nat" where
  "pick_image_level content owner target_long_axis =
     res_bind (find_image content owner) (\<lambda>im.
       if ms_levels (im_multiscale im) = [] then Inl (EmptyMultiscale owner)
       else Inr (im, pick_level (ms_levels (im_multiscale im)) target_long_axis))"

text \<open>An error is a value, a panic is not.\<close>

definition opt_bind :: "'e + 'a \<Rightarrow> ('a \<Rightarrow> ('e + 'b) option) \<Rightarrow> ('e + 'b) option" where
  "opt_bind r f = (case r of Inl e \<Rightarrow> Some (Inl e) | Inr a \<Rightarrow> f a)"

definition estimate_tile_dims :: "proxy_spec \<Rightarrow> dataset_manifest \<Rightarrow> entity \<Rightarrow> ('e proxy_error + dims3) option" where
  "estimate_tile_dims spec content entity =
     opt_bind (pick_image_level content (ent_id entity) (ps_target_long_axis spec)) (\<lambda>(im, level_index).
     opt_bind (level_spatial_dims (ms_levels (im_multiscale im) ! level_index) (ent_id entity)) (\<lambda>dims.
       map_option Inr (target_dims_for_long_axis dims (ps_target_long_axis spec))))"

section \<open>Transforms\<close>

definition find_edge :: "dataset_manifest \<Rightarrow> entity_id \<Rightarrow> entity_id \<Rightarrow> mat4" where
  "find_edge content from to =
     (case find (\<lambda>e. te_from e = from \<and> te_to e = to) (mf_transforms content) of Some e \<Rightarrow> te_matrix e | None \<Rightarrow> matrix_identity)"

definition find_tile_to_group :: "dataset_manifest \<Rightarrow> entity_id \<Rightarrow> entity_id \<Rightarrow> mat4" where
  "find_tile_to_group content tile_id group_id = find_edge content tile_id group_id"

definition find_voxel_to_image :: "dataset_manifest \<Rightarrow> entity_id \<Rightarrow> mat4" where
  "find_voxel_to_image content owner = find_edge content owner owner"

definition compose :: "mat4 \<Rightarrow> mat4 \<Rightarrow> mat4" where
  "compose lhs rhs =
     concat (map (\<lambda>col. map (\<lambda>row. fold (\<lambda>k sum. sum + lhs ! (k * 4 + row) * rhs ! (col * 4 + k)) [0..<4] 0) [0..<4]) [0..<4])"

definition proxy_transform_point :: "mat4 \<Rightarrow> vec3 \<Rightarrow> vec3" where
  "proxy_transform_point m = (\<lambda>(x, y, z).
     (m ! 0 * x + m ! 4 * y + m ! 8 * z + m ! 12, m ! 1 * x + m ! 5 * y + m ! 9 * z + m ! 13, m ! 2 * x + m ! 6 * y + m ! 10 * z + m ! 14))"

definition scale_axis :: "nat \<Rightarrow> nat \<Rightarrow> f64" where
  "scale_axis full lvl = (if lvl = 0 then 1 else u64_f64 full / u64_f64 lvl)"

definition estimate_level_voxel_to_image :: "dataset_manifest \<Rightarrow> image_spec \<Rightarrow> nat \<Rightarrow> 'e proxy_error + mat4" where
  "estimate_level_voxel_to_image content im level_index =
     res_bind (ok_or (EmptyMultiscale (im_owner im)) (index_at (ms_levels (im_multiscale im)) 0)) (\<lambda>level0.
     res_bind (ok_or (EmptyMultiscale (im_owner im)) (index_at (ms_levels (im_multiscale im)) level_index)) (\<lambda>level.
       let sx = scale_axis (at_x (lv_shape level0)) (at_x (lv_shape level));
           sy = scale_axis (at_y (lv_shape level0)) (at_y (lv_shape level));
           sz = scale_axis (at_z (lv_shape level0)) (at_z (lv_shape level));
           level_scale = [sx, 0, 0, 0, 0, sy, 0, 0, 0, 0, sz, 0, 0, 0, 0, 1]
       in Inr (compose (find_voxel_to_image content (im_owner im)) level_scale)))"

definition widen_bounds :: "f64 \<Rightarrow> f64 \<times> f64 \<Rightarrow> f64 \<times> f64" where
  "widen_bounds p = (\<lambda>(lo, hi). (if p < lo then p else lo, if p > hi then p else hi))"

text \<open>The box that grows around the corners of a volume; one pair of bounds per axis.\<close>

type_synonym box3 = "(f64 \<times> f64) \<times> (f64 \<times> f64) \<times> (f64 \<times> f64)"

definition empty_box :: box3 where
  "empty_box = ((Inf False, Inf True), (Inf False, Inf True), (Inf False, Inf True))"

definition widen_box :: "vec3 \<Rightarrow> box3 \<Rightarrow> box3" where
  "widen_box = (\<lambda>(px, py, pz) (bx, by', bz). (widen_bounds px bx, widen_bounds py by', widen_bounds pz bz))"

definition corners :: "dims3 \<Rightarrow> vec3 list" where
  "corners = (\<lambda>(vz, vy, vx).
     concat (map (\<lambda>z. concat (map (\<lambda>y. map (\<lambda>x. (x, y, z)) [0, u32_f64 vx]) [0, u32_f64 vy])) [0, u32_f64 vz]))"

definition widen_by_volume :: "dims3 \<times> mat4 \<Rightarrow> box3 \<Rightarrow> box3" where
  "widen_by_volume = (\<lambda>(dims, m) bounds. fold (\<lambda>p. widen_box (proxy_transform_point m p)) (corners dims) bounds)"

definition box_dims :: "box3 \<Rightarrow> nat \<Rightarrow> dims3" where
  "box_dims = (\<lambda>((min0, max0), (min1, max1), (min2, max2)). group_dims_from_bounds (min0, min1, min2) (max0, max1, max2))"

definition group_tiles :: "dataset_manifest \<Rightarrow> entity_id \<Rightarrow> entity list" where
  "group_tiles content group_id = filter (\<lambda>e. ent_kind e = ETile \<and> ent_parent e = Some group_id) (mf_entities content)"

definition estimate_member :: "proxy_spec \<Rightarrow> dataset_manifest \<Rightarrow> entity_id \<Rightarrow> entity \<Rightarrow> 'e proxy_error + dims3 \<times> mat4" where
  "estimate_member spec content group_id tile =
     res_bind (pick_image_level content (ent_id tile) (ps_target_long_axis spec)) (\<lambda>(im, level_index).
     res_bind (level_spatial_dims (ms_levels (im_multiscale im) ! level_index) (ent_id tile)) (\<lambda>dims.
     res_bind (estimate_level_voxel_to_image content im level_index) (\<lambda>voxel_to_image.
       Inr (dims, compose (find_tile_to_group content (ent_id tile) group_id) voxel_to_image))))"

definition estimate_group_dims :: "proxy_spec \<Rightarrow> dataset_manifest \<Rightarrow> entity \<Rightarrow> ('e proxy_error + dims3) option" where
  "estimate_group_dims spec content entity =
     (if ent_kind entity \<noteq> EGroup then estimate_tile_dims spec content entity
      else let tiles = group_tiles content (ent_id entity)
      in if tiles = [] then Some (Inl (NoTiles (ent_id entity)))
         else opt_bind (res_collect (estimate_member spec content (ent_id entity)) tiles) (\<lambda>members.
           Some (Inr (box_dims (fold widen_by_volume members empty_box) (ps_target_long_axis spec)))))"

definition find_entity :: "proxy_spec \<Rightarrow> dataset_manifest \<Rightarrow> 'e proxy_error + entity" where
  "find_entity spec content =
     (if ps_target_long_axis spec = 0 then Inl InvalidTarget
      else ok_or (MissingEntity (ps_entity_id spec)) (find (\<lambda>e. ent_id e = ps_entity_id spec) (mf_entities content)))"

definition estimate_proxy_dims :: "proxy_spec \<Rightarrow> dataset_manifest \<Rightarrow> ('e proxy_error + dims3) option" where
  "estimate_proxy_dims spec content =
     opt_bind (find_entity spec content) (\<lambda>entity.
       case ps_kind spec of
         TileProxy3D \<Rightarrow> estimate_tile_dims spec content entity
       | GroupProxy3D \<Rightarrow> estimate_group_dims spec content entity)"

section \<open>Tile proxies\<close>

record tile_volume =
  tv_data :: "u16 list"
  tv_dims :: dims3
  tv_voxel_to_image :: mat4

text \<open>\<^verbatim>\<open>ProxySourceData::read_tile_volume\<close>\<close>

type_synonym 'e proxy_source = "image_id \<Rightarrow> nat \<Rightarrow> nat \<Rightarrow> nat \<Rightarrow> 'e + tile_volume"

definition box_bounds :: "nat \<Rightarrow> nat \<Rightarrow> nat \<Rightarrow> nat \<times> nat" where
  "box_bounds oi out_size in_size =
     (let lo = as_u32 (oi * in_size div out_size); hi = as_u32 ((oi + 1) * in_size div out_size)
      in (lo, if hi \<le> lo then min (as_u32 (lo + 1)) in_size else hi))"

text \<open>A row-major index computed in \<^verbatim>\<open>u32\<close>.\<close>

definition index32 :: "nat \<Rightarrow> nat \<Rightarrow> nat \<Rightarrow> nat \<Rightarrow> nat \<Rightarrow> nat" where
  "index32 z ny y nx x = u32_add (u32_mul (u32_add (u32_mul z ny) y) nx) x"

text \<open>The three loops over a box: the sum and the number of its samples, both \<^verbatim>\<open>u64\<close>.\<close>

definition box_sum :: "(nat \<Rightarrow> nat \<Rightarrow> nat \<Rightarrow> nat) \<Rightarrow> u16 list \<Rightarrow> nat \<times> nat \<Rightarrow> nat \<times> nat \<Rightarrow> nat \<times> nat \<Rightarrow> (nat \<times> nat) option" where
  "box_sum ix data zs ys xs =
     for_each (\<lambda>z. for_each (\<lambda>y. for_each (\<lambda>x (acc, count).
       map_option (\<lambda>v. ((acc + unat v) mod 2 ^ 64, (count + 1) mod 2 ^ 64)) (index_at data (ix z y x)))
       [fst xs..<snd xs]) [fst ys..<snd ys]) [fst zs..<snd zs] (0, 0)"

text \<open>
  The length of \<^verbatim>\<open>vec![0; z * y * x]\<close>: the products wrap in \<^verbatim>\<open>usize\<close>.
\<close>

definition usize_volume :: "dims3 \<Rightarrow> nat" where
  "usize_volume = (\<lambda>(z, y, x). z * y mod 2 ^ 64 * x mod 2 ^ 64)"

definition box_filter_to_target :: "u16 list \<Rightarrow> dims3 \<Rightarrow> nat \<Rightarrow> (u16 list \<times> dims3) option" where
  "box_filter_to_target data dims target_long_axis =
     Option.bind (target_dims_for_long_axis dims target_long_axis) (\<lambda>out_dims.
       case (dims, out_dims) of ((in_z, in_y, in_x), (out_z, out_y, out_x)) \<Rightarrow>
         map_option (\<lambda>out. (out, out_dims)) (Option.bind (zeroed_vec 2 (usize_volume out_dims))
           (for_each (\<lambda>oz. for_each (\<lambda>oy. for_each (\<lambda>ox out.
             Option.bind (box_sum (\<lambda>z y x. index32 z in_y y in_x x) data (box_bounds oz out_z in_z) (box_bounds oy out_y in_y) (box_bounds ox out_x in_x)) (\<lambda>(acc, count).
               let avg = (if count = 0 then 0 else of_nat (acc div count))
               in store_at (index32 oz out_y oy out_x ox) avg out))
             [0..<out_x]) [0..<out_y]) [0..<out_z])))"

definition proxy_header_for :: "(bytes \<Rightarrow> bytes) \<Rightarrow> (f64 \<Rightarrow> bytes) \<Rightarrow> proxy_spec \<Rightarrow> dataset_manifest \<Rightarrow> dims3 \<Rightarrow> proxy_header" where
  "proxy_header_for blake3 f64_le spec content dims =
     \<lparr>ph_algorithm_version = ALGORITHM_VERSION,
      ph_source_content_hash = source_content_hash blake3 f64_le content (ps_entity_id spec) (ps_t spec) (ps_c spec),
      ph_dims = dims, ph_dtype = ProxyU16\<rparr>"

definition downsample_tile :: "(bytes \<Rightarrow> bytes) \<Rightarrow> (f64 \<Rightarrow> bytes) \<Rightarrow> 'e proxy_source \<Rightarrow> proxy_spec \<Rightarrow> dataset_manifest \<Rightarrow> entity \<Rightarrow> ('e proxy_error + proxy_asset) option" where
  "downsample_tile blake3 f64_le source spec content entity =
     opt_bind (pick_image_level content (ent_id entity) (ps_target_long_axis spec)) (\<lambda>(im, level_index).
     opt_bind (res_map_err SourceFailed (source (im_id im) (ps_t spec) (ps_c spec) level_index)) (\<lambda>volume.
       map_option (\<lambda>(voxels, dims). Inr \<lparr>pa_header = proxy_header_for blake3 f64_le spec content dims, pa_voxels = voxels\<rparr>)
         (box_filter_to_target (tv_data volume) (tv_dims volume) (ps_target_long_axis spec))))"

section \<open>Group proxies\<close>

text \<open>Gauss-Jordan elimination on the rows of the matrix and of the identity.\<close>

definition swap_rows :: "nat \<Rightarrow> nat \<Rightarrow> 'a list \<Rightarrow> 'a list" where
  "swap_rows i j rows = rows[i := rows ! j, j := rows ! i]"

definition find_pivot :: "f64 list list \<Rightarrow> nat \<Rightarrow> nat \<times> f64" where
  "find_pivot a col =
     fold (\<lambda>row (pivot_row, pivot_val). let v = fabs (a ! row ! col) in if v > pivot_val then (row, v) else (pivot_row, pivot_val))
       [col + 1..<4] (col, fabs (a ! col ! col))"

definition eliminate_row :: "nat \<Rightarrow> nat \<Rightarrow> f64 list list \<times> f64 list list \<Rightarrow> f64 list list \<times> f64 list list" where
  "eliminate_row col row = (\<lambda>(a, inv).
     if row = col then (a, inv)
     else let factor = a ! row ! col
     in if feq factor 0 then (a, inv)
        else (a[row := map (\<lambda>j. a ! row ! j - factor * a ! col ! j) [0..<4]],
              inv[row := map (\<lambda>j. inv ! row ! j - factor * inv ! col ! j) [0..<4]]))"

definition pivot_column :: "nat \<Rightarrow> f64 list list \<times> f64 list list \<Rightarrow> (f64 list list \<times> f64 list list) option" where
  "pivot_column col = (\<lambda>(a, inv).
     case find_pivot a col of (pivot_row, pivot_val) \<Rightarrow>
       if pivot_val < flit (1 / 10 ^ 18) then None
       else let a = swap_rows col pivot_row a; inv = swap_rows col pivot_row inv; pivot = a ! col ! col;
                a = a[col := map (\<lambda>v. v / pivot) (a ! col)]; inv = inv[col := map (\<lambda>v. v / pivot) (inv ! col)]
            in Some (fold (eliminate_row col) [0..<4] (a, inv)))"

definition invert :: "mat4 \<Rightarrow> mat4 option" where
  "invert m =
     map_option (\<lambda>(_, inv). concat (map (\<lambda>col. map (\<lambda>row. inv ! row ! col) [0..<4]) [0..<4]))
       (for_each pivot_column [0..<4]
         (map (\<lambda>row. map (\<lambda>col. m ! (col * 4 + row)) [0..<4]) [0..<4], map (\<lambda>i. map (\<lambda>j. if i = j then 1 else 0) [0..<4]) [0..<4]))"

record tile_entry =
  en_volume :: tile_volume
  en_voxel_to_group :: mat4
  en_group_to_voxel :: mat4

definition read_entry :: "'e proxy_source \<Rightarrow> proxy_spec \<Rightarrow> dataset_manifest \<Rightarrow> entity_id \<Rightarrow> entity \<Rightarrow> 'e proxy_error + tile_entry" where
  "read_entry source spec content group_id tile =
     res_bind (pick_image_level content (ent_id tile) (ps_target_long_axis spec)) (\<lambda>(im, level_index).
     res_bind (res_map_err SourceFailed (source (im_id im) (ps_t spec) (ps_c spec) level_index)) (\<lambda>volume.
       let voxel_to_group = compose (find_tile_to_group content (ent_id tile) group_id) (tv_voxel_to_image volume)
       in Inr \<lparr>en_volume = volume, en_voxel_to_group = voxel_to_group,
               en_group_to_voxel = (case invert voxel_to_group of Some m \<Rightarrow> m | None \<Rightarrow> matrix_identity)\<rparr>))"

text \<open>The range sampled along one axis of a tile around a position.\<close>

definition sample_range :: "f64 \<Rightarrow> nat \<Rightarrow> f64 \<Rightarrow> f64 \<Rightarrow> nat \<times> nat" where
  "sample_range pos n len voxel_w =
     (let half = fmax (u32_f64 n / len * voxel_w * flit (1 / 2)) (flit (1 / 2))
      in (f64_as_u32 (fmax (ffloor (pos - half)) 0), min (f64_as_u32 (fceil (pos + half))) n))"

definition index64 :: "nat \<Rightarrow> nat \<Rightarrow> nat \<Rightarrow> nat \<Rightarrow> nat \<Rightarrow> nat" where
  "index64 z ny y nx x = ((z * ny + y) * nx mod 2 ^ 64 + x) mod 2 ^ 64"

definition voxel_center :: "f64 \<Rightarrow> nat \<Rightarrow> f64 \<Rightarrow> f64" where
  "voxel_center lo i w = lo + (u32_f64 i + flit (1 / 2)) * w"

text \<open>What one tile adds to one output voxel: nothing, or the mean of its samples there.\<close>

definition tile_sample :: "tile_entry \<Rightarrow> vec3 \<Rightarrow> vec3 \<Rightarrow> vec3 \<Rightarrow> nat option option" where
  "tile_sample entry lens widths center =
     (case (tv_dims (en_volume entry), proxy_transform_point (en_group_to_voxel entry) center, lens, widths) of
        ((nz, ny, nx), (in_x, in_y, in_z), (len_x, len_y, len_z), (w_x, w_y, w_z)) \<Rightarrow>
        if in_x < 0 \<or> in_y < 0 \<or> in_z < 0 then Some None
        else if u32_f64 nx \<le> in_x \<or> u32_f64 ny \<le> in_y \<or> u32_f64 nz \<le> in_z then Some None
        else let xs = sample_range in_x nx len_x w_x; ys = sample_range in_y ny len_y w_y; zs = sample_range in_z nz len_z w_z
        in if snd xs \<le> fst xs \<or> snd ys \<le> fst ys \<or> snd zs \<le> fst zs then Some None
           else map_option (\<lambda>(acc, count). if count = 0 then None else Some (acc div count))
             (box_sum (\<lambda>z y x. index64 z ny y nx x) (tv_data (en_volume entry)) zs ys xs))"

definition add_sample :: "nat \<Rightarrow> nat option \<Rightarrow> nat list \<times> nat list \<Rightarrow> (nat list \<times> nat list) option" where
  "add_sample oi avg = (\<lambda>(acc, count).
     case avg of
       None \<Rightarrow> Some (acc, count)
     | Some avg \<Rightarrow>
         Option.bind (index_at acc oi) (\<lambda>a. Option.bind (store_at oi ((a + avg) mod 2 ^ 64) acc) (\<lambda>acc.
         Option.bind (index_at count oi) (\<lambda>c. map_option (\<lambda>count. (acc, count)) (store_at oi (as_u32 (c + 1)) count)))))"

definition box_lens :: "box3 \<Rightarrow> vec3" where
  "box_lens = (\<lambda>((min0, max0), (min1, max1), (min2, max2)). (max0 - min0, max1 - min1, max2 - min2))"

definition box_mins :: "box3 \<Rightarrow> vec3" where
  "box_mins = (\<lambda>((min0, max0), (min1, max1), (min2, max2)). (min0, min1, min2))"

definition splat_entry :: "box3 \<Rightarrow> dims3 \<Rightarrow> tile_entry \<Rightarrow> nat list \<times> nat list \<Rightarrow> (nat list \<times> nat list) option" where
  "splat_entry bounds out_dims entry =
     (case (out_dims, box_lens bounds, box_mins bounds) of ((out_z, out_y, out_x), (len_x, len_y, len_z), (min_x, min_y, min_z)) \<Rightarrow>
        let w_x = len_x / u32_f64 out_x; w_y = len_y / u32_f64 out_y; w_z = len_z / u32_f64 out_z
        in for_each (\<lambda>oz. for_each (\<lambda>oy. for_each (\<lambda>ox st.
             Option.bind (tile_sample entry (len_x, len_y, len_z) (w_x, w_y, w_z) (voxel_center min_x ox w_x, voxel_center min_y oy w_y, voxel_center min_z oz w_z))
               (\<lambda>avg. add_sample (index32 oz out_y oy out_x ox) avg st))
             [0..<out_x]) [0..<out_y]) [0..<out_z])"

definition aggregate_group :: "(bytes \<Rightarrow> bytes) \<Rightarrow> (f64 \<Rightarrow> bytes) \<Rightarrow> 'e proxy_source \<Rightarrow> proxy_spec \<Rightarrow> dataset_manifest \<Rightarrow> entity \<Rightarrow> ('e proxy_error + proxy_asset) option" where
  "aggregate_group blake3 f64_le source spec content entity =
     (if ent_kind entity \<noteq> EGroup then downsample_tile blake3 f64_le source spec content entity
      else let tiles = group_tiles content (ent_id entity)
      in if tiles = [] then Some (Inl (NoTiles (ent_id entity)))
         else opt_bind (res_collect (read_entry source spec content (ent_id entity)) tiles) (\<lambda>entries.
           let bounds = fold widen_by_volume (map (\<lambda>entry. (tv_dims (en_volume entry), en_voxel_to_group entry)) entries) empty_box;
               out_dims = box_dims bounds (ps_target_long_axis spec);
               n = usize_volume out_dims
           in map_option (\<lambda>(acc, count).
                Inr \<lparr>pa_header = proxy_header_for blake3 f64_le spec content out_dims,
                     pa_voxels = map (\<lambda>(a, c). if c = 0 then 0 else of_nat (a div c)) (zip acc count)\<rparr>)
              (Option.bind (zeroed_vec 8 n) (\<lambda>acc. Option.bind (zeroed_vec 4 n) (\<lambda>count.
                for_each (splat_entry bounds out_dims) entries (acc, count))))))"

definition generate_proxy :: "(bytes \<Rightarrow> bytes) \<Rightarrow> (f64 \<Rightarrow> bytes) \<Rightarrow> 'e proxy_source \<Rightarrow> proxy_spec \<Rightarrow> dataset_manifest \<Rightarrow> ('e proxy_error + proxy_asset) option" where
  "generate_proxy blake3 f64_le source spec content =
     opt_bind (find_entity spec content) (\<lambda>entity.
       case ps_kind spec of
         TileProxy3D \<Rightarrow> downsample_tile blake3 f64_le source spec content entity
       | GroupProxy3D \<Rightarrow> aggregate_group blake3 f64_le source spec content entity)"

section \<open>The header round trip\<close>

lemma copy_into_length: "copy_into pos n src buf = Some buf' \<Longrightarrow> length buf' = length buf"
  by (auto simp: copy_into_def split: if_splits)

lemma copy_segment:
  "length pre = pos \<Longrightarrow> length old = n \<Longrightarrow> length src = n \<Longrightarrow> copy_into pos n src (pre @ old @ post) = Some (pre @ src @ post)"
  by (simp add: copy_into_def)

lemma copy_zeros:
  assumes "length pre = pos" "length src = n" "n \<le> m"
  shows "copy_into pos n src (pre @ replicate m 0) = Some (pre @ src @ replicate (m - n) 0)"
  using copy_segment [OF assms(1) _ assms(2), of "replicate n 0" "replicate (m - n) 0"] assms(3) by (simp flip: replicate_add)

lemma write_header_layout:
  assumes "length (ph_source_content_hash h) = 32" "ph_dims h = (z, y, x)"
  shows "write_header h = Some (MAGIC @ le_bytes 4 (ph_algorithm_version h) @ le_bytes 4 z @ le_bytes 4 y @ le_bytes 4 x
    @ le_bytes 4 (dtype_as_u32 (ph_dtype h)) @ ph_source_content_hash h @ replicate 8 0)"
proof -
  have m: "length MAGIC = 4" by (simp add: MAGIC_def str_bytes_def)
  let ?v = "le_bytes 4 (ph_algorithm_version h)" and ?t = "le_bytes 4 (dtype_as_u32 (ph_dtype h))"
  let ?z = "le_bytes 4 z" and ?y = "le_bytes 4 y" and ?x = "le_bytes 4 x"
  have "copy_into 0 4 MAGIC (replicate 64 0) = Some (MAGIC @ replicate 60 0)"
    using copy_zeros [of "[]" 0 MAGIC 4 64] m by simp
  moreover have "copy_into 4 4 ?v (MAGIC @ replicate 60 0) = Some ((MAGIC @ ?v) @ replicate 56 0)"
    using copy_zeros [of MAGIC 4 ?v 4 60] m by simp
  moreover have "copy_into 8 4 ?z ((MAGIC @ ?v) @ replicate 56 0) = Some ((MAGIC @ ?v @ ?z) @ replicate 52 0)"
    using copy_zeros [of "MAGIC @ ?v" 8 ?z 4 56] m by simp
  moreover have "copy_into 12 4 ?y ((MAGIC @ ?v @ ?z) @ replicate 52 0) = Some ((MAGIC @ ?v @ ?z @ ?y) @ replicate 48 0)"
    using copy_zeros [of "MAGIC @ ?v @ ?z" 12 ?y 4 52] m by simp
  moreover have "copy_into 16 4 ?x ((MAGIC @ ?v @ ?z @ ?y) @ replicate 48 0) = Some ((MAGIC @ ?v @ ?z @ ?y @ ?x) @ replicate 44 0)"
    using copy_zeros [of "MAGIC @ ?v @ ?z @ ?y" 16 ?x 4 48] m by simp
  moreover have "copy_into 20 4 ?t ((MAGIC @ ?v @ ?z @ ?y @ ?x) @ replicate 44 0) = Some ((MAGIC @ ?v @ ?z @ ?y @ ?x @ ?t) @ replicate 40 0)"
    using copy_zeros [of "MAGIC @ ?v @ ?z @ ?y @ ?x" 20 ?t 4 44] m by simp
  moreover have "copy_into 24 32 (ph_source_content_hash h) ((MAGIC @ ?v @ ?z @ ?y @ ?x @ ?t) @ replicate 40 0)
      = Some ((MAGIC @ ?v @ ?z @ ?y @ ?x @ ?t) @ ph_source_content_hash h @ replicate 8 0)"
    using copy_zeros [of "MAGIC @ ?v @ ?z @ ?y @ ?x @ ?t" 24 "ph_source_content_hash h" 32 40] m assms(1) by simp
  ultimately show ?thesis
    unfolding write_header_def HEADER_LEN_def assms(2) prod.case by (simp del: le_bytes.simps replicate.simps)
qed

definition header_ok :: "proxy_header \<Rightarrow> bool" where
  "header_ok h \<longleftrightarrow> ph_algorithm_version h = ALGORITHM_VERSION \<and> length (ph_source_content_hash h) = 32
     \<and> (case ph_dims h of (z, y, x) \<Rightarrow> z < 2 ^ 32 \<and> y < 2 ^ 32 \<and> x < 2 ^ 32)"

lemma take_segment: "length pre = p \<Longrightarrow> length seg = n \<Longrightarrow> take n (drop p (pre @ seg @ post)) = seg"
  by simp

lemma drop_segment: "length pre = p \<Longrightarrow> drop p (pre @ post) = post"
  by simp

lemma read_header_fields:
  assumes "\<not> length r < 64" "take 64 r = b" "drop 64 r = rest" "take 4 b = m" "hdr_u32 b 4 = v" "hdr_u32 b 8 = z" "hdr_u32 b 12 = y"
    "hdr_u32 b 16 = x" "hdr_u32 b 20 = d" "take 32 (drop 24 b) = hs"
  shows "read_header r =
    (if m \<noteq> MAGIC then Inl (BadMagic m) else if v \<noteq> ALGORITHM_VERSION then Inl (VersionMismatch v) else if d \<noteq> 0 then Inl (UnknownDtype d)
     else Inr (\<lparr>ph_algorithm_version = v, ph_source_content_hash = hs, ph_dims = (z, y, x), ph_dtype = ProxyU16\<rparr>, rest))"
  using assms by (simp add: read_header_def HEADER_LEN_def dtype_from_u32_def Let_def)

lemma read_header_layout:
  assumes "length m = 4" "length v = 4" "length z = 4" "length y = 4" "length x = 4" "length d = 4" "length hs = 32" "length u = 8"
  shows "read_header (m @ v @ z @ y @ x @ d @ hs @ u @ rest) =
    (if m \<noteq> MAGIC then Inl (BadMagic m)
     else if le_nat v \<noteq> ALGORITHM_VERSION then Inl (VersionMismatch (le_nat v))
     else if le_nat d \<noteq> 0 then Inl (UnknownDtype (le_nat d))
     else Inr (\<lparr>ph_algorithm_version = le_nat v, ph_source_content_hash = hs, ph_dims = (le_nat z, le_nat y, le_nat x), ph_dtype = ProxyU16\<rparr>, rest))"
proof -
  have buf: "take 64 (m @ v @ z @ y @ x @ d @ hs @ u @ rest) = m @ v @ z @ y @ x @ d @ hs @ u" "drop 64 (m @ v @ z @ y @ x @ d @ hs @ u @ rest) = rest"
    using take_segment [of "[]" 0 "m @ v @ z @ y @ x @ d @ hs @ u" 64 rest] drop_segment [of "m @ v @ z @ y @ x @ d @ hs @ u" 64 rest] assms
    by (simp_all del: take_append drop_append)
  let ?b = "m @ v @ z @ y @ x @ d @ hs @ u"
  have "take 4 ?b = m" using take_segment [of "[]" 0 m 4] assms by (simp del: take_append drop_append)
  moreover have "hdr_u32 ?b 4 = le_nat v" using take_segment [of m 4 v 4] assms by (simp add: hdr_u32_def del: take_append drop_append)
  moreover have "hdr_u32 ?b 8 = le_nat z" using take_segment [of "m @ v" 8 z 4] assms by (simp add: hdr_u32_def del: take_append drop_append)
  moreover have "hdr_u32 ?b 12 = le_nat y" using take_segment [of "m @ v @ z" 12 y 4] assms by (simp add: hdr_u32_def del: take_append drop_append)
  moreover have "hdr_u32 ?b 16 = le_nat x" using take_segment [of "m @ v @ z @ y" 16 x 4] assms by (simp add: hdr_u32_def del: take_append drop_append)
  moreover have "hdr_u32 ?b 20 = le_nat d" using take_segment [of "m @ v @ z @ y @ x" 20 d 4] assms by (simp add: hdr_u32_def del: take_append drop_append)
  moreover have "take 32 (drop 24 ?b) = hs" using take_segment [of "m @ v @ z @ y @ x @ d" 24 hs 32] assms by (simp del: take_append drop_append)
  moreover have "\<not> length (m @ v @ z @ y @ x @ d @ hs @ u @ rest) < 64" using assms by simp
  ultimately show ?thesis by (rule read_header_fields [OF _ buf, rotated 1])
qed

lemma header_segments:
  fixes r :: bytes
  assumes "64 \<le> length r"
  obtains m v z y x d hs u rest where "r = m @ v @ z @ y @ x @ d @ hs @ u @ rest" "length m = 4" "length v = 4" "length z = 4" "length y = 4"
    "length x = 4" "length d = 4" "length hs = 32" "length u = 8"
proof (rule that)
  show "r = take 4 r @ take 4 (drop 4 r) @ take 4 (drop 8 r) @ take 4 (drop 12 r) @ take 4 (drop 16 r) @ take 4 (drop 20 r)
      @ take 32 (drop 24 r) @ take 8 (drop 56 r) @ drop 64 r"
  proof -
    have peel: "drop n r = take k (drop n r) @ drop (k + n) r" for n k by (metis append_take_drop_id drop_drop)
    have "r = take 4 r @ drop 4 r" by simp
    also note peel [of 4 4, simplified]
    also note peel [of 8 4, simplified]
    also note peel [of 12 4, simplified]
    also note peel [of 16 4, simplified]
    also note peel [of 20 4, simplified]
    also note peel [of 24 32, simplified]
    also note peel [of 56 8, simplified]
    finally show ?thesis .
  qed
qed (use assms in simp_all)

lemma read_header_write:
  assumes h: "header_ok h"
  shows "\<exists>b. write_header h = Some b \<and> length b = 64 \<and> read_header (b @ rest) = Inr (h, rest)"
proof -
  obtain z y x where d: "ph_dims h = (z, y, x)" by (cases "ph_dims h")
  let ?b = "MAGIC @ le_bytes 4 (ph_algorithm_version h) @ le_bytes 4 z @ le_bytes 4 y @ le_bytes 4 x
    @ le_bytes 4 (dtype_as_u32 (ph_dtype h)) @ ph_source_content_hash h @ replicate 8 0"
  have w: "write_header h = Some ?b" and l: "length ?b = 64"
    using h write_header_layout [OF _ d] by (simp_all add: header_ok_def MAGIC_def str_bytes_def)
  have t: "dtype_as_u32 (ph_dtype h) = 0" "ph_dtype h = ProxyU16" by (cases "ph_dtype h"; simp)+
  have n: "le_nat (le_bytes 4 n) = n" if "n < 2 ^ 32" for n using le_nat_bytes [of n 4] that by simp
  have "read_header (?b @ rest) = Inr (h, rest)"
    using h n t read_header_layout [of MAGIC "le_bytes 4 (ph_algorithm_version h)" "le_bytes 4 z" "le_bytes 4 y" "le_bytes 4 x"
        "le_bytes 4 (dtype_as_u32 (ph_dtype h))" "ph_source_content_hash h" "replicate 8 0" rest]
    by (simp add: header_ok_def d MAGIC_def str_bytes_def ALGORITHM_VERSION_def del: le_bytes.simps le_nat.simps)
  with w l show ?thesis by blast
qed

lemma read_header_accepts:
  assumes "64 \<le> length r"
  shows "(\<exists>h' rest'. read_header r = Inr (h', rest')) \<longleftrightarrow> take 4 r = MAGIC \<and> hdr_u32 r 4 = ALGORITHM_VERSION \<and> hdr_u32 r 20 = 0"
    "read_header r = Inr (h', rest') \<Longrightarrow> header_ok h' \<and> rest' = drop 64 r \<and> (\<exists>b. write_header h' = Some b \<and> take 56 b = take 56 r)"
proof -
  obtain m v z y x d hs u rest where r: "r = m @ v @ z @ y @ x @ d @ hs @ u @ rest" and l: "length m = 4" "length v = 4" "length z = 4" "length y = 4"
    "length x = 4" "length d = 4" "length hs = 32" "length u = 8" using header_segments [OF assms] .
  note R = read_header_layout [OF l, of rest, folded r]
  have at: "take 4 r = m" "hdr_u32 r 4 = le_nat v" "hdr_u32 r 20 = le_nat d" "drop 64 r = rest" "take 56 r = m @ v @ z @ y @ x @ d @ hs"
    using take_segment [of "[]" 0 m 4 "v @ z @ y @ x @ d @ hs @ u @ rest"] take_segment [of m 4 v 4 "z @ y @ x @ d @ hs @ u @ rest"]
      take_segment [of "m @ v @ z @ y @ x" 20 d 4 "hs @ u @ rest"] drop_segment [of "m @ v @ z @ y @ x @ d @ hs @ u" 64 rest]
      take_segment [of "[]" 0 "m @ v @ z @ y @ x @ d @ hs" 56 "u @ rest"] l
    by (simp_all add: r hdr_u32_def del: take_append drop_append)
  show "(\<exists>h' rest'. read_header r = Inr (h', rest')) \<longleftrightarrow> take 4 r = MAGIC \<and> hdr_u32 r 4 = ALGORITHM_VERSION \<and> hdr_u32 r 20 = 0"
    unfolding R at by simp
  show "header_ok h' \<and> rest' = drop 64 r \<and> (\<exists>b. write_header h' = Some b \<and> take 56 b = take 56 r)" if "read_header r = Inr (h', rest')"
  proof -
    have ok: "m = MAGIC" "le_nat v = ALGORITHM_VERSION" "le_nat d = 0" "rest' = rest"
      "h' = \<lparr>ph_algorithm_version = le_nat v, ph_source_content_hash = hs, ph_dims = (le_nat z, le_nat y, le_nat x), ph_dtype = ProxyU16\<rparr>"
      using that unfolding R by (auto split: if_splits)
    have b: "le_bytes 4 (le_nat s) = s" "le_nat s < 2 ^ 32" if "length s = 4" for s
      using le_bytes_nat [of s] le_nat_bound [of s] that by simp_all
    have "le_bytes 4 0 = d" using b(1) [OF l(6)] ok(3) by simp
    then have "write_header h' = Some (m @ v @ z @ y @ x @ d @ hs @ replicate 8 0)"
      using write_header_layout [of h'] l b(1) by (simp add: ok(5) flip: ok(1) del: le_bytes.simps le_nat.simps)
    moreover have "header_ok h'" using l b(2) ok(2) by (simp add: ok(5) header_ok_def)
    ultimately show ?thesis using l ok(4) unfolding at by simp
  qed
qed

text \<open>
  A stored proxy header reads back. Writing always gives 64 bytes, without a panic; reading them
  gives the header again and leaves what follows it; and whatever bytes are read, they are accepted
  exactly when they are 64 or more, start with the magic and hold the current version and a known
  sample type, in which case writing the header that was read gives the same first 56 bytes.
\<close>
theorem header_round_trip:
  "(header_ok h \<longrightarrow> (\<exists>b. write_header h = Some b \<and> length b = 64 \<and> read_header (b @ rest) = Inr (h, rest)))
   \<and> ((\<exists>h' rest'. read_header r = Inr (h', rest')) \<longleftrightarrow> 64 \<le> length r \<and> take 4 r = MAGIC \<and> hdr_u32 r 4 = ALGORITHM_VERSION \<and> hdr_u32 r 20 = 0)
   \<and> (\<forall>h' rest'. read_header r = Inr (h', rest') \<longrightarrow>
        header_ok h' \<and> rest' = drop 64 r \<and> (\<exists>b. write_header h' = Some b \<and> take 56 b = take 56 r))"
proof -
  have "read_header r = Inl UnexpectedEof" if "\<not> 64 \<le> length r" using that by (simp add: read_header_def HEADER_LEN_def)
  then show ?thesis using read_header_write read_header_accepts by (cases "64 \<le> length r") auto
qed

theorem header_round_trip_witness:
  "\<exists>b. write_header \<lparr>ph_algorithm_version = 1, ph_source_content_hash = replicate 32 7, ph_dims = (3, 4, 5), ph_dtype = ProxyU16\<rparr> = Some b
     \<and> read_header (b @ [9]) = Inr (\<lparr>ph_algorithm_version = 1, ph_source_content_hash = replicate 32 7, ph_dims = (3, 4, 5), ph_dtype = ProxyU16\<rparr>, [9])"
proof -
  have "header_ok \<lparr>ph_algorithm_version = 1, ph_source_content_hash = replicate 32 7, ph_dims = (3, 4, 5), ph_dtype = ProxyU16\<rparr>"
    by (simp add: header_ok_def ALGORITHM_VERSION_def)
  with conjunct1 [OF header_round_trip] show ?thesis by blast
qed

section \<open>Loops over boxes\<close>

lemma for_each_concat: "for_each f (concat (map h xs)) = for_each (\<lambda>x. for_each f (h x)) xs"
proof
  show "for_each f (concat (map h xs)) s = for_each (\<lambda>x. for_each f (h x)) xs s" for s
    by (induction xs arbitrary: s) (auto simp: for_each_append split: bind_splits)
qed

lemma for_each_cells:
  "for_each (\<lambda>z. for_each (\<lambda>y. for_each (f z y) xs) ys) zs s = for_each (\<lambda>(z, y, x). f z y x) (grid_cells zs ys xs) s"
  by (simp add: grid_cells_def for_each_concat for_each_map)

lemma for_each_keeps:
  assumes "\<And>x s s'. x \<in> set xs \<Longrightarrow> P s \<Longrightarrow> f x s = Some s' \<Longrightarrow> P s'" "for_each f xs s = Some s'" "P s"
  shows "P s'"
  using assms
proof (induction xs arbitrary: s)
  case (Cons x xs)
  from Cons.prems(2) obtain s1 where s1: "f x s = Some s1" "for_each f xs s1 = Some s'" by (auto split: bind_splits)
  with Cons.prems(1,3) have "P s1" by (meson list.set_intros(1))
  with Cons.IH [OF _ s1(2)] Cons.prems(1) show ?case by (meson list.set_intros(2))
qed simp

lemma for_each_total:
  assumes "\<And>x s. x \<in> set xs \<Longrightarrow> P s \<Longrightarrow> \<exists>s'. f x s = Some s' \<and> P s'" "P s"
  shows "\<exists>s'. for_each f xs s = Some s' \<and> P s'"
  using assms
proof (induction xs arbitrary: s)
  case (Cons x xs)
  from Cons.prems obtain s1 where s1: "f x s = Some s1" "P s1" by (meson list.set_intros(1))
  have "\<exists>s'. for_each f xs s1 = Some s' \<and> P s'" by (rule Cons.IH [OF _ s1(2)]) (use Cons.prems(1) in auto)
  with s1 show ?case by simp
qed simp

lemma length_grid_cells: "length (grid_cells zs ys xs) = length zs * length ys * length xs"
proof -
  have rows: "length (concat (map (\<lambda>row. map (\<lambda>col. (z, row, col)) xs) ys)) = length ys * length xs" for z
    by (induction ys) auto
  show ?thesis unfolding grid_cells_def by (induction zs) (auto simp: rows algebra_simps)
qed

definition range_cells :: "nat \<times> nat \<Rightarrow> nat \<times> nat \<Rightarrow> nat \<times> nat \<Rightarrow> (nat \<times> nat \<times> nat) list" where
  "range_cells zs ys xs = grid_cells [fst zs..<snd zs] [fst ys..<snd ys] [fst xs..<snd xs]"

lemma word_size_u16: "unat (w :: u16) < 2 ^ 16"
  using unsigned_less [of w] by simp

lemma box_sum_step:
  assumes "\<forall>(z, y, x) \<in> set cells. ix z y x < length data" "a < M" "c < M"
  shows "for_each (\<lambda>(z, y, x) (acc, count). map_option (\<lambda>v. ((acc + unat v) mod M, (count + 1) mod M)) (index_at data (ix z y x))) cells (a, c)
    = Some ((a + (\<Sum>(z, y, x) \<leftarrow> cells. unat (data ! ix z y x))) mod M, (c + length cells) mod M)"
  using assms
proof (induction cells arbitrary: a c)
  case (Cons cell cells)
  obtain z y x where cell: "cell = (z, y, x)" by (cases cell)
  from Cons.prems have i: "index_at data (ix z y x) = Some (data ! ix z y x)" by (simp add: cell index_at_def)
  have M: "(a + v) mod M < M" "(c + 1) mod M < M" for v using Cons.prems(2) by simp_all
  from Cons.prems(1) have "\<forall>(z, y, x) \<in> set cells. ix z y x < length data" by simp
  note IH = Cons.IH [OF this M(1) [of "unat (data ! ix z y x)"] M(2)]
  show ?case unfolding cell using IH by (simp add: i mod_add_left_eq add.assoc)
qed simp

lemma box_sum_exact:
  assumes "\<forall>(z, y, x) \<in> set (range_cells zs ys xs). ix z y x < length data" "length (range_cells zs ys xs) \<le> 2 ^ 32"
  shows "box_sum ix data zs ys xs = Some (\<Sum>(z, y, x) \<leftarrow> range_cells zs ys xs. unat (data ! ix z y x), length (range_cells zs ys xs))"
proof -
  let ?L = "range_cells zs ys xs" and ?f = "\<lambda>(z, y, x). unat (data ! ix z y x)"
  have "sum_list (map ?f cells) \<le> length cells * 2 ^ 16" for cells
  proof (induction cells)
    case (Cons cell cells)
    obtain z y x where "cell = (z, y, x)" by (cases cell)
    then show ?case using Cons word_size_u16 [of "data ! ix z y x"] by simp
  qed simp
  from this [of ?L] assms(2) have "sum_list (map ?f ?L) < 2 ^ 64" "length ?L < 2 ^ 64" by simp_all
  then show ?thesis
    using box_sum_step [OF assms(1), of 0 "2 ^ 64" 0] by (simp add: box_sum_def for_each_cells range_cells_def)
qed

lemma box_sum_some:
  assumes "\<forall>(z, y, x) \<in> set (range_cells zs ys xs). ix z y x < length data"
  shows "\<exists>r. box_sum ix data zs ys xs = Some r"
  using box_sum_step [OF assms, of 0 "2 ^ 64" 0] by (simp add: box_sum_def for_each_cells range_cells_def)

section \<open>Boxes partition an axis\<close>

lemma box_bounds_exact:
  assumes "0 < out_size" "out_size \<le> in_size" "in_size < 2 ^ 32" "oi < out_size"
  shows "box_bounds oi out_size in_size = (oi * in_size div out_size, (oi + 1) * in_size div out_size)"
    "oi * in_size div out_size < (oi + 1) * in_size div out_size" "(oi + 1) * in_size div out_size \<le> in_size"
proof -
  have "(oi + 1) * in_size \<le> out_size * in_size" using assms(4) by (intro mult_right_mono) auto
  then have hi: "(oi + 1) * in_size div out_size \<le> in_size"
    using div_le_mono [of "(oi + 1) * in_size" "out_size * in_size" out_size] assms(1) by simp
  have "(oi * in_size + out_size) div out_size \<le> (oi + 1) * in_size div out_size"
    using assms(2) by (intro div_le_mono) simp
  then have lt: "oi * in_size div out_size < (oi + 1) * in_size div out_size" using assms(1) by simp
  with hi assms(3) show "box_bounds oi out_size in_size = (oi * in_size div out_size, (oi + 1) * in_size div out_size)"
    by (simp add: box_bounds_def as_u32_def Let_def)
  show "oi * in_size div out_size < (oi + 1) * in_size div out_size" "(oi + 1) * in_size div out_size \<le> in_size" by (fact lt hi)+
qed

section \<open>Target sizes\<close>

lemma round_mag_rel:
  assumes "1 / 2 ^ 60 \<le> r"
  shows "\<bar>round_mag 53 (- 1074) r - r\<bar> \<le> r / 2 ^ 53"
proof -
  have "0 < (1::rat) / 2 ^ 60" by simp
  with assms have r: "0 < r" by linarith
  have "(2::rat) powi (- 1074) \<le> 2 powi (- 112)" by (rule power_int_increasing) auto
  also have "(2::rat) powi (- 112) = 1 / 2 ^ 60 / 2 ^ 52" by (simp add: power_int_def field_simps)
  also have "\<dots> \<le> r / 2 ^ 52" using assms by (rule divide_right_mono) simp
  finally have a: "(2::rat) powi (- 1074) \<le> r / 2 ^ 52" .
  have "(2::rat) powi (ilog2 r - 52) = 2 powi ilog2 r / 2 ^ 52" by (simp add: power_int_diff)
  also have "\<dots> \<le> r / 2 ^ 52" using ilog2_le [OF r] by (rule divide_right_mono) simp
  finally have "(2::rat) powi (max (ilog2 r - (53 - 1)) (- 1074)) \<le> r / 2 ^ 52" using a by (auto simp: max_def)
  with round_mag_near [OF r, of 53 "- 1074"] show ?thesis by (simp add: field_simps)
qed

text \<open>The product of an axis with the rounded scale, rounded, is at most a quarter off.\<close>

lemma small_frac: "(a::rat) < 2 ^ 33 \<Longrightarrow> a / 2 ^ 53 \<le> 1 / 8"
  by simp

lemma near_product:
  fixes n m T q :: rat
  assumes "1 \<le> n" "n \<le> m" "m < 2 ^ 32" "1 \<le> T" "T \<le> m" "\<bar>q - T / m\<bar> \<le> T / m / 2 ^ 53"
  defines "p \<equiv> round_mag 53 (- 1074) (n * q)"
  shows "fround False (n * q) = Fin False p" "0 \<le> p" "\<bar>p - n * (T / m)\<bar> \<le> 1 / 4" "p \<le> T + 1 / 4"
proof -
  have m: "1 \<le> m" "0 < m" using assms by linarith+
  let ?e = "n * (T / m)"
  have e: "?e \<le> T" using assms m by (simp add: pos_divide_le_eq mult_right_mono mult.commute)
  have e0: "1 / 2 ^ 32 \<le> ?e"
  proof -
    have "1 / 2 ^ 32 \<le> T / m" using assms m by (intro frac_le) auto
    also have "\<dots> \<le> n * (T / m)" using assms m mult_right_mono [of 1 n "T / m"] by simp
    finally show ?thesis .
  qed
  have "n * q - ?e = n * (q - T / m)" by (simp add: right_diff_distrib)
  then have "\<bar>n * q - ?e\<bar> = n * \<bar>q - T / m\<bar>" using assms(1) by (simp add: abs_mult)
  also have "\<dots> \<le> n * (T / m / 2 ^ 53)" using assms by (intro mult_left_mono) auto
  finally have d: "\<bar>n * q - ?e\<bar> \<le> ?e / 2 ^ 53" by simp
  have "0 \<le> ?e" by (rule order_trans [OF _ e0]) simp
  then have "?e / 2 ^ 53 \<le> ?e / 2" by (intro divide_left_mono) auto
  with d have a: "?e / 2 \<le> n * q" unfolding abs_le_iff by linarith
  have "?e < 2 ^ 32" using e assms by linarith
  then have "?e / 2 ^ 53 \<le> 1 / 8" by (intro small_frac) simp
  with d have b: "n * q \<le> ?e + 1 / 8" "?e - 1 / 8 \<le> n * q" unfolding abs_le_iff by linarith+
  have "n * q < 2 ^ 33" using b(1) \<open>?e < 2 ^ 32\<close> by simp
  then have c: "n * q / 2 ^ 53 \<le> 1 / 8" by (rule small_frac)
  have "1 / 2 ^ 32 / 2 \<le> ?e / 2" using e0 by (rule divide_right_mono) simp
  then have "1 / 2 ^ 32 / 2 \<le> n * q" using a by (rule order_trans)
  then have tiny: "1 / 2 ^ 60 \<le> n * q" by (rule order_trans [rotated]) simp
  then have "\<bar>p - n * q\<bar> \<le> n * q / 2 ^ 53" unfolding p_def by (rule round_mag_rel)
  with b c show pe: "\<bar>p - ?e\<bar> \<le> 1 / 4" unfolding abs_le_iff by linarith
  with e show pT: "p \<le> T + 1 / 4" unfolding abs_le_iff by linarith
  have nq: "0 \<le> n * q" by (rule order_trans [OF _ tiny]) simp
  then show "0 \<le> p" unfolding p_def by (rule round_mag_nonneg)
  have "(2::rat) ^ 40 \<le> 2 ^ 1024" by (rule power_increasing) auto
  moreover have "p \<le> 2 ^ 33" using pT assms by simp
  ultimately show "fround False (n * q) = Fin False p" using nq unfolding fround_def Let_def p_def by simp
qed

lemma target_scale:
  assumes "0 < t" "t \<le> m" "m < 2 ^ 32"
  obtains q where "u32_f64 t / u32_f64 m = Fin False q" "\<bar>q - of_nat t / of_nat m\<bar> \<le> of_nat t / of_nat m / 2 ^ 53"
proof -
  let ?T = "of_nat t :: rat" and ?M = "of_nat m :: rat" and ?q = "round_mag 53 (- 1074) (of_nat t / of_nat m)"
  have tm: "1 \<le> ?T" "?T \<le> ?M" "?M < 2 ^ 32" using assms of_nat_less_iff [of m "2 ^ 32", where ?'a = rat] by (simp_all add: Suc_leI)
  have "1 / 2 ^ 32 \<le> ?T / ?M" using tm by (intro frac_le) auto
  moreover have "1 / 2 ^ 60 \<le> 1 / (2 ^ 32 :: rat)" by simp
  ultimately have "1 / 2 ^ 60 \<le> ?T / ?M" by linarith
  then have q: "\<bar>?q - ?T / ?M\<bar> \<le> ?T / ?M / 2 ^ 53" by (rule round_mag_rel)
  have le1: "?T / ?M \<le> 1" using tm by simp
  then have "?T / ?M / 2 ^ 53 \<le> 1" by simp
  with q le1 have "?q \<le> 2" unfolding abs_le_iff by linarith
  moreover have "(2::rat) ^ 40 \<le> 2 ^ 1024" by (rule power_increasing) auto
  ultimately have "fround False (?T / ?M) = Fin False ?q" using tm unfolding fround_def Let_def by simp
  then have "u32_f64 t / u32_f64 m = Fin False ?q" using assms by (simp add: u32_f64_def divide_f64_def)
  with q that show ?thesis by blast
qed

lemma target_axis_range:
  assumes "0 < t" "t \<le> m" "m < 2 ^ 32" "0 < n" "n \<le> m"
  shows "\<exists>k. target_axis (u32_f64 t / u32_f64 m) n = Some k \<and> 0 < k \<and> k \<le> n \<and> k \<le> t \<and> (n = m \<longrightarrow> k = t)"
proof -
  obtain q where q: "u32_f64 t / u32_f64 m = Fin False q" "\<bar>q - of_nat t / of_nat m\<bar> \<le> of_nat t / of_nat m / 2 ^ 53"
    using target_scale [OF assms(1-3)] .
  have r: "1 \<le> (of_nat n :: rat)" "(of_nat n :: rat) \<le> of_nat m" "(of_nat m :: rat) < 2 ^ 32" "1 \<le> (of_nat t :: rat)" "(of_nat t :: rat) \<le> of_nat m"
    using assms of_nat_less_iff [of m "2 ^ 32", where ?'a = rat] by (simp_all add: Suc_leI)
  let ?p = "round_mag 53 (- 1074) (of_nat n * q)"
  note near = near_product [OF r q(2)]
  have "\<lfloor>?p + 1 / 2\<rfloor> < int t + 1" using near(4) by (subst floor_less_iff) simp
  then have le: "nat \<lfloor>?p + 1 / 2\<rfloor> \<le> t" by linarith
  have eq: "nat \<lfloor>?p + 1 / 2\<rfloor> = t" if "n = m"
  proof -
    have "of_nat n * (of_nat t / of_nat m) = (of_nat t :: rat)" using that assms(4) by simp
    with near(3) have "\<lfloor>?p + 1 / 2\<rfloor> = int t" unfolding abs_le_iff by (intro floor_unique; unfold of_int_of_nat_eq; linarith)
    then show ?thesis by simp
  qed
  have "target_axis (u32_f64 t / u32_f64 m) n = Some (max 1 (min n (min (2 ^ 32 - 1) (nat \<lfloor>?p + 1 / 2\<rfloor>))))"
    using near(1) assms(4) unfolding target_axis_def q(1) by (simp add: u32_f64_def times_f64_def u32_clamp_def)
  with le eq assms show ?thesis by auto
qed

lemma target_dims_range:
  assumes "0 < nz" "0 < ny" "0 < nx" "nz < 2 ^ 32" "ny < 2 ^ 32" "nx < 2 ^ 32" "0 < target"
  shows "\<exists>mz my mx. target_dims_for_long_axis (nz, ny, nx) target = Some (mz, my, mx)
    \<and> 0 < mz \<and> mz \<le> nz \<and> 0 < my \<and> my \<le> ny \<and> 0 < mx \<and> mx \<le> nx
    \<and> max (max mz my) mx = min target (max (max nz ny) nx)"
proof -
  define m where "m = max (max nz ny) nx"
  define t where "t = max (min target m) 1"
  have t: "0 < t" "t \<le> m" "m < 2 ^ 32" "t = min target m" and le: "nz \<le> m" "ny \<le> m" "nx \<le> m"
    using assms by (auto simp: m_def t_def)
  note A = target_axis_range [OF t(1-3)]
  obtain mz where z: "target_axis (u32_f64 t / u32_f64 m) nz = Some mz" "0 < mz" "mz \<le> nz" "mz \<le> t" "nz = m \<longrightarrow> mz = t"
    using A [OF assms(1) le(1)] by blast
  obtain my where y: "target_axis (u32_f64 t / u32_f64 m) ny = Some my" "0 < my" "my \<le> ny" "my \<le> t" "ny = m \<longrightarrow> my = t"
    using A [OF assms(2) le(2)] by blast
  obtain mx where x: "target_axis (u32_f64 t / u32_f64 m) nx = Some mx" "0 < mx" "mx \<le> nx" "mx \<le> t" "nx = m \<longrightarrow> mx = t"
    using A [OF assms(3) le(3)] by blast
  have dims: "target_dims_for_long_axis (nz, ny, nx) target = Some (mz, my, mx)"
    unfolding target_dims_for_long_axis_def Let_def prod.case m_def [symmetric] t_def [symmetric] z(1) y(1) x(1) by simp
  have "max (max mz my) mx = t" using z(4,5) y(4,5) x(4,5) by (auto simp: m_def max_def split: if_splits)
  then have "max (max mz my) mx = min target (max (max nz ny) nx)" using t(4) m_def by simp
  with dims show ?thesis using z(2,3) y(2,3) x(2,3) by blast
qed

section \<open>Tile proxies are box means\<close>

lemma index32_exact:
  assumes "z < nz" "y < ny" "x < nx" "nz * ny * nx < 2 ^ 32"
  shows "index32 z ny y nx x = (z * ny + y) * nx + x" "(z * ny + y) * nx + x < nz * ny * nx"
proof -
  have zy: "z * ny + y < nz * ny" using mixed_radix_less [OF assms(1,2)] .
  show all: "(z * ny + y) * nx + x < nz * ny * nx" using mixed_radix_less [OF zy assms(3)] .
  have "nz * ny \<le> nz * ny * nx" using assms(3) by simp
  with zy all assms(4) have "z * ny + y < 2 ^ 32" "(z * ny + y) * nx < 2 ^ 32" "(z * ny + y) * nx + x < 2 ^ 32" by linarith+
  then show "index32 z ny y nx x = (z * ny + y) * nx + x" by (simp add: index32_def u32_add_def u32_mul_def)
qed

lemma index32_inj:
  assumes "y < ny" "x < nx" "y' < ny" "x' < nx" "(z * ny + y) * nx + x = (z' * ny + y') * nx + (x'::nat)"
  shows "z = z' \<and> y = y' \<and> x = x'"
  using mixed_radix_inj [OF assms(2,4,5)] mixed_radix_inj [OF assms(1,3)] by blast

text \<open>The floor of the mean of the samples in a box, for a row-major volume.\<close>

definition box_mean :: "u16 list \<Rightarrow> nat \<Rightarrow> nat \<Rightarrow> nat \<times> nat \<Rightarrow> nat \<times> nat \<Rightarrow> nat \<times> nat \<Rightarrow> nat" where
  "box_mean data ny nx zs ys xs =
     (\<Sum>(z, y, x) \<leftarrow> range_cells zs ys xs. unat (data ! ((z * ny + y) * nx + x))) div length (range_cells zs ys xs)"

definition split_box :: "nat \<Rightarrow> nat \<Rightarrow> nat \<Rightarrow> nat \<times> nat" where
  "split_box m n i = (i * n div m, (i + 1) * n div m)"

text \<open>The boxes of an axis follow one another from its first sample to its last.\<close>

definition splits_axis :: "nat \<Rightarrow> nat \<Rightarrow> bool" where
  "splits_axis m n \<longleftrightarrow> 0 < m \<and> fst (split_box m n 0) = 0 \<and> snd (split_box m n (m - 1)) = n
     \<and> (\<forall>i < m. fst (split_box m n i) < snd (split_box m n i) \<and> snd (split_box m n i) = fst (split_box m n (i + 1)))"

lemma box_filter_cell:
  assumes "length data = nz * ny * nx" "nz * ny * nx < 2 ^ 32" "snd zs \<le> nz" "snd ys \<le> ny" "snd xs \<le> nx" "fst zs < snd zs" "fst ys < snd ys" "fst xs < snd xs"
  shows "box_sum (\<lambda>z y x. index32 z ny y nx x) data zs ys xs
      = Some (\<Sum>(z, y, x) \<leftarrow> range_cells zs ys xs. unat (data ! ((z * ny + y) * nx + x)), length (range_cells zs ys xs))"
    "0 < length (range_cells zs ys xs)"
proof -
  have cell: "z < nz \<and> y < ny \<and> x < nx" if "(z, y, x) \<in> set (range_cells zs ys xs)" for z y x
    using that assms(3-5) by (auto simp: range_cells_def)
  have ix: "index32 z ny y nx x = (z * ny + y) * nx + x" "index32 z ny y nx x < length data" if "(z, y, x) \<in> set (range_cells zs ys xs)" for z y x
    using index32_exact [of z nz y ny x nx] cell [OF that] assms(1,2) by auto
  have "length (range_cells zs ys xs) \<le> nz * ny * nx"
    using assms(3-5) by (simp add: range_cells_def length_grid_cells mult_le_mono)
  then have len: "length (range_cells zs ys xs) \<le> 2 ^ 32" using assms(2) by linarith
  have eq: "map (\<lambda>(z, y, x). unat (data ! index32 z ny y nx x)) (range_cells zs ys xs) = map (\<lambda>(z, y, x). unat (data ! ((z * ny + y) * nx + x))) (range_cells zs ys xs)"
    using ix(1) by (intro map_cong) auto
  have bound: "\<forall>(z, y, x) \<in> set (range_cells zs ys xs). index32 z ny y nx x < length data" using ix(2) by auto
  show "box_sum (\<lambda>z y x. index32 z ny y nx x) data zs ys xs
      = Some (\<Sum>(z, y, x) \<leftarrow> range_cells zs ys xs. unat (data ! ((z * ny + y) * nx + x)), length (range_cells zs ys xs))"
    unfolding box_sum_exact [OF bound len] eq by (rule refl)
  show "0 < length (range_cells zs ys xs)" using assms(6-8) by (simp add: range_cells_def length_grid_cells)
qed

lemma box_mean_small: "0 < length (range_cells zs ys xs) \<Longrightarrow> box_mean data ny nx zs ys xs < 2 ^ 16"
proof -
  assume pos: "0 < length (range_cells zs ys xs)"
  have "(\<Sum>(z, y, x) \<leftarrow> cells. unat (data ! ((z * ny + y) * nx + x))) \<le> length cells * (2 ^ 16 - 1)" for cells
  proof (induction cells)
    case (Cons cell cells)
    obtain z y x where "cell = (z, y, x)" by (cases cell)
    then show ?case using Cons word_size_u16 [of "data ! ((z * ny + y) * nx + x)"] by simp
  qed simp
  from div_le_mono [OF this [of "range_cells zs ys xs"], of "length (range_cells zs ys xs)"] pos
  have "box_mean data ny nx zs ys xs \<le> 2 ^ 16 - 1" by (simp add: box_mean_def)
  then show ?thesis by simp
qed

lemma split_box_range:
  assumes "0 < m" "m \<le> n" "n < 2 ^ 32" "i < m"
  shows "box_bounds i m n = split_box m n i" "fst (split_box m n i) < snd (split_box m n i)" "snd (split_box m n i) \<le> n"
  using box_bounds_exact [OF assms] by (simp_all add: split_box_def)

lemma usize_volume_exact: "z * y * x < 2 ^ 64 \<Longrightarrow> usize_volume (z, y, x) = z * y * x"
  unfolding usize_volume_def prod.case mod_mult_left_eq by simp

lemma zeroed_vec_small:
  assumes "z * y * x < 2 ^ 60" "k \<le> 8"
  shows "zeroed_vec k (usize_volume (z, y, x)) = Some (replicate (z * y * x) 0)"
proof -
  have "usize_volume (z, y, x) = z * y * x" using assms(1) by (intro usize_volume_exact) simp
  moreover have "z * y * x * k < 2 ^ 63"
  proof (rule le_less_trans)
    show "z * y * x * k \<le> z * y * x * 8" using assms(2) by (rule mult_le_mono2)
    show "z * y * x * 8 < 2 ^ 63" using mult_strict_right_mono [OF assms(1), of 8] by simp
  qed
  ultimately show ?thesis by (simp add: zeroed_vec_def)
qed

text \<open>The three output loops write every voxel once.\<close>

lemma box_filter_out:
  assumes data: "length data = nz * ny * nx" "nz * ny * nx < 2 ^ 32"
    and m: "0 < mz" "mz \<le> nz" "0 < my" "my \<le> ny" "0 < mx" "mx \<le> nx"
    and dims: "target_dims_for_long_axis (nz, ny, nx) target = Some (mz, my, mx)"
  obtains out where "box_filter_to_target data (nz, ny, nx) target = Some (out, (mz, my, mx))" "length out = mz * my * mx"
    "\<And>z y x. z < mz \<Longrightarrow> y < my \<Longrightarrow> x < mx \<Longrightarrow>
       unat (out ! ((z * my + y) * mx + x)) = box_mean data ny nx (split_box mz nz z) (split_box my ny y) (split_box mx nx x)"
proof -
  let ?v = "\<lambda>(z, y, x). of_nat (box_mean data ny nx (split_box mz nz z) (split_box my ny y) (split_box mx nx x)) :: u16"
  let ?p = "\<lambda>(z, y, x). (z * my + y) * mx + x"
  let ?cells = "grid_cells [0..<mz] [0..<my] [0..<mx]"
  have n: "nz < 2 ^ 32" "ny < 2 ^ 32" "nx < 2 ^ 32"
  proof -
    have "1 \<le> nz" "1 \<le> ny" "1 \<le> nx" using m by linarith+
    then have "nz \<le> nz * ny * nx" "ny \<le> nz * ny * nx" "nx \<le> nz * ny * nx" by simp_all
    with data(2) show "nz < 2 ^ 32" "ny < 2 ^ 32" "nx < 2 ^ 32" by linarith+
  qed
  have "mz * my * mx \<le> nz * ny * nx" using m by (intro mult_le_mono) auto
  with data(2) have m32: "mz * my * mx < 2 ^ 32" by linarith
  then have m60: "mz * my * mx < 2 ^ 60" by simp
  have body: "Option.bind (box_sum (\<lambda>z y x. index32 z ny y nx x) data (box_bounds oz mz nz) (box_bounds oy my ny) (box_bounds ox mx nx)) (\<lambda>(acc, count).
        let avg = (if count = 0 then 0 else of_nat (acc div count)) in store_at (index32 oz my oy mx ox) avg out)
      = store_at (?p (oz, oy, ox)) (?v (oz, oy, ox)) out" if "oz < mz" "oy < my" "ox < mx" for oz oy ox out
  proof -
    note b = split_box_range [OF m(1,2) n(1) that(1)] split_box_range [OF m(3,4) n(2) that(2)] split_box_range [OF m(5,6) n(3) that(3)]
    note c = box_filter_cell [OF data b(3,6,9,2,5,8)]
    show ?thesis unfolding b(1,4,7) c(1) using c(2) index32_exact(1) [OF that m32] by (simp add: box_mean_def Let_def)
  qed
  have "for_each (\<lambda>oz. for_each (\<lambda>oy. for_each (\<lambda>ox out.
      Option.bind (box_sum (\<lambda>z y x. index32 z ny y nx x) data (box_bounds oz mz nz) (box_bounds oy my ny) (box_bounds ox mx nx)) (\<lambda>(acc, count).
        let avg = (if count = 0 then 0 else of_nat (acc div count)) in store_at (index32 oz my oy mx ox) avg out))
      [0..<mx]) [0..<my]) [0..<mz] (replicate (mz * my * mx) 0) = for_each (\<lambda>c out. store_at (?p c) (?v c) out) ?cells (replicate (mz * my * mx) 0)"
    unfolding for_each_cells by (rule for_each_cong) (use body in auto)
  also have "\<dots> = Some (fold (\<lambda>c out. out[?p c := ?v c]) ?cells (replicate (mz * my * mx) 0))"
    by (rule for_each_scatter) (use index32_exact(2) [OF _ _ _ m32] in auto)
  finally have loop: "box_filter_to_target data (nz, ny, nx) target = Some (fold (\<lambda>c out. out[?p c := ?v c]) ?cells (replicate (mz * my * mx) 0), (mz, my, mx))"
    by (simp add: box_filter_to_target_def dims zeroed_vec_small [OF m60])
  have "unat (fold (\<lambda>c out. out[?p c := ?v c]) ?cells (replicate (mz * my * mx) 0) ! ((z * my + y) * mx + x))
      = box_mean data ny nx (split_box mz nz z) (split_box my ny y) (split_box mx nx x)" if zyx: "z < mz" "y < my" "x < mx" for z y x
  proof -
    note b = split_box_range [OF m(1,2) n(1) that(1)] split_box_range [OF m(3,4) n(2) that(2)] split_box_range [OF m(5,6) n(3) that(3)]
    have inj: "inj_on ?p (set ?cells)" by (auto simp: inj_on_def dest: index32_inj)
    have "fold (\<lambda>c out. out[?p c := ?v c]) ?cells (replicate (mz * my * mx) 0) ! ?p (z, y, x) = ?v (z, y, x)"
      by (rule scatter_at) (use inj zyx index32_exact(2) [OF zyx m32] in \<open>auto intro: distinct_grid_cells\<close>)
    moreover have "box_mean data ny nx (split_box mz nz z) (split_box my ny y) (split_box mx nx x) < 2 ^ 16"
      using box_filter_cell(2) [OF data b(3,6,9,2,5,8)] by (rule box_mean_small)
    ultimately show ?thesis by (simp add: unsigned_of_nat take_bit_nat_eq_self)
  qed
  moreover have "length (fold (\<lambda>c out. out[?p c := ?v c]) ?cells (replicate (mz * my * mx) 0)) = mz * my * mx"
    by (rule trans [OF scatter_length]) simp
  ultimately show ?thesis using loop that by blast
qed

text \<open>
  C33: a tile proxy is the tile, averaged. For a volume with a sample for every position, fewer than
  \<open>2 ^ 32\<close> of them, and any target, the filter returns a volume whose longest axis is exactly the target,
  or the longest axis of the source where that is shorter, with no axis longer than the source's;
  and each of its voxels is the floor of the mean of its box, where the boxes of an axis follow one
  another without gap or overlap from the first sample to the last.
\<close>
theorem tile_proxy_exact:
  assumes "0 < nz" "0 < ny" "0 < nx" "nz * ny * nx < 2 ^ 32" "length data = nz * ny * nx" "0 < target"
  shows "\<exists>out mz my mx. box_filter_to_target data (nz, ny, nx) target = Some (out, (mz, my, mx))
    \<and> length out = mz * my * mx \<and> mz \<le> nz \<and> my \<le> ny \<and> mx \<le> nx \<and> max (max mz my) mx = min target (max (max nz ny) nx)
    \<and> (\<forall>z < mz. \<forall>y < my. \<forall>x < mx. unat (out ! ((z * my + y) * mx + x)) = box_mean data ny nx (split_box mz nz z) (split_box my ny y) (split_box mx nx x))
    \<and> splits_axis mz nz \<and> splits_axis my ny \<and> splits_axis mx nx"
proof -
  have "1 \<le> nz" "1 \<le> ny" "1 \<le> nx" using assms by linarith+
  then have "nz \<le> nz * ny * nx" "ny \<le> nz * ny * nx" "nx \<le> nz * ny * nx" by simp_all
  with assms(4) have n: "nz < 2 ^ 32" "ny < 2 ^ 32" "nx < 2 ^ 32" by linarith+
  obtain mz my mx where m: "target_dims_for_long_axis (nz, ny, nx) target = Some (mz, my, mx)"
    "0 < mz" "mz \<le> nz" "0 < my" "my \<le> ny" "0 < mx" "mx \<le> nx" "max (max mz my) mx = min target (max (max nz ny) nx)"
    using target_dims_range [OF assms(1-3) n assms(6)] by blast
  obtain out where out: "box_filter_to_target data (nz, ny, nx) target = Some (out, (mz, my, mx))" "length out = mz * my * mx"
    "\<And>z y x. z < mz \<Longrightarrow> y < my \<Longrightarrow> x < mx \<Longrightarrow>
       unat (out ! ((z * my + y) * mx + x)) = box_mean data ny nx (split_box mz nz z) (split_box my ny y) (split_box mx nx x)"
    by (rule box_filter_out [OF assms(5,4) m(2-7,1)]) blast
  have part: "splits_axis m n" if "0 < m" "m \<le> n" "n < 2 ^ 32" for m n
    using that split_box_range(2) [OF that] by (auto simp: splits_axis_def split_box_def)
  show ?thesis
    by (rule exI [of _ out], rule exI [of _ mz], rule exI [of _ my], rule exI [of _ mx])
      (use out m part [OF m(2,3) n(1)] part [OF m(4,5) n(2)] part [OF m(6,7) n(3)] in simp)
qed

theorem tile_proxy_exact_witness:
  "\<exists>out. box_filter_to_target [10, 20, 30] (1, 1, 3) 2 = Some (out, (1, 1, 2)) \<and> map unat out = [10, 25]"
proof -
  obtain out mz my mx where out: "box_filter_to_target [10, 20, 30] (1, 1, 3) 2 = Some (out, (mz, my, mx))" "length out = mz * my * mx"
    "mz \<le> 1" "my \<le> 1" "mx \<le> 3" "max (max mz my) mx = min 2 (max (max 1 1) 3)"
    "\<forall>z < mz. \<forall>y < my. \<forall>x < mx. unat (out ! ((z * my + y) * mx + x)) = box_mean [10, 20, 30] 1 3 (split_box mz 1 z) (split_box my 1 y) (split_box mx 3 x)"
    "splits_axis mz 1" "splits_axis my 1"
    using tile_proxy_exact [of 1 1 3 "[10, 20, 30]" 2] by auto
  then have "mz \<noteq> 0" "my \<noteq> 0" by (simp_all add: splits_axis_def)
  with out(3,4,6) have m: "mz = 1" "my = 1" "mx = 2" by auto
  have "box_mean [10, 20, 30] 1 3 (split_box 1 1 0) (split_box 1 1 0) (split_box 2 3 0) = 10"
    "box_mean [10, 20, 30] 1 3 (split_box 1 1 0) (split_box 1 1 0) (split_box 2 3 1) = 25" by code_simp+
  with out(2,7) m have "length out = 2" "unat (out ! 0) = 10" "unat (out ! 1) = 25" by auto
  then have "map unat out = [10, 25]" by (auto simp: length_Suc_conv numeral_eq_Suc)
  with out(1) m show ?thesis by simp
qed


section \<open>The estimate is the size of the proxy\<close>

text \<open>
  What \<^verbatim>\<open>ProxySourceData\<close> promises: a volume that is read has the shape of its level, a sample for
  every position, at least one and fewer than \<open>2 ^ 32\<close>, and the transform of its level.
\<close>

definition volume_of :: "dataset_manifest \<Rightarrow> image_spec \<Rightarrow> nat \<Rightarrow> tile_volume \<Rightarrow> bool" where
  "volume_of content im level_index volume \<longleftrightarrow>
     (let level = ms_levels (im_multiscale im) ! level_index; dims = (at_z (lv_shape level), at_y (lv_shape level), at_x (lv_shape level))
      in tv_dims volume = dims \<and> (case dims of (nz, ny, nx) \<Rightarrow> 0 < nz \<and> 0 < ny \<and> 0 < nx \<and> nz * ny * nx < 2 ^ 32 \<and> length (tv_data volume) = nz * ny * nx)
         \<and> estimate_level_voxel_to_image content im level_index = (Inr (tv_voxel_to_image volume) :: unit proxy_error + mat4))"

definition source_faithful :: "dataset_manifest \<Rightarrow> 'e proxy_source \<Rightarrow> bool" where
  "source_faithful content source \<longleftrightarrow>
     (\<forall>im \<in> set (mf_images content). \<forall>t c level_index volume.
        level_index < length (ms_levels (im_multiscale im)) \<longrightarrow> source (im_id im) t c level_index = Inr volume \<longrightarrow> volume_of content im level_index volume)"

lemma opt_bind_simps [simp]: "opt_bind (Inl e) f = Some (Inl e)" "opt_bind (Inr a) f = f a"
  by (simp_all add: opt_bind_def)

lemma opt_bind_Inr: "opt_bind r f = Some (Inr b) \<longleftrightarrow> (\<exists>a. r = Inr a \<and> f a = Some (Inr b))"
  by (cases r) auto

lemma fold_pick_bound:
  assumes "c < N" "k + length levels \<le> N"
  shows "fold (\<lambda>(i, level) chosen. if P level then i else chosen) (enumerate k levels) c < N"
  using assms
proof (induction levels arbitrary: k c)
  case (Cons level levels)
  then show ?case by (cases "P level") simp_all
qed simp

lemma pick_level_bound: "levels \<noteq> [] \<Longrightarrow> pick_level levels target < length levels"
  using fold_pick_bound [of 0 "length levels" 0 levels "\<lambda>level. saturating_mul64 target 2 \<le> min_spatial level"]
  by (simp add: pick_level_def Let_def)

lemma pick_image_level_Inr:
  assumes "pick_image_level content owner target = Inr (im, level_index)"
  shows "im \<in> set (mf_images content)" "im_owner im = owner" "level_index < length (ms_levels (im_multiscale im))"
  using assms pick_level_bound
  by (auto simp: pick_image_level_def find_image_def res_bind_Inr_iff ok_or_Inr_iff find_Some_iff split: if_splits)

lemma estimate_transform_any:
  "estimate_level_voxel_to_image content im k = (Inr m :: unit proxy_error + mat4) \<Longrightarrow> estimate_level_voxel_to_image content im k = (Inr m :: 'e proxy_error + mat4)"
  by (auto simp: estimate_level_voxel_to_image_def res_bind_Inr_iff ok_or_Inr_iff)

lemma volume_of_dims:
  assumes "volume_of content im level_index volume"
  shows "level_spatial_dims (ms_levels (im_multiscale im) ! level_index) e = (Inr (tv_dims volume) :: 'e proxy_error + dims3)"
    "estimate_level_voxel_to_image content im level_index = (Inr (tv_voxel_to_image volume) :: 'e proxy_error + mat4)"
proof -
  obtain nz ny nx where d: "tv_dims volume = (nz, ny, nx)" by (cases "tv_dims volume")
  with assms have n: "0 < nz" "0 < ny" "0 < nx" "nz * ny * nx < 2 ^ 32"
    "at_z (lv_shape (ms_levels (im_multiscale im) ! level_index)) = nz" "at_y (lv_shape (ms_levels (im_multiscale im) ! level_index)) = ny"
    "at_x (lv_shape (ms_levels (im_multiscale im) ! level_index)) = nx"
    by (auto simp: volume_of_def Let_def)
  have "1 \<le> nz" "1 \<le> ny" "1 \<le> nx" using n by linarith+
  then have "nz \<le> nz * ny * nx" "ny \<le> nz * ny * nx" "nx \<le> nz * ny * nx" by simp_all
  with n(4) have small: "nz < 2 ^ 32" "ny < 2 ^ 32" "nx < 2 ^ 32" by linarith+
  show "level_spatial_dims (ms_levels (im_multiscale im) ! level_index) e = (Inr (tv_dims volume) :: 'e proxy_error + dims3)"
    unfolding level_spatial_dims_def u32_try_def n(5-7) d by (simp add: small [simplified])
  show "estimate_level_voxel_to_image content im level_index = (Inr (tv_voxel_to_image volume) :: 'e proxy_error + mat4)"
    by (rule estimate_transform_any) (use assms in \<open>simp add: volume_of_def Let_def\<close>)
qed

lemma store_at_length: "store_at i v xs = Some ys \<Longrightarrow> length ys = length xs"
  by (auto simp: store_at_def split: if_splits)

lemma target_dims_le:
  assumes "target_dims_for_long_axis (nz, ny, nx) target = Some (mz, my, mx)"
  shows "mz * my * mx \<le> nz * ny * nx"
proof -
  have "m \<le> n" if "target_axis scale n = Some m" for scale n m
    using that by (auto simp: target_axis_def u32_clamp_def split: if_splits)
  with assms have "mz \<le> nz" "my \<le> ny" "mx \<le> nx"
    by (auto simp: target_dims_for_long_axis_def Let_def split: bind_splits)
  then show ?thesis by (intro mult_le_mono)
qed

lemma box_filter_length:
  assumes "box_filter_to_target data (nz, ny, nx) target = Some (out, (mz, my, mx))" "nz * ny * nx < 2 ^ 32"
  shows "length out = mz * my * mx" "target_dims_for_long_axis (nz, ny, nx) target = Some (mz, my, mx)"
proof -
  let ?body = "\<lambda>mz my mx (oz, oy, ox) out. Option.bind (box_sum (\<lambda>z y x. index32 z ny y nx x) data (box_bounds oz mz nz) (box_bounds oy my ny) (box_bounds ox mx nx)) (\<lambda>(acc, count).
        let avg = (if count = 0 then 0 else of_nat (acc div count)) in store_at (index32 oz my oy mx ox) avg out)"
  obtain kz ky kx where t: "target_dims_for_long_axis (nz, ny, nx) target = Some (kz, ky, kx)"
    using assms by (cases "target_dims_for_long_axis (nz, ny, nx) target") (auto simp: box_filter_to_target_def)
  from target_dims_le [OF this] assms(2) have small: "kz * ky * kx < 2 ^ 60" by simp
  from t have f: "box_filter_to_target data (nz, ny, nx) target = map_option (\<lambda>out. (out, (kz, ky, kx)))
      (for_each (?body kz ky kx) (grid_cells [0..<kz] [0..<ky] [0..<kx]) (replicate (kz * ky * kx) 0))"
    by (simp add: box_filter_to_target_def for_each_cells zeroed_vec_small [OF small])
  with assms have k: "(kz, ky, kx) = (mz, my, mx)" and out: "for_each (?body kz ky kx) (grid_cells [0..<kz] [0..<ky] [0..<kx]) (replicate (kz * ky * kx) 0) = Some out" by auto
  show "target_dims_for_long_axis (nz, ny, nx) target = Some (mz, my, mx)" using t k by simp
  have "length out = kz * ky * kx"
  proof (rule for_each_keeps [where P = "\<lambda>out. length out = kz * ky * kx", OF _ out])
    fix x s s'
    assume "?body kz ky kx x s = Some s'" "length s = kz * ky * kx"
    then show "length s' = kz * ky * kx"
      by (auto simp: Let_def dest: store_at_length split: prod.splits bind_splits)
  qed simp
  then show "length out = mz * my * mx" using k by simp
qed

lemma volume_of_sizes:
  assumes "volume_of content im level_index volume" "tv_dims volume = (nz, ny, nx)"
  shows "0 < nz" "0 < ny" "0 < nx" "nz * ny * nx < 2 ^ 32" "length (tv_data volume) = nz * ny * nx" "nz < 2 ^ 32" "ny < 2 ^ 32" "nx < 2 ^ 32"
proof -
  show n: "0 < nz" "0 < ny" "0 < nx" "nz * ny * nx < 2 ^ 32" "length (tv_data volume) = nz * ny * nx"
    using assms by (auto simp: volume_of_def Let_def)
  have "1 \<le> nz" "1 \<le> ny" "1 \<le> nx" using n by linarith+
  then have "nz \<le> nz * ny * nx" "ny \<le> nz * ny * nx" "nx \<le> nz * ny * nx" by simp_all
  with n(4) show "nz < 2 ^ 32" "ny < 2 ^ 32" "nx < 2 ^ 32" by linarith+
qed

lemma tile_estimate:
  fixes source :: "'s proxy_source"
  assumes "source_faithful content source" "downsample_tile blake3 f64_le source spec content entity = Some (Inr asset)"
  shows "estimate_tile_dims spec content entity = (Some (Inr (ph_dims (pa_header asset))) :: ('e proxy_error + dims3) option)"
    "length (pa_voxels asset) = (case ph_dims (pa_header asset) of (z, y, x) \<Rightarrow> z * y * x)"
proof -
  obtain im level_index volume voxels mz my mx where p: "pick_image_level content (ent_id entity) (ps_target_long_axis spec) = (Inr (im, level_index) :: 's proxy_error + _)"
      "source (im_id im) (ps_t spec) (ps_c spec) level_index = Inr volume"
    and b: "box_filter_to_target (tv_data volume) (tv_dims volume) (ps_target_long_axis spec) = Some (voxels, (mz, my, mx))"
    and as: "asset = \<lparr>pa_header = proxy_header_for blake3 f64_le spec content (mz, my, mx), pa_voxels = voxels\<rparr>"
    using assms(2) by (auto simp: downsample_tile_def opt_bind_Inr res_map_err_Inr_iff)
  have a: "ph_dims (pa_header asset) = (mz, my, mx)" "pa_voxels asset = voxels" by (simp_all add: as proxy_header_for_def)
  have vol: "volume_of content im level_index volume"
    using assms(1) p(2) pick_image_level_Inr [OF p(1)] unfolding source_faithful_def by blast
  obtain nz ny nx where n: "tv_dims volume = (nz, ny, nx)" by (cases "tv_dims volume")
  note l = box_filter_length [OF b [unfolded n] volume_of_sizes(4) [OF vol n]]
  show "length (pa_voxels asset) = (case ph_dims (pa_header asset) of (z, y, x) \<Rightarrow> z * y * x)" using l(1) by (simp add: a)
  from p(1) have p': "pick_image_level content (ent_id entity) (ps_target_long_axis spec) = (Inr (im, level_index) :: 'e proxy_error + _)"
    by (auto simp: pick_image_level_def find_image_def res_bind_Inr_iff ok_or_Inr_iff split: if_splits)
  show "estimate_tile_dims spec content entity = (Some (Inr (ph_dims (pa_header asset))) :: ('e proxy_error + dims3) option)"
    unfolding estimate_tile_dims_def p' by (simp add: a l(2) n volume_of_dims(1) [OF vol])
qed

lemma add_sample_length: "add_sample oi avg st = Some st' \<Longrightarrow> length (fst st') = length (fst st) \<and> length (snd st') = length (snd st)"
  by (auto simp: add_sample_def dest: store_at_length split: prod.splits option.splits bind_splits)

lemma splat_length:
  assumes "splat_entry bounds dims entry st = Some st'"
  shows "length (fst st') = length (fst st) \<and> length (snd st') = length (snd st)"
proof -
  obtain mz my mx lx ly lz nx ny nz where d: "dims = (mz, my, mx)" "box_lens bounds = (lx, ly, lz)" "box_mins bounds = (nx, ny, nz)"
    by (cases dims; cases "box_lens bounds"; cases "box_mins bounds") auto
  from assms show ?thesis
    unfolding splat_entry_def d prod.case Let_def for_each_cells
    by (rule for_each_keeps [where P = "\<lambda>s. length (fst s) = length (fst st) \<and> length (snd s) = length (snd st)", rotated])
      (auto split: bind_splits dest!: add_sample_length)
qed

definition group_box :: "tile_entry list \<Rightarrow> box3" where
  "group_box entries = fold widen_by_volume (map (\<lambda>entry. (tv_dims (en_volume entry), en_voxel_to_group entry)) entries) empty_box"

lemma group_estimate_dims:
  fixes source :: "'s proxy_source"
  assumes "source_faithful content source" "ent_kind entity = EGroup" "group_tiles content (ent_id entity) \<noteq> []"
    "res_collect (read_entry source spec content (ent_id entity)) (group_tiles content (ent_id entity)) = Inr entries"
  shows "estimate_group_dims spec content entity = (Some (Inr (box_dims (group_box entries) (ps_target_long_axis spec))) :: ('e proxy_error + dims3) option)"
proof -
  have "estimate_member spec content (ent_id entity) tile = (Inr (tv_dims (en_volume entry), en_voxel_to_group entry) :: 'e proxy_error + _)"
    if r: "read_entry source spec content (ent_id entity) tile = Inr entry" for tile entry
  proof -
    obtain im level_index volume where p: "pick_image_level content (ent_id tile) (ps_target_long_axis spec) = (Inr (im, level_index) :: 's proxy_error + _)"
        "source (im_id im) (ps_t spec) (ps_c spec) level_index = Inr volume"
        "en_volume entry = volume" "en_voxel_to_group entry = compose (find_tile_to_group content (ent_id tile) (ent_id entity)) (tv_voxel_to_image volume)"
      using r by (auto simp: read_entry_def res_bind_Inr_iff res_map_err_Inr_iff Let_def)
    have v: "volume_of content im level_index volume"
      using assms(1) p(2) pick_image_level_Inr [OF p(1)] unfolding source_faithful_def by blast
    have p': "pick_image_level content (ent_id tile) (ps_target_long_axis spec) = (Inr (im, level_index) :: 'e proxy_error + _)"
      using p(1) by (auto simp: pick_image_level_def find_image_def res_bind_Inr_iff ok_or_Inr_iff split: if_splits)
    show ?thesis unfolding estimate_member_def p' by (simp add: p(3,4) volume_of_dims [OF v])
  qed
  with assms(4) have "res_collect (estimate_member spec content (ent_id entity)) (group_tiles content (ent_id entity))
      = (Inr (map (\<lambda>entry. (tv_dims (en_volume entry), en_voxel_to_group entry)) entries) :: 'e proxy_error + _)"
    by (auto simp: res_collect_Inr_iff list_all2_conv_all_nth)
  with assms(2,3) show ?thesis by (simp add: estimate_group_dims_def Let_def group_box_def)
qed

text \<open>
  The estimate of a group leaves its accumulator addressable: eight bytes for each voxel, below \<^verbatim>\<open>isize::MAX\<close>.
\<close>

definition addressable :: "('e proxy_error + dims3) option \<Rightarrow> bool" where
  "addressable est \<longleftrightarrow> (case est of Some (Inr (z, y, x)) \<Rightarrow> z * y * x < 2 ^ 60 | _ \<Rightarrow> True)"

lemma aggregate_addressable:
  assumes "ent_kind entity = EGroup" "group_tiles content (ent_id entity) \<noteq> []"
    "res_collect (read_entry source spec content (ent_id entity)) (group_tiles content (ent_id entity)) = Inr entries"
    "box_dims (group_box entries) (ps_target_long_axis spec) = (mz, my, mx)" "mz * my * mx < 2 ^ 60"
  shows "aggregate_group blake3 f64_le source spec content entity =
    map_option (\<lambda>(acc, count). Inr \<lparr>pa_header = proxy_header_for blake3 f64_le spec content (mz, my, mx),
        pa_voxels = map (\<lambda>(a, c). if c = 0 then 0 else of_nat (a div c)) (zip acc count)\<rparr>)
      (for_each (splat_entry (group_box entries) (mz, my, mx)) entries (replicate (mz * my * mx) 0, replicate (mz * my * mx) 0))"
  using assms(1-4) by (simp add: aggregate_group_def Let_def group_box_def [symmetric] zeroed_vec_small [OF assms(5)])

lemma group_estimate:
  fixes source :: "'s proxy_source"
  assumes "source_faithful content source" "aggregate_group blake3 f64_le source spec content entity = Some (Inr asset)"
    "addressable (estimate_group_dims spec content entity :: ('e proxy_error + dims3) option)"
  shows "estimate_group_dims spec content entity = (Some (Inr (ph_dims (pa_header asset))) :: ('e proxy_error + dims3) option)
    \<and> length (pa_voxels asset) = (case ph_dims (pa_header asset) of (z, y, x) \<Rightarrow> z * y * x)"
proof (cases "ent_kind entity = EGroup")
  case False
  with assms show ?thesis using tile_estimate [OF assms(1)] by (auto simp: aggregate_group_def estimate_group_dims_def)
next
  case True
  obtain entries where e: "group_tiles content (ent_id entity) \<noteq> []"
    "res_collect (read_entry source spec content (ent_id entity)) (group_tiles content (ent_id entity)) = Inr entries"
    using assms(2) True by (auto simp: aggregate_group_def Let_def opt_bind_Inr split: if_splits)
  obtain mz my mx where d: "box_dims (group_box entries) (ps_target_long_axis spec) = (mz, my, mx)"
    by (cases "box_dims (group_box entries) (ps_target_long_axis spec)")
  note est = group_estimate_dims [OF assms(1) True e, where ?'e = 'e, unfolded d]
  with assms(3) have small: "mz * my * mx < 2 ^ 60" by (simp add: addressable_def)
  obtain acc count where run: "for_each (splat_entry (group_box entries) (mz, my, mx)) entries (replicate (mz * my * mx) 0, replicate (mz * my * mx) 0) = Some (acc, count)"
    and a: "ph_dims (pa_header asset) = (mz, my, mx)" "length (pa_voxels asset) = length (zip acc count)"
    using assms(2) unfolding aggregate_addressable [OF True e d small] by (auto simp: proxy_header_for_def)
  have "length (fst (acc, count)) = mz * my * mx \<and> length (snd (acc, count)) = mz * my * mx"
    by (rule for_each_keeps [where P = "\<lambda>s. length (fst s) = mz * my * mx \<and> length (snd s) = mz * my * mx", OF _ run]) (auto dest: splat_length)
  with est a show ?thesis by simp
qed

section \<open>Generation never panics\<close>

lemma tile_total:
  fixes source :: "'s proxy_source"
  assumes "source_faithful content source" "0 < ps_target_long_axis spec"
  shows "downsample_tile blake3 f64_le source spec content entity \<noteq> None"
proof (cases "pick_image_level content (ent_id entity) (ps_target_long_axis spec) :: 's proxy_error + _")
  case (Inr im_level)
  then obtain im level_index where p: "pick_image_level content (ent_id entity) (ps_target_long_axis spec) = (Inr (im, level_index) :: 's proxy_error + _)"
    by (cases im_level) auto
  show ?thesis
  proof (cases "source (im_id im) (ps_t spec) (ps_c spec) level_index")
    case (Inr volume)
    obtain nz ny nx where d: "tv_dims volume = (nz, ny, nx)" by (cases "tv_dims volume")
    have "volume_of content im level_index volume"
      using assms(1) Inr pick_image_level_Inr [OF p] unfolding source_faithful_def by blast
    note n = volume_of_sizes [OF this d]
    obtain mz my mx where m: "target_dims_for_long_axis (nz, ny, nx) (ps_target_long_axis spec) = Some (mz, my, mx)"
      "0 < mz" "mz \<le> nz" "0 < my" "my \<le> ny" "0 < mx" "mx \<le> nx"
      using target_dims_range [OF n(1-3,6-8) assms(2)] by blast
    obtain out where "box_filter_to_target (tv_data volume) (nz, ny, nx) (ps_target_long_axis spec) = Some (out, (mz, my, mx))"
      by (rule box_filter_out [OF n(5,4) m(2-7,1)]) blast
    then show ?thesis by (simp add: downsample_tile_def p Inr d)
  qed (simp add: downsample_tile_def p)
qed (simp add: downsample_tile_def)

lemma tile_sample_total:
  assumes "volume_of content im level_index (en_volume entry)"
  shows "\<exists>r. tile_sample entry lens widths center = Some r"
proof -
  obtain nz ny nx where d: "tv_dims (en_volume entry) = (nz, ny, nx)" by (cases "tv_dims (en_volume entry)")
  note n = volume_of_sizes [OF assms d]
  have "\<exists>r. box_sum (\<lambda>z y x. index64 z ny y nx x) (tv_data (en_volume entry)) (sample_range pz nz lz wz) (sample_range py ny ly wy) (sample_range px nx lx wx) = Some r"
    for pz lz wz py ly wy px lx wx
  proof -
    have "index64 z ny y nx x < length (tv_data (en_volume entry))" if "z < nz" "y < ny" "x < nx" for z y x
    proof -
      have "(z * ny + y) * nx + x < nz * ny * nx" using mixed_radix_less [OF mixed_radix_less [OF that(1,2)] that(3)] .
      with n(4,5) show ?thesis by (simp add: index64_def)
    qed
    then show ?thesis by (intro box_sum_some) (auto simp: range_cells_def sample_range_def Let_def)
  qed
  then show ?thesis
    by (auto simp: tile_sample_def d Let_def split: prod.splits)
qed

lemma index32_small: "i < mz \<Longrightarrow> j < my \<Longrightarrow> k < mx \<Longrightarrow> index32 i my j mx k < mz * my * mx"
proof (cases "mz * my * mx < 2 ^ 32")
  case True
  then show "i < mz \<Longrightarrow> j < my \<Longrightarrow> k < mx \<Longrightarrow> index32 i my j mx k < mz * my * mx" using index32_exact by simp
next
  case False
  have "index32 i my j mx k < 2 ^ 32" by (simp add: index32_def u32_add_def)
  with False show ?thesis by linarith
qed

lemma splat_total:
  assumes "volume_of content im level_index (en_volume entry)" "length (fst st) = mz * my * mx" "length (snd st) = mz * my * mx"
  shows "\<exists>st'. splat_entry bounds (mz, my, mx) entry st = Some st' \<and> length (fst st') = mz * my * mx \<and> length (snd st') = mz * my * mx"
proof -
  obtain lx ly lz nx ny nz where d: "box_lens bounds = (lx, ly, lz)" "box_mins bounds = (nx, ny, nz)"
    by (cases "box_lens bounds"; cases "box_mins bounds") auto
  have add: "\<exists>s'. add_sample oi avg s = Some s' \<and> length (fst s') = n \<and> length (snd s') = n" if "oi < n" "length (fst s) = n" "length (snd s) = n" for oi avg s n
    using that by (cases s; cases avg) (auto simp: add_sample_def index_at_def store_at_def)
  show ?thesis
    unfolding splat_entry_def d prod.case Let_def for_each_cells
  proof (rule for_each_total [where P = "\<lambda>s. length (fst s) = mz * my * mx \<and> length (snd s) = mz * my * mx"])
    fix cell and s :: "nat list \<times> nat list"
    assume c: "cell \<in> set (grid_cells [0..<mz] [0..<my] [0..<mx])" and l: "length (fst s) = mz * my * mx \<and> length (snd s) = mz * my * mx"
    obtain oz oy ox where cell: "cell = (oz, oy, ox)" by (cases cell)
    obtain avg where "tile_sample entry (lx, ly, lz) (lx / u32_f64 mx, ly / u32_f64 my, lz / u32_f64 mz)
        (voxel_center nx ox (lx / u32_f64 mx), voxel_center ny oy (ly / u32_f64 my), voxel_center nz oz (lz / u32_f64 mz)) = Some avg"
      using tile_sample_total [OF assms(1)] by blast
    then show "\<exists>s'. (case cell of (oz, oy, ox) \<Rightarrow> \<lambda>st. Option.bind (tile_sample entry (lx, ly, lz) (lx / u32_f64 mx, ly / u32_f64 my, lz / u32_f64 mz)
          (voxel_center nx ox (lx / u32_f64 mx), voxel_center ny oy (ly / u32_f64 my), voxel_center nz oz (lz / u32_f64 mz)))
          (\<lambda>avg. add_sample (index32 oz my oy mx ox) avg st)) s = Some s' \<and> length (fst s') = mz * my * mx \<and> length (snd s') = mz * my * mx"
      using add [OF index32_small, of oz mz oy my ox mx s avg] c l by (auto simp: cell)
  qed (use assms in simp)
qed

lemma group_total:
  fixes source :: "'s proxy_source"
  assumes "source_faithful content source" "0 < ps_target_long_axis spec"
    "addressable (estimate_group_dims spec content entity :: ('e proxy_error + dims3) option)"
  shows "aggregate_group blake3 f64_le source spec content entity \<noteq> None"
proof (cases "ent_kind entity \<noteq> EGroup \<or> group_tiles content (ent_id entity) = []")
  case True
  then show ?thesis using tile_total [OF assms(1,2)] by (auto simp: aggregate_group_def Let_def)
next
  case False
  then have g: "ent_kind entity = EGroup" "group_tiles content (ent_id entity) \<noteq> []" by simp_all
  show ?thesis
  proof (cases "res_collect (read_entry source spec content (ent_id entity)) (group_tiles content (ent_id entity))")
    case (Inl e)
    with False show ?thesis by (simp add: aggregate_group_def Let_def)
  next
    case (Inr entries)
    obtain mz my mx where d: "box_dims (group_box entries) (ps_target_long_axis spec) = (mz, my, mx)"
      by (cases "box_dims (group_box entries) (ps_target_long_axis spec)")
    with group_estimate_dims [OF assms(1) g Inr, where ?'e = 'e] assms(3) have small: "mz * my * mx < 2 ^ 60" by (simp add: addressable_def)
    have vol: "\<exists>im level_index. volume_of content im level_index (en_volume entry)" if e: "entry \<in> set entries" for entry
    proof -
      obtain tile where "read_entry source spec content (ent_id entity) tile = Inr entry"
        using Inr e by (auto simp: res_collect_Inr_iff list_all2_conv_all_nth in_set_conv_nth)
      then obtain im level_index where p: "pick_image_level content (ent_id tile) (ps_target_long_axis spec) = (Inr (im, level_index) :: 's proxy_error + _)"
          "source (im_id im) (ps_t spec) (ps_c spec) level_index = Inr (en_volume entry)"
        by (auto simp: read_entry_def res_bind_Inr_iff res_map_err_Inr_iff Let_def)
      then show ?thesis using assms(1) pick_image_level_Inr [OF p(1)] unfolding source_faithful_def by blast
    qed
    have "\<exists>st. for_each (splat_entry (group_box entries) (mz, my, mx)) entries (replicate (mz * my * mx) 0, replicate (mz * my * mx) 0) = Some st
        \<and> length (fst st) = mz * my * mx \<and> length (snd st) = mz * my * mx"
      by (rule for_each_total) (use vol splat_total in \<open>blast | simp\<close>)+
    then show ?thesis unfolding aggregate_addressable [OF g Inr d small] by auto
  qed
qed


text \<open>A manifest with one image of three samples, and the source that serves it.\<close>

definition demo_image_spec :: image_spec where
  "demo_image_spec = \<lparr>im_id = ''im'', im_owner = ''e'', im_multiscale =
     \<lparr>ms_axes = [], ms_levels = [\<lparr>lv_index = 0, lv_shape = Arr5 1 1 1 1 3, lv_chunk_shape = Arr5 1 1 1 1 3, lv_grid_shape = Arr5 1 1 1 1 1, lv_scale = Arr5 1 1 1 1 1\<rparr>],
      ms_coarse_level_index = None, ms_generated_levels = [], ms_data_type = Uint16, ms_pinned_axes = [], ms_channel_infos = [], ms_downsampling_method = None\<rparr>\<rparr>"

definition demo_content :: dataset_manifest where
  "demo_content = manifest_new ''d'' ''d'' Single
     [\<lparr>ent_id = ''e'', ent_kind = EImage, ent_parent = None, ent_labels = \<lparr>el_name = None, el_group_row = None, el_group_column = None, el_row_index = None, el_column_index = None, el_tile_index = None\<rparr>\<rparr>]
     [] [demo_image_spec] [] None"

definition demo_source :: "unit proxy_source" where
  "demo_source = (\<lambda>_ _ _ _. Inr \<lparr>tv_data = [10, 20, 30], tv_dims = (1, 1, 3), tv_voxel_to_image =
     compose matrix_identity [scale_axis 3 3, 0, 0, 0, 0, scale_axis 1 1, 0, 0, 0, 0, scale_axis 1 1, 0, 0, 0, 0, 1]\<rparr>)"


section \<open>The hash does not depend on the order of the manifest\<close>

definition antisym_on_set :: "'a set \<Rightarrow> ('a \<Rightarrow> 'a \<Rightarrow> bool) \<Rightarrow> bool" where
  "antisym_on_set A le \<longleftrightarrow> (\<forall>a \<in> A. \<forall>b \<in> A. le a b \<longrightarrow> le b a \<longrightarrow> a = b)"

lemma sorted_unique:
  assumes "sorted_wrt le xs" "sorted_wrt le ys" "distinct xs" "distinct ys" "set xs = set ys" "antisym_on_set (set xs) le"
  shows "xs = ys"
  using assms
proof (induction xs arbitrary: ys)
  case (Cons x xs)
  then obtain y zs where ys: "ys = y # zs" by (cases ys) auto
  have "x = y"
  proof (rule ccontr)
    assume "x \<noteq> y"
    with Cons.prems(5) have "x \<in> set zs" "y \<in> set xs" by (auto simp: ys)
    with Cons.prems(1,2) have "le x y" "le y x" by (auto simp: ys)
    with Cons.prems(6) \<open>y \<in> set xs\<close> \<open>x \<noteq> y\<close> show False unfolding antisym_on_set_def by auto
  qed
  moreover have "set xs = set zs" using Cons.prems(3-5) \<open>x = y\<close> by (auto simp: ys)
  moreover have "antisym_on_set (set xs) le" using Cons.prems(6) by (auto simp: antisym_on_set_def)
  ultimately show ?case using Cons by (simp add: ys)
qed simp

lemma sort_by_unique:
  assumes "distinct xs" "distinct ys" "set xs = set ys" "preorder_on_set (set xs) le" "antisym_on_set (set xs) le"
  shows "sort_by le xs = sort_by le ys"
  using assms by (intro sorted_unique [of le]) (simp_all add: sorted_sort_by)

lemma find_unique:
  assumes "distinct (map f xs)" "distinct (map f ys)" "set xs = set ys"
  shows "find (\<lambda>x. f x = k) xs = find (\<lambda>x. f x = k) ys"
proof -
  have "find (\<lambda>x. f x = k) zs = Some a" if "a \<in> set zs" "f a = k" "distinct (map f zs)" for zs a
    using that by (induction zs) (auto simp: rev_image_eqI)
  moreover have "find (\<lambda>x. f x = k) zs = None \<longleftrightarrow> (\<forall>a \<in> set zs. f a \<noteq> k)" for zs by (auto simp: find_None_iff)
  ultimately show ?thesis using assms by (cases "\<exists>a \<in> set xs. f a = k") (metis, metis)
qed

lemma distinct_filter_keys: "distinct (map f xs) \<Longrightarrow> distinct (filter P xs) \<and> distinct (map f (filter P xs))"
  by (metis distinct_map distinct_map_filter)

lemma lex_preorder:
  fixes f g :: "'a \<Rightarrow> 'b::linorder"
  shows "preorder_on_set A (\<lambda>a b. f a < f b \<or> f a = f b \<and> g a \<le> g b)"
proof -
  have "x < z \<or> x = z \<and> u \<le> w" if "x < y \<or> x = y \<and> u \<le> v" "y < z \<or> y = z \<and> v \<le> w" for x y z u v w :: 'b
    using that by auto
  moreover have "(x < y \<or> x = y \<and> u \<le> v) \<or> (y < x \<or> y = x \<and> v \<le> u)" for x y u v :: 'b by auto
  ultimately show ?thesis unfolding preorder_on_set_def by (intro conjI ballI impI) metis+
qed

lemma lex_antisym: "x < y \<or> x = y \<and> u \<le> v \<Longrightarrow> y < x \<or> y = x \<and> v \<le> u \<Longrightarrow> x = (y::'b::linorder) \<and> u = (v::'c::linorder)"
  by auto

text \<open>Two manifests with the same entities, edges and images, each listed once in some order.\<close>

definition same_content :: "dataset_manifest \<Rightarrow> dataset_manifest \<Rightarrow> bool" where
  "same_content m m' \<longleftrightarrow>
     set (mf_entities m) = set (mf_entities m') \<and> set (mf_transforms m) = set (mf_transforms m') \<and> set (mf_images m) = set (mf_images m')
     \<and> (\<forall>c \<in> {m, m'}. distinct (map ent_id (mf_entities c)) \<and> distinct (map (\<lambda>e. (te_from e, te_to e)) (mf_transforms c)) \<and> distinct (map im_id (mf_images c)))"

lemma same_contributors:
  assumes "same_content m m'"
  shows "contributors m i = contributors m' i"
proof -
  note d = assms [unfolded same_content_def]
  have f: "find (\<lambda>e. ent_id e = i) (mf_entities m) = find (\<lambda>e. ent_id e = i) (mf_entities m')" using d by (intro find_unique) auto
  have le: "preorder_on_set A le_str" "antisym_on_set A le_str" for A
    unfolding preorder_on_set_def antisym_on_set_def le_str_def by (meson linear order_trans order_antisym)+
  let ?P = "\<lambda>c. ent_parent c = Some i \<and> ent_kind c = ETile"
  have "set (filter ?P (mf_entities m)) = set (filter ?P (mf_entities m'))" using d by auto
  then have "sort_by le_str (map ent_id (filter ?P (mf_entities m))) = sort_by le_str (map ent_id (filter ?P (mf_entities m')))"
    using d by (intro sort_by_unique le distinct_filter_keys [THEN conjunct2]) simp_all
  then show ?thesis unfolding contributors_def f by (simp split: option.splits)
qed

lemma same_contributor_bytes:
  assumes "same_content m m'"
  shows "contributor_bytes f64_le m = contributor_bytes f64_le m'"
proof
  fix i
  note d = assms [unfolded same_content_def]
  let ?le = "\<lambda>a b. te_from a < te_from b \<or> te_from a = te_from b \<and> te_to a \<le> te_to b"
  let ?P = "\<lambda>e. te_from e = i \<or> te_to e = i" and ?Q = "\<lambda>im. im_owner im = i"
  let ?es = "filter ?P (mf_transforms m)" and ?is = "filter ?Q (mf_images m)"
  have inj: "a = b" if "te_from a = te_from b" "te_to a = te_to b" "a \<in> set ?es" "b \<in> set ?es" for a b
    using that d distinct_filter_keys [of "\<lambda>e. (te_from e, te_to e)" "mf_transforms m" ?P] by (auto simp: distinct_map inj_on_def)
  have "sort_by ?le ?es = sort_by ?le (filter ?P (mf_transforms m'))"
  proof (rule sort_by_unique)
    show "preorder_on_set (set ?es) ?le" by (rule lex_preorder)
    show "antisym_on_set (set ?es) ?le" unfolding antisym_on_set_def by (intro ballI impI) (rule inj; use lex_antisym in blast)
  qed (use d distinct_filter_keys [of "\<lambda>e. (te_from e, te_to e)"] in auto)
  moreover have inj': "a = b" if "im_id a = im_id b" "a \<in> set ?is" "b \<in> set ?is" for a b
    using that d distinct_filter_keys [of im_id "mf_images m" ?Q] by (auto simp: distinct_map inj_on_def)
  have "sort_by (\<lambda>a b. le_str (im_id a) (im_id b)) ?is = sort_by (\<lambda>a b. le_str (im_id a) (im_id b)) (filter ?Q (mf_images m'))"
  proof (rule sort_by_unique)
    show "preorder_on_set (set ?is) (\<lambda>a b. le_str (im_id a) (im_id b))" unfolding preorder_on_set_def le_str_def by (meson linear order_trans)
    show "antisym_on_set (set ?is) (\<lambda>a b. le_str (im_id a) (im_id b))" unfolding antisym_on_set_def le_str_def using inj' by (meson order_antisym)
  qed (use d distinct_filter_keys [of im_id] in auto)
  ultimately show "contributor_bytes f64_le m i = contributor_bytes f64_le m' i" by (simp add: contributor_bytes_def Let_def)
qed

text \<open>
  A proxy does not go stale by reordering. Two manifests that list the same entities, edges and
  images, each once, in any order have the same source hash for every entity, timepoint and channel,
  whatever the hash function.
\<close>
theorem source_hash_order_free:
  assumes "same_content m m'"
  shows "source_content_hash blake3 f64_le m i t c = source_content_hash blake3 f64_le m' i t c"
proof -
  have "find (\<lambda>e. ent_id e = i) (mf_entities m) = find (\<lambda>e. ent_id e = i) (mf_entities m')"
    using assms unfolding same_content_def by (intro find_unique) auto
  then show ?thesis by (simp add: source_content_hash_def same_contributors [OF assms] same_contributor_bytes [OF assms])
qed

theorem source_hash_order_free_witness:
  "source_content_hash id (\<lambda>_. []) (demo_content\<lparr>mf_images := [demo_image_spec, demo_image_spec\<lparr>im_id := ''a''\<rparr>]\<rparr>) ''e'' 0 0
   = source_content_hash id (\<lambda>_. []) (demo_content\<lparr>mf_images := [demo_image_spec\<lparr>im_id := ''a''\<rparr>, demo_image_spec]\<rparr>) ''e'' 0 0"
  by (rule source_hash_order_free) (auto simp: same_content_def demo_content_def manifest_new_def demo_image_spec_def)

end
