(* ===== verification/WorkspaceTables.thy ===== *)
theory WorkspaceTables
  imports Document Text "HOL-Library.List_Lexorder" "HOL-Library.Char_ord"
begin

text \<open>
  The durable half of a workspace: the vocabulary of \<^verbatim>\<open>lucida-server/src/workspace/types.rs\<close>, the
  tables the server keeps (\<^verbatim>\<open>migrations/sqlite\<close>) and what running a statement of \<^verbatim>\<open>store/sql.rs\<close> means.

  A table is the list of its rows. An operation is a function of an environment and a world. The
  world holds the tables and counts the statements that ran; the environment says which of them
  fail, what the clock shows, which identifiers are drawn and how values are written as JSON. A
  statement that fails changes nothing, a transaction that does not commit is undone. The keys and
  foreign keys of the schema are checked by the statements that could break them. A character is a
  Unicode scalar value below \<open>256\<close>.
\<close>

section \<open>Vocabulary\<close>

type_synonym instant = int

datatype ws_store_error =
    StBackend string
  | InvalidDocument string
  | InvalidSavedView string
  | InvalidRole string
  | InvalidLinkAccess string
  | InvalidSavedViewVisibility string

datatype workspace_role = Viewer | Editor | Owner

fun role_str :: "workspace_role \<Rightarrow> string" where
  "role_str Viewer = ''viewer''"
| "role_str Editor = ''editor''"
| "role_str Owner = ''owner''"

fun can_edit :: "workspace_role \<Rightarrow> bool" where
  "can_edit Viewer = False"
| "can_edit Editor = True"
| "can_edit Owner = True"

fun can_own :: "workspace_role \<Rightarrow> bool" where
  "can_own Owner = True"
| "can_own _ = False"

definition role_try_from :: "string \<Rightarrow> ws_store_error + workspace_role" where
  "role_try_from value =
     (if value = ''viewer'' then Inr Viewer else if value = ''editor'' then Inr Editor
      else if value = ''owner'' then Inr Owner else Inl (InvalidRole value))"

datatype saved_view_visibility = Shared | Personal | Proposed

fun visibility_str :: "saved_view_visibility \<Rightarrow> string" where
  "visibility_str Shared = ''shared''"
| "visibility_str Personal = ''personal''"
| "visibility_str Proposed = ''proposed''"

definition visibility_try_from :: "string \<Rightarrow> ws_store_error + saved_view_visibility" where
  "visibility_try_from value =
     (if value = ''shared'' then Inr Shared else if value = ''personal'' then Inr Personal
      else if value = ''proposed'' then Inr Proposed else Inl (InvalidSavedViewVisibility value))"

datatype link_access = Restricted | AnyoneWithLink

fun link_access_str :: "link_access \<Rightarrow> string" where
  "link_access_str Restricted = ''restricted''"
| "link_access_str AnyoneWithLink = ''anyone_with_link''"

definition link_access_try_from :: "string \<Rightarrow> ws_store_error + link_access" where
  "link_access_try_from value =
     (if value = ''restricted'' then Inr Restricted else if value = ''anyone_with_link'' then Inr AnyoneWithLink
      else Inl (InvalidLinkAccess value))"

record auth_principal =
  pr_email :: string
  pr_display_name :: string
  pr_picture_url :: "string option"
  pr_is_admin :: bool

record workspace_record =
  wk_id :: string
  wk_name :: string
  wk_created_by :: string
  wk_created_at :: instant
  wk_updated_at :: instant
  wk_archived_at :: "instant option"
  wk_seq :: u64
  wk_default :: "string option"
  wk_document :: document

record workspace_summary =
  ws_id :: string
  ws_name :: string
  ws_role :: workspace_role
  ws_created_by :: string
  ws_created_at :: instant
  ws_updated_at :: instant
  ws_archived_at :: "instant option"
  ws_seq :: u64
  ws_dataset_count :: int
  ws_default :: "string option"
  ws_last_opened_at :: "instant option"
  ws_pinned_at :: "instant option"
  ws_first_dataset_url :: "string option"
  ws_preview_updated_at :: "instant option"

record workspace_member =
  mem_email :: string
  mem_role :: workspace_role
  mem_display_name :: string
  mem_added_at :: instant

record sharing_settings =
  sh_link_access :: link_access
  sh_link_role :: workspace_role
  sh_members :: "workspace_member list"

record workspace_saved_view =
  wv_id :: string
  wv_workspace_id :: string
  wv_name :: string
  wv_created_by :: string
  wv_created_by_name :: string
  wv_created_at :: instant
  wv_updated_at :: instant
  wv_visibility :: saved_view_visibility
  wv_view :: saved_view

record viewer_profile =
  vp_workspace_id :: string
  vp_user_email :: string
  vp_profile :: string
  vp_created_at :: instant
  vp_updated_at :: instant
  vp_seed_source :: "string option"
  vp_view :: saved_view

record user_state =
  us_workspace_id :: string
  us_last_opened_at :: "instant option"
  us_pinned_at :: "instant option"
  us_last_view :: "saved_view option"

record dataset_source =
  src_workspace_dataset_id :: dataset_id
  src_dataset_source_id :: string
  src_canonical_url :: string
  src_display_name :: string

record preview_meta =
  pm_workspace_id :: string
  pm_content_type :: string
  pm_size_bytes :: int
  pm_updated_at :: instant
  pm_updated_by :: string

record preview_image =
  wp_meta :: preview_meta
  wp_image :: "u8 list"

datatype preview_write = PvStored preview_meta | PvTooSoon instant

record admin_summary =
  as_id :: string
  as_name :: string
  as_created_by :: string
  as_created_at :: instant
  as_updated_at :: instant
  as_archived_at :: "instant option"
  as_seq :: u64
  as_dataset_count :: int
  as_member_count :: int
  as_owner_count :: int
  as_link_access :: link_access
  as_link_role :: workspace_role
  as_default :: "string option"

record admin_details =
  ad_workspace :: admin_summary
  ad_members :: "workspace_member list"

section \<open>Text\<close>

definition is_whitespace :: "char \<Rightarrow> bool" where
  "is_whitespace c \<longleftrightarrow> (let n = (of_char c :: nat) in (9 \<le> n \<and> n \<le> 13) \<or> n = 32 \<or> n = 133 \<or> n = 160)"

definition trim :: "string \<Rightarrow> string" where
  "trim s = rev (dropWhile is_whitespace (rev (dropWhile is_whitespace s)))"

definition normalize_email :: "string \<Rightarrow> string" where
  "normalize_email email = lowercase (trim email)"

definition default_workspace_name :: "string option \<Rightarrow> string" where
  "default_workspace_name name =
     (let trimmed = trim (case name of Some n \<Rightarrow> n | None \<Rightarrow> ''Untitled workspace'')
      in if trimmed = [] then ''Untitled workspace'' else take 200 trimmed)"

definition default_member_display_name :: "string \<Rightarrow> string \<Rightarrow> string" where
  "default_member_display_name email display_name =
     (let trimmed = trim display_name in if trimmed = [] then email else take 200 trimmed)"

section \<open>Tables\<close>

record 'j workspace_row =
  rw_id :: string
  rw_name :: string
  rw_created_by :: string
  rw_created_at :: instant
  rw_updated_at :: instant
  rw_archived_at :: "instant option"
  rw_link_access :: string
  rw_link_role :: string
  rw_seq :: int
  rw_document_json :: 'j
  rw_default :: "string option"

record member_row =
  rm_workspace_id :: string
  rm_email :: string
  rm_role :: string
  rm_display_name :: string
  rm_added_at :: instant

record source_row =
  rs_id :: string
  rs_canonical_url :: string
  rs_default_name :: string
  rs_created_at :: instant
  rs_updated_at :: instant

record dataset_row =
  rd_id :: string
  rd_workspace_id :: string
  rd_source :: string
  rd_display_name :: string
  rd_added_by :: string
  rd_added_at :: instant
  rd_sort_order :: int

record 'v view_row =
  rv_id :: string
  rv_workspace_id :: string
  rv_name :: string
  rv_created_by :: string
  rv_created_by_name :: string
  rv_created_at :: instant
  rv_updated_at :: instant
  rv_visibility :: string
  rv_view_json :: 'v

record 'v state_row =
  ru_user_email :: string
  ru_workspace_id :: string
  ru_created_at :: instant
  ru_updated_at :: instant
  ru_last_opened_at :: "instant option"
  ru_pinned_at :: "instant option"
  ru_last_view_json :: "'v option"

record 'v profile_row =
  rp_workspace_id :: string
  rp_user_email :: string
  rp_profile :: string
  rp_created_at :: instant
  rp_updated_at :: instant
  rp_seed_source :: "string option"
  rp_view_json :: 'v

record preview_row =
  rr_workspace_id :: string
  rr_content_type :: string
  rr_size_bytes :: int
  rr_image :: "u8 list"
  rr_updated_at :: instant
  rr_updated_by :: string

record ('j, 'v) tables =
  workspaces :: "'j workspace_row list"
  workspace_members :: "member_row list"
  dataset_sources :: "source_row list"
  workspace_datasets :: "dataset_row list"
  workspace_saved_views :: "'v view_row list"
  user_workspace_state :: "'v state_row list"
  workspace_viewer_profiles :: "'v profile_row list"
  workspace_previews :: "preview_row list"

section \<open>Statements\<close>

record ('j, 'v) sql_env =
  ev_fault :: "nat \<Rightarrow> string option"
  ev_violation :: "string \<Rightarrow> string"
  ev_now :: "nat \<Rightarrow> instant"
  ev_uuid :: "nat \<Rightarrow> string"
  ev_document_out :: "document \<Rightarrow> string + 'j"
  ev_document_in :: "'j \<Rightarrow> string + document"
  ev_view_out :: "saved_view \<Rightarrow> string + 'v"
  ev_view_in :: "'v \<Rightarrow> string + saved_view"

record ('j, 'v) world =
  db :: "('j, 'v) tables"
  tick :: nat

type_synonym ('j, 'v, 'e, 'a) act = "('j, 'v) sql_env \<Rightarrow> ('j, 'v) world \<Rightarrow> ('e + 'a) \<times> ('j, 'v) world"

definition act_res :: "'e + 'a \<Rightarrow> ('j, 'v, 'e, 'a) act" where
  "act_res r = (\<lambda>ev w. (r, w))"

abbreviation act_ret :: "'a \<Rightarrow> ('j, 'v, 'e, 'a) act" where
  "act_ret a \<equiv> act_res (Inr a)"

abbreviation act_fail :: "'e \<Rightarrow> ('j, 'v, 'e, 'a) act" where
  "act_fail e \<equiv> act_res (Inl e)"

definition act_bind :: "('j, 'v, 'e, 'a) act \<Rightarrow> ('a \<Rightarrow> ('j, 'v, 'e, 'b) act) \<Rightarrow> ('j, 'v, 'e, 'b) act" where
  "act_bind m f = (\<lambda>ev w. case m ev w of (Inl e, w') \<Rightarrow> (Inl e, w') | (Inr a, w') \<Rightarrow> f a ev w')"

definition act_map_err :: "('e \<Rightarrow> 'f) \<Rightarrow> ('j, 'v, 'e, 'a) act \<Rightarrow> ('j, 'v, 'f, 'a) act" where
  "act_map_err g m = (\<lambda>ev w. case m ev w of (r, w') \<Rightarrow> (res_map_err g r, w'))"

fun act_each :: "('a \<Rightarrow> ('j, 'v, 'e, 'b) act) \<Rightarrow> 'a list \<Rightarrow> ('j, 'v, 'e, 'b list) act" where
  "act_each f [] = act_ret []"
| "act_each f (x # xs) = act_bind (f x) (\<lambda>y. act_bind (act_each f xs) (\<lambda>ys. act_ret (y # ys)))"

definition utc_now :: "('j, 'v, 'e, instant) act" where
  "utc_now = (\<lambda>ev w. (Inr (ev_now ev (tick w)), w))"

definition new_uuid :: "('j, 'v, 'e, string) act" where
  "new_uuid = (\<lambda>ev w. (Inr (ev_uuid ev (tick w)), w\<lparr>tick := Suc (tick w)\<rparr>))"

text \<open>One statement: a fault of the backend, a constraint of the schema it would break, or its effect.\<close>

definition execute :: "(('j, 'v) tables \<Rightarrow> string + 'a \<times> ('j, 'v) tables) \<Rightarrow> ('j, 'v, ws_store_error, 'a) act" where
  "execute g = (\<lambda>ev w. let w' = w\<lparr>tick := Suc (tick w)\<rparr> in
     case ev_fault ev (tick w) of
       Some e \<Rightarrow> (Inl (StBackend e), w')
     | None \<Rightarrow> (case g (db w) of
         Inl c \<Rightarrow> (Inl (StBackend (ev_violation ev c)), w')
       | Inr (a, d) \<Rightarrow> (Inr a, w'\<lparr>db := d\<rparr>)))"

definition fetch :: "(('j, 'v) tables \<Rightarrow> 'a) \<Rightarrow> ('j, 'v, ws_store_error, 'a) act" where
  "fetch f = execute (\<lambda>d. Inr (f d, d))"

text \<open>A transaction: committed, rolled back, or dropped without either.\<close>

datatype 'a tx_end = TxCommit 'a | TxRollback 'a | TxDrop 'a

definition transact :: "('j, 'v, ws_store_error, 'a tx_end) act \<Rightarrow> ('j, 'v, ws_store_error, 'a) act" where
  "transact m = (\<lambda>ev w. case act_bind (fetch (\<lambda>_. ())) (\<lambda>_. m) ev w of
       (Inl e, w') \<Rightarrow> (Inl e, w'\<lparr>db := db w\<rparr>)
     | (Inr (TxCommit a), w') \<Rightarrow> (case fetch (\<lambda>_. a) ev w' of (Inl e, w'') \<Rightarrow> (Inl e, w''\<lparr>db := db w\<rparr>) | ok \<Rightarrow> ok)
     | (Inr (TxRollback a), w') \<Rightarrow> fetch (\<lambda>_. a) ev (w'\<lparr>db := db w\<rparr>)
     | (Inr (TxDrop a), w') \<Rightarrow> (Inr a, w'\<lparr>db := db w\<rparr>))"

definition document_json :: "document \<Rightarrow> ('j, 'v, ws_store_error, 'j) act" where
  "document_json d = (\<lambda>ev w. (res_map_err (\<lambda>e. StBackend (''document_json serialize: '' @ e)) (ev_document_out ev d), w))"

definition document_of_json :: "'j \<Rightarrow> ('j, 'v, ws_store_error, document) act" where
  "document_of_json j = (\<lambda>ev w. (res_map_err InvalidDocument (ev_document_in ev j), w))"

definition view_json :: "saved_view \<Rightarrow> ('j, 'v, ws_store_error, 'v) act" where
  "view_json v = (\<lambda>ev w. (res_map_err (\<lambda>e. StBackend (''view_json serialize: '' @ e)) (ev_view_out ev v), w))"

definition view_of_json :: "'v \<Rightarrow> ('j, 'v, ws_store_error, saved_view) act" where
  "view_of_json j = (\<lambda>ev w. (res_map_err InvalidSavedView (ev_view_in ev j), w))"

definition update_where :: "('r \<Rightarrow> bool) \<Rightarrow> ('r \<Rightarrow> 'r) \<Rightarrow> 'r list \<Rightarrow> 'r list" where
  "update_where P f rows = map (\<lambda>r. if P r then f r else r) rows"

definition has_workspace :: "('j, 'v) tables \<Rightarrow> string \<Rightarrow> bool" where
  "has_workspace d i \<longleftrightarrow> list_ex (\<lambda>r. rw_id r = i) (workspaces d)"

definition is_live :: "string \<Rightarrow> 'j workspace_row \<Rightarrow> bool" where
  "is_live i r \<longleftrightarrow> rw_id r = i \<and> rw_archived_at r = None"

definition is_member :: "string \<Rightarrow> string \<Rightarrow> member_row \<Rightarrow> bool" where
  "is_member i email r \<longleftrightarrow> rm_workspace_id r = i \<and> rm_email r = email"

definition is_view :: "string \<Rightarrow> string \<Rightarrow> 'v view_row \<Rightarrow> bool" where
  "is_view i v r \<longleftrightarrow> rv_workspace_id r = i \<and> rv_id r = v"

text \<open>An update of workspace rows and the number of rows it changed.\<close>

definition update_workspaces :: "('j workspace_row \<Rightarrow> bool) \<Rightarrow> ('j workspace_row \<Rightarrow> 'j workspace_row) \<Rightarrow> ('j, 'v, ws_store_error, nat) act" where
  "update_workspaces P f = execute (\<lambda>d. Inr (length (filter P (workspaces d)), d\<lparr>workspaces := update_where P f (workspaces d)\<rparr>))"

definition touch_workspace :: "string \<Rightarrow> instant \<Rightarrow> ('j, 'v, ws_store_error, unit) act" where
  "touch_workspace i now = act_bind (update_workspaces (\<lambda>r. rw_id r = i) (\<lambda>r. r\<lparr>rw_updated_at := now\<rparr>)) (\<lambda>_. act_ret ())"

definition workspace_exists :: "string \<Rightarrow> ('j, 'v, ws_store_error, bool) act" where
  "workspace_exists i = fetch (\<lambda>d. list_ex (is_live i) (workspaces d))"

definition workspace_exists_in_any_state :: "string \<Rightarrow> ('j, 'v, ws_store_error, bool) act" where
  "workspace_exists_in_any_state i = fetch (\<lambda>d. has_workspace d i)"

section \<open>Rows\<close>

text \<open>\<^verbatim>\<open>seq as i64\<close> on the way in, \<^verbatim>\<open>seq.max(0) as u64\<close> on the way out.\<close>

definition seq_in :: "u64 \<Rightarrow> int" where
  "seq_in seq = sint seq"

definition seq_out :: "int \<Rightarrow> u64" where
  "seq_out seq = word_of_int (max seq 0)"

definition row_to_record :: "'j workspace_row \<Rightarrow> ('j, 'v, ws_store_error, workspace_record) act" where
  "row_to_record r = act_bind (document_of_json (rw_document_json r)) (\<lambda>document. act_ret
     \<lparr>wk_id = rw_id r, wk_name = rw_name r, wk_created_by = rw_created_by r, wk_created_at = rw_created_at r,
      wk_updated_at = rw_updated_at r, wk_archived_at = rw_archived_at r, wk_seq = seq_out (rw_seq r),
      wk_default = rw_default r, wk_document = document\<rparr>)"

definition row_to_member :: "member_row \<Rightarrow> ws_store_error + workspace_member" where
  "row_to_member r = res_map (\<lambda>role. \<lparr>mem_email = rm_email r, mem_role = role, mem_display_name = rm_display_name r, mem_added_at = rm_added_at r\<rparr>)
     (role_try_from (rm_role r))"

definition row_to_saved_view :: "'v view_row \<Rightarrow> ('j, 'v, ws_store_error, workspace_saved_view) act" where
  "row_to_saved_view r = act_bind (act_res (visibility_try_from (rv_visibility r))) (\<lambda>visibility.
     act_bind (view_of_json (rv_view_json r)) (\<lambda>view. act_ret
       \<lparr>wv_id = rv_id r, wv_workspace_id = rv_workspace_id r, wv_name = rv_name r, wv_created_by = rv_created_by r,
        wv_created_by_name = rv_created_by_name r, wv_created_at = rv_created_at r, wv_updated_at = rv_updated_at r,
        wv_visibility = visibility, wv_view = view\<rparr>))"

definition row_to_viewer_profile :: "'v profile_row \<Rightarrow> ('j, 'v, ws_store_error, viewer_profile) act" where
  "row_to_viewer_profile r = act_bind (view_of_json (rp_view_json r)) (\<lambda>view. act_ret
     \<lparr>vp_workspace_id = rp_workspace_id r, vp_user_email = rp_user_email r, vp_profile = rp_profile r,
      vp_created_at = rp_created_at r, vp_updated_at = rp_updated_at r, vp_seed_source = rp_seed_source r, vp_view = view\<rparr>)"

definition parse_opt_saved_view :: "'v option \<Rightarrow> ('j, 'v, ws_store_error, saved_view option) act" where
  "parse_opt_saved_view raw = (\<lambda>ev w. (Inr (case raw of None \<Rightarrow> None
     | Some j \<Rightarrow> (case ev_view_in ev j of Inl _ \<Rightarrow> None | Inr v \<Rightarrow> Some v)), w))"

definition row_to_user_state :: "'v state_row \<Rightarrow> ('j, 'v, ws_store_error, user_state) act" where
  "row_to_user_state r = act_bind (parse_opt_saved_view (ru_last_view_json r)) (\<lambda>view. act_ret
     \<lparr>us_workspace_id = ru_workspace_id r, us_last_opened_at = ru_last_opened_at r, us_pinned_at = ru_pinned_at r, us_last_view = view\<rparr>)"

text \<open>\<^verbatim>\<open>row.map(f).transpose()\<close>.\<close>

definition act_option :: "('r \<Rightarrow> ('j, 'v, 'e, 'a) act) \<Rightarrow> 'r option \<Rightarrow> ('j, 'v, 'e, 'a option) act" where
  "act_option f r = (case r of None \<Rightarrow> act_ret None | Some r \<Rightarrow> act_bind (f r) (\<lambda>a. act_ret (Some a)))"

end
