(* ===== verification/WorkspaceStore.thy ===== *)
theory WorkspaceStore
  imports WorkspaceTables
begin

text \<open>
  The operations of \<^verbatim>\<open>SqliteWorkspaceStore\<close> (\<^verbatim>\<open>store/sqlite.rs\<close>) over the statements of \<^verbatim>\<open>store/sql.rs\<close>.
  Rows that tie in an \<^verbatim>\<open>ORDER BY\<close> keep the order of the table.
\<close>

section \<open>Workspaces\<close>

definition get_workspace_row :: "string \<Rightarrow> ('j, 'v, ws_store_error, workspace_record option) act" where
  "get_workspace_row i = act_bind (fetch (\<lambda>d. find (\<lambda>r. rw_id r = i) (workspaces d))) (act_option row_to_record)"

text \<open>
  The two inserts of a blank workspace that only its owner can see. The row takes the defaults of
  the table for link access.
\<close>

definition insert_workspace :: "'j workspace_row \<Rightarrow> ('j, 'v, ws_store_error, unit) act" where
  "insert_workspace r = execute (\<lambda>d.
     if has_workspace d (rw_id r) then Inl ''workspaces.id''
     else Inr ((), d\<lparr>workspaces := workspaces d @ [r]\<rparr>))"

definition insert_member :: "member_row \<Rightarrow> ('j, 'v, ws_store_error, unit) act" where
  "insert_member r = execute (\<lambda>d.
     if list_ex (is_member (rm_workspace_id r) (rm_email r)) (workspace_members d) then Inl ''workspace_members.workspace_id, workspace_members.email''
     else if \<not> has_workspace d (rm_workspace_id r) then Inl ''FOREIGN KEY''
     else Inr ((), d\<lparr>workspace_members := workspace_members d @ [r]\<rparr>))"

definition insert_blank_owned_workspace :: "string \<Rightarrow> string \<Rightarrow> string \<Rightarrow> string \<Rightarrow> 'j \<Rightarrow> instant \<Rightarrow> ('j, 'v, ws_store_error, unit) act" where
  "insert_blank_owned_workspace i owner_email owner_display_name name json now =
     act_bind (insert_workspace \<lparr>rw_id = i, rw_name = name, rw_created_by = owner_email, rw_created_at = now, rw_updated_at = now,
       rw_archived_at = None, rw_link_access = ''restricted'', rw_link_role = ''viewer'', rw_seq = 0,
       rw_document_json = json, rw_default = None\<rparr>) (\<lambda>_.
     insert_member \<lparr>rm_workspace_id = i, rm_email = owner_email, rm_role = ''owner'', rm_display_name = owner_display_name, rm_added_at = now\<rparr>)"

definition store_create_workspace :: "auth_principal \<Rightarrow> string option \<Rightarrow> ('j, 'v, ws_store_error, workspace_record) act" where
  "store_create_workspace owner name =
     act_bind new_uuid (\<lambda>i. act_bind utc_now (\<lambda>now.
       let owner_email = normalize_email (pr_email owner); name = default_workspace_name name
       in act_bind (document_json doc_default) (\<lambda>json.
          act_bind (transact (act_bind (insert_blank_owned_workspace i owner_email (pr_display_name owner) name json now) (\<lambda>_. act_ret (TxCommit ())))) (\<lambda>_.
          act_ret \<lparr>wk_id = i, wk_name = name, wk_created_by = owner_email, wk_created_at = now, wk_updated_at = now,
            wk_archived_at = None, wk_seq = 0, wk_default = None, wk_document = doc_default\<rparr>))))"

definition store_rename_workspace :: "string \<Rightarrow> string \<Rightarrow> ('j, 'v, ws_store_error, workspace_record option) act" where
  "store_rename_workspace i name =
     act_bind utc_now (\<lambda>now.
     act_bind (update_workspaces (is_live i) (\<lambda>r. r\<lparr>rw_name := default_workspace_name (Some name), rw_updated_at := now\<rparr>)) (\<lambda>n.
     if n = 0 then act_ret None else get_workspace_row i))"

definition store_archive_workspace :: "string \<Rightarrow> ('j, 'v, ws_store_error, workspace_record option) act" where
  "store_archive_workspace i =
     act_bind utc_now (\<lambda>now.
     act_bind (update_workspaces (is_live i) (\<lambda>r. r\<lparr>rw_archived_at := Some now, rw_updated_at := now\<rparr>)) (\<lambda>n.
     if n = 0 then act_ret None else get_workspace_row i))"

definition store_restore_workspace :: "string \<Rightarrow> ('j, 'v, ws_store_error, workspace_record option) act" where
  "store_restore_workspace i =
     act_bind utc_now (\<lambda>now.
     act_bind (update_workspaces (\<lambda>r. rw_id r = i) (\<lambda>r. r\<lparr>rw_archived_at := None, rw_updated_at := now\<rparr>)) (\<lambda>n.
     if n = 0 then act_ret None else get_workspace_row i))"

section \<open>Roles\<close>

definition store_role_for :: "string \<Rightarrow> auth_principal \<Rightarrow> ('j, 'v, ws_store_error, workspace_role option) act" where
  "store_role_for i caller =
     (if pr_is_admin caller then act_bind (workspace_exists i) (\<lambda>e. act_ret (if e then Some Owner else None))
      else act_bind (fetch (\<lambda>d. map_option (\<lambda>r. (r, find (is_member i (normalize_email (pr_email caller))) (workspace_members d)))
             (find (is_live i) (workspaces d)))) (\<lambda>row.
        case row of
          None \<Rightarrow> act_ret None
        | Some (_, Some m) \<Rightarrow> act_res (res_map Some (role_try_from (rm_role m)))
        | Some (r, None) \<Rightarrow> act_res (res_bind (link_access_try_from (rw_link_access r)) (\<lambda>access.
            if access = AnyoneWithLink then
              res_bind (role_try_from (rw_link_role r)) (\<lambda>link_role.
                if can_own link_role then Inl (InvalidRole ''link role cannot grant owner'') else Inr (Some link_role))
            else Inr None))))"

definition member_role_row :: "string \<Rightarrow> auth_principal \<Rightarrow> ('j, 'v, ws_store_error, member_row option) act" where
  "member_role_row i caller = fetch (\<lambda>d. find (is_member i (normalize_email (pr_email caller))) (workspace_members d))"

definition store_owner_role_for_any_state :: "string \<Rightarrow> auth_principal \<Rightarrow> ('j, 'v, ws_store_error, workspace_role option) act" where
  "store_owner_role_for_any_state i caller =
     (if pr_is_admin caller then act_bind (workspace_exists_in_any_state i) (\<lambda>e. act_ret (if e then Some Owner else None))
      else act_bind (member_role_row i caller) (\<lambda>row. case row of
          None \<Rightarrow> act_ret None
        | Some m \<Rightarrow> act_res (res_map (\<lambda>role. if can_own role then Some role else None) (role_try_from (rm_role m)))))"

definition store_member_role_for_any_state :: "string \<Rightarrow> auth_principal \<Rightarrow> ('j, 'v, ws_store_error, workspace_role option) act" where
  "store_member_role_for_any_state i caller =
     (if pr_is_admin caller then act_bind (workspace_exists_in_any_state i) (\<lambda>e. act_ret (if e then Some Owner else None))
      else act_bind (member_role_row i caller) (\<lambda>row. case row of
          None \<Rightarrow> act_ret None
        | Some m \<Rightarrow> act_res (res_map Some (role_try_from (rm_role m)))))"

section \<open>Members and sharing\<close>

definition role_rank :: "string \<Rightarrow> nat" where
  "role_rank role = (if role = ''owner'' then 0 else if role = ''editor'' then 1 else 2)"

definition list_members :: "string \<Rightarrow> ('j, 'v, ws_store_error, workspace_member list) act" where
  "list_members i =
     act_bind (fetch (\<lambda>d. sort_key (\<lambda>r. role_rank (rm_role r)) (sort_key rm_email (filter (\<lambda>r. rm_workspace_id r = i) (workspace_members d)))))
       (\<lambda>rows. act_res (res_collect row_to_member rows))"

definition store_member :: "string \<Rightarrow> string \<Rightarrow> ('j, 'v, ws_store_error, workspace_member option) act" where
  "store_member i email =
     act_bind (fetch (\<lambda>d. find (is_member i (normalize_email email)) (workspace_members d)))
       (act_option (\<lambda>r. act_res (row_to_member r)))"

definition store_sharing_settings :: "string \<Rightarrow> ('j, 'v, ws_store_error, sharing_settings option) act" where
  "store_sharing_settings i =
     act_bind (fetch (\<lambda>d. find (is_live i) (workspaces d))) (act_option (\<lambda>r.
       act_bind (list_members i) (\<lambda>members.
       act_bind (act_res (link_access_try_from (rw_link_access r))) (\<lambda>access.
       act_bind (act_res (role_try_from (rw_link_role r))) (\<lambda>link_role.
       act_ret \<lparr>sh_link_access = access, sh_link_role = link_role, sh_members = members\<rparr>)))))"

text \<open>\<^verbatim>\<open>ON CONFLICT(workspace_id, email) DO UPDATE\<close>: a member that is there keeps its \<^verbatim>\<open>added_at\<close>.\<close>

definition upsert_member_row :: "member_row \<Rightarrow> ('j, 'v, ws_store_error, unit) act" where
  "upsert_member_row r = execute (\<lambda>d.
     let same = is_member (rm_workspace_id r) (rm_email r)
     in if list_ex same (workspace_members d)
        then Inr ((), d\<lparr>workspace_members := update_where same (\<lambda>m. m\<lparr>rm_role := rm_role r, rm_display_name := rm_display_name r\<rparr>) (workspace_members d)\<rparr>)
        else if \<not> has_workspace d (rm_workspace_id r) then Inl ''FOREIGN KEY''
        else Inr ((), d\<lparr>workspace_members := workspace_members d @ [r]\<rparr>))"

definition store_upsert_member :: "string \<Rightarrow> string \<Rightarrow> string \<Rightarrow> workspace_role \<Rightarrow> ('j, 'v, ws_store_error, workspace_member option) act" where
  "store_upsert_member i email display_name role =
     (let email = normalize_email email; display_name = default_member_display_name email display_name
      in act_bind (workspace_exists i) (\<lambda>e. if \<not> e then act_ret None else
         act_bind utc_now (\<lambda>now.
         act_bind (transact (act_bind (upsert_member_row \<lparr>rm_workspace_id = i, rm_email = email, rm_role = role_str role, rm_display_name = display_name, rm_added_at = now\<rparr>) (\<lambda>_.
           act_bind (touch_workspace i now) (\<lambda>_. act_ret (TxCommit ()))))) (\<lambda>_.
         store_member i email))))"

definition store_admin_upsert_owner :: "string \<Rightarrow> string \<Rightarrow> string \<Rightarrow> ('j, 'v, ws_store_error, workspace_member option) act" where
  "store_admin_upsert_owner i email display_name =
     act_bind (workspace_exists_in_any_state i) (\<lambda>e. if \<not> e then act_ret None else
       (let email = normalize_email email; display_name = default_member_display_name email display_name
        in act_bind utc_now (\<lambda>now.
           act_bind (transact (act_bind (upsert_member_row \<lparr>rm_workspace_id = i, rm_email = email, rm_role = ''owner'', rm_display_name = display_name, rm_added_at = now\<rparr>) (\<lambda>_.
             act_bind (touch_workspace i now) (\<lambda>_. act_ret (TxCommit ()))))) (\<lambda>_.
           store_member i email))))"

definition store_update_member_role :: "string \<Rightarrow> string \<Rightarrow> workspace_role \<Rightarrow> ('j, 'v, ws_store_error, workspace_member option) act" where
  "store_update_member_role i email role =
     (let email = normalize_email email
      in act_bind utc_now (\<lambda>now.
         act_bind (transact (act_bind (execute (\<lambda>d. Inr (length (filter (is_member i email) (workspace_members d)),
             d\<lparr>workspace_members := update_where (is_member i email) (\<lambda>m. m\<lparr>rm_role := role_str role\<rparr>) (workspace_members d)\<rparr>))) (\<lambda>n.
           if n = 0 then act_ret (TxRollback False)
           else act_bind (touch_workspace i now) (\<lambda>_. act_ret (TxCommit True))))) (\<lambda>updated.
         if updated then store_member i email else act_ret None)))"

definition store_remove_member :: "string \<Rightarrow> string \<Rightarrow> ('j, 'v, ws_store_error, bool) act" where
  "store_remove_member i email =
     (let email = normalize_email email
      in act_bind utc_now (\<lambda>now.
         transact (act_bind (execute (\<lambda>d. Inr (length (filter (is_member i email) (workspace_members d)),
             d\<lparr>workspace_members := filter (\<lambda>m. \<not> is_member i email m) (workspace_members d)\<rparr>))) (\<lambda>n.
           if n = 0 then act_ret (TxRollback False)
           else act_bind (touch_workspace i now) (\<lambda>_. act_ret (TxCommit True))))))"

definition store_update_link_access :: "string \<Rightarrow> link_access \<Rightarrow> workspace_role \<Rightarrow> ('j, 'v, ws_store_error, sharing_settings option) act" where
  "store_update_link_access i access link_role =
     act_bind utc_now (\<lambda>now.
     act_bind (update_workspaces (is_live i) (\<lambda>r. r\<lparr>rw_link_access := link_access_str access, rw_link_role := role_str link_role, rw_updated_at := now\<rparr>)) (\<lambda>n.
     if n = 0 then act_ret None else store_sharing_settings i))"

section \<open>The document and its datasets\<close>

definition persist_document_row :: "string \<Rightarrow> u64 \<Rightarrow> 'j \<Rightarrow> instant \<Rightarrow> ('j, 'v, ws_store_error, unit) act" where
  "persist_document_row i seq json now =
     act_bind (update_workspaces (\<lambda>r. rw_id r = i) (\<lambda>r. r\<lparr>rw_seq := seq_in seq, rw_document_json := json, rw_updated_at := now\<rparr>)) (\<lambda>_. act_ret ())"

definition store_persist_document :: "string \<Rightarrow> u64 \<Rightarrow> document \<Rightarrow> ('j, 'v, ws_store_error, unit) act" where
  "store_persist_document i seq document =
     act_bind (document_json document) (\<lambda>json. act_bind utc_now (\<lambda>now. persist_document_row i seq json now))"

definition upsert_dataset_source :: "source_row \<Rightarrow> ('j, 'v, ws_store_error, unit) act" where
  "upsert_dataset_source r = execute (\<lambda>d.
     if list_ex (\<lambda>s. rs_canonical_url s = rs_canonical_url r \<and> rs_id s \<noteq> rs_id r) (dataset_sources d) then Inl ''dataset_sources.canonical_url''
     else if list_ex (\<lambda>s. rs_id s = rs_id r) (dataset_sources d)
       then Inr ((), d\<lparr>dataset_sources := update_where (\<lambda>s. rs_id s = rs_id r)
              (\<lambda>s. s\<lparr>rs_canonical_url := rs_canonical_url r, rs_default_name := rs_default_name r, rs_updated_at := rs_updated_at r\<rparr>) (dataset_sources d)\<rparr>)
     else Inr ((), d\<lparr>dataset_sources := dataset_sources d @ [r]\<rparr>))"

definition insert_dataset_row :: "dataset_row \<Rightarrow> ('j, 'v) tables \<Rightarrow> string + unit \<times> ('j, 'v) tables" where
  "insert_dataset_row r d =
     (if list_ex (\<lambda>x. rd_id x = rd_id r) (workspace_datasets d) then Inl ''workspace_datasets.id''
      else if \<not> has_workspace d (rd_workspace_id r) \<or> \<not> list_ex (\<lambda>s. rs_id s = rd_source r) (dataset_sources d) then Inl ''FOREIGN KEY''
      else Inr ((), d\<lparr>workspace_datasets := workspace_datasets d @ [r]\<rparr>))"

definition same_membership :: "dataset_row \<Rightarrow> dataset_row \<Rightarrow> bool" where
  "same_membership r x \<longleftrightarrow> rd_workspace_id x = rd_workspace_id r \<and> rd_source x = rd_source r"

definition insert_workspace_dataset :: "dataset_row \<Rightarrow> ('j, 'v, ws_store_error, unit) act" where
  "insert_workspace_dataset r = execute (\<lambda>d.
     if list_ex (same_membership r) (workspace_datasets d) then Inl ''workspace_datasets.workspace_id, workspace_datasets.dataset_source_id''
     else insert_dataset_row r d)"

text \<open>At the end of the layer order; a source the workspace already holds is left as it is.\<close>

definition insert_workspace_dataset_at_end :: "dataset_row \<Rightarrow> ('j, 'v, ws_store_error, unit) act" where
  "insert_workspace_dataset_at_end r = execute (\<lambda>d.
     if list_ex (same_membership r) (workspace_datasets d) then Inr ((), d)
     else insert_dataset_row (r\<lparr>rd_sort_order := fold max (map rd_sort_order (filter (\<lambda>x. rd_workspace_id x = rd_workspace_id r) (workspace_datasets d))) (-1) + 1\<rparr>) d)"

definition store_persist_dataset_opened ::
  "string \<Rightarrow> dataset_id \<Rightarrow> string \<Rightarrow> string \<Rightarrow> string \<Rightarrow> string \<Rightarrow> u64 \<Rightarrow> document \<Rightarrow> ('j, 'v, ws_store_error, unit) act" where
  "store_persist_dataset_opened i workspace_dataset_id dataset_source_id canonical_url display_name added_by seq document =
     act_bind utc_now (\<lambda>now. act_bind (document_json document) (\<lambda>json. transact (
       act_bind (upsert_dataset_source \<lparr>rs_id = dataset_source_id, rs_canonical_url = canonical_url, rs_default_name = display_name,
         rs_created_at = now, rs_updated_at = now\<rparr>) (\<lambda>_.
       act_bind (insert_workspace_dataset_at_end \<lparr>rd_id = workspace_dataset_id, rd_workspace_id = i, rd_source = dataset_source_id,
         rd_display_name = display_name, rd_added_by = normalize_email added_by, rd_added_at = now, rd_sort_order = 0\<rparr>) (\<lambda>_.
       act_bind (persist_document_row i seq json now) (\<lambda>_. act_ret (TxCommit ())))))))"

definition is_dataset :: "string \<Rightarrow> dataset_id \<Rightarrow> dataset_row \<Rightarrow> bool" where
  "is_dataset i ds r \<longleftrightarrow> rd_workspace_id r = i \<and> rd_id r = ds"

definition store_persist_dataset_removed :: "string \<Rightarrow> dataset_id \<Rightarrow> u64 \<Rightarrow> document \<Rightarrow> ('j, 'v, ws_store_error, unit) act" where
  "store_persist_dataset_removed i ds seq document =
     act_bind utc_now (\<lambda>now. act_bind (document_json document) (\<lambda>json. transact (
       act_bind (execute (\<lambda>d. Inr ((), d\<lparr>workspace_datasets := filter (\<lambda>r. \<not> is_dataset i ds r) (workspace_datasets d)\<rparr>))) (\<lambda>_.
       act_bind (persist_document_row i seq json now) (\<lambda>_. act_ret (TxCommit ()))))))"

definition store_persist_dataset_renamed :: "string \<Rightarrow> dataset_id \<Rightarrow> string \<Rightarrow> u64 \<Rightarrow> document \<Rightarrow> ('j, 'v, ws_store_error, unit) act" where
  "store_persist_dataset_renamed i ds display_name seq document =
     act_bind utc_now (\<lambda>now. act_bind (document_json document) (\<lambda>json. transact (
       act_bind (execute (\<lambda>d. Inr ((), d\<lparr>workspace_datasets := update_where (is_dataset i ds) (\<lambda>r. r\<lparr>rd_display_name := display_name\<rparr>) (workspace_datasets d)\<rparr>))) (\<lambda>_.
       act_bind (persist_document_row i seq json now) (\<lambda>_. act_ret (TxCommit ()))))))"

text \<open>The inner join of a membership with its source.\<close>

definition join_source :: "('j, 'v) tables \<Rightarrow> dataset_row \<Rightarrow> dataset_source list" where
  "join_source d r = map (\<lambda>s. \<lparr>src_workspace_dataset_id = rd_id r, src_dataset_source_id = rd_source r,
     src_canonical_url = rs_canonical_url s, src_display_name = rd_display_name r\<rparr>) (filter (\<lambda>s. rs_id s = rd_source r) (dataset_sources d))"

definition in_layer_order :: "dataset_row list \<Rightarrow> dataset_row list" where
  "in_layer_order rows = sort_key rd_sort_order (sort_key rd_added_at rows)"

definition layer_sources :: "('j, 'v) tables \<Rightarrow> string \<Rightarrow> dataset_source list" where
  "layer_sources d i = concat (map (join_source d) (in_layer_order (filter (\<lambda>r. rd_workspace_id r = i) (workspace_datasets d))))"

definition store_list_dataset_sources :: "string \<Rightarrow> ('j, 'v, ws_store_error, dataset_source list) act" where
  "store_list_dataset_sources i = fetch (\<lambda>d. layer_sources d i)"

definition first_row :: "'a list \<Rightarrow> 'a option" where
  "first_row xs = (case xs of [] \<Rightarrow> None | x # _ \<Rightarrow> Some x)"

definition store_dataset_by_source :: "string \<Rightarrow> string \<Rightarrow> ('j, 'v, ws_store_error, dataset_source option) act" where
  "store_dataset_by_source i source_id = fetch (\<lambda>d. first_row (concat (map (join_source d)
     (filter (\<lambda>r. rd_workspace_id r = i \<and> rd_source r = source_id) (workspace_datasets d)))))"

definition store_dataset_by_workspace_dataset :: "string \<Rightarrow> dataset_id \<Rightarrow> ('j, 'v, ws_store_error, dataset_source option) act" where
  "store_dataset_by_workspace_dataset i ds = fetch (\<lambda>d. first_row (concat (map (join_source d)
     (filter (is_dataset i ds) (workspace_datasets d)))))"

section \<open>Saved views\<close>

text \<open>The predicate of \<^verbatim>\<open>LIST_SAVED_VIEWS\<close>.\<close>

definition view_listed :: "string \<Rightarrow> string \<Rightarrow> bool \<Rightarrow> 'v view_row \<Rightarrow> bool" where
  "view_listed i viewer_email viewer_can_edit r \<longleftrightarrow>
     rv_workspace_id r = i \<and>
     (rv_visibility r = ''shared'' \<or> rv_created_by r = viewer_email \<or> (viewer_can_edit \<and> rv_visibility r = ''proposed''))"

definition store_list_saved_views :: "string \<Rightarrow> string \<Rightarrow> bool \<Rightarrow> ('j, 'v, ws_store_error, workspace_saved_view list) act" where
  "store_list_saved_views i viewer_email viewer_can_edit =
     act_bind (fetch (\<lambda>d. sort_key (\<lambda>r. - rv_updated_at r) (filter (view_listed i viewer_email viewer_can_edit) (workspace_saved_views d))))
       (act_each row_to_saved_view)"

definition store_get_saved_view :: "string \<Rightarrow> string \<Rightarrow> ('j, 'v, ws_store_error, workspace_saved_view option) act" where
  "store_get_saved_view i view_id =
     act_bind (fetch (\<lambda>d. find (is_view i view_id) (workspace_saved_views d))) (act_option row_to_saved_view)"

definition insert_saved_view :: "'v view_row \<Rightarrow> ('j, 'v, ws_store_error, unit) act" where
  "insert_saved_view r = execute (\<lambda>d.
     if list_ex (\<lambda>x. rv_id x = rv_id r) (workspace_saved_views d) then Inl ''workspace_saved_views.id''
     else if \<not> has_workspace d (rv_workspace_id r) then Inl ''FOREIGN KEY''
     else Inr ((), d\<lparr>workspace_saved_views := workspace_saved_views d @ [r]\<rparr>))"

definition store_create_saved_view ::
  "string \<Rightarrow> string \<Rightarrow> auth_principal \<Rightarrow> saved_view \<Rightarrow> saved_view_visibility \<Rightarrow> ('j, 'v, ws_store_error, workspace_saved_view option) act" where
  "store_create_saved_view i name created_by view visibility =
     act_bind (workspace_exists i) (\<lambda>e. if \<not> e then act_ret None else
     act_bind new_uuid (\<lambda>view_id. act_bind utc_now (\<lambda>now. act_bind (view_json view) (\<lambda>json.
       let email = normalize_email (pr_email created_by)
       in act_bind (transact (act_bind (insert_saved_view \<lparr>rv_id = view_id, rv_workspace_id = i, rv_name = name, rv_created_by = email,
            rv_created_by_name = pr_display_name created_by, rv_created_at = now, rv_updated_at = now,
            rv_visibility = visibility_str visibility, rv_view_json = json\<rparr>) (\<lambda>_.
            act_bind (touch_workspace i now) (\<lambda>_. act_ret (TxCommit ()))))) (\<lambda>_.
          act_ret (Some \<lparr>wv_id = view_id, wv_workspace_id = i, wv_name = name, wv_created_by = email,
            wv_created_by_name = pr_display_name created_by, wv_created_at = now, wv_updated_at = now,
            wv_visibility = visibility, wv_view = view\<rparr>))))))"

text \<open>An update of one view and whether a row was there.\<close>

definition change_view :: "string \<Rightarrow> string \<Rightarrow> instant \<Rightarrow> ('v view_row \<Rightarrow> 'v view_row) \<Rightarrow> ('j, 'v, ws_store_error, bool) act" where
  "change_view i view_id now f =
     transact (act_bind (execute (\<lambda>d. Inr (length (filter (is_view i view_id) (workspace_saved_views d)),
         d\<lparr>workspace_saved_views := update_where (is_view i view_id) f (workspace_saved_views d)\<rparr>))) (\<lambda>n.
       if n = 0 then act_ret (TxRollback False)
       else act_bind (touch_workspace i now) (\<lambda>_. act_ret (TxCommit True))))"

definition store_update_saved_view ::
  "string \<Rightarrow> string \<Rightarrow> string option \<Rightarrow> saved_view option \<Rightarrow> ('j, 'v, ws_store_error, workspace_saved_view option) act" where
  "store_update_saved_view i view_id name view =
     act_bind (workspace_exists i) (\<lambda>e. if \<not> e then act_ret None else
     act_bind utc_now (\<lambda>now. act_bind (act_option view_json view) (\<lambda>json.
     act_bind (change_view i view_id now (\<lambda>r. r\<lparr>rv_name := case_option (rv_name r) id name,
       rv_view_json := case_option (rv_view_json r) id json, rv_updated_at := now\<rparr>)) (\<lambda>there.
     if there then store_get_saved_view i view_id else act_ret None))))"

definition store_set_saved_view_visibility ::
  "string \<Rightarrow> string \<Rightarrow> saved_view_visibility \<Rightarrow> ('j, 'v, ws_store_error, workspace_saved_view option) act" where
  "store_set_saved_view_visibility i view_id visibility =
     act_bind (workspace_exists i) (\<lambda>e. if \<not> e then act_ret None else
     act_bind utc_now (\<lambda>now.
     act_bind (change_view i view_id now (\<lambda>r. r\<lparr>rv_visibility := visibility_str visibility, rv_updated_at := now\<rparr>)) (\<lambda>there.
     if there then store_get_saved_view i view_id else act_ret None)))"

text \<open>Deleting a view clears every default that pointed at it (\<^verbatim>\<open>ON DELETE SET NULL\<close>).\<close>

definition delete_saved_view_row :: "string \<Rightarrow> string \<Rightarrow> ('j, 'v, ws_store_error, nat) act" where
  "delete_saved_view_row i view_id = execute (\<lambda>d.
     let gone = map rv_id (filter (is_view i view_id) (workspace_saved_views d))
     in Inr (length gone, d\<lparr>workspace_saved_views := filter (\<lambda>r. \<not> is_view i view_id r) (workspace_saved_views d),
          workspaces := update_where (\<lambda>r. rw_default r \<in> Some ` set gone) (\<lambda>r. r\<lparr>rw_default := None\<rparr>) (workspaces d)\<rparr>))"

definition store_delete_saved_view :: "string \<Rightarrow> string \<Rightarrow> ('j, 'v, ws_store_error, bool) act" where
  "store_delete_saved_view i view_id =
     act_bind (workspace_exists i) (\<lambda>e. if \<not> e then act_ret False else
     act_bind utc_now (\<lambda>now.
     transact (act_bind (delete_saved_view_row i view_id) (\<lambda>n.
       if n = 0 then act_ret (TxRollback False)
       else act_bind (touch_workspace i now) (\<lambda>_. act_ret (TxCommit True))))))"

definition store_set_default_saved_view :: "string \<Rightarrow> string option \<Rightarrow> ('j, 'v, ws_store_error, workspace_record option) act" where
  "store_set_default_saved_view i view_id =
     act_bind utc_now (\<lambda>now.
     act_bind (execute (\<lambda>d.
       let hit = filter (is_live i) (workspaces d)
       in if hit \<noteq> [] \<and> view_id \<noteq> None \<and> \<not> list_ex (\<lambda>r. Some (rv_id r) = view_id) (workspace_saved_views d) then Inl ''FOREIGN KEY''
          else Inr (length hit, d\<lparr>workspaces := update_where (is_live i) (\<lambda>r. r\<lparr>rw_default := view_id, rw_updated_at := now\<rparr>) (workspaces d)\<rparr>))) (\<lambda>n.
     if n = 0 then act_ret None else get_workspace_row i))"

section \<open>A member's own rows\<close>

definition is_profile :: "string \<Rightarrow> string \<Rightarrow> string \<Rightarrow> 'v profile_row \<Rightarrow> bool" where
  "is_profile i email profile r \<longleftrightarrow> rp_workspace_id r = i \<and> rp_user_email r = email \<and> rp_profile r = profile"

definition store_get_viewer_profile :: "string \<Rightarrow> string \<Rightarrow> string \<Rightarrow> ('j, 'v, ws_store_error, viewer_profile option) act" where
  "store_get_viewer_profile i user_email profile =
     act_bind (fetch (\<lambda>d. find (is_profile i (normalize_email user_email) profile) (workspace_viewer_profiles d)))
       (act_option row_to_viewer_profile)"

definition store_upsert_viewer_profile ::
  "string \<Rightarrow> auth_principal \<Rightarrow> string \<Rightarrow> string option \<Rightarrow> saved_view \<Rightarrow> ('j, 'v, ws_store_error, viewer_profile option) act" where
  "store_upsert_viewer_profile i caller profile seed_source view =
     act_bind (workspace_exists i) (\<lambda>e. if \<not> e then act_ret None else
     (let email = normalize_email (pr_email caller)
      in act_bind utc_now (\<lambda>now. act_bind (view_json view) (\<lambda>json.
         act_bind (execute (\<lambda>d.
           if list_ex (is_profile i email profile) (workspace_viewer_profiles d)
           then Inr ((), d\<lparr>workspace_viewer_profiles := update_where (is_profile i email profile)
                  (\<lambda>r. r\<lparr>rp_updated_at := now, rp_seed_source := (case seed_source of None \<Rightarrow> rp_seed_source r | seed \<Rightarrow> seed), rp_view_json := json\<rparr>)
                  (workspace_viewer_profiles d)\<rparr>)
           else if \<not> has_workspace d i then Inl ''FOREIGN KEY''
           else Inr ((), d\<lparr>workspace_viewer_profiles := workspace_viewer_profiles d @ [\<lparr>rp_workspace_id = i, rp_user_email = email,
                  rp_profile = profile, rp_created_at = now, rp_updated_at = now, rp_seed_source = seed_source, rp_view_json = json\<rparr>]\<rparr>))) (\<lambda>_.
         store_get_viewer_profile i email profile)))))"

definition is_state :: "string \<Rightarrow> string \<Rightarrow> 'v state_row \<Rightarrow> bool" where
  "is_state i email r \<longleftrightarrow> ru_workspace_id r = i \<and> ru_user_email r = email"

definition get_user_workspace_state_row :: "string \<Rightarrow> string \<Rightarrow> ('j, 'v, ws_store_error, user_state) act" where
  "get_user_workspace_state_row i email =
     act_bind (fetch (\<lambda>d. find (is_state i email) (user_workspace_state d))) (\<lambda>row. case row of
       Some r \<Rightarrow> row_to_user_state r
     | None \<Rightarrow> act_ret \<lparr>us_workspace_id = i, us_last_opened_at = None, us_pinned_at = None, us_last_view = None\<rparr>)"

text \<open>\<^verbatim>\<open>ON CONFLICT(user_email, workspace_id) DO UPDATE\<close>.\<close>

definition upsert_state :: "'v state_row \<Rightarrow> ('v state_row \<Rightarrow> 'v state_row) \<Rightarrow> ('j, 'v, ws_store_error, unit) act" where
  "upsert_state r f = execute (\<lambda>d.
     let same = is_state (ru_workspace_id r) (ru_user_email r)
     in if list_ex same (user_workspace_state d) then Inr ((), d\<lparr>user_workspace_state := update_where same f (user_workspace_state d)\<rparr>)
        else if \<not> has_workspace d (ru_workspace_id r) then Inl ''FOREIGN KEY''
        else Inr ((), d\<lparr>user_workspace_state := user_workspace_state d @ [r]\<rparr>))"

definition store_record_workspace_open :: "string \<Rightarrow> auth_principal \<Rightarrow> ('j, 'v, ws_store_error, user_state) act" where
  "store_record_workspace_open i caller =
     (let email = normalize_email (pr_email caller)
      in act_bind utc_now (\<lambda>now.
         act_bind (upsert_state \<lparr>ru_user_email = email, ru_workspace_id = i, ru_created_at = now, ru_updated_at = now,
           ru_last_opened_at = Some now, ru_pinned_at = None, ru_last_view_json = None\<rparr>
           (\<lambda>r. r\<lparr>ru_updated_at := now, ru_last_opened_at := Some now\<rparr>)) (\<lambda>_.
         get_user_workspace_state_row i email)))"

definition store_set_workspace_pinned :: "string \<Rightarrow> auth_principal \<Rightarrow> bool \<Rightarrow> ('j, 'v, ws_store_error, user_state) act" where
  "store_set_workspace_pinned i caller pinned =
     (let email = normalize_email (pr_email caller)
      in act_bind utc_now (\<lambda>now.
         act_bind (if pinned
           then upsert_state \<lparr>ru_user_email = email, ru_workspace_id = i, ru_created_at = now, ru_updated_at = now,
             ru_last_opened_at = None, ru_pinned_at = Some now, ru_last_view_json = None\<rparr>
             (\<lambda>r. r\<lparr>ru_updated_at := now, ru_pinned_at := Some now\<rparr>)
           else transact (
             act_bind (execute (\<lambda>d. Inr ((), d\<lparr>user_workspace_state := update_where (is_state i email)
               (\<lambda>r. r\<lparr>ru_pinned_at := None, ru_updated_at := now\<rparr>) (user_workspace_state d)\<rparr>))) (\<lambda>_.
             act_bind (execute (\<lambda>d. Inr ((), d\<lparr>user_workspace_state := filter
               (\<lambda>r. \<not> (is_state i email r \<and> ru_pinned_at r = None \<and> ru_last_opened_at r = None)) (user_workspace_state d)\<rparr>))) (\<lambda>_.
             act_ret (TxCommit ()))))) (\<lambda>_.
         get_user_workspace_state_row i email)))"

definition store_set_user_workspace_last_view :: "string \<Rightarrow> auth_principal \<Rightarrow> saved_view \<Rightarrow> ('j, 'v, ws_store_error, user_state) act" where
  "store_set_user_workspace_last_view i caller view =
     (let email = normalize_email (pr_email caller)
      in act_bind utc_now (\<lambda>now. act_bind (view_json view) (\<lambda>json.
         act_bind (upsert_state \<lparr>ru_user_email = email, ru_workspace_id = i, ru_created_at = now, ru_updated_at = now,
           ru_last_opened_at = None, ru_pinned_at = None, ru_last_view_json = Some json\<rparr>
           (\<lambda>r. r\<lparr>ru_updated_at := now, ru_last_view_json := Some json\<rparr>)) (\<lambda>_.
         get_user_workspace_state_row i email))))"

definition store_get_user_workspace_state :: "string \<Rightarrow> auth_principal \<Rightarrow> ('j, 'v, ws_store_error, user_state) act" where
  "store_get_user_workspace_state i caller = get_user_workspace_state_row i (normalize_email (pr_email caller))"

section \<open>Previews\<close>

record new_preview =
  np_workspace_id :: string
  np_content_type :: string
  np_image :: "u8 list"
  np_updated_by :: string
  np_updated_at :: instant
  np_replaces_up_to :: instant

text \<open>The rate limit is the \<^verbatim>\<open>WHERE\<close> of the upsert; the result is the number of rows it changed.\<close>

definition upsert_preview :: "preview_row \<Rightarrow> instant \<Rightarrow> ('j, 'v, ws_store_error, nat) act" where
  "upsert_preview r replaces_up_to = execute (\<lambda>d.
     let same = (\<lambda>x. rr_workspace_id x = rr_workspace_id r); due = (\<lambda>x. same x \<and> rr_updated_at x \<le> replaces_up_to)
     in if rr_content_type r \<notin> {''image/webp'', ''image/png'', ''image/jpeg''} then Inl ''CHECK content_type''
        else if list_ex same (workspace_previews d)
          then Inr (length (filter due (workspace_previews d)), d\<lparr>workspace_previews := update_where due (\<lambda>_. r) (workspace_previews d)\<rparr>)
        else if \<not> has_workspace d (rr_workspace_id r) then Inl ''FOREIGN KEY''
        else Inr (1, d\<lparr>workspace_previews := workspace_previews d @ [r]\<rparr>))"

definition store_put_preview :: "new_preview \<Rightarrow> ('j, 'v, ws_store_error, preview_write option) act" where
  "store_put_preview p =
     act_bind (workspace_exists (np_workspace_id p)) (\<lambda>e. if \<not> e then act_ret None else
     (let meta = \<lparr>pm_workspace_id = np_workspace_id p, pm_content_type = np_content_type p, pm_size_bytes = int (length (np_image p)),
            pm_updated_at = np_updated_at p, pm_updated_by = normalize_email (np_updated_by p)\<rparr>
      in act_bind (upsert_preview \<lparr>rr_workspace_id = pm_workspace_id meta, rr_content_type = pm_content_type meta, rr_size_bytes = pm_size_bytes meta,
             rr_image = np_image p, rr_updated_at = pm_updated_at meta, rr_updated_by = pm_updated_by meta\<rparr> (np_replaces_up_to p)) (\<lambda>n.
         if 0 < n then act_ret (Some (PvStored meta))
         else act_bind (execute (\<lambda>d. case find (\<lambda>x. rr_workspace_id x = np_workspace_id p) (workspace_previews d) of
                None \<Rightarrow> Inl ''no rows returned'' | Some x \<Rightarrow> Inr (rr_updated_at x, d))) (\<lambda>written_at. act_ret (Some (PvTooSoon written_at))))))"

definition store_get_preview :: "string \<Rightarrow> ('j, 'v, ws_store_error, preview_image option) act" where
  "store_get_preview i = fetch (\<lambda>d. map_option (\<lambda>x. \<lparr>wp_meta = \<lparr>pm_workspace_id = rr_workspace_id x, pm_content_type = rr_content_type x,
     pm_size_bytes = rr_size_bytes x, pm_updated_at = rr_updated_at x, pm_updated_by = rr_updated_by x\<rparr>, wp_image = rr_image x\<rparr>)
     (find (\<lambda>x. rr_workspace_id x = i) (workspace_previews d)))"

section \<open>Duplicating a workspace\<close>

type_synonym copied_dataset = "dataset_row \<times> string"

text \<open>Fresh workspace-local identifiers, \<^verbatim>\<open>wds-\<close> and a UUID without hyphens.\<close>

definition copy_dataset_ids :: "dataset_row list \<Rightarrow> ('j, 'v, ws_store_error, copied_dataset list) act" where
  "copy_dataset_ids = act_each (\<lambda>r. act_bind new_uuid (\<lambda>u. act_ret (r, ''wds-'' @ filter (\<lambda>c. c \<noteq> CHR ''-'') u)))"

definition id_remap :: "copied_dataset list \<Rightarrow> dataset_id \<rightharpoonup> dataset_id" where
  "id_remap copied = fold (\<lambda>(r, new_id) m. m(rd_id r \<mapsto> new_id)) copied Map.empty"

definition insert_copied_datasets :: "string \<Rightarrow> string \<Rightarrow> instant \<Rightarrow> copied_dataset list \<Rightarrow> ('j, 'v, ws_store_error, unit list) act" where
  "insert_copied_datasets new_id owner_email now = act_each (\<lambda>(r, ds). insert_workspace_dataset \<lparr>rd_id = ds, rd_workspace_id = new_id,
     rd_source = rd_source r, rd_display_name = rd_display_name r, rd_added_by = owner_email, rd_added_at = now, rd_sort_order = rd_sort_order r\<rparr>)"

text \<open>One shared view, remapped, without source URLs and attributed to the copier; the old and new identifier.\<close>

definition copy_shared_view ::
  "(dataset_id \<rightharpoonup> dataset_id) \<Rightarrow> string \<Rightarrow> string \<Rightarrow> string \<Rightarrow> instant \<Rightarrow> 'v view_row \<Rightarrow> ('j, 'v, ws_store_error, string \<times> string) act" where
  "copy_shared_view remap new_id owner_email owner_display_name now r =
     act_bind (view_of_json (rv_view_json r)) (\<lambda>view.
     act_bind (view_json (clear_source_urls (view_remap remap view))) (\<lambda>json.
     act_bind new_uuid (\<lambda>new_view_id.
     act_bind (insert_saved_view \<lparr>rv_id = new_view_id, rv_workspace_id = new_id, rv_name = rv_name r, rv_created_by = owner_email,
       rv_created_by_name = owner_display_name, rv_created_at = now, rv_updated_at = now, rv_visibility = ''shared'', rv_view_json = json\<rparr>) (\<lambda>_.
     act_ret (rv_id r, new_view_id)))))"

definition copied_default :: "string option \<Rightarrow> (string \<times> string) list \<Rightarrow> string option" where
  "copied_default source_default ids = fold (\<lambda>(old, new_id) found. if source_default = Some old then Some new_id else found) ids None"

definition set_default_on_copy :: "string \<Rightarrow> string option \<Rightarrow> ('j, 'v, ws_store_error, unit) act" where
  "set_default_on_copy new_id found = (case found of None \<Rightarrow> act_ret ()
     | Some v \<Rightarrow> act_bind (update_workspaces (\<lambda>r. rw_id r = new_id) (\<lambda>r. r\<lparr>rw_default := Some v\<rparr>)) (\<lambda>_. act_ret ()))"

text \<open>The copy, inside one transaction; a source that is gone ends it without a commit.\<close>

definition copy_workspace ::
  "string \<Rightarrow> string \<Rightarrow> string \<Rightarrow> string \<Rightarrow> string \<Rightarrow> instant \<Rightarrow> ('j, 'v, ws_store_error, workspace_record option tx_end) act" where
  "copy_workspace source_id owner_email owner_display_name name new_id now =
     act_bind (fetch (\<lambda>d. find (is_live source_id) (workspaces d))) (\<lambda>found. case found of
       None \<Rightarrow> act_ret (TxDrop None)
     | Some source \<Rightarrow>
         act_bind (fetch (\<lambda>d. in_layer_order (filter (\<lambda>r. rd_workspace_id r = source_id) (workspace_datasets d)))) (\<lambda>rows.
         act_bind (copy_dataset_ids rows) (\<lambda>copied.
         act_bind (document_of_json (rw_document_json source)) (\<lambda>source_document.
         let document = remap_dataset_ids (id_remap copied) source_document in
         act_bind (document_json document) (\<lambda>json.
         act_bind (insert_blank_owned_workspace new_id owner_email owner_display_name name json now) (\<lambda>_.
         act_bind (insert_copied_datasets new_id owner_email now copied) (\<lambda>_.
         act_bind (fetch (\<lambda>d. sort_key rv_created_at (filter (\<lambda>r. rv_workspace_id r = source_id \<and> rv_visibility r = ''shared'') (workspace_saved_views d)))) (\<lambda>views.
         act_bind (act_each (copy_shared_view (id_remap copied) new_id owner_email owner_display_name now) views) (\<lambda>ids.
         let new_default = copied_default (rw_default source) ids in
         act_bind (set_default_on_copy new_id new_default) (\<lambda>_.
         act_ret (TxCommit (Some \<lparr>wk_id = new_id, wk_name = name, wk_created_by = owner_email, wk_created_at = now, wk_updated_at = now,
           wk_archived_at = None, wk_seq = 0, wk_default = new_default, wk_document = document\<rparr>))))))))))))"

definition store_duplicate_workspace :: "string \<Rightarrow> auth_principal \<Rightarrow> string \<Rightarrow> ('j, 'v, ws_store_error, workspace_record option) act" where
  "store_duplicate_workspace source_id owner name =
     act_bind new_uuid (\<lambda>new_id. act_bind utc_now (\<lambda>now.
       let owner_email = normalize_email (pr_email owner); name = default_workspace_name (Some name)
       in transact (copy_workspace source_id owner_email (pr_display_name owner) name new_id now)))"

section \<open>Listings\<close>

definition row_to_summary :: "('j, 'v) tables \<Rightarrow> string \<Rightarrow> 'j workspace_row \<times> string \<Rightarrow> ws_store_error + workspace_summary" where
  "row_to_summary d email rr =
     (let r = fst rr; state = find (is_state (rw_id r) email) (user_workspace_state d)
      in res_map (\<lambda>role. \<lparr>ws_id = rw_id r, ws_name = rw_name r, ws_role = role, ws_created_by = rw_created_by r,
           ws_created_at = rw_created_at r, ws_updated_at = rw_updated_at r, ws_archived_at = rw_archived_at r, ws_seq = seq_out (rw_seq r),
           ws_dataset_count = int (length (filter (\<lambda>x. rd_workspace_id x = rw_id r) (workspace_datasets d))),
           ws_default = rw_default r,
           ws_last_opened_at = Option.bind state ru_last_opened_at, ws_pinned_at = Option.bind state ru_pinned_at,
           ws_first_dataset_url = map_option src_canonical_url (first_row (layer_sources d (rw_id r))),
           ws_preview_updated_at = map_option rr_updated_at (find (\<lambda>x. rr_workspace_id x = rw_id r) (workspace_previews d))\<rparr>)
         (role_try_from (snd rr)))"

definition summaries :: "('j, 'v) tables \<Rightarrow> string \<Rightarrow> ('j workspace_row \<times> string) list \<Rightarrow> (ws_store_error + workspace_summary) list" where
  "summaries d email rows = map (row_to_summary d email) rows"

text \<open>Pinned first, then the most recent of pin, open and update.\<close>

definition recents_order :: "('j, 'v) tables \<Rightarrow> string \<Rightarrow> ('j workspace_row \<times> string) list \<Rightarrow> ('j workspace_row \<times> string) list" where
  "recents_order d email rows =
     (let state = (\<lambda>rr. find (is_state (rw_id (fst rr)) email) (user_workspace_state d));
          pinned = (\<lambda>rr. Option.bind (state rr) ru_pinned_at); opened = (\<lambda>rr. Option.bind (state rr) ru_last_opened_at);
          recent = (\<lambda>rr. case pinned rr of Some p \<Rightarrow> p | None \<Rightarrow> (case opened rr of Some t \<Rightarrow> t | None \<Rightarrow> rw_updated_at (fst rr)))
      in sort_key (\<lambda>rr. if pinned rr = None then 1 else 0 :: nat) (sort_key (\<lambda>rr. - recent rr) (sort_key (\<lambda>rr. - rw_updated_at (fst rr)) rows)))"

definition archived_order :: "('j workspace_row \<times> string) list \<Rightarrow> ('j workspace_row \<times> string) list" where
  "archived_order rows = sort_key (\<lambda>rr. case rw_archived_at (fst rr) of Some t \<Rightarrow> - t | None \<Rightarrow> 0) (sort_key (\<lambda>rr. - rw_updated_at (fst rr)) rows)"

text \<open>The rows a caller's listing selects, with the text of the role it shows.\<close>

definition listed_rows :: "('j, 'v) tables \<Rightarrow> string \<Rightarrow> bool \<Rightarrow> ('j workspace_row \<times> string) list" where
  "listed_rows d email admin = List.map_filter (\<lambda>r.
     if rw_archived_at r \<noteq> None then None
     else if admin then Some (r, ''owner'')
     else case find (is_member (rw_id r) email) (workspace_members d) of
            Some m \<Rightarrow> Some (r, rm_role m)
          | None \<Rightarrow> if list_ex (is_state (rw_id r) email) (user_workspace_state d) \<and> rw_link_access r = ''anyone_with_link''
                     then Some (r, rw_link_role r) else None) (workspaces d)"

definition archived_rows :: "('j, 'v) tables \<Rightarrow> string \<Rightarrow> bool \<Rightarrow> ('j workspace_row \<times> string) list" where
  "archived_rows d email admin = List.map_filter (\<lambda>r.
     if rw_archived_at r = None then None
     else if admin then Some (r, ''owner'')
     else case find (\<lambda>m. is_member (rw_id r) email m \<and> rm_role m = ''owner'') (workspace_members d) of
            Some m \<Rightarrow> Some (r, rm_role m) | None \<Rightarrow> None) (workspaces d)"

definition store_list_workspaces :: "auth_principal \<Rightarrow> ('j, 'v, ws_store_error, workspace_summary list) act" where
  "store_list_workspaces caller =
     (let email = normalize_email (pr_email caller)
      in act_bind (fetch (\<lambda>d. summaries d email (recents_order d email (listed_rows d email (pr_is_admin caller)))))
           (\<lambda>rows. act_res (res_collect id rows)))"

definition store_list_archived_workspaces :: "auth_principal \<Rightarrow> ('j, 'v, ws_store_error, workspace_summary list) act" where
  "store_list_archived_workspaces caller =
     (let email = normalize_email (pr_email caller)
      in act_bind (fetch (\<lambda>d. summaries d email (archived_order (archived_rows d email (pr_is_admin caller)))))
           (\<lambda>rows. act_res (res_collect id rows)))"

section \<open>The admin console\<close>

definition row_to_admin_summary :: "('j, 'v) tables \<Rightarrow> 'j workspace_row \<Rightarrow> ws_store_error + admin_summary" where
  "row_to_admin_summary d r =
     (let members = filter (\<lambda>m. rm_workspace_id m = rw_id r) (workspace_members d)
      in res_bind (link_access_try_from (rw_link_access r)) (\<lambda>access.
         res_bind (role_try_from (rw_link_role r)) (\<lambda>link_role.
         Inr \<lparr>as_id = rw_id r, as_name = rw_name r, as_created_by = rw_created_by r, as_created_at = rw_created_at r,
           as_updated_at = rw_updated_at r, as_archived_at = rw_archived_at r, as_seq = seq_out (rw_seq r),
           as_dataset_count = int (length (remdups (map rd_id (filter (\<lambda>x. rd_workspace_id x = rw_id r) (workspace_datasets d))))),
           as_member_count = int (length (remdups (map rm_email members))),
           as_owner_count = int (length (remdups (map rm_email (filter (\<lambda>m. rm_role m = ''owner'') members)))),
           as_link_access = access, as_link_role = link_role, as_default = rw_default r\<rparr>)))"

text \<open>\<^verbatim>\<open>LIKE\<close> of SQLite: \<^verbatim>\<open>%\<close> is any text, \<^verbatim>\<open>_\<close> one character, ASCII letters match in either case.\<close>

fun sql_like :: "string \<Rightarrow> string \<Rightarrow> bool" where
  "sql_like [] s \<longleftrightarrow> s = []"
| "sql_like (p # ps) [] \<longleftrightarrow> p = CHR ''%'' \<and> sql_like ps []"
| "sql_like (p # ps) (c # s) \<longleftrightarrow>
     (if p = CHR ''%'' then sql_like ps (c # s) \<or> sql_like (p # ps) s
      else (p = CHR ''_'' \<or> ascii_lower p = ascii_lower c) \<and> sql_like ps s)"

definition admin_search_match :: "('j, 'v) tables \<Rightarrow> string option \<Rightarrow> 'j workspace_row \<Rightarrow> bool" where
  "admin_search_match d q r =
     (case map_option trim q of
        None \<Rightarrow> True
      | Some q \<Rightarrow> q = [] \<or>
          (let like = sql_like (''%'' @ lowercase q @ ''%'')
           in like (lowercase (rw_id r)) \<or> like (lowercase (rw_name r)) \<or> like (lowercase (rw_created_by r)) \<or>
              list_ex (\<lambda>m. rm_workspace_id m = rw_id r \<and> like (lowercase (rm_email m))) (workspace_members d)))"

definition store_admin_search_workspaces :: "string option \<Rightarrow> bool \<Rightarrow> nat \<Rightarrow> ('j, 'v, ws_store_error, admin_summary list) act" where
  "store_admin_search_workspaces q include_archived limit =
     act_bind (fetch (\<lambda>d. map (row_to_admin_summary d) (take (min (max limit 1) 100)
       (sort_key (\<lambda>r. if rw_archived_at r = None then 0 else 1 :: nat) (sort_key (\<lambda>r. - rw_updated_at r)
         (filter (\<lambda>r. (include_archived \<or> rw_archived_at r = None) \<and> admin_search_match d q r) (workspaces d)))))))
       (\<lambda>rows. act_res (res_collect id rows))"

definition store_admin_workspace_details :: "string \<Rightarrow> ('j, 'v, ws_store_error, admin_details option) act" where
  "store_admin_workspace_details i =
     act_bind (fetch (\<lambda>d. map_option (row_to_admin_summary d) (find (\<lambda>r. rw_id r = i) (workspaces d)))) (act_option (\<lambda>row.
       act_bind (act_res row) (\<lambda>summary. act_bind (list_members i) (\<lambda>members.
       act_ret \<lparr>ad_workspace = summary, ad_members = members\<rparr>))))"

end
