(* ===== verification/Workspaces.thy ===== *)
theory Workspaces
  imports WorkspaceStore
begin

text \<open>
  The rules of \<^verbatim>\<open>lucida-server/src/workspace/manager.rs\<close>: who may read, change and share a workspace
  and its saved views. Every operation is an action over the store of \<open>WorkspaceStore\<close>; the order of
  its checks is the order of the code, since an error says what the caller learns. Running
  sessions are not part of it.
\<close>

section \<open>Errors and names\<close>

datatype workspace_error =
    WsNotFound
  | WsArchived
  | WsForbidden
  | WsBadRequest string
  | WsStore ws_store_error

type_synonym ('j, 'v, 'a) ws_act = "('j, 'v, workspace_error, 'a) act"

definition from_store :: "('j, 'v, ws_store_error, 'a) act \<Rightarrow> ('j, 'v, 'a) ws_act" where
  "from_store m = act_map_err WsStore m"

text \<open>\<^verbatim>\<open>.map_err(WorkspaceError::Store)?.ok_or(e)\<close>.\<close>

definition found_or :: "workspace_error \<Rightarrow> ('j, 'v, ws_store_error, 'a option) act \<Rightarrow> ('j, 'v, 'a) ws_act" where
  "found_or e m = act_bind (from_store m) (\<lambda>r. act_res (ok_or e r))"

definition normalize_request_email :: "string \<Rightarrow> workspace_error + string" where
  "normalize_request_email email =
     (let normalized = normalize_email email
      in if normalized = [] \<or> CHR ''@'' \<notin> set normalized then Inl (WsBadRequest ''member email is invalid'') else Inr normalized)"

definition normalize_name :: "string \<Rightarrow> string \<Rightarrow> string \<Rightarrow> workspace_error + string" where
  "normalize_name empty_message long_message raw =
     (let trimmed = trim raw
      in if trimmed = [] then Inl (WsBadRequest empty_message)
         else if 200 < length trimmed then Inl (WsBadRequest long_message)
         else Inr trimmed)"

definition normalize_saved_view_name :: "string \<Rightarrow> workspace_error + string" where
  "normalize_saved_view_name = normalize_name ''saved view name is empty'' ''saved view name exceeds 200 characters''"

definition normalize_dataset_name :: "string \<Rightarrow> workspace_error + string" where
  "normalize_dataset_name = normalize_name ''dataset name is empty'' ''dataset name exceeds 200 characters''"

definition is_ascii_alphanumeric :: "char \<Rightarrow> bool" where
  "is_ascii_alphanumeric c \<longleftrightarrow>
     (let n = (of_char c :: nat) in (48 \<le> n \<and> n \<le> 57) \<or> (65 \<le> n \<and> n \<le> 90) \<or> (97 \<le> n \<and> n \<le> 122))"

definition normalize_viewer_profile_name :: "string \<Rightarrow> workspace_error + string" where
  "normalize_viewer_profile_name raw =
     (let trimmed = trim raw
      in if trimmed = [] then Inl (WsBadRequest ''viewer profile name is empty'')
         else if 64 < length trimmed then Inl (WsBadRequest ''viewer profile name exceeds 64 characters'')
         else if \<not> list_all (\<lambda>c. is_ascii_alphanumeric c \<or> c \<in> set ''-_.'') trimmed
           then Inl (WsBadRequest (''viewer profile may contain only letters, numbers, '' @ [char_of (39 :: nat)] @ ''-'' @ [char_of (39 :: nat)] @ '', '' @ [char_of (39 :: nat)] @ ''_'' @ [char_of (39 :: nat)] @ '', or '' @ [char_of (39 :: nat)] @ ''.'' @ [char_of (39 :: nat)]))
         else Inr trimmed)"

definition workspace_saved_view_payload :: "saved_view \<Rightarrow> saved_view" where
  "workspace_saved_view_payload view = view\<lparr>sv_datasets := []\<rparr>"

definition ensure_owner_retained :: "sharing_settings \<Rightarrow> string \<Rightarrow> workspace_role option \<Rightarrow> workspace_error + unit" where
  "ensure_owner_retained settings target_email next_role =
     (case find (\<lambda>m. mem_email m = target_email) (sh_members settings) of
        None \<Rightarrow> Inr ()
      | Some existing \<Rightarrow>
          if mem_role existing \<noteq> Owner then Inr ()
          else let owners = length (filter (\<lambda>m. mem_role m = Owner) (sh_members settings)); remains_owner = (next_role = Some Owner)
               in if owners \<le> 1 \<and> \<not> remains_owner then Inl (WsBadRequest ''workspace must retain at least one owner'') else Inr ())"

section \<open>Gates\<close>

definition require_viewer :: "string \<Rightarrow> auth_principal \<Rightarrow> ('j, 'v, workspace_role) ws_act" where
  "require_viewer i caller = found_or WsForbidden (store_role_for i caller)"

definition require_editor :: "string \<Rightarrow> auth_principal \<Rightarrow> ('j, 'v, workspace_role) ws_act" where
  "require_editor i caller = act_bind (found_or WsForbidden (store_role_for i caller)) (\<lambda>role.
     if can_edit role then act_ret role else act_fail WsForbidden)"

definition require_owner :: "string \<Rightarrow> auth_principal \<Rightarrow> ('j, 'v, workspace_role) ws_act" where
  "require_owner i caller = act_bind (found_or WsForbidden (store_role_for i caller)) (\<lambda>role.
     if can_own role then act_ret role else act_fail WsForbidden)"

definition require_owner_any_state :: "string \<Rightarrow> auth_principal \<Rightarrow> ('j, 'v, workspace_role) ws_act" where
  "require_owner_any_state i caller = found_or WsForbidden (store_owner_role_for_any_state i caller)"

text \<open>A caller without access learns nothing: both are \<^verbatim>\<open>NotFound\<close>.\<close>

definition get_workspace_for :: "string \<Rightarrow> auth_principal \<Rightarrow> ('j, 'v, workspace_record \<times> workspace_role) ws_act" where
  "get_workspace_for i caller =
     act_bind (found_or WsNotFound (get_workspace_row i)) (\<lambda>rec.
       if wk_archived_at rec \<noteq> None then
         act_bind (from_store (store_member_role_for_any_state i caller)) (\<lambda>role.
           act_fail (if role \<noteq> None then WsArchived else WsNotFound))
       else act_bind (found_or WsNotFound (store_role_for i caller)) (\<lambda>role. act_ret (rec, role)))"

section \<open>Workspaces\<close>

definition list_workspaces :: "auth_principal \<Rightarrow> ('j, 'v, workspace_summary list) ws_act" where
  "list_workspaces caller = from_store (store_list_workspaces caller)"

definition list_archived_workspaces :: "auth_principal \<Rightarrow> ('j, 'v, workspace_summary list) ws_act" where
  "list_archived_workspaces caller = from_store (store_list_archived_workspaces caller)"

definition admin_search_workspaces :: "string option \<Rightarrow> bool \<Rightarrow> nat \<Rightarrow> ('j, 'v, admin_summary list) ws_act" where
  "admin_search_workspaces q include_archived limit = from_store (store_admin_search_workspaces q include_archived limit)"

definition admin_workspace_details :: "string \<Rightarrow> ('j, 'v, admin_details) ws_act" where
  "admin_workspace_details i = found_or WsNotFound (store_admin_workspace_details i)"

definition create_workspace :: "auth_principal \<Rightarrow> string option \<Rightarrow> ('j, 'v, workspace_record) ws_act" where
  "create_workspace caller name = from_store (store_create_workspace caller name)"

definition duplicate_workspace :: "string \<Rightarrow> auth_principal \<Rightarrow> string option \<Rightarrow> ('j, 'v, workspace_record) ws_act" where
  "duplicate_workspace source_id caller name =
     act_bind (get_workspace_for source_id caller) (\<lambda>(source, _).
       let copy_name = (case map_option trim name of
             Some explicit \<Rightarrow> if explicit \<noteq> [] then explicit else ''Copy of '' @ wk_name source
           | None \<Rightarrow> ''Copy of '' @ wk_name source)
       in found_or WsNotFound (store_duplicate_workspace source_id caller copy_name))"

definition open_workspace_for :: "string \<Rightarrow> auth_principal \<Rightarrow> ('j, 'v, workspace_record \<times> workspace_role \<times> user_state) ws_act" where
  "open_workspace_for i caller =
     act_bind (get_workspace_for i caller) (\<lambda>(rec, role).
     act_bind (from_store (store_record_workspace_open i caller)) (\<lambda>state. act_ret (rec, role, state)))"

definition rename_workspace :: "string \<Rightarrow> auth_principal \<Rightarrow> string \<Rightarrow> ('j, 'v, workspace_record) ws_act" where
  "rename_workspace i caller name =
     act_bind (found_or WsForbidden (store_role_for i caller)) (\<lambda>role.
       if \<not> can_own role then act_fail WsForbidden
       else found_or WsNotFound (store_rename_workspace i name))"

text \<open>What archiving does to the store; the running session is told afterwards.\<close>

definition archive_workspace_row :: "string \<Rightarrow> auth_principal \<Rightarrow> ('j, 'v, workspace_record \<times> workspace_role) ws_act" where
  "archive_workspace_row i caller =
     act_bind (require_owner i caller) (\<lambda>role.
     act_bind (found_or WsNotFound (store_archive_workspace i)) (\<lambda>rec. act_ret (rec, role)))"

definition admin_archive_workspace_row :: "string \<Rightarrow> ('j, 'v, workspace_record) ws_act" where
  "admin_archive_workspace_row i = found_or WsNotFound (store_archive_workspace i)"

definition restore_workspace :: "string \<Rightarrow> auth_principal \<Rightarrow> ('j, 'v, workspace_record \<times> workspace_role) ws_act" where
  "restore_workspace i caller =
     act_bind (require_owner_any_state i caller) (\<lambda>role.
     act_bind (found_or WsNotFound (store_restore_workspace i)) (\<lambda>rec. act_ret (rec, role)))"

definition admin_restore_workspace :: "string \<Rightarrow> ('j, 'v, admin_details) ws_act" where
  "admin_restore_workspace i =
     act_bind (found_or WsNotFound (store_restore_workspace i)) (\<lambda>_. admin_workspace_details i)"

section \<open>Sharing\<close>

definition sharing_settings_for :: "string \<Rightarrow> auth_principal \<Rightarrow> ('j, 'v, sharing_settings) ws_act" where
  "sharing_settings_for i caller = act_bind (require_owner i caller) (\<lambda>_. found_or WsNotFound (store_sharing_settings i))"

definition current_sharing_settings :: "string \<Rightarrow> ('j, 'v, sharing_settings) ws_act" where
  "current_sharing_settings i = found_or WsNotFound (store_sharing_settings i)"

text \<open>What the three changes of a member check before they write.\<close>

definition member_change_allowed :: "string \<Rightarrow> auth_principal \<Rightarrow> string \<Rightarrow> workspace_role option \<Rightarrow> ('j, 'v, string) ws_act" where
  "member_change_allowed i caller email next_role =
     act_bind (require_owner i caller) (\<lambda>_.
     act_bind (act_res (normalize_request_email email)) (\<lambda>email.
     act_bind (current_sharing_settings i) (\<lambda>settings.
     act_bind (act_res (ensure_owner_retained settings email next_role)) (\<lambda>_. act_ret email))))"

definition upsert_member :: "string \<Rightarrow> auth_principal \<Rightarrow> string \<Rightarrow> string option \<Rightarrow> workspace_role \<Rightarrow> ('j, 'v, workspace_member) ws_act" where
  "upsert_member i caller email display_name role =
     act_bind (member_change_allowed i caller email (Some role)) (\<lambda>email.
     found_or WsNotFound (store_upsert_member i email (case_option [] id display_name) role))"

definition admin_upsert_owner :: "string \<Rightarrow> string \<Rightarrow> string option \<Rightarrow> ('j, 'v, workspace_member) ws_act" where
  "admin_upsert_owner i email display_name =
     act_bind (act_res (normalize_request_email email)) (\<lambda>email.
     found_or WsNotFound (store_admin_upsert_owner i email (case_option [] id display_name)))"

definition update_member_role :: "string \<Rightarrow> auth_principal \<Rightarrow> string \<Rightarrow> workspace_role \<Rightarrow> ('j, 'v, workspace_member) ws_act" where
  "update_member_role i caller email role =
     act_bind (member_change_allowed i caller email (Some role)) (\<lambda>email.
     found_or WsNotFound (store_update_member_role i email role))"

definition remove_member :: "string \<Rightarrow> auth_principal \<Rightarrow> string \<Rightarrow> ('j, 'v, unit) ws_act" where
  "remove_member i caller email =
     act_bind (member_change_allowed i caller email None) (\<lambda>email.
     act_bind (from_store (store_remove_member i email)) (\<lambda>removed.
     if removed then act_ret () else act_fail WsNotFound))"

definition update_link_access :: "string \<Rightarrow> auth_principal \<Rightarrow> link_access \<Rightarrow> workspace_role \<Rightarrow> ('j, 'v, sharing_settings) ws_act" where
  "update_link_access i caller access link_role =
     act_bind (require_owner i caller) (\<lambda>_.
     if can_own link_role then act_fail (WsBadRequest ''link role cannot be owner'')
     else found_or WsNotFound (store_update_link_access i access link_role))"

section \<open>Saved views\<close>

definition ensure_saved_view_readable :: "workspace_saved_view \<Rightarrow> auth_principal \<Rightarrow> workspace_error + unit" where
  "ensure_saved_view_readable view caller =
     (case wv_visibility view of
        Shared \<Rightarrow> Inr ()
      | _ \<Rightarrow> if wv_created_by view = normalize_email (pr_email caller) then Inr () else Inl WsNotFound)"

definition saved_view_transition_allowed :: "saved_view_visibility \<Rightarrow> saved_view_visibility \<Rightarrow> bool" where
  "saved_view_transition_allowed source target \<longleftrightarrow>
     source = target \<or> (source, target) \<in> {(Personal, Shared), (Shared, Personal), (Personal, Proposed), (Proposed, Personal)}"

definition list_saved_views :: "string \<Rightarrow> auth_principal \<Rightarrow> ('j, 'v, workspace_saved_view list) ws_act" where
  "list_saved_views i caller =
     act_bind (require_viewer i caller) (\<lambda>role.
     from_store (store_list_saved_views i (normalize_email (pr_email caller)) (can_edit role)))"

definition get_saved_view :: "string \<Rightarrow> auth_principal \<Rightarrow> string \<Rightarrow> ('j, 'v, workspace_saved_view) ws_act" where
  "get_saved_view i caller view_id =
     act_bind (require_viewer i caller) (\<lambda>role.
     act_bind (found_or WsNotFound (store_get_saved_view i view_id)) (\<lambda>view.
     case ensure_saved_view_readable view caller of
       Inr _ \<Rightarrow> act_ret view
     | Inl e \<Rightarrow> if wv_visibility view = Proposed \<and> can_edit role then act_ret view else act_fail e))"

definition create_saved_view ::
  "string \<Rightarrow> auth_principal \<Rightarrow> string \<Rightarrow> saved_view \<Rightarrow> saved_view_visibility \<Rightarrow> ('j, 'v, workspace_saved_view) ws_act" where
  "create_saved_view i caller name view visibility =
     act_bind (if visibility = Shared then require_editor i caller else require_viewer i caller) (\<lambda>_.
     act_bind (act_res (normalize_saved_view_name name)) (\<lambda>name.
     found_or WsNotFound (store_create_saved_view i name caller (workspace_saved_view_payload view) visibility)))"

definition ensure_saved_view_mutable :: "string \<Rightarrow> auth_principal \<Rightarrow> string \<Rightarrow> ('j, 'v, workspace_saved_view) ws_act" where
  "ensure_saved_view_mutable i caller view_id =
     act_bind (require_viewer i caller) (\<lambda>_.
     act_bind (found_or WsNotFound (store_get_saved_view i view_id)) (\<lambda>view.
     act_bind (act_res (ensure_saved_view_readable view caller)) (\<lambda>_.
     if wv_visibility view = Shared then act_bind (require_editor i caller) (\<lambda>_. act_ret view) else act_ret view)))"

definition ensure_saved_view_rescopable ::
  "string \<Rightarrow> auth_principal \<Rightarrow> string \<Rightarrow> saved_view_visibility \<Rightarrow> ('j, 'v, workspace_saved_view) ws_act" where
  "ensure_saved_view_rescopable i caller view_id target =
     act_bind (require_viewer i caller) (\<lambda>_.
     act_bind (found_or WsNotFound (store_get_saved_view i view_id)) (\<lambda>view.
     act_bind (act_res (ensure_saved_view_readable view caller)) (\<lambda>_.
     if wv_created_by view \<noteq> normalize_email (pr_email caller) then act_fail WsForbidden
     else if \<not> saved_view_transition_allowed (wv_visibility view) target
       then act_fail (WsBadRequest (''cannot change saved view visibility from '' @ visibility_str (wv_visibility view) @ '' to '' @ visibility_str target))
     else if target = Shared then act_bind (require_editor i caller) (\<lambda>_. act_ret view) else act_ret view)))"

definition ensure_proposal_reviewable :: "string \<Rightarrow> auth_principal \<Rightarrow> string \<Rightarrow> ('j, 'v, workspace_saved_view) ws_act" where
  "ensure_proposal_reviewable i caller view_id =
     act_bind (require_editor i caller) (\<lambda>_.
     act_bind (found_or WsNotFound (store_get_saved_view i view_id)) (\<lambda>view.
     if wv_visibility view = Personal \<and> wv_created_by view \<noteq> normalize_email (pr_email caller) then act_fail WsNotFound
     else if wv_visibility view \<noteq> Proposed then act_fail (WsBadRequest ''saved view is not a pending proposal'')
     else act_ret view))"

definition update_saved_view ::
  "string \<Rightarrow> auth_principal \<Rightarrow> string \<Rightarrow> string option \<Rightarrow> saved_view option \<Rightarrow> ('j, 'v, workspace_saved_view) ws_act" where
  "update_saved_view i caller view_id name view =
     act_bind (ensure_saved_view_mutable i caller view_id) (\<lambda>_.
     if name = None \<and> view = None then act_fail (WsBadRequest ''saved view patch is empty'')
     else act_bind (act_option (\<lambda>n. act_res (normalize_saved_view_name n)) name) (\<lambda>name.
       found_or WsNotFound (store_update_saved_view i view_id name (map_option workspace_saved_view_payload view))))"

definition delete_saved_view :: "string \<Rightarrow> auth_principal \<Rightarrow> string \<Rightarrow> ('j, 'v, unit) ws_act" where
  "delete_saved_view i caller view_id =
     act_bind (ensure_saved_view_mutable i caller view_id) (\<lambda>_.
     act_bind (from_store (store_delete_saved_view i view_id)) (\<lambda>deleted.
     if deleted then act_ret () else act_fail WsNotFound))"

definition set_saved_view_visibility ::
  "string \<Rightarrow> auth_principal \<Rightarrow> string \<Rightarrow> saved_view_visibility \<Rightarrow> ('j, 'v, workspace_saved_view) ws_act" where
  "set_saved_view_visibility i caller view_id visibility =
     act_bind (ensure_saved_view_rescopable i caller view_id visibility) (\<lambda>_.
     found_or WsNotFound (store_set_saved_view_visibility i view_id visibility))"

definition approve_saved_view :: "string \<Rightarrow> auth_principal \<Rightarrow> string \<Rightarrow> ('j, 'v, workspace_saved_view) ws_act" where
  "approve_saved_view i caller view_id =
     act_bind (ensure_proposal_reviewable i caller view_id) (\<lambda>view.
     if wv_created_by view = normalize_email (pr_email caller) then act_fail WsForbidden
     else found_or WsNotFound (store_set_saved_view_visibility i view_id Shared))"

definition reject_saved_view :: "string \<Rightarrow> auth_principal \<Rightarrow> string \<Rightarrow> ('j, 'v, workspace_saved_view) ws_act" where
  "reject_saved_view i caller view_id =
     act_bind (ensure_proposal_reviewable i caller view_id) (\<lambda>_.
     found_or WsNotFound (store_set_saved_view_visibility i view_id Personal))"

definition set_default_saved_view :: "string \<Rightarrow> auth_principal \<Rightarrow> string option \<Rightarrow> ('j, 'v, workspace_record \<times> workspace_role) ws_act" where
  "set_default_saved_view i caller view_id =
     act_bind (require_editor i caller) (\<lambda>role.
     act_bind (case view_id of None \<Rightarrow> act_ret ()
       | Some v \<Rightarrow> act_bind (found_or WsNotFound (store_get_saved_view i v)) (\<lambda>view.
           if wv_visibility view \<noteq> Shared then act_fail (WsBadRequest ''a personal saved view cannot be the workspace default'') else act_ret ())) (\<lambda>_.
     act_bind (found_or WsNotFound (store_set_default_saved_view i view_id)) (\<lambda>rec. act_ret (rec, role))))"

section \<open>The caller's own state\<close>

definition get_viewer_profile :: "string \<Rightarrow> auth_principal \<Rightarrow> string \<Rightarrow> ('j, 'v, viewer_profile option) ws_act" where
  "get_viewer_profile i caller profile =
     act_bind (require_viewer i caller) (\<lambda>_.
     act_bind (act_res (normalize_viewer_profile_name profile)) (\<lambda>profile.
     from_store (store_get_viewer_profile i (pr_email caller) profile)))"

definition upsert_viewer_profile ::
  "string \<Rightarrow> auth_principal \<Rightarrow> string \<Rightarrow> string option \<Rightarrow> saved_view \<Rightarrow> ('j, 'v, viewer_profile) ws_act" where
  "upsert_viewer_profile i caller profile seed_source view =
     act_bind (require_viewer i caller) (\<lambda>_.
     act_bind (act_res (normalize_viewer_profile_name profile)) (\<lambda>profile.
     found_or WsNotFound (store_upsert_viewer_profile i caller profile seed_source (workspace_saved_view_payload view))))"

definition set_workspace_pinned :: "string \<Rightarrow> auth_principal \<Rightarrow> bool \<Rightarrow> ('j, 'v, user_state) ws_act" where
  "set_workspace_pinned i caller pinned =
     act_bind (require_viewer i caller) (\<lambda>_. from_store (store_set_workspace_pinned i caller pinned))"

definition set_user_workspace_last_view :: "string \<Rightarrow> auth_principal \<Rightarrow> saved_view \<Rightarrow> ('j, 'v, user_state) ws_act" where
  "set_user_workspace_last_view i caller view =
     act_bind (require_viewer i caller) (\<lambda>_. from_store (store_set_user_workspace_last_view i caller (workspace_saved_view_payload view)))"

definition get_user_workspace_state :: "string \<Rightarrow> auth_principal \<Rightarrow> ('j, 'v, user_state) ws_act" where
  "get_user_workspace_state i caller =
     act_bind (require_viewer i caller) (\<lambda>_. from_store (store_get_user_workspace_state i caller))"

section \<open>Previews\<close>

datatype preview_error =
    PvWorkspace workspace_error
  | PvEmpty
  | PvTooLarge
  | PvUnsupportedType
  | PvTypeMismatch string string
  | PvErrTooSoon u64

definition MAX_PREVIEW_BYTES :: nat where
  "MAX_PREVIEW_BYTES = 256 * 1024"

definition MIN_PREVIEW_INTERVAL :: instant where
  "MIN_PREVIEW_INTERVAL = 5 * 10 ^ 9"

definition starts_with :: "u8 list \<Rightarrow> u8 list \<Rightarrow> bool" where
  "starts_with p bytes \<longleftrightarrow> take (length p) bytes = p"

definition sniff_image_type :: "u8 list \<Rightarrow> string option" where
  "sniff_image_type bytes =
     (if starts_with [0x89, 0x50, 0x4E, 0x47, 0x0D, 0x0A, 0x1A, 0x0A] bytes then Some ''image/png''
      else if starts_with [0xFF, 0xD8, 0xFF] bytes then Some ''image/jpeg''
      else if 12 \<le> length bytes \<and> take 4 bytes = [0x52, 0x49, 0x46, 0x46] \<and> take 4 (drop 8 bytes) = [0x57, 0x45, 0x42, 0x50] then Some ''image/webp''
      else None)"

definition validate_preview :: "string option \<Rightarrow> u8 list \<Rightarrow> preview_error + string" where
  "validate_preview declared bytes =
     (if bytes = [] then Inl PvEmpty
      else if MAX_PREVIEW_BYTES < length bytes then Inl PvTooLarge
      else case sniff_image_type bytes of
             None \<Rightarrow> Inl PvUnsupportedType
           | Some sniffed \<Rightarrow>
               (case map_option (\<lambda>value. lowercase (trim (takeWhile (\<lambda>c. c \<noteq> CHR '';'') value))) declared of
                  None \<Rightarrow> Inr sniffed
                | Some declared \<Rightarrow>
                    if declared = [] \<or> declared = ''application/octet-stream'' \<or> declared = sniffed then Inr sniffed
                    else Inl (PvTypeMismatch declared sniffed)))"

text \<open>Whole milliseconds, truncated towards zero, then seconds rounded up, at least one.\<close>

definition retry_after_secs :: "instant \<Rightarrow> instant \<Rightarrow> u64" where
  "retry_after_secs last_updated_at now =
     (let d = last_updated_at + MIN_PREVIEW_INTERVAL - now;
          ms = (if d < 0 then - ((- d) div 10 ^ 6) else d div 10 ^ 6);
          wait = (word_of_int (max ms 0) :: u64)
      in word_of_int (max ((uint wait + 999) div 1000) 1))"

definition workspace_preview :: "string \<Rightarrow> auth_principal \<Rightarrow> ('j, 'v, preview_image option) ws_act" where
  "workspace_preview i caller =
     act_bind (from_store (store_role_for i caller)) (\<lambda>viewer.
     act_bind (if viewer = None then act_bind (require_owner_any_state i caller) (\<lambda>_. act_ret ()) else act_ret ()) (\<lambda>_.
     from_store (store_get_preview i)))"

definition put_workspace_preview ::
  "string \<Rightarrow> auth_principal \<Rightarrow> string option \<Rightarrow> u8 list \<Rightarrow> instant \<Rightarrow> ('j, 'v, preview_error, preview_meta) act" where
  "put_workspace_preview i caller declared image_bytes now =
     act_bind (act_map_err PvWorkspace (require_editor i caller)) (\<lambda>_.
     act_bind (act_res (validate_preview declared image_bytes)) (\<lambda>content_type.
     act_bind (act_map_err PvWorkspace (from_store (store_put_preview \<lparr>np_workspace_id = i, np_content_type = content_type, np_image = image_bytes,
       np_updated_by = pr_email caller, np_updated_at = now, np_replaces_up_to = now - MIN_PREVIEW_INTERVAL\<rparr>))) (\<lambda>written.
     case written of
       Some (PvStored meta) \<Rightarrow> act_ret meta
     | Some (PvTooSoon written_at) \<Rightarrow> act_fail (PvErrTooSoon (retry_after_secs written_at now))
     | None \<Rightarrow> act_fail (PvWorkspace WsNotFound))))"

end
