(* ===== verification/WorkspaceRules.thy ===== *)
theory WorkspaceRules
  imports Workspaces
begin

text \<open>
  What every request keeps of the tables. \<open>hoare\<close> is a triple over actions with a condition for
  success and one for errors; the rules walk through the code, and \<open>ws_wf\<close> is the invariant: keys are
  unique, texts are valid, a default points at a view of its workspace, and every workspace has an
  owner.
\<close>

section \<open>Triples\<close>

definition hoare :: "(('j, 'v) tables \<Rightarrow> bool) \<Rightarrow> ('j, 'v, 'e, 'a) act \<Rightarrow> ('a \<Rightarrow> ('j, 'v) tables \<Rightarrow> bool) \<Rightarrow> (('j, 'v) tables \<Rightarrow> bool) \<Rightarrow> bool" where
  "hoare P m Q E \<longleftrightarrow> (\<forall>ev w. P (db w) \<longrightarrow> (case m ev w of (Inr a, w') \<Rightarrow> Q a (db w') | (Inl _, w') \<Rightarrow> E (db w')))"

abbreviation keeps :: "(('j, 'v) tables \<Rightarrow> bool) \<Rightarrow> ('j, 'v, 'e, 'a) act \<Rightarrow> bool" where
  "keeps I m \<equiv> hoare I m (\<lambda>_. I) I"

named_theorems triple \<open>rules for triples, applied backwards\<close>

lemma hoare_weaken:
  assumes "hoare P m Q E" "\<And>d. P' d \<Longrightarrow> P d" "\<And>a d. Q a d \<Longrightarrow> Q' a d" "\<And>d. E d \<Longrightarrow> E' d"
  shows "hoare P' m Q' E'"
  using assms unfolding hoare_def by (fastforce split: prod.splits sum.splits)

lemma hoare_res: "(\<And>d a. P d \<Longrightarrow> r = Inr a \<Longrightarrow> Q a d) \<Longrightarrow> (\<And>d e. P d \<Longrightarrow> r = Inl e \<Longrightarrow> E d) \<Longrightarrow> hoare P (act_res r) Q E"
  unfolding hoare_def act_res_def by (auto split: sum.splits)

lemma hoare_bind:
  assumes "hoare P m Q E" "\<And>a. hoare (Q a) (f a) R E"
  shows "hoare P (act_bind m f) R E"
  using assms unfolding hoare_def act_bind_def by (fastforce split: prod.splits sum.splits)

lemma hoare_execute:
  assumes "\<And>d. P d \<Longrightarrow> case g d of Inl _ \<Rightarrow> True | Inr (a, d') \<Rightarrow> Q a d'" "\<And>d. P d \<Longrightarrow> E d"
  shows "hoare P (execute g) Q E"
  using assms unfolding hoare_def execute_def by (fastforce simp: Let_def split: option.splits sum.splits)

lemma hoare_fetch: "(\<And>d. P d \<Longrightarrow> Q (f d) d) \<Longrightarrow> (\<And>d. P d \<Longrightarrow> E d) \<Longrightarrow> hoare P (fetch f) Q E"
  unfolding fetch_def by (rule hoare_execute) auto

lemma hoare_pure:
  assumes "\<And>ev w. db (snd (m ev w)) = db w"
  shows "keeps I m"
  using assms unfolding hoare_def by (auto split: prod.splits sum.splits) (metis snd_conv)+

lemma hoare_map_err: "hoare P m Q E \<Longrightarrow> hoare P (act_map_err g m) Q E"
  unfolding hoare_def act_map_err_def by (fastforce split: prod.splits sum.splits simp: res_map_err_def)

text \<open>What holds before a transaction holds after one that does not commit.\<close>

lemma hoare_transact:
  assumes m: "hoare P m (\<lambda>t d. case t of TxCommit a \<Rightarrow> I d | _ \<Rightarrow> True) (\<lambda>_. True)" and "\<And>d. P d \<Longrightarrow> I d"
  shows "hoare P (transact m) (\<lambda>_. I) I"
proof -
  have "hoare P (act_bind (fetch (\<lambda>_. ())) (\<lambda>_. m)) (\<lambda>t d. case t of TxCommit a \<Rightarrow> I d | _ \<Rightarrow> True) (\<lambda>_. True)"
    by (rule hoare_bind [OF _ m], rule hoare_fetch) simp_all
  then show ?thesis
    using assms(2) unfolding hoare_def transact_def
    by (fastforce simp: fetch_def execute_def Let_def split: prod.splits sum.splits tx_end.splits option.splits)
qed

lemma hoare_transact_inv:
  assumes "hoare P m (\<lambda>_. I) I" "\<And>d. P d \<Longrightarrow> I d"
  shows "hoare P (transact m) (\<lambda>_. I) I"
  by (rule hoare_transact [OF hoare_weaken [OF assms(1)]]) (auto split: tx_end.splits intro: assms(2))

lemma hoare_conj:
  assumes "hoare P m Q E" "keeps R m"
  shows "hoare (\<lambda>d. P d \<and> R d) m (\<lambda>a d. Q a d \<and> R d) E"
  using assms unfolding hoare_def by (fastforce split: prod.splits sum.splits)

text \<open>A step that keeps what is known so far.\<close>

lemma hoare_after:
  assumes "keeps P m" "\<And>d. P d \<Longrightarrow> E d" "\<And>a. hoare P (f a) R E"
  shows "hoare P (act_bind m f) R E"
  by (rule hoare_bind [OF hoare_weaken [OF assms(1)] assms(3)]) (auto intro: assms(2))

text \<open>The rules for an invariant.\<close>

lemma keeps_bind [triple]: "keeps I m \<Longrightarrow> (\<And>a. keeps I (f a)) \<Longrightarrow> keeps I (act_bind m f)"
  by (rule hoare_bind)

lemma keeps_res [triple]: "keeps I (act_res r)"
  by (rule hoare_res)

lemma keeps_fetch [triple]: "keeps I (fetch f)"
  by (rule hoare_fetch)

lemma keeps_transact:
  assumes "keeps I m"
  shows "keeps I (transact m)"
  by (rule hoare_transact [OF hoare_weaken [OF assms]]) (auto split: tx_end.splits)

lemma keeps_env [triple]:
  "keeps I utc_now" "keeps I new_uuid" "keeps I (document_json d)" "keeps I (document_of_json j)"
  "keeps I (view_json v)" "keeps I (view_of_json k)" "keeps I (parse_opt_saved_view raw)"
  by (rule hoare_pure, simp add: utc_now_def new_uuid_def document_json_def document_of_json_def view_json_def view_of_json_def parse_opt_saved_view_def)+

lemma keeps_map_err [triple]: "keeps I m \<Longrightarrow> keeps I (act_map_err g m)"
  by (rule hoare_map_err)

lemma keeps_option [triple]: "(\<And>r. keeps I (f r)) \<Longrightarrow> keeps I (act_option f x)"
  unfolding act_option_def by (auto split: option.splits intro!: triple)

lemma keeps_each [triple]: "(\<And>r. keeps I (f r)) \<Longrightarrow> keeps I (act_each f xs)"
  by (induction xs) (auto intro!: triple)

lemma keeps_from_store [triple]: "keeps I m \<Longrightarrow> keeps I (from_store m)"
  unfolding from_store_def by (rule triple)

lemma keeps_found_or [triple]: "keeps I m \<Longrightarrow> keeps I (found_or e m)"
  unfolding found_or_def by (intro triple)

text \<open>Reading never changes a table, so it keeps every invariant.\<close>

lemma keeps_reads [triple]:
  "keeps I (workspace_exists i)" "keeps I (workspace_exists_in_any_state i)" "keeps I (get_workspace_row i)"
  "keeps I (store_role_for i caller)" "keeps I (member_role_row i caller)" "keeps I (store_owner_role_for_any_state i caller)"
  "keeps I (store_member_role_for_any_state i caller)" "keeps I (list_members i)" "keeps I (store_member i email)"
  "keeps I (store_sharing_settings i)" "keeps I (store_get_saved_view i v)" "keeps I (store_list_saved_views i email ed)"
  "keeps I (store_get_viewer_profile i email profile)" "keeps I (get_user_workspace_state_row i email)"
  unfolding workspace_exists_def workspace_exists_in_any_state_def get_workspace_row_def row_to_record_def store_role_for_def
    store_owner_role_for_any_state_def store_member_role_for_any_state_def member_role_row_def list_members_def store_member_def
    store_sharing_settings_def store_get_saved_view_def store_list_saved_views_def row_to_saved_view_def
    store_get_viewer_profile_def row_to_viewer_profile_def get_user_workspace_state_row_def row_to_user_state_def
  by (auto intro!: triple split: option.splits)

lemma keeps_gates [triple]:
  "keeps I (require_viewer i caller)" "keeps I (require_editor i caller)" "keeps I (require_owner i caller)"
  "keeps I (require_owner_any_state i caller)" "keeps I (get_workspace_for i caller)" "keeps I (current_sharing_settings i)"
  "keeps I (ensure_saved_view_mutable i caller v)" "keeps I (ensure_saved_view_rescopable i caller v target)"
  "keeps I (ensure_proposal_reviewable i caller v)"
  unfolding require_viewer_def require_editor_def require_owner_def require_owner_any_state_def get_workspace_for_def
    current_sharing_settings_def ensure_saved_view_mutable_def ensure_saved_view_rescopable_def ensure_proposal_reviewable_def
  by (auto intro!: triple split: option.splits)

section \<open>The invariant\<close>

definition has_owner :: "member_row list \<Rightarrow> string \<Rightarrow> bool" where
  "has_owner ms i \<longleftrightarrow> (\<exists>m \<in> set ms. rm_workspace_id m = i \<and> rm_role m = ''owner'')"

definition has_view :: "'v view_row list \<Rightarrow> string \<Rightarrow> string \<Rightarrow> bool" where
  "has_view vs i v \<longleftrightarrow> (\<exists>x \<in> set vs. is_view i v x)"

definition links_ok :: "'j workspace_row \<Rightarrow> bool" where
  "links_ok r \<longleftrightarrow> rw_link_access r \<in> {''restricted'', ''anyone_with_link''} \<and> rw_link_role r \<in> {''viewer'', ''editor''}"

definition default_ok :: "'v view_row list \<Rightarrow> 'j workspace_row \<Rightarrow> bool" where
  "default_ok vs r \<longleftrightarrow> (\<forall>v. rw_default r = Some v \<longrightarrow> has_view vs (rw_id r) v)"

definition members_ok :: "member_row list \<Rightarrow> bool" where
  "members_ok ms \<longleftrightarrow> distinct (map (\<lambda>m. (rm_workspace_id m, rm_email m)) ms) \<and> (\<forall>m \<in> set ms. rm_role m \<in> {''viewer'', ''editor'', ''owner''})"

definition views_ok :: "'v view_row list \<Rightarrow> bool" where
  "views_ok vs \<longleftrightarrow> distinct (map rv_id vs) \<and> (\<forall>x \<in> set vs. rv_visibility x \<in> {''shared'', ''personal'', ''proposed''})"

text \<open>The invariant, but for the owners of the workspaces in \<open>X\<close>.\<close>

definition ws_wf_but :: "string set \<Rightarrow> ('j, 'v) tables \<Rightarrow> bool" where
  "ws_wf_but X d \<longleftrightarrow>
     distinct (map rw_id (workspaces d)) \<and> members_ok (workspace_members d) \<and> views_ok (workspace_saved_views d) \<and>
     (\<forall>r \<in> set (workspaces d). links_ok r \<and> default_ok (workspace_saved_views d) r \<and> (rw_id r \<in> X \<or> has_owner (workspace_members d) (rw_id r)))"

abbreviation ws_wf :: "('j, 'v) tables \<Rightarrow> bool" where
  "ws_wf \<equiv> ws_wf_but {}"

definition empty_tables :: "('j, 'v) tables" where
  "empty_tables = \<lparr>workspaces = [], workspace_members = [], dataset_sources = [], workspace_datasets = [], workspace_saved_views = [],
     user_workspace_state = [], workspace_viewer_profiles = [], workspace_previews = []\<rparr>"

lemma ws_wf_empty: "ws_wf empty_tables"
  by (simp add: ws_wf_but_def empty_tables_def members_ok_def views_ok_def)

lemma role_str_valid [simp]: "role_str r = ''viewer'' \<or> role_str r = ''editor'' \<or> role_str r = ''owner''"
  by (cases r) simp_all

lemma visibility_str_valid [simp]: "visibility_str x = ''shared'' \<or> visibility_str x = ''personal'' \<or> visibility_str x = ''proposed''"
  by (cases x) simp_all

lemma map_update_where: "(\<And>r. P r \<Longrightarrow> g (f r) = g r) \<Longrightarrow> map g (update_where P f rs) = map g rs"
  by (simp add: update_where_def)

lemma set_update_where: "set (update_where P f rs) = (\<lambda>x. if P x then f x else x) ` set rs"
  by (auto simp: update_where_def)

lemma has_workspace_iff: "has_workspace d i \<longleftrightarrow> i \<in> rw_id ` set (workspaces d)"
  by (auto simp: has_workspace_def list_ex_iff)

lemma member_key_iff: "list_ex (is_member i email) ms \<longleftrightarrow> (i, email) \<in> (\<lambda>m. (rm_workspace_id m, rm_email m)) ` set ms"
  by (auto simp: is_member_def list_ex_iff)

lemma view_key_iff: "list_ex (\<lambda>x. rv_id x = v) vs \<longleftrightarrow> v \<in> rv_id ` set vs"
  by (auto simp: list_ex_iff)

lemma has_view_mono: "has_view vs i v \<Longrightarrow> has_view (vs @ xs) i v"
  by (auto simp: has_view_def)

subsection \<open>Workspace rows\<close>

lemma update_workspaces_keeps:
  fixes f :: "'j workspace_row \<Rightarrow> 'j workspace_row"
  assumes "\<And>r. rw_id (f r) = rw_id r" "\<And>r. links_ok r \<Longrightarrow> links_ok (f r)" "\<And>r. rw_default (f r) = rw_default r"
  shows "keeps (ws_wf_but X) (update_workspaces P f :: ('j, 'v, ws_store_error, nat) act)"
  unfolding update_workspaces_def
proof (rule hoare_execute)
  fix d :: "('j, 'v) tables"
  assume wf: "ws_wf_but X d"
  have "map rw_id (update_where P f (workspaces d)) = map rw_id (workspaces d)"
    using assms(1) by (intro map_update_where)
  then have "ws_wf_but X (d\<lparr>workspaces := update_where P f (workspaces d)\<rparr>)"
    using wf assms unfolding ws_wf_but_def by (auto simp: set_update_where default_ok_def)
  then show "case Inr (length (filter P (workspaces d)), d\<lparr>workspaces := update_where P f (workspaces d)\<rparr>) of Inl _ \<Rightarrow> True | Inr (a, d') \<Rightarrow> ws_wf_but X d'"
    by simp
qed

lemma touch_keeps [triple]: "keeps (ws_wf_but X) (touch_workspace i now)"
  unfolding touch_workspace_def by (intro triple update_workspaces_keeps) (simp_all add: links_ok_def)

lemma persist_document_keeps [triple]: "keeps (ws_wf_but X) (persist_document_row i seq json now)"
  unfolding persist_document_row_def by (intro triple update_workspaces_keeps) (simp_all add: links_ok_def)

lemma insert_workspace_wf:
  assumes "links_ok r" "rw_default r = None"
  shows "hoare ws_wf (insert_workspace r) (\<lambda>_. ws_wf_but {rw_id r}) (\<lambda>_. True)"
  unfolding insert_workspace_def
  by (rule hoare_execute)
    (use assms in \<open>simp_all add: ws_wf_but_def has_workspace_iff default_ok_def split: if_splits\<close>)

lemma insert_owner_wf:
  assumes "rm_role m = ''owner''"
  shows "hoare (ws_wf_but {rm_workspace_id m}) (insert_member m) (\<lambda>_. ws_wf) (\<lambda>_. True)"
  unfolding insert_member_def
  by (rule hoare_execute)
    (use assms in \<open>fastforce simp: ws_wf_but_def has_owner_def members_ok_def member_key_iff split: if_splits\<close>)+

lemma insert_blank_wf: "hoare ws_wf (insert_blank_owned_workspace i email shown name json now) (\<lambda>_. ws_wf) (\<lambda>_. True)"
  unfolding insert_blank_owned_workspace_def
proof (rule hoare_bind)
  show "hoare ws_wf (insert_workspace \<lparr>rw_id = i, rw_name = name, rw_created_by = email, rw_created_at = now, rw_updated_at = now,
      rw_archived_at = None, rw_link_access = ''restricted'', rw_link_role = ''viewer'', rw_seq = 0, rw_document_json = json, rw_default = None\<rparr>)
      (\<lambda>_. ws_wf_but {i}) (\<lambda>_. True)" (is "hoare _ (insert_workspace ?r) _ _")
    using insert_workspace_wf [of ?r] by (simp add: links_ok_def)
  show "hoare (ws_wf_but {i}) (insert_member \<lparr>rm_workspace_id = i, rm_email = email, rm_role = ''owner'', rm_display_name = shown, rm_added_at = now\<rparr>)
      (\<lambda>_. ws_wf) (\<lambda>_. True)" (is "hoare _ (insert_member ?m) _ _")
    using insert_owner_wf [of ?m] by simp
qed

lemma create_keeps [triple]: "keeps ws_wf (store_create_workspace caller name)"
proof -
  have "hoare ws_wf (act_bind (insert_blank_owned_workspace i email shown name json now) (\<lambda>_. act_ret (TxCommit ())))
     (\<lambda>t d. case t of TxCommit a \<Rightarrow> ws_wf d | _ \<Rightarrow> True) (\<lambda>_. True)" for i email shown name and json :: 'a and now
    by (rule hoare_bind [OF insert_blank_wf]) (rule hoare_res, auto)
  then have "keeps ws_wf (transact (act_bind (insert_blank_owned_workspace i email shown name json now) (\<lambda>_. act_ret (TxCommit ()))))"
    for i email shown name and json :: 'a and now
    by (rule hoare_transact) simp
  then show ?thesis
    unfolding store_create_workspace_def Let_def by (intro triple)
qed

lemma rename_keeps [triple]: "keeps (ws_wf_but X) (store_rename_workspace i name)"
  unfolding store_rename_workspace_def by (intro triple update_workspaces_keeps) (auto simp: links_ok_def intro!: triple)

lemma archive_keeps [triple]: "keeps (ws_wf_but X) (store_archive_workspace i)"
  unfolding store_archive_workspace_def by (intro triple update_workspaces_keeps) (auto simp: links_ok_def intro!: triple)

lemma restore_keeps [triple]: "keeps (ws_wf_but X) (store_restore_workspace i)"
  unfolding store_restore_workspace_def by (intro triple update_workspaces_keeps) (auto simp: links_ok_def intro!: triple)

lemma link_access_keeps:
  assumes "\<not> can_own link_role"
  shows "keeps (ws_wf_but X) (store_update_link_access i access link_role)"
  unfolding store_update_link_access_def
  by (intro triple update_workspaces_keeps) (use assms in \<open>cases access; cases link_role; auto simp: links_ok_def intro!: triple\<close>)+

subsection \<open>Saved views\<close>

lemma insert_saved_view_wf:
  assumes "rv_visibility r \<in> {''shared'', ''personal'', ''proposed''}"
  shows "hoare (ws_wf_but X) (insert_saved_view r) (\<lambda>_ d. ws_wf_but X d \<and> has_view (workspace_saved_views d) (rv_workspace_id r) (rv_id r)) (ws_wf_but X)"
  unfolding insert_saved_view_def
  by (rule hoare_execute)
    (use assms in \<open>auto simp: ws_wf_but_def views_ok_def view_key_iff default_ok_def has_view_def is_view_def split: if_splits\<close>)

lemma insert_saved_view_keeps: "rv_visibility r \<in> {''shared'', ''personal'', ''proposed''} \<Longrightarrow> keeps (ws_wf_but X) (insert_saved_view r)"
  by (rule hoare_weaken [OF insert_saved_view_wf]) auto

lemma create_view_keeps [triple]: "keeps (ws_wf_but X) (store_create_saved_view i name caller view visibility)"
  unfolding store_create_saved_view_def Let_def
  by (intro triple keeps_transact, simp, intro impI conjI triple keeps_transact insert_saved_view_keeps) (simp_all del: insert_iff add: insert_iff)

lemma change_view_keeps:
  assumes "\<And>r. rv_id (f r) = rv_id r" "\<And>r. rv_workspace_id (f r) = rv_workspace_id r"
    "\<And>r. rv_visibility r \<in> {''shared'', ''personal'', ''proposed''} \<Longrightarrow> rv_visibility (f r) \<in> {''shared'', ''personal'', ''proposed''}"
  shows "keeps (ws_wf_but X) (change_view i v now f)"
proof -
  have views: "views_ok (update_where P f vs)" if "views_ok vs" for P vs
  proof -
    have "map rv_id (update_where P f vs) = map rv_id vs" using assms(1) by (intro map_update_where)
    with that assms(3) show ?thesis unfolding views_ok_def by (auto simp: set_update_where)
  qed
  have "has_view (update_where P f vs) j x" if "has_view vs j x" for P vs j x
  proof -
    from that obtain r where "r \<in> set vs" "is_view j x r" by (auto simp: has_view_def)
    then show ?thesis
      using assms(1,2) unfolding has_view_def set_update_where by (intro bexI [OF _ imageI [of r]]) (auto simp: is_view_def)
  qed
  with views have "ws_wf_but X (d\<lparr>workspace_saved_views := update_where P f (workspace_saved_views d)\<rparr>)" if "ws_wf_but X d" for P d
    using that unfolding ws_wf_but_def default_ok_def by simp
  then have "keeps (ws_wf_but X) (execute (\<lambda>d. Inr (length (filter (is_view i v) (workspace_saved_views d)),
      d\<lparr>workspace_saved_views := update_where (is_view i v) f (workspace_saved_views d)\<rparr>)))"
    by (intro hoare_execute) simp_all
  then show ?thesis
    unfolding change_view_def by (intro keeps_transact keeps_bind) (auto intro!: triple)
qed

lemma update_view_keeps [triple]: "keeps (ws_wf_but X) (store_update_saved_view i v name view)"
  unfolding store_update_saved_view_def
  by (intro keeps_bind, intro triple, simp, intro impI conjI triple change_view_keeps) (auto intro!: triple)

lemma set_visibility_keeps [triple]: "keeps (ws_wf_but X) (store_set_saved_view_visibility i v visibility)"
  unfolding store_set_saved_view_visibility_def
  by (intro keeps_bind, intro triple, simp, intro impI conjI triple change_view_keeps) (auto intro!: triple)

lemma delete_row_keeps: "keeps (ws_wf_but X) (delete_saved_view_row i v)"
proof -
  have "ws_wf_but X (d\<lparr>workspace_saved_views := filter (\<lambda>r. \<not> is_view i v r) (workspace_saved_views d),
      workspaces := update_where (\<lambda>r. rw_default r \<in> Some ` set (map rv_id (filter (is_view i v) (workspace_saved_views d)))) (\<lambda>r. r\<lparr>rw_default := None\<rparr>) (workspaces d)\<rparr>)"
    if wf: "ws_wf_but X d" for d
  proof -
    have ids: "map rw_id (update_where P (\<lambda>r. r\<lparr>rw_default := None\<rparr>) (workspaces d)) = map rw_id (workspaces d)" for P
      by (intro map_update_where) simp
    from wf have "views_ok (filter (\<lambda>r. \<not> is_view i v r) (workspace_saved_views d))"
      unfolding ws_wf_but_def views_ok_def by (simp add: distinct_map_filter)
    with wf ids show ?thesis
      unfolding ws_wf_but_def by (fastforce simp: set_update_where links_ok_def default_ok_def has_view_def is_view_def)
  qed
  then show ?thesis
    unfolding delete_saved_view_row_def by (intro hoare_execute) (simp_all add: Let_def)
qed

lemma delete_view_keeps [triple]: "keeps (ws_wf_but X) (store_delete_saved_view i v)"
  unfolding store_delete_saved_view_def
  by (intro keeps_bind, intro triple, simp, intro impI conjI triple keeps_transact delete_row_keeps) (auto intro!: triple)

lemma store_get_saved_view_found:
  "hoare I (store_get_saved_view i v) (\<lambda>r d. I d \<and> (r \<noteq> None \<longrightarrow> has_view (workspace_saved_views d) i v)) I"
proof -
  have f: "hoare I (fetch (\<lambda>d. find (is_view i v) (workspace_saved_views d))) (\<lambda>r d. I d \<and> (r \<noteq> None \<longrightarrow> has_view (workspace_saved_views d) i v)) I"
    by (rule hoare_fetch) (auto simp: has_view_def find_Some_iff intro: nth_mem)
  have k: "hoare (\<lambda>d. I d \<and> (r \<noteq> None \<longrightarrow> has_view (workspace_saved_views d) i v)) (act_option row_to_saved_view r)
     (\<lambda>x d. I d \<and> (x \<noteq> None \<longrightarrow> has_view (workspace_saved_views d) i v)) I" for r
  proof (cases r)
    case (Some x)
    have "keeps (\<lambda>d. I d \<and> has_view (workspace_saved_views d) i v) (act_option row_to_saved_view r)"
      unfolding row_to_saved_view_def by (intro triple)
    with Some show ?thesis
      by (auto elim!: hoare_weaken)
  qed (auto simp: act_option_def intro!: hoare_res)
  show ?thesis
    unfolding store_get_saved_view_def by (rule hoare_bind [OF f k])
qed

lemma set_default_keeps:
  "hoare (\<lambda>d. ws_wf_but X d \<and> (\<forall>v. view = Some v \<longrightarrow> has_view (workspace_saved_views d) i v)) (store_set_default_saved_view i view) (\<lambda>_. ws_wf_but X) (ws_wf_but X)"
proof -
  let ?P = "\<lambda>d. ws_wf_but X d \<and> (\<forall>v. view = Some v \<longrightarrow> has_view (workspace_saved_views d) i v)"
  have wf: "ws_wf_but X (d\<lparr>workspaces := update_where (is_live i) (\<lambda>r. r\<lparr>rw_default := view, rw_updated_at := now\<rparr>) (workspaces d)\<rparr>)"
    if "?P d" for d now
  proof -
    have "map rw_id (update_where (is_live i) (\<lambda>r. r\<lparr>rw_default := view, rw_updated_at := now\<rparr>) (workspaces d)) = map rw_id (workspaces d)"
      by (intro map_update_where) simp
    with that show ?thesis unfolding ws_wf_but_def by (auto simp: set_update_where links_ok_def default_ok_def is_live_def)
  qed
  then have ex: "hoare ?P (execute (\<lambda>d. let hit = filter (is_live i) (workspaces d)
       in if hit \<noteq> [] \<and> view \<noteq> None \<and> \<not> list_ex (\<lambda>r. Some (rv_id r) = view) (workspace_saved_views d) then Inl ''FOREIGN KEY''
          else Inr (length hit, d\<lparr>workspaces := update_where (is_live i) (\<lambda>r. r\<lparr>rw_default := view, rw_updated_at := now\<rparr>) (workspaces d)\<rparr>)))
      (\<lambda>_. ws_wf_but X) (ws_wf_but X)" for now
    by (intro hoare_execute) (auto simp: Let_def)
  show ?thesis
    unfolding store_set_default_saved_view_def
    by (rule hoare_bind [where Q = "\<lambda>_. ?P"], rule hoare_weaken [OF keeps_env(1)], assumption, assumption, blast,
        rule hoare_bind [OF ex]) (auto intro!: triple)
qed

subsection \<open>Members\<close>

lemma whitespace_lower [simp]: "is_whitespace (ascii_lower c) \<longleftrightarrow> is_whitespace c"
  by (auto simp: is_whitespace_def ascii_lower_def Let_def)

lemma ascii_lower_idem [simp]: "ascii_lower (ascii_lower c) = ascii_lower c"
  by (auto simp: ascii_lower_def)

lemma trim_lowercase: "trim (lowercase s) = lowercase (trim s)"
  by (simp add: trim_def lowercase_def dropWhile_map rev_map comp_def)

lemma dropWhile_id: "(xs \<noteq> [] \<Longrightarrow> \<not> P (hd xs)) \<Longrightarrow> dropWhile P xs = xs"
  by (cases xs) auto

lemma trim_idem [simp]: "trim (trim s) = trim s"
proof -
  let ?a = "dropWhile is_whitespace s"
  have t: "trim s = take (length ?a - length (takeWhile is_whitespace (rev ?a))) ?a"
    unfolding trim_def by (simp add: dropWhile_eq_drop [of _ "rev _"] rev_drop)
  have "dropWhile is_whitespace (trim s) = trim s"
    unfolding t by (rule dropWhile_id) (use hd_dropWhile [of is_whitespace s] in \<open>auto simp: hd_take\<close>)
  then show ?thesis
    unfolding trim_def [of "trim s"] by (simp add: trim_def dropWhile_dropWhile1)
qed

lemma normalize_email_idem [simp]: "normalize_email (normalize_email e) = normalize_email e"
  by (simp add: normalize_email_def trim_lowercase) (simp add: lowercase_def)

text \<open>Somebody other than \<open>email\<close> owns the workspace.\<close>

definition owner_elsewhere :: "string \<Rightarrow> string \<Rightarrow> member_row list \<Rightarrow> bool" where
  "owner_elsewhere i email ms \<longleftrightarrow> (\<exists>m \<in> set ms. rm_workspace_id m = i \<and> rm_role m = ''owner'' \<and> rm_email m \<noteq> email)"

definition owner_stays :: "string \<Rightarrow> string \<Rightarrow> workspace_role option \<Rightarrow> ('j, 'v) tables \<Rightarrow> bool" where
  "owner_stays i email next_role d \<longleftrightarrow> next_role = Some Owner \<or> owner_elsewhere i email (workspace_members d)"

lemma owner_stays_update:
  assumes wf: "ws_wf d" and stays: "owner_stays i email (Some role) d" and f: "\<And>m. rm_workspace_id (f m) = rm_workspace_id m" "\<And>m. rm_email (f m) = rm_email m"
    "\<And>m. rm_role (f m) = role_str role"
  shows "ws_wf (d\<lparr>workspace_members := update_where (is_member i email) f (workspace_members d)\<rparr>)"
proof -
  let ?ms = "update_where (is_member i email) f (workspace_members d)"
  have "map (\<lambda>m. (rm_workspace_id m, rm_email m)) ?ms = map (\<lambda>m. (rm_workspace_id m, rm_email m)) (workspace_members d)"
    using f by (intro map_update_where) simp
  with wf have ok: "members_ok ?ms"
    unfolding ws_wf_but_def members_ok_def by (cases role) (auto simp: set_update_where f)
  have "has_owner ?ms (rw_id r)" if r: "r \<in> set (workspaces d)" for r
  proof -
    from wf r obtain m where m: "m \<in> set (workspace_members d)" "rm_workspace_id m = rw_id r" "rm_role m = ''owner''"
      by (auto simp: ws_wf_but_def has_owner_def)
    show ?thesis
    proof (cases "is_member i email m \<and> role \<noteq> Owner")
      case True
      with stays obtain n where "n \<in> set (workspace_members d)" "rm_workspace_id n = i" "rm_role n = ''owner''" "rm_email n \<noteq> email"
        by (auto simp: owner_stays_def owner_elsewhere_def)
      with True m show ?thesis
        unfolding has_owner_def set_update_where by (intro bexI [OF _ imageI [of n]]) (auto simp: is_member_def)
    next
      case False
      with m f show ?thesis
        unfolding has_owner_def set_update_where by (intro bexI [OF _ imageI [of m]]) auto
    qed
  qed
  with wf ok show ?thesis unfolding ws_wf_but_def by simp
qed

lemma owner_stays_remove:
  assumes wf: "ws_wf d" and stays: "owner_stays i email None d"
  shows "ws_wf (d\<lparr>workspace_members := filter (\<lambda>m. \<not> is_member i email m) (workspace_members d)\<rparr>)"
proof -
  have "has_owner (filter (\<lambda>m. \<not> is_member i email m) (workspace_members d)) (rw_id r)" if "r \<in> set (workspaces d)" for r
  proof -
    from wf that obtain m where "m \<in> set (workspace_members d)" "rm_workspace_id m = rw_id r" "rm_role m = ''owner''"
      by (auto simp: ws_wf_but_def has_owner_def)
    with stays show ?thesis
      by (cases "is_member i email m") (auto simp: has_owner_def is_member_def owner_stays_def owner_elsewhere_def)
  qed
  with wf show ?thesis unfolding ws_wf_but_def by (auto simp: members_ok_def distinct_map_filter)
qed

lemma upsert_member_row_wf:
  assumes "rm_role m = role_str role"
  shows "hoare (\<lambda>d. ws_wf d \<and> owner_stays (rm_workspace_id m) (rm_email m) (Some role) d) (upsert_member_row m) (\<lambda>_. ws_wf) ws_wf"
  unfolding upsert_member_row_def
proof (rule hoare_execute)
  fix d :: "('a, 'b) tables"
  assume d: "ws_wf d \<and> owner_stays (rm_workspace_id m) (rm_email m) (Some role) d"
  let ?same = "is_member (rm_workspace_id m) (rm_email m)"
  have "ws_wf (d\<lparr>workspace_members := update_where ?same (\<lambda>x. x\<lparr>rm_role := rm_role m, rm_display_name := rm_display_name m\<rparr>) (workspace_members d)\<rparr>)"
    using d assms by (intro owner_stays_update [where role = role]) auto
  moreover have "ws_wf (d\<lparr>workspace_members := workspace_members d @ [m]\<rparr>)" if "\<not> list_ex ?same (workspace_members d)"
    using d that assms by (cases role) (auto simp: ws_wf_but_def members_ok_def member_key_iff has_owner_def)
  ultimately show "case let same = ?same in if list_ex same (workspace_members d)
        then Inr ((), d\<lparr>workspace_members := update_where same (\<lambda>x. x\<lparr>rm_role := rm_role m, rm_display_name := rm_display_name m\<rparr>) (workspace_members d)\<rparr>)
        else if \<not> has_workspace d (rm_workspace_id m) then Inl ''FOREIGN KEY''
        else Inr ((), d\<lparr>workspace_members := workspace_members d @ [m]\<rparr>) of Inl _ \<Rightarrow> True | Inr (a, d') \<Rightarrow> ws_wf d'"
    by (simp add: Let_def)
qed simp

lemma upsert_member_keeps:
  "hoare (\<lambda>d. ws_wf d \<and> owner_stays i (normalize_email email) (Some role) d) (store_upsert_member i email shown role) (\<lambda>_. ws_wf) ws_wf"
  (is "hoare ?P _ _ _")
proof -
  let ?m = "\<lambda>now. \<lparr>rm_workspace_id = i, rm_email = normalize_email email, rm_role = role_str role,
    rm_display_name = default_member_display_name (normalize_email email) shown, rm_added_at = now\<rparr>"
  have tx: "hoare ?P (transact (act_bind (upsert_member_row (?m now)) (\<lambda>_. act_bind (touch_workspace i now) (\<lambda>_. act_ret (TxCommit ()))))) (\<lambda>_. ws_wf) ws_wf" for now
    using upsert_member_row_wf [of "?m now" role]
    by (intro hoare_transact_inv hoare_bind [where Q = "\<lambda>_. ws_wf"]) (auto intro!: triple)
  show ?thesis
    unfolding store_upsert_member_def Let_def
    by (rule hoare_after [OF keeps_reads(1)], simp, rename_tac e, case_tac e)
      (auto intro!: hoare_res hoare_after [OF keeps_env(1)] hoare_bind [OF tx] triple)
qed

lemma admin_upsert_keeps [triple]: "keeps ws_wf (store_admin_upsert_owner i email shown)"
proof -
  let ?m = "\<lambda>now. \<lparr>rm_workspace_id = i, rm_email = normalize_email email, rm_role = ''owner'',
    rm_display_name = default_member_display_name (normalize_email email) shown, rm_added_at = now\<rparr>"
  have "keeps ws_wf (upsert_member_row (?m now))" for now
    by (rule hoare_weaken [OF upsert_member_row_wf [of "?m now" Owner]]) (auto simp: owner_stays_def)
  then show ?thesis
    unfolding store_admin_upsert_owner_def Let_def
    by (intro keeps_bind keeps_reads, rename_tac e, case_tac e) (auto intro!: triple keeps_transact)
qed

lemma update_role_keeps:
  "hoare (\<lambda>d. ws_wf d \<and> owner_stays i (normalize_email email) (Some role) d) (store_update_member_role i email role) (\<lambda>_. ws_wf) ws_wf"
  (is "hoare ?P _ _ _")
proof -
  have "hoare ?P (execute (\<lambda>d. Inr (length (filter (is_member i (normalize_email email)) (workspace_members d)),
      d\<lparr>workspace_members := update_where (is_member i (normalize_email email)) (\<lambda>m. m\<lparr>rm_role := role_str role\<rparr>) (workspace_members d)\<rparr>))) (\<lambda>_. ws_wf) ws_wf"
    by (rule hoare_execute) (auto intro!: owner_stays_update)
  then show ?thesis
    unfolding store_update_member_role_def Let_def
    by (intro hoare_after [OF keeps_env(1)] hoare_bind [OF hoare_transact_inv [OF hoare_bind]]) (auto intro!: triple)
qed

lemma remove_member_keeps:
  "hoare (\<lambda>d. ws_wf d \<and> owner_stays i (normalize_email email) None d) (store_remove_member i email) (\<lambda>_. ws_wf) ws_wf"
  (is "hoare ?P _ _ _")
proof -
  have "hoare ?P (execute (\<lambda>d. Inr (length (filter (is_member i (normalize_email email)) (workspace_members d)),
      d\<lparr>workspace_members := filter (\<lambda>m. \<not> is_member i (normalize_email email) m) (workspace_members d)\<rparr>))) (\<lambda>_. ws_wf) ws_wf"
    by (rule hoare_execute) (auto intro!: owner_stays_remove)
  then show ?thesis
    unfolding store_remove_member_def Let_def
    by (intro hoare_after [OF keeps_env(1)] hoare_transact_inv hoare_bind) (auto intro!: triple)
qed

text \<open>The member list of the sharing settings shows the rows of the workspace.\<close>

definition shows_members :: "string \<Rightarrow> workspace_member list \<Rightarrow> ('j, 'v) tables \<Rightarrow> bool" where
  "shows_members i ms d \<longleftrightarrow> (\<exists>rows. distinct rows \<and> set rows = {m \<in> set (workspace_members d). rm_workspace_id m = i} \<and>
     list_all2 (\<lambda>r m. row_to_member r = Inr m) rows ms)"

lemma row_to_member_Inr:
  "row_to_member r = Inr m \<Longrightarrow> mem_email m = rm_email r \<and> (mem_role m = Owner \<longleftrightarrow> rm_role r = ''owner'')"
  by (auto simp: row_to_member_def role_try_from_def res_map_Inr_iff split: if_splits)

lemma shows_owners: "list_all2 (\<lambda>r m. row_to_member r = Inr m) rows ms \<Longrightarrow>
    length (filter (\<lambda>m. mem_role m = Owner) ms) = length (filter (\<lambda>r. rm_role r = ''owner'') rows)"
  by (induction rule: list_all2_induct) (auto dest: row_to_member_Inr)

lemma members_unique:
  assumes "members_ok ms" "x \<in> set ms" "y \<in> set ms" "rm_workspace_id x = rm_workspace_id y" "rm_email x = rm_email y"
  shows "x = y"
  using assms unfolding members_ok_def by (auto simp: distinct_map dest: inj_onD)

lemma retained_owner_stays:
  assumes wf: "ws_wf d" and i: "has_workspace d i" and shows_: "shows_members i (sh_members st) d"
    and ok: "ensure_owner_retained st email next_role = Inr u"
  shows "owner_stays i email next_role d"
proof (cases "next_role = Some Owner")
  case False
  from wf i obtain m where m: "m \<in> set (workspace_members d)" "rm_workspace_id m = i" "rm_role m = ''owner''"
    by (auto simp: ws_wf_but_def has_owner_def has_workspace_iff)
  from wf have uniq: "members_ok (workspace_members d)" by (simp add: ws_wf_but_def)
  from shows_ obtain rows where rows: "distinct rows" "set rows = {m \<in> set (workspace_members d). rm_workspace_id m = i}"
    "list_all2 (\<lambda>r m. row_to_member r = Inr m) rows (sh_members st)" by (auto simp: shows_members_def)
  have "owner_elsewhere i email (workspace_members d)"
  proof (cases "rm_email m = email")
    case True
    from m rows(2) have "m \<in> set rows" by simp
    then obtain k where k: "k < length rows" "rows ! k = m" unfolding in_set_conv_nth by blast
    have "mem_email (sh_members st ! k) = email" "k < length (sh_members st)"
      using rows(3) k True by (auto simp: list_all2_conv_all_nth dest: row_to_member_Inr)
    then obtain ex where ex: "find (\<lambda>m. mem_email m = email) (sh_members st) = Some ex"
      by (cases "find (\<lambda>m. mem_email m = email) (sh_members st)") (auto simp: find_None_iff)
    then obtain j where j: "j < length rows" "row_to_member (rows ! j) = Inr ex" "mem_email ex = email"
      using rows(3) by (auto simp: find_Some_iff list_all2_conv_all_nth)
    then have "rows ! j = m"
      using members_unique [OF uniq, of "rows ! j" m] rows(2) m True nth_mem [OF j(1)] row_to_member_Inr [OF j(2)] by auto
    with j m have "mem_role ex = Owner" by (auto dest: row_to_member_Inr)
    with ok ex False have "1 < length (filter (\<lambda>m. mem_role m = Owner) (sh_members st))"
      by (auto simp: ensure_owner_retained_def Let_def split: if_splits)
    then have two: "1 < length (filter (\<lambda>r. rm_role r = ''owner'') rows)" using shows_owners [OF rows(3)] by simp
    obtain n where n: "n \<in> set (filter (\<lambda>r. rm_role r = ''owner'') rows)" "n \<noteq> m"
    proof -
      have "distinct (filter (\<lambda>r. rm_role r = ''owner'') rows)" using rows(1) by simp
      with two have "1 < card (set (filter (\<lambda>r. rm_role r = ''owner'') rows))" by (simp only: distinct_card)
      moreover have "card (set (filter (\<lambda>r. rm_role r = ''owner'') rows)) \<le> 1" if "set (filter (\<lambda>r. rm_role r = ''owner'') rows) \<subseteq> {m}"
        using card_mono [OF _ that] by simp
      ultimately have "\<not> set (filter (\<lambda>r. rm_role r = ''owner'') rows) \<subseteq> {m}" by linarith
      then show thesis using that by blast
    qed
    with rows(2) have "n \<in> set (workspace_members d)" "rm_workspace_id n = i" "rm_role n = ''owner''" by auto
    moreover from this n(2) m True have "rm_email n \<noteq> email" using members_unique [OF uniq, of n m] by auto
    ultimately show ?thesis unfolding owner_elsewhere_def by blast
  qed (use m in \<open>auto simp: owner_elsewhere_def\<close>)
  then show ?thesis by (simp add: owner_stays_def)
qed (simp add: owner_stays_def)

lemma list_members_shows: "hoare ws_wf (list_members i) (\<lambda>ms d. ws_wf d \<and> shows_members i ms d) ws_wf"
  unfolding list_members_def
proof (rule hoare_bind)
  let ?rows = "\<lambda>d. sort_key (\<lambda>r. role_rank (rm_role r)) (sort_key rm_email (filter (\<lambda>r. rm_workspace_id r = i) (workspace_members d)))"
  let ?Q = "\<lambda>rows d. ws_wf d \<and> distinct rows \<and> set rows = {m \<in> set (workspace_members d). rm_workspace_id m = i}"
  show "hoare ws_wf (fetch ?rows) ?Q ws_wf"
    by (rule hoare_fetch) (auto simp: ws_wf_but_def members_ok_def distinct_map)
  show "hoare (?Q rows) (act_res (res_collect row_to_member rows)) (\<lambda>ms d. ws_wf d \<and> shows_members i ms d) ws_wf" for rows
    by (rule hoare_res) (auto simp: shows_members_def res_collect_Inr_iff)
qed

lemma sharing_settings_shows:
  "hoare ws_wf (store_sharing_settings i) (\<lambda>x d. ws_wf d \<and> (\<forall>st. x = Some st \<longrightarrow> has_workspace d i \<and> shows_members i (sh_members st) d)) ws_wf"
  unfolding store_sharing_settings_def
proof (rule hoare_bind)
  let ?R = "\<lambda>x d. ws_wf d \<and> (\<forall>st. x = Some st \<longrightarrow> has_workspace d i \<and> shows_members i (sh_members st) d)"
  show "hoare ws_wf (fetch (\<lambda>d. find (is_live i) (workspaces d))) (\<lambda>r d. ws_wf d \<and> (r \<noteq> None \<longrightarrow> has_workspace d i)) ws_wf"
    by (rule hoare_fetch) (auto simp: find_Some_iff has_workspace_iff is_live_def intro: nth_mem)
  have rest: "hoare (\<lambda>d. ws_wf d \<and> has_workspace d i) (act_bind (list_members i) (\<lambda>members. act_bind (act_res a) (\<lambda>access. act_bind (act_res b) (\<lambda>link_role.
      act_ret \<lparr>sh_link_access = access, sh_link_role = link_role, sh_members = members\<rparr>)))) (\<lambda>st d. ws_wf d \<and> has_workspace d i \<and> shows_members i (sh_members st) d) ws_wf" for a b
  proof (rule hoare_bind [where Q = "\<lambda>ms d. ws_wf d \<and> has_workspace d i \<and> shows_members i ms d"])
    show "hoare (\<lambda>d. ws_wf d \<and> has_workspace d i) (list_members i) (\<lambda>ms d. ws_wf d \<and> has_workspace d i \<and> shows_members i ms d) ws_wf"
      by (rule hoare_weaken [OF hoare_conj [OF list_members_shows keeps_reads(8) [of "\<lambda>d. has_workspace d i"]]]) auto
  qed (intro hoare_after [OF keeps_res] hoare_res; auto)
  show "hoare (\<lambda>d. ws_wf d \<and> (r \<noteq> None \<longrightarrow> has_workspace d i)) (act_option (\<lambda>r. act_bind (list_members i) (\<lambda>members.
       act_bind (act_res (link_access_try_from (rw_link_access r))) (\<lambda>access.
       act_bind (act_res (role_try_from (rw_link_role r))) (\<lambda>link_role.
       act_ret \<lparr>sh_link_access = access, sh_link_role = link_role, sh_members = members\<rparr>)))) r) ?R ws_wf" for r
    by (cases r) (auto simp: act_option_def intro!: hoare_res hoare_bind [OF rest])
qed

lemma member_change_stays:
  "hoare ws_wf (member_change_allowed i caller email next_role) (\<lambda>e d. ws_wf d \<and> owner_stays i (normalize_email e) next_role d) ws_wf"
  unfolding member_change_allowed_def
proof (intro hoare_after [OF keeps_gates(3)])
  fix a
  have found: "hoare ws_wf (current_sharing_settings i) (\<lambda>st d. ws_wf d \<and> has_workspace d i \<and> shows_members i (sh_members st) d) ws_wf"
    unfolding current_sharing_settings_def found_or_def from_store_def
    by (rule hoare_bind [OF hoare_map_err [OF sharing_settings_shows]], rule hoare_res) (auto simp: ok_or_Inr_iff)
  show "hoare ws_wf (act_bind (act_res (normalize_request_email email)) (\<lambda>email. act_bind (current_sharing_settings i) (\<lambda>settings.
      act_bind (act_res (ensure_owner_retained settings email next_role)) (\<lambda>_. act_ret email)))) (\<lambda>e d. ws_wf d \<and> owner_stays i (normalize_email e) next_role d) ws_wf"
  proof (rule hoare_bind [where Q = "\<lambda>e d. ws_wf d \<and> normalize_email e = e"])
    show "hoare ws_wf (act_res (normalize_request_email email)) (\<lambda>e d. ws_wf d \<and> normalize_email e = e) ws_wf"
      by (rule hoare_res) (auto simp: normalize_request_email_def Let_def split: if_splits)
    fix e
    have retain: "hoare (\<lambda>d. (ws_wf d \<and> has_workspace d i \<and> shows_members i (sh_members st) d) \<and> normalize_email e = e)
        (act_bind (act_res (ensure_owner_retained st e next_role)) (\<lambda>_. act_ret e)) (\<lambda>e d. ws_wf d \<and> owner_stays i (normalize_email e) next_role d) ws_wf" for st
      by (rule hoare_bind [where Q = "\<lambda>_ d. ws_wf d \<and> owner_stays i e next_role d \<and> normalize_email e = e"])
        (auto intro!: hoare_res dest: retained_owner_stays)
    show "hoare (\<lambda>d. ws_wf d \<and> normalize_email e = e) (act_bind (current_sharing_settings i) (\<lambda>settings.
        act_bind (act_res (ensure_owner_retained settings e next_role)) (\<lambda>_. act_ret e))) (\<lambda>e d. ws_wf d \<and> owner_stays i (normalize_email e) next_role d) ws_wf"
      by (rule hoare_bind [OF hoare_conj [OF found keeps_gates(6) [of "\<lambda>_. normalize_email e = e"]] retain])
  qed
qed simp

subsection \<open>The other tables\<close>

lemma keeps_other:
  assumes "\<And>d. case g d of Inl _ \<Rightarrow> True | Inr (a, d') \<Rightarrow>
     workspaces d' = workspaces d \<and> workspace_members d' = workspace_members d \<and> workspace_saved_views d' = workspace_saved_views d"
  shows "keeps (ws_wf_but X) (execute g)"
  by (rule hoare_execute) (use assms in \<open>fastforce simp: ws_wf_but_def split: sum.splits\<close>)+

lemma other_rows_keep [triple]:
  "keeps (ws_wf_but X) (upsert_dataset_source s)" "keeps (ws_wf_but X) (insert_workspace_dataset r)"
  "keeps (ws_wf_but X) (insert_workspace_dataset_at_end r)" "keeps (ws_wf_but X) (upsert_state u f)"
  "keeps (ws_wf_but X) (upsert_preview p t)"
  unfolding upsert_dataset_source_def insert_workspace_dataset_def insert_workspace_dataset_at_end_def upsert_state_def upsert_preview_def
  by (rule keeps_other, simp add: Let_def insert_dataset_row_def)+

lemma other_ops_keep [triple]:
  "keeps (ws_wf_but X) (store_persist_document i seq document)"
  "keeps (ws_wf_but X) (store_persist_dataset_opened i ds source url name adder seq document)"
  "keeps (ws_wf_but X) (store_persist_dataset_removed i ds seq document)"
  "keeps (ws_wf_but X) (store_persist_dataset_renamed i ds name seq document)"
  "keeps (ws_wf_but X) (store_upsert_viewer_profile i caller profile seed view)"
  "keeps (ws_wf_but X) (store_record_workspace_open i caller)"
  "keeps (ws_wf_but X) (store_set_workspace_pinned i caller pinned)"
  "keeps (ws_wf_but X) (store_set_user_workspace_last_view i caller view)"
  "keeps (ws_wf_but X) (store_put_preview q)"
  unfolding store_persist_document_def store_persist_dataset_opened_def store_persist_dataset_removed_def
    store_persist_dataset_renamed_def store_upsert_viewer_profile_def store_record_workspace_open_def store_set_workspace_pinned_def
    store_set_user_workspace_last_view_def store_put_preview_def Let_def
  by (auto intro!: triple keeps_transact keeps_other split: option.splits)

subsection \<open>Duplicates\<close>

lemma hoare_step:
  assumes "hoare P m Q E" "\<And>a. hoare (Q a) (f a) R (\<lambda>_. True)"
  shows "hoare P (act_bind m f) R (\<lambda>_. True)"
  by (rule hoare_bind [OF hoare_weaken [OF assms(1)] assms(2)]) auto

lemma copy_view_wf:
  "hoare (ws_wf_but X) (copy_shared_view remap new_id email shown now r) (\<lambda>p d. ws_wf_but X d \<and> has_view (workspace_saved_views d) new_id (snd p)) (ws_wf_but X)"
  unfolding copy_shared_view_def
  by (intro hoare_after [OF keeps_env(6)] hoare_after [OF keeps_env(5)] hoare_after [OF keeps_env(2)] hoare_bind [OF insert_saved_view_wf])
    (auto intro!: hoare_res)

lemma copy_view_mono: "keeps (\<lambda>d. has_view (workspace_saved_views d) j v) (copy_shared_view remap new_id email shown now r)"
proof -
  have "keeps (\<lambda>d. has_view (workspace_saved_views d) j v) (insert_saved_view x)" for x
    unfolding insert_saved_view_def by (rule hoare_execute) (auto intro: has_view_mono)
  then show ?thesis unfolding copy_shared_view_def by (intro triple)
qed

lemma copy_views_wf:
  "hoare (ws_wf_but X) (act_each (copy_shared_view remap new_id email shown now) rs)
     (\<lambda>ids d. ws_wf_but X d \<and> (\<forall>p \<in> set ids. has_view (workspace_saved_views d) new_id (snd p))) (ws_wf_but X)"
  (is "hoare _ (?each rs) _ _")
proof (induction rs)
  case (Cons r rs)
  have "hoare (\<lambda>d. ws_wf_but X d \<and> has_view (workspace_saved_views d) new_id (snd p)) (act_bind (?each rs) (\<lambda>ys. act_ret (p # ys)))
      (\<lambda>ids d. ws_wf_but X d \<and> (\<forall>p \<in> set ids. has_view (workspace_saved_views d) new_id (snd p))) (ws_wf_but X)" for p
  proof -
    have "keeps (\<lambda>d. has_view (workspace_saved_views d) new_id (snd p)) (?each rs)"
      by (intro keeps_each copy_view_mono)
    from hoare_conj [OF Cons.IH this] show ?thesis
      by (rule hoare_bind) (auto intro!: hoare_res)
  qed
  then show ?case
    unfolding act_each.simps by (rule hoare_bind [OF copy_view_wf])
qed (auto intro!: hoare_res)

lemma copied_default_in: "copied_default x ids = Some v \<Longrightarrow> v \<in> snd ` set ids"
proof -
  have "fold (\<lambda>(old, new_id) found. if x = Some old then Some new_id else found) ids z = Some v \<Longrightarrow> v \<in> snd ` set ids \<or> z = Some v" for z
    by (induction ids arbitrary: z) (force split: if_splits)+
  then show "copied_default x ids = Some v \<Longrightarrow> v \<in> snd ` set ids" by (auto simp: copied_default_def)
qed

lemma set_default_on_copy_wf:
  "hoare (\<lambda>d. ws_wf d \<and> (\<forall>v. found = Some v \<longrightarrow> has_view (workspace_saved_views d) new_id v)) (set_default_on_copy new_id found) (\<lambda>_. ws_wf) ws_wf"
proof (cases found)
  case None
  then show ?thesis by (auto simp: set_default_on_copy_def intro!: hoare_res)
next
  case (Some v)
  have ids: "map rw_id (update_where (\<lambda>r. rw_id r = new_id) (\<lambda>r. r\<lparr>rw_default := Some v\<rparr>) rs) = map rw_id rs" for rs :: "'j workspace_row list"
    by (intro map_update_where) simp
  have "hoare (\<lambda>d. ws_wf d \<and> has_view (workspace_saved_views d) new_id v) (update_workspaces (\<lambda>r. rw_id r = new_id) (\<lambda>r. r\<lparr>rw_default := Some v\<rparr>)) (\<lambda>_. ws_wf) ws_wf"
    unfolding update_workspaces_def
    by (rule hoare_execute) (auto simp: ws_wf_but_def ids set_update_where links_ok_def default_ok_def)
  with Some show ?thesis
    unfolding set_default_on_copy_def by (auto intro!: hoare_bind hoare_res)
qed

lemma copy_workspace_wf:
  "hoare ws_wf (copy_workspace source_id email shown name new_id now) (\<lambda>t d. case t of TxCommit a \<Rightarrow> ws_wf d | _ \<Rightarrow> True) (\<lambda>_. True)"
  (is "hoare _ _ ?Q _")
proof -
  have default: "hoare (\<lambda>d. ws_wf d \<and> (\<forall>p \<in> set ids. has_view (workspace_saved_views d) new_id (snd p)))
      (set_default_on_copy new_id (copied_default x ids)) (\<lambda>_. ws_wf) ws_wf" for x ids
    by (rule hoare_weaken [OF set_default_on_copy_wf]) (auto dest!: copied_default_in)
  have commit: "hoare ws_wf (act_ret (TxCommit rec)) ?Q (\<lambda>_. True)" for rec by (rule hoare_res) auto
  have drop: "hoare ws_wf (act_ret (TxDrop rec)) ?Q (\<lambda>_. True)" for rec by (rule hoare_res) auto
  have copied: "keeps ws_wf (copy_dataset_ids rows)" for rows
    unfolding copy_dataset_ids_def by (intro triple)
  have inserted: "keeps ws_wf (insert_copied_datasets new_id email now copied)" for copied
    unfolding insert_copied_datasets_def by (auto intro!: triple split: prod.splits)
  show ?thesis
    unfolding copy_workspace_def Let_def
    by (rule hoare_step [OF keeps_fetch], rename_tac found, case_tac found)
      (auto intro!: drop commit hoare_step [OF keeps_fetch] hoare_step [OF copied] hoare_step [OF keeps_env(4)] hoare_step [OF keeps_env(3)]
        hoare_step [OF insert_blank_wf] hoare_step [OF inserted] hoare_step [OF copy_views_wf] hoare_step [OF default])
qed

lemma duplicate_keeps [triple]: "keeps ws_wf (store_duplicate_workspace source_id owner name)"
  unfolding store_duplicate_workspace_def Let_def
  by (intro keeps_bind keeps_env hoare_transact [OF copy_workspace_wf]) simp

section \<open>Requests\<close>

text \<open>Everything a caller, an administrator or the server itself can ask of the store, one at a time.\<close>

datatype ws_request =
    ReqCreate auth_principal "string option"
  | ReqDuplicate string auth_principal "string option"
  | ReqOpen string auth_principal
  | ReqRename string auth_principal string
  | ReqArchive string auth_principal
  | ReqAdminArchive string
  | ReqRestore string auth_principal
  | ReqAdminRestore string
  | ReqUpsertMember string auth_principal string "string option" workspace_role
  | ReqAdminUpsertOwner string string "string option"
  | ReqUpdateRole string auth_principal string workspace_role
  | ReqRemoveMember string auth_principal string
  | ReqLinkAccess string auth_principal link_access workspace_role
  | ReqCreateView string auth_principal string saved_view saved_view_visibility
  | ReqUpdateView string auth_principal string "string option" "saved_view option"
  | ReqDeleteView string auth_principal string
  | ReqVisibility string auth_principal string saved_view_visibility
  | ReqApprove string auth_principal string
  | ReqReject string auth_principal string
  | ReqSetDefault string auth_principal "string option"
  | ReqProfile string auth_principal string "string option" saved_view
  | ReqPin string auth_principal bool
  | ReqLastView string auth_principal saved_view
  | ReqPreview string auth_principal "string option" "u8 list" instant
  | ReqPersist string u64 document
  | ReqPersistOpened string dataset_id string string string string u64 document
  | ReqPersistRemoved string dataset_id u64 document
  | ReqPersistRenamed string dataset_id string u64 document

fun perform :: "ws_request \<Rightarrow> ('j, 'v) sql_env \<Rightarrow> ('j, 'v) world \<Rightarrow> ('j, 'v) world" where
  "perform (ReqCreate c n) ev w = snd (create_workspace c n ev w)"
| "perform (ReqDuplicate i c n) ev w = snd (duplicate_workspace i c n ev w)"
| "perform (ReqOpen i c) ev w = snd (open_workspace_for i c ev w)"
| "perform (ReqRename i c n) ev w = snd (rename_workspace i c n ev w)"
| "perform (ReqArchive i c) ev w = snd (archive_workspace_row i c ev w)"
| "perform (ReqAdminArchive i) ev w = snd (admin_archive_workspace_row i ev w)"
| "perform (ReqRestore i c) ev w = snd (restore_workspace i c ev w)"
| "perform (ReqAdminRestore i) ev w = snd (admin_restore_workspace i ev w)"
| "perform (ReqUpsertMember i c e n r) ev w = snd (upsert_member i c e n r ev w)"
| "perform (ReqAdminUpsertOwner i e n) ev w = snd (admin_upsert_owner i e n ev w)"
| "perform (ReqUpdateRole i c e r) ev w = snd (update_member_role i c e r ev w)"
| "perform (ReqRemoveMember i c e) ev w = snd (remove_member i c e ev w)"
| "perform (ReqLinkAccess i c a r) ev w = snd (update_link_access i c a r ev w)"
| "perform (ReqCreateView i c n v x) ev w = snd (create_saved_view i c n v x ev w)"
| "perform (ReqUpdateView i c v n x) ev w = snd (update_saved_view i c v n x ev w)"
| "perform (ReqDeleteView i c v) ev w = snd (delete_saved_view i c v ev w)"
| "perform (ReqVisibility i c v x) ev w = snd (set_saved_view_visibility i c v x ev w)"
| "perform (ReqApprove i c v) ev w = snd (approve_saved_view i c v ev w)"
| "perform (ReqReject i c v) ev w = snd (reject_saved_view i c v ev w)"
| "perform (ReqSetDefault i c v) ev w = snd (set_default_saved_view i c v ev w)"
| "perform (ReqProfile i c p s v) ev w = snd (upsert_viewer_profile i c p s v ev w)"
| "perform (ReqPin i c b) ev w = snd (set_workspace_pinned i c b ev w)"
| "perform (ReqLastView i c v) ev w = snd (set_user_workspace_last_view i c v ev w)"
| "perform (ReqPreview i c t b now) ev w = snd (put_workspace_preview i c t b now ev w)"
| "perform (ReqPersist i q d) ev w = snd (store_persist_document i q d ev w)"
| "perform (ReqPersistOpened i ds s u n a q d) ev w = snd (store_persist_dataset_opened i ds s u n a q d ev w)"
| "perform (ReqPersistRemoved i ds q d) ev w = snd (store_persist_dataset_removed i ds q d ev w)"
| "perform (ReqPersistRenamed i ds n q d) ev w = snd (store_persist_dataset_renamed i ds n q d ev w)"

lemma set_default_request_keeps: "keeps ws_wf (set_default_saved_view i caller view_id)"
  unfolding set_default_saved_view_def
proof (rule keeps_bind [OF keeps_gates(2)])
  fix role
  let ?P = "\<lambda>d. ws_wf d \<and> (\<forall>v. view_id = Some v \<longrightarrow> has_view (workspace_saved_views d) i v)"
  have get: "hoare ws_wf (found_or WsNotFound (store_get_saved_view i v)) (\<lambda>_ d. ws_wf d \<and> has_view (workspace_saved_views d) i v) ws_wf" for v
    unfolding found_or_def from_store_def
    by (rule hoare_bind [OF hoare_map_err [OF store_get_saved_view_found]], rule hoare_res) (auto simp: ok_or_Inr_iff)
  have check: "hoare ws_wf (case view_id of None \<Rightarrow> act_ret () | Some v \<Rightarrow> act_bind (found_or WsNotFound (store_get_saved_view i v)) (\<lambda>view.
      if wv_visibility view \<noteq> Shared then act_fail (WsBadRequest ''a personal saved view cannot be the workspace default'') else act_ret ())) (\<lambda>_. ?P) ws_wf"
    by (cases view_id) (auto intro!: hoare_res hoare_bind [OF get])
  have set: "hoare ?P (found_or WsNotFound (store_set_default_saved_view i view_id)) (\<lambda>_. ws_wf) ws_wf"
    unfolding found_or_def from_store_def by (rule hoare_bind [OF hoare_map_err [OF set_default_keeps]]) (intro triple)
  show "keeps ws_wf (act_bind (case view_id of None \<Rightarrow> act_ret () | Some v \<Rightarrow> act_bind (found_or WsNotFound (store_get_saved_view i v)) (\<lambda>view.
      if wv_visibility view \<noteq> Shared then act_fail (WsBadRequest ''a personal saved view cannot be the workspace default'') else act_ret ())) (\<lambda>_.
      act_bind (found_or WsNotFound (store_set_default_saved_view i view_id)) (\<lambda>rec. act_ret (rec, role))))"
    by (rule hoare_bind [OF check], rule hoare_bind [OF set]) (intro triple)
qed

lemma keepsD: "keeps I m \<Longrightarrow> I (db w) \<Longrightarrow> I (db (snd (m ev w)))"
  unfolding hoare_def by (drule spec [of _ ev], drule spec [of _ w]) (auto split: prod.splits sum.splits)

lemma found_or_keeps: "hoare P m (\<lambda>_. I) I \<Longrightarrow> hoare P (found_or e m) (\<lambda>_. I) I"
  unfolding found_or_def from_store_def by (rule hoare_bind [OF hoare_map_err]) (auto intro!: triple)

lemma workspace_requests_keep:
  "keeps ws_wf (create_workspace c n)" "keeps ws_wf (duplicate_workspace i c n)" "keeps ws_wf (open_workspace_for i c)"
  "keeps ws_wf (rename_workspace i c name)" "keeps ws_wf (archive_workspace_row i c)" "keeps ws_wf (admin_archive_workspace_row i)"
  "keeps ws_wf (restore_workspace i c)" "keeps ws_wf (admin_restore_workspace i)"
  unfolding create_workspace_def duplicate_workspace_def open_workspace_for_def rename_workspace_def archive_workspace_row_def
    admin_archive_workspace_row_def restore_workspace_def admin_restore_workspace_def admin_workspace_details_def
    store_admin_workspace_details_def Let_def
  by (auto intro!: triple split: option.splits prod.splits)

lemma sharing_requests_keep:
  "keeps ws_wf (upsert_member i c e n r)" "keeps ws_wf (admin_upsert_owner i e n)" "keeps ws_wf (update_member_role i c e r)"
  "keeps ws_wf (remove_member i c e)" "keeps ws_wf (update_link_access i c a r)"
proof -
  show "keeps ws_wf (upsert_member i c e n r)"
    unfolding upsert_member_def by (rule hoare_bind [OF member_change_stays found_or_keeps [OF upsert_member_keeps]])
  show "keeps ws_wf (admin_upsert_owner i e n)"
    unfolding admin_upsert_owner_def by (intro triple)
  show "keeps ws_wf (update_member_role i c e r)"
    unfolding update_member_role_def by (rule hoare_bind [OF member_change_stays found_or_keeps [OF update_role_keeps]])
  show "keeps ws_wf (remove_member i c e)"
    unfolding remove_member_def from_store_def
    by (rule hoare_bind [OF member_change_stays hoare_bind [OF hoare_map_err [OF remove_member_keeps]]]) (auto intro!: triple)
  show "keeps ws_wf (update_link_access i c a r)"
    unfolding update_link_access_def by (auto intro!: triple link_access_keeps)
qed

lemma view_requests_keep:
  "keeps ws_wf (create_saved_view i c n v x)" "keeps ws_wf (update_saved_view i c k name view)" "keeps ws_wf (delete_saved_view i c k)"
  "keeps ws_wf (set_saved_view_visibility i c k x)" "keeps ws_wf (approve_saved_view i c k)" "keeps ws_wf (reject_saved_view i c k)"
  unfolding create_saved_view_def update_saved_view_def delete_saved_view_def set_saved_view_visibility_def approve_saved_view_def reject_saved_view_def
  by (auto intro!: triple)

lemma own_requests_keep:
  "keeps ws_wf (upsert_viewer_profile i c p q v)" "keeps ws_wf (set_workspace_pinned i c b)" "keeps ws_wf (set_user_workspace_last_view i c v)"
  "keeps ws_wf (put_workspace_preview i c t bytes now)"
  unfolding upsert_viewer_profile_def set_workspace_pinned_def set_user_workspace_last_view_def put_workspace_preview_def
  by (auto intro!: triple split: option.splits preview_write.splits)

lemma perform_keeps: "ws_wf (db w) \<Longrightarrow> ws_wf (db (perform req ev w))"
  by (cases req)
    (simp_all add: keepsD workspace_requests_keep sharing_requests_keep view_requests_keep own_requests_keep other_ops_keep set_default_request_keeps)

definition ws_step :: "('j, 'v) tables \<Rightarrow> ('j, 'v) tables \<Rightarrow> bool" where
  "ws_step d d' \<longleftrightarrow> (\<exists>req ev w. d = db w \<and> d' = db (perform req ev w))"

interpretation workspace_tables: invariant_system "\<lambda>d. d = empty_tables" ws_step ws_wf
  by unfold_locales (auto simp: ws_wf_empty ws_step_def perform_keeps)

text \<open>
  C9: the tables stay consistent. After any sequence of requests, each running on its own, by any callers,
  with any statement of any of them failing, identifiers are unique, every stored role, link grant and
  visibility is a valid text and no link grants ownership, the default view of a workspace is a view of that workspace,
  and every workspace, archived or not, has an owner.
\<close>
theorem workspace_invariant:
  assumes "reachable (\<lambda>d. d = empty_tables) ws_step d"
  shows "distinct (map rw_id (workspaces d)) \<and> distinct (map rv_id (workspace_saved_views d)) \<and>
    distinct (map (\<lambda>m. (rm_workspace_id m, rm_email m)) (workspace_members d)) \<and>
    (\<forall>r \<in> set (workspaces d).
       (\<exists>m \<in> set (workspace_members d). rm_workspace_id m = rw_id r \<and> role_try_from (rm_role m) = Inr Owner) \<and>
       (\<exists>a k. link_access_try_from (rw_link_access r) = Inr a \<and> role_try_from (rw_link_role r) = Inr k \<and> \<not> can_own k) \<and>
       (\<forall>v. rw_default r = Some v \<longrightarrow> (\<exists>x \<in> set (workspace_saved_views d). rv_id x = v \<and> rv_workspace_id x = rw_id r))) \<and>
    (\<forall>m \<in> set (workspace_members d). \<exists>k. role_try_from (rm_role m) = Inr k) \<and>
    (\<forall>x \<in> set (workspace_saved_views d). \<exists>k. visibility_try_from (rv_visibility x) = Inr k)"
proof -
  from assms have wf: "ws_wf d" by (rule workspace_tables.reachable_inv)
  have "\<exists>m \<in> set (workspace_members d). rm_workspace_id m = rw_id r \<and> role_try_from (rm_role m) = Inr Owner" if "r \<in> set (workspaces d)" for r
    using wf that by (auto simp: ws_wf_but_def has_owner_def role_try_from_def)
  moreover have "\<exists>a k. link_access_try_from (rw_link_access r) = Inr a \<and> role_try_from (rw_link_role r) = Inr k \<and> \<not> can_own k" if "r \<in> set (workspaces d)" for r
    using wf that by (auto simp: ws_wf_but_def links_ok_def link_access_try_from_def role_try_from_def)
  moreover have "\<exists>x \<in> set (workspace_saved_views d). rv_id x = v \<and> rv_workspace_id x = rw_id r" if "r \<in> set (workspaces d)" "rw_default r = Some v" for r v
    using wf that by (auto simp: ws_wf_but_def default_ok_def has_view_def is_view_def)
  ultimately show ?thesis
    using wf by (auto simp: ws_wf_but_def members_ok_def views_ok_def role_try_from_def visibility_try_from_def)
qed

definition demo_env :: "(document, saved_view) sql_env" where
  "demo_env = \<lparr>ev_fault = \<lambda>_. None, ev_violation = id, ev_now = int, ev_uuid = \<lambda>n. replicate (Suc n) CHR ''u'',
     ev_document_out = Inr, ev_document_in = Inr, ev_view_out = Inr, ev_view_in = Inr\<rparr>"

definition person :: "string \<Rightarrow> auth_principal" where
  "person email = \<lparr>pr_email = email, pr_display_name = email, pr_picture_url = None, pr_is_admin = False\<rparr>"

theorem workspace_invariant_witness:
  "\<exists>d :: (document, saved_view) tables. reachable (\<lambda>d. d = empty_tables) ws_step d \<and> map rw_id (workspaces d) = [''u''] \<and>
     (\<exists>m \<in> set (workspace_members d). rm_workspace_id m = ''u'' \<and> role_try_from (rm_role m) = Inr Owner)"
proof -
  let ?d = "db (perform (ReqCreate (person ''a'') None) demo_env \<lparr>db = empty_tables, tick = 0\<rparr>)"
  have ids: "map rw_id (workspaces ?d) = [''u'']"
    by (simp add: create_workspace_def from_store_def act_map_err_def store_create_workspace_def act_bind_def new_uuid_def utc_now_def demo_env_def
        document_json_def transact_def fetch_def execute_def insert_blank_owned_workspace_def insert_workspace_def insert_member_def
        has_workspace_def empty_tables_def act_res_def Let_def)
  have "ws_step empty_tables ?d" unfolding ws_step_def by (metis world.select_convs(1))
  with reach_step [OF reach_init [of "\<lambda>d. d = empty_tables" empty_tables]]
  have r: "reachable (\<lambda>d. d = empty_tables) ws_step ?d" by blast
  obtain w where w: "w \<in> set (workspaces ?d)" "rw_id w = ''u''" using ids by (cases "workspaces ?d") auto
  have "\<exists>m \<in> set (workspace_members ?d). rm_workspace_id m = rw_id w \<and> role_try_from (rm_role m) = Inr Owner"
    using workspace_invariant [OF r] w(1) by blast
  with r ids w(2) show ?thesis by auto
qed

text \<open>A workspace with two owners and an editor, to evaluate requests on.\<close>

definition demo_view :: "string \<Rightarrow> string \<Rightarrow> string \<Rightarrow> unit view_row" where
  "demo_view v owner visibility = \<lparr>rv_id = v, rv_workspace_id = ''w'', rv_name = v, rv_created_by = owner, rv_created_by_name = owner,
     rv_created_at = 0, rv_updated_at = 0, rv_visibility = visibility, rv_view_json = ()\<rparr>"

definition demo_world :: "unit view_row list \<Rightarrow> (unit, unit) world" where
  "demo_world vs = \<lparr>db = empty_tables\<lparr>workspaces := [\<lparr>rw_id = ''w'', rw_name = ''w'', rw_created_by = ''a@x'', rw_created_at = 0, rw_updated_at = 0,
     rw_archived_at = None, rw_link_access = ''restricted'', rw_link_role = ''viewer'', rw_seq = 0, rw_document_json = (), rw_default = None\<rparr>],
     workspace_members := map (\<lambda>(e, k). \<lparr>rm_workspace_id = ''w'', rm_email = e, rm_role = k, rm_display_name = e, rm_added_at = 0\<rparr>)
       [(''a@x'', ''owner''), (''b@x'', ''owner''), (''e@x'', ''editor'')],
     workspace_saved_views := vs\<rparr>, tick = 0\<rparr>"

definition unit_env :: "(unit, unit) sql_env" where
  "unit_env = \<lparr>ev_fault = \<lambda>_. None, ev_violation = id, ev_now = int, ev_uuid = \<lambda>n. replicate (Suc n) CHR ''u'',
     ev_document_out = \<lambda>_. Inr (), ev_document_in = \<lambda>_. Inr doc_default, ev_view_out = \<lambda>_. Inr (), ev_view_in = \<lambda>_. Inr (saved_view_empty (800, 600))\<rparr>"

end
