(* ===== verification/ViewPrivacy.thy ===== *)
theory ViewPrivacy
  imports WorkspaceRules
begin

text \<open>
  What a member of a workspace can learn about the saved views of others: nothing beyond what is
  listed to them, and which refusal an editor gets who names one as the default. \<open>rel\<close> relates two runs of the same action over tables that differ only in
  saved views the caller may not see; the rules follow the ones for triples.
\<close>

section \<open>Who sees what\<close>

text \<open>The role the store computes, as a function of the tables.\<close>

definition caller_role :: "('j, 'v) tables \<Rightarrow> string \<Rightarrow> auth_principal \<Rightarrow> ws_store_error + workspace_role option" where
  "caller_role d i caller =
     (if pr_is_admin caller then Inr (if list_ex (is_live i) (workspaces d) then Some Owner else None)
      else case find (is_live i) (workspaces d) of
          None \<Rightarrow> Inr None
        | Some r \<Rightarrow> (case find (is_member i (normalize_email (pr_email caller))) (workspace_members d) of
              Some m \<Rightarrow> res_map Some (role_try_from (rm_role m))
            | None \<Rightarrow> res_bind (link_access_try_from (rw_link_access r)) (\<lambda>access.
                if access = AnyoneWithLink then res_bind (role_try_from (rw_link_role r)) (\<lambda>link_role.
                    if can_own link_role then Inl (InvalidRole ''link role cannot grant owner'') else Inr (Some link_role))
                else Inr None)))"

lemma store_role_for_eq:
  "store_role_for i caller = act_bind (fetch (\<lambda>d. caller_role d i caller)) act_res"
  by (rule ext, rule ext)
    (auto simp: store_role_for_def caller_role_def act_bind_def fetch_def execute_def act_res_def workspace_exists_def Let_def
      split: option.splits prod.splits)

definition may_edit :: "('j, 'v) tables \<Rightarrow> string \<Rightarrow> auth_principal \<Rightarrow> bool" where
  "may_edit d i caller \<longleftrightarrow> (\<exists>r. caller_role d i caller = Inr (Some r) \<and> can_edit r)"

definition sees :: "('j, 'v) tables \<Rightarrow> string \<Rightarrow> auth_principal \<Rightarrow> 'v view_row \<Rightarrow> bool" where
  "sees d i caller = view_listed i (normalize_email (pr_email caller)) (may_edit d i caller)"

text \<open>Stored views can be read back.\<close>

definition views_readable :: "('j, 'v) sql_env \<Rightarrow> 'v view_row list \<Rightarrow> bool" where
  "views_readable ev vs \<longleftrightarrow> distinct (map rv_id vs) \<and>
     (\<forall>x \<in> set vs. (\<exists>k. visibility_try_from (rv_visibility x) = Inr k) \<and> (\<exists>v. ev_view_in ev (rv_view_json x) = Inr v))"

text \<open>A new UUID is not the id of a view that somebody else made.\<close>

definition ids_fresh :: "('j, 'v) sql_env \<Rightarrow> string \<Rightarrow> auth_principal \<Rightarrow> 'v view_row list \<Rightarrow> bool" where
  "ids_fresh ev i caller vs \<longleftrightarrow>
     (\<forall>x \<in> set vs. \<forall>n. rv_id x = ev_uuid ev n \<longrightarrow> rv_workspace_id x = i \<and> rv_created_by x = normalize_email (pr_email caller))"

text \<open>Two databases that differ only in saved views the caller does not see.\<close>

definition alike :: "('j, 'v) sql_env \<Rightarrow> string \<Rightarrow> auth_principal \<Rightarrow> ('j, 'v) tables \<Rightarrow> ('j, 'v) tables \<Rightarrow> bool" where
  "alike ev i caller d1 d2 \<longleftrightarrow>
     workspaces d1 = workspaces d2 \<and> workspace_members d1 = workspace_members d2 \<and> dataset_sources d1 = dataset_sources d2 \<and>
     workspace_datasets d1 = workspace_datasets d2 \<and> user_workspace_state d1 = user_workspace_state d2 \<and>
     workspace_viewer_profiles d1 = workspace_viewer_profiles d2 \<and> workspace_previews d1 = workspace_previews d2 \<and>
     filter (sees d1 i caller) (workspace_saved_views d1) = filter (sees d2 i caller) (workspace_saved_views d2) \<and>
     views_readable ev (workspace_saved_views d1) \<and> views_readable ev (workspace_saved_views d2) \<and>
     ids_fresh ev i caller (workspace_saved_views d1) \<and> ids_fresh ev i caller (workspace_saved_views d2)"

definition json_law :: "('j, 'v) sql_env \<Rightarrow> bool" where
  "json_law ev \<longleftrightarrow> (\<forall>v j. ev_view_out ev v = Inr j \<longrightarrow> (\<exists>v'. ev_view_in ev j = Inr v'))"

section \<open>Related runs\<close>

definition rel :: "('j, 'v) sql_env \<Rightarrow> string \<Rightarrow> auth_principal \<Rightarrow> (('j, 'v) tables \<Rightarrow> ('j, 'v) tables \<Rightarrow> bool) \<Rightarrow> ('j, 'v, 'e, 'a) act
    \<Rightarrow> ('a \<Rightarrow> ('j, 'v) tables \<Rightarrow> ('j, 'v) tables \<Rightarrow> bool) \<Rightarrow> bool" where
  "rel ev i caller P m Q \<longleftrightarrow> (\<forall>w1 w2. alike ev i caller (db w1) (db w2) \<and> tick w1 = tick w2 \<and> P (db w1) (db w2) \<longrightarrow>
     fst (m ev w1) = fst (m ev w2) \<and> alike ev i caller (db (snd (m ev w1))) (db (snd (m ev w2))) \<and>
     tick (snd (m ev w1)) = tick (snd (m ev w2)) \<and>
     (\<forall>a. fst (m ev w1) = Inr a \<longrightarrow> Q a (db (snd (m ev w1))) (db (snd (m ev w2)))))"

abbreviation hides :: "('j, 'v) sql_env \<Rightarrow> string \<Rightarrow> auth_principal \<Rightarrow> ('j, 'v, 'e, 'a) act \<Rightarrow> bool" where
  "hides ev i caller m \<equiv> rel ev i caller (\<lambda>_ _. True) m (\<lambda>_ _ _. True)"

lemma rel_weaken:
  assumes "rel ev i caller P m Q" "\<And>d1 d2. P' d1 d2 \<Longrightarrow> P d1 d2" "\<And>a d1 d2. Q a d1 d2 \<Longrightarrow> Q' a d1 d2"
  shows "rel ev i caller P' m Q'"
  using assms unfolding rel_def by blast

lemma relE:
  assumes "rel ev i caller P m Q" "alike ev i caller (db w1) (db w2) \<and> tick w1 = tick w2 \<and> P (db w1) (db w2)"
  obtains r w1' w2' where "m ev w1 = (r, w1')" "m ev w2 = (r, w2')" "alike ev i caller (db w1') (db w2')" "tick w1' = tick w2'"
    "\<And>a. r = Inr a \<Longrightarrow> Q a (db w1') (db w2')"
proof (rule that)
  show "m ev w1 = (fst (m ev w1), snd (m ev w1))" by simp
  show "m ev w2 = (fst (m ev w1), snd (m ev w2))" using assms unfolding rel_def by (metis prod.collapse)
qed (use assms in \<open>simp_all add: rel_def\<close>)

lemma rel_bind:
  fixes m :: "('j, 'v, 'e, 'a) act"
  assumes m: "rel ev i caller P m Q" and f: "\<And>a. rel ev i caller (Q a) (f a) R"
  shows "rel ev i caller P (act_bind m f) R"
  unfolding rel_def
proof (intro allI impI)
  fix w1 w2 :: "('j, 'v) world"
  assume w: "alike ev i caller (db w1) (db w2) \<and> tick w1 = tick w2 \<and> P (db w1) (db w2)"
  obtain r w1' w2' where 1: "m ev w1 = (r, w1')" and 2: "m ev w2 = (r, w2')"
    and w': "alike ev i caller (db w1') (db w2')" "tick w1' = tick w2'" and q: "\<And>a. r = Inr a \<Longrightarrow> Q a (db w1') (db w2')"
    by (rule relE [OF m w]) blast
  show "fst (act_bind m f ev w1) = fst (act_bind m f ev w2) \<and> alike ev i caller (db (snd (act_bind m f ev w1))) (db (snd (act_bind m f ev w2))) \<and>
     tick (snd (act_bind m f ev w1)) = tick (snd (act_bind m f ev w2)) \<and>
     (\<forall>a. fst (act_bind m f ev w1) = Inr a \<longrightarrow> R a (db (snd (act_bind m f ev w1))) (db (snd (act_bind m f ev w2))))"
  proof (cases r)
    case (Inr a)
    with f [of a] q [of a] w' 1 2 show ?thesis unfolding rel_def act_bind_def by simp
  qed (simp add: act_bind_def 1 2 w')
qed

lemma rel_res: "(\<And>a d1 d2. r = Inr a \<Longrightarrow> P d1 d2 \<Longrightarrow> Q a d1 d2) \<Longrightarrow> rel ev i caller P (act_res r) Q"
  unfolding rel_def act_res_def by simp

lemma rel_map_err: "rel ev i caller P m Q \<Longrightarrow> rel ev i caller P (act_map_err g m) Q"
  unfolding rel_def act_map_err_def by (auto split: prod.splits simp: res_map_err_Inr_iff) (metis fst_conv snd_conv)+

lemma rel_execute:
  fixes g :: "('j, 'v) tables \<Rightarrow> string + 'a \<times> ('j, 'v) tables"
  assumes "\<And>d1 d2. alike ev i caller d1 d2 \<Longrightarrow> P d1 d2 \<Longrightarrow>
    (case (g d1, g d2) of (Inl c1, Inl c2) \<Rightarrow> c1 = c2
     | (Inr (a1, d1'), Inr (a2, d2')) \<Rightarrow> a1 = a2 \<and> alike ev i caller d1' d2' \<and> Q a1 d1' d2' | _ \<Rightarrow> False)"
  shows "rel ev i caller P (execute g) Q"
  unfolding rel_def
proof (intro allI impI)
  fix w1 w2 :: "('j, 'v) world"
  assume w: "alike ev i caller (db w1) (db w2) \<and> tick w1 = tick w2 \<and> P (db w1) (db w2)"
  with assms [of "db w1" "db w2"] show "fst (execute g ev w1) = fst (execute g ev w2) \<and> alike ev i caller (db (snd (execute g ev w1))) (db (snd (execute g ev w2))) \<and>
     tick (snd (execute g ev w1)) = tick (snd (execute g ev w2)) \<and>
     (\<forall>a. fst (execute g ev w1) = Inr a \<longrightarrow> Q a (db (snd (execute g ev w1))) (db (snd (execute g ev w2))))"
    by (cases "ev_fault ev (tick w2)"; cases "g (db w1)"; cases "g (db w2)") (auto simp: execute_def Let_def split: prod.splits)
qed

lemma rel_fetch:
  assumes "\<And>d1 d2. alike ev i caller d1 d2 \<Longrightarrow> P d1 d2 \<Longrightarrow> f d1 = f d2 \<and> Q (f d1) d1 d2"
  shows "rel ev i caller P (fetch f) Q"
  unfolding fetch_def by (rule rel_execute) (use assms in \<open>simp, metis\<close>)

named_theorems related \<open>rules for related runs\<close>

lemma rel_env [related]:
  "rel ev i caller P utc_now (\<lambda>_. P)" "rel ev i caller P (view_of_json k) (\<lambda>_. P)"
  "rel ev i caller P (view_json v) (\<lambda>j d1 d2. P d1 d2 \<and> ev_view_out ev v = Inr j)"
  by (auto simp: rel_def utc_now_def view_of_json_def view_json_def res_map_err_Inr_iff)

lemma rel_transact:
  fixes m :: "('j, 'v, ws_store_error, 'a tx_end) act"
  assumes m: "rel ev i caller P m (\<lambda>t d1 d2. case t of TxCommit a \<Rightarrow> Q a d1 d2 | TxRollback a \<Rightarrow> (\<forall>e1 e2. P e1 e2 \<longrightarrow> Q a e1 e2)
      | TxDrop a \<Rightarrow> (\<forall>e1 e2. P e1 e2 \<longrightarrow> Q a e1 e2))"
  shows "rel ev i caller P (transact m) Q"
  unfolding rel_def
proof (intro allI impI)
  fix w1 w2 :: "('j, 'v) world"
  assume w: "alike ev i caller (db w1) (db w2) \<and> tick w1 = tick w2 \<and> P (db w1) (db w2)"
  let ?m = "act_bind (fetch (\<lambda>_. ())) (\<lambda>_. m)"
  have "rel ev i caller P ?m (\<lambda>t d1 d2. case t of TxCommit a \<Rightarrow> Q a d1 d2 | TxRollback a \<Rightarrow> (\<forall>e1 e2. P e1 e2 \<longrightarrow> Q a e1 e2)
      | TxDrop a \<Rightarrow> (\<forall>e1 e2. P e1 e2 \<longrightarrow> Q a e1 e2))"
    by (rule rel_bind [OF rel_fetch m]) auto
  note R = this
  obtain r w1' w2' where 1: "?m ev w1 = (r, w1')" and 2: "?m ev w2 = (r, w2')"
    and w': "alike ev i caller (db w1') (db w2')" "tick w1' = tick w2'"
    and q: "\<And>t. r = Inr t \<Longrightarrow> (case t of TxCommit a \<Rightarrow> Q a (db w1') (db w2') | TxRollback a \<Rightarrow> (\<forall>e1 e2. P e1 e2 \<longrightarrow> Q a e1 e2)
      | TxDrop a \<Rightarrow> (\<forall>e1 e2. P e1 e2 \<longrightarrow> Q a e1 e2))"
    by (rule relE [OF R w]) blast
  show "fst (transact m ev w1) = fst (transact m ev w2) \<and> alike ev i caller (db (snd (transact m ev w1))) (db (snd (transact m ev w2))) \<and>
     tick (snd (transact m ev w1)) = tick (snd (transact m ev w2)) \<and>
     (\<forall>a. fst (transact m ev w1) = Inr a \<longrightarrow> Q a (db (snd (transact m ev w1))) (db (snd (transact m ev w2))))"
  proof (cases r)
    case (Inr t)
    from q [OF Inr] show ?thesis
      using w w' unfolding transact_def 1 2 Inr
      by (cases t; cases "ev_fault ev (tick w2')") (simp_all add: fetch_def execute_def Let_def)
  qed (simp add: transact_def 1 2 w w')
qed

lemma rel_from_store: "rel ev i caller P m Q \<Longrightarrow> rel ev i caller P (from_store m) Q"
  unfolding from_store_def by (rule rel_map_err)

lemma rel_found_or: "rel ev i caller P m (\<lambda>r d1 d2. \<forall>a. r = Some a \<longrightarrow> Q a d1 d2) \<Longrightarrow> rel ev i caller P (found_or e m) Q"
  unfolding found_or_def by (rule rel_bind [OF rel_from_store], assumption, rule rel_res) (simp add: ok_or_Inr_iff)

section \<open>The store under related runs\<close>

lemma caller_role_cong: "workspaces d1 = workspaces d2 \<Longrightarrow> workspace_members d1 = workspace_members d2 \<Longrightarrow> caller_role d1 i caller = caller_role d2 i caller"
  unfolding caller_role_def by (simp only:)

lemma alike_role: "alike ev i caller d1 d2 \<Longrightarrow> caller_role d1 j c = caller_role d2 j c"
  unfolding alike_def by (elim conjE) (rule caller_role_cong)

lemma alike_sees: "alike ev i caller d1 d2 \<Longrightarrow> sees d1 i caller = sees d2 i caller"
  using alike_role [of ev i caller d1 d2] by (simp add: sees_def may_edit_def)

lemma find_live_update:
  assumes "\<And>r. rw_id (f r) = rw_id r" "\<And>r. rw_archived_at (f r) = rw_archived_at r"
  shows "find (is_live i) (update_where P f rs) = map_option (\<lambda>r. if P r then f r else r) (find (is_live i) rs)"
  unfolding update_where_def using assms by (induction rs) (auto simp: is_live_def)

lemma role_update:
  assumes "\<And>r. rw_id (f r) = rw_id r" "\<And>r. rw_archived_at (f r) = rw_archived_at r" "\<And>r. rw_link_access (f r) = rw_link_access r" "\<And>r. rw_link_role (f r) = rw_link_role r"
    "workspaces d' = update_where P f (workspaces d)" "workspace_members d' = workspace_members d"
  shows "caller_role d' i caller = caller_role d i caller"
proof -
  have "list_ex (is_live i) (update_where P f rs) = list_ex (is_live i) rs" for rs
    unfolding update_where_def using assms by (induction rs) (auto simp: is_live_def)
  then show ?thesis
    unfolding caller_role_def assms(5,6) using assms(3,4) by (simp add: find_live_update assms(1,2) split: option.splits cong: if_cong)
qed

lemma rel_touch [related]: "rel ev i caller P (touch_workspace i now) (\<lambda>_ d1 d2. \<exists>e1 e2. P e1 e2 \<and>
    workspace_saved_views e1 = workspace_saved_views d1 \<and> workspace_saved_views e2 = workspace_saved_views d2)"
  (is "rel _ _ _ _ _ (\<lambda>_. ?Q)")
proof -
  have "rel ev i caller P (update_workspaces (\<lambda>r. rw_id r = i) (\<lambda>r. r\<lparr>rw_updated_at := now\<rparr>)) (\<lambda>_. ?Q)"
    unfolding update_workspaces_def
  proof (rule rel_execute)
    fix d1 d2
    assume a: "alike ev i caller d1 d2" and p: "P d1 d2"
    let ?u = "\<lambda>d. d\<lparr>workspaces := update_where (\<lambda>r. rw_id r = i) (\<lambda>r. r\<lparr>rw_updated_at := now\<rparr>) (workspaces d)\<rparr>"
    have "caller_role (?u d) i caller = caller_role d i caller" for d :: "('a, 'b) tables"
      by (rule role_update [where f = "\<lambda>r. r\<lparr>rw_updated_at := now\<rparr>" and P = "\<lambda>r. rw_id r = i"]) simp_all
    then have sees: "sees (?u d) i caller = sees d i caller" for d :: "('a, 'b) tables" by (simp add: sees_def may_edit_def)
    have "alike ev i caller (?u d1) (?u d2)"
      unfolding alike_def sees [of d1] sees [of d2] using a by (simp add: alike_def)
    with a p show "case (Inr (length (filter (\<lambda>r. rw_id r = i) (workspaces d1)), ?u d1), Inr (length (filter (\<lambda>r. rw_id r = i) (workspaces d2)), ?u d2)) of
        (Inl c1, Inl c2) \<Rightarrow> c1 = c2 | (Inr (a1, d1'), Inr (a2, d2')) \<Rightarrow> a1 = a2 \<and> alike ev i caller d1' d2' \<and> ?Q d1' d2' | _ \<Rightarrow> False"
      by (auto simp: alike_def)
  qed
  then show ?thesis unfolding touch_workspace_def by (rule rel_bind) (auto intro!: rel_res)
qed

lemma rel_read:
  assumes "\<And>d1 d2. alike ev i caller d1 d2 \<Longrightarrow> f d1 = f d2"
  shows "rel ev i caller P (fetch f) (\<lambda>a d1 d2. P d1 d2 \<and> a = f d1)"
  by (rule rel_fetch) (use assms in blast)

lemma rel_role: "rel ev i caller P (store_role_for i caller) (\<lambda>r d1 d2. P d1 d2 \<and> caller_role d1 i caller = Inr r)"
  unfolding store_role_for_eq by (rule rel_bind [OF rel_read]) (auto intro!: rel_res alike_role)

lemma rel_viewer: "rel ev i caller P (require_viewer i caller) (\<lambda>role d1 d2. P d1 d2 \<and> may_edit d1 i caller = can_edit role)"
  unfolding require_viewer_def by (rule rel_found_or, rule rel_weaken [OF rel_role [where P = P]]) (auto simp: may_edit_def)

lemma rel_editor: "rel ev i caller P (require_editor i caller) (\<lambda>role d1 d2. P d1 d2 \<and> may_edit d1 i caller)"
  unfolding require_editor_def
  by (rule rel_bind [where Q = "\<lambda>role d1 d2. P d1 d2 \<and> may_edit d1 i caller = can_edit role"], rule rel_found_or, rule rel_weaken [OF rel_role [where P = P]])
    (auto simp: may_edit_def intro!: rel_res)

lemma rel_exists: "rel ev i caller P (workspace_exists i) (\<lambda>_. P)"
  unfolding workspace_exists_def by (rule rel_weaken [OF rel_read]) (auto simp: alike_def)

subsection \<open>One row\<close>

definition same_row :: "string \<Rightarrow> string \<Rightarrow> ('j, 'v) tables \<Rightarrow> ('j, 'v) tables \<Rightarrow> bool" where
  "same_row i v d1 d2 \<longleftrightarrow> (\<exists>x. find (is_view i v) (workspace_saved_views d1) = Some x \<and> find (is_view i v) (workspace_saved_views d2) = Some x)"

definition seen_row :: "auth_principal \<Rightarrow> string \<Rightarrow> string \<Rightarrow> ('j, 'v) tables \<Rightarrow> ('j, 'v) tables \<Rightarrow> bool" where
  "seen_row caller i v d1 d2 \<longleftrightarrow> (\<exists>x. find (is_view i v) (workspace_saved_views d1) = Some x \<and> find (is_view i v) (workspace_saved_views d2) = Some x \<and> sees d1 i caller x)"

lemma find_view_iff:
  assumes "distinct (map rv_id vs)"
  shows "find (is_view i v) vs = Some x \<longleftrightarrow> x \<in> set vs \<and> is_view i v x"
  using assms
proof (induction vs)
  case (Cons y ys)
  then show ?case by (auto simp: is_view_def)
qed simp

lemma filter_view:
  assumes "distinct (map rv_id vs)" "find (is_view i v) vs = Some x"
  shows "filter (is_view i v) vs = [x]"
  using assms
proof (induction vs)
  case (Cons y ys)
  then show ?case by (auto simp: is_view_def filter_empty_conv split: if_splits) (metis imageI)
qed simp

lemma alike_seen:
  assumes a: "alike ev i caller d1 d2" and x: "find (is_view i v) (workspace_saved_views d1) = Some x" "sees d1 i caller x"
  shows "find (is_view i v) (workspace_saved_views d2) = Some x"
proof -
  from a have d: "distinct (map rv_id (workspace_saved_views d1))" "distinct (map rv_id (workspace_saved_views d2))"
    by (simp_all add: alike_def views_readable_def)
  from x d(1) have "x \<in> set (filter (sees d1 i caller) (workspace_saved_views d1))" "is_view i v x" by (auto simp: find_view_iff)
  with a have "x \<in> set (filter (sees d2 i caller) (workspace_saved_views d2))" by (simp add: alike_def)
  with \<open>is_view i v x\<close> show ?thesis by (simp add: find_view_iff [OF d(2)])
qed

lemma alike_sym: "alike ev i caller d1 d2 \<Longrightarrow> alike ev i caller d2 d1"
  by (simp add: alike_def)

definition view_shown :: "auth_principal \<Rightarrow> bool \<Rightarrow> workspace_saved_view \<Rightarrow> bool" where
  "view_shown caller ed view \<longleftrightarrow> wv_visibility view = Shared \<or> wv_created_by view = normalize_email (pr_email caller) \<or> (ed \<and> wv_visibility view = Proposed)"

text \<open>The view a row shows, where it can be read.\<close>

definition read_view :: "('j, 'v) sql_env \<Rightarrow> 'v view_row \<Rightarrow> workspace_saved_view" where
  "read_view ev x = \<lparr>wv_id = rv_id x, wv_workspace_id = rv_workspace_id x, wv_name = rv_name x, wv_created_by = rv_created_by x,
     wv_created_by_name = rv_created_by_name x, wv_created_at = rv_created_at x, wv_updated_at = rv_updated_at x,
     wv_visibility = projr (visibility_try_from (rv_visibility x)), wv_view = projr (ev_view_in ev (rv_view_json x))\<rparr>"

lemma get_view_eval:
  assumes "views_readable ev (workspace_saved_views (db w))" "ev_fault ev (tick w) = None"
  shows "act_bind (found_or WsNotFound (store_get_saved_view i v)) K ev w =
     (case find (is_view i v) (workspace_saved_views (db w)) of None \<Rightarrow> (Inl WsNotFound, w\<lparr>tick := Suc (tick w)\<rparr>)
      | Some x \<Rightarrow> K (read_view ev x) ev (w\<lparr>tick := Suc (tick w)\<rparr>))"
proof (cases "find (is_view i v) (workspace_saved_views (db w))")
  case None
  then show ?thesis
    using assms by (simp add: act_bind_def found_or_def from_store_def act_map_err_def store_get_saved_view_def fetch_def execute_def act_option_def act_res_def Let_def)
next
  case (Some x)
  with assms(1) obtain k s where "visibility_try_from (rv_visibility x) = Inr k" "ev_view_in ev (rv_view_json x) = Inr s"
    by (auto simp: views_readable_def find_view_iff)
  with Some assms(2) show ?thesis
    by (simp add: act_bind_def found_or_def from_store_def act_map_err_def store_get_saved_view_def fetch_def execute_def act_option_def act_res_def Let_def
        row_to_saved_view_def view_of_json_def read_view_def)
qed

lemma sees_read_view:
  assumes "views_readable ev vs" "find (is_view i v) vs = Some x"
  shows "sees d i caller x = view_shown caller (may_edit d i caller) (read_view ev x)"
proof -
  from assms obtain k where "visibility_try_from (rv_visibility x) = Inr k" "is_view i v x"
    by (auto simp: views_readable_def find_view_iff)
  then show ?thesis
    by (auto simp: sees_def view_listed_def view_shown_def is_view_def read_view_def visibility_try_from_def split: if_splits)
qed

lemma alike_edit: "alike ev i caller d1 d2 \<Longrightarrow> may_edit d1 i caller = may_edit d2 i caller"
  using alike_role [of ev i caller d1 d2] by (simp add: may_edit_def)

text \<open>A view the caller does not see is answered like one that is not there.\<close>

lemma rel_gated:
  fixes K :: "workspace_saved_view \<Rightarrow> ('j, 'v, workspace_error, 'a) act"
  assumes hidden: "\<And>view. \<not> view_shown caller ed view \<Longrightarrow> K view = act_fail WsNotFound"
    and seen: "\<And>view. rel ev i caller (\<lambda>d1 d2. P d1 d2 \<and> seen_row caller i v d1 d2) (K view) Q"
    and ed: "\<And>d1 d2. P d1 d2 \<Longrightarrow> may_edit d1 i caller = ed"
  shows "rel ev i caller P (act_bind (found_or WsNotFound (store_get_saved_view i v)) K) Q"
  unfolding rel_def
proof (intro allI impI)
  fix w1 w2 :: "('j, 'v) world"
  assume w: "alike ev i caller (db w1) (db w2) \<and> tick w1 = tick w2 \<and> P (db w1) (db w2)"
  let ?m = "act_bind (found_or WsNotFound (store_get_saved_view i v)) K"
  let ?t = "\<lambda>w. w\<lparr>tick := Suc (tick w)\<rparr>"
  let ?f = "\<lambda>w. find (is_view i v) (workspace_saved_views (db w))"
  from w have a: "alike ev i caller (db w1) (db w2)" and edit: "may_edit (db w1) i caller = ed" "may_edit (db w2) i caller = ed"
    using ed alike_edit [of ev i caller "db w1" "db w2"] by metis+
  then have read: "views_readable ev (workspace_saved_views (db w1))" "views_readable ev (workspace_saved_views (db w2))"
    by (simp_all add: alike_def)
  have unseen: "(case ?f w of None \<Rightarrow> (Inl WsNotFound, ?t w) | Some x \<Rightarrow> K (read_view ev x) ev (?t w)) = (Inl WsNotFound, ?t w)"
    if r: "views_readable ev (workspace_saved_views (db w))" and e: "may_edit (db w) i caller = ed" and n: "\<not> (\<exists>x. ?f w = Some x \<and> sees (db w) i caller x)" for w
  proof (cases "?f w")
    case (Some x)
    with sees_read_view [OF r Some] e n have "\<not> view_shown caller ed (read_view ev x)" by auto
    with Some hidden show ?thesis by (simp add: act_res_def)
  qed simp
  show "fst (?m ev w1) = fst (?m ev w2) \<and> alike ev i caller (db (snd (?m ev w1))) (db (snd (?m ev w2))) \<and>
     tick (snd (?m ev w1)) = tick (snd (?m ev w2)) \<and> (\<forall>a. fst (?m ev w1) = Inr a \<longrightarrow> Q a (db (snd (?m ev w1))) (db (snd (?m ev w2))))"
  proof (cases "ev_fault ev (tick w2)")
    case (Some e)
    then show ?thesis
      using w by (simp add: act_bind_def found_or_def from_store_def act_map_err_def store_get_saved_view_def fetch_def execute_def Let_def)
  next
    case None
    with w have m: "?m ev w1 = (case ?f w1 of None \<Rightarrow> (Inl WsNotFound, ?t w1) | Some x \<Rightarrow> K (read_view ev x) ev (?t w1))"
      "?m ev w2 = (case ?f w2 of None \<Rightarrow> (Inl WsNotFound, ?t w2) | Some x \<Rightarrow> K (read_view ev x) ev (?t w2))"
      by (simp_all only: get_view_eval [OF read(1)] get_view_eval [OF read(2)])
    show ?thesis
    proof (cases "\<exists>x. ?f w1 = Some x \<and> sees (db w1) i caller x")
      case True
      then obtain x where x: "?f w1 = Some x" "sees (db w1) i caller x" by blast
      with alike_seen [OF a] have x2: "?f w2 = Some x" by blast
      with x have "seen_row caller i v (db w1) (db w2)" by (simp add: seen_row_def)
      with w seen [of "read_view ev x"] show ?thesis
        unfolding m x(1) x2 rel_def by (elim allE [of _ "?t w1"] allE [of _ "?t w2"]) simp
    next
      case False
      have "\<not> (\<exists>x. ?f w2 = Some x \<and> sees (db w2) i caller x)"
        using False alike_seen [OF alike_sym [OF a]] alike_sees [OF a] by metis
      then have "?m ev w2 = (Inl WsNotFound, ?t w2)" unfolding m by (rule unseen [OF read(2) edit(2)])
      moreover have "?m ev w1 = (Inl WsNotFound, ?t w1)" unfolding m by (rule unseen [OF read(1) edit(1) False])
      ultimately show ?thesis using w by simp
    qed
  qed
qed

subsection \<open>Changing a view that is seen\<close>

lemma sees_views [simp]:
  "sees (d\<lparr>workspace_saved_views := vs\<rparr>) i caller = sees d i caller"
  using caller_role_cong [of "d\<lparr>workspace_saved_views := vs\<rparr>" d i caller] by (simp add: sees_def may_edit_def)

lemma filter_map_seen:
  assumes "\<And>r. r \<in> set vs \<Longrightarrow> \<not> S r \<Longrightarrow> F r = r"
  shows "filter S (map F vs) = filter S (map F (filter S vs))"
  using assms by (induction vs) auto

lemma seen_unique:
  assumes "alike ev i caller d1 d2" "seen_row caller i v d1 d2"
  shows "r \<in> set (workspace_saved_views d1) \<Longrightarrow> \<not> sees d1 i caller r \<Longrightarrow> \<not> is_view i v r"
    "r \<in> set (workspace_saved_views d2) \<Longrightarrow> \<not> sees d1 i caller r \<Longrightarrow> \<not> is_view i v r"
  using assms unfolding alike_def views_readable_def seen_row_def by (metis find_view_iff option.inject)+

lemma find_update_view:
  assumes "\<And>r. rv_id (f r) = rv_id r" "\<And>r. rv_workspace_id (f r) = rv_workspace_id r"
  shows "find (is_view i v) (update_where (is_view i v) f vs) = map_option f (find (is_view i v) vs)"
  unfolding update_where_def using assms by (induction vs) (auto simp: is_view_def)

lemma readable_update:
  assumes "views_readable ev vs" "\<And>r. rv_id (f r) = rv_id r"
    "\<And>x. (\<exists>k. visibility_try_from (rv_visibility x) = Inr k) \<Longrightarrow> (\<exists>v. ev_view_in ev (rv_view_json x) = Inr v) \<Longrightarrow>
      (\<exists>k. visibility_try_from (rv_visibility (f x)) = Inr k) \<and> (\<exists>v. ev_view_in ev (rv_view_json (f x)) = Inr v)"
  shows "views_readable ev (update_where P f vs)"
proof -
  have "map rv_id (update_where P f vs) = map rv_id vs" using assms(2) by (intro map_update_where)
  with assms show ?thesis unfolding views_readable_def by (auto simp: set_update_where)
qed

lemma rel_change_row:
  assumes f: "\<And>r. rv_id (f r) = rv_id r" "\<And>r. rv_workspace_id (f r) = rv_workspace_id r" "\<And>r. rv_created_by (f r) = rv_created_by r"
    and ok: "\<And>x. (\<exists>k. visibility_try_from (rv_visibility x) = Inr k) \<Longrightarrow> (\<exists>v. ev_view_in ev (rv_view_json x) = Inr v) \<Longrightarrow>
      (\<exists>k. visibility_try_from (rv_visibility (f x)) = Inr k) \<and> (\<exists>v. ev_view_in ev (rv_view_json (f x)) = Inr v)"
  shows "rel ev i caller (seen_row caller i v) (execute (\<lambda>d. Inr (length (filter (is_view i v) (workspace_saved_views d)),
      d\<lparr>workspace_saved_views := update_where (is_view i v) f (workspace_saved_views d)\<rparr>))) (\<lambda>_. same_row i v)"
proof (rule rel_execute)
  fix d1 d2
  assume a: "alike ev i caller d1 d2" and p: "seen_row caller i v d1 d2"
  let ?u = "update_where (is_view i v) f"
  let ?V1 = "workspace_saved_views d1" and ?V2 = "workspace_saved_views d2"
  from a have read: "views_readable ev ?V1" "views_readable ev ?V2" by (simp_all add: alike_def)
  from p obtain x where x: "find (is_view i v) ?V1 = Some x" "find (is_view i v) ?V2 = Some x" by (auto simp: seen_row_def)
  have n: "filter (is_view i v) ?V1 = [x]" "filter (is_view i v) ?V2 = [x]"
    using read x by (auto simp: views_readable_def intro!: filter_view)
  have "filter (sees d1 i caller) (?u ?V1) = filter (sees d1 i caller) (?u ?V2)"
    unfolding update_where_def
    using filter_map_seen [of ?V1 "sees d1 i caller" "\<lambda>r. if is_view i v r then f r else r"]
      filter_map_seen [of ?V2 "sees d1 i caller" "\<lambda>r. if is_view i v r then f r else r"] seen_unique [OF a p] a alike_sees [OF a]
    by (simp add: alike_def)
  moreover have "views_readable ev (?u ?V1)" "views_readable ev (?u ?V2)"
    by (rule readable_update [OF read(1) f(1) ok]) (assumption+, rule readable_update [OF read(2) f(1) ok])
  moreover have "ids_fresh ev i caller (?u vs)" if "ids_fresh ev i caller vs" for vs
    unfolding ids_fresh_def set_update_where
  proof (intro ballI allI impI)
    fix x n
    assume "x \<in> (\<lambda>r. if is_view i v r then f r else r) ` set vs" "rv_id x = ev_uuid ev n"
    then obtain y where "y \<in> set vs" "rv_id y = ev_uuid ev n" "rv_workspace_id x = rv_workspace_id y" "rv_created_by x = rv_created_by y"
      using f by (auto split: if_splits)
    with that show "rv_workspace_id x = i \<and> rv_created_by x = normalize_email (pr_email caller)" unfolding ids_fresh_def by metis
  qed
  ultimately have "alike ev i caller (d1\<lparr>workspace_saved_views := ?u ?V1\<rparr>) (d2\<lparr>workspace_saved_views := ?u ?V2\<rparr>)"
    using a alike_sees [OF a] by (simp add: alike_def)
  moreover have "same_row i v (d1\<lparr>workspace_saved_views := ?u ?V1\<rparr>) (d2\<lparr>workspace_saved_views := ?u ?V2\<rparr>)"
    by (simp add: same_row_def find_update_view f x)
  ultimately show "case (Inr (length (filter (is_view i v) ?V1), d1\<lparr>workspace_saved_views := ?u ?V1\<rparr>),
      Inr (length (filter (is_view i v) ?V2), d2\<lparr>workspace_saved_views := ?u ?V2\<rparr>)) of (Inl c1, Inl c2) \<Rightarrow> c1 = c2
     | (Inr (a1, d1'), Inr (a2, d2')) \<Rightarrow> a1 = a2 \<and> alike ev i caller d1' d2' \<and> same_row i v d1' d2' | _ \<Rightarrow> False"
    by (simp add: n)
qed

lemma rel_delete_row: "rel ev i caller (seen_row caller i v) (delete_saved_view_row i v) (\<lambda>_ _ _. True)"
  unfolding delete_saved_view_row_def
proof (rule rel_execute)
  fix d1 d2
  assume a: "alike ev i caller d1 d2" and p: "seen_row caller i v d1 d2"
  let ?V1 = "workspace_saved_views d1" and ?V2 = "workspace_saved_views d2"
  let ?u = "\<lambda>d. d\<lparr>workspace_saved_views := filter (\<lambda>r. \<not> is_view i v r) (workspace_saved_views d),
      workspaces := update_where (\<lambda>r. rw_default r \<in> Some ` set [v]) (\<lambda>r. r\<lparr>rw_default := None\<rparr>) (workspaces d)\<rparr>"
  from a have read: "views_readable ev ?V1" "views_readable ev ?V2" by (simp_all add: alike_def)
  from p obtain x where x: "find (is_view i v) ?V1 = Some x" "find (is_view i v) ?V2 = Some x" by (auto simp: seen_row_def)
  have n: "filter (is_view i v) ?V1 = [x]" "filter (is_view i v) ?V2 = [x]"
    using read x by (auto simp: views_readable_def intro!: filter_view)
  have xv: "rv_id x = v" using x(1) read(1) by (simp add: views_readable_def find_view_iff is_view_def)
  have sees: "sees (?u d) i caller = sees d i caller" for d :: "('a, 'b) tables"
  proof -
    have "caller_role (?u d) i caller = caller_role d i caller"
      by (rule role_update [where f = "\<lambda>r. r\<lparr>rw_default := None\<rparr>" and P = "\<lambda>r. rw_default r \<in> Some ` set [v]"]) simp_all
    then show ?thesis by (simp add: sees_def may_edit_def)
  qed
  have comm: "filter S (filter (\<lambda>r. \<not> is_view i v r) vs) = filter (\<lambda>r. \<not> is_view i v r) (filter S vs)" for S and vs :: "'b view_row list"
    by (simp add: conj_commute)
  have "filter (sees d1 i caller) (filter (\<lambda>r. \<not> is_view i v r) ?V1) = filter (sees d2 i caller) (filter (\<lambda>r. \<not> is_view i v r) ?V2)"
    using a comm [of "sees d1 i caller" ?V1] comm [of "sees d2 i caller" ?V2] unfolding alike_def by metis
  moreover have "views_readable ev (filter (\<lambda>r. \<not> is_view i v r) vs)" if "views_readable ev vs" for vs
    using that by (auto simp: views_readable_def distinct_map_filter)
  moreover have "ids_fresh ev i caller (filter (\<lambda>r. \<not> is_view i v r) vs)" if "ids_fresh ev i caller vs" for vs
    using that by (auto simp: ids_fresh_def)
  ultimately have "alike ev i caller (?u d1) (?u d2)"
    unfolding alike_def sees [of d1] sees [of d2] using a by (simp add: alike_def del: filter_filter)
  then show "case (let gone = map rv_id (filter (is_view i v) (workspace_saved_views d1))
        in Inr (length gone, d1\<lparr>workspace_saved_views := filter (\<lambda>r. \<not> is_view i v r) (workspace_saved_views d1),
             workspaces := update_where (\<lambda>r. rw_default r \<in> Some ` set gone) (\<lambda>r. r\<lparr>rw_default := None\<rparr>) (workspaces d1)\<rparr>),
       let gone = map rv_id (filter (is_view i v) (workspace_saved_views d2))
        in Inr (length gone, d2\<lparr>workspace_saved_views := filter (\<lambda>r. \<not> is_view i v r) (workspace_saved_views d2),
             workspaces := update_where (\<lambda>r. rw_default r \<in> Some ` set gone) (\<lambda>r. r\<lparr>rw_default := None\<rparr>) (workspaces d2)\<rparr>)) of
     (Inl c1, Inl c2) \<Rightarrow> c1 = c2 | (Inr (a1, d1'), Inr (a2, d2')) \<Rightarrow> a1 = a2 \<and> alike ev i caller d1' d2' \<and> True | _ \<Rightarrow> False"
    by (simp add: n xv Let_def)
qed

lemma rel_touch_row: "rel ev i caller (same_row i v) (touch_workspace i now) (\<lambda>_. same_row i v)"
  by (rule rel_weaken [OF rel_touch [where P = "same_row i v"]]) (auto simp: same_row_def)

lemma rel_change_view:
  assumes "\<And>r. rv_id (f r) = rv_id r" "\<And>r. rv_workspace_id (f r) = rv_workspace_id r" "\<And>r. rv_created_by (f r) = rv_created_by r"
    "\<And>x. (\<exists>k. visibility_try_from (rv_visibility x) = Inr k) \<Longrightarrow> (\<exists>v. ev_view_in ev (rv_view_json x) = Inr v) \<Longrightarrow>
      (\<exists>k. visibility_try_from (rv_visibility (f x)) = Inr k) \<and> (\<exists>v. ev_view_in ev (rv_view_json (f x)) = Inr v)"
  shows "rel ev i caller (seen_row caller i v) (change_view i v now f) (\<lambda>there d1 d2. there \<longrightarrow> same_row i v d1 d2)"
  unfolding change_view_def
  by (rule rel_transact, rule rel_bind [OF rel_change_row [OF assms]])
    (auto intro!: rel_res rel_bind [OF rel_touch_row])

lemma rel_get_same: "rel ev i caller (same_row i v) (store_get_saved_view i v) (\<lambda>_ _ _. True)"
proof -
  have "rel ev i caller (\<lambda>_ _. True) (row_to_saved_view r) (\<lambda>_ _ _. True)" for r
    unfolding row_to_saved_view_def by (intro rel_bind [OF rel_res] rel_bind [OF rel_env(2)] rel_res) auto
  then show ?thesis
    unfolding store_get_saved_view_def act_option_def
    by (intro rel_bind [OF rel_fetch [where Q = "\<lambda>_ _ _. True"]]) (auto simp: same_row_def split: option.splits intro!: rel_res rel_bind)
qed

lemma rel_update_view:
  assumes "json_law ev"
  shows "rel ev i caller (seen_row caller i v) (store_update_saved_view i v name view) (\<lambda>_ _ _. True)"
proof -
  let ?f = "\<lambda>now json r. r\<lparr>rv_name := case_option (rv_name r) id name, rv_view_json := case_option (rv_view_json r) id json, rv_updated_at := now\<rparr>"
  have change: "rel ev i caller (\<lambda>d1 d2. seen_row caller i v d1 d2 \<and> (\<forall>j. json = Some j \<longrightarrow> (\<exists>v'. ev_view_in ev j = Inr v')))
      (change_view i v now (?f now json)) (\<lambda>there d1 d2. there \<longrightarrow> same_row i v d1 d2)" for now json
  proof (cases "\<forall>j. json = Some j \<longrightarrow> (\<exists>v'. ev_view_in ev j = Inr v')")
    case True
    have "rel ev i caller (seen_row caller i v) (change_view i v now (?f now json)) (\<lambda>there d1 d2. there \<longrightarrow> same_row i v d1 d2)"
      by (rule rel_change_view) (use True in \<open>auto split: option.splits\<close>)
    then show ?thesis by (rule rel_weaken) auto
  qed (auto simp: rel_def)
  have json: "rel ev i caller (seen_row caller i v) (act_option view_json view)
      (\<lambda>json d1 d2. seen_row caller i v d1 d2 \<and> (\<forall>j. json = Some j \<longrightarrow> (\<exists>v'. ev_view_in ev j = Inr v')))"
    unfolding act_option_def using assms
    by (cases view) (auto simp: json_law_def intro!: rel_res rel_bind [OF rel_env(3)])
  have "rel ev i caller (seen_row caller i v) (act_bind utc_now (\<lambda>now. act_bind (act_option view_json view) (\<lambda>json.
      act_bind (change_view i v now (?f now json)) (\<lambda>there. if there then store_get_saved_view i v else act_ret None)))) (\<lambda>_ _ _. True)"
    by (rule rel_bind [OF rel_env(1)], rule rel_bind [OF json], rule rel_bind [OF change]) (auto intro!: rel_res rel_get_same)
  then show ?thesis
    unfolding store_update_saved_view_def by (intro rel_bind [OF rel_exists]) (auto intro!: rel_res)
qed

lemma rel_set_visibility: "rel ev i caller (seen_row caller i v) (store_set_saved_view_visibility i v k) (\<lambda>_ _ _. True)"
proof -
  have change: "rel ev i caller (seen_row caller i v) (change_view i v now (\<lambda>r. r\<lparr>rv_visibility := visibility_str k, rv_updated_at := now\<rparr>))
      (\<lambda>there d1 d2. there \<longrightarrow> same_row i v d1 d2)" for now
    by (rule rel_change_view) (cases k; auto simp: visibility_try_from_def)+
  have "rel ev i caller (seen_row caller i v) (act_bind utc_now (\<lambda>now. act_bind (change_view i v now
      (\<lambda>r. r\<lparr>rv_visibility := visibility_str k, rv_updated_at := now\<rparr>)) (\<lambda>there. if there then store_get_saved_view i v else act_ret None))) (\<lambda>_ _ _. True)"
    by (rule rel_bind [OF rel_env(1)], rule rel_bind [OF change]) (auto intro!: rel_res rel_get_same)
  then show ?thesis
    unfolding store_set_saved_view_visibility_def by (intro rel_bind [OF rel_exists]) (auto intro!: rel_res)
qed

lemma rel_delete_view: "rel ev i caller (seen_row caller i v) (store_delete_saved_view i v) (\<lambda>_ _ _. True)"
proof -
  have "rel ev i caller (seen_row caller i v) (transact (act_bind (delete_saved_view_row i v) (\<lambda>n.
       if n = 0 then act_ret (TxRollback False) else act_bind (touch_workspace i now) (\<lambda>_. act_ret (TxCommit True))))) (\<lambda>_ _ _. True)" for now
    by (rule rel_transact, rule rel_bind [OF rel_delete_row]) (auto intro!: rel_res rel_bind [OF rel_touch])
  then show ?thesis
    unfolding store_delete_saved_view_def
    by (intro rel_bind [OF rel_exists]) (auto intro!: rel_res rel_bind [OF rel_env(1)])
qed

subsection \<open>A new view\<close>

lemma rel_uuid: "rel ev i caller P new_uuid (\<lambda>u d1 d2. P d1 d2 \<and> u \<in> range (ev_uuid ev))"
  by (auto simp: rel_def new_uuid_def)

lemma fresh_both:
  assumes a: "alike ev i caller d1 d2" and x: "x \<in> set (workspace_saved_views d1)" "rv_id x \<in> range (ev_uuid ev)"
  shows "x \<in> set (workspace_saved_views d2)"
proof -
  from a x have "sees d1 i caller x" by (auto simp: alike_def ids_fresh_def sees_def view_listed_def)
  with x have "x \<in> set (filter (sees d1 i caller) (workspace_saved_views d1))" by simp
  with a have "x \<in> set (filter (sees d2 i caller) (workspace_saved_views d2))" by (simp add: alike_def)
  then show ?thesis by simp
qed

lemma rel_insert_row:
  assumes r: "rv_workspace_id r = i" "rv_created_by r = normalize_email (pr_email caller)" "rv_id r \<in> range (ev_uuid ev)"
    "\<exists>k. visibility_try_from (rv_visibility r) = Inr k" "\<exists>v. ev_view_in ev (rv_view_json r) = Inr v"
  shows "rel ev i caller P (insert_saved_view r) (\<lambda>_ _ _. True)"
  unfolding insert_saved_view_def
proof (rule rel_execute)
  fix d1 d2
  assume a: "alike ev i caller d1 d2"
  let ?V1 = "workspace_saved_views d1" and ?V2 = "workspace_saved_views d2"
  let ?taken = "\<lambda>d. list_ex (\<lambda>x. rv_id x = rv_id r) (workspace_saved_views d)"
  have taken: "?taken d1 = ?taken d2"
    using fresh_both [OF a] fresh_both [OF alike_sym [OF a]] r(3) unfolding list_ex_iff by metis
  have ws: "has_workspace d1 i = has_workspace d2 i" using a by (simp add: alike_def has_workspace_def)
  have "views_readable ev (vs @ [r])" if "views_readable ev vs" "\<not> list_ex (\<lambda>x. rv_id x = rv_id r) vs" for vs
    using that r(4,5) by (auto simp: views_readable_def list_ex_iff)
  moreover have "ids_fresh ev i caller (vs @ [r])" if "ids_fresh ev i caller vs" for vs
    using that r(1,2) by (auto simp: ids_fresh_def)
  ultimately have "alike ev i caller (d1\<lparr>workspace_saved_views := ?V1 @ [r]\<rparr>) (d2\<lparr>workspace_saved_views := ?V2 @ [r]\<rparr>)" if "\<not> ?taken d1"
    using a that taken alike_sees [OF a] by (simp add: alike_def)
  with taken ws r(1) show "case (if ?taken d1 then Inl ''workspace_saved_views.id'' else if \<not> has_workspace d1 (rv_workspace_id r) then Inl ''FOREIGN KEY''
       else Inr ((), d1\<lparr>workspace_saved_views := ?V1 @ [r]\<rparr>),
      if ?taken d2 then Inl ''workspace_saved_views.id'' else if \<not> has_workspace d2 (rv_workspace_id r) then Inl ''FOREIGN KEY''
       else Inr ((), d2\<lparr>workspace_saved_views := ?V2 @ [r]\<rparr>)) of
     (Inl c1, Inl c2) \<Rightarrow> c1 = c2 | (Inr (a1, d1'), Inr (a2, d2')) \<Rightarrow> a1 = a2 \<and> alike ev i caller d1' d2' \<and> True | _ \<Rightarrow> False"
    by simp
qed

lemma rel_create_view:
  assumes "json_law ev"
  shows "hides ev i caller (store_create_saved_view i name caller view k)"
proof -
  let ?row = "\<lambda>u now json. \<lparr>rv_id = u, rv_workspace_id = i, rv_name = name, rv_created_by = normalize_email (pr_email caller),
      rv_created_by_name = pr_display_name caller, rv_created_at = now, rv_updated_at = now, rv_visibility = visibility_str k, rv_view_json = json\<rparr>"
  have k: "\<exists>k'. visibility_try_from (visibility_str k) = Inr k'" by (cases k) (simp_all add: visibility_try_from_def)
  have "rel ev i caller (\<lambda>d1 d2. (True \<and> u \<in> range (ev_uuid ev)) \<and> ev_view_out ev view = Inr json)
      (transact (act_bind (insert_saved_view (?row u now json)) (\<lambda>_. act_bind (touch_workspace i now) (\<lambda>_. act_ret (TxCommit ()))))) (\<lambda>_ _ _. True)" for u now json
  proof (cases "u \<in> range (ev_uuid ev) \<and> ev_view_out ev view = Inr json")
    case True
    then have "\<exists>v. ev_view_in ev json = Inr v" using assms unfolding json_law_def by blast
    with True k show ?thesis
      by (intro rel_transact rel_bind [OF rel_insert_row]) (auto intro!: rel_res rel_bind [OF rel_touch])
  qed (auto simp: rel_def)
  then show ?thesis
    unfolding store_create_saved_view_def Let_def
    by (intro rel_bind [OF rel_exists])
      (auto intro!: rel_res rel_bind [OF rel_uuid] rel_bind [OF rel_env(1)] rel_bind [OF rel_env(3)] rel_bind)
qed

subsection \<open>The default view\<close>

definition default_seen :: "auth_principal \<Rightarrow> string \<Rightarrow> string option \<Rightarrow> ('j, 'v) tables \<Rightarrow> ('j, 'v) tables \<Rightarrow> bool" where
  "default_seen caller i view_id d1 d2 \<longleftrightarrow> (\<forall>v. view_id = Some v \<longrightarrow> seen_row caller i v d1 d2)"

lemma default_seen_simps:
  "default_seen caller i (Some v) = seen_row caller i v" "default_seen caller i None = (\<lambda>_ _. True)"
  by (simp_all add: default_seen_def fun_eq_iff)

lemma rel_get_row: "rel ev i caller P (get_workspace_row i) (\<lambda>_ _ _. True)"
proof -
  have "rel ev i caller P' (row_to_record x) (\<lambda>_ _ _. True)" for P' x
    unfolding row_to_record_def document_of_json_def by (auto simp: rel_def act_bind_def act_res_def split: sum.splits prod.splits)
  then show ?thesis
    unfolding get_workspace_row_def act_option_def
    by (intro rel_bind [OF rel_fetch [where Q = "\<lambda>_ _ _. True"]])
      (auto simp: alike_def split: option.splits intro!: rel_res rel_bind)
qed

lemma rel_set_default: "rel ev i caller (default_seen caller i view_id) (store_set_default_saved_view i view_id) (\<lambda>_ _ _. True)"
proof -
  have "rel ev i caller (default_seen caller i view_id) (execute (\<lambda>d.
       let hit = filter (is_live i) (workspaces d)
       in if hit \<noteq> [] \<and> view_id \<noteq> None \<and> \<not> list_ex (\<lambda>r. Some (rv_id r) = view_id) (workspace_saved_views d) then Inl ''FOREIGN KEY''
          else Inr (length hit, d\<lparr>workspaces := update_where (is_live i) (\<lambda>r. r\<lparr>rw_default := view_id, rw_updated_at := now\<rparr>) (workspaces d)\<rparr>)))
     (\<lambda>_ _ _. True)" for now
  proof (rule rel_execute)
    fix d1 d2
    assume a: "alike ev i caller d1 d2" and p: "default_seen caller i view_id d1 d2"
    let ?f = "\<lambda>r. r\<lparr>rw_default := view_id, rw_updated_at := now\<rparr>"
    let ?u = "\<lambda>d. d\<lparr>workspaces := update_where (is_live i) ?f (workspaces d)\<rparr>"
    have "caller_role (?u d) i caller = caller_role d i caller" for d :: "('a, 'b) tables"
      by (rule role_update [where f = ?f and P = "is_live i"]) simp_all
    then have sees: "sees (?u d) i caller = sees d i caller" for d :: "('a, 'b) tables" by (simp add: sees_def may_edit_def)
    have al: "alike ev i caller (?u d1) (?u d2)"
      unfolding alike_def sees [of d1] sees [of d2] using a by (simp add: alike_def)
    have there: "view_id = None \<or> list_ex (\<lambda>r. Some (rv_id r) = view_id) (workspace_saved_views d1) \<and> list_ex (\<lambda>r. Some (rv_id r) = view_id) (workspace_saved_views d2)"
      using p a by (cases view_id) (auto simp: default_seen_def seen_row_def list_ex_iff alike_def views_readable_def find_view_iff is_view_def)
    have ws: "workspaces d1 = workspaces d2" using a by (simp add: alike_def)
    show "case (let hit = filter (is_live i) (workspaces d1)
       in if hit \<noteq> [] \<and> view_id \<noteq> None \<and> \<not> list_ex (\<lambda>r. Some (rv_id r) = view_id) (workspace_saved_views d1) then Inl ''FOREIGN KEY'' else Inr (length hit, ?u d1),
       let hit = filter (is_live i) (workspaces d2)
       in if hit \<noteq> [] \<and> view_id \<noteq> None \<and> \<not> list_ex (\<lambda>r. Some (rv_id r) = view_id) (workspace_saved_views d2) then Inl ''FOREIGN KEY'' else Inr (length hit, ?u d2)) of
       (Inl c1, Inl c2) \<Rightarrow> c1 = c2 | (Inr (a1, d1'), Inr (a2, d2')) \<Rightarrow> a1 = a2 \<and> alike ev i caller d1' d2' \<and> True | _ \<Rightarrow> False"
      using there al ws by (auto simp: Let_def)
  qed
  then show ?thesis
    unfolding store_set_default_saved_view_def
    by (intro rel_bind [OF rel_env(1)] rel_bind) (auto intro!: rel_res rel_get_row)
qed

section \<open>Requests about views\<close>

datatype view_request =
    VList
  | VCreate string saved_view saved_view_visibility
  | VGet string
  | VUpdate string "string option" "saved_view option"
  | VDelete string
  | VVisibility string saved_view_visibility
  | VApprove string
  | VReject string
  | VSetDefault "string option"

datatype view_response = VViews "workspace_saved_view list" | VView workspace_saved_view | VDone | VRecord workspace_record workspace_role

fun respond :: "string \<Rightarrow> auth_principal \<Rightarrow> view_request \<Rightarrow> ('j, 'v, view_response) ws_act" where
  "respond i caller VList = act_bind (list_saved_views i caller) (\<lambda>vs. act_ret (VViews vs))"
| "respond i caller (VCreate name view k) = act_bind (create_saved_view i caller name view k) (\<lambda>x. act_ret (VView x))"
| "respond i caller (VGet v) = act_bind (get_saved_view i caller v) (\<lambda>x. act_ret (VView x))"
| "respond i caller (VUpdate v name view) = act_bind (update_saved_view i caller v name view) (\<lambda>x. act_ret (VView x))"
| "respond i caller (VDelete v) = act_bind (delete_saved_view i caller v) (\<lambda>_. act_ret VDone)"
| "respond i caller (VVisibility v k) = act_bind (set_saved_view_visibility i caller v k) (\<lambda>x. act_ret (VView x))"
| "respond i caller (VApprove v) = act_bind (approve_saved_view i caller v) (\<lambda>x. act_ret (VView x))"
| "respond i caller (VReject v) = act_bind (reject_saved_view i caller v) (\<lambda>x. act_ret (VView x))"
| "respond i caller (VSetDefault v) = act_bind (set_default_saved_view i caller v) (\<lambda>(rec, role). act_ret (VRecord rec role))"

text \<open>What the caller is told, request by request.\<close>

fun answers :: "string \<Rightarrow> auth_principal \<Rightarrow> ('j, 'v) sql_env \<Rightarrow> view_request list \<Rightarrow> ('j, 'v) world \<Rightarrow> (workspace_error + view_response) list" where
  "answers i caller ev [] w = []"
| "answers i caller ev (q # qs) w = (case respond i caller q ev w of (r, w') \<Rightarrow> r # answers i caller ev qs w')"

text \<open>
  Making a view the default has two refusals about the view named: it is not there, and it is there but not shared.
  \<open>told\<close> is an answer with these two taken together, and every other answer as it is.
\<close>

fun told :: "view_request \<Rightarrow> workspace_error + view_response \<Rightarrow> workspace_error + view_response" where
  "told (VSetDefault (Some v)) (Inl (WsBadRequest m)) = Inl WsNotFound"
| "told q r = r"

definition blur :: "workspace_error \<Rightarrow> workspace_error" where
  "blur e = (case e of WsBadRequest m \<Rightarrow> WsNotFound | _ \<Rightarrow> e)"

lemma map_err_bind: "act_map_err g (act_bind m f) = act_bind (act_map_err g m) (\<lambda>a. act_map_err g (f a))"
  by (intro ext) (auto simp: act_map_err_def act_bind_def split: prod.splits sum.splits)

lemma blur_found: "act_map_err blur (found_or WsNotFound m) = found_or WsNotFound m"
  by (intro ext) (auto simp: found_or_def from_store_def act_map_err_def act_bind_def act_res_def ok_or_def blur_def res_map_err_def split: prod.splits sum.splits option.splits)

lemma map_err_res: "act_map_err g (act_res r) = act_res (res_map_err g r)"
  by (intro ext) (simp add: act_map_err_def act_res_def)

lemma act_bind_fail [simp]: "act_bind (act_fail e) f = act_fail e"
  by (intro ext) (simp add: act_bind_def act_res_def)

lemma hidden_unreadable: "\<not> view_shown caller ed view \<Longrightarrow> ensure_saved_view_readable view caller = Inl WsNotFound"
  by (auto simp: view_shown_def ensure_saved_view_readable_def split: saved_view_visibility.splits)

lemma rel_mutable: "rel ev i caller (\<lambda>_ _. True) (ensure_saved_view_mutable i caller v) (\<lambda>_. seen_row caller i v)"
  unfolding ensure_saved_view_mutable_def
proof (rule rel_bind [OF rel_viewer])
  fix role
  show "rel ev i caller (\<lambda>d1 d2. True \<and> may_edit d1 i caller = can_edit role) (act_bind (found_or WsNotFound (store_get_saved_view i v)) (\<lambda>view.
     act_bind (act_res (ensure_saved_view_readable view caller)) (\<lambda>_.
     if wv_visibility view = Shared then act_bind (require_editor i caller) (\<lambda>_. act_ret view) else act_ret view))) (\<lambda>_. seen_row caller i v)"
  proof (rule rel_gated [where ed = "can_edit role"])
    fix view
    show "rel ev i caller (\<lambda>d1 d2. (True \<and> may_edit d1 i caller = can_edit role) \<and> seen_row caller i v d1 d2) (act_bind (act_res (ensure_saved_view_readable view caller)) (\<lambda>_.
       if wv_visibility view = Shared then act_bind (require_editor i caller) (\<lambda>_. act_ret view) else act_ret view)) (\<lambda>_. seen_row caller i v)"
      by (rule rel_bind [OF rel_res [where Q = "\<lambda>_. seen_row caller i v"]])
        (auto intro!: rel_res rel_bind [OF rel_editor])
  qed (simp_all add: hidden_unreadable)
qed

lemma rel_rescopable: "rel ev i caller (\<lambda>_ _. True) (ensure_saved_view_rescopable i caller v target) (\<lambda>_. seen_row caller i v)"
  unfolding ensure_saved_view_rescopable_def
proof (rule rel_bind [OF rel_viewer])
  fix role
  let ?K = "\<lambda>view. act_bind (act_res (ensure_saved_view_readable view caller)) (\<lambda>_.
     if wv_created_by view \<noteq> normalize_email (pr_email caller) then act_fail WsForbidden
     else if \<not> saved_view_transition_allowed (wv_visibility view) target
       then act_fail (WsBadRequest (''cannot change saved view visibility from '' @ visibility_str (wv_visibility view) @ '' to '' @ visibility_str target))
     else if target = Shared then act_bind (require_editor i caller) (\<lambda>_. act_ret view) else act_ret view)"
  show "rel ev i caller (\<lambda>d1 d2. True \<and> may_edit d1 i caller = can_edit role) (act_bind (found_or WsNotFound (store_get_saved_view i v)) ?K) (\<lambda>_. seen_row caller i v)"
  proof (rule rel_gated [where ed = "can_edit role"])
    fix view
    show "rel ev i caller (\<lambda>d1 d2. (True \<and> may_edit d1 i caller = can_edit role) \<and> seen_row caller i v d1 d2) (?K view) (\<lambda>_. seen_row caller i v)"
      by (rule rel_bind [OF rel_res [where Q = "\<lambda>_. seen_row caller i v"]])
        (auto intro!: rel_res rel_bind [OF rel_editor])
  qed (simp_all add: hidden_unreadable)
qed

lemma rel_reviewable: "rel ev i caller (\<lambda>_ _. True) (ensure_proposal_reviewable i caller v) (\<lambda>_. seen_row caller i v)"
  unfolding ensure_proposal_reviewable_def
  by (rule rel_bind [OF rel_editor], rule rel_gated [where ed = True])
    (auto simp: view_shown_def intro!: rel_res, (metis saved_view_visibility.exhaust)+)

lemma rel_list: "hides ev i caller (list_saved_views i caller)"
proof -
  have row: "rel ev i caller (\<lambda>_ _. True) (row_to_saved_view r) (\<lambda>_ _ _. True)" for r
    unfolding row_to_saved_view_def by (intro rel_bind [OF rel_res] rel_bind [OF rel_env(2)] rel_res) auto
  have rows: "rel ev i caller (\<lambda>_ _. True) (act_each row_to_saved_view rs) (\<lambda>_ _ _. True)" for rs
    by (induction rs) (auto intro!: rel_res rel_bind row)
  have "rel ev i caller (\<lambda>d1 d2. True \<and> may_edit d1 i caller = can_edit role)
      (fetch (\<lambda>d. sort_key (\<lambda>r. - rv_updated_at r) (filter (view_listed i (normalize_email (pr_email caller)) (can_edit role)) (workspace_saved_views d)))) (\<lambda>_ _ _. True)" for role
  proof (rule rel_fetch)
    fix d1 d2
    assume a: "alike ev i caller d1 d2" and "True \<and> may_edit d1 i caller = can_edit role"
    then have "sees d1 i caller = view_listed i (normalize_email (pr_email caller)) (can_edit role)"
      "sees d2 i caller = view_listed i (normalize_email (pr_email caller)) (can_edit role)"
      using alike_edit [OF a] by (simp_all add: sees_def)
    with a show "sort_key (\<lambda>r. - rv_updated_at r) (filter (view_listed i (normalize_email (pr_email caller)) (can_edit role)) (workspace_saved_views d1)) =
        sort_key (\<lambda>r. - rv_updated_at r) (filter (view_listed i (normalize_email (pr_email caller)) (can_edit role)) (workspace_saved_views d2)) \<and> True"
      by (simp add: alike_def)
  qed
  then show ?thesis
    unfolding list_saved_views_def store_list_saved_views_def
    by (intro rel_bind [OF rel_viewer] rel_from_store rel_bind [OF _ rows])
qed

lemma rel_get: "hides ev i caller (get_saved_view i caller v)"
  unfolding get_saved_view_def
proof (rule rel_bind [OF rel_viewer])
  fix role
  show "rel ev i caller (\<lambda>d1 d2. True \<and> may_edit d1 i caller = can_edit role) (act_bind (found_or WsNotFound (store_get_saved_view i v)) (\<lambda>view.
     case ensure_saved_view_readable view caller of Inr _ \<Rightarrow> act_ret view
     | Inl e \<Rightarrow> if wv_visibility view = Proposed \<and> can_edit role then act_ret view else act_fail e)) (\<lambda>_ _ _. True)"
    by (rule rel_gated [where ed = "can_edit role"])
      (auto simp: ensure_saved_view_readable_def view_shown_def intro!: rel_res split: sum.splits saved_view_visibility.splits)
qed

lemma rel_create:
  assumes "json_law ev"
  shows "hides ev i caller (create_saved_view i caller name view k)"
  unfolding create_saved_view_def
  by (cases "k = Shared")
    (auto intro!: rel_bind [OF rel_weaken [OF rel_editor]] rel_bind [OF rel_weaken [OF rel_viewer]] rel_bind [OF rel_res] rel_found_or
      rel_weaken [OF rel_create_view [OF assms]])

lemma rel_default: "hides ev i caller (act_map_err blur (set_default_saved_view i caller view_id))"
proof -
  let ?K = "\<lambda>view. if wv_visibility view \<noteq> Shared then act_fail (WsBadRequest ''a personal saved view cannot be the workspace default'') else act_ret ()"
  have chosen: "rel ev i caller (\<lambda>d1 d2. True \<and> may_edit d1 i caller) (act_map_err blur (case view_id of None \<Rightarrow> act_ret ()
     | Some v \<Rightarrow> act_bind (found_or WsNotFound (store_get_saved_view i v)) ?K)) (\<lambda>_. default_seen caller i view_id)"
  proof (cases view_id)
    case None
    then show ?thesis by (auto simp: default_seen_def intro!: rel_map_err rel_res)
  next
    case (Some v)
    have "rel ev i caller (\<lambda>d1 d2. True \<and> may_edit d1 i caller) (act_bind (found_or WsNotFound (store_get_saved_view i v)) (\<lambda>view. act_map_err blur (?K view)))
       (\<lambda>_. seen_row caller i v)"
      by (rule rel_gated [where ed = True]) (auto simp: map_err_res blur_def view_shown_def intro!: rel_res)
    with Some show ?thesis by (simp add: map_err_bind blur_found default_seen_simps)
  qed
  have rest: "rel ev i caller (default_seen caller i view_id)
      (act_bind (found_or WsNotFound (store_set_default_saved_view i view_id)) (\<lambda>rec. act_map_err blur (act_ret (rec, role)))) (\<lambda>_ _ _. True)" for role :: workspace_role
    by (rule rel_bind [OF rel_found_or [where Q = "\<lambda>_ _ _. True"]]) (auto intro!: rel_map_err rel_res rel_weaken [OF rel_set_default])
  show ?thesis
    unfolding set_default_saved_view_def map_err_bind blur_found
    by (rule rel_bind [OF rel_map_err [OF rel_editor]], rule rel_bind [OF chosen], rule rest)
qed

definition probes :: "view_request \<Rightarrow> bool" where
  "probes q \<longleftrightarrow> (\<exists>v. q = VSetDefault (Some v))"

lemma rel_respond:
  assumes "json_law ev" "\<not> probes q"
  shows "hides ev i caller (respond i caller q)"
proof (cases q)
  case VList
  then show ?thesis by (auto intro!: rel_bind [OF rel_list] rel_res)
next
  case (VGet v)
  then show ?thesis by (auto intro!: rel_bind [OF rel_get] rel_res)
next
  case (VCreate name view k)
  then show ?thesis by (auto intro!: rel_bind [OF rel_create [OF assms(1)]] rel_res)
next
  case (VSetDefault v)
  with assms(2) have v: "v = None" by (cases v) (auto simp: probes_def)
  have "hides ev i caller (set_default_saved_view i caller None)"
    unfolding set_default_saved_view_def option.case
    by (intro rel_bind [OF rel_editor] rel_bind [OF rel_res [where Q = "\<lambda>_. default_seen caller i None"]] rel_bind [OF rel_found_or [where Q = "\<lambda>_ _ _. True"]] rel_res)
      (auto simp: default_seen_def intro!: rel_weaken [OF rel_set_default])
  with VSetDefault v show ?thesis by (auto intro!: rel_bind rel_res split: prod.splits)
next
  case (VUpdate v name view)
  have name: "rel ev i caller (seen_row caller i v) (act_option (\<lambda>n. act_res (normalize_saved_view_name n)) name) (\<lambda>_. seen_row caller i v)"
    unfolding act_option_def by (cases name) (auto intro!: rel_res rel_bind [OF rel_res [where Q = "\<lambda>_. seen_row caller i v"]])
  have "hides ev i caller (update_saved_view i caller v name view)"
    unfolding update_saved_view_def
    by (rule rel_bind [OF rel_mutable])
      (auto intro!: rel_res rel_bind [OF name] rel_found_or rel_weaken [OF rel_update_view [OF assms(1)]])
  with VUpdate show ?thesis by (auto intro!: rel_bind rel_res)
next
  case (VDelete v)
  have "hides ev i caller (delete_saved_view i caller v)"
    unfolding delete_saved_view_def
    by (rule rel_bind [OF rel_mutable], rule rel_bind [OF rel_from_store [OF rel_delete_view]]) (auto intro!: rel_res)
  with VDelete show ?thesis by (auto intro!: rel_bind rel_res)
next
  case (VVisibility v k)
  have "hides ev i caller (set_saved_view_visibility i caller v k)"
    unfolding set_saved_view_visibility_def
    by (rule rel_bind [OF rel_rescopable], rule rel_found_or, rule rel_weaken [OF rel_set_visibility]) auto
  with VVisibility show ?thesis by (auto intro!: rel_bind rel_res)
next
  case (VApprove v)
  have "hides ev i caller (approve_saved_view i caller v)"
    unfolding approve_saved_view_def
    by (rule rel_bind [OF rel_reviewable]) (auto intro!: rel_res rel_found_or rel_weaken [OF rel_set_visibility])
  with VApprove show ?thesis by (auto intro!: rel_bind rel_res)
next
  case (VReject v)
  have "hides ev i caller (reject_saved_view i caller v)"
    unfolding reject_saved_view_def
    by (rule rel_bind [OF rel_reviewable], rule rel_found_or, rule rel_weaken [OF rel_set_visibility]) auto
  with VReject show ?thesis by (auto intro!: rel_bind rel_res)
qed

lemma respond_told:
  assumes "json_law ev" "alike ev i caller (db w1) (db w2)" "tick w1 = tick w2"
  shows "told q (fst (respond i caller q ev w1)) = told q (fst (respond i caller q ev w2))"
    "\<not> probes q \<Longrightarrow> fst (respond i caller q ev w1) = fst (respond i caller q ev w2)"
    "alike ev i caller (db (snd (respond i caller q ev w1))) (db (snd (respond i caller q ev w2)))"
    "tick (snd (respond i caller q ev w1)) = tick (snd (respond i caller q ev w2))"
proof -
  have w: "alike ev i caller (db w1) (db w2) \<and> tick w1 = tick w2 \<and> True" using assms(2,3) by simp
  have *: "told q (fst (respond i caller q ev w1)) = told q (fst (respond i caller q ev w2)) \<and>
      (\<not> probes q \<longrightarrow> fst (respond i caller q ev w1) = fst (respond i caller q ev w2)) \<and>
      alike ev i caller (db (snd (respond i caller q ev w1))) (db (snd (respond i caller q ev w2))) \<and>
      tick (snd (respond i caller q ev w1)) = tick (snd (respond i caller q ev w2))"
  proof (cases "probes q")
    case False
    from rel_respond [OF assms(1) False, of i caller] w show ?thesis unfolding rel_def by metis
  next
    case True
    then obtain v where q: "q = VSetDefault (Some v)" by (auto simp: probes_def)
    have "hides ev i caller (act_map_err blur (respond i caller q))"
      unfolding q respond.simps map_err_bind by (rule rel_bind [OF rel_default]) (auto intro!: rel_map_err rel_res)
    moreover have "told q r = res_map_err blur r" for r
      unfolding q by (cases r; cases "projl r") (auto simp: blur_def)
    moreover have "fst (act_map_err blur m ev x) = res_map_err blur (fst (m ev x))" "snd (act_map_err blur m ev x) = snd (m ev x)" for m x
      by (simp_all add: act_map_err_def split: prod.splits)
    ultimately show ?thesis using w True unfolding rel_def by metis
  qed
  then show "told q (fst (respond i caller q ev w1)) = told q (fst (respond i caller q ev w2))"
    "\<not> probes q \<Longrightarrow> fst (respond i caller q ev w1) = fst (respond i caller q ev w2)"
    "alike ev i caller (db (snd (respond i caller q ev w1))) (db (snd (respond i caller q ev w2)))"
    "tick (snd (respond i caller q ev w1)) = tick (snd (respond i caller q ev w2))" by blast+
qed



section \<open>Where the rules fall short\<close>

text \<open>
  Setting the default of a workspace tells an editor that a personal view of somebody else exists: it is refused with
  its own message, a view that does not exist is not found.
\<close>

theorem default_probe_leaks:
  "fst (set_default_saved_view ''w'' (person ''e@x'') (Some ''p'') unit_env (demo_world [demo_view ''p'' ''a@x'' ''personal'']))
     = Inl (WsBadRequest ''a personal saved view cannot be the workspace default'') \<and>
   fst (set_default_saved_view ''w'' (person ''e@x'') (Some ''p'') unit_env (demo_world [])) = Inl WsNotFound"
  by code_simp

text \<open>A default that was set to a shared view stays set when its creator makes the view personal.\<close>

theorem default_turns_personal:
  "(let w1 = snd (set_default_saved_view ''w'' (person ''a@x'') (Some ''s'') unit_env (demo_world [demo_view ''s'' ''a@x'' ''shared'']));
        w2 = snd (set_saved_view_visibility ''w'' (person ''a@x'') ''s'' Personal unit_env w1)
    in map rw_default (workspaces (db w2)) = [Some ''s''] \<and> map rv_visibility (workspace_saved_views (db w2)) = [''personal''])"
  by code_simp

text \<open>
  Two owners who remove each other at the same time: both checks run before either write, both requests succeed, and
  the workspace is left without an owner.
\<close>

lemmas run_simps = act_bind_def found_or_def from_store_def act_map_err_def fetch_def execute_def transact_def Let_def act_res_def act_option_def utc_now_def

lemmas text_simps = normalize_request_email_def normalize_email_def lowercase_def trim_def is_whitespace_def ascii_lower_def

lemmas member_simps = member_change_allowed_def require_owner_def store_role_for_def is_live_def is_member_def role_try_from_def
  current_sharing_settings_def store_sharing_settings_def list_members_def role_rank_def row_to_member_def link_access_try_from_def ensure_owner_retained_def
  store_remove_member_def touch_workspace_def update_workspaces_def update_where_def

theorem owners_race:
  "(let (r1, w1) = member_change_allowed ''w'' (person ''a@x'') ''b@x'' None unit_env (demo_world []);
        (r2, w2) = member_change_allowed ''w'' (person ''b@x'') ''a@x'' None unit_env w1;
        (r3, w3) = store_remove_member ''w'' (projr r1) unit_env w2;
        (r4, w4) = store_remove_member ''w'' (projr r2) unit_env w3
    in r1 = Inr ''b@x'' \<and> r2 = Inr ''a@x'' \<and> r3 = Inr True \<and> r4 = Inr True \<and> \<not> has_owner (workspace_members (db w4)) ''w'')"
  by (simp add: run_simps text_simps member_simps unit_env_def person_def demo_world_def has_owner_def)

end
