(* ===== verification/WorkspaceAccess.thy ===== *)
theory WorkspaceAccess
  imports WorkspaceRules
begin

text \<open>
  What a caller without access learns of a workspace, and what a duplicate holds.
\<close>

section \<open>Outsiders\<close>

definition outsider :: "('j, 'v) tables \<Rightarrow> string \<Rightarrow> auth_principal \<Rightarrow> bool" where
  "outsider d i caller \<longleftrightarrow> \<not> pr_is_admin caller \<and>
     \<not> list_ex (is_member i (normalize_email (pr_email caller))) (workspace_members d) \<and>
     (\<forall>r \<in> set (workspaces d). is_live i r \<longrightarrow> rw_link_access r = ''restricted'')"

text \<open>The requested workspace is not there, or its document can be read.\<close>

definition document_reads :: "('j, 'v) sql_env \<Rightarrow> ('j, 'v) tables \<Rightarrow> string \<Rightarrow> bool" where
  "document_reads ev d i \<longleftrightarrow>
     (case find (\<lambda>r. rw_id r = i) (workspaces d) of None \<Rightarrow> True | Some r \<Rightarrow> \<exists>x. ev_document_in ev (rw_document_json r) = Inr x)"

text \<open>A refusal that reveals nothing on purpose: not found, or a failure of the store.\<close>

definition refused :: "workspace_error + 'a \<Rightarrow> bool" where
  "refused r \<longleftrightarrow> r = Inl WsNotFound \<or> (\<exists>e. r = Inl (WsStore e))"

lemma find_in_set: "find P xs = Some x \<Longrightarrow> x \<in> set xs \<and> P x"
  by (auto simp: find_Some_iff)

text \<open>A run that changes no table, is refused, and answers not found when no statement fails and \<open>ok\<close> holds.\<close>

definition turned_away :: "('j, 'v) sql_env \<Rightarrow> bool \<Rightarrow> ('j, 'v) world \<Rightarrow> (workspace_error + 'a) \<times> ('j, 'v) world \<Rightarrow> bool" where
  "turned_away ev ok w rw \<longleftrightarrow> (\<exists>r n. rw = (r, w\<lparr>tick := n\<rparr>) \<and> refused r \<and> (ok \<and> (\<forall>n. ev_fault ev n = None) \<longrightarrow> r = Inl WsNotFound))"

lemma turned_away_bind: "turned_away ev ok w (m ev w) \<Longrightarrow> turned_away ev ok w (act_bind m f ev w)"
  unfolding turned_away_def refused_def act_bind_def by fastforce

lemma outsider_role:
  assumes "outsider (db w) i caller"
  shows "turned_away ev True w (found_or WsNotFound (store_role_for i caller) ev w)"
proof -
  from assms have m: "find (is_member i (normalize_email (pr_email caller))) (workspace_members (db w)) = None" "\<not> pr_is_admin caller"
    by (auto simp: outsider_def find_None_iff list_ex_iff)
  have "find (is_live i) (workspaces (db w)) = Some q \<Longrightarrow> rw_link_access q = ''restricted''" for q
    using assms find_in_set [of "is_live i" "workspaces (db w)" q] by (auto simp: outsider_def)
  then have none: "find (is_live i) (workspaces (db w)) = Some q \<Longrightarrow> link_access_try_from (rw_link_access q) = Inr Restricted" for q
    by (simp add: link_access_try_from_def)
  show ?thesis
    using m none unfolding turned_away_def
    by (cases "find (is_live i) (workspaces (db w))"; cases "ev_fault ev (tick w)")
      (auto simp: refused_def found_or_def from_store_def act_map_err_def act_bind_def store_role_for_def fetch_def execute_def Let_def act_res_def)
qed

lemma outsider_archived:
  assumes "outsider (db w) i caller"
  shows "turned_away ev True w (act_bind (from_store (store_member_role_for_any_state i caller))
    (\<lambda>role. act_fail (if role \<noteq> None then WsArchived else WsNotFound)) ev w)"
proof -
  from assms have "find (is_member i (normalize_email (pr_email caller))) (workspace_members (db w)) = None" "\<not> pr_is_admin caller"
    by (auto simp: outsider_def find_None_iff list_ex_iff)
  then show ?thesis
    unfolding turned_away_def
    by (cases "ev_fault ev (tick w)")
      (auto simp: refused_def from_store_def act_map_err_def store_member_role_for_any_state_def member_role_row_def act_bind_def fetch_def execute_def Let_def act_res_def)
qed

lemma outsider_get:
  assumes out: "outsider (db w) i caller"
  shows "turned_away ev (document_reads ev (db w) i) w (get_workspace_for i caller ev w)"
proof -
  let ?w = "w\<lparr>tick := Suc (tick w)\<rparr>" and ?ok = "document_reads ev (db w) i"
  consider (refused) "turned_away ev ?ok w (found_or WsNotFound (get_workspace_row i) ev w)"
    | (row) rec where "found_or WsNotFound (get_workspace_row i) ev w = (Inr rec, ?w)"
    by (cases "ev_fault ev (tick w)"; cases "find (\<lambda>r. rw_id r = i) (workspaces (db w))"; cases "ev_document_in ev (rw_document_json (the (find (\<lambda>r. rw_id r = i) (workspaces (db w)))))")
      (auto simp: turned_away_def refused_def document_reads_def found_or_def get_workspace_row_def row_to_record_def document_of_json_def from_store_def
        act_map_err_def act_bind_def fetch_def execute_def Let_def act_option_def act_res_def)
  then show ?thesis
  proof cases
    case refused
    then show ?thesis unfolding get_workspace_for_def by (rule turned_away_bind)
  next
    case (row rec)
    have out': "outsider (db ?w) i caller" using out by simp
    have "turned_away ev True ?w ((if wk_archived_at rec \<noteq> None then
         act_bind (from_store (store_member_role_for_any_state i caller)) (\<lambda>role. act_fail (if role \<noteq> None then WsArchived else WsNotFound))
       else act_bind (found_or WsNotFound (store_role_for i caller)) (\<lambda>role. act_ret (rec, role))) ev ?w)"
    proof (cases "wk_archived_at rec = None")
      case True
      have "turned_away ev True ?w (act_bind (found_or WsNotFound (store_role_for i caller)) (\<lambda>role. act_ret (rec, role)) ev ?w)"
        by (rule turned_away_bind, rule outsider_role [OF out'])
      with True show ?thesis by (simp only: if_False not_True_eq_False simp_thms)
    next
      case False
      show ?thesis unfolding if_P [OF False] by (rule outsider_archived [OF out'])
    qed
    with row show ?thesis by (auto simp: get_workspace_for_def act_bind_def turned_away_def)
  qed
qed

text \<open>
  C11: a workspace is closed to those it is not shared with. For a caller who is not an administrator, is no member
  and holds no link, reading, opening and duplicating a workspace, existing, archived or not, are all refused and change nothing,
  whatever statements of the database fail. The refusal is that it is not found or that the store failed. When no statement fails and
  the document of the workspace, where there is one, can be read, all three answer that it is not found,
  the very answer for one that does not exist.
\<close>
theorem workspace_hidden:
  assumes "outsider (db w) i caller"
  shows "refused (fst (get_workspace_for i caller ev w)) \<and> db (snd (get_workspace_for i caller ev w)) = db w \<and>
    refused (fst (open_workspace_for i caller ev w)) \<and> db (snd (open_workspace_for i caller ev w)) = db w \<and>
    refused (fst (duplicate_workspace i caller name ev w)) \<and> db (snd (duplicate_workspace i caller name ev w)) = db w \<and>
    ((\<forall>n. ev_fault ev n = None) \<and> document_reads ev (db w) i \<longrightarrow>
      fst (get_workspace_for i caller ev w) = Inl WsNotFound \<and> fst (open_workspace_for i caller ev w) = Inl WsNotFound \<and>
      fst (duplicate_workspace i caller name ev w) = Inl WsNotFound)"
proof -
  note get = outsider_get [OF assms, of ev]
  have "turned_away ev (document_reads ev (db w) i) w (open_workspace_for i caller ev w)"
    "turned_away ev (document_reads ev (db w) i) w (duplicate_workspace i caller name ev w)"
    unfolding open_workspace_for_def duplicate_workspace_def by (rule turned_away_bind, rule get)+
  with get show ?thesis by (auto simp: turned_away_def)
qed

theorem workspace_hidden_witness:
  "fst (open_workspace_for ''u'' (person ''b'') demo_env (snd (create_workspace (person ''a'') None demo_env \<lparr>db = empty_tables, tick = 0\<rparr>))) = Inl WsNotFound"
proof -
  let ?w = "snd (create_workspace (person ''a'') None demo_env \<lparr>db = empty_tables, tick = 0\<rparr>)"
  note run = create_workspace_def from_store_def act_map_err_def store_create_workspace_def act_bind_def new_uuid_def utc_now_def demo_env_def
    document_json_def transact_def fetch_def execute_def insert_blank_owned_workspace_def insert_workspace_def insert_member_def
    has_workspace_def empty_tables_def act_res_def Let_def
  have "outsider (db ?w) ''u'' (person ''b'')"
    by (simp add: outsider_def run is_member_def is_live_def person_def normalize_email_def lowercase_def trim_def is_whitespace_def ascii_lower_def)
  moreover have "document_reads demo_env (db ?w) ''u''" by (simp add: document_reads_def run)
  moreover have "\<forall>n. ev_fault demo_env n = None" by (simp add: demo_env_def)
  ultimately show ?thesis using workspace_hidden [of ?w "''u''" "person ''b''" demo_env] by blast
qed

text \<open>
  The exception is real: the row is decoded before the caller's role is looked up, so a workspace whose document cannot be
  read answers an outsider with the failure of the store and is thereby told apart from one that is not there.
\<close>

theorem unreadable_workspace_shows:
  "let ev = demo_env\<lparr>ev_document_in := \<lambda>_. Inl ''bad''\<rparr>;
       w = snd (create_workspace (person ''a'') None ev \<lparr>db = empty_tables, tick = 0\<rparr>)
   in outsider (db w) ''u'' (person ''b'')
     \<and> fst (get_workspace_for ''u'' (person ''b'') ev w) = Inl (WsStore (InvalidDocument ''bad''))
     \<and> fst (get_workspace_for ''v'' (person ''b'') ev w) = Inl WsNotFound"
  by (simp add: create_workspace_def from_store_def act_map_err_def store_create_workspace_def act_bind_def new_uuid_def utc_now_def demo_env_def
    document_json_def transact_def fetch_def execute_def insert_blank_owned_workspace_def insert_workspace_def insert_member_def
    has_workspace_def empty_tables_def act_res_def Let_def outsider_def is_member_def is_live_def person_def normalize_email_def lowercase_def trim_def
    is_whitespace_def ascii_lower_def get_workspace_for_def found_or_def get_workspace_row_def act_option_def row_to_record_def document_of_json_def)

section \<open>Duplicates\<close>

lemma bind_run: "act_bind m f ev w = (Inr b, w') \<longleftrightarrow> (\<exists>a w1. m ev w = (Inr a, w1) \<and> f a ev w1 = (Inr b, w'))"
  by (auto simp: act_bind_def split: prod.splits sum.splits)

lemma res_run: "act_res r ev w = (Inr a, w') \<longleftrightarrow> r = Inr a \<and> w' = w"
  by (auto simp: act_res_def)

lemma fetch_run: "fetch f ev w = (Inr a, w') \<Longrightarrow> a = f (db w) \<and> db w' = db w"
  by (auto simp: fetch_def execute_def Let_def split: option.splits)

lemma execute_run: "execute g ev w = (Inr a, w') \<Longrightarrow> \<exists>d. g (db w) = Inr (a, d) \<and> db w' = d"
  by (auto simp: execute_def Let_def split: option.splits sum.splits)

lemma transact_run:
  assumes "transact m ev w = (Inr a, w')"
  obtains (commit) w0 w1 where "db w0 = db w" "m ev w0 = (Inr (TxCommit a), w1)" "db w' = db w1"
    | (other) w0 w1 t where "m ev w0 = (Inr t, w1)" "t = TxRollback a \<or> t = TxDrop a"
proof -
  obtain r w1 where r: "act_bind (fetch (\<lambda>_. ())) (\<lambda>_. m) ev w = (r, w1)" by (cases "act_bind (fetch (\<lambda>_. ())) (\<lambda>_. m) ev w")
  with assms obtain t where t: "r = Inr t" by (auto simp: transact_def split: sum.splits)
  with r obtain w0 where w0: "db w0 = db w" "m ev w0 = (Inr t, w1)" by (fastforce simp: bind_run dest: fetch_run)
  show thesis
  proof (cases t)
    case (TxCommit b)
    with assms r t have "fetch (\<lambda>_. b) ev w1 = (Inr a, w')" by (auto simp: transact_def split: prod.splits sum.splits)
    then have "b = a" "db w' = db w1" using fetch_run by fastforce+
    with TxCommit w0 show thesis using commit by blast
  next
    case (TxRollback b)
    with assms r t have "b = a" by (auto simp: transact_def dest: fetch_run)
    with TxRollback w0 show thesis using other by blast
  next
    case (TxDrop b)
    with assms r t have "b = a" by (auto simp: transact_def)
    with TxDrop w0 show thesis using other by blast
  qed
qed

lemma env_run:
  "new_uuid ev w = (Inr u, w') \<Longrightarrow> db w' = db w" "utc_now ev w = (Inr t, w') \<Longrightarrow> db w' = db w"
  "document_json d ev w = (Inr j, w') \<Longrightarrow> ev_document_out ev d = Inr j \<and> w' = w"
  "document_of_json j ev w = (Inr d, w') \<Longrightarrow> ev_document_in ev j = Inr d \<and> w' = w"
  "view_json v ev w = (Inr k, w') \<Longrightarrow> ev_view_out ev v = Inr k \<and> w' = w"
  "view_of_json k ev w = (Inr v, w') \<Longrightarrow> ev_view_in ev k = Inr v \<and> w' = w"
  by (auto simp: new_uuid_def utc_now_def document_json_def document_of_json_def view_json_def view_of_json_def res_map_err_Inr_iff)

lemma copy_ids_run: "copy_dataset_ids rows ev w = (Inr copied, w') \<Longrightarrow> map fst copied = rows \<and> db w' = db w"
  unfolding copy_dataset_ids_def
proof (induction rows arbitrary: w copied)
  case (Cons r rows)
  then show ?case by (fastforce simp: bind_run res_run dest: env_run(1))
qed (simp add: res_run)

definition copied_dataset_row :: "string \<Rightarrow> string \<Rightarrow> instant \<Rightarrow> copied_dataset \<Rightarrow> dataset_row" where
  "copied_dataset_row new_id email now c = \<lparr>rd_id = snd c, rd_workspace_id = new_id, rd_source = rd_source (fst c), rd_display_name = rd_display_name (fst c),
     rd_added_by = email, rd_added_at = now, rd_sort_order = rd_sort_order (fst c)\<rparr>"

lemma insert_copies_run:
  "insert_copied_datasets new_id email now copied ev w = (Inr us, w') \<Longrightarrow>
     db w' = db w\<lparr>workspace_datasets := workspace_datasets (db w) @ map (copied_dataset_row new_id email now) copied\<rparr>"
  unfolding insert_copied_datasets_def
proof (induction copied arbitrary: w us)
  case (Cons c copied)
  from Cons.prems obtain w1 vs where w1: "insert_workspace_dataset (copied_dataset_row new_id email now c) ev w = (Inr (), w1)"
    and w': "act_each (\<lambda>(r, ds). insert_workspace_dataset \<lparr>rd_id = ds, rd_workspace_id = new_id, rd_source = rd_source r, rd_display_name = rd_display_name r,
      rd_added_by = email, rd_added_at = now, rd_sort_order = rd_sort_order r\<rparr>) copied ev w1 = (Inr vs, w')"
    by (auto simp: bind_run res_run copied_dataset_row_def split: prod.splits)
  from w1 have "db w1 = db w\<lparr>workspace_datasets := workspace_datasets (db w) @ [copied_dataset_row new_id email now c]\<rparr>"
    unfolding insert_workspace_dataset_def insert_dataset_row_def by (auto dest!: execute_run split: if_splits)
  with Cons.IH [OF w'] show ?case by simp
qed (simp add: res_run)

text \<open>One shared view and its copy.\<close>

definition is_copy :: "('j, 'v) sql_env \<Rightarrow> (dataset_id \<rightharpoonup> dataset_id) \<Rightarrow> string \<Rightarrow> string \<Rightarrow> 'v view_row \<Rightarrow> 'v view_row \<Rightarrow> bool" where
  "is_copy ev remap new_id email x y \<longleftrightarrow> rv_workspace_id y = new_id \<and> rv_name y = rv_name x \<and> rv_created_by y = email \<and> rv_visibility y = ''shared'' \<and>
     (\<exists>view. ev_view_in ev (rv_view_json x) = Inr view \<and> ev_view_out ev (clear_source_urls (view_remap remap view)) = Inr (rv_view_json y))"

lemma copy_view_run:
  assumes "copy_shared_view remap new_id email shown now x ev w = (Inr p, w')"
  shows "\<exists>y. db w' = db w\<lparr>workspace_saved_views := workspace_saved_views (db w) @ [y]\<rparr> \<and> is_copy ev remap new_id email x y \<and> p = (rv_id x, rv_id y)"
proof -
  from assms obtain view json new_view_id w0 where "ev_view_in ev (rv_view_json x) = Inr view" "ev_view_out ev (clear_source_urls (view_remap remap view)) = Inr json"
    "db w0 = db w" "p = (rv_id x, new_view_id)" and
    i: "insert_saved_view \<lparr>rv_id = new_view_id, rv_workspace_id = new_id, rv_name = rv_name x, rv_created_by = email,
       rv_created_by_name = shown, rv_created_at = now, rv_updated_at = now, rv_visibility = ''shared'', rv_view_json = json\<rparr> ev w0 = (Inr (), w')"
    unfolding copy_shared_view_def bind_run res_run by (auto dest!: env_run)
  moreover from i have "db w' = db w0\<lparr>workspace_saved_views := workspace_saved_views (db w0) @ [\<lparr>rv_id = new_view_id, rv_workspace_id = new_id, rv_name = rv_name x, rv_created_by = email,
       rv_created_by_name = shown, rv_created_at = now, rv_updated_at = now, rv_visibility = ''shared'', rv_view_json = json\<rparr>]\<rparr>"
    unfolding insert_saved_view_def by (auto dest!: execute_run split: if_splits)
  ultimately show ?thesis by (auto simp: is_copy_def)
qed

lemma copy_views_run:
  "act_each (copy_shared_view remap new_id email shown now) xs ev w = (Inr ids, w') \<Longrightarrow>
    \<exists>ys. db w' = db w\<lparr>workspace_saved_views := workspace_saved_views (db w) @ ys\<rparr> \<and> list_all2 (is_copy ev remap new_id email) xs ys \<and>
      ids = zip (map rv_id xs) (map rv_id ys)"
proof (induction xs arbitrary: w ids)
  case (Cons x xs)
  from Cons.prems obtain p w1 ps where w1: "copy_shared_view remap new_id email shown now x ev w = (Inr p, w1)"
    and rest: "act_each (copy_shared_view remap new_id email shown now) xs ev w1 = (Inr ps, w')" and ids: "ids = p # ps"
    by (auto simp: bind_run res_run)
  from copy_view_run [OF w1] obtain y where y: "db w1 = db w\<lparr>workspace_saved_views := workspace_saved_views (db w) @ [y]\<rparr>"
    "is_copy ev remap new_id email x y" "p = (rv_id x, rv_id y)" by blast
  from Cons.IH [OF rest] obtain ys where "db w' = db w1\<lparr>workspace_saved_views := workspace_saved_views (db w1) @ ys\<rparr>"
    "list_all2 (is_copy ev remap new_id email) xs ys" "ps = zip (map rv_id xs) (map rv_id ys)" by blast
  with y ids show ?case by (intro exI [of _ "y # ys"]) simp
qed (simp add: res_run)

lemma insert_blank_run:
  assumes "insert_blank_owned_workspace i email shown name json now ev w = (Inr u, w')"
  shows "i \<notin> rw_id ` set (workspaces (db w)) \<and>
    db w' = db w\<lparr>workspaces := workspaces (db w) @ [\<lparr>rw_id = i, rw_name = name, rw_created_by = email, rw_created_at = now, rw_updated_at = now,
       rw_archived_at = None, rw_link_access = ''restricted'', rw_link_role = ''viewer'', rw_seq = 0, rw_document_json = json, rw_default = None\<rparr>],
      workspace_members := workspace_members (db w) @ [\<lparr>rm_workspace_id = i, rm_email = email, rm_role = ''owner'', rm_display_name = shown, rm_added_at = now\<rparr>]\<rparr>"
proof -
  have row: "rw_id r \<notin> rw_id ` set (workspaces (db v)) \<and> db v' = db v\<lparr>workspaces := workspaces (db v) @ [r]\<rparr>"
    if "insert_workspace r ev v = (Inr u, v')" for r v v' u
    using execute_run [OF that [unfolded insert_workspace_def]] by (auto simp: has_workspace_iff split: if_splits)
  have member: "db v' = db v\<lparr>workspace_members := workspace_members (db v) @ [m]\<rparr>" if "insert_member m ev v = (Inr u, v')" for m v v' u
    using execute_run [OF that [unfolded insert_member_def]] by (auto split: if_splits)
  from assms show ?thesis
    unfolding insert_blank_owned_workspace_def bind_run by (auto dest!: row member)
qed

lemma set_default_run:
  assumes "set_default_on_copy i found ev w = (Inr (), w')" "workspaces (db w) = rows @ [r]" "i \<notin> rw_id ` set rows" "rw_id r = i" "rw_default r = None"
  shows "db w' = db w\<lparr>workspaces := rows @ [r\<lparr>rw_default := found\<rparr>]\<rparr>"
proof (cases found)
  case None
  with assms show ?thesis by (simp add: set_default_on_copy_def res_run)
next
  case (Some v)
  have "update_where (\<lambda>r. rw_id r = i) f rows = rows" for f :: "'a workspace_row \<Rightarrow> 'a workspace_row"
    using assms(3) unfolding update_where_def by (induction rows) auto
  with Some assms show ?thesis
    unfolding set_default_on_copy_def update_workspaces_def
    by (auto simp: bind_run res_run update_where_def dest!: execute_run)
qed



end
