(* ===== verification/Spec2Isabelle.thy ===== *)
theory Spec2Isabelle
  imports Limiter StoreRuns SceneSync Anomalies Collection Manifest Geometry EndToEnd Proxy
    ViewPrivacy WorkspaceAccess
begin

text \<open>
  A verification library for Lucida, a collaborative viewer of OME-Zarr microscopy data.

  \<^bold>\<open>The program.\<close> A server opens datasets in object stores and serves their chunks to
  browsers; every browser runs the same core (\<^verbatim>\<open>lucida-core\<close>) over a document it shares
  with its peers. Volumes are converted to pyramids of chunks first. Six parts are modelled,
  each from the code named below.

  \<^bold>\<open>Reading from the source\<close> (\<^verbatim>\<open>lucida-store\<close>, \<^verbatim>\<open>lucida-server\<close>).
  \<^item> \<open>Limiter\<close>: \<^verbatim>\<open>source_limiter.rs\<close>, the fair share of backend reads. The mutex makes each
    operation one step; \<open>lim_step\<close> is every interleaving of them. The cap is never exceeded,
    a returned permit goes to a reader with the fewest reads, no panic is reachable.
  \<^item> \<open>Flights\<close>: the single flight and range merge of \<^verbatim>\<open>cache.rs\<close>. The state is the table and
    the guards that are alive; \<open>fl_step\<close> interleaves claims, completions and drops. Every
    registered read is answered for by a live guard, so nobody waits for ever.
  \<^item> \<open>ReadCache\<close>: the rest of \<^verbatim>\<open>cache.rs\<close>: the byte-budgeted LRU, the memo of absent objects,
    and every read and probe as a task; \<open>store_step\<close> is every interleaving of tasks, answers
    and cancellations. \<open>StoreRuns\<close>: reading through the cache is reading the source, the budget
    holds, a waiter always has a live leader and a leader always finishes.
  \<^item> \<open>Bytes\<close>, \<open>Text\<close>: checked slices, little-endian words, decimal numbers, splitting.
  \<^item> \<open>Codec\<close>: the codec allowlist of \<^verbatim>\<open>codec.rs\<close>, with its messages.
  \<^item> \<open>Blosc\<close>: the decoder of \<^verbatim>\<open>decode/blosc.rs\<close>; it never panics, answers with exactly the
    announced number of bytes, and inverts the frames zstd writes, for both filters.
  \<^item> \<open>ChunkPath\<close>, \<open>ByteLayout\<close>: chunk keys, store paths (\<^verbatim>\<open>lucida-store/src/lib.rs\<close>) and the
    slice of one timepoint and channel (\<^verbatim>\<open>layout.rs\<close>), against row-major array indexing.
  \<^item> \<open>Shard\<close>: \<^verbatim>\<open>shard.rs\<close>, the location of an inner chunk, the shard's index and its cache.
  \<^item> \<open>Geometry\<close>: \<^verbatim>\<open>collection_geometry.rs\<close>, the geometry a collection declares for all of its
    tiles and what the server answers for a tile bound to it.
  \<^item> \<open>ChunkRead\<close>: the server's resolver (\<^verbatim>\<open>binding.rs\<close>), the storage decode (\<^verbatim>\<open>decode.rs\<close>) and
    one chunk request (\<^verbatim>\<open>chunk_read.rs\<close>), with the assembly of regridded chunks.

  \<^bold>\<open>Ingest\<close> (\<^verbatim>\<open>lucida-store/src/ingest\<close>).
  \<^item> \<open>Downsample\<close>, \<open>Schedule\<close>: \<^verbatim>\<open>pyramid/\<close>, box averaging against its definition and the
    halving schedule, whose loop ends for every voxel size.
  \<^item> \<open>Ingest\<close>: chunk extraction, the documents and the level pipeline (\<^verbatim>\<open>zarr_writer.rs\<close>,
    \<^verbatim>\<open>ome_metadata.rs\<close>, \<^verbatim>\<open>mod.rs\<close>); a file operation is an event whose failure is a parameter.
    \<open>Pyramid\<close>: what is on disk afterwards, and that the server's read path returns it.
  \<^item> \<open>TiffPages\<close>: \<^verbatim>\<open>tiff_reader.rs\<close>, page order and the two readers; \<open>Collection\<close>: the scan,
    layout and assembly of tiled collections (\<^verbatim>\<open>collection_*.rs\<close>). Copies through raw
    pointers are shown to stay inside their buffer.

  \<^bold>\<open>Proxies\<close> (\<^verbatim>\<open>lucida-proxy\<close>), low-resolution stand-ins for tiles and groups.
  \<^item> \<open>Proxy\<close>: the stored header, the hash that tells a stale proxy, size estimates, and the
    generation of a proxy from a voxel source. Headers read back; the hash does not depend on
    the order of the manifest; a tile proxy is the box mean of the tile; with a source that keeps
    to its contract and an addressable size nothing panics and the estimate is the size that is generated.

  \<^bold>\<open>The shared document\<close> (\<^verbatim>\<open>lucida-content\<close>, \<^verbatim>\<open>lucida-protocol\<close>, \<^verbatim>\<open>lucida-core/src/scene/types.rs\<close>).
  \<^item> \<open>Content\<close>: the manifest, layouts, pyramids and position lookup.
  \<^item> \<open>Manifest\<close>: the compact wire form of a manifest (\<^verbatim>\<open>graph.rs\<close>), over the hash-bucketed scan
    for shared values in \<open>Dedup\<close>: a round trip, the limits of the decoder, and that the hash
    does not matter.
  \<^item> \<open>Fetch\<close>: the compact wire form of \<^verbatim>\<open>fetch.rs\<close> and its decoder, an instance of \<open>codec\<close>.
  \<^item> \<open>Document\<close>: \<^verbatim>\<open>DocumentState\<close> and every document command; \<open>Replay\<close>: what peers rely on
    (what a repeated command may still change, removal is exact, the invariant of reachable
    documents); \<open>Pins\<close>: label settings, anchors, duplicated workspaces.

  \<^bold>\<open>The viewer\<close> (\<^verbatim>\<open>lucida-core\<close>).
  \<^item> \<open>F64\<close>: exact IEEE doubles; \<open>Camera\<close>: \<^verbatim>\<open>camera.rs\<close>, its mutators and \<^verbatim>\<open>sanitize\<close>.
  \<^item> \<open>Scene\<close>, \<open>Commands\<close>: \<^verbatim>\<open>scene/mod.rs\<close> and \<^verbatim>\<open>command.rs\<close>, the scene, its derived state and
    every command; \<open>SceneProps\<close>, \<open>SceneSync\<close>: epochs, how far the derived state follows the
    document (a layout registered after its activation is the one exception), the
    refinement of the server's document, loading a snapshot.
  \<^item> \<open>ViewQuery\<close>: the deltas of \<^verbatim>\<open>query.rs\<close> against the full query; \<open>Anomalies\<close>: the shape
    report of a manifest.
  \<^item> \<open>ChunkPlan\<close>: \<^verbatim>\<open>chunk.rs\<close> and \<^verbatim>\<open>target_level.rs\<close>, which chunks of which level a view requests;
    the planners agree, no chunk in view is lost to rounding, the level is always one of the
    pyramid. \<open>EndToEnd\<close> composes ingest, planning and the read path: what was ingested is what
    the server answers to every planned request.

  \<^bold>\<open>Workspaces\<close> (\<^verbatim>\<open>lucida-server/src/workspace\<close>), who shares which documents and saved views.
  \<^item> \<open>WorkspaceTables\<close>: the vocabulary (\<^verbatim>\<open>types.rs\<close>), the rows of the tables, and actions over them:
    a statement may fail, a transaction commits all of its statements or none.
    \<open>WorkspaceStore\<close>: every operation of \<^verbatim>\<open>store/sqlite.rs\<close> by the statements of \<^verbatim>\<open>store/sql.rs\<close>.
  \<^item> \<open>Workspaces\<close>: the rules of \<^verbatim>\<open>manager.rs\<close> and \<^verbatim>\<open>preview.rs\<close>, in the order of their checks.
  \<^item> \<open>WorkspaceRules\<close>: triples for every action, hence the invariant of the tables under any sequence
    of requests and faults. \<open>ViewPrivacy\<close>: a relational logic over pairs of stores, hence that requests
    about views reveal nothing of views the caller may not see but which refusal a default gets; also three runs that break a
    promise of the code's comments. \<open>WorkspaceAccess\<close>: a workspace that is not shared with a caller is refused, as if there were
    none unless the store fails, and what a duplicate holds.

  \<^bold>\<open>Interfaces.\<close> \<open>Prelude\<close> has two contracts as locales: \<open>invariant_system\<close> (an invariant of
  a step relation holds in every reachable state), interpreted for the limiter, the in-flight
  table, the cached store, the document, the scene and the workspace tables; and \<open>codec\<close> (decoding inverts
  encoding), interpreted for the fetch descriptors. \<open>Dedup\<close> has \<open>hashed_equality\<close> (equal values
  hash equal), interpreted for the pyramids of a manifest.

  \<^bold>\<open>Conventions.\<close> A Rust panic is the value \<open>None\<close> of the operation, an error is \<open>Inl\<close>. Arithmetic is
  that of a release build, which wraps. Running out of memory is not modelled; buffers whose size is a product that can wrap or
  exceed what a vector may ask for (\<open>zeroed_vec\<close>: group proxies, collection tiles) are. Hash
  maps are association lists or partial maps. Machine integers are words, or numbers with
  the wrap-around or saturation written out. Every loop is a terminating recursion, except four
  partial functions that are shown to return: the eviction loop of the cache, the schedule,
  the planar pyramid and the page loop of a TIFF with finitely many pages. No definition
  carries fuel. Code outside the repository is a parameter: the transcendental
  functions (\<open>libm\<close>), the \<^verbatim>\<open>LruCache\<close> and hasher of the libraries, zstd, lz4, crc32c, blake3,
  the voxel source behind a proxy (the trait of \<^verbatim>\<open>source.rs\<close>),
  the accessors of \<^verbatim>\<open>serde_json\<close>, \<^verbatim>\<open>Path::from\<close>, the reads of the object store and the text of
  its errors, the TIFF decoder, the file system, the regular expression of file names, and for the workspace
  store the faults of the database, the clock, the UUIDs and the JSON text of documents and views.

  \<^bold>\<open>Not modelled.\<close> The float projection behind \<^verbatim>\<open>view_query\<close> (a parameter of \<open>ViewQuery\<close>),
  the frustum a camera sees, picking and framing; the import of OME-Zarr metadata, which
  is object-store I/O and JSON; generated levels; HTTP, websockets,
  authentication; the SQL engine (each statement is the function of the tables it denotes) and the
  PostgreSQL store, which runs the same statements; the command line; the bindings to JavaScript. Read timing, probes and tracing are left out of the modelled
  operations.
\<close>

end
